(* ===== verification/JsValue.thy ===== *)
theory JsValue
  imports Prelude
begin

text \<open>
  JavaScript values as the runtime handles them: what a workflow passes to a call, what an
  event carries and what is compared on replay. A value is JSON-like data or an error
  object; functions and promises are never data here (the workflow's closures are named by
  references, see \<^verbatim>\<open>Calls\<close>). Numbers are integers: the runtime's own numbers are sequence
  numbers, enum codes and millisecond times. An object is the list of its own enumerable
  properties in order. Errors carry the class they were built with, their \<open>name\<close> and their
  \<open>message\<close> (packages/@eventual/core/src/error.ts).

  The theory holds \<open>deepEqual\<close>, \<open>extendsError\<close> and \<open>extendsSystemError\<close> of
  core-runtime/src/utils.ts, and the JavaScript library's \<open>JSON.stringify\<close> together with
  \<open>json_copy\<close>, the value that \<open>JSON.parse\<close> gives back for it.
\<close>

section \<open>Values and errors\<close>

datatype error_class =
    EError
  | EEventualError
  | ESystemError
  | EDeterminismError
  | ETimeout
  | EHeartbeatTimeout
  | EWorkflowTimeout
  | ETaskNotFoundError
  | EExecutionAlreadyExists
  | EUnexpectedVersion
  | ETransactionCancelled
  | ETransactionConflict

datatype js =
    JUndef
  | JNull
  | JBool bool
  | JNum int
  | JStr string
  | JArr "js list"
  | JObj "(string \<times> js) list"
  | JErr error_class string string

text \<open>The subclass relation of error.ts: which classes extend \<open>EventualError\<close> and \<open>SystemError\<close>.\<close>

fun extends_eventual_error :: "error_class \<Rightarrow> bool" where
  "extends_eventual_error EError = False"
| "extends_eventual_error ETaskNotFoundError = False"
| "extends_eventual_error EExecutionAlreadyExists = False"
| "extends_eventual_error EUnexpectedVersion = False"
| "extends_eventual_error _ = True"

fun extends_system_error :: "error_class \<Rightarrow> bool" where
  "extends_system_error ESystemError = True"
| "extends_system_error EDeterminismError = True"
| "extends_system_error EWorkflowTimeout = True"
| "extends_system_error _ = False"

lemma system_error_is_eventual: "extends_system_error c \<Longrightarrow> extends_eventual_error c"
  by (cases c) auto

text \<open>The constructors of error.ts. A plain \<open>Error\<close> keeps the name \<open>Error\<close>.\<close>

definition mk_Error :: "string \<Rightarrow> js" where
  "mk_Error m = JErr EError ''Error'' m"

definition mk_TypeError :: "string \<Rightarrow> js" where
  "mk_TypeError m = JErr EError ''TypeError'' m"

definition mk_EventualError :: "string \<Rightarrow> string option \<Rightarrow> js" where
  "mk_EventualError n m = JErr EEventualError n (the_default '''' m)"

definition mk_SystemError :: "string option \<Rightarrow> string option \<Rightarrow> js" where
  "mk_SystemError n m = JErr ESystemError (the_default ''SystemError'' n) (the_default '''' m)"

definition mk_DeterminismError :: "string option \<Rightarrow> js" where
  "mk_DeterminismError m = JErr EDeterminismError ''DeterminismError'' (the_default '''' m)"

definition mk_Timeout :: "string option \<Rightarrow> js" where
  "mk_Timeout m = JErr ETimeout ''Timeout'' (the_default '''' m)"

definition mk_HeartbeatTimeout :: "string option \<Rightarrow> js" where
  "mk_HeartbeatTimeout m = JErr EHeartbeatTimeout ''HeartbeatTimeout'' (the_default '''' m)"

definition mk_WorkflowTimeout :: "string option \<Rightarrow> js" where
  "mk_WorkflowTimeout m = JErr EWorkflowTimeout ''WorkflowTimeout'' (the_default '''' m)"

definition mk_TaskNotFoundError :: "string \<Rightarrow> string list \<Rightarrow> js" where
  "mk_TaskNotFoundError task available =
     JErr ETaskNotFoundError ''Error''
       (''Could not find a task with the name '' @ task @ '', found: '' @ join_with '','' available)"

definition mk_ExecutionAlreadyExists :: "string \<Rightarrow> string \<Rightarrow> js" where
  "mk_ExecutionAlreadyExists name workflow =
     JErr EExecutionAlreadyExists ''Error''
       (''Execution name '' @ name @ '' already exists for workflow '' @ workflow
          @ '' with different inputs.'')"

definition mk_UnexpectedVersion :: "string \<Rightarrow> js" where
  "mk_UnexpectedVersion m = JErr EUnexpectedVersion ''Error'' m"

text \<open>The \<open>reasons\<close> of a cancelled transaction are kept beside it where they are used.\<close>

definition mk_TransactionCancelled :: js where
  "mk_TransactionCancelled =
     JErr ETransactionCancelled ''TransactionCancelled'' ''Transaction cancelled, see reasons''"

definition mk_TransactionConflict :: js where
  "mk_TransactionConflict =
     JErr ETransactionConflict ''TransactionConflict''
       ''Transaction conflicted with another operation''"

text \<open>
  \<open>extendsError\<close> and \<open>extendsSystemError\<close>: an instance of the class. Their second
  disjunct (an object with a \<open>prototype\<close> property that is in \<open>Error\<close>'s prototype chain)
  concerns function objects, which are not values here; for data it is false.
\<close>

fun extendsError :: "js \<Rightarrow> bool" where
  "extendsError (JErr c n m) = True"
| "extendsError _ = False"

fun extendsSystemError :: "js \<Rightarrow> bool" where
  "extendsSystemError (JErr c n m) = extends_system_error c"
| "extendsSystemError _ = False"

lemma extendsSystemError_Error: "extendsSystemError e \<Longrightarrow> extendsError e"
  by (cases e) auto

fun truthy :: "js \<Rightarrow> bool" where
  "truthy JUndef = False"
| "truthy JNull = False"
| "truthy (JBool b) = b"
| "truthy (JNum n) = (n \<noteq> 0)"
| "truthy (JStr s) = (s \<noteq> [])"
| "truthy _ = True"

text \<open>
  \<open>Object.entries\<close>. An error's \<open>message\<close> and \<open>stack\<close> are not enumerable; \<open>EventualError\<close>
  assigns \<open>this.name\<close>, which then is.
\<close>

fun own_entries :: "js \<Rightarrow> (string \<times> js) list" where
  "own_entries (JObj fs) = fs"
| "own_entries (JErr c n m) = (if extends_eventual_error c then [(''name'', JStr n)] else [])"
| "own_entries _ = []"

text \<open>\<open>obj[k]\<close>, undefined when the property is absent.\<close>

definition js_get :: "js \<Rightarrow> string \<Rightarrow> js" where
  "js_get v k = (case map_of (own_entries v) k of None \<Rightarrow> JUndef | Some x \<Rightarrow> x)"

definition js_obj :: "js \<Rightarrow> bool" where
  "js_obj v = (case v of JObj _ \<Rightarrow> True | JErr _ _ _ \<Rightarrow> True | _ \<Rightarrow> False)"

section \<open>deepEqual\<close>

text \<open>\<open>Object.entries(a).filter(([, value]) => value !== undefined).map(([name]) => name)\<close>\<close>

definition defined_keys :: "js \<Rightarrow> string list" where
  "defined_keys v = map fst (filter (\<lambda>(k, x). x \<noteq> JUndef) (own_entries v))"

definition js_prim :: "js \<Rightarrow> bool" where
  "js_prim v = (case v of JArr _ \<Rightarrow> False | JObj _ \<Rightarrow> False | JErr _ _ _ \<Rightarrow> False | _ \<Rightarrow> True)"

definition js_measure :: "js \<Rightarrow> nat" where
  "js_measure v = size v + (case v of JErr _ _ _ \<Rightarrow> 1 | _ \<Rightarrow> 0)"

lemma size_field: "(k, v) \<in> set fs \<Longrightarrow> js_measure v < size (JObj fs)"
  by (induction fs) (auto simp: js_measure_def split: js.splits)

lemma size_elem: "x \<in> set xs \<Longrightarrow> js_measure x < size (JArr xs)"
  by (induction xs) (auto simp: js_measure_def split: js.splits)

lemma js_measure_elem: "x \<in> set xs \<Longrightarrow> js_measure x < js_measure (JArr xs)"
  using size_elem [of x xs] by (simp add: js_measure_def)

lemma js_get_in: "k \<in> set (defined_keys v) \<Longrightarrow> (k, js_get v k) \<in> set (own_entries v)"
  by (auto simp: js_get_def defined_keys_def weak_map_of_SomeI map_of_SomeD
      dest!: weak_map_of_SomeI split: option.splits)

lemma size_js_get: "k \<in> set (defined_keys v) \<Longrightarrow> js_measure (js_get v k) < js_measure v"
  by (drule js_get_in, cases v)
    (auto simp: js_measure_def dest: size_field [unfolded js_measure_def] split: if_splits)

text \<open>
  The comparison, branch by branch. \<open>===\<close> on primitive values is equality; on objects it is
  identity, which is not observable here, because equal data is found equal by the recursion
  too (\<open>deepEqual_refl\<close>). Two objects are compared on their defined keys: as many in one as
  in the other, every key of the first among the keys of the second, with equal values.
\<close>

function deepEqual :: "js \<Rightarrow> js \<Rightarrow> bool" where
  "deepEqual a b =
     (if js_prim a \<or> js_prim b then a = b
      else (case (a, b) of
        (JArr xs, JArr ys) \<Rightarrow>
          length xs = length ys \<and> list_all (\<lambda>(x, y). deepEqual x y) (zip xs ys)
      | (JArr xs, _) \<Rightarrow> False
      | (_, JArr ys) \<Rightarrow> False
      | (_, _) \<Rightarrow>
          length (defined_keys a) = length (defined_keys b) \<and>
          list_all (\<lambda>k. k \<in> set (defined_keys b) \<and> deepEqual (js_get a k) (js_get b k))
            (defined_keys a)))"
  by pat_completeness auto
termination
  by (relation "measure (\<lambda>(a, b). js_measure a)")
    (auto dest!: set_zip_leftD dest: size_elem size_js_get simp: js_measure_def)

declare deepEqual.simps [simp del]

lemma deepEqual_prim: "js_prim a \<or> js_prim b \<Longrightarrow> deepEqual a b \<longleftrightarrow> a = b"
  by (simp add: deepEqual.simps [of a b])

lemma js_prim_simps [simp, js_simps]:
  "js_prim JUndef" "js_prim JNull" "js_prim (JBool b)" "js_prim (JNum i)" "js_prim (JStr s)"
  "\<not> js_prim (JArr xs)" "\<not> js_prim (JObj fs)" "\<not> js_prim (JErr c n m)"
  by (simp_all add: js_prim_def)

lemma deepEqual_JArr:
  "deepEqual (JArr xs) (JArr ys) \<longleftrightarrow> list_all2 deepEqual xs ys"
  by (simp add: deepEqual.simps [of "JArr xs" "JArr ys"] list_all2_iff list_all_iff)

lemma deepEqual_obj:
  "js_obj a \<Longrightarrow> js_obj b \<Longrightarrow> deepEqual a b \<longleftrightarrow>
     length (defined_keys a) = length (defined_keys b) \<and>
     (\<forall>k \<in> set (defined_keys a).
        k \<in> set (defined_keys b) \<and> deepEqual (js_get a k) (js_get b k))"
  by (cases a; cases b) (simp_all add: js_obj_def deepEqual.simps list_all_iff)

lemma deepEqual_refl [simp]: "deepEqual a a"
proof (induction a rule: measure_induct_rule [of js_measure])
  case (less a)
  show ?case
  proof (cases "js_prim a")
    case True
    then show ?thesis by (simp add: deepEqual_prim)
  next
    case False
    then show ?thesis
    proof (cases a)
      case (JArr xs)
      have "\<forall>x \<in> set xs. deepEqual x x"
        using less.IH [unfolded JArr, OF js_measure_elem] by simp
      then show ?thesis by (simp add: JArr deepEqual_JArr list.rel_refl_strong)
    qed (use less.IH [OF size_js_get] in \<open>simp_all add: deepEqual_obj js_obj_def js_prim_def\<close>)
  qed
qed

section \<open>JSON\<close>

text \<open>
  What \<open>JSON.parse(JSON.stringify(v))\<close> gives for a defined \<open>v\<close>: undefined properties are
  dropped, undefined elements of arrays become null, and an \<open>EventualError\<close> turns into the
  object of its \<open>toJSON\<close> (error.ts), any other error into the empty object.
\<close>

fun error_to_json :: "error_class \<Rightarrow> string \<Rightarrow> string \<Rightarrow> (string \<times> js) list" where
  "error_to_json c n m =
     (if extends_eventual_error c
      then (''name'', JStr n) # (if m \<noteq> [] then [(''message'', JStr m)] else [])
      else [])"

function json_copy :: "js \<Rightarrow> js" where
  "json_copy (JArr xs) = JArr (map (\<lambda>x. if x = JUndef then JNull else json_copy x) xs)"
| "json_copy (JObj fs) =
     JObj (map (\<lambda>(k, x). (k, json_copy x)) (filter (\<lambda>(k, x). x \<noteq> JUndef) fs))"
| "json_copy (JErr c n m) = JObj (error_to_json c n m)"
| "json_copy JUndef = JUndef"
| "json_copy JNull = JNull"
| "json_copy (JBool b) = JBool b"
| "json_copy (JNum i) = JNum i"
| "json_copy (JStr s) = JStr s"
  by pat_completeness auto
termination
  by (relation "measure js_measure")
    (auto dest: size_elem size_field simp: js_measure_def)

text \<open>
  Data that survives JSON unharmed: no error objects, no undefined array elements, and (as
  for every JavaScript object) no property twice.
\<close>

function json_plain :: "js \<Rightarrow> bool" where
  "json_plain (JArr xs) \<longleftrightarrow> list_all (\<lambda>x. x \<noteq> JUndef \<and> json_plain x) xs"
| "json_plain (JObj fs) \<longleftrightarrow> distinct (map fst fs) \<and> list_all (\<lambda>(k, x). json_plain x) fs"
| "json_plain (JErr c n m) \<longleftrightarrow> False"
| "json_plain JUndef \<longleftrightarrow> True"
| "json_plain JNull \<longleftrightarrow> True"
| "json_plain (JBool b) \<longleftrightarrow> True"
| "json_plain (JNum i) \<longleftrightarrow> True"
| "json_plain (JStr s) \<longleftrightarrow> True"
  by pat_completeness auto
termination
  by (relation "measure js_measure")
    (auto dest: size_elem size_field simp: js_measure_def)

lemma json_copy_prim: "js_prim v \<Longrightarrow> json_copy v = v"
  by (cases v) auto

lemma json_copy_eq_JUndef [simp]: "json_copy v = JUndef \<longleftrightarrow> v = JUndef"
  by (cases v) auto

lemma defined_keys_json_copy: "defined_keys (json_copy (JObj fs)) = defined_keys (JObj fs)"
  by (induction fs) (auto simp: defined_keys_def)

lemma js_get_JObj_in:
  "distinct (map fst fs) \<Longrightarrow> (k, x) \<in> set fs \<Longrightarrow> js_get (JObj fs) k = x"
  by (simp add: js_get_def)

lemma js_get_json_copy:
  assumes "distinct (map fst fs)" and "k \<in> set (defined_keys (JObj fs))"
  shows "js_get (json_copy (JObj fs)) k = json_copy (js_get (JObj fs) k)"
proof -
  let ?gs = "map (\<lambda>(k, x). (k, json_copy x)) (filter (\<lambda>(k, x). x \<noteq> JUndef) fs)"
  from assms(2) obtain x where x: "(k, x) \<in> set fs" "x \<noteq> JUndef"
    by (auto simp: defined_keys_def)
  then have "(k, json_copy x) \<in> set ?gs" by force
  moreover have "map fst ?gs = map fst (filter (\<lambda>(k, x). x \<noteq> JUndef) fs)" by auto
  then have "distinct (map fst ?gs)"
    using distinct_map_filter_inj [OF assms(1), of "\<lambda>(k, x). x \<noteq> JUndef"] by (simp only:)
  ultimately have "js_get (JObj ?gs) k = json_copy x" by (rule js_get_JObj_in [rotated])
  moreover have "js_get (JObj fs) k = x" using x assms(1) by (simp add: js_get_JObj_in)
  ultimately show ?thesis by simp
qed

lemma deepEqual_json_copy: "json_plain v \<Longrightarrow> deepEqual (json_copy v) v \<and> deepEqual v (json_copy v)"
proof (induction v rule: measure_induct_rule [of js_measure])
  case (less v)
  show ?case
  proof (cases v)
    case (JArr xs)
    have "\<forall>x \<in> set xs. deepEqual (json_copy x) x \<and> deepEqual x (json_copy x) \<and> x \<noteq> JUndef"
      using less.IH [unfolded JArr, OF js_measure_elem] less.prems by (simp add: JArr list_all_iff)
    then show ?thesis
      by (auto simp: JArr deepEqual_JArr list_all2_map1 list_all2_map2 intro!: list.rel_refl_strong)
  next
    case (JObj fs)
    have dist: "distinct (map fst fs)" using less.prems by (simp add: JObj)
    have field: "deepEqual (json_copy (js_get v k)) (js_get v k)
        \<and> deepEqual (js_get v k) (json_copy (js_get v k))" if "k \<in> set (defined_keys v)" for k
    proof (rule less.IH)
      show "js_measure (js_get v k) < js_measure v" using that by (rule size_js_get)
      have "(k, js_get v k) \<in> set fs" using js_get_in [OF that] by (simp add: JObj)
      then show "json_plain (js_get v k)" using less.prems by (auto simp: JObj list_all_iff)
    qed
    obtain gs where gs: "json_copy (JObj fs) = JObj gs" by simp
    show ?thesis
      using field js_get_json_copy [OF dist] defined_keys_json_copy [of fs]
      by (simp add: JObj deepEqual_obj js_obj_def gs)
  qed (use less.prems in auto)
qed

lemma json_plain_json_copy:
  assumes "json_plain v"
  shows "json_plain (json_copy v)"
  using assms
proof (induction v rule: json_copy.induct)
  case (2 fs)
  have "distinct (map fst (map (\<lambda>(k, x). (k, json_copy x)) (filter (\<lambda>(k, x). x \<noteq> JUndef) fs)))"
    using distinct_map_filter_inj [of fst fs] "2.prems"
    by (simp add: case_prod_beta' comp_def)
  with "2" show ?case by (auto simp: list_all_iff)
qed (auto simp: list_all_iff)

text \<open>\<open>JSON.stringify\<close>: the text of a value, or undefined for undefined.\<close>

definition json_escape :: "char \<Rightarrow> string" where
  "json_escape c =
     (if c = CHR 0x22 then [CHR 0x5C, CHR 0x22]
      else if c = CHR 0x5C then [CHR 0x5C, CHR 0x5C]
      else if c = CHR 0x08 then [CHR 0x5C, CHR ''b'']
      else if c = CHR 0x09 then [CHR 0x5C, CHR ''t'']
      else if c = CHR 0x0A then [CHR 0x5C, CHR ''n'']
      else if c = CHR 0x0C then [CHR 0x5C, CHR ''f'']
      else if c = CHR 0x0D then [CHR 0x5C, CHR ''r'']
      else if of_char c < (32::nat)
        then [CHR 0x5C, CHR ''u'', CHR ''0'', CHR ''0'',
              ''0123456789abcdef'' ! (of_char c div 16), ''0123456789abcdef'' ! (of_char c mod 16)]
      else [c])"

definition json_quote :: "string \<Rightarrow> string" where
  "json_quote s = [CHR 0x22] @ concat (map json_escape s) @ [CHR 0x22]"

function stringify :: "js \<Rightarrow> string option" where
  "stringify JUndef = None"
| "stringify JNull = Some ''null''"
| "stringify (JBool b) = Some (if b then ''true'' else ''false'')"
| "stringify (JNum i) = Some (int_str i)"
| "stringify (JStr s) = Some (json_quote s)"
| "stringify (JArr xs) =
     Some (''['' @ join_with '','' (map (\<lambda>x. the_default ''null'' (stringify x)) xs) @ '']'')"
| "stringify (JObj fs) =
     Some (''{'' @ join_with '','' (map (\<lambda>(k, x). json_quote k @ '':'' @ the_default '''' (stringify x))
       (filter (\<lambda>(k, x). x \<noteq> JUndef) fs)) @ ''}'')"
| "stringify (JErr c n m) =
     Some (''{'' @ join_with '','' (map (\<lambda>(k, x). json_quote k @ '':'' @ the_default '''' (stringify x))
       (error_to_json c n m)) @ ''}'')"
  by pat_completeness auto
termination
  by (relation "measure js_measure")
    (auto dest: size_elem size_field simp: js_measure_def split: if_splits)

lemma stringify_defined: "stringify v = None \<longleftrightarrow> v = JUndef"
  by (cases v) auto

text \<open>A value and its JSON copy have the same text: undefined properties leave no trace in it.\<close>

lemma stringify_json_copy: "stringify (json_copy v) = stringify v"
proof (induction v rule: json_copy.induct)
  case (1 xs)
  then show ?case by (auto simp: comp_def intro!: arg_cong [where f = "join_with '',''"])
next
  case (2 fs)
  have copy: "stringify (json_copy x) = stringify x" if "(k, x) \<in> set fs" "x \<noteq> JUndef" for k x
    using "2" that by force
  have "map (\<lambda>(k, x). json_quote k @ '':'' @ the_default '''' (stringify x))
          (map (\<lambda>(k, x). (k, json_copy x)) (filter (\<lambda>(k, x). x \<noteq> JUndef) fs))
      = map (\<lambda>(k, x). json_quote k @ '':'' @ the_default '''' (stringify x))
          (filter (\<lambda>(k, x). x \<noteq> JUndef) fs)"
    using copy by auto
  moreover have "filter (\<lambda>(k, x). x \<noteq> JUndef)
        (map (\<lambda>(k, x). (k, json_copy x)) (filter (\<lambda>(k, x). x \<noteq> JUndef) fs))
      = map (\<lambda>(k, x). (k, json_copy x)) (filter (\<lambda>(k, x). x \<noteq> JUndef) fs)"
    by (auto simp: filter_id_conv)
  ultimately show ?case by (simp only: json_copy.simps stringify.simps)
qed auto

section \<open>What persisting a value does to the comparison\<close>

text \<open>
  A value that was written to JSON and read back equals, for \<open>deepEqual\<close>, the
  value itself, in both directions, when it holds neither error objects nor undefined array
  elements: such an event of a call is recognised on replay.
\<close>

theorem persisted_value_is_equal:
  assumes "json_plain v"
  shows "deepEqual (json_copy v) v \<and> deepEqual v (json_copy v) \<and> stringify (json_copy v) = stringify v"
  using assms deepEqual_json_copy [OF assms] stringify_json_copy [of v] by blast

text \<open>
  Without that restriction it does not hold. An array with an undefined element is
  a legal argument of a call, is written with null in its place, and no longer equals itself:
  the replay of that call fails.
\<close>

theorem undefined_element_is_not_replayed:
  "json_copy (JArr (xs @ [JUndef])) = JArr (map (\<lambda>x. if x = JUndef then JNull else json_copy x) xs @ [JNull]) \<and>
   \<not> deepEqual (json_copy (JArr (xs @ [JUndef]))) (JArr (xs @ [JUndef]))"
proof -
  have "\<not> deepEqual JNull JUndef" by (simp add: deepEqual_prim)
  then show ?thesis by (simp add: deepEqual_JArr list_all2_append2)
qed

lemma persisted_value_is_equal_witness:
  "deepEqual (json_copy (JObj [(''a'', JUndef), (''b'', JArr [JNum 1, JNull])]))
     (JObj [(''a'', JUndef), (''b'', JArr [JNum 1, JNull])])"
  using persisted_value_is_equal [of "JObj [(''a'', JUndef), (''b'', JArr [JNum 1, JNull])]"] by simp

end
