(* ===== verification/JsRecord.thy ===== *)
theory JsRecord
  imports Prelude
begin

text \<open>
  The two kinds of keyed table the runtime uses, both enumerated in a fixed order, which the
  code relies on (\<open>Object.entries\<close>, iteration of a \<open>Map\<close>):

  \<^item> a \<open>Record\<close> with integer-like keys (sequence numbers), which JavaScript enumerates in
    ascending order of the key: \<open>nr_get\<close>, \<open>nr_set\<close>, \<open>nr_del\<close>;
  \<^item> a \<open>Map\<close>, or a \<open>Record\<close> with keys that are not integers, which is enumerated in the
    order of first insertion: \<open>om_get\<close>, \<open>om_set\<close>, \<open>om_del\<close>.

  The locale \<open>keyed_table\<close> states what both promise; its lemmas are used through the
  interpretations \<open>nr\<close> and \<open>om\<close>.
\<close>

locale keyed_table =
  fixes tempty :: "'t"
    and tget :: "'t \<Rightarrow> 'k \<Rightarrow> 'v option"
    and tset :: "'k \<Rightarrow> 'v \<Rightarrow> 't \<Rightarrow> 't"
    and tdel :: "'k \<Rightarrow> 't \<Rightarrow> 't"
    and tkeys :: "'t \<Rightarrow> 'k list"
    and tinv :: "'t \<Rightarrow> bool"
  assumes inv_empty: "tinv tempty"
    and inv_set: "tinv t \<Longrightarrow> tinv (tset k v t)"
    and inv_del: "tinv t \<Longrightarrow> tinv (tdel k t)"
    and get_empty: "tget tempty = (\<lambda>_. None)"
    and get_set: "tinv t \<Longrightarrow> tget (tset k v t) = (tget t)(k \<mapsto> v)"
    and get_del: "tinv t \<Longrightarrow> tget (tdel k t) = (tget t)(k := None)"
    and keys_dom: "tinv t \<Longrightarrow> set (tkeys t) = dom (tget t)"
    and keys_distinct: "tinv t \<Longrightarrow> distinct (tkeys t)"
begin

lemma keys_set: "tinv t \<Longrightarrow> set (tkeys (tset k v t)) = insert k (set (tkeys t))"
  by (simp add: keys_dom inv_set get_set)

lemma keys_del: "tinv t \<Longrightarrow> set (tkeys (tdel k t)) = set (tkeys t) - {k}"
  by (simp add: keys_dom inv_del get_del)

lemma set_del_get: "tinv t \<Longrightarrow> tget (tdel k (tset k v t)) = tget (tdel k t)"
  by (simp add: inv_set get_set get_del)

lemma set_get_other: "tinv t \<Longrightarrow> k \<noteq> k' \<Longrightarrow> tget (tset k v t) k' = tget t k'"
  by (simp add: get_set)

lemma del_get_same: "tinv t \<Longrightarrow> tget (tdel k t) k = None"
  by (simp add: get_del)

lemma length_keys_set:
  "tinv t \<Longrightarrow> tget t k = None \<Longrightarrow> length (tkeys (tset k v t)) = Suc (length (tkeys t))"
proof -
  assume inv: "tinv t" and new: "tget t k = None"
  have "k \<notin> set (tkeys t)" using inv new by (simp add: keys_dom domIff)
  then have "card (set (tkeys (tset k v t))) = Suc (card (set (tkeys t)))"
    by (simp add: keys_set [OF inv])
  then show "length (tkeys (tset k v t)) = Suc (length (tkeys t))"
    using inv by (simp add: distinct_card keys_distinct inv_set)
qed

end

section \<open>Records with integer keys\<close>

type_synonym 'v numrec = "(nat \<times> 'v) list"

definition nr_get :: "'v numrec \<Rightarrow> nat \<Rightarrow> 'v option" where
  "nr_get t k = map_of t k"

fun nr_set :: "nat \<Rightarrow> 'v \<Rightarrow> 'v numrec \<Rightarrow> 'v numrec" where
  "nr_set k v [] = [(k, v)]"
| "nr_set k v ((j, w) # t) =
     (if k < j then (k, v) # (j, w) # t
      else if k = j then (k, v) # t
      else (j, w) # nr_set k v t)"

definition nr_del :: "nat \<Rightarrow> 'v numrec \<Rightarrow> 'v numrec" where
  "nr_del k t = filter (\<lambda>(j, w). j \<noteq> k) t"

definition nr_keys :: "'v numrec \<Rightarrow> nat list" where
  "nr_keys t = map fst t"

definition nr_inv :: "'v numrec \<Rightarrow> bool" where
  "nr_inv t \<longleftrightarrow> sorted_wrt (<) (map fst t)"

definition nr_has :: "'v numrec \<Rightarrow> nat \<Rightarrow> bool" where
  "nr_has t k \<longleftrightarrow> nr_get t k \<noteq> None"

lemma nr_get_eq: "nr_get t = map_of t"
  by (simp add: fun_eq_iff nr_get_def)

lemma fst_nr_set: "set (map fst (nr_set k v t)) = insert k (set (map fst t))"
  by (induction k v t rule: nr_set.induct) auto

lemma nr_inv_set: "nr_inv t \<Longrightarrow> nr_inv (nr_set k v t)"
  unfolding nr_inv_def
proof (induction k v t rule: nr_set.induct)
  case (2 k v j w t)
  have "\<forall>x \<in> set (map fst (nr_set k v t)). j < x" if "\<not> k < j" "k \<noteq> j"
    using "2.prems" that by (simp only: fst_nr_set) auto
  with "2" show ?case by auto
qed simp

lemma nr_inv_del: "nr_inv t \<Longrightarrow> nr_inv (nr_del k t)"
  unfolding nr_inv_def nr_del_def by (induction t) auto

lemma nr_get_set: "nr_get (nr_set k v t) = (nr_get t)(k \<mapsto> v)"
  if "nr_inv t"
  using that unfolding nr_inv_def nr_get_def
proof (induction k v t rule: nr_set.induct)
  case (2 k v j w t)
  then show ?case by (auto simp: fun_eq_iff)
qed auto

lemma nr_get_del: "nr_get (nr_del k t) = (nr_get t)(k := None)"
  unfolding nr_get_def nr_del_def by (induction t) (auto simp: fun_eq_iff)

interpretation nr: keyed_table "[]" nr_get nr_set nr_del nr_keys nr_inv
proof unfold_locales
  fix t :: "'v numrec"
  assume inv: "nr_inv t"
  show "set (nr_keys t) = dom (nr_get t)"
    by (simp add: nr_keys_def nr_get_eq dom_map_of_conv_image_fst)
  show "distinct (nr_keys t)"
    using inv by (simp add: nr_inv_def nr_keys_def strict_sorted_iff)
qed (auto simp: nr_inv_set nr_inv_del nr_get_set nr_get_del nr_inv_def [of "[]"] nr_get_def [of "[]"])

text \<open>The enumeration order: ascending keys.\<close>

lemma nr_keys_sorted: "nr_inv t \<Longrightarrow> sorted (nr_keys t)"
  by (simp add: nr_inv_def nr_keys_def strict_sorted_iff)

text \<open>A key above all others goes to the end, which is where a fresh sequence number goes.\<close>

lemma nr_set_append:
  "(\<And>j. j \<in> set (nr_keys t) \<Longrightarrow> j < k) \<Longrightarrow> nr_set k v t = t @ [(k, v)]"
  by (induction k v t rule: nr_set.induct) (auto simp: nr_keys_def, fastforce+)

section \<open>Maps in insertion order\<close>

type_synonym ('k, 'v) omap = "('k \<times> 'v) list"

definition om_get :: "('k, 'v) omap \<Rightarrow> 'k \<Rightarrow> 'v option" where
  "om_get t k = map_of t k"

fun om_set :: "'k \<Rightarrow> 'v \<Rightarrow> ('k, 'v) omap \<Rightarrow> ('k, 'v) omap" where
  "om_set k v [] = [(k, v)]"
| "om_set k v ((j, w) # t) = (if k = j then (k, v) # t else (j, w) # om_set k v t)"

definition om_del :: "'k \<Rightarrow> ('k, 'v) omap \<Rightarrow> ('k, 'v) omap" where
  "om_del k t = filter (\<lambda>(j, w). j \<noteq> k) t"

definition om_keys :: "('k, 'v) omap \<Rightarrow> 'k list" where
  "om_keys t = map fst t"

definition om_inv :: "('k, 'v) omap \<Rightarrow> bool" where
  "om_inv t \<longleftrightarrow> distinct (map fst t)"

definition om_has :: "('k, 'v) omap \<Rightarrow> 'k \<Rightarrow> bool" where
  "om_has t k \<longleftrightarrow> om_get t k \<noteq> None"

lemma fst_om_set: "map fst (om_set k v t) =
    (if k \<in> set (map fst t) then map fst t else map fst t @ [k])"
  by (induction k v t rule: om_set.induct) auto

lemma om_inv_set: "om_inv t \<Longrightarrow> om_inv (om_set k v t)"
  by (simp add: om_inv_def fst_om_set)

lemma om_inv_del: "om_inv t \<Longrightarrow> om_inv (om_del k t)"
  by (simp add: om_inv_def om_del_def distinct_map_filter_inj)

lemma om_get_set: "om_get (om_set k v t) = (om_get t)(k \<mapsto> v)"
  unfolding om_get_def by (induction k v t rule: om_set.induct) (auto simp: fun_eq_iff)

lemma om_get_del: "om_get (om_del k t) = (om_get t)(k := None)"
  unfolding om_get_def om_del_def by (induction t) (auto simp: fun_eq_iff)

lemma om_get_eq: "om_get t = map_of t"
  by (simp add: fun_eq_iff om_get_def)

interpretation om: keyed_table "[]" om_get om_set om_del om_keys om_inv
proof unfold_locales
  fix t :: "('k, 'v) omap"
  show "set (om_keys t) = dom (om_get t)"
    by (simp add: om_keys_def om_get_eq dom_map_of_conv_image_fst)
qed (simp_all add: om_inv_set om_inv_del om_get_set om_get_del om_inv_def [of "[]"]
    om_get_eq [of "[]"] om_keys_def om_inv_def [symmetric])

text \<open>Overwriting keeps the place in the order; a new key goes to the end.\<close>

lemma om_keys_set:
  "om_keys (om_set k v t) = (if k \<in> set (om_keys t) then om_keys t else om_keys t @ [k])"
  by (simp add: om_keys_def fst_om_set)

end
