(* ===== verification/Results.thy ===== *)
theory Results
  imports JsValue
begin

text \<open>
  core-runtime/src/result.ts: the two-sided result of a workflow, a call or a trigger, its
  recognisers and its normalisation to an error name and a message. The symbol that marks a
  result object is the constructor here, so \<open>isResult\<close> holds of every value of the type; an
  absent result (\<open>undefined\<close>) is \<open>None\<close>.
\<close>

datatype 'a result = Resolved 'a | Failed js

definition isResolved :: "'a result option \<Rightarrow> bool" where
  "isResolved r = (case r of Some (Resolved _) \<Rightarrow> True | _ \<Rightarrow> False)"

definition isFailed :: "'a result option \<Rightarrow> bool" where
  "isFailed r = (case r of Some (Failed _) \<Rightarrow> True | _ \<Rightarrow> False)"

record normalized_error =
  ne_error :: string
  ne_message :: "string option"

fun normalizeError :: "js \<Rightarrow> normalized_error" where
  "normalizeError (JErr c n m) = \<lparr>ne_error = n, ne_message = Some m\<rparr>"
| "normalizeError err = \<lparr>ne_error = ''Error'', ne_message = stringify err\<rparr>"

text \<open>\<open>normalizeFailedResult\<close> is only called on a failed result.\<close>

fun normalizeFailedResult :: "'a result \<Rightarrow> normalized_error option" where
  "normalizeFailedResult (Failed e) = Some (normalizeError e)"
| "normalizeFailedResult (Resolved v) = None"

text \<open>A template literal renders an undefined message as \<open>undefined\<close>.\<close>

fun resultToString :: "js result option \<Rightarrow> string" where
  "resultToString (Some (Failed e)) =
     ne_error (normalizeError e) @ '': '' @ the_default ''undefined'' (ne_message (normalizeError e))"
| "resultToString (Some (Resolved v)) =
     (if truthy v then the_default ''undefined'' (stringify v) else [])"
| "resultToString None = []"

lemma resolved_or_failed: "r \<noteq> None \<Longrightarrow> isResolved r \<noteq> isFailed r"
  by (auto simp: isResolved_def isFailed_def split: result.splits)

lemma normalizeError_extendsError:
  "extendsError e \<Longrightarrow> \<exists>n m. normalizeError e = \<lparr>ne_error = n, ne_message = Some m\<rparr>"
  by (cases e) auto

text \<open>
  The message is missing in exactly one case: when the value thrown was undefined.
\<close>

lemma normalizeError_no_message: "ne_message (normalizeError e) = None \<longleftrightarrow> e = JUndef"
  by (cases e) (auto simp: stringify_defined)

end
