(* ===== verification/EventIterator.thy ===== *)
theory EventIterator
  imports Prelude
begin

text \<open>
  core-runtime/src/iterator.ts: an iterator over an array with a cursor and an optional
  predicate that selects the elements it yields. The array is shared with its owner, who
  pushes onto it while the iterator lives (the executor's history), so it is an argument of
  every operation; the iterator's own state is the cursor. An operation returns its result
  and the new cursor.

  The locale \<open>event_source\<close> is what the executor needs of it: \<open>hasNext\<close> decides whether
  elements remain and \<open>next\<close> takes the first of them.
\<close>

function seek :: "('a \<Rightarrow> bool) option \<Rightarrow> 'a list \<Rightarrow> nat \<Rightarrow> nat" where
  "seek p xs c =
     (case p of None \<Rightarrow> c
      | Some q \<Rightarrow> if c < length xs then (if q (xs ! c) then c else seek p xs (Suc c)) else c)"
  by pat_completeness auto
termination
  by (relation "measure (\<lambda>(p, xs, c). length xs - c)") auto

declare seek.simps [simp del]

definition iter_hasNext :: "('a \<Rightarrow> bool) option \<Rightarrow> 'a list \<Rightarrow> nat \<Rightarrow> bool \<times> nat" where
  "iter_hasNext p xs c = (let c' = seek p xs c in (c' < length xs, c'))"

text \<open>\<open>elms[cursor++]\<close>: past the end the element is undefined, and the cursor still moves.\<close>

definition iter_next :: "('a \<Rightarrow> bool) option \<Rightarrow> 'a list \<Rightarrow> nat \<Rightarrow> 'a option \<times> nat" where
  "iter_next p xs c =
     (let c' = seek p xs c in (if c' < length xs then Some (xs ! c') else None, Suc c'))"

definition iter_drain :: "('a \<Rightarrow> bool) option \<Rightarrow> 'a list \<Rightarrow> nat \<Rightarrow> 'a list \<times> nat" where
  "iter_drain p xs c =
     (case p of None \<Rightarrow> drop c xs | Some q \<Rightarrow> filter q (drop c xs), length xs)"

definition iter_size :: "('a \<Rightarrow> bool) option \<Rightarrow> 'a list \<Rightarrow> nat \<Rightarrow> int" where
  "iter_size p xs c =
     (case p of Some q \<Rightarrow> int (length (filter q xs)) - int c
      | None \<Rightarrow> int (length xs) - int c)"

text \<open>What the iterator still has to yield.\<close>

definition iter_rest :: "('a \<Rightarrow> bool) option \<Rightarrow> 'a list \<Rightarrow> nat \<Rightarrow> 'a list" where
  "iter_rest p xs c = filter (the_default (\<lambda>_. True) p) (drop c xs)"

section \<open>The interface the executor uses\<close>

text \<open>\<open>while (it.hasNext()) out.push(it.next())\<close>, with fuel for the number of rounds.\<close>

fun collect :: "('s \<Rightarrow> bool \<times> 's) \<Rightarrow> ('s \<Rightarrow> 'e option \<times> 's) \<Rightarrow> nat \<Rightarrow> 's \<Rightarrow> 'e list option" where
  "collect hasnext nxt 0 s = None"
| "collect hasnext nxt (Suc n) s =
     (case hasnext s of
        (False, s') \<Rightarrow> Some []
      | (True, s') \<Rightarrow>
          (case nxt s' of
             (None, s'') \<Rightarrow> None
           | (Some e, s'') \<Rightarrow> map_option (Cons e) (collect hasnext nxt n s'')))"

locale event_source =
  fixes hasnext :: "'s \<Rightarrow> bool \<times> 's"
    and nxt :: "'s \<Rightarrow> 'e option \<times> 's"
    and rest :: "'s \<Rightarrow> 'e list"
    and inv :: "'s \<Rightarrow> bool"
  assumes hasnext_iff: "inv s \<Longrightarrow> fst (hasnext s) \<longleftrightarrow> rest s \<noteq> []"
    and hasnext_rest: "inv s \<Longrightarrow> rest (snd (hasnext s)) = rest s"
    and hasnext_inv: "inv s \<Longrightarrow> inv (snd (hasnext s))"
    and nxt_Cons: "inv s \<Longrightarrow> rest s = e # es \<Longrightarrow> \<exists>s'. nxt s = (Some e, s') \<and> rest s' = es \<and> inv s'"
    and nxt_Nil: "inv s \<Longrightarrow> rest s = [] \<Longrightarrow> fst (nxt s) = None"
begin

lemma hasnext_cases:
  assumes "inv s"
  obtains (finish) s' where "hasnext s = (False, s')" "rest s = []" "rest s' = []" "inv s'"
    | (more) s' e es s'' where "hasnext s = (True, s')" "rest s = e # es"
      "nxt s' = (Some e, s'')" "rest s'' = es" "inv s''"
proof (cases "rest s")
  case Nil
  with assms have "hasnext s = (False, snd (hasnext s))"
    by (metis hasnext_iff prod.collapse)
  with assms Nil show ?thesis by (metis finish hasnext_inv hasnext_rest snd_conv)
next
  case (Cons e es)
  obtain b s' where hn: "hasnext s = (b, s')" by fastforce
  have b: b using hasnext_iff [OF assms] Cons by (simp add: hn)
  have s': "hasnext s = (True, s')" "rest s' = e # es" "inv s'"
    using hn b hasnext_rest [OF assms] hasnext_inv [OF assms] Cons by simp_all
  then obtain s'' where "nxt s' = (Some e, s'')" "rest s'' = es" "inv s''"
    using nxt_Cons by blast
  with s' Cons show ?thesis by (rule_tac more)
qed

lemma collect_rest:
  "inv s \<Longrightarrow> length (rest s) < n \<Longrightarrow> collect hasnext nxt n s = Some (rest s)"
proof (induction n arbitrary: s)
  case 0
  then show ?case by simp
next
  case (Suc n)
  from Suc.prems(1) show ?case
  proof (cases rule: hasnext_cases)
    case (finish s')
    then show ?thesis by simp
  next
    case (more s' e es s'')
    then show ?thesis using Suc.IH [of s''] Suc.prems(2) by simp
  qed
qed

end

section \<open>The iterator provides it\<close>

lemma seek_le: "c \<le> length xs \<Longrightarrow> c \<le> seek p xs c \<and> seek p xs c \<le> length xs"
proof (induction p xs c rule: seek.induct)
  case (1 p xs c)
  then show ?case by (auto simp: seek.simps [of p xs c] split: option.splits)
qed

lemma seek_rest: "iter_rest p xs (seek p xs c) = iter_rest p xs c"
proof (induction p xs c rule: seek.induct)
  case (1 p xs c)
  then show ?case
    by (auto simp: seek.simps [of p xs c] iter_rest_def filter_drop_Cons split: option.splits)
qed

lemma seek_hit:
  "seek p xs c < length xs \<Longrightarrow>
     iter_rest p xs c = xs ! seek p xs c # iter_rest p xs (Suc (seek p xs c))"
proof (induction p xs c rule: seek.induct)
  case (1 p xs c)
  then show ?case
    by (auto simp: seek.simps [of p xs c] iter_rest_def filter_drop_Cons Cons_nth_drop_Suc
        split: option.splits if_splits)
qed

lemma seek_end: "length xs \<le> seek p xs c \<Longrightarrow> iter_rest p xs c = []"
  by (subst seek_rest [symmetric]) (simp add: iter_rest_def)

interpretation it: event_source "iter_hasNext p xs" "iter_next p xs" "iter_rest p xs"
    "\<lambda>c. c \<le> length xs" for p :: "('a \<Rightarrow> bool) option" and xs :: "'a list"
proof unfold_locales
  fix c e es
  assume le: "c \<le> length xs"
  show "fst (iter_hasNext p xs c) \<longleftrightarrow> iter_rest p xs c \<noteq> []"
    using seek_hit [of p xs c] seek_end [of xs p c]
    by (cases "seek p xs c < length xs") (simp_all add: iter_hasNext_def Let_def)
  show "iter_rest p xs (snd (iter_hasNext p xs c)) = iter_rest p xs c"
    by (simp add: iter_hasNext_def Let_def seek_rest)
  show "snd (iter_hasNext p xs c) \<le> length xs"
    using seek_le [OF le] by (simp add: iter_hasNext_def Let_def)
  show "\<exists>s'. iter_next p xs c = (Some e, s') \<and> iter_rest p xs s' = es \<and> s' \<le> length xs"
    if "iter_rest p xs c = e # es"
  proof -
    have hit: "seek p xs c < length xs" using that seek_end [of xs p c] by force
    with seek_hit [OF hit] that show ?thesis by (simp add: iter_next_def Let_def)
  qed
  show "fst (iter_next p xs c) = None" if "iter_rest p xs c = []"
    using that seek_hit [of p xs c] by (auto simp: iter_next_def Let_def)
qed

text \<open>Elements pushed onto the array behind the cursor are yielded after the others.\<close>

lemma iter_rest_push:
  "c \<le> length xs \<Longrightarrow>
     iter_rest p (xs @ ys) c = iter_rest p xs c @ filter (the_default (\<lambda>_. True) p) ys"
  by (simp add: iter_rest_def)

lemma iter_rest_start: "iter_rest (Some p) xs 0 = filter p xs"
  by (simp add: iter_rest_def)

text \<open>\<open>drain\<close> returns exactly what stepping through with \<open>next\<close> would, and leaves nothing.\<close>

lemma iter_drain_rest:
  "iter_drain p xs c = (iter_rest p xs c, length xs)"
  by (auto simp: iter_drain_def iter_rest_def split: option.splits)

text \<open>
  Stepping through an iterator with \<open>hasNext\<close> and \<open>next\<close> yields the elements
  its predicate selects, in order, including those that are pushed onto the shared array
  before the cursor gets there, and \<open>drain\<close> returns the same elements.
\<close>

theorem iterator_yields_selected:
  "collect (iter_hasNext (Some p) (xs @ ys)) (iter_next (Some p) (xs @ ys)) (Suc (length (xs @ ys))) 0 =
     Some (filter p xs @ filter p ys) \<and>
   fst (iter_drain (Some p) (xs @ ys) 0) = filter p xs @ filter p ys"
proof -
  have rest: "iter_rest (Some p) (xs @ ys) 0 = filter p xs @ filter p ys" by (simp add: iter_rest_start)
  have "length (iter_rest (Some p) (xs @ ys) 0) < Suc (length (xs @ ys))"
    by (simp only: iter_rest_start le_imp_less_Suc length_filter_le)
  from it.collect_rest [OF _ this] rest show ?thesis by (simp add: iter_drain_rest del: collect.simps)
qed

end
