(* ===== verification/ExecutionIds.thy ===== *)
theory ExecutionIds
  imports Prelude
begin

text \<open>
  Execution identifiers, core-runtime/src/workflow/execution.ts: an execution is named
  \<open>workflowName/executionName\<close>; a child workflow's name is derived from its parent's id and
  the sequence number of the call, so that starting it again on replay names the same
  execution.
\<close>

definition isExecutionId :: "string \<Rightarrow> bool" where
  "isExecutionId a \<longleftrightarrow> length (split_on CHR ''/'' a) = 2"

text \<open>\<open>split\<close> always returns at least one part, so \<open>[0]\<close> is defined.\<close>

definition parseWorkflowName :: "string \<Rightarrow> string" where
  "parseWorkflowName executionId = hd (split_on CHR ''/'' executionId)"

definition formatExecutionId :: "string \<Rightarrow> string \<Rightarrow> string" where
  "formatExecutionId workflow name = workflow @ ''/'' @ name"

record parsed_execution_id =
  workflowName :: string
  executionName :: string

definition parseExecutionId :: "string \<Rightarrow> string + parsed_execution_id" where
  "parseExecutionId executionId =
     (if isExecutionId executionId
      then (let parts = split_on CHR ''/'' executionId
            in Inr \<lparr>workflowName = hd parts, executionName = join_with ''/'' (drop 1 parts)\<rparr>)
      else Inl (''Invalid execution Id: '' @ executionId))"

definition INTERNAL_EXECUTION_ID_PREFIX :: string where
  "INTERNAL_EXECUTION_ID_PREFIX = ''%''"

text \<open>\<open>s.replace("/", "-")\<close> with a string pattern: the first occurrence only.\<close>

fun replace_first :: "char \<Rightarrow> char \<Rightarrow> string \<Rightarrow> string" where
  "replace_first a b [] = []"
| "replace_first a b (c # cs) = (if c = a then b # cs else c # replace_first a b cs)"

definition formatChildExecutionName :: "string \<Rightarrow> nat \<Rightarrow> string" where
  "formatChildExecutionName parentExecutionId seq =
     INTERNAL_EXECUTION_ID_PREFIX @ replace_first CHR ''/'' CHR ''-'' parentExecutionId
       @ ''-'' @ nat_str seq"

section \<open>Formatting and parsing\<close>

lemma split_formatExecutionId:
  "CHR ''/'' \<notin> set w \<Longrightarrow> CHR ''/'' \<notin> set n \<Longrightarrow> split_on CHR ''/'' (formatExecutionId w n) = [w, n]"
  by (simp add: formatExecutionId_def split_on_sep split_on_no_sep)

lemma isExecutionId_format:
  "CHR ''/'' \<notin> set w \<Longrightarrow> CHR ''/'' \<notin> set n \<Longrightarrow> isExecutionId (formatExecutionId w n)"
  by (simp add: isExecutionId_def split_formatExecutionId)

lemma isExecutionId_iff: "isExecutionId a \<longleftrightarrow> count_list a CHR ''/'' = 1"
  by (simp add: isExecutionId_def length_split_on)

lemma isExecutionId_parts:
  assumes "isExecutionId a"
  obtains w n where "a = formatExecutionId w n" "CHR ''/'' \<notin> set w" "CHR ''/'' \<notin> set n"
proof -
  from assms obtain w n where wn: "split_on CHR ''/'' a = [w, n]"
    by (auto simp: isExecutionId_def numeral_2_eq_2 length_Suc_conv)
  have "a = formatExecutionId w n"
    using join_split [of "CHR ''/''" a] by (simp add: wn formatExecutionId_def)
  moreover have "CHR ''/'' \<notin> set w" "CHR ''/'' \<notin> set n"
    using split_on_parts [of _ "CHR ''/''" a] by (simp_all add: wn)
  ultimately show ?thesis by (rule that)
qed

lemma parse_format_ids:
  "CHR ''/'' \<notin> set w \<Longrightarrow> CHR ''/'' \<notin> set n \<Longrightarrow>
     parseExecutionId (formatExecutionId w n) = Inr \<lparr>workflowName = w, executionName = n\<rparr> \<and>
     parseWorkflowName (formatExecutionId w n) = w"
  by (simp add: parseExecutionId_def parseWorkflowName_def isExecutionId_format
      split_formatExecutionId)

lemma format_parse_ids:
  "parseExecutionId a = Inr p \<Longrightarrow> formatExecutionId (workflowName p) (executionName p) = a"
  by (auto simp: parseExecutionId_def split_formatExecutionId split: if_splits
      elim!: isExecutionId_parts)

section \<open>Names of child executions\<close>

lemma replace_first_format:
  "CHR ''/'' \<notin> set w \<Longrightarrow> replace_first CHR ''/'' c (w @ CHR ''/'' # n) = w @ c # n"
  by (induction w) auto

lemma child_name_shape:
  "CHR ''/'' \<notin> set w \<Longrightarrow>
     formatChildExecutionName (formatExecutionId w n) seq = ''%'' @ w @ ''-'' @ n @ ''-'' @ nat_str seq"
  by (simp add: formatChildExecutionName_def formatExecutionId_def replace_first_format
      INTERNAL_EXECUTION_ID_PREFIX_def)

lemma dash_suffix_inject:
  "n @ CHR ''-'' # nat_str s = n' @ CHR ''-'' # nat_str s' \<longleftrightarrow> n = n' \<and> s = s'"
proof
  assume eq: "n @ CHR ''-'' # nat_str s = n' @ CHR ''-'' # nat_str s'"
  have nodash: "CHR ''-'' \<notin> set (rev (nat_str k))" for k
    by (simp add: not_digit_notin_nat_str)
  from eq have "rev (nat_str s) @ CHR ''-'' # rev n = rev (nat_str s') @ CHR ''-'' # rev n'"
    by (metis append.assoc append_Cons append_Nil rev.simps(2) rev_append)
  then have "rev (nat_str s) = rev (nat_str s') \<and> rev n = rev n'"
    using append_sep_inject [OF nodash nodash] by blast
  then show "n = n' \<and> s = s'" by simp
qed simp

text \<open>
  A child's name contains no slash when its parent's id has the one slash every id has, so
  the child's own execution id is well formed.
\<close>

lemma child_name_no_slash:
  assumes "isExecutionId p"
  shows "CHR ''/'' \<notin> set (formatChildExecutionName p seq)"
proof -
  from assms obtain w n where "p = formatExecutionId w n" "CHR ''/'' \<notin> set w" "CHR ''/'' \<notin> set n"
    by (rule isExecutionId_parts)
  then show ?thesis by (simp add: child_name_shape not_digit_notin_nat_str)
qed

text \<open>
  An execution id is exactly its two parts. Formatting a workflow name and an
  execution name without slashes gives an id that parses back to them, and every id that
  parses is the formatting of what it parses to.
\<close>

theorem execution_id_roundtrip:
  "(CHR ''/'' \<notin> set w \<and> CHR ''/'' \<notin> set n \<longrightarrow>
      parseExecutionId (formatExecutionId w n) = Inr \<lparr>workflowName = w, executionName = n\<rparr> \<and>
      parseWorkflowName (formatExecutionId w n) = w) \<and>
   (\<forall>p. parseExecutionId a = Inr p \<longrightarrow> formatExecutionId (workflowName p) (executionName p) = a)"
  using parse_format_ids format_parse_ids by blast

lemma execution_id_roundtrip_witness:
  "parseExecutionId ''order/e1'' = Inr \<lparr>workflowName = ''order'', executionName = ''e1''\<rparr> \<and>
   formatExecutionId ''order'' ''e1'' = ''order/e1''"
  using execution_id_roundtrip [of "''order''" "''e1''" "''order/e1''"]
  by (simp add: formatExecutionId_def)

text \<open>
  The name of a child execution. Among the executions of one workflow it
  determines the parent and the sequence number of the call, and with any workflow name it
  makes a well formed execution id. Across workflows it does not determine the parent:
  \<open>u-v/n\<close> and \<open>u/v-n\<close> give the same name.
\<close>

theorem child_execution_name:
  assumes "CHR ''/'' \<notin> set w" and "CHR ''/'' \<notin> set n" and "CHR ''/'' \<notin> set n'" and "CHR ''/'' \<notin> set c"
  shows "(formatChildExecutionName (formatExecutionId w n) s = formatChildExecutionName (formatExecutionId w n') s'
      \<longleftrightarrow> n = n' \<and> s = s') \<and>
    isExecutionId (formatExecutionId c (formatChildExecutionName (formatExecutionId w n) s)) \<and>
    (\<forall>u v. w = u @ ''-'' @ v \<longrightarrow>
      formatChildExecutionName (formatExecutionId w n) s = formatChildExecutionName (formatExecutionId u (v @ ''-'' @ n)) s)"
proof -
  have "isExecutionId (formatExecutionId w n)" using assms by (simp add: isExecutionId_format)
  then have "isExecutionId (formatExecutionId c (formatChildExecutionName (formatExecutionId w n) s))"
    using assms(4) by (simp add: isExecutionId_format child_name_no_slash)
  then show ?thesis
    using assms dash_suffix_inject [of n s n' s'] by (auto simp: child_name_shape)
qed

lemma child_execution_name_witness:
  "formatChildExecutionName (formatExecutionId ''a-b'' ''c'') 3 = formatChildExecutionName (formatExecutionId ''a'' ''b-c'') 3 \<and>
   formatChildExecutionName (formatExecutionId ''a-b'' ''c'') 3 \<noteq> formatChildExecutionName (formatExecutionId ''a-b'' ''d'') 3"
proof -
  have "CHR ''/'' \<notin> set ''a-b''" "CHR ''/'' \<notin> set ''c''" "CHR ''/'' \<notin> set ''d''" "CHR ''/'' \<notin> set ''w''"
    and split: "''a-b'' = ''a'' @ ''-'' @ ''b''" and join: "''b'' @ ''-'' @ ''c'' = ''b-c''" and differ: "''c'' \<noteq> ''d''"
    by simp_all
  from child_execution_name [OF this(1-4), of 3 3] split differ show ?thesis
    unfolding join [symmetric] by metis
qed

end
