(* ===== verification/Schedules.thy ===== *)
theory Schedules
  imports JsValue
begin

text \<open>
  Schedules, @eventual/core's schedule.ts and internal/schedule.ts, and the computation of
  the instant a schedule denotes, core-runtime/src/schedule.ts. An ISO date is represented
  by the instant it denotes, in milliseconds since the epoch; \<open>dur\<close> is an integer number of
  units.
\<close>

datatype duration_unit =
    Second | Seconds | Minute | Minutes | Hour | Hours | Day | Days | Year | Years

definition DURATION_UNITS :: "(string \<times> duration_unit) list" where
  "DURATION_UNITS =
     [(''second'', Second), (''seconds'', Seconds), (''minute'', Minute), (''minutes'', Minutes),
      (''hour'', Hour), (''hours'', Hours), (''day'', Day), (''days'', Days),
      (''year'', Year), (''years'', Years)]"

definition isDurationUnit :: "string \<Rightarrow> bool" where
  "isDurationUnit u \<longleftrightarrow> u \<in> set (map fst DURATION_UNITS)"

record duration_schedule =
  dur :: int
  unit :: duration_unit

datatype schedule = Duration duration_schedule | Time int

definition Schedule_duration :: "int \<Rightarrow> duration_unit option \<Rightarrow> schedule" where
  "Schedule_duration d u = Duration \<lparr>dur = d, unit = the_default Seconds u\<rparr>"

definition Schedule_time :: "int \<Rightarrow> schedule" where
  "Schedule_time isoDate = Time isoDate"

definition isDurationSchedule :: "schedule \<Rightarrow> bool" where
  "isDurationSchedule s = (case s of Duration _ \<Rightarrow> True | Time _ \<Rightarrow> False)"

definition isTimeSchedule :: "schedule \<Rightarrow> bool" where
  "isTimeSchedule s = (case s of Time _ \<Rightarrow> True | Duration _ \<Rightarrow> False)"

definition duration_unit_str :: "duration_unit \<Rightarrow> string" where
  "duration_unit_str u =
     (case u of Second \<Rightarrow> ''second'' | Seconds \<Rightarrow> ''seconds'' | Minute \<Rightarrow> ''minute''
      | Minutes \<Rightarrow> ''minutes'' | Hour \<Rightarrow> ''hour'' | Hours \<Rightarrow> ''hours'' | Day \<Rightarrow> ''day''
      | Days \<Rightarrow> ''days'' | Year \<Rightarrow> ''year'' | Years \<Rightarrow> ''years'')"

text \<open>The schedule as the data a call event records.\<close>

fun schedule_js :: "schedule \<Rightarrow> js" where
  "schedule_js (Duration d) =
     JObj [(''type'', JStr ''Duration''), (''dur'', JNum (dur d)),
           (''unit'', JStr (duration_unit_str (unit d)))]"
| "schedule_js (Time t) = JObj [(''type'', JStr ''Time''), (''isoDate'', JNum t)]"

text \<open>A year is 365.25 days; in seconds that is an integer.\<close>

fun computeDurationSeconds :: "int \<Rightarrow> duration_unit \<Rightarrow> int" where
  "computeDurationSeconds d Seconds = d"
| "computeDurationSeconds d Second = d"
| "computeDurationSeconds d Minutes = d * 60"
| "computeDurationSeconds d Minute = d * 60"
| "computeDurationSeconds d Hours = d * 60 * 60"
| "computeDurationSeconds d Hour = d * 60 * 60"
| "computeDurationSeconds d Days = d * 60 * 60 * 24"
| "computeDurationSeconds d Day = d * 60 * 60 * 24"
| "computeDurationSeconds d Years = d * 60 * 60 * 6 * 1461"
| "computeDurationSeconds d Year = d * 60 * 60 * 6 * 1461"

definition computeScheduleDate :: "schedule \<Rightarrow> int \<Rightarrow> int" where
  "computeScheduleDate schedule baseTime =
     (case schedule of Time t \<Rightarrow> t
      | Duration d \<Rightarrow> baseTime + computeDurationSeconds (dur d) (unit d) * 1000)"

lemma duration_units_complete: "isDurationUnit (duration_unit_str u)"
  by (cases u) (simp_all add: isDurationUnit_def DURATION_UNITS_def duration_unit_str_def)

lemma computeDurationSeconds_nonneg: "0 \<le> d \<Longrightarrow> 0 \<le> computeDurationSeconds d u"
  by (cases u) simp_all

lemma computeDurationSeconds_mono:
  "d \<le> d' \<Longrightarrow> computeDurationSeconds d u \<le> computeDurationSeconds d' u"
  by (cases u) simp_all

lemma computeDurationSeconds_ge: "0 \<le> d \<Longrightarrow> d \<le> computeDurationSeconds d u"
  by (cases u) simp_all

end
