(* ===== verification/WorkflowEvents.thy ===== *)
theory WorkflowEvents
  imports Schedules
begin

text \<open>
  The events of a workflow execution: @eventual/core's internal/workflow-events.ts and
  core-runtime's workflow/events.ts.

  \<^item> \<open>call_history_event\<close>: what a call leaves in the history, so that a replay can be
    compared with it; the operation of a bucket, queue, entity or socket request is the data
    of the request;
  \<^item> \<open>workflow_event\<close>: the events themselves, one constructor per interface of the source;
    the enums \<open>WorkflowEventType\<close> and \<open>WorkflowCallHistoryType\<close> with their codes, and one
    recogniser per type guard;
  \<^item> \<open>getEventId\<close>, \<open>createEvent\<close>, \<open>filterEvents\<close>: identity, creation and deduplication.

  A timestamp is the instant it denotes (milliseconds since the epoch). The optional fields
  of the source are \<open>option\<close> values; a field of type \<open>any\<close> that is absent is undefined.
\<close>

section \<open>Event types\<close>

datatype WorkflowEventType =
    T_BucketRequestFailed
  | T_BucketRequestSucceeded
  | T_CallEvent
  | T_ChildWorkflowSucceeded
  | T_ChildWorkflowFailed
  | T_EntityRequestFailed
  | T_EntityRequestSucceeded
  | T_QueueRequestSucceeded
  | T_QueueRequestFailed
  | T_SearchRequestSucceeded
  | T_SearchRequestFailed
  | T_SignalReceived
  | T_SocketRequestFailed
  | T_SocketRequestSucceeded
  | T_TaskSucceeded
  | T_TaskFailed
  | T_TaskHeartbeatTimedOut
  | T_TimerCompleted
  | T_TransactionRequestFailed
  | T_TransactionRequestSucceeded
  | T_WorkflowSucceeded
  | T_WorkflowFailed
  | T_WorkflowStarted
  | T_WorkflowRunCompleted
  | T_WorkflowRunStarted
  | T_WorkflowTimedOut

fun event_type_code :: "WorkflowEventType \<Rightarrow> nat" where
  "event_type_code T_BucketRequestFailed = 60"
| "event_type_code T_BucketRequestSucceeded = 61"
| "event_type_code T_CallEvent = 20"
| "event_type_code T_ChildWorkflowSucceeded = 50"
| "event_type_code T_ChildWorkflowFailed = 51"
| "event_type_code T_EntityRequestFailed = 52"
| "event_type_code T_EntityRequestSucceeded = 53"
| "event_type_code T_QueueRequestSucceeded = 56"
| "event_type_code T_QueueRequestFailed = 64"
| "event_type_code T_SearchRequestSucceeded = 62"
| "event_type_code T_SearchRequestFailed = 63"
| "event_type_code T_SignalReceived = 24"
| "event_type_code T_SocketRequestFailed = 65"
| "event_type_code T_SocketRequestSucceeded = 66"
| "event_type_code T_TaskSucceeded = 46"
| "event_type_code T_TaskFailed = 57"
| "event_type_code T_TaskHeartbeatTimedOut = 58"
| "event_type_code T_TimerCompleted = 59"
| "event_type_code T_TransactionRequestFailed = 54"
| "event_type_code T_TransactionRequestSucceeded = 55"
| "event_type_code T_WorkflowSucceeded = 95"
| "event_type_code T_WorkflowFailed = 96"
| "event_type_code T_WorkflowStarted = 10"
| "event_type_code T_WorkflowRunCompleted = 80"
| "event_type_code T_WorkflowRunStarted = 15"
| "event_type_code T_WorkflowTimedOut = 90"

datatype WorkflowCallHistoryType =
    C_BucketRequest
  | C_QueueRequest
  | C_ChildWorkflowScheduled
  | C_EntityRequest
  | C_EventsEmitted
  | C_SearchRequest
  | C_SignalSent
  | C_SocketRequest
  | C_TaskScheduled
  | C_TimerScheduled
  | C_TransactionRequest

fun call_type_code :: "WorkflowCallHistoryType \<Rightarrow> nat" where
  "call_type_code C_BucketRequest = 0"
| "call_type_code C_QueueRequest = 10"
| "call_type_code C_ChildWorkflowScheduled = 1"
| "call_type_code C_EntityRequest = 2"
| "call_type_code C_EventsEmitted = 3"
| "call_type_code C_SearchRequest = 4"
| "call_type_code C_SignalSent = 5"
| "call_type_code C_SocketRequest = 11"
| "call_type_code C_TaskScheduled = 7"
| "call_type_code C_TimerScheduled = 8"
| "call_type_code C_TransactionRequest = 9"

text \<open>The target of a signal, internal/signal.ts.\<close>

datatype signal_target =
    ExecutionTarget string
  | ChildExecutionTarget string nat

definition isChildExecutionTarget :: "signal_target \<Rightarrow> bool" where
  "isChildExecutionTarget t = (case t of ChildExecutionTarget _ _ \<Rightarrow> True | _ \<Rightarrow> False)"

definition isExecutionTarget :: "signal_target \<Rightarrow> bool" where
  "isExecutionTarget t = (case t of ExecutionTarget _ \<Rightarrow> True | _ \<Rightarrow> False)"

fun signal_target_js :: "signal_target \<Rightarrow> js" where
  "signal_target_js (ExecutionTarget e) = JObj [(''type'', JNum 0), (''executionId'', JStr e)]"
| "signal_target_js (ChildExecutionTarget w s) =
     JObj [(''type'', JNum 1), (''workflowName'', JStr w), (''seq'', JNum (int s))]"

section \<open>Events of calls\<close>

text \<open>The first argument is the sequence number; the others are named by \<open>call_event_js\<close>.\<close>

datatype call_history_event =
    BucketRequest nat js
  | QueueRequest nat js
  | ChildWorkflowScheduled nat string js
  | EntityRequest nat js
  | EventsEmitted nat js
  | SearchRequest nat string js
  | SignalSent nat string signal_target js
  | SocketRequest nat js
  | TaskScheduled nat string js
  | TimerScheduled nat schedule
  | TransactionRequest nat string js

fun call_type :: "call_history_event \<Rightarrow> WorkflowCallHistoryType" where
  "call_type (BucketRequest s operation) = C_BucketRequest"
| "call_type (QueueRequest s operation) = C_QueueRequest"
| "call_type (ChildWorkflowScheduled s name input) = C_ChildWorkflowScheduled"
| "call_type (EntityRequest s operation) = C_EntityRequest"
| "call_type (EventsEmitted s events) = C_EventsEmitted"
| "call_type (SearchRequest s operation request) = C_SearchRequest"
| "call_type (SignalSent s signalId target payload) = C_SignalSent"
| "call_type (SocketRequest s operation) = C_SocketRequest"
| "call_type (TaskScheduled s name input) = C_TaskScheduled"
| "call_type (TimerScheduled s schedule) = C_TimerScheduled"
| "call_type (TransactionRequest s transactionName input) = C_TransactionRequest"

fun call_seq :: "call_history_event \<Rightarrow> nat" where
  "call_seq (BucketRequest s operation) = s"
| "call_seq (QueueRequest s operation) = s"
| "call_seq (ChildWorkflowScheduled s name input) = s"
| "call_seq (EntityRequest s operation) = s"
| "call_seq (EventsEmitted s events) = s"
| "call_seq (SearchRequest s operation request) = s"
| "call_seq (SignalSent s signalId target payload) = s"
| "call_seq (SocketRequest s operation) = s"
| "call_seq (TaskScheduled s name input) = s"
| "call_seq (TimerScheduled s schedule) = s"
| "call_seq (TransactionRequest s transactionName input) = s"

text \<open>The object a call event is: its type code, its sequence number and its own fields.\<close>

fun call_event_fields :: "call_history_event \<Rightarrow> (string \<times> js) list" where
  "call_event_fields (BucketRequest s operation) = [(''operation'', operation)]"
| "call_event_fields (QueueRequest s operation) = [(''operation'', operation)]"
| "call_event_fields (ChildWorkflowScheduled s name input) =
     [(''name'', JStr name), (''input'', input)]"
| "call_event_fields (EntityRequest s operation) = [(''operation'', operation)]"
| "call_event_fields (EventsEmitted s events) = [(''events'', events)]"
| "call_event_fields (SearchRequest s operation request) =
     [(''operation'', JStr operation), (''request'', request)]"
| "call_event_fields (SignalSent s signalId target payload) =
     [(''payload'', payload), (''signalId'', JStr signalId), (''target'', signal_target_js target)]"
| "call_event_fields (SocketRequest s operation) = [(''operation'', operation)]"
| "call_event_fields (TaskScheduled s name input) = [(''name'', JStr name), (''input'', input)]"
| "call_event_fields (TimerScheduled s schedule) = [(''schedule'', schedule_js schedule)]"
| "call_event_fields (TransactionRequest s transactionName input) =
     [(''input'', input), (''transactionName'', JStr transactionName)]"

definition call_event_js :: "call_history_event \<Rightarrow> js" where
  "call_event_js e =
     JObj ((''type'', JNum (int (call_type_code (call_type e))))
       # (''seq'', JNum (int (call_seq e))) # call_event_fields e)"

definition isTaskScheduled :: "call_history_event \<Rightarrow> bool" where
  "isTaskScheduled event \<longleftrightarrow> call_type event = C_TaskScheduled"

definition isQueueRequest :: "call_history_event \<Rightarrow> bool" where
  "isQueueRequest event \<longleftrightarrow> call_type event = C_QueueRequest"

definition isEntityRequest :: "call_history_event \<Rightarrow> bool" where
  "isEntityRequest event \<longleftrightarrow> call_type event = C_EntityRequest"

definition isTransactionRequest :: "call_history_event \<Rightarrow> bool" where
  "isTransactionRequest event \<longleftrightarrow> call_type event = C_TransactionRequest"

definition isBucketRequest :: "call_history_event \<Rightarrow> bool" where
  "isBucketRequest event \<longleftrightarrow> call_type event = C_BucketRequest"

definition isTimerScheduled :: "call_history_event \<Rightarrow> bool" where
  "isTimerScheduled event \<longleftrightarrow> call_type event = C_TimerScheduled"

definition isChildWorkflowScheduled :: "call_history_event \<Rightarrow> bool" where
  "isChildWorkflowScheduled event \<longleftrightarrow> call_type event = C_ChildWorkflowScheduled"

definition isSignalSent :: "call_history_event \<Rightarrow> bool" where
  "isSignalSent event \<longleftrightarrow> call_type event = C_SignalSent"

definition isEventsEmitted :: "call_history_event \<Rightarrow> bool" where
  "isEventsEmitted event \<longleftrightarrow> call_type event = C_EventsEmitted"

definition isSocketRequest :: "call_history_event \<Rightarrow> bool" where
  "isSocketRequest event \<longleftrightarrow> call_type event = C_SocketRequest"

definition isSearchRequest :: "call_history_event \<Rightarrow> bool" where
  "isSearchRequest event \<longleftrightarrow> call_type event = C_SearchRequest"

section \<open>Workflow events\<close>

text \<open>
  Each constructor starts with the sequence number of the call it completes, or the event's own
  id, then the timestamp; the names of the other fields are those of the equations below.
\<close>

datatype workflow_event =
    BucketRequestFailed nat int string string "string option" "string option"
  | BucketRequestSucceeded nat int string js "string option"
  | CallEvent int call_history_event
  | ChildWorkflowSucceeded nat int js
  | ChildWorkflowFailed nat int string "string option"
  | EntityRequestFailed nat int string string "string option" "string option"
  | EntityRequestSucceeded nat int string js "string option"
  | QueueRequestSucceeded nat int string js "string option"
  | QueueRequestFailed nat int string string "string option" "string option"
  | SearchRequestSucceeded nat int string js
  | SearchRequestFailed nat int string string "string option"
  | SignalReceived string int string js
  | SocketRequestFailed nat int string string "string option" "string option"
  | SocketRequestSucceeded nat int string js "string option"
  | TaskSucceeded nat int js
  | TaskFailed nat int string "string option"
  | TaskHeartbeatTimedOut nat int
  | TimerCompleted nat int
  | TransactionRequestFailed nat int string "string option"
  | TransactionRequestSucceeded nat int js
  | WorkflowSucceeded string int js
  | WorkflowFailed string int string "string option"
  | WorkflowStarted string int string js "int option" string "string option"
  | WorkflowRunCompleted string int
  | WorkflowRunStarted string int
  | WorkflowTimedOut string int

fun event_type :: "workflow_event \<Rightarrow> WorkflowEventType" where
  "event_type (BucketRequestFailed s t operation error message name) = T_BucketRequestFailed"
| "event_type (BucketRequestSucceeded s t operation result name) = T_BucketRequestSucceeded"
| "event_type (CallEvent t event) = T_CallEvent"
| "event_type (ChildWorkflowSucceeded s t result) = T_ChildWorkflowSucceeded"
| "event_type (ChildWorkflowFailed s t error message) = T_ChildWorkflowFailed"
| "event_type (EntityRequestFailed s t operation error message name) = T_EntityRequestFailed"
| "event_type (EntityRequestSucceeded s t operation result name) = T_EntityRequestSucceeded"
| "event_type (QueueRequestSucceeded s t operation result name) = T_QueueRequestSucceeded"
| "event_type (QueueRequestFailed s t operation error message name) = T_QueueRequestFailed"
| "event_type (SearchRequestSucceeded s t operation body) = T_SearchRequestSucceeded"
| "event_type (SearchRequestFailed s t operation error message) = T_SearchRequestFailed"
| "event_type (SignalReceived i t signalId payload) = T_SignalReceived"
| "event_type (SocketRequestFailed s t operation error message name) = T_SocketRequestFailed"
| "event_type (SocketRequestSucceeded s t operation result name) = T_SocketRequestSucceeded"
| "event_type (TaskSucceeded s t result) = T_TaskSucceeded"
| "event_type (TaskFailed s t error message) = T_TaskFailed"
| "event_type (TaskHeartbeatTimedOut s t) = T_TaskHeartbeatTimedOut"
| "event_type (TimerCompleted s t) = T_TimerCompleted"
| "event_type (TransactionRequestFailed s t error message) = T_TransactionRequestFailed"
| "event_type (TransactionRequestSucceeded s t result) = T_TransactionRequestSucceeded"
| "event_type (WorkflowSucceeded i t output) = T_WorkflowSucceeded"
| "event_type (WorkflowFailed i t error message) = T_WorkflowFailed"
| "event_type (WorkflowStarted i t workflow input timeoutTime contextName parentId) = T_WorkflowStarted"
| "event_type (WorkflowRunCompleted i t) = T_WorkflowRunCompleted"
| "event_type (WorkflowRunStarted i t) = T_WorkflowRunStarted"
| "event_type (WorkflowTimedOut i t) = T_WorkflowTimedOut"

fun event_timestamp :: "workflow_event \<Rightarrow> int" where
  "event_timestamp (BucketRequestFailed s t operation error message name) = t"
| "event_timestamp (BucketRequestSucceeded s t operation result name) = t"
| "event_timestamp (CallEvent t event) = t"
| "event_timestamp (ChildWorkflowSucceeded s t result) = t"
| "event_timestamp (ChildWorkflowFailed s t error message) = t"
| "event_timestamp (EntityRequestFailed s t operation error message name) = t"
| "event_timestamp (EntityRequestSucceeded s t operation result name) = t"
| "event_timestamp (QueueRequestSucceeded s t operation result name) = t"
| "event_timestamp (QueueRequestFailed s t operation error message name) = t"
| "event_timestamp (SearchRequestSucceeded s t operation body) = t"
| "event_timestamp (SearchRequestFailed s t operation error message) = t"
| "event_timestamp (SignalReceived i t signalId payload) = t"
| "event_timestamp (SocketRequestFailed s t operation error message name) = t"
| "event_timestamp (SocketRequestSucceeded s t operation result name) = t"
| "event_timestamp (TaskSucceeded s t result) = t"
| "event_timestamp (TaskFailed s t error message) = t"
| "event_timestamp (TaskHeartbeatTimedOut s t) = t"
| "event_timestamp (TimerCompleted s t) = t"
| "event_timestamp (TransactionRequestFailed s t error message) = t"
| "event_timestamp (TransactionRequestSucceeded s t result) = t"
| "event_timestamp (WorkflowSucceeded i t output) = t"
| "event_timestamp (WorkflowFailed i t error message) = t"
| "event_timestamp (WorkflowStarted i t workflow input timeoutTime contextName parentId) = t"
| "event_timestamp (WorkflowRunCompleted i t) = t"
| "event_timestamp (WorkflowRunStarted i t) = t"
| "event_timestamp (WorkflowTimedOut i t) = t"

text \<open>\<open>"seq" in event\<close>: the events that answer a call.\<close>

fun event_seq :: "workflow_event \<Rightarrow> nat option" where
  "event_seq (BucketRequestFailed s t operation error message name) = Some s"
| "event_seq (BucketRequestSucceeded s t operation result name) = Some s"
| "event_seq (ChildWorkflowSucceeded s t result) = Some s"
| "event_seq (ChildWorkflowFailed s t error message) = Some s"
| "event_seq (EntityRequestFailed s t operation error message name) = Some s"
| "event_seq (EntityRequestSucceeded s t operation result name) = Some s"
| "event_seq (QueueRequestSucceeded s t operation result name) = Some s"
| "event_seq (QueueRequestFailed s t operation error message name) = Some s"
| "event_seq (SearchRequestSucceeded s t operation body) = Some s"
| "event_seq (SearchRequestFailed s t operation error message) = Some s"
| "event_seq (SocketRequestFailed s t operation error message name) = Some s"
| "event_seq (SocketRequestSucceeded s t operation result name) = Some s"
| "event_seq (TaskSucceeded s t result) = Some s"
| "event_seq (TaskFailed s t error message) = Some s"
| "event_seq (TaskHeartbeatTimedOut s t) = Some s"
| "event_seq (TimerCompleted s t) = Some s"
| "event_seq (TransactionRequestFailed s t error message) = Some s"
| "event_seq (TransactionRequestSucceeded s t result) = Some s"
| "event_seq _ = None"

fun event_own_id :: "workflow_event \<Rightarrow> string option" where
  "event_own_id (SignalReceived i t signalId payload) = Some i"
| "event_own_id (WorkflowSucceeded i t output) = Some i"
| "event_own_id (WorkflowFailed i t error message) = Some i"
| "event_own_id (WorkflowStarted i t workflow input timeoutTime contextName parentId) = Some i"
| "event_own_id (WorkflowRunCompleted i t) = Some i"
| "event_own_id (WorkflowRunStarted i t) = Some i"
| "event_own_id (WorkflowTimedOut i t) = Some i"
| "event_own_id _ = None"

fun with_timestamp :: "int \<Rightarrow> workflow_event \<Rightarrow> workflow_event" where
  "with_timestamp u (BucketRequestFailed s t operation error message name) = BucketRequestFailed s u operation error message name"
| "with_timestamp u (BucketRequestSucceeded s t operation result name) = BucketRequestSucceeded s u operation result name"
| "with_timestamp u (CallEvent t event) = CallEvent u event"
| "with_timestamp u (ChildWorkflowSucceeded s t result) = ChildWorkflowSucceeded s u result"
| "with_timestamp u (ChildWorkflowFailed s t error message) = ChildWorkflowFailed s u error message"
| "with_timestamp u (EntityRequestFailed s t operation error message name) = EntityRequestFailed s u operation error message name"
| "with_timestamp u (EntityRequestSucceeded s t operation result name) = EntityRequestSucceeded s u operation result name"
| "with_timestamp u (QueueRequestSucceeded s t operation result name) = QueueRequestSucceeded s u operation result name"
| "with_timestamp u (QueueRequestFailed s t operation error message name) = QueueRequestFailed s u operation error message name"
| "with_timestamp u (SearchRequestSucceeded s t operation body) = SearchRequestSucceeded s u operation body"
| "with_timestamp u (SearchRequestFailed s t operation error message) = SearchRequestFailed s u operation error message"
| "with_timestamp u (SignalReceived i t signalId payload) = SignalReceived i u signalId payload"
| "with_timestamp u (SocketRequestFailed s t operation error message name) = SocketRequestFailed s u operation error message name"
| "with_timestamp u (SocketRequestSucceeded s t operation result name) = SocketRequestSucceeded s u operation result name"
| "with_timestamp u (TaskSucceeded s t result) = TaskSucceeded s u result"
| "with_timestamp u (TaskFailed s t error message) = TaskFailed s u error message"
| "with_timestamp u (TaskHeartbeatTimedOut s t) = TaskHeartbeatTimedOut s u"
| "with_timestamp u (TimerCompleted s t) = TimerCompleted s u"
| "with_timestamp u (TransactionRequestFailed s t error message) = TransactionRequestFailed s u error message"
| "with_timestamp u (TransactionRequestSucceeded s t result) = TransactionRequestSucceeded s u result"
| "with_timestamp u (WorkflowSucceeded i t output) = WorkflowSucceeded i u output"
| "with_timestamp u (WorkflowFailed i t error message) = WorkflowFailed i u error message"
| "with_timestamp u (WorkflowStarted i t workflow input timeoutTime contextName parentId) = WorkflowStarted i u workflow input timeoutTime contextName parentId"
| "with_timestamp u (WorkflowRunCompleted i t) = WorkflowRunCompleted i u"
| "with_timestamp u (WorkflowRunStarted i t) = WorkflowRunStarted i u"
| "with_timestamp u (WorkflowTimedOut i t) = WorkflowTimedOut i u"

fun with_id :: "string \<Rightarrow> workflow_event \<Rightarrow> workflow_event" where
  "with_id j (SignalReceived i t signalId payload) = SignalReceived j t signalId payload"
| "with_id j (WorkflowSucceeded i t output) = WorkflowSucceeded j t output"
| "with_id j (WorkflowFailed i t error message) = WorkflowFailed j t error message"
| "with_id j (WorkflowStarted i t workflow input timeoutTime contextName parentId) = WorkflowStarted j t workflow input timeoutTime contextName parentId"
| "with_id j (WorkflowRunCompleted i t) = WorkflowRunCompleted j t"
| "with_id j (WorkflowRunStarted i t) = WorkflowRunStarted j t"
| "with_id j (WorkflowTimedOut i t) = WorkflowTimedOut j t"
| "with_id j e = e"

section \<open>Type guards\<close>

definition isWorkflowStarted :: "workflow_event \<Rightarrow> bool" where
  "isWorkflowStarted event \<longleftrightarrow> event_type event = T_WorkflowStarted"

definition isWorkflowRunStarted :: "workflow_event \<Rightarrow> bool" where
  "isWorkflowRunStarted event \<longleftrightarrow> event_type event = T_WorkflowRunStarted"

definition isTaskSucceeded :: "workflow_event \<Rightarrow> bool" where
  "isTaskSucceeded event \<longleftrightarrow> event_type event = T_TaskSucceeded"

definition isTaskFailed :: "workflow_event \<Rightarrow> bool" where
  "isTaskFailed event \<longleftrightarrow> event_type event = T_TaskFailed"

definition isTaskHeartbeatTimedOut :: "workflow_event \<Rightarrow> bool" where
  "isTaskHeartbeatTimedOut event \<longleftrightarrow> event_type event = T_TaskHeartbeatTimedOut"

definition isQueueRequestSucceeded :: "workflow_event \<Rightarrow> bool" where
  "isQueueRequestSucceeded event \<longleftrightarrow> event_type event = T_QueueRequestSucceeded"

definition isQueueRequestFailed :: "workflow_event \<Rightarrow> bool" where
  "isQueueRequestFailed event \<longleftrightarrow> event_type event = T_QueueRequestFailed"

definition isEntityRequestSucceeded :: "workflow_event \<Rightarrow> bool" where
  "isEntityRequestSucceeded event \<longleftrightarrow> event_type event = T_EntityRequestSucceeded"

definition isEntityRequestFailed :: "workflow_event \<Rightarrow> bool" where
  "isEntityRequestFailed event \<longleftrightarrow> event_type event = T_EntityRequestFailed"

definition isTransactionRequestSucceeded :: "workflow_event \<Rightarrow> bool" where
  "isTransactionRequestSucceeded event \<longleftrightarrow> event_type event = T_TransactionRequestSucceeded"

definition isTransactionRequestFailed :: "workflow_event \<Rightarrow> bool" where
  "isTransactionRequestFailed event \<longleftrightarrow> event_type event = T_TransactionRequestFailed"

definition isBucketRequestSucceeded :: "workflow_event \<Rightarrow> bool" where
  "isBucketRequestSucceeded event \<longleftrightarrow> event_type event = T_BucketRequestSucceeded"

definition isBucketRequestFailed :: "workflow_event \<Rightarrow> bool" where
  "isBucketRequestFailed event \<longleftrightarrow> event_type event = T_BucketRequestFailed"

definition isWorkflowRunCompleted :: "workflow_event \<Rightarrow> bool" where
  "isWorkflowRunCompleted event \<longleftrightarrow> event_type event = T_WorkflowRunCompleted"

definition isWorkflowSucceeded :: "workflow_event \<Rightarrow> bool" where
  "isWorkflowSucceeded event \<longleftrightarrow> event_type event = T_WorkflowSucceeded"

definition isWorkflowFailed :: "workflow_event \<Rightarrow> bool" where
  "isWorkflowFailed event \<longleftrightarrow> event_type event = T_WorkflowFailed"

definition isChildWorkflowSucceeded :: "workflow_event \<Rightarrow> bool" where
  "isChildWorkflowSucceeded event \<longleftrightarrow> event_type event = T_ChildWorkflowSucceeded"

definition isChildWorkflowFailed :: "workflow_event \<Rightarrow> bool" where
  "isChildWorkflowFailed event \<longleftrightarrow> event_type event = T_ChildWorkflowFailed"

definition isTimerCompleted :: "workflow_event \<Rightarrow> bool" where
  "isTimerCompleted event \<longleftrightarrow> event_type event = T_TimerCompleted"

definition isSignalReceived :: "workflow_event \<Rightarrow> bool" where
  "isSignalReceived event \<longleftrightarrow> event_type event = T_SignalReceived"

definition isSocketRequestSucceeded :: "workflow_event \<Rightarrow> bool" where
  "isSocketRequestSucceeded event \<longleftrightarrow> event_type event = T_SocketRequestSucceeded"

definition isSocketRequestFailed :: "workflow_event \<Rightarrow> bool" where
  "isSocketRequestFailed event \<longleftrightarrow> event_type event = T_SocketRequestFailed"

definition isSearchRequestSucceeded :: "workflow_event \<Rightarrow> bool" where
  "isSearchRequestSucceeded event \<longleftrightarrow> event_type event = T_SearchRequestSucceeded"

definition isSearchRequestFailed :: "workflow_event \<Rightarrow> bool" where
  "isSearchRequestFailed event \<longleftrightarrow> event_type event = T_SearchRequestFailed"

definition isWorkflowTimedOut :: "workflow_event \<Rightarrow> bool" where
  "isWorkflowTimedOut event \<longleftrightarrow> event_type event = T_WorkflowTimedOut"

definition isCallEvent :: "workflow_event \<Rightarrow> bool" where
  "isCallEvent event \<longleftrightarrow> event_type event = T_CallEvent"

text \<open>\<open>or(...conditions)\<close> of internal/util.ts.\<close>

definition or_conditions :: "('a \<Rightarrow> bool) list \<Rightarrow> 'a \<Rightarrow> bool" where
  "or_conditions conditions a \<longleftrightarrow> list_ex (\<lambda>cond. cond a) conditions"

definition isCompletionEvent :: "workflow_event \<Rightarrow> bool" where
  "isCompletionEvent = or_conditions
     [isBucketRequestFailed,
      isBucketRequestSucceeded,
      isChildWorkflowFailed,
      isChildWorkflowSucceeded,
      isEntityRequestFailed,
      isEntityRequestSucceeded,
      isQueueRequestFailed,
      isQueueRequestSucceeded,
      isSearchRequestFailed,
      isSearchRequestSucceeded,
      isSignalReceived,
      isSocketRequestFailed,
      isSocketRequestSucceeded,
      isTaskSucceeded,
      isTaskFailed,
      isTaskHeartbeatTimedOut,
      isTimerCompleted,
      isTransactionRequestFailed,
      isTransactionRequestSucceeded,
      isWorkflowTimedOut,
      isWorkflowRunStarted]"

definition isHistoryEvent :: "workflow_event \<Rightarrow> bool" where
  "isHistoryEvent event \<longleftrightarrow> isCompletionEvent event \<or> isCallEvent event"

definition isHistoryStateEvent :: "workflow_event \<Rightarrow> bool" where
  "isHistoryStateEvent event \<longleftrightarrow>
     isHistoryEvent event \<or> isWorkflowStarted event \<or> isWorkflowSucceeded event \<or> isWorkflowFailed event"

definition isWorkflowCompletedEvent :: "workflow_event \<Rightarrow> bool" where
  "isWorkflowCompletedEvent = or_conditions [isWorkflowFailed, isWorkflowSucceeded]"

definition isBucketRequestSucceededOperationType :: "string \<Rightarrow> workflow_event \<Rightarrow> bool" where
  "isBucketRequestSucceededOperationType op event =
     (case event of BucketRequestSucceeded s t operation result name \<Rightarrow> operation = op | _ \<Rightarrow> False)"

text \<open>\<open>Inl\<close> is the thrown error's message.\<close>

definition assertEventType :: "workflow_event option \<Rightarrow> WorkflowEventType \<Rightarrow> string + workflow_event" where
  "assertEventType event type =
     (case event of
        None \<Rightarrow> Inl (''Expected event of type '' @ nat_str (event_type_code type))
      | Some e \<Rightarrow> (if event_type e \<noteq> type
          then Inl (''Expected event of type '' @ nat_str (event_type_code type)) else Inr e))"

section \<open>Identity, creation and deduplication\<close>

text \<open>
  The call event of a workflow event, when it is one. An event that is neither a completion
  with a sequence number nor a call event has an id of its own; the last case of the \<open>case\<close>
  (no id at all) does not occur (\<open>getEventId_total\<close>).
\<close>

definition getEventId :: "workflow_event \<Rightarrow> string" where
  "getEventId event =
     (case (if isCompletionEvent event then event_seq event else None) of
        Some seq \<Rightarrow> nat_str seq @ ''_'' @ nat_str (event_type_code (event_type event))
      | None \<Rightarrow>
          (case event of
             CallEvent t c \<Rightarrow> nat_str (call_seq c) @ ''_'' @ nat_str (event_type_code (event_type event))
           | _ \<Rightarrow> (case event_own_id event of Some i \<Rightarrow> i | None \<Rightarrow> ''undefined'')))"

text \<open>
  \<open>createEvent\<close> completes an event that has no id and timestamp yet. Its argument here is
  the event with arbitrary ones, and its third the id (the fresh \<open>ulid()\<close> by default).
\<close>

definition createEvent :: "workflow_event \<Rightarrow> int \<Rightarrow> string \<Rightarrow> workflow_event" where
  "createEvent event time i =
     (if isHistoryEvent event \<and> \<not> isSignalReceived event \<and> \<not> isWorkflowRunStarted event
         \<and> \<not> isWorkflowTimedOut event
      then with_timestamp time event
      else with_id i (with_timestamp time event))"

text \<open>The loop of \<open>filterEvents\<close>: \<open>ids\<close> is the set of identities seen so far.\<close>

fun filter_new :: "string set \<Rightarrow> workflow_event list \<Rightarrow> workflow_event list" where
  "filter_new ids [] = []"
| "filter_new ids (e # es) =
     (if getEventId e \<in> ids then filter_new ids es
      else e # filter_new (insert (getEventId e) ids) es)"

definition filterEvents :: "workflow_event list \<Rightarrow> workflow_event list \<Rightarrow> workflow_event list" where
  "filterEvents originEvents events = filter_new (set (map getEventId originEvents)) events"

lemmas event_guard_defs =
  isWorkflowStarted_def isWorkflowRunStarted_def isTaskSucceeded_def isTaskFailed_def
  isTaskHeartbeatTimedOut_def isQueueRequestSucceeded_def isQueueRequestFailed_def
  isEntityRequestSucceeded_def isEntityRequestFailed_def isTransactionRequestSucceeded_def
  isTransactionRequestFailed_def isBucketRequestSucceeded_def isBucketRequestFailed_def
  isWorkflowRunCompleted_def isWorkflowSucceeded_def isWorkflowFailed_def
  isChildWorkflowSucceeded_def isChildWorkflowFailed_def isTimerCompleted_def
  isSignalReceived_def isSocketRequestSucceeded_def isSocketRequestFailed_def
  isSearchRequestSucceeded_def isSearchRequestFailed_def isWorkflowTimedOut_def isCallEvent_def

lemma event_type_code_inject [simp]: "event_type_code a = event_type_code b \<longleftrightarrow> a = b"
  by (cases a; cases b) simp_all

lemma call_type_code_inject [simp]: "call_type_code a = call_type_code b \<longleftrightarrow> a = b"
  by (cases a; cases b) simp_all

lemma isCompletionEvent_iff [event_simps]:
  "isCompletionEvent e \<longleftrightarrow>
     event_seq e \<noteq> None \<or> isSignalReceived e \<or> isWorkflowTimedOut e \<or> isWorkflowRunStarted e"
  by (cases e) (simp_all add: isCompletionEvent_def or_conditions_def event_guard_defs)

lemma completion_not_call: "isCompletionEvent e \<Longrightarrow> \<not> isCallEvent e"
  by (cases e) (simp_all add: isCompletionEvent_iff event_guard_defs)

lemma isCallEvent_iff: "isCallEvent e \<longleftrightarrow> (\<exists>t c. e = CallEvent t c)"
  by (cases e) (simp_all add: isCallEvent_def)

lemma getEventId_seq:
  "event_seq e = Some s \<Longrightarrow> getEventId e = nat_str s @ ''_'' @ nat_str (event_type_code (event_type e))"
  by (simp add: getEventId_def isCompletionEvent_iff)

lemma getEventId_call:
  "getEventId (CallEvent t c) = nat_str (call_seq c) @ ''_20''"
  by (simp add: getEventId_def nat_str_eval)

lemma getEventId_own:
  "event_own_id e = Some i \<Longrightarrow> getEventId e = i"
  by (cases e) (simp_all add: getEventId_def)

lemma getEventId_cases:
  obtains (result) s where "event_seq e = Some s" | (call) t c where "e = CallEvent t c"
    | (own) i where "event_own_id e = Some i"
  by (cases e) auto

lemma underscore_inject:
  "nat_str a @ ''_'' @ x = nat_str b @ ''_'' @ y \<longleftrightarrow> a = b \<and> x = y"
  using append_sep_inject [of "CHR ''_''" "nat_str a" "nat_str b" x y]
  by (simp add: not_digit_notin_nat_str)

lemma getEventId_result_inject:
  assumes "event_seq e = Some s" and "event_seq f = Some s'"
  shows "getEventId e = getEventId f \<longleftrightarrow> s = s' \<and> event_type e = event_type f"
  using assms by (simp only: getEventId_seq underscore_inject nat_str_inject event_type_code_inject)

lemma with_timestamp_inv [simp]:
  "event_type (with_timestamp t e) = event_type e"
  "event_seq (with_timestamp t e) = event_seq e"
  "event_own_id (with_timestamp t e) = event_own_id e"
  "event_timestamp (with_timestamp t e) = t"
  by (cases e; simp)+

lemma with_id_inv [simp]:
  "event_type (with_id i e) = event_type e"
  "event_seq (with_id i e) = event_seq e"
  "event_timestamp (with_id i e) = event_timestamp e"
  "event_own_id (with_id i e) = (if event_own_id e = None then None else Some i)"
  by (cases e; simp)+

text \<open>
  A created event has the given time; it has the given id exactly when its kind carries one
  (the guard of \<open>createEvent\<close> only spares the others a superfluous field).
\<close>

lemma createEvent_spec:
  "event_timestamp (createEvent e t i) = t \<and> event_type (createEvent e t i) = event_type e
   \<and> event_seq (createEvent e t i) = event_seq e
   \<and> (event_own_id e \<noteq> None \<longrightarrow> event_own_id (createEvent e t i) = Some i)"
  by (cases e) (simp_all add: createEvent_def isHistoryEvent_def isCompletionEvent_iff event_guard_defs)

lemma filter_new_spec:
  "set (filter_new ids es) \<subseteq> set es \<and>
   distinct (map getEventId (filter_new ids es)) \<and>
   getEventId ` set (filter_new ids es) = getEventId ` set es - ids"
proof (induction es arbitrary: ids)
  case Nil
  then show ?case by simp
next
  case (Cons e es)
  show ?case
  proof (cases "getEventId e \<in> ids")
    case True
    with Cons.IH [of ids] show ?thesis by auto
  next
    case False
    with Cons.IH [of "insert (getEventId e) ids"] show ?thesis by auto
  qed
qed

lemma filter_new_all_seen: "getEventId ` set es \<subseteq> ids \<Longrightarrow> filter_new ids es = []"
  by (induction es) auto

lemma filter_new_append:
  "filter_new ids (xs @ ys) = filter_new ids xs @ filter_new (ids \<union> getEventId ` set xs) ys"
proof (induction xs arbitrary: ids)
  case (Cons x xs)
  then show ?case by (simp add: insert_absorb Un_commute)
qed simp

lemma filter_new_id:
  "distinct (map getEventId es) \<Longrightarrow> getEventId ` set es \<inter> ids = {} \<Longrightarrow> filter_new ids es = es"
  by (induction es arbitrary: ids) auto

text \<open>
  Which events are added to a history. Each added event is one of the new ones
  and has an id the history does not have, no id is added twice, no new id is lost, and adding
  the same events again adds nothing.
\<close>

theorem filterEvents_deduplicates:
  "set (filterEvents origin es) \<subseteq> set es \<and> distinct (map getEventId (filterEvents origin es)) \<and>
   getEventId ` set (filterEvents origin es) = getEventId ` set es - getEventId ` set origin \<and>
   filterEvents (origin @ filterEvents origin es) es = []"
proof -
  have spec: "set (filterEvents origin es) \<subseteq> set es \<and> distinct (map getEventId (filterEvents origin es)) \<and>
      getEventId ` set (filterEvents origin es) = getEventId ` set es - getEventId ` set origin"
    using filter_new_spec [of "set (map getEventId origin)" es] by (simp add: filterEvents_def)
  moreover have "filterEvents (origin @ filterEvents origin es) es = []"
    unfolding filterEvents_def [of "origin @ _"] by (rule filter_new_all_seen) (use spec in auto)
  ultimately show ?thesis by blast
qed

text \<open>
  The identity of an event. Two events that complete a call are the same event
  exactly when they complete the same call with the same type of event; a call event is never
  confused with a completion event, and is determined by its sequence number.
\<close>

theorem event_identity:
  "(event_seq e = Some s \<and> event_seq f = Some s' \<longrightarrow>
      (getEventId e = getEventId f \<longleftrightarrow> s = s' \<and> event_type e = event_type f)) \<and>
   (event_seq e = Some s \<longrightarrow> getEventId e \<noteq> getEventId (CallEvent t c)) \<and>
   (getEventId (CallEvent t c) = getEventId (CallEvent t' c') \<longleftrightarrow> call_seq c = call_seq c')"
proof -
  have "getEventId e \<noteq> getEventId (CallEvent t c)" if "event_seq e = Some s"
  proof -
    have "event_type e \<noteq> T_CallEvent" using that by (cases e) simp_all
    then have "nat_str (event_type_code (event_type e)) \<noteq> nat_str (event_type_code T_CallEvent)"
      by (simp only: nat_str_inject event_type_code_inject) simp
    moreover have "getEventId (CallEvent t c) = nat_str (call_seq c) @ ''_'' @ nat_str (event_type_code T_CallEvent)"
      by (simp add: getEventId_def isCompletionEvent_iff event_guard_defs)
    ultimately show ?thesis using that by (simp only: getEventId_seq underscore_inject) simp
  qed
  moreover have "getEventId (CallEvent t c) = getEventId (CallEvent t' c') \<longleftrightarrow> call_seq c = call_seq c'"
    using underscore_inject [of "call_seq c" "''20''" "call_seq c'" "''20''"] by (simp add: getEventId_call)
  ultimately show ?thesis using getEventId_result_inject by blast
qed

lemma event_identity_witness:
  "getEventId (TaskSucceeded 3 0 JNull) \<noteq> getEventId (TaskFailed 3 0 ''Error'' None) \<and>
   getEventId (TaskSucceeded 3 0 JNull) \<noteq> getEventId (CallEvent 0 (TimerScheduled 3 (Time 0)))"
  using event_identity [of "TaskSucceeded 3 0 JNull" 3 "TaskFailed 3 0 ''Error'' None" 3 0 "TimerScheduled 3 (Time 0)"]
  by simp

end
