(* ===== verification/Calls.thy ===== *)
theory Calls
  imports WorkflowEvents
begin

text \<open>
  The calls a workflow makes, @eventual/core's internal/calls.ts: one constructor per call
  interface, its fields in the order of the interface (the argument names of
  \<^verbatim>\<open>call_kind\<close>'s equations are the field names of the source), the operations as data.

  A call is first order: a closure of the workflow (the predicate of a condition, the handler
  of a signal) is a reference \<open>fnref\<close> that the workflow resolves, and a promise is a reference
  \<open>pref\<close>: the promise of the eventual with that sequence number, or one the workflow
  made itself. A \<open>Buffer\<close> is the string of its bytes.
\<close>

type_synonym fnref = nat

datatype pref = EventualPromise nat | UserPromise nat

text \<open>
  An optional \<open>timeout\<close>: absent, a promise, or a value that is not a promise (the executor
  accepts one \<open>in case someone sneaks a non-promise in here\<close>).
\<close>

datatype timeout = NoTimeout | PromiseTimeout pref | ValueTimeout js

record event_envelope =
  ee_name :: string
  ee_event :: js

section \<open>Operations\<close>

datatype entity_operation =
    EntityOp string string "js list"
  | EntityQueryIndex string string "js list"
  | EntityScanIndex string string "js list"
  | EntityTransact "js list"

fun entity_op_name :: "entity_operation \<Rightarrow> string" where
  "entity_op_name (EntityOp operation entityName params) = operation"
| "entity_op_name (EntityQueryIndex entityName indexName params) = ''queryIndex''"
| "entity_op_name (EntityScanIndex entityName indexName params) = ''scanIndex''"
| "entity_op_name (EntityTransact items) = ''transact''"

fun entity_op_entity :: "entity_operation \<Rightarrow> string option" where
  "entity_op_entity (EntityOp operation entityName params) = Some entityName"
| "entity_op_entity (EntityQueryIndex entityName indexName params) = Some entityName"
| "entity_op_entity (EntityScanIndex entityName indexName params) = Some entityName"
| "entity_op_entity (EntityTransact items) = None"

definition isEntityOperationOfType :: "string \<Rightarrow> entity_operation \<Rightarrow> bool" where
  "isEntityOperationOfType operation call \<longleftrightarrow> entity_op_name call = operation"

fun entity_op_js :: "entity_operation \<Rightarrow> js" where
  "entity_op_js (EntityOp operation entityName params) =
     JObj [(''operation'', JStr operation), (''entityName'', JStr entityName), (''params'', JArr params)]"
| "entity_op_js (EntityQueryIndex entityName indexName params) =
     JObj [(''operation'', JStr ''queryIndex''), (''entityName'', JStr entityName),
           (''indexName'', JStr indexName), (''params'', JArr params)]"
| "entity_op_js (EntityScanIndex entityName indexName params) =
     JObj [(''operation'', JStr ''scanIndex''), (''entityName'', JStr entityName),
           (''indexName'', JStr indexName), (''params'', JArr params)]"
| "entity_op_js (EntityTransact items) = JObj [(''operation'', JStr ''transact''), (''items'', JArr items)]"

record bucket_operation =
  bo_operation :: string
  bo_bucketName :: string
  bo_params :: "js list"

definition bucket_op_js :: "bucket_operation \<Rightarrow> js" where
  "bucket_op_js o' =
     JObj [(''operation'', JStr (bo_operation o')), (''bucketName'', JStr (bo_bucketName o')),
           (''params'', JArr (bo_params o'))]"

text \<open>The payload of a queue message; the last two fields are those of a fifo queue.\<close>

record queue_payload =
  qp_delay :: "duration_schedule option"
  qp_message :: js
  qp_messageGroupId :: "string option"
  qp_messageDeduplicationId :: "js option"

datatype queue_operation =
    QueueSendMessage string bool queue_payload
  | QueueSendMessageBatch string bool "(string \<times> queue_payload) list"
  | QueueOp string string "js list"

fun queue_op_name :: "queue_operation \<Rightarrow> string" where
  "queue_op_name (QueueSendMessage queueName fifo payload) = ''sendMessage''"
| "queue_op_name (QueueSendMessageBatch queueName fifo entries) = ''sendMessageBatch''"
| "queue_op_name (QueueOp operation queueName params) = operation"

fun queue_op_queue :: "queue_operation \<Rightarrow> string" where
  "queue_op_queue (QueueSendMessage queueName fifo payload) = queueName"
| "queue_op_queue (QueueSendMessageBatch queueName fifo entries) = queueName"
| "queue_op_queue (QueueOp operation queueName params) = queueName"

definition isQueueOperationOfType :: "string \<Rightarrow> queue_operation \<Rightarrow> bool" where
  "isQueueOperationOfType op operation \<longleftrightarrow> queue_op_name operation = op"

definition queue_payload_fields :: "queue_payload \<Rightarrow> (string \<times> js) list" where
  "queue_payload_fields p =
     [(''delay'', case qp_delay p of None \<Rightarrow> JUndef | Some d \<Rightarrow> schedule_js (Duration d)),
      (''message'', qp_message p),
      (''messageGroupId'', case qp_messageGroupId p of None \<Rightarrow> JUndef | Some g \<Rightarrow> JStr g),
      (''messageDeduplicationId'', the_default JUndef (qp_messageDeduplicationId p))]"

fun queue_op_js :: "queue_operation \<Rightarrow> js" where
  "queue_op_js (QueueSendMessage queueName fifo payload) =
     JObj ([(''operation'', JStr ''sendMessage''), (''queueName'', JStr queueName), (''fifo'', JBool fifo)]
           @ queue_payload_fields payload)"
| "queue_op_js (QueueSendMessageBatch queueName fifo entries) =
     JObj [(''operation'', JStr ''sendMessageBatch''), (''queueName'', JStr queueName),
           (''fifo'', JBool fifo),
           (''entries'', JArr (map (\<lambda>(i, p). JObj ((''id'', JStr i) # queue_payload_fields p)) entries))]"
| "queue_op_js (QueueOp operation queueName params) =
     JObj [(''operation'', JStr operation), (''queueName'', JStr queueName), (''params'', JArr params)]"

datatype socket_input = SocketBuffer string | SocketText string

datatype socket_operation =
    SocketSend string string socket_input
  | SocketOp string string "js list"

fun socket_op_name :: "socket_operation \<Rightarrow> string" where
  "socket_op_name (SocketSend socketName connectionId input) = ''send''"
| "socket_op_name (SocketOp operation socketName params) = operation"

datatype signal_handler_operation =
    RegisterHandler string fnref
  | DisposeHandler nat

section \<open>Calls\<close>

datatype call =
    AwaitTimerCall schedule
  | BucketCall bucket_operation
  | ChildWorkflowCall string js "schedule option" timeout
  | ConditionCall fnref timeout
  | EmitEventsCall "event_envelope list" "string option"
  | EntityCall entity_operation
  | ExpectSignalCall string timeout
  | GetExecutionCall string
  | InvokeTransactionCall string js
  | SignalHandlerCall signal_handler_operation
  | SearchCall string js string
  | SendSignalCall string js signal_target "string option"
  | SocketCall socket_operation
  | StartWorkflowCall string js "schedule option"
  | TaskCall string js "duration_schedule option" timeout
  | TaskRequestCall string "js list"
  | QueueCall queue_operation

datatype CallKind =
    K_AwaitTimerCall
  | K_BucketCall
  | K_ChildWorkflowCall
  | K_ConditionCall
  | K_EmitEventsCall
  | K_EntityCall
  | K_ExpectSignalCall
  | K_GetExecutionCall
  | K_InvokeTransactionCall
  | K_QueueCall
  | K_SearchCall
  | K_SendSignalCall
  | K_SignalHandlerCall
  | K_SocketCall
  | K_StartWorkflowCall
  | K_TaskCall
  | K_TaskRequestCall

fun call_kind_code :: "CallKind \<Rightarrow> nat" where
  "call_kind_code K_AwaitTimerCall = 1"
| "call_kind_code K_BucketCall = 10"
| "call_kind_code K_ChildWorkflowCall = 7"
| "call_kind_code K_ConditionCall = 2"
| "call_kind_code K_EmitEventsCall = 4"
| "call_kind_code K_EntityCall = 8"
| "call_kind_code K_ExpectSignalCall = 3"
| "call_kind_code K_GetExecutionCall = 14"
| "call_kind_code K_InvokeTransactionCall = 9"
| "call_kind_code K_QueueCall = 15"
| "call_kind_code K_SearchCall = 11"
| "call_kind_code K_SendSignalCall = 6"
| "call_kind_code K_SignalHandlerCall = 5"
| "call_kind_code K_SocketCall = 16"
| "call_kind_code K_StartWorkflowCall = 13"
| "call_kind_code K_TaskCall = 0"
| "call_kind_code K_TaskRequestCall = 12"

text \<open>\<open>CallKind[kind]\<close>, the name of the enum member.\<close>

fun call_kind_name :: "CallKind \<Rightarrow> string" where
  "call_kind_name K_AwaitTimerCall = ''AwaitTimerCall''"
| "call_kind_name K_BucketCall = ''BucketCall''"
| "call_kind_name K_ChildWorkflowCall = ''ChildWorkflowCall''"
| "call_kind_name K_ConditionCall = ''ConditionCall''"
| "call_kind_name K_EmitEventsCall = ''EmitEventsCall''"
| "call_kind_name K_EntityCall = ''EntityCall''"
| "call_kind_name K_ExpectSignalCall = ''ExpectSignalCall''"
| "call_kind_name K_GetExecutionCall = ''GetExecutionCall''"
| "call_kind_name K_InvokeTransactionCall = ''InvokeTransactionCall''"
| "call_kind_name K_QueueCall = ''QueueCall''"
| "call_kind_name K_SearchCall = ''SearchCall''"
| "call_kind_name K_SendSignalCall = ''SendSignalCall''"
| "call_kind_name K_SignalHandlerCall = ''SignalHandlerCall''"
| "call_kind_name K_SocketCall = ''SocketCall''"
| "call_kind_name K_StartWorkflowCall = ''StartWorkflowCall''"
| "call_kind_name K_TaskCall = ''TaskCall''"
| "call_kind_name K_TaskRequestCall = ''TaskRequestCall''"

fun call_kind :: "call \<Rightarrow> CallKind" where
  "call_kind (AwaitTimerCall schedule) = K_AwaitTimerCall"
| "call_kind (BucketCall operation) = K_BucketCall"
| "call_kind (ChildWorkflowCall name input opts timeout) = K_ChildWorkflowCall"
| "call_kind (ConditionCall predicate timeout) = K_ConditionCall"
| "call_kind (EmitEventsCall events i) = K_EmitEventsCall"
| "call_kind (EntityCall operation) = K_EntityCall"
| "call_kind (ExpectSignalCall signalId timeout) = K_ExpectSignalCall"
| "call_kind (GetExecutionCall executionId) = K_GetExecutionCall"
| "call_kind (InvokeTransactionCall transactionName input) = K_InvokeTransactionCall"
| "call_kind (SignalHandlerCall operation) = K_SignalHandlerCall"
| "call_kind (SearchCall operation request indexName) = K_SearchCall"
| "call_kind (SendSignalCall signalId payload target i) = K_SendSignalCall"
| "call_kind (SocketCall operation) = K_SocketCall"
| "call_kind (StartWorkflowCall name input opts) = K_StartWorkflowCall"
| "call_kind (TaskCall name input heartbeat timeout) = K_TaskCall"
| "call_kind (TaskRequestCall operation params) = K_TaskRequestCall"
| "call_kind (QueueCall operation) = K_QueueCall"

definition isCallOfKind :: "CallKind \<Rightarrow> call \<Rightarrow> bool" where
  "isCallOfKind kind a \<longleftrightarrow> call_kind a = kind"

definition isAwaitTimerCall :: "call \<Rightarrow> bool" where
  "isAwaitTimerCall a \<longleftrightarrow> isCallOfKind K_AwaitTimerCall a"

definition isBucketCall :: "call \<Rightarrow> bool" where
  "isBucketCall a \<longleftrightarrow> isCallOfKind K_BucketCall a"

definition isChildWorkflowCall :: "call \<Rightarrow> bool" where
  "isChildWorkflowCall a \<longleftrightarrow> isCallOfKind K_ChildWorkflowCall a"

definition isConditionCall :: "call \<Rightarrow> bool" where
  "isConditionCall a \<longleftrightarrow> isCallOfKind K_ConditionCall a"

definition isEmitEventsCall :: "call \<Rightarrow> bool" where
  "isEmitEventsCall a \<longleftrightarrow> isCallOfKind K_EmitEventsCall a"

definition isEntityCall :: "call \<Rightarrow> bool" where
  "isEntityCall a \<longleftrightarrow> isCallOfKind K_EntityCall a"

definition isExpectSignalCall :: "call \<Rightarrow> bool" where
  "isExpectSignalCall a \<longleftrightarrow> isCallOfKind K_ExpectSignalCall a"

definition isGetExecutionCall :: "call \<Rightarrow> bool" where
  "isGetExecutionCall a \<longleftrightarrow> isCallOfKind K_GetExecutionCall a"

definition isInvokeTransactionCall :: "call \<Rightarrow> bool" where
  "isInvokeTransactionCall a \<longleftrightarrow> isCallOfKind K_InvokeTransactionCall a"

definition isSignalHandlerCall :: "call \<Rightarrow> bool" where
  "isSignalHandlerCall a \<longleftrightarrow> isCallOfKind K_SignalHandlerCall a"

definition isSearchCall :: "call \<Rightarrow> bool" where
  "isSearchCall a \<longleftrightarrow> isCallOfKind K_SearchCall a"

definition isSendSignalCall :: "call \<Rightarrow> bool" where
  "isSendSignalCall a \<longleftrightarrow> isCallOfKind K_SendSignalCall a"

definition isSocketCall :: "call \<Rightarrow> bool" where
  "isSocketCall a \<longleftrightarrow> isCallOfKind K_SocketCall a"

definition isStartWorkflowCall :: "call \<Rightarrow> bool" where
  "isStartWorkflowCall a \<longleftrightarrow> isCallOfKind K_StartWorkflowCall a"

definition isTaskCall :: "call \<Rightarrow> bool" where
  "isTaskCall a \<longleftrightarrow> isCallOfKind K_TaskCall a"

definition isTaskRequestCall :: "call \<Rightarrow> bool" where
  "isTaskRequestCall a \<longleftrightarrow> isCallOfKind K_TaskRequestCall a"

definition isQueueCall :: "call \<Rightarrow> bool" where
  "isQueueCall a \<longleftrightarrow> isCallOfKind K_QueueCall a"

definition isBucketCallOperation :: "string \<Rightarrow> bucket_operation \<Rightarrow> bool" where
  "isBucketCallOperation op operation \<longleftrightarrow> bo_operation operation = op"

definition isSocketCallOperation :: "string \<Rightarrow> socket_operation \<Rightarrow> bool" where
  "isSocketCallOperation op operation \<longleftrightarrow> socket_op_name operation = op"

definition isTaskRequestCallOperation :: "call \<Rightarrow> string \<Rightarrow> bool" where
  "isTaskRequestCallOperation a op \<longleftrightarrow>
     (case a of TaskRequestCall operation params \<Rightarrow> operation = op | _ \<Rightarrow> False)"

lemmas call_guard_defs = isCallOfKind_def isAwaitTimerCall_def isBucketCall_def isChildWorkflowCall_def isConditionCall_def isEmitEventsCall_def isEntityCall_def isExpectSignalCall_def isGetExecutionCall_def isInvokeTransactionCall_def isSignalHandlerCall_def isSearchCall_def isSendSignalCall_def isSocketCall_def isStartWorkflowCall_def isTaskCall_def isTaskRequestCall_def isQueueCall_def

lemma call_kind_code_inject [simp]: "call_kind_code a = call_kind_code b \<longleftrightarrow> a = b"
  by (cases a; cases b) simp_all

end
