(* ===== verification/Base64.thy ===== *)
theory Base64
  imports Prelude
begin

text \<open>
  \<open>Buffer.toString("base64")\<close> and \<open>Buffer.from(s, "base64")\<close> of the standard library, which
  the runtime uses to put the content of a bucket object or of a socket message into an
  event. A buffer is the string of its bytes. The decoder ignores characters outside of the
  alphabet and stops at the padding.
\<close>

definition b64_alphabet :: string where
  "b64_alphabet = ''ABCDEFGHIJKLMNOPQRSTUVWXYZabcdefghijklmnopqrstuvwxyz0123456789+/''"

definition b64_char :: "nat \<Rightarrow> char" where
  "b64_char i = b64_alphabet ! i"

definition b64_val :: "char \<Rightarrow> nat option" where
  "b64_val c = find_index (\<lambda>d. d = c) b64_alphabet"

fun b64_encode :: "string \<Rightarrow> string" where
  "b64_encode (a # b # c # cs) =
     (let x = of_char a; y = of_char b; z = (of_char c :: nat) in
        b64_char (x div 4) # b64_char (x mod 4 * 16 + y div 16)
        # b64_char (y mod 16 * 4 + z div 64) # b64_char (z mod 64) # b64_encode cs)"
| "b64_encode [a, b] =
     (let x = of_char a; y = (of_char b :: nat) in
        [b64_char (x div 4), b64_char (x mod 4 * 16 + y div 16), b64_char (y mod 16 * 4), CHR ''=''])"
| "b64_encode [a] =
     (let x = (of_char a :: nat) in
        [b64_char (x div 4), b64_char (x mod 4 * 16), CHR ''='', CHR ''=''])"
| "b64_encode [] = []"

text \<open>Groups of four digits give three bytes; a group of three gives two, one of two gives one.\<close>

fun b64_bytes :: "nat list \<Rightarrow> nat list" where
  "b64_bytes (p # q # r # s # vs) =
     (p * 4 + q div 16) # (q mod 16 * 16 + r div 4) # (r mod 4 * 64 + s) # b64_bytes vs"
| "b64_bytes [p, q, r] = [p * 4 + q div 16, q mod 16 * 16 + r div 4]"
| "b64_bytes [p, q] = [p * 4 + q div 16]"
| "b64_bytes _ = []"

definition b64_decode :: "string \<Rightarrow> string" where
  "b64_decode s =
     map char_of (b64_bytes (map the (filter (\<lambda>v. v \<noteq> None)
       (map b64_val (takeWhile (\<lambda>c. c \<noteq> CHR ''='') s)))))"

lemma b64_table: "list_all (\<lambda>i. b64_val (b64_char i) = Some i \<and> b64_char i \<noteq> CHR ''='') [0..<64]"
  by code_simp

lemma b64_char_val [simp]:
  assumes "i < 64"
  shows "b64_val (b64_char i) = Some i" and "b64_char i \<noteq> CHR ''=''"
  using b64_table assms by (auto simp: list_all_iff)

lemma of_char_less [simp]: "(of_char (c :: char) :: nat) < 256"
  by (rule nat_of_char_less_256)

lemma b64_digits [simp]:
  fixes x :: nat
  shows "x < 256 \<Longrightarrow> x div 4 < 64" and "y < 256 \<Longrightarrow> x mod 4 * 16 + y div 16 < 64"
    and "y < 256 \<Longrightarrow> x mod 16 * 4 + y div 64 < 64" and "x mod 4 * 16 < 64" and "x mod 16 * 4 < 64"
    and "x mod 64 < 64"
  by arith+

lemma digit_div_mod:
  fixes p q n :: nat
  assumes "q < n"
  shows "(p * n + q) div n = p" and "(p * n + q) mod n = q"
  using assms by simp_all

lemma b64_step:
  fixes x y z :: nat
  assumes "x < 256" and "y < 256" and "z < 256"
  shows "x div 4 * 4 + (x mod 4 * 16 + y div 16) div 16 = x"
    and "(x mod 4 * 16 + y div 16) mod 16 * 16 + (y mod 16 * 4 + z div 64) div 4 = y"
    and "(y mod 16 * 4 + z div 64) mod 4 * 64 + z mod 64 = z"
    and "x div 4 * 4 + (x mod 4 * 16) div 16 = x"
    and "(x mod 4 * 16 + y div 16) mod 16 * 16 + (y mod 16 * 4) div 4 = y"
proof -
  have y: "y div 16 < 16" and z: "z div 64 < 4" using assms by arith+
  note digits = digit_div_mod [OF y, of "x mod 4"] digit_div_mod [OF z, of "y mod 16"]
  show "x div 4 * 4 + (x mod 4 * 16 + y div 16) div 16 = x" by (simp only: digits div_mult_mod_eq)
  show "(x mod 4 * 16 + y div 16) mod 16 * 16 + (y mod 16 * 4 + z div 64) div 4 = y"
    by (simp only: digits div_mult_mod_eq)
  show "(y mod 16 * 4 + z div 64) mod 4 * 64 + z mod 64 = z" by (simp only: digits div_mult_mod_eq)
  show "x div 4 * 4 + (x mod 4 * 16) div 16 = x" by simp
  show "(x mod 4 * 16 + y div 16) mod 16 * 16 + (y mod 16 * 4) div 4 = y"
    by (simp only: digits) simp
qed

text \<open>What was stored as base64 is read back unchanged.\<close>

lemma b64_decode_encode [simp]: "b64_decode (b64_encode s) = s"
proof (induction s rule: b64_encode.induct)
  case (1 a b c cs)
  then show ?case
    using b64_step [of "of_char a" "of_char b" "of_char c"]
    by (simp add: b64_decode_def Let_def)
next
  case (2 a b)
  then show ?case
    using b64_step [of "of_char a" "of_char b" 0] by (simp add: b64_decode_def Let_def)
next
  case (3 a)
  then show ?case
    using b64_step [of "of_char a" 0 0] by (simp add: b64_decode_def Let_def)
next
  case 4
  then show ?case by (simp add: b64_decode_def)
qed

end
