(* ===== verification/EventualFactories.thy ===== *)
theory EventualFactories
  imports Calls Results Base64
begin

text \<open>
  What a call becomes when a workflow makes it: core-runtime/src/workflow/eventual-definition.ts,
  call-eventual-factory.ts and the factories of call-executors-and-factories/.

  A factory turns a call into an \<open>eventual_definition\<close>: the event it leaves in the history, if
  any, and either its result or the triggers that will resolve it. The handlers of triggers are
  closures in the source; here each is named by a constructor of \<open>handler\<close> and run by
  \<open>run_event_handler\<close> (those that look at the event) or by the executor (those that call back
  into the workflow: a signal handler and the predicate of a condition).
\<close>

section \<open>Eventual definitions\<close>

datatype handler =
    HandlerResult "js result"
  | EventResult
  | EventBody
  | EventFailure
  | BucketResult
  | SignalPayload
  | SignalUser fnref
  | ConditionHolds fnref

datatype trigger =
    PromiseTrigger timeout handler
  | EventTrigger WorkflowEventType handler
  | AfterEveryEventTrigger handler
  | SignalTrigger string handler

definition isPromiseTrigger :: "trigger \<Rightarrow> bool" where
  "isPromiseTrigger t = (case t of PromiseTrigger _ _ \<Rightarrow> True | _ \<Rightarrow> False)"

definition isAfterEveryEventTrigger :: "trigger \<Rightarrow> bool" where
  "isAfterEveryEventTrigger t = (case t of AfterEveryEventTrigger _ \<Rightarrow> True | _ \<Rightarrow> False)"

definition isEventTrigger :: "trigger \<Rightarrow> bool" where
  "isEventTrigger t = (case t of EventTrigger _ _ \<Rightarrow> True | _ \<Rightarrow> False)"

definition isSignalTrigger :: "trigger \<Rightarrow> bool" where
  "isSignalTrigger t = (case t of SignalTrigger _ _ \<Rightarrow> True | _ \<Rightarrow> False)"

text \<open>
  \<open>createCallEvent\<close> is the first argument of both; a list of triggers has a \<open>None\<close> where the
  source has undefined.
\<close>

datatype eventual_definition =
    ResolvedEventualDefinition "(nat \<Rightarrow> call_history_event) option" "js result"
  | UnresolvedEventualDefinition "(nat \<Rightarrow> call_history_event) option" "trigger option list"

fun createCallEvent :: "eventual_definition \<Rightarrow> (nat \<Rightarrow> call_history_event) option" where
  "createCallEvent (ResolvedEventualDefinition create result) = create"
| "createCallEvent (UnresolvedEventualDefinition create triggers) = create"

definition isResolvedEventualDefinition :: "eventual_definition \<Rightarrow> bool" where
  "isResolvedEventualDefinition d = (case d of ResolvedEventualDefinition _ _ \<Rightarrow> True | _ \<Rightarrow> False)"

text \<open>
  What a factory returns: the eventuals it resolved with \<open>resolveEventual\<close> on the way and the
  definition, or the error it threw.
\<close>

type_synonym initialized = "js + (nat \<times> js result) list \<times> eventual_definition"

section \<open>Handlers of events\<close>

text \<open>The \<open>result\<close>, \<open>error\<close> and \<open>message\<close> of an event.\<close>

fun event_result :: "workflow_event \<Rightarrow> js" where
  "event_result (BucketRequestSucceeded s t operation result name) = result"
| "event_result (ChildWorkflowSucceeded s t result) = result"
| "event_result (EntityRequestSucceeded s t operation result name) = result"
| "event_result (QueueRequestSucceeded s t operation result name) = result"
| "event_result (SocketRequestSucceeded s t operation result name) = result"
| "event_result (TaskSucceeded s t result) = result"
| "event_result (TransactionRequestSucceeded s t result) = result"
| "event_result _ = JUndef"

fun event_body :: "workflow_event \<Rightarrow> js" where
  "event_body (SearchRequestSucceeded s t operation body) = body"
| "event_body _ = JUndef"

fun event_payload :: "workflow_event \<Rightarrow> js" where
  "event_payload (SignalReceived i t signalId payload) = payload"
| "event_payload _ = JUndef"

fun event_failure :: "workflow_event \<Rightarrow> (string \<times> string option) option" where
  "event_failure (BucketRequestFailed s t operation error message name) = Some (error, message)"
| "event_failure (ChildWorkflowFailed s t error message) = Some (error, message)"
| "event_failure (EntityRequestFailed s t operation error message name) = Some (error, message)"
| "event_failure (QueueRequestFailed s t operation error message name) = Some (error, message)"
| "event_failure (SearchRequestFailed s t operation error message) = Some (error, message)"
| "event_failure (SocketRequestFailed s t operation error message name) = Some (error, message)"
| "event_failure (TaskFailed s t error message) = Some (error, message)"
| "event_failure (TransactionRequestFailed s t error message) = Some (error, message)"
| "event_failure (WorkflowFailed i t error message) = Some (error, message)"
| "event_failure _ = None"

text \<open>\<open>new EventualError(event.error, event.message)\<close>\<close>

definition eventual_error_of :: "workflow_event \<Rightarrow> js" where
  "eventual_error_of event =
     (case event_failure event of
        Some (error, message) \<Rightarrow> mk_EventualError error message
      | None \<Rightarrow> mk_EventualError ''undefined'' None)"

text \<open>
  The handler of a successful bucket request. A retrieved object comes back as its content
  (the bytes of the stream that \<open>body\<close> and \<open>getBodyString\<close> read).
\<close>

definition bucket_result :: "workflow_event \<Rightarrow> js + js result" where
  "bucket_result event =
     (if isBucketRequestSucceededOperationType ''get'' event then
        (if event_result event = JUndef then Inr (Resolved JUndef)
         else (case js_get (event_result event) ''body'' of
             JStr body \<Rightarrow>
               Inr (Resolved (JObj
                 [(''contentLength'', js_get (event_result event) ''contentLength''),
                  (''etag'', js_get (event_result event) ''etag''),
                  (''body'', JStr (if truthy (js_get (event_result event) ''base64Encoded'')
                     then b64_decode body else body))]))
           | _ \<Rightarrow> Inl (mk_TypeError ''The first argument must be of type string'')))
      else Inr (Resolved (event_result event)))"

text \<open>A handler that looks only at the event; \<open>Inl\<close> is the error it throws.\<close>

fun run_event_handler :: "handler \<Rightarrow> workflow_event \<Rightarrow> js + js result option" where
  "run_event_handler (HandlerResult r) event = Inr (Some r)"
| "run_event_handler EventResult event = Inr (Some (Resolved (event_result event)))"
| "run_event_handler EventBody event = Inr (Some (Resolved (event_body event)))"
| "run_event_handler EventFailure event = Inr (Some (Failed (eventual_error_of event)))"
| "run_event_handler BucketResult event = map_sum (\<lambda>e. e) Some (bucket_result event)"
| "run_event_handler SignalPayload event = Inr (Some (Resolved (event_payload event)))"
| "run_event_handler (SignalUser f) event = Inr None"
| "run_event_handler (ConditionHolds f) event = Inr None"

section \<open>The factories\<close>

text \<open>\<open>call.timeout ? Trigger.onPromiseResolution(call.timeout, handler) : undefined\<close>\<close>

definition timeout_trigger :: "timeout \<Rightarrow> js result \<Rightarrow> trigger option" where
  "timeout_trigger t r =
     (case t of
        NoTimeout \<Rightarrow> None
      | PromiseTimeout p \<Rightarrow> Some (PromiseTrigger t (HandlerResult r))
      | ValueTimeout v \<Rightarrow> if truthy v then Some (PromiseTrigger t (HandlerResult r)) else None)"

definition request_triggers :: "WorkflowEventType \<Rightarrow> handler \<Rightarrow> WorkflowEventType \<Rightarrow> trigger option list" where
  "request_triggers succeeded h failed = [Some (EventTrigger succeeded h), Some (EventTrigger failed EventFailure)]"

definition AwaitTimerClassEventualFactory :: "schedule \<Rightarrow> eventual_definition" where
  "AwaitTimerClassEventualFactory schedule =
     UnresolvedEventualDefinition (Some (\<lambda>seq. TimerScheduled seq schedule))
       [Some (EventTrigger T_TimerCompleted (HandlerResult (Resolved JUndef)))]"

definition bucket_call_event :: "bucket_operation \<Rightarrow> nat \<Rightarrow> call_history_event" where
  "bucket_call_event operation seq =
     (if isBucketCallOperation ''put'' operation
      then BucketRequest seq (JObj
        [(''operation'', JStr ''put''), (''bucketName'', JStr (bo_bucketName operation)),
         (''key'', case bo_params operation of [] \<Rightarrow> JUndef | key # _ \<Rightarrow> key)])
      else BucketRequest seq (bucket_op_js operation))"

definition BucketCallEventualFactory :: "bucket_operation \<Rightarrow> eventual_definition" where
  "BucketCallEventualFactory operation =
     UnresolvedEventualDefinition (Some (bucket_call_event operation))
       (request_triggers T_BucketRequestSucceeded BucketResult T_BucketRequestFailed)"

definition ChildWorkflowCallEventualFactory :: "string \<Rightarrow> js \<Rightarrow> timeout \<Rightarrow> eventual_definition" where
  "ChildWorkflowCallEventualFactory name input timeout =
     UnresolvedEventualDefinition (Some (\<lambda>seq. ChildWorkflowScheduled seq name input))
       (request_triggers T_ChildWorkflowSucceeded EventResult T_ChildWorkflowFailed
        @ [timeout_trigger timeout (Failed (JStr ''Child Workflow Timed Out''))])"

text \<open>The argument is the value of the predicate when the call is made, or the error it threw.\<close>

definition ConditionCallEventualFactory :: "js + js \<Rightarrow> fnref \<Rightarrow> timeout \<Rightarrow> js + eventual_definition" where
  "ConditionCallEventualFactory result predicate timeout =
     (case result of
        Inl err \<Rightarrow> Inl err
      | Inr v \<Rightarrow>
          (if truthy v then Inr (ResolvedEventualDefinition None (Resolved v))
           else Inr (UnresolvedEventualDefinition None
             [Some (AfterEveryEventTrigger (ConditionHolds predicate)),
              timeout_trigger timeout (Resolved (JBool False))])))"

definition events_js :: "event_envelope list \<Rightarrow> js" where
  "events_js es = JArr (map (\<lambda>e. JObj [(''name'', JStr (ee_name e)), (''event'', ee_event e)]) es)"

definition EmitEventsCallEventualFactory :: "event_envelope list \<Rightarrow> eventual_definition" where
  "EmitEventsCallEventualFactory events =
     ResolvedEventualDefinition (Some (\<lambda>seq. EventsEmitted seq (events_js events))) (Resolved JUndef)"

definition EntityCallEventualFactory :: "entity_operation \<Rightarrow> eventual_definition" where
  "EntityCallEventualFactory operation =
     UnresolvedEventualDefinition (Some (\<lambda>seq. EntityRequest seq (entity_op_js operation)))
       (request_triggers T_EntityRequestSucceeded EventResult T_EntityRequestFailed)"

definition ExpectSignalFactory :: "string \<Rightarrow> timeout \<Rightarrow> eventual_definition" where
  "ExpectSignalFactory signalId timeout =
     UnresolvedEventualDefinition None
       [Some (SignalTrigger signalId SignalPayload),
        timeout_trigger timeout (Failed (mk_Timeout (Some ''Expect Signal Timed Out'')))]"

definition SearchCallEventualFactory :: "string \<Rightarrow> js \<Rightarrow> eventual_definition" where
  "SearchCallEventualFactory operation request =
     UnresolvedEventualDefinition (Some (\<lambda>seq. SearchRequest seq operation request))
       (request_triggers T_SearchRequestSucceeded EventBody T_SearchRequestFailed)"

definition QueueCallEventualFactory :: "queue_operation \<Rightarrow> eventual_definition" where
  "QueueCallEventualFactory operation =
     UnresolvedEventualDefinition (Some (\<lambda>seq. QueueRequest seq (queue_op_js operation)))
       (request_triggers T_QueueRequestSucceeded EventResult T_QueueRequestFailed)"

definition SendSignalEventualFactory :: "string \<Rightarrow> js \<Rightarrow> signal_target \<Rightarrow> eventual_definition" where
  "SendSignalEventualFactory signalId payload target =
     ResolvedEventualDefinition (Some (\<lambda>seq. SignalSent seq signalId target payload)) (Resolved JUndef)"

definition RegisterSignalHandlerCallFactory ::
  "signal_handler_operation \<Rightarrow> (nat \<times> js result) list \<times> eventual_definition" where
  "RegisterSignalHandlerCallFactory operation =
     (case operation of
        RegisterHandler signalId f \<Rightarrow>
          ([], UnresolvedEventualDefinition None [Some (SignalTrigger signalId (SignalUser f))])
      | DisposeHandler seq \<Rightarrow>
          ([(seq, Resolved JUndef)], ResolvedEventualDefinition None (Resolved JUndef)))"

definition socket_call_event :: "socket_operation \<Rightarrow> nat \<Rightarrow> call_history_event" where
  "socket_call_event operation seq =
     (case operation of
        SocketSend socketName connectionId input \<Rightarrow>
          (let (dat, base64) = (case input of SocketBuffer b \<Rightarrow> (b64_encode b, True) | SocketText s \<Rightarrow> (s, False))
           in SocketRequest seq (JObj
             [(''operation'', JStr ''send''), (''connectionId'', JStr connectionId),
              (''input'', JStr dat), (''isBase64Encoded'', JBool base64),
              (''socketName'', JStr socketName)]))
      | SocketOp op socketName params \<Rightarrow>
          SocketRequest seq (JObj
             [(''operation'', JStr op), (''socketName'', JStr socketName), (''params'', JArr params)]))"

definition SendSocketCallEventualFactory :: "socket_operation \<Rightarrow> eventual_definition" where
  "SendSocketCallEventualFactory operation =
     UnresolvedEventualDefinition (Some (socket_call_event operation))
       (request_triggers T_SocketRequestSucceeded EventResult T_SocketRequestFailed)"

definition TaskCallEventualFactory :: "string \<Rightarrow> js \<Rightarrow> timeout \<Rightarrow> eventual_definition" where
  "TaskCallEventualFactory name input timeout =
     UnresolvedEventualDefinition (Some (\<lambda>seq. TaskScheduled seq name input))
       (request_triggers T_TaskSucceeded EventResult T_TaskFailed
        @ [Some (EventTrigger T_TaskHeartbeatTimedOut
              (HandlerResult (Failed (mk_HeartbeatTimeout (Some ''Task Heartbeat TimedOut''))))),
           timeout_trigger timeout (Failed (mk_Timeout (Some ''Task Timed Out'')))])"

definition TransactionCallEventualFactory :: "string \<Rightarrow> js \<Rightarrow> eventual_definition" where
  "TransactionCallEventualFactory transactionName input =
     UnresolvedEventualDefinition (Some (\<lambda>seq. TransactionRequest seq transactionName input))
       (request_triggers T_TransactionRequestSucceeded EventResult T_TransactionRequestFailed)"

definition unsupported_error :: "call \<Rightarrow> js" where
  "unsupported_error call =
     mk_Error (''Call type '' @ call_kind_name (call_kind call)
       @ '' is not supported by the workflow executor.'')"

text \<open>
  \<open>createDefaultEventualFactory\<close>: the factory of each kind of call. The first argument
  evaluates a predicate of the workflow.
\<close>

fun initializeEventual :: "(fnref \<Rightarrow> js + js) \<Rightarrow> call \<Rightarrow> initialized" where
  "initializeEventual cond (AwaitTimerCall schedule) = Inr ([], AwaitTimerClassEventualFactory schedule)"
| "initializeEventual cond (BucketCall operation) = Inr ([], BucketCallEventualFactory operation)"
| "initializeEventual cond (ChildWorkflowCall name input opts timeout) =
     Inr ([], ChildWorkflowCallEventualFactory name input timeout)"
| "initializeEventual cond (ConditionCall predicate timeout) =
     map_sum (\<lambda>e. e) (Pair []) (ConditionCallEventualFactory (cond predicate) predicate timeout)"
| "initializeEventual cond (EmitEventsCall events i) = Inr ([], EmitEventsCallEventualFactory events)"
| "initializeEventual cond (EntityCall operation) = Inr ([], EntityCallEventualFactory operation)"
| "initializeEventual cond (ExpectSignalCall signalId timeout) = Inr ([], ExpectSignalFactory signalId timeout)"
| "initializeEventual cond (GetExecutionCall executionId) = Inl (unsupported_error (GetExecutionCall executionId))"
| "initializeEventual cond (InvokeTransactionCall transactionName input) =
     Inr ([], TransactionCallEventualFactory transactionName input)"
| "initializeEventual cond (QueueCall operation) = Inr ([], QueueCallEventualFactory operation)"
| "initializeEventual cond (SearchCall operation request indexName) =
     Inr ([], SearchCallEventualFactory operation request)"
| "initializeEventual cond (SendSignalCall signalId payload target i) =
     Inr ([], SendSignalEventualFactory signalId payload target)"
| "initializeEventual cond (SignalHandlerCall operation) = Inr (RegisterSignalHandlerCallFactory operation)"
| "initializeEventual cond (SocketCall operation) = Inr ([], SendSocketCallEventualFactory operation)"
| "initializeEventual cond (StartWorkflowCall name input opts) =
     Inl (unsupported_error (StartWorkflowCall name input opts))"
| "initializeEventual cond (TaskCall name input heartbeat timeout) =
     Inr ([], TaskCallEventualFactory name input timeout)"
| "initializeEventual cond (TaskRequestCall operation params) =
     Inl (unsupported_error (TaskRequestCall operation params))"

section \<open>What the factories produce\<close>

lemmas factory_defs =
  AwaitTimerClassEventualFactory_def BucketCallEventualFactory_def
  ChildWorkflowCallEventualFactory_def ConditionCallEventualFactory_def
  EmitEventsCallEventualFactory_def EntityCallEventualFactory_def ExpectSignalFactory_def
  SearchCallEventualFactory_def QueueCallEventualFactory_def SendSignalEventualFactory_def
  RegisterSignalHandlerCallFactory_def SendSocketCallEventualFactory_def
  TaskCallEventualFactory_def TransactionCallEventualFactory_def request_triggers_def
  bucket_call_event_def socket_call_event_def

text \<open>A call event carries the sequence number it was created for.\<close>

lemma createCallEvent_seq:
  assumes "initializeEventual cond c = Inr (rs, d)" and "createCallEvent d = Some create"
  shows "call_seq (create seq) = seq"
  using assms
  by (cases c) (auto simp: factory_defs Let_def split: sum.splits if_splits socket_operation.splits
      signal_handler_operation.splits socket_input.splits)

text \<open>Only the dispose operation of a signal handler resolves another eventual.\<close>

lemma initializeEventual_resolves:
  "initializeEventual cond c = Inr (rs, d) \<Longrightarrow> rs \<noteq> [] \<Longrightarrow>
   \<exists>n. c = SignalHandlerCall (DisposeHandler n) \<and> rs = [(n, Resolved JUndef)]"
  by (cases c) (auto simp: factory_defs split: sum.splits if_splits signal_handler_operation.splits)

text \<open>The kinds of call the workflow executor does not support.\<close>

lemma initializeEventual_unsupported:
  "isGetExecutionCall c \<or> isStartWorkflowCall c \<or> isTaskRequestCall c \<Longrightarrow>
   initializeEventual cond c = Inl (unsupported_error c)"
  by (cases c) (auto simp: call_guard_defs)

lemma initializeEventual_supported:
  assumes "\<not> isGetExecutionCall c" and "\<not> isStartWorkflowCall c" and "\<not> isTaskRequestCall c"
    and "initializeEventual cond c = Inl err"
  shows "\<exists>p t. c = ConditionCall p t \<and> cond p = Inl err"
  using assms by (cases c) (auto simp: call_guard_defs factory_defs split: sum.splits if_splits)

end
