(* ===== verification/CallExecutors.thy ===== *)
theory CallExecutors
  imports EventualFactories ExecutionIds
begin

text \<open>
  What the runtime does for a call that a workflow emitted:
  core-runtime/src/workflow/call-executor.ts, the executors of call-executors-and-factories/
  and those of core-runtime/src/call-executors/ that they wrap.

  An executor issues requests to the runtime's clients (\<open>client_request\<close>, in order). The
  stores and services behind a request (bucket, entity, queue, search, socket, transaction)
  are the parameters of the record \<open>clients\<close>: what they answer, or the error they throw. The
  theory ends with the agreement of executors and factories: the event that the executor of
  a call submits is one that the eventual of the call is waiting for.
\<close>

record call_props =
  cp_executionId :: string
  cp_executionTime :: int
  cp_seq :: nat
  cp_workflow :: string

datatype timer_request =
    TimerScheduleEventRequest string workflow_event schedule
  | TaskHeartbeatMonitorRequest string nat int schedule

record task_worker_request =
  tw_scheduledTime :: int
  tw_workflowName :: string
  tw_executionId :: string
  tw_taskName :: string
  tw_seq :: nat
  tw_heartbeat :: "duration_schedule option"
  tw_input :: js
  tw_retry :: nat

record child_execution_request =
  ce_workflow :: string
  ce_input :: js
  ce_parentExecutionId :: string
  ce_executionName :: string
  ce_seq :: nat
  ce_timeout :: "schedule option"

datatype client_request =
    StartTimer timer_request
  | StartTask task_worker_request
  | StartExecution child_execution_request
  | SubmitExecutionEvents string "workflow_event list"
  | EmitEvents "event_envelope list"

text \<open>
  The services: a search answers with a status code and a body, a transaction with its output
  or with the error and message of its failure. \<open>cl_search\<close> is absent when there is no
  OpenSearch client.
\<close>

record clients =
  cl_bucket :: "string \<Rightarrow> string \<Rightarrow> js list \<Rightarrow> js + js"
  cl_entity :: "entity_operation \<Rightarrow> js + js"
  cl_queue :: "queue_operation \<Rightarrow> js + js"
  cl_search :: "(string \<Rightarrow> js \<Rightarrow> string \<Rightarrow> js + int \<times> js) option"
  cl_socket :: "socket_operation \<Rightarrow> js + js"
  cl_transaction :: "string \<Rightarrow> js \<Rightarrow> js + (string \<times> string option) + js"
  cl_emit :: "event_envelope list \<Rightarrow> js option"

section \<open>Call executors\<close>

definition BucketCallExecutor :: "clients \<Rightarrow> bucket_operation \<Rightarrow> js + js" where
  "BucketCallExecutor cl operation = cl_bucket cl (bo_operation operation) (bo_bucketName operation) (bo_params operation)"

text \<open>
  \<open>QueueCallExecutor\<close> spreads \<open>call.params\<close>, which a queue call does not have (its parameters
  are in \<open>call.operation\<close>): an operation other than the two sends throws before it reaches
  the client.
\<close>

definition QueueCallExecutor :: "clients \<Rightarrow> queue_operation \<Rightarrow> js + js" where
  "QueueCallExecutor cl operation =
     (if isQueueOperationOfType ''sendMessage'' operation then cl_queue cl operation
      else if isQueueOperationOfType ''sendMessageBatch'' operation then cl_queue cl operation
      else Inl (mk_TypeError ''Spread syntax requires ...iterable[Symbol.iterator] to be a function''))"

definition assertApiResponseOK :: "int \<Rightarrow> js option" where
  "assertApiResponseOK statusCode =
     (if statusCode \<noteq> 200 \<and> statusCode \<noteq> 201 \<and> statusCode \<noteq> 202
      then Some (mk_Error (''Request failed with '' @ int_str statusCode @ '' and warnings null''))
      else None)"

definition SearchCallExecutor ::
  "(string \<Rightarrow> js \<Rightarrow> string \<Rightarrow> js + int \<times> js) \<Rightarrow> string \<Rightarrow> js \<Rightarrow> string \<Rightarrow> js + js" where
  "SearchCallExecutor search operation request indexName =
     (case search operation
         (if operation = ''index'' then request else JObj [(''body'', request)]) indexName of
        Inl err \<Rightarrow> Inl err
      | Inr (statusCode, body) \<Rightarrow>
          (case assertApiResponseOK statusCode of Some err \<Rightarrow> Inl err | None \<Rightarrow> Inr body))"

definition TransactionCallExecutor :: "clients \<Rightarrow> string \<Rightarrow> js \<Rightarrow> js + js" where
  "TransactionCallExecutor cl transactionName input =
     (case cl_transaction cl transactionName input of
        Inl err \<Rightarrow> Inl err
      | Inr (Inl (error, message)) \<Rightarrow> Inl (mk_EventualError error message)
      | Inr (Inr out) \<Rightarrow> Inr out)"

section \<open>Workflow call executors\<close>

text \<open>\<open>result.p\<close>: reading a property of undefined or null throws.\<close>

definition js_prop :: "js \<Rightarrow> string \<Rightarrow> js + js" where
  "js_prop v p =
     (if v = JUndef \<or> v = JNull then Inl (mk_TypeError (''Cannot read properties ('' @ p @ '')''))
      else Inr (js_get v p))"

text \<open>
  \<open>WorkflowTaskQueueExecutorAdaptor\<close>: run the executor, turn its result or error into an
  event and submit that to the execution's queue. \<open>onSuccess\<close> runs inside of the \<open>try\<close>.
\<close>

definition WorkflowTaskQueueExecutorAdaptor ::
  "js + js \<Rightarrow> (js \<Rightarrow> js + workflow_event) \<Rightarrow> (js \<Rightarrow> workflow_event) \<Rightarrow> call_props \<Rightarrow> client_request list" where
  "WorkflowTaskQueueExecutorAdaptor executed onSuccess onFailure props =
     [SubmitExecutionEvents (cp_executionId props)
       [case executed of
          Inl err \<Rightarrow> onFailure err
        | Inr result \<Rightarrow> (case onSuccess result of Inl err \<Rightarrow> onFailure err | Inr event \<Rightarrow> event)]]"

definition createResultEvent :: "workflow_event \<Rightarrow> call_props \<Rightarrow> workflow_event" where
  "createResultEvent event props = createEvent event (cp_executionTime props) ''''"

definition bucketSuccess :: "bucket_operation \<Rightarrow> call_props \<Rightarrow> js \<Rightarrow> js + workflow_event" where
  "bucketSuccess operation props result =
     (if isBucketCallOperation ''get'' operation then
        (if truthy result then
           (case js_get result ''body'' of
              JStr content \<Rightarrow> Inr (createResultEvent
                (BucketRequestSucceeded (cp_seq props) 0 (bo_operation operation)
                  (JObj [(''body'', JStr (b64_encode content)), (''base64Encoded'', JBool True),
                         (''contentLength'', js_get result ''contentLength''),
                         (''etag'', js_get result ''etag'')]) None) props)
            | _ \<Rightarrow> Inl (mk_TypeError ''stream is not async iterable''))
         else Inr (createResultEvent
                (BucketRequestSucceeded (cp_seq props) 0 (bo_operation operation) JUndef None) props))
      else Inr (createResultEvent
                (BucketRequestSucceeded (cp_seq props) 0 (bo_operation operation) result None) props))"

definition bucketFailure :: "bucket_operation \<Rightarrow> call_props \<Rightarrow> js \<Rightarrow> workflow_event" where
  "bucketFailure operation props err =
     createResultEvent (BucketRequestFailed (cp_seq props) 0 (bo_operation operation)
       (ne_error (normalizeError err)) (ne_message (normalizeError err)) None) props"

definition entitySuccess :: "entity_operation \<Rightarrow> call_props \<Rightarrow> js \<Rightarrow> js + workflow_event" where
  "entitySuccess operation props result =
     Inr (createResultEvent (EntityRequestSucceeded (cp_seq props) 0 (entity_op_name operation) result
       (if isEntityOperationOfType ''transact'' operation then None else entity_op_entity operation)) props)"

definition entityFailure :: "entity_operation \<Rightarrow> call_props \<Rightarrow> js \<Rightarrow> workflow_event" where
  "entityFailure operation props err =
     createResultEvent (EntityRequestFailed (cp_seq props) 0 (entity_op_name operation)
       (ne_error (normalizeError err)) (ne_message (normalizeError err))
       (if isEntityOperationOfType ''transact'' operation then None else entity_op_entity operation)) props"

definition queueSuccess :: "queue_operation \<Rightarrow> call_props \<Rightarrow> js \<Rightarrow> js + workflow_event" where
  "queueSuccess operation props result =
     Inr (createResultEvent (QueueRequestSucceeded (cp_seq props) 0 (queue_op_name operation) result
       (Some (queue_op_queue operation))) props)"

definition queueFailure :: "queue_operation \<Rightarrow> call_props \<Rightarrow> js \<Rightarrow> workflow_event" where
  "queueFailure operation props err =
     createResultEvent (QueueRequestFailed (cp_seq props) 0 (queue_op_name operation)
       (ne_error (normalizeError err)) (ne_message (normalizeError err)) None) props"

definition searchSuccess :: "string \<Rightarrow> call_props \<Rightarrow> js \<Rightarrow> js + workflow_event" where
  "searchSuccess operation props result =
     (case js_prop result ''body'' of
        Inl err \<Rightarrow> Inl err
      | Inr body \<Rightarrow> Inr (createResultEvent (SearchRequestSucceeded (cp_seq props) 0 operation body) props))"

definition searchFailure :: "string \<Rightarrow> call_props \<Rightarrow> js \<Rightarrow> workflow_event" where
  "searchFailure operation props err =
     createResultEvent (SearchRequestFailed (cp_seq props) 0 operation
       (ne_error (normalizeError err)) (ne_message (normalizeError err))) props"

definition socketSuccess :: "socket_operation \<Rightarrow> call_props \<Rightarrow> js \<Rightarrow> js + workflow_event" where
  "socketSuccess operation props result =
     Inr (createResultEvent (SocketRequestSucceeded (cp_seq props) 0 (socket_op_name operation) result None) props)"

definition socketFailure :: "socket_operation \<Rightarrow> call_props \<Rightarrow> js \<Rightarrow> workflow_event" where
  "socketFailure operation props err =
     createResultEvent (SocketRequestFailed (cp_seq props) 0 (socket_op_name operation)
       (ne_error (normalizeError err)) (ne_message (normalizeError err)) None) props"

definition transactionSuccess :: "call_props \<Rightarrow> js \<Rightarrow> js + workflow_event" where
  "transactionSuccess props result =
     Inr (createResultEvent (TransactionRequestSucceeded (cp_seq props) 0 result) props)"

definition transactionFailure :: "call_props \<Rightarrow> js \<Rightarrow> workflow_event" where
  "transactionFailure props err =
     createResultEvent (TransactionRequestFailed (cp_seq props) 0
       (ne_error (normalizeError err)) (ne_message (normalizeError err))) props"

text \<open>\<open>TimerClient.scheduleEvent\<close>: the event is due, and stamped, when the schedule says.\<close>

definition scheduleEvent :: "int \<Rightarrow> string \<Rightarrow> workflow_event \<Rightarrow> schedule \<Rightarrow> client_request" where
  "scheduleEvent baseTime executionId event schedule =
     StartTimer (TimerScheduleEventRequest executionId
       (with_timestamp (computeScheduleDate schedule baseTime) event) schedule)"

text \<open>\<open>ExecutionQueueClient.sendSignal\<close>.\<close>

definition sendSignal :: "int \<Rightarrow> string \<Rightarrow> string \<Rightarrow> js \<Rightarrow> string \<Rightarrow> client_request" where
  "sendSignal baseTime execution signal payload i =
     SubmitExecutionEvents execution [createEvent (SignalReceived '''' 0 signal payload) baseTime i]"

definition AwaitTimerWorkflowExecutor :: "int \<Rightarrow> schedule \<Rightarrow> call_props \<Rightarrow> client_request list" where
  "AwaitTimerWorkflowExecutor baseTime schedule props =
     [scheduleEvent baseTime (cp_executionId props) (TimerCompleted (cp_seq props) 0) schedule]"

definition ChildWorkflowCallWorkflowExecutor ::
  "string \<Rightarrow> js \<Rightarrow> schedule option \<Rightarrow> call_props \<Rightarrow> client_request list" where
  "ChildWorkflowCallWorkflowExecutor name input opts props =
     [StartExecution
       \<lparr>ce_workflow = name, ce_input = input, ce_parentExecutionId = cp_executionId props,
        ce_executionName = formatChildExecutionName (cp_executionId props) (cp_seq props),
        ce_seq = cp_seq props, ce_timeout = opts\<rparr>]"

definition SendSignalWorkflowCallExecutor ::
  "int \<Rightarrow> string \<Rightarrow> js \<Rightarrow> signal_target \<Rightarrow> call_props \<Rightarrow> client_request list" where
  "SendSignalWorkflowCallExecutor baseTime signalId payload target props =
     (let childExecutionId = (case target of
            ChildExecutionTarget workflow seq \<Rightarrow>
              formatExecutionId workflow (formatChildExecutionName (cp_executionId props) seq)
          | ExecutionTarget execution \<Rightarrow> execution)
      in [sendSignal baseTime childExecutionId signalId payload
            (cp_executionId props @ ''/'' @ nat_str (cp_seq props))])"

definition TaskCallWorkflowExecutor ::
  "string \<Rightarrow> js \<Rightarrow> duration_schedule option \<Rightarrow> call_props \<Rightarrow> client_request list" where
  "TaskCallWorkflowExecutor name input heartbeat props =
     [StartTask
       \<lparr>tw_scheduledTime = cp_executionTime props, tw_workflowName = cp_workflow props,
        tw_executionId = cp_executionId props, tw_taskName = name, tw_seq = cp_seq props,
        tw_heartbeat = heartbeat, tw_input = input, tw_retry = 0\<rparr>]"

text \<open>
  \<open>AllWorkflowCallExecutor\<close> over \<open>createDefaultWorkflowCallExecutor\<close>: the requests made for a
  call, or the error thrown.
\<close>

fun executeForWorkflow :: "clients \<Rightarrow> int \<Rightarrow> call \<Rightarrow> call_props \<Rightarrow> js + client_request list" where
  "executeForWorkflow cl baseTime (AwaitTimerCall schedule) props =
     Inr (AwaitTimerWorkflowExecutor baseTime schedule props)"
| "executeForWorkflow cl baseTime (BucketCall operation) props =
     Inr (WorkflowTaskQueueExecutorAdaptor (BucketCallExecutor cl operation)
       (bucketSuccess operation props) (bucketFailure operation props) props)"
| "executeForWorkflow cl baseTime (ChildWorkflowCall name input opts timeout) props =
     Inr (ChildWorkflowCallWorkflowExecutor name input opts props)"
| "executeForWorkflow cl baseTime (ConditionCall predicate timeout) props = Inr []"
| "executeForWorkflow cl baseTime (EmitEventsCall events i) props =
     (case cl_emit cl events of Some err \<Rightarrow> Inl err | None \<Rightarrow> Inr [EmitEvents events])"
| "executeForWorkflow cl baseTime (EntityCall operation) props =
     Inr (WorkflowTaskQueueExecutorAdaptor (cl_entity cl operation)
       (entitySuccess operation props) (entityFailure operation props) props)"
| "executeForWorkflow cl baseTime (ExpectSignalCall signalId timeout) props = Inr []"
| "executeForWorkflow cl baseTime (InvokeTransactionCall transactionName input) props =
     Inr (WorkflowTaskQueueExecutorAdaptor (TransactionCallExecutor cl transactionName input)
       (transactionSuccess props) (transactionFailure props) props)"
| "executeForWorkflow cl baseTime (QueueCall operation) props =
     Inr (WorkflowTaskQueueExecutorAdaptor (QueueCallExecutor cl operation)
       (queueSuccess operation props) (queueFailure operation props) props)"
| "executeForWorkflow cl baseTime (SearchCall operation request indexName) props =
     (case cl_search cl of
        None \<Rightarrow> Inl (unsupported_error (SearchCall operation request indexName))
      | Some search \<Rightarrow>
          Inr (WorkflowTaskQueueExecutorAdaptor (SearchCallExecutor search operation request indexName)
            (searchSuccess operation props) (searchFailure operation props) props))"
| "executeForWorkflow cl baseTime (SendSignalCall signalId payload target i) props =
     Inr (SendSignalWorkflowCallExecutor baseTime signalId payload target props)"
| "executeForWorkflow cl baseTime (SignalHandlerCall operation) props = Inr []"
| "executeForWorkflow cl baseTime (SocketCall operation) props =
     Inr (WorkflowTaskQueueExecutorAdaptor (cl_socket cl operation)
       (socketSuccess operation props) (socketFailure operation props) props)"
| "executeForWorkflow cl baseTime (TaskCall name input heartbeat timeout) props =
     Inr (TaskCallWorkflowExecutor name input heartbeat props)"
| "executeForWorkflow cl baseTime (TaskRequestCall operation params) props =
     Inl (unsupported_error (TaskRequestCall operation params))"
| "executeForWorkflow cl baseTime (GetExecutionCall executionId) props =
     Inl (unsupported_error (GetExecutionCall executionId))"
| "executeForWorkflow cl baseTime (StartWorkflowCall name input opts) props =
     Inl (unsupported_error (StartWorkflowCall name input opts))"

section \<open>Executors and factories agree\<close>

text \<open>What the executor of a call that reaches a service got from it.\<close>

fun call_outcome :: "clients \<Rightarrow> call \<Rightarrow> (js + js) option" where
  "call_outcome cl (BucketCall operation) = Some (BucketCallExecutor cl operation)"
| "call_outcome cl (EntityCall operation) = Some (cl_entity cl operation)"
| "call_outcome cl (InvokeTransactionCall transactionName input) =
     Some (TransactionCallExecutor cl transactionName input)"
| "call_outcome cl (QueueCall operation) = Some (QueueCallExecutor cl operation)"
| "call_outcome cl (SocketCall operation) = Some (cl_socket cl operation)"
| "call_outcome cl _ = None"

text \<open>The handler of a definition for an event type.\<close>

definition event_handlers :: "trigger option list \<Rightarrow> WorkflowEventType \<Rightarrow> handler list" where
  "event_handlers ts type =
     concat (map (\<lambda>t. case t of Some (EventTrigger ty h) \<Rightarrow> if ty = type then [h] else [] | _ \<Rightarrow> []) ts)"

text \<open>
  The value a workflow gets for an outcome: the result itself, except for a retrieved object,
  of which it gets content, length and tag.
\<close>

definition retrieved_object :: "js \<Rightarrow> js" where
  "retrieved_object v =
     (if truthy v then JObj [(''contentLength'', js_get v ''contentLength''),
        (''etag'', js_get v ''etag''), (''body'', js_get v ''body'')] else JUndef)"

fun call_value :: "call \<Rightarrow> js \<Rightarrow> js" where
  "call_value (BucketCall operation) v =
     (if isBucketCallOperation ''get'' operation then retrieved_object v else v)"
| "call_value _ v = v"

definition thrown_value :: "js \<Rightarrow> js" where
  "thrown_value err = mk_EventualError (ne_error (normalizeError err)) (ne_message (normalizeError err))"

lemmas executor_defs =
  WorkflowTaskQueueExecutorAdaptor_def bucketSuccess_def bucketFailure_def entitySuccess_def
  entityFailure_def queueSuccess_def queueFailure_def searchSuccess_def searchFailure_def
  socketSuccess_def socketFailure_def transactionSuccess_def transactionFailure_def
  createResultEvent_def

lemma createEvent_seq_event:
  "event_seq e \<noteq> None \<Longrightarrow> createEvent e t i = with_timestamp t e"
  by (cases e) (simp_all add: createEvent_def isHistoryEvent_def isCompletionEvent_iff event_guard_defs)

text \<open>An object store answers a \<open>get\<close> with nothing or with an object that has a body.\<close>

fun stored_object :: "call \<Rightarrow> js + js \<Rightarrow> bool" where
  "stored_object (BucketCall operation) (Inr v) \<longleftrightarrow>
     (isBucketCallOperation ''get'' operation \<and> truthy v \<longrightarrow> (\<exists>s. js_get v ''body'' = JStr s))"
| "stored_object _ _ \<longleftrightarrow> True"

lemma js_get_Cons [js_simps]:
  "js_get (JObj ((k, v) # fs)) k' = (if k = k' then v else js_get (JObj fs) k')"
  by (simp add: js_get_def)

lemma eventual_error_of_failure:
  "event_failure e = Some (ne_error (normalizeError err), ne_message (normalizeError err)) \<Longrightarrow>
   eventual_error_of e = thrown_value err"
  by (simp add: eventual_error_of_def thrown_value_def)


definition sample_clients :: clients where
  "sample_clients =
     \<lparr>cl_bucket = (\<lambda>operation bucket params. Inr (JObj [(''body'', JStr ''hello''),
        (''contentLength'', JNum 5), (''etag'', JStr ''e1'')])),
      cl_entity = (\<lambda>operation. Inl (mk_UnexpectedVersion ''stale'')),
      cl_queue = (\<lambda>operation. Inr JUndef),
      cl_search = Some (\<lambda>operation request index. Inr (200, JObj [(''hits'', JNum 1)])),
      cl_socket = (\<lambda>operation. Inr JUndef),
      cl_transaction = (\<lambda>name input. Inr (Inr input)),
      cl_emit = (\<lambda>events. None)\<rparr>"

definition sample_props :: call_props where
  "sample_props = \<lparr>cp_executionId = ''w/e'', cp_executionTime = 5, cp_seq = 3, cp_workflow = ''w''\<rparr>"

definition sample_get :: call where
  "sample_get = BucketCall \<lparr>bo_operation = ''get'', bo_bucketName = ''b'', bo_params = [JStr ''k'']\<rparr>"


text \<open>
  The result of a search request. \<open>SearchCallExecutor\<close> already returns the
  body of the response, and \<open>createSearchWorkflowQueueExecutor\<close> takes \<open>body\<close> of that again: the
  workflow gets the \<open>body\<close> property of the response's body, which is undefined for a response
  that has no such property.
\<close>

theorem search_result_is_lost:
  assumes client: "cl_search cl = Some search"
    and ok: "search operation (if operation = ''index'' then request else JObj [(''body'', request)]) indexName
        = Inr (200, JObj fs)"
    and no_body: "''body'' \<notin> set (map fst fs)"
  shows "executeForWorkflow cl now (SearchCall operation request indexName) props =
      Inr [SubmitExecutionEvents (cp_executionId props)
        [SearchRequestSucceeded (cp_seq props) (cp_executionTime props) operation JUndef]]"
proof -
  have "SearchCallExecutor search operation request indexName = Inr (JObj fs)"
    by (simp add: SearchCallExecutor_def ok assertApiResponseOK_def)
  moreover have "js_get (JObj fs) ''body'' = JUndef"
    using no_body by (simp add: js_get_def map_of_eq_None_iff [THEN iffD2])
  ultimately show ?thesis
    by (simp add: client executor_defs js_prop_def createEvent_seq_event)
qed

lemma search_result_is_lost_witness:
  "executeForWorkflow sample_clients 9 (SearchCall ''search'' (JObj []) ''index1'') sample_props =
     Inr [SubmitExecutionEvents ''w/e'' [SearchRequestSucceeded 3 5 ''search'' JUndef]]"
  using search_result_is_lost [of sample_clients "\<lambda>operation request index. Inr (200, JObj [(''hits'', JNum 1)])"
      "''search''" "JObj []" "''index1''" "[(''hits'', JNum 1)]" 9 sample_props]
  by (simp add: sample_clients_def sample_props_def)

text \<open>
  A queue operation of a workflow other than the two sends never reaches the queue;
  whatever the clients are, it is reported as failed with a TypeError.
\<close>

theorem queue_operation_never_reaches_client:
  assumes "operation \<noteq> ''sendMessage''" and "operation \<noteq> ''sendMessageBatch''"
  shows "\<exists>m. executeForWorkflow cl now (QueueCall (QueueOp operation queueName params)) props =
      Inr [SubmitExecutionEvents (cp_executionId props)
        [QueueRequestFailed (cp_seq props) (cp_executionTime props) operation ''TypeError'' (Some m) None]]"
  using assms
  by (simp add: QueueCallExecutor_def isQueueOperationOfType_def mk_TypeError_def executor_defs
      createEvent_seq_event)

lemma queue_operation_never_reaches_client_witness:
  "\<exists>m. executeForWorkflow sample_clients 9 (QueueCall (QueueOp ''deleteMessage'' ''q'' [JStr ''r''])) sample_props =
     Inr [SubmitExecutionEvents ''w/e'' [QueueRequestFailed 3 5 ''deleteMessage'' ''TypeError'' (Some m) None]]"
  using queue_operation_never_reaches_client [of "''deleteMessage''" sample_clients 9 "''q''" "[JStr ''r'']" sample_props]
  by (simp add: sample_props_def)

text \<open>
  A signal that a workflow sends to its child, named by the child's workflow
  and the sequence number of the call that started it, goes to the execution that call
  started, and its id depends only on the sender and the sequence number of the sending call.
\<close>

theorem signal_reaches_started_child:
  "\<exists>child e.
     executeForWorkflow cl now (ChildWorkflowCall name input opts timeout) (props\<lparr>cp_seq := n\<rparr>) = Inr [StartExecution child] \<and>
     executeForWorkflow cl now' (SendSignalCall signalId payload (ChildExecutionTarget name n) i) props =
       Inr [SubmitExecutionEvents (formatExecutionId (ce_workflow child) (ce_executionName child)) [e]] \<and>
     ce_parentExecutionId child = cp_executionId props \<and> ce_seq child = n \<and>
     e = SignalReceived (cp_executionId props @ ''/'' @ nat_str (cp_seq props)) now' signalId payload"
  by (simp add: ChildWorkflowCallWorkflowExecutor_def SendSignalWorkflowCallExecutor_def sendSignal_def
      createEvent_def isHistoryEvent_def isCompletionEvent_iff event_guard_defs)

end
