(* ===== verification/Eventuals.thy ===== *)
theory Eventuals
  imports EventualFactories JsRecord EventIterator ExecutionIds
begin

text \<open>
  The part of core-runtime/src/workflow/workflow-executor.ts that keeps the eventuals of a
  workflow: which are active, which handlers wait for which event, signal or promise, and how
  an eventual is activated, resolved and deactivated. The theory \<^verbatim>\<open>WorkflowExecutor\<close> adds
  the event loop, the history and the runs.

  The user's workflow is a parameter. Its code runs in bursts: between two turns of the
  event loop it executes synchronously, makes calls, subscribes to promises (\<open>Watch\<close>, an
  \<open>await\<close> or a \<open>then\<close>), settles promises of its own, and ends. A \<open>burst\<close> is the tree of
  what it may do, branching on the replies it gets; 'w is whatever state its closures share.

  \<^item> \<open>Quiet w\<close>: the burst ends, leaving state \<open>w\<close>;
  \<^item> \<open>Exec w c k\<close>: the call \<open>c\<close> is made in state \<open>w\<close> (\<open>None\<close> stands for an unsupported
    operation) and its reply, a promise or a thrown error, goes to \<open>k\<close>;
  \<^item> \<open>Watch p f b\<close>: continuation \<open>f\<close> is to run when the promise \<open>p\<close> settles;
  \<^item> \<open>SettleUser n r b\<close>: the workflow settles the promise \<open>UserPromise n\<close>;
  \<^item> \<open>Finish r w\<close>: the async function of the workflow completes with \<open>r\<close>;
  \<^item> \<open>Throw e w\<close>: the code throws (the workflow function itself, when it is not async, or a
    signal handler).
\<close>

section \<open>The user's workflow\<close>

datatype reply = GotPromise pref | Thrown js

datatype 'w burst =
    Quiet 'w
  | Exec 'w "call option" "reply \<Rightarrow> 'w burst"
  | Watch pref fnref "'w burst"
  | SettleUser nat "js result" "'w burst"
  | Finish "js result" 'w
  | Throw js 'w

record 'w workflow =
  wf_definition :: "js \<Rightarrow> js \<Rightarrow> 'w burst"
  wf_resume :: "'w \<Rightarrow> fnref \<Rightarrow> js result \<Rightarrow> 'w burst"
  wf_signal :: "'w \<Rightarrow> fnref \<Rightarrow> js \<Rightarrow> 'w burst"
  wf_predicate :: "'w \<Rightarrow> fnref \<Rightarrow> js + js"
  wf_initial :: 'w

section \<open>Promises and jobs\<close>

text \<open>
  A reaction is what happens when a promise settles: a continuation of the workflow or the
  handler of a promise trigger. The other jobs of the microtask queue are the completion of
  the workflow's async function and the two continuations of the executor's own async
  functions, after the \<open>await\<close> in \<open>applyEvents\<close> and after \<open>await this.applyEvents()\<close>.
\<close>

datatype reaction = UserReaction fnref | TriggerReaction nat handler

datatype promise_state = Pending "reaction list" | Settled "js result"

datatype job =
    Reaction reaction "js result"
  | WorkflowReturned "js result"
  | ContinueApply
  | AfterApply

record 'w core =
  nextSeq :: nat
  activeEventuals :: "string list numrec"
  handlers_events :: "((WorkflowEventType, handler) omap) numrec"
  handlers_signals :: "(string, handler numrec) omap"
  handlers_afterEveryEvent :: "handler numrec"
  stopped :: bool
  result :: "js result option"
  promises :: "pref \<Rightarrow> promise_state"
  returned :: bool
  jobs :: "job list"
  user :: 'w

definition enqueue :: "job list \<Rightarrow> ('w, 'z) core_scheme \<Rightarrow> ('w, 'z) core_scheme" where
  "enqueue js c = c\<lparr>jobs := jobs c @ js\<rparr>"

text \<open>\<open>promise.then\<close>: a settled promise queues the reaction at once.\<close>

definition watch :: "pref \<Rightarrow> reaction \<Rightarrow> ('w, 'z) core_scheme \<Rightarrow> ('w, 'z) core_scheme" where
  "watch p r c =
     (case promises c p of
        Pending rs \<Rightarrow> c\<lparr>promises := (promises c)(p := Pending (rs @ [r]))\<rparr>
      | Settled res \<Rightarrow> enqueue [Reaction r res] c)"

text \<open>Resolving or rejecting a promise: nothing happens when it has settled before.\<close>

definition settle :: "pref \<Rightarrow> js result \<Rightarrow> ('w, 'z) core_scheme \<Rightarrow> ('w, 'z) core_scheme" where
  "settle p res c =
     (case promises c p of
        Pending rs \<Rightarrow>
          enqueue (map (\<lambda>r. Reaction r res) rs) (c\<lparr>promises := (promises c)(p := Settled res)\<rparr>)
      | Settled _ \<Rightarrow> c)"

section \<open>Activation and deactivation\<close>

text \<open>\<open>createEventualPromise(seq, result)\<close> with a result: a promise that has settled.\<close>

definition createResolvedPromise :: "nat \<Rightarrow> js result \<Rightarrow> ('w, 'z) core_scheme \<Rightarrow> ('w, 'z) core_scheme" where
  "createResolvedPromise seq res c =
     c\<lparr>promises := (promises c)(EventualPromise seq := Settled res)\<rparr>"

definition isEventualActive :: "('w, 'z) core_scheme \<Rightarrow> nat \<Rightarrow> bool" where
  "isEventualActive c seq \<longleftrightarrow> nr_has (activeEventuals c) seq"

definition hasActiveEventuals :: "('w, 'z) core_scheme \<Rightarrow> bool" where
  "hasActiveEventuals c \<longleftrightarrow> 0 < length (nr_keys (activeEventuals c))"

text \<open>\<open>delete this.activeHandlers.signals[signal]?.[seq]\<close>\<close>

definition delete_signal_handler ::
  "nat \<Rightarrow> string \<Rightarrow> (string, handler numrec) omap \<Rightarrow> (string, handler numrec) omap" where
  "delete_signal_handler seq signal t =
     (case om_get t signal of None \<Rightarrow> t | Some hs \<Rightarrow> om_set signal (nr_del seq hs) t)"

definition deactivateEventual :: "nat \<Rightarrow> ('w, 'z) core_scheme \<Rightarrow> ('w, 'z) core_scheme" where
  "deactivateEventual seq c =
     (case nr_get (activeEventuals c) seq of
        None \<Rightarrow> c
      | Some signals \<Rightarrow>
          c\<lparr>activeEventuals := nr_del seq (activeEventuals c),
            handlers_events := nr_del seq (handlers_events c),
            handlers_afterEveryEvent := nr_del seq (handlers_afterEveryEvent c),
            handlers_signals := fold (delete_signal_handler seq) signals (handlers_signals c)\<rparr>)"

text \<open>\<open>promise.resolve(result)\<close>: deactivate first, then settle.\<close>

definition tryResolveEventual ::
  "nat \<Rightarrow> js result option \<Rightarrow> ('w, 'z) core_scheme \<Rightarrow> ('w, 'z) core_scheme" where
  "tryResolveEventual seq r c =
     (case r of
        None \<Rightarrow> c
      | Some res \<Rightarrow>
          (if nr_has (activeEventuals c) seq
           then settle (EventualPromise seq) res (deactivateEventual seq c) else c))"

definition event_table :: "trigger list \<Rightarrow> (WorkflowEventType, handler) omap" where
  "event_table ts =
     fold (\<lambda>t m. case t of EventTrigger ty h \<Rightarrow> om_set ty h m | _ \<Rightarrow> m) (filter isEventTrigger ts) []"

definition watch_trigger :: "nat \<Rightarrow> trigger \<Rightarrow> ('w, 'z) core_scheme \<Rightarrow> ('w, 'z) core_scheme" where
  "watch_trigger seq t c =
     (case t of
        PromiseTrigger (PromiseTimeout p) h \<Rightarrow> watch p (TriggerReaction seq h) c
      | PromiseTrigger (ValueTimeout v) h \<Rightarrow> enqueue [Reaction (TriggerReaction seq h) (Resolved v)] c
      | _ \<Rightarrow> c)"

text \<open>\<open>(this.activeHandlers.signals[signalTrigger.signalId] ??= {})[seq] = signalTrigger\<close>\<close>

definition add_signal_handler ::
  "nat \<Rightarrow> trigger \<Rightarrow> (string, handler numrec) omap \<Rightarrow> (string, handler numrec) omap" where
  "add_signal_handler seq t m =
     (case t of
        SignalTrigger signal h \<Rightarrow> om_set signal (nr_set seq h (the_default [] (om_get m signal))) m
      | _ \<Rightarrow> m)"

definition trigger_signals :: "trigger list \<Rightarrow> string list" where
  "trigger_signals ts =
     map (\<lambda>t. case t of SignalTrigger signal h \<Rightarrow> signal | _ \<Rightarrow> '''') (filter isSignalTrigger ts)"

text \<open>The triggers of a definition without the undefined ones.\<close>

definition defined_triggers :: "trigger option list \<Rightarrow> trigger list" where
  "defined_triggers ts = map the (filter (\<lambda>t. t \<noteq> None) ts)"

text \<open>The steps of \<open>activateEventual\<close>, in the order of the source.\<close>

definition activate_promise :: "nat \<Rightarrow> trigger list \<Rightarrow> ('w, 'z) core_scheme \<Rightarrow> ('w, 'z) core_scheme" where
  "activate_promise seq ts c =
     c\<lparr>promises := (promises c)(EventualPromise seq := Pending []),
       activeEventuals := nr_set seq (trigger_signals ts) (activeEventuals c)\<rparr>"

definition activate_events :: "nat \<Rightarrow> trigger list \<Rightarrow> ('w, 'z) core_scheme \<Rightarrow> ('w, 'z) core_scheme" where
  "activate_events seq ts c =
     (if filter isEventTrigger ts \<noteq> []
      then c\<lparr>handlers_events := nr_set seq (event_table ts) (handlers_events c)\<rparr> else c)"

definition activate_promise_triggers ::
  "nat \<Rightarrow> trigger list \<Rightarrow> ('w, 'z) core_scheme \<Rightarrow> ('w, 'z) core_scheme" where
  "activate_promise_triggers seq ts c = fold (watch_trigger seq) (filter isPromiseTrigger ts) c"

definition activate_signals :: "nat \<Rightarrow> trigger list \<Rightarrow> ('w, 'z) core_scheme \<Rightarrow> ('w, 'z) core_scheme" where
  "activate_signals seq ts c =
     c\<lparr>handlers_signals :=
         fold (add_signal_handler seq) (filter isSignalTrigger ts) (handlers_signals c)\<rparr>"

definition activate_after :: "nat \<Rightarrow> trigger list \<Rightarrow> ('w, 'z) core_scheme \<Rightarrow> ('w, 'z) core_scheme" where
  "activate_after seq ts c =
     (case filter isAfterEveryEventTrigger ts of
        AfterEveryEventTrigger h # _ \<Rightarrow>
          c\<lparr>handlers_afterEveryEvent := nr_set seq h (handlers_afterEveryEvent c)\<rparr>
      | _ \<Rightarrow> c)"

definition activateEventual ::
  "nat \<Rightarrow> trigger option list \<Rightarrow> ('w, 'z) core_scheme \<Rightarrow> ('w, 'z) core_scheme" where
  "activateEventual seq triggers c =
     (let ts = defined_triggers triggers
      in activate_after seq ts (activate_signals seq ts (activate_promise_triggers seq ts
           (activate_events seq ts (activate_promise seq ts c)))))"

lemmas activate_defs =
  activate_promise_def activate_events_def activate_promise_triggers_def activate_signals_def
  activate_after_def

end
