(* ===== verification/WorkflowExecutor.thy ===== *)
theory WorkflowExecutor
  imports Eventuals
begin

text \<open>
  The class WorkflowExecutor of core-runtime/src/workflow/workflow-executor.ts: the history with
  its two iterators, runs, calls, the application of events, and the event loop they run on.

  \<^item> \<open>executor\<close> is the object's state; \<open>jobs\<close> (of \<open>core\<close>) and \<open>ticks\<close> are Node's microtask
    queue and \<open>process.nextTick\<close> queue as far as the executor and the workflow use them;
  \<^item> Node runs the tick queue until it is empty, then the microtasks until there are none,
    then ticks again (\<open>loop_step\<close>); \<open>event_loop\<close> repeats it until both queues are empty, and
    is \<open>None\<close> for a workflow that never becomes quiet;
  \<^item> \<open>start\<close> and \<open>continue\<close> are called by the orchestrator from asynchronous code, when the
    loop is idle; the promise they return is resolved with \<open>finished\<close>.

  An error that escapes a tick or a job is recorded in \<open>uncaught\<close> (in Node it ends the process).
\<close>

record workflow_call =
  wc_seq :: nat
  wc_call :: call
  wc_event :: call_history_event

record workflow_result =
  wr_result :: "js result option"
  wr_calls :: "workflow_call list"

datatype tick =
    ApplyEvent workflow_event
  | CompleteRun "js result option"

datatype phase = Ticks | Microtasks

record 'w executor = "'w core" +
  history :: "workflow_event list"
  expected :: nat
  events :: nat
  currentRun :: "workflow_call list option"
  started :: bool
  ticks :: "tick list"
  phase :: phase
  finished :: "workflow_result option"
  uncaught :: "js option"

definition new_executor :: "'w workflow \<Rightarrow> workflow_event list \<Rightarrow> 'w executor" where
  "new_executor wfl hist =
     \<lparr>nextSeq = 0, activeEventuals = [], handlers_events = [], handlers_signals = [],
      handlers_afterEveryEvent = [], stopped = False, result = None,
      promises = (\<lambda>_. Pending []), returned = False, jobs = [], user = wf_initial wfl,
      history = hist, expected = 0, events = 0, currentRun = None, started = False,
      ticks = [], phase = Microtasks, finished = None, uncaught = None\<rparr>"

section \<open>Runs and results\<close>

definition add_tick :: "tick \<Rightarrow> 'w executor \<Rightarrow> 'w executor" where
  "add_tick t st = st\<lparr>ticks := ticks st @ [t]\<rparr>"

definition is_system_failure :: "js result \<Rightarrow> bool" where
  "is_system_failure r = (case r of Failed err \<Rightarrow> extendsSystemError err | Resolved _ \<Rightarrow> False)"

text \<open>What \<open>resolveWorkflow\<close> does to the result: a system error stops the executor.\<close>

definition set_result :: "js result \<Rightarrow> ('w, 'z) core_scheme \<Rightarrow> ('w, 'z) core_scheme" where
  "set_result r c = c\<lparr>result := Some r, stopped := (stopped c \<or> is_system_failure r)\<rparr>"

text \<open>The second component is the error thrown, if any.\<close>

definition resolveWorkflow :: "js result \<Rightarrow> 'w executor \<Rightarrow> 'w executor \<times> js option" where
  "resolveWorkflow r st =
     (case currentRun st of
        None \<Rightarrow> (st, Some (mk_SystemError (Some ''Execution is not running.'') None))
      | Some _ \<Rightarrow>
          (let st = set_result r st
           in (if is_system_failure r then add_tick (CompleteRun (Some r)) st else st, None)))"

definition completeCurrentRun :: "js result option \<Rightarrow> 'w executor \<Rightarrow> 'w executor" where
  "completeCurrentRun overrideResult st =
     (case currentRun st of
        None \<Rightarrow> st
      | Some newCommands \<Rightarrow>
          (let r = (case overrideResult of Some r \<Rightarrow> Some r | None \<Rightarrow> result st)
           in st\<lparr>currentRun := None, result := r,
                 finished := Some \<lparr>wr_result = r, wr_calls = newCommands\<rparr>\<rparr>))"

section \<open>Calls\<close>

definition determinism_message :: "call_history_event \<Rightarrow> call_history_event \<Rightarrow> string" where
  "determinism_message event expected_event =
     ''Workflow returned '' @ the_default ''undefined'' (stringify (call_event_js event))
     @ '', but '' @ the_default ''undefined'' (stringify (call_event_js expected_event))
     @ '' was expected at '' @ nat_str (call_seq event)"

definition expected_hasNext :: "'w executor \<Rightarrow> bool \<times> 'w executor" where
  "expected_hasNext st =
     (let (b, c) = iter_hasNext (Some isCallEvent) (history st) (expected st)
      in (b, st\<lparr>expected := c\<rparr>))"

definition expected_next :: "'w executor \<Rightarrow> workflow_event option \<times> 'w executor" where
  "expected_next st =
     (let (e, c) = iter_next (Some isCallEvent) (history st) (expected st)
      in (e, st\<lparr>expected := c\<rparr>))"

text \<open>
  A mismatch fails the workflow with a DeterminismError, but does not throw: the call goes on.
\<close>

definition assertEventIsExpected :: "call_history_event \<Rightarrow> 'w executor \<Rightarrow> 'w executor \<times> js option" where
  "assertEventIsExpected event st =
     (case expected_hasNext st of
        (False, st) \<Rightarrow> (st, None)
      | (True, st) \<Rightarrow>
          (case expected_next st of
             (Some (CallEvent t e), st) \<Rightarrow>
               (if \<not> deepEqual (call_event_js e) (call_event_js event)
                then resolveWorkflow (Failed (mk_DeterminismError (Some (determinism_message event e)))) st
                else (st, None))
           | (_, st) \<Rightarrow> (st, None)))"

definition push_call :: "workflow_call \<Rightarrow> 'w executor \<Rightarrow> 'w executor" where
  "push_call wc st = st\<lparr>currentRun := map_option (\<lambda>cs. cs @ [wc]) (currentRun st)\<rparr>"

text \<open>The part of \<open>execute\<close> that compares or emits the event of the call.\<close>

definition record_call :: "call \<Rightarrow> nat \<Rightarrow> call_history_event \<Rightarrow> 'w executor \<Rightarrow> 'w executor \<times> js option" where
  "record_call c seq event st =
     (case expected_hasNext st of
        (True, st) \<Rightarrow> assertEventIsExpected event st
      | (False, st) \<Rightarrow> (push_call \<lparr>wc_seq = seq, wc_call = c, wc_event = event\<rparr> st, None))"

text \<open>The eventual of a definition: resolved at once or activated.\<close>

definition make_eventual ::
  "nat \<Rightarrow> eventual_definition \<Rightarrow> ('w, 'z) core_scheme \<Rightarrow> ('w, 'z) core_scheme" where
  "make_eventual seq d c =
     (case d of
        ResolvedEventualDefinition create res \<Rightarrow> createResolvedPromise seq res c
      | UnresolvedEventualDefinition create triggers \<Rightarrow> activateEventual seq triggers c)"

text \<open>The eventuals a factory resolved while it initialised its own.\<close>

definition resolve_all ::
  "(nat \<times> js result) list \<Rightarrow> ('w, 'z) core_scheme \<Rightarrow> ('w, 'z) core_scheme" where
  "resolve_all rs c = fold (\<lambda>(seq, r). tryResolveEventual seq (Some r)) rs c"

text \<open>The \<open>catch\<close> of \<open>execute\<close>: fail the workflow, then rethrow.\<close>

definition fail_and_throw :: "js \<Rightarrow> 'w executor \<Rightarrow> 'w executor \<times> reply" where
  "fail_and_throw err st =
     (case resolveWorkflow (Failed err) st of
        (st, Some err') \<Rightarrow> (st, Thrown err')
      | (st, None) \<Rightarrow> (st, Thrown err))"

definition execute :: "'w workflow \<Rightarrow> call option \<Rightarrow> 'w executor \<Rightarrow> 'w executor \<times> reply" where
  "execute wfl call st =
     (case call of
        None \<Rightarrow> (st, Thrown (mk_Error ''Operation is not supported within a workflow.''))
      | Some c \<Rightarrow>
          (case initializeEventual (wf_predicate wfl (user st)) c of
             Inl err \<Rightarrow> fail_and_throw err st
           | Inr (resolves, eventual) \<Rightarrow>
               (let st = resolve_all resolves st;
                    seq = nextSeq st;
                    st = st\<lparr>nextSeq := Suc seq\<rparr>;
                    (st, thrown) = (case createCallEvent eventual of
                        None \<Rightarrow> (st, None)
                      | Some create \<Rightarrow> record_call c seq (create seq) st)
                in (case thrown of
                      Some err \<Rightarrow> fail_and_throw err st
                    | None \<Rightarrow> (make_eventual seq eventual st, GotPromise (EventualPromise seq))))))"

text \<open>
  A burst of the workflow. The second component is the error it threw, for \<open>Throw\<close>. The
  workflow's own promise settles once: a second \<open>Finish\<close> has no effect.
\<close>

definition finish_workflow :: "js result \<Rightarrow> ('w, 'z) core_scheme \<Rightarrow> ('w, 'z) core_scheme" where
  "finish_workflow r c =
     (if returned c then c else enqueue [WorkflowReturned r] (c\<lparr>returned := True\<rparr>))"

primrec run_burst :: "'w workflow \<Rightarrow> 'w burst \<Rightarrow> 'w executor \<Rightarrow> 'w executor \<times> js option" where
  "run_burst wfl (Quiet w) st = (st\<lparr>user := w\<rparr>, None)"
| "run_burst wfl (Exec w c k) st =
     (case execute wfl c (st\<lparr>user := w\<rparr>) of (st, r) \<Rightarrow> run_burst wfl (k r) st)"
| "run_burst wfl (Watch p f b) st = run_burst wfl b (watch p (UserReaction f) st)"
| "run_burst wfl (SettleUser n r b) st = run_burst wfl b (settle (UserPromise n) r st)"
| "run_burst wfl (Finish r w) st = (finish_workflow r (st\<lparr>user := w\<rparr>), None)"
| "run_burst wfl (Throw err w) st = (st\<lparr>user := w\<rparr>, Some err)"

section \<open>Handlers\<close>

text \<open>
  \<open>isResult(handler) ? handler : handler(...args) ?? undefined\<close>; the argument is the event for
  an event or signal trigger and absent otherwise. A handler's error is dropped.
\<close>

definition run_handler ::
  "'w workflow \<Rightarrow> handler \<Rightarrow> workflow_event option \<Rightarrow> 'w executor \<Rightarrow> 'w executor \<times> js result option" where
  "run_handler wfl h arg st =
     (case h of
        HandlerResult r \<Rightarrow> (st, Some r)
      | SignalUser f \<Rightarrow>
          (case arg of
             None \<Rightarrow> (st, None)
           | Some e \<Rightarrow> (fst (run_burst wfl (wf_signal wfl (user st) f (event_payload e)) st), None))
      | ConditionHolds f \<Rightarrow>
          (st, case wf_predicate wfl (user st) f of
             Inl err \<Rightarrow> None
           | Inr v \<Rightarrow> if truthy v then Some (Resolved v) else None)
      | _ \<Rightarrow>
          (st, case arg of
             None \<Rightarrow> None
           | Some e \<Rightarrow> (case run_event_handler h e of Inl err \<Rightarrow> None | Inr r \<Rightarrow> r)))"

text \<open>False when the workflow has stopped.\<close>

definition invokeEventualHandler ::
  "'w workflow \<Rightarrow> nat \<Rightarrow> handler \<Rightarrow> workflow_event option \<Rightarrow> 'w executor \<Rightarrow> 'w executor \<times> bool" where
  "invokeEventualHandler wfl seq h arg st =
     (if stopped st then (st, False)
      else if isEventualActive st seq
        then (case run_handler wfl h arg st of (st, r) \<Rightarrow> (tryResolveEventual seq r st, True))
        else (st, True))"

primrec invoke_handlers ::
  "'w workflow \<Rightarrow> workflow_event option \<Rightarrow> (nat \<times> handler) list \<Rightarrow> 'w executor \<Rightarrow> 'w executor \<times> bool" where
  "invoke_handlers wfl arg [] st = (st, True)"
| "invoke_handlers wfl arg (r # rs) st =
     (case invokeEventualHandler wfl (fst r) (snd r) arg st of
        (st, True) \<Rightarrow> invoke_handlers wfl arg rs st
      | (st, False) \<Rightarrow> (st, False))"

text \<open>The handlers \<open>getHandlersForEvent\<close> yields first, those of the event itself.\<close>

definition event_trigger_handlers :: "workflow_event \<Rightarrow> ('w, 'z) core_scheme \<Rightarrow> (nat \<times> handler) list" where
  "event_trigger_handlers event st =
     (if isSignalReceived event
      then (case event of
          SignalReceived i t signalId payload \<Rightarrow> the_default [] (om_get (handlers_signals st) signalId)
        | _ \<Rightarrow> [])
      else (case event_seq event of
          None \<Rightarrow> []
        | Some seq \<Rightarrow>
            (case nr_get (handlers_events st) seq of
               None \<Rightarrow> []
             | Some hs \<Rightarrow> (case om_get hs (event_type event) of None \<Rightarrow> [] | Some h \<Rightarrow> [(seq, h)]))))"

text \<open>The check that the call an event answers was made before.\<close>

definition check_event_seq :: "workflow_event \<Rightarrow> 'w executor \<Rightarrow> 'w executor \<times> js option" where
  "check_event_seq event st =
     (case (if isSignalReceived event then None else event_seq event) of
        Some seq \<Rightarrow>
          (if nextSeq st \<le> seq
           then resolveWorkflow (Failed (mk_DeterminismError
             (Some (''Call for seq '' @ nat_str seq @ '' was not emitted.'')))) st
           else (st, None))
      | None \<Rightarrow> (st, None))"

definition tryApplyEvent :: "'w workflow \<Rightarrow> workflow_event \<Rightarrow> 'w executor \<Rightarrow> 'w executor \<times> js option" where
  "tryApplyEvent wfl event st =
     (if isWorkflowTimedOut event
      then resolveWorkflow (Failed (mk_WorkflowTimeout (Some ''Workflow timed out''))) st
      else if isWorkflowRunStarted event then (st, None)
      else (case check_event_seq event st of
          (st, Some err) \<Rightarrow> (st, Some err)
        | (st, None) \<Rightarrow>
            (case invoke_handlers wfl (Some event) (event_trigger_handlers event st) st of
               (st, False) \<Rightarrow> (st, None)
             | (st, True) \<Rightarrow>
                 (fst (invoke_handlers wfl None (handlers_afterEveryEvent st) st), None))))"

section \<open>The event loop\<close>

text \<open>
  The loop of \<open>applyEvents\<close> up to its next \<open>await\<close>: take an event and put its application into
  the tick queue, or end, which lets \<open>startWorkflowRun\<close> continue.
\<close>

definition applyEvents :: "'w executor \<Rightarrow> 'w executor" where
  "applyEvents st =
     (let (more, c) = iter_hasNext (Some isCompletionEvent) (history st) (events st);
          st = st\<lparr>events := c\<rparr>
      in (if more \<and> \<not> stopped st
          then (case iter_next (Some isCompletionEvent) (history st) (events st) of
              (Some e, c) \<Rightarrow> add_tick (ApplyEvent e) (st\<lparr>events := c\<rparr>)
            | (None, c) \<Rightarrow> st\<lparr>events := c\<rparr>)
          else enqueue [AfterApply] st))"

definition crash :: "js option \<Rightarrow> 'w executor \<Rightarrow> 'w executor" where
  "crash err st = (case err of None \<Rightarrow> st | Some e \<Rightarrow> st\<lparr>uncaught := Some e\<rparr>)"

definition run_tick :: "'w workflow \<Rightarrow> tick \<Rightarrow> 'w executor \<Rightarrow> 'w executor" where
  "run_tick wfl t st =
     (case t of
        ApplyEvent e \<Rightarrow>
          (case tryApplyEvent wfl e st of
             (st, None) \<Rightarrow> enqueue [ContinueApply] st
           | (st, Some err) \<Rightarrow> crash (Some err) st)
      | CompleteRun r \<Rightarrow> completeCurrentRun r st)"

definition run_job :: "'w workflow \<Rightarrow> job \<Rightarrow> 'w executor \<Rightarrow> 'w executor" where
  "run_job wfl j st =
     (case j of
        Reaction (UserReaction f) res \<Rightarrow> fst (run_burst wfl (wf_resume wfl (user st) f res) st)
      | Reaction (TriggerReaction seq h) res \<Rightarrow> fst (invokeEventualHandler wfl seq h None st)
      | WorkflowReturned r \<Rightarrow> (case resolveWorkflow r st of (st, err) \<Rightarrow> crash err st)
      | ContinueApply \<Rightarrow> applyEvents st
      | AfterApply \<Rightarrow>
          (case currentRun st of None \<Rightarrow> st | Some _ \<Rightarrow> add_tick (CompleteRun None) st))"

definition loop_step :: "'w workflow \<Rightarrow> 'w executor \<Rightarrow> 'w executor option" where
  "loop_step wfl st =
     (if uncaught st \<noteq> None then None
      else (case phase st of
          Ticks \<Rightarrow>
            (case ticks st of
               [] \<Rightarrow> Some (st\<lparr>phase := Microtasks\<rparr>)
             | t # ts \<Rightarrow> Some (run_tick wfl t (st\<lparr>ticks := ts\<rparr>)))
        | Microtasks \<Rightarrow>
            (case jobs st of
               [] \<Rightarrow> (if ticks st = [] then None else Some (st\<lparr>phase := Ticks\<rparr>))
             | j # js \<Rightarrow> Some (run_job wfl j (st\<lparr>jobs := js\<rparr>)))))"

partial_function (option) event_loop :: "'w workflow \<Rightarrow> 'w executor \<Rightarrow> 'w executor option" where
  "event_loop wfl st = (case loop_step wfl st of None \<Rightarrow> Some st | Some st' \<Rightarrow> event_loop wfl st')"

section \<open>Start and continue\<close>

definition addHistoryEvents :: "workflow_event list \<Rightarrow> 'w executor \<Rightarrow> 'w executor" where
  "addHistoryEvents newEvents st =
     st\<lparr>history := history st @ filterEvents (history st) newEvents\<rparr>"

text \<open>\<open>startWorkflowRun\<close> with the start of the workflow as \<open>beforeCommitEvents\<close>, or without.\<close>

definition begin_run :: "'w executor \<Rightarrow> 'w executor" where
  "begin_run st = st\<lparr>currentRun := Some []\<rparr>"

definition start_definition :: "'w workflow \<Rightarrow> js \<Rightarrow> js \<Rightarrow> 'w executor \<Rightarrow> 'w executor" where
  "start_definition wfl input context st =
     (case run_burst wfl (wf_definition wfl input context) st of
        (st, None) \<Rightarrow> st
      | (st, Some err) \<Rightarrow> fst (resolveWorkflow (Failed err) st))"

datatype start_args =
    StartInput js js "workflow_event list"
  | StartEvents "workflow_event list"

definition started_context :: "string \<Rightarrow> string \<Rightarrow> string option \<Rightarrow> int \<Rightarrow> js" where
  "started_context workflow name parentId timestamp =
     (let parent = (case parentId of None \<Rightarrow> JUndef | Some p \<Rightarrow> JStr p)
      in JObj [(''workflow'', JObj [(''name'', JStr workflow)]),
               (''execution'', JObj [(''name'', JStr name), (''parentId'', parent),
                  (''id'', JStr (formatExecutionId workflow name)), (''startTime'', JNum timestamp)])])"

definition processArgs ::
  "workflow_event list \<Rightarrow> start_args \<Rightarrow> js + (js \<times> js \<times> workflow_event list)" where
  "processArgs hist args =
     (case args of
        StartInput input context evs \<Rightarrow> Inr (input, context, evs)
      | StartEvents evs \<Rightarrow>
          (case (case List.find isWorkflowStarted hist of Some e \<Rightarrow> Some e | None \<Rightarrow> List.find isWorkflowStarted evs) of
             Some (WorkflowStarted i t workflow input timeoutTime name parentId) \<Rightarrow>
               Inr (input, started_context workflow name parentId t, evs)
           | _ \<Rightarrow> Inl (mk_Error (''No WorkflowStarted event was provided in the history or in the start operation. ''
               @ ''Either provide a WorkflowStarted event or the input/context.''))))"

definition start :: "'w workflow \<Rightarrow> start_args \<Rightarrow> 'w executor \<Rightarrow> js + 'w executor" where
  "start wfl args st =
     (if started st
      then Inl (mk_Error (''Execution has already been started. Use continue to apply new events ''
             @ ''or create a new Interpreter''))
      else (case processArgs (history st) args of
          Inl err \<Rightarrow> Inl err
        | Inr (input, context, evs) \<Rightarrow>
            (let st = addHistoryEvents evs st;
                 st = begin_run (st\<lparr>started := True, finished := None\<rparr>);
                 st = start_definition wfl input context st
             in Inr (applyEvents st))))"

definition continue :: "workflow_event list \<Rightarrow> 'w executor \<Rightarrow> js + 'w executor" where
  "continue evs st =
     (if \<not> started st then Inl (mk_Error ''Execution has not been started, call start first.'')
      else if currentRun st \<noteq> None
        then Inl (mk_Error (''Workflow is already running, await the promise returned by the last ''
               @ ''start or complete call.''))
      else Inr (applyEvents (begin_run ((addHistoryEvents evs st)\<lparr>finished := None\<rparr>))))"

text \<open>The promise of a run, awaited: the state of the executor when the loop is idle again.\<close>

definition run_start :: "'w workflow \<Rightarrow> start_args \<Rightarrow> 'w executor \<Rightarrow> (js + 'w executor) option" where
  "run_start wfl args st =
     (case start wfl args st of Inl err \<Rightarrow> Some (Inl err) | Inr st' \<Rightarrow> map_option Inr (event_loop wfl st'))"

definition run_continue :: "'w workflow \<Rightarrow> workflow_event list \<Rightarrow> 'w executor \<Rightarrow> (js + 'w executor) option" where
  "run_continue wfl evs st =
     (case continue evs st of Inl err \<Rightarrow> Some (Inl err) | Inr st' \<Rightarrow> map_option Inr (event_loop wfl st'))"

end
