(* ===== verification/WorkflowSpec.thy ===== *)
theory WorkflowSpec
  imports WorkflowExecutor
begin

text \<open>
  The abstract specification of a workflow execution: the workflow applied to a sequence of
  completion events, one at a time, each followed by everything it sets in motion. There are
  no runs, no expected events, no ticks and no event loop: \<open>spec_drain\<close> runs the workflow's
  jobs until none is left, and every call that leaves an event is appended to \<open>log\<close>.

  \<^verbatim>\<open>WorkflowRefinement\<close> shows that the executor implements it: what it emits is the part of
  the log that its history does not hold yet.
\<close>

record 'w spec = "'w core" +
  log :: "call_history_event list"

definition new_spec :: "'w workflow \<Rightarrow> 'w spec" where
  "new_spec wfl =
     \<lparr>nextSeq = 0, activeEventuals = [], handlers_events = [], handlers_signals = [],
      handlers_afterEveryEvent = [], stopped = False, result = None,
      promises = (\<lambda>_. Pending []), returned = False, jobs = [], user = wf_initial wfl, log = []\<rparr>"

definition spec_execute :: "'w workflow \<Rightarrow> call option \<Rightarrow> 'w spec \<Rightarrow> 'w spec \<times> reply" where
  "spec_execute wfl call s =
     (case call of
        None \<Rightarrow> (s, Thrown (mk_Error ''Operation is not supported within a workflow.''))
      | Some c \<Rightarrow>
          (case initializeEventual (wf_predicate wfl (user s)) c of
             Inl err \<Rightarrow> (set_result (Failed err) s, Thrown err)
           | Inr (resolves, eventual) \<Rightarrow>
               (let s = resolve_all resolves s;
                    seq = nextSeq s;
                    s = s\<lparr>nextSeq := Suc seq\<rparr>;
                    s = (case createCallEvent eventual of
                        None \<Rightarrow> s | Some create \<Rightarrow> s\<lparr>log := log s @ [create seq]\<rparr>)
                in (make_eventual seq eventual s, GotPromise (EventualPromise seq)))))"

primrec spec_burst :: "'w workflow \<Rightarrow> 'w burst \<Rightarrow> 'w spec \<Rightarrow> 'w spec \<times> js option" where
  "spec_burst wfl (Quiet w) s = (s\<lparr>user := w\<rparr>, None)"
| "spec_burst wfl (Exec w c k) s =
     (case spec_execute wfl c (s\<lparr>user := w\<rparr>) of (s, r) \<Rightarrow> spec_burst wfl (k r) s)"
| "spec_burst wfl (Watch p f b) s = spec_burst wfl b (watch p (UserReaction f) s)"
| "spec_burst wfl (SettleUser n r b) s = spec_burst wfl b (settle (UserPromise n) r s)"
| "spec_burst wfl (Finish r w) s = (finish_workflow r (s\<lparr>user := w\<rparr>), None)"
| "spec_burst wfl (Throw err w) s = (s\<lparr>user := w\<rparr>, Some err)"

definition spec_handler ::
  "'w workflow \<Rightarrow> handler \<Rightarrow> workflow_event option \<Rightarrow> 'w spec \<Rightarrow> 'w spec \<times> js result option" where
  "spec_handler wfl h arg s =
     (case h of
        HandlerResult r \<Rightarrow> (s, Some r)
      | SignalUser f \<Rightarrow>
          (case arg of
             None \<Rightarrow> (s, None)
           | Some e \<Rightarrow> (fst (spec_burst wfl (wf_signal wfl (user s) f (event_payload e)) s), None))
      | ConditionHolds f \<Rightarrow>
          (s, case wf_predicate wfl (user s) f of
             Inl err \<Rightarrow> None
           | Inr v \<Rightarrow> if truthy v then Some (Resolved v) else None)
      | _ \<Rightarrow>
          (s, case arg of
             None \<Rightarrow> None
           | Some e \<Rightarrow> (case run_event_handler h e of Inl err \<Rightarrow> None | Inr r \<Rightarrow> r)))"

definition spec_invoke :: "'w workflow \<Rightarrow> workflow_event option \<Rightarrow> nat \<times> handler \<Rightarrow> 'w spec \<Rightarrow> 'w spec" where
  "spec_invoke wfl arg r s =
     (if stopped s \<or> \<not> isEventualActive s (fst r) then s
      else (case spec_handler wfl (snd r) arg s of (s, res) \<Rightarrow> tryResolveEventual (fst r) res s))"

definition spec_apply :: "'w workflow \<Rightarrow> workflow_event \<Rightarrow> 'w spec \<Rightarrow> 'w spec" where
  "spec_apply wfl event s =
     (if isWorkflowTimedOut event
      then set_result (Failed (mk_WorkflowTimeout (Some ''Workflow timed out''))) s
      else if isWorkflowRunStarted event then s
      else
        (let s = (case (if isSignalReceived event then None else event_seq event) of
               Some seq \<Rightarrow>
                 (if nextSeq s \<le> seq
                  then set_result (Failed (mk_DeterminismError
                    (Some (''Call for seq '' @ nat_str seq @ '' was not emitted.'')))) s
                  else s)
             | None \<Rightarrow> s);
             s = fold (spec_invoke wfl (Some event)) (event_trigger_handlers event s) s
         in fold (spec_invoke wfl None) (handlers_afterEveryEvent s) s))"

definition spec_job :: "'w workflow \<Rightarrow> job \<Rightarrow> 'w spec \<Rightarrow> 'w spec" where
  "spec_job wfl j s =
     (case j of
        Reaction (UserReaction f) res \<Rightarrow> fst (spec_burst wfl (wf_resume wfl (user s) f res) s)
      | Reaction (TriggerReaction seq h) res \<Rightarrow> spec_invoke wfl None (seq, h) s
      | WorkflowReturned r \<Rightarrow> set_result r s
      | ContinueApply \<Rightarrow> s
      | AfterApply \<Rightarrow> s)"

partial_function (option) spec_drain :: "'w workflow \<Rightarrow> 'w spec \<Rightarrow> 'w spec option" where
  "spec_drain wfl s =
     (case jobs s of [] \<Rightarrow> Some s | j # js \<Rightarrow> spec_drain wfl (spec_job wfl j (s\<lparr>jobs := js\<rparr>)))"

definition spec_start :: "'w workflow \<Rightarrow> js \<Rightarrow> js \<Rightarrow> 'w spec" where
  "spec_start wfl input context =
     (case spec_burst wfl (wf_definition wfl input context) (new_spec wfl) of
        (s, None) \<Rightarrow> s
      | (s, Some err) \<Rightarrow> set_result (Failed err) s)"

primrec spec_events :: "'w workflow \<Rightarrow> workflow_event list \<Rightarrow> 'w spec \<Rightarrow> 'w spec option" where
  "spec_events wfl [] s = Some s"
| "spec_events wfl (e # es) s =
     (case spec_drain wfl (spec_apply wfl e s) of None \<Rightarrow> None | Some s' \<Rightarrow> spec_events wfl es s')"

definition spec_run :: "'w workflow \<Rightarrow> js \<Rightarrow> js \<Rightarrow> workflow_event list \<Rightarrow> 'w spec option" where
  "spec_run wfl input context es =
     (case spec_drain wfl (spec_start wfl input context) of None \<Rightarrow> None | Some s \<Rightarrow> spec_events wfl es s)"

lemma spec_events_append:
  "spec_events wfl (es @ es') s =
     (case spec_events wfl es s of None \<Rightarrow> None | Some s' \<Rightarrow> spec_events wfl es' s')"
  by (induction es arbitrary: s) (auto split: option.splits)

lemma spec_run_append:
  "spec_run wfl input context (es @ es') =
     (case spec_run wfl input context es of None \<Rightarrow> None | Some s \<Rightarrow> spec_events wfl es' s)"
  by (simp add: spec_run_def spec_events_append split: option.splits)

end
