(* ===== verification/WorkflowFrame.thy ===== *)
theory WorkflowFrame
  imports WorkflowSpec
begin

text \<open>
  What the operations on eventuals leave alone, for the refinement proof. \<open>view\<close> is the part
  of a state that the executor and the specification share, without the executor's own jobs;
  the operations commute with it. \<open>outer\<close> is the executor's other state, which they do not
  touch, and \<open>loop_jobs\<close> are its own jobs, to which they add none.
\<close>

fun user_job :: "job \<Rightarrow> bool" where
  "user_job (Reaction r res) = True"
| "user_job (WorkflowReturned r) = True"
| "user_job ContinueApply = False"
| "user_job AfterApply = False"

definition view :: "('w, 'z) core_scheme \<Rightarrow> 'w core" where
  "view c = (core.truncate c)\<lparr>jobs := filter user_job (jobs c)\<rparr>"

lemma view_eqs [simp]:
  "nextSeq (view c) = nextSeq c" "activeEventuals (view c) = activeEventuals c"
  "handlers_events (view c) = handlers_events c" "handlers_signals (view c) = handlers_signals c"
  "handlers_afterEveryEvent (view c) = handlers_afterEveryEvent c" "stopped (view c) = stopped c"
  "result (view c) = result c" "promises (view c) = promises c" "returned (view c) = returned c"
  "jobs (view c) = filter user_job (jobs c)" "user (view c) = user c"
  by (simp_all add: view_def core.defs)

lemma view_updates [simp]:
  "view (c\<lparr>nextSeq := n\<rparr>) = (view c)\<lparr>nextSeq := n\<rparr>"
  "view (c\<lparr>activeEventuals := a\<rparr>) = (view c)\<lparr>activeEventuals := a\<rparr>"
  "view (c\<lparr>handlers_events := e\<rparr>) = (view c)\<lparr>handlers_events := e\<rparr>"
  "view (c\<lparr>handlers_signals := sg\<rparr>) = (view c)\<lparr>handlers_signals := sg\<rparr>"
  "view (c\<lparr>handlers_afterEveryEvent := h\<rparr>) = (view c)\<lparr>handlers_afterEveryEvent := h\<rparr>"
  "view (c\<lparr>stopped := b\<rparr>) = (view c)\<lparr>stopped := b\<rparr>"
  "view (c\<lparr>result := r\<rparr>) = (view c)\<lparr>result := r\<rparr>"
  "view (c\<lparr>promises := p\<rparr>) = (view c)\<lparr>promises := p\<rparr>"
  "view (c\<lparr>returned := b\<rparr>) = (view c)\<lparr>returned := b\<rparr>"
  "view (c\<lparr>user := w\<rparr>) = (view c)\<lparr>user := w\<rparr>"
  "view (c\<lparr>jobs := js\<rparr>) = (view c)\<lparr>jobs := filter user_job js\<rparr>"
  by (simp_all add: view_def core.defs)

lemma view_enqueue [simp]: "view (enqueue js c) = enqueue (filter user_job js) (view c)"
  by (simp add: enqueue_def)

lemma view_watch [simp]: "view (watch p r c) = watch p r (view c)"
  by (simp add: watch_def split: promise_state.split)

lemma user_job_reactions [simp]: "filter user_job (map (\<lambda>r. Reaction r res) rs) = map (\<lambda>r. Reaction r res) rs"
  by (induction rs) simp_all

lemma view_settle [simp]: "view (settle p res c) = settle p res (view c)"
  by (simp add: settle_def split: promise_state.split)

lemma view_deactivate [simp]: "view (deactivateEventual seq c) = deactivateEventual seq (view c)"
  by (simp add: deactivateEventual_def split: option.split)

lemma view_tryResolve [simp]: "view (tryResolveEventual seq r c) = tryResolveEventual seq r (view c)"
  by (simp add: tryResolveEventual_def split: option.split)

lemma view_watch_trigger [simp]: "view (watch_trigger seq t c) = watch_trigger seq t (view c)"
  by (simp add: watch_trigger_def split: trigger.split timeout.split)

lemma view_fold_watch_trigger [simp]:
  "view (fold (watch_trigger seq) ts c) = fold (watch_trigger seq) ts (view c)"
  by (induction ts arbitrary: c) simp_all

lemma watch_fields [simp]:
  "nextSeq (watch p r c) = nextSeq c" "activeEventuals (watch p r c) = activeEventuals c"
  "handlers_events (watch p r c) = handlers_events c"
  "handlers_signals (watch p r c) = handlers_signals c"
  "handlers_afterEveryEvent (watch p r c) = handlers_afterEveryEvent c"
  "stopped (watch p r c) = stopped c" "result (watch p r c) = result c"
  "returned (watch p r c) = returned c" "user (watch p r c) = user c"
  by (simp_all add: watch_def enqueue_def split: promise_state.split)

lemma watch_trigger_fields [simp]:
  "nextSeq (watch_trigger seq t c) = nextSeq c" "activeEventuals (watch_trigger seq t c) = activeEventuals c"
  "handlers_events (watch_trigger seq t c) = handlers_events c"
  "handlers_signals (watch_trigger seq t c) = handlers_signals c"
  "handlers_afterEveryEvent (watch_trigger seq t c) = handlers_afterEveryEvent c"
  "stopped (watch_trigger seq t c) = stopped c" "result (watch_trigger seq t c) = result c"
  "returned (watch_trigger seq t c) = returned c" "user (watch_trigger seq t c) = user c"
  by (simp_all add: watch_trigger_def enqueue_def split: trigger.split timeout.split)

lemma fold_watch_trigger_fields [simp]:
  "nextSeq (fold (watch_trigger seq) ts c) = nextSeq c"
  "activeEventuals (fold (watch_trigger seq) ts c) = activeEventuals c"
  "handlers_events (fold (watch_trigger seq) ts c) = handlers_events c"
  "handlers_signals (fold (watch_trigger seq) ts c) = handlers_signals c"
  "handlers_afterEveryEvent (fold (watch_trigger seq) ts c) = handlers_afterEveryEvent c"
  "stopped (fold (watch_trigger seq) ts c) = stopped c" "result (fold (watch_trigger seq) ts c) = result c"
  "returned (fold (watch_trigger seq) ts c) = returned c" "user (fold (watch_trigger seq) ts c) = user c"
  by (induction ts arbitrary: c) simp_all

lemma view_activate_steps [simp]:
  "view (activate_promise seq ts c) = activate_promise seq ts (view c)"
  "view (activate_events seq ts c) = activate_events seq ts (view c)"
  "view (activate_promise_triggers seq ts c) = activate_promise_triggers seq ts (view c)"
  "view (activate_signals seq ts c) = activate_signals seq ts (view c)"
  "view (activate_after seq ts c) = activate_after seq ts (view c)"
  by (simp_all add: activate_defs split: list.split trigger.split)

lemma view_activate [simp]: "view (activateEventual seq ts c) = activateEventual seq ts (view c)"
  by (simp add: activateEventual_def Let_def)

lemma view_make_eventual [simp]: "view (make_eventual seq d c) = make_eventual seq d (view c)"
  by (simp add: make_eventual_def createResolvedPromise_def split: eventual_definition.split)

lemma view_resolve_all [simp]: "view (resolve_all rs c) = resolve_all rs (view c)"
  unfolding resolve_all_def by (induction rs arbitrary: c) (simp_all split: prod.split)

lemma view_set_result [simp]: "view (set_result r c) = set_result r (view c)"
  by (simp add: set_result_def)

lemma view_finish [simp]: "view (finish_workflow r c) = finish_workflow r (view c)"
  by (simp add: finish_workflow_def)

definition outer :: "'w executor \<Rightarrow> _" where
  "outer st = (history st, expected st, events st, currentRun st, started st, ticks st, phase st,
     finished st, uncaught st)"

lemma outer_core_updates [simp]:
  "outer (c\<lparr>nextSeq := n\<rparr>) = outer c" "outer (c\<lparr>activeEventuals := a\<rparr>) = outer c"
  "outer (c\<lparr>handlers_events := e\<rparr>) = outer c" "outer (c\<lparr>handlers_signals := sg\<rparr>) = outer c"
  "outer (c\<lparr>handlers_afterEveryEvent := h\<rparr>) = outer c" "outer (c\<lparr>stopped := b\<rparr>) = outer c"
  "outer (c\<lparr>result := r\<rparr>) = outer c" "outer (c\<lparr>promises := p\<rparr>) = outer c"
  "outer (c\<lparr>returned := b\<rparr>) = outer c" "outer (c\<lparr>user := w\<rparr>) = outer c"
  "outer (c\<lparr>jobs := js\<rparr>) = outer c"
  by (simp_all add: outer_def)

lemma outer_enqueue [simp]: "outer (enqueue js c) = outer c"
  by (simp add: enqueue_def)

lemma outer_watch [simp]: "outer (watch p r c) = outer c"
  by (simp add: watch_def split: promise_state.split)

lemma outer_settle [simp]: "outer (settle p res c) = outer c"
  by (simp add: settle_def split: promise_state.split)

lemma outer_deactivate [simp]: "outer (deactivateEventual seq c) = outer c"
  by (simp add: deactivateEventual_def split: option.split)

lemma outer_tryResolve [simp]: "outer (tryResolveEventual seq r c) = outer c"
  by (simp add: tryResolveEventual_def split: option.split)

lemma outer_fold_watch_trigger [simp]: "outer (fold (watch_trigger seq) ts c) = outer c"
  by (induction ts arbitrary: c)
    (simp_all add: watch_trigger_def split: trigger.split timeout.split)

lemma outer_activate_steps [simp]:
  "outer (activate_promise seq ts c) = outer c" "outer (activate_events seq ts c) = outer c"
  "outer (activate_promise_triggers seq ts c) = outer c" "outer (activate_signals seq ts c) = outer c"
  "outer (activate_after seq ts c) = outer c"
  by (simp_all add: activate_defs split: list.split trigger.split)

lemma outer_make_eventual [simp]: "outer (make_eventual seq d c) = outer c"
  by (simp add: make_eventual_def createResolvedPromise_def activateEventual_def Let_def
      split: eventual_definition.split)

lemma outer_resolve_all [simp]: "outer (resolve_all rs c) = outer c"
  unfolding resolve_all_def by (induction rs arbitrary: c) (simp_all split: prod.split)

lemma outer_set_result [simp]: "outer (set_result r c) = outer c"
  by (simp add: set_result_def)

lemma outer_finish [simp]: "outer (finish_workflow r c) = outer c"
  by (simp add: finish_workflow_def)

section \<open>The executor's own jobs\<close>

definition loop_jobs :: "('w, 'z) core_scheme \<Rightarrow> job list" where
  "loop_jobs c = filter (\<lambda>j. \<not> user_job j) (jobs c)"

lemma loop_jobs_updates [simp]:
  "loop_jobs (c\<lparr>nextSeq := n\<rparr>) = loop_jobs c" "loop_jobs (c\<lparr>activeEventuals := a\<rparr>) = loop_jobs c"
  "loop_jobs (c\<lparr>handlers_events := e\<rparr>) = loop_jobs c" "loop_jobs (c\<lparr>handlers_signals := sg\<rparr>) = loop_jobs c"
  "loop_jobs (c\<lparr>handlers_afterEveryEvent := h\<rparr>) = loop_jobs c" "loop_jobs (c\<lparr>stopped := b\<rparr>) = loop_jobs c"
  "loop_jobs (c\<lparr>result := r\<rparr>) = loop_jobs c" "loop_jobs (c\<lparr>promises := p\<rparr>) = loop_jobs c"
  "loop_jobs (c\<lparr>returned := b\<rparr>) = loop_jobs c" "loop_jobs (c\<lparr>user := w\<rparr>) = loop_jobs c"
  "loop_jobs (c\<lparr>jobs := js\<rparr>) = filter (\<lambda>j. \<not> user_job j) js"
  by (simp_all add: loop_jobs_def)

lemma loop_jobs_executor_updates [simp]:
  "loop_jobs (st\<lparr>history := hs\<rparr>) = loop_jobs st" "loop_jobs (st\<lparr>expected := i\<rparr>) = loop_jobs st"
  "loop_jobs (st\<lparr>events := i\<rparr>) = loop_jobs st" "loop_jobs (st\<lparr>currentRun := cr\<rparr>) = loop_jobs st"
  "loop_jobs (st\<lparr>started := b\<rparr>) = loop_jobs st" "loop_jobs (st\<lparr>ticks := ts\<rparr>) = loop_jobs st"
  "loop_jobs (st\<lparr>phase := ph\<rparr>) = loop_jobs st" "loop_jobs (st\<lparr>finished := fin\<rparr>) = loop_jobs st"
  "loop_jobs (st\<lparr>uncaught := un\<rparr>) = loop_jobs st"
  by (simp_all add: loop_jobs_def)

lemma loop_jobs_enqueue [simp]:
  "loop_jobs (enqueue js c) = loop_jobs c @ filter (\<lambda>j. \<not> user_job j) js"
  by (simp add: enqueue_def loop_jobs_def)

lemma loop_job_reactions [simp]: "filter (\<lambda>j. \<not> user_job j) (map (\<lambda>r. Reaction r res) rs) = []"
  by (induction rs) simp_all

lemma loop_jobs_watch [simp]: "loop_jobs (watch p r c) = loop_jobs c"
  by (simp add: watch_def split: promise_state.split)

lemma loop_jobs_settle [simp]: "loop_jobs (settle p res c) = loop_jobs c"
  by (simp add: settle_def split: promise_state.split)

lemma loop_jobs_tryResolve [simp]: "loop_jobs (tryResolveEventual seq r c) = loop_jobs c"
  by (simp add: tryResolveEventual_def deactivateEventual_def split: option.split)

lemma loop_jobs_fold_watch_trigger [simp]: "loop_jobs (fold (watch_trigger seq) ts c) = loop_jobs c"
  by (induction ts arbitrary: c)
    (simp_all add: watch_trigger_def split: trigger.split timeout.split)

lemma loop_jobs_activate_steps [simp]:
  "loop_jobs (activate_promise seq ts c) = loop_jobs c" "loop_jobs (activate_events seq ts c) = loop_jobs c"
  "loop_jobs (activate_promise_triggers seq ts c) = loop_jobs c" "loop_jobs (activate_signals seq ts c) = loop_jobs c"
  "loop_jobs (activate_after seq ts c) = loop_jobs c"
  by (simp_all add: activate_defs split: list.split trigger.split)

lemma loop_jobs_make_eventual [simp]: "loop_jobs (make_eventual seq d c) = loop_jobs c"
  by (simp add: make_eventual_def createResolvedPromise_def activateEventual_def Let_def
      split: eventual_definition.split)

lemma loop_jobs_resolve_all [simp]: "loop_jobs (resolve_all rs c) = loop_jobs c"
  unfolding resolve_all_def by (induction rs arbitrary: c) (simp_all split: prod.split)

lemma loop_jobs_set_result [simp]: "loop_jobs (set_result r c) = loop_jobs c"
  by (simp add: set_result_def)

lemma loop_jobs_finish [simp]: "loop_jobs (finish_workflow r c) = loop_jobs c"
  by (simp add: finish_workflow_def)

section \<open>Fields that stay\<close>

lemma stopped_ops [simp]:
  "stopped (enqueue js c) = stopped c" "stopped (settle p res c) = stopped c"
  "stopped (deactivateEventual seq c) = stopped c" "stopped (tryResolveEventual seq r c) = stopped c"
  "stopped (finish_workflow r' c) = stopped c"
  by (simp_all add: enqueue_def settle_def deactivateEventual_def tryResolveEventual_def
      finish_workflow_def split: promise_state.split option.split)

lemma stopped_activate_steps [simp]:
  "stopped (activate_promise seq ts c) = stopped c" "stopped (activate_events seq ts c) = stopped c"
  "stopped (activate_promise_triggers seq ts c) = stopped c" "stopped (activate_signals seq ts c) = stopped c"
  "stopped (activate_after seq ts c) = stopped c"
  by (simp_all add: activate_defs split: list.split trigger.split)

lemma stopped_make_eventual [simp]: "stopped (make_eventual seq d c) = stopped c"
  by (simp add: make_eventual_def createResolvedPromise_def activateEventual_def Let_def
      split: eventual_definition.split)

lemma stopped_resolve_all [simp]: "stopped (resolve_all rs c) = stopped c"
  unfolding resolve_all_def by (induction rs arbitrary: c) (simp_all split: prod.split)

text \<open>Nor do they touch the result.\<close>

lemma result_ops [simp]:
  "result (enqueue js c) = result c" "result (settle p res c) = result c"
  "result (deactivateEventual seq c) = result c" "result (tryResolveEventual seq r c) = result c"
  "result (finish_workflow r' c) = result c"
  by (simp_all add: enqueue_def settle_def deactivateEventual_def tryResolveEventual_def
      finish_workflow_def split: promise_state.split option.split)

lemma result_activate_steps [simp]:
  "result (activate_promise seq ts c) = result c" "result (activate_events seq ts c) = result c"
  "result (activate_promise_triggers seq ts c) = result c" "result (activate_signals seq ts c) = result c"
  "result (activate_after seq ts c) = result c"
  by (simp_all add: activate_defs split: list.split trigger.split)

lemma result_make_eventual [simp]: "result (make_eventual seq d c) = result c"
  by (simp add: make_eventual_def createResolvedPromise_def activateEventual_def Let_def
      split: eventual_definition.split)

lemma result_resolve_all [simp]: "result (resolve_all rs c) = result c"
  unfolding resolve_all_def by (induction rs arbitrary: c) (simp_all split: prod.split)

text \<open>The specification's log is not touched by them either.\<close>

lemma log_core_updates [simp]:
  "log (enqueue js c) = log c" "log (watch p re c) = log c" "log (settle p res c) = log c"
  "log (deactivateEventual seq c) = log c" "log (tryResolveEventual seq r' c) = log c"
  "log (finish_workflow fr c) = log c" "log (set_result fr c) = log c"
  by (simp_all add: enqueue_def watch_def settle_def deactivateEventual_def tryResolveEventual_def
      finish_workflow_def set_result_def split: promise_state.split option.split)

lemma log_fold_watch_trigger [simp]: "log (fold (watch_trigger seq) ts c) = log c"
  by (induction ts arbitrary: c)
    (simp_all add: watch_trigger_def split: trigger.split timeout.split)

lemma log_activate_steps [simp]:
  "log (activate_promise seq ts c) = log c" "log (activate_events seq ts c) = log c"
  "log (activate_promise_triggers seq ts c) = log c" "log (activate_signals seq ts c) = log c"
  "log (activate_after seq ts c) = log c"
  by (simp_all add: activate_defs split: list.split trigger.split)

lemma log_make_eventual [simp]: "log (make_eventual seq d c) = log c"
  by (simp add: make_eventual_def createResolvedPromise_def activateEventual_def Let_def
      split: eventual_definition.split)

lemma log_resolve_all [simp]: "log (resolve_all rs c) = log c"
  unfolding resolve_all_def by (induction rs arbitrary: c) (simp_all split: prod.split)

end
