(* ===== verification/WorkflowSimulation.thy ===== *)
theory WorkflowSimulation
  imports WorkflowFrame
begin

text \<open>
  One step of the executor implements one step of the specification. \<open>sim L E st s\<close> relates a
  state of the executor to one of the specification: they share their \<open>view\<close>, and the calls
  logged since the log was \<open>L\<close> are those matched against the expected calls \<open>E\<close> so far,
  followed by those emitted in the current run. \<open>matches\<close> says that the log agrees with the
  expected calls, \<open>frame\<close> what a step leaves alone.
\<close>

section \<open>Monotonicity of the specification\<close>

text \<open>The log grows, a stop is final, and no job of the executor's own appears.\<close>

definition extends :: "'w spec \<Rightarrow> 'w spec \<Rightarrow> bool" where
  "extends s s' \<longleftrightarrow> (\<exists>l. log s' = log s @ l) \<and> (stopped s \<longrightarrow> stopped s') \<and>
     (loop_jobs s = [] \<longrightarrow> loop_jobs s' = []) \<and> (result s \<noteq> None \<longrightarrow> result s' \<noteq> None)"

lemma extends_refl [simp]: "extends s s"
  by (simp add: extends_def)

lemma extends_trans [trans]: "extends s s' \<Longrightarrow> extends s' s'' \<Longrightarrow> extends s s''"
  by (auto simp: extends_def)

lemma extendsI:
  "log s' = log s \<Longrightarrow> stopped s' = stopped s \<Longrightarrow> loop_jobs s' = loop_jobs s \<Longrightarrow>
   result s' = result s \<Longrightarrow> extends s s'"
  by (simp add: extends_def)

lemma loop_jobs_log [simp]: "loop_jobs (s\<lparr>log := l\<rparr>) = loop_jobs s"
  by (simp add: loop_jobs_def)

lemma extends_execute: "extends s (fst (spec_execute wfl c s))"
  by (auto simp: spec_execute_def extends_def Let_def set_result_def split: option.split sum.split)

lemma extends_burst: "extends s (fst (spec_burst wfl b s))"
proof (induction b arbitrary: s)
  case (Exec w c k)
  obtain s' r where ex: "spec_execute wfl c (s\<lparr>user := w\<rparr>) = (s', r)" by fastforce
  have "extends s (s\<lparr>user := w\<rparr>)" by (simp add: extendsI)
  also have "extends (s\<lparr>user := w\<rparr>) s'" using extends_execute [of "s\<lparr>user := w\<rparr>" wfl c] by (simp add: ex)
  also have "extends s' (fst (spec_burst wfl (k r) s'))" by (rule Exec.IH) simp
  finally show ?case by (simp add: ex)
next
  case (Watch p f b)
  have "extends s (watch p (UserReaction f) s)" by (simp add: extendsI)
  also have "extends (watch p (UserReaction f) s) (fst (spec_burst wfl b (watch p (UserReaction f) s)))"
    by (rule Watch.IH)
  finally show ?case by simp
next
  case (SettleUser n r b)
  have "extends s (settle (UserPromise n) r s)" by (simp add: extendsI)
  also have "extends (settle (UserPromise n) r s) (fst (spec_burst wfl b (settle (UserPromise n) r s)))"
    by (rule SettleUser.IH)
  finally show ?case by simp
qed (simp_all add: extendsI)

lemma extends_handler: "extends s (fst (spec_handler wfl h arg s))"
  by (auto simp: spec_handler_def extends_burst split: handler.split option.split)

lemma extends_invoke: "extends s (spec_invoke wfl arg r s)"
  using extends_handler [of s wfl "snd r" arg]
  by (auto simp: spec_invoke_def extends_def split: prod.splits)

lemma extends_invoke_all: "extends s (fold (spec_invoke wfl arg) rs s)"
proof (induction rs arbitrary: s)
  case (Cons r rs)
  have "extends s (spec_invoke wfl arg r s)" by (rule extends_invoke)
  also have "extends (spec_invoke wfl arg r s) (fold (spec_invoke wfl arg) rs (spec_invoke wfl arg r s))"
    by (rule Cons.IH)
  finally show ?case by simp
qed simp

lemma extends_set_result: "extends s (set_result r s)"
  by (simp add: extends_def set_result_def)

lemma extends_job: "extends s (spec_job wfl j s)"
  by (simp add: spec_job_def extends_burst extends_invoke extends_set_result
      split: job.split reaction.split)

lemma extends_apply: "extends s (spec_apply wfl e s)"
proof -
  let ?s1 = "case (if isSignalReceived e then None else event_seq e) of
       Some seq \<Rightarrow> (if nextSeq s \<le> seq
          then set_result (Failed (mk_DeterminismError
            (Some (''Call for seq '' @ nat_str seq @ '' was not emitted.'')))) s else s)
     | None \<Rightarrow> s"
  have "extends s ?s1" by (simp add: extends_set_result split: option.split)
  also have "extends ?s1 (fold (spec_invoke wfl (Some e)) (event_trigger_handlers e ?s1) ?s1)"
    (is "extends _ ?s2") by (rule extends_invoke_all)
  also have "extends ?s2 (fold (spec_invoke wfl None) (handlers_afterEveryEvent ?s2) ?s2)"
    by (rule extends_invoke_all)
  finally show ?thesis
    by (simp add: spec_apply_def Let_def extends_set_result)
qed

lemma extends_drain: "spec_drain wfl s = Some s' \<Longrightarrow> extends s s'"
proof (rule spec_drain.raw_induct [where P = "\<lambda>wfl s s'. extends s s'"])
  fix drain wfl and s s' :: "'a spec"
  assume IH: "\<And>wfl s s'. drain wfl s = Some s' \<Longrightarrow> extends s s'"
    and step: "(case jobs s of [] \<Rightarrow> Some s | j # js \<Rightarrow> drain wfl (spec_job wfl j (s\<lparr>jobs := js\<rparr>))) = Some s'"
  show "extends s s'"
  proof (cases "jobs s")
    case Nil
    then show ?thesis using step by simp
  next
    case (Cons j js)
    have "extends s (s\<lparr>jobs := js\<rparr>)" using Cons by (auto simp: extends_def loop_jobs_def split: if_splits)
    also have "extends (s\<lparr>jobs := js\<rparr>) (spec_job wfl j (s\<lparr>jobs := js\<rparr>))" by (rule extends_job)
    also have "extends (spec_job wfl j (s\<lparr>jobs := js\<rparr>)) s'" using step Cons IH by simp
    finally show ?thesis .
  qed
qed

lemma extends_events: "spec_events wfl es s = Some s' \<Longrightarrow> extends s s'"
proof (induction es arbitrary: s)
  case (Cons e es)
  then obtain s1 where s1: "spec_drain wfl (spec_apply wfl e s) = Some s1" "spec_events wfl es s1 = Some s'"
    by (auto split: option.splits)
  have "extends s (spec_apply wfl e s)" by (rule extends_apply)
  also have "extends (spec_apply wfl e s) s1" by (rule extends_drain [OF s1(1)])
  also have "extends s1 s'" by (rule Cons.IH [OF s1(2)])
  finally show ?case .
qed simp

section \<open>The relation between executor and specification\<close>

definition call_of :: "workflow_event \<Rightarrow> call_history_event" where
  "call_of e = (case e of CallEvent t c \<Rightarrow> c | _ \<Rightarrow> undefined)"

definition same_call :: "call_history_event \<Rightarrow> call_history_event \<Rightarrow> bool" where
  "same_call e e' \<longleftrightarrow> deepEqual (call_event_js e) (call_event_js e')"

definition agree :: "call_history_event list \<Rightarrow> call_history_event list \<Rightarrow> bool" where
  "agree E new \<longleftrightarrow> (\<forall>i < min (length E) (length new). same_call (E ! i) (new ! i))"

definition expected_rest :: "'w executor \<Rightarrow> workflow_event list" where
  "expected_rest st = iter_rest (Some isCallEvent) (history st) (expected st)"

definition call_rel :: "call_history_event list \<Rightarrow> call_history_event list \<Rightarrow> 'w executor \<Rightarrow> 'w spec \<Rightarrow> bool" where
  "call_rel L E st s \<longleftrightarrow>
     expected st \<le> length (history st) \<and>
     (\<exists>new cs. log s = L @ new \<and> currentRun st = Some cs \<and> map wc_event cs = drop (length E) new \<and>
        map call_of (expected_rest st) = drop (length new) E)"

definition matches :: "call_history_event list \<Rightarrow> call_history_event list \<Rightarrow> 'w spec \<Rightarrow> bool" where
  "matches L E s \<longleftrightarrow> (\<exists>new. log s = L @ new \<and> agree E new)"

definition sim :: "call_history_event list \<Rightarrow> call_history_event list \<Rightarrow> 'w executor \<Rightarrow> 'w spec \<Rightarrow> bool" where
  "sim L E st s \<longleftrightarrow> view st = view s \<and> call_rel L E st s"

definition kept :: "'w executor \<Rightarrow> _" where
  "kept st = (history st, events st, started st, phase st, finished st, uncaught st)"

definition frame :: "'w executor \<Rightarrow> 'w executor \<Rightarrow> bool" where
  "frame st st' \<longleftrightarrow> kept st' = kept st \<and> loop_jobs st' = loop_jobs st \<and> (stopped st \<longrightarrow> stopped st') \<and>
     (ticks st' = ticks st \<or> stopped st')"

lemma frame_refl [simp]: "frame st st"
  by (simp add: frame_def)

lemma frame_trans [trans]: "frame st st' \<Longrightarrow> frame st' st'' \<Longrightarrow> frame st st''"
  by (auto simp: frame_def)

lemma kept_outer: "outer st' = outer st \<Longrightarrow> kept st' = kept st \<and> ticks st' = ticks st"
  by (simp add: outer_def kept_def)

lemma frame_outer:
  "outer st' = outer st \<Longrightarrow> loop_jobs st' = loop_jobs st \<Longrightarrow> stopped st' = stopped st \<Longrightarrow> frame st st'"
  using kept_outer [of st' st] by (simp add: frame_def)

lemma call_rel_outer:
  "outer st' = outer st \<Longrightarrow> log s' = log s \<Longrightarrow> call_rel L E st' s' \<longleftrightarrow> call_rel L E st s"
  by (simp add: call_rel_def outer_def expected_rest_def)

lemma sim_op:
  assumes "sim L E st s" and "view st' = view s'" and "outer st' = outer st" and "log s' = log s"
  shows "sim L E st' s'"
  using assms(1,2) call_rel_outer [OF assms(3,4), of L E] by (simp add: sim_def)

lemma sim_run: "sim L E st s \<Longrightarrow> \<exists>cs. currentRun st = Some cs"
  by (auto simp: sim_def call_rel_def)

lemma sim_view: "sim L E st s \<Longrightarrow> view st = view s"
  by (simp add: sim_def)

lemma view_field:
  assumes "view st = view s"
  shows "nextSeq st = nextSeq s" "activeEventuals st = activeEventuals s"
    "handlers_events st = handlers_events s" "handlers_signals st = handlers_signals s"
    "handlers_afterEveryEvent st = handlers_afterEveryEvent s" "stopped st = stopped s"
    "result st = result s" "promises st = promises s" "user st = user s"
    "filter user_job (jobs st) = filter user_job (jobs s)"
  using assms by (metis view_eqs)+

lemma agree_take: "agree E (new @ new') \<Longrightarrow> agree E new"
  by (auto simp: agree_def nth_append)

lemma matches_extends: "extends s s' \<Longrightarrow> matches L E s' \<Longrightarrow> \<exists>new. log s = L @ new \<Longrightarrow> matches L E s"
  by (auto simp: extends_def matches_def intro: agree_take)

lemma sim_matches: "sim L E st s \<Longrightarrow> extends s s' \<Longrightarrow> matches L E s' \<Longrightarrow> matches L E s"
  by (rule matches_extends) (auto simp: sim_def call_rel_def)


section \<open>Calls\<close>

lemma expected_hasNext_rest:
  assumes "expected st \<le> length (history st)"
  obtains c where "expected_hasNext st = (expected_rest st \<noteq> [], st\<lparr>expected := c\<rparr>)"
    "c \<le> length (history st)" "expected_rest (st\<lparr>expected := c\<rparr>) = expected_rest st"
proof -
  obtain b c where hn: "iter_hasNext (Some isCallEvent) (history st) (expected st) = (b, c)" by fastforce
  show thesis
    using it.hasnext_iff [OF assms, of "Some isCallEvent"] it.hasnext_rest [OF assms, of "Some isCallEvent"]
      it.hasnext_inv [OF assms, of "Some isCallEvent"]
    by (intro that [of c]) (simp_all add: expected_hasNext_def hn expected_rest_def)
qed

lemma expected_next_rest:
  assumes "expected st \<le> length (history st)" and "expected_rest st = e # es"
  obtains c where "expected_next st = (Some e, st\<lparr>expected := c\<rparr>)"
    "c \<le> length (history st)" "expected_rest (st\<lparr>expected := c\<rparr>) = es"
  using it.nxt_Cons [of "expected st" "history st" "Some isCallEvent" e es] assms
  by (auto simp: expected_next_def expected_rest_def)

lemma expected_rest_call: "e \<in> set (expected_rest st) \<Longrightarrow> \<exists>t c. e = CallEvent t c"
  by (auto simp: expected_rest_def iter_rest_def isCallEvent_iff)

lemma view_executor_updates [simp]:
  "view (st\<lparr>history := hs\<rparr>) = view st" "view (st\<lparr>expected := i\<rparr>) = view st"
  "view (st\<lparr>events := i\<rparr>) = view st" "view (st\<lparr>currentRun := cr\<rparr>) = view st"
  "view (st\<lparr>started := b\<rparr>) = view st" "view (st\<lparr>ticks := ts\<rparr>) = view st"
  "view (st\<lparr>phase := ph\<rparr>) = view st" "view (st\<lparr>finished := fin\<rparr>) = view st"
  "view (st\<lparr>uncaught := un\<rparr>) = view st"
  by (simp_all add: view_def core.defs)

lemma view_log [simp]: "view (s\<lparr>log := l\<rparr>) = view s"
  by (simp add: view_def core.defs)

lemma frame_cursor: "frame st (st\<lparr>expected := c, currentRun := cr\<rparr>)"
  by (simp add: frame_def kept_def)

lemma record_call_sim:
  assumes sim: "sim L E st s" and m: "matches L E (s\<lparr>log := log s @ [ev]\<rparr>)"
  shows "\<exists>st'. record_call c seq ev st = (st', None) \<and> sim L E st' (s\<lparr>log := log s @ [ev]\<rparr>) \<and>
    frame st st' \<and> core.truncate st' = core.truncate st"
proof -
  from sim obtain new cs where new: "log s = L @ new" "currentRun st = Some cs"
      "map wc_event cs = drop (length E) new" "map call_of (expected_rest st) = drop (length new) E"
      and le: "expected st \<le> length (history st)" and v: "view st = view s"
    by (auto simp: sim_def call_rel_def)
  from m new(1) have agr: "agree E (new @ [ev])" by (auto simp: matches_def)
  from le obtain c1 where hn: "expected_hasNext st = (expected_rest st \<noteq> [], st\<lparr>expected := c1\<rparr>)"
      "c1 \<le> length (history st)" "expected_rest (st\<lparr>expected := c1\<rparr>) = expected_rest st"
    by (rule expected_hasNext_rest)
  show ?thesis
  proof (cases "expected_rest st")
    case Nil
    then have len: "length E \<le> length new" using new(4) by simp
    let ?wc = "\<lparr>wc_seq = seq, wc_call = c, wc_event = ev\<rparr>"
    have "record_call c seq ev st = (st\<lparr>expected := c1, currentRun := Some (cs @ [?wc])\<rparr>, None)"
      by (simp add: record_call_def hn Nil push_call_def new(2))
    moreover have "sim L E (st\<lparr>expected := c1, currentRun := Some (cs @ [?wc])\<rparr>) (s\<lparr>log := log s @ [ev]\<rparr>)"
      using new len hn(2,3) Nil v by (simp add: sim_def call_rel_def expected_rest_def)
    ultimately show ?thesis using frame_cursor by (auto simp: core.defs)
  next
    case (Cons e es)
    let ?st1 = "st\<lparr>expected := c1\<rparr>"
    from hn have le1: "expected ?st1 \<le> length (history ?st1)" by simp
    from le1 obtain c2 where hn2: "expected_hasNext ?st1 = (expected_rest ?st1 \<noteq> [], ?st1\<lparr>expected := c2\<rparr>)"
        "c2 \<le> length (history ?st1)" "expected_rest (?st1\<lparr>expected := c2\<rparr>) = expected_rest ?st1"
      by (rule expected_hasNext_rest)
    let ?st2 = "st\<lparr>expected := c2\<rparr>"
    from hn2 hn have le2: "expected ?st2 \<le> length (history ?st2)" "expected_rest ?st2 = e # es"
      by (simp_all add: Cons)
    from le2 obtain c3 where nx: "expected_next ?st2 = (Some e, ?st2\<lparr>expected := c3\<rparr>)"
        "c3 \<le> length (history ?st2)" "expected_rest (?st2\<lparr>expected := c3\<rparr>) = es"
      by (rule expected_next_rest)
    obtain t ce where e: "e = CallEvent t ce" using expected_rest_call [of e st] Cons by auto
    have dropE: "drop (length new) E = ce # map call_of es" using new(4) by (simp add: Cons e call_of_def)
    then have n: "length new < length E" by (metis drop_all not_less list.distinct(1))
    with dropE have "E ! length new = ce" by (metis nth_via_drop)
    with agr n have "same_call ce ev"
      by (auto simp: agree_def dest: spec [of _ "length new"])
    then have rec: "record_call c seq ev st = (st\<lparr>expected := c3\<rparr>, None)"
      by (simp add: record_call_def hn Cons assertEventIsExpected_def hn2 [simplified] nx [simplified] e
          same_call_def)
    have "drop (Suc (length new)) E = map call_of es"
      using dropE by (metis drop_Suc list.sel(3) drop_drop tl_drop)
    then have "sim L E (st\<lparr>expected := c3\<rparr>) (s\<lparr>log := log s @ [ev]\<rparr>)"
      using new n nx(2,3) v by (simp add: sim_def call_rel_def)
    moreover have "frame st (st\<lparr>expected := c3\<rparr>)" by (simp add: frame_def kept_def)
    ultimately show ?thesis using rec by (auto simp: core.defs)
  qed
qed


lemma resolveWorkflow_sim:
  assumes sim: "sim L E st s"
  shows "\<exists>st'. resolveWorkflow r st = (st', None) \<and> sim L E st' (set_result r s) \<and> frame st st'"
proof -
  from sim obtain cs where run: "currentRun st = Some cs" by (auto simp: sim_def call_rel_def)
  let ?st = "set_result r st"
  have 1: "sim L E ?st (set_result r s)"
    by (rule sim_op [OF sim]) (simp_all add: sim_view [OF sim])
  have 2: "frame st ?st" "is_system_failure r \<Longrightarrow> stopped ?st"
    using kept_outer [of ?st st] by (simp_all add: frame_def) (simp_all add: set_result_def)
  show ?thesis
  proof (cases "is_system_failure r")
    case False
    then show ?thesis using 1 2 by (simp add: resolveWorkflow_def run Let_def)
  next
    case True
    let ?st' = "add_tick (CompleteRun (Some r)) ?st"
    have "sim L E ?st' (set_result r s)"
      using 1 by (simp add: sim_def add_tick_def call_rel_def expected_rest_def)
    moreover have "frame st ?st'"
      using 2 True by (simp add: frame_def add_tick_def kept_def)
    ultimately show ?thesis using True by (simp add: resolveWorkflow_def run Let_def)
  qed
qed

lemma fail_and_throw_sim:
  assumes "sim L E st s"
  shows "\<exists>st'. fail_and_throw err st = (st', Thrown err) \<and> sim L E st' (set_result (Failed err) s) \<and> frame st st'"
  using resolveWorkflow_sim [OF assms, of "Failed err"] by (auto simp: fail_and_throw_def)

lemma execute_sim:
  assumes sim: "sim L E st s" and m: "matches L E (fst (spec_execute wfl call s))"
  shows "\<exists>st'. execute wfl call st = (st', snd (spec_execute wfl call s)) \<and>
    sim L E st' (fst (spec_execute wfl call s)) \<and> frame st st'"
proof (cases call)
  case None
  then show ?thesis using sim by (simp add: execute_def spec_execute_def)
next
  case (Some c)
  note fields = view_field [OF sim_view [OF sim]]
  show ?thesis
  proof (cases "initializeEventual (wf_predicate wfl (user s)) c")
    case (Inl err)
    then show ?thesis
      using fail_and_throw_sim [OF sim, of err] Some by (simp add: execute_def spec_execute_def fields)
  next
    case (Inr rd)
    obtain rs d where rd: "rd = (rs, d)" by fastforce
    let ?st = "(resolve_all rs st)\<lparr>nextSeq := Suc (nextSeq (resolve_all rs st))\<rparr>"
    let ?s = "(resolve_all rs s)\<lparr>nextSeq := Suc (nextSeq (resolve_all rs s))\<rparr>"
    have v: "view (resolve_all rs st) = view (resolve_all rs s)" by (simp add: sim_view [OF sim])
    then have seq: "nextSeq (resolve_all rs st) = nextSeq (resolve_all rs s)" by (rule view_field)
    have sim1: "sim L E ?st ?s"
      by (rule sim_op [OF sim]) (simp_all add: sim_view [OF sim] seq)
    have fr1: "frame st ?st" by (rule frame_outer) simp_all
    show ?thesis
    proof (cases "createCallEvent d")
      case None
      have "sim L E (make_eventual (nextSeq (resolve_all rs s)) d ?st) (make_eventual (nextSeq (resolve_all rs s)) d ?s)"
        by (rule sim_op [OF sim1]) (simp_all only: view_make_eventual sim_view [OF sim1] outer_make_eventual log_make_eventual)
      moreover have "frame ?st (make_eventual (nextSeq (resolve_all rs s)) d ?st)"
        by (rule frame_outer) simp_all
      ultimately show ?thesis
        using Some Inr rd None seq fr1
        by (auto simp: execute_def spec_execute_def fields Let_def elim: frame_trans)
    next
      case (Some create)
      let ?seq = "nextSeq (resolve_all rs s)"
      let ?s2 = "?s\<lparr>log := log ?s @ [create ?seq]\<rparr>"
      have "matches L E ?s2"
        using m \<open>call = Some c\<close> Inr rd Some by (simp add: spec_execute_def Let_def matches_def)
      from record_call_sim [OF sim1 this] obtain st2 where
        st2: "record_call c ?seq (create ?seq) ?st = (st2, None)" "sim L E st2 ?s2" "frame ?st st2"
        by blast
      have "sim L E (make_eventual ?seq d st2) (make_eventual ?seq d ?s2)"
        by (rule sim_op [OF st2(2)]) (simp_all only: view_make_eventual sim_view [OF st2(2)] outer_make_eventual log_make_eventual)
      moreover have "frame st2 (make_eventual ?seq d st2)" by (rule frame_outer) simp_all
      ultimately show ?thesis
        using \<open>call = Some c\<close> Inr rd Some seq st2 fr1
        by (simp add: execute_def spec_execute_def fields Let_def) (blast intro: frame_trans)
    qed
  qed
qed

lemma burst_sim:
  "sim L E st s \<Longrightarrow> matches L E (fst (spec_burst wfl b s)) \<Longrightarrow>
   \<exists>st'. run_burst wfl b st = (st', snd (spec_burst wfl b s)) \<and>
     sim L E st' (fst (spec_burst wfl b s)) \<and> frame st st'"
proof (induction b arbitrary: st s)
  case (Quiet w)
  have "sim L E (st\<lparr>user := w\<rparr>) (s\<lparr>user := w\<rparr>)"
    by (rule sim_op [OF Quiet.prems(1)]) (simp_all add: sim_view [OF Quiet.prems(1)])
  moreover have "frame st (st\<lparr>user := w\<rparr>)" by (rule frame_outer) simp_all
  ultimately show ?case by simp
next
  case (Exec w c k)
  let ?st = "st\<lparr>user := w\<rparr>" and ?s = "s\<lparr>user := w\<rparr>"
  have sim1: "sim L E ?st ?s"
    by (rule sim_op [OF Exec.prems(1)]) (simp_all add: sim_view [OF Exec.prems(1)])
  have fr1: "frame st ?st" by (rule frame_outer) simp_all
  obtain s2 r where ex: "spec_execute wfl c ?s = (s2, r)" by fastforce
  have m: "matches L E (fst (spec_burst wfl (k r) s2))" using Exec.prems(2) by (simp add: ex)
  have "extends ?s (fst (spec_burst wfl (k r) s2))" 
    using extends_trans [OF extends_execute [of ?s wfl c] extends_burst [of _ wfl "k r"]] by (simp add: ex)
  have "matches L E s2"
  proof (rule matches_extends [OF extends_burst m])
    have "extends ?s s2" using extends_execute [of ?s wfl c] by (simp add: ex)
    then show "\<exists>new. log s2 = L @ new"
      using Exec.prems(1) by (auto simp: extends_def sim_def call_rel_def)
  qed
  with execute_sim [OF sim1, of wfl c] obtain st2 where
    st2: "execute wfl c ?st = (st2, r)" "sim L E st2 s2" "frame ?st st2" by (auto simp: ex)
  from Exec.IH [OF _ st2(2) m] obtain st3 where
    "run_burst wfl (k r) st2 = (st3, snd (spec_burst wfl (k r) s2))"
    "sim L E st3 (fst (spec_burst wfl (k r) s2))" "frame st2 st3" by auto
  then show ?case using st2 fr1 by (auto simp: ex intro: frame_trans)
next
  case (Watch p f b)
  have sim1: "sim L E (watch p (UserReaction f) st) (watch p (UserReaction f) s)"
    by (rule sim_op [OF Watch.prems(1)]) (simp_all add: sim_view [OF Watch.prems(1)])
  have fr1: "frame st (watch p (UserReaction f) st)" by (rule frame_outer) simp_all
  from Watch.IH [OF sim1] Watch.prems(2) fr1 show ?case by (auto intro: frame_trans)
next
  case (SettleUser n r b)
  have sim1: "sim L E (settle (UserPromise n) r st) (settle (UserPromise n) r s)"
    by (rule sim_op [OF SettleUser.prems(1)]) (simp_all add: sim_view [OF SettleUser.prems(1)])
  have fr1: "frame st (settle (UserPromise n) r st)" by (rule frame_outer) simp_all
  from SettleUser.IH [OF sim1] SettleUser.prems(2) fr1 show ?case by (auto intro: frame_trans)
next
  case (Finish r w)
  have "sim L E (finish_workflow r (st\<lparr>user := w\<rparr>)) (finish_workflow r (s\<lparr>user := w\<rparr>))"
    by (rule sim_op [OF Finish.prems(1)]) (simp_all add: sim_view [OF Finish.prems(1)])
  moreover have "frame st (finish_workflow r (st\<lparr>user := w\<rparr>))" by (rule frame_outer) simp_all
  ultimately show ?case by simp
next
  case (Throw err w)
  have "sim L E (st\<lparr>user := w\<rparr>) (s\<lparr>user := w\<rparr>)"
    by (rule sim_op [OF Throw.prems(1)]) (simp_all add: sim_view [OF Throw.prems(1)])
  moreover have "frame st (st\<lparr>user := w\<rparr>)" by (rule frame_outer) simp_all
  ultimately show ?case by simp
qed


section \<open>Handlers, events and jobs\<close>

lemma handler_sim:
  assumes sim: "sim L E st s" and m: "matches L E (fst (spec_handler wfl h arg s))"
  shows "\<exists>st'. run_handler wfl h arg st = (st', snd (spec_handler wfl h arg s)) \<and>
    sim L E st' (fst (spec_handler wfl h arg s)) \<and> frame st st'"
proof -
  note fields = view_field [OF sim_view [OF sim]]
  show ?thesis
  proof (cases "\<exists>f e. h = SignalUser f \<and> arg = Some e")
    case True
    then obtain f e where h: "h = SignalUser f" "arg = Some e" by blast
    with m have "matches L E (fst (spec_burst wfl (wf_signal wfl (user s) f (event_payload e)) s))"
      by (simp add: spec_handler_def)
    from burst_sim [OF sim this] obtain st' where
      "run_burst wfl (wf_signal wfl (user s) f (event_payload e)) st =
         (st', snd (spec_burst wfl (wf_signal wfl (user s) f (event_payload e)) s))"
      "sim L E st' (fst (spec_burst wfl (wf_signal wfl (user s) f (event_payload e)) s))" "frame st st'"
      by blast
    then show ?thesis by (simp add: h run_handler_def spec_handler_def fields)
  next
    case False
    then show ?thesis
      using sim by (cases h; cases arg) (simp_all add: run_handler_def spec_handler_def fields)
  qed
qed

lemma invoke_sim:
  assumes sim: "sim L E st s" and m: "matches L E (spec_invoke wfl arg r s)"
  shows "\<exists>st'. invokeEventualHandler wfl (fst r) (snd r) arg st = (st', \<not> stopped s) \<and>
    sim L E st' (spec_invoke wfl arg r s) \<and> frame st st'"
proof -
  note fields = view_field [OF sim_view [OF sim]]
  show ?thesis
  proof (cases "stopped s \<or> \<not> isEventualActive s (fst r)")
    case True
    then show ?thesis
      using sim by (auto simp: invokeEventualHandler_def spec_invoke_def fields isEventualActive_def)
  next
    case False
    obtain s1 res where h: "spec_handler wfl (snd r) arg s = (s1, res)" by fastforce
    have "matches L E (fst (spec_handler wfl (snd r) arg s))"
      using m False by (simp add: spec_invoke_def h matches_def)
    from handler_sim [OF sim this] obtain st1 where
      st1: "run_handler wfl (snd r) arg st = (st1, res)" "sim L E st1 s1" "frame st st1"
      by (auto simp: h)
    have "sim L E (tryResolveEventual (fst r) res st1) (tryResolveEventual (fst r) res s1)"
      by (rule sim_op [OF st1(2)]) (simp_all add: sim_view [OF st1(2)])
    moreover have "frame st1 (tryResolveEventual (fst r) res st1)" by (rule frame_outer) simp_all
    ultimately show ?thesis
      using False st1 by (simp add: invokeEventualHandler_def spec_invoke_def fields h isEventualActive_def)
        (blast intro: frame_trans)
  qed
qed

lemma spec_invoke_stopped: "stopped s \<Longrightarrow> fold (spec_invoke wfl arg) rs s = s"
  by (induction rs) (simp_all add: spec_invoke_def)

lemma invoke_all_sim:
  "sim L E st s \<Longrightarrow> matches L E (fold (spec_invoke wfl arg) rs s) \<Longrightarrow>
   \<exists>st' b. invoke_handlers wfl arg rs st = (st', b) \<and> (\<not> b \<longrightarrow> stopped s \<or> stopped st') \<and>
     sim L E st' (fold (spec_invoke wfl arg) rs s) \<and> frame st st'"
proof (induction rs arbitrary: st s)
  case Nil
  then show ?case by auto
next
  case (Cons r rs)
  let ?s1 = "spec_invoke wfl arg r s"
  have m1: "matches L E (fold (spec_invoke wfl arg) rs ?s1)" using Cons.prems(2) by simp
  have "matches L E ?s1"
    by (rule matches_extends [OF extends_invoke_all m1])
      (use Cons.prems(1) extends_invoke [of s wfl arg r] in \<open>auto simp: extends_def sim_def call_rel_def\<close>)
  from invoke_sim [OF Cons.prems(1) this] obtain st1 where
    st1: "invokeEventualHandler wfl (fst r) (snd r) arg st = (st1, \<not> stopped s)" "sim L E st1 ?s1" "frame st st1"
    by blast
  show ?case
  proof (cases "stopped s")
    case True
    then have "?s1 = s" by (simp add: spec_invoke_def)
    moreover have "stopped st1" using view_field [OF sim_view [OF st1(2)]] True \<open>?s1 = s\<close> by simp
    ultimately show ?thesis
      using True st1 by (intro exI [of _ st1] exI [of _ False]) (simp add: spec_invoke_stopped)
  next
    case False
    from Cons.IH [OF st1(2) m1] obtain st' b where
      "invoke_handlers wfl arg rs st1 = (st', b)" "\<not> b \<longrightarrow> stopped ?s1 \<or> stopped st'"
      "sim L E st' (fold (spec_invoke wfl arg) rs ?s1)" "frame st1 st'" by blast
    moreover have "stopped ?s1 \<Longrightarrow> stopped st'"
      using view_field [OF sim_view [OF st1(2)]] \<open>frame st1 st'\<close> by (simp add: frame_def)
    ultimately show ?thesis using False st1 by (auto intro: frame_trans)
  qed
qed

lemma check_event_seq_sim:
  assumes sim: "sim L E st s"
  shows "\<exists>st'. check_event_seq e st = (st', None) \<and> frame st st' \<and>
    sim L E st' (case (if isSignalReceived e then None else event_seq e) of
       Some seq \<Rightarrow> (if nextSeq s \<le> seq
          then set_result (Failed (mk_DeterminismError
            (Some (''Call for seq '' @ nat_str seq @ '' was not emitted.'')))) s else s)
     | None \<Rightarrow> s)"
  using sim resolveWorkflow_sim [OF sim] view_field [OF sim_view [OF sim]]
  by (auto simp: check_event_seq_def split: option.split)

lemma event_trigger_handlers_view:
  assumes "view st = view s"
  shows "event_trigger_handlers e st = event_trigger_handlers e s"
  unfolding event_trigger_handlers_def view_field(3,4) [OF assms] ..

lemma apply_sim:
  assumes sim: "sim L E st s" and m: "matches L E (spec_apply wfl e s)"
  shows "\<exists>st'. tryApplyEvent wfl e st = (st', None) \<and> sim L E st' (spec_apply wfl e s) \<and> frame st st'"
proof (cases "isWorkflowTimedOut e \<or> isWorkflowRunStarted e")
  case True
  then show ?thesis
    using sim resolveWorkflow_sim [OF sim] by (auto simp: tryApplyEvent_def spec_apply_def)
next
  case False
  let ?s1 = "case (if isSignalReceived e then None else event_seq e) of
       Some seq \<Rightarrow> (if nextSeq s \<le> seq
          then set_result (Failed (mk_DeterminismError
            (Some (''Call for seq '' @ nat_str seq @ '' was not emitted.'')))) s else s)
     | None \<Rightarrow> s"
  let ?s2 = "fold (spec_invoke wfl (Some e)) (event_trigger_handlers e ?s1) ?s1"
  let ?s3 = "fold (spec_invoke wfl None) (handlers_afterEveryEvent ?s2) ?s2"
  have s3: "spec_apply wfl e s = ?s3" using False by (simp add: spec_apply_def Let_def)
  from check_event_seq_sim [OF sim] obtain st1 where
    st1: "check_event_seq e st = (st1, None)" "frame st st1" "sim L E st1 ?s1" by blast
  have "matches L E ?s2"
  proof (rule matches_extends [OF extends_invoke_all])
    show "matches L E ?s3" using m s3 by simp
    have "extends ?s1 ?s2" by (rule extends_invoke_all)
    then show "\<exists>new. log ?s2 = L @ new" using st1(3) by (auto simp: extends_def sim_def call_rel_def)
  qed
  from invoke_all_sim [OF st1(3) this] obtain st2 b where
    st2: "invoke_handlers wfl (Some e) (event_trigger_handlers e ?s1) st1 = (st2, b)"
      "\<not> b \<longrightarrow> stopped ?s1 \<or> stopped st2" "sim L E st2 ?s2" "frame st1 st2" by blast
  have "\<not> b \<Longrightarrow> stopped st2"
    using st2(2,4) view_field [OF sim_view [OF st1(3)]] by (auto simp: frame_def)
  show ?thesis
  proof (cases b)
    case True
    from invoke_all_sim [OF st2(3), of wfl None "handlers_afterEveryEvent ?s2"] m s3 obtain st3 b' where
      "invoke_handlers wfl None (handlers_afterEveryEvent ?s2) st2 = (st3, b')"
      "sim L E st3 ?s3" "frame st2 st3" by auto
    then show ?thesis
      using False True st1 st2 s3 view_field [OF sim_view [OF st2(3)]] event_trigger_handlers_view [OF sim_view [OF st1(3)]]
      by (simp add: tryApplyEvent_def) (blast intro: frame_trans)
  next
    case False
    then have "stopped ?s2" using \<open>\<not> b \<Longrightarrow> stopped st2\<close> view_field [OF sim_view [OF st2(3)]] by simp
    then have "?s3 = ?s2" by (rule spec_invoke_stopped)
    then show ?thesis
      using False \<open>\<not> (isWorkflowTimedOut e \<or> isWorkflowRunStarted e)\<close> st1 st2 s3
        event_trigger_handlers_view [OF sim_view [OF st1(3)]]
      by (simp add: tryApplyEvent_def) (blast intro: frame_trans)
  qed
qed

lemma job_sim:
  assumes sim: "sim L E st s" and m: "matches L E (spec_job wfl j s)" and j: "user_job j"
  shows "\<exists>st'. run_job wfl j st = st' \<and> sim L E st' (spec_job wfl j s) \<and> frame st st'"
proof (cases j)
  case (Reaction r res)
  show ?thesis
  proof (cases r)
    case (UserReaction f)
    with Reaction m have "matches L E (fst (spec_burst wfl (wf_resume wfl (user s) f res) s))"
      by (simp add: spec_job_def)
    from burst_sim [OF sim this] show ?thesis
      using view_field [OF sim_view [OF sim]]
      by (auto simp: Reaction UserReaction run_job_def spec_job_def)
  next
    case (TriggerReaction seq h)
    with Reaction m have "matches L E (spec_invoke wfl None (seq, h) s)" by (simp add: spec_job_def)
    from invoke_sim [OF sim this] show ?thesis
      by (auto simp: Reaction TriggerReaction run_job_def spec_job_def)
  qed
next
  case (WorkflowReturned r)
  then show ?thesis
    using resolveWorkflow_sim [OF sim, of r] by (auto simp: run_job_def spec_job_def crash_def)
qed (use j in simp_all)

end
