(* ===== verification/WorkflowRefinement.thy ===== *)
theory WorkflowRefinement
  imports WorkflowSimulation
begin

text \<open>
  A run of the event loop implements the specification: \<open>start_refinement\<close> for a new executor
  on a history and new events, \<open>continue_refinement\<close> for one that rests after a run. The calls
  of the run's result are the part of the log the history does not hold; when the history
  holds them all, the run is a replay and emits nothing.

  \<open>loop_at\<close> is the invariant of the loop of \<open>applyEvents\<close>: at each point of a run exactly one
  of its continuations is pending, as a job or as a tick.
\<close>

section \<open>Runs of the event loop\<close>

inductive loop_steps :: "'w workflow \<Rightarrow> 'w executor \<Rightarrow> 'w executor \<Rightarrow> bool" for wfl where
  refl [intro, simp]: "loop_steps wfl st st"
| step: "loop_step wfl st = Some st' \<Longrightarrow> loop_steps wfl st' st'' \<Longrightarrow> loop_steps wfl st st''"

lemma loop_steps_one [intro]: "loop_step wfl st = Some st' \<Longrightarrow> loop_steps wfl st st'"
  by (rule loop_steps.step) auto

lemma loop_steps_trans [trans]:
  "loop_steps wfl st st' \<Longrightarrow> loop_steps wfl st' st'' \<Longrightarrow> loop_steps wfl st st''"
  by (induction rule: loop_steps.induct) (auto intro: loop_steps.step)

lemma event_loop_steps:
  "loop_steps wfl st st' \<Longrightarrow> event_loop wfl st = event_loop wfl st'"
proof (induction rule: loop_steps.induct)
  case (step st st' st'')
  then show ?case by (subst event_loop.simps) simp
qed simp

lemma event_loop_idle: "loop_step wfl st = None \<Longrightarrow> event_loop wfl st = Some st"
  by (subst event_loop.simps) simp

text \<open>The completion events the executor has not applied yet.\<close>

definition events_rest :: "'w executor \<Rightarrow> workflow_event list" where
  "events_rest st = iter_rest (Some isCompletionEvent) (history st) (events st)"

text \<open>
  Where the loop of \<open>applyEvents\<close> is, between two steps of the event loop: one of its
  continuations is a job, or it has put the application of an event or the end of the run into
  the tick queue. \<open>es\<close> are the completion events to come.
\<close>

definition loop_at :: "'w executor \<Rightarrow> workflow_event list \<Rightarrow> bool" where
  "loop_at st es \<longleftrightarrow>
     uncaught st = None \<and> phase st = Microtasks \<and> events st \<le> length (history st) \<and>
     (loop_jobs st = [ContinueApply] \<and> ticks st = [] \<and> events_rest st = es
      \<or> loop_jobs st = [AfterApply] \<and> ticks st = [] \<and> events_rest st = [] \<and> es = []
      \<or> loop_jobs st = [] \<and> (\<exists>e. ticks st = [ApplyEvent e] \<and> es = e # events_rest st)
      \<or> loop_jobs st = [] \<and> ticks st = [CompleteRun None] \<and> events_rest st = [] \<and> es = [])"

lemma loop_at_frame:
  "loop_at st es \<Longrightarrow> frame st st' \<Longrightarrow> \<not> stopped st' \<Longrightarrow> loop_at st' es"
  by (simp add: loop_at_def frame_def kept_def events_rest_def)

lemma loop_at_pop:
  "user_job j \<Longrightarrow> jobs st = j # js \<Longrightarrow> loop_at (st\<lparr>jobs := js\<rparr>) es \<longleftrightarrow> loop_at st es"
  by (simp add: loop_at_def events_rest_def loop_jobs_def)

lemma enqueue_fields [simp]:
  "history (enqueue js st) = history st" "expected (enqueue js st) = expected st"
  "events (enqueue js st) = events st" "currentRun (enqueue js st) = currentRun st"
  "started (enqueue js st) = started st" "ticks (enqueue js st) = ticks st"
  "phase (enqueue js st) = phase st" "finished (enqueue js st) = finished st"
  "uncaught (enqueue js st) = uncaught st" "jobs (enqueue js st) = jobs st @ js"
  by (simp_all add: enqueue_def)

lemma enqueue_Nil [simp]: "enqueue [] c = c"
  by (simp add: enqueue_def)

lemma applyEvents_sim:
  assumes sim: "sim L E st s" and run: "\<not> stopped st"
    and at: "uncaught st = None" "phase st = Microtasks" "events st \<le> length (history st)"
      "loop_jobs st = []" "ticks st = []"
  shows "sim L E (applyEvents st) s \<and> loop_at (applyEvents st) (events_rest st) \<and>
    \<not> stopped (applyEvents st) \<and> history (applyEvents st) = history st \<and> started (applyEvents st) = started st
    \<and> finished (applyEvents st) = finished st \<and> (loop_jobs (applyEvents st) = [] \<or> loop_jobs (applyEvents st) = [AfterApply])"
proof -
  obtain b c where hn: "iter_hasNext (Some isCompletionEvent) (history st) (events st) = (b, c)" by fastforce
  note hn_facts = it.hasnext_iff [OF at(3), of "Some isCompletionEvent"]
    it.hasnext_rest [OF at(3), of "Some isCompletionEvent"] it.hasnext_inv [OF at(3), of "Some isCompletionEvent"]
  have c: "c \<le> length (history st)" "b \<longleftrightarrow> events_rest st \<noteq> []"
    "iter_rest (Some isCompletionEvent) (history st) c = events_rest st"
    using hn_facts by (simp_all add: hn events_rest_def)
  show ?thesis
  proof (cases "events_rest st")
    case Nil
    have "applyEvents st = enqueue [AfterApply] (st\<lparr>events := c\<rparr>)"
      using Nil c(2) by (simp add: applyEvents_def hn)
    then show ?thesis
      using sim run at c Nil
      by (simp add: sim_def call_rel_def expected_rest_def loop_at_def events_rest_def loop_jobs_def)
  next
    case (Cons e es)
    from it.nxt_Cons [OF c(1), of "Some isCompletionEvent" e es] obtain c' where
      c': "iter_next (Some isCompletionEvent) (history st) c = (Some e, c')"
        "iter_rest (Some isCompletionEvent) (history st) c' = es" "c' \<le> length (history st)"
      using c(3) Cons by auto
    have "applyEvents st = add_tick (ApplyEvent e) (st\<lparr>events := c'\<rparr>)"
      using Cons c(2) run c' by (simp add: applyEvents_def hn)
    then show ?thesis
      using sim run at c' Cons
      by (simp add: sim_def call_rel_def expected_rest_def loop_at_def events_rest_def add_tick_def loop_jobs_def)
  qed
qed

text \<open>What the steps of a run leave alone until it completes.\<close>

definition static :: "'w executor \<Rightarrow> workflow_event list \<times> bool \<times> workflow_result option" where
  "static st = (history st, started st, finished st)"

lemma loop_step_job:
  "uncaught st = None \<Longrightarrow> phase st = Microtasks \<Longrightarrow> jobs st = j # js \<Longrightarrow>
   loop_step wfl st = Some (run_job wfl j (st\<lparr>jobs := js\<rparr>))"
  by (simp add: loop_step_def)

lemma sim_pop_loop_job:
  assumes sim: "sim L E st s" and j: "\<not> user_job j" "jobs st = j # js"
  shows "sim L E (st\<lparr>jobs := js\<rparr>) s"
proof -
  have "view (st\<lparr>jobs := js\<rparr>) = view (st\<lparr>jobs := jobs st\<rparr>)" using j by (simp only: view_updates) simp
  then show ?thesis using sim by (simp add: sim_def call_rel_def expected_rest_def)
qed

text \<open>The executor's own jobs at the front of the queue run without a trace.\<close>

lemma after_apply_step:
  assumes sim: "sim L E st s" and at: "loop_at st es" and run: "\<not> stopped st"
    and hd: "jobs st = AfterApply # js"
  shows "\<exists>st'. loop_step wfl st = Some st' \<and> sim L E st' s \<and> loop_at st' es \<and> \<not> stopped st' \<and>
    static st' = static st \<and> loop_jobs st' = []"
proof -
  let ?st' = "add_tick (CompleteRun None) (st\<lparr>jobs := js\<rparr>)"
  obtain cs where cr: "currentRun st = Some cs" using sim_run [OF sim] by blast
  have at': "uncaught st = None" "phase st = Microtasks" "loop_jobs st = [AfterApply]" "ticks st = []"
      "events_rest st = []" "es = []" "events st \<le> length (history st)"
    using at hd by (auto simp: loop_at_def loop_jobs_def)
  have "loop_step wfl st = Some ?st'"
    using at' hd cr by (simp add: loop_step_job run_job_def)
  moreover have "sim L E ?st' s"
    using sim_pop_loop_job [OF sim _ hd] by (simp add: sim_def call_rel_def expected_rest_def add_tick_def)
  moreover have "loop_at ?st' es" "\<not> stopped ?st'" "static ?st' = static st" "loop_jobs ?st' = []"
    using at' hd run by (simp_all add: loop_at_def add_tick_def events_rest_def static_def loop_jobs_def)
  ultimately show ?thesis by blast
qed

lemma loop_front:
  assumes sim: "sim L E st s" and at: "loop_at st es" and run: "\<not> stopped st"
  shows "\<exists>st'. loop_steps wfl st st' \<and> sim L E st' s \<and> loop_at st' es \<and> \<not> stopped st' \<and>
    static st' = static st \<and> (jobs st' = [] \<or> (\<exists>j js. jobs st' = j # js \<and> user_job j))"
    (is "\<exists>st'. ?goal st st'")
proof -
  have after: "\<exists>st'. ?goal st st'"
    if "sim L E st s" "loop_at st es" "\<not> stopped st" "jobs st = AfterApply # js" for st js
  proof -
    from after_apply_step [OF that] obtain st' where
      st': "loop_step wfl st = Some st'" "sim L E st' s" "loop_at st' es" "\<not> stopped st'"
        "static st' = static st" "loop_jobs st' = []" by blast
    then show ?thesis
      by (cases "jobs st'") (auto simp: loop_jobs_def split: if_splits)
  qed
  show ?thesis
  proof (cases "jobs st")
    case Nil
    then show ?thesis using assms by blast
  next
    case (Cons j js)
    show ?thesis
    proof (cases j)
      case ContinueApply
      let ?st = "st\<lparr>jobs := js\<rparr>"
      have at': "uncaught ?st = None" "phase ?st = Microtasks" "events ?st \<le> length (history ?st)"
          "loop_jobs ?st = []" "ticks ?st = []" "events_rest ?st = es" "\<not> stopped ?st"
        using at run Cons ContinueApply by (auto simp: loop_at_def loop_jobs_def events_rest_def)
      have sim1: "sim L E ?st s" using sim_pop_loop_job [OF sim _ Cons] ContinueApply by simp
      have step: "loop_step wfl st = Some (applyEvents ?st)"
        using at' Cons ContinueApply by (simp add: loop_step_job run_job_def)
      note ap = applyEvents_sim [OF sim1 at'(7,1-5), unfolded at'(6)]
      have st: "static (applyEvents ?st) = static st" using ap by (simp add: static_def)
      show ?thesis
      proof (cases "jobs (applyEvents ?st)")
        case Nil
        then show ?thesis using ap step st by blast
      next
        case (Cons j' js')
        show ?thesis
        proof (cases "user_job j'")
          case True
          then show ?thesis using ap step st Cons by blast
        next
          case False
          with ap Cons have "j' = AfterApply" by (auto simp: loop_jobs_def)
          with after [of "applyEvents ?st" js'] ap Cons obtain st' where "?goal (applyEvents ?st) st'" by auto
          then show ?thesis using step st by (auto intro: loop_steps.step)
        qed
      qed
    next
      case AfterApply
      then show ?thesis using after [OF assms] Cons by blast
    qed (use assms Cons in \<open>auto intro!: exI [of _ st]\<close>)
  qed
qed

text \<open>Draining the specification's jobs is matched by draining the microtask queue.\<close>

definition drains ::
  "'w workflow \<Rightarrow> call_history_event list \<Rightarrow> call_history_event list \<Rightarrow> workflow_event list \<Rightarrow>
   'w executor \<Rightarrow> 'w spec \<Rightarrow> bool" where
  "drains wfl L E es st s' \<longleftrightarrow>
     (\<exists>st'. loop_steps wfl st st' \<and> sim L E st' s' \<and> loop_at st' es \<and> jobs st' = [] \<and>
        static st' = static st \<and> loop_jobs s' = [] \<and> \<not> stopped st')"

lemma drain_sim:
  assumes "spec_drain wfl s = Some s'" and "sim L E st s" and "loop_at st es" and "loop_jobs s = []"
    and "\<not> stopped s'" and "matches L E s'"
  shows "drains wfl L E es st s'"
proof -
  have "extends s s' \<and> (\<forall>st. sim L E st s \<longrightarrow> loop_at st es \<longrightarrow> loop_jobs s = [] \<longrightarrow> \<not> stopped s' \<longrightarrow>
      matches L E s' \<longrightarrow> drains wfl L E es st s')"
  proof (rule spec_drain.raw_induct [where P = "\<lambda>wfl s s'. extends s s' \<and> (\<forall>st. sim L E st s \<longrightarrow>
      loop_at st es \<longrightarrow> loop_jobs s = [] \<longrightarrow> \<not> stopped s' \<longrightarrow> matches L E s' \<longrightarrow> drains wfl L E es st s')",
      OF _ assms(1)], intro conjI allI impI)
    fix drain wfl and s s' :: "'a spec"
    assume IH: "\<And>wfl s s'. drain wfl s = Some s' \<Longrightarrow> extends s s' \<and> (\<forall>st. sim L E st s \<longrightarrow>
        loop_at st es \<longrightarrow> loop_jobs s = [] \<longrightarrow> \<not> stopped s' \<longrightarrow> matches L E s' \<longrightarrow> drains wfl L E es st s')"
      and step: "(case jobs s of [] \<Rightarrow> Some s | j # js \<Rightarrow> drain wfl (spec_job wfl j (s\<lparr>jobs := js\<rparr>))) = Some s'"
    show ext: "extends s s'"
    proof (cases "jobs s")
      case (Cons j js)
      have "extends s (s\<lparr>jobs := js\<rparr>)" using Cons by (auto simp: extends_def loop_jobs_def split: if_splits)
      also have "extends (s\<lparr>jobs := js\<rparr>) (spec_job wfl j (s\<lparr>jobs := js\<rparr>))" by (rule extends_job)
      also have "extends (spec_job wfl j (s\<lparr>jobs := js\<rparr>)) s'" using step Cons IH by simp
      finally show ?thesis .
    qed (use step in simp)
    fix st :: "'a executor"
    assume sim: "sim L E st s" and at: "loop_at st es" and own: "loop_jobs s = []"
      and run: "\<not> stopped s'" and m: "matches L E s'"
    have "\<not> stopped s" using run ext by (auto simp: extends_def)
    then have "\<not> stopped st" using view_field [OF sim_view [OF sim]] by simp
    from loop_front [OF sim at this] obtain st1 where
      st1: "loop_steps wfl st st1" "sim L E st1 s" "loop_at st1 es" "\<not> stopped st1" "static st1 = static st"
        "jobs st1 = [] \<or> (\<exists>j js. jobs st1 = j # js \<and> user_job j)" by blast
    have own_jobs: "filter user_job (jobs s) = jobs s"
      using own by (simp add: loop_jobs_def filter_empty_conv filter_id_conv)
    have jobs_eq: "filter user_job (jobs st1) = jobs s"
      using sim_view [OF st1(2)] own_jobs by (metis view_eqs(10))
    show "drains wfl L E es st s'"
    proof (cases "jobs st1")
      case Nil
      then have "jobs s = []" using jobs_eq by simp
      then have "s' = s" using step by simp
      then show ?thesis unfolding drains_def using st1 Nil own by blast
    next
      case (Cons j js)
      with st1(6) have j: "user_job j" by simp
      obtain js' where js': "jobs s = j # js'" "filter user_job js = js'"
        using jobs_eq [symmetric] unfolding Cons by (simp add: j)
      let ?st = "st1\<lparr>jobs := js\<rparr>" and ?s = "s\<lparr>jobs := js'\<rparr>"
      have v: "view ?st = view ?s"
        unfolding view_updates sim_view [OF st1(2)] using own_jobs js' j by simp
      have sim2: "sim L E ?st ?s"
        using st1(2) v by (simp add: sim_def call_rel_def expected_rest_def)
      have rest: "extends (spec_job wfl j ?s) s'"
        "\<And>st. sim L E st (spec_job wfl j ?s) \<Longrightarrow> loop_at st es \<Longrightarrow> loop_jobs (spec_job wfl j ?s) = [] \<Longrightarrow>
           drains wfl L E es st s'"
        using step js' IH run m by auto
      have ext2: "extends ?s (spec_job wfl j ?s)" by (rule extends_job)
      have "matches L E (spec_job wfl j ?s)"
        by (rule matches_extends [OF rest(1) m]) (use ext2 sim2 in \<open>auto simp: extends_def sim_def call_rel_def\<close>)
      from job_sim [OF sim2 this j] obtain st2 where
        st2: "run_job wfl j ?st = st2" "sim L E st2 (spec_job wfl j ?s)" "frame ?st st2" by blast
      have "\<not> stopped (spec_job wfl j ?s)" using run rest(1) by (auto simp: extends_def)
      then have "\<not> stopped st2" using view_field [OF sim_view [OF st2(2)]] by simp
      moreover have "loop_at ?st es" using st1(3) loop_at_pop [OF j Cons] by simp
      ultimately have at2: "loop_at st2 es" using loop_at_frame [OF _ st2(3)] by simp
      have "loop_jobs ?s = []" using own js' by (auto simp: loop_jobs_def split: if_splits)
      then have "loop_jobs (spec_job wfl j ?s) = []" using ext2 by (simp add: extends_def)
      with rest(2) st2(2) at2 have "drains wfl L E es st2 s'" by blast
      moreover have "loop_step wfl st1 = Some st2"
        using loop_step_job [OF _ _ Cons, of wfl] st1(3) st2(1) by (simp add: loop_at_def)
      moreover have "static st2 = static st" using st2(3) st1(5) by (simp add: frame_def kept_def static_def)
      ultimately show ?thesis
        using st1(1) unfolding drains_def by (metis loop_steps_trans loop_steps_one)
    qed
  qed
  then show ?thesis using assms by blast
qed

section \<open>Applying the events of a run\<close>

text \<open>One event: its tick, then the microtasks it causes.\<close>

lemma event_tick_sim:
  assumes sim: "sim L E st s" and at: "loop_at st (e # es)" and idle: "jobs st = []"
    and run: "\<not> stopped (spec_apply wfl e s)" and m: "matches L E (spec_apply wfl e s)"
  shows "\<exists>st'. loop_steps wfl st st' \<and> sim L E st' (spec_apply wfl e s) \<and> loop_at st' es \<and> static st' = static st"
proof -
  have at': "uncaught st = None" "phase st = Microtasks" "events st \<le> length (history st)"
      "ticks st = [ApplyEvent e]" "events_rest st = es" "loop_jobs st = []"
    using at idle by (auto simp: loop_at_def loop_jobs_def)
  let ?st1 = "st\<lparr>phase := Ticks\<rparr>" and ?st2 = "st\<lparr>phase := Ticks, ticks := []\<rparr>"
  have step1: "loop_step wfl st = Some ?st1" using at' idle by (simp add: loop_step_def)
  have "sim L E ?st2 s" using sim by (simp add: sim_def call_rel_def expected_rest_def)
  from apply_sim [OF this m] obtain st3 where
    st3: "tryApplyEvent wfl e ?st2 = (st3, None)" "sim L E st3 (spec_apply wfl e s)" "frame ?st2 st3" by blast
  have not: "\<not> stopped st3" using run view_field [OF sim_view [OF st3(2)]] by simp
  let ?st4 = "enqueue [ContinueApply] st3"
  have step2: "loop_step wfl ?st1 = Some ?st4"
    using at' st3(1) by (simp add: loop_step_def run_tick_def)
  have fr: "history st3 = history st" "events st3 = events st" "started st3 = started st" "phase st3 = Ticks"
      "finished st3 = finished st" "uncaught st3 = None" "ticks st3 = []" "loop_jobs st3 = []"
    using st3(3) not at' by (auto simp: frame_def kept_def)
  let ?st5 = "?st4\<lparr>phase := Microtasks\<rparr>"
  have step3: "loop_step wfl ?st4 = Some ?st5" using fr by (simp add: loop_step_def)
  have "sim L E ?st5 (spec_apply wfl e s)"
    using st3(2) by (simp add: sim_def call_rel_def expected_rest_def)
  moreover have "loop_at ?st5 es"
    using fr at' by (simp add: loop_at_def events_rest_def)
  moreover have "static ?st5 = static st" using fr by (simp add: static_def)
  moreover have "loop_steps wfl st ?st5"
    using step1 step2 step3 by (blast intro: loop_steps.step)
  ultimately show ?thesis by blast
qed

lemma events_sim:
  "spec_events wfl es s = Some s' \<Longrightarrow> sim L E st s \<Longrightarrow> loop_at st es \<Longrightarrow> jobs st = [] \<Longrightarrow> loop_jobs s = [] \<Longrightarrow>
   \<not> stopped s' \<Longrightarrow> matches L E s' \<Longrightarrow> drains wfl L E [] st s'"
proof (induction es arbitrary: s st)
  case Nil
  then have "\<not> stopped st" using view_field [OF sim_view [OF Nil.prems(2)]] by simp
  with Nil show ?case unfolding drains_def by auto
next
  case (Cons e es)
  then obtain s1 where s1: "spec_drain wfl (spec_apply wfl e s) = Some s1" "spec_events wfl es s1 = Some s'"
    by (auto split: option.splits)
  have ext: "extends s (spec_apply wfl e s)" "extends (spec_apply wfl e s) s1" "extends s1 s'"
    using extends_apply extends_drain [OF s1(1)] extends_events [OF s1(2)] by auto
  have nst: "\<not> stopped s1" "\<not> stopped (spec_apply wfl e s)" using Cons.prems(6) ext by (auto simp: extends_def)
  have m: "matches L E s1" "matches L E (spec_apply wfl e s)"
    using sim_matches [OF Cons.prems(2) extends_trans [OF ext(1,2)]] sim_matches [OF Cons.prems(2)]
      matches_extends [OF ext(3) Cons.prems(7)] ext Cons.prems(2)
    by (auto simp: extends_def sim_def call_rel_def intro!: matches_extends [OF ext(2)])
  from event_tick_sim [OF Cons.prems(2,3,4) nst(2) m(2)] obtain st1 where
    st1: "loop_steps wfl st st1" "sim L E st1 (spec_apply wfl e s)" "loop_at st1 es" "static st1 = static st"
    by blast
  have "loop_jobs (spec_apply wfl e s) = []" using ext(1) Cons.prems(5) by (simp add: extends_def)
  from drain_sim [OF s1(1) st1(2,3) this nst(1) m(1)] obtain st2 where
    st2: "loop_steps wfl st1 st2" "sim L E st2 s1" "loop_at st2 es" "jobs st2 = []" "static st2 = static st1"
      "loop_jobs s1 = []" unfolding drains_def by blast
  from Cons.IH [OF s1(2) st2(2,3,4,6) Cons.prems(6,7)] st1 st2 show ?case
    unfolding drains_def by (metis loop_steps_trans)
qed

section \<open>The end of a run\<close>

text \<open>An executor at rest in a state of the specification, ready to continue.\<close>

definition rests :: "'w executor \<Rightarrow> 'w spec \<Rightarrow> bool" where
  "rests st s \<longleftrightarrow>
     view st = view s \<and> jobs st = [] \<and> jobs s = [] \<and> ticks st = [] \<and> phase st = Microtasks \<and>
     currentRun st = None \<and> uncaught st = None \<and> started st \<and>
     expected st \<le> length (history st) \<and> events st \<le> length (history st) \<and> events_rest st = []"

lemma loop_jobs_user: "filter user_job (jobs c) = [] \<Longrightarrow> loop_jobs c = [] \<Longrightarrow> jobs c = []"
  by (cases "jobs c") (auto simp: loop_jobs_def split: if_splits)

lemma run_ends:
  assumes sim: "sim L E st s" and at: "loop_at st []" and idle: "jobs st = []" "loop_jobs s = []" and st: "started st"
  shows "\<exists>st' new cs. event_loop wfl st = Some st' \<and> rests st' s \<and> history st' = history st \<and>
    log s = L @ new \<and> finished st' = Some \<lparr>wr_result = result s, wr_calls = cs\<rparr> \<and>
    map wc_event cs = drop (length E) new \<and> map call_of (expected_rest st') = drop (length new) E"
proof -
  obtain new cs where new: "log s = L @ new" "currentRun st = Some cs" "map wc_event cs = drop (length E) new"
      "map call_of (expected_rest st) = drop (length new) E" "expected st \<le> length (history st)" "view st = view s"
    using sim by (auto simp: sim_def call_rel_def)
  have at': "uncaught st = None" "phase st = Microtasks" "events st \<le> length (history st)"
      "ticks st = [CompleteRun None]" "events_rest st = []"
    using at idle by (auto simp: loop_at_def loop_jobs_def)
  let ?st1 = "st\<lparr>phase := Ticks\<rparr>"
  let ?st2 = "st\<lparr>phase := Ticks, ticks := [], currentRun := None, result := result st,
      finished := Some \<lparr>wr_result = result st, wr_calls = cs\<rparr>\<rparr>"
  let ?st3 = "?st2\<lparr>phase := Microtasks\<rparr>"
  have "loop_step wfl st = Some ?st1" "loop_step wfl ?st1 = Some ?st2" "loop_step wfl ?st2 = Some ?st3"
    using at' idle new(2) by (simp_all add: loop_step_def run_tick_def completeCurrentRun_def)
  then have "event_loop wfl st = event_loop wfl ?st3"
    by (intro event_loop_steps) (blast intro: loop_steps.step)
  moreover have "event_loop wfl ?st3 = Some ?st3"
    by (rule event_loop_idle) (simp add: loop_step_def at' idle)
  moreover have "jobs s = []"
    using loop_jobs_user [OF _ idle(2)] view_eqs(10) [of st] view_eqs(10) [of s] new(6) idle(1) by simp
  then have "rests ?st3 s"
    using at' new idle st by (simp add: rests_def events_rest_def)
  ultimately show ?thesis
    using new at' view_field [OF new(6)] by (intro exI [of _ ?st3] exI [of _ new] exI [of _ cs]) (simp add: expected_rest_def)
qed


section \<open>The executor implements the specification\<close>

definition call_events :: "workflow_event list \<Rightarrow> call_history_event list" where
  "call_events es = map call_of (filter isCallEvent es)"

definition completion_events :: "workflow_event list \<Rightarrow> workflow_event list" where
  "completion_events es = filter isCompletionEvent es"

lemma run_sim:
  assumes sim: "sim L E st s" and run: "\<not> stopped s" and own: "loop_jobs s = []"
    and at: "uncaught st = None" "phase st = Microtasks" "events st \<le> length (history st)"
      "loop_jobs st = []" "ticks st = []" "started st"
    and drain: "spec_drain wfl s = Some s1" and evs: "spec_events wfl (events_rest st) s1 = Some s'"
    and ok: "\<not> stopped s'" "matches L E s'"
  shows "\<exists>st' new cs. event_loop wfl (applyEvents st) = Some st' \<and> rests st' s' \<and> history st' = history st \<and>
    log s' = L @ new \<and> finished st' = Some \<lparr>wr_result = result s', wr_calls = cs\<rparr> \<and>
    map wc_event cs = drop (length E) new \<and> map call_of (expected_rest st') = drop (length new) E"
proof -
  have "\<not> stopped st" using run view_field [OF sim_view [OF sim]] by simp
  note ap = applyEvents_sim [OF sim this at(1-5)]
  have ext: "extends s s1" "extends s1 s'" by (rule extends_drain [OF drain], rule extends_events [OF evs])
  have run1: "\<not> stopped s1" using ok(1) ext by (auto simp: extends_def)
  have m1: "matches L E s1"
    by (rule matches_extends [OF ext(2) ok(2)]) (use ext(1) sim in \<open>auto simp: extends_def sim_def call_rel_def\<close>)
  from drain_sim [OF drain _ _ own run1 m1] ap obtain st1 where
    st1: "loop_steps wfl (applyEvents st) st1" "sim L E st1 s1" "loop_at st1 (events_rest st)" "jobs st1 = []"
      "static st1 = static (applyEvents st)" "loop_jobs s1 = []" unfolding drains_def by blast
  from events_sim [OF evs st1(2,3,4,6) ok] obtain st2 where
    st2: "loop_steps wfl st1 st2" "sim L E st2 s'" "loop_at st2 []" "jobs st2 = []" "static st2 = static st1"
      "loop_jobs s' = []" unfolding drains_def by blast
  have "event_loop wfl (applyEvents st) = event_loop wfl st2"
    by (rule event_loop_steps [OF loop_steps_trans [OF st1(1) st2(1)]])
  moreover have "started st2" "history st2 = history st"
    using st1(5) st2(5) ap at(6) by (auto simp: static_def)
  ultimately show ?thesis using run_ends [OF st2(2,3,4,6), of wfl] by auto
qed

lemma start_definition_sim:
  assumes sim: "sim [] E st (new_spec wfl)" and m: "matches [] E (spec_start wfl input context)"
  shows "sim [] E (start_definition wfl input context st) (spec_start wfl input context) \<and>
    frame st (start_definition wfl input context st)"
proof -
  let ?b = "wf_definition wfl input context"
  have "matches [] E (fst (spec_burst wfl ?b (new_spec wfl)))"
    using m by (auto simp: spec_start_def matches_def split: prod.splits option.splits)
  from burst_sim [OF sim this] obtain st1 where
    st1: "run_burst wfl ?b st = (st1, snd (spec_burst wfl ?b (new_spec wfl)))"
      "sim [] E st1 (fst (spec_burst wfl ?b (new_spec wfl)))" "frame st st1" by blast
  show ?thesis
  proof (cases "snd (spec_burst wfl ?b (new_spec wfl))")
    case None
    then show ?thesis
      using st1 by (cases "spec_burst wfl ?b (new_spec wfl)") (simp add: start_definition_def spec_start_def)
  next
    case (Some err)
    from resolveWorkflow_sim [OF st1(2), of "Failed err"] obtain st2 where
      "resolveWorkflow (Failed err) st1 = (st2, None)" "frame st1 st2"
      "sim [] E st2 (set_result (Failed err) (fst (spec_burst wfl ?b (new_spec wfl))))" by blast
    then show ?thesis
      using st1 Some by (cases "spec_burst wfl ?b (new_spec wfl)")
        (auto simp: start_definition_def spec_start_def intro: frame_trans)
  qed
qed

lemma extends_start: "extends (new_spec wfl) (spec_start wfl input context)"
proof -
  let ?b = "wf_definition wfl input context"
  have "extends (new_spec wfl) (fst (spec_burst wfl ?b (new_spec wfl)))" by (rule extends_burst)
  then show ?thesis
    using extends_trans [OF _ extends_set_result]
    by (auto simp: spec_start_def split: prod.split option.split)
qed

lemma start_refinement:
  assumes args: "processArgs hist args = Inr (input, context, evs)"
    and H: "H = hist @ filterEvents hist evs"
    and spec: "spec_run wfl input context (completion_events H) = Some s"
    and ok: "\<not> stopped s" "agree (call_events H) (log s)"
  shows "\<exists>st cs. run_start wfl args (new_executor wfl hist) = Some (Inr st) \<and> rests st s \<and> history st = H \<and>
    finished st = Some \<lparr>wr_result = result s, wr_calls = cs\<rparr> \<and>
    map wc_event cs = drop (length (call_events H)) (log s) \<and>
    map call_of (expected_rest st) = drop (length (log s)) (call_events H)"
proof -
  let ?E = "call_events H"
  let ?ini = "begin_run ((addHistoryEvents evs (new_executor wfl hist))\<lparr>started := True, finished := None\<rparr>)"
  let ?st = "start_definition wfl input context ?ini"
  let ?s = "spec_start wfl input context"
  from spec obtain s1 where s1: "spec_drain wfl ?s = Some s1" "spec_events wfl (completion_events H) s1 = Some s"
    by (auto simp: spec_run_def split: option.splits)
  have ext: "extends ?s s1" "extends s1 s" by (rule extends_drain [OF s1(1)], rule extends_events [OF s1(2)])
  have run: "\<not> stopped ?s" using ok(1) ext by (auto simp: extends_def)
  have m: "matches [] ?E s" using ok(2) by (simp add: matches_def)
  have ms: "matches [] ?E ?s"
    by (rule matches_extends [OF extends_trans [OF ext] m]) simp
  have "view ?ini = view (new_spec wfl)"
    by (simp add: view_def begin_run_def addHistoryEvents_def new_executor_def new_spec_def core.defs)
  then have "sim [] ?E ?ini (new_spec wfl)"
    by (simp add: sim_def call_rel_def expected_rest_def begin_run_def addHistoryEvents_def new_executor_def
        new_spec_def H call_events_def iter_rest_start)
  from start_definition_sim [OF this ms] have sim: "sim [] ?E ?st ?s" and fr: "frame ?ini ?st" by auto
  have nst: "\<not> stopped ?st" using run view_field [OF sim_view [OF sim]] by simp
  have fields: "uncaught ?st = None" "phase ?st = Microtasks" "events ?st = 0" "loop_jobs ?st = []" "ticks ?st = []"
      "started ?st" "history ?st = H"
    using fr nst by (auto simp: frame_def kept_def begin_run_def addHistoryEvents_def new_executor_def loop_jobs_def H)
  have own: "loop_jobs ?s = []"
    using extends_start [of wfl "input" "context"] by (simp add: extends_def loop_jobs_def new_spec_def)
  have "events_rest ?st = completion_events H"
    using fields by (simp add: events_rest_def completion_events_def iter_rest_start)
  then have "\<exists>st' new cs. event_loop wfl (applyEvents ?st) = Some st' \<and> rests st' s \<and> history st' = history ?st \<and>
    log s = [] @ new \<and> finished st' = Some \<lparr>wr_result = result s, wr_calls = cs\<rparr> \<and>
    map wc_event cs = drop (length ?E) new \<and> map call_of (expected_rest st') = drop (length new) ?E"
    using fields by (intro run_sim [OF sim run own _ _ _ _ _ _ s1(1) _ ok(1) m]) (simp_all add: s1(2))
  moreover have "start wfl args (new_executor wfl hist) = Inr (applyEvents ?st)"
    using args by (simp add: start_def new_executor_def Let_def)
  ultimately show ?thesis by (auto simp: run_start_def fields(7))
qed

lemma continue_refinement:
  assumes rests: "rests st s" and run: "\<not> stopped s" and new: "es = filterEvents (history st) evs"
    and spec: "spec_events wfl (completion_events es) s = Some s'" and ok: "\<not> stopped s'"
    and E: "E = map call_of (expected_rest st) @ call_events es" and log: "log s' = log s @ l" "agree E l"
  shows "\<exists>st' cs. run_continue wfl evs st = Some (Inr st') \<and> rests st' s' \<and> history st' = history st @ es \<and>
    finished st' = Some \<lparr>wr_result = result s', wr_calls = cs\<rparr> \<and>
    map wc_event cs = drop (length E) l \<and> map call_of (expected_rest st') = drop (length l) E"
proof -
  let ?st = "begin_run ((addHistoryEvents evs st)\<lparr>finished := None\<rparr>)"
  note r = rests [unfolded rests_def]
  have exp: "expected_rest ?st = expected_rest st @ filter isCallEvent es"
    using r by (simp add: expected_rest_def begin_run_def addHistoryEvents_def new iter_rest_push)
  have sim: "sim (log s) E ?st s"
    using r exp by (simp add: sim_def call_rel_def E call_events_def) (simp add: begin_run_def addHistoryEvents_def)
  have fields: "uncaught ?st = None" "phase ?st = Microtasks" "events ?st \<le> length (history ?st)" "loop_jobs ?st = []"
      "ticks ?st = []" "started ?st" "history ?st = history st @ es"
    using r by (simp_all add: begin_run_def addHistoryEvents_def new loop_jobs_def)
  have rest: "events_rest ?st = completion_events es"
    using r by (simp add: events_rest_def begin_run_def addHistoryEvents_def new iter_rest_push completion_events_def)
  have idle: "jobs s = []" "loop_jobs s = []" using r by (simp_all add: loop_jobs_def)
  have drain: "spec_drain wfl s = Some s" by (subst spec_drain.simps) (simp add: idle)
  have m: "matches (log s) E s'" using log by (simp add: matches_def)
  have "\<exists>st' new cs. event_loop wfl (applyEvents ?st) = Some st' \<and> rests st' s' \<and> history st' = history ?st \<and>
    log s' = log s @ new \<and> finished st' = Some \<lparr>wr_result = result s', wr_calls = cs\<rparr> \<and>
    map wc_event cs = drop (length E) new \<and> map call_of (expected_rest st') = drop (length new) E"
    using fields rest
    by (intro run_sim [OF sim run idle(2) _ _ _ _ _ _ drain _ ok m]) (simp_all add: spec)
  moreover have "continue evs st = Inr (applyEvents ?st)"
    using r by (simp add: continue_def)
  ultimately show ?thesis using fields(7) log by (auto simp: run_continue_def)
qed

end
