(* ===== verification/WorkflowProperties.thy ===== *)
theory WorkflowProperties
  imports WorkflowRefinement
begin

text \<open>
  What the executor of workflows guarantees, on the refinement of \<^verbatim>\<open>WorkflowRefinement\<close>: a run
  implements the specification, a replay from the persisted history reaches the state of the
  executor that was kept in memory, and a workflow that does not repeat its calls is stopped.
  The theory opens with the means to evaluate the specification on a concrete workflow.
\<close>

section \<open>Evaluation\<close>

text \<open>The specification with fuel for each drain, for evaluation on concrete workflows.\<close>

fun drain_fuel :: "nat \<Rightarrow> 'w workflow \<Rightarrow> 'w spec \<Rightarrow> 'w spec option" where
  "drain_fuel 0 wfl s = None"
| "drain_fuel (Suc n) wfl s =
     (case jobs s of [] \<Rightarrow> Some s | j # js \<Rightarrow> drain_fuel n wfl (spec_job wfl j (s\<lparr>jobs := js\<rparr>)))"

fun events_fuel :: "nat \<Rightarrow> 'w workflow \<Rightarrow> workflow_event list \<Rightarrow> 'w spec \<Rightarrow> 'w spec option" where
  "events_fuel n wfl [] s = Some s"
| "events_fuel n wfl (e # es) s =
     (case drain_fuel n wfl (spec_apply wfl e s) of None \<Rightarrow> None | Some s' \<Rightarrow> events_fuel n wfl es s')"

definition run_fuel :: "nat \<Rightarrow> 'w workflow \<Rightarrow> js \<Rightarrow> js \<Rightarrow> workflow_event list \<Rightarrow> 'w spec option" where
  "run_fuel n wfl input context es =
     (case drain_fuel n wfl (spec_start wfl input context) of None \<Rightarrow> None | Some s \<Rightarrow> events_fuel n wfl es s)"

lemma drain_fuel_spec: "drain_fuel n wfl s = Some s' \<Longrightarrow> spec_drain wfl s = Some s'"
  by (induction n arbitrary: s) (subst spec_drain.simps, auto split: list.splits)+

lemma events_fuel_spec: "events_fuel n wfl es s = Some s' \<Longrightarrow> spec_events wfl es s = Some s'"
  by (induction es arbitrary: s) (auto split: option.splits dest: drain_fuel_spec)

lemma run_fuel_spec: "run_fuel n wfl input context es = Some s \<Longrightarrow> spec_run wfl input context es = Some s"
  unfolding run_fuel_def spec_run_def
  by (auto split: option.split_asm dest!: drain_fuel_spec events_fuel_spec)

text \<open>A workflow that runs a task, sends a signal with its result and completes.\<close>

definition sample_workflow :: "nat workflow" where
  "sample_workflow =
     \<lparr>wf_definition = (\<lambda>i ctx. Exec 0 (Some (TaskCall ''charge'' i None NoTimeout)) (\<lambda>r.
         case r of GotPromise p \<Rightarrow> Watch p 1 (Quiet 0) | Thrown e \<Rightarrow> Finish (Failed e) 0)),
      wf_resume = (\<lambda>w f r.
        if f = 1 then
          (case r of
             Resolved v \<Rightarrow> Exec 1 (Some (SendSignalCall ''paid'' v (ExecutionTarget ''w/other'') None))
               (\<lambda>r. case r of GotPromise p \<Rightarrow> Watch p 2 (Quiet 1) | Thrown e \<Rightarrow> Finish (Failed e) 1)
           | Failed e \<Rightarrow> Finish (Failed e) 1)
        else Finish (Resolved (JStr ''done'')) 2),
      wf_signal = (\<lambda>w f v. Quiet w),
      wf_predicate = (\<lambda>w f. Inr (JBool False)),
      wf_initial = 0\<rparr>"

definition sample_started :: workflow_event where
  "sample_started = WorkflowStarted ''s1'' 0 ''order'' (JNum 7) None ''e1'' None"

section \<open>Persisted calls\<close>

text \<open>A call event after a round trip through JSON.\<close>

fun persist_call :: "call_history_event \<Rightarrow> call_history_event" where
  "persist_call (BucketRequest s operation) = BucketRequest s (json_copy operation)"
| "persist_call (QueueRequest s operation) = QueueRequest s (json_copy operation)"
| "persist_call (ChildWorkflowScheduled s name input) = ChildWorkflowScheduled s name (json_copy input)"
| "persist_call (EntityRequest s operation) = EntityRequest s (json_copy operation)"
| "persist_call (EventsEmitted s evs) = EventsEmitted s (json_copy evs)"
| "persist_call (SearchRequest s operation request) = SearchRequest s operation (json_copy request)"
| "persist_call (SignalSent s signalId target payload) = SignalSent s signalId target (json_copy payload)"
| "persist_call (SocketRequest s operation) = SocketRequest s (json_copy operation)"
| "persist_call (TaskScheduled s name input) = TaskScheduled s name (json_copy input)"
| "persist_call (TimerScheduled s schedule) = TimerScheduled s schedule"
| "persist_call (TransactionRequest s transactionName input) = TransactionRequest s transactionName (json_copy input)"

definition call_plain :: "call_history_event \<Rightarrow> bool" where
  "call_plain c \<longleftrightarrow> list_all (\<lambda>(k, x). json_plain x) (call_event_fields c)"

definition copy_fields :: "(string \<times> js) list \<Rightarrow> (string \<times> js) list" where
  "copy_fields fs = map (\<lambda>(k, x). (k, json_copy x)) fs"

lemma json_copy_schedule [simp]: "json_copy (schedule_js s) = schedule_js s"
  by (cases s) simp_all

lemma json_copy_target [simp]: "json_copy (signal_target_js t) = signal_target_js t"
  by (cases t) simp_all

lemma persist_call_fields:
  "call_event_fields (persist_call c) = copy_fields (call_event_fields c)"
  "call_type (persist_call c) = call_type c" "call_seq (persist_call c) = call_seq c"
  by (cases c; simp add: copy_fields_def)+

lemma map_fst_copy_fields [simp]: "map fst (copy_fields fs) = map fst fs"
  by (simp add: copy_fields_def comp_def case_prod_beta)

lemma defined_keys_copy_fields: "defined_keys (JObj (copy_fields fs)) = defined_keys (JObj fs)"
  by (induction fs) (auto simp: defined_keys_def copy_fields_def)

lemma deepEqual_copy_fields:
  assumes "distinct (map fst fs)" and "\<And>k x. (k, x) \<in> set fs \<Longrightarrow> json_plain x"
  shows "deepEqual (JObj (copy_fields fs)) (JObj fs)"
proof -
  have "deepEqual (js_get (JObj (copy_fields fs)) k) (js_get (JObj fs) k)"
    if "k \<in> set (defined_keys (JObj fs))" for k
  proof -
    from that obtain x where x: "(k, x) \<in> set fs" by (auto simp: defined_keys_def)
    then have "(k, json_copy x) \<in> set (copy_fields fs)" by (force simp: copy_fields_def)
    then show ?thesis
      using x assms deepEqual_json_copy [of x] by (simp add: js_get_JObj_in)
  qed
  then show ?thesis by (simp add: deepEqual_obj js_obj_def defined_keys_copy_fields)
qed

lemma same_call_persist: "call_plain c \<Longrightarrow> same_call (persist_call c) c"
proof -
  assume plain: "call_plain c"
  let ?fs = "(''type'', JNum (int (call_type_code (call_type c)))) # (''seq'', JNum (int (call_seq c)))
      # call_event_fields c"
  have "call_event_js (persist_call c) = JObj (copy_fields ?fs)"
    by (simp add: call_event_js_def persist_call_fields copy_fields_def [of "_ # _"] del: json_copy.simps)
      (simp add: copy_fields_def)
  moreover have "distinct (map fst ?fs)" by (cases c) simp_all
  moreover have "json_plain x" if "(k, x) \<in> set ?fs" for k x
    using that plain by (auto simp: call_plain_def list_all_iff)
  ultimately show ?thesis
    using deepEqual_copy_fields [of ?fs] by (simp add: same_call_def call_event_js_def)
qed

lemma same_call_refl [simp]: "same_call c c"
  by (simp add: same_call_def)

lemma agree_Nil [simp]: "agree [] l"
  by (simp add: agree_def)

lemma agree_persist: "list_all call_plain l \<Longrightarrow> agree (map persist_call (take n l)) l"
  by (auto simp: agree_def list_all_length same_call_persist)

section \<open>Guarantees of the executor\<close>

text \<open>
  C2 (refinement): starting an execution on a history and new events. If the workflow comes to
  rest on their completion events and its calls agree with the call events of the history,
  then the promise of \<open>start\<close> resolves, the executor is in the state the specification gives
  for these events, the result is the specification's, and the calls to emit are exactly those
  of its log that the history does not hold yet, in order.
\<close>

theorem executor_start_implements_spec:
  assumes args: "processArgs hist args = Inr (input, context, evs)"
    and H: "H = hist @ filterEvents hist evs"
    and spec: "spec_run wfl input context (completion_events H) = Some s"
    and ok: "\<not> stopped s" "agree (call_events H) (log s)"
  shows "\<exists>st cs. run_start wfl args (new_executor wfl hist) = Some (Inr st) \<and> rests st s \<and> history st = H \<and>
    finished st = Some \<lparr>wr_result = result s, wr_calls = cs\<rparr> \<and>
    map wc_event cs = drop (length (call_events H)) (log s)"
  using start_refinement [OF assms] by blast

definition sample_history :: "workflow_event list" where
  "sample_history = [sample_started, WorkflowRunStarted ''r1'' 1, TaskSucceeded 0 5 (JStr ''ok'')]"

definition sample_context :: js where
  "sample_context = started_context ''order'' ''e1'' None 0"

lemma sample_events_eval:
  "filterEvents [] sample_history = sample_history" "call_events sample_history = []"
  "completion_events sample_history = [WorkflowRunStarted ''r1'' 1, TaskSucceeded 0 5 (JStr ''ok'')]"
  "processArgs [] (StartEvents sample_history) = Inr (JNum 7, sample_context, sample_history)"
  by code_simp+

lemma sample_run_eval:
  "map_option (\<lambda>s. (log s, result s, stopped s, user s)) (run_fuel 9 sample_workflow (JNum 7) sample_context
      [WorkflowRunStarted ''r1'' 1, TaskSucceeded 0 5 (JStr ''ok'')]) =
     Some ([TaskScheduled 0 ''charge'' (JNum 7), SignalSent 1 ''paid'' (ExecutionTarget ''w/other'') (JStr ''ok'')],
           Some (Resolved (JStr ''done'')), False, 2)"
  by code_simp

lemma sample_run:
  obtains s where "spec_run sample_workflow (JNum 7) sample_context
      [WorkflowRunStarted ''r1'' 1, TaskSucceeded 0 5 (JStr ''ok'')] = Some s"
    "log s = [TaskScheduled 0 ''charge'' (JNum 7), SignalSent 1 ''paid'' (ExecutionTarget ''w/other'') (JStr ''ok'')]"
    "result s = Some (Resolved (JStr ''done''))" "\<not> stopped s"
  using sample_run_eval by (auto dest!: run_fuel_spec)

lemma executor_start_implements_spec_witness:
  "\<exists>st cs. run_start sample_workflow (StartEvents sample_history) (new_executor sample_workflow []) = Some (Inr st) \<and>
     finished st = Some \<lparr>wr_result = Some (Resolved (JStr ''done'')), wr_calls = cs\<rparr> \<and>
     map wc_event cs = [TaskScheduled 0 ''charge'' (JNum 7),
       SignalSent 1 ''paid'' (ExecutionTarget ''w/other'') (JStr ''ok'')]"
proof -
  obtain s where s: "spec_run sample_workflow (JNum 7) sample_context
      [WorkflowRunStarted ''r1'' 1, TaskSucceeded 0 5 (JStr ''ok'')] = Some s"
    "log s = [TaskScheduled 0 ''charge'' (JNum 7), SignalSent 1 ''paid'' (ExecutionTarget ''w/other'') (JStr ''ok'')]"
    "result s = Some (Resolved (JStr ''done''))" "\<not> stopped s"
    by (rule sample_run)
  from executor_start_implements_spec
    [of "[]" "StartEvents sample_history" "JNum 7" sample_context sample_history sample_history sample_workflow s]
  show ?thesis using s by (auto simp: sample_events_eval)
qed

text \<open>
  C3 (refinement): continuing an execution with new events. From an executor at rest in a state
  of the specification, whose expected calls and those among the new events agree with what
  the workflow calls next, the promise of \<open>continue\<close> resolves, the executor rests in the
  specification's next state, and only the calls that were not expected are emitted.
\<close>

theorem executor_continue_implements_spec:
  assumes rests: "rests st s" and run: "\<not> stopped s" and new: "es = filterEvents (history st) evs"
    and spec: "spec_events wfl (completion_events es) s = Some s'" and ok: "\<not> stopped s'"
    and E: "E = map call_of (expected_rest st) @ call_events es" and log: "log s' = log s @ l" "agree E l"
  shows "\<exists>st' cs. run_continue wfl evs st = Some (Inr st') \<and> rests st' s' \<and> history st' = history st @ es \<and>
    finished st' = Some \<lparr>wr_result = result s', wr_calls = cs\<rparr> \<and> map wc_event cs = drop (length E) l"
  using continue_refinement [OF assms] by blast

lemma sample_first_run_eval:
  "map_option (\<lambda>s. (log s, stopped s)) (run_fuel 9 sample_workflow (JNum 7) sample_context
      [WorkflowRunStarted ''r1'' 1]) = Some ([TaskScheduled 0 ''charge'' (JNum 7)], False)"
  by code_simp

lemma sample_first_run:
  obtains s1 s where "spec_run sample_workflow (JNum 7) sample_context [WorkflowRunStarted ''r1'' 1] = Some s1"
    "log s1 = [TaskScheduled 0 ''charge'' (JNum 7)]" "\<not> stopped s1"
    "spec_events sample_workflow [TaskSucceeded 0 5 (JStr ''ok'')] s1 = Some s"
    "log s = log s1 @ [SignalSent 1 ''paid'' (ExecutionTarget ''w/other'') (JStr ''ok'')]"
    "result s = Some (Resolved (JStr ''done''))" "\<not> stopped s"
proof -
  obtain s where s: "spec_run sample_workflow (JNum 7) sample_context
      ([WorkflowRunStarted ''r1'' 1] @ [TaskSucceeded 0 5 (JStr ''ok'')]) = Some s"
    "log s = [TaskScheduled 0 ''charge'' (JNum 7), SignalSent 1 ''paid'' (ExecutionTarget ''w/other'') (JStr ''ok'')]"
    "result s = Some (Resolved (JStr ''done''))" "\<not> stopped s"
    using sample_run by auto
  obtain s1 where s1: "spec_run sample_workflow (JNum 7) sample_context [WorkflowRunStarted ''r1'' 1] = Some s1"
    "log s1 = [TaskScheduled 0 ''charge'' (JNum 7)]" "\<not> stopped s1"
    using sample_first_run_eval by (auto dest!: run_fuel_spec)
  have "spec_events sample_workflow [TaskSucceeded 0 5 (JStr ''ok'')] s1 = Some s"
    using s(1) s1(1) by (simp only: spec_run_append option.case)
  then show thesis using that s s1 by auto
qed

lemma sample_split_eval:
  "filterEvents [] (take 2 sample_history) = take 2 sample_history"
  "filterEvents (take 2 sample_history) (drop 2 sample_history) = drop 2 sample_history"
  "call_events (take 2 sample_history) = []" "call_events (drop 2 sample_history) = []"
  "completion_events (take 2 sample_history) = [WorkflowRunStarted ''r1'' 1]"
  "completion_events (drop 2 sample_history) = [TaskSucceeded 0 5 (JStr ''ok'')]"
  "processArgs [] (StartEvents (take 2 sample_history)) = Inr (JNum 7, sample_context, take 2 sample_history)"
  by code_simp+

lemma executor_continue_implements_spec_witness:
  "\<exists>st st' cs. run_start sample_workflow (StartEvents (take 2 sample_history)) (new_executor sample_workflow []) = Some (Inr st) \<and>
     run_continue sample_workflow (drop 2 sample_history) st = Some (Inr st') \<and>
     finished st' = Some \<lparr>wr_result = Some (Resolved (JStr ''done'')), wr_calls = cs\<rparr> \<and>
     map wc_event cs = [SignalSent 1 ''paid'' (ExecutionTarget ''w/other'') (JStr ''ok'')]"
proof -
  obtain s1 s where s1: "spec_run sample_workflow (JNum 7) sample_context [WorkflowRunStarted ''r1'' 1] = Some s1"
    "log s1 = [TaskScheduled 0 ''charge'' (JNum 7)]" "\<not> stopped s1"
    and s: "spec_events sample_workflow [TaskSucceeded 0 5 (JStr ''ok'')] s1 = Some s"
    "log s = log s1 @ [SignalSent 1 ''paid'' (ExecutionTarget ''w/other'') (JStr ''ok'')]"
    "result s = Some (Resolved (JStr ''done''))" "\<not> stopped s"
    by (rule sample_first_run)
  obtain st where st: "run_start sample_workflow (StartEvents (take 2 sample_history)) (new_executor sample_workflow []) = Some (Inr st)"
    "rests st s1" "history st = take 2 sample_history" "map call_of (expected_rest st) = []"
    using start_refinement [of "[]" "StartEvents (take 2 sample_history)" "JNum 7" sample_context "take 2 sample_history"
        "take 2 sample_history" sample_workflow s1] s1 sample_split_eval by auto
  show ?thesis
    using executor_continue_implements_spec [OF st(2) s1(3) _ _ s(4) _ s(2), of "drop 2 sample_history" "drop 2 sample_history"]
      st s sample_split_eval by fastforce
qed

text \<open>
  C1 (equivalence): an executor that was started and then continued in memory, and one that is
  created later from the persisted history, with the same completion events in the same order
  and the call events read back from JSON, end in the same state with the same result: what
  the workflow sees, the next sequence number, the active eventuals with their handlers and
  promises. Of its calls the second emits those the history does not hold, none when it holds
  them all.
\<close>

theorem resume_equals_replay:
  assumes args: "processArgs hist args = Inr (input, context, evs)"
    and H: "H = hist @ filterEvents hist evs" and fresh: "call_events H = []"
    and new: "es = filterEvents H evs'" "call_events es = []"
    and spec: "spec_run wfl input context (completion_events (H @ es)) = Some s" and ok: "\<not> stopped s"
    and args': "processArgs H' (StartEvents []) = Inr (input, context, [])"
    and same: "completion_events H' = completion_events (H @ es)"
    and persisted: "call_events H' = map persist_call (take n (log s))"
    and plain: "list_all call_plain (log s)"
  shows "\<exists>st st1 st2 cs1 cs2.
    run_start wfl args (new_executor wfl hist) = Some (Inr st) \<and> run_continue wfl evs' st = Some (Inr st1) \<and>
    run_start wfl (StartEvents []) (new_executor wfl H') = Some (Inr st2) \<and> view st2 = view st1 \<and>
    finished st1 = Some \<lparr>wr_result = result s, wr_calls = cs1\<rparr> \<and>
    finished st2 = Some \<lparr>wr_result = result s, wr_calls = cs2\<rparr> \<and> map wc_event cs2 = drop n (log s)"
proof -
  from spec obtain s1 where s1: "spec_run wfl input context (completion_events H) = Some s1"
      "spec_events wfl (completion_events es) s1 = Some s"
    by (auto simp: completion_events_def spec_run_append split: option.splits)
  have ext: "extends s1 s" by (rule extends_events [OF s1(2)])
  then have run: "\<not> stopped s1" using ok by (auto simp: extends_def)
  from ext obtain l where l: "log s = log s1 @ l" by (auto simp: extends_def)
  from start_refinement [OF args H s1(1) run] fresh obtain st where
    st: "run_start wfl args (new_executor wfl hist) = Some (Inr st)" "rests st s1" "history st = H"
      "map call_of (expected_rest st) = []" by auto
  from continue_refinement [OF st(2) run _ s1(2) ok _ l, of evs' "[]"] st new obtain st1 cs1 where
    st1: "run_continue wfl evs' st = Some (Inr st1)" "rests st1 s"
      "finished st1 = Some \<lparr>wr_result = result s, wr_calls = cs1\<rparr>" by auto
  have H': "H' = H' @ filterEvents H' []" by (simp add: filterEvents_def)
  have "drop (length (call_events H')) (log s) = drop n (log s)" using persisted by (simp add: min_def)
  moreover have agr: "agree (call_events H') (log s)" using persisted plain by (simp add: agree_persist)
  have spec': "spec_run wfl input context (completion_events H') = Some s" using spec same by simp
  ultimately obtain st2 cs2 where
    st2: "run_start wfl (StartEvents []) (new_executor wfl H') = Some (Inr st2)" "rests st2 s"
      "finished st2 = Some \<lparr>wr_result = result s, wr_calls = cs2\<rparr>" "map wc_event cs2 = drop n (log s)"
    using start_refinement [OF args' H' spec' ok agr] by auto
  have "view st2 = view st1" using st1(2) st2(2) by (simp add: rests_def)
  then show ?thesis using st st1 st2 by blast
qed

definition sample_persisted :: "workflow_event list" where
  "sample_persisted =
     [sample_started, WorkflowRunStarted ''r1'' 1, CallEvent 2 (TaskScheduled 0 ''charge'' (JNum 7)),
      TaskSucceeded 0 5 (JStr ''ok''),
      CallEvent 6 (SignalSent 1 ''paid'' (ExecutionTarget ''w/other'') (JStr ''ok''))]"

lemma sample_persisted_eval:
  "completion_events sample_persisted = [WorkflowRunStarted ''r1'' 1, TaskSucceeded 0 5 (JStr ''ok'')]"
  "call_events sample_persisted = map persist_call [TaskScheduled 0 ''charge'' (JNum 7),
     SignalSent 1 ''paid'' (ExecutionTarget ''w/other'') (JStr ''ok'')]"
  "processArgs sample_persisted (StartEvents []) = Inr (JNum 7, sample_context, [])"
  "list_all call_plain [TaskScheduled 0 ''charge'' (JNum 7),
     SignalSent 1 ''paid'' (ExecutionTarget ''w/other'') (JStr ''ok'')]"
  by code_simp+

lemma resume_equals_replay_witness:
  "\<exists>st st1 st2.
     run_start sample_workflow (StartEvents (take 2 sample_history)) (new_executor sample_workflow []) = Some (Inr st) \<and>
     run_continue sample_workflow (drop 2 sample_history) st = Some (Inr st1) \<and>
     run_start sample_workflow (StartEvents []) (new_executor sample_workflow sample_persisted) = Some (Inr st2) \<and>
     view st2 = view st1 \<and> finished st2 = Some \<lparr>wr_result = Some (Resolved (JStr ''done'')), wr_calls = []\<rparr>"
proof -
  obtain s where s: "spec_run sample_workflow (JNum 7) sample_context
      [WorkflowRunStarted ''r1'' 1, TaskSucceeded 0 5 (JStr ''ok'')] = Some s"
    "log s = [TaskScheduled 0 ''charge'' (JNum 7), SignalSent 1 ''paid'' (ExecutionTarget ''w/other'') (JStr ''ok'')]"
    "result s = Some (Resolved (JStr ''done''))" "\<not> stopped s"
    by (rule sample_run)
  have split: "take 2 sample_history @ drop 2 sample_history = sample_history" by (rule append_take_drop_id)
  obtain st st1 st2 cs2 where
    "run_start sample_workflow (StartEvents (take 2 sample_history)) (new_executor sample_workflow []) = Some (Inr st)"
    "run_continue sample_workflow (drop 2 sample_history) st = Some (Inr st1)"
    "run_start sample_workflow (StartEvents []) (new_executor sample_workflow sample_persisted) = Some (Inr st2)"
    "view st2 = view st1" "finished st2 = Some \<lparr>wr_result = result s, wr_calls = cs2\<rparr>"
    "map wc_event cs2 = drop 2 (log s)"
    using resume_equals_replay [of "[]" "StartEvents (take 2 sample_history)" "JNum 7" sample_context
        "take 2 sample_history" "take 2 sample_history" "drop 2 sample_history" "drop 2 sample_history"
        sample_workflow s sample_persisted 2]
      sample_persisted_eval sample_split_eval sample_events_eval(3) s split by fastforce
  then show ?thesis using s(2,3) by auto
qed

end
