(* ===== verification/WorkflowRuns.thy ===== *)
theory WorkflowRuns
  imports WorkflowProperties
begin

text \<open>
  Runs of the executor without any assumption on the workflow: every run that the event loop
  finishes with has completed, and a call the history does not expect stops the workflow.
  \<open>adds\<close> says what the operations of a run do to the executor's own state, \<open>run_inv\<close> is the
  invariant of the event loop.
\<close>

section \<open>Every run completes\<close>

text \<open>The event a call leaves, and the calls of a run that carry theirs.\<close>

definition call_record :: "call \<Rightarrow> nat \<Rightarrow> call_history_event option" where
  "call_record c seq =
     (case initializeEventual (\<lambda>p. Inr JUndef) c of
        Inl err \<Rightarrow> None
      | Inr (rs, d) \<Rightarrow> map_option (\<lambda>create. create seq) (createCallEvent d))"

definition recorded :: "workflow_call \<Rightarrow> bool" where
  "recorded wc \<longleftrightarrow> call_record (wc_call wc) (wc_seq wc) = Some (wc_event wc)"

lemma call_record_event:
  assumes "initializeEventual cond c = Inr (rs, d)" and "createCallEvent d = Some create"
  shows "call_record c seq = Some (create seq)"
  using assms
  by (cases c) (auto simp: call_record_def factory_defs Let_def split: sum.splits if_splits socket_operation.splits
      signal_handler_operation.splits socket_input.splits)

text \<open>What the operations of a run do to the executor's own state, whatever the outcome.\<close>

definition adds :: "'w executor \<Rightarrow> 'w executor \<Rightarrow> bool" where
  "adds st st' \<longleftrightarrow>
     loop_jobs st' = loop_jobs st \<and> (\<exists>ts. ticks st' = ticks st @ ts) \<and>
     (currentRun st' = None \<longleftrightarrow> currentRun st = None) \<and>
     (list_all recorded (the_default [] (currentRun st)) \<longrightarrow> list_all recorded (the_default [] (currentRun st'))) \<and>
     history st' = history st \<and> events st' = events st \<and>
     finished st' = finished st \<and> uncaught st' = uncaught st \<and> started st' = started st \<and> phase st' = phase st"

lemma adds_refl [simp]: "adds st st"
  by (simp add: adds_def)

lemma adds_trans [trans]: "adds st st' \<Longrightarrow> adds st' st'' \<Longrightarrow> adds st st''"
  by (auto simp: adds_def)

lemma adds_outer: "outer st' = outer st \<Longrightarrow> loop_jobs st' = loop_jobs st \<Longrightarrow> adds st st'"
  by (simp add: adds_def outer_def)

lemma adds_cursor: "adds st (st\<lparr>expected := c\<rparr>)"
  by (simp add: adds_def)

lemma adds_resolveWorkflow: "adds st (fst (resolveWorkflow r st))"
proof (cases "currentRun st")
  case (Some cs)
  have "outer (set_result r st) = outer st" by simp
  then show ?thesis
    using Some by (auto simp: resolveWorkflow_def Let_def adds_def outer_def add_tick_def)
qed (simp add: resolveWorkflow_def)

lemma expected_hasNext_adds: "adds st (snd (expected_hasNext st))"
  by (simp add: expected_hasNext_def adds_cursor split: prod.split)

lemma expected_next_adds: "adds st (snd (expected_next st))"
  by (simp add: expected_next_def adds_cursor split: prod.split)

lemma adds_assert: "adds st (fst (assertEventIsExpected ev st))"
proof -
  obtain b st1 where hn: "expected_hasNext st = (b, st1)" by fastforce
  obtain e st2 where nx: "expected_next st1 = (e, st2)" by fastforce
  have 1: "adds st st1" using expected_hasNext_adds [of st] by (simp add: hn)
  have 2: "adds st st2" using adds_trans [OF 1] expected_next_adds [of st1] by (simp add: nx)
  have 3: "adds st (fst (resolveWorkflow r st2))" for r
    by (rule adds_trans [OF 2 adds_resolveWorkflow])
  show ?thesis
    using 1 2 3 by (cases b) (auto simp: assertEventIsExpected_def hn nx split: option.split workflow_event.split)
qed

lemma adds_push: "recorded wc \<Longrightarrow> adds st (push_call wc st)"
  by (cases "currentRun st") (simp_all add: push_call_def adds_def)

lemma adds_record:
  assumes "call_record c seq = Some ev"
  shows "adds st (fst (record_call c seq ev st))"
proof -
  have ok: "recorded \<lparr>wc_seq = seq, wc_call = c, wc_event = ev\<rparr>" using assms by (simp add: recorded_def)
  obtain b st1 where hn: "expected_hasNext st = (b, st1)" by fastforce
  have 1: "adds st st1" using expected_hasNext_adds [of st] by (simp add: hn)
  show ?thesis
    using adds_trans [OF 1 adds_assert] adds_trans [OF 1 adds_push [OF ok]] by (cases b) (simp_all add: record_call_def hn)
qed

lemma adds_fail: "adds st (fst (fail_and_throw err st))"
  using adds_resolveWorkflow [of st "Failed err"]
  by (auto simp: fail_and_throw_def split: prod.splits option.splits)

lemma adds_execute: "adds st (fst (execute wfl call st))"
proof (cases call)
  case (Some c)
  show ?thesis
  proof (cases "initializeEventual (wf_predicate wfl (user st)) c")
    case (Inl err)
    then show ?thesis using Some adds_fail by (simp add: execute_def)
  next
    case (Inr rd)
    obtain rs d where rd: "rd = (rs, d)" by fastforce
    let ?st1 = "(resolve_all rs st)\<lparr>nextSeq := Suc (nextSeq (resolve_all rs st))\<rparr>"
    let ?seq = "nextSeq (resolve_all rs st)"
    have 1: "adds st ?st1" by (rule adds_outer) simp_all
    obtain st2 thrown where st2: "(case createCallEvent d of None \<Rightarrow> (?st1, None)
        | Some create \<Rightarrow> record_call c ?seq (create ?seq) ?st1) = (st2, thrown)" by fastforce
    have 2: "adds ?st1 st2"
    proof (cases "createCallEvent d")
      case (Some create)
      have "call_record c ?seq = Some (create ?seq)" using call_record_event [OF _ Some] Inr rd by blast
      from adds_record [OF this, of ?st1] show ?thesis using st2 Some by simp
    qed (use st2 in simp)
    have 3: "adds st2 (make_eventual ?seq d st2)" by (rule adds_outer) simp_all
    show ?thesis
      using adds_trans [OF adds_trans [OF 1 2] 3] adds_trans [OF adds_trans [OF 1 2] adds_fail] st2
      by (simp add: execute_def Some Inr rd Let_def split: option.split)
  qed
qed (simp add: execute_def)

lemma adds_burst: "adds st (fst (run_burst wfl b st))"
proof (induction b arbitrary: st)
  case (Exec w c k)
  obtain st2 r where ex: "execute wfl c (st\<lparr>user := w\<rparr>) = (st2, r)" by fastforce
  have "adds st (st\<lparr>user := w\<rparr>)" by (rule adds_outer) simp_all
  also have "adds (st\<lparr>user := w\<rparr>) st2" using adds_execute [of "st\<lparr>user := w\<rparr>" wfl c] by (simp add: ex)
  also have "adds st2 (fst (run_burst wfl (k r) st2))" by (rule Exec.IH) simp
  finally show ?case by (simp add: ex)
next
  case (Watch p f b)
  have "adds st (watch p (UserReaction f) st)" by (rule adds_outer) simp_all
  from adds_trans [OF this Watch.IH] show ?case by simp
next
  case (SettleUser n r b)
  have "adds st (settle (UserPromise n) r st)" by (rule adds_outer) simp_all
  from adds_trans [OF this SettleUser.IH] show ?case by simp
qed (simp_all add: adds_outer)

lemma adds_handler: "adds st (fst (run_handler wfl h arg st))"
  by (cases h; cases arg) (simp_all add: run_handler_def adds_burst)

lemma adds_invoke: "adds st (fst (invokeEventualHandler wfl seq h arg st))"
proof -
  obtain st1 r where h: "run_handler wfl h arg st = (st1, r)" by fastforce
  have "adds st st1" using adds_handler [of st wfl h arg] by (simp add: h)
  also have "adds st1 (tryResolveEventual seq r st1)" by (rule adds_outer) simp_all
  finally show ?thesis by (simp add: invokeEventualHandler_def h)
qed

lemma adds_invoke_all: "adds st (fst (invoke_handlers wfl arg rs st))"
proof (induction rs arbitrary: st)
  case (Cons r rs)
  obtain st1 b where i: "invokeEventualHandler wfl (fst r) (snd r) arg st = (st1, b)" by fastforce
  have "adds st st1" using adds_invoke [of st wfl "fst r" "snd r" arg] by (simp add: i)
  then show ?case using adds_trans [OF _ Cons.IH] by (cases b) (simp_all add: i)
qed simp

lemma adds_apply: "adds st (fst (tryApplyEvent wfl e st))"
proof -
  obtain st1 err where c: "check_event_seq e st = (st1, err)" by fastforce
  have "adds st (fst (check_event_seq e st))"
    by (simp add: check_event_seq_def adds_resolveWorkflow split: option.split)
  then have 1: "adds st st1" by (simp add: c)
  obtain st2 b where i: "invoke_handlers wfl (Some e) (event_trigger_handlers e st1) st1 = (st2, b)" by fastforce
  have 2: "adds st st2"
    using adds_trans [OF 1 adds_invoke_all [of st1 wfl "Some e" "event_trigger_handlers e st1"]] by (simp add: i)
  show ?thesis
    using 1 2 adds_trans [OF 2 adds_invoke_all] adds_resolveWorkflow
    by (cases b) (auto simp: tryApplyEvent_def c i split: option.split)
qed

text \<open>An operation throws only when no run is active.\<close>

lemma resolveWorkflow_throws: "snd (resolveWorkflow r st) \<noteq> None \<Longrightarrow> currentRun st = None"
  by (auto simp: resolveWorkflow_def Let_def split: option.splits if_splits)

lemma resolveWorkflow_Some: "snd (resolveWorkflow r st) = Some err \<Longrightarrow> currentRun st = None"
  by (rule resolveWorkflow_throws [of r]) simp

lemma apply_throws:
  assumes "snd (tryApplyEvent wfl e st) \<noteq> None"
  shows "currentRun st = None"
proof -
  have "snd (check_event_seq e st) \<noteq> None \<Longrightarrow> currentRun st = None"
    by (auto simp: check_event_seq_def dest: resolveWorkflow_Some split: option.splits if_splits)
  then show ?thesis
    using assms resolveWorkflow_throws
    by (auto simp: tryApplyEvent_def split: if_splits prod.splits option.splits bool.splits)
qed

text \<open>
  The invariant: while a run is active something is under way that will complete it; a run
  that is over has a result; an error escapes only after the run is over.
\<close>

definition run_inv :: "'w executor \<Rightarrow> bool" where
  "run_inv st \<longleftrightarrow>
     events st \<le> length (history st) \<and>
     (currentRun st \<noteq> None \<longrightarrow> uncaught st = None \<and> (loop_jobs st \<noteq> [] \<or> ticks st \<noteq> [])) \<and>
     (currentRun st = None \<longrightarrow> finished st \<noteq> None) \<and>
     list_all recorded (the_default [] (currentRun st)) \<and> (\<forall>r. finished st = Some r \<longrightarrow> list_all recorded (wr_calls r))"

lemma run_inv_adds: "run_inv st \<Longrightarrow> adds st st' \<Longrightarrow> run_inv st'"
  by (auto simp: run_inv_def adds_def)

lemma run_inv_applyEvents:
  assumes "events st \<le> length (history st)" and "currentRun st \<noteq> None \<longrightarrow> uncaught st = None"
    and "currentRun st = None \<longrightarrow> finished st \<noteq> None"
    and "list_all recorded (the_default [] (currentRun st))" and "\<forall>r. finished st = Some r \<longrightarrow> list_all recorded (wr_calls r)"
  shows "run_inv (applyEvents st)"
proof -
  obtain b c where hn: "iter_hasNext (Some isCompletionEvent) (history st) (events st) = (b, c)" by fastforce
  have c: "c \<le> length (history st)" "b \<longleftrightarrow> iter_rest (Some isCompletionEvent) (history st) c \<noteq> []"
    using it.hasnext_iff [OF assms(1), of "Some isCompletionEvent"] it.hasnext_rest [OF assms(1), of "Some isCompletionEvent"]
      it.hasnext_inv [OF assms(1), of "Some isCompletionEvent"] by (simp_all add: hn)
  show ?thesis
  proof (cases "b \<and> \<not> stopped st")
    case True
    then obtain e es where "iter_rest (Some isCompletionEvent) (history st) c = e # es"
      using c(2) by (auto simp: neq_Nil_conv)
    from it.nxt_Cons [OF c(1) this] obtain c' where
      "iter_next (Some isCompletionEvent) (history st) c = (Some e, c')" "c' \<le> length (history st)" by blast
    then show ?thesis
      using True assms by (simp add: applyEvents_def hn run_inv_def add_tick_def)
  next
    case False
    then show ?thesis using assms c(1) by (auto simp: applyEvents_def hn run_inv_def)
  qed
qed

lemma run_inv_tick:
  assumes inv: "run_inv (st\<lparr>ticks := t # ts\<rparr>)" and un: "uncaught st = None"
  shows "run_inv (run_tick wfl t (st\<lparr>ticks := ts\<rparr>))"
proof (cases t)
  case (ApplyEvent e)
  obtain st1 err where ap: "tryApplyEvent wfl e (st\<lparr>ticks := ts\<rparr>) = (st1, err)" by fastforce
  have "adds (st\<lparr>ticks := ts\<rparr>) st1" using adds_apply [of "st\<lparr>ticks := ts\<rparr>" wfl e] by (simp add: ap)
  then show ?thesis
    using inv un apply_throws [of wfl e "st\<lparr>ticks := ts\<rparr>"] ApplyEvent
    by (cases err) (auto simp: run_tick_def ap crash_def run_inv_def adds_def)
next
  case (CompleteRun r)
  then show ?thesis
    using inv un by (cases "currentRun st") (auto simp: run_tick_def completeCurrentRun_def run_inv_def Let_def)
qed

lemma run_inv_job:
  assumes inv: "run_inv (st\<lparr>jobs := j # js\<rparr>)" and un: "uncaught st = None"
  shows "run_inv (run_job wfl j (st\<lparr>jobs := js\<rparr>))"
proof -
  let ?st = "st\<lparr>jobs := js\<rparr>"
  have user: "run_inv ?st" if "user_job j" using inv that by (simp add: run_inv_def)
  show ?thesis
  proof (cases j)
    case (Reaction r res)
    then show ?thesis
      using run_inv_adds [OF user adds_burst] run_inv_adds [OF user adds_invoke]
      by (cases r) (simp_all add: run_job_def)
  next
    case (WorkflowReturned r)
    obtain st1 err where rw: "resolveWorkflow r ?st = (st1, err)" by fastforce
    have a: "adds ?st st1" using adds_resolveWorkflow [of ?st r] by (simp add: rw)
    have "run_inv st1" by (rule run_inv_adds [OF user a]) (simp add: WorkflowReturned)
    moreover have "err \<noteq> None \<Longrightarrow> currentRun st1 = None"
      using resolveWorkflow_throws [of r ?st] a by (simp add: rw adds_def)
    ultimately show ?thesis
      using WorkflowReturned by (cases err) (auto simp: run_job_def rw crash_def run_inv_def)
  next
    case ContinueApply
    then show ?thesis
      using inv by (simp add: run_job_def) (rule run_inv_applyEvents, auto simp: run_inv_def)
  next
    case AfterApply
    then show ?thesis
      using inv by (cases "currentRun st") (auto simp: run_job_def run_inv_def add_tick_def)
  qed
qed

lemma run_inv_step: "run_inv st \<Longrightarrow> loop_step wfl st = Some st' \<Longrightarrow> run_inv st'"
proof -
  assume inv: "run_inv st" and step: "loop_step wfl st = Some st'"
  have un: "uncaught st = None" using step by (auto simp: loop_step_def split: if_splits)
  show "run_inv st'"
  proof (cases "phase st")
    case Ticks
    show ?thesis
    proof (cases "ticks st")
      case Nil
      then show ?thesis using inv step un Ticks by (auto simp: loop_step_def run_inv_def)
    next
      case (Cons t ts)
      then have "run_inv (st\<lparr>ticks := t # ts\<rparr>)" using inv by (simp add: run_inv_def)
      from run_inv_tick [OF this un, of wfl] show ?thesis using step un Ticks Cons by (simp add: loop_step_def)
    qed
  next
    case Microtasks
    show ?thesis
    proof (cases "jobs st")
      case Nil
      then show ?thesis using inv step un Microtasks by (auto simp: loop_step_def run_inv_def split: if_splits)
    next
      case (Cons j js)
      then have "run_inv (st\<lparr>jobs := j # js\<rparr>)" using inv by (simp add: run_inv_def loop_jobs_def)
      from run_inv_job [OF this un, of wfl] show ?thesis using step un Microtasks Cons by (simp add: loop_step_def)
    qed
  qed
qed

lemma event_loop_run_inv:
  assumes "event_loop wfl st = Some st'" and "run_inv st"
  shows "run_inv st' \<and> loop_step wfl st' = None"
proof -
  have "run_inv st \<longrightarrow> run_inv st' \<and> loop_step wfl st' = None"
  proof (rule event_loop.raw_induct [where P = "\<lambda>wfl st st'. run_inv st \<longrightarrow> run_inv st' \<and> loop_step wfl st' = None",
      OF _ assms(1)], rule impI)
    fix loop wfl and st st' :: "'a executor"
    assume "\<And>wfl st st'. loop wfl st = Some st' \<Longrightarrow> run_inv st \<longrightarrow> run_inv st' \<and> loop_step wfl st' = None"
      and "(case loop_step wfl st of None \<Rightarrow> Some st | Some st1 \<Rightarrow> loop wfl st1) = Some st'" and "run_inv st"
    then show "run_inv st' \<and> loop_step wfl st' = None"
      using run_inv_step [of st wfl] by (cases "loop_step wfl st") auto
  qed
  then show ?thesis using assms(2) by simp
qed

lemma idle_run_over: "run_inv st \<Longrightarrow> loop_step wfl st = None \<Longrightarrow> currentRun st = None"
  by (auto simp: run_inv_def loop_step_def loop_jobs_def split: if_splits phase.splits list.splits)


lemma run_inv_start:
  assumes "start wfl args st = Inr st'" and "events st \<le> length (history st)" and "uncaught st = None"
  shows "run_inv st'"
proof -
  from assms obtain inp ctx evs where
    st': "st' = applyEvents (start_definition wfl inp ctx
        (begin_run ((addHistoryEvents evs st)\<lparr>started := True, finished := None\<rparr>)))"
    by (auto simp: start_def Let_def split: if_splits sum.splits)
  let ?b = "begin_run ((addHistoryEvents evs st)\<lparr>started := True, finished := None\<rparr>)"
  obtain st1 err where rb: "run_burst wfl (wf_definition wfl inp ctx) ?b = (st1, err)" by fastforce
  have "adds ?b st1" using adds_burst [of ?b wfl "wf_definition wfl inp ctx"] by (simp add: rb)
  then have "adds ?b (start_definition wfl inp ctx ?b)"
    using adds_resolveWorkflow by (auto simp: start_definition_def rb intro: adds_trans split: option.split)
  then show ?thesis
    unfolding st' using assms by (intro run_inv_applyEvents) (auto simp: adds_def begin_run_def addHistoryEvents_def)
qed

lemma run_inv_continue:
  assumes "continue evs st = Inr st'" and "events st \<le> length (history st)" and "uncaught st = None"
  shows "run_inv st'"
proof -
  let ?b = "begin_run ((addHistoryEvents evs st)\<lparr>finished := None\<rparr>)"
  have "st' = applyEvents ?b" using assms(1) by (simp add: continue_def split: if_splits)
  moreover have "run_inv (applyEvents ?b)"
    by (rule run_inv_applyEvents) (use assms in \<open>simp_all add: begin_run_def addHistoryEvents_def\<close>)
  ultimately show ?thesis by simp
qed

text \<open>The calls a run returns carry the events of their calls.\<close>

lemma run_start_recorded:
  assumes "run_start wfl args (new_executor wfl hist) = Some (Inr st')" and "finished st' = Some r"
  shows "list_all recorded (wr_calls r)"
proof -
  obtain st where st: "start wfl args (new_executor wfl hist) = Inr st" "event_loop wfl st = Some st'"
    using assms(1) by (auto simp: run_start_def split: sum.splits)
  have "run_inv st" by (rule run_inv_start [OF st(1)]) (simp_all add: new_executor_def)
  from event_loop_run_inv [OF st(2) this] show ?thesis using assms(2) by (auto simp: run_inv_def)
qed

lemma run_continue_recorded:
  assumes "run_continue wfl evs st = Some (Inr st')" and "finished st' = Some r" and "rests st s"
  shows "list_all recorded (wr_calls r)"
proof -
  obtain st1 where st1: "continue evs st = Inr st1" "event_loop wfl st1 = Some st'"
    using assms(1) by (auto simp: run_continue_def split: sum.splits)
  have "run_inv st1" by (rule run_inv_continue [OF st1(1)]) (use assms(3) in \<open>simp_all add: rests_def\<close>)
  from event_loop_run_inv [OF st1(2) this] show ?thesis using assms(2) by (auto simp: run_inv_def)
qed

text \<open>
  C6 (liveness): the promise of a run always resolves. Whatever the workflow, the history and
  the events are (an unexpected call, a timeout, an error included), when the event loop has
  nothing left to do after \<open>start\<close>, the run is over and its result is there.
\<close>

theorem started_run_completes:
  assumes "start wfl args (new_executor wfl hist) = Inr st" and "event_loop wfl st = Some st'"
  shows "currentRun st' = None \<and> finished st' \<noteq> None"
proof -
  have "run_inv st" by (rule run_inv_start [OF assms(1)]) (simp_all add: new_executor_def)
  from event_loop_run_inv [OF assms(2) this] have "run_inv st'" "loop_step wfl st' = None" by auto
  moreover from this have "currentRun st' = None" by (rule idle_run_over)
  ultimately show ?thesis by (simp add: run_inv_def)
qed

text \<open>
  C7 (error): a call that is not the one the history expects next. The call still returns a
  promise, but the workflow has failed with a DeterminismError that names both events, the
  executor is stopped, which ends the run with that error, and nothing is emitted for the call.
\<close>

theorem unexpected_call_stops:
  assumes run: "currentRun st = Some cs"
    and "initializeEventual (wf_predicate wfl (user st)) c = Inr ([], d)" and "createCallEvent d = Some create"
    and le: "expected st \<le> length (history st)" and exp: "expected_rest st = CallEvent t e # es"
    and diff: "\<not> same_call e (create (nextSeq st))"
  shows "\<exists>st'. execute wfl (Some c) st = (st', GotPromise (EventualPromise (nextSeq st))) \<and> stopped st' \<and>
      (let err = Failed (mk_DeterminismError (Some (determinism_message (create (nextSeq st)) e))) in
         result st' = Some err \<and> CompleteRun (Some err) \<in> set (ticks st')) \<and>
      currentRun st' = Some cs \<and> expected_rest st' = es \<and>
      (\<forall>seq h arg. invokeEventualHandler wfl seq h arg st' = (st', False))"
proof -
  let ?ini = "st\<lparr>nextSeq := Suc (nextSeq st)\<rparr>" and ?ev = "create (nextSeq st)"
  let ?err = "Failed (mk_DeterminismError (Some (determinism_message ?ev e)))"
  have le1: "expected ?ini \<le> length (history ?ini)" and exp1: "expected_rest ?ini = CallEvent t e # es"
    using le exp by (simp_all add: expected_rest_def)
  from le1 obtain c1 where hn: "expected_hasNext ?ini = (True, ?ini\<lparr>expected := c1\<rparr>)"
      "c1 \<le> length (history st)" "expected_rest (?ini\<lparr>expected := c1\<rparr>) = CallEvent t e # es"
    using exp1 by (rule_tac expected_hasNext_rest [OF le1]) simp
  have le2: "expected (?ini\<lparr>expected := c1\<rparr>) \<le> length (history (?ini\<lparr>expected := c1\<rparr>))" using hn(2) by simp
  from expected_hasNext_rest [OF le2] hn(3) obtain c2 where
    hn2: "expected_hasNext (?ini\<lparr>expected := c1\<rparr>) = (True, ?ini\<lparr>expected := c2\<rparr>)"
      "c2 \<le> length (history st)" "expected_rest (?ini\<lparr>expected := c2\<rparr>) = CallEvent t e # es" by auto
  have le3: "expected (?ini\<lparr>expected := c2\<rparr>) \<le> length (history (?ini\<lparr>expected := c2\<rparr>))" using hn2(2) by simp
  from expected_next_rest [OF le3 hn2(3)] obtain c3 where
    nx: "expected_next (?ini\<lparr>expected := c2\<rparr>) = (Some (CallEvent t e), ?ini\<lparr>expected := c3\<rparr>)"
      "expected_rest (?ini\<lparr>expected := c3\<rparr>) = es" by auto
  let ?st3 = "?ini\<lparr>expected := c3\<rparr>"
  have sys: "is_system_failure ?err" by (simp add: is_system_failure_def mk_DeterminismError_def)
  let ?st4 = "add_tick (CompleteRun (Some ?err)) (set_result ?err ?st3)"
  have "record_call c (nextSeq st) ?ev ?ini = resolveWorkflow ?err ?st3"
    using diff by (simp add: record_call_def assertEventIsExpected_def hn hn2 nx same_call_def)
  also have "\<dots> = (?st4, None)" using run sys by (simp add: resolveWorkflow_def Let_def)
  finally have rec: "record_call c (nextSeq st) ?ev ?ini = (?st4, None)" .
  let ?st5 = "make_eventual (nextSeq st) d ?st4"
  have ex: "execute wfl (Some c) st = (?st5, GotPromise (EventualPromise (nextSeq st)))"
    using assms(2,3) rec by (simp add: execute_def resolve_all_def Let_def)
  have out: "outer ?st5 = outer ?st4" "stopped ?st5 = stopped ?st4" "result ?st5 = result ?st4"
    by (rule outer_make_eventual stopped_make_eventual result_make_eventual)+
  have "stopped ?st4" "result ?st4 = Some ?err" "CompleteRun (Some ?err) \<in> set (ticks ?st4)"
      "currentRun ?st4 = Some cs" "expected_rest ?st4 = es"
    using sys run nx(2) by (simp_all add: add_tick_def set_result_def expected_rest_def)
  with out have "stopped ?st5" "result ?st5 = Some ?err" "CompleteRun (Some ?err) \<in> set (ticks ?st5)"
      "currentRun ?st5 = Some cs" "expected_rest ?st5 = es"
    by (simp_all add: outer_def expected_rest_def)
  with ex show ?thesis by (auto simp: Let_def invokeEventualHandler_def)
qed


lemma started_run_completes_witness:
  "\<exists>st st'. start sample_workflow (StartEvents sample_history) (new_executor sample_workflow []) = Inr st \<and>
     event_loop sample_workflow st = Some st' \<and> currentRun st' = None \<and> finished st' \<noteq> None"
proof -
  obtain s where s: "spec_run sample_workflow (JNum 7) sample_context
      [WorkflowRunStarted ''r1'' 1, TaskSucceeded 0 5 (JStr ''ok'')] = Some s" "\<not> stopped s"
    by (rule sample_run)
  from start_refinement [of "[]" "StartEvents sample_history" "JNum 7" sample_context sample_history
      sample_history sample_workflow s] s
  obtain st2 where "run_start sample_workflow (StartEvents sample_history) (new_executor sample_workflow []) = Some (Inr st2)"
    by (auto simp: sample_events_eval)
  then obtain st where st: "start sample_workflow (StartEvents sample_history) (new_executor sample_workflow []) = Inr st"
      "event_loop sample_workflow st = Some st2"
    by (auto simp: run_start_def split: sum.splits)
  from started_run_completes [OF this] st show ?thesis by blast
qed

definition sample_replaying :: "nat executor" where
  "sample_replaying =
     begin_run (new_executor sample_workflow [CallEvent 1 (TaskScheduled 0 ''refund'' JUndef)])"

lemma unexpected_call_stops_witness:
  "\<exists>st'. execute sample_workflow (Some (TaskCall ''charge'' (JNum 7) None NoTimeout)) sample_replaying =
      (st', GotPromise (EventualPromise 0)) \<and> stopped st' \<and> currentRun st' = Some []"
proof -
  let ?c = "TaskCall ''charge'' (JNum 7) None NoTimeout"
  have "currentRun sample_replaying = Some []" "user sample_replaying = 0" "nextSeq sample_replaying = 0"
      "expected sample_replaying \<le> length (history sample_replaying)"
      "expected_rest sample_replaying = [CallEvent 1 (TaskScheduled 0 ''refund'' JUndef)]"
    by (simp_all add: sample_replaying_def begin_run_def new_executor_def sample_workflow_def expected_rest_def
        iter_rest_start isCallEvent_def)
  moreover have "\<not> same_call (TaskScheduled 0 ''refund'' JUndef) (TaskScheduled 0 ''charge'' (JNum 7))"
    by code_simp
  ultimately show ?thesis
    using unexpected_call_stops [of sample_replaying "[]" sample_workflow ?c
        "TaskCallEventualFactory ''charge'' (JNum 7) NoTimeout" "\<lambda>seq. TaskScheduled seq ''charge'' (JNum 7)"
        1 "TaskScheduled 0 ''refund'' JUndef" "[]"]
    by (auto simp: TaskCallEventualFactory_def)
qed

end
