(* ===== verification/WorkflowInvariants.thy ===== *)
theory WorkflowInvariants
  imports WorkflowRuns
begin

text \<open>
  The invariant of the executor's tables during a run, for every workflow and every history:
  a handler is registered only for an active eventual, the promise of an eventual has settled
  exactly when it is no longer active, a promise that has settled keeps its value, and the
  calls to emit are numbered in the order they were made, each event with its call's number.
\<close>

definition table_inv :: "('w, 'z) core_scheme \<Rightarrow> bool" where
  "table_inv c \<longleftrightarrow>
     nr_inv (activeEventuals c) \<and> nr_inv (handlers_events c) \<and> nr_inv (handlers_afterEveryEvent c) \<and>
     om_inv (handlers_signals c) \<and>
     (\<forall>sig hs. om_get (handlers_signals c) sig = Some hs \<longrightarrow> nr_inv hs)"

definition handlers_active :: "('w, 'z) core_scheme \<Rightarrow> bool" where
  "handlers_active c \<longleftrightarrow>
     (\<forall>s. nr_get (handlers_events c) s \<noteq> None \<longrightarrow> nr_get (activeEventuals c) s \<noteq> None) \<and>
     (\<forall>s. nr_get (handlers_afterEveryEvent c) s \<noteq> None \<longrightarrow> nr_get (activeEventuals c) s \<noteq> None) \<and>
     (\<forall>sig hs s. om_get (handlers_signals c) sig = Some hs \<longrightarrow> nr_get hs s \<noteq> None \<longrightarrow>
        (\<exists>sigs. nr_get (activeEventuals c) s = Some sigs \<and> sig \<in> set sigs))"

definition settled :: "promise_state \<Rightarrow> bool" where
  "settled p = (case p of Settled r \<Rightarrow> True | Pending rs \<Rightarrow> False)"

definition promises_inv :: "nat \<Rightarrow> ('w, 'z) core_scheme \<Rightarrow> bool" where
  "promises_inv n c \<longleftrightarrow>
     (\<forall>s. nr_get (activeEventuals c) s \<noteq> None \<longrightarrow> s < n) \<and>
     (\<forall>s < n. settled (promises c (EventualPromise s)) \<longleftrightarrow> nr_get (activeEventuals c) s = None)"

definition eventual_inv :: "nat \<Rightarrow> ('w, 'z) core_scheme \<Rightarrow> bool" where
  "eventual_inv n c \<longleftrightarrow> table_inv c \<and> handlers_active c \<and> promises_inv n c"

lemmas inv_defs = eventual_inv_def table_inv_def handlers_active_def promises_inv_def

lemma eventual_inv_enqueue [simp]: "eventual_inv n (enqueue js c) = eventual_inv n c"
  by (simp add: inv_defs enqueue_def)

lemma settled_simps [simp]: "settled (Settled r)" "\<not> settled (Pending rs)"
  by (simp_all add: settled_def)

lemma eventual_inv_watch [simp]: "eventual_inv n (watch p r c) = eventual_inv n c"
proof (cases "promises c p")
  case (Pending rs)
  then have "settled (((promises c)(p := Pending (rs @ [r]))) q) = settled (promises c q)" for q by simp
  then show ?thesis using Pending by (simp add: inv_defs watch_def)
qed (simp add: watch_def)

lemma eventual_inv_settle_user [simp]: "eventual_inv n (settle (UserPromise i) r c) = eventual_inv n c"
  by (simp add: settle_def inv_defs enqueue_def split: promise_state.split)

text \<open>Deleting a sequence number from the handlers of its signals.\<close>

lemma delete_signal_handler_inv:
  "om_inv t \<Longrightarrow> om_inv (delete_signal_handler seq sig t)"
  by (simp add: delete_signal_handler_def om.inv_set split: option.split)

lemma delete_signal_handler_get:
  "om_inv t \<Longrightarrow> om_get (delete_signal_handler seq sig t) sig' =
     (if sig' = sig then map_option (nr_del seq) (om_get t sig) else om_get t sig')"
  by (simp add: delete_signal_handler_def om.get_set split: option.split)

lemma fold_delete_signal_inv:
  "om_inv t \<Longrightarrow> om_inv (fold (delete_signal_handler seq) sigs t)"
  by (induction sigs arbitrary: t) (simp_all add: delete_signal_handler_inv)

lemma nr_del_del [simp]: "nr_del s (nr_del s t) = nr_del s t"
  by (simp add: nr_del_def)

lemma fold_delete_signal_get:
  "om_inv t \<Longrightarrow> om_get (fold (delete_signal_handler seq) sigs t) sig =
     (if sig \<in> set sigs then map_option (nr_del seq) (om_get t sig) else om_get t sig)"
proof (induction sigs arbitrary: t)
  case (Cons a sigs)
  then show ?case
    by (cases "om_get t sig") (auto simp: delete_signal_handler_inv delete_signal_handler_get)
qed simp

lemma table_inv_deactivate: "table_inv c \<Longrightarrow> table_inv (deactivateEventual seq c)"
  by (auto simp: table_inv_def deactivateEventual_def nr.inv_del fold_delete_signal_inv fold_delete_signal_get
      split: option.splits if_splits)

lemma handlers_active_deactivate:
  assumes t: "table_inv c" and h: "handlers_active c"
  shows "handlers_active (deactivateEventual seq c)"
proof (cases "nr_get (activeEventuals c) seq")
  case (Some sigs)
  have 1: "nr_inv (activeEventuals c)" "nr_inv (handlers_events c)" "nr_inv (handlers_afterEveryEvent c)"
    "om_inv (handlers_signals c)" using t by (simp_all add: table_inv_def)
  have "\<exists>sigs'. nr_get (nr_del seq (activeEventuals c)) s = Some sigs' \<and> sig \<in> set sigs'"
    if get: "om_get (fold (delete_signal_handler seq) sigs (handlers_signals c)) sig = Some hs" "nr_get hs s \<noteq> None"
    for sig hs s
  proof -
    obtain hs' where hs': "om_get (handlers_signals c) sig = Some hs'" "hs = (if sig \<in> set sigs then nr_del seq hs' else hs')"
      using get(1) 1(4) by (auto simp: fold_delete_signal_get split: if_splits)
    then have "nr_get hs' s \<noteq> None" "s = seq \<Longrightarrow> sig \<notin> set sigs"
      using get(2) nr.get_del [of hs' seq] t
      by (auto simp: table_inv_def split: if_splits)
    with h hs'(1) obtain sigs' where "nr_get (activeEventuals c) s = Some sigs'" "sig \<in> set sigs'"
      unfolding handlers_active_def by blast
    then show ?thesis using \<open>s = seq \<Longrightarrow> sig \<notin> set sigs\<close> Some 1 by (auto simp: nr.get_del)
  qed
  then show ?thesis
    using Some 1 h by (auto simp: handlers_active_def deactivateEventual_def nr.get_del)
qed (use h in \<open>simp add: deactivateEventual_def\<close>)

lemma deactivate_active:
  "nr_inv (activeEventuals c) \<Longrightarrow>
     nr_get (activeEventuals (deactivateEventual seq c)) = (nr_get (activeEventuals c))(seq := None)"
  by (auto simp: deactivateEventual_def nr.get_del split: option.split)

lemma deactivate_promises [simp]: "promises (deactivateEventual seq c) = promises c"
  by (simp add: deactivateEventual_def split: option.split)

lemma settle_tables [simp]:
  "activeEventuals (settle p r c) = activeEventuals c" "handlers_events (settle p r c) = handlers_events c"
  "handlers_afterEveryEvent (settle p r c) = handlers_afterEveryEvent c"
  "handlers_signals (settle p r c) = handlers_signals c" "nextSeq (settle p r c) = nextSeq c"
  by (simp_all add: settle_def enqueue_def split: promise_state.split)

lemma settle_promises: "promises (settle p r c) = (promises c)(p := (case promises c p of Pending _ \<Rightarrow> Settled r | q \<Rightarrow> q))"
  by (auto simp: settle_def enqueue_def fun_eq_iff split: promise_state.split)

lemma eventual_inv_resolve:
  assumes "eventual_inv n c"
  shows "eventual_inv n (tryResolveEventual seq r c)"
proof (cases "\<exists>res. r = Some res \<and> nr_has (activeEventuals c) seq")
  case True
  then obtain res where r: "r = Some res" "nr_has (activeEventuals c) seq" by blast
  let ?d = "deactivateEventual seq c"
  have t: "table_inv ?d" "handlers_active ?d"
    using assms by (simp_all add: eventual_inv_def table_inv_deactivate handlers_active_deactivate)
  then have "table_inv (settle (EventualPromise seq) res ?d)" "handlers_active (settle (EventualPromise seq) res ?d)"
    by (simp_all add: table_inv_def handlers_active_def)
  moreover have "promises_inv n (settle (EventualPromise seq) res ?d)"
    using assms r by (auto simp: promises_inv_def eventual_inv_def table_inv_def deactivate_active settle_promises
        nr_has_def split: promise_state.split)
  ultimately show ?thesis using r by (simp add: tryResolveEventual_def eventual_inv_def)
next
  case False
  then show ?thesis using assms by (auto simp: tryResolveEventual_def split: option.split)
qed

lemma add_signal_handler_get:
  "om_inv m \<Longrightarrow> om_get (add_signal_handler seq t m) sig =
     (case t of SignalTrigger s h \<Rightarrow>
        if s = sig then Some (nr_set seq h (the_default [] (om_get m s))) else om_get m sig
      | _ \<Rightarrow> om_get m sig)"
  by (auto simp: add_signal_handler_def om.get_set split: trigger.split)

lemma add_signal_handler_inv: "om_inv m \<Longrightarrow> om_inv (add_signal_handler seq t m)"
  by (simp add: add_signal_handler_def om.inv_set split: trigger.split)

text \<open>Adding handlers for one sequence number leaves those of others, and is listed in \<open>trigger_signals\<close>.\<close>

lemma fold_add_signal:
  assumes "om_inv m" and "\<And>sig hs. om_get m sig = Some hs \<Longrightarrow> nr_inv hs"
    and "om_get (fold (add_signal_handler seq) ts m) sig = Some hs"
  shows "nr_inv hs \<and> (nr_get hs s \<noteq> None \<longrightarrow>
    (\<exists>hs'. om_get m sig = Some hs' \<and> nr_get hs' s \<noteq> None) \<or> s = seq \<and> sig \<in> set (trigger_signals ts))"
  using assms
proof (induction ts arbitrary: m)
  case (Cons t ts)
  let ?m = "add_signal_handler seq t m"
  have inv: "om_inv ?m" by (rule add_signal_handler_inv [OF Cons.prems(1)])
  have nr0: "nr_inv (the_default [] (om_get m g))" for g
    using Cons.prems(2) [of g] by (cases "om_get m g") (simp_all add: nr.inv_empty)
  have nri: "nr_inv hs" if "om_get ?m g = Some hs" for g hs
    using that Cons.prems(2) nr0 by (auto simp: add_signal_handler_get [OF Cons.prems(1)] nr.inv_set split: trigger.splits if_splits)
  from Cons.IH [OF inv nri] Cons.prems(3) have IH: "nr_inv hs" "nr_get hs s \<noteq> None \<longrightarrow>
      (\<exists>hs'. om_get ?m sig = Some hs' \<and> nr_get hs' s \<noteq> None) \<or> s = seq \<and> sig \<in> set (trigger_signals ts)"
    by auto
  have "(\<exists>hs'. om_get m sig = Some hs' \<and> nr_get hs' s \<noteq> None) \<or> s = seq \<and> sig \<in> set (trigger_signals (t # ts))"
    if hs': "om_get ?m sig = Some hs'" "nr_get hs' s \<noteq> None" for hs'
  proof (cases t)
    case (SignalTrigger g h)
    show ?thesis
    proof (cases "g = sig")
      case True
      then have "hs' = nr_set seq h (the_default [] (om_get m sig))"
        using hs'(1) SignalTrigger by (simp add: add_signal_handler_get [OF Cons.prems(1)])
      then show ?thesis
        using hs'(2) nr.get_set [OF nr0 [of sig]] True SignalTrigger
        by (cases "om_get m sig") (auto simp: trigger_signals_def isSignalTrigger_def nr.get_empty split: if_splits)
    next
      case False
      then show ?thesis using hs' SignalTrigger by (simp add: add_signal_handler_get [OF Cons.prems(1)])
    qed
  qed (use hs' in \<open>simp_all add: add_signal_handler_get [OF Cons.prems(1)]\<close>)
  moreover have "set (trigger_signals ts) \<subseteq> set (trigger_signals (t # ts))"
    by (auto simp: trigger_signals_def)
  ultimately show ?case using IH by blast
qed simp

lemma trigger_signals_filter [simp]: "trigger_signals (filter isSignalTrigger ts) = trigger_signals ts"
  by (simp add: trigger_signals_def)

lemma fold_add_signal_inv: "om_inv m \<Longrightarrow> om_inv (fold (add_signal_handler seq) ts m)"
  by (induction ts arbitrary: m) (simp_all add: add_signal_handler_inv)

section \<open>Activation\<close>

lemma watch_trigger_inv [simp]: "eventual_inv n (watch_trigger seq t c) = eventual_inv n c"
  by (simp add: watch_trigger_def split: trigger.split timeout.split)

lemma fold_watch_trigger_inv [simp]: "eventual_inv n (fold (watch_trigger seq) ts c) = eventual_inv n c"
  by (induction ts arbitrary: c) simp_all

text \<open>The states between the steps: \<open>seq\<close> is active already, with these signals.\<close>

lemma eventual_inv_promise:
  assumes "eventual_inv n c"
  shows "eventual_inv (Suc n) (activate_promise n ts c) \<and>
    nr_get (activeEventuals (activate_promise n ts c)) n = Some (trigger_signals ts)"
proof -
  have i: "nr_inv (activeEventuals c)" using assms by (simp add: inv_defs)
  have a: "nr_get (activeEventuals (activate_promise n ts c)) = (nr_get (activeEventuals c))(n \<mapsto> trigger_signals ts)"
    using i by (simp add: activate_promise_def nr.get_set)
  have fresh: "nr_get (activeEventuals c) n = None"
    using assms by (cases "nr_get (activeEventuals c) n") (auto simp: inv_defs)
  have "table_inv (activate_promise n ts c)"
    using assms i by (simp add: inv_defs activate_promise_def nr.inv_set)
  moreover have "handlers_active (activate_promise n ts c)"
  proof -
    have "nr_get (activeEventuals c) s \<noteq> None \<Longrightarrow> s \<noteq> n" for s using fresh by auto
    then show ?thesis
      using assms unfolding eventual_inv_def handlers_active_def a
      by (simp add: activate_promise_def) (metis fresh option.discI)
  qed
  moreover have "promises_inv (Suc n) (activate_promise n ts c)"
    using assms unfolding eventual_inv_def promises_inv_def a
    by (auto simp: activate_promise_def less_Suc_eq)
  ultimately show ?thesis using a by (simp add: eventual_inv_def)
qed

lemma eventual_inv_events:
  assumes "eventual_inv n c" and "nr_get (activeEventuals c) seq = Some sigs"
  shows "eventual_inv n (activate_events seq ts c)"
  using assms by (auto simp: inv_defs activate_events_def nr.inv_set nr.get_set split: if_splits)

lemma eventual_inv_signals:
  assumes inv: "eventual_inv n c" and act: "nr_get (activeEventuals c) seq = Some (trigger_signals ts)"
  shows "eventual_inv n (activate_signals seq ts c)"
proof -
  have i: "om_inv (handlers_signals c)" "\<And>sig hs. om_get (handlers_signals c) sig = Some hs \<Longrightarrow> nr_inv hs"
    using inv by (auto simp: inv_defs)
  have f: "nr_inv hs \<and> (nr_get hs s \<noteq> None \<longrightarrow>
      (\<exists>hs'. om_get (handlers_signals c) sig = Some hs' \<and> nr_get hs' s \<noteq> None) \<or>
      s = seq \<and> sig \<in> set (trigger_signals ts))"
    if "om_get (fold (add_signal_handler seq) (filter isSignalTrigger ts) (handlers_signals c)) sig = Some hs"
    for sig hs s
    using fold_add_signal [OF i(1) _ that, of s] i(2) by simp
  have h: "\<exists>sigs. nr_get (activeEventuals c) s = Some sigs \<and> sig \<in> set sigs"
    if "om_get (fold (add_signal_handler seq) (filter isSignalTrigger ts) (handlers_signals c)) sig = Some hs"
      "nr_get hs s \<noteq> None" for sig hs s
  proof -
    from f [OF that(1), of s] that(2) consider
        (old) hs' where "om_get (handlers_signals c) sig = Some hs'" "nr_get hs' s \<noteq> None"
      | (new) "s = seq" "sig \<in> set (trigger_signals ts)" by auto
    then show ?thesis
    proof cases
      case old
      then show ?thesis using inv unfolding eventual_inv_def handlers_active_def by blast
    next
      case new
      then show ?thesis using act by blast
    qed
  qed
  have "table_inv (activate_signals seq ts c)"
    using inv i f by (simp add: inv_defs activate_signals_def fold_add_signal_inv)
  moreover have "handlers_active (activate_signals seq ts c)"
    using inv h unfolding eventual_inv_def handlers_active_def by (simp add: activate_signals_def)
  moreover have "promises_inv n (activate_signals seq ts c)"
    using inv by (simp add: inv_defs activate_signals_def)
  ultimately show ?thesis by (simp add: eventual_inv_def)
qed

lemma eventual_inv_after:
  assumes "eventual_inv n c" and "nr_get (activeEventuals c) seq = Some sigs"
  shows "eventual_inv n (activate_after seq ts c)"
  using assms by (auto simp: inv_defs activate_after_def nr.inv_set nr.get_set split: list.split trigger.split)

lemma activate_steps_active [simp]:
  "activeEventuals (activate_events seq ts c) = activeEventuals c"
  "activeEventuals (activate_promise_triggers seq ts c) = activeEventuals c"
  "activeEventuals (activate_signals seq ts c) = activeEventuals c"
  by (simp_all add: activate_defs)

lemma eventual_inv_activate:
  assumes "eventual_inv n c"
  shows "eventual_inv (Suc n) (activateEventual n triggers c)"
proof -
  let ?ts = "defined_triggers triggers"
  let ?c1 = "activate_promise n ?ts c"
  have 1: "eventual_inv (Suc n) ?c1" "nr_get (activeEventuals ?c1) n = Some (trigger_signals ?ts)"
    using eventual_inv_promise [OF assms] by auto
  let ?c2 = "activate_events n ?ts ?c1"
  have 2: "eventual_inv (Suc n) ?c2" by (rule eventual_inv_events [OF 1])
  let ?c3 = "activate_promise_triggers n ?ts ?c2"
  have 3: "eventual_inv (Suc n) ?c3" using 2 by (simp add: activate_promise_triggers_def)
  let ?c4 = "activate_signals n ?ts ?c3"
  have 4: "eventual_inv (Suc n) ?c4" by (rule eventual_inv_signals [OF 3]) (simp add: 1)
  show ?thesis
    unfolding activateEventual_def Let_def by (rule eventual_inv_after [OF 4]) (simp add: 1)
qed

lemma eventual_inv_make:
  assumes "eventual_inv n c"
  shows "eventual_inv (Suc n) (make_eventual n d c)"
proof (cases d)
  case (ResolvedEventualDefinition create res)
  have "nr_get (activeEventuals c) n = None"
    using assms by (cases "nr_get (activeEventuals c) n") (auto simp: inv_defs)
  then show ?thesis
    using assms by (auto simp: make_eventual_def createResolvedPromise_def inv_defs less_Suc_eq ResolvedEventualDefinition)
qed (simp add: make_eventual_def eventual_inv_activate assms)


section \<open>Steps of the executor\<close>

definition tables :: "('w, 'z) core_scheme \<Rightarrow> _" where
  "tables c = (nextSeq c, activeEventuals c, handlers_events c, handlers_signals c,
     handlers_afterEveryEvent c, promises c)"

lemma tables_inv: "tables c = tables c' \<Longrightarrow> eventual_inv n c = eventual_inv n c'"
  by (simp add: tables_def inv_defs)

definition calls_ok :: "nat \<Rightarrow> workflow_call list \<Rightarrow> bool" where
  "calls_ok n cs \<longleftrightarrow>
     sorted_wrt (<) (map wc_seq cs) \<and> (\<forall>wc \<in> set cs. wc_seq wc < n \<and> call_seq (wc_event wc) = wc_seq wc)"

definition exec_inv :: "nat \<Rightarrow> 'w executor \<Rightarrow> bool" where
  "exec_inv n st \<longleftrightarrow>
     eventual_inv n st \<and> (\<forall>cs. currentRun st = Some cs \<longrightarrow> calls_ok n cs) \<and>
     (\<forall>r. finished st = Some r \<longrightarrow> calls_ok n (wr_calls r))"

definition settled_kept :: "('w, 'z) core_scheme \<Rightarrow> ('w, 'z) core_scheme \<Rightarrow> bool" where
  "settled_kept c c' \<longleftrightarrow>
     nextSeq c \<le> nextSeq c' \<and>
     (\<forall>s r. s < nextSeq c \<longrightarrow> promises c (EventualPromise s) = Settled r \<longrightarrow>
        promises c' (EventualPromise s) = Settled r)"

definition keeps :: "'w executor \<Rightarrow> 'w executor \<Rightarrow> bool" where
  "keeps st st' \<longleftrightarrow> (exec_inv (nextSeq st) st \<longrightarrow> exec_inv (nextSeq st') st') \<and> settled_kept st st'"

lemma keeps_refl [simp]: "keeps st st"
  by (simp add: keeps_def settled_kept_def)

lemma keeps_trans [trans]: "keeps st st' \<Longrightarrow> keeps st' st'' \<Longrightarrow> keeps st st''"
  by (auto simp: keeps_def settled_kept_def)

lemma settled_kept_settle: "settled_kept c (settle p r c)"
  by (auto simp: settled_kept_def settle_promises split: promise_state.split)

lemma settled_kept_resolve: "settled_kept c (tryResolveEventual seq r c)"
proof -
  have "nextSeq (deactivateEventual seq c) = nextSeq c" by (simp add: deactivateEventual_def split: option.split)
  then show ?thesis
    using settled_kept_settle [of "deactivateEventual seq c" "EventualPromise seq"]
    by (simp add: tryResolveEventual_def settled_kept_def split: option.split)
qed

lemma nextSeq_resolve [simp]: "nextSeq (tryResolveEventual seq r c) = nextSeq c"
  by (simp add: tryResolveEventual_def deactivateEventual_def split: option.split)

lemma exec_inv_core:
  "outer st' = outer st \<Longrightarrow> (eventual_inv n st \<Longrightarrow> eventual_inv n' st') \<Longrightarrow> n \<le> n' \<Longrightarrow>
   exec_inv n st \<Longrightarrow> exec_inv n' st'"
  by (fastforce simp: exec_inv_def outer_def calls_ok_def)

lemma keeps_core:
  assumes "outer st' = outer st" and "nextSeq st' = nextSeq st" and "settled_kept st st'"
    and "eventual_inv (nextSeq st) st \<Longrightarrow> eventual_inv (nextSeq st) st'"
  shows "keeps st st'"
  using assms exec_inv_core [OF assms(1,4)] by (simp add: keeps_def)

lemma keeps_tables:
  assumes "outer st' = outer st" and "tables st' = tables st"
  shows "keeps st st'"
  using assms(2) by (intro keeps_core [OF assms(1)]) (simp_all add: tables_def settled_kept_def inv_defs)

lemma keeps_user: "keeps st (st\<lparr>user := w\<rparr>)"
  by (rule keeps_tables) (simp_all add: tables_def)

lemma keeps_watch: "keeps st (watch p r st)"
proof (rule keeps_core)
  show "settled_kept st (watch p r st)"
    by (auto simp: settled_kept_def watch_def enqueue_def split: promise_state.split)
qed simp_all

lemma keeps_settle_user: "keeps st (settle (UserPromise i) r st)"
  by (rule keeps_core) (simp_all add: settled_kept_settle)

lemma keeps_resolve: "keeps st (tryResolveEventual seq r st)"
  by (rule keeps_core) (simp_all add: settled_kept_resolve eventual_inv_resolve)

lemma keeps_finish: "keeps st (finish_workflow r st)"
  by (rule keeps_tables) (simp_all add: tables_def finish_workflow_def enqueue_def)

lemma tables_set_result [simp]: "tables (set_result r c) = tables c"
  by (simp add: tables_def set_result_def)

lemma tables_executor_updates [simp]:
  "tables (st\<lparr>history := hs\<rparr>) = tables st" "tables (st\<lparr>expected := i\<rparr>) = tables st"
  "tables (st\<lparr>events := i\<rparr>) = tables st" "tables (st\<lparr>currentRun := cr\<rparr>) = tables st"
  "tables (st\<lparr>started := b\<rparr>) = tables st" "tables (st\<lparr>ticks := ts\<rparr>) = tables st"
  "tables (st\<lparr>phase := ph\<rparr>) = tables st" "tables (st\<lparr>finished := fin\<rparr>) = tables st"
  "tables (st\<lparr>uncaught := un\<rparr>) = tables st" "tables (st\<lparr>result := re\<rparr>) = tables st"
  "tables (st\<lparr>jobs := js\<rparr>) = tables st"
  by (simp_all add: tables_def)

lemma keeps_same:
  assumes "tables st' = tables st" and "currentRun st' = currentRun st" and "finished st' = finished st"
  shows "keeps st st'"
  using assms by (simp add: keeps_def exec_inv_def settled_kept_def tables_inv [OF assms(1)]) (simp add: tables_def)

lemma resolveWorkflow_same:
  "tables (fst (resolveWorkflow r st)) = tables st" "currentRun (fst (resolveWorkflow r st)) = currentRun st"
  "finished (fst (resolveWorkflow r st)) = finished st"
proof -
  have "outer (set_result r st) = outer st" by simp
  then show "tables (fst (resolveWorkflow r st)) = tables st" "currentRun (fst (resolveWorkflow r st)) = currentRun st"
    "finished (fst (resolveWorkflow r st)) = finished st"
    by (auto simp: resolveWorkflow_def Let_def add_tick_def outer_def split: option.split)
qed

lemma keeps_resolveWorkflow: "keeps st (fst (resolveWorkflow r st))"
  by (rule keeps_same) (simp_all add: resolveWorkflow_same)

lemma expected_same:
  "expected_hasNext st = (b, st1) \<Longrightarrow> tables st1 = tables st \<and> currentRun st1 = currentRun st \<and> finished st1 = finished st"
  "expected_next st = (e, st1) \<Longrightarrow> tables st1 = tables st \<and> currentRun st1 = currentRun st \<and> finished st1 = finished st"
  by (auto simp: expected_hasNext_def expected_next_def split: prod.splits)

lemma assert_same:
  assumes "assertEventIsExpected ev st = (st', err)"
  shows "tables st' = tables st \<and> currentRun st' = currentRun st \<and> finished st' = finished st"
proof -
  obtain b st1 where hn: "expected_hasNext st = (b, st1)" by fastforce
  obtain e st2 where nx: "expected_next st1 = (e, st2)" by fastforce
  have 1: "tables st2 = tables st \<and> currentRun st2 = currentRun st \<and> finished st2 = finished st"
    using expected_same(1) [OF hn] expected_same(2) [OF nx] by simp
  have "st' = st1 \<or> st' = st2 \<or> (\<exists>r. st' = fst (resolveWorkflow r st2))"
    using assms by (auto simp: assertEventIsExpected_def hn nx split: bool.splits option.splits workflow_event.splits if_splits)
      (metis fst_conv)
  then show ?thesis
    using 1 expected_same(1) [OF hn] by (auto simp: resolveWorkflow_same)
qed

text \<open>The call is recorded under the sequence number \<open>n\<close>, the next one is \<open>Suc n\<close>.\<close>

lemma record_call_inv:
  assumes rec: "record_call c n ev st = (st', err)" and ev: "call_seq ev = n"
  shows "tables st' = tables st \<and> finished st' = finished st \<and>
    ((\<forall>cs. currentRun st = Some cs \<longrightarrow> calls_ok n cs) \<longrightarrow> (\<forall>cs. currentRun st' = Some cs \<longrightarrow> calls_ok (Suc n) cs))"
proof -
  obtain b st1 where hn: "expected_hasNext st = (b, st1)" by fastforce
  note s1 = expected_same(1) [OF hn]
  have up: "calls_ok n cs \<Longrightarrow> calls_ok (Suc n) cs" for cs by (auto simp: calls_ok_def less_Suc_eq)
  show ?thesis
  proof (cases b)
    case True
    then have "assertEventIsExpected ev st1 = (st', err)" using rec by (simp add: record_call_def hn)
    from assert_same [OF this] s1 up show ?thesis by auto
  next
    case False
    then have st': "st' = push_call \<lparr>wc_seq = n, wc_call = c, wc_event = ev\<rparr> st1"
      using rec by (simp add: record_call_def hn)
    have "calls_ok n cs \<Longrightarrow> calls_ok (Suc n) (cs @ [\<lparr>wc_seq = n, wc_call = c, wc_event = ev\<rparr>])" for cs
      using ev by (auto simp: calls_ok_def sorted_wrt_append less_Suc_eq)
    then show ?thesis using s1 by (auto simp: st' push_call_def)
  qed
qed

lemma resolve_all_keeps: "keeps st (resolve_all rs st)"
  unfolding resolve_all_def
proof (induction rs arbitrary: st)
  case (Cons a rs)
  obtain n r where a: "a = (n, r)" by fastforce
  show ?case using keeps_trans [OF keeps_resolve Cons.IH] by (simp add: a)
qed simp

lemma make_eventual_promises:
  "p \<noteq> EventualPromise n \<Longrightarrow> settled (promises c p) \<Longrightarrow> promises (make_eventual n d c) p = promises c p"
  "nextSeq (make_eventual n d c) = nextSeq c"
proof -
  have w: "settled (promises c p) \<Longrightarrow> promises (watch_trigger n t c) p = promises c p" for t and c :: "('a, 'b) core_scheme"
    by (auto simp: watch_trigger_def watch_def enqueue_def settled_def split: trigger.split timeout.split promise_state.splits)
  have f: "settled (promises c p) \<Longrightarrow> promises (fold (watch_trigger n) ts c) p = promises c p" for ts and c :: "('a, 'b) core_scheme"
    by (induction ts arbitrary: c) (simp_all add: w)
  assume "p \<noteq> EventualPromise n" "settled (promises c p)"
  then show "promises (make_eventual n d c) p = promises c p"
    using f by (simp add: make_eventual_def createResolvedPromise_def activateEventual_def activate_defs Let_def
        split: eventual_definition.split list.split trigger.split)
next
  have "nextSeq (activate_promise seq ts c) = nextSeq c" "nextSeq (activate_events seq ts c) = nextSeq c"
    "nextSeq (activate_promise_triggers seq ts c) = nextSeq c" "nextSeq (activate_signals seq ts c) = nextSeq c"
    "nextSeq (activate_after seq ts c) = nextSeq c" for seq ts and c :: "('a, 'b) core_scheme"
    by (simp_all add: activate_defs split: list.split trigger.split)
  then show "nextSeq (make_eventual n d c) = nextSeq c"
    by (simp add: make_eventual_def createResolvedPromise_def activateEventual_def Let_def split: eventual_definition.split)
qed


lemma keeps_fail: "keeps st (fst (fail_and_throw err st))"
proof -
  have "fst (fail_and_throw err st) = fst (resolveWorkflow (Failed err) st)"
    by (simp add: fail_and_throw_def split: prod.split option.split)
  then show ?thesis by (simp add: keeps_resolveWorkflow)
qed

lemma record_call_no_throw:
  assumes "currentRun st \<noteq> None"
  shows "snd (record_call c n ev st) = None"
proof -
  have r: "currentRun st' \<noteq> None \<Longrightarrow> snd (resolveWorkflow r st') = None" for r and st' :: "'a executor"
    by (auto simp: resolveWorkflow_def Let_def)
  obtain b st1 where hn: "expected_hasNext st = (b, st1)" by fastforce
  obtain b2 st2 where hn2: "expected_hasNext st1 = (b2, st2)" by fastforce
  obtain e st3 where nx: "expected_next st2 = (e, st3)" by fastforce
  have "currentRun st3 \<noteq> None"
    using assms expected_same(1) [OF hn] expected_same(1) [OF hn2] expected_same(2) [OF nx] by simp
  from r [OF this] show ?thesis
    by (auto simp: record_call_def hn assertEventIsExpected_def hn2 nx split: bool.split option.split workflow_event.split)
qed

text \<open>
  One call. Without an active run an unexpected call throws after its sequence number is taken;
  in a run it never does.
\<close>

lemma keeps_execute:
  assumes run: "currentRun st \<noteq> None"
  shows "keeps st (fst (execute wfl call st))"
proof (cases call)
  case (Some c)
  show ?thesis
  proof (cases "initializeEventual (wf_predicate wfl (user st)) c")
    case (Inl err)
    then show ?thesis using Some keeps_fail by (simp add: execute_def)
  next
    case (Inr rd)
    obtain rs d where rd: "rd = (rs, d)" by fastforce
    let ?st1 = "resolve_all rs st" and ?n = "nextSeq (resolve_all rs st)"
    let ?st2 = "?st1\<lparr>nextSeq := Suc ?n\<rparr>"
    obtain st3 thrown where st3: "(case createCallEvent d of None \<Rightarrow> (?st2, None)
        | Some create \<Rightarrow> record_call c ?n (create ?n) ?st2) = (st3, thrown)" by fastforce
    have out2: "outer ?st2 = outer st" by simp
    then have run2: "currentRun ?st2 \<noteq> None" using run by (simp add: outer_def)
    have ex: "fst (execute wfl call st) = make_eventual ?n d st3"
    proof -
      have "thrown = None"
        using st3 record_call_no_throw [OF run2] by (auto split: option.splits) (metis snd_conv option.distinct(1) option.exhaust)
      then show ?thesis using st3 by (simp add: execute_def Some Inr rd Let_def)
    qed
    have t3: "tables st3 = tables ?st2" "finished st3 = finished ?st2"
      "(\<forall>cs. currentRun ?st2 = Some cs \<longrightarrow> calls_ok ?n cs) \<longrightarrow> (\<forall>cs. currentRun st3 = Some cs \<longrightarrow> calls_ok (Suc ?n) cs)"
    proof -
      have up: "calls_ok n cs \<Longrightarrow> calls_ok (Suc n) cs" for n cs by (auto simp: calls_ok_def less_Suc_eq)
      show "tables st3 = tables ?st2" "finished st3 = finished ?st2"
        "(\<forall>cs. currentRun ?st2 = Some cs \<longrightarrow> calls_ok ?n cs) \<longrightarrow> (\<forall>cs. currentRun st3 = Some cs \<longrightarrow> calls_ok (Suc ?n) cs)"
        using st3 up record_call_inv [of c ?n _ ?st2 st3 thrown] createCallEvent_seq [of "wf_predicate wfl (user st)" c rs d]
        by (auto simp: Inr rd split: option.splits)
    qed
    have n3: "nextSeq st3 = Suc ?n" using t3(1) by (simp add: tables_def)
    have k1: "keeps st ?st1" by (rule resolve_all_keeps)
    have "keeps ?st1 (make_eventual ?n d st3)"
      unfolding keeps_def
    proof (intro conjI impI)
      assume inv: "exec_inv ?n ?st1"
      have "eventual_inv ?n st3" using inv t3(1) tables_inv [OF t3(1)] by (simp add: exec_inv_def inv_defs)
      from eventual_inv_make [OF this] have "eventual_inv (Suc ?n) (make_eventual ?n d st3)" .
      moreover have "outer (make_eventual ?n d st3) = outer st3" by simp
      moreover have "\<forall>cs. currentRun ?st2 = Some cs \<longrightarrow> calls_ok ?n cs" using inv by (simp add: exec_inv_def)
      moreover have "\<forall>r. finished st3 = Some r \<longrightarrow> calls_ok (Suc ?n) (wr_calls r)"
        using inv t3(2) by (auto simp: exec_inv_def calls_ok_def less_Suc_eq)
      ultimately show "exec_inv (nextSeq (make_eventual ?n d st3)) (make_eventual ?n d st3)"
        using t3(3) by (simp add: exec_inv_def outer_def make_eventual_promises n3)
    next
      have "promises st3 = promises ?st1" using t3(1) by (simp add: tables_def)
      then show "settled_kept ?st1 (make_eventual ?n d st3)"
        using make_eventual_promises(1) [of _ ?n st3 d]
        by (auto simp: settled_kept_def make_eventual_promises(2) n3)
    qed
    then show ?thesis using keeps_trans [OF k1] by (simp add: ex)
  qed
qed (simp add: execute_def)


text \<open>The same with the facts on the executor's own state, while a run is active.\<close>

definition keeps_run :: "'w executor \<Rightarrow> 'w executor \<Rightarrow> bool" where
  "keeps_run st st' \<longleftrightarrow> adds st st' \<and> (currentRun st \<noteq> None \<longrightarrow> keeps st st')"

lemma keeps_run_trans [trans]: "keeps_run st st' \<Longrightarrow> keeps_run st' st'' \<Longrightarrow> keeps_run st st''"
  unfolding keeps_run_def by (metis adds_trans keeps_trans adds_def)

lemma keeps_runI: "adds st st' \<Longrightarrow> (currentRun st \<noteq> None \<Longrightarrow> keeps st st') \<Longrightarrow> keeps_run st st'"
  by (simp add: keeps_run_def)

lemma keeps_run_burst: "keeps_run st (fst (run_burst wfl b st))"
proof (induction b arbitrary: st)
  case (Quiet w)
  show ?case by (rule keeps_runI [OF adds_burst]) (simp add: keeps_user)
next
  case (Exec w c k)
  obtain st2 r where ex: "execute wfl c (st\<lparr>user := w\<rparr>) = (st2, r)" by fastforce
  have "keeps_run st (st\<lparr>user := w\<rparr>)"
    by (rule keeps_runI) (simp_all add: adds_outer keeps_user)
  also have "keeps_run (st\<lparr>user := w\<rparr>) st2"
    using adds_execute [of "st\<lparr>user := w\<rparr>" wfl c] keeps_execute [of "st\<lparr>user := w\<rparr>" wfl c]
    by (simp add: keeps_run_def ex)
  also have "keeps_run st2 (fst (run_burst wfl (k r) st2))" by (rule Exec.IH) simp
  finally show ?case by (simp add: ex)
next
  case (Watch p f b)
  have "keeps_run st (watch p (UserReaction f) st)"
    by (rule keeps_runI) (simp_all add: adds_outer keeps_watch)
  from keeps_run_trans [OF this Watch.IH] show ?case by simp
next
  case (SettleUser n r b)
  have "keeps_run st (settle (UserPromise n) r st)"
    by (rule keeps_runI) (simp_all add: adds_outer keeps_settle_user)
  from keeps_run_trans [OF this SettleUser.IH] show ?case by simp
next
  case (Finish r w)
  have "keeps st (finish_workflow r (st\<lparr>user := w\<rparr>))" by (rule keeps_trans [OF keeps_user keeps_finish])
  then show ?case by (intro keeps_runI [OF adds_burst]) simp
next
  case (Throw err w)
  show ?case by (rule keeps_runI [OF adds_burst]) (simp add: keeps_user)
qed

lemma keeps_run_refl [simp]: "keeps_run st st"
  by (simp add: keeps_run_def)

lemma keeps_run_resolveWorkflow: "keeps_run st (fst (resolveWorkflow r st))"
  by (simp add: keeps_run_def adds_resolveWorkflow keeps_resolveWorkflow)

lemma keeps_run_handler: "keeps_run st (fst (run_handler wfl h arg st))"
  by (cases h; cases arg) (simp_all add: run_handler_def keeps_run_burst)

lemma keeps_run_invoke: "keeps_run st (fst (invokeEventualHandler wfl seq h arg st))"
proof -
  obtain st1 r where h: "run_handler wfl h arg st = (st1, r)" by fastforce
  have "keeps_run st st1" using keeps_run_handler [of st wfl h arg] by (simp add: h)
  also have "keeps_run st1 (tryResolveEventual seq r st1)"
    by (rule keeps_runI) (simp_all add: adds_outer keeps_resolve)
  finally show ?thesis by (simp add: invokeEventualHandler_def h)
qed

lemma keeps_run_invoke_all: "keeps_run st (fst (invoke_handlers wfl arg rs st))"
proof (induction rs arbitrary: st)
  case (Cons r rs)
  obtain st1 b where i: "invokeEventualHandler wfl (fst r) (snd r) arg st = (st1, b)" by fastforce
  have "keeps_run st st1" using keeps_run_invoke [of st wfl "fst r" "snd r" arg] by (simp add: i)
  then show ?case using keeps_run_trans [OF _ Cons.IH] by (cases b) (simp_all add: i)
qed simp

lemma keeps_run_apply: "keeps_run st (fst (tryApplyEvent wfl e st))"
proof -
  obtain st1 err where c: "check_event_seq e st = (st1, err)" by fastforce
  have "keeps_run st (fst (check_event_seq e st))"
    by (simp add: check_event_seq_def keeps_run_resolveWorkflow split: option.split)
  then have 1: "keeps_run st st1" by (simp add: c)
  obtain st2 b where i: "invoke_handlers wfl (Some e) (event_trigger_handlers e st1) st1 = (st2, b)" by fastforce
  have 2: "keeps_run st st2"
    using keeps_run_trans [OF 1 keeps_run_invoke_all [of st1 wfl "Some e" "event_trigger_handlers e st1"]] by (simp add: i)
  show ?thesis
    using 1 2 keeps_run_trans [OF 2 keeps_run_invoke_all] keeps_run_resolveWorkflow
    by (cases b) (auto simp: tryApplyEvent_def c i split: option.split)
qed

text \<open>
  What holds between two steps of the event loop: in a run the invariant, and of a finished
  run that its calls are well numbered.
\<close>

definition loop_inv :: "'w executor \<Rightarrow> bool" where
  "loop_inv st \<longleftrightarrow>
     (currentRun st \<noteq> None \<longrightarrow> exec_inv (nextSeq st) st) \<and>
     (\<forall>r. finished st = Some r \<longrightarrow> (\<exists>n. calls_ok n (wr_calls r)))"

definition progress :: "'w executor \<Rightarrow> 'w executor \<Rightarrow> bool" where
  "progress st st' \<longleftrightarrow> (loop_inv st \<longrightarrow> loop_inv st') \<and>
     (currentRun st' \<noteq> None \<longrightarrow> currentRun st \<noteq> None \<and> settled_kept st st')"

lemma progress_trans: "progress st st' \<Longrightarrow> progress st' st'' \<Longrightarrow> progress st st''"
  by (auto simp: progress_def settled_kept_def)

lemma progress_refl [simp]: "progress st st"
  by (simp add: progress_def settled_kept_def)

lemma progress_keeps: "keeps_run st st' \<Longrightarrow> progress st st'"
  by (auto simp: progress_def keeps_run_def adds_def loop_inv_def keeps_def)

lemma progress_same:
  assumes "tables st' = tables st" and "currentRun st' = currentRun st" and "finished st' = finished st"
  shows "progress st st'"
  using keeps_same [OF assms] assms(2,3) by (auto simp: progress_def loop_inv_def keeps_def)

lemma tables_add_tick [simp]: "tables (add_tick t st) = tables st" "currentRun (add_tick t st) = currentRun st"
  "finished (add_tick t st) = finished st"
  by (simp_all add: add_tick_def)

lemma tables_enqueue [simp]: "tables (enqueue js c) = tables c"
  by (simp add: enqueue_def tables_def)

lemma progress_applyEvents: "progress st (applyEvents st)"
  by (rule progress_same) (auto simp: applyEvents_def Let_def split: prod.split option.split)

lemma progress_complete: "progress st (completeCurrentRun r st)"
proof (cases "currentRun st")
  case (Some cs)
  then show ?thesis
    by (auto simp: progress_def completeCurrentRun_def Let_def loop_inv_def exec_inv_def)
qed (simp add: completeCurrentRun_def)

lemma progress_tick: "progress st (run_tick wfl t st)"
proof (cases t)
  case (ApplyEvent e)
  obtain st1 err where ap: "tryApplyEvent wfl e st = (st1, err)" by fastforce
  have 1: "progress st st1" using progress_keeps [OF keeps_run_apply [of st wfl e]] by (simp add: ap)
  have "progress st1 (run_tick wfl t st)"
    by (rule progress_same) (simp_all add: run_tick_def ApplyEvent ap crash_def split: option.split)
  then show ?thesis by (rule progress_trans [OF 1])
qed (simp add: run_tick_def progress_complete)

lemma progress_job: "progress st (run_job wfl j st)"
proof (cases j)
  case (Reaction r res)
  then show ?thesis
    by (cases r) (simp_all add: run_job_def progress_keeps keeps_run_burst keeps_run_invoke)
next
  case (WorkflowReturned r)
  obtain st1 err where rw: "resolveWorkflow r st = (st1, err)" by fastforce
  have 1: "progress st st1" using progress_keeps [OF keeps_run_resolveWorkflow [of st r]] by (simp add: rw)
  have "progress st1 (crash err st1)" by (rule progress_same) (simp_all add: crash_def split: option.split)
  from progress_trans [OF 1 this] show ?thesis by (simp add: run_job_def WorkflowReturned rw)
next
  case ContinueApply
  then show ?thesis by (simp add: run_job_def progress_applyEvents)
next
  case AfterApply
  have "progress st (add_tick t st)" for t by (rule progress_same) simp_all
  then show ?thesis by (simp add: run_job_def AfterApply split: option.split)
qed

lemma progress_step: "loop_step wfl st = Some st' \<Longrightarrow> progress st st'"
proof -
  assume step: "loop_step wfl st = Some st'"
  have "progress st (st\<lparr>ticks := ts\<rparr>)" "progress st (st\<lparr>jobs := js\<rparr>)" "progress st (st\<lparr>phase := ph\<rparr>)" for ts js ph
    by (rule progress_same; simp)+
  then show ?thesis
    using step by (auto simp: loop_step_def intro: progress_trans [OF _ progress_tick] progress_trans [OF _ progress_job]
        split: if_splits phase.splits list.splits)
qed

lemma progress_steps: "loop_steps wfl st st' \<Longrightarrow> progress st st'"
  by (induction rule: loop_steps.induct) (auto intro: progress_trans progress_step)

lemma exec_inv_new: "exec_inv 0 (begin_run ((addHistoryEvents evs (new_executor wfl hist))\<lparr>started := True, finished := None\<rparr>))"
  by (simp add: exec_inv_def inv_defs new_executor_def begin_run_def addHistoryEvents_def calls_ok_def
      nr.get_empty om.get_empty nr.inv_empty om.inv_empty)

lemma loop_inv_start:
  assumes "start wfl args (new_executor wfl hist) = Inr st"
  shows "loop_inv st"
proof -
  from assms obtain inp ctx evs where
    st: "st = applyEvents (start_definition wfl inp ctx
        (begin_run ((addHistoryEvents evs (new_executor wfl hist))\<lparr>started := True, finished := None\<rparr>)))"
    by (auto simp: start_def Let_def split: if_splits sum.splits)
  let ?b = "begin_run ((addHistoryEvents evs (new_executor wfl hist))\<lparr>started := True, finished := None\<rparr>)"
  have "nextSeq ?b = 0" by (simp add: begin_run_def addHistoryEvents_def new_executor_def)
  then have "loop_inv ?b"
    using exec_inv_new [of evs wfl hist] by (simp add: loop_inv_def begin_run_def)
  moreover obtain st1 err where rb: "run_burst wfl (wf_definition wfl inp ctx) ?b = (st1, err)" by fastforce
  have "keeps_run ?b st1" using keeps_run_burst [of ?b wfl "wf_definition wfl inp ctx"] by (simp add: rb)
  then have "keeps_run ?b (start_definition wfl inp ctx ?b)"
    using keeps_run_resolveWorkflow by (auto simp: start_definition_def rb intro: keeps_run_trans split: option.split)
  ultimately have "loop_inv (start_definition wfl inp ctx ?b)"
    using progress_keeps by (auto simp: progress_def)
  then show ?thesis using progress_applyEvents by (auto simp: st progress_def)
qed


lemma event_loop_loop_steps: "event_loop wfl st = Some st' \<Longrightarrow> loop_steps wfl st st'"
proof -
  assume loop: "event_loop wfl st = Some st'"
  show ?thesis
  proof (rule event_loop.raw_induct [where P = "loop_steps", OF _ loop])
    fix loop wfl and st st' :: "'a executor"
    assume "\<And>wfl st st'. loop wfl st = Some st' \<Longrightarrow> loop_steps wfl st st'"
      and "(case loop_step wfl st of None \<Rightarrow> Some st | Some st1 \<Rightarrow> loop wfl st1) = Some st'"
    then show "loop_steps wfl st st'"
      by (cases "loop_step wfl st") (auto intro: loop_steps.step)
  qed
qed

text \<open>
  C8 (invariant): at every point of a run, whatever the workflow does and whatever the history
  holds, the handlers for events, for signals and after every event belong to active
  eventuals, active eventuals have sequence numbers already given out, and of these numbers
  exactly the eventuals whose promise has not settled are active.
\<close>

theorem eventual_tables_invariant:
  assumes "start wfl args (new_executor wfl hist) = Inr st" and "loop_steps wfl st st'" and "currentRun st' \<noteq> None"
  shows "(\<forall>s. nr_get (handlers_events st') s \<noteq> None \<longrightarrow> isEventualActive st' s) \<and>
    (\<forall>s. nr_get (handlers_afterEveryEvent st') s \<noteq> None \<longrightarrow> isEventualActive st' s) \<and>
    (\<forall>sig hs s. om_get (handlers_signals st') sig = Some hs \<longrightarrow> nr_get hs s \<noteq> None \<longrightarrow> isEventualActive st' s) \<and>
    (\<forall>s. isEventualActive st' s \<longrightarrow> s < nextSeq st') \<and>
    (\<forall>s < nextSeq st'. settled (promises st' (EventualPromise s)) \<longleftrightarrow> \<not> isEventualActive st' s)"
proof -
  have "loop_inv st'"
    using loop_inv_start [OF assms(1)] progress_steps [OF assms(2)] by (simp add: progress_def)
  then have "eventual_inv (nextSeq st') st'" using assms(3) by (simp add: loop_inv_def exec_inv_def)
  then have h: "handlers_active st'" "promises_inv (nextSeq st') st'" by (simp_all add: eventual_inv_def)
  moreover from h(1) have "nr_get (activeEventuals st') s \<noteq> None"
    if "om_get (handlers_signals st') sig = Some hs" "nr_get hs s \<noteq> None" for sig hs s
    using that unfolding handlers_active_def by (metis option.discI)
  ultimately show ?thesis
    unfolding handlers_active_def promises_inv_def isEventualActive_def nr_has_def not_not
    by (intro conjI) simp_all
qed

text \<open>
  C9 (safety): an eventual settles once. When the promise of an eventual has settled at some
  point of a run, it has the same result at every later point of the run, and the eventual is
  not active again.
\<close>

theorem eventual_settles_once:
  assumes start: "start wfl args (new_executor wfl hist) = Inr st" and steps: "loop_steps wfl st st1" "loop_steps wfl st1 st2"
    and run: "currentRun st2 \<noteq> None"
    and settled: "promises st1 (EventualPromise s) = Settled r" and s: "s < nextSeq st1"
  shows "promises st2 (EventualPromise s) = Settled r \<and> \<not> isEventualActive st2 s"
proof -
  have kept: "settled_kept st1 st2" using progress_steps [OF steps(2)] run by (simp add: progress_def)
  then have "promises st2 (EventualPromise s) = Settled r" "s < nextSeq st2"
    using settled s by (auto simp: settled_kept_def)
  moreover have "loop_inv st2"
    using loop_inv_start [OF start] progress_steps [OF loop_steps_trans [OF steps]] by (simp add: progress_def)
  then have "promises_inv (nextSeq st2) st2" using run by (simp add: loop_inv_def exec_inv_def eventual_inv_def)
  ultimately show ?thesis by (auto simp: promises_inv_def isEventualActive_def nr_has_def)
qed

text \<open>
  C10 (bounds): the calls a run returns are numbered in the order the workflow made them, no
  number twice, and the event of each call carries its number.
\<close>

theorem emitted_calls_numbered:
  assumes "start wfl args (new_executor wfl hist) = Inr st" and "event_loop wfl st = Some st'"
    and "finished st' = Some r"
  shows "sorted_wrt (<) (map wc_seq (wr_calls r)) \<and> (\<forall>wc \<in> set (wr_calls r). call_seq (wc_event wc) = wc_seq wc)"
proof -
  have "loop_inv st'"
    using loop_inv_start [OF assms(1)] progress_steps [OF event_loop_loop_steps [OF assms(2)]] by (simp add: progress_def)
  then show ?thesis using assms(3) by (auto simp: loop_inv_def calls_ok_def)
qed

lemma sample_started_run:
  obtains st st2 where "start sample_workflow (StartEvents sample_history) (new_executor sample_workflow []) = Inr st"
    "event_loop sample_workflow st = Some st2" "finished st2 \<noteq> None"
proof -
  obtain s where s: "spec_run sample_workflow (JNum 7) sample_context
      [WorkflowRunStarted ''r1'' 1, TaskSucceeded 0 5 (JStr ''ok'')] = Some s" "\<not> stopped s"
    by (rule sample_run)
  from start_refinement [of "[]" "StartEvents sample_history" "JNum 7" sample_context sample_history
      sample_history sample_workflow s] s
  obtain st2 where "run_start sample_workflow (StartEvents sample_history) (new_executor sample_workflow []) = Some (Inr st2)"
      "finished st2 \<noteq> None"
    by (auto simp: sample_events_eval)
  then show thesis using that by (auto simp: run_start_def split: sum.splits)
qed

lemma emitted_calls_numbered_witness:
  "\<exists>st st' r. start sample_workflow (StartEvents sample_history) (new_executor sample_workflow []) = Inr st \<and>
     event_loop sample_workflow st = Some st' \<and> finished st' = Some r \<and> sorted_wrt (<) (map wc_seq (wr_calls r))"
  using sample_started_run emitted_calls_numbered by (metis not_Some_eq)

lemma sample_start_eval:
  "start sample_workflow (StartEvents sample_history) (new_executor sample_workflow []) =
     Inr (applyEvents (start_definition sample_workflow (JNum 7) sample_context
       (begin_run ((addHistoryEvents sample_history (new_executor sample_workflow []))\<lparr>started := True, finished := None\<rparr>))))"
  by (simp add: start_def new_executor_def sample_events_eval Let_def)

lemma sample_start_facts:
  "(\<lambda>st. (currentRun st \<noteq> None, nextSeq st, nr_keys (handlers_events st)))
     (applyEvents (start_definition sample_workflow (JNum 7) sample_context
       (begin_run ((addHistoryEvents sample_history (new_executor sample_workflow []))\<lparr>started := True, finished := None\<rparr>))))
   = (True, 1, [0])"
  by code_simp

lemma eventual_tables_invariant_witness:
  "\<exists>st. start sample_workflow (StartEvents sample_history) (new_executor sample_workflow []) = Inr st \<and>
     nr_keys (handlers_events st) = [0] \<and> isEventualActive st 0 \<and> \<not> settled (promises st (EventualPromise 0))"
proof -
  let ?st = "applyEvents (start_definition sample_workflow (JNum 7) sample_context
       (begin_run ((addHistoryEvents sample_history (new_executor sample_workflow []))\<lparr>started := True, finished := None\<rparr>)))"
  have f: "currentRun ?st \<noteq> None" "nextSeq ?st = 1" "nr_keys (handlers_events ?st) = [0]"
    using sample_start_facts by auto
  then have "nr_get (handlers_events ?st) 0 \<noteq> None"
    by (auto simp: nr_keys_def nr_get_def map_eq_Cons_conv)
  with eventual_tables_invariant [OF sample_start_eval loop_steps.refl f(1)] f show ?thesis
    using sample_start_eval by auto
qed


definition sample_notify :: "nat workflow" where
  "sample_notify = sample_workflow\<lparr>wf_definition := (\<lambda>i ctx.
     Exec 0 (Some (SendSignalCall ''hello'' i (ExecutionTarget ''w/other'') None)) (\<lambda>r. Quiet 0))\<rparr>"

definition sample_notify_started :: "nat executor" where
  "sample_notify_started =
     applyEvents (start_definition sample_notify (JNum 7) sample_context
       (begin_run ((addHistoryEvents sample_history (new_executor sample_notify []))\<lparr>started := True, finished := None\<rparr>)))"

lemma sample_notify_facts:
  "(\<lambda>st. (currentRun st \<noteq> None, nextSeq st, case promises st (EventualPromise 0) of Settled r \<Rightarrow> r = Resolved JUndef | _ \<Rightarrow> False))
     sample_notify_started = (True, 1, True)"
  by code_simp

lemma eventual_settles_once_witness:
  "\<exists>st. start sample_notify (StartEvents sample_history) (new_executor sample_notify []) = Inr st \<and>
     promises st (EventualPromise 0) = Settled (Resolved JUndef) \<and> \<not> isEventualActive st 0"
proof -
  have st: "start sample_notify (StartEvents sample_history) (new_executor sample_notify []) = Inr sample_notify_started"
    by (simp add: start_def new_executor_def sample_events_eval Let_def sample_notify_started_def)
  have f: "currentRun sample_notify_started \<noteq> None" "nextSeq sample_notify_started = 1"
    "promises sample_notify_started (EventualPromise 0) = Settled (Resolved JUndef)"
    using sample_notify_facts by (auto split: promise_state.splits)
  from eventual_settles_once [OF st loop_steps.refl loop_steps.refl f(1,3)] f st show ?thesis by auto
qed

end
