(* ===== verification/Grouping.thy ===== *)
theory Grouping
  imports JsRecord Results
begin

text \<open>
  The batch helpers of core-runtime/src/utils.ts: \<open>groupBy\<close>, \<open>promiseAllSettledPartitioned\<close> and
  \<open>groupedPromiseAllSettled\<close>. An asynchronous operation is a function to its outcome, the error
  of a rejection or the value; the groups run in parallel, so that only the order inside of a
  group is observable. Keys are enumerated in the order of their insertion (a key that looks
  like an array index would go first; the keys the runtime uses do not).
\<close>

section \<open>Grouping\<close>

definition group_step :: "('i \<Rightarrow> string) \<Rightarrow> 'i \<Rightarrow> (string, 'i list) omap \<Rightarrow> (string, 'i list) omap" where
  "group_step extract r obj = om_set (extract r) (the_default [] (om_get obj (extract r)) @ [r]) obj"

definition groupBy :: "'i list \<Rightarrow> ('i \<Rightarrow> string) \<Rightarrow> (string, 'i list) omap" where
  "groupBy items extract = fold (group_step extract) items []"

lemma group_step_get:
  "om_get (group_step f r m) = (om_get m)(f r \<mapsto> the_default [] (om_get m (f r)) @ [r])"
  by (simp add: group_step_def om_get_set)

lemma fold_group_step_inv: "om_inv m \<Longrightarrow> om_inv (fold (group_step f) xs m)"
  by (induction xs arbitrary: m) (simp_all add: group_step_def om_inv_set)

lemma fold_group_step_get:
  "the_default [] (om_get (fold (group_step f) xs m) k) =
     the_default [] (om_get m k) @ filter (\<lambda>x. f x = k) xs"
  by (induction xs arbitrary: m) (auto simp: group_step_get)

lemma fold_group_step_keys: "set (om_keys (fold (group_step f) xs m)) = set (om_keys m) \<union> f ` set xs"
  by (induction xs arbitrary: m) (auto simp: group_step_def om_keys_set)

lemma groupBy_inv: "om_inv (groupBy xs f)"
  using fold_group_step_inv [of "[]" f xs] by (simp add: groupBy_def om_inv_def)

lemma groupBy_keys: "set (om_keys (groupBy xs f)) = f ` set xs"
  using fold_group_step_keys [of f xs "[]"] by (simp add: groupBy_def om_keys_def)

lemma om_entry: "om_inv m \<Longrightarrow> (k, v) \<in> set m \<longleftrightarrow> om_get m k = Some v"
  by (simp add: om_get_def om_inv_def)

lemma om_get_key: "k \<in> set (om_keys m) \<longleftrightarrow> om_get m k \<noteq> None"
  by (simp add: om_keys_def om_get_def map_of_eq_None_iff)

lemma groupBy_get:
  "om_get (groupBy xs f) k = (if k \<in> f ` set xs then Some (filter (\<lambda>x. f x = k) xs) else None)"
proof -
  have "the_default [] (om_get (groupBy xs f) k) = filter (\<lambda>x. f x = k) xs"
    using fold_group_step_get [of f xs "[]" k] by (simp add: groupBy_def om_get_def)
  moreover have "om_get (groupBy xs f) k \<noteq> None \<longleftrightarrow> k \<in> f ` set xs"
    using om_get_key [of k "groupBy xs f"] by (simp add: groupBy_keys)
  ultimately show ?thesis by (cases "om_get (groupBy xs f) k") auto
qed

lemma groupBy_entry: "(k, g) \<in> set (groupBy xs f) \<longleftrightarrow> k \<in> f ` set xs \<and> g = filter (\<lambda>x. f x = k) xs"
  by (auto simp: om_entry [OF groupBy_inv] groupBy_get)

section \<open>Settled promises\<close>

record ('i, 'r) partitioned =
  fulfilled :: "('i \<times> 'r) list"
  rejected :: "('i \<times> js) list"

definition promiseAllSettledPartitioned :: "'i list \<Rightarrow> ('i \<Rightarrow> js + 'r) \<Rightarrow> ('i, 'r) partitioned" where
  "promiseAllSettledPartitioned items op =
     (let enumerated = zip items (map op items)
      in \<lparr>fulfilled = map (\<lambda>(i, r). (i, projr r)) (filter (\<lambda>(i, r). \<not> isl r) enumerated),
          rejected = map (\<lambda>(i, r). (i, projl r)) (filter (\<lambda>(i, r). isl r) enumerated)\<rparr>)"

text \<open>A group in order, up to the first failure; the items after it are not handled.\<close>

fun handle_group :: "('i \<Rightarrow> js + 'r) \<Rightarrow> ('i \<times> 'r) list \<Rightarrow> 'i list \<Rightarrow> ('i, 'r) partitioned" where
  "handle_group handler acc [] = \<lparr>fulfilled = acc, rejected = []\<rparr>"
| "handle_group handler acc (item # items) =
     (case handler item of
        Inr result \<Rightarrow> handle_group handler (acc @ [(item, result)]) items
      | Inl err \<Rightarrow>
          \<lparr>fulfilled = acc,
           rejected = (item, err) # map (\<lambda>i. (i, JStr ''cascading failure'')) items\<rparr>)"

definition groupedPromiseAllSettled ::
  "'i list \<Rightarrow> ('i \<Rightarrow> string) \<Rightarrow> ('i \<Rightarrow> js + 'r) \<Rightarrow> (string \<times> ('i, 'r) partitioned) list" where
  "groupedPromiseAllSettled items extract handler =
     (let results = promiseAllSettledPartitioned (groupBy items extract)
            (\<lambda>(key, itemGroup). Inr (handle_group handler [] itemGroup))
      in map (\<lambda>((key, itemGroup), r). (key, r)) (fulfilled results))"

lemma partitioned_Inr:
  "promiseAllSettledPartitioned xs (\<lambda>x. Inr (f x)) = \<lparr>fulfilled = map (\<lambda>x. (x, f x)) xs, rejected = []\<rparr>"
  unfolding promiseAllSettledPartitioned_def Let_def by (induction xs) auto

lemma handle_group_shape:
  "\<exists>ok. handle_group h acc xs =
     \<lparr>fulfilled = acc @ map (\<lambda>x. (x, projr (h x))) ok,
      rejected = (case drop (length ok) xs of [] \<Rightarrow> []
        | x # ys \<Rightarrow> (x, projl (h x)) # map (\<lambda>i. (i, JStr ''cascading failure'')) ys)\<rparr> \<and>
     ok = takeWhile (\<lambda>x. \<not> isl (h x)) xs"
proof (induction h acc xs rule: handle_group.induct)
  case (2 h acc x xs)
  then show ?case by (cases "h x") auto
qed simp

text \<open>
  Grouped batches. Every group is the items of its key in their order, is
  handled up to its first failure, and reports each of its items exactly once: the values of
  the items before the failure, its error, and a cascading failure for those after it.
  A failure in one group does not touch another.
\<close>

theorem groups_fail_alone:
  "om_inv (groupedPromiseAllSettled items extract handler) \<and>
   (\<forall>key. om_get (groupedPromiseAllSettled items extract handler) key =
     (if key \<in> extract ` set items
      then let members = filter (\<lambda>i. extract i = key) items;
               ok = takeWhile (\<lambda>i. \<not> isl (handler i)) members
           in Some \<lparr>fulfilled = map (\<lambda>i. (i, projr (handler i))) ok,
                    rejected = (case drop (length ok) members of [] \<Rightarrow> []
                      | i # later \<Rightarrow> (i, projl (handler i)) # map (\<lambda>i. (i, JStr ''cascading failure'')) later)\<rparr>
      else None))"
proof -
  have eq: "groupedPromiseAllSettled items extract handler =
      map (\<lambda>(key, g). (key, handle_group handler [] g)) (groupBy items extract)"
    using partitioned_Inr [of "groupBy items extract" "\<lambda>(key, g). handle_group handler [] g"]
    by (simp add: groupedPromiseAllSettled_def comp_def case_prod_unfold)
  have "om_get (groupedPromiseAllSettled items extract handler) key =
      map_option (handle_group handler []) (om_get (groupBy items extract) key)" for key
    by (simp add: eq om_get_def map_of_map)
  moreover have "handle_group handler [] members = (let ok = takeWhile (\<lambda>i. \<not> isl (handler i)) members
      in \<lparr>fulfilled = map (\<lambda>i. (i, projr (handler i))) ok,
          rejected = (case drop (length ok) members of [] \<Rightarrow> []
            | i # later \<Rightarrow> (i, projl (handler i)) # map (\<lambda>i. (i, JStr ''cascading failure'')) later)\<rparr>)" for members
    using handle_group_shape [of handler "[]" members] by (auto simp: Let_def)
  moreover have "om_inv (groupedPromiseAllSettled items extract handler)"
    using groupBy_inv [of items "extract"] by (simp add: eq om_inv_def comp_def case_prod_beta)
  ultimately show ?thesis by (simp add: groupBy_get Let_def)
qed

end
