(* ===== verification/ExecutorProviders.thy ===== *)
theory ExecutorProviders
  imports WorkflowProperties
begin

text \<open>
  core-runtime/src/providers/executor-provider.ts: where the executor of an execution comes from
  and how it is kept between orchestrations, with the stores of histories it persists to.

  An executor is a mutable object. A provider that keeps it in memory sees what a run does to
  it without being told; \<open>ranExecutor\<close> is this effect of the heap, and does nothing for a
  provider that hands out a new object every time.

  Two stores implement the interface of core-runtime/src/stores/execution-history-state-store.ts.
  The one of aws-runtime, which the remote provider is used with, writes the events as lines of
  JSON to S3: a history read back is a JSON copy. The local one, which the hybrid provider is
  used with, keeps the array it is given and hands the same array out, which the executor then
  appends to; \<open>aliased\<close> says for which executions the executor in memory has the stored array. It
  is written to disk as JSON between two processes.

  The locales are the contract the orchestrator relies on.
\<close>

section \<open>Events as JSON\<close>

text \<open>An event that was written by \<open>JSON.stringify\<close> and read by \<open>JSON.parse\<close>.\<close>

fun persist_event :: "workflow_event \<Rightarrow> workflow_event" where
  "persist_event (BucketRequestSucceeded s t operation res name) =
     BucketRequestSucceeded s t operation (json_copy res) name"
| "persist_event (CallEvent t c) = CallEvent t (persist_call c)"
| "persist_event (ChildWorkflowSucceeded s t res) = ChildWorkflowSucceeded s t (json_copy res)"
| "persist_event (EntityRequestSucceeded s t operation res name) =
     EntityRequestSucceeded s t operation (json_copy res) name"
| "persist_event (QueueRequestSucceeded s t operation res name) =
     QueueRequestSucceeded s t operation (json_copy res) name"
| "persist_event (SearchRequestSucceeded s t operation body) = SearchRequestSucceeded s t operation (json_copy body)"
| "persist_event (SignalReceived i t signalId payload) = SignalReceived i t signalId (json_copy payload)"
| "persist_event (SocketRequestSucceeded s t operation res name) =
     SocketRequestSucceeded s t operation (json_copy res) name"
| "persist_event (TaskSucceeded s t res) = TaskSucceeded s t (json_copy res)"
| "persist_event (TransactionRequestSucceeded s t res) = TransactionRequestSucceeded s t (json_copy res)"
| "persist_event (WorkflowSucceeded i t output) = WorkflowSucceeded i t (json_copy output)"
| "persist_event (WorkflowStarted i t workflow input timeout name parentId) =
     WorkflowStarted i t workflow (json_copy input) timeout name parentId"
| "persist_event e = e"

text \<open>An event that arrived as JSON.\<close>

definition json_event :: "workflow_event \<Rightarrow> bool" where
  "json_event e \<longleftrightarrow> persist_event e = e"

lemma json_copy_idem [simp]: "json_copy (json_copy v) = json_copy v"
  by (induction v rule: json_copy.induct) (auto simp: filter_map comp_def case_prod_beta' filter_id_conv)

lemma persist_call_idem [simp]: "persist_call (persist_call c) = persist_call c"
  by (cases c) simp_all

lemma persist_event_idem [simp]: "persist_event (persist_event e) = persist_event e"
  by (cases e) simp_all

lemma persist_events_id: "map persist_event H = H \<longleftrightarrow> list_all json_event H"
  by (simp add: json_event_def list_all_iff map_idI) (metis map_eq_conv map_ident)

section \<open>The stores of histories\<close>

text \<open>
  The store in S3: for every execution the events whose lines of JSON its object holds. (An
  empty list would be written as an empty object, which does not parse; no orchestration
  writes one, because a run has at least the event that it started.)
\<close>

type_synonym history_states = "string \<Rightarrow> workflow_event list option"

definition getHistory :: "history_states \<Rightarrow> string \<Rightarrow> workflow_event list" where
  "getHistory store executionId = map persist_event (the_default [] (store executionId))"

definition updateHistory :: "history_states \<Rightarrow> string \<Rightarrow> workflow_event list \<Rightarrow> history_states" where
  "updateHistory store executionId evs = store(executionId \<mapsto> evs)"

text \<open>The local store, and what a new process reads of it from disk.\<close>

definition local_getHistory :: "history_states \<Rightarrow> string \<Rightarrow> workflow_event list" where
  "local_getHistory store executionId = the_default [] (store executionId)"

definition local_updateHistory :: "history_states \<Rightarrow> string \<Rightarrow> workflow_event list \<Rightarrow> history_states" where
  "local_updateHistory store executionId evs = store(executionId \<mapsto> evs)"

definition local_reload :: "history_states \<Rightarrow> history_states" where
  "local_reload store = (\<lambda>executionId. map_option (map persist_event) (store executionId))"

section \<open>Providers\<close>

record ('w, 'p) provider_ops =
  getExecutor :: "(workflow_event list \<Rightarrow> 'w executor) \<Rightarrow> 'p \<Rightarrow> string \<Rightarrow> 'p \<times> 'w executor"
  ranExecutor :: "'p \<Rightarrow> string \<Rightarrow> 'w executor \<Rightarrow> 'p"
  persistExecution :: "'p \<Rightarrow> string \<Rightarrow> workflow_event list \<Rightarrow> 'w executor \<Rightarrow> 'p"

text \<open>The provider on any store, and its instance on the store in S3.\<close>

definition remote_getExecutor ::
  "('h \<Rightarrow> string \<Rightarrow> workflow_event list) \<Rightarrow> (workflow_event list \<Rightarrow> 'w executor) \<Rightarrow>
   'h \<Rightarrow> string \<Rightarrow> 'h \<times> 'w executor" where
  "remote_getExecutor getHist initExecutor p executionId = (p, initExecutor (getHist p executionId))"

definition remote_persistExecution ::
  "('h \<Rightarrow> string \<Rightarrow> workflow_event list \<Rightarrow> 'h) \<Rightarrow>
   'h \<Rightarrow> string \<Rightarrow> workflow_event list \<Rightarrow> 'w executor \<Rightarrow> 'h" where
  "remote_persistExecution updateHist p executionId newHistoryEvents executor =
     updateHist p executionId (history executor @ newHistoryEvents)"

definition RemoteExecutorProvider :: "('w, history_states) provider_ops" where
  "RemoteExecutorProvider =
     \<lparr>getExecutor = remote_getExecutor getHistory, ranExecutor = (\<lambda>p i e. p),
      persistExecution = remote_persistExecution updateHistory\<rparr>"

type_synonym 'w executions = "string \<Rightarrow> 'w executor option"

definition InMemoryExecutorProvider :: "('w, 'w executions) provider_ops" where
  "InMemoryExecutorProvider =
     \<lparr>getExecutor = (\<lambda>initializeNewExecutor p i.
        (case p i of
           Some e \<Rightarrow> (p, e)
         | None \<Rightarrow> (p(i \<mapsto> initializeNewExecutor []), initializeNewExecutor []))),
      ranExecutor = (\<lambda>p i e. p(i \<mapsto> e)),
      persistExecution = (\<lambda>p i newEvents e. p(i \<mapsto> e))\<rparr>"

record 'w hybrid =
  executions :: "'w executions"
  remote :: history_states
  aliased :: "string \<Rightarrow> bool"

definition hybrid_getExecutor ::
  "(workflow_event list \<Rightarrow> 'w executor) \<Rightarrow> 'w hybrid \<Rightarrow> string \<Rightarrow> 'w hybrid \<times> 'w executor" where
  "hybrid_getExecutor initializeNewExecutor p i =
     (case executions p i of
        Some e \<Rightarrow> (p, e)
      | None \<Rightarrow>
          (case remote_getExecutor local_getHistory initializeNewExecutor (remote p) i of
             (store, e) \<Rightarrow>
               (p\<lparr>executions := (executions p)(i \<mapsto> e), remote := store,
                  aliased := (aliased p)(i := remote p i \<noteq> None)\<rparr>, e)))"

text \<open>A run appends to the executor's history in place, and to the stored one if they are the same array.\<close>

definition hybrid_ranExecutor :: "'w hybrid \<Rightarrow> string \<Rightarrow> 'w executor \<Rightarrow> 'w hybrid" where
  "hybrid_ranExecutor p i e =
     p\<lparr>executions := (executions p)(i \<mapsto> e),
       remote := (if aliased p i then (remote p)(i \<mapsto> history e) else remote p)\<rparr>"

definition hybrid_persistExecution ::
  "'w hybrid \<Rightarrow> string \<Rightarrow> workflow_event list \<Rightarrow> 'w executor \<Rightarrow> 'w hybrid" where
  "hybrid_persistExecution p i newEvents e =
     p\<lparr>executions := (executions p)(i \<mapsto> e),
       remote := remote_persistExecution local_updateHistory (remote p) i newEvents e,
       aliased := (aliased p)(i := False)\<rparr>"

definition HybridExecutorProvider :: "('w, 'w hybrid) provider_ops" where
  "HybridExecutorProvider =
     \<lparr>getExecutor = hybrid_getExecutor, ranExecutor = hybrid_ranExecutor,
      persistExecution = hybrid_persistExecution\<rparr>"

text \<open>The process ends and a new one starts: memory is gone, the store is read from disk.\<close>

definition hybrid_restart :: "'w hybrid \<Rightarrow> 'w hybrid" where
  "hybrid_restart p = \<lparr>executions = Map.empty, remote = local_reload (remote p), aliased = (\<lambda>i. False)\<rparr>"

lemmas provider_defs =
  RemoteExecutorProvider_def remote_getExecutor_def remote_persistExecution_def
  InMemoryExecutorProvider_def HybridExecutorProvider_def hybrid_getExecutor_def
  hybrid_ranExecutor_def hybrid_persistExecution_def
  getHistory_def updateHistory_def local_getHistory_def local_updateHistory_def local_reload_def

section \<open>The contract\<close>

text \<open>Nothing that happens to an execution changes the executor of another.\<close>

locale executor_provider =
  fixes ops :: "('w, 'p) provider_ops"
  assumes persisted_other: "j \<noteq> i \<Longrightarrow>
      snd (getExecutor ops init (persistExecution ops p i new e) j) = snd (getExecutor ops init p j)"
    and ran_other: "j \<noteq> i \<Longrightarrow>
      snd (getExecutor ops init (ranExecutor ops p i e) j) = snd (getExecutor ops init p j)"
    and got_other: "j \<noteq> i \<Longrightarrow>
      snd (getExecutor ops init (fst (getExecutor ops init' p i)) j) = snd (getExecutor ops init p j)"

text \<open>A provider with memory returns the executor that ran, persisted or not.\<close>

locale memory_provider = executor_provider +
  assumes ran: "snd (getExecutor ops init (ranExecutor ops p i e) i) = e"
    and persisted: "snd (getExecutor ops init (persistExecution ops p i new e) i) = e"

text \<open>
  A provider with a store returns a new executor on the history it reads. Histories are read
  as JSON copies; what is read after an execution was persisted is the copy of the executor's
  history with the events persisted with it. A run that was not persisted has no effect.
\<close>

locale store_provider = executor_provider ops
  for ops :: "('w, 'p) provider_ops" +
  fixes read :: "'p \<Rightarrow> string \<Rightarrow> workflow_event list"
  assumes ran: "ranExecutor ops p i e = p"
    and got: "getExecutor ops init p i = (p, init (read p i))"
    and read_json: "list_all json_event (read p i)"
    and persisted: "read (persistExecution ops p i new e) i = map persist_event (history e @ new)"

interpretation remote: store_provider RemoteExecutorProvider getHistory
  by unfold_locales (auto simp: provider_defs list_all_iff json_event_def)

interpretation in_memory: memory_provider InMemoryExecutorProvider
  by unfold_locales (auto simp: provider_defs split: option.split)

interpretation hybrid: memory_provider HybridExecutorProvider
  by unfold_locales (auto simp: provider_defs split: option.split)

end
