(* ===== verification/Orchestrator.thy ===== *)
theory Orchestrator
  imports ExecutorProviders CallExecutors Grouping
begin

text \<open>
  core-runtime/src/handlers/orchestrator.ts: what happens to the events that arrive for
  executions. \<open>runExecutor\<close> replays and continues a workflow, \<open>orchestrateExecution\<close> does it for
  one execution with everything around it, and \<open>runExecutions\<close> takes a batch of workflow tasks
  apart and orchestrates each execution in it.

  An asynchronous function is a procedure (\<open>proc\<close>) on a state: \<open>None\<close> when it never returns,
  and otherwise the state it leaves with the error thrown or the value returned. The state of
  an orchestration is the provider of executors and the \<open>outbox\<close>, every request made to another
  component, in order. The parameter \<open>od_error\<close> says which requests are refused, with which
  error. Metrics, logs and the date hook are left out.
\<close>

section \<open>Procedures\<close>

type_synonym ('s, 'a) proc = "'s \<Rightarrow> ('s \<times> (js + 'a)) option"

definition proc_return :: "'a \<Rightarrow> ('s, 'a) proc" where
  "proc_return a s = Some (s, Inr a)"

definition proc_bind :: "('s, 'a) proc \<Rightarrow> ('a \<Rightarrow> ('s, 'b) proc) \<Rightarrow> ('s, 'b) proc" where
  "proc_bind m f s =
     (case m s of
        None \<Rightarrow> None
      | Some (s', Inl err) \<Rightarrow> Some (s', Inl err)
      | Some (s', Inr a) \<Rightarrow> f a s')"

lemma proc_bind_simps [simp]:
  "m s = None \<Longrightarrow> proc_bind m f s = None"
  "m s = Some (s', Inl err) \<Longrightarrow> proc_bind m f s = Some (s', Inl err)"
  "m s = Some (s', Inr a) \<Longrightarrow> proc_bind m f s = f a s'"
  by (simp_all add: proc_bind_def)

lemma proc_return_apply [simp]: "proc_return a s = Some (s, Inr a)"
  by (simp add: proc_return_def)

section \<open>Running an executor\<close>

text \<open>Awaiting the promise of a run.\<close>

definition await_run :: "('w executor \<Rightarrow> (js + 'w executor) option) \<Rightarrow> ('w executor, workflow_result) proc" where
  "await_run run st =
     (case run st of
        None \<Rightarrow> None
      | Some (Inl err) \<Rightarrow> Some (st, Inl err)
      | Some (Inr st') \<Rightarrow> (case finished st' of None \<Rightarrow> None | Some r \<Rightarrow> Some (st', Inr r)))"

definition rerunHistoricalEvents :: "'w workflow \<Rightarrow> ('w executor, js result option) proc" where
  "rerunHistoricalEvents wfl st =
     (if \<not> started st
      then if 0 < length (history st)
        then proc_bind (await_run (run_start wfl (StartEvents []))) (\<lambda>r. proc_return (wr_result r)) st
        else proc_return None st
      else proc_return (result st) st)"

definition runCurrentExecutor ::
  "'w workflow \<Rightarrow> workflow_event list \<Rightarrow> ('w executor, workflow_result) proc" where
  "runCurrentExecutor wfl newEvents st =
     (if started st then await_run (run_continue wfl newEvents) st
      else await_run (run_start wfl (StartEvents newEvents)) st)"

definition is_due_timer :: "('w, 'z) core_scheme \<Rightarrow> int \<Rightarrow> workflow_event \<Rightarrow> bool" where
  "is_due_timer c executionTime event =
     (case event of
        CallEvent t (TimerScheduled seq schedule) \<Rightarrow>
          isEventualActive c seq \<and> computeScheduleDate schedule t \<le> executionTime
      | _ \<Rightarrow> False)"

definition timer_completed_now :: "int \<Rightarrow> workflow_event \<Rightarrow> workflow_event" where
  "timer_completed_now executionTime event =
     (case event of
        CallEvent t e \<Rightarrow> createEvent (TimerCompleted (call_seq e) 0) executionTime ''''
      | _ \<Rightarrow> event)"

text \<open>\<open>generateSyntheticTimerEvents\<close>, over the eventuals and the history of the executor.\<close>

definition generateSyntheticTimerEvents ::
  "('w, 'z) core_scheme \<Rightarrow> workflow_event list \<Rightarrow> int \<Rightarrow> workflow_event list" where
  "generateSyntheticTimerEvents c hist executionTime =
     (if \<not> hasActiveEventuals c then []
      else map (timer_completed_now executionTime) (filter (is_due_timer c executionTime) hist))"

definition runSyntheticTimerEvents :: "'w workflow \<Rightarrow> int \<Rightarrow> ('w executor, workflow_result option) proc" where
  "runSyntheticTimerEvents wfl executionTime st =
     (let syntheticTimerEvents = generateSyntheticTimerEvents st (history st) executionTime
      in if 0 < length syntheticTimerEvents
         then proc_bind (await_run (run_continue wfl syntheticTimerEvents)) (\<lambda>r. proc_return (Some r)) st
         else proc_return None st)"

record run_output =
  ro_previousResult :: "js result option"
  ro_calls :: "workflow_call list"
  ro_result :: "js result option"

definition merge_runs :: "js result option \<Rightarrow> workflow_result \<Rightarrow> workflow_result option \<Rightarrow> run_output" where
  "merge_runs previous run synthetic =
     \<lparr>ro_previousResult = previous,
      ro_calls = (case synthetic of None \<Rightarrow> wr_calls run | Some s \<Rightarrow> wr_calls run @ wr_calls s),
      ro_result = (case synthetic of
          None \<Rightarrow> wr_result run
        | Some s \<Rightarrow> (case wr_result s of None \<Rightarrow> wr_result run | Some r \<Rightarrow> Some r))\<rparr>"

definition runExecutor ::
  "'w workflow \<Rightarrow> workflow_event list \<Rightarrow> int \<Rightarrow> ('w executor, run_output) proc" where
  "runExecutor wfl newEvents executionTime =
     proc_bind (rerunHistoricalEvents wfl) (\<lambda>previous.
     proc_bind (runCurrentExecutor wfl newEvents) (\<lambda>run.
     proc_bind (runSyntheticTimerEvents wfl executionTime) (\<lambda>synthetic.
     proc_return (merge_runs previous run synthetic))))"

section \<open>Orchestrating one execution\<close>

datatype effect =
    Request client_request
  | SucceedExecution string int js
  | FailExecution string int string "string option"
  | PutEvents string "workflow_event list"

record 'w orchestrator_deps =
  od_lookupWorkflow :: "string \<Rightarrow> 'w workflow option"
  od_clients :: clients
  od_baseTime :: int
  od_error :: "effect \<Rightarrow> js option"

text \<open>\<open>or_ulid\<close> are the fresh ids of the events the orchestration creates.\<close>

record orchestrate_request =
  or_workflowName :: string
  or_executionId :: string
  or_events :: "workflow_event list"
  or_executionTime :: int
  or_ulid :: "nat \<Rightarrow> string"

record 'p orch =
  orch_provider :: 'p
  outbox :: "effect list"

definition emit_effect :: "'w orchestrator_deps \<Rightarrow> effect \<Rightarrow> ('p orch, unit) proc" where
  "emit_effect deps e w =
     (case od_error deps e of
        Some err \<Rightarrow> Some (w, Inl err)
      | None \<Rightarrow> Some (w\<lparr>outbox := outbox w @ [e]\<rparr>, Inr ()))"

primrec emit_effects :: "'w orchestrator_deps \<Rightarrow> effect list \<Rightarrow> ('p orch, unit) proc" where
  "emit_effects deps [] = proc_return ()"
| "emit_effects deps (e # es) = proc_bind (emit_effect deps e) (\<lambda>_. emit_effects deps es)"

definition tryHandleFirstRun :: "'w orchestrator_deps \<Rightarrow> orchestrate_request \<Rightarrow> ('p orch, unit) proc" where
  "tryHandleFirstRun deps req =
     (case List.find isWorkflowStarted (or_events req) of
        Some (WorkflowStarted i t workflow input (Some timeout) name parentId) \<Rightarrow>
          emit_effect deps (Request (scheduleEvent (od_baseTime deps) (or_executionId req)
            (createEvent (WorkflowTimedOut '''' 0) timeout (or_ulid req 0)) (Time timeout)))
      | _ \<Rightarrow> proc_return ())"

definition persistWorkflowResult ::
  "'w orchestrator_deps \<Rightarrow> orchestrate_request \<Rightarrow> js result \<Rightarrow> ('p orch, workflow_event) proc" where
  "persistWorkflowResult deps req r =
     (case r of
        Failed err \<Rightarrow>
          (let n = normalizeError err
           in proc_bind (emit_effect deps
                  (FailExecution (or_executionId req) (or_executionTime req) (ne_error n) (ne_message n)))
                (\<lambda>_. proc_return (createEvent (WorkflowFailed '''' 0 (ne_error n) (ne_message n))
                  (or_executionTime req) (or_ulid req 2))))
      | Resolved v \<Rightarrow>
          proc_bind (emit_effect deps (SucceedExecution (or_executionId req) (or_executionTime req) v))
            (\<lambda>_. proc_return (createEvent (WorkflowSucceeded '''' 0 v) (or_executionTime req) (or_ulid req 2))))"

text \<open>
  \<open>Promise.all\<close> over the calls: all of them are executed, whatever happens to the others, and
  the first error is thrown.
\<close>

definition perform_call ::
  "'w orchestrator_deps \<Rightarrow> orchestrate_request \<Rightarrow> workflow_call \<Rightarrow> ('p orch, unit) proc" where
  "perform_call deps req c w =
     (case executeForWorkflow (od_clients deps) (od_baseTime deps) (wc_call c)
         \<lparr>cp_executionId = or_executionId req, cp_executionTime = or_executionTime req,
          cp_seq = wc_seq c, cp_workflow = or_workflowName req\<rparr> of
        Inl err \<Rightarrow> Some (w, Inl err)
      | Inr requests \<Rightarrow> emit_effects deps (map Request requests) w)"

primrec perform_calls ::
  "'w orchestrator_deps \<Rightarrow> orchestrate_request \<Rightarrow> workflow_call list \<Rightarrow> ('p orch, unit) proc" where
  "perform_calls deps req [] = proc_return ()"
| "perform_calls deps req (c # cs) =
     (\<lambda>w. case perform_call deps req c w of
        None \<Rightarrow> None
      | Some (w', r) \<Rightarrow>
          (case perform_calls deps req cs w' of
             None \<Rightarrow> None
           | Some (w'', r') \<Rightarrow> Some (w'', case r of Inl err \<Rightarrow> Inl err | Inr _ \<Rightarrow> r')))"

text \<open>The executor of the execution, and a run of it, which the provider's memory observes.\<close>

definition fetch_executor ::
  "('w, 'p) provider_ops \<Rightarrow> 'w workflow \<Rightarrow> string \<Rightarrow> ('p orch, 'w executor) proc" where
  "fetch_executor ops wfl i w =
     (case getExecutor ops (new_executor wfl) (orch_provider w) i of
        (p, st) \<Rightarrow> Some (w\<lparr>orch_provider := p\<rparr>, Inr st))"

definition run_fetched ::
  "('w, 'p) provider_ops \<Rightarrow> string \<Rightarrow> ('w executor, 'a) proc \<Rightarrow> 'w executor \<Rightarrow>
   ('p orch, 'w executor \<times> 'a) proc" where
  "run_fetched ops i m st w =
     (case m st of
        None \<Rightarrow> None
      | Some (st', r) \<Rightarrow>
          Some (w\<lparr>orch_provider := ranExecutor ops (orch_provider w) i st'\<rparr>,
                case r of Inl err \<Rightarrow> Inl err | Inr a \<Rightarrow> Inr (st', a)))"

definition call_events_of :: "orchestrate_request \<Rightarrow> workflow_call list \<Rightarrow> workflow_event list" where
  "call_events_of req cs = map (\<lambda>c. createEvent (CallEvent 0 (wc_event c)) (or_executionTime req) '''') cs"

definition run_events :: "orchestrate_request \<Rightarrow> workflow_event list" where
  "run_events req =
     createEvent (WorkflowRunStarted '''' 0) (or_executionTime req) (or_ulid req 1) # or_events req"

text \<open>
  The body of the event collector: the events it emits, with the executor and its call events
  unless the workflow does not exist.
\<close>

definition collect_events ::
  "('w, 'p) provider_ops \<Rightarrow> 'w orchestrator_deps \<Rightarrow> orchestrate_request \<Rightarrow>
   ('p orch, workflow_event list \<times> ('w executor \<times> workflow_event list) option) proc" where
  "collect_events ops deps req =
     (case od_lookupWorkflow deps (or_workflowName req) of
        None \<Rightarrow>
          proc_bind (persistWorkflowResult deps req (Failed (mk_Error ''Workflow not found'')))
            (\<lambda>e. proc_return ([e], None))
      | Some wfl \<Rightarrow>
          proc_bind (fetch_executor ops wfl (or_executionId req)) (\<lambda>st.
          proc_bind (run_fetched ops (or_executionId req)
              (runExecutor wfl (run_events req) (or_executionTime req)) st) (\<lambda>(st, out).
          proc_bind (perform_calls deps req (ro_calls out)) (\<lambda>_.
          let callEvents = call_events_of req (ro_calls out);
              runCompleted = createEvent (WorkflowRunCompleted '''' 0) (or_executionTime req) (or_ulid req 3)
          in proc_bind
              (case ro_result out of
                 Some r \<Rightarrow>
                   (if ro_previousResult out = None
                    then proc_bind (persistWorkflowResult deps req r) (\<lambda>e. proc_return [e])
                    else proc_return [])
               | None \<Rightarrow> proc_return [])
              (\<lambda>completed.
                 proc_return (run_events req @ callEvents @ completed @ [runCompleted],
                   Some (st, callEvents)))))))"

definition eventCollectorScope ::
  "'w orchestrator_deps \<Rightarrow> string \<Rightarrow> ('p orch, workflow_event list \<times> 'a) proc \<Rightarrow> ('p orch, 'a) proc" where
  "eventCollectorScope deps executionId body =
     proc_bind body (\<lambda>(newEvents, r).
     proc_bind (emit_effect deps (PutEvents executionId newEvents)) (\<lambda>_. proc_return r))"

definition persistExecutor ::
  "('w, 'p) provider_ops \<Rightarrow> string \<Rightarrow> ('w executor \<times> workflow_event list) option \<Rightarrow> ('p orch, unit) proc" where
  "persistExecutor ops i r w =
     (case r of
        None \<Rightarrow> Some (w, Inr ())
      | Some (st, newEvents) \<Rightarrow>
          Some (w\<lparr>orch_provider := persistExecution ops (orch_provider w) i newEvents st\<rparr>, Inr ()))"

definition orchestrateExecution ::
  "('w, 'p) provider_ops \<Rightarrow> 'w orchestrator_deps \<Rightarrow> orchestrate_request \<Rightarrow> ('p orch, unit) proc" where
  "orchestrateExecution ops deps req =
     proc_bind (tryHandleFirstRun deps req) (\<lambda>_.
     proc_bind (eventCollectorScope deps (or_executionId req) (collect_events ops deps req))
       (persistExecutor ops (or_executionId req)))"


section \<open>Batches of workflow tasks\<close>

text \<open>An event of a task is an object or its JSON text; \<open>parse\<close> is \<open>JSON.parse\<close>.\<close>

datatype task_event = EventObject workflow_event | EventJson string

record workflow_task =
  wt_executionId :: string
  wt_events :: "task_event list"

definition parse_event :: "(string \<Rightarrow> js + workflow_event) \<Rightarrow> task_event \<Rightarrow> js + workflow_event" where
  "parse_event parse e = (case e of EventObject ev \<Rightarrow> Inr ev | EventJson text \<Rightarrow> parse text)"

fun parse_events :: "(string \<Rightarrow> js + workflow_event) \<Rightarrow> task_event list \<Rightarrow> js + workflow_event list" where
  "parse_events parse [] = Inr []"
| "parse_events parse (e # es) =
     (case parse_event parse e of
        Inl err \<Rightarrow> Inl err
      | Inr ev \<Rightarrow> (case parse_events parse es of Inl err \<Rightarrow> Inl err | Inr evs \<Rightarrow> Inr (ev # evs)))"

fun parse_records ::
  "(string \<Rightarrow> js + workflow_event) \<Rightarrow> (string \<times> workflow_task list) list \<Rightarrow>
   js + (string \<times> workflow_event list) list" where
  "parse_records parse [] = Inr []"
| "parse_records parse ((executionId, records) # rs) =
     (case parse_events parse (concat (map wt_events records)) of
        Inl err \<Rightarrow> Inl err
      | Inr evs \<Rightarrow>
          (case parse_records parse rs of Inl err \<Rightarrow> Inl err | Inr rs' \<Rightarrow> Inr ((executionId, evs) # rs')))"

record run_report =
  failedExecutions :: "(string \<times> string option) list"
  succeededExecutions :: "string list"

text \<open>One execution of the batch; an error is caught and recorded.\<close>

definition run_execution ::
  "(string \<Rightarrow> string \<Rightarrow> workflow_event list \<Rightarrow> ('s, unit) proc) \<Rightarrow>
   string \<Rightarrow> workflow_event list \<Rightarrow> run_report \<Rightarrow> ('s, run_report) proc" where
  "run_execution executor executionId records report s =
     (let failed = (\<lambda>err. report\<lparr>failedExecutions :=
            failedExecutions report @ [(executionId, ne_message (normalizeError err))]\<rparr>)
      in if \<not> isExecutionId executionId
         then Some (s, Inr (failed (mk_Error (''invalid ExecutionID: '' @ [CHR 0x27] @ executionId @ [CHR 0x27]))))
         else (case executor (parseWorkflowName executionId) executionId records s of
             None \<Rightarrow> None
           | Some (s', Inl err) \<Rightarrow> Some (s', Inr (failed err))
           | Some (s', Inr _) \<Rightarrow>
               Some (s', Inr (report\<lparr>succeededExecutions := succeededExecutions report @ [executionId]\<rparr>))))"

fun run_each ::
  "(string \<Rightarrow> string \<Rightarrow> workflow_event list \<Rightarrow> ('s, unit) proc) \<Rightarrow>
   (string \<times> workflow_event list) list \<Rightarrow> run_report \<Rightarrow> ('s, run_report) proc" where
  "run_each executor [] report = proc_return report"
| "run_each executor ((executionId, records) # rs) report =
     proc_bind (run_execution executor executionId records report) (run_each executor rs)"

definition runExecutions ::
  "(string \<Rightarrow> js + workflow_event) \<Rightarrow> workflow_task list \<Rightarrow>
   (string \<Rightarrow> string \<Rightarrow> workflow_event list \<Rightarrow> ('s, unit) proc) \<Rightarrow> ('s, run_report) proc" where
  "runExecutions parse workflowTasks executor s =
     (case parse_records parse (groupBy workflowTasks wt_executionId) of
        Inl err \<Rightarrow> Some (s, Inl err)
      | Inr eventsByExecutionId \<Rightarrow>
          run_each executor eventsByExecutionId \<lparr>failedExecutions = [], succeededExecutions = []\<rparr> s)"

text \<open>\<open>createOrchestrator\<close>: the ids of the executions that failed to orchestrate.\<close>

definition orchestrator ::
  "('w, 'p) provider_ops \<Rightarrow> 'w orchestrator_deps \<Rightarrow> (string \<Rightarrow> js + workflow_event) \<Rightarrow>
   (string \<Rightarrow> nat \<Rightarrow> string) \<Rightarrow> int \<Rightarrow> workflow_task list \<Rightarrow> ('p orch, string list) proc" where
  "orchestrator ops deps parse ulid baseTime workflowTasks =
     proc_bind (runExecutions parse workflowTasks (\<lambda>workflow executionId evs.
         orchestrateExecution ops deps
           \<lparr>or_workflowName = workflow, or_executionId = executionId, or_events = evs,
            or_executionTime = baseTime, or_ulid = ulid executionId\<rparr>))
       (\<lambda>report. proc_return (map fst (failedExecutions report)))"

end
