(* ===== verification/OrchestratorRefinement.thy ===== *)
theory OrchestratorRefinement
  imports Orchestrator WorkflowInvariants
begin

text \<open>
  What an orchestration achieves. \<open>spec_orchestrate\<close> is its specification: the workflow goes on
  by the events that are new and by the timers that are due. \<open>carries\<close> relates an executor, in
  memory or to be rebuilt from a stored history, to the state of the specification it stands
  for. The lemmas on \<open>orchestrateExecution\<close> are proved for any provider, in its locales, and the
  properties are their instances for the providers of the code.
\<close>

section \<open>Running an executor\<close>

text \<open>The state after the events, and the history of input events it corresponds to.\<close>

definition spec_orchestrate ::
  "'w workflow \<Rightarrow> workflow_event list \<Rightarrow> workflow_event list \<Rightarrow> int \<Rightarrow> 'w spec \<Rightarrow>
   ('w spec \<times> workflow_event list) option" where
  "spec_orchestrate wfl hist evs time s =
     (let es = filterEvents hist evs
      in case spec_events wfl (completion_events es) s of
           None \<Rightarrow> None
         | Some s1 \<Rightarrow>
             (let due = filterEvents (hist @ es) (generateSyntheticTimerEvents s1 (hist @ es) time)
              in case spec_events wfl (completion_events due) s1 of
                   None \<Rightarrow> None
                 | Some s2 \<Rightarrow> Some (s2, hist @ es @ due)))"

text \<open>An executor kept in memory: it expects no calls.\<close>

definition ready :: "'w executor \<Rightarrow> 'w spec \<Rightarrow> bool" where
  "ready st s \<longleftrightarrow> rests st s \<and> expected_rest st = []"

text \<open>A history from which a replay gets to a state, with the calls made so far.\<close>

definition stored :: "'w workflow \<Rightarrow> workflow_event list \<Rightarrow> 'w spec \<Rightarrow> bool" where
  "stored wfl H s \<longleftrightarrow> H \<noteq> [] \<and> \<not> stopped s \<and> 
     (\<exists>input context. processArgs H (StartEvents []) = Inr (input, context, []) \<and>
       spec_run wfl input context (completion_events H) = Some s) \<and>
     length (call_events H) = length (log s) \<and> agree (call_events H) (log s)"

datatype start_kind = InMemory | FromStore | FirstRun

definition carries ::
  "'w workflow \<Rightarrow> start_kind \<Rightarrow> workflow_event list \<Rightarrow> 'w executor \<Rightarrow> 'w spec \<Rightarrow> bool" where
  "carries wfl kind evs st s \<longleftrightarrow>
     (case kind of
        InMemory \<Rightarrow> ready st s
      | FromStore \<Rightarrow> \<exists>H. st = new_executor wfl H \<and> stored wfl H s
      | FirstRun \<Rightarrow> st = new_executor wfl [] \<and>
          (\<exists>input context. processArgs [] (StartEvents evs) = Inr (input, context, evs) \<and>
             spec_drain wfl (spec_start wfl input context) = Some s) \<and>
          List.find isWorkflowStarted (filterEvents [] evs) = List.find isWorkflowStarted evs)"

lemma await_run_Some:
  "run st = Some (Inr st') \<Longrightarrow> finished st' = Some r \<Longrightarrow> await_run run st = Some (st', Inr r)"
  by (simp add: await_run_def)

lemma new_executor_fields [simp]:
  "started (new_executor wfl H) = False" "history (new_executor wfl H) = H" "result (new_executor wfl H) = None"
  by (simp_all add: new_executor_def)

lemma call_events_append: "call_events (a @ b) = call_events a @ call_events b"
  by (simp add: call_events_def)

lemma completion_events_append: "completion_events (a @ b) = completion_events a @ completion_events b"
  by (simp add: completion_events_def)

lemma rerun_ready:
  assumes "ready st s \<or> st = new_executor wfl H \<and> stored wfl H s"
  shows "\<exists>st'. rerunHistoricalEvents wfl st = Some (st', Inr (result s)) \<and> ready st' s \<and> history st' = history st"
proof (cases "ready st s")
  case True
  then have "started st" "result st = result s" by (auto simp: ready_def rests_def dest: view_field)
  then show ?thesis using True by (simp add: rerunHistoricalEvents_def)
next
  case False
  then have st: "st = new_executor wfl H" and s: "stored wfl H s" using assms by auto
  from s obtain input "context" where args: "processArgs H (StartEvents []) = Inr (input, context, [])"
    and run: "spec_run wfl input context (completion_events H) = Some s" and ok: "\<not> stopped s"
    and calls: "length (call_events H) = length (log s)" "agree (call_events H) (log s)" and H: "H \<noteq> []"
    by (auto simp: stored_def)
  have HH: "H = H @ filterEvents H []" by (simp add: filterEvents_def)
  from start_refinement [OF args HH run ok calls(2)] calls(1) obtain st' cs where
    st': "run_start wfl (StartEvents []) st = Some (Inr st')" "rests st' s" "history st' = H"
      "finished st' = Some \<lparr>wr_result = result s, wr_calls = cs\<rparr>" "expected_rest st' = []"
    by (auto simp: st)
  then show ?thesis
    using H by (auto simp: rerunHistoricalEvents_def st ready_def proc_bind_def await_run_Some)
qed

lemma continue_ready:
  assumes ready: "ready st s" and run: "\<not> stopped s" and new: "es = filterEvents (history st) evs"
    and nocalls: "call_events es = []" and spec: "spec_events wfl (completion_events es) s = Some s'" and ok: "\<not> stopped s'"
  shows "\<exists>st' cs. await_run (run_continue wfl evs) st = Some (st', Inr \<lparr>wr_result = result s', wr_calls = cs\<rparr>) \<and>
    ready st' s' \<and> history st' = history st @ es \<and> log s' = log s @ map wc_event cs \<and> list_all recorded cs"
proof -
  from extends_events [OF spec] obtain l where l: "log s' = log s @ l" by (auto simp: extends_def)
  from continue_refinement [OF _ run new spec ok _ l, of "[]"] ready nocalls obtain st' cs where
    "run_continue wfl evs st = Some (Inr st')" "rests st' s'" "history st' = history st @ es"
    "finished st' = Some \<lparr>wr_result = result s', wr_calls = cs\<rparr>" "map wc_event cs = l" "expected_rest st' = []"
    by (auto simp: ready_def)
  moreover from this have "list_all recorded cs"
    using run_continue_recorded [of wfl evs st st' _ s] ready by (simp add: ready_def)
  ultimately show ?thesis using l by (auto simp: ready_def await_run_Some intro!: exI [of _ st'] exI [of _ cs])
qed

lemma generate_view:
  assumes "view c = view c'" shows "generateSyntheticTimerEvents c H t = generateSyntheticTimerEvents c' H t"
proof -
  have "activeEventuals c = activeEventuals c'" by (rule view_field [OF assms])
  then have "is_due_timer c t = is_due_timer c' t" "hasActiveEventuals c = hasActiveEventuals c'"
    by (auto simp: fun_eq_iff is_due_timer_def isEventualActive_def hasActiveEventuals_def split: workflow_event.split call_history_event.split)
  then show ?thesis by (simp add: generateSyntheticTimerEvents_def)
qed

lemma due_timer_call: "is_due_timer c t e \<Longrightarrow> \<exists>n. timer_completed_now t e = TimerCompleted n t"
  by (auto simp: is_due_timer_def timer_completed_now_def createEvent_def event_guard_defs isHistoryEvent_def
     isCompletionEvent_iff with_timestamp.simps split: workflow_event.splits call_history_event.splits)

lemma filterEvents_subset: "set (filterEvents H es) \<subseteq> set es"
  using filter_new_spec by (auto simp: filterEvents_def)

lemma synthetic_no_calls: "call_events (filterEvents H' (generateSyntheticTimerEvents c H t)) = []"
proof -
  have "\<not> isCallEvent e" if "e \<in> set (generateSyntheticTimerEvents c H t)" for e
    using that by (auto simp: generateSyntheticTimerEvents_def isCallEvent_iff dest!: due_timer_call split: if_splits)
  then show ?thesis using filterEvents_subset [of H' "generateSyntheticTimerEvents c H t"] by (auto simp: call_events_def filter_empty_conv)
qed

lemma synthetic_ready:
  assumes ready: "ready st s1" and run: "\<not> stopped s1" and H: "H = history st"
    and due: "due = filterEvents H (generateSyntheticTimerEvents s1 H time)"
    and spec: "spec_events wfl (completion_events due) s1 = Some s2" and ok: "\<not> stopped s2"
  shows "\<exists>st' r cs. runSyntheticTimerEvents wfl time st = Some (st', Inr r) \<and>
    ready st' s2 \<and> history st' = H @ due \<and> log s2 = log s1 @ map wc_event cs \<and> list_all recorded cs \<and>
    (\<forall>previous calls. merge_runs previous \<lparr>wr_result = result s1, wr_calls = calls\<rparr> r =
       \<lparr>ro_previousResult = previous, ro_calls = calls @ cs, ro_result = result s2\<rparr>)"
proof -
  have gen: "generateSyntheticTimerEvents st H time = generateSyntheticTimerEvents s1 H time"
    by (rule generate_view) (use ready in \<open>simp add: ready_def rests_def\<close>)
  show ?thesis
  proof (cases "generateSyntheticTimerEvents s1 H time = []")
    case True
    then have "due = []" "s2 = s1" using spec by (auto simp: due filterEvents_def completion_events_def)
    then show ?thesis
      using ready gen True H by (auto simp: runSyntheticTimerEvents_def merge_runs_def intro!: exI [of _ "[]"])
  next
    case False
    from continue_ready [OF ready run _ synthetic_no_calls [of H s1 H time, folded due] spec ok,
        of "generateSyntheticTimerEvents s1 H time"]
    obtain st' cs where st': "await_run (run_continue wfl (generateSyntheticTimerEvents s1 H time)) st =
        Some (st', Inr \<lparr>wr_result = result s2, wr_calls = cs\<rparr>)" "ready st' s2" "history st' = H @ due"
        "log s2 = log s1 @ map wc_event cs" "list_all recorded cs"
      using H by (auto simp: due)
    have "runSyntheticTimerEvents wfl time st = Some (st', Inr (Some \<lparr>wr_result = result s2, wr_calls = cs\<rparr>))"
      using False st'(1) gen H by (simp add: runSyntheticTimerEvents_def)
    moreover have "result s1 = None" if "result s2 = None"
      using extends_events [OF spec] that by (auto simp: extends_def)
    ultimately show ?thesis using st' by (auto simp: merge_runs_def split: option.split)
  qed
qed

text \<open>The result known before a run, and the calls that were executed before it.\<close>

definition result_before :: "start_kind \<Rightarrow> 'w spec \<Rightarrow> js result option" where
  "result_before kind s = (if kind = FirstRun then None else result s)"

definition log_before :: "start_kind \<Rightarrow> 'w spec \<Rightarrow> call_history_event list" where
  "log_before kind s = (if kind = FirstRun then [] else log s)"

lemma current_run:
  assumes carried: "carries wfl kind evs st s" and run: "\<not> stopped s"
    and es: "es = filterEvents (history st) evs" and nocalls: "call_events es = []"
    and spec: "spec_events wfl (completion_events es) s = Some s1" and ok: "\<not> stopped s1"
  shows "\<exists>st0 st' cs. rerunHistoricalEvents wfl st = Some (st0, Inr (result_before kind s)) \<and>
    runCurrentExecutor wfl evs st0 = Some (st', Inr \<lparr>wr_result = result s1, wr_calls = cs\<rparr>) \<and>
    ready st' s1 \<and> history st' = history st @ es \<and> log s1 = log_before kind s @ map wc_event cs \<and>
    list_all recorded cs"
proof (cases "kind = FirstRun")
  case True
  then obtain input "context" where st: "st = new_executor wfl []"
    and args: "processArgs [] (StartEvents evs) = Inr (input, context, evs)"
    and start: "spec_drain wfl (spec_start wfl input context) = Some s"
    using carried by (auto simp: carries_def)
  have "spec_run wfl input context (completion_events es) = Some s1" using start spec by (simp add: spec_run_def)
  from start_refinement [OF args _ this ok] nocalls obtain st' cs where
    "run_start wfl (StartEvents evs) st = Some (Inr st')" "rests st' s1" "history st' = es"
    "finished st' = Some \<lparr>wr_result = result s1, wr_calls = cs\<rparr>" "map wc_event cs = log s1" "expected_rest st' = []"
    by (auto simp: st es)
  moreover from this have "list_all recorded cs" using run_start_recorded [of wfl "StartEvents evs" "[]" st'] st by simp
  ultimately have "runCurrentExecutor wfl evs st = Some (st', Inr \<lparr>wr_result = result s1, wr_calls = cs\<rparr>)"
      "ready st' s1" "history st' = history st @ es" "log s1 = log_before kind s @ map wc_event cs"
      "list_all recorded cs"
    by (simp_all add: runCurrentExecutor_def st ready_def await_run_Some log_before_def True)
  moreover have "rerunHistoricalEvents wfl st = Some (st, Inr (result_before kind s))"
    by (simp add: rerunHistoricalEvents_def st result_before_def True)
  ultimately show ?thesis by blast
next
  case False
  then have "ready st s \<or> (\<exists>H. st = new_executor wfl H \<and> stored wfl H s)"
    using carried by (auto simp: carries_def split: start_kind.splits)
  then obtain st0 where st0: "rerunHistoricalEvents wfl st = Some (st0, Inr (result s))" "ready st0 s" "history st0 = history st"
    using rerun_ready by blast
  from continue_ready [OF st0(2) run _ nocalls spec ok, of evs] st0(3) es obtain st' cs where
    "await_run (run_continue wfl evs) st0 = Some (st', Inr \<lparr>wr_result = result s1, wr_calls = cs\<rparr>)"
    "ready st' s1" "history st' = history st @ es" "log s1 = log s @ map wc_event cs"
      "list_all recorded cs"
    by auto
  moreover have "started st0" using st0(2) by (simp add: ready_def rests_def)
  ultimately show ?thesis
    using st0(1) False by (auto simp: runCurrentExecutor_def result_before_def log_before_def)
qed

lemma run_executor_refines:
  assumes carried: "carries wfl kind evs st s"
    and spec: "spec_orchestrate wfl (history st) evs time s = Some (s', H)" and ok: "\<not> stopped s'"
    and nocalls: "call_events evs = []"
  shows "\<exists>st' cs. runExecutor wfl evs time st =
      Some (st', Inr \<lparr>ro_previousResult = result_before kind s, ro_calls = cs, ro_result = result s'\<rparr>) \<and>
    ready st' s' \<and> history st' = H \<and> log s' = log_before kind s @ map wc_event cs \<and> list_all recorded cs"
proof -
  define es where "es = filterEvents (history st) evs"
  from spec obtain s1 due where s1: "spec_events wfl (completion_events es) s = Some s1"
    and due: "due = filterEvents (history st @ es) (generateSyntheticTimerEvents s1 (history st @ es) time)"
    and s2: "spec_events wfl (completion_events due) s1 = Some s'" and H: "H = history st @ es @ due"
    by (auto simp: spec_orchestrate_def Let_def es_def split: option.splits)
  have ok1: "\<not> stopped s1" using extends_events [OF s2] ok by (auto simp: extends_def)
  have ok0: "\<not> stopped s" using extends_events [OF s1] ok1 by (auto simp: extends_def)
  have "call_events es = []"
    using nocalls filterEvents_subset [of "history st" evs] by (auto simp: es_def call_events_def filter_empty_conv)
  from current_run [OF carried ok0 es_def this s1 ok1] obtain st0 st1 cs1 where
    r1: "rerunHistoricalEvents wfl st = Some (st0, Inr (result_before kind s))"
      "runCurrentExecutor wfl evs st0 = Some (st1, Inr \<lparr>wr_result = result s1, wr_calls = cs1\<rparr>)"
      "ready st1 s1" "history st1 = history st @ es" "log s1 = log_before kind s @ map wc_event cs1"
      "list_all recorded cs1"
    by blast
  have H': "H = (history st @ es) @ due" by (simp add: H)
  from synthetic_ready [OF r1(3) ok1 r1(4) [symmetric] due s2 ok, folded H'] obtain st2 r cs2 where
    r2: "runSyntheticTimerEvents wfl time st1 = Some (st2, Inr r)" "ready st2 s'" "history st2 = H"
      "log s' = log s1 @ map wc_event cs2" "list_all recorded cs2"
      "\<forall>previous calls. merge_runs previous \<lparr>wr_result = result s1, wr_calls = calls\<rparr> r =
         \<lparr>ro_previousResult = previous, ro_calls = calls @ cs2, ro_result = result s'\<rparr>"
    by blast
  have "runExecutor wfl evs time st =
      Some (st2, Inr \<lparr>ro_previousResult = result_before kind s, ro_calls = cs1 @ cs2, ro_result = result s'\<rparr>)"
    by (simp add: runExecutor_def r1(1,2) r2(1,6))
  then show ?thesis using r1(5,6) r2 by (intro exI [of _ st2] exI [of _ "cs1 @ cs2"]) simp
qed

text \<open>
  A run of the orchestrator's executor, whether the executor was kept in
  memory, is rebuilt from a stored history, or is new. If the specification goes on from what
  the executor stands for by the new events and the timers that are due, the run returns the
  specification's result, the result known before, exactly the calls the specification logs
  beyond those made before, each with the event of its call, and leaves the executor at rest in the specification's state.
\<close>

theorem run_executor_implements_spec:
  assumes carried: "carries wfl kind evs st s"
    and spec: "spec_orchestrate wfl (history st) evs time s = Some (s', H)" and ok: "\<not> stopped s'"
    and nocalls: "call_events evs = []"
  shows "\<exists>st' cs. runExecutor wfl evs time st =
      Some (st', Inr \<lparr>ro_previousResult = result_before kind s, ro_calls = cs, ro_result = result s'\<rparr>) \<and>
    ready st' s' \<and> history st' = H \<and> log s' = log_before kind s @ map wc_event cs \<and> list_all recorded cs"
  by (rule run_executor_refines [OF assms])

end
