(* ===== verification/Orchestrations.thy ===== *)
theory Orchestrations
  imports OrchestratorRefinement
begin

text \<open>
  Orchestrations of one execution: which requests an orchestration makes (\<open>emits\<close>), that it
  always returns, what it does to the providers of executors, and that what it stores is a
  history from which the next replay goes on. The lemmas on providers are proved in their
  locales.
\<close>

section \<open>What an orchestration emits\<close>

text \<open>
  A procedure that only emits: it always returns, \<open>a\<close> after the requests \<open>es\<close>, or an error, and
  that only if \<open>bad\<close> holds: a request is refused or an executor throws.
\<close>

definition emits :: "bool \<Rightarrow> ('p orch, 'a) proc \<Rightarrow> 'a \<Rightarrow> effect list \<Rightarrow> bool" where
  "emits bad m a es \<longleftrightarrow>
     (\<forall>w. \<exists>w' r. m w = Some (w', r) \<and> orch_provider w' = orch_provider w \<and>
        (isl r \<longrightarrow> bad) \<and> (\<not> isl r \<longrightarrow> r = Inr a \<and> outbox w' = outbox w @ es))"

lemma emitsE:
  assumes "emits bad m a es"
  obtains w' r where "m w = Some (w', r)" "orch_provider w' = orch_provider w"
    "\<not> isl r \<Longrightarrow> r = Inr a" "\<not> isl r \<Longrightarrow> outbox w' = outbox w @ es" "isl r \<Longrightarrow> bad"
  using assms unfolding emits_def by metis

lemma emits_return: "emits bad (proc_return a) a []"
  by (simp add: emits_def)

lemma emits_weaken: "emits bad m a es \<Longrightarrow> (bad \<Longrightarrow> bad') \<Longrightarrow> emits bad' m a es"
  unfolding emits_def by blast

lemma emits_bind:
  assumes "emits bad m a es" and "emits bad' (f a) b es'"
  shows "emits (bad \<or> bad') (proc_bind m f) b (es @ es')"
  unfolding emits_def
proof
  fix w
  obtain w1 r1 where m: "m w = Some (w1, r1)" "orch_provider w1 = orch_provider w"
      "\<not> isl r1 \<Longrightarrow> r1 = Inr a" "\<not> isl r1 \<Longrightarrow> outbox w1 = outbox w @ es" "isl r1 \<Longrightarrow> bad"
    by (rule emitsE [OF assms(1), where w = w]) blast
  obtain w2 r2 where f: "f a w1 = Some (w2, r2)" "orch_provider w2 = orch_provider w1"
      "\<not> isl r2 \<Longrightarrow> r2 = Inr b" "\<not> isl r2 \<Longrightarrow> outbox w2 = outbox w1 @ es'" "isl r2 \<Longrightarrow> bad'"
    by (rule emitsE [OF assms(2), where w = w1]) blast
  show "\<exists>w' r. proc_bind m f w = Some (w', r) \<and> orch_provider w' = orch_provider w \<and>
      (isl r \<longrightarrow> bad \<or> bad') \<and> (\<not> isl r \<longrightarrow> r = Inr b \<and> outbox w' = outbox w @ es @ es')"
    using m f by (cases r1) (auto simp: proc_bind_def)
qed

text \<open>Requests are refused by other components, and executors of calls may throw.\<close>

definition refused :: "'w orchestrator_deps \<Rightarrow> effect list \<Rightarrow> bool" where
  "refused deps es \<longleftrightarrow> (\<exists>e \<in> set es. od_error deps e \<noteq> None)"

lemma refused_simps [simp]:
  "\<not> refused deps []" "refused deps (e # es) \<longleftrightarrow> od_error deps e \<noteq> None \<or> refused deps es"
  "refused deps (es @ es') \<longleftrightarrow> refused deps es \<or> refused deps es'"
  by (auto simp: refused_def)

lemma emits_effect: "emits (od_error deps e \<noteq> None) (emit_effect deps e) () [e]"
  by (auto simp: emits_def emit_effect_def split: option.split)

lemma emits_then: "emits bad m a es \<Longrightarrow> emits bad (proc_bind m (\<lambda>x. proc_return (f x))) (f a) es"
  using emits_bind [of bad m a es False "\<lambda>x. proc_return (f x)" "f a" "[]"] emits_return [of False "f a"] by simp

lemma emits_effects: "emits (refused deps es) (emit_effects deps es) () es"
proof (induction es)
  case Nil
  show ?case unfolding emit_effects.simps refused_simps by (rule emits_return)
next
  case (Cons e es)
  from emits_bind [OF emits_effect this] show ?case by simp
qed

definition timeout_effects :: "'w orchestrator_deps \<Rightarrow> orchestrate_request \<Rightarrow> effect list" where
  "timeout_effects deps req =
     (case List.find isWorkflowStarted (or_events req) of
        Some (WorkflowStarted i t workflow input (Some timeout) name parentId) \<Rightarrow>
          [Request (scheduleEvent (od_baseTime deps) (or_executionId req)
            (createEvent (WorkflowTimedOut '''' 0) timeout (or_ulid req 0)) (Time timeout))]
      | _ \<Rightarrow> [])"

lemma emits_first_run: "emits (refused deps (timeout_effects deps req)) (tryHandleFirstRun deps req) () (timeout_effects deps req)"
  by (auto simp: tryHandleFirstRun_def timeout_effects_def emits_effect [simplified] emits_return
      split: option.split workflow_event.split)

lemma first_run_refused: "tryHandleFirstRun deps req w = Some (w', r) \<Longrightarrow> isl r \<Longrightarrow> timeout_effects deps req \<noteq> []"
  by (auto simp: tryHandleFirstRun_def timeout_effects_def split: option.splits workflow_event.splits)

definition completion_effect :: "orchestrate_request \<Rightarrow> js result \<Rightarrow> effect" where
  "completion_effect req r =
     (case r of
        Failed err \<Rightarrow> FailExecution (or_executionId req) (or_executionTime req)
          (ne_error (normalizeError err)) (ne_message (normalizeError err))
      | Resolved v \<Rightarrow> SucceedExecution (or_executionId req) (or_executionTime req) v)"

definition completion_event :: "orchestrate_request \<Rightarrow> js result \<Rightarrow> workflow_event" where
  "completion_event req r =
     createEvent (case r of
        Failed err \<Rightarrow> WorkflowFailed '''' 0 (ne_error (normalizeError err)) (ne_message (normalizeError err))
      | Resolved v \<Rightarrow> WorkflowSucceeded '''' 0 v) (or_executionTime req) (or_ulid req 2)"

lemma emits_result: "emits (od_error deps (completion_effect req r) \<noteq> None) (persistWorkflowResult deps req r) (completion_event req r) [completion_effect req r]"
proof (cases r)
  case (Resolved v)
  show ?thesis
    unfolding persistWorkflowResult_def completion_event_def completion_effect_def Resolved result.case
    by (rule emits_then [OF emits_effect])
next
  case (Failed err)
  show ?thesis
    unfolding persistWorkflowResult_def completion_event_def completion_effect_def Failed result.case Let_def
    by (rule emits_then [OF emits_effect])
qed

definition call_requests :: "'w orchestrator_deps \<Rightarrow> orchestrate_request \<Rightarrow> workflow_call \<Rightarrow> effect list" where
  "call_requests deps req c =
     (case executeForWorkflow (od_clients deps) (od_baseTime deps) (wc_call c)
         \<lparr>cp_executionId = or_executionId req, cp_executionTime = or_executionTime req,
          cp_seq = wc_seq c, cp_workflow = or_workflowName req\<rparr> of
        Inl err \<Rightarrow> [] | Inr requests \<Rightarrow> map Request requests)"

definition call_fails :: "'w orchestrator_deps \<Rightarrow> orchestrate_request \<Rightarrow> workflow_call \<Rightarrow> bool" where
  "call_fails deps req c \<longleftrightarrow>
     isl (executeForWorkflow (od_clients deps) (od_baseTime deps) (wc_call c)
         \<lparr>cp_executionId = or_executionId req, cp_executionTime = or_executionTime req,
          cp_seq = wc_seq c, cp_workflow = or_workflowName req\<rparr>) \<or> refused deps (call_requests deps req c)"

lemma emits_call: "emits (call_fails deps req c) (perform_call deps req c) () (call_requests deps req c)"
  using emits_effects [of deps] by (auto simp: emits_def perform_call_def call_requests_def call_fails_def split: sum.split)

lemma emits_calls: "emits (\<exists>c \<in> set cs. call_fails deps req c) (perform_calls deps req cs :: ('p orch, unit) proc) () (concat (map (call_requests deps req) cs))"
proof (induction cs)
  case (Cons c cs)
  show ?case
    unfolding emits_def
  proof
    fix w :: "'p orch"
    obtain w1 r1 where 1: "perform_call deps req c w = Some (w1, r1)" "orch_provider w1 = orch_provider w"
        "\<not> isl r1 \<Longrightarrow> outbox w1 = outbox w @ call_requests deps req c" "isl r1 \<Longrightarrow> call_fails deps req c"
      by (rule emitsE [OF emits_call [of deps req c], where w = w]) blast
    obtain w2 r2 where 2: "perform_calls deps req cs w1 = Some (w2, r2)" "orch_provider w2 = orch_provider w1"
        "\<not> isl r2 \<Longrightarrow> outbox w2 = outbox w1 @ concat (map (call_requests deps req) cs)"
        "isl r2 \<Longrightarrow> \<exists>c \<in> set cs. call_fails deps req c"
      by (rule emitsE [OF Cons.IH, where w = w1]) blast
    show "\<exists>w' r. perform_calls deps req (c # cs) w = Some (w', r) \<and> orch_provider w' = orch_provider w \<and>
        (isl r \<longrightarrow> (\<exists>c \<in> set (c # cs). call_fails deps req c)) \<and>
        (\<not> isl r \<longrightarrow> r = Inr () \<and> outbox w' = outbox w @ concat (map (call_requests deps req) (c # cs)))"
      using 1 2 by (cases r1; cases r2) auto
  qed
qed (simp add: emits_def)

text \<open>The completion of this run: a result that was not known before.\<close>

definition new_result :: "js result option \<Rightarrow> js result option \<Rightarrow> js result list" where
  "new_result before after = (case after of Some r \<Rightarrow> if before = None then [r] else [] | None \<Rightarrow> [])"

definition orchestration_effects ::
  "'w orchestrator_deps \<Rightarrow> orchestrate_request \<Rightarrow> workflow_call list \<Rightarrow> js result list \<Rightarrow> effect list" where
  "orchestration_effects deps req cs completed =
     timeout_effects deps req @ concat (map (call_requests deps req) cs) @
     map (completion_effect req) completed @
     [PutEvents (or_executionId req) (run_events req @ call_events_of req cs @
        map (completion_event req) completed @
        [createEvent (WorkflowRunCompleted '''' 0) (or_executionTime req) (or_ulid req 3)])]"

definition orchestration_refused ::
  "'w orchestrator_deps \<Rightarrow> orchestrate_request \<Rightarrow> workflow_call list \<Rightarrow> js result list \<Rightarrow> bool" where
  "orchestration_refused deps req cs completed \<longleftrightarrow>
     refused deps (orchestration_effects deps req cs completed) \<or> (\<exists>c \<in> set cs. call_fails deps req c)"

section \<open>Orchestrating one execution\<close>

text \<open>The part of the collector after the run.\<close>

definition finish_run ::
  "'w orchestrator_deps \<Rightarrow> orchestrate_request \<Rightarrow> 'w executor \<Rightarrow> run_output \<Rightarrow>
   ('p orch, workflow_event list \<times> ('w executor \<times> workflow_event list) option) proc" where
  "finish_run deps req st out =
     proc_bind (perform_calls deps req (ro_calls out)) (\<lambda>_.
     proc_bind
       (case ro_result out of
          Some r \<Rightarrow>
            (if ro_previousResult out = None
             then proc_bind (persistWorkflowResult deps req r) (\<lambda>e. proc_return [e])
             else proc_return [])
        | None \<Rightarrow> proc_return [])
       (\<lambda>completed.
          proc_return (run_events req @ call_events_of req (ro_calls out) @ completed @
              [createEvent (WorkflowRunCompleted '''' 0) (or_executionTime req) (or_ulid req 3)],
            Some (st, call_events_of req (ro_calls out)))))"

lemma collect_events_known:
  "od_lookupWorkflow deps (or_workflowName req) = Some wfl \<Longrightarrow>
   collect_events ops deps req =
     proc_bind (fetch_executor ops wfl (or_executionId req)) (\<lambda>st.
     proc_bind (run_fetched ops (or_executionId req)
         (runExecutor wfl (run_events req) (or_executionTime req)) st) (\<lambda>(st, out). finish_run deps req st out))"
  by (simp add: collect_events_def finish_run_def Let_def)

lemma emits_completed:
  "emits (refused deps (map (completion_effect req) (new_result before after))) (case after of
      Some r \<Rightarrow>
        (if before = None then proc_bind (persistWorkflowResult deps req r) (\<lambda>e. proc_return [e])
         else proc_return [])
    | None \<Rightarrow> proc_return [])
   (map (completion_event req) (new_result before after)) (map (completion_effect req) (new_result before after))"
  using emits_then [OF emits_result] emits_return [of _ "[]"]
  by (cases after) (auto simp: new_result_def)

lemma emits_finish:
  "emits (orchestration_refused deps req cs (new_result before after))
     (finish_run deps req st \<lparr>ro_previousResult = before, ro_calls = cs, ro_result = after\<rparr>)
     (run_events req @ call_events_of req cs @ map (completion_event req) (new_result before after) @
        [createEvent (WorkflowRunCompleted '''' 0) (or_executionTime req) (or_ulid req 3)],
      Some (st, call_events_of req cs))
     (concat (map (call_requests deps req) cs) @ map (completion_effect req) (new_result before after))"
  unfolding finish_run_def run_output.simps
  by (rule emits_weaken [OF emits_bind [OF emits_calls emits_then [OF emits_completed]]])
    (auto simp: orchestration_refused_def orchestration_effects_def)

lemma run_events_no_calls [simp]: "call_events (or_events req) = [] \<Longrightarrow> call_events (run_events req) = []"
  by (simp add: run_events_def call_events_def createEvent_def isCallEvent_iff event_guard_defs)

text \<open>
  An orchestration of an execution that exists and whose workflow comes to rest: it always
  returns, and nothing it does touches the executor before the run. \<open>p\<close> is what the provider's
  memory holds after the run.
\<close>

definition orchestrates ::
  "('w, 'p) provider_ops \<Rightarrow> 'w orchestrator_deps \<Rightarrow> orchestrate_request \<Rightarrow> 'p orch \<Rightarrow> start_kind \<Rightarrow>
   'w spec \<Rightarrow> 'w spec \<Rightarrow> workflow_event list \<Rightarrow> bool" where
  "orchestrates ops deps req w kind s s' H \<longleftrightarrow>
     (\<exists>wfl. od_lookupWorkflow deps (or_workflowName req) = Some wfl \<and>
        (let st = snd (getExecutor ops (new_executor wfl) (orch_provider w) (or_executionId req))
         in carries wfl kind (run_events req) st s \<and>
            spec_orchestrate wfl (history st) (run_events req) (or_executionTime req) s = Some (s', H))) \<and>
     \<not> stopped s' \<and> call_events (or_events req) = []"

lemma orchestrate_outcome:
  assumes lookup: "od_lookupWorkflow deps (or_workflowName req) = Some wfl"
    and orch: "orchestrates ops deps req w kind s s' H"
  shows "\<exists>w' r st' cs p. orchestrateExecution ops deps req w = Some (w', r) \<and> ready st' s' \<and> history st' = H \<and>
    log s' = log_before kind s @ map wc_event cs \<and> list_all recorded cs \<and>
    p = ranExecutor ops (fst (getExecutor ops (new_executor wfl) (orch_provider w) (or_executionId req)))
          (or_executionId req) st' \<and>
    (\<not> isl r \<longrightarrow>
       outbox w' = outbox w @ orchestration_effects deps req cs (new_result (result_before kind s) (result s')) \<and>
       orch_provider w' = persistExecution ops p (or_executionId req) (call_events_of req cs) st') \<and>
    (isl r \<longrightarrow> orchestration_refused deps req cs (new_result (result_before kind s) (result s')) \<and>
       (orch_provider w' = p \<or> orch_provider w' = orch_provider w \<and> timeout_effects deps req \<noteq> []))"
proof -
  let ?i = "or_executionId req"
  obtain p0 st where get: "getExecutor ops (new_executor wfl) (orch_provider w) ?i = (p0, st)" by fastforce
  from orch lookup have carried: "carries wfl kind (run_events req) st s"
    and spec: "spec_orchestrate wfl (history st) (run_events req) (or_executionTime req) s = Some (s', H)"
    and ok: "\<not> stopped s'" and calls: "call_events (run_events req) = []"
    by (auto simp: orchestrates_def get Let_def)
  from run_executor_refines [OF carried spec ok calls] obtain st' cs where
    run: "runExecutor wfl (run_events req) (or_executionTime req) st =
        Some (st', Inr \<lparr>ro_previousResult = result_before kind s, ro_calls = cs, ro_result = result s'\<rparr>)"
      "ready st' s'" "history st' = H" "log s' = log_before kind s @ map wc_event cs"
      "list_all recorded cs"
    by blast
  define p where "p = ranExecutor ops p0 ?i st'"
  let ?done = "new_result (result_before kind s) (result s')"
  let ?out = "\<lparr>ro_previousResult = result_before kind s, ro_calls = cs, ro_result = result s'\<rparr>"
  let ?evs = "run_events req @ call_events_of req cs @ map (completion_event req) ?done @
        [createEvent (WorkflowRunCompleted '''' 0) (or_executionTime req) (or_ulid req 3)]"
  obtain w1 r1 where first: "tryHandleFirstRun deps req w = Some (w1, r1)" "orch_provider w1 = orch_provider w"
      "\<not> isl r1 \<Longrightarrow> outbox w1 = outbox w @ timeout_effects deps req" "isl r1 \<Longrightarrow> refused deps (timeout_effects deps req)"
    by (rule emitsE [OF emits_first_run, where w = w]) blast
  show ?thesis
  proof (cases "isl r1")
    case True
    then have "orchestrateExecution ops deps req w = Some (w1, Inl (projl r1))"
      using first(1) by (auto simp: orchestrateExecution_def isl_def)
    moreover have "timeout_effects deps req \<noteq> []" using True first(1) by (auto dest: first_run_refused)
    moreover have "orchestration_refused deps req cs ?done"
      using first(4) [OF True] by (simp add: orchestration_refused_def orchestration_effects_def)
    ultimately show ?thesis using run first(2) get by (fastforce simp: p_def)
  next
    case False
    have "collect_events ops deps req w1 =
        finish_run deps req st' ?out (w1\<lparr>orch_provider := p\<rparr>)"
      using first(2) get run(1)
      by (simp add: collect_events_known [OF lookup] fetch_executor_def proc_bind_def run_fetched_def p_def)
    moreover obtain w2 r2 where finish: "finish_run deps req st' ?out (w1\<lparr>orch_provider := p\<rparr>) = Some (w2, r2)"
        "orch_provider w2 = p" "\<not> isl r2 \<Longrightarrow> r2 = Inr (?evs, Some (st', call_events_of req cs))"
        "\<not> isl r2 \<Longrightarrow> outbox w2 = outbox w1 @ concat (map (call_requests deps req) cs) @ map (completion_effect req) ?done"
        "isl r2 \<Longrightarrow> orchestration_refused deps req cs ?done"
      by (rule emitsE [OF emits_finish, where w = "w1\<lparr>orch_provider := p\<rparr>"]) (simp, blast)
    ultimately have collect: "collect_events ops deps req w1 = Some (w2, r2)" by simp
    obtain u where u: "r1 = Inr u" using False by (cases r1) auto
    have orch_eq: "orchestrateExecution ops deps req w =
        proc_bind (eventCollectorScope deps ?i (collect_events ops deps req)) (persistExecutor ops ?i) w1"
      using first(1) by (simp add: orchestrateExecution_def u)
    show ?thesis
    proof (cases r2)
      case (Inl err)
      then have "orchestrateExecution ops deps req w = Some (w2, Inl err)"
        using collect by (simp add: orch_eq eventCollectorScope_def proc_bind_def)
      then show ?thesis using run finish(2,5) get Inl by (fastforce simp: p_def)
    next
      case (Inr x)
      then have x: "x = (?evs, Some (st', call_events_of req cs))" using finish(3) by simp
      obtain w3 r3 where put: "emit_effect deps (PutEvents ?i ?evs) w2 = Some (w3, r3)"
          "orch_provider w3 = orch_provider w2" "\<not> isl r3 \<Longrightarrow> outbox w3 = outbox w2 @ [PutEvents ?i ?evs]"
          "isl r3 \<Longrightarrow> orchestration_refused deps req cs ?done"
        by (rule emitsE [OF emits_effect, where w = w2]) (auto simp: orchestration_refused_def orchestration_effects_def)
      show ?thesis
      proof (cases r3)
        case (Inl err)
        then have "orchestrateExecution ops deps req w = Some (w3, Inl err)"
          using collect Inr x put(1) by (simp add: orch_eq eventCollectorScope_def proc_bind_def)
        then show ?thesis using run finish(2) put(2,4) get Inl by (fastforce simp: p_def)
      next
        case (Inr y)
        let ?w = "w3\<lparr>orch_provider := persistExecution ops p ?i (call_events_of req cs) st'\<rparr>"
        have "orchestrateExecution ops deps req w = Some (?w, Inr ())"
          using collect \<open>r2 = Inr x\<close> x put(1) Inr finish(2) put(2)
          by (simp add: orch_eq eventCollectorScope_def proc_bind_def persistExecutor_def)
        moreover have "outbox ?w = outbox w @ orchestration_effects deps req cs ?done"
          using put(3) Inr finish(4) \<open>r2 = Inr x\<close> first(3) False by (simp add: orchestration_effects_def)
        ultimately show ?thesis using run get by (fastforce simp: p_def)
      qed
    qed
  qed
qed

section \<open>The stored history\<close>

lemma agree_append: "length a = length b \<Longrightarrow> agree a b \<Longrightarrow> agree x y \<Longrightarrow> agree (a @ x) (b @ y)"
  by (auto simp: agree_def nth_append less_diff_conv2)

text \<open>Call events read back from JSON stand for the calls; of the other events nothing changes.\<close>

lemma call_events_persist: "call_events (map persist_event H) = map persist_call (call_events H)"
proof -
  have "isCallEvent (persist_event e) = isCallEvent e" "isCallEvent e \<Longrightarrow> call_of (persist_event e) = persist_call (call_of e)" for e
    by (cases e; simp add: isCallEvent_def call_of_def)+
  then show ?thesis by (induction H) (simp_all add: call_events_def)
qed

lemma completion_persist: "isCompletionEvent (persist_event e) = isCompletionEvent e"
  by (cases e) (simp_all add: isCompletionEvent_iff event_guard_defs)

lemma due_timers_json: "list_all json_event (generateSyntheticTimerEvents c H t)"
  by (auto simp: generateSyntheticTimerEvents_def list_all_iff json_event_def dest!: due_timer_call)

lemma filterEvents_json: "list_all json_event es \<Longrightarrow> list_all json_event (filterEvents H es)"
  using filterEvents_subset [of H es] by (auto simp: list_all_iff)

lemma orchestrated_json:
  assumes "spec_orchestrate wfl H0 evs time s = Some (s', H)" and "list_all json_event H0" and "list_all json_event evs"
  shows "list_all json_event H"
  using assms by (auto simp: spec_orchestrate_def Let_def filterEvents_json due_timers_json split: option.splits)

lemma call_events_of_facts:
  "call_events (call_events_of req cs) = map wc_event cs" "completion_events (call_events_of req cs) = []"
proof -
  have "createEvent (CallEvent 0 c) t '''' = CallEvent t c" for c t
    by (simp add: createEvent_def isHistoryEvent_def isCallEvent_iff event_guard_defs)
  then show "call_events (call_events_of req cs) = map wc_event cs" "completion_events (call_events_of req cs) = []"
    by (induction cs) (auto simp: call_events_of_def call_events_def completion_events_def isCallEvent_iff
        isCompletionEvent_iff call_of_def event_guard_defs)
qed

lemma completion_events_Nil [simp]: "completion_events [] = []"
  by (simp add: completion_events_def)

lemma call_events_Nil [simp]: "call_events [] = []"
  by (simp add: call_events_def)

lemma find_append:
  "List.find P (xs @ ys) = (case List.find P xs of Some x \<Rightarrow> Some x | None \<Rightarrow> List.find P ys)"
  by (induction xs) auto

lemma processArgs_append:
  "processArgs H (StartEvents []) = Inr (input, c, []) \<Longrightarrow> processArgs (H @ H') (StartEvents []) = Inr (input, c, [])"
  by (auto simp: processArgs_def find_append split: option.splits)

lemma processArgs_first:
  assumes "processArgs [] (StartEvents evs) = Inr (input, c, evs)"
    and "List.find isWorkflowStarted es = List.find isWorkflowStarted evs"
  shows "processArgs (es @ H') (StartEvents []) = Inr (input, c, [])"
  using assms by (auto simp: processArgs_def find_append split: option.splits workflow_event.splits)

text \<open>
  What a run leaves to be stored: the history of its events and then events that stand for its
  calls. The next replay gets to the state the run ended in.
\<close>

lemma stored_after_run:
  assumes carried: "carries wfl kind evs (new_executor wfl H0) s" and kind: "kind \<noteq> InMemory"
    and spec: "spec_orchestrate wfl H0 evs time s = Some (s', H)" and ok: "\<not> stopped s'"
    and nocalls: "call_events evs = []" and log: "log s' = log_before kind s @ map wc_event cs" and ne: "evs \<noteq> []"
    and E: "completion_events E = []" "length (call_events E) = length cs" "agree (call_events E) (map wc_event cs)"
  shows "stored wfl (H @ E) s'"
proof -
  define es where "es = filterEvents H0 evs"
  from spec obtain s1 due where s1: "spec_events wfl (completion_events es) s = Some s1"
    and due: "due = filterEvents (H0 @ es) (generateSyntheticTimerEvents s1 (H0 @ es) time)"
    and s2: "spec_events wfl (completion_events due) s1 = Some s'" and H: "H = H0 @ es @ due"
    by (auto simp: spec_orchestrate_def Let_def es_def split: option.splits)
  have es0: "call_events es = []"
    using nocalls filterEvents_subset [of H0 evs] by (auto simp: es_def call_events_def filter_empty_conv)
  have calls: "call_events (H @ E) = call_events H0 @ call_events E"
    by (simp add: H call_events_append es0 due synthetic_no_calls)
  have comp: "completion_events (H @ E) = completion_events H0 @ completion_events es @ completion_events due"
    by (simp add: H completion_events_append E(1))
  show ?thesis
  proof (cases kind)
    case FirstRun
    then have H0: "H0 = []" using carried by (auto simp: carries_def new_executor_def)
    from carried FirstRun obtain input "context" where args: "processArgs [] (StartEvents evs) = Inr (input, context, evs)"
      and start: "spec_drain wfl (spec_start wfl input context) = Some s"
      and first: "List.find isWorkflowStarted es = List.find isWorkflowStarted evs"
      by (auto simp: carries_def es_def H0)
    have "processArgs (H @ E) (StartEvents []) = Inr (input, context, [])"
      using processArgs_first [OF args first, of "due @ E"] by (simp add: H H0)
    moreover have "spec_run wfl input context (completion_events (H @ E)) = Some s'"
      using start s1 s2 unfolding comp H0 by (simp add: completion_events_Nil spec_run_def spec_events_append)
    moreover have "length (call_events (H @ E)) = length (log s')" "agree (call_events (H @ E)) (log s')"
      using log FirstRun E(2,3) unfolding calls H0 by (simp_all add: log_before_def)
    moreover have "H \<noteq> []"
      using ne by (cases evs) (simp_all add: H H0 es_def filterEvents_def)
    ultimately show ?thesis using ok by (auto simp: stored_def)
  next
    case FromStore
    then have "stored wfl H0 s" using carried by (auto simp: carries_def new_executor_def)
    then obtain input "context" where st: "H0 \<noteq> []" "processArgs H0 (StartEvents []) = Inr (input, context, [])"
      "spec_run wfl input context (completion_events H0) = Some s"
      "length (call_events H0) = length (log s)" "agree (call_events H0) (log s)"
      by (auto simp: stored_def)
    have "processArgs (H @ E) (StartEvents []) = Inr (input, context, [])"
      using processArgs_append [OF st(2)] by (simp add: H)
    moreover have "spec_run wfl input context (completion_events (H @ E)) = Some s'"
      using st(3) s1 s2 by (simp add: comp spec_run_append spec_events_append)
    moreover have "log s' = log s @ map wc_event cs" using log FromStore by (simp add: log_before_def)
    moreover have "H \<noteq> []" using st(1) by (simp add: H)
    ultimately show ?thesis
      using ok st(4,5) E(2,3) by (auto simp: stored_def calls agree_append)
  qed (use kind in simp)
qed

section \<open>Providers\<close>

text \<open>A relation between the states before and after that a procedure upholds, however it ends.\<close>

definition upholds :: "('s \<Rightarrow> 's \<Rightarrow> bool) \<Rightarrow> ('s, 'a) proc \<Rightarrow> bool" where
  "upholds R m \<longleftrightarrow> (\<forall>w w' r. m w = Some (w', r) \<longrightarrow> R w w')"

lemma upholds_bind:
  assumes "transp R" and "upholds R m" and "\<And>a. upholds R (f a)"
  shows "upholds R (proc_bind m f)"
  using assms unfolding upholds_def proc_bind_def
  by (auto split: option.splits prod.splits sum.splits) (meson transpE)+

lemma upholds_emits: "(\<And>w w'. orch_provider w' = orch_provider w \<Longrightarrow> R w w') \<Longrightarrow> emits bad m a es \<Longrightarrow> upholds R m"
  unfolding upholds_def by (metis emitsE option.inject prod.inject)

lemma upholds_return: "(\<And>w. R w w) \<Longrightarrow> upholds R (proc_return a)"
  by (simp add: upholds_def)

context executor_provider
begin

definition same_others :: "string \<Rightarrow> 'p orch \<Rightarrow> 'p orch \<Rightarrow> bool" where
  "same_others i w w' \<longleftrightarrow> (\<forall>j init. j \<noteq> i \<longrightarrow>
     snd (getExecutor ops init (orch_provider w') j) = snd (getExecutor ops init (orch_provider w) j))"

lemma transp_same_others: "transp (same_others i)"
  by (auto simp: transp_def same_others_def)

lemma same_others_provider: "orch_provider w' = orch_provider w \<Longrightarrow> same_others i w w'"
  by (simp add: same_others_def)

lemmas others_bind = upholds_bind [OF transp_same_others]
lemmas others_emits = upholds_emits [where R = "same_others i" for i, OF same_others_provider]

lemma others_fetch: "upholds (same_others i) (fetch_executor ops wfl i)"
  by (auto simp: upholds_def fetch_executor_def same_others_def split: prod.splits)
    (metis fst_conv got_other)

lemma others_run: "upholds (same_others i) (run_fetched ops i m st)"
  by (auto simp: upholds_def run_fetched_def same_others_def ran_other split: option.splits prod.splits)

lemma others_persist: "upholds (same_others i) (persistExecutor ops i r)"
  by (auto simp: upholds_def persistExecutor_def same_others_def persisted_other split: option.splits)

text \<open>Whatever happens to one execution, the executors of the others are what they were.\<close>

lemma orchestration_keeps_others:
  assumes run: "orchestrateExecution ops deps req w = Some (w', r)" and j: "j \<noteq> or_executionId req"
  shows "snd (getExecutor ops init (orch_provider w') j) = snd (getExecutor ops init (orch_provider w) j)"
proof -
  let ?R = "same_others (or_executionId req)"
  have finish: "upholds ?R (finish_run deps req st out)" for st out
    by (cases out) (simp, rule others_emits [OF _ emits_finish], simp)
  have "upholds ?R (collect_events ops deps req)"
  proof (cases "od_lookupWorkflow deps (or_workflowName req)")
    case None
    show ?thesis
      unfolding collect_events_def None option.case
      by (rule others_emits [OF _ emits_then [OF emits_result]]) simp
  next
    case (Some wfl)
    show ?thesis
      unfolding collect_events_known [OF Some]
      by (intro others_bind others_fetch others_run) (auto simp: split_beta finish)
  qed
  then have "upholds ?R (orchestrateExecution ops deps req)"
    unfolding orchestrateExecution_def eventCollectorScope_def
    by (intro others_bind others_persist others_emits [OF _ emits_first_run])
      (auto simp: split_beta intro!: others_emits [OF _ emits_then [OF emits_effect]])
  then show ?thesis using run j by (auto simp: upholds_def same_others_def)
qed

end

context store_provider
begin

lemma failed_orchestration_unchanged:
  assumes "orchestrateExecution ops deps req w = Some (w', Inl err)"
  shows "orch_provider w' = orch_provider w"
proof -
  let ?R = "\<lambda>w w'. orch_provider w' = orch_provider w"
  have trans: "transp ?R" by (auto simp: transp_def)
  note bind = upholds_bind [OF trans] and emit = upholds_emits [where R = ?R]
  have fetch: "upholds ?R (fetch_executor ops wfl i)" for wfl i
    by (auto simp: upholds_def fetch_executor_def got)
  have run: "upholds ?R (run_fetched ops i m st)" for i m st
    by (auto simp: upholds_def run_fetched_def ran split: option.splits prod.splits)
  have finish: "upholds ?R (finish_run deps req st out)" for st out
    by (cases out) (simp, rule emit [OF _ emits_finish], simp)
  have "upholds ?R (collect_events ops deps req)"
  proof (cases "od_lookupWorkflow deps (or_workflowName req)")
    case None
    show ?thesis
      unfolding collect_events_def None option.case by (rule emit [OF _ emits_then [OF emits_result]]) simp
  next
    case (Some wfl)
    show ?thesis
      unfolding collect_events_known [OF Some] by (intro bind fetch run) (auto simp: split_beta finish)
  qed
  then have "upholds ?R (proc_bind (tryHandleFirstRun deps req) (\<lambda>_.
      eventCollectorScope deps (or_executionId req) (collect_events ops deps req)))"
    unfolding eventCollectorScope_def
    by (intro bind emit [OF _ emits_first_run]) (auto simp: split_beta intro!: emit [OF _ emits_then [OF emits_effect]])
  moreover have "proc_bind (tryHandleFirstRun deps req) (\<lambda>_.
      eventCollectorScope deps (or_executionId req) (collect_events ops deps req)) w = Some (w', Inl err)"
    using assms by (auto simp: orchestrateExecution_def proc_bind_def persistExecutor_def
        split: option.splits prod.splits sum.splits)
  ultimately show ?thesis by (auto simp: upholds_def)
qed

text \<open>
  A successful orchestration is one step of the specification. The history stored for it reads
  back as the copy of the run's history with its calls, and if the events came as JSON and the
  calls are plain data, the next replay starts where the run ended.
\<close>

lemma store_orchestration:
  assumes lookup: "od_lookupWorkflow deps (or_workflowName req) = Some wfl"
    and orch: "orchestrates ops deps req w kind s s' H" and kind: "kind \<noteq> InMemory"
  shows "\<exists>w' r cs. orchestrateExecution ops deps req w = Some (w', r) \<and>
    log s' = log_before kind s @ map wc_event cs \<and> list_all recorded cs \<and>
    (isl r \<longrightarrow> orchestration_refused deps req cs (new_result (result_before kind s) (result s'))) \<and>
    (\<not> isl r \<longrightarrow>
       outbox w' = outbox w @ orchestration_effects deps req cs (new_result (result_before kind s) (result s')) \<and>
       read (orch_provider w') (or_executionId req) = map persist_event (H @ call_events_of req cs) \<and>
       (list_all json_event (or_events req) \<and> list_all call_plain (map wc_event cs) \<longrightarrow>
          stored wfl (read (orch_provider w') (or_executionId req)) s'))"
proof -
  from orchestrate_outcome [OF lookup orch] obtain w' r st' cs p where
    o: "orchestrateExecution ops deps req w = Some (w', r)" "history st' = H"
      "log s' = log_before kind s @ map wc_event cs"
      "\<not> isl r \<longrightarrow>
         outbox w' = outbox w @ orchestration_effects deps req cs (new_result (result_before kind s) (result s')) \<and>
         orch_provider w' = persistExecution ops p (or_executionId req) (call_events_of req cs) st'"
      "isl r \<longrightarrow> orchestration_refused deps req cs (new_result (result_before kind s) (result s'))"
      "list_all recorded cs"
    by blast
  define H0 where "H0 = read (orch_provider w) (or_executionId req)"
  have run: "carries wfl kind (run_events req) (new_executor wfl H0) s"
    "spec_orchestrate wfl H0 (run_events req) (or_executionTime req) s = Some (s', H)" "\<not> stopped s'"
    "call_events (run_events req) = []"
    using orch lookup by (auto simp: orchestrates_def Let_def got H0_def)
  let ?E = "map persist_event (call_events_of req cs)"
  have "completion_events ?E = []"
    using call_events_of_facts(2) [of req cs] by (simp add: completion_events_def filter_empty_conv completion_persist)
  moreover have calls: "call_events ?E = map persist_call (map wc_event cs)"
    by (simp only: call_events_persist call_events_of_facts)
  ultimately have stored: "stored wfl (H @ ?E) s'" if "list_all call_plain (map wc_event cs)"
    using stored_after_run [OF run(1) kind run(2-4) o(3), of ?E] agree_persist [OF that, of "length cs"]
    by (simp add: run_events_def)
  have "map persist_event (H @ call_events_of req cs) = H @ ?E" if "list_all json_event (or_events req)"
  proof -
    have "list_all json_event (run_events req)"
      using that by (simp add: run_events_def createEvent_def json_event_def isHistoryEvent_def isCompletionEvent_iff event_guard_defs)
    from orchestrated_json [OF run(2) _ this] have "list_all json_event H" using read_json by (simp add: H0_def)
    then show ?thesis by (simp flip: persist_events_id)
  qed
  then show ?thesis using o stored persisted by (intro exI [of _ w'] exI [of _ r] exI [of _ cs]) auto
qed

end

context memory_provider
begin

text \<open>
  An executor kept in memory has moved on when its orchestration fails, so that the events of
  the failed orchestration are old when they come again.
\<close>

lemma memory_keeps_failed_run:
  assumes lookup: "od_lookupWorkflow deps (or_workflowName req) = Some wfl"
    and orch: "orchestrates ops deps req w kind s s' H" and late: "timeout_effects deps req = []"
  shows "\<exists>w' r st' cs. orchestrateExecution ops deps req w = Some (w', r) \<and>
    snd (getExecutor ops (new_executor wfl) (orch_provider w') (or_executionId req)) = st' \<and>
    ready st' s' \<and> history st' = H \<and> log s' = log_before kind s @ map wc_event cs \<and> list_all recorded cs \<and>
    (if isl r then orchestration_refused deps req cs (new_result (result_before kind s) (result s'))
     else outbox w' = outbox w @ orchestration_effects deps req cs (new_result (result_before kind s) (result s')))"
proof -
  from orchestrate_outcome [OF lookup orch] obtain w' r st' cs p where
    o: "orchestrateExecution ops deps req w = Some (w', r)" "ready st' s'" "history st' = H"
      "log s' = log_before kind s @ map wc_event cs"
      "p = ranExecutor ops (fst (getExecutor ops (new_executor wfl) (orch_provider w) (or_executionId req)))
          (or_executionId req) st'"
      "\<not> isl r \<longrightarrow>
         outbox w' = outbox w @ orchestration_effects deps req cs (new_result (result_before kind s) (result s')) \<and>
         orch_provider w' = persistExecution ops p (or_executionId req) (call_events_of req cs) st'"
      "isl r \<longrightarrow> orchestration_refused deps req cs (new_result (result_before kind s) (result s')) \<and>
         (orch_provider w' = p \<or> orch_provider w' = orch_provider w \<and> timeout_effects deps req \<noteq> [])"
      "list_all recorded cs"
    by blast
  have "snd (getExecutor ops (new_executor wfl) (orch_provider w') (or_executionId req)) = st'"
    using o(5-7) late ran persisted by (cases "isl r") simp_all
  then show ?thesis using o(1-4,6-8) by (intro exI conjI) auto
qed

end

end
