(* ===== verification/ReplayMismatch.thy ===== *)
theory ReplayMismatch
  imports WorkflowInvariants
begin

text \<open>
  A replay on a history that lacks the workflow's first calls. \<open>calls_from\<close> says that the calls a
  workflow makes later have later sequence numbers, so that they never pass for its first
  call. The first call then fails the run with a DeterminismError, and nothing that happens
  afterwards in the run changes this: \<open>doomed\<close> is the invariant of the event loop.
\<close>

section \<open>Later calls have later numbers\<close>

definition calls_from :: "nat \<Rightarrow> nat \<Rightarrow> 'w spec \<Rightarrow> bool" where
  "calls_from k n s \<longleftrightarrow> n \<le> nextSeq s \<and> k \<le> length (log s) \<and> (\<forall>c \<in> set (drop k (log s)). n \<le> call_seq c)"

lemma calls_from_same: "calls_from k n s \<Longrightarrow> nextSeq s' = nextSeq s \<Longrightarrow> log s' = log s \<Longrightarrow> calls_from k n s'"
  by (simp add: calls_from_def)

lemma nextSeq_resolve_all: "nextSeq (resolve_all rs c) = nextSeq c"
  unfolding resolve_all_def by (induction rs arbitrary: c) (simp_all split: prod.split)

lemmas nextSeq_simps = nextSeq_resolve_all make_eventual_promises(2)

lemma calls_from_execute: "calls_from k n s \<Longrightarrow> calls_from k n (fst (spec_execute wfl c s))"
  by (auto simp: spec_execute_def calls_from_def Let_def set_result_def createCallEvent_seq nextSeq_simps
      split: option.splits sum.splits)

lemma calls_from_burst: "calls_from k n s \<Longrightarrow> calls_from k n (fst (spec_burst wfl b s))"
proof (induction b arbitrary: s)
  case (Exec w c k')
  obtain s' r where ex: "spec_execute wfl c (s\<lparr>user := w\<rparr>) = (s', r)" by fastforce
  have "calls_from k n s'"
    using calls_from_execute [OF calls_from_same [OF Exec.prems, of "s\<lparr>user := w\<rparr>"], of wfl c] by (simp add: ex)
  then show ?case using Exec.IH by (simp add: ex)
next
  case (Watch p f b)
  then show ?case using Watch.IH [OF calls_from_same [OF Watch.prems, of "watch p (UserReaction f) s"]] by simp
next
  case (SettleUser m r b)
  then show ?case using SettleUser.IH [OF calls_from_same [OF SettleUser.prems, of "settle (UserPromise m) r s"]] by simp
qed (auto elim!: calls_from_same simp: finish_workflow_def enqueue_def)

lemma calls_from_handler: "calls_from k n s \<Longrightarrow> calls_from k n (fst (spec_handler wfl h arg s))"
  by (auto simp: spec_handler_def calls_from_burst split: handler.split option.split)

lemma calls_from_invoke: "calls_from k n s \<Longrightarrow> calls_from k n (spec_invoke wfl arg r s)"
  using calls_from_handler [of k n s wfl "snd r" arg]
  by (auto simp: spec_invoke_def elim: calls_from_same split: prod.splits)

lemma calls_from_invoke_all: "calls_from k n s \<Longrightarrow> calls_from k n (fold (spec_invoke wfl arg) rs s)"
  by (induction rs arbitrary: s) (simp_all add: calls_from_invoke)

lemma calls_from_set_result: "calls_from k n s \<Longrightarrow> calls_from k n (set_result r s)"
  by (simp add: calls_from_def set_result_def)

lemma calls_from_job: "calls_from k n s \<Longrightarrow> calls_from k n (spec_job wfl j s)"
  by (simp add: spec_job_def calls_from_burst calls_from_invoke calls_from_set_result split: job.split reaction.split)

lemma calls_from_apply: "calls_from k n s \<Longrightarrow> calls_from k n (spec_apply wfl e s)"
  by (auto simp: spec_apply_def Let_def intro!: calls_from_invoke_all calls_from_set_result split: option.split)

lemma calls_from_drain: "spec_drain wfl s = Some s' \<Longrightarrow> calls_from k n s \<Longrightarrow> calls_from k n s'"
proof -
  assume drain: "spec_drain wfl s = Some s'" and start: "calls_from k n s"
  have "calls_from k n s \<longrightarrow> calls_from k n s'"
  proof (rule spec_drain.raw_induct [where P = "\<lambda>wfl s s'. calls_from k n s \<longrightarrow> calls_from k n s'", OF _ drain], rule impI)
    fix drain wfl and s s' :: "'a spec"
    assume IH: "\<And>wfl s s'. drain wfl s = Some s' \<Longrightarrow> calls_from k n s \<longrightarrow> calls_from k n s'"
      and step: "(case jobs s of [] \<Rightarrow> Some s | j # js \<Rightarrow> drain wfl (spec_job wfl j (s\<lparr>jobs := js\<rparr>))) = Some s'"
      and start: "calls_from k n s"
    show "calls_from k n s'"
    proof (cases "jobs s")
      case (Cons j js)
      have "calls_from k n (spec_job wfl j (s\<lparr>jobs := js\<rparr>))"
        by (rule calls_from_job, rule calls_from_same [OF start]) simp_all
      then show ?thesis using step Cons IH by simp
    qed (use step start in simp)
  qed
  then show ?thesis using start by simp
qed

lemma calls_from_events: "spec_events wfl es s = Some s' \<Longrightarrow> calls_from k n s \<Longrightarrow> calls_from k n s'"
  by (induction es arbitrary: s) (auto dest: calls_from_drain intro: calls_from_apply split: option.splits)

lemma calls_from_now: "calls_from (length (log s)) (nextSeq s) s"
  by (simp add: calls_from_def)

text \<open>A call is recorded under a number that is in use afterwards.\<close>

lemma execute_numbers:
  "log (fst (spec_execute wfl c s)) = log s \<or>
   (\<exists>e. log (fst (spec_execute wfl c s)) = log s @ [e] \<and> call_seq e < nextSeq (fst (spec_execute wfl c s)))"
  by (auto simp: spec_execute_def Let_def set_result_def createCallEvent_seq nextSeq_simps split: option.splits sum.splits)

text \<open>So a workflow that has made calls goes on with other numbers than that of its first call.\<close>

lemma first_call_number:
  "log s = [] \<Longrightarrow> log (fst (spec_burst wfl b s)) \<noteq> [] \<Longrightarrow>
   call_seq (hd (log (fst (spec_burst wfl b s)))) < nextSeq (fst (spec_burst wfl b s))"
proof (induction b arbitrary: s)
  case (Exec w c k)
  obtain s2 r where ex: "spec_execute wfl c (s\<lparr>user := w\<rparr>) = (s2, r)" by fastforce
  from execute_numbers [of wfl c "s\<lparr>user := w\<rparr>"] Exec.prems(1)
  consider "log s2 = []" | e where "log s2 = [e]" "call_seq e < nextSeq s2" by (auto simp: ex)
  then show ?case
  proof cases
    case 1
    then show ?thesis using Exec.IH [OF _ 1] Exec.prems(2) by (simp add: ex)
  next
    case 2
    have "calls_from 1 (nextSeq s2) (fst (spec_burst wfl (k r) s2))"
      using calls_from_burst [OF calls_from_now [of s2]] 2(1) by simp
    then show ?thesis
      using 2 extends_burst [of s2 wfl "k r"] by (auto simp: ex calls_from_def extends_def)
  qed
qed simp_all

lemma first_call_start:
  assumes "log (spec_start wfl input context) = c # cs"
  shows "call_seq c < nextSeq (spec_start wfl input context)"
proof -
  let ?s = "fst (spec_burst wfl (wf_definition wfl input context) (new_spec wfl))"
  have "log (spec_start wfl input context) = log ?s" "nextSeq (spec_start wfl input context) = nextSeq ?s"
    by (simp_all add: spec_start_def set_result_def split: prod.split option.split)
  moreover from this have "log ?s = c # cs" using assms by simp
  moreover have "log (new_spec wfl) = []" by (simp add: new_spec_def)
  ultimately show ?thesis using first_call_number [of "new_spec wfl" wfl "wf_definition wfl input context"] by simp
qed

lemma calls_from_mono:
  assumes "spec_drain wfl s = Some s1" and "spec_events wfl es s1 = Some s2"
  shows "nextSeq s \<le> nextSeq s2"
  using calls_from_events [OF assms(2) calls_from_drain [OF assms(1) calls_from_now]] by (simp add: calls_from_def)

section \<open>A call that does not match\<close>

definition determinism_failure :: "js result \<Rightarrow> bool" where
  "determinism_failure r \<longleftrightarrow> (\<exists>msg. r = Failed (mk_DeterminismError (Some msg)))"

text \<open>What ends the run is the first tick to come, or the run has ended with it.\<close>

definition doomed :: "'w executor \<Rightarrow> bool" where
  "doomed st \<longleftrightarrow>
     (currentRun st \<noteq> None \<and> (\<exists>r ts. ticks st = CompleteRun (Some r) # ts \<and> determinism_failure r)) \<or>
     (currentRun st = None \<and> (\<exists>r. finished st = Some r \<and> (\<exists>e. wr_result r = Some e \<and> determinism_failure e)))"

lemma doomed_adds: "doomed st \<Longrightarrow> adds st st' \<Longrightarrow> doomed st'"
  by (auto simp: doomed_def adds_def)

lemma execute_mismatch:
  assumes sim: "sim [] E st s" and none: "log s = []" and E: "E = e # es"
    and made: "log (fst (spec_execute wfl call s)) = [ev]" and diff: "\<not> same_call e ev" and idle: "ticks st = []"
  shows "doomed (fst (execute wfl call st)) \<and> snd (execute wfl call st) = snd (spec_execute wfl call s)"
proof -
  from made none obtain c rs d create where
    c: "call = Some c" "initializeEventual (wf_predicate wfl (user s)) c = Inr (rs, d)" "createCallEvent d = Some create"
    by (cases call; cases "initializeEventual (wf_predicate wfl (user s)) (the call)")
      (auto simp: spec_execute_def set_result_def Let_def split: option.splits prod.splits)
  let ?st = "(resolve_all rs st)\<lparr>nextSeq := Suc (nextSeq (resolve_all rs st))\<rparr>"
  let ?s = "(resolve_all rs s)\<lparr>nextSeq := Suc (nextSeq (resolve_all rs s))\<rparr>"
  have v: "view (resolve_all rs st) = view (resolve_all rs s)" by (simp add: sim_view [OF sim])
  then have seq: "nextSeq (resolve_all rs st) = nextSeq (resolve_all rs s)" by (rule view_field)
  have ev: "ev = create (nextSeq (resolve_all rs s))"
    using made none c by (simp add: spec_execute_def Let_def)
  have sim1: "sim [] E ?st ?s" by (rule sim_op [OF sim]) (simp_all add: sim_view [OF sim] seq)
  have user: "user st = user s" by (rule view_field [OF sim_view [OF sim]])
  from sim1 none obtain cs where st1: "currentRun ?st = Some cs" "map call_of (expected_rest ?st) = e # es"
      "expected ?st \<le> length (history ?st)"
    by (auto simp: sim_def call_rel_def E)
  then obtain x xs where rest: "expected_rest ?st = x # xs" "call_of x = e" by (cases "expected_rest ?st") auto
  obtain t ce where x: "x = CallEvent t ce" using expected_rest_call [of x ?st] rest(1) by auto
  from st1(3) obtain c1 where hn: "expected_hasNext ?st = (True, ?st\<lparr>expected := c1\<rparr>)"
      "c1 \<le> length (history ?st)" "expected_rest (?st\<lparr>expected := c1\<rparr>) = x # xs"
    using rest(1) by (rule_tac expected_hasNext_rest [OF st1(3)]) simp
  have le2: "expected (?st\<lparr>expected := c1\<rparr>) \<le> length (history (?st\<lparr>expected := c1\<rparr>))" using hn(2) by simp
  from expected_hasNext_rest [OF le2] hn(3) obtain c2 where
    hn2: "expected_hasNext (?st\<lparr>expected := c1\<rparr>) = (True, ?st\<lparr>expected := c2\<rparr>)"
      "c2 \<le> length (history ?st)" "expected_rest (?st\<lparr>expected := c2\<rparr>) = x # xs" by auto
  have le3: "expected (?st\<lparr>expected := c2\<rparr>) \<le> length (history (?st\<lparr>expected := c2\<rparr>))" using hn2(2) by simp
  from expected_next_rest [OF le3 hn2(3)] obtain c3 where
    nx: "expected_next (?st\<lparr>expected := c2\<rparr>) = (Some (CallEvent t ce), ?st\<lparr>expected := c3\<rparr>)"
    by (auto simp: x)
  let ?st3 = "?st\<lparr>expected := c3\<rparr>"
  let ?err = "Failed (mk_DeterminismError (Some (determinism_message ev ce)))"
  have sys: "is_system_failure ?err" by (simp add: is_system_failure_def mk_DeterminismError_def)
  let ?st4 = "add_tick (CompleteRun (Some ?err)) (set_result ?err ?st3)"
  have "ce = e" using rest(2) by (simp add: x call_of_def)
  then have "record_call c (nextSeq (resolve_all rs s)) ev ?st = resolveWorkflow ?err ?st3"
    using diff by (simp add: record_call_def assertEventIsExpected_def hn hn2 nx same_call_def)
  also have "\<dots> = (?st4, None)" using st1(1) sys by (simp add: resolveWorkflow_def Let_def)
  finally have rec: "record_call c (nextSeq (resolve_all rs s)) ev ?st = (?st4, None)" .
  let ?st5 = "make_eventual (nextSeq (resolve_all rs s)) d ?st4"
  have "outer (resolve_all rs st) = outer st" by simp
  then have "ticks (resolve_all rs st) = []" "currentRun (resolve_all rs st) = currentRun st"
    using idle by (simp_all add: outer_def)
  then have "doomed ?st4"
    using st1(1) by (auto simp: doomed_def add_tick_def set_result_def determinism_failure_def)
  then have "doomed ?st5" by (rule doomed_adds) (rule adds_outer, simp_all)
  moreover have "execute wfl call st = (?st5, GotPromise (EventualPromise (nextSeq (resolve_all rs s))))"
    using c rec seq ev by (simp add: execute_def user Let_def)
  ultimately show ?thesis using c by (simp add: spec_execute_def Let_def)
qed

lemma burst_mismatch:
  "sim [] E st s \<Longrightarrow> log s = [] \<Longrightarrow> E = e # es \<Longrightarrow> log (fst (spec_burst wfl b s)) = c # cs \<Longrightarrow>
   \<not> same_call e c \<Longrightarrow> \<not> stopped (fst (spec_burst wfl b s)) \<Longrightarrow> ticks st = [] \<Longrightarrow>
   doomed (fst (run_burst wfl b st))"
proof (induction b arbitrary: st s)
  case (Exec w call k)
  let ?st = "st\<lparr>user := w\<rparr>" and ?s = "s\<lparr>user := w\<rparr>"
  have sim1: "sim [] E ?st ?s" by (rule sim_op [OF Exec.prems(1)]) (simp_all add: sim_view [OF Exec.prems(1)])
  obtain s2 r where ex: "spec_execute wfl call ?s = (s2, r)" by fastforce
  have final: "log (fst (spec_burst wfl (k r) s2)) = c # cs" "\<not> stopped (fst (spec_burst wfl (k r) s2))"
    using Exec.prems(4,6) by (simp_all add: ex)
  from execute_numbers [of wfl call ?s] Exec.prems(2)
  consider "log s2 = []" | ev where "log s2 = [ev]" by (auto simp: ex)
  then show ?case
  proof cases
    case 1
    then have "matches [] E s2" by (simp add: matches_def agree_def)
    with execute_sim [OF sim1, of wfl call] obtain st2 where
      st2: "execute wfl call ?st = (st2, r)" "sim [] E st2 s2" "frame ?st st2" by (auto simp: ex)
    have "\<not> stopped s2" using final(2) extends_burst [of s2 wfl "k r"] by (auto simp: extends_def)
    then have "ticks st2 = []"
      using st2(3) Exec.prems(7) view_field(6) [OF sim_view [OF st2(2)]] by (simp add: frame_def)
    from Exec.IH [OF _ st2(2) 1 Exec.prems(3) final(1) Exec.prems(5) final(2) this] show ?thesis
      by (simp add: st2(1))
  next
    case 2
    then have "ev = c" using final(1) extends_burst [of s2 wfl "k r"] by (auto simp: extends_def)
    with execute_mismatch [OF sim1 _ Exec.prems(3), of wfl call ev] 2 Exec.prems
    have "doomed (fst (execute wfl call ?st))" by (simp add: ex)
    from doomed_adds [OF this adds_burst] show ?thesis by (simp add: split_beta)
  qed
next
  case (Watch p f b)
  have "sim [] E (watch p (UserReaction f) st) (watch p (UserReaction f) s)"
    by (rule sim_op [OF Watch.prems(1)]) (simp_all add: sim_view [OF Watch.prems(1)])
  moreover have "ticks (watch p (UserReaction f) st) = ticks st"
    using outer_watch [of p "UserReaction f" st] by (simp add: outer_def)
  ultimately show ?case using Watch.IH Watch.prems by simp
next
  case (SettleUser n r b)
  have "sim [] E (settle (UserPromise n) r st) (settle (UserPromise n) r s)"
    by (rule sim_op [OF SettleUser.prems(1)]) (simp_all add: sim_view [OF SettleUser.prems(1)])
  moreover have "ticks (settle (UserPromise n) r st) = ticks st"
    using outer_settle [of "UserPromise n" r st] by (simp add: outer_def)
  ultimately show ?case using SettleUser.IH SettleUser.prems by simp
qed simp_all

section \<open>The rest of the run\<close>

lemma applyEvents_doomed: "doomed st \<Longrightarrow> doomed (applyEvents st)"
  by (auto simp: applyEvents_def Let_def doomed_def add_tick_def enqueue_def split: prod.split option.split if_splits)

lemma run_job_doomed: "doomed st \<Longrightarrow> doomed (run_job wfl j st)"
proof (cases j)
  case (Reaction r res)
  then show "doomed st \<Longrightarrow> doomed (run_job wfl j st)"
    using doomed_adds [OF _ adds_burst] doomed_adds [OF _ adds_invoke] by (cases r) (simp_all add: run_job_def)
next
  case (WorkflowReturned r)
  assume "doomed st"
  then have "doomed (fst (resolveWorkflow r st))" by (rule doomed_adds [OF _ adds_resolveWorkflow])
  then show ?thesis
    by (cases "snd (resolveWorkflow r st)") (simp_all add: run_job_def WorkflowReturned split_beta crash_def doomed_def)
next
  case AfterApply
  then show "doomed st \<Longrightarrow> doomed (run_job wfl j st)"
    by (auto simp: run_job_def doomed_def add_tick_def split: option.split)
qed (simp add: run_job_def applyEvents_doomed)

lemma run_tick_doomed:
  assumes "doomed st" and "ticks st = t # ts"
  shows "doomed (run_tick wfl t (st\<lparr>ticks := ts\<rparr>))"
proof (cases "currentRun st")
  case None
  then have d: "doomed (st\<lparr>ticks := ts\<rparr>)" using assms(1) by (simp add: doomed_def)
  show ?thesis
  proof (cases t)
    case (ApplyEvent e)
    obtain st1 err where ap: "tryApplyEvent wfl e (st\<lparr>ticks := ts\<rparr>) = (st1, err)" by fastforce
    have "doomed st1" using doomed_adds [OF d adds_apply [of _ wfl e]] by (simp add: ap)
    then show ?thesis
      by (cases err) (auto simp: run_tick_def ApplyEvent ap crash_def doomed_def enqueue_def)
  qed (use None d in \<open>simp add: run_tick_def completeCurrentRun_def\<close>)
next
  case (Some cs)
  then show ?thesis
    using assms by (auto simp: doomed_def run_tick_def completeCurrentRun_def Let_def)
qed

lemma doomed_step: "doomed st \<Longrightarrow> loop_step wfl st = Some st' \<Longrightarrow> doomed st'"
proof -
  assume d: "doomed st" and step: "loop_step wfl st = Some st'"
  have un: "uncaught st = None" using step by (auto simp: loop_step_def split: if_splits)
  have job: "doomed (run_job wfl j (st\<lparr>jobs := js\<rparr>))" for j js
    by (rule run_job_doomed) (use d in \<open>simp add: doomed_def\<close>)
  show "doomed st'"
  proof (cases "phase st")
    case Ticks
    show ?thesis
    proof (cases "ticks st")
      case Nil
      then show ?thesis using step d un Ticks by (auto simp: loop_step_def doomed_def)
    next
      case (Cons t ts)
      then have "st' = run_tick wfl t (st\<lparr>ticks := ts\<rparr>)" using step un Ticks by (simp add: loop_step_def)
      then show ?thesis using run_tick_doomed [OF d Cons] by simp
    qed
  next
    case Microtasks
    show ?thesis
    proof (cases "jobs st")
      case Nil
      then show ?thesis using step d un Microtasks by (auto simp: loop_step_def doomed_def split: if_splits)
    next
      case (Cons j js)
      then have "st' = run_job wfl j (st\<lparr>jobs := js\<rparr>)" using step un Microtasks by (simp add: loop_step_def)
      then show ?thesis using job by simp
    qed
  qed
qed

lemma event_loop_doomed:
  assumes "event_loop wfl st = Some st'" and "doomed st"
  shows "doomed st'"
proof -
  have "doomed st \<longrightarrow> doomed st'"
  proof (rule event_loop.raw_induct [where P = "\<lambda>wfl st st'. doomed st \<longrightarrow> doomed st'", OF _ assms(1)], rule impI)
    fix loop wfl and st st' :: "'a executor"
    assume "\<And>wfl st st'. loop wfl st = Some st' \<Longrightarrow> doomed st \<longrightarrow> doomed st'"
      and "(case loop_step wfl st of None \<Rightarrow> Some st | Some st1 \<Rightarrow> loop wfl st1) = Some st'" and "doomed st"
    then show "doomed st'" using doomed_step [of st wfl] by (cases "loop_step wfl st") auto
  qed
  then show ?thesis using assms(2) by simp
qed

text \<open>The event loop with a bound on its steps, to evaluate it.\<close>

primrec loop_fuel :: "nat \<Rightarrow> 'w workflow \<Rightarrow> 'w executor \<Rightarrow> 'w executor option" where
  "loop_fuel 0 wfl st = None"
| "loop_fuel (Suc n) wfl st = (case loop_step wfl st of None \<Rightarrow> Some st | Some st' \<Rightarrow> loop_fuel n wfl st')"

lemma loop_fuel_Some: "loop_fuel n wfl st = Some st' \<Longrightarrow> event_loop wfl st = Some st'"
proof (induction n arbitrary: st)
  case (Suc n)
  then show ?case by (subst event_loop.simps) (auto split: option.splits)
qed simp

text \<open>
  A run on a history whose first call is not the first call the workflow makes when it starts:
  if the run ends, it ends with a DeterminismError.
\<close>

lemma start_mismatch:
  assumes args: "processArgs hist args = Inr (input, context, evs)" and H: "H = hist @ filterEvents hist evs"
    and expected: "call_events H = e # es"
    and first: "log (spec_start wfl input context) = c # cs" "\<not> same_call e c" "\<not> stopped (spec_start wfl input context)"
    and run: "run_start wfl args (new_executor wfl hist) = Some (Inr st')"
  shows "\<exists>r. finished st' = Some r \<and> (\<exists>f. wr_result r = Some f \<and> determinism_failure f)"
proof -
  let ?ini = "begin_run ((addHistoryEvents evs (new_executor wfl hist))\<lparr>started := True, finished := None\<rparr>)"
  let ?st = "start_definition wfl input context ?ini" and ?b = "wf_definition wfl input context"
  obtain st where st: "start wfl args (new_executor wfl hist) = Inr st" "event_loop wfl st = Some st'"
    using run by (auto simp: run_start_def split: sum.splits)
  have st_eq: "st = applyEvents ?st" using st(1) args by (simp add: start_def new_executor_def Let_def)
  have "view ?ini = view (new_spec wfl)"
    by (simp add: view_def begin_run_def addHistoryEvents_def new_executor_def new_spec_def core.defs)
  then have sim: "sim [] (e # es) ?ini (new_spec wfl)"
    using expected
    by (simp add: sim_def call_rel_def expected_rest_def begin_run_def addHistoryEvents_def new_executor_def
        new_spec_def H call_events_def iter_rest_start)
  have burst: "log (fst (spec_burst wfl ?b (new_spec wfl))) = c # cs" "\<not> stopped (fst (spec_burst wfl ?b (new_spec wfl)))"
    using first(1,3) by (auto simp: spec_start_def set_result_def split: prod.splits option.splits)
  have "doomed (fst (run_burst wfl ?b ?ini))"
    by (rule burst_mismatch [OF sim _ _ burst(1) first(2) burst(2)])
      (simp_all add: new_spec_def begin_run_def addHistoryEvents_def new_executor_def)
  then have "doomed ?st"
    using doomed_adds [OF _ adds_resolveWorkflow]
    by (cases "run_burst wfl ?b ?ini"; cases "snd (run_burst wfl ?b ?ini)") (simp_all add: start_definition_def)
  then have "doomed st" unfolding st_eq by (rule applyEvents_doomed)
  then have "doomed st'" by (rule event_loop_doomed [OF st(2)])
  moreover have "currentRun st' = None"
  proof -
    have "run_inv st" by (rule run_inv_start [OF st(1)]) (simp_all add: new_executor_def)
    from event_loop_run_inv [OF st(2) this] show ?thesis by (blast intro: idle_run_over)
  qed
  ultimately show ?thesis by (simp add: doomed_def)
qed

end
