(* ===== verification/OrchestratorProperties.thy ===== *)
theory OrchestratorProperties
  imports Orchestrations ReplayMismatch
begin

text \<open>
  The guarantees of the orchestrator with the providers of the code: durable executions on the
  remote provider, what the providers with memory lose, and the isolation of the executions of
  a batch.
\<close>

section \<open>Durable executions\<close>

text \<open>
  C4 (refinement): one orchestration with the remote provider. If the stored history of an
  execution stands for a state of its workflow (or the execution is new), the orchestration
  returns. It makes exactly the requests of the calls the workflow makes next, each once, puts the
  events it saw and created into the log, and stores the history of the run with the events of
  these calls, which is read back as a JSON copy. If the events came as JSON and the calls are
  data that survives JSON, what is read back stands for the workflow's next state. The
  orchestration fails only if a request is refused or a call's executor throws, and then the
  store is unchanged.
\<close>

theorem remote_orchestration:
  assumes lookup: "od_lookupWorkflow deps (or_workflowName req) = Some wfl"
    and orch: "orchestrates RemoteExecutorProvider deps req w kind s s' H" and kind: "kind \<noteq> InMemory"
  shows "\<exists>w' r cs. orchestrateExecution RemoteExecutorProvider deps req w = Some (w', r) \<and>
    log s' = log_before kind s @ map wc_event cs \<and> list_all recorded cs \<and>
    (isl r \<longrightarrow> orchestration_refused deps req cs (new_result (result_before kind s) (result s')) \<and>
       orch_provider w' = orch_provider w) \<and>
    (\<not> isl r \<longrightarrow>
       outbox w' = outbox w @ orchestration_effects deps req cs (new_result (result_before kind s) (result s')) \<and>
       getHistory (orch_provider w') (or_executionId req) = map persist_event (H @ call_events_of req cs) \<and>
       (list_all json_event (or_events req) \<and> list_all call_plain (map wc_event cs) \<longrightarrow>
          stored wfl (getHistory (orch_provider w') (or_executionId req)) s'))"
proof -
  from remote.store_orchestration [OF lookup orch kind] obtain w' r cs where
    o: "orchestrateExecution RemoteExecutorProvider deps req w = Some (w', r)"
      "log s' = log_before kind s @ map wc_event cs" "list_all recorded cs"
      "isl r \<longrightarrow> orchestration_refused deps req cs (new_result (result_before kind s) (result s'))"
      "\<not> isl r \<longrightarrow>
         outbox w' = outbox w @ orchestration_effects deps req cs (new_result (result_before kind s) (result s')) \<and>
         getHistory (orch_provider w') (or_executionId req) = map persist_event (H @ call_events_of req cs) \<and>
         (list_all json_event (or_events req) \<and> list_all call_plain (map wc_event cs) \<longrightarrow>
            stored wfl (getHistory (orch_provider w') (or_executionId req)) s')"
    by blast
  moreover have "orch_provider w' = orch_provider w" if "isl r"
    using remote.failed_orchestration_unchanged [of deps req w w' "projl r"] o(1) that by (cases r) auto
  ultimately show ?thesis by (intro exI [of _ w'] exI [of _ r] exI [of _ cs]) (cases "isl r", auto)
qed

text \<open>
  What can happen around an execution whose workflow goes on: orchestrations of it that succeed
  and move the workflow on, orchestrations of it that fail, and orchestrations of other
  executions, whatever becomes of these. Its own events come as JSON and its calls are data
  that survives JSON. A successful orchestration after which the workflow has stopped, by a
  timeout or a system error, is not a step.
\<close>

inductive durable ::
  "'w orchestrator_deps \<Rightarrow> 'w workflow \<Rightarrow> string \<Rightarrow> history_states orch \<Rightarrow> 'w spec option \<Rightarrow> bool"
  for deps wfl i where
  created: "orch_provider w i = None \<Longrightarrow> durable deps wfl i w None"
| first: "durable deps wfl i w None \<Longrightarrow> or_executionId req = i \<Longrightarrow>
    od_lookupWorkflow deps (or_workflowName req) = Some wfl \<Longrightarrow>
    orchestrates RemoteExecutorProvider deps req w FirstRun s s' H \<Longrightarrow>
    list_all json_event (or_events req) \<Longrightarrow> list_all call_plain (log s') \<Longrightarrow>
    orchestrateExecution RemoteExecutorProvider deps req w = Some (w', Inr ()) \<Longrightarrow>
    durable deps wfl i w' (Some s')"
| later: "durable deps wfl i w (Some s) \<Longrightarrow> or_executionId req = i \<Longrightarrow>
    od_lookupWorkflow deps (or_workflowName req) = Some wfl \<Longrightarrow>
    orchestrates RemoteExecutorProvider deps req w FromStore s s' H \<Longrightarrow>
    list_all json_event (or_events req) \<Longrightarrow> list_all call_plain (log s') \<Longrightarrow>
    orchestrateExecution RemoteExecutorProvider deps req w = Some (w', Inr ()) \<Longrightarrow>
    durable deps wfl i w' (Some s')"
| failed: "durable deps wfl i w so \<Longrightarrow>
    orchestrateExecution RemoteExecutorProvider deps req w = Some (w', Inl err) \<Longrightarrow> durable deps wfl i w' so"
| other: "durable deps wfl i w so \<Longrightarrow> or_executionId req \<noteq> i \<Longrightarrow>
    orchestrateExecution RemoteExecutorProvider deps req w = Some (w', r) \<Longrightarrow> durable deps wfl i w' so"

lemma remote_keeps_others:
  assumes "orchestrateExecution RemoteExecutorProvider deps req w = Some (w', r)" and "i \<noteq> or_executionId req"
  shows "getHistory (orch_provider w') i = getHistory (orch_provider w) i"
  using remote.orchestration_keeps_others [OF assms, where init = "new_executor undefined"]
  by (auto simp: remote.got dest: arg_cong [of _ _ history])

lemma remote_stores:
  assumes "od_lookupWorkflow deps (or_workflowName req) = Some wfl"
    and "orchestrates RemoteExecutorProvider deps req w kind s s' H" and "kind \<noteq> InMemory"
    and "list_all json_event (or_events req)" and "list_all call_plain (log s')"
    and "orchestrateExecution RemoteExecutorProvider deps req w = Some (w', Inr ())"
  shows "stored wfl (getHistory (orch_provider w') (or_executionId req)) s'"
  using remote.store_orchestration [OF assms(1-3)] assms(4-6) by auto



section \<open>Executors kept in memory\<close>

lemma drain_idle: "jobs s = [] \<Longrightarrow> spec_drain wfl s = Some s"
  by (subst spec_drain.simps) simp

lemma run_started_is_completion: "completion_events [WorkflowRunStarted u t] = [WorkflowRunStarted u t]"
  by (simp add: completion_events_def isCompletionEvent_iff event_guard_defs)

lemma run_started_changes_nothing:
  "jobs s = [] \<Longrightarrow> spec_events wfl (completion_events [WorkflowRunStarted u t]) s = Some s"
  by (simp add: run_started_is_completion spec_apply_def event_guard_defs drain_idle)

lemma filterEvents_seen:
  assumes "getEventId ` set es \<subseteq> getEventId ` set H"
  shows "filterEvents H (e # es) = (if getEventId e \<in> getEventId ` set H then [] else [e])"
proof -
  have "filter_new (insert (getEventId e) (getEventId ` set H)) es = []"
    using assms by (auto intro: filter_new_all_seen)
  then show ?thesis
    using assms by (auto simp: filterEvents_def filter_new_all_seen)
qed

lemma no_due_timers: "call_events H = [] \<Longrightarrow> generateSyntheticTimerEvents c H t = []"
  by (auto simp: generateSyntheticTimerEvents_def call_events_def filter_empty_conv is_due_timer_def isCallEvent_iff
      split: workflow_event.splits)

lemma run_events_eq:
  "run_events req = WorkflowRunStarted (or_ulid req 1) (or_executionTime req) # or_events req"
  by (simp add: run_events_def createEvent_def isHistoryEvent_def isCompletionEvent_iff event_guard_defs)

text \<open>Events an executor in memory has seen: a run on them leads nowhere.\<close>

lemma seen_events_step:
  assumes idle: "jobs s = []" and seen: "getEventId ` set (or_events req) \<subseteq> getEventId ` set H"
    and nocalls: "call_events H = []"
  shows "\<exists>H'. spec_orchestrate wfl H (run_events req) t s = Some (s, H')"
proof -
  let ?es = "filterEvents H (run_events req)"
  have es: "?es = [] \<or> ?es = [WorkflowRunStarted (or_ulid req 1) (or_executionTime req)]"
    using filterEvents_seen [OF seen] by (simp add: run_events_eq)
  have spec: "spec_events wfl (completion_events ?es) s = Some s"
    using es run_started_changes_nothing [OF idle] by (elim disjE) simp_all
  have "call_events (H @ ?es) = []"
    using es nocalls by (elim disjE) (simp_all add: call_events_append, simp add: call_events_def isCallEvent_iff)
  then have "generateSyntheticTimerEvents s (H @ ?es) t = []" by (rule no_due_timers)
  then show ?thesis using spec by (simp add: spec_orchestrate_def Let_def filterEvents_def)
qed

text \<open>
  C12 (error): a failed orchestration of an execution kept in memory cannot be repeated. When a
  request is refused after the run, the executor has moved on. The same events, sent again,
  make no call and report no result: the calls of the failed run that were not made, and its
  completion, are lost.
\<close>

theorem failed_orchestration_loses_calls:
  assumes lookup: "od_lookupWorkflow deps (or_workflowName req) = Some wfl"
    and orch: "orchestrates InMemoryExecutorProvider deps req w kind s s' H" and late: "timeout_effects deps req = []"
    and failed: "orchestrateExecution InMemoryExecutorProvider deps req w = Some (w1, Inl err)"
    and again: "or_executionId req' = or_executionId req" "or_workflowName req' = or_workflowName req"
      "getEventId ` set (or_events req') \<subseteq> getEventId ` set H" "call_events (or_events req') = []"
    and nocalls: "call_events H = []"
  shows "\<exists>cs w2 r. log s' = log_before kind s @ map wc_event cs \<and>
    orchestration_refused deps req cs (new_result (result_before kind s) (result s')) \<and>
    orchestrateExecution InMemoryExecutorProvider deps req' w1 = Some (w2, r) \<and>
    (isl r \<longrightarrow> orchestration_refused deps req' [] []) \<and>
    (\<not> isl r \<longrightarrow> outbox w2 = outbox w1 @ orchestration_effects deps req' [] [])"
proof -
  from in_memory.memory_keeps_failed_run [OF lookup orch late] failed obtain st1 cs where
    st1: "snd (getExecutor InMemoryExecutorProvider (new_executor wfl) (orch_provider w1) (or_executionId req)) = st1"
      "ready st1 s'" "history st1 = H" "log s' = log_before kind s @ map wc_event cs"
      "orchestration_refused deps req cs (new_result (result_before kind s) (result s'))"
    by auto
  obtain H' where step: "spec_orchestrate wfl H (run_events req') (or_executionTime req') s' = Some (s', H')"
    using seen_events_step [OF _ again(3) nocalls, of s' wfl] st1(2) by (auto simp: ready_def rests_def)
  have orch': "orchestrates InMemoryExecutorProvider deps req' w1 InMemory s' s' H'"
    using orch lookup st1 step again by (simp add: orchestrates_def Let_def carries_def)
  have nores: "new_result (result_before InMemory s') (result s') = []"
    by (auto simp: new_result_def result_before_def split: option.split)
  obtain wfl' where wfl': "od_lookupWorkflow deps (or_workflowName req') = Some wfl'" using lookup again by simp
  from orchestrate_outcome [OF wfl' orch'] obtain w2 r cs' where
    "orchestrateExecution InMemoryExecutorProvider deps req' w1 = Some (w2, r)"
    "log s' = log s' @ map wc_event cs'"
    "\<not> isl r \<longrightarrow> outbox w2 = outbox w1 @ orchestration_effects deps req' cs' []"
    "isl r \<longrightarrow> orchestration_refused deps req' cs' []"
    unfolding nores by (auto simp: log_before_def)
  then show ?thesis using st1(4,5) by auto
qed

lemma calls_from_orchestrate:
  assumes "spec_orchestrate wfl H0 evs time s = Some (s', H)" and "log s' = log s @ c # cs"
  shows "nextSeq s \<le> call_seq c"
proof -
  have "calls_from (length (log s)) (nextSeq s) s'"
    using assms(1) calls_from_now [of s]
    by (auto simp: spec_orchestrate_def Let_def split: option.splits dest!: calls_from_events)
  then show ?thesis using assms(2) by (simp add: calls_from_def)
qed

text \<open>Calls with different numbers are different calls, also after JSON.\<close>

lemma same_call_seq: "same_call e e' \<Longrightarrow> call_seq e = call_seq e'"
proof -
  assume same: "same_call e e'"
  have get: "js_get (call_event_js c) ''seq'' = JNum (int (call_seq c))"
    and defined: "''seq'' \<in> set (defined_keys (call_event_js c))" for c
    by (simp_all add: call_event_js_def js_get_def defined_keys_def)
  have obj: "js_obj (call_event_js c)" for c by (simp add: js_obj_def call_event_js_def)
  from same have "deepEqual (js_get (call_event_js e) ''seq'') (js_get (call_event_js e') ''seq'')"
    using deepEqual_obj [OF obj obj] defined by (auto simp: same_call_def)
  then show ?thesis by (simp add: get deepEqual_prim)
qed

text \<open>
  C13 (error): the hybrid provider does not keep an execution across a restart. Take an execution
  in memory whose workflow made its first call when it started, and an orchestration of it
  that succeeds. The history persisted for it holds the calls of this last run only. After
  the process has ended this is what a new executor gets: it lacks all the calls made before,
  so that it does not stand for the workflow's state, and if the last run made a call at all
  then the replay of the history, when it comes to an end, ends with a DeterminismError.
  (The start of the workflow, with its input, is in the history and survives JSON.)
\<close>

theorem hybrid_restart_loses_calls:
  assumes lookup: "od_lookupWorkflow deps (or_workflowName req) = Some wfl"
    and orch: "orchestrates HybridExecutorProvider deps req w InMemory s s' H"
    and run: "orchestrateExecution HybridExecutorProvider deps req w = Some (w', Inr ())"
    and nocalls: "call_events H = []" and json: "list_all json_event H"
    and args: "processArgs H (StartEvents []) = Inr (input, context, [])"
    and reached: "spec_run wfl input context es = Some s"
    and first: "log (spec_start wfl input context) \<noteq> []"
  shows "\<exists>new H'. log s' = log s @ new \<and>
    snd (getExecutor HybridExecutorProvider (new_executor wfl) (hybrid_restart (orch_provider w')) (or_executionId req)) =
      new_executor wfl H' \<and>
    call_events H' = map persist_call new \<and> \<not> stored wfl H' s' \<and>
    (new \<noteq> [] \<longrightarrow>
       (\<forall>st r. rerunHistoricalEvents wfl (new_executor wfl H') = Some (st, r) \<longrightarrow>
          (\<exists>f. r = Inr (Some f) \<and> determinism_failure f)))"
proof -
  from orchestrate_outcome [OF lookup orch] run obtain st' cs p where
    o: "history st' = H" "log s' = log s @ map wc_event cs"
      "orch_provider w' = persistExecution HybridExecutorProvider p (or_executionId req) (call_events_of req cs) st'"
    by (auto simp: log_before_def)
  let ?new = "map wc_event cs" and ?H = "map persist_event (H @ call_events_of req cs)"
  have calls: "call_events ?H = map persist_call ?new"
    by (simp only: call_events_persist call_events_append call_events_of_facts nocalls append.left_neutral)
  have got: "snd (getExecutor HybridExecutorProvider (new_executor wfl) (hybrid_restart (orch_provider w')) (or_executionId req))
      = new_executor wfl ?H"
    by (simp add: o(1,3) provider_defs hybrid_restart_def)
  from reached obtain s0 where s0: "spec_drain wfl (spec_start wfl input context) = Some s0" "spec_events wfl es s0 = Some s"
    by (auto simp: spec_run_def split: option.splits)
  have ext: "extends (spec_start wfl input context) s"
    using extends_trans [OF extends_drain [OF s0(1)] extends_events [OF s0(2)]] .
  then have before: "log s \<noteq> []" using first by (auto simp: extends_def)
  have "length (call_events ?H) \<noteq> length (log s')" unfolding calls using o(2) before by simp
  then have "\<not> stored wfl ?H s'" by (simp add: stored_def)
  moreover have "\<exists>f. r = Inr (Some f) \<and> determinism_failure f"
    if made: "?new \<noteq> []" and rerun: "rerunHistoricalEvents wfl (new_executor wfl ?H) = Some (st, r)" for st r
  proof -
    obtain c0 cs0 where c0: "log (spec_start wfl input context) = c0 # cs0" using first by (cases "log (spec_start wfl input context)") auto
    obtain e es' where e: "?new = e # es'" using made by (cases ?new) auto
    have ok: "\<not> stopped s'" and sp: "spec_orchestrate wfl (history (snd (getExecutor HybridExecutorProvider (new_executor wfl)
        (orch_provider w) (or_executionId req)))) (run_events req) (or_executionTime req) s = Some (s', H)"
      using orch lookup by (auto simp: orchestrates_def Let_def)
    have ext': "extends s s'" using sp
      by (auto simp: spec_orchestrate_def Let_def split: option.splits intro: extends_trans extends_events)
    then have run0: "\<not> stopped (spec_start wfl input context)" using ext ok by (auto simp: extends_def)
    have "call_seq c0 < nextSeq s"
      using first_call_start [OF c0] calls_from_mono [OF s0] by simp
    moreover have "nextSeq s \<le> call_seq e"
      using calls_from_orchestrate [OF sp] o(2) e by simp
    ultimately have diff: "\<not> same_call (persist_call e) c0"
      using same_call_seq [of "persist_call e" c0] by (auto simp: persist_call_fields)
    have H': "?H = ?H @ filterEvents ?H []" by (simp add: filterEvents_def)
    have "?H = H @ map persist_event (call_events_of req cs)" using json by (simp flip: persist_events_id)
    then have args': "processArgs ?H (StartEvents []) = Inr (input, context, [])"
      using processArgs_append [OF args] by simp
    have "?H \<noteq> []" using args by (cases H) (auto simp: processArgs_def)
    with rerun obtain st1 where st1: "run_start wfl (StartEvents []) (new_executor wfl ?H) = st1"
      "proc_bind (await_run (run_start wfl (StartEvents []))) (\<lambda>r. proc_return (wr_result r)) (new_executor wfl ?H) = Some (st, r)"
      by (auto simp: rerunHistoricalEvents_def)
    have "call_events ?H = persist_call e # map persist_call es'" unfolding calls e by simp
    from start_mismatch [OF args' H' this c0 diff run0] st1 show ?thesis
      using args' by (auto simp: proc_bind_def await_run_def run_start_def start_def split: option.splits sum.splits if_splits)
  qed
  ultimately show ?thesis using o(2) calls got by blast
qed

section \<open>Batches\<close>

text \<open>
  The specification: each execution of the batch on its own. \<open>own_events\<close> are the events of the
  tasks that name it, in their order, \<open>run_alone\<close> is its orchestration, and \<open>in_turn\<close> is one
  execution after the other, with the outcome of each.
\<close>

definition own_events :: "(string \<Rightarrow> js + workflow_event) \<Rightarrow> workflow_task list \<Rightarrow> string \<Rightarrow> workflow_event list" where
  "own_events parse tasks i = [projr (parse_event parse e). t \<leftarrow> tasks, wt_executionId t = i, e \<leftarrow> wt_events t]"

definition run_alone ::
  "(string \<Rightarrow> string \<Rightarrow> workflow_event list \<Rightarrow> ('s, unit) proc) \<Rightarrow> (string \<Rightarrow> workflow_event list) \<Rightarrow>
   string \<Rightarrow> ('s, unit) proc" where
  "run_alone executor evs i s =
     (if isExecutionId i then executor (parseWorkflowName i) i (evs i) s
      else Some (s, Inl (mk_Error (''invalid ExecutionID: '' @ [CHR 0x27] @ i @ [CHR 0x27]))))"

fun in_turn :: "(string \<Rightarrow> ('s, unit) proc) \<Rightarrow> string list \<Rightarrow> 's \<Rightarrow> ('s \<times> (string \<times> js option) list) option" where
  "in_turn one [] s = Some (s, [])"
| "in_turn one (i # is) s =
     (case one i s of
        None \<Rightarrow> None
      | Some (s1, r) \<Rightarrow>
          map_option (\<lambda>(s2, rs). (s2, (i, case r of Inl err \<Rightarrow> Some err | Inr _ \<Rightarrow> None) # rs)) (in_turn one is s1))"

definition outcome_report :: "(string \<times> js option) list \<Rightarrow> run_report" where
  "outcome_report rs =
     \<lparr>failedExecutions = [(i, ne_message (normalizeError err)). (i, Some err) \<leftarrow> rs],
      succeededExecutions = [i. (i, None) \<leftarrow> rs]\<rparr>"

text \<open>The executions a batch names, in the order in which they first appear.\<close>

definition batch_ids :: "workflow_task list \<Rightarrow> string list" where
  "batch_ids tasks = rev (remdups (rev (map wt_executionId tasks)))"

lemma run_execution_alone:
  "run_execution executor i (own i) report s =
     map_option (\<lambda>(s1, r). (s1, Inr (case r of
         Inl err \<Rightarrow> report\<lparr>failedExecutions := failedExecutions report @ [(i, ne_message (normalizeError err))]\<rparr>
       | Inr _ \<Rightarrow> report\<lparr>succeededExecutions := succeededExecutions report @ [i]\<rparr>)))
       (run_alone executor own i s)"
  by (simp add: run_execution_def run_alone_def Let_def split: option.split sum.split)

lemma run_each_in_turn:
  assumes "\<And>i evs. (i, evs) \<in> set rs \<Longrightarrow> evs = own i"
  shows "run_each executor rs report s =
    map_option (\<lambda>(s', os). (s', Inr \<lparr>failedExecutions = failedExecutions report @ failedExecutions (outcome_report os),
        succeededExecutions = succeededExecutions report @ succeededExecutions (outcome_report os)\<rparr>))
      (in_turn (run_alone executor own) (map fst rs) s)"
  using assms
proof (induction rs arbitrary: report s)
  case (Cons r rs)
  obtain i where r: "r = (i, own i)" using Cons.prems [of "fst r" "snd r"] by (cases r) auto
  have IH: "\<And>report s. run_each executor rs report s =
    map_option (\<lambda>(s', os). (s', Inr \<lparr>failedExecutions = failedExecutions report @ failedExecutions (outcome_report os),
        succeededExecutions = succeededExecutions report @ succeededExecutions (outcome_report os)\<rparr>))
      (in_turn (run_alone executor own) (map fst rs) s)"
    by (rule Cons.IH) (use Cons.prems in simp)
  show ?case
  proof (cases "run_alone executor own i s")
    case None
    then show ?thesis by (simp add: r run_execution_alone)
  next
    case (Some a)
    obtain s1 o1 where a: "a = (s1, o1)" by fastforce
    show ?thesis
      by (cases o1) (simp_all add: r run_execution_alone Some a IH outcome_report_def option.map_comp comp_def case_prod_beta')
  qed
qed (simp add: outcome_report_def)

lemma parse_events_ok:
  "\<forall>e \<in> set es. \<not> isl (parse_event parse e) \<Longrightarrow> parse_events parse es = Inr (map (\<lambda>e. projr (parse_event parse e)) es)"
proof (induction es)
  case (Cons e es)
  then obtain ev where "parse_event parse e = Inr ev" by (cases "parse_event parse e") auto
  with Cons show ?case by simp
qed simp

lemma parse_records_ok:
  assumes "\<And>i ts t e. (i, ts) \<in> set gs \<Longrightarrow> t \<in> set ts \<Longrightarrow> e \<in> set (wt_events t) \<Longrightarrow> \<not> isl (parse_event parse e)"
  shows "parse_records parse gs =
    Inr (map (\<lambda>(i, ts). (i, map (\<lambda>e. projr (parse_event parse e)) (concat (map wt_events ts)))) gs)"
  using assms
proof (induction gs)
  case (Cons g gs)
  obtain i ts where g: "g = (i, ts)" by fastforce
  have "parse_events parse (concat (map wt_events ts)) = Inr (map (\<lambda>e. projr (parse_event parse e)) (concat (map wt_events ts)))"
    by (rule parse_events_ok) (use Cons.prems [of i ts] in \<open>auto simp: g\<close>)
  moreover have "parse_records parse gs =
      Inr (map (\<lambda>(i, ts). (i, map (\<lambda>e. projr (parse_event parse e)) (concat (map wt_events ts)))) gs)"
    by (rule Cons.IH) (use Cons.prems in auto)
  ultimately show ?case by (simp add: g)
qed simp

lemma own_events_filter:
  "map (\<lambda>e. projr (parse_event parse e)) (concat (map wt_events (filter (\<lambda>t. wt_executionId t = i) tasks))) =
     own_events parse tasks i"
  by (induction tasks) (simp_all add: own_events_def)

lemma fold_group_order:
  "om_keys (fold (group_step f) xs m) = om_keys m @ filter (\<lambda>k. k \<notin> set (om_keys m)) (rev (remdups (rev (map f xs))))"
proof (induction xs rule: rev_induct)
  case (snoc x xs)
  have "om_keys (group_step f x g) = (if f x \<in> set (om_keys g) then om_keys g else om_keys g @ [f x])" for g
    by (simp add: group_step_def om_keys_set)
  with snoc show ?case by auto
qed simp

lemma groupBy_order: "map fst (groupBy tasks wt_executionId) = batch_ids tasks"
  using fold_group_order [of wt_executionId tasks "[]"] by (simp add: groupBy_def batch_ids_def om_keys_def)

text \<open>
  C11 (functional): a batch of tasks whose events parse. The executions the batch names are run
  one after the other, in the order in which they first appear and each once, on exactly the
  events of its own tasks in their order, and on the state the one before left; an
  execution with an invalid id is not run. The report has exactly the executions whose run
  failed as failed, with their messages, and exactly the others as succeeded. The error of one
  neither ends the batch nor hides another; the batch returns if and only if each of the runs
  does.
\<close>

theorem batch_reports_every_execution:
  assumes "\<forall>t \<in> set tasks. \<forall>e \<in> set (wt_events t). \<not> isl (parse_event parse e)"
  shows "runExecutions parse tasks executor s =
    map_option (\<lambda>(s', outcomes). (s', Inr (outcome_report outcomes)))
      (in_turn (run_alone executor (own_events parse tasks)) (batch_ids tasks) s)"
proof -
  let ?gs = "groupBy tasks wt_executionId"
  let ?rs = "map (\<lambda>(i, ts). (i, map (\<lambda>e. projr (parse_event parse e)) (concat (map wt_events ts)))) ?gs"
  have "parse_records parse ?gs = Inr ?rs"
    by (rule parse_records_ok) (use assms in \<open>auto simp: groupBy_entry\<close>)
  then have "runExecutions parse tasks executor s =
      run_each executor ?rs \<lparr>failedExecutions = [], succeededExecutions = []\<rparr> s"
    by (simp add: runExecutions_def)
  also have "\<dots> = map_option (\<lambda>(s', os). (s', Inr \<lparr>failedExecutions = failedExecutions (outcome_report os),
        succeededExecutions = succeededExecutions (outcome_report os)\<rparr>))
      (in_turn (run_alone executor (own_events parse tasks)) (map fst ?rs) s)"
  proof -
    have "evs = own_events parse tasks i" if "(i, evs) \<in> set ?rs" for i evs
      using that by (auto simp: groupBy_entry simp flip: own_events_filter)
    from run_each_in_turn [of ?rs "own_events parse tasks", OF this, of executor
        "\<lparr>failedExecutions = [], succeededExecutions = []\<rparr>" s] show ?thesis
      by (simp only: run_report.simps append_Nil)
  qed
  also have "map fst ?rs = batch_ids tasks" by (simp add: comp_def case_prod_beta' flip: groupBy_order)
  finally show ?thesis by (simp add: outcome_report_def)
qed

section \<open>A sample execution\<close>

definition sample_deps :: "(effect \<Rightarrow> js option) \<Rightarrow> nat orchestrator_deps" where
  "sample_deps err =
     \<lparr>od_lookupWorkflow = (\<lambda>n. Some sample_workflow), od_clients = sample_clients, od_baseTime = 1, od_error = err\<rparr>"

definition sample_request :: "workflow_event list \<Rightarrow> orchestrate_request" where
  "sample_request evs =
     \<lparr>or_workflowName = ''order'', or_executionId = ''order/e1'', or_events = evs, or_executionTime = 1,
      or_ulid = (\<lambda>n. ''u'' @ nat_str n)\<rparr>"

definition sample_run_started :: workflow_event where
  "sample_run_started = WorkflowRunStarted ''u1'' 1"

definition sample_log :: "call_history_event list" where
  "sample_log = [TaskScheduled 0 ''charge'' (JNum 7)]"

lemma sample_orchestration_eval:
  "run_events (sample_request [sample_started]) = [sample_run_started, sample_started]"
  "run_events (sample_request []) = [sample_run_started]"
  "processArgs [] (StartEvents [sample_run_started, sample_started]) =
     Inr (JNum 7, sample_context, [sample_run_started, sample_started])"
  "filterEvents [] [sample_run_started, sample_started] = [sample_run_started, sample_started]"
  "call_events [sample_run_started, sample_started] = []" "call_events [sample_started] = []"
  "completion_events [sample_run_started, sample_started] = [sample_run_started]"
  "timeout_effects (sample_deps err) (sample_request [sample_started]) = []"
  "timeout_effects (sample_deps err) (sample_request []) = []"
  by code_simp+

lemma sample_json:
  "list_all json_event (or_events (sample_request [sample_started]))" "list_all call_plain sample_log"
  "list_all json_event [sample_run_started, sample_started]"
  "processArgs [sample_run_started, sample_started] (StartEvents []) = Inr (JNum 7, sample_context, [])"
  "list_all json_event [sample_started]"
  by code_simp+

lemma sample_drain_eval:
  "map_option (\<lambda>s. (log s, result s, stopped s)) (drain_fuel 9 sample_workflow (spec_start sample_workflow (JNum 7) sample_context))
    = Some (sample_log, None, False)"
  by code_simp

lemma drain_fuel_idle: "drain_fuel n wfl s = Some s' \<Longrightarrow> jobs s' = []"
  by (induction n arbitrary: s) (auto split: list.splits)

lemma sample_started_state:
  obtains s where "spec_drain sample_workflow (spec_start sample_workflow (JNum 7) sample_context) = Some s"
    "log s = sample_log" "result s = None" "\<not> stopped s" "jobs s = []"
  using sample_drain_eval by (auto dest: drain_fuel_spec drain_fuel_idle)

text \<open>The first orchestration of the sample, on any provider that has nothing for it.\<close>

lemma sample_first_step:
  assumes "spec_drain sample_workflow (spec_start sample_workflow (JNum 7) sample_context) = Some s" and "jobs s = []"
  shows "carries sample_workflow FirstRun (run_events (sample_request [sample_started])) (new_executor sample_workflow []) s"
    and "spec_orchestrate sample_workflow [] (run_events (sample_request [sample_started])) 1 s =
      Some (s, [sample_run_started, sample_started])"
proof -
  show "carries sample_workflow FirstRun (run_events (sample_request [sample_started])) (new_executor sample_workflow []) s"
    using assms(1) by (auto simp: carries_def sample_orchestration_eval)
  have "spec_events sample_workflow [sample_run_started] s = Some s"
    using run_started_changes_nothing [OF assms(2)] by (simp add: run_started_is_completion sample_run_started_def)
  then show "spec_orchestrate sample_workflow [] (run_events (sample_request [sample_started])) 1 s =
      Some (s, [sample_run_started, sample_started])"
    by (simp add: spec_orchestrate_def sample_orchestration_eval no_due_timers filterEvents_def [of _ "[]"])
qed

lemma sample_orchestrates:
  assumes "spec_drain sample_workflow (spec_start sample_workflow (JNum 7) sample_context) = Some s" and "jobs s = []"
    and "\<not> stopped s" and "snd (getExecutor ops (new_executor sample_workflow) (orch_provider w) ''order/e1'') = new_executor sample_workflow []"
  shows "orchestrates ops (sample_deps err) (sample_request [sample_started]) w FirstRun s s [sample_run_started, sample_started]"
  using sample_first_step [OF assms(1,2)] assms(3,4)
  by (simp add: orchestrates_def Let_def sample_orchestration_eval sample_deps_def)
    (simp add: sample_request_def sample_orchestration_eval)

lemma recorded_task:
  "recorded wc \<Longrightarrow> wc_event wc = TaskScheduled seq name input \<Longrightarrow> \<exists>h t. wc_call wc = TaskCall name input h t"
  by (cases "wc_call wc") (auto simp: recorded_def call_record_def factory_defs Let_def
      split: sum.splits if_splits socket_operation.splits signal_handler_operation.splits socket_input.splits)

text \<open>Its one call is a task, whose executor does not throw.\<close>

lemma sample_not_refused:
  assumes "list_all recorded cs" and "map wc_event cs = sample_log" and "\<And>e. err e = None"
  shows "\<not> orchestration_refused (sample_deps err) req cs res"
proof -
  have "\<not> call_fails (sample_deps err) req c" if "c \<in> set cs" for c
  proof -
    have "recorded c" using assms(1) that by (auto simp: list_all_iff)
    moreover have "wc_event c = TaskScheduled 0 ''charge'' (JNum 7)" using assms(2) that by (auto simp: sample_log_def)
    ultimately show ?thesis
      using recorded_task [of c] assms(3) by (auto simp: call_fails_def refused_def sample_deps_def)
  qed
  then show ?thesis using assms(3) by (auto simp: orchestration_refused_def refused_def sample_deps_def)
qed

lemma recorded_signal:
  "recorded wc \<Longrightarrow> wc_event wc = SignalSent seq signalId target payload \<Longrightarrow>
   \<exists>i. wc_call wc = SendSignalCall signalId payload target i"
  by (cases "wc_call wc") (auto simp: recorded_def call_record_def factory_defs Let_def
      split: sum.splits if_splits socket_operation.splits signal_handler_operation.splits socket_input.splits)

lemma sample_signal_not_refused:
  assumes "list_all recorded cs" and "map wc_event cs = [SignalSent 1 ''paid'' (ExecutionTarget ''w/other'') (JStr ''ok'')]"
  shows "\<not> orchestration_refused (sample_deps (\<lambda>e. None)) req cs res"
proof -
  have "\<not> call_fails (sample_deps (\<lambda>e. None)) req c" if "c \<in> set cs" for c
  proof -
    have "recorded c" using assms(1) that by (auto simp: list_all_iff)
    moreover have "wc_event c = SignalSent 1 ''paid'' (ExecutionTarget ''w/other'') (JStr ''ok'')" using assms(2) that by auto
    ultimately show ?thesis
      using recorded_signal [of c] by (auto simp: call_fails_def refused_def sample_deps_def)
  qed
  then show ?thesis by (auto simp: orchestration_refused_def refused_def sample_deps_def)
qed

lemma run_executor_implements_spec_witness:
  "\<exists>st' cs. runExecutor sample_workflow [sample_run_started, sample_started] 1 (new_executor sample_workflow []) =
      Some (st', Inr \<lparr>ro_previousResult = None, ro_calls = cs, ro_result = None\<rparr>) \<and>
    history st' = [sample_run_started, sample_started] \<and> map wc_event cs = sample_log"
proof -
  obtain s where s: "spec_drain sample_workflow (spec_start sample_workflow (JNum 7) sample_context) = Some s"
    "log s = sample_log" "result s = None" "\<not> stopped s" "jobs s = []" by (rule sample_started_state)
  note step = sample_first_step [OF s(1,5), unfolded sample_orchestration_eval]
  have "spec_orchestrate sample_workflow (history (new_executor sample_workflow [])) [sample_run_started, sample_started] 1 s
      = Some (s, [sample_run_started, sample_started])" using step(2) by simp
  from run_executor_implements_spec [OF step(1) this s(4) sample_orchestration_eval(5)] show ?thesis
    using s(2,3) by (auto simp: result_before_def log_before_def)
qed

definition sample_empty :: "history_states orch" where
  "sample_empty = \<lparr>orch_provider = Map.empty, outbox = []\<rparr>"

lemma sample_first_orchestration:
  obtains s w' cs where "log s = sample_log"
    "orchestrates RemoteExecutorProvider (sample_deps (\<lambda>e. None)) (sample_request [sample_started]) sample_empty FirstRun s s
       [sample_run_started, sample_started]"
    "orchestrateExecution RemoteExecutorProvider (sample_deps (\<lambda>e. None)) (sample_request [sample_started]) sample_empty = Some (w', Inr ())"
proof -
  obtain s where s: "spec_drain sample_workflow (spec_start sample_workflow (JNum 7) sample_context) = Some s"
    "log s = sample_log" "result s = None" "\<not> stopped s" "jobs s = []" by (rule sample_started_state)
  have orch: "orchestrates RemoteExecutorProvider (sample_deps (\<lambda>e. None)) (sample_request [sample_started]) sample_empty FirstRun s s
      [sample_run_started, sample_started]"
    by (rule sample_orchestrates [OF s(1,5,4)]) (simp add: remote.got sample_empty_def getHistory_def)
  have "od_lookupWorkflow (sample_deps (\<lambda>e. None)) (or_workflowName (sample_request [sample_started])) = Some sample_workflow"
    by (simp add: sample_deps_def)
  from orchestrate_outcome [OF this orch] obtain w' r cs where
    "orchestrateExecution RemoteExecutorProvider (sample_deps (\<lambda>e. None)) (sample_request [sample_started]) sample_empty = Some (w', r)"
    and l: "log s = log_before FirstRun s @ map wc_event cs" "list_all recorded cs"
    "isl r \<longrightarrow> orchestration_refused (sample_deps (\<lambda>e. None)) (sample_request [sample_started]) cs
       (new_result (result_before FirstRun s) (result s))"
    by blast
  moreover have "map wc_event cs = sample_log" using l(1) s(2) by (simp add: log_before_def)
  with l have "r = Inr ()" using sample_not_refused [of cs "\<lambda>e. None"] by (cases r) auto
  ultimately show thesis using that s(2) orch by blast
qed

lemma remote_orchestration_witness:
  "\<exists>w' (cs :: workflow_call list) s. orchestrateExecution RemoteExecutorProvider (sample_deps (\<lambda>e. None)) (sample_request [sample_started]) sample_empty =
      Some (w', Inr ()) \<and> map wc_event cs = sample_log \<and> log s = sample_log \<and>
    stored sample_workflow (getHistory (orch_provider w') ''order/e1'') s"
proof -
  obtain s w' where s: "log s = sample_log"
    "orchestrates RemoteExecutorProvider (sample_deps (\<lambda>e. None)) (sample_request [sample_started]) sample_empty FirstRun s s
       [sample_run_started, sample_started]"
    "orchestrateExecution RemoteExecutorProvider (sample_deps (\<lambda>e. None)) (sample_request [sample_started]) sample_empty = Some (w', Inr ())"
    by (rule sample_first_orchestration)
  have lookup: "od_lookupWorkflow (sample_deps (\<lambda>e. None)) (or_workflowName (sample_request [sample_started])) = Some sample_workflow"
    by (simp add: sample_deps_def)
  have kind: "FirstRun \<noteq> InMemory" by simp
  have "\<exists>cs :: workflow_call list. log s = log_before FirstRun s @ map wc_event cs \<and>
      stored sample_workflow (getHistory (orch_provider w') (or_executionId (sample_request [sample_started]))) s"
    using remote_orchestration [OF lookup s(2) kind] sample_json s(1) unfolding s(3) by (auto simp: log_before_def)
  then obtain cs :: "workflow_call list" where "log s = log_before FirstRun s @ map wc_event cs"
    "stored sample_workflow (getHistory (orch_provider w') (or_executionId (sample_request [sample_started]))) s" by blast
  then show ?thesis using s(1,3) by (intro exI [of _ w'] exI [of _ cs] exI [of _ s]) (simp add: log_before_def sample_request_def)
qed


text \<open>The log of events is out of order: every orchestration fails.\<close>

definition sample_outage :: "effect \<Rightarrow> js option" where
  "sample_outage e = (case e of PutEvents i evs \<Rightarrow> Some (JStr ''down'') | _ \<Rightarrow> None)"

lemma sample_outage_fails: "orchestrateExecution ops (sample_deps sample_outage) req w \<noteq> Some (w', Inr u)"
  by (auto simp: orchestrateExecution_def eventCollectorScope_def proc_bind_def emit_effect_def sample_deps_def
      sample_outage_def split: option.splits prod.splits sum.splits)

lemma failed_orchestration_loses_calls_witness:
  "\<exists>w1 err (cs :: workflow_call list) w2 r. orchestrateExecution InMemoryExecutorProvider (sample_deps sample_outage) (sample_request [sample_started])
      \<lparr>orch_provider = Map.empty, outbox = []\<rparr> = Some (w1, Inl err) \<and> map wc_event cs = sample_log \<and>
    orchestrateExecution InMemoryExecutorProvider (sample_deps sample_outage) (sample_request [sample_started]) w1 = Some (w2, r)"
proof -
  let ?deps = "sample_deps sample_outage" and ?req = "sample_request [sample_started]"
  let ?w = "\<lparr>orch_provider = Map.empty, outbox = []\<rparr> :: (nat executions) orch"
  obtain s where s: "spec_drain sample_workflow (spec_start sample_workflow (JNum 7) sample_context) = Some s"
    "log s = sample_log" "result s = None" "\<not> stopped s" "jobs s = []" by (rule sample_started_state)
  have orch: "orchestrates InMemoryExecutorProvider ?deps ?req ?w FirstRun s s [sample_run_started, sample_started]"
    by (rule sample_orchestrates [OF s(1,5,4)]) (simp add: InMemoryExecutorProvider_def)
  have lookup: "od_lookupWorkflow ?deps (or_workflowName ?req) = Some sample_workflow" by (simp add: sample_deps_def)
  obtain w1 err where run: "orchestrateExecution InMemoryExecutorProvider ?deps ?req ?w = Some (w1, Inl err)"
    using orchestrate_outcome [OF lookup orch] sample_outage_fails by (metis isl_def sum.collapse(2))
  have "getEventId ` set (or_events ?req) \<subseteq> getEventId ` set [sample_run_started, sample_started]"
    "call_events (or_events ?req) = []"
    by (simp_all add: sample_request_def sample_orchestration_eval)
  from failed_orchestration_loses_calls [OF lookup orch sample_orchestration_eval(8) run HOL.refl HOL.refl this sample_orchestration_eval(5)]
  obtain cs :: "workflow_call list" and w2 r where o: "log s = log_before FirstRun s @ map wc_event cs"
    "orchestrateExecution InMemoryExecutorProvider ?deps ?req w1 = Some (w2, r)" by blast
  have "map wc_event cs = sample_log" using o(1) s(2) by (simp add: log_before_def)
  then show ?thesis using run o(2) by blast
qed

definition sample_task_done :: workflow_event where
  "sample_task_done = TaskSucceeded 0 5 (JStr ''ok'')"

definition sample_paid :: call_history_event where
  "sample_paid = SignalSent 1 ''paid'' (ExecutionTarget ''w/other'') (JStr ''ok'')"

lemma sample_second_eval:
  "run_events (sample_request [sample_task_done]) = [sample_run_started, sample_task_done]"
  "filterEvents [sample_run_started, sample_started] [sample_run_started, sample_task_done] = [sample_task_done]"
  "completion_events [sample_task_done] = [sample_task_done]" "call_events [sample_task_done] = []"
  "call_events [sample_run_started, sample_started, sample_task_done] = []"
  "list_all json_event [sample_run_started, sample_started, sample_task_done]"
  "processArgs [sample_run_started, sample_started, sample_task_done] (StartEvents []) = Inr (JNum 7, sample_context, [])"
  "timeout_effects (sample_deps err) (sample_request [sample_task_done]) = []"
  "log (spec_start sample_workflow (JNum 7) sample_context) = sample_log"
  by code_simp+

lemma hybrid_restart_loses_calls_witness:
  "\<exists>w w' H'. orchestrateExecution HybridExecutorProvider (sample_deps (\<lambda>e. None)) (sample_request [sample_task_done]) w =
      Some (w', Inr ()) \<and>
    snd (getExecutor HybridExecutorProvider (new_executor sample_workflow) (hybrid_restart (orch_provider w')) ''order/e1'') =
      new_executor sample_workflow H' \<and> call_events H' = [sample_paid] \<and>
    (\<forall>st r. rerunHistoricalEvents sample_workflow (new_executor sample_workflow H') = Some (st, r) \<longrightarrow>
       (\<exists>f. r = Inr (Some f) \<and> determinism_failure f))"
proof -
  let ?deps = "sample_deps (\<lambda>e. None)" and ?req = "sample_request [sample_task_done]"
  let ?H = "[sample_run_started, sample_started, sample_task_done]"
  obtain s where s: "spec_drain sample_workflow (spec_start sample_workflow (JNum 7) sample_context) = Some s"
    "log s = sample_log" "result s = None" "\<not> stopped s" "jobs s = []" by (rule sample_started_state)
  obtain s1 s2 where s2: "spec_run sample_workflow (JNum 7) sample_context [WorkflowRunStarted ''r1'' 1] = Some s1"
    "spec_events sample_workflow [TaskSucceeded 0 5 (JStr ''ok'')] s1 = Some s2"
    "log s2 = log s1 @ [sample_paid]" "\<not> stopped s2"
    by (rule sample_first_run) (simp add: sample_paid_def)
  have "s1 = s"
    using s2(1) s(1) run_started_changes_nothing [OF s(5), of sample_workflow "''r1''" 1]
    by (simp add: spec_run_def run_started_is_completion)
  have "spec_orchestrate sample_workflow (history (new_executor sample_workflow [])) (run_events (sample_request [sample_started])) 1 s
      = Some (s, [sample_run_started, sample_started])" using sample_first_step(2) [OF s(1,5)] by simp
  from run_executor_refines [OF sample_first_step(1) [OF s(1,5)] this s(4)] obtain st where
    st: "ready st s" "history st = [sample_run_started, sample_started]"
    by (auto simp: sample_orchestration_eval)
  let ?w = "\<lparr>orch_provider = \<lparr>executions = [''order/e1'' \<mapsto> st], remote = Map.empty, aliased = (\<lambda>i. False)\<rparr>, outbox = []\<rparr>"
  have step: "spec_orchestrate sample_workflow [sample_run_started, sample_started] [sample_run_started, sample_task_done] 1 s = Some (s2, ?H)"
    using s2(2) by (simp add: spec_orchestrate_def sample_second_eval no_due_timers \<open>s1 = s\<close> flip: sample_task_done_def)
      (simp add: filterEvents_def)
  have orch: "orchestrates HybridExecutorProvider ?deps ?req ?w InMemory s s2 ?H"
    using st s2(4) step
    by (simp add: orchestrates_def carries_def Let_def sample_second_eval sample_deps_def)
      (simp add: sample_request_def provider_defs sample_second_eval)
  have lookup: "od_lookupWorkflow ?deps (or_workflowName ?req) = Some sample_workflow" by (simp add: sample_deps_def)
  from orchestrate_outcome [OF lookup orch] obtain w' r cs where
    run: "orchestrateExecution HybridExecutorProvider ?deps ?req ?w = Some (w', r)"
    "log s2 = log_before InMemory s @ map wc_event cs" "list_all recorded cs"
    "isl r \<longrightarrow> orchestration_refused ?deps ?req cs (new_result (result_before InMemory s) (result s2))"
    by blast
  have cs: "map wc_event cs = [sample_paid]" using run(2) s2(3) \<open>s1 = s\<close> by (simp add: log_before_def)
  have "\<not> orchestration_refused ?deps ?req cs res" for res
    by (rule sample_signal_not_refused [OF run(3)]) (simp add: cs sample_paid_def)
  with run have run': "orchestrateExecution HybridExecutorProvider ?deps ?req ?w = Some (w', Inr ())" by (cases r) auto
  have first: "log (spec_start sample_workflow (JNum 7) sample_context) \<noteq> []"
    by (simp add: sample_second_eval sample_log_def)
  from hybrid_restart_loses_calls [OF lookup orch run' sample_second_eval(5-7) s2(1) [unfolded \<open>s1 = s\<close>] first]
  obtain new H' where "log s2 = log s @ new" and H': "snd (getExecutor HybridExecutorProvider (new_executor sample_workflow)
        (hybrid_restart (orch_provider w')) ''order/e1'') = new_executor sample_workflow H'"
      "call_events H' = map persist_call new" "new \<noteq> [] \<longrightarrow>
       (\<forall>st r. rerunHistoricalEvents sample_workflow (new_executor sample_workflow H') = Some (st, r) \<longrightarrow>
          (\<exists>f. r = Inr (Some f) \<and> determinism_failure f))"
    by (auto simp: sample_request_def)
  moreover from this have "new = [sample_paid]" using s2(3) \<open>s1 = s\<close> by simp
  ultimately show ?thesis using run' by (auto simp: sample_paid_def)
qed

text \<open>The replay of the sample does come to an end.\<close>

lemma sample_replay_eval:
  "case start sample_workflow (StartEvents []) (new_executor sample_workflow
       [sample_run_started, sample_started, sample_task_done, CallEvent 1 sample_paid]) of
     Inl err \<Rightarrow> False
   | Inr st \<Rightarrow> loop_fuel 30 sample_workflow st \<noteq> None"
  by code_simp

lemma sample_replay_ends:
  "\<exists>st. run_start sample_workflow (StartEvents []) (new_executor sample_workflow
       [sample_run_started, sample_started, sample_task_done, CallEvent 1 sample_paid]) = Some (Inr st)"
  using sample_replay_eval by (auto simp: run_start_def dest!: loop_fuel_Some split: sum.splits)

definition sample_tasks :: "workflow_task list" where
  "sample_tasks =
     [\<lparr>wt_executionId = ''order/e1'', wt_events = [EventObject sample_started]\<rparr>,
      \<lparr>wt_executionId = ''nonsense'', wt_events = []\<rparr>,
      \<lparr>wt_executionId = ''order/e2'', wt_events = [EventObject sample_run_started]\<rparr>,
      \<lparr>wt_executionId = ''order/e1'', wt_events = [EventObject sample_task_done]\<rparr>]"

text \<open>It notes what it is called with, and fails for the second execution.\<close>

definition sample_runs :: "string \<Rightarrow> string \<Rightarrow> workflow_event list \<Rightarrow> ((string \<times> workflow_event list) list, unit) proc" where
  "sample_runs w i evs l =
     Some (l @ [(i, evs)], if i = ''order/e2'' then Inl (mk_Error ''down'') else Inr ())"

lemma batch_reports_every_execution_witness:
  "runExecutions (\<lambda>text. Inl JNull) sample_tasks sample_runs [] =
     Some ([(''order/e1'', [sample_started, sample_task_done]), (''order/e2'', [sample_run_started])],
       Inr \<lparr>failedExecutions = [(''nonsense'', Some (''invalid ExecutionID: '' @ [CHR 0x27] @ ''nonsense'' @ [CHR 0x27])),
           (''order/e2'', Some ''down'')],
         succeededExecutions = [''order/e1'']\<rparr>)"
proof -
  have ok: "\<forall>t \<in> set sample_tasks. \<forall>e \<in> set (wt_events t). \<not> isl (parse_event (\<lambda>text. Inl JNull) e)" by code_simp
  show ?thesis unfolding batch_reports_every_execution [OF ok] by code_simp
qed

end
