(* ===== verification/Actions.thy ===== *)
theory Actions
  imports JsValue
begin

text \<open>
  Code that may throw, as values: \<open>js + 'a\<close> is a computation that throws or returns
  (\<open>try_bind\<close>, \<open>try_map\<close>), and \<open>('s, 'a) act\<close> one that also changes a state. What a
  statement did to the state before a later one throws stays done, as in the code.
\<close>

definition try_bind :: "js + 'a \<Rightarrow> ('a \<Rightarrow> js + 'b) \<Rightarrow> js + 'b" where
  "try_bind r f = (case r of Inl err \<Rightarrow> Inl err | Inr a \<Rightarrow> f a)"

lemma try_bind_simps [simp]: "try_bind (Inl err) f = Inl err" "try_bind (Inr a) f = f a"
  by (simp_all add: try_bind_def)

lemma try_bind_Inr: "try_bind r f = Inr b \<longleftrightarrow> (\<exists>a. r = Inr a \<and> f a = Inr b)"
  by (cases r) simp_all

primrec try_map :: "('a \<Rightarrow> js + 'b) \<Rightarrow> 'a list \<Rightarrow> js + 'b list" where
  "try_map f [] = Inr []"
| "try_map f (x # xs) = try_bind (f x) (\<lambda>y. try_bind (try_map f xs) (\<lambda>ys. Inr (y # ys)))"

lemma try_map_Inr: "try_map f xs = Inr ys \<longleftrightarrow> list_all2 (\<lambda>x y. f x = Inr y) xs ys"
proof (induction xs arbitrary: ys)
  case Nil
  show ?case by (cases ys) auto
next
  case (Cons x xs)
  show ?case by (cases ys) (auto simp: try_bind_Inr Cons)
qed

type_synonym ('s, 'a) act = "'s \<Rightarrow> 's \<times> (js + 'a)"

definition act_return :: "'a \<Rightarrow> ('s, 'a) act" where
  "act_return a s = (s, Inr a)"

definition act_throw :: "js \<Rightarrow> ('s, 'a) act" where
  "act_throw err s = (s, Inl err)"

definition act_lift :: "js + 'a \<Rightarrow> ('s, 'a) act" where
  "act_lift r s = (s, r)"

definition act_bind :: "('s, 'a) act \<Rightarrow> ('a \<Rightarrow> ('s, 'b) act) \<Rightarrow> ('s, 'b) act" where
  "act_bind m f s = (case m s of (s', Inl err) \<Rightarrow> (s', Inl err) | (s', Inr a) \<Rightarrow> f a s')"

definition act_modify :: "('s \<Rightarrow> 's) \<Rightarrow> ('s, unit) act" where
  "act_modify f s = (f s, Inr ())"

text \<open>\<open>xs.forEach(f)\<close> for an \<open>f\<close> that may throw.\<close>

primrec act_forEach :: "('a \<Rightarrow> ('s, unit) act) \<Rightarrow> 'a list \<Rightarrow> ('s, unit) act" where
  "act_forEach f [] = act_return ()"
| "act_forEach f (x # xs) = act_bind (f x) (\<lambda>_. act_forEach f xs)"

lemma act_apply [simp]:
  "act_return a s = (s, Inr a)" "act_throw err s = (s, Inl err)" "act_lift r s = (s, r)"
  "act_modify g s = (g s, Inr ())"
  by (simp_all add: act_return_def act_throw_def act_lift_def act_modify_def)

lemma act_bind_simps [simp]:
  "m s = (s', Inl err) \<Longrightarrow> act_bind m f s = (s', Inl err)"
  "m s = (s', Inr a) \<Longrightarrow> act_bind m f s = f a s'"
  by (simp_all add: act_bind_def)

lemma act_bind_Inr: "act_bind m f s = (s'', Inr b) \<longleftrightarrow> (\<exists>s' a. m s = (s', Inr a) \<and> f a s' = (s'', Inr b))"
  by (auto simp: act_bind_def split: prod.split sum.split)

lemma act_bind_Inl: "act_bind m f s = (s'', Inl err) \<longleftrightarrow>
    m s = (s'', Inl err) \<or> (\<exists>s' a. m s = (s', Inr a) \<and> f a s' = (s'', Inl err))"
  by (auto simp: act_bind_def split: prod.split sum.split)

lemma act_forEach_append:
  "act_forEach f (xs @ ys) = act_bind (act_forEach f xs) (\<lambda>_. act_forEach f ys)"
  by (induction xs) (auto simp: fun_eq_iff act_bind_def split: prod.split sum.split)

text \<open>A relation that every step keeps, whether it throws or not, is kept by the loop.\<close>

lemma act_forEach_keeps:
  assumes step: "\<And>x s s' r. x \<in> set xs \<Longrightarrow> P s \<Longrightarrow> f x s = (s', r) \<Longrightarrow> P s'"
    and start: "P s" and run: "act_forEach f xs s = (s', r)"
  shows "P s'"
  using assms
proof (induction xs arbitrary: s)
  case Nil
  then show ?case by simp
next
  case (Cons x xs)
  obtain s1 r1 where s1: "f x s = (s1, r1)" by (cases "f x s")
  from Cons.prems(1) [OF _ Cons.prems(2) s1] have P1: "P s1" by simp
  show ?case
  proof (cases r1)
    case (Inl err)
    with s1 Cons.prems P1 show ?thesis by simp
  next
    case (Inr u)
    with s1 Cons.prems(3) have "act_forEach f xs s1 = (s', r)" by simp
    then show ?thesis by (rule Cons.IH [rotated 2]) (auto intro: Cons.prems(1) P1)
  qed
qed

end
