(* ===== verification/EntityKeys.thy ===== *)
theory EntityKeys
  imports Actions JsRecord
begin

text \<open>
  Keys of entities: the first half of core-runtime/src/stores/entity-store.ts (normalisation of
  composite keys and query keys, generated attributes), core/src/internal/entity.ts and the
  composite keys of core-runtime/src/utils.ts.

  A composite key is a value of JavaScript, an array of attribute values or an object; a key
  value is a string or a number, undefined when a key has none. Attribute names are not
  integer-like, so that objects keep the order of insertion.
\<close>

section \<open>Values\<close>

definition typeof_object :: "js \<Rightarrow> bool" where
  "typeof_object v = (case v of JNull \<Rightarrow> True | JArr _ \<Rightarrow> True | JObj _ \<Rightarrow> True | JErr _ _ _ \<Rightarrow> True | _ \<Rightarrow> False)"

text \<open>\<open>String(v)\<close>.\<close>

fun js_to_string :: "js \<Rightarrow> string" where
  "js_to_string JUndef = ''undefined''"
| "js_to_string JNull = ''null''"
| "js_to_string (JBool b) = (if b then ''true'' else ''false'')"
| "js_to_string (JNum n) = int_str n"
| "js_to_string (JStr s) = s"
| "js_to_string (JArr xs) =
     join_with '','' (map (\<lambda>x. if x = JUndef \<or> x = JNull then [] else js_to_string x) xs)"
| "js_to_string (JObj fs) = ''[object Object]''"
| "js_to_string (JErr c n m) = n @ '': '' @ m"

text \<open>\<open>values.join("#")\<close>, where undefined and null are empty, and \<open>v.toString()\<close>, which fails on them.\<close>

definition join_hash :: "js list \<Rightarrow> string" where
  "join_hash vs = join_with ''#'' (map (\<lambda>x. if x = JUndef \<or> x = JNull then [] else js_to_string x) vs)"

definition call_toString :: "js \<Rightarrow> js + string" where
  "call_toString v =
     (if v = JUndef \<or> v = JNull then Inl (mk_TypeError ''Cannot read properties (reading 'toString')'')
      else Inr (js_to_string v))"

text \<open>\<open>xs[i]\<close> on an array, \<open>k in obj\<close>, \<open>Array.isArray\<close> and \<open>Object.fromEntries\<close>.\<close>

definition js_at :: "js \<Rightarrow> nat \<Rightarrow> js" where
  "js_at v i = (case v of JArr xs \<Rightarrow> if i < length xs then xs ! i else JUndef | _ \<Rightarrow> JUndef)"

definition js_has :: "js \<Rightarrow> string \<Rightarrow> bool" where
  "js_has v k \<longleftrightarrow> map_of (own_entries v) k \<noteq> None"

definition is_array :: "js \<Rightarrow> bool" where
  "is_array v = (case v of JArr _ \<Rightarrow> True | _ \<Rightarrow> False)"

definition from_entries :: "(string \<times> js) list \<Rightarrow> js" where
  "from_entries kvs = JObj (foldl (\<lambda>t (k, v). om_set k v t) [] kvs)"

section \<open>Key definitions\<close>

datatype key_type = NumberKey | StringKey

record key_part =
  kp_type :: key_type
  kp_attributes :: "string list"
  kp_keyAttribute :: string

record key_def =
  kd_partition :: key_part
  kd_sort :: "key_part option"

text \<open>
  \<open>computeKeyDefinition\<close>: the shape of the attributes is a parameter, which says for which
  attributes the schema is a number. An empty key part is refused.
\<close>

definition formatKeyDefinitionPart :: "(string \<Rightarrow> bool) \<Rightarrow> string list \<Rightarrow> js + key_part" where
  "formatKeyDefinitionPart is_number keyAttributes =
     (case keyAttributes of
        [] \<Rightarrow> Inl (mk_Error ''Entity Key Part must contain at least one segment. Sort Key may be undefined.'')
      | head # tail \<Rightarrow>
          if head = [] then Inl (mk_Error ''Entity Key Part must contain at least one segment. Sort Key may be undefined.'')
          else Inr \<lparr>kp_type = (if length tail = 0 \<and> is_number head then NumberKey else StringKey),
                    kp_attributes = keyAttributes, kp_keyAttribute = join_with ''|'' keyAttributes\<rparr>)"

definition computeKeyDefinition :: "(string \<Rightarrow> bool) \<Rightarrow> string list \<Rightarrow> string list option \<Rightarrow> js + key_def" where
  "computeKeyDefinition is_number partitionKey sortKey =
     try_bind (formatKeyDefinitionPart is_number partitionKey) (\<lambda>p.
       (case sortKey of
          None \<Rightarrow> Inr \<lparr>kd_partition = p, kd_sort = None\<rparr>
        | Some s \<Rightarrow> try_bind (formatKeyDefinitionPart is_number s) (\<lambda>s'.
            Inr \<lparr>kd_partition = p, kd_sort = Some s'\<rparr>)))"

text \<open>The attributes of a key, in the order of a tuple.\<close>

definition key_attributes :: "key_def \<Rightarrow> string list" where
  "key_attributes d = kp_attributes (kd_partition d) @
     (case kd_sort d of None \<Rightarrow> [] | Some s \<Rightarrow> kp_attributes s)"

section \<open>Normalised keys\<close>

record norm_part =
  np_part :: key_part
  np_parts :: "(string \<times> js) list"
  np_keyValue :: js
  np_partialValue :: bool

record norm_key =
  nk_partition :: norm_part
  nk_sort :: "norm_part option"

definition isCompleteKeyPart :: "norm_part \<Rightarrow> bool" where
  "isCompleteKeyPart k \<longleftrightarrow> \<not> np_partialValue k"

definition isCompleteKey :: "norm_key \<Rightarrow> bool" where
  "isCompleteKey k \<longleftrightarrow> isCompleteKeyPart (nk_partition k) \<and>
     (case nk_sort k of None \<Rightarrow> True | Some s \<Rightarrow> isCompleteKeyPart s)"

definition retrieve_parts :: "key_part \<Rightarrow> (string \<Rightarrow> nat \<Rightarrow> js) \<Rightarrow> (string \<times> js) list" where
  "retrieve_parts keyPart retriever = map (\<lambda>(i, p). (p, retriever p i)) (enumerate 0 (kp_attributes keyPart))"

definition missing_index :: "(string \<times> js) list \<Rightarrow> nat option" where
  "missing_index parts = find_index (\<lambda>(p, v). v = JUndef) parts"

text \<open>\<open>parts[0]!.value\<close>; a key part has at least one attribute.\<close>

definition first_value :: "(string \<times> js) list \<Rightarrow> js" where
  "first_value parts = (case parts of [] \<Rightarrow> JUndef | (p, v) # _ \<Rightarrow> v)"

definition part_of_parts :: "key_part \<Rightarrow> (string \<times> js) list \<Rightarrow> norm_part" where
  "part_of_parts keyPart parts =
     (let missingValueIndex = missing_index parts
      in \<lparr>np_part = keyPart, np_parts = parts,
          np_keyValue =
            (if missingValueIndex = Some 0 then JUndef
             else if kp_type keyPart = NumberKey then first_value parts
             else JStr (join_hash (map snd (case missingValueIndex of
                    None \<Rightarrow> parts | Some i \<Rightarrow> take i parts)))),
          np_partialValue = (missingValueIndex \<noteq> None)\<rparr>)"

definition formatNormalizedPart :: "key_part \<Rightarrow> (string \<Rightarrow> nat \<Rightarrow> js) \<Rightarrow> norm_part" where
  "formatNormalizedPart keyPart valueRetriever = part_of_parts keyPart (retrieve_parts keyPart valueRetriever)"

text \<open>\<open>Array.isArray(key) ? key[offset + i] : key[p]\<close>.\<close>

definition key_value :: "nat \<Rightarrow> js \<Rightarrow> string \<Rightarrow> nat \<Rightarrow> js" where
  "key_value offset key p i = (if is_array key then js_at key (offset + i) else js_get key p)"

definition formatNormalizePartitionKeyPart :: "key_def \<Rightarrow> js \<Rightarrow> js + norm_part" where
  "formatNormalizePartitionKeyPart keyDef key =
     (let parts = retrieve_parts (kd_partition keyDef) (key_value 0 key)
      in case List.find (\<lambda>(p, v). typeof_object v) parts of
           Some (p, v) \<Rightarrow> Inl (mk_Error (''Partition Key value must be a string or number: '' @ p))
         | None \<Rightarrow> Inr (formatNormalizedPart (kd_partition keyDef) (key_value 0 key)))"

definition partition_width :: "key_def \<Rightarrow> nat" where
  "partition_width keyDef = length (kp_attributes (kd_partition keyDef))"

definition formatNormalizeSortKeyPart :: "key_def \<Rightarrow> js \<Rightarrow> norm_part option" where
  "formatNormalizeSortKeyPart keyDef key =
     map_option (\<lambda>s. formatNormalizedPart s (key_value (partition_width keyDef) key)) (kd_sort keyDef)"

definition normalizeCompositeKey :: "key_def \<Rightarrow> js \<Rightarrow> js + norm_key" where
  "normalizeCompositeKey keyDef key =
     try_bind (formatNormalizePartitionKeyPart keyDef key) (\<lambda>p.
       Inr \<lparr>nk_partition = p, nk_sort = formatNormalizeSortKeyPart keyDef key\<rparr>)"

definition norm_entries :: "norm_key \<Rightarrow> (string \<times> js) list" where
  "norm_entries key = np_parts (nk_partition key) @
     (case nk_sort key of None \<Rightarrow> [] | Some s \<Rightarrow> np_parts s)"

definition convertNormalizedEntityKeyToMap :: "norm_key \<Rightarrow> js" where
  "convertNormalizedEntityKeyToMap key = from_entries (norm_entries key)"

text \<open>
  Keys as text: \<open>serializeCompositeKey\<close> of utils.ts. An undefined or null sort key is empty; a
  partition key that is undefined is printed as such.
\<close>

definition or_else :: "js \<Rightarrow> js \<Rightarrow> js" where
  "or_else v w = (if v = JUndef \<or> v = JNull then w else v)"

definition sort_value :: "norm_key \<Rightarrow> js" where
  "sort_value key = (case nk_sort key of None \<Rightarrow> JUndef | Some s \<Rightarrow> np_keyValue s)"

definition serializeCompositeKey :: "string \<Rightarrow> norm_key \<Rightarrow> string" where
  "serializeCompositeKey entityName key =
     entityName @ ''|'' @ js_to_string (np_keyValue (nk_partition key)) @ ''|''
       @ js_to_string (or_else (sort_value key) (JStr ''''))"

section \<open>Indices and generated attributes\<close>

record entity_index =
  ix_name :: string
  ix_key :: key_def

record entity =
  en_name :: string
  en_key :: key_def
  en_indices :: "entity_index list"

definition index_key_parts :: "js \<Rightarrow> entity_index \<Rightarrow> js + norm_part list" where
  "index_key_parts v i =
     try_bind (normalizeCompositeKey (ix_key i) v) (\<lambda>k.
       Inr (nk_partition k # (case nk_sort k of None \<Rightarrow> [] | Some s \<Rightarrow> [s])))"

definition computeGeneratedIndexKeyAttributes :: "entity \<Rightarrow> js \<Rightarrow> js + js" where
  "computeGeneratedIndexKeyAttributes entity v =
     try_bind (try_map (index_key_parts v) (en_indices entity)) (\<lambda>pss.
       Inr (from_entries (map (\<lambda>k. (kp_keyAttribute (np_part k), np_keyValue k))
         (filter isCompleteKeyPart
           (filter (\<lambda>k. 1 < length (kp_attributes (np_part k))) (concat pss))))))"

definition key_def_parts :: "key_def \<Rightarrow> key_part list" where
  "key_def_parts k = kd_partition k # (case kd_sort k of None \<Rightarrow> [] | Some s \<Rightarrow> [s])"

text \<open>
  \<open>removeKeyAttributes\<close>. With its \<open>mutate\<close> option the same properties are deleted from the
  object itself; the result is the same.
\<close>

definition removeKeyAttributes :: "entity \<Rightarrow> js \<Rightarrow> (key_part \<Rightarrow> bool) \<Rightarrow> bool \<Rightarrow> js" where
  "removeKeyAttributes entity v selected excludeIndices =
     (let keysToDelete = map kp_keyAttribute (filter selected (concat (map key_def_parts
            (en_key entity # (if excludeIndices then [] else map ix_key (en_indices entity))))))
      in JObj (filter (\<lambda>(attribute, x). attribute \<notin> set keysToDelete) (own_entries v)))"

definition removeGeneratedKeyAttributes :: "entity \<Rightarrow> js \<Rightarrow> bool \<Rightarrow> js" where
  "removeGeneratedKeyAttributes entity v excludeIndices =
     removeKeyAttributes entity v (\<lambda>k. 1 < length (kp_attributes k)) excludeIndices"

section \<open>Query keys\<close>

datatype query_condition =
    Between js js
  | BeginsWith js
  | LessThan js
  | LessThanEquals js
  | GreaterThan js
  | GreaterThanEquals js

datatype query_key_part =
    KeyPart norm_part
  | ConditionPart key_part "(string \<times> js) list" query_condition

record query_key =
  qk_partition :: norm_part
  qk_sort :: "query_key_part option"

definition keyHasInlineBetween :: "js \<Rightarrow> bool" where
  "keyHasInlineBetween key \<longleftrightarrow> js_has key ''$between''"

definition formatKeyPrefixConditionValue :: "js \<Rightarrow> js \<Rightarrow> js + js" where
  "formatKeyPrefixConditionValue prefixValue conditionValue =
     (if prefixValue \<noteq> JUndef
      then try_bind (call_toString prefixValue) (\<lambda>p. try_bind (call_toString conditionValue) (\<lambda>c.
             Inr (JStr (p @ ''#'' @ c))))
      else Inr conditionValue)"

text \<open>
  The condition of a key, with the prefix in front of its values: the first of the conditions'
  properties the object has decides.
\<close>

definition prefixed_condition :: "js \<Rightarrow> js \<Rightarrow> js + query_condition" where
  "prefixed_condition prefix condition =
     (let format = formatKeyPrefixConditionValue prefix;
          one = (\<lambda>k f. try_bind (format (js_get condition k)) (\<lambda>v. Inr (f v)))
      in if condition = JNull then Inl (mk_TypeError ''Cannot use 'in' operator to search for '$between' in null'')
         else if js_has condition ''$between'' then
           try_bind (format (js_at (js_get condition ''$between'') 0)) (\<lambda>a.
           try_bind (format (js_at (js_get condition ''$between'') 1)) (\<lambda>b. Inr (Between a b)))
         else if js_has condition ''$beginsWith'' then one ''$beginsWith'' BeginsWith
         else if js_has condition ''$lt'' then one ''$lt'' LessThan
         else if js_has condition ''$lte'' then one ''$lte'' LessThanEquals
         else if js_has condition ''$gt'' then one ''$gt'' GreaterThan
         else if js_has condition ''$gte'' then one ''$gte'' GreaterThanEquals
         else Inl (mk_Error (''reached unreachable code with value '' @ the_default ''undefined'' (stringify condition))))"

definition generateBetweenConditionFromInlineBetween :: "js \<Rightarrow> key_part \<Rightarrow> nat \<Rightarrow> js + js" where
  "generateBetweenConditionFromInlineBetween condition sortKey sortKeyOffset =
     (let betweenKeyPart = sortKey\<lparr>kp_attributes := drop sortKeyOffset (kp_attributes sortKey)\<rparr>;
          side = (\<lambda>i. np_keyValue (formatNormalizedPart betweenKeyPart
                    (\<lambda>p _. js_get (js_at (js_get condition ''$between'') i) p)))
      in if kp_type sortKey = NumberKey \<and> (side 0 = JUndef \<or> side 1 = JUndef)
         then Inl (mk_Error ''Between conditions cannot be empty when the field type is number.'')
         else Inr (JObj [(''$between'', JArr [or_else (side 0) (JStr ''''), or_else (side 1) (JStr '''')])]))"

definition formatNormalizedQueryPart :: "key_def \<Rightarrow> key_part \<Rightarrow> js \<Rightarrow> js + query_key_part" where
  "formatNormalizedQueryPart keyDef keyPart key =
     (let parts = retrieve_parts keyPart (key_value (partition_width keyDef) key);
          queryConditionIndex = find_index (\<lambda>(p, v). typeof_object v) parts;
          missingValueIndex = missing_index parts;
          isPartial = missingValueIndex \<noteq> None;
          hasInlineBetweenCondition = keyHasInlineBetween key;
          hasFieldCondition = queryConditionIndex \<noteq> None;
          hasCondition = hasFieldCondition \<or> hasInlineBetweenCondition;
          lastIndex = (case (missingValueIndex, queryConditionIndex) of
              (Some m, Some c) \<Rightarrow> min m c | (Some m, None) \<Rightarrow> m | (None, Some c) \<Rightarrow> c | (None, None) \<Rightarrow> length parts);
          keyValuePrefix =
            (if lastIndex = 0 then JUndef
             else if kp_type keyPart = NumberKey then first_value parts
             else JStr (join_hash (map snd (take lastIndex parts))))
      in if hasFieldCondition \<and>
            (isPartial \<and> the_default 0 missingValueIndex < the_default 0 queryConditionIndex \<or>
             Suc (the_default 0 queryConditionIndex) \<noteq> length (kp_attributes keyPart))
         then Inl (mk_Error ''Query Key condition must be the final value provided key attribute.'')
         else if hasInlineBetweenCondition \<and> hasFieldCondition
         then Inl (mk_Error ''Query key cannot contain a key condition and an inline $between condition.'')
         else if hasCondition
         then try_bind
           (if hasInlineBetweenCondition
            then generateBetweenConditionFromInlineBetween key keyPart (the_default 0 missingValueIndex)
            else Inr (snd (parts ! the_default 0 queryConditionIndex)))
           (\<lambda>condition. try_bind (prefixed_condition keyValuePrefix condition) (\<lambda>c.
              Inr (ConditionPart keyPart parts c)))
         else Inr (KeyPart \<lparr>np_part = keyPart, np_parts = parts, np_keyValue = keyValuePrefix,
                np_partialValue = isPartial\<rparr>))"

definition normalizeCompositeQueryKey :: "key_def \<Rightarrow> js \<Rightarrow> js + query_key" where
  "normalizeCompositeQueryKey keyDef key =
     try_bind (formatNormalizePartitionKeyPart keyDef key) (\<lambda>p.
       if np_partialValue p then Inl (mk_Error ''Query key partition part cannot be partial'')
       else (case kd_sort keyDef of
           None \<Rightarrow> Inr \<lparr>qk_partition = p, qk_sort = None\<rparr>
         | Some s \<Rightarrow> try_bind (formatNormalizedQueryPart keyDef s key) (\<lambda>q.
             Inr \<lparr>qk_partition = p, qk_sort = Some q\<rparr>)))"

lemma query_key_complete: "normalizeCompositeQueryKey d key = Inr k \<Longrightarrow> isCompleteKeyPart (qk_partition k)"
  by (auto simp: normalizeCompositeQueryKey_def try_bind_Inr isCompleteKeyPart_def split: if_splits option.splits)

section \<open>Keys determine and are determined by their parts\<close>

lemma map_of_zip_at:
  "distinct ks \<Longrightarrow> j < length ks \<Longrightarrow>
   map_of (zip ks vs) (ks ! j) = (if j < length vs then Some (vs ! j) else None)"
proof (induction ks arbitrary: vs j)
  case Nil
  then show ?case by simp
next
  case (Cons k ks)
  show ?case
  proof (cases vs)
    case Nil
    then show ?thesis by simp
  next
    case (Cons v vs')
    with Cons.prems Cons.IH [of "j - 1" vs'] show ?thesis
      by (cases j) (auto simp: nth_eq_iff_index_eq)
  qed
qed

lemma retrieve_parts_cong:
  "(\<And>i. i < length (kp_attributes k) \<Longrightarrow> f (kp_attributes k ! i) i = g (kp_attributes k ! i) i) \<Longrightarrow>
   retrieve_parts k f = retrieve_parts k g"
  by (auto simp: retrieve_parts_def enumerate_eq_zip set_zip)

lemma fst_retrieve_parts [simp]: "map fst (retrieve_parts k f) = kp_attributes k"
  by (simp add: retrieve_parts_def comp_def case_prod_beta' enumerate_eq_zip)

lemma length_retrieve_parts [simp]: "length (retrieve_parts k f) = length (kp_attributes k)"
  by (simp add: retrieve_parts_def)

lemma nth_retrieve_parts:
  "i < length (kp_attributes k) \<Longrightarrow> retrieve_parts k f ! i = (kp_attributes k ! i, f (kp_attributes k ! i) i)"
  by (simp add: retrieve_parts_def enumerate_eq_zip)

lemma formatNormalizedPart_fields [simp]:
  "np_part (formatNormalizedPart k f) = k" "np_parts (formatNormalizedPart k f) = retrieve_parts k f"
  by (simp_all add: formatNormalizedPart_def part_of_parts_def Let_def)

lemma normalizeCompositeKey_parts:
  "normalizeCompositeKey d k =
     (case List.find (\<lambda>(p, v). typeof_object v) (retrieve_parts (kd_partition d) (key_value 0 k)) of
        Some (p, v) \<Rightarrow> Inl (mk_Error (''Partition Key value must be a string or number: '' @ p))
      | None \<Rightarrow> Inr \<lparr>nk_partition = part_of_parts (kd_partition d) (retrieve_parts (kd_partition d) (key_value 0 k)),
          nk_sort = map_option (\<lambda>s. part_of_parts s (retrieve_parts s (key_value (partition_width d) k))) (kd_sort d)\<rparr>)"
  by (auto simp: normalizeCompositeKey_def formatNormalizePartitionKeyPart_def formatNormalizeSortKeyPart_def
      formatNormalizedPart_def Let_def split: option.split)

lemma key_value_offset: "key_value m k p i = key_value 0 k p (m + i)"
  by (simp add: key_value_def)

text \<open>Two keys with the same value for each attribute are normalised alike.\<close>

lemma normalizeCompositeKey_cong:
  assumes "\<And>j. j < length (key_attributes d) \<Longrightarrow>
      key_value 0 k (key_attributes d ! j) j = key_value 0 k' (key_attributes d ! j) j"
  shows "normalizeCompositeKey d k = normalizeCompositeKey d k'"
proof -
  have partition: "retrieve_parts (kd_partition d) (key_value 0 k) = retrieve_parts (kd_partition d) (key_value 0 k')"
  proof (rule retrieve_parts_cong)
    fix i assume "i < length (kp_attributes (kd_partition d))"
    with assms [of i] show "key_value 0 k (kp_attributes (kd_partition d) ! i) i =
        key_value 0 k' (kp_attributes (kd_partition d) ! i) i"
      by (simp add: key_attributes_def nth_append)
  qed
  have sort: "retrieve_parts s (key_value (partition_width d) k) = retrieve_parts s (key_value (partition_width d) k')"
    if s: "kd_sort d = Some s" for s
  proof (rule retrieve_parts_cong)
    fix i assume "i < length (kp_attributes s)"
    with assms [of "partition_width d + i"] s
    have "key_value 0 k (kp_attributes s ! i) (partition_width d + i) =
        key_value 0 k' (kp_attributes s ! i) (partition_width d + i)"
      by (simp add: key_attributes_def nth_append partition_width_def)
    then show "key_value (partition_width d) k (kp_attributes s ! i) i = key_value (partition_width d) k' (kp_attributes s ! i) i"
      by (simp add: key_value_offset [of "partition_width d"])
  qed
  show ?thesis unfolding normalizeCompositeKey_parts partition
    using sort by (cases "kd_sort d") (auto split: option.split)
qed

text \<open>
  A composite key may be given as a tuple of values, partition attributes
  first, or as an object. Both are the same key, complete or not.
\<close>

theorem tuple_key_is_map_key:
  assumes "distinct (key_attributes d)"
  shows "normalizeCompositeKey d (JArr vs) = normalizeCompositeKey d (JObj (zip (key_attributes d) vs))"
  using assms
  by (intro normalizeCompositeKey_cong)
    (simp add: key_value_def is_array_def js_at_def js_get_def map_of_zip_at)

lemma foldl_om_set_map_of:
  "map_of (foldl (\<lambda>t (k, v). om_set k v t) t kvs) = map_of t ++ map_of (rev kvs)"
proof (induction kvs arbitrary: t)
  case Nil
  then show ?case by simp
next
  case (Cons kv kvs)
  obtain k v where kv: "kv = (k, v)" by (cases kv)
  have "map_of (om_set k v t) = (map_of t)(k \<mapsto> v)" using om_get_set [of k v t] by (simp add: om_get_eq)
  then show ?case by (auto simp: kv Cons.IH fun_eq_iff map_add_def split: option.split)
qed

lemma map_of_rev_distinct: "distinct (map fst kvs) \<Longrightarrow> map_of (rev kvs) = map_of kvs"
proof (induction kvs)
  case Nil
  then show ?case by simp
next
  case (Cons kv kvs)
  then have "map_of kvs (fst kv) = None" by (simp add: map_of_eq_None_iff)
  with Cons show ?case by (cases kv) (auto simp: fun_eq_iff map_add_def split: option.split)
qed

lemma js_get_from_entries:
  "distinct (map fst kvs) \<Longrightarrow> js_get (from_entries kvs) k = the_default JUndef (map_of kvs k)"
  by (simp add: js_get_def from_entries_def foldl_om_set_map_of map_of_rev_distinct the_default_def
      split: option.split)

lemma norm_entries_eq:
  assumes "normalizeCompositeKey d k = Inr n"
  shows "map fst (norm_entries n) = key_attributes d"
    and "j < length (key_attributes d) \<Longrightarrow>
      norm_entries n ! j = (key_attributes d ! j, key_value 0 k (key_attributes d ! j) j)"
proof -
  define partition where "partition = retrieve_parts (kd_partition d) (key_value 0 k)"
  define sort where "sort = (case kd_sort d of None \<Rightarrow> []
    | Some s \<Rightarrow> retrieve_parts s (key_value (partition_width d) k))"
  have n: "norm_entries n = partition @ sort"
    using assms by (auto simp: normalizeCompositeKey_parts norm_entries_def part_of_parts_def partition_def sort_def
        Let_def split: option.splits)
  have len: "length partition = partition_width d" by (simp add: partition_def partition_width_def)
  show "map fst (norm_entries n) = key_attributes d"
    by (auto simp: n key_attributes_def partition_def sort_def split: option.split)
  assume j: "j < length (key_attributes d)"
  show "norm_entries n ! j = (key_attributes d ! j, key_value 0 k (key_attributes d ! j) j)"
  proof (cases "j < partition_width d")
    case True
    with len show ?thesis
      by (simp add: n nth_append key_attributes_def partition_width_def) (simp add: partition_def nth_retrieve_parts)
  next
    case False
    with j obtain s where s: "kd_sort d = Some s"
      by (cases "kd_sort d") (auto simp: key_attributes_def partition_width_def)
    have i: "j - partition_width d < length (kp_attributes s)"
      using j False s by (auto simp: key_attributes_def partition_width_def)
    with False len s show ?thesis
      by (simp add: n nth_append key_attributes_def partition_width_def [symmetric])
        (simp add: sort_def nth_retrieve_parts key_value_offset [of "partition_width d"])
  qed
qed

lemma key_map_normalizes:
  assumes distinct: "distinct (key_attributes d)" and n: "normalizeCompositeKey d k = Inr n"
  shows "normalizeCompositeKey d (convertNormalizedEntityKeyToMap n) = Inr n"
proof -
  have fst: "map fst (norm_entries n) = key_attributes d" by (rule norm_entries_eq [OF n])
  have "normalizeCompositeKey d (convertNormalizedEntityKeyToMap n) = normalizeCompositeKey d k"
  proof (rule normalizeCompositeKey_cong)
    fix j assume j: "j < length (key_attributes d)"
    then have at: "norm_entries n ! j = (key_attributes d ! j, key_value 0 k (key_attributes d ! j) j)"
      by (rule norm_entries_eq [OF n])
    have "j < length (norm_entries n)" using j fst by (metis length_map)
    then have "(key_attributes d ! j, key_value 0 k (key_attributes d ! j) j) \<in> set (norm_entries n)"
      by (metis at nth_mem)
    then have "map_of (norm_entries n) (key_attributes d ! j) = Some (key_value 0 k (key_attributes d ! j) j)"
      using fst distinct by (simp add: map_of_is_SomeI)
    moreover have "\<not> is_array (convertNormalizedEntityKeyToMap n)"
      by (simp add: convertNormalizedEntityKeyToMap_def from_entries_def is_array_def)
    then have "key_value 0 (convertNormalizedEntityKeyToMap n) p j = js_get (convertNormalizedEntityKeyToMap n) p" for p
      by (simp add: key_value_def)
    ultimately show "key_value 0 (convertNormalizedEntityKeyToMap n) (key_attributes d ! j) j =
        key_value 0 k (key_attributes d ! j) j"
      using fst distinct by (simp add: convertNormalizedEntityKeyToMap_def js_get_from_entries)
  qed
  with n show ?thesis by simp
qed

text \<open>
  A normalised key turned back into an object is normalised to itself. The
  transaction executor and the stores hand keys to each other in this form.
\<close>

theorem key_map_roundtrip:
  assumes "distinct (key_attributes d)" and "normalizeCompositeKey d k = Inr n"
  shows "normalizeCompositeKey d (convertNormalizedEntityKeyToMap n) = Inr n"
  by (rule key_map_normalizes [OF assms])

text \<open>
  A composite key part of several attributes is joined by \<open>#\<close>. When no value contains the
  separator it determines the values, as text; otherwise it does not.
\<close>

lemma join_hash_inject:
  assumes "length vs = length ws" and "vs \<noteq> []"
    and "\<And>v. v \<in> set vs \<union> set ws \<Longrightarrow> CHR ''#'' \<notin> set (js_to_string (or_else v (JStr '''')))"
    and "join_hash vs = join_hash ws"
  shows "map (\<lambda>v. js_to_string (or_else v (JStr ''''))) vs = map (\<lambda>v. js_to_string (or_else v (JStr ''''))) ws"
proof -
  have as_text: "(\<lambda>x. if x = JUndef \<or> x = JNull then [] else js_to_string x) = (\<lambda>v. js_to_string (or_else v (JStr '''')))"
    by (auto simp: or_else_def)
  have split: "split_on CHR ''#'' (join_with ''#'' ps) = ps"
    if "ps \<noteq> []" and "\<And>p. p \<in> set ps \<Longrightarrow> CHR ''#'' \<notin> set p" for ps
    using that
  proof (induction "''#''" ps rule: join_with.induct)
    case (3 p q ps)
    then show ?case by (simp add: split_on_sep)
  qed (simp_all add: split_on_no_sep)
  have "split_on CHR ''#'' (join_hash vs) = map (\<lambda>v. js_to_string (or_else v (JStr ''''))) vs"
    unfolding join_hash_def as_text by (rule split) (use assms(2,3) in auto)
  moreover have "split_on CHR ''#'' (join_hash ws) = map (\<lambda>v. js_to_string (or_else v (JStr ''''))) ws"
    unfolding join_hash_def as_text by (rule split) (use assms(1-3) in auto)
  ultimately show ?thesis using assms(4) by simp
qed

lemma complete_string_part:
  "kp_type p = StringKey \<Longrightarrow> isCompleteKeyPart (formatNormalizedPart p h) \<Longrightarrow>
   np_keyValue (formatNormalizedPart p h) = JStr (join_hash (map snd (retrieve_parts p h)))"
  by (auto simp: isCompleteKeyPart_def formatNormalizedPart_def part_of_parts_def Let_def)

lemma map_text_snd: "map (\<lambda>(a, v). js_to_string (or_else v (JStr ''''))) xs =
    map (\<lambda>v. js_to_string (or_else v (JStr ''''))) (map snd xs)"
  by auto

lemma join_hash_eq: "join_hash vs = join_with ''#'' (map (\<lambda>v. js_to_string (or_else v (JStr ''''))) vs)"
  unfolding join_hash_def by (rule arg_cong [of _ _ "join_with ''#''"]) (auto simp: or_else_def)

lemma key_value_determines:
  assumes type: "kp_type p = StringKey" and nonempty: "kp_attributes p \<noteq> []"
    and f: "isCompleteKeyPart (formatNormalizedPart p f)" and g: "isCompleteKeyPart (formatNormalizedPart p g)"
    and sep: "\<And>v. v \<in> snd ` (set (retrieve_parts p f) \<union> set (retrieve_parts p g)) \<Longrightarrow>
      CHR ''#'' \<notin> set (js_to_string (or_else v (JStr '''')))"
  shows "np_keyValue (formatNormalizedPart p f) = np_keyValue (formatNormalizedPart p g) \<longleftrightarrow>
      map (\<lambda>(a, v). js_to_string (or_else v (JStr ''''))) (retrieve_parts p f) =
      map (\<lambda>(a, v). js_to_string (or_else v (JStr ''''))) (retrieve_parts p g)"
  unfolding complete_string_part [OF type f] complete_string_part [OF type g] map_text_snd
proof
  assume "JStr (join_hash (map snd (retrieve_parts p f))) = JStr (join_hash (map snd (retrieve_parts p g)))"
  then have "join_hash (map snd (retrieve_parts p f)) = join_hash (map snd (retrieve_parts p g))" by simp
  moreover have "length (map snd (retrieve_parts p f)) = length (map snd (retrieve_parts p g))" by simp
  moreover have "map snd (retrieve_parts p f) \<noteq> []"
    using nonempty by (metis length_retrieve_parts length_map length_0_conv)
  moreover have "CHR ''#'' \<notin> set (js_to_string (or_else v (JStr '''')))"
    if "v \<in> set (map snd (retrieve_parts p f)) \<union> set (map snd (retrieve_parts p g))" for v
    using sep that by (simp add: image_Un)
  ultimately show "map (\<lambda>v. js_to_string (or_else v (JStr ''''))) (map snd (retrieve_parts p f)) =
      map (\<lambda>v. js_to_string (or_else v (JStr ''''))) (map snd (retrieve_parts p g))"
    by (intro join_hash_inject)
qed (simp add: join_hash_eq)

text \<open>
  The key value of a part of several attributes determines the values of the
  attributes, as text, as long as no value contains the separator \<open>#\<close>; with it, different keys
  are the same: the tuples \<open>a#b, c\<close> and \<open>a, b#c\<close>.
\<close>

theorem composite_key_identifies_values:
  assumes type: "kp_type p = StringKey" and "kp_attributes p \<noteq> []"
    and "isCompleteKeyPart (formatNormalizedPart p f)" and "isCompleteKeyPart (formatNormalizedPart p g)"
    and "\<And>v. v \<in> snd ` (set (retrieve_parts p f) \<union> set (retrieve_parts p g)) \<Longrightarrow>
      CHR ''#'' \<notin> set (js_to_string (or_else v (JStr '''')))"
  shows "(np_keyValue (formatNormalizedPart p f) = np_keyValue (formatNormalizedPart p g) \<longleftrightarrow>
        map (\<lambda>(a, v). js_to_string (or_else v (JStr ''''))) (retrieve_parts p f) =
        map (\<lambda>(a, v). js_to_string (or_else v (JStr ''''))) (retrieve_parts p g)) \<and>
    (\<forall>a b. kp_attributes p = [a, b] \<longrightarrow>
      np_keyValue (formatNormalizedPart p (\<lambda>_ i. JStr (if i = 0 then ''a#b'' else ''c''))) =
      np_keyValue (formatNormalizedPart p (\<lambda>_ i. JStr (if i = 0 then ''a'' else ''b#c''))))"
  using key_value_determines [OF assms] type
  by (simp add: formatNormalizedPart_def part_of_parts_def retrieve_parts_def missing_index_def join_hash_def)

definition typed_value :: "key_type \<Rightarrow> js \<Rightarrow> bool" where
  "typed_value t v = (case (t, v) of (NumberKey, JNum _) \<Rightarrow> True | (StringKey, JStr _) \<Rightarrow> True | _ \<Rightarrow> False)"

text \<open>A key, or the attributes of an item, that the schema admits, possibly with attributes missing.\<close>

definition key_conforms :: "(string \<Rightarrow> bool) \<Rightarrow> key_def \<Rightarrow> js \<Rightarrow> bool" where
  "key_conforms is_number d k \<longleftrightarrow>
     list_all (\<lambda>(j, a). key_value 0 k a j = JUndef \<or>
        typed_value (if is_number a then NumberKey else StringKey) (key_value 0 k a j))
       (enumerate 0 (key_attributes d))"

definition typed_part :: "norm_part \<Rightarrow> bool" where
  "typed_part n \<longleftrightarrow> (if np_keyValue n = JUndef then np_partialValue n else typed_value (kp_type (np_part n)) (np_keyValue n))"

lemma typed_part_of_parts:
  assumes part: "formatKeyDefinitionPart is_number as = Inr p"
    and parts: "map fst ps = as" and typed: "\<And>a v. (a, v) \<in> set ps \<Longrightarrow>
      v = JUndef \<or> typed_value (if is_number a then NumberKey else StringKey) v"
  shows "typed_part (part_of_parts p ps)"
proof -
  obtain a as' where as: "as = a # as'" and type: "kp_type p = (if as' = [] \<and> is_number a then NumberKey else StringKey)"
    using part by (auto simp: formatKeyDefinitionPart_def split: list.splits if_splits)
  obtain v ps' where ps: "ps = (a, v) # ps'" and as': "map fst ps' = as'" using parts as by auto
  have v: "v = JUndef \<or> typed_value (if is_number a then NumberKey else StringKey) v" using typed ps by simp
  show ?thesis
  proof (cases "v = JUndef")
    case True
    then show ?thesis by (simp add: typed_part_def part_of_parts_def ps missing_index_def)
  next
    case False
    then have "missing_index ps \<noteq> Some 0" by (simp add: ps missing_index_def)
    moreover have "typed_value NumberKey v" if "kp_type p = NumberKey" using that v False type by (auto split: if_splits)
    moreover have "typed_value StringKey (JStr s)" for s by (simp add: typed_value_def)
    ultimately show ?thesis using False
      by (cases "kp_type p") (auto simp: typed_part_def part_of_parts_def Let_def ps first_value_def)
  qed
qed

text \<open>
  C21 (type): for attributes the schema admits, normalisation never throws, and the value of a
  key part is a number exactly when the part is one numeric attribute, otherwise a string; only
  a partial key has no value.
\<close>

theorem normalized_key_is_typed:
  assumes d: "computeKeyDefinition is_number partitionKey sortKey = Inr d" and k: "key_conforms is_number d k"
  shows "\<exists>n. normalizeCompositeKey d k = Inr n \<and> typed_part (nk_partition n) \<and>
    (case nk_sort n of None \<Rightarrow> sortKey = None | Some m \<Rightarrow> sortKey \<noteq> None \<and> typed_part m)"
proof -
  obtain p where p: "formatKeyDefinitionPart is_number partitionKey = Inr p" and dp: "kd_partition d = p"
    and ds: "case sortKey of None \<Rightarrow> kd_sort d = None
       | Some s \<Rightarrow> \<exists>s'. formatKeyDefinitionPart is_number s = Inr s' \<and> kd_sort d = Some s'"
    using d by (auto simp: computeKeyDefinition_def try_bind_Inr split: option.splits)
  have attrs: "kp_attributes q = as" if "formatKeyDefinitionPart is_number as = Inr q" for as q
    using that by (auto simp: formatKeyDefinitionPart_def split: list.splits if_splits)
  have conforms: "key_value 0 k (key_attributes d ! j) j = JUndef \<or>
      typed_value (if is_number (key_attributes d ! j) then NumberKey else StringKey) (key_value 0 k (key_attributes d ! j) j)"
    if "j < length (key_attributes d)" for j
    using k that unfolding key_conforms_def list_all_length by (simp add: enumerate_eq_zip)
  have partition: "v = JUndef \<or> typed_value (if is_number a then NumberKey else StringKey) v"
    if av: "(a, v) \<in> set (retrieve_parts p (key_value 0 k))" for a v
  proof -
    obtain i where "i < length (kp_attributes p)" and "(a, v) = (kp_attributes p ! i, key_value 0 k (kp_attributes p ! i) i)"
      using av by (metis in_set_conv_nth length_retrieve_parts nth_retrieve_parts)
    with conforms [of i] show ?thesis by (simp add: key_attributes_def nth_append dp)
  qed
  have sort: "v = JUndef \<or> typed_value (if is_number a then NumberKey else StringKey) v"
    if "kd_sort d = Some s" and av: "(a, v) \<in> set (retrieve_parts s (key_value (partition_width d) k))" for a v s
  proof -
    obtain i where "i < length (kp_attributes s)"
      and "(a, v) = (kp_attributes s ! i, key_value (partition_width d) k (kp_attributes s ! i) i)"
      using av by (metis in_set_conv_nth length_retrieve_parts nth_retrieve_parts)
    with conforms [of "partition_width d + i"] that(1) show ?thesis
      by (simp add: key_attributes_def nth_append partition_width_def key_value_offset [of "length (kp_attributes _)"])
  qed
  have "\<not> typeof_object v" if "(a, v) \<in> set (retrieve_parts p (key_value 0 k))" for a v
    using partition [OF that] by (auto simp: typeof_object_def typed_value_def split: js.splits key_type.splits)
  then have "List.find (\<lambda>(p, v). typeof_object v) (retrieve_parts p (key_value 0 k)) = None"
    by (auto simp: find_None_iff)
  then show ?thesis
    using ds typed_part_of_parts [OF p _ partition] attrs [OF p] sort
      typed_part_of_parts [of is_number "the sortKey" _ "retrieve_parts _ (key_value (partition_width d) k)"] attrs
    by (auto simp: normalizeCompositeKey_parts dp split: option.splits)
qed
section \<open>A sample entity\<close>

definition sample_key_def :: key_def where
  "sample_key_def =
     \<lparr>kd_partition = \<lparr>kp_type = StringKey, kp_attributes = [''org'', ''user''], kp_keyAttribute = ''org|user''\<rparr>,
      kd_sort = Some \<lparr>kp_type = NumberKey, kp_attributes = [''n''], kp_keyAttribute = ''n''\<rparr>\<rparr>"

lemma tuple_key_is_map_key_witness:
  "normalizeCompositeKey sample_key_def (JArr [JStr ''a'', JStr ''b'', JNum 7]) =
   normalizeCompositeKey sample_key_def (JObj [(''org'', JStr ''a''), (''user'', JStr ''b''), (''n'', JNum 7)])"
  using tuple_key_is_map_key [of sample_key_def "[JStr ''a'', JStr ''b'', JNum 7]"]
  by (simp add: sample_key_def_def key_attributes_def)

lemma key_map_roundtrip_witness:
  "\<exists>n. normalizeCompositeKey sample_key_def (JArr [JStr ''a'', JStr ''b'', JNum 7]) = Inr n \<and>
     np_keyValue (nk_partition n) = JStr ''a#b'' \<and>
     normalizeCompositeKey sample_key_def (convertNormalizedEntityKeyToMap n) = Inr n"
proof -
  have "distinct (key_attributes sample_key_def)" by (simp add: sample_key_def_def key_attributes_def)
  moreover obtain n where n: "normalizeCompositeKey sample_key_def (JArr [JStr ''a'', JStr ''b'', JNum 7]) = Inr n"
    "np_keyValue (nk_partition n) = JStr ''a#b''"
    by (simp add: sample_key_def_def normalizeCompositeKey_parts retrieve_parts_def key_value_def is_array_def
        js_at_def typeof_object_def part_of_parts_def missing_index_def join_hash_def partition_width_def)
  ultimately show ?thesis using key_map_roundtrip by blast
qed

lemma composite_key_identifies_values_witness:
  "np_keyValue (formatNormalizedPart (kd_partition sample_key_def) (\<lambda>a i. JStr a)) \<noteq>
   np_keyValue (formatNormalizedPart (kd_partition sample_key_def) (\<lambda>a i. JNum (int i)))"
  using composite_key_identifies_values [of "kd_partition sample_key_def" "\<lambda>a i. JStr a" "\<lambda>a i. JNum (int i)"]
    int_str_of_nat [of 0] int_str_of_nat [of 1]
  by (auto simp: sample_key_def_def isCompleteKeyPart_def formatNormalizedPart_def part_of_parts_def
      retrieve_parts_def missing_index_def or_else_def nat_str_eval join_hash_def)

lemma normalized_key_is_typed_witness:
  "computeKeyDefinition (\<lambda>a. a = ''n'') [''org'', ''user''] (Some [''n'']) = Inr sample_key_def \<and>
   (\<exists>n. normalizeCompositeKey sample_key_def (JArr [JStr ''a'', JStr ''b'', JNum 7]) = Inr n \<and>
     typed_part (nk_partition n))"
proof -
  have d: "computeKeyDefinition (\<lambda>a. a = ''n'') [''org'', ''user''] (Some [''n'']) = Inr sample_key_def"
    by code_simp
  moreover have "key_conforms (\<lambda>a. a = ''n'') sample_key_def (JArr [JStr ''a'', JStr ''b'', JNum 7])"
    by code_simp
  ultimately show ?thesis using normalized_key_is_typed by blast
qed

end
