(* ===== verification/Pagination.thy ===== *)
theory Pagination
  imports Actions Base64
begin

text \<open>
  core-runtime/src/local/stores/pagination.ts: sorting, filtering and slicing the items of a
  store into pages. A page token is the base64 text of the JSON of the index of the next item.
  \<open>Array.prototype.sort\<close> is stable; a comparison is a number, of which the sign counts.
\<close>

section \<open>Tokens\<close>

definition token_prefix :: string where
  "token_prefix = ''{'' @ [CHR 0x22] @ ''index'' @ [CHR 0x22] @ '':''"

definition serializeToken :: "nat \<Rightarrow> string" where
  "serializeToken index = b64_encode (token_prefix @ nat_str index @ ''}'')"

text \<open>\<open>JSON.parse\<close> of the token, for the tokens there are; any other text is a syntax error.\<close>

definition deserializeToken :: "string \<Rightarrow> js + nat" where
  "deserializeToken token =
     (let payload = b64_decode token;
          digits = butlast (drop (length token_prefix) payload)
      in if take (length token_prefix) payload = token_prefix \<and> digits \<noteq> [] \<and> last payload = CHR ''}''
            \<and> set digits \<subseteq> set ''0123456789''
         then Inr (str_nat digits)
         else Inl (JErr EError ''SyntaxError'' ''Unexpected token in JSON''))"

lemma deserializeToken_serializeToken [simp]: "deserializeToken (serializeToken n) = Inr n"
  using set_nat_str [of n]
  by (simp add: deserializeToken_def serializeToken_def Let_def butlast_append last_append str_nat_nat_str)

section \<open>Sorting\<close>

fun insert_by :: "('a \<Rightarrow> 'a \<Rightarrow> int) \<Rightarrow> 'a \<Rightarrow> 'a list \<Rightarrow> 'a list" where
  "insert_by cmp x [] = [x]"
| "insert_by cmp x (y # ys) = (if cmp x y \<le> 0 then x # y # ys else y # insert_by cmp x ys)"

definition sort_by :: "('a \<Rightarrow> 'a \<Rightarrow> int) \<Rightarrow> 'a list \<Rightarrow> 'a list" where
  "sort_by cmp xs = foldr (insert_by cmp) xs []"

lemma set_insert_by [simp]: "set (insert_by cmp x ys) = insert x (set ys)"
  by (induction cmp x ys rule: insert_by.induct) auto

lemma length_insert_by [simp]: "length (insert_by cmp x ys) = Suc (length ys)"
  by (induction cmp x ys rule: insert_by.induct) auto

lemma sort_by_simps [simp]:
  "sort_by cmp [] = []" "sort_by cmp (x # xs) = insert_by cmp x (sort_by cmp xs)"
  by (simp_all add: sort_by_def)

lemma set_sort_by [simp]: "set (sort_by cmp xs) = set xs"
  by (induction xs) simp_all

lemma length_sort_by [simp]: "length (sort_by cmp xs) = length xs"
  by (induction xs) simp_all

lemma distinct_insert_by: "distinct (insert_by cmp x ys) \<longleftrightarrow> x \<notin> set ys \<and> distinct ys"
  by (induction ys) auto

lemma distinct_sort_by [simp]: "distinct (sort_by cmp xs) \<longleftrightarrow> distinct xs"
  by (induction xs) (auto simp: distinct_insert_by)

text \<open>The order of a comparison that is consistent on the items.\<close>

definition comparison_on :: "'a set \<Rightarrow> ('a \<Rightarrow> 'a \<Rightarrow> int) \<Rightarrow> bool" where
  "comparison_on A cmp \<longleftrightarrow>
     (\<forall>x \<in> A. \<forall>y \<in> A. cmp x y \<le> 0 \<or> cmp y x \<le> 0) \<and>
     (\<forall>x \<in> A. \<forall>y \<in> A. \<forall>z \<in> A. cmp x y \<le> 0 \<longrightarrow> cmp y z \<le> 0 \<longrightarrow> cmp x z \<le> 0)"

lemma comparison_total: "comparison_on A cmp \<Longrightarrow> x \<in> A \<Longrightarrow> y \<in> A \<Longrightarrow> cmp x y \<le> 0 \<or> cmp y x \<le> 0"
  unfolding comparison_on_def by blast

lemma comparison_trans:
  "comparison_on A cmp \<Longrightarrow> x \<in> A \<Longrightarrow> y \<in> A \<Longrightarrow> z \<in> A \<Longrightarrow> cmp x y \<le> 0 \<Longrightarrow> cmp y z \<le> 0 \<Longrightarrow> cmp x z \<le> 0"
  unfolding comparison_on_def by blast

lemma comparison_on_subset: "comparison_on A cmp \<Longrightarrow> B \<subseteq> A \<Longrightarrow> comparison_on B cmp"
  unfolding comparison_on_def by (meson subsetD)

lemma sorted_insert_by:
  assumes "comparison_on (insert x (set ys)) cmp" and "sorted_wrt (\<lambda>a b. cmp a b \<le> 0) ys"
  shows "sorted_wrt (\<lambda>a b. cmp a b \<le> 0) (insert_by cmp x ys)"
  using assms
proof (induction cmp x ys rule: insert_by.induct)
  case (1 cmp x)
  then show ?case by simp
next
  case (2 cmp x y ys)
  show ?case
  proof (cases "cmp x y \<le> 0")
    case True
    have "cmp x z \<le> 0" if "z \<in> set ys" for z
      using comparison_trans [OF 2(2), of x y z] 2(3) True that by simp
    with True 2(3) show ?thesis by auto
  next
    case False
    then have "cmp y x \<le> 0" using comparison_total [OF 2(2), of x y] by simp
    moreover have "comparison_on (insert x (set ys)) cmp" by (rule comparison_on_subset [OF 2(2)]) auto
    ultimately show ?thesis using False 2 by auto
  qed
qed

lemma sorted_sort_by: "comparison_on (set xs) cmp \<Longrightarrow> sorted_wrt (\<lambda>a b. cmp a b \<le> 0) (sort_by cmp xs)"
proof (induction xs)
  case Nil
  then show ?case by simp
next
  case (Cons x xs)
  have "comparison_on (set xs) cmp" by (rule comparison_on_subset [OF Cons.prems]) auto
  then have "sorted_wrt (\<lambda>a b. cmp a b \<le> 0) (sort_by cmp xs)" by (rule Cons.IH)
  then show ?case using Cons.prems by (simp add: sorted_insert_by)
qed

section \<open>Pages\<close>

datatype direction = ASC | DESC

record 'a page =
  pg_items :: "'a list"
  pg_filteredCount :: nat
  pg_nextToken :: "string option"

definition arranged ::
  "'a list \<Rightarrow> ('a \<Rightarrow> 'a \<Rightarrow> int) option \<Rightarrow> ('a \<Rightarrow> bool) option \<Rightarrow> direction option \<Rightarrow> 'a list" where
  "arranged items sort_fn filter_fn dir =
     (let sortedItems = (case sort_fn of
            None \<Rightarrow> items
          | Some f \<Rightarrow> sort_by (\<lambda>a b. if dir = Some DESC then - f a b else f a b) items)
      in case filter_fn of None \<Rightarrow> sortedItems | Some p \<Rightarrow> filter p sortedItems)"

text \<open>A limit of 0 and an empty token are none.\<close>

definition paginateItems ::
  "'a list \<Rightarrow> ('a \<Rightarrow> 'a \<Rightarrow> int) option \<Rightarrow> ('a \<Rightarrow> bool) option \<Rightarrow> direction option \<Rightarrow> nat option \<Rightarrow>
   string option \<Rightarrow> js + 'a page" where
  "paginateItems items sort_fn filter_fn dir limit nextToken =
     try_bind (if nextToken = None \<or> nextToken = Some [] then Inr 0 else deserializeToken (the nextToken)) (\<lambda>start.
       let filtered = arranged items sort_fn filter_fn dir;
           rangeItems = (if limit = None \<or> limit = Some 0 then drop start filtered
                         else take (the limit) (drop start filtered))
       in Inr \<lparr>pg_items = rangeItems, pg_filteredCount = length filtered,
            pg_nextToken =
              (if start + length rangeItems < length filtered
               then Some (serializeToken (start + length rangeItems)) else None)\<rparr>)"

text \<open>
  What a client does to read everything: it asks for the next page until there is no token.
  \<open>None\<close> is running out of fuel.
\<close>

fun read_pages :: "nat \<Rightarrow> (string option \<Rightarrow> js + 'a page) \<Rightarrow> string option \<Rightarrow> (js + 'a page list) option" where
  "read_pages 0 ask token = None"
| "read_pages (Suc fuel) ask token =
     (case ask token of
        Inl err \<Rightarrow> Some (Inl err)
      | Inr p \<Rightarrow>
          (case pg_nextToken p of
             None \<Rightarrow> Some (Inr [p])
           | Some t \<Rightarrow>
               (case read_pages fuel ask (Some t) of
                  None \<Rightarrow> None
                | Some (Inl err) \<Rightarrow> Some (Inl err)
                | Some (Inr ps) \<Rightarrow> Some (Inr (p # ps)))))"

lemma serializeToken_nonempty [simp]: "serializeToken n \<noteq> []"
  by (simp add: serializeToken_def token_prefix_def Let_def)

lemma paginate_at:
  fixes items :: "'a list"
  assumes token: "token = (if start = 0 then None else Some (serializeToken start))"
    and start: "start \<le> length (arranged items sort_fn filter_fn dir)"
    and fuel: "length (arranged items sort_fn filter_fn dir) - start < fuel"
    and limit: "limit \<noteq> Some 0"
  shows "\<exists>ps. read_pages fuel (paginateItems items sort_fn filter_fn dir limit) token = Some (Inr ps) \<and>
    concat (map pg_items ps) = drop start (arranged items sort_fn filter_fn dir) \<and>
    (\<forall>p \<in> set ps. (\<forall>l. limit = Some l \<longrightarrow> length (pg_items p) \<le> l) \<and>
       pg_filteredCount p = length (arranged items sort_fn filter_fn dir))"
  using assms
proof (induction fuel arbitrary: start token)
  case 0
  then show ?case by simp
next
  case (Suc fuel)
  define xs where "xs = arranged items sort_fn filter_fn dir"
  define page where "page = (if limit = None then drop start xs else take (the limit) (drop start xs))"
  have ask: "paginateItems items sort_fn filter_fn dir limit token =
      Inr \<lparr>pg_items = page, pg_filteredCount = length xs,
        pg_nextToken = (if start + length page < length xs then Some (serializeToken (start + length page)) else None)\<rparr>"
    using Suc.prems(1,2,4) unfolding xs_def [symmetric]
    by (cases "start = 0"; cases limit) (simp_all add: paginateItems_def xs_def [symmetric] page_def Let_def)
  show ?case
  proof (cases "start + length page < length xs")
    case False
    then have "page = drop start xs" by (auto simp: page_def split: if_splits)
    with ask False Suc.prems show ?thesis by (auto simp: xs_def [symmetric] page_def split: if_splits)
  next
    case True
    then have limited: "limit \<noteq> None" "page = take (the limit) (drop start xs)" by (auto simp: page_def split: if_splits)
    moreover have "the limit > 0" using Suc.prems(4) limited(1) by (cases limit) auto
    ultimately have "0 < length page" using True by simp
    with True Suc.prems(3) have "length xs - (start + length page) < fuel"
      unfolding xs_def [symmetric] by linarith
    then obtain ps where
      ps: "read_pages fuel (paginateItems items sort_fn filter_fn dir limit) (Some (serializeToken (start + length page))) = Some (Inr ps)"
        "concat (map pg_items ps) = drop (start + length page) xs"
        "\<forall>p \<in> set ps. (\<forall>l. limit = Some l \<longrightarrow> length (pg_items p) \<le> l) \<and> pg_filteredCount p = length xs"
      using Suc.IH [of "Some (serializeToken (start + length page))" "start + length page"] True Suc.prems(4)
        \<open>0 < length page\<close> by (auto simp: xs_def [symmetric])
    have "page @ drop (start + length page) xs = drop start xs"
      using limited(2) True by (metis add.commute append_take_drop_id drop_drop length_take min.absorb_iff2
          nat_le_linear take_all take_all_iff)
    with ps ask True limited show ?thesis by (auto simp: xs_def [symmetric])
  qed
qed

text \<open>
  Reading page after page ends, after at most one page more than there are
  items, and gives every item of the arranged list once and in order, at most \<open>limit\<close> on a page.
\<close>

theorem pages_cover_items:
  assumes "limit \<noteq> Some 0"
  shows "\<exists>ps. read_pages (Suc (length items)) (paginateItems items sort_fn filter_fn dir limit) None = Some (Inr ps) \<and>
    concat (map pg_items ps) = arranged items sort_fn filter_fn dir \<and>
    (\<forall>p \<in> set ps. \<forall>l. limit = Some l \<longrightarrow> length (pg_items p) \<le> l)"
proof -
  have "length (arranged items sort_fn filter_fn dir) \<le> length items"
    by (auto simp: arranged_def Let_def le_trans [OF length_filter_le] split: option.split)
  then show ?thesis
    using paginate_at [of None 0 items sort_fn filter_fn dir "Suc (length items)" limit] assms by fastforce
qed

lemma pages_cover_items_witness:
  "\<exists>ps. read_pages 4 (paginateItems [3, 1, 2 :: int] (Some (\<lambda>a b. a - b)) None (Some DESC) (Some 2)) None = Some (Inr ps) \<and>
    concat (map pg_items ps) = [3, 2, 1]"
  using pages_cover_items [of "Some 2" "[3, 1, 2 :: int]" "Some (\<lambda>a b. a - b)" None "Some DESC"]
  by (auto simp: arranged_def eval_nat_numeral)

end
