(* ===== verification/LocalEntityStore.thy ===== *)
theory LocalEntityStore
  imports EntityKeys Pagination
begin

text \<open>
  The entity store of the local runtime: core-runtime/src/local/stores/entity-store.ts, with the
  operations of its base class in core-runtime/src/stores/entity-store.ts, which look up the
  entity and normalise the key.

  A table is a map of partitions and a partition a map of items, both in order of insertion, as
  the \<open>Map\<close>s of the code; an index is a table whose items are found under a text made of
  their table key. Reading creates the maps that are missing. An index is used with the name of
  the entity it was defined on. Stream events are what the store pushes to the local runtime
  (\<open>pushWorkflowTask\<close>). \<open>localeCompare\<close> of strings, which depends on the locale, is a parameter.
\<close>

section \<open>State\<close>

record entity_item =
  em_value :: js
  em_version :: int

type_synonym table_partition = "(js, entity_item) omap"

type_synonym table_map = "(js, table_partition) omap"

record local_entity =
  le_data :: table_map
  le_indices :: "(string, table_map) omap"

datatype stream_operation = StreamInsert | StreamModify | StreamRemove

record stream_item =
  si_entityName :: string
  si_key :: js
  si_operation :: stream_operation
  si_newValue :: js
  si_newVersion :: "int option"
  si_oldValue :: js
  si_oldVersion :: int

record local_store =
  ls_entities :: "(string, local_entity) omap"
  ls_tasks :: "stream_item list"

definition empty_local_entity :: local_entity where
  "empty_local_entity = \<lparr>le_data = [], le_indices = []\<rparr>"

definition empty_local_store :: local_store where
  "empty_local_store = \<lparr>ls_entities = [], ls_tasks = []\<rparr>"

datatype entity_or_index = TheEntity entity | TheIndex string entity_index

section \<open>Reaching tables and partitions\<close>

definition local_entity_of :: "local_store \<Rightarrow> string \<Rightarrow> local_entity" where
  "local_entity_of st name = the_default empty_local_entity (om_get (ls_entities st) name)"

definition put_local_entity :: "string \<Rightarrow> local_entity \<Rightarrow> local_store \<Rightarrow> local_store" where
  "put_local_entity name e st = st\<lparr>ls_entities := om_set name e (ls_entities st)\<rparr>"

definition table_of :: "local_store \<Rightarrow> entity_or_index \<Rightarrow> table_map" where
  "table_of st eoi =
     (case eoi of
        TheEntity entity \<Rightarrow> le_data (local_entity_of st (en_name entity))
      | TheIndex name index \<Rightarrow> the_default [] (om_get (le_indices (local_entity_of st name)) (ix_name index)))"

definition put_table :: "entity_or_index \<Rightarrow> table_map \<Rightarrow> local_store \<Rightarrow> local_store" where
  "put_table eoi tm st =
     (case eoi of
        TheEntity entity \<Rightarrow>
          put_local_entity (en_name entity) ((local_entity_of st (en_name entity))\<lparr>le_data := tm\<rparr>) st
      | TheIndex name index \<Rightarrow>
          (let e = local_entity_of st name
           in put_local_entity name (e\<lparr>le_indices := om_set (ix_name index) tm (le_indices e)\<rparr>) st))"

text \<open>\<open>getLocalEntityStore\<close> creates the entity and the table if they do not exist.\<close>

definition getLocalEntityStore :: "entity_or_index \<Rightarrow> local_store \<Rightarrow> local_store \<times> table_map" where
  "getLocalEntityStore eoi st = (put_table eoi (table_of st eoi) st, table_of st eoi)"

definition getPartitionMap :: "entity_or_index \<Rightarrow> norm_part \<Rightarrow> local_store \<Rightarrow> local_store \<times> table_partition" where
  "getPartitionMap eoi partitionKey st =
     (case getLocalEntityStore eoi st of
        (st', table) \<Rightarrow>
          (case om_get table (np_keyValue partitionKey) of
             Some partitionMap \<Rightarrow> (st', partitionMap)
           | None \<Rightarrow> (put_table eoi (om_set (np_keyValue partitionKey) [] table) st', [])))"

section \<open>Entries of a table\<close>

definition skOrDefault :: "norm_key \<Rightarrow> js" where
  "skOrDefault key = or_else (sort_value key) (JStr ''default'')"

definition computeUniqueTableIdentifier :: "norm_key \<Rightarrow> js" where
  "computeUniqueTableIdentifier tableKey =
     JStr (js_to_string (np_keyValue (nk_partition tableKey)) @ ''#''
       @ js_to_string (or_else (sort_value tableKey) (JStr '''')))"

definition partition_value :: "norm_key \<Rightarrow> js" where
  "partition_value key = np_keyValue (nk_partition key)"

definition getPartitionEntry :: "table_map \<Rightarrow> norm_key \<Rightarrow> entity_item option" where
  "getPartitionEntry store key =
     (case om_get store (partition_value key) of
        Some partitionMap \<Rightarrow> om_get partitionMap (skOrDefault key)
      | None \<Rightarrow> None)"

definition set_entry :: "js \<Rightarrow> js \<Rightarrow> entity_item \<Rightarrow> table_map \<Rightarrow> table_map" where
  "set_entry pk k v store = om_set pk (om_set k v (the_default [] (om_get store pk))) store"

definition delete_entry :: "js \<Rightarrow> js \<Rightarrow> table_map \<Rightarrow> table_map \<times> bool" where
  "delete_entry pk k store =
     (case om_get store pk of
        Some partitionMap \<Rightarrow> (om_set pk (om_del k partitionMap) store, om_has partitionMap k)
      | None \<Rightarrow> (store, False))"

definition updatePartitionEntry :: "table_map \<Rightarrow> norm_key \<Rightarrow> entity_item \<Rightarrow> table_map" where
  "updatePartitionEntry store key v = set_entry (partition_value key) (skOrDefault key) v store"

definition updateIndexPartitionEntry :: "table_map \<Rightarrow> norm_key \<Rightarrow> norm_key \<Rightarrow> entity_item \<Rightarrow> table_map" where
  "updateIndexPartitionEntry store tableKey indexKey v =
     set_entry (partition_value indexKey) (computeUniqueTableIdentifier tableKey) v store"

definition deletePartitionEntry :: "table_map \<Rightarrow> norm_key \<Rightarrow> table_map \<times> bool" where
  "deletePartitionEntry store key = delete_entry (partition_value key) (skOrDefault key) store"

definition deleteIndexPartitionEntry :: "table_map \<Rightarrow> norm_key \<Rightarrow> norm_key \<Rightarrow> table_map \<times> bool" where
  "deleteIndexPartitionEntry store tableKey oldKey =
     delete_entry (partition_value oldKey) (computeUniqueTableIdentifier tableKey) store"

section \<open>Changing an item and its indices\<close>

definition set_index_entry :: "string \<Rightarrow> norm_key \<Rightarrow> entity_item option \<Rightarrow> entity_item \<Rightarrow> entity_index \<Rightarrow> (local_store, unit) act" where
  "set_index_entry name key oldValue v i st =
     (case getLocalEntityStore (TheIndex name i) st of
        (st', localIndex) \<Rightarrow>
          act_bind (act_lift (normalizeCompositeKey (ix_key i) (em_value v))) (\<lambda>normalizedKey.
          act_bind
            (case oldValue of
               None \<Rightarrow> act_return localIndex
             | Some old \<Rightarrow>
                 act_bind (act_lift (normalizeCompositeKey (ix_key i) (em_value old))) (\<lambda>oldKey.
                   act_return (if isCompleteKey oldKey
                     then fst (deleteIndexPartitionEntry localIndex key oldKey) else localIndex)))
            (\<lambda>localIndex'.
               act_modify (put_table (TheIndex name i)
                 (if isCompleteKey normalizedKey
                  then updateIndexPartitionEntry localIndex' key normalizedKey v else localIndex')))) st')"

definition setLocalEntity :: "entity \<Rightarrow> norm_key \<Rightarrow> entity_item \<Rightarrow> (local_store, unit) act" where
  "setLocalEntity entity key v st =
     (let data = le_data (local_entity_of st (en_name entity));
          oldValue = getPartitionEntry data key
      in act_forEach (set_index_entry (en_name entity) key oldValue v) (en_indices entity)
           (put_table (TheEntity entity) (updatePartitionEntry data key v) st))"

definition delete_index_entry :: "string \<Rightarrow> norm_key \<Rightarrow> entity_item \<Rightarrow> entity_index \<Rightarrow> (local_store, unit) act" where
  "delete_index_entry name key v i st =
     (case getLocalEntityStore (TheIndex name i) st of
        (st', localIndex) \<Rightarrow>
          act_bind (act_lift (normalizeCompositeKey (ix_key i) (em_value v))) (\<lambda>normalizedKey.
            act_modify (put_table (TheIndex name i)
              (if isCompleteKey normalizedKey
               then fst (deleteIndexPartitionEntry localIndex key normalizedKey) else localIndex))) st')"

definition deleteLocalEntity :: "entity \<Rightarrow> norm_key \<Rightarrow> (local_store, bool) act" where
  "deleteLocalEntity entity key st =
     (let data = le_data (local_entity_of st (en_name entity))
      in case getPartitionEntry data key of
           None \<Rightarrow> (st, Inr False)
         | Some v \<Rightarrow>
             (case deletePartitionEntry data key of
                (data', deleted) \<Rightarrow>
                  act_bind (act_forEach (delete_index_entry (en_name entity) key v) (en_indices entity))
                    (\<lambda>_. act_return deleted) (put_table (TheEntity entity) data' st)))"

section \<open>Operations on one item\<close>

record put_options =
  po_expectedVersion :: "int option"
  po_incrementVersion :: "bool option"

definition no_options :: put_options where
  "no_options = \<lparr>po_expectedVersion = None, po_incrementVersion = None\<rparr>"

definition pushWorkflowTask :: "stream_item \<Rightarrow> local_store \<Rightarrow> local_store" where
  "pushWorkflowTask item st = st\<lparr>ls_tasks := ls_tasks st @ [item]\<rparr>"

definition getWithMetadataSync :: "entity \<Rightarrow> norm_key \<Rightarrow> local_store \<Rightarrow> local_store \<times> entity_item option" where
  "getWithMetadataSync entity key st =
     (case getPartitionMap (TheEntity entity) (nk_partition key) st of
        (st', partitionMap) \<Rightarrow> (st', om_get partitionMap (skOrDefault key)))"

definition putSync :: "entity \<Rightarrow> js \<Rightarrow> norm_key \<Rightarrow> put_options \<Rightarrow> (local_store, int) act" where
  "putSync entity v key options st =
     (case getWithMetadataSync entity key st of
        (st', old) \<Rightarrow>
          (let version = (case old of None \<Rightarrow> 0 | Some i \<Rightarrow> em_version i);
               oldValue = (case old of None \<Rightarrow> JUndef | Some i \<Rightarrow> em_value i)
           in if po_expectedVersion options \<noteq> None \<and> po_expectedVersion options \<noteq> Some version
              then act_throw (mk_UnexpectedVersion (''Expected entity to be of version ''
                @ int_str (the (po_expectedVersion options)) @ '' but found '' @ int_str version)) st'
              else
                (let newVersion = (if po_incrementVersion options = Some False then version else version + 1)
                 in act_bind (setLocalEntity entity key \<lparr>em_value = v, em_version = newVersion\<rparr>) (\<lambda>_.
                    act_bind (act_modify (pushWorkflowTask
                      \<lparr>si_entityName = en_name entity, si_key = convertNormalizedEntityKeyToMap key,
                       si_operation = (if version = 0 then StreamInsert else StreamModify),
                       si_newValue = v, si_newVersion = Some newVersion,
                       si_oldValue = oldValue, si_oldVersion = version\<rparr>)) (\<lambda>_.
                    act_return newVersion)) st')))"

definition deleteSync :: "entity \<Rightarrow> norm_key \<Rightarrow> int option \<Rightarrow> (local_store, unit) act" where
  "deleteSync entity key expectedVersion st =
     (case getWithMetadataSync entity key st of
        (st', None) \<Rightarrow> (st', Inr ())
      | (st', Some item) \<Rightarrow>
          if expectedVersion \<noteq> None \<and> expectedVersion \<noteq> Some (em_version item)
          then act_throw (mk_UnexpectedVersion ''Unexpected Version'') st'
          else act_bind (deleteLocalEntity entity key) (\<lambda>deleted.
            if deleted then act_modify (pushWorkflowTask
              \<lparr>si_entityName = en_name entity, si_key = convertNormalizedEntityKeyToMap key,
               si_operation = StreamRemove, si_newValue = JUndef, si_newVersion = None,
               si_oldValue = em_value item, si_oldVersion = em_version item\<rparr>)
            else act_return ()) st')"

section \<open>The operations of \<open>EntityStore\<close>\<close>

text \<open>The entity provider is a parameter.\<close>

type_synonym entity_provider = "string \<Rightarrow> entity option"

definition getEntity :: "entity_provider \<Rightarrow> string \<Rightarrow> js + entity" where
  "getEntity provider name =
     (case provider name of
        None \<Rightarrow> Inl (mk_Error (''Entity '' @ name @ '' was not found.''))
      | Some entity \<Rightarrow> Inr entity)"

definition entity_and_key :: "entity_provider \<Rightarrow> string \<Rightarrow> js \<Rightarrow> string \<Rightarrow> js + entity \<times> norm_key" where
  "entity_and_key provider entityName key partial_message =
     try_bind (getEntity provider entityName) (\<lambda>entity.
     try_bind (normalizeCompositeKey (en_key entity) key) (\<lambda>normalizedKey.
       if isCompleteKey normalizedKey then Inr (entity, normalizedKey) else Inl (mk_Error partial_message)))"

definition getWithMetadata :: "entity_provider \<Rightarrow> string \<Rightarrow> js \<Rightarrow> (local_store, entity_item option) act" where
  "getWithMetadata provider entityName key =
     act_bind (act_lift (entity_and_key provider entityName key ''Key cannot be partial for get or getWithMetadata.''))
       (\<lambda>(entity, normalizedKey) st.
          case getWithMetadataSync entity normalizedKey st of (st', r) \<Rightarrow> (st', Inr r))"

definition get_value :: "entity_provider \<Rightarrow> string \<Rightarrow> js \<Rightarrow> (local_store, js) act" where
  "get_value provider entityName key =
     act_bind (getWithMetadata provider entityName key)
       (\<lambda>r. act_return (case r of None \<Rightarrow> JUndef | Some i \<Rightarrow> em_value i))"

definition put :: "entity_provider \<Rightarrow> string \<Rightarrow> js \<Rightarrow> put_options \<Rightarrow> (local_store, int) act" where
  "put provider entityName v options =
     act_bind (act_lift (entity_and_key provider entityName v ''Key cannot be partial for set.''))
       (\<lambda>(entity, normalizedKey). putSync entity v normalizedKey options)"

definition delete :: "entity_provider \<Rightarrow> string \<Rightarrow> js \<Rightarrow> int option \<Rightarrow> (local_store, unit) act" where
  "delete provider entityName key expectedVersion =
     act_bind (act_lift (entity_and_key provider entityName key ''Key cannot be partial for delete.''))
       (\<lambda>(entity, normalizedKey). deleteSync entity normalizedKey expectedVersion)"

section \<open>Transactional writes\<close>

datatype transact_item =
    TransactPut string js put_options
  | TransactDelete string js "int option"
  | TransactCondition string js "int option"

datatype norm_transact_item =
    NormPut entity norm_key js put_options
  | NormDelete entity norm_key "int option"
  | NormCondition entity norm_key "int option"

definition normalize_item :: "entity_provider \<Rightarrow> transact_item \<Rightarrow> js + norm_transact_item" where
  "normalize_item provider item =
     (let message = ''Entity key cannot be partial for set, delete, or condition operations.''
      in case item of
           TransactPut name v options \<Rightarrow>
             try_bind (entity_and_key provider name v message) (\<lambda>(e, k). Inr (NormPut e k v options))
         | TransactDelete name key options \<Rightarrow>
             try_bind (entity_and_key provider name key message) (\<lambda>(e, k). Inr (NormDelete e k options))
         | TransactCondition name key version \<Rightarrow>
             try_bind (entity_and_key provider name key message) (\<lambda>(e, k). Inr (NormCondition e k version)))"

fun item_entity :: "norm_transact_item \<Rightarrow> entity" where
  "item_entity (NormPut e k v options) = e"
| "item_entity (NormDelete e k options) = e"
| "item_entity (NormCondition e k version) = e"

fun item_key :: "norm_transact_item \<Rightarrow> norm_key" where
  "item_key (NormPut e k v options) = k"
| "item_key (NormDelete e k options) = k"
| "item_key (NormCondition e k version) = k"

fun item_expectedVersion :: "norm_transact_item \<Rightarrow> int option" where
  "item_expectedVersion (NormPut e k v options) = po_expectedVersion options"
| "item_expectedVersion (NormDelete e k options) = options"
| "item_expectedVersion (NormCondition e k version) = version"

definition check_item :: "norm_transact_item \<Rightarrow> local_store \<Rightarrow> local_store \<times> bool" where
  "check_item item st =
     (case item_expectedVersion item of
        None \<Rightarrow> (st, True)
      | Some expectedVersion \<Rightarrow>
          (case getWithMetadataSync (item_entity item) (item_key item) st of
             (st', r) \<Rightarrow> (st', (case r of None \<Rightarrow> 0 | Some i \<Rightarrow> em_version i) = expectedVersion)))"

fun check_items :: "norm_transact_item list \<Rightarrow> local_store \<Rightarrow> local_store \<times> bool list" where
  "check_items [] st = (st, [])"
| "check_items (item # items) st =
     (case check_item item st of
        (st', ok) \<Rightarrow> (case check_items items st' of (st'', oks) \<Rightarrow> (st'', ok # oks)))"

fun write_item :: "norm_transact_item \<Rightarrow> (local_store, unit) act" where
  "write_item (NormPut e k v options) = act_bind (putSync e v k options) (\<lambda>_. act_return ())"
| "write_item (NormDelete e k options) = deleteSync e k options"
| "write_item (NormCondition e k version) = act_return ()"

text \<open>
  A cancelled transaction throws \<open>TransactionCancelled\<close> with a reason for each item, an
  \<open>UnexpectedVersion\<close> or undefined. The error carries them, so that it is a value of its own here.
\<close>

datatype transact_outcome = Committed | Cancelled "js option list"

definition transactWriteSync :: "norm_transact_item list \<Rightarrow> (local_store, transact_outcome) act" where
  "transactWriteSync items st =
     (case check_items items st of
        (st', consistencyResults) \<Rightarrow>
          if \<not> list_all id consistencyResults
          then (st', Inr (Cancelled (map (\<lambda>r. if r then None else Some (mk_UnexpectedVersion ''Unexpected Version''))
                 consistencyResults)))
          else act_bind (act_forEach write_item items) (\<lambda>_. act_return Committed) st')"

definition transactWrite :: "entity_provider \<Rightarrow> transact_item list \<Rightarrow> (local_store, transact_outcome) act" where
  "transactWrite provider items =
     act_bind (act_lift (try_map (normalize_item provider) items)) transactWriteSync"

section \<open>Queries and scans\<close>

text \<open>
  \<open><\<close> and \<open><=\<close> on key values: strings by code unit, numbers by value. A comparison of a string
  with a number, which the types of the keys exclude, is false here.
\<close>

fun str_less :: "string \<Rightarrow> string \<Rightarrow> bool" where
  "str_less [] ys = (ys \<noteq> [])"
| "str_less (x # xs) [] = False"
| "str_less (x # xs) (y # ys) =
     (if x = y then str_less xs ys else (of_char x :: nat) < of_char y)"

definition js_less :: "js \<Rightarrow> js \<Rightarrow> bool" where
  "js_less a b = (case (a, b) of (JStr s, JStr t) \<Rightarrow> str_less s t | (JNum m, JNum n) \<Rightarrow> m < n | _ \<Rightarrow> False)"

definition js_less_eq :: "js \<Rightarrow> js \<Rightarrow> bool" where
  "js_less_eq a b = (case (a, b) of (JStr s, JStr t) \<Rightarrow> \<not> str_less t s | (JNum m, JNum n) \<Rightarrow> m \<le> n | _ \<Rightarrow> False)"

definition starts_with :: "string \<Rightarrow> string \<Rightarrow> bool" where
  "starts_with s p \<longleftrightarrow> take (length p) s = p"

definition condition_holds :: "query_condition \<Rightarrow> js \<Rightarrow> bool" where
  "condition_holds condition v =
     (case condition of
        Between a b \<Rightarrow> js_less_eq a v \<and> js_less_eq v b
      | BeginsWith a \<Rightarrow> (case v of JStr s \<Rightarrow> starts_with s (js_to_string a) | _ \<Rightarrow> False)
      | LessThan a \<Rightarrow> js_less v a
      | LessThanEquals a \<Rightarrow> js_less_eq v a
      | GreaterThan a \<Rightarrow> js_less a v
      | GreaterThanEquals a \<Rightarrow> js_less_eq a v)"

definition sort_key_matches :: "query_key_part \<Rightarrow> js \<Rightarrow> bool" where
  "sort_key_matches querySortKey v =
     (case querySortKey of
        ConditionPart k parts condition \<Rightarrow> condition_holds condition v
      | KeyPart k \<Rightarrow>
          if np_keyValue k = JUndef then True
          else (case (v, np_keyValue k) of
              (JStr s, JStr p) \<Rightarrow> if np_partialValue k then starts_with s p else v = np_keyValue k
            | _ \<Rightarrow> v = np_keyValue k))"

definition filterEntryBySortKey :: "key_def \<Rightarrow> query_key_part \<Rightarrow> js \<Rightarrow> js + bool" where
  "filterEntryBySortKey keyDef querySortKey e =
     try_bind (normalizeCompositeKey keyDef e) (\<lambda>entryKey.
       Inr (isCompleteKey entryKey \<and> sort_value entryKey \<noteq> JUndef \<and>
            sort_key_matches querySortKey (sort_value entryKey)))"

definition try_filter :: "('a \<Rightarrow> js + bool) \<Rightarrow> 'a list \<Rightarrow> js + 'a list" where
  "try_filter p xs = try_bind (try_map (\<lambda>x. try_bind (p x) (\<lambda>b. Inr (b, x))) xs)
     (\<lambda>bxs. Inr (map snd (filter fst bxs)))"

text \<open>
  The order by sort key. Items without one compare as \<open>NaN\<close>, which sorting takes for equal; the
  items of a table have keys that can be normalised.
\<close>

definition item_sort_value :: "key_def \<Rightarrow> js \<Rightarrow> js" where
  "item_sort_value keyDef v = (case normalizeCompositeKey keyDef v of Inl err \<Rightarrow> JUndef | Inr k \<Rightarrow> sort_value k)"

definition sortBySortKey :: "(string \<Rightarrow> string \<Rightarrow> int) \<Rightarrow> key_def \<Rightarrow> js \<Rightarrow> js \<Rightarrow> int" where
  "sortBySortKey localeCompare keyDef a b =
     (case (item_sort_value keyDef a, item_sort_value keyDef b) of
        (JStr s, t) \<Rightarrow> localeCompare s (js_to_string t)
      | (JNum m, JNum n) \<Rightarrow> m - n
      | _ \<Rightarrow> 0)"

definition entry_order :: "(string \<Rightarrow> string \<Rightarrow> int) \<Rightarrow> entity \<Rightarrow> entity_or_index \<Rightarrow> js \<times> entity_item \<Rightarrow> js \<times> entity_item \<Rightarrow> int" where
  "entry_order localeCompare source eoi a b =
     (case eoi of
        TheEntity e \<Rightarrow> sortBySortKey localeCompare (en_key e) (em_value (snd a)) (em_value (snd b))
      | TheIndex name i \<Rightarrow>
          (let ord = sortBySortKey localeCompare (ix_key i) (em_value (snd a)) (em_value (snd b))
           in if ord = 0 then sortBySortKey localeCompare (en_key source) (em_value (snd a)) (em_value (snd b))
              else ord))"

record query_options =
  qo_select :: "string list option"
  qo_direction :: "direction option"
  qo_limit :: "nat option"
  qo_nextToken :: "string option"

definition no_query_options :: query_options where
  "no_query_options = \<lparr>qo_select = None, qo_direction = None, qo_limit = None, qo_nextToken = None\<rparr>"

record query_result =
  qr_entries :: "entity_item list"
  qr_nextToken :: "string option"

definition select_attributes :: "string list option \<Rightarrow> entity_item \<Rightarrow> entity_item" where
  "select_attributes select item =
     (case select of
        None \<Rightarrow> item
      | Some names \<Rightarrow> item\<lparr>em_value := JObj (filter (\<lambda>(name, v). name \<in> set names) (own_entries (em_value item)))\<rparr>)"

definition eoi_key :: "entity_or_index \<Rightarrow> key_def" where
  "eoi_key eoi = (case eoi of TheEntity e \<Rightarrow> en_key e | TheIndex name i \<Rightarrow> ix_key i)"

definition queryStore ::
  "(string \<Rightarrow> string \<Rightarrow> int) \<Rightarrow> entity \<Rightarrow> entity_or_index \<Rightarrow> query_key \<Rightarrow> query_options \<Rightarrow> (local_store, query_result) act" where
  "queryStore localeCompare source eoi queryKey options st =
     (case getPartitionMap eoi (qk_partition queryKey) st of
        (st', entries) \<Rightarrow>
          (st', try_bind (case qk_sort queryKey of
                 None \<Rightarrow> Inr entries
               | Some sortKeyPart \<Rightarrow>
                   try_filter (\<lambda>e. filterEntryBySortKey (eoi_key eoi) sortKeyPart (em_value (snd e))) entries) (\<lambda>sortFilteredEntries.
             try_bind (paginateItems sortFilteredEntries (Some (entry_order localeCompare source eoi)) None
                 (qo_direction options) (qo_limit options) (qo_nextToken options)) (\<lambda>page.
               Inr \<lparr>qr_entries = map (\<lambda>e. select_attributes (qo_select options) (snd e)) (pg_items page),
                    qr_nextToken = pg_nextToken page\<rparr>))))"

definition find_index_named :: "entity_provider \<Rightarrow> string \<Rightarrow> string \<Rightarrow> js + entity \<times> entity_index" where
  "find_index_named provider entityName indexName =
     try_bind (getEntity provider entityName) (\<lambda>entity.
       (case List.find (\<lambda>i. ix_name i = indexName) (en_indices entity) of
          None \<Rightarrow> Inl (mk_Error (''Index '' @ indexName @ '' was not found on entity '' @ entityName))
        | Some i \<Rightarrow> Inr (entity, i)))"

definition query ::
  "(string \<Rightarrow> string \<Rightarrow> int) \<Rightarrow> entity_provider \<Rightarrow> string \<Rightarrow> js \<Rightarrow> query_options \<Rightarrow> (local_store, query_result) act" where
  "query localeCompare provider entityName queryKey options =
     act_bind (act_lift (try_bind (getEntity provider entityName) (\<lambda>entity.
         try_bind (normalizeCompositeQueryKey (en_key entity) queryKey) (\<lambda>k.
           if \<not> isCompleteKeyPart (qk_partition k)
           then Inl (mk_Error ''Entity partition key cannot be partial for query'')
           else Inr (entity, k)))))
       (\<lambda>(entity, k). queryStore localeCompare entity (TheEntity entity) k options)"

definition queryIndex ::
  "(string \<Rightarrow> string \<Rightarrow> int) \<Rightarrow> entity_provider \<Rightarrow> string \<Rightarrow> string \<Rightarrow> js \<Rightarrow> query_options \<Rightarrow> (local_store, query_result) act" where
  "queryIndex localeCompare provider entityName indexName queryKey options =
     act_bind (act_lift (try_bind (find_index_named provider entityName indexName) (\<lambda>(entity, i).
         try_bind (normalizeCompositeQueryKey (ix_key i) queryKey) (\<lambda>k.
           if \<not> isCompleteKeyPart (qk_partition k)
           then Inl (mk_Error ''Entity Index partition key cannot be partial for query.'')
           else Inr (entity, i, k)))))
       (\<lambda>(entity, i, k). queryStore localeCompare entity (TheIndex entityName i) k options)"

definition scanStore :: "entity_or_index \<Rightarrow> query_options \<Rightarrow> (local_store, query_result) act" where
  "scanStore eoi options st =
     (case getLocalEntityStore eoi st of
        (st', store) \<Rightarrow>
          (st', try_bind (paginateItems (concat (map (\<lambda>(pk, p). map snd p) store)) None None None
                 (qo_limit options) (qo_nextToken options)) (\<lambda>page.
               Inr \<lparr>qr_entries = map (select_attributes (qo_select options)) (pg_items page),
                    qr_nextToken = pg_nextToken page\<rparr>)))"

definition scan :: "entity_provider \<Rightarrow> string \<Rightarrow> query_options \<Rightarrow> (local_store, query_result) act" where
  "scan provider entityName options =
     act_bind (act_lift (getEntity provider entityName)) (\<lambda>entity. scanStore (TheEntity entity) options)"

definition scanIndex :: "entity_provider \<Rightarrow> string \<Rightarrow> string \<Rightarrow> query_options \<Rightarrow> (local_store, query_result) act" where
  "scanIndex provider entityName indexName options =
     act_bind (act_lift (find_index_named provider entityName indexName))
       (\<lambda>(entity, i). scanStore (TheIndex entityName i) options)"

section \<open>Persistence\<close>

text \<open>
  The tables are written to files as JSON objects of objects, whose keys are strings; items are
  copied by JSON. Read back, the keys of the maps are the strings. Entity and index names contain
  no slash. That JavaScript moves keys that look like array indices to the front of an object is
  left out.
\<close>

type_synonym serialized_table = "(string, (string, entity_item) omap) omap"

definition to_record :: "(string \<times> 'v) list \<Rightarrow> (string, 'v) omap" where
  "to_record kvs = foldl (\<lambda>t (k, v). om_set k v t) [] kvs"

definition serializeTableMap :: "table_map \<Rightarrow> serialized_table" where
  "serializeTableMap tm =
     to_record (map (\<lambda>(pk, p). (js_to_string pk, to_record (map (\<lambda>(sk, e).
       (js_to_string sk, e\<lparr>em_value := json_copy (em_value e)\<rparr>)) p))) tm)"

definition deserializeTableMap :: "serialized_table \<Rightarrow> table_map" where
  "deserializeTableMap r = map (\<lambda>(pk, p). (JStr pk, map (\<lambda>(sk, e). (JStr sk, e)) p)) r"

datatype table_file = TableFile string | IndexFile string string

definition serialize :: "local_store \<Rightarrow> (table_file \<times> serialized_table) list" where
  "serialize st =
     concat (map (\<lambda>(name, e). (TableFile name, serializeTableMap (le_data e)) #
       map (\<lambda>(indexName, index). (IndexFile name indexName, serializeTableMap index)) (le_indices e)) (ls_entities st))"

definition load_index :: "table_file \<times> serialized_table \<Rightarrow> (string, local_entity) omap \<Rightarrow> (string, local_entity) omap" where
  "load_index f es =
     (case f of
        (IndexFile name indexName, r) \<Rightarrow>
          (let e = the_default empty_local_entity (om_get es name)
           in om_set name (e\<lparr>le_indices := om_set indexName (deserializeTableMap r) (le_indices e)\<rparr>) es)
      | (TableFile name, r) \<Rightarrow> es)"

definition fromSerializedData :: "(table_file \<times> serialized_table) list option \<Rightarrow> local_store" where
  "fromSerializedData files =
     (case files of
        None \<Rightarrow> empty_local_store
      | Some fs \<Rightarrow>
          \<lparr>ls_entities = fold load_index fs
             (to_record (concat (map (\<lambda>(f, r). case f of
                TableFile name \<Rightarrow> [(name, \<lparr>le_data = deserializeTableMap r, le_indices = []\<rparr>)] | _ \<Rightarrow> []) fs))),
           ls_tasks = []\<rparr>)"

end
