(* ===== verification/LocalStoreLaws.thy ===== *)
theory LocalStoreLaws
  imports LocalEntityStore
begin

text \<open>
  What the operations of the local entity store do to its tables. A table is seen through
  \<open>entry\<close>, a finite map from partition and sort values to items; \<open>same_entries\<close> says that two
  stores hold the same items and have pushed the same stream events, whatever empty maps they
  contain. The properties are about reads and writes, versions, stream events, and transactional
  writes.
\<close>

section \<open>Tables as maps\<close>

definition entry :: "table_map \<Rightarrow> js \<times> js \<Rightarrow> entity_item option" where
  "entry tm k = (case om_get tm (fst k) of None \<Rightarrow> None | Some p \<Rightarrow> om_get p (snd k))"

definition table_id :: "entity_or_index \<Rightarrow> string \<times> string option" where
  "table_id eoi =
     (case eoi of TheEntity entity \<Rightarrow> (en_name entity, None) | TheIndex name index \<Rightarrow> (name, Some (ix_name index)))"

lemma table_id_simps [simp]:
  "table_id (TheEntity entity) = (en_name entity, None)"
  "table_id (TheIndex name index) = (name, Some (ix_name index))"
  by (simp_all add: table_id_def)

definition table_key :: "norm_key \<Rightarrow> js \<times> js" where
  "table_key key = (partition_value key, skOrDefault key)"

lemma entry_set_entry: "entry (set_entry pk k v tm) = (entry tm)((pk, k) \<mapsto> v)"
  by (auto simp: fun_eq_iff entry_def set_entry_def om_get_set om_get_eq [of "[]"] the_default_def split: option.split)

lemma entry_delete_entry:
  "delete_entry pk k tm = (tm', deleted) \<Longrightarrow> entry tm' = (entry tm)((pk, k) := None) \<and> deleted = (entry tm (pk, k) \<noteq> None)"
  by (auto simp: fun_eq_iff entry_def delete_entry_def om_get_set om_get_del om_has_def
      split: option.splits if_splits)

lemma entry_new_partition: "om_get tm pk = None \<Longrightarrow> entry (om_set pk [] tm) = entry tm"
  by (auto simp: fun_eq_iff entry_def om_get_set om_get_eq [of "[]"] split: option.split)

lemma getPartitionEntry_entry: "getPartitionEntry tm key = entry tm (table_key key)"
  by (simp add: getPartitionEntry_def entry_def table_key_def cong: option.case_cong)

lemma local_entity_of_put [simp]:
  "local_entity_of (put_local_entity n e st) m = (if m = n then e else local_entity_of st m)"
  by (simp add: local_entity_of_def put_local_entity_def om_get_set)

lemma table_of_put_table [simp]:
  "table_of (put_table e tm st) e' = (if table_id e = table_id e' then tm else table_of st e')"
  by (auto simp: table_of_def put_table_def table_id_def Let_def om_get_set split: entity_or_index.split)

lemma ls_tasks_put_table [simp]: "ls_tasks (put_table e tm st) = ls_tasks st"
  by (simp add: put_table_def put_local_entity_def Let_def split: entity_or_index.split)

definition same_entries :: "local_store \<Rightarrow> local_store \<Rightarrow> bool" where
  "same_entries st st' \<longleftrightarrow> (\<forall>e. entry (table_of st' e) = entry (table_of st e)) \<and> ls_tasks st' = ls_tasks st"

lemma same_entries_refl [simp]: "same_entries st st"
  by (simp add: same_entries_def)

lemma same_entries_trans: "same_entries st st' \<Longrightarrow> same_entries st' st'' \<Longrightarrow> same_entries st st''"
  by (simp add: same_entries_def)

lemma table_id_same: "table_id e = table_id e' \<Longrightarrow> table_of st e = table_of st e'"
  by (auto simp: table_id_def table_of_def split: entity_or_index.splits)

lemma same_entries_put_table:
  "entry tm = entry (table_of st e) \<Longrightarrow> same_entries st (put_table e tm st)"
  by (auto simp: same_entries_def dest: table_id_same [of _ _ st])

lemma getPartitionMap_entries:
  assumes "getPartitionMap e part st = (st', p)"
  shows "same_entries st st'" and "om_get p k = entry (table_of st e) (np_keyValue part, k)"
proof -
  define st1 where "st1 = put_table e (table_of st e) st"
  have st1: "same_entries st st1" by (simp add: st1_def same_entries_put_table)
  have "same_entries st st' \<and> om_get p k = entry (table_of st e) (np_keyValue part, k)"
  proof (cases "om_get (table_of st e) (np_keyValue part)")
    case None
    then have st': "st' = put_table e (om_set (np_keyValue part) [] (table_of st e)) st1" and p: "p = []"
      using assms by (simp_all add: getPartitionMap_def getLocalEntityStore_def st1_def)
    have "entry (om_set (np_keyValue part) [] (table_of st e)) = entry (table_of st1 e)"
      using None st1 by (simp add: entry_new_partition same_entries_def)
    then have "same_entries st1 st'" unfolding st' by (rule same_entries_put_table)
    then show ?thesis using same_entries_trans [OF st1] None p by (simp add: entry_def om_get_eq [of "[]"])
  next
    case (Some q)
    then show ?thesis using assms st1 by (auto simp: getPartitionMap_def getLocalEntityStore_def st1_def entry_def)
  qed
  then show "same_entries st st'" "om_get p k = entry (table_of st e) (np_keyValue part, k)" by simp_all
qed

lemma getWithMetadataSync_entries:
  assumes "getWithMetadataSync entity key st = (st', r)"
  shows "same_entries st st'" and "r = entry (table_of st (TheEntity entity)) (table_key key)"
proof -
  obtain p where p: "getPartitionMap (TheEntity entity) (nk_partition key) st = (st', p)" "r = om_get p (skOrDefault key)"
    using assms by (auto simp: getWithMetadataSync_def split: prod.splits)
  show "same_entries st st'" by (rule getPartitionMap_entries [OF p(1)])
  show "r = entry (table_of st (TheEntity entity)) (table_key key)"
    using getPartitionMap_entries(2) [OF p(1)] p(2) by (simp add: table_key_def partition_value_def)
qed

section \<open>Changing an item\<close>

text \<open>Only the indices of the entity change, and no stream event is pushed.\<close>

definition indices_changed :: "string \<Rightarrow> local_store \<Rightarrow> local_store \<Rightarrow> bool" where
  "indices_changed name st st' \<longleftrightarrow>
     (\<forall>e. (fst (table_id e) \<noteq> name \<or> snd (table_id e) = None) \<longrightarrow> table_of st' e = table_of st e) \<and>
     ls_tasks st' = ls_tasks st"

lemma indices_changed_refl: "indices_changed name st st"
  by (simp add: indices_changed_def)

lemma indices_changed_put_table:
  "indices_changed name st st' \<Longrightarrow> indices_changed name st (put_table (TheIndex name i) tm st')"
  by (auto simp: indices_changed_def dest: sym [of "(name, Some (ix_name i))"])

lemma act_lift_bind: "act_bind (act_lift r) f s = (case r of Inl err \<Rightarrow> (s, Inl err) | Inr a \<Rightarrow> f a s)"
  by (cases r) simp_all

lemma set_index_entry_changes:
  assumes "indices_changed name st st1" and "set_index_entry name key old v i st1 = (st2, r)"
  shows "indices_changed name st st2"
  using assms(2) indices_changed_put_table [OF indices_changed_put_table [OF assms(1)]]
    indices_changed_put_table [OF assms(1)]
  by (auto simp: set_index_entry_def getLocalEntityStore_def act_lift_bind act_bind_def
      split: sum.splits option.splits prod.splits)

lemma delete_index_entry_changes:
  assumes "indices_changed name st st1" and "delete_index_entry name key v i st1 = (st2, r)"
  shows "indices_changed name st st2"
  using assms(2) indices_changed_put_table [OF indices_changed_put_table [OF assms(1)]]
    indices_changed_put_table [OF assms(1)]
  by (auto simp: delete_index_entry_def getLocalEntityStore_def act_lift_bind split: sum.splits)

lemma forEach_set_index_changes:
  assumes "act_forEach (set_index_entry name key old v) is st = (st', r)"
  shows "indices_changed name st st'"
  by (rule act_forEach_keeps [where P = "indices_changed name st", OF set_index_entry_changes indices_changed_refl assms])

lemma forEach_delete_index_changes:
  assumes "act_forEach (delete_index_entry name key v) is st = (st', r)"
  shows "indices_changed name st st'"
  by (rule act_forEach_keeps [where P = "indices_changed name st", OF delete_index_entry_changes indices_changed_refl assms])

text \<open>The items of an entity, and what does not concern it.\<close>

abbreviation data :: "local_store \<Rightarrow> entity \<Rightarrow> js \<times> js \<Rightarrow> entity_item option" where
  "data st entity \<equiv> entry (table_of st (TheEntity entity))"

definition others_kept :: "string \<Rightarrow> local_store \<Rightarrow> local_store \<Rightarrow> bool" where
  "others_kept name st st' \<longleftrightarrow>
     (\<forall>e. fst (table_id e) \<noteq> name \<longrightarrow> entry (table_of st' e) = entry (table_of st e))"

lemma others_kept_refl [simp]: "others_kept name st st"
  by (simp add: others_kept_def)

lemma same_entries_others: "same_entries st st' \<Longrightarrow> others_kept name st st'"
  by (simp add: same_entries_def others_kept_def)

lemma others_kept_trans: "others_kept name st st' \<Longrightarrow> others_kept name st' st'' \<Longrightarrow> others_kept name st st''"
  by (simp add: others_kept_def)

lemma setLocalEntity_changes:
  assumes "setLocalEntity e key v st = (st', r)"
  shows "data st' e = (data st e)(table_key key \<mapsto> v)" and "others_kept (en_name e) st st'"
    and "ls_tasks st' = ls_tasks st"
proof -
  define st1 where "st1 = put_table (TheEntity e) (updatePartitionEntry (table_of st (TheEntity e)) key v) st"
  have "act_forEach (set_index_entry (en_name e) key (getPartitionEntry (table_of st (TheEntity e)) key) v)
      (en_indices e) st1 = (st', r)"
    using assms by (simp add: setLocalEntity_def Let_def table_of_def st1_def)
  then have changed: "indices_changed (en_name e) st1 st'" by (rule forEach_set_index_changes)
  then show "data st' e = (data st e)(table_key key \<mapsto> v)"
    by (simp add: indices_changed_def st1_def updatePartitionEntry_def entry_set_entry table_key_def)
  show "others_kept (en_name e) st st'" "ls_tasks st' = ls_tasks st"
    using changed by (auto simp: indices_changed_def others_kept_def st1_def dest: sym [of "(en_name e, None)"])
qed

text \<open>The index keys of a value can be computed.\<close>

definition indexable :: "entity \<Rightarrow> js \<Rightarrow> bool" where
  "indexable e v \<longleftrightarrow> list_all (\<lambda>i. \<not> isl (normalizeCompositeKey (ix_key i) v)) (en_indices e)"

lemma set_index_entry_returns:
  assumes "\<not> isl (normalizeCompositeKey (ix_key i) (em_value v))"
    and "\<And>o'. old = Some o' \<Longrightarrow> \<not> isl (normalizeCompositeKey (ix_key i) (em_value o'))"
  shows "\<exists>st'. set_index_entry name key old v i st = (st', Inr ())"
  using assms
  by (cases old; cases "normalizeCompositeKey (ix_key i) (em_value v)")
    (auto simp: set_index_entry_def getLocalEntityStore_def act_lift_bind act_bind_def isl_def split: sum.split)

lemma forEach_returns:
  "(\<And>x s. x \<in> set xs \<Longrightarrow> \<exists>s'. f x s = (s', Inr ())) \<Longrightarrow> \<exists>s'. act_forEach f xs s = (s', Inr ())"
proof (induction xs arbitrary: s)
  case Nil
  show ?case by simp
next
  case (Cons x xs)
  from Cons.prems [of x s] obtain s1 where "f x s = (s1, Inr ())" by auto
  moreover from Cons.IH [of s1] Cons.prems obtain s' where "act_forEach f xs s1 = (s', Inr ())" by auto
  ultimately show ?case by simp
qed

lemma setLocalEntity_returns:
  assumes "indexable e (em_value v)" and "\<And>o'. data st e (table_key key) = Some o' \<Longrightarrow> indexable e (em_value o')"
  shows "\<exists>st'. setLocalEntity e key v st = (st', Inr ())"
proof -
  have old: "getPartitionEntry (le_data (local_entity_of st (en_name e))) key = data st e (table_key key)"
    by (simp add: getPartitionEntry_entry table_of_def)
  have "\<exists>s'. act_forEach (set_index_entry (en_name e) key (data st e (table_key key)) v) (en_indices e) s = (s', Inr ())" for s
    by (intro forEach_returns set_index_entry_returns)
      (use assms in \<open>auto simp: indexable_def list_all_iff\<close>)
  then show ?thesis by (simp add: setLocalEntity_def Let_def old)
qed

section \<open>Writing and removing an item\<close>

definition version_of :: "entity_item option \<Rightarrow> int" where
  "version_of old = (case old of None \<Rightarrow> 0 | Some i \<Rightarrow> em_version i)"

definition value_of :: "entity_item option \<Rightarrow> js" where
  "value_of old = (case old of None \<Rightarrow> JUndef | Some i \<Rightarrow> em_value i)"

definition expected :: "int option \<Rightarrow> entity_item option \<Rightarrow> bool" where
  "expected v old \<longleftrightarrow> v = None \<or> v = Some (version_of old)"

definition new_version :: "put_options \<Rightarrow> entity_item option \<Rightarrow> int" where
  "new_version o' old = (if po_incrementVersion o' = Some False then version_of old else version_of old + 1)"

definition put_event :: "entity \<Rightarrow> norm_key \<Rightarrow> js \<Rightarrow> put_options \<Rightarrow> entity_item option \<Rightarrow> stream_item" where
  "put_event e key v o' old =
     \<lparr>si_entityName = en_name e, si_key = convertNormalizedEntityKeyToMap key,
      si_operation = (if version_of old = 0 then StreamInsert else StreamModify), si_newValue = v,
      si_newVersion = Some (new_version o' old), si_oldValue = value_of old, si_oldVersion = version_of old\<rparr>"

definition remove_event :: "entity \<Rightarrow> norm_key \<Rightarrow> entity_item \<Rightarrow> stream_item" where
  "remove_event e key old =
     \<lparr>si_entityName = en_name e, si_key = convertNormalizedEntityKeyToMap key, si_operation = StreamRemove,
      si_newValue = JUndef, si_newVersion = None, si_oldValue = em_value old, si_oldVersion = em_version old\<rparr>"

lemma pushWorkflowTask_keeps [simp]:
  "table_of (pushWorkflowTask item st) e = table_of st e"
  "ls_tasks (pushWorkflowTask item st) = ls_tasks st @ [item]"
  by (simp_all add: pushWorkflowTask_def table_of_def local_entity_of_def split: entity_or_index.split)

lemma putSync_unexpected:
  assumes "\<not> expected (po_expectedVersion o') (data st e (table_key key))"
  shows "\<exists>st' m. putSync e v key o' st = (st', Inl (mk_UnexpectedVersion m)) \<and> same_entries st st'"
proof -
  obtain st1 r where st1: "getWithMetadataSync e key st = (st1, r)" by (cases "getWithMetadataSync e key st")
  from getWithMetadataSync_entries [OF st1] assms st1 show ?thesis
    by (auto simp: putSync_def expected_def version_of_def Let_def)
qed

lemma putSync_eq:
  assumes "expected (po_expectedVersion o') (data st e (table_key key))"
    and "getWithMetadataSync e key st = (st1, q)"
  defines "old \<equiv> data st e (table_key key)"
  shows "putSync e v key o' st =
     (case setLocalEntity e key \<lparr>em_value = v, em_version = new_version o' old\<rparr> st1 of
        (st2, Inl err) \<Rightarrow> (st2, Inl err)
      | (st2, Inr _) \<Rightarrow> (pushWorkflowTask (put_event e key v o' old) st2, Inr (new_version o' old)))"
proof -
  have "q = old" using getWithMetadataSync_entries(2) [OF assms(2)] by (simp add: old_def)
  then show ?thesis
    using assms(1,2)
    by (cases "po_incrementVersion o' = Some False"; cases old)
      (auto simp: putSync_def expected_def version_of_def value_of_def new_version_def put_event_def
        Let_def old_def [symmetric] act_bind_def split: prod.split sum.split)
qed

lemma putSync_expected:
  assumes ok: "expected (po_expectedVersion o') (data st e (table_key key))"
    and run: "putSync e v key o' st = (st', r)"
  defines "old \<equiv> data st e (table_key key)"
  shows "data st' e = (data st e)(table_key key \<mapsto> \<lparr>em_value = v, em_version = new_version o' old\<rparr>)"
    and "others_kept (en_name e) st st'"
    and "r = Inr n \<Longrightarrow> n = new_version o' old \<and> ls_tasks st' = ls_tasks st @ [put_event e key v o' old]"
    and "r = Inl err \<Longrightarrow> ls_tasks st' = ls_tasks st"
proof -
  obtain st1 q where st1: "getWithMetadataSync e key st = (st1, q)" by (cases "getWithMetadataSync e key st")
  note get = getWithMetadataSync_entries [OF st1]
  have q: "q = old" using get(2) by (simp add: old_def)
  obtain st2 r2 where st2: "setLocalEntity e key \<lparr>em_value = v, em_version = new_version o' old\<rparr> st1 = (st2, r2)"
    by (cases "setLocalEntity e key \<lparr>em_value = v, em_version = new_version o' old\<rparr> st1")
  note set = setLocalEntity_changes [OF st2]
  have result: "(st', r) = (case r2 of Inl err \<Rightarrow> (st2, Inl err)
      | Inr _ \<Rightarrow> (pushWorkflowTask (put_event e key v o' old) st2, Inr (new_version o' old)))"
    using run putSync_eq [OF ok st1, of v] st2 by (cases r2) (simp_all add: old_def)
  have same: "data st1 e = data st e" "ls_tasks st1 = ls_tasks st" "others_kept (en_name e) st st1"
    using get(1) by (simp_all add: same_entries_def same_entries_others)
  show "data st' e = (data st e)(table_key key \<mapsto> \<lparr>em_value = v, em_version = new_version o' old\<rparr>)"
    using result set(1) same by (cases r2) simp_all
  have "others_kept (en_name e) st st2" by (rule others_kept_trans [OF same(3) set(2)])
  then show "others_kept (en_name e) st st'"
    using result by (cases r2) (simp_all add: others_kept_def)
  show "r = Inr n \<Longrightarrow> n = new_version o' old \<and> ls_tasks st' = ls_tasks st @ [put_event e key v o' old]"
    using result set(3) same by (cases r2) simp_all
  show "r = Inl err \<Longrightarrow> ls_tasks st' = ls_tasks st"
    using result set(3) same by (cases r2) simp_all
qed

lemma putSync_returns:
  assumes ok: "expected (po_expectedVersion o') (data st e (table_key key))"
    and v: "indexable e v" and old: "\<And>i. data st e (table_key key) = Some i \<Longrightarrow> indexable e (em_value i)"
  shows "\<exists>st'. putSync e v key o' st = (st', Inr (new_version o' (data st e (table_key key))))"
proof -
  obtain st1 q where st1: "getWithMetadataSync e key st = (st1, q)" by (cases "getWithMetadataSync e key st")
  note get = getWithMetadataSync_entries [OF st1]
  have "\<exists>st2. setLocalEntity e key \<lparr>em_value = v, em_version = n\<rparr> st1 = (st2, Inr ())" for n
    by (rule setLocalEntity_returns) (use v old get(1) in \<open>simp_all add: same_entries_def\<close>)
  then show ?thesis
    using putSync_eq [OF ok st1, of v] by (metis (no_types, lifting) case_prod_conv sum.case(2))
qed

section \<open>The store as one map\<close>

type_synonym location = "string \<times> js \<times> js"

definition stored_items :: "local_store \<Rightarrow> location \<Rightarrow> entity_item option" where
  "stored_items st l = entry (le_data (local_entity_of st (fst l))) (snd l)"

lemma data_stored: "data st e k = stored_items st (en_name e, k)"
  by (simp add: stored_items_def table_of_def)

lemma stored_items_eq: "stored_items st (n, k) = entry (table_of st (TheEntity \<lparr>en_name = n, en_key = d, en_indices = ixs\<rparr>)) k"
  by (simp add: stored_items_def table_of_def)

lemma same_entries_stored: "same_entries st st' \<Longrightarrow> stored_items st' = stored_items st"
  by (auto simp: same_entries_def stored_items_eq [where d = undefined and ixs = "[]"])

lemma others_kept_stored: "others_kept n st st' \<Longrightarrow> m \<noteq> n \<Longrightarrow> stored_items st' (m, k) = stored_items st (m, k)"
  by (simp add: others_kept_def stored_items_eq [where d = undefined and ixs = "[]"])

lemma data_update_stored:
  assumes "data st' e = (data st e)(k := x)" and "others_kept (en_name e) st st'"
  shows "stored_items st' = (stored_items st)((en_name e, k) := x)"
proof
  fix l :: location
  obtain n j where l: "l = (n, j)" by (cases l) auto
  show "stored_items st' l = ((stored_items st)((en_name e, k) := x)) l"
  proof (cases "n = en_name e")
    case True
    with fun_cong [OF assms(1), of j] l show ?thesis by (simp add: data_stored [symmetric])
  next
    case False
    with others_kept_stored [OF assms(2)] l show ?thesis by simp
  qed
qed

lemma deleteSync_missing:
  assumes "data st e (table_key key) = None"
  shows "\<exists>st'. deleteSync e key v st = (st', Inr ()) \<and> same_entries st st'"
proof -
  obtain st1 q where st1: "getWithMetadataSync e key st = (st1, q)" by (cases "getWithMetadataSync e key st")
  from getWithMetadataSync_entries [OF st1] assms st1 show ?thesis by (simp add: deleteSync_def)
qed

lemma deleteSync_unexpected:
  assumes "data st e (table_key key) = Some i" and "v \<noteq> None" and "v \<noteq> Some (em_version i)"
  shows "\<exists>st'. deleteSync e key v st = (st', Inl (mk_UnexpectedVersion ''Unexpected Version'')) \<and> same_entries st st'"
proof -
  obtain st1 q where st1: "getWithMetadataSync e key st = (st1, q)" by (cases "getWithMetadataSync e key st")
  from getWithMetadataSync_entries [OF st1] assms st1 show ?thesis by (simp add: deleteSync_def)
qed

lemma le_data_table: "le_data (local_entity_of st (en_name e)) = table_of st (TheEntity e)"
  by (simp add: table_of_def)

lemma deleteLocalEntity_eq:
  assumes i: "data st e (table_key key) = Some i"
  shows "\<exists>st1. others_kept (en_name e) st st1 \<and> ls_tasks st1 = ls_tasks st \<and>
      data st1 e = (data st e)(table_key key := None) \<and>
      deleteLocalEntity e key st =
        act_bind (act_forEach (delete_index_entry (en_name e) key i) (en_indices e)) (\<lambda>_. act_return True) st1"
proof -
  obtain tm deleted where tm: "deletePartitionEntry (table_of st (TheEntity e)) key = (tm, deleted)"
    by (cases "deletePartitionEntry (table_of st (TheEntity e)) key")
  then have entry: "entry tm = (data st e)(table_key key := None)" and "deleted"
    using entry_delete_entry [of "partition_value key" "skOrDefault key"] i
    by (auto simp: deletePartitionEntry_def table_key_def)
  moreover have "getPartitionEntry (le_data (local_entity_of st (en_name e))) key = Some i"
    using i by (simp add: getPartitionEntry_entry le_data_table)
  moreover have "others_kept (en_name e) st (put_table (TheEntity e) tm st)"
    by (auto simp: others_kept_def dest: sym [of "(en_name e, None)"])
  ultimately show ?thesis
    using tm by (intro exI [of _ "put_table (TheEntity e) tm st"]) (simp add: deleteLocalEntity_def le_data_table)
qed

lemma deleteSync_expected:
  assumes i: "data st e (table_key key) = Some i" and ok: "v = None \<or> v = Some (em_version i)"
    and run: "deleteSync e key v st = (st', r)"
  shows "data st' e = (data st e)(table_key key := None)" and "others_kept (en_name e) st st'"
    and "r = Inr u \<Longrightarrow> ls_tasks st' = ls_tasks st @ [remove_event e key i]"
    and "r = Inl err \<Longrightarrow> ls_tasks st' = ls_tasks st"
    and "indexable e (em_value i) \<Longrightarrow> r = Inr ()"
proof -
  obtain st1 q where st1: "getWithMetadataSync e key st = (st1, q)" by (cases "getWithMetadataSync e key st")
  note get = getWithMetadataSync_entries [OF st1]
  have i1: "data st1 e (table_key key) = Some i" using get(1) i by (simp add: same_entries_def)
  from deleteLocalEntity_eq [OF i1] obtain st2 where
    st2: "others_kept (en_name e) st1 st2" "ls_tasks st2 = ls_tasks st1" "data st2 e = (data st1 e)(table_key key := None)"
    and del: "deleteLocalEntity e key st1 =
      act_bind (act_forEach (delete_index_entry (en_name e) key i) (en_indices e)) (\<lambda>_. act_return True) st2"
    by blast
  obtain st3 r3 where st3: "act_forEach (delete_index_entry (en_name e) key i) (en_indices e) st2 = (st3, r3)"
    by (cases "act_forEach (delete_index_entry (en_name e) key i) (en_indices e) st2")
  have changed: "indices_changed (en_name e) st2 st3" by (rule forEach_delete_index_changes [OF st3])
  have result: "(st', r) = (case r3 of Inl err \<Rightarrow> (st3, Inl err) | Inr _ \<Rightarrow> (pushWorkflowTask (remove_event e key i) st3, Inr ()))"
    using run st1 get(2) i ok del st3 by (cases r3) (auto simp: deleteSync_def act_bind_def remove_event_def split: if_splits)
  have "data st3 e = (data st e)(table_key key := None)" "ls_tasks st3 = ls_tasks st"
    using changed st2 get(1) by (simp_all add: indices_changed_def same_entries_def)
  moreover have "others_kept (en_name e) st2 st3" using changed by (simp add: indices_changed_def others_kept_def)
  then have "others_kept (en_name e) st st3"
    using same_entries_others [OF get(1)] st2(1) by (blast intro: others_kept_trans)
  ultimately show "data st' e = (data st e)(table_key key := None)" "others_kept (en_name e) st st'"
    "r = Inr u \<Longrightarrow> ls_tasks st' = ls_tasks st @ [remove_event e key i]" "r = Inl err \<Longrightarrow> ls_tasks st' = ls_tasks st"
    using result by (cases r3; simp add: others_kept_def)+
  assume "indexable e (em_value i)"
  then have "\<exists>s'. act_forEach (delete_index_entry (en_name e) key i) (en_indices e) st2 = (s', Inr ())"
    by (intro forEach_returns)
      (auto simp: indexable_def list_all_iff delete_index_entry_def getLocalEntityStore_def act_lift_bind isl_def
        split: sum.split)
  with st3 result show "r = Inr ()" by simp
qed

section \<open>Transactional writes\<close>

definition item_location :: "norm_transact_item \<Rightarrow> location" where
  "item_location item = (en_name (item_entity item), table_key (item_key item))"

fun item_effect :: "norm_transact_item \<Rightarrow> (location \<Rightarrow> entity_item option) \<Rightarrow> location \<Rightarrow> entity_item option" where
  "item_effect (NormPut e k v o') m =
     (let l = (en_name e, table_key k) in m(l \<mapsto> \<lparr>em_value = v, em_version = new_version o' (m l)\<rparr>))"
| "item_effect (NormDelete e k o') m = m((en_name e, table_key k) := None)"
| "item_effect (NormCondition e k version) m = m"

fun item_events :: "norm_transact_item \<Rightarrow> entity_item option \<Rightarrow> stream_item list" where
  "item_events (NormPut e k v o') old = [put_event e k v o' old]"
| "item_events (NormDelete e k o') old = (case old of None \<Rightarrow> [] | Some i \<Rightarrow> [remove_event e k i])"
| "item_events (NormCondition e k version) old = []"

definition item_expected :: "norm_transact_item \<Rightarrow> (location \<Rightarrow> entity_item option) \<Rightarrow> bool" where
  "item_expected item m \<longleftrightarrow> expected (item_expectedVersion item) (m (item_location item))"

text \<open>The indices can be computed for the new value and for the value it replaces.\<close>

definition item_indexable :: "norm_transact_item \<Rightarrow> (location \<Rightarrow> entity_item option) \<Rightarrow> bool" where
  "item_indexable item m \<longleftrightarrow>
     (case item of NormPut e k v o' \<Rightarrow> indexable e v | _ \<Rightarrow> True) \<and>
     (case m (item_location item) of None \<Rightarrow> True | Some i \<Rightarrow> indexable (item_entity item) (em_value i))"

lemma write_item_effect:
  assumes "item_expected item (stored_items st)" and "item_indexable item (stored_items st)"
  shows "\<exists>st'. write_item item st = (st', Inr ()) \<and> stored_items st' = item_effect item (stored_items st) \<and>
    ls_tasks st' = ls_tasks st @ item_events item (stored_items st (item_location item))"
proof (cases item)
  case (NormPut e k v o')
  have ok: "expected (po_expectedVersion o') (data st e (table_key k))" and v: "indexable e v"
    and old: "\<And>i. data st e (table_key k) = Some i \<Longrightarrow> indexable e (em_value i)"
    using assms NormPut by (simp_all add: item_expected_def item_indexable_def item_location_def data_stored)
  from putSync_returns [OF ok v old] obtain st' where
    st': "putSync e v k o' st = (st', Inr (new_version o' (data st e (table_key k))))" by blast
  note effect = putSync_expected [OF ok st']
  show ?thesis
    using st' data_update_stored [OF effect(1,2)] effect(3) [OF HOL.refl] NormPut
    by (simp add: item_location_def data_stored Let_def)
next
  case (NormDelete e k o')
  show ?thesis
  proof (cases "data st e (table_key k)")
    case None
    from deleteSync_missing [OF None] obtain st' where
      "deleteSync e k o' st = (st', Inr ())" "same_entries st st'" by blast
    then show ?thesis
      using NormDelete None same_entries_stored [of st st']
      by (auto simp: item_location_def data_stored same_entries_def fun_upd_idem)
  next
    case (Some i)
    then have ok: "o' = None \<or> o' = Some (em_version i)" and ix: "indexable e (em_value i)"
      using assms NormDelete
      by (auto simp: item_expected_def item_indexable_def item_location_def data_stored expected_def version_of_def)
    obtain st' r where run: "deleteSync e k o' st = (st', r)" by (cases "deleteSync e k o' st")
    note effect = deleteSync_expected [OF Some ok run]
    show ?thesis
      using run effect(3) effect(5) [OF ix] data_update_stored [OF effect(1,2)] NormDelete Some
      by (simp add: item_location_def data_stored)
  qed
next
  case (NormCondition e k version)
  then show ?thesis by simp
qed

lemma item_effect_elsewhere: "l \<noteq> item_location item \<Longrightarrow> item_effect item m l = m l"
  by (cases item) (auto simp: item_location_def Let_def)

definition items_effect :: "norm_transact_item list \<Rightarrow> (location \<Rightarrow> entity_item option) \<Rightarrow> location \<Rightarrow> entity_item option" where
  "items_effect items m = fold item_effect items m"

lemma write_items_effect:
  assumes "distinct (map item_location items)"
    and "\<And>i. i \<in> set items \<Longrightarrow> item_expected i (stored_items st) \<and> item_indexable i (stored_items st)"
  shows "\<exists>st'. act_forEach write_item items st = (st', Inr ()) \<and> stored_items st' = items_effect items (stored_items st) \<and>
    ls_tasks st' = ls_tasks st @ concat (map (\<lambda>i. item_events i (stored_items st (item_location i))) items)"
  using assms
proof (induction items arbitrary: st)
  case Nil
  then show ?case by (simp add: items_effect_def)
next
  case (Cons item items)
  from write_item_effect [of item st] Cons.prems(2) obtain st1 where
    st1: "write_item item st = (st1, Inr ())" "stored_items st1 = item_effect item (stored_items st)"
      "ls_tasks st1 = ls_tasks st @ item_events item (stored_items st (item_location item))"
    by auto
  have same: "stored_items st1 (item_location i) = stored_items st (item_location i)" if "i \<in> set items" for i
  proof -
    have "item_location item \<notin> item_location ` set items" using Cons.prems(1) by simp
    with that have "item_location i \<noteq> item_location item" by (metis imageI)
    then show ?thesis unfolding st1(2) by (rule item_effect_elsewhere)
  qed
  then have "item_expected i (stored_items st1) \<and> item_indexable i (stored_items st1)" if "i \<in> set items" for i
    using Cons.prems(2) [of i] that by (simp add: item_expected_def item_indexable_def)
  from Cons.IH [OF _ this] Cons.prems(1) obtain st' where
    "act_forEach write_item items st1 = (st', Inr ())" "stored_items st' = items_effect items (stored_items st1)"
    "ls_tasks st' = ls_tasks st1 @ concat (map (\<lambda>i. item_events i (stored_items st1 (item_location i))) items)"
    by auto
  moreover have "map (\<lambda>i. item_events i (stored_items st1 (item_location i))) items =
      map (\<lambda>i. item_events i (stored_items st (item_location i))) items" using same by simp
  note this [unfolded st1(2)]
  ultimately show ?case using st1(1,2,3) by (simp add: items_effect_def del: map_eq_conv)
qed

lemma check_item_result:
  "\<exists>st'. check_item item st = (st', item_expected item (stored_items st)) \<and> same_entries st st'"
proof (cases "item_expectedVersion item")
  case None
  then show ?thesis by (simp add: check_item_def item_expected_def expected_def)
next
  case (Some v)
  obtain st' r where st': "getWithMetadataSync (item_entity item) (item_key item) st = (st', r)"
    by (cases "getWithMetadataSync (item_entity item) (item_key item) st")
  from getWithMetadataSync_entries [OF st'] st' Some show ?thesis
    by (auto simp: check_item_def item_expected_def expected_def version_of_def item_location_def data_stored)
qed

lemma check_items_result:
  "\<exists>st'. check_items items st = (st', map (\<lambda>i. item_expected i (stored_items st)) items) \<and> same_entries st st'"
proof (induction items arbitrary: st)
  case Nil
  then show ?case by simp
next
  case (Cons item items)
  from check_item_result [of item st] obtain st1 where
    st1: "check_item item st = (st1, item_expected item (stored_items st))" "same_entries st st1" by blast
  from Cons.IH [of st1] obtain st' where
    "check_items items st1 = (st', map (\<lambda>i. item_expected i (stored_items st1)) items)" "same_entries st1 st'" by blast
  then show ?case using st1 same_entries_stored [OF st1(2)] same_entries_trans by (auto intro: same_entries_trans)
qed

lemma transactWriteSync_atomic:
  assumes distinct: "distinct (map item_location items)"
    and ix: "\<And>i. i \<in> set items \<Longrightarrow> item_indexable i (stored_items st)"
  shows "if \<forall>i \<in> set items. item_expected i (stored_items st)
    then \<exists>st'. transactWriteSync items st = (st', Inr Committed) \<and>
      stored_items st' = items_effect items (stored_items st) \<and>
      ls_tasks st' = ls_tasks st @ concat (map (\<lambda>i. item_events i (stored_items st (item_location i))) items)
    else \<exists>st' reasons. transactWriteSync items st = (st', Inr (Cancelled reasons)) \<and> same_entries st st' \<and>
      map (\<lambda>r. r = None) reasons = map (\<lambda>i. item_expected i (stored_items st)) items"
proof -
  from check_items_result [of items st] obtain st1 where
    st1: "check_items items st = (st1, map (\<lambda>i. item_expected i (stored_items st)) items)" "same_entries st st1" by blast
  have eq: "stored_items st1 = stored_items st" by (rule same_entries_stored [OF st1(2)])
  show ?thesis
  proof (cases "\<forall>i \<in> set items. item_expected i (stored_items st)")
    case True
    from write_items_effect [OF distinct, of st1] True ix eq obtain st' where
      "act_forEach write_item items st1 = (st', Inr ())" "stored_items st' = items_effect items (stored_items st)"
      "ls_tasks st' = ls_tasks st1 @ concat (map (\<lambda>i. item_events i (stored_items st (item_location i))) items)"
      by auto
    with True st1 show ?thesis by (auto simp: transactWriteSync_def list_all_iff same_entries_def)
  next
    case False
    with st1 show ?thesis by (auto simp: transactWriteSync_def list_all_iff comp_def)
  qed
qed

end
