(* ===== verification/LocalStoreStreams.thy ===== *)
theory LocalStoreStreams
  imports LocalStoreLaws
begin

text \<open>
  Sequences of operations on the local entity store and the locale of the properties they keep
  (\<open>store_invariant\<close>); its stream events, from which a consumer can rebuild it; and transactional
  writes, which are atomic on different items.
\<close>

section \<open>Sequences of operations\<close>

datatype store_op =
    DoPut string js put_options
  | DoDelete string js "int option"
  | DoTransactWrite "transact_item list"

text \<open>A client's operation, whatever it returns or throws.\<close>

definition run_op :: "entity_provider \<Rightarrow> store_op \<Rightarrow> local_store \<Rightarrow> local_store" where
  "run_op provider op st =
     (case op of
        DoPut name v options \<Rightarrow> fst (put provider name v options st)
      | DoDelete name key v \<Rightarrow> fst (delete provider name key v st)
      | DoTransactWrite items \<Rightarrow> fst (transactWrite provider items st))"

definition run_ops :: "entity_provider \<Rightarrow> store_op list \<Rightarrow> local_store \<Rightarrow> local_store" where
  "run_ops provider ops st = fold (run_op provider) ops st"

text \<open>Entities are registered under their name, and no attribute occurs twice in a key.\<close>

definition good_provider :: "entity_provider \<Rightarrow> bool" where
  "good_provider provider \<longleftrightarrow>
     (\<forall>n e. provider n = Some e \<longrightarrow> en_name e = n \<and> distinct (key_attributes (en_key e)))"

text \<open>The value of a put has index keys: its index attributes are no objects.\<close>

definition indexable_in :: "entity_provider \<Rightarrow> string \<Rightarrow> js \<Rightarrow> bool" where
  "indexable_in provider n v \<longleftrightarrow> (case provider n of None \<Rightarrow> True | Some e \<Rightarrow> indexable e v)"

fun op_indexable :: "entity_provider \<Rightarrow> store_op \<Rightarrow> bool" where
  "op_indexable provider (DoPut name v options) = indexable_in provider name v"
| "op_indexable provider (DoDelete name key v) = True"
| "op_indexable provider (DoTransactWrite items) =
     list_all (\<lambda>i. case i of TransactPut name v options \<Rightarrow> indexable_in provider name v | _ \<Rightarrow> True) items"

text \<open>The keys an operation writes or removes items under.\<close>

definition named_key :: "entity_provider \<Rightarrow> string \<Rightarrow> js \<Rightarrow> (string \<times> norm_key) list" where
  "named_key provider n k =
     (case entity_and_key provider n k [] of Inl err \<Rightarrow> [] | Inr (e, key) \<Rightarrow> [(n, key)])"

fun item_keys :: "entity_provider \<Rightarrow> transact_item \<Rightarrow> (string \<times> norm_key) list" where
  "item_keys provider (TransactPut n v options) = named_key provider n v"
| "item_keys provider (TransactDelete n k options) = named_key provider n k"
| "item_keys provider (TransactCondition n k version) = []"

fun op_keys :: "entity_provider \<Rightarrow> store_op \<Rightarrow> (string \<times> norm_key) list" where
  "op_keys provider (DoPut n v options) = named_key provider n v"
| "op_keys provider (DoDelete n k x) = named_key provider n k"
| "op_keys provider (DoTransactWrite items) = concat (map (item_keys provider) items)"

text \<open>
  A step of a sequence writes or removes one item. A property of the store that single writes and
  removals keep is kept by every operation.
\<close>

lemma entity_and_key_Inr:
  "entity_and_key provider n k m = Inr (e, key) \<longleftrightarrow>
     provider n = Some e \<and> normalizeCompositeKey (en_key e) k = Inr key \<and> isCompleteKey key"
  by (auto simp: entity_and_key_def getEntity_def try_bind_def split: option.splits sum.splits)

lemma entity_and_key_message: "entity_and_key provider n k m = Inr ek \<Longrightarrow> entity_and_key provider n k m' = Inr ek"
  by (cases ek) (simp add: entity_and_key_Inr)

lemma named_key_Inr: "entity_and_key provider n k m = Inr (e, key) \<Longrightarrow> named_key provider n k = [(n, key)]"
  by (drule entity_and_key_message [where m' = "[]"]) (simp add: named_key_def)

locale store_invariant =
  fixes provider :: entity_provider
    and admits :: "string \<times> norm_key \<Rightarrow> bool"
    and inv :: "local_store \<Rightarrow> bool"
  assumes inv_get: "inv st \<Longrightarrow> getWithMetadataSync e key st = (st', i) \<Longrightarrow> inv st'"
    and inv_put: "inv st \<Longrightarrow> entity_and_key provider n v m = Inr (e, key) \<Longrightarrow> admits (n, key) \<Longrightarrow>
      indexable e v \<Longrightarrow> putSync e v key o' st = (st', r) \<Longrightarrow> inv st'"
    and inv_delete: "inv st \<Longrightarrow> entity_and_key provider n k m = Inr (e, key) \<Longrightarrow> admits (n, key) \<Longrightarrow>
      deleteSync e key x st = (st', r') \<Longrightarrow> inv st'"
begin

lemma inv_check_items: "inv st \<Longrightarrow> check_items items st = (st', oks) \<Longrightarrow> inv st'"
proof (induction items arbitrary: st oks)
  case Nil
  then show ?case by simp
next
  case (Cons item items)
  obtain s ok where s: "check_item item st = (s, ok)" by (cases "check_item item st")
  have "inv s" using Cons.prems(1) s inv_get by (auto simp: check_item_def split: option.splits prod.splits)
  then show ?case using Cons.IH Cons.prems(2) s by (auto split: prod.splits)
qed

lemma inv_write_item:
  assumes "inv st" and "normalize_item provider item = Inr i"
    and "case item of TransactPut name v options \<Rightarrow> indexable_in provider name v | _ \<Rightarrow> True"
    and "list_all admits (item_keys provider item)"
    and "write_item i st = (st', r)"
  shows "inv st'"
proof (cases item)
  case (TransactPut n v o')
  then obtain e key where "entity_and_key provider n v ''Entity key cannot be partial for set, delete, or condition operations.'' = Inr (e, key)"
    "i = NormPut e key v o'" using assms(2) by (auto simp: normalize_item_def Let_def try_bind_Inr)
  moreover obtain s r1 where "putSync e v key o' st = (s, r1)" by (cases "putSync e v key o' st")
  ultimately show ?thesis
    using inv_put [OF assms(1)] assms(3-5) TransactPut named_key_Inr [of provider n v]
    by (cases r1) (auto simp: entity_and_key_Inr indexable_in_def)
next
  case (TransactDelete n k o')
  then show ?thesis using inv_delete [OF assms(1)] assms(2,4,5) named_key_Inr [of provider n k]
    by (auto simp: normalize_item_def Let_def try_bind_Inr)
next
  case (TransactCondition n k o')
  then show ?thesis using assms by (auto simp: normalize_item_def Let_def try_bind_Inr)
qed

lemma inv_write_items:
  assumes "inv st" and "list_all2 (\<lambda>x y. normalize_item provider x = Inr y) items is'"
    and "list_all (\<lambda>i. case i of TransactPut name v options \<Rightarrow> indexable_in provider name v | _ \<Rightarrow> True) items"
    and "list_all admits (concat (map (item_keys provider) items))"
    and "act_forEach write_item is' st = (st', r)"
  shows "inv st'"
  using assms(2,1,3-5)
proof (induction arbitrary: st rule: list_all2_induct)
  case Nil
  then show ?case by simp
next
  case (Cons item items i is')
  obtain s r1 where s: "write_item i st = (s, r1)" by (cases "write_item i st")
  have "inv s" by (rule inv_write_item [OF Cons.prems(1) Cons.hyps(1) _ _ s]) (use Cons.prems(2,3) in simp_all)
  with Cons.IH [of s] Cons.prems s show ?case by (cases r1) auto
qed

lemma inv_op:
  assumes "inv st" and "op_indexable provider op" and "list_all admits (op_keys provider op)"
  shows "inv (run_op provider op st)"
proof (cases op)
  case (DoPut n v o')
  show ?thesis
  proof (cases "entity_and_key provider n v ''Key cannot be partial for set.''")
    case (Inl err)
    then show ?thesis using assms(1) by (simp add: run_op_def DoPut put_def act_lift_bind)
  next
    case (Inr ek)
    obtain e key where ek: "ek = (e, key)" by (cases ek)
    obtain s r where s: "putSync e v key o' st = (s, r)" by (cases "putSync e v key o' st")
    have "indexable e v" using assms(2) Inr ek by (simp add: DoPut indexable_in_def entity_and_key_Inr)
    moreover have "admits (n, key)" using assms(3) Inr ek by (simp add: DoPut named_key_Inr)
    ultimately have "inv s" using inv_put [OF assms(1) _ _ _ s] Inr ek by blast
    with s Inr ek show ?thesis by (simp add: run_op_def DoPut put_def act_lift_bind)
  qed
next
  case (DoDelete n k x)
  show ?thesis
  proof (cases "entity_and_key provider n k ''Key cannot be partial for delete.''")
    case (Inl err)
    then show ?thesis using assms(1) by (simp add: run_op_def DoDelete delete_def act_lift_bind)
  next
    case (Inr ek)
    obtain e key where ek: "ek = (e, key)" by (cases ek)
    obtain s r where s: "deleteSync e key x st = (s, r)" by (cases "deleteSync e key x st")
    moreover have "admits (n, key)" using assms(3) Inr ek by (simp add: DoDelete named_key_Inr)
    ultimately have "inv s" using inv_delete [OF assms(1)] Inr ek by blast
    with s Inr ek show ?thesis by (simp add: run_op_def DoDelete delete_def act_lift_bind)
  qed
next
  case (DoTransactWrite items)
  show ?thesis
  proof (cases "try_map (normalize_item provider) items")
    case (Inl err)
    then show ?thesis using assms(1) by (simp add: run_op_def DoTransactWrite transactWrite_def act_lift_bind)
  next
    case (Inr is')
    from check_items_result [of is' st] obtain s where
      s: "check_items is' st = (s, map (\<lambda>i. item_expected i (stored_items st)) is')" "same_entries st s" by blast
    have inv: "inv s" by (rule inv_check_items [OF assms(1) s(1)])
    obtain s2 r where s2: "act_forEach write_item is' s = (s2, r)" by (cases "act_forEach write_item is' s")
    have "inv s2"
      by (rule inv_write_items [OF inv _ _ _ s2])
        (use Inr assms(2,3) in \<open>simp_all add: try_map_Inr DoTransactWrite\<close>)
    with inv s s2 Inr show ?thesis
      by (cases r) (simp_all add: run_op_def DoTransactWrite transactWrite_def transactWriteSync_def act_lift_bind)
  qed
qed

lemma inv_ops:
  "inv st \<Longrightarrow> list_all (op_indexable provider) ops \<Longrightarrow>
   list_all admits (concat (map (op_keys provider) ops)) \<Longrightarrow> inv (run_ops provider ops st)"
  unfolding run_ops_def by (induction ops arbitrary: st) (simp_all add: inv_op)

end

section \<open>Stream events\<close>

text \<open>The items a consumer of the stream knows of, found by the keys of the events.\<close>

definition event_location :: "entity_provider \<Rightarrow> stream_item \<Rightarrow> location option" where
  "event_location provider item =
     (case entity_and_key provider (si_entityName item) (si_key item) [] of
        Inl err \<Rightarrow> None | Inr (e, key) \<Rightarrow> Some (en_name e, table_key key))"

definition apply_event ::
  "entity_provider \<Rightarrow> stream_item \<Rightarrow> (location \<Rightarrow> entity_item option) \<Rightarrow> location \<Rightarrow> entity_item option" where
  "apply_event provider item m =
     (case event_location provider item of
        None \<Rightarrow> m
      | Some l \<Rightarrow> m(l := map_option (\<lambda>n. \<lparr>em_value = si_newValue item, em_version = n\<rparr>) (si_newVersion item)))"

definition replay_stream :: "entity_provider \<Rightarrow> stream_item list \<Rightarrow> location \<Rightarrow> entity_item option" where
  "replay_stream provider items = fold (apply_event provider) items Map.empty"

lemma replay_stream_snoc: "replay_stream provider (items @ [item]) = apply_event provider item (replay_stream provider items)"
  by (simp add: replay_stream_def)

lemma event_location_key:
  assumes "good_provider provider" and "entity_and_key provider n k m = Inr (e, key)"
    and "si_entityName item = en_name e" and "si_key item = convertNormalizedEntityKeyToMap key"
  shows "event_location provider item = Some (en_name e, table_key key)"
proof -
  have e: "provider n = Some e" "en_name e = n" "distinct (key_attributes (en_key e))"
    and key: "normalizeCompositeKey (en_key e) k = Inr key" "isCompleteKey key"
    using assms(1,2) by (auto simp: entity_and_key_Inr good_provider_def)
  from key_map_normalizes [OF e(3) key(1)]
  have "entity_and_key provider n (convertNormalizedEntityKeyToMap key) [] = Inr (e, key)"
    by (simp add: entity_and_key_Inr e(1) key(2))
  then show ?thesis using assms(3,4) e(2) by (simp add: event_location_def)
qed

definition streamed :: "entity_provider \<Rightarrow> local_store \<Rightarrow> bool" where
  "streamed provider st \<longleftrightarrow>
     stored_items st = replay_stream provider (ls_tasks st) \<and>
     (\<forall>n e k i. provider n = Some e \<longrightarrow> stored_items st (n, k) = Some i \<longrightarrow> indexable e (em_value i))"

lemma streamed_same: "streamed provider st \<Longrightarrow> same_entries st st' \<Longrightarrow> streamed provider st'"
proof -
  assume "streamed provider st" and same: "same_entries st st'"
  moreover have "ls_tasks st' = ls_tasks st" using same by (simp add: same_entries_def)
  ultimately show ?thesis unfolding streamed_def same_entries_stored [OF same] by simp
qed

lemma streamed_put:
  assumes good: "good_provider provider" and st: "streamed provider st"
    and key: "entity_and_key provider n v m = Inr (e, key)" and ix: "indexable e v"
    and run: "putSync e v key o' st = (st', r)"
  shows "streamed provider st'"
proof -
  have e: "provider n = Some e" "en_name e = n" using good key by (auto simp: good_provider_def entity_and_key_Inr)
  show ?thesis
  proof (cases "expected (po_expectedVersion o') (data st e (table_key key))")
    case False
    from putSync_unexpected [OF False, of v] run have "same_entries st st'" by auto
    with st show ?thesis by (rule streamed_same)
  next
    case True
    note effect = putSync_expected [OF True run]
    have old: "indexable e (em_value i)" if "data st e (table_key key) = Some i" for i
      using st that e unfolding data_stored streamed_def by blast
    from putSync_returns [OF True ix old] run have r: "r = Inr (new_version o' (data st e (table_key key)))" by auto
    have stored: "stored_items st' = (stored_items st)((en_name e, table_key key) \<mapsto>
        \<lparr>em_value = v, em_version = new_version o' (data st e (table_key key))\<rparr>)"
      by (rule data_update_stored [OF effect(1,2)])
    have "event_location provider (put_event e key v o' (data st e (table_key key))) = Some (en_name e, table_key key)"
      by (rule event_location_key [OF good key]) (simp_all add: put_event_def)
    then show ?thesis
      using effect(3) [OF r] stored st ix e
      by (auto simp: streamed_def replay_stream_snoc apply_event_def put_event_def)
  qed
qed

lemma streamed_delete:
  assumes good: "good_provider provider" and st: "streamed provider st"
    and key: "entity_and_key provider n k m = Inr (e, key)"
    and run: "deleteSync e key x st = (st', r)"
  shows "streamed provider st'"
proof -
  have e: "provider n = Some e" "en_name e = n" using good key by (auto simp: good_provider_def entity_and_key_Inr)
  show ?thesis
  proof (cases "data st e (table_key key)")
    case None
    from deleteSync_missing [OF None, of x] run have "same_entries st st'" by auto
    with st show ?thesis by (rule streamed_same)
  next
    case (Some i)
    show ?thesis
    proof (cases "x = None \<or> x = Some (em_version i)")
      case False
      with deleteSync_unexpected [OF Some, of x] run have "same_entries st st'" by auto
      with st show ?thesis by (rule streamed_same)
    next
      case True
      note effect = deleteSync_expected [OF Some True run]
      have "indexable e (em_value i)" using st Some e unfolding data_stored streamed_def by blast
      then have r: "r = Inr ()" by (rule effect(5))
      have stored: "stored_items st' = (stored_items st)((en_name e, table_key key) := None)"
        by (rule data_update_stored [OF effect(1,2)])
      have "event_location provider (remove_event e key i) = Some (en_name e, table_key key)"
        by (rule event_location_key [OF good key]) (simp_all add: remove_event_def)
      then show ?thesis
        using effect(3) [OF r] stored st e
        by (auto simp: streamed_def replay_stream_snoc apply_event_def remove_event_def)
    qed
  qed
qed

interpretation stream: store_invariant provider "\<lambda>_. True" "\<lambda>st. good_provider provider \<longrightarrow> streamed provider st" for provider
  by unfold_locales (auto intro: streamed_same streamed_put streamed_delete getWithMetadataSync_entries(1))


text \<open>
  C20 (safety): a transactional write on different items happens as a whole or not at all. If
  every expected version is the version of its item, 0 for a missing one, all items are written
  and their events pushed in order; otherwise nothing changes and the reasons name exactly the
  items that were not as expected.
\<close>

theorem transact_write_is_atomic:
  assumes "try_map (normalize_item provider) items = Inr nitems"
    and "distinct (map item_location nitems)" and "\<And>i. i \<in> set nitems \<Longrightarrow> item_indexable i (stored_items st)"
  shows "if \<forall>i \<in> set nitems. item_expected i (stored_items st)
    then \<exists>st'. transactWrite provider items st = (st', Inr Committed) \<and>
      stored_items st' = items_effect nitems (stored_items st) \<and>
      ls_tasks st' = ls_tasks st @ concat (map (\<lambda>i. item_events i (stored_items st (item_location i))) nitems)
    else \<exists>st' reasons. transactWrite provider items st = (st', Inr (Cancelled reasons)) \<and>
      stored_items st' = stored_items st \<and> ls_tasks st' = ls_tasks st \<and>
      map (\<lambda>r. r = None) reasons = map (\<lambda>i. item_expected i (stored_items st)) nitems"
  using transactWriteSync_atomic [OF assms(2,3)] assms(1) same_entries_stored
  by (auto simp: transactWrite_def act_lift_bind same_entries_def split: if_splits)

definition new_item :: put_options where
  "new_item = \<lparr>po_expectedVersion = Some 0, po_incrementVersion = None\<rparr>"

text \<open>
  Two writes to one item in a transaction both pass the check that precedes the
  writes, but the second throws after the first was stored: the transaction fails and is half
  done. Here both expect the item to be new.
\<close>

theorem duplicate_items_write_partially:
  assumes key: "entity_and_key provider n v [] = Inr (e, key)" and ix: "indexable e v"
    and new: "stored_items st (en_name e, table_key key) = None"
  shows "\<exists>st' m. transactWrite provider [TransactPut n v new_item, TransactPut n v new_item] st =
      (st', Inl (mk_UnexpectedVersion m)) \<and>
    stored_items st' = (stored_items st)((en_name e, table_key key) \<mapsto> \<lparr>em_value = v, em_version = 1\<rparr>)"
proof -
  have items: "try_map (normalize_item provider) [TransactPut n v new_item, TransactPut n v new_item] =
      Inr [NormPut e key v new_item, NormPut e key v new_item]"
    using entity_and_key_message [OF key] by (simp add: normalize_item_def Let_def)
  from check_items_result [of "[NormPut e key v new_item, NormPut e key v new_item]" st] obtain st1 where
    st1: "check_items [NormPut e key v new_item, NormPut e key v new_item] st = (st1, [True, True])" "same_entries st st1"
    using new by (auto simp: item_expected_def item_location_def expected_def new_item_def version_of_def)
  have none: "data st1 e (table_key key) = None"
    using st1(2) new by (simp add: data_stored same_entries_stored)
  then have ok: "expected (po_expectedVersion new_item) (data st1 e (table_key key))"
    by (simp add: expected_def new_item_def version_of_def)
  from putSync_returns [OF ok ix] none obtain st2 where st2: "putSync e v key new_item st1 = (st2, Inr 1)"
    by (auto simp: new_version_def new_item_def version_of_def)
  note effect = putSync_expected [OF ok st2]
  have stored: "stored_items st2 = (stored_items st)((en_name e, table_key key) \<mapsto> \<lparr>em_value = v, em_version = 1\<rparr>)"
    using data_update_stored [OF effect(1,2)] none same_entries_stored [OF st1(2)]
    by (simp add: new_version_def new_item_def version_of_def)
  have "\<not> expected (po_expectedVersion new_item) (data st2 e (table_key key))"
    by (simp add: data_stored stored expected_def new_item_def version_of_def)
  from putSync_unexpected [OF this] obtain st3 m where
    st3: "putSync e v key new_item st2 = (st3, Inl (mk_UnexpectedVersion m))" "same_entries st2 st3" by blast
  show ?thesis
    using st1 st2 st3 stored same_entries_stored [OF st3(2)] items
    by (auto simp: transactWrite_def transactWriteSync_def act_lift_bind intro!: exI [of _ st3])
qed

lemma forEach_throws:
  "x \<in> set xs \<Longrightarrow> (\<And>s. isl (snd (f x s))) \<Longrightarrow> isl (snd (act_forEach f xs s))"
proof (induction xs arbitrary: s)
  case Nil
  then show ?case by simp
next
  case (Cons y ys)
  obtain s1 r where s1: "f y s = (s1, r)" by (cases "f y s")
  show ?case
  proof (cases r)
    case (Inl err)
    with s1 show ?thesis by simp
  next
    case (Inr u)
    with s1 Cons.prems(2) [of s] have "x \<noteq> y" by auto
    with Cons Inr s1 show ?thesis by simp
  qed
qed

lemma set_index_entry_throws:
  assumes "isl (normalizeCompositeKey (ix_key i) (em_value v)) \<or>
    (\<exists>o'. old = Some o' \<and> isl (normalizeCompositeKey (ix_key i) (em_value o')))"
  shows "isl (snd (set_index_entry name key old v i st))"
  using assms
  by (cases "normalizeCompositeKey (ix_key i) (em_value v)"; cases old)
    (auto simp: set_index_entry_def getLocalEntityStore_def act_lift_bind act_bind_def split: sum.splits)

lemma putSync_throws:
  assumes ok: "expected (po_expectedVersion o') (data st e (table_key key))"
    and bad: "\<not> indexable e v \<or> (\<exists>i. data st e (table_key key) = Some i \<and> \<not> indexable e (em_value i))"
  shows "\<exists>st' err. putSync e v key o' st = (st', Inl err)"
proof -
  obtain st1 q where st1: "getWithMetadataSync e key st = (st1, q)" by (cases "getWithMetadataSync e key st")
  note get = getWithMetadataSync_entries [OF st1]
  have old: "getPartitionEntry (le_data (local_entity_of st1 (en_name e))) key = data st e (table_key key)"
    using get(1) by (simp add: getPartitionEntry_entry le_data_table same_entries_def)
  obtain i where i: "i \<in> set (en_indices e)" and throws: "isl (normalizeCompositeKey (ix_key i) v) \<or>
      (\<exists>x. data st e (table_key key) = Some x \<and> isl (normalizeCompositeKey (ix_key i) (em_value x)))"
    using bad by (auto simp: indexable_def list_all_iff)
  have "isl (snd (setLocalEntity e key \<lparr>em_value = v, em_version = n\<rparr> st1))" for n
    unfolding setLocalEntity_def Let_def old
    by (rule forEach_throws [OF i], rule set_index_entry_throws) (use throws in simp)
  then obtain st2 err where "setLocalEntity e key
      \<lparr>em_value = v, em_version = new_version o' (data st e (table_key key))\<rparr> st1 = (st2, Inl err)"
    by (metis isl_def prod.collapse)
  then show ?thesis using putSync_eq [OF ok st1, of v] by simp
qed

text \<open>
  A put of a value whose index attributes cannot be a key throws, but the value is
  already stored, with a new version and without a stream event; and every later put to the same
  key throws too.
\<close>

theorem rejected_put_is_stored:
  assumes key: "entity_and_key provider n v [] = Inr (e, key)" and bad: "\<not> indexable e v"
    and ok: "expected (po_expectedVersion o') (stored_items st (en_name e, table_key key))"
  shows "\<exists>st' err. put provider n v o' st = (st', Inl err) \<and>
    stored_items st' = (stored_items st)((en_name e, table_key key) \<mapsto>
      \<lparr>em_value = v, em_version = new_version o' (stored_items st (en_name e, table_key key))\<rparr>) \<and>
    ls_tasks st' = ls_tasks st \<and>
    (\<forall>w. entity_and_key provider n w [] = Inr (e, key) \<longrightarrow> (\<exists>st'' err. put provider n w no_options st' = (st'', Inl err)))"
proof -
  have ok': "expected (po_expectedVersion o') (data st e (table_key key))" using ok by (simp add: data_stored)
  from putSync_throws [OF ok'] bad obtain st' err where st': "putSync e v key o' st = (st', Inl err)" by blast
  note effect = putSync_expected [OF ok' st']
  have stored: "stored_items st' = (stored_items st)((en_name e, table_key key) \<mapsto>
      \<lparr>em_value = v, em_version = new_version o' (stored_items st (en_name e, table_key key))\<rparr>)"
    using data_update_stored [OF effect(1,2)] by (simp add: data_stored)
  have "\<exists>st'' err. putSync e w key no_options st' = (st'', Inl err)" for w
    by (rule putSync_throws) (use bad in \<open>simp_all add: data_stored stored expected_def no_options_def\<close>)
  then have "\<exists>st'' err. put provider n w no_options st' = (st'', Inl err)"
    if "entity_and_key provider n w [] = Inr (e, key)" for w
    using entity_and_key_message [OF that] by (simp add: put_def act_lift_bind)
  with st' stored effect(4) entity_and_key_message [OF key] show ?thesis by (simp add: put_def act_lift_bind)
qed
section \<open>A sample\<close>

definition sample_entity :: entity where
  "sample_entity = \<lparr>en_name = ''users'', en_key = sample_key_def,
     en_indices = [\<lparr>ix_name = ''byMail'', ix_key =
       \<lparr>kd_partition = \<lparr>kp_type = StringKey, kp_attributes = [''mail''], kp_keyAttribute = ''mail''\<rparr>, kd_sort = None\<rparr>\<rparr>]\<rparr>"

definition sample_provider :: entity_provider where
  "sample_provider n = (if n = ''users'' then Some sample_entity else None)"

definition sample_user :: "string \<Rightarrow> int \<Rightarrow> js \<Rightarrow> js" where
  "sample_user name n mail =
     JObj [(''org'', JStr ''o''), (''user'', JStr name), (''n'', JNum n), (''mail'', mail)]"

definition sample_norm_key :: "string \<Rightarrow> int \<Rightarrow> norm_key" where
  "sample_norm_key name n =
     \<lparr>nk_partition = part_of_parts (kd_partition sample_key_def) [(''org'', JStr ''o''), (''user'', JStr name)],
      nk_sort = Some (part_of_parts (the (kd_sort sample_key_def)) [(''n'', JNum n)])\<rparr>"

lemma sample_good: "good_provider sample_provider"
  by (simp add: good_provider_def sample_provider_def sample_entity_def sample_key_def_def key_attributes_def)

lemma sample_key: "entity_and_key sample_provider ''users'' (sample_user name n mail) m =
    Inr (sample_entity, sample_norm_key name n)"
  by (simp add: entity_and_key_Inr sample_provider_def sample_entity_def sample_key_def_def sample_user_def
      normalizeCompositeKey_parts retrieve_parts_def key_value_def is_array_def js_get_def typeof_object_def
      sample_norm_key_def isCompleteKey_def isCompleteKeyPart_def part_of_parts_def missing_index_def)

lemma sample_indexable: "indexable sample_entity (sample_user name n mail) \<longleftrightarrow> \<not> typeof_object mail"
  by (simp add: indexable_def sample_entity_def sample_user_def normalizeCompositeKey_parts retrieve_parts_def
      key_value_def is_array_def js_get_def)

lemma stored_items_empty: "stored_items empty_local_store = Map.empty"
  by (simp add: empty_local_store_def stored_items_def local_entity_of_def empty_local_entity_def entry_def
      om_get_eq fun_eq_iff)

lemma not_typeof_object_JStr [simp]: "\<not> typeof_object (JStr s)" "typeof_object JNull"
  by (simp_all add: typeof_object_def)


lemma sample_location: "item_location (NormPut sample_entity (sample_norm_key name n) v o') =
    (''users'', JStr (''o#'' @ name), JNum n)"
  by (simp add: item_location_def table_key_def partition_value_def sample_norm_key_def part_of_parts_def
      missing_index_def join_hash_def sample_key_def_def skOrDefault_def sort_value_def or_else_def first_value_def
      sample_entity_def)

lemma transact_write_is_atomic_witness:
  "\<exists>st'. transactWrite sample_provider
      [TransactPut ''users'' (sample_user ''a'' 1 JUndef) new_item, TransactPut ''users'' (sample_user ''b'' 1 JUndef) new_item]
      empty_local_store = (st', Inr Committed) \<and>
    stored_items st' (''users'', JStr ''o#b'', JNum 1) =
      Some \<lparr>em_value = sample_user ''b'' 1 JUndef, em_version = 1\<rparr>"
proof -
  define nitems where "nitems = [NormPut sample_entity (sample_norm_key ''a'' 1) (sample_user ''a'' 1 JUndef) new_item,
    NormPut sample_entity (sample_norm_key ''b'' 1) (sample_user ''b'' 1 JUndef) new_item]"
  have items: "try_map (normalize_item sample_provider)
      [TransactPut ''users'' (sample_user ''a'' 1 JUndef) new_item,
       TransactPut ''users'' (sample_user ''b'' 1 JUndef) new_item] = Inr nitems"
    by (simp add: normalize_item_def sample_key nitems_def)
  have distinct: "distinct (map item_location nitems)" by (simp add: nitems_def sample_location)
  have ix: "item_indexable i (stored_items empty_local_store)" if "i \<in> set nitems" for i
    using that by (auto simp: nitems_def item_indexable_def sample_indexable stored_items_empty typeof_object_def)
  have "\<forall>i \<in> set nitems. item_expected i (stored_items empty_local_store)"
    by (simp add: nitems_def item_expected_def expected_def new_item_def version_of_def stored_items_empty)
  with transact_write_is_atomic [OF items distinct ix] obtain st' where
    "transactWrite sample_provider
      [TransactPut ''users'' (sample_user ''a'' 1 JUndef) new_item, TransactPut ''users'' (sample_user ''b'' 1 JUndef) new_item]
      empty_local_store = (st', Inr Committed)"
    "stored_items st' = items_effect nitems (stored_items empty_local_store)"
    by auto
  then show ?thesis
    using sample_location [of "''b''" 1 "sample_user ''b'' 1 JUndef" new_item]
      sample_location [of "''a''" 1 "sample_user ''a'' 1 JUndef" new_item]
    by (auto simp: items_effect_def nitems_def item_location_def Let_def new_version_def new_item_def version_of_def
        stored_items_empty)
qed

lemma duplicate_items_write_partially_witness:
  "\<exists>st' m. transactWrite sample_provider
      [TransactPut ''users'' (sample_user ''a'' 1 JUndef) new_item, TransactPut ''users'' (sample_user ''a'' 1 JUndef) new_item]
      empty_local_store = (st', Inl (mk_UnexpectedVersion m)) \<and> stored_items st' \<noteq> Map.empty"
  using duplicate_items_write_partially [OF sample_key, of "''a''" 1 JUndef empty_local_store]
  by (auto simp: sample_indexable stored_items_empty typeof_object_def)

lemma rejected_put_is_stored_witness:
  "\<exists>st' err. put sample_provider ''users'' (sample_user ''a'' 1 JNull) no_options empty_local_store = (st', Inl err) \<and>
    stored_items st' \<noteq> Map.empty \<and> ls_tasks st' = []"
proof -
  have "expected (po_expectedVersion no_options) None" by (simp add: expected_def no_options_def)
  moreover have "\<not> indexable sample_entity (sample_user ''a'' 1 JNull)" by (simp add: sample_indexable)
  moreover have "ls_tasks empty_local_store = []" by (simp add: empty_local_store_def)
  ultimately show ?thesis
    using rejected_put_is_stored [OF sample_key, of "''a''" 1 JNull no_options empty_local_store]
    by (auto simp: stored_items_empty)
qed

end
