(* ===== verification/LocalStoreIndices.thy ===== *)
theory LocalStoreIndices
  imports LocalStoreStreams
begin

text \<open>
  Indices of the local entity store mirror their table: after any operations an index holds
  exactly the stored items whose index attributes are present, and a query of an index answers
  from them.
\<close>

section \<open>What a write does to an index\<close>

text \<open>The partition of an index in which a value is found, if it has the index's attributes.\<close>

definition index_partition :: "entity_index \<Rightarrow> js \<Rightarrow> js option" where
  "index_partition i v =
     (case normalizeCompositeKey (ix_key i) v of
        Inl err \<Rightarrow> None
      | Inr k \<Rightarrow> if isCompleteKey k then Some (partition_value k) else None)"

definition without_old :: "entity_index \<Rightarrow> norm_key \<Rightarrow> entity_item option \<Rightarrow> (js \<times> js \<Rightarrow> entity_item option) \<Rightarrow> js \<times> js \<Rightarrow> entity_item option" where
  "without_old i key old m =
     (case old of
        None \<Rightarrow> m
      | Some x \<Rightarrow> (case index_partition i (em_value x) of
            None \<Rightarrow> m | Some pk \<Rightarrow> m((pk, computeUniqueTableIdentifier key) := None)))"

definition with_new :: "entity_index \<Rightarrow> norm_key \<Rightarrow> entity_item \<Rightarrow> (js \<times> js \<Rightarrow> entity_item option) \<Rightarrow> js \<times> js \<Rightarrow> entity_item option" where
  "with_new i key v m =
     (case index_partition i (em_value v) of
        None \<Rightarrow> m | Some pk \<Rightarrow> m((pk, computeUniqueTableIdentifier key) \<mapsto> v))"

lemma delete_entry_fst: "entry (fst (delete_entry pk k tm)) = (entry tm)((pk, k) := None)"
  using entry_delete_entry [of pk k tm] by (cases "delete_entry pk k tm") auto

lemma set_index_entry_effect:
  assumes v: "\<not> isl (normalizeCompositeKey (ix_key i) (em_value v))"
    and old: "\<And>o'. old = Some o' \<Longrightarrow> \<not> isl (normalizeCompositeKey (ix_key i) (em_value o'))"
    and run: "set_index_entry name key old v i st = (st', r)"
  shows "r = Inr ()" and "entry (table_of st' (TheIndex name i)) =
      with_new i key v (without_old i key old (entry (table_of st (TheIndex name i))))"
    and "table_id e \<noteq> (name, Some (ix_name i)) \<Longrightarrow> table_of st' e = table_of st e"
proof -
  obtain nk where nk: "normalizeCompositeKey (ix_key i) (em_value v) = Inr nk" using v by (cases "normalizeCompositeKey (ix_key i) (em_value v)") auto
  define tm where "tm = table_of st (TheIndex name i)"
  define tm1 where "tm1 = (case old of None \<Rightarrow> tm | Some x \<Rightarrow>
     (case normalizeCompositeKey (ix_key i) (em_value x) of Inl err \<Rightarrow> tm
      | Inr ok \<Rightarrow> if isCompleteKey ok then fst (deleteIndexPartitionEntry tm key ok) else tm))"
  define tm2 where "tm2 = (if isCompleteKey nk then updateIndexPartitionEntry tm1 key nk v else tm1)"
  have result: "st' = put_table (TheIndex name i) tm2 (put_table (TheIndex name i) tm st) \<and> r = Inr ()"
  proof (cases old)
    case None
    then show ?thesis using run nk
      by (auto simp: set_index_entry_def getLocalEntityStore_def act_lift_bind act_bind_def tm1_def tm2_def tm_def)
  next
    case (Some x)
    with old obtain ok where ok: "normalizeCompositeKey (ix_key i) (em_value x) = Inr ok"
      by (cases "normalizeCompositeKey (ix_key i) (em_value x)") auto
    show ?thesis using run nk ok Some
      by (auto simp: set_index_entry_def getLocalEntityStore_def act_lift_bind act_bind_def tm1_def tm2_def tm_def)
  qed
  then show "r = Inr ()" by simp
  have "entry tm1 = without_old i key old (entry tm)"
    by (auto simp: tm1_def without_old_def index_partition_def deleteIndexPartitionEntry_def delete_entry_fst
        split: option.split sum.split)
  then have "entry tm2 = with_new i key v (without_old i key old (entry tm))"
    by (simp add: tm2_def with_new_def index_partition_def nk updateIndexPartitionEntry_def entry_set_entry)
  with result show "entry (table_of st' (TheIndex name i)) =
      with_new i key v (without_old i key old (entry (table_of st (TheIndex name i))))"
    by (simp add: tm_def)
  assume "table_id e \<noteq> (name, Some (ix_name i))"
  with result show "table_of st' e = table_of st e" by auto
qed

lemma forEach_index_effect:
  assumes f: "\<And>i s s' r. i \<in> set is' \<Longrightarrow> f i s = (s', r) \<Longrightarrow>
      r = Inr () \<and> entry (table_of s' (TheIndex name i)) = g i (entry (table_of s (TheIndex name i))) \<and>
      (\<forall>e. table_id e \<noteq> (name, Some (ix_name i)) \<longrightarrow> table_of s' e = table_of s e)"
    and distinct: "distinct (map ix_name is')" and run: "act_forEach f is' st = (st', r)"
  shows "r = Inr () \<and>
    (\<forall>i \<in> set is'. entry (table_of st' (TheIndex name i)) = g i (entry (table_of st (TheIndex name i)))) \<and>
    (\<forall>e. table_id e \<notin> (\<lambda>i. (name, Some (ix_name i))) ` set is' \<longrightarrow> table_of st' e = table_of st e)"
  using assms
proof (induction is' arbitrary: st)
  case Nil
  then show ?case by simp
next
  case (Cons i is')
  obtain s1 r1 where s1: "f i st = (s1, r1)" by (cases "f i st")
  from Cons.prems(1) [OF _ s1] have step: "r1 = Inr ()"
    "entry (table_of s1 (TheIndex name i)) = g i (entry (table_of st (TheIndex name i)))"
    "\<And>e. table_id e \<noteq> (name, Some (ix_name i)) \<Longrightarrow> table_of s1 e = table_of st e" by auto
  have run: "act_forEach f is' s1 = (st', r)" using Cons.prems(3) s1 step(1) by simp
  have ih: "r = Inr () \<and>
      (\<forall>j \<in> set is'. entry (table_of st' (TheIndex name j)) = g j (entry (table_of s1 (TheIndex name j)))) \<and>
      (\<forall>e. table_id e \<notin> (\<lambda>i. (name, Some (ix_name i))) ` set is' \<longrightarrow> table_of st' e = table_of s1 e)"
  proof (rule Cons.IH [OF _ _ run])
    show "distinct (map ix_name is')" using Cons.prems(2) by simp
  qed (rule Cons.prems(1), simp_all)
  have i: "ix_name i \<notin> ix_name ` set is'" using Cons.prems(2) by simp
  then have "table_id (TheIndex name i) \<notin> (\<lambda>i. (name, Some (ix_name i))) ` set is'" by auto
  with ih step have "entry (table_of st' (TheIndex name i)) = g i (entry (table_of st (TheIndex name i)))" by simp
  moreover have "table_of s1 (TheIndex name j) = table_of st (TheIndex name j)" if "j \<in> set is'" for j
  proof -
    have "ix_name j \<noteq> ix_name i" using i that by (metis imageI)
    then show ?thesis by (intro step(3)) simp
  qed
  ultimately show ?case using ih step(3) by auto
qed

lemma putSync_index_effect:
  assumes ok: "expected (po_expectedVersion o') (data st e (table_key key))"
    and v: "indexable e v" and old: "\<And>i. data st e (table_key key) = Some i \<Longrightarrow> indexable e (em_value i)"
    and distinct: "distinct (map ix_name (en_indices e))"
    and run: "putSync e v key o' st = (st', r)" and i: "i \<in> set (en_indices e)"
  shows "entry (table_of st' (TheIndex (en_name e) i)) =
    with_new i key \<lparr>em_value = v, em_version = new_version o' (data st e (table_key key))\<rparr>
      (without_old i key (data st e (table_key key)) (entry (table_of st (TheIndex (en_name e) i))))"
proof -
  define x where "x = \<lparr>em_value = v, em_version = new_version o' (data st e (table_key key))\<rparr>"
  obtain st1 q where st1: "getWithMetadataSync e key st = (st1, q)" by (cases "getWithMetadataSync e key st")
  note get = getWithMetadataSync_entries [OF st1]
  obtain st2 r2 where st2: "setLocalEntity e key x st1 = (st2, r2)" by (cases "setLocalEntity e key x st1")
  have old1: "getPartitionEntry (table_of st1 (TheEntity e)) key = data st e (table_key key)"
    using get(1) by (simp add: getPartitionEntry_entry same_entries_def)
  define s where "s = put_table (TheEntity e) (updatePartitionEntry (table_of st1 (TheEntity e)) key x) st1"
  have "act_forEach (set_index_entry (en_name e) key (data st e (table_key key)) x) (en_indices e) s = (st2, r2)"
    using st2 old1 by (simp add: setLocalEntity_def Let_def le_data_table s_def)
  note run2 = this
  have step: "r' = Inr () \<and> entry (table_of s2 (TheIndex (en_name e) j)) =
      with_new j key x (without_old j key (data st e (table_key key)) (entry (table_of s1 (TheIndex (en_name e) j)))) \<and>
      (\<forall>e'. table_id e' \<noteq> (en_name e, Some (ix_name j)) \<longrightarrow> table_of s2 e' = table_of s1 e')"
    if j: "j \<in> set (en_indices e)" and s2: "set_index_entry (en_name e) key (data st e (table_key key)) x j s1 = (s2, r')"
    for j s1 s2 r'
  proof -
    have "\<not> isl (normalizeCompositeKey (ix_key j) (em_value x))" using v j by (simp add: indexable_def list_all_iff x_def)
    moreover have "\<not> isl (normalizeCompositeKey (ix_key j) (em_value y))" if "data st e (table_key key) = Some y" for y
      using old [OF that] j by (simp add: indexable_def list_all_iff)
    ultimately show ?thesis using set_index_entry_effect [OF _ _ s2] by blast
  qed
  from forEach_index_effect [OF step distinct run2]
  have effect: "\<forall>i \<in> set (en_indices e). entry (table_of st2 (TheIndex (en_name e) i)) =
      with_new i key x (without_old i key (data st e (table_key key)) (entry (table_of s (TheIndex (en_name e) i))))"
    and r2: "r2 = Inr ()" by simp_all
  have "table_of st' = table_of st2"
    using run putSync_eq [OF ok st1, of v] st2 r2 by (auto simp: x_def fun_eq_iff)
  moreover have "entry (table_of s (TheIndex (en_name e) i)) = entry (table_of st (TheIndex (en_name e) i))"
    using get(1) by (simp add: s_def same_entries_def)
  ultimately show ?thesis using effect i by (simp add: x_def)
qed

lemma delete_index_effect:
  assumes i: "data st e (table_key key) = Some x" and ok: "v = None \<or> v = Some (em_version x)"
    and ix: "indexable e (em_value x)" and distinct: "distinct (map ix_name (en_indices e))"
    and run: "deleteSync e key v st = (st', r)" and j: "j \<in> set (en_indices e)"
  shows "entry (table_of st' (TheIndex (en_name e) j)) =
    without_old j key (Some x) (entry (table_of st (TheIndex (en_name e) j)))"
proof -
  obtain st1 q where st1: "getWithMetadataSync e key st = (st1, q)" by (cases "getWithMetadataSync e key st")
  note get = getWithMetadataSync_entries [OF st1]
  obtain tm deleted where tm: "deletePartitionEntry (table_of st1 (TheEntity e)) key = (tm, deleted)"
    by (cases "deletePartitionEntry (table_of st1 (TheEntity e)) key")
  have x1: "getPartitionEntry (table_of st1 (TheEntity e)) key = Some x"
    using get(1) i by (simp add: getPartitionEntry_entry same_entries_def)
  define s where "s = put_table (TheEntity e) tm st1"
  obtain st2 r2 where run2: "act_forEach (delete_index_entry (en_name e) key x) (en_indices e) s = (st2, r2)"
    by (cases "act_forEach (delete_index_entry (en_name e) key x) (en_indices e) s")
  have step: "r' = Inr () \<and> entry (table_of s2 (TheIndex (en_name e) j)) =
      without_old j key (Some x) (entry (table_of s1 (TheIndex (en_name e) j))) \<and>
      (\<forall>e'. table_id e' \<noteq> (en_name e, Some (ix_name j)) \<longrightarrow> table_of s2 e' = table_of s1 e')"
    if j: "j \<in> set (en_indices e)" and s2: "delete_index_entry (en_name e) key x j s1 = (s2, r')" for j s1 s2 r'
  proof -
    obtain nk where nk: "normalizeCompositeKey (ix_key j) (em_value x) = Inr nk"
      using ix j by (cases "normalizeCompositeKey (ix_key j) (em_value x)") (auto simp: indexable_def list_all_iff)
    have "s2 = put_table (TheIndex (en_name e) j) (if isCompleteKey nk
          then fst (deleteIndexPartitionEntry (table_of s1 (TheIndex (en_name e) j)) key nk)
          else table_of s1 (TheIndex (en_name e) j))
        (put_table (TheIndex (en_name e) j) (table_of s1 (TheIndex (en_name e) j)) s1) \<and> r' = Inr ()"
      using s2 nk by (auto simp: delete_index_entry_def getLocalEntityStore_def act_lift_bind)
    then show ?thesis
      using nk by (simp add: without_old_def index_partition_def deleteIndexPartitionEntry_def delete_entry_fst)
  qed
  from forEach_index_effect [OF step distinct run2]
  have effect: "\<forall>i \<in> set (en_indices e). entry (table_of st2 (TheIndex (en_name e) i)) =
      without_old i key (Some x) (entry (table_of s (TheIndex (en_name e) i)))" and r2: "r2 = Inr ()" by simp_all
  have "deleteLocalEntity e key st1 = (st2, Inr deleted)"
    using x1 tm run2 r2 by (simp add: deleteLocalEntity_def le_data_table s_def)
  moreover have "q = Some x" using get(2) i by simp
  ultimately have "table_of st' = table_of st2"
    using run st1 ok by (auto simp: deleteSync_def fun_eq_iff act_bind_def split: if_splits)
  moreover have "entry (table_of s (TheIndex (en_name e) j)) = entry (table_of st (TheIndex (en_name e) j))"
    using get(1) by (simp add: s_def same_entries_def)
  ultimately show ?thesis using effect j by simp
qed

section \<open>The invariant\<close>

text \<open>
  Table keys are told apart by the identifiers that the indices use: no two of the keys have the
  same text. It fails, for instance, for partition keys that contain the separator.
\<close>

definition told_apart :: "(string \<times> norm_key) list \<Rightarrow> bool" where
  "told_apart keys \<longleftrightarrow> list_all (\<lambda>(n, key). list_all (\<lambda>(n', key'). n = n' \<longrightarrow>
     (computeUniqueTableIdentifier key = computeUniqueTableIdentifier key') = (table_key key = table_key key')) keys) keys"

definition distinct_indices :: "entity_provider \<Rightarrow> bool" where
  "distinct_indices provider \<longleftrightarrow> (\<forall>n e. provider n = Some e \<longrightarrow> distinct (map ix_name (en_indices e)))"

text \<open>Every item is stored under its own key, one of the given ones.\<close>

definition well_keyed :: "entity_provider \<Rightarrow> (string \<times> norm_key) list \<Rightarrow> local_store \<Rightarrow> bool" where
  "well_keyed provider keys st \<longleftrightarrow>
     (\<forall>n e k x. provider n = Some e \<longrightarrow> stored_items st (n, k) = Some x \<longrightarrow> indexable e (em_value x) \<and>
        (\<exists>key. entity_and_key provider n (em_value x) [] = Inr (e, key) \<and> table_key key = k \<and> (n, key) \<in> set keys))"

definition mirrors :: "entity_provider \<Rightarrow> string \<Rightarrow> entity_index \<Rightarrow> (location \<Rightarrow> entity_item option) \<Rightarrow> (js \<times> js \<Rightarrow> entity_item option) \<Rightarrow> bool" where
  "mirrors provider n i items index \<longleftrightarrow>
     (\<forall>pk u x. index (pk, u) = Some x \<longleftrightarrow>
        (\<exists>e key. entity_and_key provider n (em_value x) [] = Inr (e, key) \<and> items (n, table_key key) = Some x \<and>
           u = computeUniqueTableIdentifier key \<and> index_partition i (em_value x) = Some pk))"

definition mirrored :: "entity_provider \<Rightarrow> (string \<times> norm_key) list \<Rightarrow> local_store \<Rightarrow> bool" where
  "mirrored provider keys st \<longleftrightarrow> well_keyed provider keys st \<and>
     (\<forall>n e i. provider n = Some e \<longrightarrow> i \<in> set (en_indices e) \<longrightarrow>
        mirrors provider n i (stored_items st) (entry (table_of st (TheIndex n i))))"

lemma told_apart_keys:
  "told_apart keys \<Longrightarrow> (n, key) \<in> set keys \<Longrightarrow> (n, key') \<in> set keys \<Longrightarrow>
   computeUniqueTableIdentifier key = computeUniqueTableIdentifier key' \<longleftrightarrow> table_key key = table_key key'"
  by (fastforce simp: told_apart_def list_all_iff)

text \<open>Replacing the item of a key: the index loses the old entry and gains the new one.\<close>

lemma mirrors_step:
  assumes mirrors: "mirrors provider n i items index"
    and index: "\<And>pk u x. index' (pk, u) = Some x \<longleftrightarrow>
      (u = U \<and> P pk x) \<or> (u \<noteq> U \<and> index (pk, u) = Some x)"
    and items: "\<And>e key x. entity_and_key provider n (em_value x) [] = Inr (e, key) \<Longrightarrow>
      items' (n, table_key key) = Some x \<longleftrightarrow>
      (computeUniqueTableIdentifier key = U \<and> Q x) \<or>
      (computeUniqueTableIdentifier key \<noteq> U \<and> items (n, table_key key) = Some x)"
    and new: "\<And>pk x. P pk x \<longleftrightarrow> Q x \<and> index_partition i (em_value x) = Some pk"
    and own: "\<And>x. Q x \<Longrightarrow> \<exists>e key. entity_and_key provider n (em_value x) [] = Inr (e, key) \<and> computeUniqueTableIdentifier key = U"
  shows "mirrors provider n i items' index'"
  unfolding mirrors_def
proof (intro allI)
  fix pk u and x :: entity_item
  define R where "R its \<longleftrightarrow> (\<exists>e key. entity_and_key provider n (em_value x) [] = Inr (e, key) \<and>
      its (n, table_key key) = Some x \<and> u = computeUniqueTableIdentifier key \<and> index_partition i (em_value x) = Some pk)"
    for its
  have old: "index (pk, u) = Some x \<longleftrightarrow> R items" using mirrors unfolding mirrors_def R_def by blast
  have "index' (pk, u) = Some x \<longleftrightarrow> R items'"
  proof (cases "u = U")
    case True
    have "R items' \<longleftrightarrow> Q x \<and> index_partition i (em_value x) = Some pk"
    proof
      assume "R items'"
      then show "Q x \<and> index_partition i (em_value x) = Some pk" using True items unfolding R_def by blast
    next
      assume q: "Q x \<and> index_partition i (em_value x) = Some pk"
      with own [of x] obtain e key where "entity_and_key provider n (em_value x) [] = Inr (e, key)"
        "computeUniqueTableIdentifier key = U" by blast
      with q items [of x e key] True show "R items'" unfolding R_def by blast
    qed
    moreover have "index' (pk, u) = Some x \<longleftrightarrow> P pk x" using index [of pk u x] True by simp
    ultimately show ?thesis using new [of pk x] by simp
  next
    case False
    then show ?thesis using index [of pk u x] old items [of x] unfolding R_def by blast
  qed
  then show "index' (pk, u) = Some x \<longleftrightarrow> (\<exists>e key. entity_and_key provider n (em_value x) [] = Inr (e, key) \<and>
      items' (n, table_key key) = Some x \<and> u = computeUniqueTableIdentifier key \<and> index_partition i (em_value x) = Some pk)"
    unfolding R_def .
qed

lemma well_keyed_owner:
  assumes "well_keyed provider keys st" and "provider n = Some e" and "stored_items st (n, k) = Some x"
    and "entity_and_key provider n (em_value x) [] = Inr (e', key)"
  shows "table_key key = k \<and> (n, key) \<in> set keys"
  using assms unfolding well_keyed_def by fastforce

lemma mirrors_index_at_key:
  assumes apart: "told_apart keys" and keyed: "well_keyed provider keys st" and e: "provider n = Some e"
    and key: "(n, key) \<in> set keys" and mirrors: "mirrors provider n i (stored_items st) index"
    and y: "index (pk, computeUniqueTableIdentifier key) = Some y"
  shows "stored_items st (n, table_key key) = Some y \<and> index_partition i (em_value y) = Some pk"
proof -
  obtain e' key' where y: "entity_and_key provider n (em_value y) [] = Inr (e', key')"
    "stored_items st (n, table_key key') = Some y"
    "computeUniqueTableIdentifier key = computeUniqueTableIdentifier key'" "index_partition i (em_value y) = Some pk"
    using mirrors y unfolding mirrors_def by blast
  from well_keyed_owner [OF keyed e y(2,1)] told_apart_keys [OF apart key] y(3)
  have "table_key key = table_key key'" by blast
  with y show ?thesis by simp
qed

lemma mirrors_removed:
  assumes apart: "told_apart keys" and keyed: "well_keyed provider keys st" and e: "provider n = Some e"
    and key: "(n, key) \<in> set keys" and mirrors: "mirrors provider n i (stored_items st) index"
  shows "mirrors provider n i ((stored_items st)((n, table_key key) := None))
    (without_old i key (stored_items st (n, table_key key)) index)"
proof (rule mirrors_step [OF mirrors, where U = "computeUniqueTableIdentifier key" and P = "\<lambda>_ _. False" and Q = "\<lambda>_. False"])
  fix pk u and x :: entity_item
  show "without_old i key (stored_items st (n, table_key key)) index (pk, u) = Some x \<longleftrightarrow>
      u = computeUniqueTableIdentifier key \<and> False \<or> u \<noteq> computeUniqueTableIdentifier key \<and> index (pk, u) = Some x"
    using mirrors_index_at_key [OF apart keyed e key mirrors, of pk x]
    by (auto simp: without_old_def split: option.splits)
next
  fix e' key' and x :: entity_item assume x: "entity_and_key provider n (em_value x) [] = Inr (e', key')"
  show "((stored_items st)((n, table_key key) := None)) (n, table_key key') = Some x \<longleftrightarrow>
      computeUniqueTableIdentifier key' = computeUniqueTableIdentifier key \<and> False \<or>
      computeUniqueTableIdentifier key' \<noteq> computeUniqueTableIdentifier key \<and> stored_items st (n, table_key key') = Some x"
    using well_keyed_owner [OF keyed e _ x, of "table_key key'"] told_apart_keys [OF apart key, of key'] by auto
qed simp_all

lemma mirrors_stored:
  assumes apart: "told_apart keys" and keyed: "well_keyed provider keys st" and e: "provider n = Some e"
    and key: "(n, key) \<in> set keys" and mirrors: "mirrors provider n i (stored_items st) index"
    and v: "entity_and_key provider n (em_value v) [] = Inr (e, key)"
  shows "mirrors provider n i ((stored_items st)((n, table_key key) \<mapsto> v))
    (with_new i key v (without_old i key (stored_items st (n, table_key key)) index))"
proof (rule mirrors_step [OF mirrors, where U = "computeUniqueTableIdentifier key"
      and P = "\<lambda>pk x. x = v \<and> index_partition i (em_value v) = Some pk" and Q = "\<lambda>x. x = v"])
  fix pk u and x :: entity_item
  show "with_new i key v (without_old i key (stored_items st (n, table_key key)) index) (pk, u) = Some x \<longleftrightarrow>
      u = computeUniqueTableIdentifier key \<and> x = v \<and> index_partition i (em_value v) = Some pk \<or>
      u \<noteq> computeUniqueTableIdentifier key \<and> index (pk, u) = Some x"
    using mirrors_index_at_key [OF apart keyed e key mirrors, of pk x]
    by (auto simp: without_old_def with_new_def split: option.splits)
next
  fix e' key' and x :: entity_item assume x: "entity_and_key provider n (em_value x) [] = Inr (e', key')"
  show "((stored_items st)((n, table_key key) \<mapsto> v)) (n, table_key key') = Some x \<longleftrightarrow>
      computeUniqueTableIdentifier key' = computeUniqueTableIdentifier key \<and> x = v \<or>
      computeUniqueTableIdentifier key' \<noteq> computeUniqueTableIdentifier key \<and> stored_items st (n, table_key key') = Some x"
    using well_keyed_owner [OF keyed e _ x, of "table_key key'"] told_apart_keys [OF apart key, of key'] x v by auto
qed (use v in auto)

lemma mirrored_same:
  assumes "mirrored provider keys st" and same: "same_entries st st'"
  shows "mirrored provider keys st'"
proof -
  have "entry (table_of st' e) = entry (table_of st e)" for e using same by (simp add: same_entries_def)
  then show ?thesis using assms(1) same_entries_stored [OF same] by (simp add: mirrored_def well_keyed_def)
qed

lemma mirrored_indexable:
  "mirrored provider keys st \<Longrightarrow> provider n = Some e \<Longrightarrow> stored_items st (n, k) = Some x \<Longrightarrow> indexable e (em_value x)"
  unfolding mirrored_def well_keyed_def by blast

lemma other_indices_kept:
  "others_kept n st st' \<Longrightarrow> m \<noteq> n \<Longrightarrow> entry (table_of st' (TheIndex m i)) = entry (table_of st (TheIndex m i))"
  by (simp add: others_kept_def)

lemma mirrors_other:
  assumes "mirrors provider m i items index" and "\<And>k. items' (m, k) = items (m, k)"
  shows "mirrors provider m i items' index"
  using assms by (simp add: mirrors_def)

lemma mirrored_put:
  assumes good: "good_provider provider" and dist: "distinct_indices provider" and apart: "told_apart keys"
    and st: "mirrored provider keys st" and key: "entity_and_key provider n v m = Inr (e, key)"
    and k: "(n, key) \<in> set keys" and ix: "indexable e v" and run: "putSync e v key o' st = (st', r)"
  shows "mirrored provider keys st'"
proof (cases "expected (po_expectedVersion o') (data st e (table_key key))")
  case False
  from putSync_unexpected [OF False, of v] run have "same_entries st st'" by auto
  with st show ?thesis by (rule mirrored_same)
next
  case True
  have e: "provider n = Some e" "en_name e = n" and distinct: "distinct (map ix_name (en_indices e))"
    using good dist key by (auto simp: good_provider_def distinct_indices_def entity_and_key_Inr)
  define x where "x = \<lparr>em_value = v, em_version = new_version o' (data st e (table_key key))\<rparr>"
  have x: "entity_and_key provider n (em_value x) [] = Inr (e, key)"
    using entity_and_key_message [OF key] by (simp add: x_def)
  note effect = putSync_expected [OF True run]
  have stored: "stored_items st' = (stored_items st)((n, table_key key) \<mapsto> x)"
    using data_update_stored [OF effect(1,2)] e by (simp add: x_def)
  have old: "\<And>i. data st e (table_key key) = Some i \<Longrightarrow> indexable e (em_value i)"
    using mirrored_indexable [OF st e(1)] e(2) by (simp add: data_stored)
  have keyed: "well_keyed provider keys st" using st by (simp add: mirrored_def)
  have "well_keyed provider keys st'"
    unfolding well_keyed_def stored
  proof (intro allI impI)
    fix n' e' k' y
    assume e': "provider n' = Some e'" and y: "((stored_items st)((n, table_key key) \<mapsto> x)) (n', k') = Some y"
    show "indexable e' (em_value y) \<and> (\<exists>key. entity_and_key provider n' (em_value y) [] = Inr (e', key) \<and>
        table_key key = k' \<and> (n', key) \<in> set keys)"
    proof (cases "(n', k') = (n, table_key key)")
      case True
      then show ?thesis using e' y e x k ix by (auto simp: x_def)
    next
      case False
      then have "stored_items st (n', k') = Some y" using y by auto
      then show ?thesis using keyed e' unfolding well_keyed_def by blast
    qed
  qed
  moreover have "mirrors provider n' i (stored_items st') (entry (table_of st' (TheIndex n' i)))"
    if e': "provider n' = Some e'" and i: "i \<in> set (en_indices e')" for n' e' i
  proof (cases "n' = n")
    case True
    have "mirrors provider n i (stored_items st) (entry (table_of st (TheIndex n i)))"
      using st e' i True by (simp add: mirrored_def)
    from mirrors_stored [OF apart keyed e(1) k this x] show ?thesis
      using putSync_index_effect [OF \<open>expected _ _\<close> ix old distinct run, of i] e e' i True
      by (simp add: stored x_def data_stored)
  next
    case False
    then show ?thesis
      using st e' i other_indices_kept [OF effect(2), of n' i] e(2)
        mirrors_other [of provider n' i "stored_items st" _ "stored_items st'"]
      by (simp add: mirrored_def stored)
  qed
  ultimately show ?thesis by (simp add: mirrored_def)
qed

lemma mirrored_delete:
  assumes good: "good_provider provider" and dist: "distinct_indices provider" and apart: "told_apart keys"
    and st: "mirrored provider keys st" and key: "entity_and_key provider n kv m = Inr (e, key)"
    and k: "(n, key) \<in> set keys" and run: "deleteSync e key v st = (st', r)"
  shows "mirrored provider keys st'"
proof (cases "data st e (table_key key)")
  case None
  from deleteSync_missing [OF None, of v] run have "same_entries st st'" by auto
  with st show ?thesis by (rule mirrored_same)
next
  case (Some x)
  show ?thesis
  proof (cases "v = None \<or> v = Some (em_version x)")
    case False
    with deleteSync_unexpected [OF Some, of v] run have "same_entries st st'" by auto
    with st show ?thesis by (rule mirrored_same)
  next
    case True
    have e: "provider n = Some e" "en_name e = n" and distinct: "distinct (map ix_name (en_indices e))"
      using good dist key by (auto simp: good_provider_def distinct_indices_def entity_and_key_Inr)
    note effect = deleteSync_expected [OF Some True run]
    have stored: "stored_items st' = (stored_items st)((n, table_key key) := None)"
      using data_update_stored [OF effect(1,2)] e by simp
    have ix: "indexable e (em_value x)" using mirrored_indexable [OF st e(1)] Some e(2) by (simp add: data_stored)
    have keyed: "well_keyed provider keys st" using st by (simp add: mirrored_def)
    then have "well_keyed provider keys st'" unfolding well_keyed_def stored by (auto split: if_splits)
    moreover have "mirrors provider n' i (stored_items st') (entry (table_of st' (TheIndex n' i)))"
      if e': "provider n' = Some e'" and i: "i \<in> set (en_indices e')" for n' e' i
    proof (cases "n' = n")
      case True
      have "mirrors provider n i (stored_items st) (entry (table_of st (TheIndex n i)))"
        using st e' i True by (simp add: mirrored_def)
      from mirrors_removed [OF apart keyed e(1) k this] show ?thesis
        using delete_index_effect [OF Some \<open>v = None \<or> _\<close> ix distinct run, of i] e e' i True Some
        by (simp add: stored data_stored)
    next
      case False
      then show ?thesis
        using st e' i other_indices_kept [OF effect(2), of n' i] e(2)
          mirrors_other [of provider n' i "stored_items st" _ "stored_items st'"]
        by (simp add: mirrored_def stored)
    qed
    ultimately show ?thesis by (simp add: mirrored_def)
  qed
qed

interpretation indices: store_invariant provider "\<lambda>k. k \<in> set keys"
    "\<lambda>st. good_provider provider \<and> distinct_indices provider \<and> told_apart keys \<longrightarrow> mirrored provider keys st"
  for provider keys
  by unfold_locales (auto intro: mirrored_same mirrored_put mirrored_delete getWithMetadataSync_entries(1))

lemma mirrored_empty: "mirrored provider keys empty_local_store"
  by (simp add: mirrored_def well_keyed_def mirrors_def stored_items_empty)
    (simp add: empty_local_store_def table_of_def local_entity_of_def empty_local_entity_def om_get_eq entry_def)

lemma run_ops_mirrored:
  assumes "good_provider provider" and "distinct_indices provider" and "list_all (op_indexable provider) ops"
    and "told_apart (concat (map (op_keys provider) ops))"
  shows "mirrored provider (concat (map (op_keys provider) ops)) (run_ops provider ops empty_local_store)"
  using indices.inv_ops [of provider "concat (map (op_keys provider) ops)" empty_local_store ops] assms mirrored_empty
  by (simp add: list_all_iff)


end
