(* ===== verification/LocalStoreQueries.thy ===== *)
theory LocalStoreQueries
  imports LocalStoreIndices "HOL-Library.List_Lexorder" "HOL-Library.Char_ord"
begin

text \<open>
  Queries of the local entity store. Every map of a store lists each of its keys once, so that the
  entries of a partition are its items; a query returns those whose sort key matches, in order.
\<close>

section \<open>Maps list a key once\<close>

definition wf_table :: "table_map \<Rightarrow> bool" where
  "wf_table tm \<longleftrightarrow> om_inv tm \<and> list_all (\<lambda>(pk, p). om_inv p) tm"

definition tables_wf :: "local_store \<Rightarrow> bool" where
  "tables_wf st \<longleftrightarrow> (\<forall>e. wf_table (table_of st e))"

lemma om_inv_Nil [simp]: "om_inv []"
  by (simp add: om_inv_def)

lemma set_om_set: "set (om_set k v t) \<subseteq> insert (k, v) (set t)"
  by (induction k v t rule: om_set.induct) auto

lemma om_get_in: "om_get t k = Some v \<Longrightarrow> (k, v) \<in> set t"
  by (simp add: om_get_def map_of_SomeD)

lemma om_get_set_iff: "om_inv t \<Longrightarrow> om_get t k = Some v \<longleftrightarrow> (k, v) \<in> set t"
  by (simp add: om_get_def om_inv_def)

lemma wf_table_set: "wf_table tm \<Longrightarrow> om_inv p \<Longrightarrow> wf_table (om_set pk p tm)"
  using set_om_set [of pk p tm] by (auto simp: wf_table_def om_inv_set list_all_iff)

lemma wf_table_partition: "wf_table tm \<Longrightarrow> om_get tm pk = Some p \<Longrightarrow> om_inv p"
  by (auto simp: wf_table_def list_all_iff dest: om_get_in)

lemma wf_set_entry: "wf_table tm \<Longrightarrow> wf_table (set_entry pk k v tm)"
  by (cases "om_get tm pk") (simp_all add: set_entry_def wf_table_set om_inv_set wf_table_partition del: om_set.simps)

lemma wf_delete_entry: "wf_table tm \<Longrightarrow> wf_table (fst (delete_entry pk k tm))"
  by (auto simp: delete_entry_def wf_table_set om_inv_del wf_table_partition split: option.split)

lemma tables_wf_put_table: "tables_wf st \<Longrightarrow> wf_table tm \<Longrightarrow> tables_wf (put_table e tm st)"
  by (simp add: tables_wf_def)

lemma tables_wf_table: "tables_wf st \<Longrightarrow> wf_table (table_of st e)"
  by (simp add: tables_wf_def)

lemma tables_wf_push [simp]: "tables_wf (pushWorkflowTask item st) \<longleftrightarrow> tables_wf st"
  by (simp add: tables_wf_def)

lemma getPartitionMap_wf:
  assumes "tables_wf st" and "getPartitionMap e part st = (st', p)"
  shows "tables_wf st' \<and> om_inv p"
  using assms wf_table_partition [OF tables_wf_table [OF assms(1), of e]]
  by (auto simp: getPartitionMap_def getLocalEntityStore_def
      intro!: tables_wf_put_table wf_table_set tables_wf_table split: option.splits)

lemma getWithMetadataSync_wf: "tables_wf st \<Longrightarrow> getWithMetadataSync e key st = (st', i) \<Longrightarrow> tables_wf st'"
  by (auto simp: getWithMetadataSync_def dest: getPartitionMap_wf split: prod.splits)

lemma set_index_entry_wf:
  assumes st: "tables_wf st" and run: "set_index_entry name key old v i st = (st', r)"
  shows "tables_wf st'"
proof -
  define tm where "tm = table_of st (TheIndex name i)"
  have tm: "wf_table tm" using tables_wf_table [OF st] by (simp add: tm_def)
  have del: "wf_table (fst (deleteIndexPartitionEntry tm key k))" for k
    unfolding deleteIndexPartitionEntry_def by (rule wf_delete_entry [OF tm])
  have upd: "wf_table (updateIndexPartitionEntry tm' key k v)" if "wf_table tm'" for tm' k
    unfolding updateIndexPartitionEntry_def by (rule wf_set_entry [OF that])
  show ?thesis
    using run tables_wf_put_table [OF tables_wf_put_table [OF st tm]] tables_wf_put_table [OF st tm] tm del upd
    by (auto simp: set_index_entry_def getLocalEntityStore_def act_lift_bind act_bind_def tm_def [symmetric]
        split: sum.splits option.splits if_splits)
qed

lemma delete_index_entry_wf:
  assumes st: "tables_wf st" and run: "delete_index_entry name key v i st = (st', r)"
  shows "tables_wf st'"
proof -
  define tm where "tm = table_of st (TheIndex name i)"
  have tm: "wf_table tm" using tables_wf_table [OF st] by (simp add: tm_def)
  show ?thesis
    using run tables_wf_put_table [OF tables_wf_put_table [OF st tm]] tables_wf_put_table [OF st tm] tm
      wf_delete_entry [OF tm]
    by (auto simp: delete_index_entry_def getLocalEntityStore_def act_lift_bind tm_def [symmetric]
        deleteIndexPartitionEntry_def split: sum.splits if_splits)
qed

lemma putSync_wf:
  assumes st: "tables_wf st" and run: "putSync e v key o' st = (st', r)"
  shows "tables_wf st'"
proof -
  obtain st1 q where st1: "getWithMetadataSync e key st = (st1, q)" by (cases "getWithMetadataSync e key st")
  have wf1: "tables_wf st1" by (rule getWithMetadataSync_wf [OF st st1])
  have set: "tables_wf s'" if "setLocalEntity e key x st1 = (s', r')" for x s' r'
  proof -
    have start: "tables_wf (put_table (TheEntity e) (updatePartitionEntry (table_of st1 (TheEntity e)) key x) st1)"
      unfolding updatePartitionEntry_def
      by (intro tables_wf_put_table wf1 wf_set_entry tables_wf_table)
    show ?thesis
      by (rule act_forEach_keeps [where P = tables_wf, OF _ start])
        (use that set_index_entry_wf in \<open>auto simp: setLocalEntity_def Let_def le_data_table\<close>)
  qed
  show ?thesis
    using run st1 wf1 set by (auto simp: putSync_def Let_def act_bind_def split: if_splits prod.splits sum.splits)
qed

lemma deleteSync_wf:
  assumes st: "tables_wf st" and run: "deleteSync e key v st = (st', r)"
  shows "tables_wf st'"
proof -
  obtain st1 q where st1: "getWithMetadataSync e key st = (st1, q)" by (cases "getWithMetadataSync e key st")
  have wf1: "tables_wf st1" by (rule getWithMetadataSync_wf [OF st st1])
  have del: "tables_wf s'" if run: "deleteLocalEntity e key st1 = (s', r')" for s' r'
  proof (cases "getPartitionEntry (table_of st1 (TheEntity e)) key")
    case None
    then show ?thesis using run wf1 by (simp add: deleteLocalEntity_def le_data_table)
  next
    case (Some x)
    obtain tm deleted where tm: "deletePartitionEntry (table_of st1 (TheEntity e)) key = (tm, deleted)"
      by (cases "deletePartitionEntry (table_of st1 (TheEntity e)) key")
    then have "wf_table tm"
      using wf_delete_entry [OF tables_wf_table [OF wf1, of "TheEntity e"], of "partition_value key" "skOrDefault key"]
      by (simp add: deletePartitionEntry_def)
    then have start: "tables_wf (put_table (TheEntity e) tm st1)" by (rule tables_wf_put_table [OF wf1])
    obtain s2 r2 where s2: "act_forEach (delete_index_entry (en_name e) key x) (en_indices e) (put_table (TheEntity e) tm st1) = (s2, r2)"
      by (cases "act_forEach (delete_index_entry (en_name e) key x) (en_indices e) (put_table (TheEntity e) tm st1)")
    have "tables_wf s2" by (rule act_forEach_keeps [where P = tables_wf, OF _ start s2]) (auto intro: delete_index_entry_wf)
    then show ?thesis using run Some tm s2 by (cases r2) (auto simp: deleteLocalEntity_def le_data_table)
  qed
  show ?thesis
    using run st1 wf1 del
    by (auto simp: deleteSync_def act_bind_def split: if_splits prod.splits sum.splits option.splits)
qed

interpretation tables: store_invariant provider "\<lambda>_. True" tables_wf for provider
  by unfold_locales (auto intro: getWithMetadataSync_wf putSync_wf deleteSync_wf)

lemma tables_wf_empty: "tables_wf empty_local_store"
  by (auto simp: tables_wf_def table_of_def local_entity_of_def empty_local_store_def empty_local_entity_def om_get_eq
      wf_table_def split: entity_or_index.split)

lemma run_ops_wf: "list_all (op_indexable provider) ops \<Longrightarrow> tables_wf (run_ops provider ops empty_local_store)"
  using tables.inv_ops [OF tables_wf_empty] by (simp add: list_all_iff)

section \<open>The order of a query\<close>

text \<open>
  The comparison of a locale is an order of texts up to equivalence: the sign of a comparison
  changes with its arguments, and it is transitive. The order by an index sort key and then by
  the table's sort key is one as well, when the keys have the types of their definition.
\<close>

definition collation_on :: "'a set \<Rightarrow> ('a \<Rightarrow> 'a \<Rightarrow> int) \<Rightarrow> bool" where
  "collation_on A cmp \<longleftrightarrow>
     (\<forall>x \<in> A. \<forall>y \<in> A. sgn (cmp y x) = - sgn (cmp x y)) \<and>
     (\<forall>x \<in> A. \<forall>y \<in> A. \<forall>z \<in> A. cmp x y \<le> 0 \<longrightarrow> cmp y z \<le> 0 \<longrightarrow> cmp x z \<le> 0)"

lemma sgn_flip: "sgn (b :: int) = - sgn a \<Longrightarrow> (b \<le> 0 \<longleftrightarrow> 0 \<le> a) \<and> (b = 0 \<longleftrightarrow> a = 0) \<and> (0 \<le> b \<longleftrightarrow> a \<le> 0)"
  by (auto simp: sgn_if split: if_splits)

lemma collation_sgn: "collation_on A cmp \<Longrightarrow> x \<in> A \<Longrightarrow> y \<in> A \<Longrightarrow> sgn (cmp y x) = - sgn (cmp x y)"
  unfolding collation_on_def by blast

lemma collation_cong: "(\<And>x y. x \<in> A \<Longrightarrow> y \<in> A \<Longrightarrow> cmp x y = cmp' x y) \<Longrightarrow> collation_on A cmp \<Longrightarrow> collation_on A cmp'"
  unfolding collation_on_def by metis

lemma collation_sign:
  "collation_on A cmp \<Longrightarrow> x \<in> A \<Longrightarrow> y \<in> A \<Longrightarrow>
   (cmp y x \<le> 0 \<longleftrightarrow> 0 \<le> cmp x y) \<and> (cmp y x = 0 \<longleftrightarrow> cmp x y = 0) \<and> (0 \<le> cmp y x \<longleftrightarrow> cmp x y \<le> 0)"
  by (rule conjI [OF sgn_flip [THEN conjunct1] sgn_flip [THEN conjunct2]]) (rule collation_sgn, assumption+)+

lemma collation_trans:
  "collation_on A cmp \<Longrightarrow> x \<in> A \<Longrightarrow> y \<in> A \<Longrightarrow> z \<in> A \<Longrightarrow> cmp x y \<le> 0 \<Longrightarrow> cmp y z \<le> 0 \<Longrightarrow> cmp x z \<le> 0"
  unfolding collation_on_def by blast

lemma collation_comparison: "collation_on A cmp \<Longrightarrow> comparison_on A cmp"
  unfolding comparison_on_def
proof (intro conjI ballI impI)
  fix x y assume "collation_on A cmp" "x \<in> A" "y \<in> A"
  from collation_sign [OF this] show "cmp x y \<le> 0 \<or> cmp y x \<le> 0" by linarith
qed (rule collation_trans)

lemma collation_reverse: "collation_on A cmp \<Longrightarrow> collation_on A (\<lambda>a b. - cmp a b)"
proof -
  assume c: "collation_on A cmp"
  have "sgn (- cmp y x) = - sgn (- cmp x y)" if "x \<in> A" "y \<in> A" for x y
    using collation_sgn [OF c that] by (simp add: sgn_minus)
  moreover have "- cmp x z \<le> 0" if xyz: "x \<in> A" "y \<in> A" "z \<in> A" and le: "- cmp x y \<le> 0" "- cmp y z \<le> 0" for x y z
  proof -
    have "cmp y x \<le> 0" "cmp z y \<le> 0"
      using le collation_sign [OF c xyz(1,2)] collation_sign [OF c xyz(2,3)] by linarith+
    then have "cmp z x \<le> 0" using collation_trans [OF c xyz(3,2,1)] by blast
    then show ?thesis using collation_sign [OF c xyz(3,1)] by linarith
  qed
  ultimately show ?thesis unfolding collation_on_def by blast
qed

lemma collation_then:
  assumes first: "collation_on A f" and second: "collation_on A g"
  shows "collation_on A (\<lambda>a b. if f a b = 0 then g a b else f a b)" (is "collation_on A ?h")
  unfolding collation_on_def
proof (intro conjI ballI impI)
  fix x y assume x: "x \<in> A" and y: "y \<in> A"
  have "sgn (f y x) = - sgn (f x y)" "sgn (g y x) = - sgn (g x y)"
    using collation_sgn [OF first x y] collation_sgn [OF second x y] by blast+
  then show "sgn (?h y x) = - sgn (?h x y)" using collation_sign [OF first x y] by simp
  fix z assume z: "z \<in> A" and le: "?h x y \<le> 0" "?h y z \<le> 0"
  have fle: "f x y \<le> 0" "f y z \<le> 0" using le by (auto split: if_splits)
  then have fxz: "f x z \<le> 0" by (rule collation_trans [OF first x y z])
  show "?h x z \<le> 0"
  proof (cases "f x z = 0")
    case True
    then have "f z x \<le> 0" using collation_sign [OF first x z] by simp
    then have "f y x \<le> 0" "f z y \<le> 0"
      using collation_trans [OF first y z x] collation_trans [OF first z x y] fle by blast+
    then have "f x y = 0" "f y z = 0"
      using fle collation_sign [OF first x y] collation_sign [OF first y z] by simp_all
    then show ?thesis using True le collation_trans [OF second x y z] by simp
  qed (use fxz in simp)
qed

lemma collation_image: "collation_on (g ` A) cmp \<Longrightarrow> collation_on A (\<lambda>a b. cmp (g a) (g b))"
  unfolding collation_on_def by blast

lemma collation_subset: "collation_on A cmp \<Longrightarrow> B \<subseteq> A \<Longrightarrow> collation_on B cmp"
  unfolding collation_on_def by (meson subsetD)

text \<open>The sort key of an item has the type of its definition.\<close>

definition sort_typed :: "key_def \<Rightarrow> js \<Rightarrow> bool" where
  "sort_typed d v \<longleftrightarrow>
     (case kd_sort d of None \<Rightarrow> item_sort_value d v = JUndef | Some s \<Rightarrow> typed_value (kp_type s) (item_sort_value d v))"

lemma sort_key_collation:
  assumes f: "collation_on UNIV f" and typed: "\<And>v. v \<in> A \<Longrightarrow> sort_typed d v"
  shows "collation_on A (sortBySortKey f d)"
proof (cases "kd_sort d")
  case None
  then have "sortBySortKey f d a b = 0" if "a \<in> A" "b \<in> A" for a b
    using typed [OF that(1)] by (simp add: sort_typed_def sortBySortKey_def)
  then show ?thesis by (simp add: collation_on_def)
next
  case (Some s)
  show ?thesis
  proof (cases "kp_type s")
    case StringKey
    then have "\<exists>t. item_sort_value d v = JStr t" if "v \<in> A" for v
      using typed [OF that] Some by (auto simp: sort_typed_def typed_value_def split: js.splits)
    then obtain t where t: "\<And>v. v \<in> A \<Longrightarrow> item_sort_value d v = JStr (t v)" by metis
    have "collation_on A (\<lambda>a b. f (t a) (t b))" by (rule collation_image [OF collation_subset [OF f]]) simp
    then show ?thesis by (rule collation_cong [rotated]) (simp add: sortBySortKey_def t)
  next
    case NumberKey
    then have "\<exists>n. item_sort_value d v = JNum n" if "v \<in> A" for v
      using typed [OF that] Some by (auto simp: sort_typed_def typed_value_def split: js.splits)
    then obtain n where n: "\<And>v. v \<in> A \<Longrightarrow> item_sort_value d v = JNum (n v)" by metis
    have "collation_on A (\<lambda>a b. n a - n b)" by (auto simp: collation_on_def sgn_if)
    then show ?thesis by (rule collation_cong [rotated]) (simp add: sortBySortKey_def n)
  qed
qed

section \<open>Queries\<close>

text \<open>The order in which a query returns its entries.\<close>

definition item_order :: "(string \<Rightarrow> string \<Rightarrow> int) \<Rightarrow> entity \<Rightarrow> entity_or_index \<Rightarrow> entity_item \<Rightarrow> entity_item \<Rightarrow> int" where
  "item_order localeCompare source eoi a b = entry_order localeCompare source eoi (JUndef, a) (JUndef, b)"

lemma entry_order_items: "entry_order f source eoi a b = item_order f source eoi (snd a) (snd b)"
  by (cases eoi) (simp_all add: entry_order_def item_order_def Let_def)

definition query_order ::
  "(string \<Rightarrow> string \<Rightarrow> int) \<Rightarrow> entity \<Rightarrow> entity_or_index \<Rightarrow> direction option \<Rightarrow> entity_item \<Rightarrow> entity_item \<Rightarrow> bool" where
  "query_order localeCompare source eoi dir a b \<longleftrightarrow>
     (if dir = Some DESC then 0 \<le> item_order localeCompare source eoi a b
      else item_order localeCompare source eoi a b \<le> 0)"

lemma index_order_collation:
  assumes "collation_on UNIV f" and "\<And>x. x \<in> A \<Longrightarrow> sort_typed (ix_key i) (em_value x) \<and> sort_typed (en_key e) (em_value x)"
  shows "collation_on A (item_order f e (TheIndex n i))"
proof -
  have "collation_on A (\<lambda>a b. sortBySortKey f d (em_value a) (em_value b))" if "d \<in> {ix_key i, en_key e}" for d
    by (rule collation_image, rule sort_key_collation [OF assms(1)]) (use assms(2) that in auto)
  then have "collation_on A (\<lambda>a b. if sortBySortKey f (ix_key i) (em_value a) (em_value b) = 0
      then sortBySortKey f (en_key e) (em_value a) (em_value b) else sortBySortKey f (ix_key i) (em_value a) (em_value b))"
    by (intro collation_then) auto
  moreover have "item_order f e (TheIndex n i) = (\<lambda>a b. if sortBySortKey f (ix_key i) (em_value a) (em_value b) = 0
      then sortBySortKey f (en_key e) (em_value a) (em_value b) else sortBySortKey f (ix_key i) (em_value a) (em_value b))"
    by (simp add: item_order_def entry_order_def Let_def fun_eq_iff)
  ultimately show ?thesis by (simp only:)
qed

lemma try_filter_Inr:
  assumes "\<And>x. x \<in> set xs \<Longrightarrow> \<exists>b. p x = Inr b"
  shows "try_filter p xs = Inr (filter (\<lambda>x. p x = Inr True) xs)"
proof -
  have "try_map (\<lambda>x. try_bind (p x) (\<lambda>b. Inr (b, x))) xs = Inr (map (\<lambda>x. (p x = Inr True, x)) xs)"
    using assms
  proof (induction xs)
    case Nil
    then show ?case by simp
  next
    case (Cons x xs)
    then obtain b where "p x = Inr b" by (meson list.set_intros(1))
    with Cons show ?case by simp
  qed
  then show ?thesis by (simp add: try_filter_def filter_map comp_def)
qed

definition query_matches :: "key_def \<Rightarrow> query_key \<Rightarrow> js \<Rightarrow> bool" where
  "query_matches d k v = (case qk_sort k of None \<Rightarrow> True | Some s \<Rightarrow> filterEntryBySortKey d s v = Inr True)"

text \<open>The options of a query for the items from the one at \<open>start\<close> on, and what it returns of all its items.\<close>

definition query_from :: "string list option \<Rightarrow> direction option \<Rightarrow> nat option \<Rightarrow> nat \<Rightarrow> query_options" where
  "query_from select dir limit start =
     \<lparr>qo_select = select, qo_direction = dir, qo_limit = limit,
      qo_nextToken = (if start = 0 then None else Some (serializeToken start))\<rparr>"

definition query_page :: "string list option \<Rightarrow> nat option \<Rightarrow> nat \<Rightarrow> entity_item list \<Rightarrow> query_result" where
  "query_page select limit start all_items =
     (let items = (case limit of None \<Rightarrow> drop start all_items
            | Some l \<Rightarrow> if l = 0 then drop start all_items else take l (drop start all_items))
      in \<lparr>qr_entries = map (select_attributes select) items,
          qr_nextToken = (if start + length items < length all_items
            then Some (serializeToken (start + length items)) else None)\<rparr>)"

lemma queryStore_answers:
  assumes wf: "tables_wf st" and keys: "\<And>u x. entry (table_of st eoi) (np_keyValue (qk_partition k), u) = Some x \<Longrightarrow>
      \<not> isl (normalizeCompositeKey (eoi_key eoi) (em_value x))"
    and once: "\<And>u u' x. entry (table_of st eoi) (np_keyValue (qk_partition k), u) = Some x \<Longrightarrow>
      entry (table_of st eoi) (np_keyValue (qk_partition k), u') = Some x \<Longrightarrow> u = u'"
  shows "\<exists>st' all_items. same_entries st st' \<and> distinct all_items \<and>
    set all_items = {x. \<exists>u. entry (table_of st eoi) (np_keyValue (qk_partition k), u) = Some x \<and>
      query_matches (eoi_key eoi) k (em_value x)} \<and>
    (collation_on (set all_items) (item_order f source eoi) \<longrightarrow> sorted_wrt (query_order f source eoi dir) all_items) \<and>
    (\<forall>select limit start. queryStore f source eoi k (query_from select dir limit start) st =
       (st', Inr (query_page select limit start all_items)))"
proof -
  obtain st' p where p: "getPartitionMap eoi (qk_partition k) st = (st', p)"
    by (cases "getPartitionMap eoi (qk_partition k) st")
  note get = getPartitionMap_entries [OF p]
  have inv: "om_inv p" using getPartitionMap_wf [OF wf p] by simp
  have entries: "(u, x) \<in> set p \<longleftrightarrow> entry (table_of st eoi) (np_keyValue (qk_partition k), u) = Some x" for u x
    unfolding get(2) [symmetric] by (rule om_get_set_iff [OF inv, symmetric])
  define sel where "sel = filter (\<lambda>e. query_matches (eoi_key eoi) k (em_value (snd e))) p"
  have sel: "(case qk_sort k of None \<Rightarrow> Inr p
      | Some s \<Rightarrow> try_filter (\<lambda>e. filterEntryBySortKey (eoi_key eoi) s (em_value (snd e))) p) = Inr sel"
  proof (cases "qk_sort k")
    case None
    then show ?thesis by (simp add: sel_def query_matches_def)
  next
    case (Some s)
    have "\<exists>b. filterEntryBySortKey (eoi_key eoi) s (em_value (snd e)) = Inr b" if "e \<in> set p" for e
    proof -
      obtain u x where e: "e = (u, x)" by (cases e)
      with keys [of u x] entries [of u x] that show ?thesis
        by (cases "normalizeCompositeKey (eoi_key eoi) (em_value x)") (auto simp: filterEntryBySortKey_def)
    qed
    then show ?thesis using Some by (simp add: try_filter_Inr sel_def query_matches_def)
  qed
  define cmp where "cmp = (\<lambda>a b. if dir = Some DESC then - entry_order f source eoi a b else entry_order f source eoi a b)"
  define es where "es = sort_by cmp sel"
  have arranged: "arranged sel (Some (entry_order f source eoi)) None dir = es"
    by (simp add: arranged_def es_def cmp_def)
  have "queryStore f source eoi k (query_from select dir limit start) st = (st', Inr (query_page select limit start (map snd es)))"
    for select limit start
    using p sel
    by (cases limit) (auto simp: queryStore_def query_from_def query_page_def paginateItems_def arranged Let_def
        drop_map take_map min_def)
  moreover have "distinct (map snd es)"
  proof -
    have "distinct p" using inv by (simp add: om_inv_def distinct_map)
    moreover have "inj_on snd (set p)" using once entries by (auto simp: inj_on_def)
    ultimately show ?thesis by (auto simp: es_def sel_def distinct_map intro: inj_on_subset)
  qed
  moreover have "set (map snd es) =
      {x. \<exists>u. entry (table_of st eoi) (np_keyValue (qk_partition k), u) = Some x \<and> query_matches (eoi_key eoi) k (em_value x)}"
    using entries by (force simp: es_def sel_def)
  moreover have "sorted_wrt (query_order f source eoi dir) (map snd es)"
    if coll: "collation_on (set (map snd es)) (item_order f source eoi)"
  proof -
    have "collation_on (snd ` set sel) (item_order f source eoi)" using coll by (simp add: es_def)
    then have entry: "collation_on (set sel) (entry_order f source eoi)"
      unfolding entry_order_items by (rule collation_image)
    then have "collation_on (set sel) cmp"
      unfolding cmp_def by (cases "dir = Some DESC") (simp_all add: collation_reverse)
    from sorted_sort_by [OF collation_comparison [OF this]] show ?thesis
      by (cases "dir = Some DESC") (simp_all add: sorted_wrt_map es_def cmp_def query_order_def entry_order_items)
  qed
  ultimately show ?thesis using get(1) by blast
qed


text \<open>
  A query by part of a sort key of several attributes compares texts, not
  attributes: it also returns the items of which the value of the attribute merely begins with
  the text asked for.
\<close>

theorem partial_sort_key_matches_longer_values:
  assumes type: "kp_type s = StringKey" and attrs: "kp_attributes s = [a, b]" and d: "kd_sort d = Some s"
    and p: "formatNormalizePartitionKeyPart d v = Inr p" "\<not> np_partialValue p"
    and q: "formatNormalizedQueryPart d s key = Inr (KeyPart k)"
    and ka: "key_value (partition_width d) key a 0 = JStr text1" "key_value (partition_width d) key b 1 = JUndef"
    and va: "key_value (partition_width d) v a 0 = JStr (text1 @ text2)" "key_value (partition_width d) v b 1 = JStr text3"
  shows "filterEntryBySortKey d (KeyPart k) v = Inr True"
proof -
  have k: "np_keyValue k = JStr text1" "np_partialValue k"
    using q type attrs ka
    by (auto simp: formatNormalizedQueryPart_def retrieve_parts_def missing_index_def typeof_object_def Let_def
        join_hash_def try_bind_Inr split: if_splits)
  have n: "normalizeCompositeKey d v = Inr \<lparr>nk_partition = p, nk_sort = formatNormalizeSortKeyPart d v\<rparr>"
    using p(1) by (simp add: normalizeCompositeKey_def)
  have sort: "formatNormalizeSortKeyPart d v = Some (formatNormalizedPart s (key_value (partition_width d) v))"
    by (simp add: formatNormalizeSortKeyPart_def d)
  have "np_keyValue (formatNormalizedPart s (key_value (partition_width d) v)) = JStr (text1 @ text2 @ ''#'' @ text3)"
    "\<not> np_partialValue (formatNormalizedPart s (key_value (partition_width d) v))"
    using type attrs va
    by (simp_all add: formatNormalizedPart_def part_of_parts_def retrieve_parts_def missing_index_def join_hash_def)
  then show ?thesis
    using k p(2)
    by (simp add: filterEntryBySortKey_def n sort isCompleteKey_def isCompleteKeyPart_def sort_value_def
        sort_key_matches_def starts_with_def)
qed

section \<open>Samples\<close>

definition sample_ops :: "store_op list" where
  "sample_ops = [DoPut ''users'' (sample_user ''a'' 1 (JStr ''m'')) no_options,
                 DoPut ''users'' (sample_user ''b'' 1 (JStr ''m'')) no_options]"

lemma sample_distinct_indices: "distinct_indices sample_provider"
  by (simp add: distinct_indices_def sample_provider_def sample_entity_def)

lemma sample_ops_indexable: "list_all (op_indexable sample_provider) sample_ops"
  by (simp add: sample_ops_def indexable_in_def sample_provider_def sample_indexable)

lemma sample_keys: "concat (map (op_keys sample_provider) sample_ops) =
    [(''users'', sample_norm_key ''a'' 1), (''users'', sample_norm_key ''b'' 1)]"
  by (simp add: sample_ops_def named_key_Inr [OF sample_key [where m = "[]"]])

lemma sample_key_texts:
  "computeUniqueTableIdentifier (sample_norm_key name n) = JStr (''o#'' @ name @ ''#'' @ int_str n)"
  "table_key (sample_norm_key name n) = (JStr (''o#'' @ name), JNum n)"
  by (simp_all add: computeUniqueTableIdentifier_def table_key_def partition_value_def sample_norm_key_def part_of_parts_def
      missing_index_def join_hash_def sample_key_def_def skOrDefault_def sort_value_def or_else_def first_value_def)

lemma sample_told_apart: "told_apart (concat (map (op_keys sample_provider) sample_ops))"
  unfolding sample_keys by (simp add: told_apart_def sample_key_texts)



definition sample_event_key :: key_def where
  "sample_event_key =
     \<lparr>kd_partition = \<lparr>kp_type = StringKey, kp_attributes = [''p''], kp_keyAttribute = ''p''\<rparr>,
      kd_sort = Some \<lparr>kp_type = StringKey, kp_attributes = [''a'', ''b''], kp_keyAttribute = ''a|b''\<rparr>\<rparr>"

lemma partial_sort_key_matches_longer_values_witness:
  "\<exists>k. formatNormalizedQueryPart sample_event_key (the (kd_sort sample_event_key))
      (JObj [(''p'', JStr ''x''), (''a'', JStr ''ab'')]) = Inr (KeyPart k) \<and>
    filterEntryBySortKey sample_event_key (KeyPart k)
      (JObj [(''p'', JStr ''x''), (''a'', JStr ''abc''), (''b'', JStr ''z'')]) = Inr True"
proof -
  obtain k where k: "formatNormalizedQueryPart sample_event_key (the (kd_sort sample_event_key))
      (JObj [(''p'', JStr ''x''), (''a'', JStr ''ab'')]) = Inr (KeyPart k)"
    by (simp add: formatNormalizedQueryPart_def sample_event_key_def retrieve_parts_def key_value_def is_array_def
        js_get_def typeof_object_def missing_index_def keyHasInlineBetween_def js_has_def)
  obtain p where p: "formatNormalizePartitionKeyPart sample_event_key
      (JObj [(''p'', JStr ''x''), (''a'', JStr ''abc''), (''b'', JStr ''z'')]) = Inr p" "\<not> np_partialValue p"
    by (simp add: sample_event_key_def formatNormalizePartitionKeyPart_def retrieve_parts_def key_value_def is_array_def
        js_get_def typeof_object_def formatNormalizedPart_def part_of_parts_def missing_index_def)
  show ?thesis
    using k partial_sort_key_matches_longer_values [of "the (kd_sort sample_event_key)" "''a''" "''b''" sample_event_key, OF _ _ _ p k,
        of "''ab''" "''c''" "''z''"]
    by (simp add: sample_event_key_def key_value_def is_array_def js_get_def)
qed

end
