(* ===== verification/TransactionExecutor.thy ===== *)
theory TransactionExecutor
  imports LocalStoreStreams Calls Results
begin

text \<open>
  core-runtime/src/transaction-executor.ts: optimistic transactions over an entity store. The
  function of a transaction is a tree of the calls it makes, each awaited before the next one. Its
  reads and writes go to a cache; at the end one transactional write checks the version of
  everything it read and writes what it changed; when that is cancelled the function runs again.

  The entity store is a record of operations (\<open>entity_store_ops\<close>), of which the locale
  \<open>entity_store\<close> is the contract. Other clients change the store while a transaction runs:
  \<open>tw_others\<close> are their changes, one before each access to the store. \<open>tw_seen\<close> is for the
  statements only: it records the stores an attempt accessed. Logging is left out.
\<close>

section \<open>The store a transaction runs on\<close>

record 's entity_store_ops =
  es_getWithMetadata :: "string \<Rightarrow> js \<Rightarrow> ('s, entity_item option) act"
  es_transactWrite :: "transact_item list \<Rightarrow> ('s, transact_outcome) act"

record 's tx_world =
  tw_store :: 's
  tw_others :: "('s \<Rightarrow> 's) list"
  tw_seen :: "'s list"
  tw_calls :: "call list"

text \<open>An access to the store: the next change of the others happens first.\<close>

definition interfere :: "'s tx_world \<Rightarrow> 's tx_world" where
  "interfere w =
     (case tw_others w of
        [] \<Rightarrow> w\<lparr>tw_seen := tw_seen w @ [tw_store w]\<rparr>
      | g # gs \<Rightarrow> w\<lparr>tw_store := g (tw_store w), tw_others := gs, tw_seen := tw_seen w @ [g (tw_store w)]\<rparr>)"

definition access :: "('s, 'a) act \<Rightarrow> 's tx_world \<Rightarrow> 's tx_world \<times> (js + 'a)" where
  "access m w = (case m (tw_store (interfere w)) of (s, r) \<Rightarrow> ((interfere w)\<lparr>tw_store := s\<rparr>, r))"

section \<open>One attempt\<close>

datatype tx_program =
    TxReturn js
  | TxThrow js
  | TxCall call "js + js \<Rightarrow> tx_program"

record tx_entity =
  te_entityName :: string
  te_key :: norm_key
  te_originalVersion :: int
  te_currentVersion :: int
  te_currentValue :: js

record tx_state =
  tx_entityCalls :: "(string, entity_operation) omap"
  tx_eventCalls :: "call list"
  tx_retrieved :: "(string, tx_entity) omap"

definition empty_tx_state :: tx_state where
  "empty_tx_state = \<lparr>tx_entityCalls = [], tx_eventCalls = [], tx_retrieved = []\<rparr>"

definition param :: "js list \<Rightarrow> nat \<Rightarrow> js" where
  "param params i = js_at (JArr params) i"

text \<open>\<open>resolveEntity\<close>.\<close>

definition resolveEntity ::
  "'s entity_store_ops \<Rightarrow> string \<Rightarrow> norm_key \<Rightarrow> ('s tx_world \<times> tx_state, tx_entity) act" where
  "resolveEntity ops entityName key wt =
     (let serializedKey = serializeCompositeKey entityName key
      in case om_get (tx_retrieved (snd wt)) serializedKey of
           Some te \<Rightarrow> (wt, Inr te)
         | None \<Rightarrow>
             (case access (es_getWithMetadata ops entityName (convertNormalizedEntityKeyToMap key)) (fst wt) of
                (w', Inl err) \<Rightarrow> ((w', snd wt), Inl err)
              | (w', Inr value) \<Rightarrow>
                  (let te = \<lparr>te_entityName = entityName, te_key = key, te_originalVersion = version_of value,
                             te_currentVersion = version_of value, te_currentValue = value_of value\<rparr>
                   in ((w', (snd wt)\<lparr>tx_retrieved := om_set serializedKey te (tx_retrieved (snd wt))\<rparr>), Inr te))))"

definition resolve_operation ::
  "'s entity_store_ops \<Rightarrow> entity_provider \<Rightarrow> string \<Rightarrow> js \<Rightarrow> ('s tx_world \<times> tx_state, entity \<times> norm_key \<times> tx_entity) act" where
  "resolve_operation ops provider entityName key =
     act_bind (act_lift (try_bind (getEntity provider entityName) (\<lambda>entity.
         try_bind (normalizeCompositeKey (en_key entity) key) (\<lambda>normalizedKey. Inr (entity, normalizedKey)))))
       (\<lambda>(entity, normalizedKey).
         act_bind (resolveEntity ops (en_name entity) normalizedKey) (\<lambda>te. act_return (entity, normalizedKey, te)))"

text \<open>
  An expected version is checked at once, unless it is undefined or 0 (the code tests whether it
  is truthy).
\<close>

definition check_expected :: "js \<Rightarrow> tx_entity \<Rightarrow> js + unit" where
  "check_expected expectedVersion te =
     (if truthy expectedVersion \<and> JNum (te_originalVersion te) \<noteq> expectedVersion
      then Inl (mk_UnexpectedVersion (''Operation expected version '' @ js_to_string expectedVersion
        @ '' but found '' @ int_str (te_originalVersion te) @ ''.''))
      else Inr ())"

definition tx_mutate ::
  "'s entity_store_ops \<Rightarrow> entity_provider \<Rightarrow> entity_operation \<Rightarrow> string \<Rightarrow> js list \<Rightarrow> bool \<Rightarrow> ('s tx_world \<times> tx_state, js) act" where
  "tx_mutate ops provider operation entityName params is_put =
     act_bind (resolve_operation ops provider entityName (param params 0)) (\<lambda>(entity, normalizedKey, te).
     act_bind (act_lift (check_expected (js_get (param params 1) ''expectedVersion'') te)) (\<lambda>_ wt.
       let serializedKey = serializeCompositeKey (en_name entity) normalizedKey;
           newVersion = (if is_put then te_originalVersion te + 1 else 0);
           t = snd wt
       in ((fst wt, t\<lparr>tx_entityCalls := om_set serializedKey operation (tx_entityCalls t),
                  tx_retrieved := om_set serializedKey
                    \<lparr>te_entityName = entityName, te_key = normalizedKey,
                     te_originalVersion = te_originalVersion te, te_currentVersion = newVersion,
                     te_currentValue = (if is_put then param params 0 else JUndef)\<rparr> (tx_retrieved t)\<rparr>),
           Inr (if is_put then JObj [(''version'', JNum newVersion)] else JUndef))))"

definition tx_read ::
  "'s entity_store_ops \<Rightarrow> entity_provider \<Rightarrow> string \<Rightarrow> js list \<Rightarrow> bool \<Rightarrow> ('s tx_world \<times> tx_state, js) act" where
  "tx_read ops provider entityName params with_metadata =
     act_bind (resolve_operation ops provider entityName (param params 0)) (\<lambda>(entity, normalizedKey, te).
       act_return (if \<not> with_metadata then te_currentValue te
         else if te_currentValue te = JUndef then JUndef
         else JObj [(''value'', te_currentValue te), (''version'', JNum (te_currentVersion te))]))"

text \<open>\<open>isUnsupported\<close> of the executor that \<open>createTransactionCallExecutor\<close> makes.\<close>

definition tx_supported :: "call \<Rightarrow> bool" where
  "tx_supported c =
     (case c of EmitEventsCall evs i \<Rightarrow> True | SocketCall op \<Rightarrow> True | SendSignalCall s p t i \<Rightarrow> True | _ \<Rightarrow> False)"

definition unsupported_call :: js where
  "unsupported_call = mk_Error (''Unsupported eventual call type. Only Entity requests, emit events, ''
     @ ''socket send message, and send signals are supported.'')"

definition tx_execute ::
  "'s entity_store_ops \<Rightarrow> entity_provider \<Rightarrow> call \<Rightarrow> ('s tx_world \<times> tx_state, js) act" where
  "tx_execute ops provider c =
     (case c of
        EntityCall operation \<Rightarrow>
          (case operation of
             EntityOp name entityName params \<Rightarrow>
               if name = ''put'' then tx_mutate ops provider operation entityName params True
               else if name = ''delete'' then tx_mutate ops provider operation entityName params False
               else if name = ''get'' then tx_read ops provider entityName params False
               else if name = ''getWithMetadata'' then tx_read ops provider entityName params True
               else act_throw unsupported_call
           | _ \<Rightarrow> act_throw unsupported_call)
      | _ \<Rightarrow>
          if tx_supported c
          then (\<lambda>wt. ((fst wt, (snd wt)\<lparr>tx_eventCalls := tx_eventCalls (snd wt) @ [c]\<rparr>), Inr JUndef))
          else act_throw unsupported_call)"

primrec run_tx :: "'s entity_store_ops \<Rightarrow> entity_provider \<Rightarrow> tx_program \<Rightarrow> ('s tx_world \<times> tx_state, js) act" where
  "run_tx ops provider (TxReturn v) = act_return v"
| "run_tx ops provider (TxThrow err) = act_throw err"
| "run_tx ops provider (TxCall c k) =
     (\<lambda>wt. case tx_execute ops provider c wt of (wt', r) \<Rightarrow> (\<lambda>x. run_tx ops provider (k x)) r wt')"

section \<open>Committing\<close>

definition tx_options :: "js list \<Rightarrow> int \<Rightarrow> put_options" where
  "tx_options params originalVersion =
     \<lparr>po_expectedVersion = Some originalVersion,
      po_incrementVersion = (if js_get (param params 1) ''incrementVersion'' = JBool False then Some False else None)\<rparr>"

definition transaction_item :: "tx_state \<Rightarrow> string \<times> tx_entity \<Rightarrow> transact_item" where
  "transaction_item t kte =
     (let te = snd kte
      in case om_get (tx_entityCalls t) (fst kte) of
           Some (EntityOp name entityName params) \<Rightarrow>
             if name = ''put''
             then TransactPut (te_entityName te) (param params 0) (tx_options params (te_originalVersion te))
             else TransactDelete (te_entityName te) (param params 0) (Some (te_originalVersion te))
         | _ \<Rightarrow> TransactCondition (te_entityName te) (convertNormalizedEntityKeyToMap (te_key te))
                  (Some (te_originalVersion te)))"

definition transactionItems :: "tx_state \<Rightarrow> transact_item list" where
  "transactionItems t = map (transaction_item t) (tx_retrieved t)"

datatype tx_attempt = TxOutput js | TxFailed bool "(string \<times> js) list"

text \<open>The items of a cancelled transaction that were not as expected, by their keys.\<close>

definition failed_item :: "entity_provider \<Rightarrow> transact_item \<Rightarrow> (string \<times> js) list" where
  "failed_item provider item =
     (case item of
        TransactPut n v o' \<Rightarrow> (case entity_and_key provider n v [] of Inr (e, k) \<Rightarrow> [(en_name e, convertNormalizedEntityKeyToMap k)] | _ \<Rightarrow> [])
      | TransactDelete n v o' \<Rightarrow> (case entity_and_key provider n v [] of Inr (e, k) \<Rightarrow> [(en_name e, convertNormalizedEntityKeyToMap k)] | _ \<Rightarrow> [])
      | TransactCondition n v o' \<Rightarrow> (case entity_and_key provider n v [] of Inr (e, k) \<Rightarrow> [(en_name e, convertNormalizedEntityKeyToMap k)] | _ \<Rightarrow> []))"

definition failed_items :: "entity_provider \<Rightarrow> transact_item list \<Rightarrow> js option list \<Rightarrow> (string \<times> js) list" where
  "failed_items provider items reasons =
     concat (map (\<lambda>(item, r). if r = None then [] else failed_item provider item) (zip items reasons))"

definition is_conflict :: "js \<Rightarrow> bool" where
  "is_conflict err = (case err of JErr c n m \<Rightarrow> c = ETransactionConflict | _ \<Rightarrow> False)"

text \<open>
  After a commit the calls are executed, whatever becomes of them; after a failure there is an
  attempt result; an error of the function is thrown.
\<close>

definition commit_tx ::
  "'s entity_store_ops \<Rightarrow> entity_provider \<Rightarrow> js \<Rightarrow> tx_state \<Rightarrow> ('s tx_world, tx_attempt) act" where
  "commit_tx ops provider output t w =
     (let items = transactionItems t;
          done = (\<lambda>w'. (w'\<lparr>tw_calls := tw_calls w' @ tx_eventCalls t\<rparr>, Inr (TxOutput output)))
      in if items = [] then done w
         else (case access (es_transactWrite ops items) w of
             (w', Inr Committed) \<Rightarrow> done w'
           | (w', Inr (Cancelled reasons)) \<Rightarrow> (w', Inr (TxFailed True (failed_items provider items reasons)))
           | (w', Inl err) \<Rightarrow> (w', Inr (TxFailed (is_conflict err) []))))"

definition executeTransactionOnce ::
  "'s entity_store_ops \<Rightarrow> entity_provider \<Rightarrow> tx_program \<Rightarrow> ('s tx_world, tx_attempt) act" where
  "executeTransactionOnce ops provider p w =
     (case run_tx ops provider p (w\<lparr>tw_seen := []\<rparr>, empty_tx_state) of
        ((w', t), Inl err) \<Rightarrow> (w', Inl err)
      | ((w', t), Inr output) \<Rightarrow> commit_tx ops provider output t w')"

definition too_many_retries :: js where
  "too_many_retries = mk_Error ''Failed after too many retires.''"

text \<open>\<open>do ... while (retries--)\<close>: one attempt more than there are retries.\<close>

fun attempt_transaction ::
  "'s entity_store_ops \<Rightarrow> entity_provider \<Rightarrow> tx_program \<Rightarrow> nat \<Rightarrow> 's tx_world \<Rightarrow> 's tx_world \<times> js result" where
  "attempt_transaction ops provider p retries w =
     (case executeTransactionOnce ops provider p w of
        (w', Inl err) \<Rightarrow> (w', Failed err)
      | (w', Inr (TxOutput output)) \<Rightarrow> (w', Resolved output)
      | (w', Inr (TxFailed canRetry failed)) \<Rightarrow>
          if \<not> canRetry then (w', Failed too_many_retries)
          else (case retries of
              0 \<Rightarrow> (w', Failed too_many_retries)
            | Suc n \<Rightarrow> attempt_transaction ops provider p n w'))"

declare attempt_transaction.simps [simp del]

definition executeTransaction ::
  "'s entity_store_ops \<Rightarrow> entity_provider \<Rightarrow> tx_program \<Rightarrow> nat option \<Rightarrow> 's tx_world \<Rightarrow> 's tx_world \<times> js result" where
  "executeTransaction ops provider p retries = attempt_transaction ops provider p (the_default 3 retries)"

section \<open>The store of the local runtime\<close>

definition local_ops :: "entity_provider \<Rightarrow> local_store entity_store_ops" where
  "local_ops provider =
     \<lparr>es_getWithMetadata = getWithMetadata provider, es_transactWrite = transactWrite provider\<rparr>"

end
