(* ===== verification/TransactionRefinement.thy ===== *)
theory TransactionRefinement
  imports TransactionExecutor
begin

text \<open>
  What a transaction is promised: that it happened alone, at the moment of its commit. The lemmas
  are proved for any store with the laws of the locale \<open>entity_store\<close>, of which the local store
  is an instance.
\<close>

section \<open>The contract of a store\<close>

definition put_indexable :: "norm_transact_item \<Rightarrow> bool" where
  "put_indexable i = (case i of NormPut e k v o' \<Rightarrow> indexable e v | _ \<Rightarrow> True)"

locale entity_store =
  fixes ops :: "'s entity_store_ops"
    and provider :: entity_provider
    and view :: "'s \<Rightarrow> location \<Rightarrow> entity_item option"
    and ok :: "'s \<Rightarrow> bool"
  assumes good: "ok s \<Longrightarrow> good_provider provider"
    and get: "ok s \<Longrightarrow> entity_and_key provider n k [] = Inr (e, key) \<Longrightarrow>
      \<exists>s'. es_getWithMetadata ops n k s = (s', Inr (view s (n, table_key key))) \<and> view s' = view s \<and> ok s'"
    and transact: "ok s \<Longrightarrow> list_all2 (\<lambda>x y. normalize_item provider x = Inr y) items nitems \<Longrightarrow>
      distinct (map item_location nitems) \<Longrightarrow> list_all put_indexable nitems \<Longrightarrow>
      list_all (\<lambda>i. item_expected i (view s)) nitems \<Longrightarrow>
      \<exists>s'. es_transactWrite ops items s = (s', Inr Committed) \<and> view s' = items_effect nitems (view s) \<and> ok s'"
    and transact_cancelled: "ok s \<Longrightarrow> list_all2 (\<lambda>x y. normalize_item provider x = Inr y) items nitems \<Longrightarrow>
      distinct (map item_location nitems) \<Longrightarrow> list_all put_indexable nitems \<Longrightarrow>
      \<not> list_all (\<lambda>i. item_expected i (view s)) nitems \<Longrightarrow>
      \<exists>s' reasons. es_transactWrite ops items s = (s', Inr (Cancelled reasons)) \<and> view s' = view s \<and> ok s'"

section \<open>Keys and calls of a transaction\<close>

text \<open>The texts under which the cache keeps entities tell the keys of the transaction apart.\<close>

definition cache_faithful :: "(string \<times> norm_key) list \<Rightarrow> bool" where
  "cache_faithful keys \<longleftrightarrow> list_all (\<lambda>(n, key). list_all (\<lambda>(n', key').
     (serializeCompositeKey n key = serializeCompositeKey n' key') = ((n, table_key key) = (n', table_key key'))) keys) keys"

lemma cache_faithful_keys:
  "cache_faithful keys \<Longrightarrow> (n, key) \<in> set keys \<Longrightarrow> (n', key') \<in> set keys \<Longrightarrow>
   serializeCompositeKey n key = serializeCompositeKey n' key' \<longleftrightarrow> (n, table_key key) = (n', table_key key')"
  by (fastforce simp: cache_faithful_def list_all_iff)

definition tx_entity_call :: "call \<Rightarrow> (string \<times> string \<times> js list) option" where
  "tx_entity_call c =
     (case c of
        EntityCall (EntityOp name entityName params) \<Rightarrow>
          if name \<in> set [''put'', ''delete'', ''get'', ''getWithMetadata''] then Some (name, entityName, params) else None
      | _ \<Rightarrow> None)"

definition call_admitted :: "entity_provider \<Rightarrow> (string \<times> norm_key) list \<Rightarrow> call \<Rightarrow> bool" where
  "call_admitted provider keys c =
     (case tx_entity_call c of
        None \<Rightarrow> True
      | Some (name, n, params) \<Rightarrow>
          (case provider n of
             None \<Rightarrow> True
           | Some e \<Rightarrow>
               (name = ''put'' \<longrightarrow> indexable e (param params 0)) \<and>
               (case normalizeCompositeKey (en_key e) (param params 0) of
                  Inl err \<Rightarrow> True
                | Inr key \<Rightarrow> isCompleteKey key \<and> (n, key) \<in> set keys)))"

primrec all_calls :: "(call \<Rightarrow> bool) \<Rightarrow> tx_program \<Rightarrow> bool" where
  "all_calls P (TxReturn v) = True"
| "all_calls P (TxThrow err) = True"
| "all_calls P (TxCall c k) = (P c \<and> (\<forall>r. (\<lambda>x. all_calls P (k x)) r))"

text \<open>What an entity call does once its entity is resolved.\<close>

definition tx_finish ::
  "string \<Rightarrow> string \<Rightarrow> js list \<Rightarrow> entity \<times> norm_key \<times> tx_entity \<Rightarrow> tx_state \<Rightarrow> tx_state \<times> (js + js)" where
  "tx_finish name entityName params ekte t =
     (case ekte of (e, key, te) \<Rightarrow>
       if name = ''put'' \<or> name = ''delete''
       then (case check_expected (js_get (param params 1) ''expectedVersion'') te of
           Inl err \<Rightarrow> (t, Inl err)
         | Inr _ \<Rightarrow>
             (let sk = serializeCompositeKey (en_name e) key;
                  newVersion = (if name = ''put'' then te_originalVersion te + 1 else 0)
              in (t\<lparr>tx_entityCalls := om_set sk (EntityOp name entityName params) (tx_entityCalls t),
                    tx_retrieved := om_set sk
                      \<lparr>te_entityName = entityName, te_key = key, te_originalVersion = te_originalVersion te,
                       te_currentVersion = newVersion,
                       te_currentValue = (if name = ''put'' then param params 0 else JUndef)\<rparr> (tx_retrieved t)\<rparr>,
                  Inr (if name = ''put'' then JObj [(''version'', JNum newVersion)] else JUndef))))
       else (t, Inr (if name = ''get'' then te_currentValue te
                     else if te_currentValue te = JUndef then JUndef
                     else JObj [(''value'', te_currentValue te), (''version'', JNum (te_currentVersion te))])))"

lemma tx_execute_entity:
  assumes "tx_entity_call c = Some (name, n, params)"
  shows "tx_execute ops provider c wt =
    (case resolve_operation ops provider n (param params 0) wt of
       (wt', Inl err) \<Rightarrow> (wt', Inl err)
     | ((w', t'), Inr x) \<Rightarrow> (case tx_finish name n params x t' of (t'', r) \<Rightarrow> ((w', t''), r)))"
proof -
  have c: "c = EntityCall (EntityOp name n params)" and name: "name \<in> set [''put'', ''delete'', ''get'', ''getWithMetadata'']"
    using assms by (auto simp: tx_entity_call_def split: call.splits entity_operation.splits if_splits)
  show ?thesis
    using name
    by (auto simp: c tx_execute_def tx_mutate_def tx_read_def tx_finish_def act_bind_def Let_def
        split: prod.split sum.split)
qed

lemma tx_execute_other:
  assumes "tx_entity_call c = None"
  shows "\<exists>evs r. \<forall>w t. tx_execute ops provider c (w, t) = ((w, t\<lparr>tx_eventCalls := tx_eventCalls t @ evs\<rparr>), r)"
proof -
  have "tx_execute ops provider c = act_throw unsupported_call \<or>
      tx_execute ops provider c = (\<lambda>wt. ((fst wt, (snd wt)\<lparr>tx_eventCalls := tx_eventCalls (snd wt) @ [c]\<rparr>), Inr JUndef))"
    using assms by (auto simp: tx_execute_def tx_entity_call_def tx_supported_def split: call.splits entity_operation.splits if_splits)
  then show ?thesis
  proof
    assume "tx_execute ops provider c = act_throw unsupported_call"
    then show ?thesis by (intro exI [of _ "[]"]) simp
  qed auto
qed

section \<open>The state of an attempt\<close>

definition tx_inv :: "entity_provider \<Rightarrow> (string \<times> norm_key) list \<Rightarrow> tx_state \<Rightarrow> bool" where
  "tx_inv provider keys t \<longleftrightarrow> om_inv (tx_retrieved t) \<and>
     (\<forall>sk te. om_get (tx_retrieved t) sk = Some te \<longrightarrow>
        (\<exists>e. entity_and_key provider (te_entityName te) (convertNormalizedEntityKeyToMap (te_key te)) [] = Inr (e, te_key te)) \<and>
        (te_entityName te, te_key te) \<in> set keys \<and> sk = serializeCompositeKey (te_entityName te) (te_key te)) \<and>
     (\<forall>sk op. om_get (tx_entityCalls t) sk = Some op \<longrightarrow>
        (\<exists>name n params te e. op = EntityOp name n params \<and> (name = ''put'' \<or> name = ''delete'') \<and>
           om_get (tx_retrieved t) sk = Some te \<and> te_entityName te = n \<and>
           entity_and_key provider n (param params 0) [] = Inr (e, te_key te) \<and>
           (name = ''put'' \<longrightarrow> indexable e (param params 0))))"

lemma tx_inv_empty: "tx_inv provider keys empty_tx_state"
  by (simp add: tx_inv_def empty_tx_state_def om_inv_def om_get_eq)

definition tx_extends :: "tx_state \<Rightarrow> tx_state \<Rightarrow> bool" where
  "tx_extends t t' \<longleftrightarrow> (\<forall>sk te. om_get (tx_retrieved t) sk = Some te \<longrightarrow>
     (\<exists>te'. om_get (tx_retrieved t') sk = Some te' \<and> te_originalVersion te' = te_originalVersion te))"

lemma tx_extends_refl [simp]: "tx_extends t t"
  by (simp add: tx_extends_def)

lemma tx_extends_trans: "tx_extends t t' \<Longrightarrow> tx_extends t' t'' \<Longrightarrow> tx_extends t t''"
  unfolding tx_extends_def by (metis (no_types, lifting))

definition te_location :: "tx_entity \<Rightarrow> location" where
  "te_location te = (te_entityName te, table_key (te_key te))"

text \<open>Everything read has, in a given store, the version it was read with.\<close>

definition settled :: "(location \<Rightarrow> entity_item option) \<Rightarrow> tx_state \<Rightarrow> bool" where
  "settled v t \<longleftrightarrow> (\<forall>sk te. om_get (tx_retrieved t) sk = Some te \<longrightarrow> version_of (v (te_location te)) = te_originalVersion te)"

lemma settled_empty [simp]: "settled v empty_tx_state"
  by (simp add: settled_def empty_tx_state_def om_get_eq)

lemma tx_inv_location:
  assumes "cache_faithful keys" and "tx_inv provider keys t" and "tx_inv provider keys t'"
    and "om_get (tx_retrieved t) sk = Some te" and "om_get (tx_retrieved t') sk = Some te'"
  shows "te_location te' = te_location te"
proof -
  have "(te_entityName te, te_key te) \<in> set keys" "sk = serializeCompositeKey (te_entityName te) (te_key te)"
    "(te_entityName te', te_key te') \<in> set keys" "sk = serializeCompositeKey (te_entityName te') (te_key te')"
    using assms(2-5) unfolding tx_inv_def by blast+
  with cache_faithful_keys [OF assms(1)] show ?thesis unfolding te_location_def by metis
qed

lemma settled_before:
  assumes "cache_faithful keys" and "tx_inv provider keys t" and "tx_inv provider keys t'"
    and "tx_extends t t'" and "settled v t'"
  shows "settled v t"
  unfolding settled_def
proof (intro allI impI)
  fix sk te assume te: "om_get (tx_retrieved t) sk = Some te"
  with assms(4) obtain te' where te': "om_get (tx_retrieved t') sk = Some te'"
    "te_originalVersion te' = te_originalVersion te" unfolding tx_extends_def by blast
  have "te_location te' = te_location te" by (rule tx_inv_location [OF assms(1-3) te te'(1)])
  with te' assms(5) show "version_of (v (te_location te)) = te_originalVersion te"
    unfolding settled_def by metis
qed

text \<open>Two stores in which an item of the same version is the same item.\<close>

definition determines :: "(location \<Rightarrow> entity_item option) \<Rightarrow> (location \<Rightarrow> entity_item option) \<Rightarrow> bool" where
  "determines v v' \<longleftrightarrow> (\<forall>l. version_of (v l) = version_of (v' l) \<longrightarrow> v l = v' l)"

text \<open>Every item is what it was, or has a higher version.\<close>

definition grows :: "(location \<Rightarrow> entity_item option) \<Rightarrow> (location \<Rightarrow> entity_item option) \<Rightarrow> bool" where
  "grows v v' \<longleftrightarrow> (\<forall>l. v' l = v l \<or> version_of (v l) < version_of (v' l))"

lemma grows_refl [simp]: "grows v v"
  by (simp add: grows_def)

lemma grows_trans: "grows v v' \<Longrightarrow> grows v' v'' \<Longrightarrow> grows v v''"
  unfolding grows_def by (metis order_less_trans)

lemma grows_determines: "grows v v' \<Longrightarrow> determines v v'"
  unfolding grows_def determines_def by (metis order_less_irrefl)

lemma key_map_named:
  assumes "good_provider provider" and "entity_and_key provider n k m = Inr (e, key)"
  shows "entity_and_key provider n (convertNormalizedEntityKeyToMap key) [] = Inr (e, key)"
proof -
  have e: "provider n = Some e" "distinct (key_attributes (en_key e))"
    and key: "normalizeCompositeKey (en_key e) k = Inr key" "isCompleteKey key"
    using assms by (auto simp: entity_and_key_Inr good_provider_def)
  then show ?thesis using key_map_normalizes [OF e(2) key(1)] by (simp add: entity_and_key_Inr)
qed

lemma tx_inv_entry:
  assumes "tx_inv provider keys t" and "om_get (tx_retrieved t) sk = Some te"
  shows "\<exists>e. entity_and_key provider (te_entityName te) (convertNormalizedEntityKeyToMap (te_key te)) [] = Inr (e, te_key te)"
    and "(te_entityName te, te_key te) \<in> set keys" and "sk = serializeCompositeKey (te_entityName te) (te_key te)"
  using assms unfolding tx_inv_def by blast+

lemma tx_inv_call:
  assumes "tx_inv provider keys t" and "om_get (tx_entityCalls t) sk = Some op"
  shows "\<exists>name n params te e. op = EntityOp name n params \<and> (name = ''put'' \<or> name = ''delete'') \<and>
     om_get (tx_retrieved t) sk = Some te \<and> te_entityName te = n \<and>
     entity_and_key provider n (param params 0) [] = Inr (e, te_key te) \<and> (name = ''put'' \<longrightarrow> indexable e (param params 0))"
  using assms unfolding tx_inv_def by (elim conjE allE [of _ sk] allE [of _ op] impE) simp_all

text \<open>An entry is added, or replaced by one of the same location and original version.\<close>

lemma tx_inv_set_entry:
  assumes t: "tx_inv provider keys t" and good: "good_provider provider"
    and key: "entity_and_key provider n k m = Inr (e, key)" "(n, key) \<in> set keys"
    and te: "te_entityName te = n" "te_key te = key" and new: "om_get (tx_retrieved t) (serializeCompositeKey n key) = None"
  shows "tx_inv provider keys (t\<lparr>tx_retrieved := om_set (serializeCompositeKey n key) te (tx_retrieved t)\<rparr>)"
    and "tx_extends t (t\<lparr>tx_retrieved := om_set (serializeCompositeKey n key) te (tx_retrieved t)\<rparr>)"
    and "settled v (t\<lparr>tx_retrieved := om_set (serializeCompositeKey n key) te (tx_retrieved t)\<rparr>) \<longleftrightarrow>
      settled v t \<and> version_of (v (n, table_key key)) = te_originalVersion te"
proof -
  define sk where "sk = serializeCompositeKey n key"
  have some: "sk' \<noteq> sk" if "om_get (tx_entityCalls t) sk' = Some op" for sk' op
  proof -
    from tx_inv_call [OF t that] new show ?thesis by (auto simp: sk_def)
  qed
  show "tx_inv provider keys (t\<lparr>tx_retrieved := om_set (serializeCompositeKey n key) te (tx_retrieved t)\<rparr>)"
    unfolding tx_inv_def sk_def [symmetric]
  proof (intro conjI allI impI)
    show "om_inv (tx_retrieved (t\<lparr>tx_retrieved := om_set sk te (tx_retrieved t)\<rparr>))"
      using t by (simp add: tx_inv_def om_inv_set)
  next
    fix sk' te'
    assume "om_get (tx_retrieved (t\<lparr>tx_retrieved := om_set sk te (tx_retrieved t)\<rparr>)) sk' = Some te'"
    then have "(sk' = sk \<and> te' = te) \<or> om_get (tx_retrieved t) sk' = Some te'" by (auto simp: om_get_set split: if_splits)
    then have "(\<exists>e. entity_and_key provider (te_entityName te') (convertNormalizedEntityKeyToMap (te_key te')) [] = Inr (e, te_key te')) \<and>
        (te_entityName te', te_key te') \<in> set keys \<and> sk' = serializeCompositeKey (te_entityName te') (te_key te')"
      using key_map_named [OF good key(1)] key(2) te tx_inv_entry [OF t] by (auto simp: sk_def)
    then show "\<exists>e. entity_and_key provider (te_entityName te') (convertNormalizedEntityKeyToMap (te_key te')) [] = Inr (e, te_key te')"
      "(te_entityName te', te_key te') \<in> set keys" "sk' = serializeCompositeKey (te_entityName te') (te_key te')" by blast+
  next
    fix sk' op
    assume "om_get (tx_entityCalls (t\<lparr>tx_retrieved := om_set sk te (tx_retrieved t)\<rparr>)) sk' = Some op"
    then have op: "om_get (tx_entityCalls t) sk' = Some op" by simp
    with t some [OF op] show "\<exists>name n params te' e. op = EntityOp name n params \<and> (name = ''put'' \<or> name = ''delete'') \<and>
        om_get (tx_retrieved (t\<lparr>tx_retrieved := om_set sk te (tx_retrieved t)\<rparr>)) sk' = Some te' \<and> te_entityName te' = n \<and>
        entity_and_key provider n (param params 0) [] = Inr (e, te_key te') \<and> (name = ''put'' \<longrightarrow> indexable e (param params 0))"
      unfolding tx_inv_def by (simp add: om_get_set)
  qed
  show "tx_extends t (t\<lparr>tx_retrieved := om_set (serializeCompositeKey n key) te (tx_retrieved t)\<rparr>)"
    using new by (auto simp: tx_extends_def om_get_set)
  show "settled v (t\<lparr>tx_retrieved := om_set (serializeCompositeKey n key) te (tx_retrieved t)\<rparr>) \<longleftrightarrow>
      settled v t \<and> version_of (v (n, table_key key)) = te_originalVersion te"
    using new te by (auto simp: settled_def om_get_set te_location_def)
qed

lemma tx_finish_keeps:
  assumes keys: "cache_faithful keys" and t: "tx_inv provider keys t" and good: "good_provider provider"
    and call: "name \<in> set [''put'', ''delete'', ''get'', ''getWithMetadata'']"
    and key: "entity_and_key provider n (param params 0) [] = Inr (e, key)" "(n, key) \<in> set keys"
    and ix: "name = ''put'' \<longrightarrow> indexable e (param params 0)"
    and te: "om_get (tx_retrieved t) (serializeCompositeKey n key) = Some te"
    and fin: "tx_finish name n params (e, key, te) t = (t', r)"
  shows "tx_inv provider keys t' \<and> tx_extends t t' \<and> (settled v t \<longrightarrow> settled v t')"
proof -
  define sk where "sk = serializeCompositeKey n key"
  have e: "en_name e = n" using good key(1) by (auto simp: good_provider_def entity_and_key_Inr)
  define te' where "te' = \<lparr>te_entityName = n, te_key = key, te_originalVersion = te_originalVersion te,
    te_currentVersion = (if name = ''put'' then te_originalVersion te + 1 else 0),
    te_currentValue = (if name = ''put'' then param params 0 else JUndef)\<rparr>"
  define t2 where "t2 = t\<lparr>tx_entityCalls := om_set sk (EntityOp name n params) (tx_entityCalls t),
    tx_retrieved := om_set sk te' (tx_retrieved t)\<rparr>"
  have "t' = t \<or> (t' = t2 \<and> (name = ''put'' \<or> name = ''delete''))"
    using fin by (auto simp: tx_finish_def Let_def t2_def te'_def sk_def e split: if_splits sum.splits)
  then show ?thesis
  proof
    assume "t' = t"
    then show ?thesis using t by simp
  next
    assume a: "t' = t2 \<and> (name = ''put'' \<or> name = ''delete'')"
    have loc: "te_location te = (n, table_key key)"
      using tx_inv_entry(3) [OF t te] cache_faithful_keys [OF keys tx_inv_entry(2) [OF t te] key(2)]
      by (simp add: te_location_def)
    have "tx_inv provider keys t2"
      unfolding tx_inv_def
    proof (intro conjI allI impI)
      show "om_inv (tx_retrieved t2)" using t by (simp add: t2_def tx_inv_def om_inv_set)
    next
      fix sk1 te1 assume "om_get (tx_retrieved t2) sk1 = Some te1"
      then have "(sk1 = sk \<and> te1 = te') \<or> om_get (tx_retrieved t) sk1 = Some te1"
        by (auto simp: t2_def om_get_set split: if_splits)
      then have "(\<exists>e. entity_and_key provider (te_entityName te1) (convertNormalizedEntityKeyToMap (te_key te1)) [] = Inr (e, te_key te1)) \<and>
          (te_entityName te1, te_key te1) \<in> set keys \<and> sk1 = serializeCompositeKey (te_entityName te1) (te_key te1)"
        using key_map_named [OF good key(1)] key(2) tx_inv_entry [OF t] by (auto simp: sk_def te'_def)
      then show "\<exists>e. entity_and_key provider (te_entityName te1) (convertNormalizedEntityKeyToMap (te_key te1)) [] = Inr (e, te_key te1)"
        "(te_entityName te1, te_key te1) \<in> set keys" "sk1 = serializeCompositeKey (te_entityName te1) (te_key te1)" by blast+
    next
      fix sk1 op assume op: "om_get (tx_entityCalls t2) sk1 = Some op"
      show "\<exists>name n params te1 e. op = EntityOp name n params \<and> (name = ''put'' \<or> name = ''delete'') \<and>
          om_get (tx_retrieved t2) sk1 = Some te1 \<and> te_entityName te1 = n \<and>
          entity_and_key provider n (param params 0) [] = Inr (e, te_key te1) \<and> (name = ''put'' \<longrightarrow> indexable e (param params 0))"
      proof (cases "sk1 = sk")
        case True
        with op have "op = EntityOp name n params" by (simp add: t2_def om_get_set)
        moreover have "om_get (tx_retrieved t2) sk1 = Some te'" using True by (simp add: t2_def om_get_set)
        moreover have "te_entityName te' = n" "te_key te' = key" by (simp_all add: te'_def)
        ultimately show ?thesis using key(1) ix a by blast
      next
        case False
        with op have "om_get (tx_entityCalls t) sk1 = Some op" by (simp add: t2_def om_get_set)
        moreover have "om_get (tx_retrieved t2) sk1 = om_get (tx_retrieved t) sk1" using False by (simp add: t2_def om_get_set)
        ultimately show ?thesis using tx_inv_call [OF t, of sk1 op] by simp
      qed
    qed
    moreover have "tx_extends t t2" using te by (auto simp: tx_extends_def t2_def om_get_set sk_def te'_def)
    moreover have "settled v t2" if v: "settled v t"
    proof -
      have "version_of (v (n, table_key key)) = te_originalVersion te" using v te loc unfolding settled_def by metis
      then show ?thesis using v by (auto simp: settled_def t2_def om_get_set te'_def te_location_def split: if_splits)
    qed
    ultimately show ?thesis using a by simp
  qed
qed

text \<open>A world with a store and nobody else.\<close>

definition solo :: "'s \<Rightarrow> call list \<Rightarrow> 's tx_world" where
  "solo s calls = \<lparr>tw_store = s, tw_others = [], tw_seen = [], tw_calls = calls\<rparr>"

text \<open>The store an attempt found when it committed.\<close>

definition commit_store :: "'s tx_world \<Rightarrow> 's" where
  "commit_store w = (if tw_seen w = [] then tw_store w else last (tw_seen w))"

context entity_store
begin

definition world_ok :: "'s tx_world \<Rightarrow> bool" where
  "world_ok w \<longleftrightarrow> ok (tw_store w) \<and> list_all ok (tw_seen w) \<and> (\<forall>g \<in> set (tw_others w). \<forall>s. ok s \<longrightarrow> ok (g s))"

text \<open>Changes that give an item they touch a higher version.\<close>

definition forward :: "('s \<Rightarrow> 's) \<Rightarrow> bool" where
  "forward g \<longleftrightarrow> (\<forall>s. ok s \<longrightarrow> grows (view s) (view (g s)))"

definition world_step :: "'s tx_world \<Rightarrow> 's tx_world \<Rightarrow> bool" where
  "world_step w w' \<longleftrightarrow> (\<exists>seen. tw_seen w' = tw_seen w @ seen \<and> view (tw_store w') = view (last (tw_store w # seen)) \<and>
       (list_all forward (tw_others w) \<longrightarrow> list_all (\<lambda>s. grows (view s) (view (tw_store w'))) (tw_store w # seen))) \<and>
     length (tw_others w') \<le> length (tw_others w) \<and> set (tw_others w') \<subseteq> set (tw_others w) \<and>
     tw_calls w' = tw_calls w \<and> (tw_others w = [] \<longrightarrow> view (tw_store w') = view (tw_store w))"

lemma world_step_seen:
  assumes "world_step w w'"
  shows "set (tw_seen w) \<subseteq> set (tw_seen w')" "tw_others w = [] \<Longrightarrow> tw_others w' = []" "tw_calls w' = tw_calls w"
    "tw_others w = [] \<Longrightarrow> view (tw_store w') = view (tw_store w)"
  using assms by (auto simp: world_step_def)

text \<open>A world without others, whose store looks like \<open>v\<close>.\<close>

definition alone :: "(location \<Rightarrow> entity_item option) \<Rightarrow> 's tx_world \<Rightarrow> bool" where
  "alone v w \<longleftrightarrow> world_ok w \<and> tw_others w = [] \<and> view (tw_store w) = v"

lemma world_step_refl [simp]: "world_step w w"
  by (simp add: world_step_def exI [of _ "[]"])

lemma world_step_trans:
  assumes "world_step w w'" and "world_step w' w''"
  shows "world_step w w''"
proof -
  from assms obtain xs ys where
    xs: "tw_seen w' = tw_seen w @ xs" "view (tw_store w') = view (last (tw_store w # xs))"
      "list_all forward (tw_others w) \<longrightarrow> list_all (\<lambda>s. grows (view s) (view (tw_store w'))) (tw_store w # xs)"
    and ys: "tw_seen w'' = tw_seen w' @ ys" "view (tw_store w'') = view (last (tw_store w' # ys))"
      "list_all forward (tw_others w') \<longrightarrow> list_all (\<lambda>s. grows (view s) (view (tw_store w''))) (tw_store w' # ys)"
    and others: "set (tw_others w') \<subseteq> set (tw_others w)"
    unfolding world_step_def by blast
  have "tw_seen w'' = tw_seen w @ (xs @ ys)" using xs ys by simp
  moreover have "view (tw_store w'') = view (last (tw_store w # xs @ ys))"
    using xs(2) ys(2) by (cases "ys = []") simp_all
  moreover have "list_all (\<lambda>s. grows (view s) (view (tw_store w''))) (tw_store w # xs @ ys)"
    if "list_all forward (tw_others w)"
  proof -
    have f: "list_all forward (tw_others w')" using that others by (auto simp: list_all_iff)
    have "grows (view s) (view (tw_store w''))" if "s \<in> set (tw_store w # xs)" for s
      using grows_trans [of "view s" "view (tw_store w')"] xs(3) ys(3) f \<open>list_all forward (tw_others w)\<close> that
      by (auto simp: list_all_iff)
    with ys(3) f show ?thesis by (auto simp: list_all_iff)
  qed
  ultimately have "\<exists>seen. tw_seen w'' = tw_seen w @ seen \<and> view (tw_store w'') = view (last (tw_store w # seen)) \<and>
       (list_all forward (tw_others w) \<longrightarrow> list_all (\<lambda>s. grows (view s) (view (tw_store w''))) (tw_store w # seen))"
    by blast
  then show ?thesis using assms unfolding world_step_def by fastforce
qed

lemma world_ok_interfere: "world_ok w \<Longrightarrow> ok (tw_store (interfere w)) \<and> (\<forall>g \<in> set (tw_others (interfere w)). \<forall>s. ok s \<longrightarrow> ok (g s))"
  by (cases "tw_others w") (simp_all add: world_ok_def interfere_def)

lemma interfere_step:
  "length (tw_others (interfere w)) \<le> length (tw_others w)" "set (tw_others (interfere w)) \<subseteq> set (tw_others w)"
  "tw_calls (interfere w) = tw_calls w" "tw_others w = [] \<Longrightarrow> tw_others (interfere w) = []"
  "tw_others w = [] \<Longrightarrow> tw_store (interfere w) = tw_store w"
  by (cases "tw_others w"; auto simp: interfere_def)+

lemma interfere_seen: "tw_seen (interfere w) = tw_seen w @ [tw_store (interfere w)]"
  by (cases "tw_others w") (simp_all add: interfere_def)

text \<open>An access that succeeds takes the world to one with the store it left.\<close>

lemma access_step:
  assumes w: "world_ok w" and m: "m (tw_store (interfere w)) = (s', r)" and s': "view s' = view (tw_store (interfere w))" "ok s'"
  shows "\<exists>w'. access m w = (w', r) \<and> tw_store w' = s' \<and> world_ok w' \<and> world_step w w' \<and>
    tw_store (interfere w) \<in> set (tw_seen w')"
proof -
  define w' where "w' = (interfere w)\<lparr>tw_store := s'\<rparr>"
  have run: "access m w = (w', r)" using m by (simp add: access_def w'_def)
  have ok': "world_ok w'" using world_ok_interfere [OF w] w s' interfere_seen [of w] by (simp add: world_ok_def w'_def)
  have "grows (view (tw_store w)) (view (tw_store (interfere w)))" if "list_all forward (tw_others w)"
    using that w by (cases "tw_others w") (simp_all add: interfere_def forward_def world_ok_def)
  then have "tw_seen w' = tw_seen w @ [tw_store (interfere w)] \<and>
      view (tw_store w') = view (last (tw_store w # [tw_store (interfere w)])) \<and>
      (list_all forward (tw_others w) \<longrightarrow>
        list_all (\<lambda>s. grows (view s) (view (tw_store w'))) (tw_store w # [tw_store (interfere w)]))"
    using s' by (simp add: w'_def interfere_seen)
  moreover have "tw_others w = [] \<longrightarrow> view (tw_store w') = view (tw_store w)"
    using s' interfere_step(5) [of w] by (auto simp: w'_def)
  ultimately have "world_step w w'" unfolding world_step_def using interfere_step [of w] by (auto simp: w'_def)
  then show ?thesis using run ok' by (auto simp: w'_def interfere_seen)
qed

lemma access_get:
  assumes "world_ok w" and "entity_and_key provider n k [] = Inr (e, key)"
  shows "\<exists>w'. access (es_getWithMetadata ops n k) w = (w', Inr (view (tw_store (interfere w)) (n, table_key key))) \<and>
    world_ok w' \<and> world_step w w' \<and> tw_store (interfere w) \<in> set (tw_seen w')"
proof -
  have s: "ok (tw_store (interfere w))" using world_ok_interfere [OF assms(1)] by simp
  from get [OF s assms(2)] obtain s' where
    "es_getWithMetadata ops n k (tw_store (interfere w)) = (s', Inr (view (tw_store (interfere w)) (n, table_key key)))"
    "view s' = view (tw_store (interfere w))" "ok s'" by blast
  from access_step [where m = "es_getWithMetadata ops n k", OF assms(1) this] show ?thesis by blast
qed

definition good_run :: "(string \<times> norm_key) list \<Rightarrow> ('s tx_world \<times> tx_state, 'a) act \<Rightarrow> bool" where
  "good_run keys m \<longleftrightarrow>
     (\<forall>w t w' t' r. world_ok w \<longrightarrow> tx_inv provider keys t \<longrightarrow> m (w, t) = ((w', t'), r) \<longrightarrow>
        tx_inv provider keys t' \<and> world_ok w' \<and> world_step w w' \<and> tx_extends t t' \<and>
        (tw_others w = [] \<longrightarrow> settled (view (tw_store w)) t \<longrightarrow> settled (view (tw_store w)) t') \<and>
        (\<forall>v wc. (\<forall>s \<in> set (tw_seen w'). determines (view s) v) \<longrightarrow> settled v t' \<longrightarrow> alone v wc \<longrightarrow>
           (\<exists>wc'. m (wc, t) = ((wc', t'), r) \<and> alone v wc' \<and> tw_calls wc' = tw_calls wc)))"

lemma good_run_bind:
  assumes keys: "cache_faithful keys" and m: "good_run keys m" and f: "\<And>r. good_run keys (f r)"
  shows "good_run keys (\<lambda>wt. case m wt of (wt', r) \<Rightarrow> f r wt')"
  unfolding good_run_def
proof (intro allI impI)
  fix w t w' t' r
  assume w: "world_ok w" and t: "tx_inv provider keys t"
    and run: "(case m (w, t) of (wt', r) \<Rightarrow> f r wt') = ((w', t'), r)"
  obtain w1 t1 r1 where m1: "m (w, t) = ((w1, t1), r1)" by (metis prod.exhaust)
  with run have f1: "f r1 (w1, t1) = ((w', t'), r)" by simp
  note one = m [unfolded good_run_def, rule_format, OF w t m1]
  then have w1: "world_ok w1" and t1: "tx_inv provider keys t1" by blast+
  note two = f [unfolded good_run_def, rule_format, OF w1 t1 f1]
  have seen: "set (tw_seen w1) \<subseteq> set (tw_seen w')" using two world_step_seen by blast
  have quiet: "view (tw_store w1) = view (tw_store w) \<and> tw_others w1 = []" if "tw_others w = []"
    using one that world_step_seen by blast
  have "\<exists>wc'. (case m (wc, t) of (wt', r) \<Rightarrow> f r wt') = ((wc', t'), r) \<and> alone v wc' \<and> tw_calls wc' = tw_calls wc"
    if v: "\<forall>s \<in> set (tw_seen w'). determines (view s) v" "settled v t'" and wc: "alone v wc" for v wc
  proof -
    have "settled v t1" by (rule settled_before [OF keys t1 _ _ v(2)]) (use two in blast)+
    with one v(1) seen wc obtain wc1 where "m (wc, t) = ((wc1, t1), r1)" "alone v wc1" "tw_calls wc1 = tw_calls wc"
      by blast
    moreover from this two v obtain wc' where "f r1 (wc1, t1) = ((wc', t'), r)" "alone v wc'" "tw_calls wc' = tw_calls wc1"
      by blast
    ultimately show ?thesis by auto
  qed
  moreover have "world_step w w'" using one two world_step_trans by blast
  moreover have "tx_extends t t'" using one two tx_extends_trans by blast
  moreover have "settled (view (tw_store w)) t'" if "tw_others w = []" and "settled (view (tw_store w)) t"
    using quiet [OF that(1)] one two that by simp
  ultimately show "tx_inv provider keys t' \<and> world_ok w' \<and> world_step w w' \<and> tx_extends t t' \<and>
      (tw_others w = [] \<longrightarrow> settled (view (tw_store w)) t \<longrightarrow> settled (view (tw_store w)) t') \<and>
      (\<forall>v wc. (\<forall>s \<in> set (tw_seen w'). determines (view s) v) \<longrightarrow> settled v t' \<longrightarrow> alone v wc \<longrightarrow>
         (\<exists>wc'. (case m (wc, t) of (wt', r) \<Rightarrow> f r wt') = ((wc', t'), r) \<and> alone v wc' \<and> tw_calls wc' = tw_calls wc))"
    using two by simp
qed

lemma good_run_pure:
  assumes "\<And>t t' r. tx_inv provider keys t \<Longrightarrow> f t = (t', r) \<Longrightarrow>
      tx_inv provider keys t' \<and> tx_extends t t' \<and> (\<forall>v. settled v t \<longrightarrow> settled v t')"
  shows "good_run keys (\<lambda>wt. case f (snd wt) of (t', r) \<Rightarrow> ((fst wt, t'), r))"
  unfolding good_run_def using assms by (fastforce split: prod.splits)

lemma good_run_resolve:
  assumes keys: "cache_faithful keys" and good: "good_provider provider"
    and call: "name \<in> set [''put'', ''delete'', ''get'', ''getWithMetadata'']"
    and key: "entity_and_key provider n (param params 0) [] = Inr (e, key)" "(n, key) \<in> set keys"
    and ix: "name = ''put'' \<longrightarrow> indexable e (param params 0)"
  shows "good_run keys (\<lambda>wt. case resolveEntity ops n key wt of
      (wt', Inl err) \<Rightarrow> (wt', Inl err)
    | ((w', t'), Inr te) \<Rightarrow> (case tx_finish name n params (e, key, te) t' of (t'', r) \<Rightarrow> ((w', t''), r)))"
  unfolding good_run_def
proof (intro allI impI)
  fix w t w' t' r
  assume w: "world_ok w" and t: "tx_inv provider keys t"
    and run: "(case resolveEntity ops n key (w, t) of
      (wt', Inl err) \<Rightarrow> (wt', Inl err)
    | ((w', t'), Inr te) \<Rightarrow> (case tx_finish name n params (e, key, te) t' of (t'', r) \<Rightarrow> ((w', t''), r))) = ((w', t'), r)"
  define sk where "sk = serializeCompositeKey n key"
  note finish = tx_finish_keeps [OF keys _ good call key ix]
  have step: "tx_inv provider keys t' \<and> world_ok w' \<and> world_step w w' \<and> tx_extends t t' \<and>
      (tw_others w = [] \<longrightarrow> settled (view (tw_store w)) t \<longrightarrow> settled (view (tw_store w)) t') \<and>
      (\<forall>v wc. (\<forall>s \<in> set (tw_seen w'). determines (view s) v) \<longrightarrow> settled v t' \<longrightarrow> alone v wc \<longrightarrow>
         (\<exists>wc1. resolveEntity ops n key (wc, t) = ((wc1, t1), Inr te) \<and> alone v wc1 \<and> tw_calls wc1 = tw_calls wc))"
    if res: "resolveEntity ops n key (w, t) = ((w1, t1), Inr te)" and fin: "tx_finish name n params (e, key, te) t1 = (t', r)"
      and w': "w' = w1" and te: "om_get (tx_retrieved t1) sk = Some te" for w1 t1 te
  proof (cases "om_get (tx_retrieved t) sk")
    case (Some te0)
    then have "w1 = w" "t1 = t" "te0 = te" using res by (auto simp: resolveEntity_def sk_def [symmetric] Let_def)
    with finish [OF t te [unfolded sk_def \<open>t1 = t\<close>] fin [unfolded \<open>t1 = t\<close>]] w t w' Some show ?thesis
      by (auto simp: resolveEntity_def sk_def [symmetric] Let_def)
  next
    case None
    from access_get [OF w key_map_named [OF good key(1)]] obtain w2 where
      w2: "access (es_getWithMetadata ops n (convertNormalizedEntityKeyToMap key)) w =
          (w2, Inr (view (tw_store (interfere w)) (n, table_key key)))"
        "world_ok w2" "world_step w w2" "tw_store (interfere w) \<in> set (tw_seen w2)" by blast
    define item where "item = view (tw_store (interfere w)) (n, table_key key)"
    define te1 where "te1 = \<lparr>te_entityName = n, te_key = key, te_originalVersion = version_of item,
      te_currentVersion = version_of item, te_currentValue = value_of item\<rparr>"
    have t1: "w1 = w2" "te = te1" "t1 = t\<lparr>tx_retrieved := om_set sk te1 (tx_retrieved t)\<rparr>"
      using res None w2(1) by (auto simp: resolveEntity_def sk_def [symmetric] Let_def te1_def item_def)
    note entry = tx_inv_set_entry [OF t good key, of te1, folded sk_def]
    have te1: "te_entityName te1 = n" "te_key te1 = key" "te_originalVersion te1 = version_of item" by (simp_all add: te1_def)
    have inv1: "tx_inv provider keys t1" "tx_extends t t1" using entry(1,2) te1 None t1(3) by simp_all
    have settled1: "settled v t1 \<longleftrightarrow> settled v t \<and> version_of (v (n, table_key key)) = version_of item" for v
      using entry(3) te1 None t1(3) by simp
    note fin1 = finish [OF inv1(1) te [unfolded sk_def] fin]
    have "settled (view (tw_store w)) t'" if "tw_others w = []" "settled (view (tw_store w)) t"
      using fin1 settled1 that interfere_step(5) [OF that(1)] by (simp add: item_def)
    moreover have "\<exists>wc1. resolveEntity ops n key (wc, t) = ((wc1, t1), Inr te) \<and> alone v wc1 \<and> tw_calls wc1 = tw_calls wc"
      if v: "\<forall>s \<in> set (tw_seen w'). determines (view s) v" "settled v t'" and wc: "alone v wc" for v wc
    proof -
      have "settled v t1" using settled_before [OF keys inv1(1) _ _ v(2)] fin1 by blast
      then have "version_of (v (n, table_key key)) = version_of item" using settled1 by simp
      moreover have "determines (view (tw_store (interfere w))) v" using v(1) w2(4) t1(1) w' by simp
      ultimately have item: "v (n, table_key key) = item" unfolding determines_def item_def by metis
      have wc_ok: "world_ok wc" "tw_others wc = []" "view (tw_store wc) = v" using wc by (simp_all add: alone_def world_ok_def)
      from access_get [OF wc_ok(1) key_map_named [OF good key(1)]] obtain wc1 where
        wc1: "access (es_getWithMetadata ops n (convertNormalizedEntityKeyToMap key)) wc =
            (wc1, Inr (view (tw_store (interfere wc)) (n, table_key key)))" "world_ok wc1" "world_step wc wc1" by blast
      have "alone v wc1 \<and> tw_calls wc1 = tw_calls wc"
        using wc1(2,3) wc_ok world_step_seen [OF wc1(3)] by (simp add: alone_def world_ok_def)
      moreover have "resolveEntity ops n key (wc, t) = ((wc1, t1), Inr te)"
        using wc1(1) None item wc_ok(3) interfere_step(5) [OF wc_ok(2)] t1
        by (simp add: resolveEntity_def sk_def [symmetric] te1_def Let_def)
      ultimately show ?thesis by blast
    qed
    ultimately show ?thesis
      using fin1 w2(2,3) t1(1) w' tx_extends_trans [OF inv1(2)] by blast
  qed
  have "\<exists>w1 t1 te. resolveEntity ops n key (w, t) = ((w1, t1), Inr te) \<and> om_get (tx_retrieved t1) sk = Some te"
  proof (cases "om_get (tx_retrieved t) sk")
    case None
    with access_get [OF w key_map_named [OF good key(1)]] show ?thesis
      by (auto simp: resolveEntity_def sk_def [symmetric] Let_def om_get_set)
  next
    case (Some te)
    then show ?thesis by (simp add: resolveEntity_def sk_def [symmetric] Let_def)
  qed
  then obtain w1 t1 te where res: "resolveEntity ops n key (w, t) = ((w1, t1), Inr te)"
    "om_get (tx_retrieved t1) sk = Some te" by blast
  with run have fin: "tx_finish name n params (e, key, te) t1 = (t', r)" "w' = w1" by (auto split: prod.splits)
  note step' = step [OF res(1) fin res(2)]
  show "tx_inv provider keys t' \<and> world_ok w' \<and> world_step w w' \<and> tx_extends t t' \<and>
      (tw_others w = [] \<longrightarrow> settled (view (tw_store w)) t \<longrightarrow> settled (view (tw_store w)) t') \<and>
      (\<forall>v wc. (\<forall>s \<in> set (tw_seen w'). determines (view s) v) \<longrightarrow> settled v t' \<longrightarrow> alone v wc \<longrightarrow>
         (\<exists>wc'. (case resolveEntity ops n key (wc, t) of
            (wt', Inl err) \<Rightarrow> (wt', Inl err)
          | ((w', t'), Inr te) \<Rightarrow> (case tx_finish name n params (e, key, te) t' of (t'', r) \<Rightarrow> ((w', t''), r))) = ((wc', t'), r) \<and>
            alone v wc' \<and> tw_calls wc' = tw_calls wc))"
  proof (intro conjI allI impI)
    fix v wc
    assume "\<forall>s \<in> set (tw_seen w'). determines (view s) v" "settled v t'" "alone v wc"
    with step' obtain wc1 where "resolveEntity ops n key (wc, t) = ((wc1, t1), Inr te)" "alone v wc1" "tw_calls wc1 = tw_calls wc"
      by blast
    then show "\<exists>wc'. (case resolveEntity ops n key (wc, t) of
            (wt', Inl err) \<Rightarrow> (wt', Inl err)
          | ((w', t'), Inr te) \<Rightarrow> (case tx_finish name n params (e, key, te) t' of (t'', r) \<Rightarrow> ((w', t''), r))) = ((wc', t'), r) \<and>
            alone v wc' \<and> tw_calls wc' = tw_calls wc"
      using fin(1) by auto
  qed (use step' in blast)+
qed

lemma good_run_const: "good_run keys (\<lambda>wt. (wt, r))"
  using good_run_pure [of keys "\<lambda>t. (t, r)"] by simp

lemma good_run_execute:
  assumes keys: "cache_faithful keys" and good: "good_provider provider" and c: "call_admitted provider keys c"
  shows "good_run keys (tx_execute ops provider c)"
proof (cases "tx_entity_call c")
  case None
  from tx_execute_other [OF None] obtain evs r where
    eq: "\<And>w t. tx_execute ops provider c (w, t) = ((w, t\<lparr>tx_eventCalls := tx_eventCalls t @ evs\<rparr>), r)" by metis
  have "good_run keys (\<lambda>wt. case (\<lambda>t. (t\<lparr>tx_eventCalls := tx_eventCalls t @ evs\<rparr>, r)) (snd wt) of (t', r) \<Rightarrow> ((fst wt, t'), r))"
    by (rule good_run_pure) (auto simp: tx_inv_def tx_extends_def settled_def)
  moreover have "tx_execute ops provider c = (\<lambda>wt. case (\<lambda>t. (t\<lparr>tx_eventCalls := tx_eventCalls t @ evs\<rparr>, r)) (snd wt) of
      (t', r) \<Rightarrow> ((fst wt, t'), r))" by (auto simp: eq)
  ultimately show ?thesis by simp
next
  case (Some x)
  obtain name n params where x: "x = (name, n, params)" by (cases x)
  note call = Some [unfolded x]
  have name: "name \<in> set [''put'', ''delete'', ''get'', ''getWithMetadata'']"
    using call by (auto simp: tx_entity_call_def split: call.splits entity_operation.splits if_splits)
  note exec = ext [OF tx_execute_entity [OF call, of ops provider]]
  show ?thesis
  proof (cases "provider n")
    case None
    then have "tx_execute ops provider c = (\<lambda>wt. (wt, Inl (mk_Error (''Entity '' @ n @ '' was not found.''))))"
      by (simp add: exec resolve_operation_def getEntity_def act_lift_bind)
    then show ?thesis using good_run_const [of keys] by simp
  next
    case (Some e)
    show ?thesis
    proof (cases "normalizeCompositeKey (en_key e) (param params 0)")
      case (Inl err)
      then have "tx_execute ops provider c = (\<lambda>wt. (wt, Inl err))"
        using Some by (simp add: exec resolve_operation_def getEntity_def act_lift_bind)
      then show ?thesis using good_run_const [of keys] by simp
    next
      case (Inr key)
      have k: "entity_and_key provider n (param params 0) [] = Inr (e, key)" "(n, key) \<in> set keys"
        "name = ''put'' \<longrightarrow> indexable e (param params 0)"
        using c Some Inr call by (simp_all add: call_admitted_def entity_and_key_Inr)
      have e: "en_name e = n" using good Some by (simp add: good_provider_def)
      have "tx_execute ops provider c = (\<lambda>wt. case resolveEntity ops n key wt of
          (wt', Inl err) \<Rightarrow> (wt', Inl err)
        | ((w', t'), Inr te) \<Rightarrow> (case tx_finish name n params (e, key, te) t' of (t'', r) \<Rightarrow> ((w', t''), r)))"
        using Some Inr e
        by (auto simp: exec resolve_operation_def getEntity_def act_lift_bind act_bind_def split: prod.split sum.split)
      then show ?thesis using good_run_resolve [OF keys good name k] by simp
    qed
  qed
qed

lemma good_run_program:
  assumes keys: "cache_faithful keys" and good: "good_provider provider"
  shows "all_calls (call_admitted provider keys) p \<Longrightarrow> good_run keys (run_tx ops provider p)"
proof (induction p)
  case (TxReturn v)
  then show ?case using good_run_const [of keys "Inr v"] by (simp add: act_return_def [abs_def])
next
  case (TxThrow err)
  then show ?case using good_run_const [of keys "Inl err"] by (simp add: act_throw_def [abs_def])
next
  case (TxCall c k)
  have "good_run keys (tx_execute ops provider c)"
    using good_run_execute [OF keys good] TxCall.prems by simp
  moreover have "good_run keys (run_tx ops provider (k r))" for r
    using TxCall by auto
  ultimately have "good_run keys (\<lambda>wt. case tx_execute ops provider c wt of (wt', r) \<Rightarrow> run_tx ops provider (k r) wt')"
    by (rule good_run_bind [OF keys])
  then show ?case by simp
qed

end

section \<open>The items of a commit\<close>

lemma transaction_item_norm:
  assumes t: "tx_inv provider keys t" and good: "good_provider provider"
    and te: "om_get (tx_retrieved t) sk = Some te"
  shows "\<exists>i. normalize_item provider (transaction_item t (sk, te)) = Inr i \<and> item_location i = te_location te \<and>
    put_indexable i \<and> item_expectedVersion i = Some (te_originalVersion te)"
proof -
  have name: "en_name e' = n" if "entity_and_key provider n k m = Inr (e', key)" for n k m e' key
    using that good by (auto simp: good_provider_def entity_and_key_Inr)
  from tx_inv_entry(1) [OF t te] obtain e where
    e: "entity_and_key provider (te_entityName te) (convertNormalizedEntityKeyToMap (te_key te)) m = Inr (e, te_key te)" for m
    using entity_and_key_message by blast
  show ?thesis
  proof (cases "om_get (tx_entityCalls t) sk")
    case None
    then show ?thesis
      using name [OF e] by (simp add: transaction_item_def Let_def normalize_item_def e item_location_def te_location_def put_indexable_def)
  next
    case (Some op)
    from tx_inv_call [OF t Some] te obtain name n params e' where
      op: "op = EntityOp name n params" "name = ''put'' \<or> name = ''delete''" "te_entityName te = n"
        "entity_and_key provider n (param params 0) [] = Inr (e', te_key te)" "name = ''put'' \<longrightarrow> indexable e' (param params 0)"
      by auto
    have e': "entity_and_key provider n (param params 0) m = Inr (e', te_key te)" for m
      using op(4) entity_and_key_message by blast
    show ?thesis
      using op(2,5) Some name [OF e'] e' op(3)
      by (auto simp: transaction_item_def Let_def normalize_item_def item_location_def te_location_def put_indexable_def
          op(1) tx_options_def)
  qed
qed

lemma list_all2_choice: "(\<forall>x \<in> set xs. \<exists>y. P x y) \<Longrightarrow> \<exists>ys. list_all2 P xs ys"
proof (induction xs)
  case (Cons x xs)
  then obtain y ys where "P x y" "list_all2 P xs ys" by auto
  then have "list_all2 P (x # xs) (y # ys)" by simp
  then show ?case by blast
qed (auto intro: exI [of _ "[]"])

lemma transaction_items_norm:
  assumes keys: "cache_faithful keys" and t: "tx_inv provider keys t" and good: "good_provider provider"
  shows "\<exists>nitems. list_all2 (\<lambda>x y. normalize_item provider x = Inr y) (transactionItems t) nitems \<and>
    distinct (map item_location nitems) \<and> list_all put_indexable nitems \<and>
    (\<forall>v. list_all (\<lambda>i. item_expected i v) nitems \<longleftrightarrow> settled v t)"
proof -
  have inv: "om_inv (tx_retrieved t)" using t by (simp add: tx_inv_def)
  have get: "om_get (tx_retrieved t) sk = Some te \<longleftrightarrow> (sk, te) \<in> set (tx_retrieved t)" for sk te
    using inv by (simp add: om_inv_def om_get_eq)
  define good_item where "good_item kte i \<longleftrightarrow> normalize_item provider (transaction_item t kte) = Inr i \<and>
      item_location i = te_location (snd kte) \<and> put_indexable i \<and>
      item_expectedVersion i = Some (te_originalVersion (snd kte))" for kte i
  have "\<forall>kte \<in> set (tx_retrieved t). \<exists>i. good_item kte i"
  proof
    fix kte assume "kte \<in> set (tx_retrieved t)"
    then show "\<exists>i. good_item kte i"
      using transaction_item_norm [OF t good, of "fst kte" "snd kte"] get by (simp add: good_item_def)
  qed
  from list_all2_choice [OF this] obtain nitems where ni: "list_all2 good_item (tx_retrieved t) nitems" by blast
  have "map item_location nitems = map (te_location \<circ> snd) (tx_retrieved t)"
    using ni by (induction rule: list_all2_induct) (simp_all add: good_item_def)
  moreover have "inj_on (te_location \<circ> snd) (set (tx_retrieved t))"
  proof (rule inj_onI)
    fix x y assume x: "x \<in> set (tx_retrieved t)" and y: "y \<in> set (tx_retrieved t)"
      and eq: "(te_location \<circ> snd) x = (te_location \<circ> snd) y"
    have gx: "om_get (tx_retrieved t) (fst x) = Some (snd x)" and gy: "om_get (tx_retrieved t) (fst y) = Some (snd y)"
      using x y get by simp_all
    have "fst x = fst y"
      using cache_faithful_keys [OF keys tx_inv_entry(2) [OF t gx] tx_inv_entry(2) [OF t gy]] eq
        tx_inv_entry(3) [OF t gx] tx_inv_entry(3) [OF t gy] by (simp add: te_location_def)
    with gx gy show "x = y" by (simp add: prod_eq_iff)
  qed
  moreover have "distinct (tx_retrieved t)" using inv by (simp add: om_inv_def distinct_map)
  ultimately have "distinct (map item_location nitems)" by (simp add: distinct_map)
  moreover have "list_all2 (\<lambda>x y. normalize_item provider x = Inr y) (transactionItems t) nitems"
    unfolding transactionItems_def list_all2_map1
    by (rule list_all2_mono [OF ni]) (simp add: good_item_def)
  moreover have "list_all put_indexable nitems"
    using ni by (induction rule: list_all2_induct) (simp_all add: good_item_def)
  moreover have "list_all (\<lambda>i. item_expected i v) nitems \<longleftrightarrow> settled v t" for v
  proof -
    have "list_all (\<lambda>i. item_expected i v) nitems \<longleftrightarrow>
        list_all (\<lambda>kte. version_of (v (te_location (snd kte))) = te_originalVersion (snd kte)) (tx_retrieved t)"
      using ni by (induction rule: list_all2_induct) (auto simp: good_item_def item_expected_def expected_def)
    then show ?thesis by (auto simp: settled_def get list_all_iff)
  qed
  ultimately show ?thesis by blast
qed

context entity_store
begin

text \<open>A commit: the items are written when everything read has the version it was read with.\<close>

lemma commit_writes:
  assumes t: "tx_inv provider keys t" and w: "world_ok w"
    and items: "transactionItems t \<noteq> []"
    and nitems: "list_all2 (\<lambda>x y. normalize_item provider x = Inr y) (transactionItems t) nitems"
      "distinct (map item_location nitems)" "list_all put_indexable nitems"
      "\<And>v. list_all (\<lambda>i. item_expected i v) nitems \<longleftrightarrow> settled v t"
  shows "\<exists>w' r. commit_tx ops provider out t w = (w', Inr r) \<and>
    tw_seen w' = tw_seen w @ [tw_store (interfere w)] \<and> world_ok w' \<and> tw_others w' = tw_others (interfere w) \<and>
    (if settled (view (tw_store (interfere w))) t
     then r = TxOutput out \<and> view (tw_store w') = items_effect nitems (view (tw_store (interfere w))) \<and>
       tw_calls w' = tw_calls w @ tx_eventCalls t
     else (\<exists>failed. r = TxFailed True failed) \<and> view (tw_store w') = view (tw_store (interfere w)) \<and> tw_calls w' = tw_calls w)"
proof (cases "settled (view (tw_store (interfere w))) t")
  case True
  have ok: "ok (tw_store (interfere w))" using world_ok_interfere [OF w] by simp
  from transact [OF ok nitems(1-3)] nitems(4) True obtain s' where
    "es_transactWrite ops (transactionItems t) (tw_store (interfere w)) = (s', Inr Committed)"
    "view s' = items_effect nitems (view (tw_store (interfere w)))" "ok s'" by auto
  then show ?thesis
    using True items world_ok_interfere [OF w] interfere_step(3) [of w] interfere_seen [of w] w
    by (simp add: commit_tx_def Let_def access_def world_ok_def)
next
  case False
  have ok: "ok (tw_store (interfere w))" using world_ok_interfere [OF w] by simp
  from transact_cancelled [OF ok nitems(1-3)] nitems(4) False obtain s' reasons where
    "es_transactWrite ops (transactionItems t) (tw_store (interfere w)) = (s', Inr (Cancelled reasons))"
    "view s' = view (tw_store (interfere w))" "ok s'" by auto
  then show ?thesis
    using False items world_ok_interfere [OF w] interfere_step(3) [of w] interfere_seen [of w] w
    by (simp add: commit_tx_def Let_def access_def world_ok_def)
qed

lemma attempt_is_serial:
  assumes keys: "cache_faithful keys" and good: "good_provider provider"
    and calls: "all_calls (call_admitted provider keys) p"
    and w: "world_ok w"
    and run: "executeTransactionOnce ops provider p w = (w', Inr (TxOutput out))"
    and det: "\<forall>s \<in> set (tw_seen w'). determines (view s) (view (commit_store w'))"
  shows "\<exists>w''. executeTransactionOnce ops provider p (solo (commit_store w') (tw_calls w)) = (w'', Inr (TxOutput out)) \<and>
    view (tw_store w'') = view (tw_store w') \<and> tw_calls w'' = tw_calls w'"
proof -
  define w0 where "w0 = w\<lparr>tw_seen := []\<rparr>"
  have w0: "world_ok w0" "tw_seen w0 = []" "tw_calls w0 = tw_calls w" using w by (simp_all add: w0_def world_ok_def)
  obtain w1 t r where r1: "run_tx ops provider p (w0, empty_tx_state) = ((w1, t), r)" by (metis prod.collapse)
  with run obtain v where v: "r = Inr v" "commit_tx ops provider v t w1 = (w', Inr (TxOutput out))"
    by (auto simp: executeTransactionOnce_def w0_def split: sum.splits)
  note r1 = r1 [unfolded v(1)]
  from good_run_program [OF keys good calls] w0(1) tx_inv_empty r1 have
    t: "tx_inv provider keys t" and w1: "world_ok w1" "world_step w0 w1"
    and again: "\<And>u wc. \<forall>s \<in> set (tw_seen w1). determines (view s) u \<Longrightarrow> settled u t \<Longrightarrow> alone u wc \<Longrightarrow>
        \<exists>wc'. run_tx ops provider p (wc, empty_tx_state) = ((wc', t), Inr v) \<and> alone u wc' \<and> tw_calls wc' = tw_calls wc"
    unfolding good_run_def by blast+
  from transaction_items_norm [OF keys t good] obtain nitems where
    nitems: "list_all2 (\<lambda>x y. normalize_item provider x = Inr y) (transactionItems t) nitems"
      "distinct (map item_location nitems)" "list_all put_indexable nitems"
      "\<And>v. list_all (\<lambda>i. item_expected i v) nitems \<longleftrightarrow> settled v t" by blast
  define s where "s = commit_store w'"
  define wc where "wc = solo s (tw_calls w)"
  have wc_calls: "tw_calls wc = tw_calls w" by (simp add: wc_def solo_def)
  have wc0: "wc\<lparr>tw_seen := []\<rparr> = wc" by (simp add: wc_def solo_def)
  have w1_last: "view (tw_store w1) = view (commit_store w1)" "tw_calls w1 = tw_calls w"
    using w1(2) w0 by (auto simp: world_step_def commit_store_def)
  show ?thesis
  proof (cases "transactionItems t = []")
    case True
    then have w': "w' = w1\<lparr>tw_calls := tw_calls w1 @ tx_eventCalls t\<rparr>" "out = v"
      using v(2) by (simp_all add: commit_tx_def)
    have "ok s" using w1(1) by (auto simp: s_def w' world_ok_def list_all_iff commit_store_def)
    then have alone: "alone (view s) wc" by (simp add: alone_def wc_def solo_def world_ok_def)
    have "tx_retrieved t = []" using True by (simp add: transactionItems_def)
    then have "settled (view s) t" by (simp add: settled_def om_get_eq)
    moreover have "\<forall>s' \<in> set (tw_seen w1). determines (view s') (view s)" using det w'(1) by (simp add: s_def)
    ultimately obtain wc' where
      "run_tx ops provider p (wc, empty_tx_state) = ((wc', t), Inr v)" "alone (view s) wc'" "tw_calls wc' = tw_calls wc"
      using again [OF _ _ alone] by blast
    moreover have "commit_store w' = commit_store w1" "tw_store w' = tw_store w1" by (simp_all add: w' commit_store_def)
    then have "view s = view (tw_store w')" using w1_last(1) by (simp only: s_def)
    ultimately show ?thesis unfolding s_def [symmetric] wc_def [symmetric] using True w' w1_last(2) wc_calls
      by (simp add: executeTransactionOnce_def commit_tx_def alone_def wc0)
  next
    case False
    from commit_writes [OF t w1(1) False nitems, of v] v(2) have
      w': "tw_seen w' = tw_seen w1 @ [tw_store (interfere w1)]" "world_ok w'"
        "settled (view (tw_store (interfere w1))) t" "out = v"
        "view (tw_store w') = items_effect nitems (view (tw_store (interfere w1)))" "tw_calls w' = tw_calls w1 @ tx_eventCalls t"
      by (auto split: if_splits)
    have s: "s = tw_store (interfere w1)" by (simp add: s_def w' commit_store_def)
    have "ok s" using world_ok_interfere [OF w1(1)] s by simp
    then have alone: "alone (view s) wc" by (simp add: alone_def wc_def solo_def world_ok_def)
    with again [OF _ _ alone] det w' s obtain wc' where
      wc': "run_tx ops provider p (wc, empty_tx_state) = ((wc', t), Inr v)" "alone (view s) wc'" "tw_calls wc' = tw_calls wc"
      by (auto simp: s_def)
    have quiet: "tw_store (interfere wc') = tw_store wc'" "view (tw_store wc') = view s"
      using wc'(2) interfere_step(5) [of wc'] by (simp_all add: alone_def)
    have "world_ok wc'" using wc'(2) by (simp add: alone_def)
    from commit_writes [OF t this False nitems, of v] w' quiet s obtain w'' where
      "commit_tx ops provider v t wc' = (w'', Inr (TxOutput v))" "view (tw_store w'') = items_effect nitems (view s)"
      "tw_calls w'' = tw_calls wc' @ tx_eventCalls t" by auto
    then show ?thesis unfolding s_def [symmetric] wc_def [symmetric] using wc' w' w1_last(2) s wc_calls
      by (simp add: executeTransactionOnce_def wc0)
  qed
qed

text \<open>One attempt, however it ends.\<close>

lemma attempt_outcome:
  assumes keys: "cache_faithful keys" and good: "good_provider provider"
    and calls: "all_calls (call_admitted provider keys) p" and w: "world_ok w"
    and run: "executeTransactionOnce ops provider p w = (w', r)"
  shows "world_ok w' \<and> set (tw_others w') \<subseteq> set (tw_others w) \<and> length (tw_others w') \<le> length (tw_others w)"
    and "(\<nexists>out. r = Inr (TxOutput out)) \<Longrightarrow> tw_calls w' = tw_calls w"
    and "r = Inr (TxFailed canRetry failed) \<Longrightarrow> canRetry \<and> length (tw_others w') < length (tw_others w)"
    and "r = Inr (TxOutput out) \<Longrightarrow> list_all forward (tw_others w) \<Longrightarrow>
      \<forall>s \<in> set (tw_seen w'). determines (view s) (view (commit_store w'))"
proof -
  define w0 where "w0 = w\<lparr>tw_seen := []\<rparr>"
  have w0: "world_ok w0" "tw_seen w0 = []" "tw_calls w0 = tw_calls w" "tw_others w0 = tw_others w" "tw_store w0 = tw_store w"
    using w by (simp_all add: w0_def world_ok_def)
  obtain w1 t q where r1: "run_tx ops provider p (w0, empty_tx_state) = ((w1, t), q)" by (metis prod.collapse)
  from good_run_program [OF keys good calls] w0(1) tx_inv_empty r1 have
    t: "tx_inv provider keys t" and w1: "world_ok w1" "world_step w0 w1"
    and quiet: "tw_others w0 = [] \<Longrightarrow> settled (view (tw_store w0)) t"
    unfolding good_run_def using settled_empty by blast+
  have step: "set (tw_others w1) \<subseteq> set (tw_others w)" "length (tw_others w1) \<le> length (tw_others w)" "tw_calls w1 = tw_calls w"
    using w1(2) w0 by (simp_all add: world_step_def)
  from transaction_items_norm [OF keys t good] obtain nitems where
    nitems: "list_all2 (\<lambda>x y. normalize_item provider x = Inr y) (transactionItems t) nitems"
      "distinct (map item_location nitems)" "list_all put_indexable nitems"
      "\<And>v. list_all (\<lambda>i. item_expected i v) nitems \<longleftrightarrow> settled v t" by blast
  have end_step: "world_ok w' \<and> set (tw_others w') \<subseteq> set (tw_others w1) \<and> length (tw_others w') \<le> length (tw_others w1) \<and>
      ((\<nexists>out. r = Inr (TxOutput out)) \<longrightarrow> tw_calls w' = tw_calls w1) \<and>
      (tw_seen w' = tw_seen w1 \<and> tw_store w' = tw_store w1 \<or> tw_seen w' = tw_seen w1 @ [tw_store (interfere w1)]) \<and>
      (\<forall>b f. r = Inr (TxFailed b f) \<longrightarrow> b \<and> \<not> settled (view (tw_store (interfere w1))) t \<and> tw_others w' = tw_others (interfere w1))"
  proof (cases q)
    case (Inl err)
    then show ?thesis using run r1 w1(1) by (auto simp: executeTransactionOnce_def w0_def)
  next
    case (Inr v)
    then have c: "commit_tx ops provider v t w1 = (w', r)" using run r1 by (simp add: executeTransactionOnce_def w0_def)
    show ?thesis
    proof (cases "transactionItems t = []")
      case True
      then show ?thesis using c w1(1) by (auto simp: commit_tx_def world_ok_def)
    next
      case False
      from commit_writes [OF t w1(1) False nitems, of v] c interfere_step(1,2) [of w1] show ?thesis
        by (auto split: if_splits)
    qed
  qed
  show "world_ok w' \<and> set (tw_others w') \<subseteq> set (tw_others w) \<and> length (tw_others w') \<le> length (tw_others w)"
    using end_step step by auto
  show "tw_calls w' = tw_calls w" if "\<nexists>out. r = Inr (TxOutput out)"
    using end_step step(3) that by simp
  show "canRetry \<and> length (tw_others w') < length (tw_others w)" if "r = Inr (TxFailed canRetry failed)"
  proof -
    have f: "canRetry" "\<not> settled (view (tw_store (interfere w1))) t" "tw_others w' = tw_others (interfere w1)"
      using end_step that by blast+
    have "tw_others w \<noteq> []"
    proof
      assume "tw_others w = []"
      then have "settled (view (tw_store w1)) t" "tw_others w1 = []"
        using quiet w0 world_step_seen(2,4) [OF w1(2)] by simp_all
      then show False using f(2) interfere_step(5) [of w1] by simp
    qed
    then have "length (tw_others (interfere w1)) < length (tw_others w)"
      using step(2) by (cases "tw_others w1") (auto simp: interfere_def)
    then show ?thesis using f by simp
  qed
  show "\<forall>s \<in> set (tw_seen w'). determines (view s) (view (commit_store w'))"
    if "r = Inr (TxOutput out)" and fwd: "list_all forward (tw_others w)"
  proof -
    have g1: "\<forall>s \<in> set (tw_seen w1). grows (view s) (view (tw_store w1))" "view (tw_store w1) = view (commit_store w1)"
      using w1(2) w0 fwd by (auto simp: world_step_def list_all_iff commit_store_def)
    have g2: "grows (view (tw_store w1)) (view (tw_store (interfere w1)))"
      using fwd step(1) w1(1) by (cases "tw_others w1") (auto simp: interfere_def forward_def world_ok_def list_all_iff)
    from end_step consider "tw_seen w' = tw_seen w1" "tw_store w' = tw_store w1"
      | "tw_seen w' = tw_seen w1 @ [tw_store (interfere w1)]" by blast
    then show ?thesis
    proof cases
      case 1
      then have "commit_store w' = commit_store w1" by (simp add: commit_store_def)
      then show ?thesis using g1 1 grows_determines by metis
    next
      case 2
      then have c: "commit_store w' = tw_store (interfere w1)" by (simp add: commit_store_def)
      then show ?thesis using g1(1) g2 2 grows_determines grows_trans grows_refl by fastforce
    qed
  qed
qed

text \<open>Attempts until one commits, or the function throws.\<close>

lemma transaction_is_serial:
  assumes keys: "cache_faithful keys" and good: "good_provider provider"
    and calls: "all_calls (call_admitted provider keys) p"
  shows "world_ok w \<Longrightarrow> list_all forward (tw_others w) \<Longrightarrow> attempt_transaction ops provider p n w = (w', Resolved out) \<Longrightarrow>
    \<exists>w''. executeTransactionOnce ops provider p (solo (commit_store w') (tw_calls w)) = (w'', Inr (TxOutput out)) \<and>
      view (tw_store w'') = view (tw_store w') \<and> tw_calls w'' = tw_calls w'"
proof (induction n arbitrary: w)
  case (0 w)
  from 0(3) have run: "executeTransactionOnce ops provider p w = (w', Inr (TxOutput out))"
    by (auto simp: attempt_transaction.simps [of ops provider p 0] split: sum.splits tx_attempt.splits if_splits prod.splits)
  from attempt_is_serial [OF keys good calls 0(1) run] attempt_outcome(4) [OF keys good calls 0(1) run HOL.refl 0(2)]
  show ?case by blast
next
  case (Suc n w)
  obtain w1 r where run: "executeTransactionOnce ops provider p w = (w1, r)" by (metis prod.collapse)
  show ?case
  proof (cases "r = Inr (TxOutput out) \<and> w' = w1")
    case True
    with run have run: "executeTransactionOnce ops provider p w = (w', Inr (TxOutput out))" by simp
    from attempt_is_serial [OF keys good calls Suc(2) run] attempt_outcome(4) [OF keys good calls Suc(2) run HOL.refl Suc(3)]
    show ?thesis by blast
  next
    case False
    with run Suc(4) have "attempt_transaction ops provider p n w1 = (w', Resolved out)" "\<nexists>out. r = Inr (TxOutput out)"
      by (auto simp: attempt_transaction.simps [of ops provider p "Suc n"] split: sum.splits tx_attempt.splits if_splits)
    moreover note a = attempt_outcome [OF keys good calls Suc(2) run]
    moreover have "list_all forward (tw_others w1)" using a(1) Suc(3) by (auto simp: list_all_iff)
    ultimately show ?thesis using Suc(1) [of w1] by auto
  qed
qed

lemma transaction_returns:
  assumes keys: "cache_faithful keys" and good: "good_provider provider"
    and calls: "all_calls (call_admitted provider keys) p"
  shows "world_ok w \<Longrightarrow> length (tw_others w) \<le> n \<Longrightarrow>
    \<exists>w0 w' r. attempt_transaction ops provider p n w = (w', r) \<and> set (tw_others w0) \<subseteq> set (tw_others w) \<and>
      ((\<exists>out. r = Resolved out \<and> executeTransactionOnce ops provider p w0 = (w', Inr (TxOutput out))) \<or>
       (\<exists>err. r = Failed err \<and> executeTransactionOnce ops provider p w0 = (w', Inl err)))"
proof (induction n arbitrary: w)
  case (0 w)
  obtain w1 r where run: "executeTransactionOnce ops provider p w = (w1, r)" by (metis prod.collapse)
  show ?case
  proof (cases "\<exists>b f. r = Inr (TxFailed b f)")
    case True
    with attempt_outcome(3) [OF keys good calls 0(1) run] 0(2) show ?thesis by auto
  next
    case False
    with run show ?thesis
      by (auto simp: attempt_transaction.simps [of ops provider p 0] split: sum.splits tx_attempt.splits intro!: exI [of _ w])
  qed
next
  case (Suc n w)
  obtain w1 r where run: "executeTransactionOnce ops provider p w = (w1, r)" by (metis prod.collapse)
  note a = attempt_outcome [OF keys good calls Suc(2) run]
  show ?case
  proof (cases "\<exists>b f. r = Inr (TxFailed b f)")
    case True
    then obtain b f where r: "r = Inr (TxFailed b f)" by blast
    have "length (tw_others w1) \<le> n" "b" using a(3) [OF r] Suc(3) by simp_all
    moreover have "attempt_transaction ops provider p (Suc n) w = attempt_transaction ops provider p n w1"
      using run \<open>b\<close> by (simp add: attempt_transaction.simps [of ops provider p "Suc n"] r)
    moreover note a(1)
    ultimately show ?thesis using Suc(1) [of w1] by (metis (no_types, lifting) subset_trans)
  next
    case False
    with run show ?thesis
      by (auto simp: attempt_transaction.simps [of ops provider p "Suc n"] split: sum.splits tx_attempt.splits intro!: exI [of _ w])
  qed
qed

end

end
