(* ===== verification/Transactions.thy ===== *)
theory Transactions
  imports TransactionRefinement
begin

text \<open>
  Transactions of the local runtime: the local entity store keeps the contract of
  \<open>entity_store\<close>, so that the lemmas of TransactionRefinement hold of it.
\<close>

section \<open>The local store\<close>

definition local_ok :: "entity_provider \<Rightarrow> local_store \<Rightarrow> bool" where
  "local_ok provider st \<longleftrightarrow> good_provider provider \<and> streamed provider st"

lemma local_ok_op: "local_ok provider st \<Longrightarrow> op_indexable provider op \<Longrightarrow> local_ok provider (run_op provider op st)"
  using stream.inv_op [of provider st op] by (simp add: local_ok_def list_all_iff)

lemma local_ok_ops: "local_ok provider st \<Longrightarrow> list_all (op_indexable provider) ops \<Longrightarrow> local_ok provider (run_ops provider ops st)"
  using stream.inv_ops [of provider st ops] by (simp add: local_ok_def list_all_iff)

lemma local_ok_same: "local_ok provider st \<Longrightarrow> same_entries st st' \<Longrightarrow> local_ok provider st'"
  unfolding local_ok_def using streamed_same by blast

lemma put_indexable_ops:
  "list_all2 (\<lambda>x y. normalize_item provider x = Inr y) items nitems \<Longrightarrow> list_all put_indexable nitems \<Longrightarrow>
   op_indexable provider (DoTransactWrite items)"
proof (induction rule: list_all2_induct)
  case (Cons x xs y ys)
  then show ?case
    by (cases x) (auto simp: normalize_item_def Let_def try_bind_Inr put_indexable_def indexable_in_def entity_and_key_Inr)
qed simp

lemma normalized_item_entity: "normalize_item provider x = Inr y \<Longrightarrow> provider (en_name (item_entity y)) = Some (item_entity y)
    \<or> \<not> good_provider provider"
  by (cases x) (auto simp: normalize_item_def Let_def try_bind_Inr entity_and_key_Inr good_provider_def)

lemma local_transact:
  assumes ok: "local_ok provider st"
    and norm: "list_all2 (\<lambda>x y. normalize_item provider x = Inr y) items nitems"
    and distinct: "distinct (map item_location nitems)" and ix: "list_all put_indexable nitems"
  shows "if list_all (\<lambda>i. item_expected i (stored_items st)) nitems
    then \<exists>st'. transactWrite provider items st = (st', Inr Committed) \<and>
      stored_items st' = items_effect nitems (stored_items st) \<and> local_ok provider st'
    else \<exists>st' reasons. transactWrite provider items st = (st', Inr (Cancelled reasons)) \<and>
      stored_items st' = stored_items st \<and> local_ok provider st'"
proof -
  have "item_indexable i (stored_items st)" if i: "i \<in> set nitems" for i
  proof -
    from i norm obtain x where "normalize_item provider x = Inr i" by (auto simp: list_all2_conv_all_nth in_set_conv_nth)
    then have "provider (en_name (item_entity i)) = Some (item_entity i)"
      using normalized_item_entity ok by (auto simp: local_ok_def)
    moreover from this have "indexable (item_entity i) (em_value v)" if "stored_items st (item_location i) = Some v" for v
      using ok that unfolding local_ok_def streamed_def item_location_def by blast
    ultimately show ?thesis
      using ix i by (auto simp: item_indexable_def list_all_iff put_indexable_def split: option.split)
  qed
  from transactWriteSync_atomic [OF distinct this]
  have sync: "if list_all (\<lambda>i. item_expected i (stored_items st)) nitems
    then \<exists>st'. transactWriteSync nitems st = (st', Inr Committed) \<and> stored_items st' = items_effect nitems (stored_items st)
    else \<exists>st' reasons. transactWriteSync nitems st = (st', Inr (Cancelled reasons)) \<and> same_entries st st'"
    by (auto simp: list_all_iff split: if_splits)
  have run: "transactWrite provider items st = transactWriteSync nitems st"
    using norm by (simp add: transactWrite_def act_lift_bind try_map_Inr [symmetric])
  have "local_ok provider (fst (transactWrite provider items st))"
    using local_ok_op [OF ok put_indexable_ops [OF norm ix]] by (simp add: run_op_def)
  with sync run same_entries_stored show ?thesis by (auto split: if_splits)
qed

interpretation local_transactions: entity_store "local_ops provider" provider stored_items "local_ok provider" for provider
proof unfold_locales
  fix st n k e key
  assume ok: "local_ok provider st" and key: "entity_and_key provider n k [] = Inr (e, key)"
  obtain st' i where get: "getWithMetadataSync e key st = (st', i)" by (cases "getWithMetadataSync e key st")
  note r = getWithMetadataSync_entries [OF get]
  have "en_name e = n" using ok key by (auto simp: local_ok_def good_provider_def entity_and_key_Inr)
  moreover have "entity_and_key provider n k ''Key cannot be partial for get or getWithMetadata.'' = Inr (e, key)"
    using key entity_and_key_message by blast
  ultimately show "\<exists>st'. es_getWithMetadata (local_ops provider) n k st = (st', Inr (stored_items st (n, table_key key))) \<and>
      stored_items st' = stored_items st \<and> local_ok provider st'"
    using get r local_ok_same [OF ok r(1)] same_entries_stored [OF r(1)]
    by (auto simp: local_ops_def getWithMetadata_def act_lift_bind data_stored)
qed (use local_transact in \<open>fastforce simp: local_ops_def local_ok_def\<close>)+

section \<open>Clients that remove nothing\<close>

fun item_raises :: "transact_item \<Rightarrow> bool" where
  "item_raises (TransactPut n v options) = (po_incrementVersion options \<noteq> Some False)"
| "item_raises (TransactDelete n k options) = False"
| "item_raises (TransactCondition n k version) = True"

fun op_raises :: "store_op \<Rightarrow> bool" where
  "op_raises (DoPut n v options) = (po_incrementVersion options \<noteq> Some False)"
| "op_raises (DoDelete n k x) = False"
| "op_raises (DoTransactWrite items) = list_all item_raises items"

lemma putSync_grows:
  assumes inc: "po_incrementVersion o' \<noteq> Some False" and run: "putSync e v key o' st = (st', r)"
  shows "grows (stored_items st) (stored_items st')"
proof (cases "expected (po_expectedVersion o') (data st e (table_key key))")
  case False
  from putSync_unexpected [OF False, of v] run have "same_entries st st'" by auto
  then show ?thesis by (simp add: same_entries_stored)
next
  case True
  note effect = putSync_expected [OF True run]
  have "stored_items st' = (stored_items st)((en_name e, table_key key) \<mapsto>
      \<lparr>em_value = v, em_version = new_version o' (data st e (table_key key))\<rparr>)"
    by (rule data_update_stored [OF effect(1,2)])
  then show ?thesis
    using inc by (auto simp: grows_def new_version_def data_stored version_of_def [of "Some x" for x])
qed

lemma write_item_grows:
  assumes raises: "item_raises x" and norm: "normalize_item provider x = Inr i" and run: "write_item i st = (st', r)"
  shows "grows (stored_items st) (stored_items st')"
proof (cases x)
  case (TransactPut n v o')
  then obtain e key where i: "i = NormPut e key v o'" using norm by (auto simp: normalize_item_def Let_def try_bind_Inr)
  obtain s q where "putSync e v key o' st = (s, q)" by (cases "putSync e v key o' st")
  with run i putSync_grows [of o' e v key st] raises TransactPut show ?thesis by (cases q) auto
next
  case (TransactDelete n k o')
  then show ?thesis using raises by simp
next
  case (TransactCondition n k o')
  then show ?thesis using norm run by (auto simp: normalize_item_def Let_def try_bind_Inr)
qed

lemma run_op_grows:
  assumes "op_raises op"
  shows "grows (stored_items st) (stored_items (run_op provider op st))"
proof (cases op)
  case (DoPut n v o')
  show ?thesis
  proof (cases "entity_and_key provider n v ''Key cannot be partial for set.''")
    case (Inl err)
    then show ?thesis by (simp add: run_op_def DoPut put_def act_lift_bind)
  next
    case (Inr ek)
    obtain e key where ek: "ek = (e, key)" by (cases ek)
    obtain s r where s: "putSync e v key o' st = (s, r)" by (cases "putSync e v key o' st")
    with putSync_grows [OF _ s] assms Inr ek show ?thesis by (simp add: run_op_def DoPut put_def act_lift_bind)
  qed
next
  case (DoDelete n k x)
  then show ?thesis using assms by simp
next
  case (DoTransactWrite items)
  show ?thesis
  proof (cases "try_map (normalize_item provider) items")
    case (Inl err)
    then show ?thesis by (simp add: run_op_def DoTransactWrite transactWrite_def act_lift_bind)
  next
    case (Inr is')
    from check_items_result [of is' st] obtain s where
      s: "check_items is' st = (s, map (\<lambda>i. item_expected i (stored_items st)) is')" "same_entries st s" by blast
    obtain s2 r where s2: "act_forEach write_item is' s = (s2, r)" by (cases "act_forEach write_item is' s")
    have "grows (stored_items st) (stored_items s2)"
    proof (rule act_forEach_keeps [where P = "\<lambda>s. grows (stored_items st) (stored_items s)", OF _ _ s2])
      fix i s s' r
      assume i: "i \<in> set is'" "grows (stored_items st) (stored_items s)" "write_item i s = (s', r)"
      from i(1) Inr obtain x where "x \<in> set items" "normalize_item provider x = Inr i"
        unfolding try_map_Inr list_all2_conv_all_nth in_set_conv_nth by metis
      moreover have "item_raises x" using assms \<open>x \<in> set items\<close> by (simp add: DoTransactWrite list_all_iff)
      ultimately show "grows (stored_items st) (stored_items s')" using i(2) grows_trans write_item_grows [OF _ _ i(3)] by blast
    qed (simp add: same_entries_stored [OF s(2)])
    then show ?thesis
      using s(1) s2 Inr same_entries_stored [OF s(2)]
      by (cases r) (simp_all add: run_op_def DoTransactWrite transactWrite_def transactWriteSync_def act_lift_bind)
  qed
qed

lemma run_ops_grows: "list_all op_raises ops \<Longrightarrow> grows (stored_items st) (stored_items (run_ops provider ops st))"
  unfolding run_ops_def
proof (induction ops arbitrary: st)
  case (Cons op ops)
  then show ?case using run_op_grows [of op st provider] grows_trans by fastforce
qed simp

section \<open>Transactions on the local store\<close>

text \<open>A store that clients have used, and the operations others perform while a transaction runs.\<close>

definition shared_store :: "entity_provider \<Rightarrow> store_op list \<Rightarrow> store_op list list \<Rightarrow> local_store tx_world" where
  "shared_store provider before others =
     \<lparr>tw_store = run_ops provider before empty_local_store, tw_others = map (run_ops provider) others,
      tw_seen = [], tw_calls = []\<rparr>"

lemma local_ok_empty: "good_provider provider \<Longrightarrow> local_ok provider empty_local_store"
  by (simp add: local_ok_def streamed_def replay_stream_def empty_local_store_def stored_items_def local_entity_of_def
      empty_local_entity_def entry_def om_get_eq fun_eq_iff)

lemma shared_store_ok:
  assumes "good_provider provider" and "list_all (op_indexable provider) before"
    and "list_all (list_all (op_indexable provider)) others"
  shows "local_transactions.world_ok provider (shared_store provider before others)"
  using assms local_ok_ops [OF local_ok_empty] local_ok_ops
  by (auto simp: local_transactions.world_ok_def shared_store_def list_all_iff)

lemma shared_store_forward:
  "list_all (list_all op_raises) others \<Longrightarrow>
   list_all (local_transactions.forward provider) (tw_others (shared_store provider before others))"
  using run_ops_grows by (auto simp: local_transactions.forward_def shared_store_def list_all_iff)


text \<open>
  C16 (liveness): a transaction is not given up while it has a retry for each interruption: with at
  most as many interruptions as retries, whatever the others do, it ends with the output or the
  error of the function, and never with the error of too many retries.
\<close>

theorem enough_retries_commit:
  assumes "good_provider provider" and "list_all (op_indexable provider) before"
    and "list_all (list_all (op_indexable provider)) others"
    and "cache_faithful keys" and "all_calls (call_admitted provider keys) p"
    and "length others \<le> the_default 3 retries"
  shows "\<exists>w0 w' r. executeTransaction (local_ops provider) provider p retries (shared_store provider before others) = (w', r) \<and>
    ((\<exists>out. r = Resolved out \<and> executeTransactionOnce (local_ops provider) provider p w0 = (w', Inr (TxOutput out))) \<or>
     (\<exists>err. r = Failed err \<and> executeTransactionOnce (local_ops provider) provider p w0 = (w', Inl err)))"
  using local_transactions.transaction_returns [OF assms(4,1,5) shared_store_ok [OF assms(1-3)], of "the_default 3 retries"] assms(6)
  by (fastforce simp: executeTransaction_def shared_store_def)

section \<open>A sample\<close>

text \<open>A function that reads the mail of one user and gives it to another, and its keys.\<close>

definition ann :: js where
  "ann = JArr [JStr ''o'', JStr ''ann'', JNum 1]"

definition copy_mail :: tx_program where
  "copy_mail = TxCall (EntityCall (EntityOp ''get'' ''users'' [ann])) (\<lambda>r.
     case r of
       Inl err \<Rightarrow> TxThrow err
     | Inr v \<Rightarrow>
         (case js_get v ''mail'' of
            JStr s \<Rightarrow> TxCall (EntityCall (EntityOp ''put'' ''users'' [sample_user ''bob'' 1 (JStr s)]))
              (\<lambda>r'. case r' of Inl err \<Rightarrow> TxThrow err | Inr x \<Rightarrow> TxReturn (JStr s))
          | _ \<Rightarrow> TxReturn JUndef))"

definition copy_mail_keys :: "(string \<times> norm_key) list" where
  "copy_mail_keys = [(''users'', sample_norm_key ''ann'' 1), (''users'', sample_norm_key ''bob'' 1)]"

definition new_mail :: "string \<Rightarrow> store_op" where
  "new_mail s = DoPut ''users'' (sample_user ''ann'' 1 (JStr s)) no_options"

definition copy_mail_run :: "store_op list list \<Rightarrow> local_store tx_world \<times> js result" where
  "copy_mail_run others = executeTransaction (local_ops sample_provider) sample_provider copy_mail None
     (shared_store sample_provider [new_mail ''a''] others)"

lemma copy_mail_keys_faithful: "cache_faithful copy_mail_keys"
  by code_simp

lemma ann_key: "entity_and_key sample_provider ''users'' ann [] = Inr (sample_entity, sample_norm_key ''ann'' 1)"
  by code_simp

lemma admitted_key:
  assumes "tx_entity_call c = Some (name, n, params)"
    and "entity_and_key provider n (param params 0) [] = Inr (e, key)" and "(n, key) \<in> set keys"
    and "name = ''put'' \<longrightarrow> indexable e (param params 0)"
  shows "call_admitted provider keys c"
  using assms by (simp add: call_admitted_def entity_and_key_Inr)

lemma copy_mail_admitted: "all_calls (call_admitted sample_provider copy_mail_keys) copy_mail"
proof -
  have "call_admitted sample_provider copy_mail_keys (EntityCall (EntityOp ''get'' ''users'' [ann]))"
    by (rule admitted_key [of _ "''get''" "''users''" "[ann]" _ sample_entity "sample_norm_key ''ann'' 1"])
      (simp_all add: tx_entity_call_def param_def js_at_def ann_key copy_mail_keys_def)
  moreover have "call_admitted sample_provider copy_mail_keys
      (EntityCall (EntityOp ''put'' ''users'' [sample_user ''bob'' 1 (JStr s)]))" for s
    by (rule admitted_key [of _ "''put''" "''users''" "[sample_user ''bob'' 1 (JStr s)]" _ sample_entity "sample_norm_key ''bob'' 1"])
      (simp_all add: tx_entity_call_def param_def js_at_def sample_key copy_mail_keys_def sample_indexable)
  ultimately show ?thesis by (simp add: copy_mail_def split: sum.split js.split)
qed

lemma new_mail_indexable: "op_indexable sample_provider (new_mail s)" "op_raises (new_mail s)"
  by (simp_all add: new_mail_def indexable_in_def sample_provider_def sample_indexable no_options_def)

lemma copy_mail_retried: "\<exists>w'. copy_mail_run [[], [new_mail ''b'']] = (w', Resolved (JStr ''b''))"
proof -
  have "snd (copy_mail_run [[], [new_mail ''b'']]) = Resolved (JStr ''b'')" by code_simp
  then show ?thesis by (metis prod.collapse)
qed


lemma enough_retries_commit_witness:
  "\<exists>w0 w' r. copy_mail_run [[], [DoDelete ''users'' ann None], [new_mail ''b'']] = (w', r) \<and>
    ((\<exists>out. r = Resolved out \<and>
        executeTransactionOnce (local_ops sample_provider) sample_provider copy_mail w0 = (w', Inr (TxOutput out))) \<or>
     (\<exists>err. r = Failed err \<and>
        executeTransactionOnce (local_ops sample_provider) sample_provider copy_mail w0 = (w', Inl err)))"
  unfolding copy_mail_run_def
  by (rule enough_retries_commit [OF sample_good _ _ copy_mail_keys_faithful copy_mail_admitted])
    (simp_all add: new_mail_indexable)

text \<open>
  When an item is deleted and put again between a transaction's read and its commit,
  the new item has the version of the old one, and the transaction commits with the value it read.
  Here the mail that is copied is one the store no longer has: alone, in the store that the commit
  found, the function copies the other one.
\<close>

theorem recreated_item_goes_unnoticed:
  "\<exists>w' w''. copy_mail_run [[], [DoDelete ''users'' ann None, new_mail ''b'']] = (w', Resolved (JStr ''a'')) \<and>
    executeTransactionOnce (local_ops sample_provider) sample_provider copy_mail (solo (commit_store w') []) =
      (w'', Inr (TxOutput (JStr ''b'')))"
proof -
  have "snd (copy_mail_run [[], [DoDelete ''users'' ann None, new_mail ''b'']]) = Resolved (JStr ''a'')"
    by code_simp
  moreover have "snd (executeTransactionOnce (local_ops sample_provider) sample_provider copy_mail
      (solo (commit_store (fst (copy_mail_run [[], [DoDelete ''users'' ann None, new_mail ''b'']]))) [])) =
      Inr (TxOutput (JStr ''b''))"
    by code_simp
  ultimately show ?thesis by (metis prod.collapse)
qed

end
