(* ===== verification/TimeControl.thy ===== *)
theory TimeControl
  imports JsValue "HOL-Library.Multiset"
begin

text \<open>
  core-runtime/src/local/time-controller.ts: the clock of the local and test runtimes, whose time
  only moves when told to and which hands out the events that are due. The heap is that of the
  package heap-js, a parameter: \<open>heap_contract\<close> is what the code relies on. Times are
  milliseconds.
\<close>

section \<open>The heap\<close>

record 'e timed =
  tm_timestamp :: int
  tm_event :: 'e
  tm_ord :: nat

text \<open>The comparison the heap is created with.\<close>

definition time_order :: "'e timed \<Rightarrow> 'e timed \<Rightarrow> int" where
  "time_order a b =
     (let diff = tm_timestamp a - tm_timestamp b
      in if diff = 0 then int (tm_ord a) - int (tm_ord b) else diff)"

text \<open>
  The operations of the heap, of the package heap-js, and what its documentation says of them:
  the top is a least element, and the array has all of them in an order that is not told.
\<close>

record ('h, 'e) heap_ops =
  hp_init :: "'e timed list \<Rightarrow> 'h"
  hp_add :: "'e timed \<Rightarrow> 'h \<Rightarrow> 'h"
  hp_addAll :: "'e timed list \<Rightarrow> 'h \<Rightarrow> 'h"
  hp_peek :: "'h \<Rightarrow> 'e timed option"
  hp_pop :: "'h \<Rightarrow> ('e timed \<times> 'h) option"
  hp_toArray :: "'h \<Rightarrow> 'e timed list"
  hp_clear :: "'h \<Rightarrow> 'h"

definition heap_contract :: "('h, 'e) heap_ops \<Rightarrow> ('h \<Rightarrow> 'e timed multiset) \<Rightarrow> bool" where
  "heap_contract ops items \<longleftrightarrow>
     (\<forall>es. items (hp_init ops es) = mset es) \<and>
     (\<forall>e h. items (hp_add ops e h) = add_mset e (items h)) \<and>
     (\<forall>es h. items (hp_addAll ops es h) = mset es + items h) \<and>
     (\<forall>h. hp_peek ops h = None \<longleftrightarrow> items h = {#}) \<and>
     (\<forall>h e. hp_peek ops h = Some e \<longrightarrow> e \<in># items h \<and> (\<forall>x \<in># items h. time_order e x \<le> 0) \<and>
        (\<exists>h'. hp_pop ops h = Some (e, h') \<and> items h' = items h - {#e#})) \<and>
     (\<forall>h. mset (hp_toArray ops h) = items h) \<and>
     (\<forall>h. items (hp_clear ops h) = {#})"

section \<open>The controller\<close>

record 'h time_controller =
  tc_current :: int
  tc_ordCounter :: nat
  tc_increment :: int
  tc_start :: "int option"
  tc_timeHeap :: 'h

text \<open>Events are numbered in the order in which they are added.\<close>

fun number_events :: "nat \<Rightarrow> (int \<times> 'e) list \<Rightarrow> 'e timed list" where
  "number_events n [] = []"
| "number_events n ((t, e) # es) = \<lparr>tm_timestamp = t, tm_event = e, tm_ord = n\<rparr> # number_events (Suc n) es"

definition TimeController ::
  "('h, 'e) heap_ops \<Rightarrow> (int \<times> 'e) list \<Rightarrow> int option \<Rightarrow> int option \<Rightarrow> 'h time_controller" where
  "TimeController ops initialEvents start increment =
     \<lparr>tc_current = the_default 0 start, tc_ordCounter = length initialEvents,
      tc_increment = the_default 1 increment, tc_start = start,
      tc_timeHeap = hp_init ops (number_events 0 initialEvents)\<rparr>"

definition nextTick :: "'h time_controller \<Rightarrow> int" where
  "nextTick c = tc_current c + tc_increment c"

definition nextEventTick :: "('h, 'e) heap_ops \<Rightarrow> 'h time_controller \<Rightarrow> int option" where
  "nextEventTick ops c = map_option tm_timestamp (hp_peek ops (tc_timeHeap c))"

text \<open>The tests in the loop of the code are \<open>hasCurrentOrPastEvents\<close>, which \<open>hasPastEvents\<close> is too.\<close>

definition hasCurrentOrPastEvents :: "('h, 'e) heap_ops \<Rightarrow> 'h time_controller \<Rightarrow> bool" where
  "hasCurrentOrPastEvents ops c =
     (case hp_peek ops (tc_timeHeap c) of None \<Rightarrow> False | Some e \<Rightarrow> tm_timestamp e \<le> tc_current c)"

definition addEvent :: "('h, 'e) heap_ops \<Rightarrow> int \<Rightarrow> 'e \<Rightarrow> 'h time_controller \<Rightarrow> 'h time_controller" where
  "addEvent ops timestamp e c =
     c\<lparr>tc_timeHeap := hp_add ops \<lparr>tm_timestamp = timestamp, tm_event = e, tm_ord = tc_ordCounter c\<rparr> (tc_timeHeap c),
       tc_ordCounter := Suc (tc_ordCounter c)\<rparr>"

definition addEventAtNextTick :: "('h, 'e) heap_ops \<Rightarrow> 'e \<Rightarrow> 'h time_controller \<Rightarrow> 'h time_controller" where
  "addEventAtNextTick ops e c = addEvent ops (nextTick c) e c"

definition addEvents :: "('h, 'e) heap_ops \<Rightarrow> (int \<times> 'e) list \<Rightarrow> 'h time_controller \<Rightarrow> 'h time_controller" where
  "addEvents ops timeEvents c =
     c\<lparr>tc_timeHeap := hp_addAll ops (number_events (tc_ordCounter c) timeEvents) (tc_timeHeap c),
       tc_ordCounter := tc_ordCounter c + length timeEvents\<rparr>"

definition reset :: "('h, 'e) heap_ops \<Rightarrow> int option \<Rightarrow> 'h time_controller \<Rightarrow> 'h time_controller" where
  "reset ops current c =
     c\<lparr>tc_current := (case current of Some t \<Rightarrow> t | None \<Rightarrow> the_default 0 (tc_start c)),
       tc_timeHeap := hp_clear ops (tc_timeHeap c)\<rparr>"

text \<open>
  Draining pops events as long as the top is due. \<open>None\<close> is a loop that does not end, or a pop
  that finds nothing, which the check before it excludes.
\<close>

partial_function (option) drainPastEvents ::
  "('h, 'e) heap_ops \<Rightarrow> 'h time_controller \<Rightarrow> ('h time_controller \<times> 'e list) option" where
  "drainPastEvents ops c =
     (if hasCurrentOrPastEvents ops c
      then (case hp_pop ops (tc_timeHeap c) of
          None \<Rightarrow> None
        | Some (e, h) \<Rightarrow>
            Option.bind (drainPastEvents ops (c\<lparr>tc_timeHeap := h\<rparr>)) (\<lambda>(c', es). Some (c', tm_event e # es)))
      else Some (c, []))"

definition tick :: "('h, 'e) heap_ops \<Rightarrow> int \<Rightarrow> 'h time_controller \<Rightarrow> ('h time_controller \<times> 'e list) option" where
  "tick ops n c = drainPastEvents ops (c\<lparr>tc_current := tc_current c + tc_increment c * n\<rparr>)"

text \<open>\<open>Math.floor\<close> of the quotient; the increment is positive.\<close>

definition tickUntil :: "('h, 'e) heap_ops \<Rightarrow> int \<Rightarrow> 'h time_controller \<Rightarrow> ('h time_controller \<times> 'e list) option" where
  "tickUntil ops goal c =
     (if goal < tc_current c then drainPastEvents ops c
      else tick ops ((goal - tc_current c) div tc_increment c) c)"

text \<open>
  The generator \<open>tickIncremental\<close>, run to its end by a consumer that may change the controller
  after each group of events; the result has the groups.
\<close>

partial_function (option) tick_groups ::
  "('h, 'e) heap_ops \<Rightarrow> ('e list \<Rightarrow> 'h time_controller \<Rightarrow> 'h time_controller) \<Rightarrow> int \<Rightarrow> 'h time_controller \<Rightarrow>
   ('h time_controller \<times> 'e list list) option" where
  "tick_groups ops consume goal c =
     (if \<not> tc_current c < goal then Some (c, [])
      else (case nextEventTick ops c of
          None \<Rightarrow> map_option (\<lambda>(c', es). (consume es c', [es])) (tickUntil ops goal c)
        | Some t \<Rightarrow>
            if goal \<le> t then map_option (\<lambda>(c', es). (consume es c', [es])) (tickUntil ops goal c)
            else Option.bind (tickUntil ops t c) (\<lambda>(c', es).
                Option.bind (tick_groups ops consume goal (consume es c')) (\<lambda>(c'', ess). Some (c'', es # ess)))))"

definition tickIncremental ::
  "('h, 'e) heap_ops \<Rightarrow> ('e list \<Rightarrow> 'h time_controller \<Rightarrow> 'h time_controller) \<Rightarrow> int \<Rightarrow> 'h time_controller \<Rightarrow>
   ('h time_controller \<times> 'e list list) option" where
  "tickIncremental ops consume n c = tick_groups ops consume (tc_current c + tc_increment c * n) c"

text \<open>
  Persisting writes the current time, the increment and the array of the heap; reading numbers
  the events in the order of that array.
\<close>

record 'e serialized_time =
  st_current :: int
  st_increment :: int
  st_events :: "'e timed list"

definition serializeTime :: "('h, 'e) heap_ops \<Rightarrow> 'h time_controller \<Rightarrow> 'e serialized_time" where
  "serializeTime ops c =
     \<lparr>st_current = tc_current c, st_increment = tc_increment c, st_events = hp_toArray ops (tc_timeHeap c)\<rparr>"

definition time_fromSerializedData :: "('h, 'e) heap_ops \<Rightarrow> 'e serialized_time \<Rightarrow> 'h time_controller" where
  "time_fromSerializedData ops d =
     TimeController ops (map (\<lambda>e. (tm_timestamp e, tm_event e)) (st_events d)) (Some (st_current d)) (Some (st_increment d))"


section \<open>What is drained\<close>

definition earlier :: "'e timed \<Rightarrow> 'e timed \<Rightarrow> bool" where
  "earlier a b \<longleftrightarrow> time_order a b \<le> 0"

lemma earlier_iff: "earlier a b \<longleftrightarrow> tm_timestamp a < tm_timestamp b \<or> tm_timestamp a = tm_timestamp b \<and> tm_ord a \<le> tm_ord b"
  by (auto simp: earlier_def time_order_def Let_def)

lemma earlier_trans: "earlier a b \<Longrightarrow> earlier b c \<Longrightarrow> earlier a c"
  unfolding earlier_iff by auto

lemma earlier_timestamp: "earlier a b \<Longrightarrow> tm_timestamp a \<le> tm_timestamp b"
  by (auto simp: earlier_def time_order_def Let_def split: if_splits)

text \<open>The events \<open>ds\<close> are those due at a time, in order; \<open>h\<close> keeps the others.\<close>

definition drained :: "('h \<Rightarrow> 'e timed multiset) \<Rightarrow> 'h \<Rightarrow> int \<Rightarrow> 'h \<Rightarrow> 'e timed list \<Rightarrow> bool" where
  "drained items h t h' ds \<longleftrightarrow>
     mset ds = filter_mset (\<lambda>e. tm_timestamp e \<le> t) (items h) \<and> sorted_wrt earlier ds \<and>
     items h' = filter_mset (\<lambda>e. t < tm_timestamp e) (items h)"

lemma drain_returns:
  assumes contract: "heap_contract ops items"
  shows "\<exists>h' ds. drainPastEvents ops c = Some (c\<lparr>tc_timeHeap := h'\<rparr>, map tm_event ds) \<and>
    drained items (tc_timeHeap c) (tc_current c) h' ds"
proof (induction "size (items (tc_timeHeap c))" arbitrary: c rule: less_induct)
  case less
  show ?case
  proof (cases "hasCurrentOrPastEvents ops c")
    case False
    have "tc_current c < tm_timestamp x" if "x \<in># items (tc_timeHeap c)" for x
    proof (cases "hp_peek ops (tc_timeHeap c)")
      case None
      then show ?thesis using contract that by (auto simp: heap_contract_def)
    next
      case (Some e)
      then have "earlier e x" using contract that by (auto simp: heap_contract_def earlier_def)
      then show ?thesis using False Some earlier_timestamp [of e x] by (simp add: hasCurrentOrPastEvents_def)
    qed
    then have "filter_mset (\<lambda>e. tc_current c < tm_timestamp e) (items (tc_timeHeap c)) = filter_mset (\<lambda>e. True) (items (tc_timeHeap c))"
      "filter_mset (\<lambda>e. tm_timestamp e \<le> tc_current c) (items (tc_timeHeap c)) = filter_mset (\<lambda>e. False) (items (tc_timeHeap c))"
      by (intro filter_mset_cong; force)+
    then have "drained items (tc_timeHeap c) (tc_current c) (tc_timeHeap c) []" by (simp add: drained_def)
    then show ?thesis using False by (subst drainPastEvents.simps) (auto intro!: exI [of _ "tc_timeHeap c"])
  next
    case True
    then obtain e where e: "hp_peek ops (tc_timeHeap c) = Some e" "tm_timestamp e \<le> tc_current c"
      by (auto simp: hasCurrentOrPastEvents_def split: option.splits)
    with contract obtain h where h: "hp_pop ops (tc_timeHeap c) = Some (e, h)" "items h = items (tc_timeHeap c) - {#e#}"
      and in_e: "e \<in># items (tc_timeHeap c)" and least: "\<forall>x \<in># items (tc_timeHeap c). earlier e x"
      unfolding heap_contract_def earlier_def by blast
    then obtain m where m: "items (tc_timeHeap c) = add_mset e m" "items h = m" by (metis insert_DiffM)
    have "size (items (tc_timeHeap (c\<lparr>tc_timeHeap := h\<rparr>))) < size (items (tc_timeHeap c))" using m by simp
    from less [OF this] obtain h' ds where
      "drainPastEvents ops (c\<lparr>tc_timeHeap := h\<rparr>) = Some (c\<lparr>tc_timeHeap := h'\<rparr>, map tm_event ds)"
      "drained items h (tc_current c) h' ds" by auto
    moreover from this(2) have "drained items (tc_timeHeap c) (tc_current c) h' (e # ds)"
    proof -
      assume d: "drained items h (tc_current c) h' ds"
      then have "set ds \<subseteq> set_mset m" using m by (auto simp: drained_def dest: arg_cong [where f = set_mset])
      then show ?thesis using d m e(2) least by (auto simp: drained_def)
    qed
    ultimately show ?thesis using True h
      by (subst drainPastEvents.simps) (auto intro!: exI [of _ h'] exI [of _ "e # ds"])
  qed
qed


lemma set_mset_filtered: "mset ds = filter_mset P m \<Longrightarrow> set ds = {x. x \<in># m \<and> P x}"
  by (drule arg_cong [where f = set_mset]) simp

lemma drained_compose:
  assumes "drained items h t h' ds" and "drained items h' t' h'' ds'" and "t \<le> t'"
  shows "drained items h t' h'' (ds @ ds')"
proof -
  have ds: "set ds = {x. x \<in># items h \<and> tm_timestamp x \<le> t}"
    using assms(1) unfolding drained_def by (intro set_mset_filtered) blast
  have h': "items h' = filter_mset (\<lambda>e. t < tm_timestamp e) (items h)" using assms(1) by (simp add: drained_def)
  have ds': "set ds' = {x. x \<in># items h \<and> t < tm_timestamp x \<and> tm_timestamp x \<le> t'}"
    using assms(2) set_mset_filtered [of ds' "\<lambda>e. tm_timestamp e \<le> t'" "items h'"] by (auto simp: drained_def h')
  have "earlier a b" if "a \<in> set ds" "b \<in> set ds'" for a b
  proof -
    have "tm_timestamp a \<le> t" "t < tm_timestamp b" using that ds ds' by simp_all
    then show ?thesis by (simp add: earlier_iff)
  qed
  moreover have "filter_mset (\<lambda>e. tm_timestamp e \<le> t') (items h) =
      filter_mset (\<lambda>e. tm_timestamp e \<le> t) (items h) + filter_mset (\<lambda>e. tm_timestamp e \<le> t') (filter_mset (\<lambda>e. t < tm_timestamp e) (items h))"
    using assms(3) by (intro multiset_eqI) auto
  moreover have "filter_mset (\<lambda>e. t' < tm_timestamp e) (filter_mset (\<lambda>e. t < tm_timestamp e) (items h)) =
      filter_mset (\<lambda>e. t' < tm_timestamp e) (items h)"
    using assms(3) by (intro multiset_eqI) auto
  ultimately show ?thesis using assms(1,2) by (simp add: drained_def sorted_wrt_append)
qed

text \<open>Events with numbers of their own can be arranged in one way only.\<close>

lemma arranged_once:
  assumes "sorted_wrt earlier xs" and "sorted_wrt earlier ys" and "mset xs = mset ys" and "distinct (map tm_ord xs)"
  shows "xs = ys"
  using assms
proof (induction xs arbitrary: ys)
  case Nil
  then show ?case by simp
next
  case (Cons x xs)
  then obtain y ys' where ys: "ys = y # ys'" by (cases ys) auto
  have sets: "set ys = insert x (set xs)" using arg_cong [OF Cons.prems(3), of set_mset] by simp
  have "x = y"
  proof (rule ccontr)
    assume "x \<noteq> y"
    then have "y \<in> set xs" "x \<in> set ys'" using sets ys by (auto)
    then have "earlier x y" "earlier y x" "tm_ord y \<noteq> tm_ord x" using Cons.prems(1,2,4) ys by (auto simp: image_iff)
    then show False by (auto simp: earlier_iff)
  qed
  then show ?case using Cons ys by simp
qed

definition numbered :: "('h \<Rightarrow> 'e timed multiset) \<Rightarrow> 'h time_controller \<Rightarrow> bool" where
  "numbered items c \<longleftrightarrow> (\<exists>xs. mset xs = items (tc_timeHeap c) \<and> distinct (map tm_ord xs) \<and> (\<forall>e \<in> set xs. tm_ord e < tc_ordCounter c))"

lemma drained_once:
  assumes n: "numbered items c" and "drained items (tc_timeHeap c) t h' ds" and "drained items (tc_timeHeap c) t h'' ds'"
  shows "ds' = ds" and "items h'' = items h'"
proof -
  from n obtain xs where xs: "mset xs = items (tc_timeHeap c)" "distinct (map tm_ord xs)" unfolding numbered_def by blast
  have "mset ds = mset (filter (\<lambda>e. tm_timestamp e \<le> t) xs)" using assms(2) xs(1) by (simp add: drained_def)
  then have "mset (map tm_ord ds) = mset (map tm_ord (filter (\<lambda>e. tm_timestamp e \<le> t) xs))" by simp
  moreover have "distinct (map tm_ord (filter (\<lambda>e. tm_timestamp e \<le> t) xs))" using xs(2) by (rule distinct_map_filter)
  ultimately have "distinct (map tm_ord ds)" by (metis mset_eq_imp_distinct_iff)
  with assms(2,3) show "ds' = ds" using arranged_once unfolding drained_def by metis
  show "items h'' = items h'" using assms(2,3) by (simp add: drained_def)
qed

lemma ord_number_events: "e \<in> set (number_events n es) \<Longrightarrow> n \<le> tm_ord e \<and> tm_ord e < n + length es"
  by (induction n es rule: number_events.induct) fastforce+

lemma distinct_number_events: "distinct (map tm_ord (number_events n es))"
  by (induction n es rule: number_events.induct) (auto dest!: ord_number_events)

text \<open>Sorting by time keeps the order of the numbers among equal times.\<close>

lemma sorted_by_time:
  "sorted_wrt (<) (map tm_ord xs) \<Longrightarrow> sorted_wrt earlier (sort_key tm_timestamp xs)"
proof (induction xs)
  case (Cons x xs)
  have insert: "sorted_wrt earlier (insort_key tm_timestamp x ys)"
    if "sorted_wrt earlier ys" "\<And>y. y \<in> set ys \<Longrightarrow> tm_ord x < tm_ord y" for x :: "'a timed" and ys
    using that
  proof (induction ys)
    case (Cons y ys)
    show ?case
    proof (cases "tm_timestamp x \<le> tm_timestamp y")
      case True
      then have "earlier x y" using Cons.prems(2) [of y] by (auto simp: earlier_iff)
      then show ?thesis using Cons.prems(1) True earlier_trans by fastforce
    next
      case False
      then have "earlier y x" by (auto simp: earlier_iff)
      then show ?thesis using Cons False by (auto simp: set_insort_key)
    qed
  qed simp
  from Cons show ?case unfolding sort_key_simps by (intro insert) auto
qed simp

lemma tick_groups_unfold:
  "tc_current c < goal \<Longrightarrow> nextEventTick ops c = Some t \<Longrightarrow> t < goal \<Longrightarrow>
   tick_groups ops consume goal c = Option.bind (tickUntil ops t c) (\<lambda>(c', es).
     Option.bind (tick_groups ops consume goal (consume es c')) (\<lambda>(c'', ess). Some (c'', es # ess)))"
  by (subst tick_groups.simps) simp


section \<open>Ticks\<close>

lemma tick_returns:
  assumes "heap_contract ops items"
  shows "\<exists>h' ds. tick ops n c = Some (c\<lparr>tc_current := tc_current c + tc_increment c * n, tc_timeHeap := h'\<rparr>, map tm_event ds) \<and>
    drained items (tc_timeHeap c) (tc_current c + tc_increment c * n) h' ds"
  using drain_returns [OF assms, of "c\<lparr>tc_current := tc_current c + tc_increment c * n\<rparr>"] by (auto simp: tick_def)

lemma tickUntil_returns:
  assumes "heap_contract ops items" and inc: "tc_increment c = 1"
  shows "\<exists>h' ds. tickUntil ops goal c = Some (c\<lparr>tc_current := max goal (tc_current c), tc_timeHeap := h'\<rparr>, map tm_event ds) \<and>
    drained items (tc_timeHeap c) (max goal (tc_current c)) h' ds"
proof (cases "goal < tc_current c")
  case True
  then have "c\<lparr>tc_current := max goal (tc_current c), tc_timeHeap := h'\<rparr> = c\<lparr>tc_timeHeap := h'\<rparr>" for h'
    by (simp add: max_def)
  then show ?thesis using drain_returns [OF assms(1), of c] True by (auto simp: tickUntil_def max_def)
next
  case False
  then have "max goal (tc_current c) = tc_current c + tc_increment c * ((goal - tc_current c) div tc_increment c)"
    by (simp add: inc max_def)
  then show ?thesis using tick_returns [OF assms(1), of "(goal - tc_current c) div tc_increment c" c] False
    by (simp add: tickUntil_def)
qed

text \<open>Ticking from event to event drains what one tick to the goal drains.\<close>

lemma groups_return:
  assumes contract: "heap_contract ops items"
  shows "tc_increment c = 1 \<Longrightarrow> tc_current c < goal \<Longrightarrow>
    \<exists>h' dss. tick_groups ops (\<lambda>_ c. c) goal c = Some (c\<lparr>tc_current := goal, tc_timeHeap := h'\<rparr>, map (map tm_event) dss) \<and>
      drained items (tc_timeHeap c) goal h' (concat dss) \<and> list_all (\<lambda>ds. ds \<noteq> []) (butlast dss)"
proof (induction "size (items (tc_timeHeap c))" arbitrary: c rule: less_induct)
  case less
  have last: ?case if step: "tick_groups ops (\<lambda>_ c. c) goal c = map_option (\<lambda>(c', es). (c', [es])) (tickUntil ops goal c)"
  proof -
    from tickUntil_returns [OF contract less.prems(1), of goal] less.prems(2) obtain h' ds where
      "tickUntil ops goal c = Some (c\<lparr>tc_current := goal, tc_timeHeap := h'\<rparr>, map tm_event ds)"
      "drained items (tc_timeHeap c) goal h' ds" by (auto simp: max_def)
    with step show ?thesis by (auto intro!: exI [of _ h'] exI [of _ "[ds]"])
  qed
  show ?case
  proof (cases "hp_peek ops (tc_timeHeap c)")
    case None
    then show ?thesis using less.prems by (intro last) (subst tick_groups.simps, simp add: nextEventTick_def)
  next
    case (Some e)
    show ?thesis
    proof (cases "goal \<le> tm_timestamp e")
      case True
      then show ?thesis using less.prems Some by (intro last) (subst tick_groups.simps, simp add: nextEventTick_def)
    next
      case False
      define t where "t = max (tm_timestamp e) (tc_current c)"
      have t: "t < goal" "tc_current c \<le> t" "tm_timestamp e \<le> t" using False less.prems(2) by (simp_all add: t_def)
      from tickUntil_returns [OF contract less.prems(1), of "tm_timestamp e"] obtain h1 ds where
        d1: "tickUntil ops (tm_timestamp e) c = Some (c\<lparr>tc_current := t, tc_timeHeap := h1\<rparr>, map tm_event ds)"
          "drained items (tc_timeHeap c) t h1 ds" by (auto simp: t_def)
      have e: "e \<in># items (tc_timeHeap c)" using contract Some unfolding heap_contract_def by blast
      then have ds: "ds \<noteq> []" using d1(2) t(3) set_mset_filtered [of ds "\<lambda>e. tm_timestamp e \<le> t" "items (tc_timeHeap c)"]
        by (auto simp: drained_def)
      have "items h1 = filter_mset (\<lambda>e. t < tm_timestamp e) (items (tc_timeHeap c))" using d1(2) by (simp add: drained_def)
      moreover from e obtain m where "items (tc_timeHeap c) = add_mset e m" by (metis insert_DiffM)
      ultimately have size: "size (items h1) < size (items (tc_timeHeap c))"
        using t(3) by (simp add: le_imp_less_Suc size_filter_mset_lesseq)
      define c1 where "c1 = c\<lparr>tc_current := t, tc_timeHeap := h1\<rparr>"
      have "\<exists>h' dss. tick_groups ops (\<lambda>_ c. c) goal c1 = Some (c1\<lparr>tc_current := goal, tc_timeHeap := h'\<rparr>, map (map tm_event) dss) \<and>
          drained items (tc_timeHeap c1) goal h' (concat dss) \<and> list_all (\<lambda>ds. ds \<noteq> []) (butlast dss)"
        by (rule less.hyps) (use size t less.prems(1) in \<open>simp_all add: c1_def\<close>)
      then obtain h' dss where rest:
        "tick_groups ops (\<lambda>_ c. c) goal c1 = Some (c1\<lparr>tc_current := goal, tc_timeHeap := h'\<rparr>, map (map tm_event) dss)"
        "drained items h1 goal h' (concat dss)" "list_all (\<lambda>ds. ds \<noteq> []) (butlast dss)" by (auto simp: c1_def)
      have "tick_groups ops (\<lambda>_ c. c) goal c = Some (c\<lparr>tc_current := goal, tc_timeHeap := h'\<rparr>, map (map tm_event) (ds # dss))"
        using tick_groups_unfold [OF less.prems(2), of ops "tm_timestamp e"] Some False d1(1) rest(1)
        by (simp add: nextEventTick_def c1_def)
      moreover have "drained items (tc_timeHeap c) goal h' (concat (ds # dss))"
        using drained_compose [OF d1(2) rest(2)] t(1) by simp
      ultimately show ?thesis using ds rest(3) by (intro exI [of _ h'] exI [of _ "ds # dss"]) auto
    qed
  qed
qed


lemma numbered_addEvent:
  assumes "heap_contract ops items" and "numbered items c"
  shows "numbered items (addEvent ops t e c)"
proof -
  from assms(2) obtain xs where xs: "mset xs = items (tc_timeHeap c)" "distinct (map tm_ord xs)"
    "\<forall>e \<in> set xs. tm_ord e < tc_ordCounter c" unfolding numbered_def by blast
  define x where "x = \<lparr>tm_timestamp = t, tm_event = e, tm_ord = tc_ordCounter c\<rparr>"
  have "mset (x # xs) = items (tc_timeHeap (addEvent ops t e c))"
    using assms(1) xs(1) by (simp add: addEvent_def heap_contract_def x_def)
  moreover have "distinct (map tm_ord (x # xs))" using xs by (auto simp: x_def)
  moreover have "\<forall>e' \<in> set (x # xs). tm_ord e' < tc_ordCounter (addEvent ops t e c)"
    using xs(3) by (auto simp: x_def addEvent_def)
  ultimately show ?thesis unfolding numbered_def by blast
qed

lemma number_events_back: "map (\<lambda>e. (tm_timestamp e, tm_event e)) (number_events n es) = es"
  by (induction n es rule: number_events.induct) simp_all

lemma sort_key_mapped: "map f (sort_key (\<lambda>x. k (f x)) xs) = sort_key k (map f xs)"
proof (induction xs)
  case (Cons x xs)
  have "map f (insort_key (\<lambda>x. k (f x)) x ys) = insort_key k (f x) (map f ys)" for ys
    by (induction ys) simp_all
  then show ?case using Cons by simp
qed simp

section \<open>The abstract clock\<close>

text \<open>
  A clock is a time and the events to come, in the order in which they were added. Going to a
  time takes out the events that are due then, stably sorted by their times.
\<close>

type_synonym 'e clock = "int \<times> (int \<times> 'e) list"

definition clock_goto :: "int \<Rightarrow> 'e clock \<Rightarrow> 'e clock \<times> 'e list" where
  "clock_goto now clock =
     ((now, filter (\<lambda>(t, e). now < t) (snd clock)), map snd (sort_key fst (filter (\<lambda>(t, e). t \<le> now) (snd clock))))"

datatype 'e clock_op = AddOne int 'e | AddAll "(int \<times> 'e) list" | AddNext 'e | TickBy int | TickUntil int | Drain

text \<open>A goal between two ticks is one for the tick before it, a goal in the past one for the present.\<close>

fun clock_spec :: "int \<Rightarrow> 'e clock_op \<Rightarrow> 'e clock \<Rightarrow> 'e clock \<times> 'e list" where
  "clock_spec inc (AddOne t e) (now, es) = ((now, es @ [(t, e)]), [])"
| "clock_spec inc (AddAll es') (now, es) = ((now, es @ es'), [])"
| "clock_spec inc (AddNext e) (now, es) = ((now, es @ [(now + inc, e)]), [])"
| "clock_spec inc (TickBy n) (now, es) = clock_goto (now + inc * n) (now, es)"
| "clock_spec inc (TickUntil goal) (now, es) =
     clock_goto (if goal < now then now else goal - (goal - now) mod inc) (now, es)"
| "clock_spec inc Drain (now, es) = clock_goto now (now, es)"

fun clock_specs :: "int \<Rightarrow> 'e clock_op list \<Rightarrow> 'e clock \<Rightarrow> 'e clock \<times> 'e list list" where
  "clock_specs inc [] c = (c, [])"
| "clock_specs inc (op # os) c =
     (let (c1, out) = clock_spec inc op c; (c2, outs) = clock_specs inc os c1 in (c2, out # outs))"

fun control_step :: "('h, 'e) heap_ops \<Rightarrow> 'e clock_op \<Rightarrow> 'h time_controller \<Rightarrow> ('h time_controller \<times> 'e list) option" where
  "control_step ops (AddOne t e) c = Some (addEvent ops t e c, [])"
| "control_step ops (AddAll es) c = Some (addEvents ops es c, [])"
| "control_step ops (AddNext e) c = Some (addEventAtNextTick ops e c, [])"
| "control_step ops (TickBy n) c = tick ops n c"
| "control_step ops (TickUntil goal) c = tickUntil ops goal c"
| "control_step ops Drain c = drainPastEvents ops c"

fun control_steps :: "('h, 'e) heap_ops \<Rightarrow> 'e clock_op list \<Rightarrow> 'h time_controller \<Rightarrow> ('h time_controller \<times> 'e list list) option" where
  "control_steps ops [] c = Some (c, [])"
| "control_steps ops (op # os) c =
     Option.bind (control_step ops op c) (\<lambda>(c1, out).
       Option.bind (control_steps ops os c1) (\<lambda>(c2, outs). Some (c2, out # outs)))"

definition holds_clock :: "('h \<Rightarrow> 'e timed multiset) \<Rightarrow> int \<Rightarrow> 'h time_controller \<Rightarrow> 'e clock \<Rightarrow> bool" where
  "holds_clock items inc c clock \<longleftrightarrow> tc_current c = fst clock \<and> tc_increment c = inc \<and>
     (\<exists>xs. mset xs = items (tc_timeHeap c) \<and> map (\<lambda>x. (tm_timestamp x, tm_event x)) xs = snd clock \<and>
        sorted_wrt (<) (map tm_ord xs) \<and> (\<forall>x \<in> set xs. tm_ord x < tc_ordCounter c))"

lemma sorted_ord_number_events: "sorted_wrt (<) (map tm_ord (number_events n es))"
  by (induction n es rule: number_events.induct) (auto dest!: ord_number_events)

lemma holds_added:
  assumes contract: "heap_contract ops items" and h: "holds_clock items inc c (now, es)"
  shows "holds_clock items inc (addEvents ops es' c) (now, es @ es')"
proof -
  from h obtain xs where xs: "mset xs = items (tc_timeHeap c)" "map (\<lambda>x. (tm_timestamp x, tm_event x)) xs = es"
    "sorted_wrt (<) (map tm_ord xs)" "\<forall>x \<in> set xs. tm_ord x < tc_ordCounter c"
    and c: "tc_current c = now" "tc_increment c = inc" by (auto simp: holds_clock_def)
  let ?new = "number_events (tc_ordCounter c) es'"
  have "mset (xs @ ?new) = items (tc_timeHeap (addEvents ops es' c))"
    using contract xs(1) by (simp add: addEvents_def heap_contract_def)
  moreover have "map (\<lambda>x. (tm_timestamp x, tm_event x)) (xs @ ?new) = es @ es'"
    using xs(2) number_events_back [of "tc_ordCounter c" es'] by simp
  moreover have "sorted_wrt (<) (map tm_ord (xs @ ?new))"
    using xs(3,4) sorted_ord_number_events [of "tc_ordCounter c" es']
    by (fastforce simp: sorted_wrt_append dest: ord_number_events)
  moreover have "\<forall>x \<in> set (xs @ ?new). tm_ord x < tc_ordCounter (addEvents ops es' c)"
    using xs(4) by (fastforce simp: addEvents_def dest: ord_number_events)
  ultimately show ?thesis using c unfolding holds_clock_def fst_conv snd_conv
    by (intro conjI exI [of _ "xs @ ?new"]) (simp_all add: addEvents_def)
qed

text \<open>Adding one event is adding a list of one: the heap has the same items.\<close>

lemma holds_same_items:
  "holds_clock items inc c clock \<Longrightarrow> items (tc_timeHeap c') = items (tc_timeHeap c) \<Longrightarrow> tc_current c' = tc_current c \<Longrightarrow>
   tc_increment c' = tc_increment c \<Longrightarrow> tc_ordCounter c' = tc_ordCounter c \<Longrightarrow> holds_clock items inc c' clock"
  by (simp add: holds_clock_def)

lemma holds_added_one:
  assumes contract: "heap_contract ops items" and h: "holds_clock items inc c (now, es)"
  shows "holds_clock items inc (addEvent ops t e c) (now, es @ [(t, e)])"
  by (rule holds_same_items [OF holds_added [OF assms, of "[(t, e)]"]])
    (use contract in \<open>simp_all add: addEvent_def addEvents_def heap_contract_def\<close>)

lemma holds_drained:
  assumes h: "holds_clock items inc c (now0, es)" and d: "drained items (tc_timeHeap c) now heap ds"
  shows "holds_clock items inc (c\<lparr>tc_current := now, tc_timeHeap := heap\<rparr>) (now, filter (\<lambda>(t, e). now < t) es) \<and>
    map tm_event ds = map snd (sort_key fst (filter (\<lambda>(t, e). t \<le> now) es))"
proof -
  from h obtain xs where xs: "mset xs = items (tc_timeHeap c)" "map (\<lambda>x. (tm_timestamp x, tm_event x)) xs = es"
    "sorted_wrt (<) (map tm_ord xs)" "\<forall>x \<in> set xs. tm_ord x < tc_ordCounter c"
    and c: "tc_increment c = inc" by (auto simp: holds_clock_def)
  define f where "f = (\<lambda>x :: 'b timed. (tm_timestamp x, tm_event x))"
  let ?late = "filter (\<lambda>x. now < tm_timestamp x) xs" and ?due = "filter (\<lambda>x. tm_timestamp x \<le> now) xs"
  have "mset ?late = items heap" using d xs(1) by (simp add: drained_def)
  moreover have "map f ?late = filter (\<lambda>(t, e). now < t) es"
    using xs(2) by (auto simp: f_def filter_map comp_def)
  moreover have "sorted_wrt (<) (map tm_ord ?late)"
    using xs(3) by (simp add: sorted_wrt_map sorted_wrt_filter)
  ultimately have 1: "holds_clock items inc (c\<lparr>tc_current := now, tc_timeHeap := heap\<rparr>) (now, filter (\<lambda>(t, e). now < t) es)"
    using xs(4) c unfolding holds_clock_def f_def by (auto intro!: exI [of _ ?late])
  have due: "sorted_wrt (<) (map tm_ord ?due)" using xs(3) by (simp add: sorted_wrt_map sorted_wrt_filter)
  have "ds = sort_key tm_timestamp ?due"
  proof (rule arranged_once [symmetric])
    show "sorted_wrt earlier (sort_key tm_timestamp ?due)" by (rule sorted_by_time [OF due])
    show "sorted_wrt earlier ds" using d by (simp add: drained_def)
    show "mset (sort_key tm_timestamp ?due) = mset ds" using d xs(1) by (simp add: drained_def)
    have "distinct (map tm_ord ?due)" using due by (simp add: strict_sorted_iff)
    moreover have "mset (map tm_ord (sort_key tm_timestamp ?due)) = mset (map tm_ord ?due)" by simp
    ultimately show "distinct (map tm_ord (sort_key tm_timestamp ?due))" using mset_eq_imp_distinct_iff by blast
  qed
  then have "map f ds = sort_key fst (map f ?due)" using sort_key_mapped [of f fst ?due] by (simp add: f_def)
  also have "map f ?due = filter (\<lambda>(t, e). t \<le> now) es"
    using xs(2) by (auto simp: f_def filter_map comp_def)
  finally have "map snd (map f ds) = map snd (sort_key fst (filter (\<lambda>(t, e). t \<le> now) es))" by simp
  then show ?thesis using 1 by (simp add: f_def comp_def)
qed

lemma holds_goto:
  assumes contract: "heap_contract ops items" and h: "holds_clock items inc c (now0, es)"
  shows "\<exists>c' out. drainPastEvents ops (c\<lparr>tc_current := now\<rparr>) = Some (c', out) \<and>
    holds_clock items inc c' (fst (clock_goto now (now0, es))) \<and> out = snd (clock_goto now (now0, es))"
proof -
  from drain_returns [OF contract, of "c\<lparr>tc_current := now\<rparr>"] obtain heap ds where
    "drainPastEvents ops (c\<lparr>tc_current := now\<rparr>) = Some (c\<lparr>tc_current := now, tc_timeHeap := heap\<rparr>, map tm_event ds)"
    "drained items (tc_timeHeap c) now heap ds" by auto
  with holds_drained [OF h this(2)] show ?thesis by (simp add: clock_goto_def)
qed

lemma control_step_spec:
  assumes contract: "heap_contract ops items" and h: "holds_clock items inc c clock"
  shows "\<exists>c' out. control_step ops op c = Some (c', out) \<and> holds_clock items inc c' (fst (clock_spec inc op clock)) \<and>
    out = snd (clock_spec inc op clock)"
proof -
  obtain now es where clock: "clock = (now, es)" by (cases clock)
  have now: "tc_current c = now" "tc_increment c = inc" using h by (simp_all add: clock holds_clock_def)
  note goto = holds_goto [OF contract h [unfolded clock]]
  show ?thesis
  proof (cases op)
    case (AddOne t e)
    then show ?thesis using holds_added_one [OF contract h [unfolded clock]] by (simp add: clock)
  next
    case (AddAll es')
    then show ?thesis using holds_added [OF contract h [unfolded clock]] by (simp add: clock)
  next
    case (AddNext e)
    then show ?thesis using holds_added_one [OF contract h [unfolded clock]]
      by (simp add: clock addEventAtNextTick_def nextTick_def now)
  next
    case (TickBy n)
    then show ?thesis using goto [of "now + inc * n"] by (auto simp: clock tick_def now)
  next
    case (TickUntil goal)
    have "now + inc * ((goal - now) div inc) = goal - (goal - now) mod inc"
      using div_mult_mod_eq [of "goal - now" inc] by (simp add: algebra_simps)
    moreover have "c\<lparr>tc_current := now\<rparr> = c" using now by simp
    with goto [of now] have "\<exists>c' out. drainPastEvents ops c = Some (c', out) \<and>
        holds_clock items inc c' (fst (clock_goto now (now, es))) \<and> out = snd (clock_goto now (now, es))" by (simp only:)
    ultimately show ?thesis
      using TickUntil goto [of "now + inc * ((goal - now) div inc)"]
      by (cases "goal < now") (auto simp: clock tickUntil_def tick_def now)
  next
    case Drain
    have "c\<lparr>tc_current := now\<rparr> = c" using now by simp
    then show ?thesis using Drain goto [of now] by (auto simp: clock)
  qed
qed

lemma holds_new:
  assumes "heap_contract ops items"
  shows "holds_clock items inc (TimeController ops initialEvents (Some now) (Some inc)) (now, initialEvents)"
  using assms number_events_back [of 0 initialEvents] sorted_ord_number_events [of 0 initialEvents]
  by (auto simp: holds_clock_def TimeController_def heap_contract_def dest: ord_number_events
      intro!: exI [of _ "number_events 0 initialEvents"])


text \<open>
  Going from event to event is ticking. With the default increment of 1 the
  generator ends, at the same time as one tick of all its steps and with the same events in the
  same order; no group of events but the last is empty.
\<close>

theorem incremental_ticks_agree:
  assumes contract: "heap_contract ops items" and n: "numbered items c" and inc: "tc_increment c = 1" and pos: "0 < n"
  shows "\<exists>c1 c2 groups. tickIncremental ops (\<lambda>_ c. c) n c = Some (c1, groups) \<and> tick ops n c = Some (c2, concat groups) \<and>
    tc_current c1 = tc_current c + n \<and> tc_current c2 = tc_current c + n \<and> items (tc_timeHeap c1) = items (tc_timeHeap c2) \<and>
    list_all (\<lambda>es. es \<noteq> []) (butlast groups)"
proof -
  from groups_return [OF contract inc, of "tc_current c + n"] pos obtain h1 dss where
    g: "tick_groups ops (\<lambda>_ c. c) (tc_current c + n) c = Some (c\<lparr>tc_current := tc_current c + n, tc_timeHeap := h1\<rparr>, map (map tm_event) dss)"
      "drained items (tc_timeHeap c) (tc_current c + n) h1 (concat dss)" "list_all (\<lambda>ds. ds \<noteq> []) (butlast dss)" by auto
  from tick_returns [OF contract, of n c] inc obtain h2 ds where
    t: "tick ops n c = Some (c\<lparr>tc_current := tc_current c + n, tc_timeHeap := h2\<rparr>, map tm_event ds)"
      "drained items (tc_timeHeap c) (tc_current c + n) h2 ds" by auto
  from drained_once [OF n g(2) t(2)] g t show ?thesis
    by (auto simp: tickIncremental_def inc map_concat list_all_iff map_butlast [symmetric]
        intro!: exI [of _ "map (map tm_event) dss"])
qed

text \<open>
  With an increment larger than 1 the generator never ends when the next event lies
  between two ticks: it goes to the tick before the event, over and over.
\<close>

theorem event_between_ticks_never_passed:
  assumes "hp_peek ops (tc_timeHeap c) = Some e" and "tc_current c < tm_timestamp e"
    and "tm_timestamp e < tc_current c + tc_increment c" and "tm_timestamp e < tc_current c + tc_increment c * n"
  shows "tickIncremental ops (\<lambda>_ c. c) n c = None"
proof -
  define goal where "goal = tc_current c + tc_increment c * n"
  have "(tm_timestamp e - tc_current c) div tc_increment c = 0" using assms(2,3) by (simp add: div_pos_pos_trivial)
  then have until: "tickUntil ops (tm_timestamp e) c = Some (c, [])"
    using assms(1,2) by (simp add: tickUntil_def tick_def drainPastEvents.simps [of ops c] hasCurrentOrPastEvents_def)
  have "tick_groups ops (\<lambda>_ c. c) goal c =
      Option.bind (tick_groups ops (\<lambda>_ c. c) goal c) (\<lambda>(c', ess). Some (c', [] # ess))"
    using tick_groups_unfold [of c goal ops "tm_timestamp e" "\<lambda>_ c. c"] assms until by (simp add: goal_def nextEventTick_def)
  then have "tick_groups ops (\<lambda>_ c. c) goal c = None"
    by (cases "tick_groups ops (\<lambda>_ c. c) goal c") auto
  then show ?thesis unfolding tickIncremental_def goal_def [symmetric] .
qed


section \<open>A heap, for examples\<close>

fun least :: "'e timed list \<Rightarrow> 'e timed option" where
  "least [] = None"
| "least (x # xs) = (case least xs of None \<Rightarrow> Some x | Some y \<Rightarrow> Some (if time_order x y \<le> 0 then x else y))"

definition list_heap :: "('e timed list, 'e) heap_ops" where
  "list_heap =
     \<lparr>hp_init = (\<lambda>es. es), hp_add = (\<lambda>e h. e # h), hp_addAll = (\<lambda>es h. es @ h), hp_peek = least,
      hp_pop = (\<lambda>h. map_option (\<lambda>e. (e, remove1 e h)) (least h)), hp_toArray = (\<lambda>h. h), hp_clear = (\<lambda>h. [])\<rparr>"

lemma least_None: "least h = None \<longleftrightarrow> h = []"
  by (cases h) (auto split: option.splits)

lemma least_Some: "least h = Some e \<Longrightarrow> e \<in> set h \<and> (\<forall>x \<in> set h. earlier e x)"
proof (induction h arbitrary: e)
  case (Cons x h)
  show ?case
  proof (cases "least h")
    case None
    then show ?thesis using Cons.prems by (auto simp: least_None earlier_iff)
  next
    case (Some y)
    with Cons show ?thesis by (fastforce simp: earlier_def [symmetric] earlier_iff split: if_splits)
  qed
qed simp

lemma list_heap_contract: "heap_contract list_heap mset"
  using least_Some by (fastforce simp: heap_contract_def list_heap_def least_None earlier_def)


lemma incremental_ticks_agree_witness:
  "\<exists>c1 c2 groups. tickIncremental list_heap (\<lambda>_ c. c) 5 (TimeController list_heap [(3, ''a''), (2, ''b'')] None None) = Some (c1, groups) \<and>
    tick list_heap 5 (TimeController list_heap [(3, ''a''), (2, ''b'')] None None) = Some (c2, concat groups)"
proof -
  have "numbered mset (TimeController list_heap [(3, ''a''), (2, ''b'')] None None)"
    by (auto simp: numbered_def TimeController_def list_heap_def
        intro!: exI [of _ "number_events 0 [(3, ''a''), (2, ''b'')]"])
  moreover have "tc_increment (TimeController list_heap [(3, ''a''), (2, ''b'')] None None) = 1"
    by (simp add: TimeController_def)
  ultimately have "\<exists>c1 c2 groups. tickIncremental list_heap (\<lambda>_ c. c) 5 (TimeController list_heap [(3, ''a''), (2, ''b'')] None None) = Some (c1, groups) \<and>
      tick list_heap 5 (TimeController list_heap [(3, ''a''), (2, ''b'')] None None) = Some (c2, concat groups) \<and>
      tc_current c1 = tc_current (TimeController list_heap [(3, ''a''), (2, ''b'')] None None) + 5 \<and>
      tc_current c2 = tc_current (TimeController list_heap [(3, ''a''), (2, ''b'')] None None) + 5 \<and>
      mset (tc_timeHeap c1) = mset (tc_timeHeap c2) \<and> list_all (\<lambda>es. es \<noteq> []) (butlast groups)"
    by (intro incremental_ticks_agree [OF list_heap_contract]) simp_all
  then show ?thesis by blast
qed

lemma event_between_ticks_never_passed_witness:
  "tickIncremental list_heap (\<lambda>_ c. c) 2 (TimeController list_heap [(3, ''a'')] (Some 0) (Some 10)) = None"
  by (rule event_between_ticks_never_passed [where e = "\<lparr>tm_timestamp = 3, tm_event = ''a'', tm_ord = 0\<rparr>"])
    (simp_all add: TimeController_def list_heap_def)

end
