(* ===== verification/LocalQueues.thy ===== *)
theory LocalQueues
  imports EntityKeys Calls Schedules
begin

text \<open>
  core-runtime/src/local/clients/queue-client.ts: the queues of the local runtime, with the part of
  local/local-environment.ts and handlers/queue-handler-worker.ts that polls them. What is received
  is characterised by \<open>deliverable\<close>; runs of a queue are \<open>queue_run\<close>. The ids a message gets
  (\<open>ulid\<close>), the current time and the user's handlers are arguments. Times are milliseconds.
\<close>

section \<open>State\<close>

record queue_spec =
  qs_name :: string
  qs_fifo :: bool
  qs_visibilityTimeout :: "duration_schedule option"
  qs_delay :: "duration_schedule option"

record queue_message =
  qm_id :: string
  qm_receiptHandle :: string
  qm_sequenceNumber :: string
  qm_message :: js
  qm_messageDeduplicationId :: js
  qm_messageGroupId :: js
  qm_sent :: int
  qm_receiveCount :: nat

text \<open>What the queue asks of the local runtime: to be polled at once or at a time.\<close>

datatype queue_poll = PollNow | PollAt int

record local_queue =
  lq_queue :: "queue_spec option"
  lq_messages :: "queue_message list"
  lq_visibility :: "(string, int) omap"
  lq_polls :: "queue_poll list"

definition new_queue :: "queue_spec option \<Rightarrow> local_queue" where
  "new_queue q = \<lparr>lq_queue = q, lq_messages = [], lq_visibility = [], lq_polls = []\<rparr>"

definition DEFAULT_QUEUE_VISIBILITY_TIMEOUT :: duration_schedule where
  "DEFAULT_QUEUE_VISIBILITY_TIMEOUT = \<lparr>dur = 30, unit = Seconds\<rparr>"

definition undefined_queue :: "string \<Rightarrow> js" where
  "undefined_queue p = mk_TypeError (''Cannot read properties of undefined (reading '' @ p @ '')'')"

definition poll :: "queue_poll \<Rightarrow> local_queue \<Rightarrow> local_queue" where
  "poll p q = q\<lparr>lq_polls := lq_polls q @ [p]\<rparr>"

section \<open>Receiving\<close>

record receive_request =
  rr_maxMessages :: "nat option"
  rr_visibilityTimeout :: "duration_schedule option"

text \<open>
  \<open>request?.maxMessages ?? this.queue.fifo ? 10 : 1000\<close>, in which \<open>??\<close> binds stronger than the
  conditional.
\<close>

definition max_messages :: "nat option \<Rightarrow> bool \<Rightarrow> nat" where
  "max_messages maxMessages fifo =
     (if (case maxMessages of Some n \<Rightarrow> n \<noteq> 0 | None \<Rightarrow> fifo) then 10 else 1000)"

definition visible :: "int \<Rightarrow> (string, int) omap \<Rightarrow> queue_message \<Rightarrow> bool" where
  "visible now visibility m = (case om_get visibility (qm_receiptHandle m) of None \<Rightarrow> True | Some t \<Rightarrow> t < now)"

definition group_of :: "queue_message \<Rightarrow> string option" where
  "group_of m = (if truthy (qm_messageGroupId m) then Some (js_to_string (qm_messageGroupId m)) else None)"

fun receive_loop ::
  "int \<Rightarrow> int \<Rightarrow> nat \<Rightarrow> (string, bool) omap \<Rightarrow> (string, int) omap \<Rightarrow> queue_message list \<Rightarrow>
   queue_message list \<times> (string, int) omap \<times> queue_message list" where
  "receive_loop now visibilityTime room taken visibility [] = ([], visibility, [])"
| "receive_loop now visibilityTime room taken visibility (m # ms) =
     (if room = 0 then (m # ms, visibility, [])
      else if case group_of m of None \<Rightarrow> True | Some g \<Rightarrow> the_default True (om_get taken g)
      then (if visible now visibility m
        then (let m' = m\<lparr>qm_receiveCount := Suc (qm_receiveCount m)\<rparr>;
                  taken' = (case group_of m of None \<Rightarrow> taken | Some g \<Rightarrow> om_set g True taken)
              in case receive_loop now visibilityTime (room - 1) taken' (om_set (qm_id m) visibilityTime visibility) ms of
                   (ms', visibility', received) \<Rightarrow> (m' # ms', visibility', m' # received))
        else (case receive_loop now visibilityTime room
                     (case group_of m of None \<Rightarrow> taken | Some g \<Rightarrow> om_set g False taken) visibility ms of
                (ms', visibility', received) \<Rightarrow> (m # ms', visibility', received)))
      else (case receive_loop now visibilityTime room taken visibility ms of
              (ms', visibility', received) \<Rightarrow> (m # ms', visibility', received)))"

definition taken_messages ::
  "queue_spec option \<Rightarrow> duration_schedule \<Rightarrow> nat \<Rightarrow> int \<Rightarrow> (local_queue, queue_message list) act" where
  "taken_messages spec timeout maxMessages now q =
     (let visibilityTime = computeScheduleDate (Duration timeout) now
      in case receive_loop now visibilityTime maxMessages [] (lq_visibility q) (lq_messages q) of
           (ms, visibility, received) \<Rightarrow>
             (let q' = q\<lparr>lq_messages := ms, lq_visibility := visibility\<rparr>
              in case spec of
                   None \<Rightarrow> (q', Inl (undefined_queue ''name''))
                 | Some _ \<Rightarrow> (poll (PollAt visibilityTime) q', Inr received)))"

definition queue_receiveMessages :: "receive_request option \<Rightarrow> int \<Rightarrow> (local_queue, queue_message list) act" where
  "queue_receiveMessages request now q =
     (case (Option.bind request rr_visibilityTimeout, lq_queue q) of
        (None, None) \<Rightarrow> (q, Inl (undefined_queue ''visibilityTimeout''))
      | (requested, spec) \<Rightarrow>
          (let timeout = (case requested of
                 Some d \<Rightarrow> d
               | None \<Rightarrow> the_default DEFAULT_QUEUE_VISIBILITY_TIMEOUT (Option.bind spec qs_visibilityTimeout))
           in case (Option.bind request rr_maxMessages, spec) of
                (None, None) \<Rightarrow> (q, Inl (undefined_queue ''fifo''))
              | (m, None) \<Rightarrow> taken_messages None timeout (max_messages m False) now q
              | (m, Some s) \<Rightarrow> taken_messages (Some s) timeout (max_messages m (qs_fifo s)) now q))"

section \<open>Sending and deleting\<close>

text \<open>
  \<open>computeScheduleDate(delay, operation.message)\<close> takes the message for a date: a delay is a
  duration, so that the time of the message is asked for, and a message has none.
\<close>

definition date_of_message :: "js \<Rightarrow> js + int" where
  "date_of_message m =
     Inl (if m = JUndef then mk_TypeError ''Cannot read properties of undefined (reading 'getTime')''
          else if m = JNull then mk_TypeError ''Cannot read properties of null (reading 'getTime')''
          else mk_TypeError ''baseTime.getTime is not a function'')"

definition queue_sendMessage :: "string \<Rightarrow> int \<Rightarrow> bool \<Rightarrow> queue_payload \<Rightarrow> (local_queue, unit) act" where
  "queue_sendMessage newId now fifo operation q =
     (let dedup = (if fifo then the_default JUndef (qp_messageDeduplicationId operation) else JUndef);
          message = \<lparr>qm_id = newId, qm_receiptHandle = newId, qm_sequenceNumber = newId, qm_message = qp_message operation,
            qm_messageDeduplicationId = dedup, qm_messageGroupId = dedup, qm_sent = now, qm_receiveCount = 0\<rparr>;
          q' = q\<lparr>lq_messages := lq_messages q @ [message]\<rparr>;
          send = (\<lambda>delay. case delay of
              None \<Rightarrow> (poll PollNow q', Inr ())
            | Some d \<Rightarrow>
                (case date_of_message (qp_message operation) of
                   Inl err \<Rightarrow> (q', Inl err)
                 | Inr t \<Rightarrow>
                     (let visibilityTime = computeScheduleDate (Duration d) t
                      in (poll (PollAt visibilityTime)
                            (q'\<lparr>lq_visibility := om_set (js_to_string (js_get (qp_message operation) ''id'')) visibilityTime (lq_visibility q')\<rparr>),
                          Inr ()))))
      in case qp_delay operation of
           Some d \<Rightarrow> send (Some d)
         | None \<Rightarrow>
             (case lq_queue q of
                None \<Rightarrow> (q', Inl (undefined_queue ''delay''))
              | Some spec \<Rightarrow> send (qs_delay spec)))"

definition queue_changeMessageVisibility :: "string \<Rightarrow> duration_schedule \<Rightarrow> int \<Rightarrow> local_queue \<Rightarrow> local_queue" where
  "queue_changeMessageVisibility receiptHandle timeout now q =
     q\<lparr>lq_visibility := om_set receiptHandle (computeScheduleDate (Duration timeout) now) (lq_visibility q)\<rparr>"

text \<open>\<open>findIndex\<close> gives -1 when there is no such message, and \<open>splice(-1, 1)\<close> removes the last one.\<close>

definition queue_deleteMessage :: "string \<Rightarrow> local_queue \<Rightarrow> local_queue" where
  "queue_deleteMessage receiptHandle q =
     q\<lparr>lq_messages := (case find_index (\<lambda>m. qm_receiptHandle m = receiptHandle) (lq_messages q) of
           Some i \<Rightarrow> take i (lq_messages q) @ drop (Suc i) (lq_messages q)
         | None \<Rightarrow> butlast (lq_messages q)),
       lq_visibility := om_del receiptHandle (lq_visibility q)\<rparr>"

section \<open>The client of all queues\<close>

type_synonym queue_client = "(string, local_queue) omap"

type_synonym queue_provider = "string \<Rightarrow> queue_spec option"

definition client_receiveMessages :: "string \<Rightarrow> receive_request option \<Rightarrow> int \<Rightarrow> (queue_client, queue_message list) act" where
  "client_receiveMessages queueName request now c =
     (case om_get c queueName of
        None \<Rightarrow> (c, Inr [])
      | Some q \<Rightarrow> (case queue_receiveMessages request now q of (q', r) \<Rightarrow> (om_set queueName q' c, r)))"

definition client_queue :: "queue_provider \<Rightarrow> string \<Rightarrow> queue_client \<Rightarrow> local_queue" where
  "client_queue provider queueName c = the_default (new_queue (provider queueName)) (om_get c queueName)"

definition client_sendMessage :: "queue_provider \<Rightarrow> string \<Rightarrow> int \<Rightarrow> string \<Rightarrow> bool \<Rightarrow> queue_payload \<Rightarrow> (queue_client, unit) act" where
  "client_sendMessage provider newId now queueName fifo operation c =
     (case queue_sendMessage newId now fifo operation (client_queue provider queueName c) of
        (q, r) \<Rightarrow> (om_set queueName q c, r))"

text \<open>\<open>Promise.all\<close>: every message is sent; the first error, if any, is the result.\<close>

fun send_all :: "string list \<Rightarrow> int \<Rightarrow> bool \<Rightarrow> queue_payload list \<Rightarrow> (local_queue, unit) act" where
  "send_all (newId # ids) now fifo (m # ms) q =
     (case queue_sendMessage newId now fifo m q of
        (q', r) \<Rightarrow>
          (case send_all ids now fifo ms q' of
             (q'', r') \<Rightarrow> (q'', case r of Inl err \<Rightarrow> Inl err | Inr _ \<Rightarrow> r')))"
| "send_all ids now fifo ms q = (q, Inr ())"

definition client_sendMessageBatch ::
  "queue_provider \<Rightarrow> string list \<Rightarrow> int \<Rightarrow> string \<Rightarrow> bool \<Rightarrow> (string \<times> queue_payload) list \<Rightarrow> (queue_client, unit) act" where
  "client_sendMessageBatch provider ids now queueName fifo entries c =
     (case send_all ids now fifo (map snd entries) (client_queue provider queueName c) of
        (q, r) \<Rightarrow> (om_set queueName q c, r))"

definition client_update :: "string \<Rightarrow> (local_queue \<Rightarrow> local_queue) \<Rightarrow> queue_client \<Rightarrow> queue_client" where
  "client_update queueName f c = (case om_get c queueName of None \<Rightarrow> c | Some q \<Rightarrow> om_set queueName (f q) c)"

definition client_changeMessageVisibility :: "string \<Rightarrow> string \<Rightarrow> duration_schedule \<Rightarrow> int \<Rightarrow> queue_client \<Rightarrow> queue_client" where
  "client_changeMessageVisibility queueName receiptHandle timeout now =
     client_update queueName (queue_changeMessageVisibility receiptHandle timeout now)"

definition client_deleteMessage :: "string \<Rightarrow> string \<Rightarrow> queue_client \<Rightarrow> queue_client" where
  "client_deleteMessage queueName receiptHandle = client_update queueName (queue_deleteMessage receiptHandle)"

definition client_deleteMessageBatch :: "string \<Rightarrow> string list \<Rightarrow> queue_client \<Rightarrow> queue_client" where
  "client_deleteMessageBatch queueName receiptHandles c =
     fold (client_deleteMessage queueName) receiptHandles c"

section \<open>Persistence\<close>

text \<open>A message with its visibility; it is copied by JSON, times as numbers.\<close>

record serialized_message =
  sm_message :: queue_message
  sm_visibility :: "int option"

definition json_message :: "queue_message \<Rightarrow> queue_message" where
  "json_message m =
     m\<lparr>qm_message := json_copy (qm_message m), qm_messageDeduplicationId := json_copy (qm_messageDeduplicationId m),
       qm_messageGroupId := json_copy (qm_messageGroupId m)\<rparr>"

definition queue_serialize :: "local_queue \<Rightarrow> serialized_message list" where
  "queue_serialize q =
     map (\<lambda>m. \<lparr>sm_message = json_message m, sm_visibility = om_get (lq_visibility q) (qm_id m)\<rparr>) (lq_messages q)"

definition queue_fromSerializedData :: "queue_spec option \<Rightarrow> serialized_message list option \<Rightarrow> local_queue" where
  "queue_fromSerializedData spec d =
     (case d of
        None \<Rightarrow> new_queue spec
      | Some stored \<Rightarrow>
          (new_queue spec)\<lparr>lq_messages := map sm_message stored,
            lq_visibility := fold (\<lambda>s v. case sm_visibility s of
                Some t \<Rightarrow> if t \<noteq> 0 then om_set (qm_id (sm_message s)) t v else v
              | None \<Rightarrow> v) stored []\<rparr>)"

text \<open>The queues are a \<open>Map\<close>, of which \<open>Object.entries\<close> has no entries.\<close>

definition client_serialize :: "queue_client \<Rightarrow> (string \<times> serialized_message list) list" where
  "client_serialize c = []"

definition client_fromSerializedData ::
  "queue_provider \<Rightarrow> (string \<times> serialized_message list) list option \<Rightarrow> queue_client" where
  "client_fromSerializedData provider d =
     (case d of
        None \<Rightarrow> []
      | Some entries \<Rightarrow>
          fold (\<lambda>(name, s) c. case provider name of
              None \<Rightarrow> c
            | Some spec \<Rightarrow> om_set name (queue_fromSerializedData (Some spec) (Some s)) c) entries [])"

section \<open>Handling a poll\<close>

text \<open>
  The worker of the queues: the user's handler gets the messages and may return the ids of messages
  that failed, or throw.
\<close>

definition queueHandlerWorker ::
  "(string \<Rightarrow> (queue_message list \<Rightarrow> js + string list option) option) \<Rightarrow> string \<Rightarrow> queue_message list \<Rightarrow>
   js + string list option" where
  "queueHandlerWorker handlers queueName items =
     (case handlers queueName of
        None \<Rightarrow> Inl (mk_Error (''Queue '' @ queueName @ '' does not exist''))
      | Some handler \<Rightarrow>
          (case handler items of
             Inl err \<Rightarrow> Inl err
           | Inr (Some failed) \<Rightarrow> Inr (if length failed > 0 then Some failed else None)
           | Inr None \<Rightarrow> Inr None))"

text \<open>
  The end of \<open>processEvents\<close> of the local environment, for one polled queue: an error ends the
  processing of this queue.
\<close>

definition handle_poll ::
  "(string \<Rightarrow> (queue_message list \<Rightarrow> js + string list option) option) \<Rightarrow> string \<Rightarrow> int \<Rightarrow>
   queue_client \<Rightarrow> queue_client" where
  "handle_poll handlers queueName now c =
     (case client_receiveMessages queueName None now c of
        (c', Inl err) \<Rightarrow> c'
      | (c', Inr messages) \<Rightarrow>
          (case queueHandlerWorker handlers queueName messages of
             Inl err \<Rightarrow> c'
           | Inr result \<Rightarrow>
               (let messagesToDelete = (case result of
                      Some failedMessageIds \<Rightarrow> filter (\<lambda>m. qm_id m \<in> set failedMessageIds) messages
                    | None \<Rightarrow> messages)
                in fold (\<lambda>m. client_deleteMessage queueName (qm_receiptHandle m)) messagesToDelete c')))"

section \<open>Which messages are received\<close>

definition bump :: "queue_message \<Rightarrow> queue_message" where
  "bump m = m\<lparr>qm_receiveCount := Suc (qm_receiveCount m)\<rparr>"

lemma bump_simps [simp]: "qm_id (bump m) = qm_id m" "qm_receiptHandle (bump m) = qm_receiptHandle m" "group_of (bump m) = group_of m"
  by (simp_all add: bump_def group_of_def)

text \<open>
  A message can be delivered when it is visible and so is every earlier message of its group;
  \<open>seen\<close> are the messages before those of the list.
\<close>

fun deliverable :: "int \<Rightarrow> (string, int) omap \<Rightarrow> queue_message list \<Rightarrow> queue_message list \<Rightarrow> queue_message list" where
  "deliverable now visibility seen [] = []"
| "deliverable now visibility seen (m # ms) =
     (if visible now visibility m \<and>
         list_all (\<lambda>m'. group_of m' \<noteq> None \<longrightarrow> group_of m' = group_of m \<longrightarrow> visible now visibility m') seen
      then m # deliverable now visibility (m # seen) ms
      else deliverable now visibility (m # seen) ms)"

lemma deliverable_subset: "set (deliverable now v seen ms) \<subseteq> {m \<in> set ms. visible now v m}"
  by (induction now v seen ms rule: deliverable.induct) auto

definition queue_wf :: "local_queue \<Rightarrow> bool" where
  "queue_wf q \<longleftrightarrow> distinct (map qm_id (lq_messages q)) \<and> list_all (\<lambda>m. qm_receiptHandle m = qm_id m) (lq_messages q)"

definition blocks :: "int \<Rightarrow> (string, int) omap \<Rightarrow> queue_message list \<Rightarrow> (string, bool) omap \<Rightarrow> bool" where
  "blocks now v seen taken \<longleftrightarrow>
     (\<forall>g. om_get taken g = Some False \<longleftrightarrow> (\<exists>m \<in> set seen. group_of m = Some g \<and> \<not> visible now v m))"

lemma receive_loop_spec:
  assumes "distinct (map qm_id ms)" and "list_all (\<lambda>m. qm_receiptHandle m = qm_id m) ms"
    and "list_all (\<lambda>m. om_get visibility (qm_id m) = om_get v (qm_id m)) ms" and "blocks now v seen taken"
    and "receive_loop now T room taken visibility ms = (ms', visibility', received)"
  shows "received = map bump (take room (deliverable now v seen ms)) \<and>
    ms' = map (\<lambda>m. if m \<in> set (take room (deliverable now v seen ms)) then bump m else m) ms \<and>
    (\<forall>k. om_get visibility' k = (if k \<in> qm_id ` set received then Some T else om_get visibility k))"
  using assms
proof (induction ms arbitrary: room taken visibility seen ms' visibility' received)
  case Nil
  then show ?case by simp
next
  case (Cons m ms)
  show ?case
  proof (cases "room = 0")
    case True
    then show ?thesis using Cons.prems(5) by simp
  next
    case False
    then obtain n where n: "room = Suc n" by (cases room) auto
    have new: "m \<notin> set ms" "qm_id m \<notin> qm_id ` set ms" using Cons.prems(1) by auto
    have vis: "visible now visibility m \<longleftrightarrow> visible now v m"
      using Cons.prems(2,3) by (simp add: visible_def)
    define valid where "valid \<longleftrightarrow> (case group_of m of None \<Rightarrow> True | Some g \<Rightarrow> the_default True (om_get taken g))"
    have valid: "valid \<longleftrightarrow> list_all (\<lambda>m'. group_of m' \<noteq> None \<longrightarrow> group_of m' = group_of m \<longrightarrow> visible now v m') seen"
    proof (cases "group_of m")
      case None
      then show ?thesis by (auto simp: valid_def list_all_iff)
    next
      case (Some g)
      have "valid \<longleftrightarrow> om_get taken g \<noteq> Some False"
        unfolding valid_def Some by (cases "om_get taken g") auto
      also have "\<dots> \<longleftrightarrow> \<not> (\<exists>m \<in> set seen. group_of m = Some g \<and> \<not> visible now v m)"
        using Cons.prems(4) unfolding blocks_def by blast
      finally show ?thesis using Some by (auto simp: list_all_iff)
    qed
    have rest: "distinct (map qm_id ms)" "list_all (\<lambda>m. qm_receiptHandle m = qm_id m) ms"
      "list_all (\<lambda>m. om_get visibility (qm_id m) = om_get v (qm_id m)) ms"
      using Cons.prems(1-3) by simp_all
    show ?thesis
    proof (cases "valid \<and> visible now v m")
      case True
      define taken' where "taken' = (case group_of m of None \<Rightarrow> taken | Some g \<Rightarrow> om_set g True taken)"
      obtain ms1 v1 received1 where loop: "receive_loop now T n taken' (om_set (qm_id m) T visibility) ms = (ms1, v1, received1)"
        by (metis prod.collapse)
      have result: "ms' = bump m # ms1" "visibility' = v1" "received = bump m # received1"
        using Cons.prems(5) True vis n loop by (auto simp: valid_def [symmetric] taken'_def [symmetric] bump_def Let_def)
      have "blocks now v (m # seen) taken'"
        using Cons.prems(4) True valid unfolding blocks_def taken'_def list_all_iff
        by (cases "group_of m") (auto simp: om_get_set)
      moreover have "list_all (\<lambda>m'. om_get (om_set (qm_id m) T visibility) (qm_id m') = om_get v (qm_id m')) ms"
        using rest(3) new(2) by (auto simp: list_all_iff om_get_set image_iff)
      ultimately have IH: "received1 = map bump (take n (deliverable now v (m # seen) ms)) \<and>
          ms1 = map (\<lambda>m'. if m' \<in> set (take n (deliverable now v (m # seen) ms)) then bump m' else m') ms \<and>
          (\<forall>k. om_get v1 k = (if k \<in> qm_id ` set received1 then Some T else om_get (om_set (qm_id m) T visibility) k))"
        using Cons.IH rest(1,2) loop by blast
      have deliver: "deliverable now v seen (m # ms) = m # deliverable now v (m # seen) ms" using True valid by simp
      have "map (\<lambda>m'. if m' \<in> set (take n (deliverable now v (m # seen) ms)) then bump m' else m') ms =
          map (\<lambda>m'. if m' \<in> set (take room (deliverable now v seen (m # ms))) then bump m' else m') ms"
        using new(1) by (auto simp: deliver n simp del: deliverable.simps)
      then show ?thesis using IH result by (auto simp: deliver n om_get_set simp del: deliverable.simps)
    next
      case no: False
      define taken' where "taken' = (if valid then case group_of m of None \<Rightarrow> taken | Some g \<Rightarrow> om_set g False taken else taken)"
      obtain ms1 v1 received1 where loop: "receive_loop now T room taken' visibility ms = (ms1, v1, received1)"
        by (metis prod.collapse)
      have result: "ms' = m # ms1" "visibility' = v1" "received = received1"
        using Cons.prems(5) no vis n loop by (auto simp: valid_def [symmetric] taken'_def split: if_splits)
      have "blocks now v (m # seen) taken'"
      proof (cases valid)
        case True
        then have "\<not> visible now v m" using no by simp
        then show ?thesis using Cons.prems(4) True unfolding blocks_def taken'_def
          by (cases "group_of m") (auto simp: om_get_set)
      next
        case False
        then obtain g where "group_of m = Some g" "om_get taken g = Some False"
          by (auto simp: valid_def the_default_def split: option.splits)
        then show ?thesis using Cons.prems(4) False unfolding blocks_def taken'_def by auto
      qed
      then have IH: "received1 = map bump (take room (deliverable now v (m # seen) ms)) \<and>
          ms1 = map (\<lambda>m'. if m' \<in> set (take room (deliverable now v (m # seen) ms)) then bump m' else m') ms \<and>
          (\<forall>k. om_get v1 k = (if k \<in> qm_id ` set received1 then Some T else om_get visibility k))"
        using Cons.IH rest loop by blast
      have deliver: "deliverable now v seen (m # ms) = deliverable now v (m # seen) ms"
        using no valid by auto
      have "m \<notin> set (take room (deliverable now v (m # seen) ms))"
        using new(1) deliverable_subset set_take_subset by fastforce
      then show ?thesis using IH result by (simp add: deliver del: deliverable.simps)
    qed
  qed
qed


definition visibility_time :: "queue_spec \<Rightarrow> receive_request option \<Rightarrow> int \<Rightarrow> int" where
  "visibility_time spec request now =
     computeScheduleDate (Duration (case Option.bind request rr_visibilityTimeout of
         Some d \<Rightarrow> d
       | None \<Rightarrow> the_default DEFAULT_QUEUE_VISIBILITY_TIMEOUT (qs_visibilityTimeout spec))) now"

definition receivable :: "queue_spec \<Rightarrow> receive_request option \<Rightarrow> int \<Rightarrow> local_queue \<Rightarrow> queue_message list" where
  "receivable spec request now q =
     take (max_messages (Option.bind request rr_maxMessages) (qs_fifo spec))
       (deliverable now (lq_visibility q) [] (lq_messages q))"

lemma receive_spec:
  assumes "queue_wf q" and "lq_queue q = Some spec"
  shows "\<exists>q'. queue_receiveMessages request now q = (q', Inr (map bump (receivable spec request now q))) \<and>
    lq_messages q' = map (\<lambda>m. if m \<in> set (receivable spec request now q) then bump m else m) (lq_messages q) \<and>
    (\<forall>k. om_get (lq_visibility q') k = (if k \<in> qm_id ` set (receivable spec request now q)
       then Some (visibility_time spec request now) else om_get (lq_visibility q) k)) \<and>
    lq_queue q' = lq_queue q \<and> lq_polls q' = lq_polls q @ [PollAt (visibility_time spec request now)]"
proof -
  obtain ms v received where loop: "receive_loop now (visibility_time spec request now)
      (max_messages (Option.bind request rr_maxMessages) (qs_fifo spec)) [] (lq_visibility q) (lq_messages q) = (ms, v, received)"
    by (metis prod.collapse)
  have "blocks now (lq_visibility q) [] []" by (simp add: blocks_def om_get_eq)
  from receive_loop_spec [OF _ _ _ this loop] assms(1) have
    "received = map bump (receivable spec request now q)"
    "ms = map (\<lambda>m. if m \<in> set (receivable spec request now q) then bump m else m) (lq_messages q)"
    "\<forall>k. om_get v k = (if k \<in> qm_id ` set received then Some (visibility_time spec request now) else om_get (lq_visibility q) k)"
    by (simp_all add: queue_wf_def receivable_def list_all_iff)
  moreover from this(1) have "qm_id ` set received = qm_id ` set (receivable spec request now q)" by (simp add: image_image)
  ultimately show ?thesis using loop assms(2)
    by (cases "Option.bind request rr_visibilityTimeout"; cases "Option.bind request rr_maxMessages")
      (auto simp: queue_receiveMessages_def taken_messages_def visibility_time_def Let_def poll_def)
qed

lemma receive_wf:
  assumes "queue_wf q" and "lq_queue q = Some spec" and "queue_receiveMessages request now q = (q', r)"
  shows "queue_wf q'" and "map qm_id (lq_messages q') = map qm_id (lq_messages q)"
proof -
  from receive_spec [OF assms(1,2), of request now] assms(3) have
    "lq_messages q' = map (\<lambda>m. if m \<in> set (receivable spec request now q) then bump m else m) (lq_messages q)" by auto
  then show "queue_wf q'" and "map qm_id (lq_messages q') = map qm_id (lq_messages q)"
    using assms(1) by (auto simp: queue_wf_def list_all_iff comp_def if_distrib cong: if_cong)
qed

lemma send_spec:
  assumes "queue_sendMessage newId now fifo operation q = (q', r)"
  shows "\<exists>m. lq_messages q' = lq_messages q @ [m] \<and> qm_id m = newId \<and> qm_receiptHandle m = newId \<and>
      qm_message m = qp_message operation \<and> qm_receiveCount m = 0 \<and>
      qm_messageGroupId m = (if fifo then the_default JUndef (qp_messageDeduplicationId operation) else JUndef)"
    and "lq_visibility q' = lq_visibility q" and "lq_queue q' = lq_queue q"
  using assms by (auto simp: queue_sendMessage_def Let_def date_of_message_def poll_def split: option.splits)

lemma distinct_without: "distinct (xs @ x # ys) \<Longrightarrow> filter (\<lambda>y. y \<noteq> x) xs @ filter (\<lambda>y. y \<noteq> x) ys = xs @ ys"
proof -
  assume "distinct (xs @ x # ys)"
  then have "\<forall>y \<in> set xs. y \<noteq> x" "\<forall>y \<in> set ys. y \<noteq> x" by auto
  then show ?thesis by simp
qed

lemma delete_ids:
  assumes "queue_wf q"
  shows "queue_wf (queue_deleteMessage h q)"
    and "h \<in> qm_id ` set (lq_messages q) \<Longrightarrow>
      map qm_id (lq_messages (queue_deleteMessage h q)) = filter (\<lambda>i. i \<noteq> h) (map qm_id (lq_messages q))"
    and "set (map qm_id (lq_messages (queue_deleteMessage h q))) \<subseteq> set (map qm_id (lq_messages q)) - {h}"
proof -
  have "queue_wf (queue_deleteMessage h q) \<and> (h \<in> qm_id ` set (lq_messages q) \<longrightarrow>
      map qm_id (lq_messages (queue_deleteMessage h q)) = filter (\<lambda>i. i \<noteq> h) (map qm_id (lq_messages q))) \<and>
    set (map qm_id (lq_messages (queue_deleteMessage h q))) \<subseteq> set (map qm_id (lq_messages q)) - {h}"
  proof (cases "find_index (\<lambda>m. qm_receiptHandle m = h) (lq_messages q)")
    case None
    then have none: "h \<notin> qm_id ` set (lq_messages q)"
      using assms by (auto simp: find_index_None queue_wf_def list_all_iff)
    have sub: "set (butlast (lq_messages q)) \<subseteq> set (lq_messages q)" by (auto dest: in_set_butlastD)
    then show ?thesis using None none assms
      by (auto simp: queue_deleteMessage_def queue_wf_def list_all_iff map_butlast distinct_butlast dest: in_set_butlastD)
  next
    case (Some i)
    from find_index_Some [OF Some] have i: "i < length (lq_messages q)" "qm_receiptHandle (lq_messages q ! i) = h" by simp_all
    then obtain before m after where split: "lq_messages q = before @ m # after" and h: "qm_receiptHandle m = h"
      and new: "lq_messages (queue_deleteMessage h q) = before @ after"
      using id_take_nth_drop [OF i(1)] by (auto simp: queue_deleteMessage_def Some)
    have "qm_id m = h" using assms h by (simp add: queue_wf_def split)
    then have "map qm_id (before @ after) = filter (\<lambda>k. k \<noteq> h) (map qm_id (lq_messages q))"
      using assms distinct_without [of "map qm_id before" h "map qm_id after"] by (simp add: queue_wf_def split)
    moreover have "queue_wf (queue_deleteMessage h q)" using assms by (simp add: queue_wf_def split new)
    ultimately show ?thesis by (simp add: new del: map_append) auto
  qed
  then show "queue_wf (queue_deleteMessage h q)"
    and "h \<in> qm_id ` set (lq_messages q) \<Longrightarrow>
      map qm_id (lq_messages (queue_deleteMessage h q)) = filter (\<lambda>i. i \<noteq> h) (map qm_id (lq_messages q))"
    and "set (map qm_id (lq_messages (queue_deleteMessage h q))) \<subseteq> set (map qm_id (lq_messages q)) - {h}" by blast+
qed


section \<open>Runs of a queue\<close>

datatype queue_op =
    Receive "receive_request option" int
  | Send string int bool queue_payload
  | ChangeVisibility string duration_schedule int
  | Delete string

fun queue_step :: "queue_op \<Rightarrow> local_queue \<Rightarrow> local_queue \<times> string list" where
  "queue_step (Receive request now) q =
     (case queue_receiveMessages request now q of
        (q', Inl err) \<Rightarrow> (q', [])
      | (q', Inr messages) \<Rightarrow> (q', map qm_id messages))"
| "queue_step (Send newId now fifo operation) q = (fst (queue_sendMessage newId now fifo operation q), [])"
| "queue_step (ChangeVisibility h timeout now) q = (queue_changeMessageVisibility h timeout now q, [])"
| "queue_step (Delete h) q = (queue_deleteMessage h q, [])"

text \<open>The ids of the messages that a run of operations receives.\<close>

fun queue_run :: "queue_op list \<Rightarrow> local_queue \<Rightarrow> string list" where
  "queue_run [] q = []"
| "queue_run (op # ops) q = snd (queue_step op q) @ queue_run ops (fst (queue_step op q))"

fun sent_id :: "queue_op \<Rightarrow> string option" where
  "sent_id (Send newId now fifo operation) = Some newId"
| "sent_id _ = None"

abbreviation message_ids :: "local_queue \<Rightarrow> string list" where
  "message_ids q \<equiv> map qm_id (lq_messages q)"

text \<open>Until \<open>T\<close> an operation may not make the message \<open>h\<close> visible.\<close>

fun leaves_hidden :: "string \<Rightarrow> int \<Rightarrow> queue_op \<Rightarrow> bool" where
  "leaves_hidden h T (Receive request now) \<longleftrightarrow> now \<le> T"
| "leaves_hidden h T (ChangeVisibility h' timeout now) \<longleftrightarrow> h' \<noteq> h"
| "leaves_hidden h T _ \<longleftrightarrow> True"

definition hidden :: "string \<Rightarrow> int \<Rightarrow> local_queue \<Rightarrow> bool" where
  "hidden h T q \<longleftrightarrow> queue_wf q \<and> lq_queue q \<noteq> None \<and>
     (h \<in> set (message_ids q) \<longrightarrow> (\<exists>t \<ge> T. om_get (lq_visibility q) h = Some t))"

lemma receivable_visible:
  "m \<in> set (receivable spec request now q) \<Longrightarrow> m \<in> set (lq_messages q) \<and> visible now (lq_visibility q) m"
  unfolding receivable_def using deliverable_subset set_take_subset by fastforce

lemma hidden_not_receivable:
  assumes "hidden h T q" and "now \<le> T" and "m \<in> set (receivable spec request now q)"
  shows "qm_id m \<noteq> h"
  using receivable_visible [OF assms(3)] assms(1,2)
  by (auto simp: hidden_def visible_def queue_wf_def list_all_iff split: option.splits)

lemma hidden_step:
  assumes "hidden h T q" and "leaves_hidden h T op" and "sent_id op \<noteq> Some h"
    and "\<forall>i. sent_id op = Some i \<longrightarrow> i \<notin> set (message_ids q)"
  shows "hidden h T (fst (queue_step op q))" and "h \<notin> set (snd (queue_step op q))"
    and "set (message_ids (fst (queue_step op q))) \<subseteq> set (message_ids q) \<union> set_option (sent_id op)"
proof -
  have wf: "queue_wf q" using assms(1) by (simp add: hidden_def)
  obtain spec where spec: "lq_queue q = Some spec" using assms(1) by (auto simp: hidden_def)
  have "hidden h T (fst (queue_step op q)) \<and> h \<notin> set (snd (queue_step op q)) \<and>
    set (message_ids (fst (queue_step op q))) \<subseteq> set (message_ids q) \<union> set_option (sent_id op)"
  proof (cases op)
    case (Receive request now)
    from receive_spec [OF wf spec, of request now] obtain q' where q':
      "queue_receiveMessages request now q = (q', Inr (map bump (receivable spec request now q)))"
      "\<forall>k. om_get (lq_visibility q') k = (if k \<in> qm_id ` set (receivable spec request now q)
         then Some (visibility_time spec request now) else om_get (lq_visibility q) k)" "lq_queue q' = lq_queue q" by blast
    have ids: "queue_wf q'" "message_ids q' = message_ids q" using receive_wf [OF wf spec q'(1)] by simp_all
    have "h \<notin> qm_id ` set (receivable spec request now q)"
      using hidden_not_receivable [OF assms(1), of now _ spec request] assms(2) Receive by auto
    then show ?thesis using Receive q' ids assms(1) by (simp add: hidden_def image_image)
  next
    case (Send newId now fifo operation)
    obtain q' r where q': "queue_sendMessage newId now fifo operation q = (q', r)" by fastforce
    show ?thesis using send_spec [OF q'] q' Send assms spec
      by (auto simp: hidden_def queue_wf_def)
  next
    case (ChangeVisibility h' timeout now)
    then show ?thesis using assms(1,2)
      by (simp add: queue_changeMessageVisibility_def hidden_def queue_wf_def om_get_set)
  next
    case (Delete h')
    have "lq_queue (queue_deleteMessage h' q) = lq_queue q"
      "om_get (lq_visibility (queue_deleteMessage h' q)) = (om_get (lq_visibility q))(h' := None)"
      by (simp_all add: queue_deleteMessage_def om_get_del)
    then show ?thesis using Delete delete_ids(1,3) [OF wf, of h'] assms(1) by (auto simp: hidden_def)
  qed
  then show "hidden h T (fst (queue_step op q))" and "h \<notin> set (snd (queue_step op q))"
    and "set (message_ids (fst (queue_step op q))) \<subseteq> set (message_ids q) \<union> set_option (sent_id op)" by simp_all
qed

lemma hidden_run:
  assumes "hidden h T q" and "list_all (leaves_hidden h T) ops" and "h \<notin> set (List.map_filter sent_id ops)"
    and "distinct (List.map_filter sent_id ops)" and "set (List.map_filter sent_id ops) \<inter> set (message_ids q) = {}"
  shows "h \<notin> set (queue_run ops q)"
  using assms
proof (induction ops arbitrary: q)
  case Nil
  then show ?case by simp
next
  case (Cons op ops)
  have op: "leaves_hidden h T op" "sent_id op \<noteq> Some h" "\<forall>i. sent_id op = Some i \<longrightarrow> i \<notin> set (message_ids q)"
    using Cons.prems by (auto simp: map_filter_simps split: option.splits)
  note step = hidden_step [OF Cons.prems(1) op]
  have "h \<notin> set (queue_run ops (fst (queue_step op q)))"
  proof (rule Cons.IH [OF step(1)])
    have "set (List.map_filter sent_id ops) \<inter> (set (message_ids q) \<union> set_option (sent_id op)) = {}"
      using Cons.prems(4,5) by (auto simp: map_filter_simps split: option.splits)
    then show "set (List.map_filter sent_id ops) \<inter> set (message_ids (fst (queue_step op q))) = {}"
      using step(3) by blast
  qed (use Cons.prems(2-4) in \<open>auto simp: map_filter_simps split: option.splits\<close>)
  then show ?case using step(2) by simp
qed


text \<open>What is left once messages are deleted by their handles.\<close>

lemma client_delete_all:
  assumes "om_get c name = Some q" and "queue_wf q" and "distinct hs" and "set hs \<subseteq> set (message_ids q)"
  shows "\<exists>q'. om_get (fold (client_deleteMessage name) hs c) name = Some q' \<and>
    message_ids q' = filter (\<lambda>i. i \<notin> set hs) (message_ids q)"
  using assms
proof (induction hs arbitrary: c q)
  case Nil
  then show ?case by simp
next
  case (Cons h hs)
  define q1 where "q1 = queue_deleteMessage h q"
  have c1: "om_get (client_deleteMessage name h c) name = Some q1"
    using Cons.prems(1) by (simp add: client_deleteMessage_def client_update_def q1_def om_get_set)
  have ids: "queue_wf q1" "message_ids q1 = filter (\<lambda>i. i \<noteq> h) (message_ids q)"
    using delete_ids(1,2) [OF Cons.prems(2), of h] Cons.prems(4) unfolding q1_def by auto
  have "set hs \<subseteq> set (message_ids q1)" using Cons.prems(3,4) by (auto simp: ids(2))
  from Cons.IH [OF c1 ids(1) _ this] Cons.prems(3) show ?case by (auto simp: ids(2) intro: filter_cong)
qed

lemma receivable_distinct:
  "queue_wf q \<Longrightarrow> distinct (map qm_id (receivable spec request now q))"
proof -
  have "distinct (map qm_id ms) \<Longrightarrow> distinct (map qm_id (deliverable now v seen ms))" for now v seen ms
    using deliverable_subset by (induction now v seen ms rule: deliverable.induct) fastforce+
  then show "queue_wf q \<Longrightarrow> distinct (map qm_id (receivable spec request now q))"
    unfolding receivable_def queue_wf_def take_map [symmetric] by (intro distinct_take) simp
qed

section \<open>Properties\<close>

text \<open>
  C23 (equivalence): receiving from a queue yields the first messages, up to the limit, that are
  visible and have no invisible earlier message of their group, each with its receive count raised:
  the loop with its table of groups computes exactly this.
\<close>

theorem received_messages:
  assumes "queue_wf q" and "lq_queue q = Some spec"
  shows "snd (queue_receiveMessages request now q) = Inr (map bump (receivable spec request now q))"
  using receive_spec [OF assms, of request now] by auto

definition sample_queue :: queue_spec where
  "sample_queue = \<lparr>qs_name = ''q'', qs_fifo = True, qs_visibilityTimeout = None, qs_delay = None\<rparr>"

definition sample_message :: "string \<Rightarrow> string \<Rightarrow> queue_message" where
  "sample_message i g = \<lparr>qm_id = i, qm_receiptHandle = i, qm_sequenceNumber = i, qm_message = JNum 0,
     qm_messageDeduplicationId = JStr g, qm_messageGroupId = JStr g, qm_sent = 0, qm_receiveCount = 0\<rparr>"

definition sample_local_queue :: local_queue where
  "sample_local_queue = \<lparr>lq_queue = Some sample_queue,
     lq_messages = [sample_message ''a'' ''g'', sample_message ''b'' ''h'', sample_message ''c'' ''g''],
     lq_visibility = [(''a'', 100)], lq_polls = []\<rparr>"

lemma received_messages_witness:
  "snd (queue_receiveMessages None 50 sample_local_queue) = Inr [bump (sample_message ''b'' ''h'')]"
proof -
  have "queue_wf sample_local_queue" by code_simp
  moreover have "lq_queue sample_local_queue = Some sample_queue" by code_simp
  moreover have "map bump (receivable sample_queue None 50 sample_local_queue) = [bump (sample_message ''b'' ''h'')]" by code_simp
  ultimately show ?thesis using received_messages [of sample_local_queue sample_queue None 50] by simp
qed

text \<open>
  C24 (safety): a received message stays invisible until its visibility time: whatever is received,
  sent or deleted meanwhile, and whatever other messages change their visibility, no call that is
  made up to that time receives it again.
\<close>

theorem in_flight_messages_hidden:
  assumes "queue_wf q" and "lq_queue q = Some spec"
    and "queue_receiveMessages request now q = (q', Inr messages)" and "m \<in> set messages"
    and "list_all (leaves_hidden (qm_id m) (visibility_time spec request now)) ops"
    and "distinct (message_ids q @ List.map_filter sent_id ops)"
  shows "qm_id m \<notin> set (queue_run ops q')"
proof (rule hidden_run)
  from receive_spec [OF assms(1,2), of request now] assms(3) have
    vis: "messages = map bump (receivable spec request now q)"
    "\<forall>k. om_get (lq_visibility q') k = (if k \<in> qm_id ` set (receivable spec request now q)
       then Some (visibility_time spec request now) else om_get (lq_visibility q) k)" "lq_queue q' = lq_queue q" by auto
  have ids: "queue_wf q'" "message_ids q' = message_ids q" using receive_wf [OF assms(1-3)] by simp_all
  have taken: "qm_id m \<in> qm_id ` set (receivable spec request now q)" using assms(4) vis(1) by (auto simp: image_iff)
  show "hidden (qm_id m) (visibility_time spec request now) q'"
    using vis(2,3) ids(1) taken assms(2) by (auto simp: hidden_def)
  have "qm_id m \<in> set (message_ids q)" using taken receivable_visible by fastforce
  then show "qm_id m \<notin> set (List.map_filter sent_id ops)" using assms(6) by auto
  show "set (List.map_filter sent_id ops) \<inter> set (message_ids q') = {}" using assms(6) ids(2) by auto
  show "distinct (List.map_filter sent_id ops)" using assms(6) by simp
qed (fact assms(5))

definition sample_payload :: "string \<Rightarrow> queue_payload" where
  "sample_payload d = \<lparr>qp_delay = None, qp_message = JNum 0, qp_messageGroupId = Some ''g'',
     qp_messageDeduplicationId = Some (JStr d)\<rparr>"

lemma in_flight_messages_hidden_witness:
  "''b'' \<notin> set (queue_run [Receive None 60, Send ''d'' 70 True (sample_payload ''g''), Delete ''b'', Receive None 30050]
     (fst (queue_receiveMessages None 50 sample_local_queue)))"
proof -
  have "queue_wf sample_local_queue" by code_simp
  moreover have "lq_queue sample_local_queue = Some sample_queue" by code_simp
  moreover have "queue_receiveMessages None 50 sample_local_queue =
      (fst (queue_receiveMessages None 50 sample_local_queue), Inr [bump (sample_message ''b'' ''h'')])" by code_simp
  moreover have "bump (sample_message ''b'' ''h'') \<in> set [bump (sample_message ''b'' ''h'')]" by simp
  moreover have "list_all (leaves_hidden (qm_id (bump (sample_message ''b'' ''h''))) (visibility_time sample_queue None 50))
      [Receive None 60, Send ''d'' 70 True (sample_payload ''g''), Delete ''b'', Receive None 30050]" by code_simp
  moreover have "distinct (message_ids sample_local_queue @ List.map_filter sent_id
      [Receive None 60, Send ''d'' 70 True (sample_payload ''g''), Delete ''b'', Receive None 30050])" by code_simp
  ultimately have "qm_id (bump (sample_message ''b'' ''h'')) \<notin> set (queue_run
      [Receive None 60, Send ''d'' 70 True (sample_payload ''g''), Delete ''b'', Receive None 30050]
      (fst (queue_receiveMessages None 50 sample_local_queue)))"
    by (rule in_flight_messages_hidden)
  then show ?thesis by (simp add: sample_message_def)
qed

text \<open>
  When the handler of a queue reports messages that failed, the local environment deletes
  exactly those and keeps the ones that were handled; only when none failed are all received messages
  deleted.
\<close>

theorem poll_drops_failed_messages:
  assumes "om_get c name = Some q" and "queue_wf q" and "lq_queue q = Some spec"
    and "handlers name = Some handler" and "handler (map bump (receivable spec None now q)) = Inr failed"
  shows "map_option message_ids (om_get (handle_poll handlers name now c) name) =
    Some (filter (\<lambda>i. \<not> (i \<in> qm_id ` set (receivable spec None now q) \<and>
      (the_default [] failed = [] \<or> i \<in> set (the_default [] failed)))) (message_ids q))"
proof -
  let ?received = "receivable spec None now q"
  define deleted where "deleted = (if the_default [] failed = [] then map bump ?received
    else filter (\<lambda>m. qm_id m \<in> set (the_default [] failed)) (map bump ?received))"
  from receive_spec [OF assms(2,3), of None now] obtain q' where
    q': "queue_receiveMessages None now q = (q', Inr (map bump ?received))" by blast
  have ids: "queue_wf q'" "message_ids q' = message_ids q" using receive_wf [OF assms(2,3) q'] by simp_all
  have "handle_poll handlers name now c =
      fold (\<lambda>m. client_deleteMessage name (qm_receiptHandle m)) deleted (om_set name q' c)"
    using assms(1,4,5) q'
    by (cases failed) (simp_all add: handle_poll_def client_receiveMessages_def queueHandlerWorker_def deleted_def)
  also have "\<dots> = fold (client_deleteMessage name) (map qm_receiptHandle deleted) (om_set name q' c)"
    by (simp add: fold_map comp_def)
  also have "map qm_receiptHandle deleted = map qm_id deleted"
    using assms(2) receivable_visible by (fastforce simp: deleted_def queue_wf_def list_all_iff)
  finally have poll: "handle_poll handlers name now c = fold (client_deleteMessage name) (map qm_id deleted) (om_set name q' c)" .
  have "distinct (map qm_id (map bump ?received))" using receivable_distinct [OF assms(2)] by (simp add: comp_def)
  then have "distinct (map qm_id deleted)" by (simp add: deleted_def distinct_map_filter)
  moreover have "set (map qm_id deleted) \<subseteq> set (message_ids q')"
    unfolding ids(2) by (auto simp: deleted_def dest!: receivable_visible split: if_splits)
  moreover have "i \<in> set (map qm_id deleted) \<longleftrightarrow> i \<in> qm_id ` set ?received \<and>
      (the_default [] failed = [] \<or> i \<in> set (the_default [] failed))" for i
    by (auto simp: deleted_def image_iff intro: rev_bexI)
  ultimately show ?thesis using client_delete_all [of "om_set name q' c" name q' "map qm_id deleted"] ids
    by (auto simp: poll om_get_set simp del: set_map intro: filter_cong)
qed

lemma poll_drops_failed_messages_witness:
  "map_option message_ids (om_get (handle_poll (\<lambda>n. Some (\<lambda>ms. Inr (Some [''b''])))
     ''q'' 150 [(''q'', sample_local_queue)]) ''q'') = Some [''a'', ''c'']"
proof -
  have "om_get [(''q'', sample_local_queue)] ''q'' = Some sample_local_queue" by code_simp
  moreover have "queue_wf sample_local_queue" by code_simp
  moreover have "lq_queue sample_local_queue = Some sample_queue" by code_simp
  ultimately have "map_option message_ids (om_get (handle_poll (\<lambda>n. Some (\<lambda>ms. Inr (Some [''b''])))
      ''q'' 150 [(''q'', sample_local_queue)]) ''q'') =
    Some (filter (\<lambda>i. \<not> (i \<in> qm_id ` set (receivable sample_queue None 150 sample_local_queue) \<and>
      (the_default [] (Some [''b'']) = [] \<or> i \<in> set (the_default [] (Some [''b''])))))
      (message_ids sample_local_queue))"
    by (rule poll_drops_failed_messages) simp_all
  moreover have "filter (\<lambda>i. \<not> (i \<in> qm_id ` set (receivable sample_queue None 150 sample_local_queue) \<and>
      (the_default [] (Some [''b'']) = [] \<or> i \<in> set (the_default [] (Some [''b''])))))
      (message_ids sample_local_queue) = [''a'', ''c'']" by code_simp
  ultimately show ?thesis by simp
qed

text \<open>
  The group of a message is the deduplication id it is sent with, not its group id: of two
  messages sent to one group of a fifo queue under different deduplication ids, the second is received
  while the first is in flight.
\<close>

theorem fifo_group_not_kept:
  assumes "qs_delay spec = None" and "qp_delay p1 = None" and "qp_delay p2 = None"
    and "qp_messageGroupId p1 = qp_messageGroupId p2"
    and "qp_messageDeduplicationId p1 = Some (JStr d1)" and "qp_messageDeduplicationId p2 = Some (JStr d2)"
    and "d1 \<noteq> d2" and "i1 \<noteq> i2" and "t3 \<le> visibility_time spec None t2"
  shows "queue_run [Send i1 t1 True p1, Receive None t2, Send i2 t2 True p2, Receive None t3] (new_queue (Some spec)) = [i1, i2]"
proof -
  have room: "max_messages None f = Suc (Suc (if f then 8 else 998))" for f by (simp add: max_messages_def)
  define T where "T = visibility_time spec None t2"
  define m1 where "m1 = \<lparr>qm_id = i1, qm_receiptHandle = i1, qm_sequenceNumber = i1, qm_message = qp_message p1,
    qm_messageDeduplicationId = JStr d1, qm_messageGroupId = JStr d1, qm_sent = t1, qm_receiveCount = 0\<rparr>"
  define m2 where "m2 = \<lparr>qm_id = i2, qm_receiptHandle = i2, qm_sequenceNumber = i2, qm_message = qp_message p2,
    qm_messageDeduplicationId = JStr d2, qm_messageGroupId = JStr d2, qm_sent = t2, qm_receiveCount = 0\<rparr>"
  have ids [simp]: "qm_id m1 = i1" "qm_receiptHandle m1 = i1" "qm_id m2 = i2" "qm_receiptHandle m2 = i2" by (simp_all add: m1_def m2_def)
  have groups: "group_of m1 = group_of m2 \<Longrightarrow> group_of m1 = None" using assms(7) by (auto simp: group_of_def m1_def m2_def split: if_splits)
  obtain qa where qa: "queue_sendMessage i1 t1 True p1 (new_queue (Some spec)) = (qa, Inr ())"
    "lq_messages qa = [m1]" "lq_visibility qa = []" "lq_queue qa = Some spec"
    using assms(1,2,5) by (simp add: queue_sendMessage_def new_queue_def m1_def Let_def poll_def)
  have "queue_wf qa" by (simp add: queue_wf_def qa)
  moreover have "receivable spec None t2 qa = [m1]" by (simp add: receivable_def qa room visible_def om_get_eq)
  ultimately obtain qb where qb: "queue_receiveMessages None t2 qa = (qb, Inr [bump m1])" "lq_messages qb = [bump m1]"
    "om_get (lq_visibility qb) i1 = Some T" "om_get (lq_visibility qb) i2 = None" "lq_queue qb = Some spec"
    using receive_spec [of qa spec None t2] assms(8) by (auto simp: qa T_def om_get_eq)
  obtain qc where qc: "queue_sendMessage i2 t2 True p2 qb = (qc, Inr ())"
    "lq_messages qc = [bump m1, m2]" "lq_visibility qc = lq_visibility qb" "lq_queue qc = Some spec"
    using assms(1,3,6) by (simp add: queue_sendMessage_def qb m2_def Let_def poll_def)
  have "queue_wf qc" using assms(8) by (simp add: queue_wf_def qc)
  moreover have "receivable spec None t3 qc = [m2]"
    using assms(9) groups by (auto simp: receivable_def qc qb room visible_def T_def)
  ultimately obtain qd where "queue_receiveMessages None t3 qc = (qd, Inr [bump m2])"
    using receive_spec [of qc spec None t3] by (auto simp: qc)
  then show ?thesis by (simp add: qa(1) qb(1) qc(1))
qed

lemma fifo_group_not_kept_witness:
  "queue_run [Send ''a'' 1 True (sample_payload ''x''), Receive None 2, Send ''b'' 2 True (sample_payload ''y''), Receive None 3]
     (new_queue (Some sample_queue)) = [''a'', ''b'']"
proof -
  have "3 \<le> visibility_time sample_queue None 2" by code_simp
  then show ?thesis
    by (intro fifo_group_not_kept [of sample_queue "sample_payload ''x''" "sample_payload ''y''" "''x''" "''y''"])
      (simp_all add: sample_payload_def sample_queue_def)
qed

text \<open>
  A message sent with a delay is stored, but sending it fails: no poll is asked for and it has no
  visibility time, so that it is received at once by any poll.
\<close>

lemma delayed_send_fails:
  assumes "qp_delay operation = Some d"
  shows "\<exists>err. queue_sendMessage newId now fifo operation q =
    (q\<lparr>lq_messages := lq_messages (fst (queue_sendMessage newId now fifo operation q))\<rparr>, Inl err)"
  using assms by (auto simp: queue_sendMessage_def Let_def date_of_message_def)

text \<open>Deleting a message that is not in the queue removes the last one that is.\<close>

lemma delete_unknown:
  "h \<notin> qm_receiptHandle ` set (lq_messages q) \<Longrightarrow> lq_messages (queue_deleteMessage h q) = butlast (lq_messages q)"
  by (auto simp: queue_deleteMessage_def find_index_None image_iff split: option.splits dest!: find_index_Some)

text \<open>No queue survives a restart.\<close>

lemma queues_are_lost: "client_fromSerializedData provider (Some (client_serialize c)) = []"
  by (simp add: client_fromSerializedData_def client_serialize_def)

end
