(* ===== verification/RuntimeUtils.thy ===== *)
theory RuntimeUtils
  imports LocalEntityStore "HOL-Library.Word"
begin

text \<open>
  The rest of core-runtime/src/utils.ts: which streams and bucket handlers an event is for, the hash
  of a workflow's input, the chain of middlewares around a handler, and keys as text. Grouping and
  \<open>deepEqual\<close> are in the theories of their users.
\<close>

section \<open>Matching events to handlers\<close>

record stream_spec =
  ss_name :: string
  ss_entityName :: string
  ss_operations :: "stream_operation list option"
  ss_queryKeys :: "js list option"

definition compareNormalizedEntityKeyPart :: "norm_part \<Rightarrow> norm_part \<Rightarrow> bool" where
  "compareNormalizedEntityKeyPart v matcher =
     (if np_partialValue matcher
      then (case (np_keyValue v, np_keyValue matcher) of (JStr s, JStr p) \<Rightarrow> starts_with s p | _ \<Rightarrow> False)
      else np_keyValue matcher = np_keyValue v)"

definition query_key_matches :: "norm_key \<Rightarrow> norm_key \<Rightarrow> bool" where
  "query_key_matches key k \<longleftrightarrow>
     compareNormalizedEntityKeyPart (nk_partition key) (nk_partition k) \<and>
     (case nk_sort k of
        None \<Rightarrow> True
      | Some matcher \<Rightarrow> (case nk_sort key of None \<Rightarrow> False | Some s \<Rightarrow> compareNormalizedEntityKeyPart s matcher))"

definition entityStreamMatchesItem :: "entity \<Rightarrow> stream_item \<Rightarrow> stream_spec \<Rightarrow> js + bool" where
  "entityStreamMatchesItem e item streamSpec =
     try_bind (normalizeCompositeKey (en_key e) (si_key item)) (\<lambda>key.
       try_bind (try_map (normalizeCompositeKey (en_key e)) (the_default [] (ss_queryKeys streamSpec))) (\<lambda>normalizedQueryKeys.
         Inr (ss_entityName streamSpec = en_name e \<and>
              (case ss_operations streamSpec of None \<Rightarrow> True | Some operations \<Rightarrow> si_operation item \<in> set operations) \<and>
              (length normalizedQueryKeys = 0 \<or> list_ex (query_key_matches key) normalizedQueryKeys))))"

datatype bucket_event_type = BucketPut | BucketCopy | BucketDelete

record bucket_event =
  be_bucketName :: string
  be_event :: bucket_event_type
  be_key :: string

record bucket_filter =
  bf_prefix :: "string option"
  bf_suffix :: "string option"

record bucket_handler_spec =
  bh_name :: string
  bh_bucketName :: string
  bh_eventTypes :: "bucket_event_type list option"
  bh_filters :: "bucket_filter list option"

definition ends_with :: "string \<Rightarrow> string \<Rightarrow> bool" where
  "ends_with s p \<longleftrightarrow> length p \<le> length s \<and> drop (length s - length p) s = p"

definition filter_matches :: "string \<Rightarrow> bucket_filter \<Rightarrow> bool" where
  "filter_matches key f \<longleftrightarrow>
     (case bf_prefix f of None \<Rightarrow> True | Some p \<Rightarrow> p = [] \<or> starts_with key p) \<and>
     (case bf_suffix f of None \<Rightarrow> True | Some s \<Rightarrow> s = [] \<or> ends_with key s)"

definition bucketHandlerMatchesEvent :: "bucket_event \<Rightarrow> bucket_handler_spec \<Rightarrow> bool" where
  "bucketHandlerMatchesEvent item streamSpec \<longleftrightarrow>
     bh_bucketName streamSpec = be_bucketName item \<and>
     (case bh_eventTypes streamSpec of None \<Rightarrow> True | Some types \<Rightarrow> be_event item \<in> set types) \<and>
     (case bh_filters streamSpec of None \<Rightarrow> True | Some filters \<Rightarrow> list_ex (filter_matches (be_key item)) filters)"

text \<open>
  The handlers of an event: for a stream item those of its entity, for a bucket event those of all
  buckets, as the local environment finds them.
\<close>

definition streams_of_item :: "entity_provider \<Rightarrow> (string \<Rightarrow> stream_spec list) \<Rightarrow> stream_item \<Rightarrow> js + string list" where
  "streams_of_item provider streams item =
     (case provider (si_entityName item) of
        None \<Rightarrow> Inr []
      | Some e \<Rightarrow> try_bind (try_filter (entityStreamMatchesItem e item) (streams (si_entityName item)))
          (\<lambda>ss. Inr (map ss_name ss)))"

definition handlers_of_event :: "bucket_handler_spec list list \<Rightarrow> bucket_event \<Rightarrow> string list" where
  "handlers_of_event buckets item = map bh_name (filter (bucketHandlerMatchesEvent item) (concat buckets))"

section \<open>The hash of a text\<close>

text \<open>\<open>x | 0\<close>: the low 32 bits of a number, read as a signed integer.\<close>

definition to_int32 :: "int \<Rightarrow> int" where
  "to_int32 x = signed_take_bit 31 x"

text \<open>\<open>hash << 5\<close> is a signed 32-bit integer too; the sum is one of doubles, which hold it exactly.\<close>

fun hash_loop :: "int \<Rightarrow> string \<Rightarrow> int" where
  "hash_loop hash [] = hash"
| "hash_loop hash (chr # str) = hash_loop (to_int32 (to_int32 (hash * 2 ^ 5) - hash + int (of_char chr))) str"

definition hashCode :: "string \<Rightarrow> int" where
  "hashCode str = hash_loop 0 str"

text \<open>\<open>toString(16)\<close>.\<close>

definition hex_digit :: "nat \<Rightarrow> char" where
  "hex_digit n = ''0123456789abcdef'' ! n"

fun hex_nat :: "nat \<Rightarrow> string" where
  "hex_nat n = (if n < 16 then [hex_digit n] else hex_nat (n div 16) @ [hex_digit (n mod 16)])"

declare hex_nat.simps [simp del]

definition hex_str :: "int \<Rightarrow> string" where
  "hex_str i = (if i < 0 then CHR ''-'' # hex_nat (nat (- i)) else hex_nat (nat i))"

section \<open>Middlewares\<close>

text \<open>
  What a middleware does: it returns or throws, or calls \<open>next\<close> with a context and goes on with what
  that gives. The request is the same for all.
\<close>

datatype ('c, 'o) middleware_run = Return "js + 'o" | CallNext 'c "js + 'o \<Rightarrow> ('c, 'o) middleware_run"

type_synonym ('r, 'c, 'o) middleware = "'r \<Rightarrow> 'c \<Rightarrow> ('c, 'o) middleware_run"

definition next_twice_error :: js where
  "next_twice_error = mk_Error ''Middleware cannot call 'next' more than once''"

text \<open>
  The state is the iterator over the middlewares, shared by all of them, and the contexts the handler
  was called with. \<open>consumed\<close> is the variable of one call of \<open>next\<close>; it is set only where it is
  already true.
\<close>

primrec run_middleware :: "('c \<Rightarrow> 's \<Rightarrow> 's \<times> (js + 'o)) \<Rightarrow> ('c, 'o) middleware_run \<Rightarrow> bool \<Rightarrow> 's \<Rightarrow> 's \<times> (js + 'o)" where
  "run_middleware nxt (Return r) consumed s = (s, r)"
| "run_middleware nxt (CallNext c k) consumed s =
     (if consumed then run_middleware nxt (k (Inl next_twice_error)) True s
      else (case nxt c s of (s', r) \<Rightarrow> run_middleware nxt (k r) consumed s'))"

text \<open>
  \<open>next\<close>, with the number of middlewares as fuel: the iterator never has more left.
\<close>

fun chain_next ::
  "nat \<Rightarrow> ('r \<Rightarrow> 'c \<Rightarrow> js + 'o) \<Rightarrow> 'r \<Rightarrow> 'c \<Rightarrow> ('r, 'c, 'o) middleware list \<times> 'c list \<Rightarrow>
   (('r, 'c, 'o) middleware list \<times> 'c list) \<times> (js + 'o)" where
  "chain_next n handler request ctx ([], calls) = (([], calls @ [ctx]), handler request ctx)"
| "chain_next 0 handler request ctx (m # chain, calls) = ((m # chain, calls), Inl next_twice_error)"
| "chain_next (Suc n) handler request ctx (m # chain, calls) =
     run_middleware (chain_next n handler request) (m request ctx) False (chain, calls)"

definition withMiddlewares ::
  "('r, 'c, 'o) middleware list \<Rightarrow> ('r \<Rightarrow> 'c \<Rightarrow> js + 'o) \<Rightarrow> 'r \<Rightarrow> 'c \<Rightarrow> 'c list \<times> (js + 'o)" where
  "withMiddlewares middlewares handler request ctx =
     (case chain_next (length middlewares) handler request ctx (middlewares, []) of
        ((_, calls), r) \<Rightarrow> (calls, r))"

section \<open>Keys as text\<close>

definition deserializeCompositeKey :: "string \<Rightarrow> string \<times> js list" where
  "deserializeCompositeKey sKey =
     (case split_on (CHR ''|'') sKey of
        name # rest \<Rightarrow>
          (name, (case rest of
             [] \<Rightarrow> [JUndef]
           | [p] \<Rightarrow> [JStr p]
           | p # s # _ \<Rightarrow> if s = [] then [JStr p] else [JStr p, JStr s])))"

lemma deserialize_serialize:
  assumes "CHR ''|'' \<notin> set name" and "np_keyValue (nk_partition key) = JStr p" and "CHR ''|'' \<notin> set p"
    and "sort_value key = JStr s" and "CHR ''|'' \<notin> set s" and "s \<noteq> []"
  shows "deserializeCompositeKey (serializeCompositeKey name key) = (name, [JStr p, JStr s])"
  using assms split_on_sep [of "CHR ''|''"]
  by (simp add: deserializeCompositeKey_def serializeCompositeKey_def split_on_no_sep or_else_def)


section \<open>The chain of middlewares\<close>

lemma run_middleware_keeps:
  assumes "\<And>c s s' r. P s \<Longrightarrow> nxt c s = (s', r) \<Longrightarrow> P s'" and "P s"
  shows "P (fst (run_middleware nxt m consumed s))"
  using assms(2)
proof (induction m arbitrary: consumed s)
  case (Return r)
  then show ?case by simp
next
  case (CallNext c k)
  show ?case
  proof (cases consumed)
    case True
    then show ?thesis using CallNext.IH [OF rangeI CallNext.prems] by simp
  next
    case False
    obtain s' r where step: "nxt c s = (s', r)" by fastforce
    then show ?thesis using False CallNext.IH [OF rangeI assms(1) [OF CallNext.prems step]] by simp
  qed
qed

text \<open>The iterator only moves on, and with fuel for the rest of it the fuel does not matter.\<close>

lemma chain_next_shrinks: "length (fst (fst (chain_next n handler request ctx s))) \<le> length (fst s)"
proof (induction n handler request ctx s rule: chain_next.induct)
  case (3 n handler request c m chain calls)
  have "length (fst (fst (run_middleware (chain_next n handler request) (m request c) False (chain, calls))))
      \<le> length chain"
  proof (rule run_middleware_keeps [where P = "\<lambda>s. length (fst s) \<le> length chain"])
    fix c' s s' r
    assume "length (fst s) \<le> length chain" and "chain_next n handler request c' s = (s', r)"
    then show "length (fst s') \<le> length chain" using "3.IH" [of c' s] by simp
  qed simp
  then show ?case by simp
qed simp_all

lemma run_middleware_cong:
  assumes "\<And>c s s' r. P s \<Longrightarrow> nxt c s = (s', r) \<Longrightarrow> P s'" and "\<And>c s. P s \<Longrightarrow> nxt c s = nxt' c s" and "P s"
  shows "run_middleware nxt m consumed s = run_middleware nxt' m consumed s"
  using assms(3)
proof (induction m arbitrary: consumed s)
  case (Return r)
  then show ?case by simp
next
  case (CallNext c k)
  obtain s' r where step: "nxt c s = (s', r)" by fastforce
  show ?case
    using CallNext.IH [OF rangeI CallNext.prems] CallNext.IH [OF rangeI assms(1) [OF CallNext.prems step]]
      assms(2) [OF CallNext.prems, of c, symmetric] step by simp
qed

lemma chain_next_fuel:
  "length (fst s) \<le> n \<Longrightarrow> chain_next n handler request ctx s = chain_next (length (fst s)) handler request ctx s"
proof (induction "length (fst s)" arbitrary: s n ctx rule: less_induct)
  case less
  obtain ms calls where s: "s = (ms, calls)" by fastforce
  show ?case
  proof (cases ms)
    case Nil
    then show ?thesis by (cases n) (simp_all add: s)
  next
    case (Cons m chain)
    then obtain k where n: "n = Suc k" and k: "length chain \<le> k" using less.prems by (cases n) (auto simp: s)
    have "run_middleware (chain_next k handler request) (m request ctx) False (chain, calls) =
        run_middleware (chain_next (length chain) handler request) (m request ctx) False (chain, calls)"
    proof (rule run_middleware_cong [where P = "\<lambda>s. length (fst s) \<le> length chain"])
      fix c t t' r
      assume "length (fst t) \<le> length chain" and "chain_next k handler request c t = (t', r)"
      then show "length (fst t') \<le> length chain"
        using chain_next_shrinks [of k handler request c t] by simp
    next
      fix c and t :: "('a, 'b, 'c) middleware list \<times> 'b list"
      assume "length (fst t) \<le> length chain"
      then show "chain_next k handler request c t = chain_next (length chain) handler request c t"
        using less.hyps [of t k c] less.hyps [of t "length chain" c] k by (simp add: s Cons)
    qed simp
    then show ?thesis by (simp add: s Cons n)
  qed
qed

text \<open>Middlewares as layers around the handler: every call of \<open>next\<close> runs all inner layers.\<close>

fun layers ::
  "('r, 'c, 'o) middleware list \<Rightarrow> ('r \<Rightarrow> 'c \<Rightarrow> js + 'o) \<Rightarrow> 'r \<Rightarrow> 'c \<Rightarrow> 'c list \<Rightarrow> 'c list \<times> (js + 'o)" where
  "layers [] handler request ctx calls = (calls @ [ctx], handler request ctx)"
| "layers (m # ms) handler request ctx calls =
     run_middleware (layers ms handler request) (m request ctx) False calls"

primrec calls_no_next :: "('c, 'o) middleware_run \<Rightarrow> bool" where
  "calls_no_next (Return r) = True"
| "calls_no_next (CallNext c k) = False"

primrec calls_next_once :: "('c, 'o) middleware_run \<Rightarrow> bool" where
  "calls_next_once (Return r) = True"
| "calls_next_once (CallNext c k) = (\<forall>r. calls_no_next (k r))"

lemma run_no_next: "calls_no_next m \<Longrightarrow> \<exists>r. m = Return r"
  by (cases m) simp_all

lemma chain_is_layers:
  assumes "list_all (\<lambda>m. \<forall>c. calls_next_once (m request c)) ms"
  shows "\<exists>rest. chain_next (length ms) handler request ctx (ms, calls) =
    ((rest, fst (layers ms handler request ctx calls)), snd (layers ms handler request ctx calls))"
  using assms
proof (induction ms arbitrary: ctx calls)
  case Nil
  then show ?case by simp
next
  case (Cons m ms)
  show ?case
  proof (cases "m request ctx")
    case (Return r)
    then show ?thesis by simp
  next
    case (CallNext c k)
    from Cons.IH [of c calls] Cons.prems obtain rest where inner:
      "chain_next (length ms) handler request c (ms, calls) =
        ((rest, fst (layers ms handler request c calls)), snd (layers ms handler request c calls))" by auto
    have "\<forall>r. calls_no_next (k r)" using Cons.prems CallNext by (metis calls_next_once.simps(2) list.pred_inject(2))
    then obtain r' where "k (snd (layers ms handler request c calls)) = Return r'" using run_no_next by blast
    then show ?thesis using CallNext inner by (simp add: split_beta)
  qed
qed

section \<open>Keys of several attributes\<close>

lemma starts_with_iff: "starts_with s p \<longleftrightarrow> (\<exists>t. s = p @ t)"
proof
  assume "starts_with s p"
  then have "s = p @ drop (length p) s" by (metis append_take_drop_id starts_with_def)
  then show "\<exists>t. s = p @ t" by blast
qed (auto simp: starts_with_def)

lemma sep_append_eq: "c \<notin> set x \<Longrightarrow> c \<notin> set y \<Longrightarrow> x @ c # s = y @ c # t \<longleftrightarrow> x = y \<and> s = t"
proof (induction x arbitrary: y)
  case Nil
  then show ?case by (cases y) auto
next
  case (Cons d x)
  then show ?case by (cases y) auto
qed

lemma starts_with_sep:
  "c \<notin> set x \<Longrightarrow> c \<notin> set y \<Longrightarrow> starts_with (x @ c # s) (y @ c # p) \<longleftrightarrow> x = y \<and> starts_with s p"
  by (simp add: starts_with_iff sep_append_eq)

lemma starts_with_in_first:
  assumes "c \<notin> set p"
  shows "starts_with (x @ c # s) p \<longleftrightarrow> starts_with x p"
proof -
  have "\<exists>u. x = p @ u" if "x @ c # s = p @ t" for t
  proof -
    from that obtain u where "x = p @ u \<or> x @ u = p \<and> c # s = u @ t" by (auto simp: append_eq_append_conv2)
    then show ?thesis using assms by (cases u) auto
  qed
  then show ?thesis by (auto simp: starts_with_iff)
qed

text \<open>
  The text of the attributes begins with the text of the first attributes of a query: all but the
  last are equal, and the last one begins with what the query gives.
\<close>

lemma join_starts_with:
  assumes "length ps < length xs" and "ps \<noteq> []" and "\<forall>x \<in> set xs \<union> set ps. c \<notin> set x"
  shows "starts_with (join_with [c] xs) (join_with [c] ps) \<longleftrightarrow>
    take (length ps - 1) xs = butlast ps \<and> starts_with (xs ! (length ps - 1)) (last ps)"
  using assms
proof (induction ps arbitrary: xs)
  case Nil
  then show ?case by simp
next
  case (Cons p ps)
  from Cons.prems(1) obtain x y xs' where xs: "xs = x # y # xs'" by (cases xs; cases "tl xs") auto
  show ?case
  proof (cases ps)
    case Nil
    then show ?thesis using starts_with_in_first [of c p x] Cons.prems(3) by (simp add: xs)
  next
    case (Cons q qs)
    have "starts_with (join_with [c] xs) (join_with [c] (p # ps)) \<longleftrightarrow>
        x = p \<and> starts_with (join_with [c] (y # xs')) (join_with [c] ps)"
      using starts_with_sep [of c x p] Cons.prems(3) Cons by (simp add: xs)
    also have "\<dots> \<longleftrightarrow> x = p \<and> take (length ps - 1) (y # xs') = butlast ps \<and>
        starts_with ((y # xs') ! (length ps - 1)) (last ps)"
      using Cons.IH [of "y # xs'"] Cons.prems Cons xs by auto
    finally show ?thesis by (simp add: xs Cons)
  qed
qed

section \<open>Properties\<close>

definition hash_word :: "string \<Rightarrow> 32 word" where
  "hash_word str = foldl (\<lambda>h c. 31 * h + word_of_nat (of_char c)) 0 str"

lemma to_int32_word: "to_int32 x = sint (word_of_int x :: 32 word)"
  by (simp add: to_int32_def signed_of_int)

lemma hash_step: "to_int32 (to_int32 (sint h * 2 ^ 5) - sint h + int n) = sint (31 * h + word_of_nat n :: 32 word)"
proof -
  have "word_of_int (to_int32 (sint h * 2 ^ 5) - sint h + int n) = (h * 2 ^ 5 - h + word_of_nat n :: 32 word)"
    unfolding to_int32_word by simp
  then show ?thesis unfolding to_int32_word by (simp add: algebra_simps)
qed

lemma hash_loop_word: "hash_loop (sint h) str = sint (foldl (\<lambda>h c. 31 * h + word_of_nat (of_char c)) h str :: 32 word)"
proof (induction str arbitrary: h)
  case (Cons c str)
  have "hash_loop (sint h) (c # str) = hash_loop (sint (31 * h + word_of_nat (of_char c) :: 32 word)) str"
    using hash_step [of h "of_char c"] by (simp del: One_nat_def)
  then show ?case using Cons by simp
qed simp

text \<open>
  The hash of a text is the polynomial of its characters at 31, modulo \<open>2 ^ 32\<close>
  and read as a signed number: the loop computes Java's hash of strings, and never leaves the range
  of 32 bits.
\<close>

theorem hash_is_polynomial:
  "hashCode str = sint (hash_word str) \<and> - (2 ^ 31) \<le> hashCode str \<and> hashCode str < 2 ^ 31"
proof -
  have "hashCode str = sint (hash_word str)" using hash_loop_word [of 0] by (simp add: hashCode_def hash_word_def)
  then show ?thesis using sint_range_size [of "hash_word str"] by (simp add: word_size)
qed

lemma different_texts_same_hash: "hashCode ''Aa'' = hashCode ''BB''"
  by code_simp

text \<open>
  Middlewares that call \<open>next\<close> at most once are layers around the handler, which
  runs with the context that the innermost passes on.
\<close>

theorem middlewares_are_layers:
  assumes "list_all (\<lambda>m. \<forall>c. calls_next_once (m request c)) middlewares"
  shows "withMiddlewares middlewares handler request ctx = layers middlewares handler request ctx []"
  using chain_is_layers [OF assms, of handler ctx "[]"] by (auto simp: withMiddlewares_def)

definition sample_middleware :: "('r, string list, js) middleware" where
  "sample_middleware request c = CallNext (c @ [''m'']) Return"

lemma middlewares_are_layers_witness:
  "withMiddlewares [sample_middleware, \<lambda>r c. Return (Inl JNull)] (\<lambda>r c. Inr JNull) () [] =
   layers [sample_middleware, \<lambda>r c. Return (Inl JNull)] (\<lambda>r c. Inr JNull) () [] []"
  by (rule middlewares_are_layers) (simp add: sample_middleware_def)

text \<open>
  A middleware that calls \<open>next\<close> twice gets no error. The second call goes on with
  the iterator where the first left it: it skips the middleware behind and reaches the handler, even
  when that middleware refused the request.
\<close>

theorem second_next_skips_middleware:
  assumes "m request ctx = CallNext c1 (\<lambda>r. CallNext c2 Return)"
    and "guard request c1 = Return (Inl denied)"
  shows "withMiddlewares [m, guard] handler request ctx = ([c2], handler request c2)"
  using assms by (simp add: withMiddlewares_def)

lemma second_next_skips_middleware_witness:
  "withMiddlewares [\<lambda>r c. CallNext c (\<lambda>x. CallNext c Return), \<lambda>r c. Return (Inl JNull)] (\<lambda>r c. Inr r) 7 () =
   ([()], Inr (7 :: nat))"
  by (rule second_next_skips_middleware [where ?c1.0 = "()" and denied = JNull]) simp_all

text \<open>The text of an attribute in a key.\<close>

definition attribute_text :: "key_part \<Rightarrow> (string \<Rightarrow> nat \<Rightarrow> js) \<Rightarrow> nat \<Rightarrow> string" where
  "attribute_text p f i = js_to_string (or_else (f (kp_attributes p ! i) i) (JStr ''''))"

lemma join_hash_texts:
  assumes "m \<le> length (kp_attributes p)"
  shows "join_hash (map snd (take m (retrieve_parts p f))) = join_with ''#'' (map (attribute_text p f) [0..<m])"
proof -
  have "map (\<lambda>v. js_to_string (or_else v (JStr ''''))) (map snd (take m (retrieve_parts p f))) =
      map (attribute_text p f) [0..<m]"
    using assms by (intro nth_equalityI) (simp_all add: nth_retrieve_parts attribute_text_def)
  then show ?thesis by (simp add: join_hash_eq)
qed

text \<open>
  A stream's query key that gives only the first attributes of a key part selects the
  items that have the same values there, except that the last value given only has to be the
  beginning of the item's value.
\<close>

theorem partial_query_key_matches:
  assumes "kp_type p = StringKey" and "isCompleteKeyPart (formatNormalizedPart p f)"
    and "missing_index (retrieve_parts p g) = Some (Suc k)"
    and "\<And>i. i < length (kp_attributes p) \<Longrightarrow> CHR ''#'' \<notin> set (attribute_text p f i)"
    and "\<And>i. i \<le> k \<Longrightarrow> CHR ''#'' \<notin> set (attribute_text p g i)"
  shows "compareNormalizedEntityKeyPart (formatNormalizedPart p f) (formatNormalizedPart p g) \<longleftrightarrow>
    (\<forall>i < k. attribute_text p f i = attribute_text p g i) \<and> starts_with (attribute_text p f k) (attribute_text p g k)"
proof -
  define n where "n = length (kp_attributes p)"
  have kn: "Suc k < n" using find_index_Some assms(3) by (fastforce simp: missing_index_def n_def)
  define xs where "xs = map (attribute_text p f) [0..<n]"
  define ps where "ps = map (attribute_text p g) [0..<Suc k]"
  have xs: "np_keyValue (formatNormalizedPart p f) = JStr (join_with ''#'' xs)"
    using complete_string_part [OF assms(1,2)] join_hash_texts [of n p f] by (simp add: xs_def n_def)
  have ps: "np_keyValue (formatNormalizedPart p g) = JStr (join_with ''#'' ps)" "np_partialValue (formatNormalizedPart p g)"
    using assms(1,3) kn join_hash_texts [of "Suc k" p g]
    by (simp_all add: formatNormalizedPart_def part_of_parts_def ps_def n_def)
  have "starts_with (join_with ''#'' xs) (join_with ''#'' ps) \<longleftrightarrow>
      take k xs = butlast ps \<and> starts_with (xs ! k) (last ps)"
  proof -
    have "\<forall>x \<in> set xs \<union> set ps. CHR ''#'' \<notin> set x" using assms(4,5) by (auto simp: xs_def ps_def n_def)
    then show ?thesis using join_starts_with [of ps xs "CHR ''#''"] kn
      by (metis One_nat_def diff_Suc_1 length_map length_upt list.size(3) minus_nat.diff_0 nat.simps(3) ps_def xs_def)
  qed
  moreover have "take k xs = butlast ps \<longleftrightarrow> (\<forall>i < k. attribute_text p f i = attribute_text p g i)"
    using kn by (auto simp: xs_def ps_def take_map list_eq_iff_nth_eq)
  ultimately show ?thesis using xs ps kn by (simp add: compareNormalizedEntityKeyPart_def xs_def ps_def)
qed

lemma partial_query_key_matches_witness:
  "compareNormalizedEntityKeyPart
     (formatNormalizedPart (kd_partition sample_key_def) (\<lambda>a i. JStr a))
     (formatNormalizedPart (kd_partition sample_key_def) (\<lambda>a i. if i = 0 then JStr ''o'' else JUndef))"
  using partial_query_key_matches [of "kd_partition sample_key_def" "\<lambda>a i. JStr a"
      "\<lambda>a i. if i = 0 then JStr ''o'' else JUndef" 0]
  by (simp add: sample_key_def_def isCompleteKeyPart_def formatNormalizedPart_def part_of_parts_def
      retrieve_parts_def missing_index_def or_else_def attribute_text_def starts_with_def nth_Cons split: nat.splits)

text \<open>
  When the entity has a sort key, a query key that says nothing about it matches no item:
  the missing sort key is a partial key without a value, which no value begins with.
\<close>

theorem query_key_without_sort_matches_nothing:
  assumes "kd_sort (en_key e) = Some s" and "kp_attributes s = a # as" and "ss_queryKeys spec = Some qs" and "qs \<noteq> []"
    and "list_all (\<lambda>q. key_value (partition_width (en_key e)) q a 0 = JUndef) qs"
  shows "entityStreamMatchesItem e item spec \<noteq> Inr True"
proof
  assume "entityStreamMatchesItem e item spec = Inr True"
  then obtain key ks k where ks: "try_map (normalizeCompositeKey (en_key e)) qs = Inr ks" "k \<in> set ks" "query_key_matches key k"
    using assms(3,4) by (auto simp: entityStreamMatchesItem_def try_bind_Inr try_map_Inr list_ex_iff)
  then obtain q where q: "q \<in> set qs" "normalizeCompositeKey (en_key e) q = Inr k"
    by (auto simp: try_map_Inr list_all2_conv_all_nth in_set_conv_nth) (metis nth_mem)
  then have "nk_sort k = Some (formatNormalizedPart s (key_value (partition_width (en_key e)) q))"
    using assms(1) by (auto simp: normalizeCompositeKey_def try_bind_Inr formatNormalizeSortKeyPart_def)
  moreover have "missing_index (retrieve_parts s (key_value (partition_width (en_key e)) q)) = Some 0"
    using assms(2,5) q(1) by (simp add: missing_index_def retrieve_parts_def list_all_iff)
  ultimately show False using ks(3)
    by (auto simp: query_key_matches_def compareNormalizedEntityKeyPart_def formatNormalizedPart_def part_of_parts_def
        split: option.splits js.splits)
qed

lemma query_key_without_sort_matches_nothing_witness:
  "\<forall>item. entityStreamMatchesItem \<lparr>en_name = ''e'', en_key = sample_key_def, en_indices = []\<rparr> item
     \<lparr>ss_name = ''s'', ss_entityName = ''e'', ss_operations = None,
      ss_queryKeys = Some [JObj [(''org'', JStr ''a''), (''user'', JStr ''b'')]]\<rparr> \<noteq> Inr True"
  by (intro allI, rule query_key_without_sort_matches_nothing [where a = "''n''" and as = "[]"
        and s = "the (kd_sort sample_key_def)" and qs = "[JObj [(''org'', JStr ''a''), (''user'', JStr ''b'')]]"])
    (simp_all add: sample_key_def_def key_value_def is_array_def js_get_def)

end
