(* ===== verification/JsonText.thy ===== *)
theory JsonText
  imports JsRecord JsValue
begin

text \<open>
  \<open>JSON.json_stringify\<close> and \<open>JSON.parse\<close> on text, for values whose numbers are integers. A value is
  printed as its copy \<open>json_copy\<close> is, without undefined members and with errors as objects; what is
  printed is read back as that copy.
\<close>

section \<open>Parsing\<close>

definition json_space :: "char \<Rightarrow> bool" where
  "json_space c \<longleftrightarrow> c = CHR '' '' \<or> c = CHR 0x09 \<or> c = CHR 0x0A \<or> c = CHR 0x0D"

definition skip_ws :: "string \<Rightarrow> string" where
  "skip_ws = dropWhile json_space"

definition hex_value :: "char \<Rightarrow> nat option" where
  "hex_value c = (case find_index (\<lambda>d. d = c) ''0123456789abcdef'' of
     Some n \<Rightarrow> Some n
   | None \<Rightarrow> map_option (\<lambda>n. n + 10) (find_index (\<lambda>d. d = c) ''ABCDEF''))"

text \<open>What follows a backslash. Characters are bytes: \<open>\u\<close> gives its low byte.\<close>

fun parse_escape :: "string \<Rightarrow> (char \<times> string) option" where
  "parse_escape [] = None"
| "parse_escape (e # cs) =
     (if e = CHR 0x22 \<or> e = CHR 0x5C \<or> e = CHR ''/'' then Some (e, cs)
      else if e = CHR ''b'' then Some (CHR 0x08, cs)
      else if e = CHR ''f'' then Some (CHR 0x0C, cs)
      else if e = CHR ''n'' then Some (CHR 0x0A, cs)
      else if e = CHR ''r'' then Some (CHR 0x0D, cs)
      else if e = CHR ''t'' then Some (CHR 0x09, cs)
      else if e = CHR ''u'' then
        (case map hex_value (take 4 cs) of
           [Some a, Some b, Some c, Some d] \<Rightarrow> Some (char_of (((a * 16 + b) * 16 + c) * 16 + d), drop 4 cs)
         | _ \<Rightarrow> None)
      else None)"

lemma parse_escape_shorter: "parse_escape cs = Some (d, rest) \<Longrightarrow> length rest < length cs"
  by (cases cs) (auto split: if_splits list.splits option.splits)

function parse_chars :: "string \<Rightarrow> (string \<times> string) option" where
  "parse_chars [] = None"
| "parse_chars (c # cs) =
     (if c = CHR 0x22 then Some ([], cs)
      else if c = CHR 0x5C then
        (case parse_escape cs of
           None \<Rightarrow> None
         | Some (d, rest) \<Rightarrow> map_option (\<lambda>(s, r). (d # s, r)) (parse_chars rest))
      else if (of_char c :: nat) < 32 then None
      else map_option (\<lambda>(s, r). (c # s, r)) (parse_chars cs))"
  by pat_completeness auto
termination by (relation "measure length") (auto dest: parse_escape_shorter)

definition parse_number :: "string \<Rightarrow> (js \<times> string) option" where
  "parse_number s =
     (let neg = (case s of c # _ \<Rightarrow> c = CHR ''-'' | [] \<Rightarrow> False);
          s' = (if neg then tl s else s);
          ds = takeWhile (\<lambda>c. c \<in> set ''0123456789'') s'
      in if ds = [] \<or> length ds > 1 \<and> hd ds = CHR ''0'' then None
         else Some (JNum (if neg then - int (str_nat ds) else int (str_nat ds)),
                    dropWhile (\<lambda>c. c \<in> set ''0123456789'') s'))"

text \<open>The parser of values; its fuel bounds the depth and the members still to come.\<close>

fun parse_value :: "nat \<Rightarrow> string \<Rightarrow> (js \<times> string) option"
  and parse_elements :: "nat \<Rightarrow> string \<Rightarrow> (js list \<times> string) option"
  and parse_members :: "nat \<Rightarrow> string \<Rightarrow> ((string \<times> js) list \<times> string) option" where
  "parse_value 0 s = None"
| "parse_value (Suc n) s =
     (case skip_ws s of
        [] \<Rightarrow> None
      | c # cs \<Rightarrow>
          if c = CHR 0x22 then map_option (\<lambda>(t, r). (JStr t, r)) (parse_chars cs)
          else if c = CHR ''['' then
            (if take 1 (skip_ws cs) = '']'' then Some (JArr [], drop 1 (skip_ws cs))
             else map_option (\<lambda>(xs, r). (JArr xs, r)) (parse_elements n cs))
          else if c = CHR ''{'' then
            (if take 1 (skip_ws cs) = ''}'' then Some (JObj [], drop 1 (skip_ws cs))
             else map_option (\<lambda>(kvs, r). (JObj (foldl (\<lambda>t (k, v). om_set k v t) [] kvs), r)) (parse_members n cs))
          else if take 4 (c # cs) = ''true'' then Some (JBool True, drop 3 cs)
          else if take 5 (c # cs) = ''false'' then Some (JBool False, drop 4 cs)
          else if take 4 (c # cs) = ''null'' then Some (JNull, drop 3 cs)
          else parse_number (c # cs))"
| "parse_elements 0 s = None"
| "parse_elements (Suc n) s =
     (case parse_value n s of
        None \<Rightarrow> None
      | Some (v, r) \<Rightarrow>
          (case skip_ws r of
             [] \<Rightarrow> None
           | c # r' \<Rightarrow>
               if c = CHR '','' then map_option (\<lambda>(vs, r''). (v # vs, r'')) (parse_elements n r')
               else if c = CHR '']'' then Some ([v], r')
               else None))"
| "parse_members 0 s = None"
| "parse_members (Suc n) s =
     (if take 1 (skip_ws s) \<noteq> [CHR 0x22] then None
      else case parse_chars (drop 1 (skip_ws s)) of
        None \<Rightarrow> None
      | Some (k, r) \<Rightarrow>
          if take 1 (skip_ws r) \<noteq> '':'' then None
          else case parse_value n (drop 1 (skip_ws r)) of
            None \<Rightarrow> None
          | Some (v, r') \<Rightarrow>
              (case skip_ws r' of
                 [] \<Rightarrow> None
               | c # r'' \<Rightarrow>
                   if c = CHR '','' then map_option (\<lambda>(kvs, q). ((k, v) # kvs, q)) (parse_members n r'')
                   else if c = CHR ''}'' then Some ([(k, v)], r'')
                   else None))"

definition json_parse :: "string \<Rightarrow> js option" where
  "json_parse s = (case parse_value (Suc (length s)) s of Some (v, r) \<Rightarrow> if skip_ws r = [] then Some v else None | None \<Rightarrow> None)"


section \<open>What is printed is read back\<close>

text \<open>Data without errors and undefined; it is its own copy.\<close>

function json_data :: "js \<Rightarrow> bool" where
  "json_data (JArr xs) \<longleftrightarrow> list_all json_data xs"
| "json_data (JObj fs) \<longleftrightarrow> distinct (map fst fs) \<and> list_all (\<lambda>(k, x). json_data x) fs"
| "json_data (JErr c n m) \<longleftrightarrow> False"
| "json_data JUndef \<longleftrightarrow> False"
| "json_data JNull \<longleftrightarrow> True"
| "json_data (JBool b) \<longleftrightarrow> True"
| "json_data (JNum i) \<longleftrightarrow> True"
| "json_data (JStr s) \<longleftrightarrow> True"
  by pat_completeness auto
termination
  by (relation "measure js_measure")
    (auto dest: size_elem size_field simp: js_measure_def)

lemma json_data_defined: "json_data v \<Longrightarrow> v \<noteq> JUndef"
  by auto

lemma json_data_copy: "json_data v \<Longrightarrow> json_copy v = v"
proof (induction v rule: json_copy.induct)
  case (1 xs)
  then show ?case by (auto simp: list_all_iff intro!: map_idI dest: json_data_defined)
next
  case (2 fs)
  then have "filter (\<lambda>(k, x). x \<noteq> JUndef) fs = fs" by (auto simp: list_all_iff filter_id_conv dest: json_data_defined)
  then show ?case using 2 by (auto simp: list_all_iff intro!: map_idI)
qed auto

lemma skip_ws_Cons [simp]: "\<not> json_space c \<Longrightarrow> skip_ws (c # cs) = c # cs"
  by (simp add: skip_ws_def)

lemma json_space_simps [simp]:
  "\<not> json_space (CHR 0x22)" "\<not> json_space (CHR '','')" "\<not> json_space (CHR '':'')" "\<not> json_space (CHR '']'')"
  "\<not> json_space (CHR ''}'')" "\<not> json_space (CHR ''['')" "\<not> json_space (CHR ''{'')" "\<not> json_space (CHR ''t'')"
  "\<not> json_space (CHR ''f'')" "\<not> json_space (CHR ''n'')" "\<not> json_space (CHR ''-'')"
  by (simp_all add: json_space_def)

lemma hex_table: "list_all (\<lambda>n. hex_value (''0123456789abcdef'' ! n) = Some n) [0..<16]"
  by code_simp

lemma hex_value_digit: "n < 16 \<Longrightarrow> hex_value (''0123456789abcdef'' ! n) = Some n"
  using hex_table by (simp add: list_all_iff)

lemma hex_value_zero [simp]: "hex_value (CHR ''0'') = Some 0" by code_simp

lemma parse_json_escape: "parse_chars (json_escape c @ cs) = map_option (\<lambda>(s, r). (c # s, r)) (parse_chars cs)"
proof -
  have "char_of (of_char c div 16 * 16 + of_char c mod 16 :: nat) = c" by simp
  moreover have "hex_value (''0123456789abcdef'' ! (of_char c div 16)) = Some (of_char c div 16)" if "of_char c < (32::nat)"
    using that by (intro hex_value_digit) simp
  moreover have "hex_value (''0123456789abcdef'' ! (of_char c mod 16)) = Some (of_char c mod 16)" by (intro hex_value_digit) simp
  ultimately show ?thesis
    by (auto simp: json_escape_def simp del: nth_Cons_numeral) 
qed

lemma parse_json_quote: "parse_chars (concat (map json_escape s) @ CHR 0x22 # cs) = Some (s, cs)"
  by (induction s) (simp_all add: parse_json_escape)

definition json_text :: "js \<Rightarrow> string" where
  "json_text v = the_default '''' (stringify v)"

definition no_digit_first :: "string \<Rightarrow> bool" where
  "no_digit_first s \<longleftrightarrow> (case s of [] \<Rightarrow> True | c # cs \<Rightarrow> c \<notin> set ''0123456789'')"

lemma nat_str_first: "hd (nat_str n) = CHR ''0'' \<longleftrightarrow> n = 0"
proof (induction n rule: nat_str.induct)
  case (1 n)
  show ?case
  proof (cases "n < 10")
    case True
    then show ?thesis by (elim less_10_cases) (simp_all add: nat_str_eval)
  next
    case False
    then show ?thesis using 1 by (simp add: nat_str_large)
  qed
qed

lemma takeWhile_digits:
  assumes "no_digit_first rest"
  shows "takeWhile (\<lambda>c. c \<in> set ''0123456789'') (nat_str n @ rest) = nat_str n"
    and "dropWhile (\<lambda>c. c \<in> set ''0123456789'') (nat_str n @ rest) = rest"
proof -
  have "\<forall>c \<in> set (nat_str n). c \<in> set ''0123456789''" using set_nat_str [of n] by blast
  then show "takeWhile (\<lambda>c. c \<in> set ''0123456789'') (nat_str n @ rest) = nat_str n"
    and "dropWhile (\<lambda>c. c \<in> set ''0123456789'') (nat_str n @ rest) = rest"
    using assms by (cases rest; simp add: no_digit_first_def takeWhile_append2 dropWhile_append2 del: set_simps)+
qed

lemma parse_nat:
  assumes "no_digit_first rest"
  shows "parse_number (nat_str n @ rest) = Some (JNum (int n), rest)"
    and "parse_number (CHR ''-'' # nat_str n @ rest) = Some (JNum (- int n), rest)"
proof -
  obtain d ds where ds: "nat_str n = d # ds" by (cases "nat_str n") auto
  then have "d \<in> set ''0123456789''" using set_nat_str [of n] by auto
  then have sign: "d \<noteq> CHR ''-''" by auto
  have zero: "\<not> (length (nat_str n) > 1 \<and> hd (nat_str n) = CHR ''0'')"
    using nat_str_first [of n] nat_str_small [of n] by auto
  note digits = takeWhile_digits [OF assms, of n]
  show "parse_number (nat_str n @ rest) = Some (JNum (int n), rest)"
    using digits zero sign by (simp add: parse_number_def ds Let_def str_nat_nat_str [of n, unfolded ds] del: set_simps)
  show "parse_number (CHR ''-'' # nat_str n @ rest) = Some (JNum (- int n), rest)"
    using digits zero by (simp add: parse_number_def Let_def str_nat_nat_str del: set_simps)
qed

lemma parse_int: "no_digit_first rest \<Longrightarrow> parse_number (int_str i @ rest) = Some (JNum i, rest)"
  using parse_nat [of rest "nat i"] parse_nat [of rest "nat (- i)"] by (simp add: int_str_def)

text \<open>The first character of a printed value.\<close>

lemma int_str_first: "\<exists>c cs. int_str i = c # cs \<and> c \<in> set ''-0123456789''"
proof -
  have "\<exists>c cs. nat_str n = c # cs \<and> c \<in> set ''-0123456789''" for n
    using set_nat_str [of n] by (cases "nat_str n") auto
  then show ?thesis by (auto simp: int_str_def)
qed

lemma json_text_first:
  "v \<noteq> JUndef \<Longrightarrow> \<exists>c cs. json_text v = c # cs \<and> \<not> json_space c \<and> c \<noteq> CHR '']'' \<and> c \<noteq> CHR ''}''"
proof (cases v)
  case (JNum i)
  then show ?thesis using int_str_first [of i] by (auto simp: json_text_def json_space_def)
qed (auto simp: json_text_def json_quote_def)

definition parses :: "js \<Rightarrow> bool" where
  "parses v \<longleftrightarrow> (\<forall>n rest. length (json_text v) \<le> n \<longrightarrow> no_digit_first rest \<longrightarrow>
     parse_value n (json_text v @ rest) = Some (v, rest))"

lemma no_digit_first_simps [simp]:
  "no_digit_first []" "no_digit_first (CHR '','' # cs)" "no_digit_first (CHR '']'' # cs)" "no_digit_first (CHR ''}'' # cs)"
  by (simp_all add: no_digit_first_def)

lemma parse_elements_text:
  assumes "xs \<noteq> []" and "\<forall>x \<in> set xs. parses x" and "length (join_with '','' (map json_text xs)) < n"
  shows "parse_elements n (join_with '','' (map json_text xs) @ CHR '']'' # rest) = Some (xs, rest)"
  using assms
proof (induction xs arbitrary: n)
  case Nil
  then show ?case by simp
next
  case (Cons x xs)
  then obtain m where n: "n = Suc m" by (cases n) auto
  show ?case
  proof (cases xs)
    case Nil
    then have "parse_value m (json_text x @ CHR '']'' # rest) = Some (x, CHR '']'' # rest)"
      using Cons.prems(2,3) by (simp add: parses_def n)
    then show ?thesis by (simp add: n Nil)
  next
    case (Cons y ys)
    define tail where "tail = join_with '','' (map json_text xs)"
    have join: "join_with '','' (map json_text (x # xs)) = json_text x @ CHR '','' # tail"
      by (simp add: tail_def Cons)
    have "parse_value m (json_text x @ CHR '','' # tail @ CHR '']'' # rest) = Some (x, CHR '','' # tail @ CHR '']'' # rest)"
      using Cons.prems(2,3) join by (simp add: parses_def n)
    moreover have "parse_elements m (tail @ CHR '']'' # rest) = Some (xs, rest)"
      unfolding tail_def using Cons.prems(2,3) join Cons by (intro Cons.IH) (simp_all add: n tail_def)
    ultimately show ?thesis unfolding join by (simp add: n)
  qed
qed

definition member_text :: "string \<times> js \<Rightarrow> string" where
  "member_text kv = json_quote (fst kv) @ CHR '':'' # json_text (snd kv)"

lemma parse_member:
  assumes "parses v" and "length (json_text v) \<le> m" and "no_digit_first r"
  shows "parse_members (Suc m) (member_text (k, v) @ r) =
    (case skip_ws r of
       [] \<Rightarrow> None
     | c # r'' \<Rightarrow>
         if c = CHR '','' then map_option (\<lambda>(kvs, q). ((k, v) # kvs, q)) (parse_members m r'')
         else if c = CHR ''}'' then Some ([(k, v)], r'')
         else None)"
proof -
  have "parse_chars (concat (map json_escape k) @ CHR 0x22 # CHR '':'' # json_text v @ r) = Some (k, CHR '':'' # json_text v @ r)"
    by (rule parse_json_quote)
  moreover have "parse_value m (json_text v @ r) = Some (v, r)" using assms by (simp add: parses_def)
  ultimately show ?thesis by (simp add: member_text_def json_quote_def)
qed

lemma parse_members_text:
  assumes "fs \<noteq> []" and "\<forall>(k, x) \<in> set fs. parses x" and "length (join_with '','' (map member_text fs)) < n"
  shows "parse_members n (join_with '','' (map member_text fs) @ CHR ''}'' # rest) = Some (fs, rest)"
  using assms
proof (induction fs arbitrary: n)
  case Nil
  then show ?case by simp
next
  case (Cons f fs)
  obtain k v where f: "f = (k, v)" by fastforce
  obtain m where n: "n = Suc m" using Cons.prems(3) by (cases n) auto
  have v: "parses v" using Cons.prems(2) f by simp
  show ?case
  proof (cases fs)
    case Nil
    then have "length (json_text v) \<le> m" using Cons.prems(3) by (simp add: n f member_text_def)
    then show ?thesis using parse_member [OF v, of m "CHR ''}'' # rest" k] by (simp add: n Nil f)
  next
    case (Cons g gs)
    define tail where "tail = join_with '','' (map member_text fs)"
    have join: "join_with '','' (map member_text (f # fs)) = member_text (k, v) @ CHR '','' # tail"
      by (simp add: tail_def Cons f)
    have "length (json_text v) \<le> m" using Cons.prems(3) unfolding join by (simp add: n member_text_def)
    moreover have "parse_members m (tail @ CHR ''}'' # rest) = Some (fs, rest)"
      unfolding tail_def using Cons.prems(2,3) join Cons by (intro Cons.IH) (simp_all add: n tail_def)
    ultimately show ?thesis using parse_member [OF v, of m "CHR '','' # tail @ CHR ''}'' # rest" k]
      unfolding join by (simp add: n f)
  qed
qed

lemma from_entries_distinct:
  "distinct (map fst fs) \<Longrightarrow> foldl (\<lambda>t (k, v). om_set k v t) [] fs = fs"
proof -
  have "distinct (map fst (ts @ fs)) \<Longrightarrow> foldl (\<lambda>t (k, v). om_set k v t) ts fs = ts @ fs" for ts
  proof (induction fs arbitrary: ts)
    case Nil
    then show ?case by simp
  next
    case (Cons f fs)
    obtain k v where f: "f = (k, v)" by fastforce
    have "om_set k v ts = ts @ [(k, v)]"
      using Cons.prems by (induction ts) (auto simp: f)
    then show ?case using Cons.IH [of "ts @ [(k, v)]"] Cons.prems by (simp add: f)
  qed
  from this [of "[]"] show "distinct (map fst fs) \<Longrightarrow> foldl (\<lambda>t (k, v). om_set k v t) [] fs = fs" by simp
qed

lemma json_text_simps:
  "json_data (JArr xs) \<Longrightarrow> json_text (JArr xs) = ''['' @ join_with '','' (map json_text xs) @ '']''"
  "json_data (JObj fs) \<Longrightarrow> json_text (JObj fs) = ''{'' @ join_with '','' (map member_text fs) @ ''}''"
proof -
  assume data: "json_data (JArr xs)"
  have "the_default ''null'' (stringify x) = json_text x" if "x \<in> set xs" for x
  proof -
    have "stringify x \<noteq> None" using data that by (auto simp: stringify_defined list_all_iff)
    then show ?thesis by (auto simp: json_text_def)
  qed
  then show "json_text (JArr xs) = ''['' @ join_with '','' (map json_text xs) @ '']''"
    by (auto simp: json_text_def [of "JArr xs"] intro!: arg_cong [where f = "join_with '',''"])
next
  assume "json_data (JObj fs)"
  then have "filter (\<lambda>(k, x). x \<noteq> JUndef) fs = fs" by (auto simp: list_all_iff filter_id_conv)
  then show "json_text (JObj fs) = ''{'' @ join_with '','' (map member_text fs) @ ''}''"
    by (auto simp: json_text_def member_text_def case_prod_beta' intro!: arg_cong [where f = "join_with '',''"])
qed

lemma data_parses: "json_data v \<Longrightarrow> parses v"
proof (induction v rule: json_copy.induct)
  case (1 xs)
  have all: "\<forall>x \<in> set xs. parses x" using 1 by (auto simp: list_all_iff dest: json_data_defined)
  show ?case
    unfolding parses_def json_text_simps(1) [OF "1.prems"]
  proof (intro allI impI)
    fix n rest
    assume n: "length (''['' @ join_with '','' (map json_text xs) @ '']'') \<le> n"
    then obtain m where m: "n = Suc m" by (cases n) auto
    show "parse_value n ((''['' @ join_with '','' (map json_text xs) @ '']'') @ rest) = Some (JArr xs, rest)"
    proof (cases xs)
      case Nil
      then show ?thesis by (simp add: m)
    next
      case (Cons x ys)
      then obtain c cs where "join_with '','' (map json_text xs) = c # cs" "\<not> json_space c" "c \<noteq> CHR '']''"
        using json_text_first [of x] json_data_defined [of x] "1.prems" by (cases ys) auto
      then show ?thesis using parse_elements_text [of xs m rest] all n Cons by (simp add: m)
    qed
  qed
next
  case (2 fs)
  have all: "\<forall>(k, x) \<in> set fs. parses x" 
  proof clarify
    fix k x
    assume kx: "(k, x) \<in> set fs"
    then have "json_data x" using "2.prems" by (auto simp: list_all_iff)
    then show "parses x" using "2.IH" [of "(k, x)" k x] kx json_data_defined [of x] by simp
  qed
  have distinct: "distinct (map fst fs)" using "2.prems" by simp
  show ?case
    unfolding parses_def json_text_simps(2) [OF "2.prems"]
  proof (intro allI impI)
    fix n rest
    assume n: "length (''{'' @ join_with '','' (map member_text fs) @ ''}'') \<le> n"
    then obtain m where m: "n = Suc m" by (cases n) auto
    show "parse_value n ((''{'' @ join_with '','' (map member_text fs) @ ''}'') @ rest) = Some (JObj fs, rest)"
    proof (cases fs)
      case Nil
      then show ?thesis by (simp add: m)
    next
      case (Cons x ys)
      then obtain cs where "join_with '','' (map member_text fs) = CHR 0x22 # cs"
        by (cases ys) (auto simp: member_text_def json_quote_def)
      then show ?thesis using parse_members_text [of fs m rest] all n Cons from_entries_distinct [OF distinct] by (simp add: m)
    qed
  qed
next
  case (7 i)
  show ?case
    unfolding parses_def
  proof (intro allI impI)
    fix n rest
    assume n: "length (json_text (JNum i)) \<le> n" and rest: "no_digit_first rest"
    obtain c cs where c: "int_str i = c # cs" "c \<in> set ''-0123456789''" using int_str_first by blast
    then obtain m where m: "n = Suc m" using n by (cases n) (auto simp: json_text_def)
    have "\<not> json_space c" "c \<noteq> CHR 0x22" "c \<noteq> CHR ''[''" "c \<noteq> CHR ''{''" "c \<noteq> CHR ''t''" "c \<noteq> CHR ''f''" "c \<noteq> CHR ''n''"
      using c(2) by (auto simp: json_space_def)
    then show "parse_value n (json_text (JNum i) @ rest) = Some (JNum i, rest)"
      using parse_int [OF rest, of i] c(1) by (simp add: m json_text_def)
  qed
next
  case (8 s)
  show ?case
    unfolding parses_def
  proof (intro allI impI)
    fix n rest
    assume "length (json_text (JStr s)) \<le> n"
    then obtain m where "n = Suc m" by (cases n) (auto simp: json_text_def json_quote_def)
    then show "parse_value n (json_text (JStr s) @ rest) = Some (JStr s, rest)"
      by (simp add: json_text_def json_quote_def parse_json_quote)
  qed
next
  case (6 b)
  show ?case
    unfolding parses_def
  proof (intro allI impI)
    fix n rest
    assume "length (json_text (JBool b)) \<le> n"
    then obtain m where "n = Suc m" by (cases n) (auto simp: json_text_def split: if_splits)
    then show "parse_value n (json_text (JBool b) @ rest) = Some (JBool b, rest)"
      by (cases b) (simp_all add: json_text_def)
  qed
next
  case 5
  show ?case
    unfolding parses_def
  proof (intro allI impI)
    fix n rest
    assume "length (json_text JNull) \<le> n"
    then obtain m where "n = Suc m" by (cases n) (auto simp: json_text_def)
    then show "parse_value n (json_text JNull @ rest) = Some (JNull, rest)" by (simp add: json_text_def)
  qed
qed simp_all

lemma json_parse_stringify:
  assumes "json_data v"
  shows "json_parse (json_text v) = Some v"
proof -
  have "parse_value (Suc (length (json_text v))) (json_text v @ []) = Some (v, [])"
    using data_parses [OF assms] unfolding parses_def by (meson le_SucI order_refl no_digit_first_simps(1))
  then show ?thesis by (simp add: json_parse_def skip_ws_def del: parse_value.simps)
qed

end
