(* ===== verification/ExecutionStores.thy ===== *)
theory ExecutionStores
  imports EntityKeys WorkflowEvents Pagination ExecutionIds
begin

text \<open>
  What the runtime keeps of executions and tasks, core-runtime/src/local/stores: executions
  (execution-store.ts), their event histories (execution-history-store.ts) and tasks
  (task-store.ts). Times are milliseconds. Objects that are used as tables are ordered maps.
\<close>

section \<open>Executions\<close>

datatype execution_status = IN_PROGRESS | SUCCEEDED | FAILED

fun status_text :: "execution_status \<Rightarrow> string" where
  "status_text IN_PROGRESS = ''IN_PROGRESS''"
| "status_text SUCCEEDED = ''SUCCEEDED''"
| "status_text FAILED = ''FAILED''"

record execution =
  ex_id :: string
  ex_startTime :: int
  ex_workflowName :: string
  ex_status :: execution_status
  ex_inputHash :: "string option"
  ex_parent :: "(string \<times> nat) option"
  ex_endTime :: "int option"
  ex_result :: js
  ex_error :: "string option"
  ex_message :: "string option"

datatype complete_request =
    SucceedExecutionRequest string int js
  | FailExecutionRequest string int string string

fun request_executionId :: "complete_request \<Rightarrow> string" where
  "request_executionId (SucceedExecutionRequest i endTime result) = i"
| "request_executionId (FailExecutionRequest i endTime error message) = i"

record list_executions_request =
  le_statuses :: "execution_status list option"
  le_workflowName :: "string option"
  le_sortDirection :: "direction option"

record local_executions =
  lx_store :: "(string, execution) omap"
  lx_tasks :: "(string \<times> workflow_event list) list"

definition LocalExecutionStore_create :: "execution \<Rightarrow> workflow_event option \<Rightarrow> (local_executions, unit) act" where
  "LocalExecutionStore_create e startEvent st =
     (let st = st\<lparr>lx_store := om_set (ex_id e) e (lx_store st)\<rparr>
      in (case startEvent of
            None \<Rightarrow> st
          | Some event \<Rightarrow> st\<lparr>lx_tasks := lx_tasks st @ [(ex_id e, [event])]\<rparr>, Inr ()))"

definition completed_execution :: "complete_request \<Rightarrow> execution \<Rightarrow> execution" where
  "completed_execution request e =
     (case request of
        FailExecutionRequest i endTime error message \<Rightarrow>
          e\<lparr>ex_endTime := Some endTime, ex_error := Some error, ex_message := Some message, ex_status := FAILED\<rparr>
      | SucceedExecutionRequest i endTime result \<Rightarrow>
          e\<lparr>ex_endTime := Some endTime, ex_result := result, ex_status := SUCCEEDED\<rparr>)"

definition LocalExecutionStore_update :: "complete_request \<Rightarrow> (local_executions, execution) act" where
  "LocalExecutionStore_update request st =
     (case om_get (lx_store st) (request_executionId request) of
        None \<Rightarrow> (st, Inl (mk_Error (''Execution '' @ request_executionId request @ '' does not exist.'')))
      | Some e \<Rightarrow>
          (let updated = completed_execution request e
           in (st\<lparr>lx_store := om_set (ex_id e) updated (lx_store st)\<rparr>, Inr updated)))"

definition LocalExecutionStore_get :: "string \<Rightarrow> (local_executions, execution option) act" where
  "LocalExecutionStore_get executionId st = (st, Inr (om_get (lx_store st) executionId))"

text \<open>
  \<open>text in array\<close> asks for a property of the array: an index, its length, or a method.
\<close>

definition array_methods :: "string list" where
  "array_methods = [''length'', ''constructor'', ''at'', ''concat'', ''copyWithin'', ''entries'', ''every'', ''fill'',
     ''filter'', ''find'', ''findIndex'', ''findLast'', ''findLastIndex'', ''flat'', ''flatMap'', ''forEach'',
     ''includes'', ''indexOf'', ''join'', ''keys'', ''lastIndexOf'', ''map'', ''pop'', ''push'', ''reduce'',
     ''reduceRight'', ''reverse'', ''shift'', ''slice'', ''some'', ''sort'', ''splice'', ''toLocaleString'',
     ''toString'', ''unshift'', ''values'']"

definition in_array :: "string \<Rightarrow> 'a list \<Rightarrow> bool" where
  "in_array s xs \<longleftrightarrow> list_ex (\<lambda>i. s = nat_str i) [0..<length xs] \<or> s \<in> set array_methods"

definition LocalExecutionStore_list :: "list_executions_request \<Rightarrow> local_executions \<Rightarrow> execution list" where
  "LocalExecutionStore_list request st =
     (let executions = sort_by (\<lambda>a b.
            if le_sortDirection request = Some ASC then ex_startTime a - ex_startTime b
            else ex_startTime b - ex_startTime a) (map snd (lx_store st))
      in filter (\<lambda>e.
           (case le_statuses request of None \<Rightarrow> True | Some statuses \<Rightarrow> in_array (status_text (ex_status e)) statuses) \<and>
           (case le_workflowName request of None \<Rightarrow> True | Some n \<Rightarrow> n = [] \<or> n = ex_workflowName e)) executions)"

section \<open>Histories\<close>

type_synonym history_store = "(string, workflow_event list) omap"

definition putEvents :: "string \<Rightarrow> workflow_event list \<Rightarrow> history_store \<Rightarrow> history_store" where
  "putEvents executionId events st =
     om_set executionId (the_default [] (om_get st executionId) @ events) st"

record list_events_request =
  er_executionId :: string
  er_after :: "int option"
  er_sortDirection :: "direction option"
  er_maxResults :: "nat option"
  er_nextToken :: "string option"

definition event_order :: "workflow_event \<Rightarrow> workflow_event \<Rightarrow> int" where
  "event_order a b =
     (let diff = event_timestamp a - event_timestamp b
      in if diff = 0 then int (event_type_code (event_type a)) - int (event_type_code (event_type b)) else diff)"

definition getEvents :: "list_events_request \<Rightarrow> history_store \<Rightarrow> js + workflow_event page" where
  "getEvents request st =
     paginateItems (the_default [] (om_get st (er_executionId request))) (Some event_order)
       (case er_after request of
          None \<Rightarrow> None
        | Some afterDate \<Rightarrow> if afterDate = 0 then None else Some (\<lambda>event. event_timestamp event > afterDate))
       (er_sortDirection request) (er_maxResults request) (er_nextToken request)"

section \<open>Tasks\<close>

record task_execution =
  te_executionId :: string
  te_seq :: nat
  te_cancelled :: bool
  te_heartbeatTime :: "int option"

type_synonym task_store = "(string, task_execution) omap"

definition local_task_key :: "string \<Rightarrow> nat \<Rightarrow> string" where
  "local_task_key executionId seq = executionId @ nat_str seq"

definition LocalTaskStore_claim :: "string \<Rightarrow> nat \<Rightarrow> nat \<Rightarrow> string option \<Rightarrow> (task_store, bool) act" where
  "LocalTaskStore_claim executionId seq retry claimer st = (st, Inr True)"

definition LocalTaskStore_heartbeat :: "string \<Rightarrow> nat \<Rightarrow> int \<Rightarrow> (task_store, task_execution) act" where
  "LocalTaskStore_heartbeat executionId seq heartbeatTime st =
     (let task = (the_default \<lparr>te_executionId = executionId, te_seq = seq, te_cancelled = False, te_heartbeatTime = None\<rparr>
            (om_get st (local_task_key executionId seq)))\<lparr>te_heartbeatTime := Some heartbeatTime\<rparr>
      in (om_set (local_task_key executionId seq) task st, Inr task))"

definition LocalTaskStore_cancel :: "string \<Rightarrow> nat \<Rightarrow> (task_store, unit) act" where
  "LocalTaskStore_cancel executionId seq st =
     (let task = (the_default \<lparr>te_executionId = executionId, te_seq = seq, te_cancelled = True, te_heartbeatTime = None\<rparr>
            (om_get st (local_task_key executionId seq)))\<lparr>te_cancelled := True\<rparr>
      in (om_set (local_task_key executionId seq) task st, Inr ()))"

definition LocalTaskStore_get :: "string \<Rightarrow> nat \<Rightarrow> (task_store, task_execution option) act" where
  "LocalTaskStore_get executionId seq st = (st, Inr (om_get st (local_task_key executionId seq)))"

section \<open>Properties\<close>

lemma in_array_status: "\<not> in_array (status_text s) xs"
proof -
  have "status_text s \<noteq> nat_str i" for i
  proof
    assume "status_text s = nat_str i"
    then have "set (status_text s) \<subseteq> set ''0123456789''" using set_nat_str by metis
    then show False by (cases s) auto
  qed
  moreover have "status_text s \<notin> set array_methods" by (cases s) (simp_all add: array_methods_def)
  ultimately show ?thesis by (simp add: in_array_def list_ex_iff)
qed

text \<open>
  Listing the executions of the local runtime by their status finds nothing, whatever is
  stored: a status is looked up among the indices of the list of statuses.
\<close>

theorem list_by_status_is_empty:
  assumes "le_statuses request = Some statuses"
  shows "LocalExecutionStore_list request st = []"
  using assms by (simp add: LocalExecutionStore_list_def in_array_status)

lemma list_by_status_is_empty_witness:
  "LocalExecutionStore_list \<lparr>le_statuses = Some [IN_PROGRESS], le_workflowName = None, le_sortDirection = None\<rparr>
     \<lparr>lx_store = [(''w/a'', \<lparr>ex_id = ''w/a'', ex_startTime = 1, ex_workflowName = ''w'', ex_status = IN_PROGRESS,
        ex_inputHash = None, ex_parent = None, ex_endTime = None, ex_result = JUndef, ex_error = None, ex_message = None\<rparr>)],
      lx_tasks = []\<rparr> = []"
  by (rule list_by_status_is_empty) simp

text \<open>
  The tasks of an execution whose id continues another id with a digit share their
  records with the tasks of that one: cancelling task \<open>1n\<close> of an execution cancels task \<open>n\<close> of the
  execution with the id that ends in one more \<open>1\<close>.
\<close>

theorem cancel_reaches_other_execution:
  assumes "nat_str seq = d # nat_str n"
  shows "map_option te_cancelled (the_default None (case LocalTaskStore_get (executionId @ [d]) n
     (fst (LocalTaskStore_cancel executionId seq st)) of (_, Inr t) \<Rightarrow> Some t | _ \<Rightarrow> None)) = Some True"
proof -
  have "local_task_key executionId seq = local_task_key (executionId @ [d]) n"
    using assms by (simp add: local_task_key_def)
  then show ?thesis by (simp add: LocalTaskStore_get_def LocalTaskStore_cancel_def Let_def om_get_set)
qed

lemma cancel_reaches_other_execution_witness:
  "map_option te_cancelled (the_default None (case LocalTaskStore_get ''w/run1'' 2
     (fst (LocalTaskStore_cancel ''w/run'' 12 [])) of (_, Inr t) \<Rightarrow> Some t | _ \<Rightarrow> None)) = Some True"
  using cancel_reaches_other_execution [of 12 "CHR ''1''" 2 "''w/run''" "[]"] by (simp add: nat_str_eval)

text \<open>Events are read back in the order of their times, those of one time in the order of their types.\<close>

lemma events_of_execution:
  assumes "er_after request = None"
  shows "getEvents request st =
    paginateItems (the_default [] (om_get st (er_executionId request))) (Some event_order) None
      (er_sortDirection request) (er_maxResults request) (er_nextToken request)"
  using assms by (simp add: getEvents_def)

lemma putEvents_keeps_others: "i \<noteq> j \<Longrightarrow> om_get (putEvents i events st) j = om_get st j"
  by (simp add: putEvents_def om_get_set)

end
