(* ===== verification/ExecutionClients.thy ===== *)
theory ExecutionClients
  imports ExecutionStores JsonText RuntimeUtils Base64 Schedules
begin

text \<open>
  core-runtime/src/clients/workflow-client.ts, task-client.ts and core-runtime/src/task-token.ts:
  starting and completing executions, and reporting on tasks from outside of a worker.

  The stores are records of operations over a state of their own. What the clients submit to the
  queue of executions is kept in the order of submission. The log client may fail; it and \<open>inspect\<close>
  are parameters, and so are new ids and the current time.
\<close>

section \<open>Starting and completing executions\<close>

record 's execution_store =
  st_create :: "execution \<Rightarrow> workflow_event option \<Rightarrow> ('s, unit) act"
  st_update :: "complete_request \<Rightarrow> ('s, execution) act"
  st_get :: "string \<Rightarrow> ('s, execution option) act"

record client_env =
  env_workflowExists :: "string \<Rightarrow> bool"
  env_initializeExecutionLog :: "string \<Rightarrow> js option"
  env_putExecutionLogs :: "string \<Rightarrow> js option"
  env_inspect :: "js \<Rightarrow> string"

record start_request =
  sr_executionName :: "string option"
  sr_workflow :: string
  sr_input :: js
  sr_timeout :: "schedule option"
  sr_parent :: "(string \<times> nat) option"

record start_response =
  sp_executionId :: string
  sp_alreadyRunning :: bool

definition validateExecutionName :: "string \<Rightarrow> bool \<Rightarrow> js option" where
  "validateExecutionName name isChild =
     (if \<not> isChild \<and> starts_with name INTERNAL_EXECUTION_ID_PREFIX
      then Some (mk_Error (''Execution names may not start with '' @ INTERNAL_EXECUTION_ID_PREFIX)) else None)"

definition input_hash :: "js \<Rightarrow> string option" where
  "input_hash v = (if v \<noteq> JUndef then Some (hex_str (hashCode (json_text v))) else None)"

definition new_execution :: "string \<Rightarrow> start_request \<Rightarrow> int \<Rightarrow> execution" where
  "new_execution name request now =
     \<lparr>ex_id = formatExecutionId (sr_workflow request) name, ex_startTime = now,
      ex_workflowName = sr_workflow request, ex_status = IN_PROGRESS, ex_inputHash = input_hash (sr_input request),
      ex_parent = sr_parent request, ex_endTime = None, ex_result = JUndef, ex_error = None, ex_message = None\<rparr>"

definition started_event :: "string \<Rightarrow> string \<Rightarrow> start_request \<Rightarrow> int \<Rightarrow> workflow_event" where
  "started_event eventId name request now =
     createEvent (WorkflowStarted '''' 0 (sr_workflow request) (sr_input request)
       (map_option (\<lambda>timeout. computeScheduleDate timeout now) (sr_timeout request))
       name (map_option fst (sr_parent request))) now eventId"

definition is_already_exists :: "js \<Rightarrow> bool" where
  "is_already_exists err = (case err of JErr EExecutionAlreadyExists n m \<Rightarrow> True | _ \<Rightarrow> False)"

definition start_failed :: "client_env \<Rightarrow> js \<Rightarrow> js" where
  "start_failed env err = mk_Error (''Something went wrong starting a workflow: '' @ env_inspect env err)"

definition create_execution ::
  "'s execution_store \<Rightarrow> execution \<Rightarrow> workflow_event \<Rightarrow> ('s, bool) act" where
  "create_execution store e event s =
     (case st_create store e (Some event) s of
        (s', Inr _) \<Rightarrow> (s', Inr False)
      | (s', Inl err) \<Rightarrow>
          if is_already_exists err
          then (case st_get store (ex_id e) s' of
                  (s'', Inl err') \<Rightarrow> (s'', Inl err')
                | (s'', Inr found) \<Rightarrow>
                    (s'', if Option.bind found ex_inputHash = ex_inputHash e then Inr True else Inl err))
          else (s', Inl err))"

definition startExecution ::
  "client_env \<Rightarrow> 's execution_store \<Rightarrow> string \<Rightarrow> string \<Rightarrow> int \<Rightarrow> start_request \<Rightarrow> ('s, start_response) act" where
  "startExecution env store newName eventId now request s =
     (let name = the_default newName (sr_executionName request)
      in if \<not> env_workflowExists env (sr_workflow request)
         then (s, Inl (mk_Error (''Workflow '' @ sr_workflow request @ '' does not exist in the service.'')))
         else case validateExecutionName name (sr_parent request \<noteq> None) of
           Some err \<Rightarrow> (s, Inl err)
         | None \<Rightarrow>
             (let e = new_execution name request now
              in case env_initializeExecutionLog env (ex_id e) of
                   Some err \<Rightarrow> (s, Inl (start_failed env err))
                 | None \<Rightarrow>
                     (case create_execution store e (started_event eventId name request now) s of
                        (s', Inl err) \<Rightarrow> (s', Inl (start_failed env err))
                      | (s', Inr True) \<Rightarrow> (s', Inr \<lparr>sp_executionId = ex_id e, sp_alreadyRunning = True\<rparr>)
                      | (s', Inr False) \<Rightarrow>
                          (s', case env_putExecutionLogs env (ex_id e) of
                             Some err \<Rightarrow> Inl (start_failed env err)
                           | None \<Rightarrow> Inr \<lparr>sp_executionId = ex_id e, sp_alreadyRunning = False\<rparr>))))"

text \<open>The store with what is submitted to the queue of executions.\<close>

record 's client_state =
  cs_store :: 's
  cs_submitted :: "(string \<times> workflow_event list) list"

definition submitExecutionEvents :: "string \<Rightarrow> workflow_event list \<Rightarrow> 's client_state \<Rightarrow> 's client_state" where
  "submitExecutionEvents executionId events s = s\<lparr>cs_submitted := cs_submitted s @ [(executionId, events)]\<rparr>"

definition completion_event :: "complete_request \<Rightarrow> nat \<Rightarrow> int \<Rightarrow> workflow_event" where
  "completion_event request seq now =
     (case request of
        SucceedExecutionRequest i endTime result \<Rightarrow> ChildWorkflowSucceeded seq now result
      | FailExecutionRequest i endTime err message \<Rightarrow> ChildWorkflowFailed seq now err (Some message))"

text \<open>\<open>succeedExecution\<close> and \<open>failExecution\<close>, which report to the parent alike.\<close>

definition completeExecution :: "'s execution_store \<Rightarrow> int \<Rightarrow> complete_request \<Rightarrow> ('s client_state, execution) act" where
  "completeExecution store now request s =
     (case st_update store request (cs_store s) of
        (t, Inl err) \<Rightarrow> (s\<lparr>cs_store := t\<rparr>, Inl err)
      | (t, Inr e) \<Rightarrow>
          (case ex_parent e of
             None \<Rightarrow> (s\<lparr>cs_store := t\<rparr>, Inr e)
           | Some (parent, seq) \<Rightarrow>
               (submitExecutionEvents parent [completion_event request seq now] (s\<lparr>cs_store := t\<rparr>), Inr e)))"

section \<open>Task tokens\<close>

definition task_token :: "string \<Rightarrow> nat \<Rightarrow> js" where
  "task_token executionId seq =
     JObj [(''payload'', JObj [(''executionId'', JStr executionId), (''seq'', JNum (int seq))]), (''version'', JNum 1)]"

definition createTaskToken :: "string \<Rightarrow> nat \<Rightarrow> string" where
  "createTaskToken executionId seq = b64_encode (json_text (task_token executionId seq))"

definition decodeTaskToken :: "string \<Rightarrow> js + js" where
  "decodeTaskToken token =
     (case json_parse (b64_decode token) of
        Some v \<Rightarrow> Inr v
      | None \<Rightarrow> Inl (JErr EError ''SyntaxError'' ''Unexpected token in JSON''))"

text \<open>
  \<open>data.payload.executionId\<close> and \<open>data.payload.seq\<close>, of a token that was made by \<open>createTaskToken\<close>;
  anything else is an error here.
\<close>

definition token_payload :: "string \<Rightarrow> js + string \<times> nat" where
  "token_payload token =
     try_bind (decodeTaskToken token) (\<lambda>v.
       case (js_get (js_get v ''payload'') ''executionId'', js_get (js_get v ''payload'') ''seq'') of
         (JStr i, JNum n) \<Rightarrow> Inr (i, nat n)
       | _ \<Rightarrow> Inl (mk_TypeError ''Cannot read properties of undefined (reading 'executionId')''))"

section \<open>Reporting on tasks\<close>

record 't task_store_ops =
  tt_claim :: "string \<Rightarrow> nat \<Rightarrow> nat \<Rightarrow> string option \<Rightarrow> ('t, bool) act"
  tt_heartbeat :: "string \<Rightarrow> nat \<Rightarrow> int \<Rightarrow> ('t, task_execution) act"
  tt_cancel :: "string \<Rightarrow> nat \<Rightarrow> ('t, unit) act"
  tt_get :: "string \<Rightarrow> nat \<Rightarrow> ('t, task_execution option) act"

definition sendHeartbeat ::
  "'s execution_store \<Rightarrow> 't task_store_ops \<Rightarrow> int \<Rightarrow> string \<Rightarrow> ('s \<times> 't, bool) act" where
  "sendHeartbeat store tasks now taskToken st =
     (case st of (s, t) \<Rightarrow>
        (case token_payload taskToken of
           Inl err \<Rightarrow> ((s, t), Inl err)
         | Inr (executionId, seq) \<Rightarrow>
             (case st_get store executionId s of
                (s', Inl err) \<Rightarrow> ((s', t), Inl err)
              | (s', Inr found) \<Rightarrow>
                  if map_option ex_status found \<noteq> Some IN_PROGRESS then ((s', t), Inr True)
                  else (case tt_heartbeat tasks executionId seq now t of
                          (t', Inl err) \<Rightarrow> ((s', t'), Inl err)
                        | (t', Inr task) \<Rightarrow> ((s', t'), Inr (te_cancelled task))))))"

definition sendTaskResult :: "int \<Rightarrow> string \<Rightarrow> (nat \<Rightarrow> workflow_event) \<Rightarrow> ('s client_state, unit) act" where
  "sendTaskResult now taskToken event s =
     (case token_payload taskToken of
        Inl err \<Rightarrow> (s, Inl err)
      | Inr (executionId, seq) \<Rightarrow>
          (submitExecutionEvents executionId [createEvent (event seq) now ''''] s, Inr ()))"

definition sendSuccess :: "int \<Rightarrow> string \<Rightarrow> js \<Rightarrow> ('s client_state, unit) act" where
  "sendSuccess now taskToken result = sendTaskResult now taskToken (\<lambda>seq. TaskSucceeded seq 0 result)"

definition sendFailure :: "int \<Rightarrow> string \<Rightarrow> string \<Rightarrow> string option \<Rightarrow> ('s client_state, unit) act" where
  "sendFailure now taskToken err message = sendTaskResult now taskToken (\<lambda>seq. TaskFailed seq 0 err message)"

section \<open>What stores promise\<close>

definition fresh_execution :: "execution \<Rightarrow> bool" where
  "fresh_execution e \<longleftrightarrow> ex_status e = IN_PROGRESS \<and> ex_endTime e = None \<and> ex_result e = JUndef \<and>
     ex_error e = None \<and> ex_message e = None"

lemma fresh_new_execution: "fresh_execution (new_execution name request now)"
  by (simp add: fresh_execution_def new_execution_def)

text \<open>Results that JSON keeps.\<close>

definition valid_request :: "complete_request \<Rightarrow> bool" where
  "valid_request request = (case request of
     SucceedExecutionRequest i endTime result \<Rightarrow> truthy result \<longrightarrow> json_data result
   | FailExecutionRequest i endTime err message \<Rightarrow> True)"

definition final_status :: "complete_request \<Rightarrow> execution_status" where
  "final_status request = (case request of SucceedExecutionRequest _ _ _ \<Rightarrow> SUCCEEDED | FailExecutionRequest _ _ _ _ \<Rightarrow> FAILED)"

text \<open>What clients and orchestrators do with executions: starts and completions.\<close>

datatype execution_op = StartOp string string int start_request | CompleteOp int complete_request

fun execution_op_step :: "client_env \<Rightarrow> 's execution_store \<Rightarrow> execution_op \<Rightarrow> 's \<Rightarrow> 's" where
  "execution_op_step env store (StartOp newName eventId now request) s =
     fst (startExecution env store newName eventId now request s)"
| "execution_op_step env store (CompleteOp now request) s =
     cs_store (fst (completeExecution store now request \<lparr>cs_store = s, cs_submitted = []\<rparr>))"

fun execution_ops :: "client_env \<Rightarrow> 's execution_store \<Rightarrow> execution_op list \<Rightarrow> 's \<Rightarrow> 's" where
  "execution_ops env store [] s = s"
| "execution_ops env store (op # os) s = execution_ops env store os (execution_op_step env store op s)"

text \<open>Starts make proper ids, and what completes has been started, with a result that JSON keeps.\<close>

fun op_fits :: "('s \<Rightarrow> string \<Rightarrow> execution option) \<Rightarrow> 's \<Rightarrow> execution_op \<Rightarrow> bool" where
  "op_fits lookup s (StartOp newName eventId now request) \<longleftrightarrow>
     isExecutionId (formatExecutionId (sr_workflow request) (the_default newName (sr_executionName request)))"
| "op_fits lookup s (CompleteOp now request) \<longleftrightarrow>
     lookup s (request_executionId request) \<noteq> None \<and> valid_request request"

fun ops_fit :: "client_env \<Rightarrow> 's execution_store \<Rightarrow> ('s \<Rightarrow> string \<Rightarrow> execution option) \<Rightarrow> 's \<Rightarrow> execution_op list \<Rightarrow> bool" where
  "ops_fit env store lookup s [] \<longleftrightarrow> True"
| "ops_fit env store lookup s (op # os) \<longleftrightarrow>
     op_fits lookup s op \<and> ops_fit env store lookup (execution_op_step env store op s) os"

locale executions =
  fixes store :: "'s execution_store" and inv :: "'s \<Rightarrow> bool" and lookup :: "'s \<Rightarrow> string \<Rightarrow> execution option"
  assumes get: "inv s \<Longrightarrow> st_get store i s = (s, Inr (lookup s i))"
    and create_new: "inv s \<Longrightarrow> lookup s (ex_id e) = None \<Longrightarrow> fresh_execution e \<Longrightarrow>
      \<exists>s'. st_create store e event s = (s', Inr ()) \<and> inv s' \<and> lookup s' = (lookup s)(ex_id e \<mapsto> e)"
    and update: "inv s \<Longrightarrow> lookup s (request_executionId request) = Some e \<Longrightarrow> valid_request request \<Longrightarrow>
      \<exists>s' e'. st_update store request s = (s', Inr e') \<and> inv s' \<and>
        lookup s' = (lookup s)(request_executionId request \<mapsto> e') \<and> ex_parent e' = ex_parent e \<and>
        ex_inputHash e' = ex_inputHash e \<and> ex_status e' = final_status request"
begin

lemma start_new:
  assumes "inv s" and "env_workflowExists env (sr_workflow request)"
    and "validateExecutionName (the_default newName (sr_executionName request)) (sr_parent request \<noteq> None) = None"
    and "\<And>i. env_initializeExecutionLog env i = None" and "\<And>i. env_putExecutionLogs env i = None"
    and "e = new_execution (the_default newName (sr_executionName request)) request now" and "lookup s (ex_id e) = None"
  shows "\<exists>s'. startExecution env store newName eventId now request s =
      (s', Inr \<lparr>sp_executionId = ex_id e, sp_alreadyRunning = False\<rparr>) \<and> inv s' \<and> lookup s' = (lookup s)(ex_id e \<mapsto> e)"
  using create_new [OF assms(1,7), of "Some (started_event eventId (the_default newName (sr_executionName request)) request now)"]
    assms(2-6) fresh_new_execution
  by (auto simp: startExecution_def create_execution_def Let_def)

lemma complete_reports:
  assumes "inv (cs_store s)" and "lookup (cs_store s) (request_executionId request) = Some e" and "valid_request request"
  shows "\<exists>s' e'. completeExecution store now request s = (s', Inr e') \<and> inv (cs_store s') \<and>
    lookup (cs_store s') = (lookup (cs_store s))(request_executionId request \<mapsto> e') \<and>
    ex_status e' = final_status request \<and>
    cs_submitted s' = cs_submitted s @ (case ex_parent e of
        None \<Rightarrow> []
      | Some (parent, seq) \<Rightarrow> [(parent, [completion_event request seq now])])"
  using update [OF assms]
  by (auto simp: completeExecution_def submitExecutionEvents_def split: option.split)

end

text \<open>A store whose \<open>create\<close> keeps its promise that an execution is created only once.\<close>

locale exclusive_executions = executions +
  assumes create_existing: "inv s \<Longrightarrow> lookup s (ex_id e) = Some found \<Longrightarrow> isExecutionId (ex_id e) \<Longrightarrow>
    \<exists>err. st_create store e event s = (s, Inl err) \<and> is_already_exists err"
begin

lemma start_again:
  assumes "inv s" and "env_workflowExists env (sr_workflow request)"
    and "validateExecutionName (the_default newName (sr_executionName request)) (sr_parent request \<noteq> None) = None"
    and "\<And>i. env_initializeExecutionLog env i = None"
    and "i = formatExecutionId (sr_workflow request) (the_default newName (sr_executionName request))"
    and "isExecutionId i" and "lookup s i = Some e"
  shows "\<exists>err. startExecution env store newName eventId now request s =
    (s, if ex_inputHash e = input_hash (sr_input request) then Inr \<lparr>sp_executionId = i, sp_alreadyRunning = True\<rparr> else Inl err)"
proof -
  let ?e = "new_execution (the_default newName (sr_executionName request)) request now"
  have i: "ex_id ?e = i" "ex_inputHash ?e = input_hash (sr_input request)" using assms(5) by (simp_all add: new_execution_def)
  obtain err where "st_create store ?e (Some (started_event eventId (the_default newName (sr_executionName request)) request now)) s
      = (s, Inl err)" "is_already_exists err"
    using create_existing [OF assms(1), of ?e] assms(6,7) i by auto
  then show ?thesis using assms(1-4,7) i
    by (auto simp: startExecution_def create_execution_def Let_def get)
qed

text \<open>Later starts and completions keep an execution and the hash of its input.\<close>

lemma op_keeps_execution:
  assumes "inv s" and "\<And>i. env_initializeExecutionLog env i = None" and "\<And>i. env_putExecutionLogs env i = None"
    and "lookup s i = Some e" and "op_fits lookup s op"
  shows "inv (execution_op_step env store op s) \<and>
    (\<exists>e'. lookup (execution_op_step env store op s) i = Some e' \<and> ex_inputHash e' = ex_inputHash e)"
proof (cases op)
  case (CompleteOp now request)
  then obtain e1 where "lookup s (request_executionId request) = Some e1" "valid_request request"
    using assms(5) by auto
  from update [OF assms(1) this] obtain s' e' where
    "st_update store request s = (s', Inr e')" "inv s'" "lookup s' = (lookup s)(request_executionId request \<mapsto> e')"
    "ex_inputHash e' = ex_inputHash e1" by blast
  with assms(4) \<open>lookup s (request_executionId request) = Some e1\<close> CompleteOp show ?thesis
    by (auto simp: completeExecution_def submitExecutionEvents_def split: option.split)
next
  case (StartOp newName eventId now request)
  let ?n = "the_default newName (sr_executionName request)"
  let ?e = "new_execution ?n request now"
  have id: "isExecutionId (ex_id ?e)" using assms(5) StartOp by (simp add: new_execution_def)
  show ?thesis
  proof (cases "env_workflowExists env (sr_workflow request) \<and> validateExecutionName ?n (sr_parent request \<noteq> None) = None")
    case False
    then show ?thesis using assms(1,4) StartOp by (auto simp: startExecution_def Let_def split: option.split)
  next
    case True
    show ?thesis
    proof (cases "lookup s (ex_id ?e)")
      case None
      with start_new [OF assms(1) _ _ assms(2,3), of request newName ?e now eventId] True assms(4) StartOp
      show ?thesis by auto
    next
      case (Some found)
      with start_again [OF assms(1) _ _ assms(2), of request newName "ex_id ?e" found eventId now] True id assms(1,4) StartOp
      show ?thesis by (auto simp: new_execution_def)
    qed
  qed
qed

lemma ops_keep_execution:
  assumes "inv s" and "\<And>i. env_initializeExecutionLog env i = None" and "\<And>i. env_putExecutionLogs env i = None"
    and "lookup s i = Some e" and "ops_fit env store lookup s os"
  shows "inv (execution_ops env store os s) \<and>
    (\<exists>e'. lookup (execution_ops env store os s) i = Some e' \<and> ex_inputHash e' = ex_inputHash e)"
  using assms(1,4,5)
proof (induction os arbitrary: s e)
  case (Cons op os)
  from op_keeps_execution [OF Cons.prems(1) assms(2,3) Cons.prems(2), of op] Cons.prems(3) obtain e1 where
    1: "inv (execution_op_step env store op s)" "lookup (execution_op_step env store op s) i = Some e1"
      "ex_inputHash e1 = ex_inputHash e" by auto
  from Cons.IH [OF 1(1,2)] Cons.prems(3) 1(3) show ?case by simp
qed simp

end

section \<open>The local store\<close>

definition local_execution_store :: "local_executions execution_store" where
  "local_execution_store =
     \<lparr>st_create = LocalExecutionStore_create, st_update = LocalExecutionStore_update, st_get = LocalExecutionStore_get\<rparr>"

definition local_executions_inv :: "local_executions \<Rightarrow> bool" where
  "local_executions_inv st \<longleftrightarrow> (\<forall>i e. om_get (lx_store st) i = Some e \<longrightarrow> ex_id e = i)"

interpretation local_executions: executions local_execution_store local_executions_inv "\<lambda>st. om_get (lx_store st)"
proof
  fix s i
  show "local_executions_inv s \<Longrightarrow> st_get local_execution_store i s = (s, Inr (om_get (lx_store s) i))"
    by (simp add: local_execution_store_def LocalExecutionStore_get_def)
next
  fix s e event
  show "local_executions_inv s \<Longrightarrow> om_get (lx_store s) (ex_id e) = None \<Longrightarrow> fresh_execution e \<Longrightarrow>
      \<exists>s'. st_create local_execution_store e event s = (s', Inr ()) \<and> local_executions_inv s' \<and>
        om_get (lx_store s') = (om_get (lx_store s))(ex_id e \<mapsto> e)"
    by (cases event) (simp_all add: local_execution_store_def LocalExecutionStore_create_def om_get_set local_executions_inv_def)
next
  fix s request e
  assume "local_executions_inv s" and e: "om_get (lx_store s) (request_executionId request) = Some e"
  then have "ex_id e = request_executionId request" by (simp add: local_executions_inv_def)
  then show "\<exists>s' e'. st_update local_execution_store request s = (s', Inr e') \<and> local_executions_inv s' \<and>
        om_get (lx_store s') = (om_get (lx_store s))(request_executionId request \<mapsto> e') \<and> ex_parent e' = ex_parent e \<and>
        ex_inputHash e' = ex_inputHash e \<and> ex_status e' = final_status request"
    using e \<open>local_executions_inv s\<close>
    by (auto simp: local_execution_store_def LocalExecutionStore_update_def om_get_set local_executions_inv_def
        completed_execution_def final_status_def Let_def split: complete_request.split)
qed

section \<open>Properties\<close>

text \<open>
  C25 (roundtrip): the token of a task names its execution and its number again, whatever the
  execution is called.
\<close>

theorem task_token_roundtrip: "token_payload (createTaskToken executionId seq) = Inr (executionId, seq)"
proof -
  have "json_data (task_token executionId seq)" by (simp add: task_token_def)
  then show ?thesis
    by (simp add: token_payload_def decodeTaskToken_def createTaskToken_def json_parse_stringify task_token_def js_get_def)
qed

text \<open>
  C26 (functional): completing an execution, by success or failure, records its final status and tells
  the parent once, with the sequence number the parent called it by; an execution without a parent
  tells nobody.
\<close>

theorem completion_reaches_parent:
  assumes "local_executions_inv (cs_store s)" and "om_get (lx_store (cs_store s)) (request_executionId request) = Some e"
    and "valid_request request"
  shows "\<exists>s' e'. completeExecution local_execution_store now request s = (s', Inr e') \<and>
    om_get (lx_store (cs_store s')) = (om_get (lx_store (cs_store s)))(request_executionId request \<mapsto> e') \<and>
    ex_status e' = final_status request \<and>
    cs_submitted s' = cs_submitted s @ (case ex_parent e of
        None \<Rightarrow> []
      | Some (parent, seq) \<Rightarrow> [(parent, [completion_event request seq now])])"
  using local_executions.complete_reports [OF assms] by blast

definition sample_start :: start_request where
  "sample_start = \<lparr>sr_executionName = Some ''a'', sr_workflow = ''w'', sr_input = JNum 1, sr_timeout = None, sr_parent = Some (''v/p'', 3)\<rparr>"

definition sample_env :: client_env where
  "sample_env = \<lparr>env_workflowExists = (\<lambda>w. w = ''w''), env_initializeExecutionLog = (\<lambda>i. None),
     env_putExecutionLogs = (\<lambda>i. None), env_inspect = (\<lambda>e. [])\<rparr>"

definition sample_executions :: local_executions where
  "sample_executions = \<lparr>lx_store = [(''w/a'', new_execution ''a'' sample_start 5)], lx_tasks = []\<rparr>"

lemma completion_reaches_parent_witness:
  "\<exists>s' e'. completeExecution local_execution_store 9 (SucceedExecutionRequest ''w/a'' 8 (JNum 2))
      \<lparr>cs_store = sample_executions, cs_submitted = []\<rparr> = (s', Inr e') \<and>
    cs_submitted s' = [(''v/p'', [ChildWorkflowSucceeded 3 9 (JNum 2)])]"
proof -
  have "om_get (lx_store sample_executions) ''w/a'' = Some (new_execution ''a'' sample_start 5)"
    by (simp add: sample_executions_def om_get_eq)
  moreover have "local_executions_inv sample_executions"
    by (auto simp: local_executions_inv_def sample_executions_def om_get_eq new_execution_def sample_start_def formatExecutionId_def
        split: if_splits)
  moreover have "valid_request (SucceedExecutionRequest ''w/a'' 8 (JNum 2))" by (simp add: valid_request_def)
  ultimately show ?thesis
    using completion_reaches_parent [of "\<lparr>cs_store = sample_executions, cs_submitted = []\<rparr>"
        "SucceedExecutionRequest ''w/a'' 8 (JNum 2)" "new_execution ''a'' sample_start 5" 9]
    by (auto simp: new_execution_def sample_start_def completion_event_def)
qed

text \<open>
  The local store does not refuse to create an execution again. Starting a workflow under
  the name of an execution, even one that has completed, replaces it by one in progress, forgets its
  result and starts it again, where the interface of the store and the client expect
  \<open>ExecutionAlreadyExists\<close>.
\<close>

theorem local_start_replaces_execution:
  assumes "env_workflowExists env (sr_workflow request)"
    and "validateExecutionName (the_default newName (sr_executionName request)) (sr_parent request \<noteq> None) = None"
    and "\<And>i. env_initializeExecutionLog env i = None" and "\<And>i. env_putExecutionLogs env i = None"
    and "i = formatExecutionId (sr_workflow request) (the_default newName (sr_executionName request))"
  shows "\<exists>st'. startExecution env local_execution_store newName eventId now request st =
      (st', Inr \<lparr>sp_executionId = i, sp_alreadyRunning = False\<rparr>) \<and>
    map_option ex_status (om_get (lx_store st') i) = Some IN_PROGRESS \<and>
    map_option ex_result (om_get (lx_store st') i) = Some JUndef \<and>
    length (lx_tasks st') = Suc (length (lx_tasks st))"
  using assms
  by (auto simp: startExecution_def create_execution_def local_execution_store_def LocalExecutionStore_create_def Let_def
      om_get_set new_execution_def)

lemma local_start_replaces_execution_witness:
  "\<exists>st'. startExecution sample_env local_execution_store ''x'' ''y'' 10 sample_start
      (fst (LocalExecutionStore_update (SucceedExecutionRequest ''w/a'' 8 (JNum 2)) sample_executions)) =
      (st', Inr \<lparr>sp_executionId = ''w/a'', sp_alreadyRunning = False\<rparr>) \<and>
    map_option ex_result (om_get (lx_store st') ''w/a'') = Some JUndef"
  using local_start_replaces_execution [of sample_env sample_start "''x''" "''w/a''" "''y''" 10
      "fst (LocalExecutionStore_update (SucceedExecutionRequest ''w/a'' 8 (JNum 2)) sample_executions)"]
  by (auto simp: sample_env_def sample_start_def validateExecutionName_def formatExecutionId_def)

end
