(* ===== verification/AwsStores.thy ===== *)
theory AwsStores
  imports ExecutionClients
begin

text \<open>
  The stores of executions and tasks on DynamoDB: aws-runtime/src/stores/execution-store.ts and
  task-store.ts. DynamoDB is a parameter, \<open>dynamo_ops\<close>; the locale \<open>dynamo_table\<close> holds what its
  documentation says of the requests the stores send: conditional writes of single items that happen
  at once. Requests that fail for other reasons are left out.
\<close>

section \<open>The table\<close>

text \<open>
  Attributes. Timestamps and events, which are stored as text, are kept as what they denote.
\<close>

datatype attribute =
    AttrS string
  | AttrN nat
  | AttrBool bool
  | AttrTime int
  | AttrEvent workflow_event

type_synonym table_item = "string \<Rightarrow> attribute option"

record dynamo_update =
  du_set :: "(string \<times> bool \<times> attribute) list"
  du_remove :: "string list"

text \<open>\<open>SET n = v\<close>, or \<open>n = if_not_exists(n, v)\<close> when the flag is set; \<open>REMOVE n\<close>.\<close>

definition apply_update :: "dynamo_update \<Rightarrow> table_item \<Rightarrow> table_item" where
  "apply_update u item n =
     (case map_of (du_set u) n of
        Some (keep, v) \<Rightarrow> if keep \<and> item n \<noteq> None then item n else Some v
      | None \<Rightarrow> if n \<in> set (du_remove u) then None else item n)"

text \<open>
  Keys are the text of the key attribute. The condition of a write names an attribute that the item
  must not have; a refused write is \<open>None\<close>.
\<close>

record 'db dynamo_ops =
  dy_getItem :: "string \<Rightarrow> 'db \<Rightarrow> table_item option"
  dy_putItem :: "string \<Rightarrow> table_item \<Rightarrow> string option \<Rightarrow> 'db \<Rightarrow> 'db option"
  dy_updateItem :: "string \<Rightarrow> dynamo_update \<Rightarrow> string option \<Rightarrow> 'db \<Rightarrow> ('db \<times> table_item) option"

definition refused :: "string option \<Rightarrow> table_item option \<Rightarrow> bool" where
  "refused condition old \<longleftrightarrow> (case (condition, old) of (Some a, Some item) \<Rightarrow> item a \<noteq> None | _ \<Rightarrow> False)"

definition updated_item :: "string \<Rightarrow> string \<Rightarrow> dynamo_update \<Rightarrow> table_item option \<Rightarrow> table_item" where
  "updated_item key_attribute k u old = apply_update u (the_default [key_attribute \<mapsto> AttrS k] old)"

locale dynamo_table =
  fixes ops :: "'db dynamo_ops" and key_attribute :: string and table :: "'db \<Rightarrow> string \<Rightarrow> table_item option"
  assumes get: "dy_getItem ops k db = table db k"
    and put: "dy_putItem ops k item condition db =
      (if refused condition (table db k) then None else dy_putItem ops k item None db)"
    and put_item: "\<exists>db'. dy_putItem ops k item None db = Some db' \<and> table db' = (table db)(k \<mapsto> item)"
    and update: "dy_updateItem ops k u condition db =
      (if refused condition (table db k) then None else dy_updateItem ops k u None db)"
    and update_item: "\<exists>db'. dy_updateItem ops k u None db = Some (db', updated_item key_attribute k u (table db k)) \<and>
      table db' = (table db)(k \<mapsto> updated_item key_attribute k u (table db k))"

section \<open>Executions\<close>

definition execution_sort_key :: "string \<Rightarrow> string" where
  "execution_sort_key executionId = ''$'' @ executionId"

definition undefined_S :: js where
  "undefined_S = mk_TypeError ''Cannot read properties of undefined (reading 'S')''"

definition status_of_text :: "string \<Rightarrow> execution_status" where
  "status_of_text s = (if s = ''SUCCEEDED'' then SUCCEEDED else if s = ''FAILED'' then FAILED else IN_PROGRESS)"

definition attr_S :: "table_item \<Rightarrow> string \<Rightarrow> string option" where
  "attr_S item n = (case item n of Some (AttrS s) \<Rightarrow> Some s | _ \<Rightarrow> None)"

definition attr_time :: "table_item \<Rightarrow> string \<Rightarrow> int option" where
  "attr_time item n = (case item n of Some (AttrTime t) \<Rightarrow> Some t | _ \<Rightarrow> None)"

definition parse_result :: "string option \<Rightarrow> js + js" where
  "parse_result r =
     (case r of
        None \<Rightarrow> Inr JUndef
      | Some text \<Rightarrow>
          (case json_parse text of
             None \<Rightarrow> Inl (JErr EError ''SyntaxError'' ''Unexpected token in JSON'')
           | Some v \<Rightarrow> Inr v))"

definition createExecutionFromResult :: "table_item \<Rightarrow> js + execution" where
  "createExecutionFromResult item =
     (case (attr_S item ''id'', attr_time item ''startTime'', attr_S item ''status'', attr_S item ''workflowName'') of
        (Some i, Some startTime, Some status, Some w) \<Rightarrow>
          try_bind (parse_result (attr_S item ''result'')) (\<lambda>result.
            Inr \<lparr>ex_id = i, ex_startTime = startTime, ex_workflowName = w, ex_status = status_of_text status,
              ex_inputHash = attr_S item ''inputHash'',
              ex_parent = (case (attr_S item ''parentExecutionId'', item ''seq'') of
                  (Some p, Some (AttrN seq)) \<Rightarrow> Some (p, seq) | _ \<Rightarrow> None),
              ex_endTime = attr_time item ''endTime'', ex_result = result,
              ex_error = attr_S item ''error'', ex_message = attr_S item ''message''\<rparr>)
      | _ \<Rightarrow> Inl undefined_S)"

definition execution_item :: "execution \<Rightarrow> workflow_event option \<Rightarrow> table_item" where
  "execution_item e startEvent =
     [''pk'' \<mapsto> AttrS ''Execution'', ''sk'' \<mapsto> AttrS (execution_sort_key (ex_id e)), ''id'' \<mapsto> AttrS (ex_id e),
      ''workflowName'' \<mapsto> AttrS (ex_workflowName e), ''status'' \<mapsto> AttrS (status_text IN_PROGRESS),
      ''startTime'' \<mapsto> AttrTime (ex_startTime e)]
     ++ (case startEvent of None \<Rightarrow> Map.empty | Some event \<Rightarrow> [''insertEvent'' \<mapsto> AttrEvent event])
     ++ (case ex_inputHash e of None \<Rightarrow> Map.empty | Some h \<Rightarrow> [''inputHash'' \<mapsto> AttrS h])
     ++ (case ex_parent e of
           None \<Rightarrow> Map.empty
         | Some (p, seq) \<Rightarrow> [''parentExecutionId'' \<mapsto> AttrS p, ''seq'' \<mapsto> AttrN seq])"

definition AWSExecutionStore_create ::
  "'db dynamo_ops \<Rightarrow> execution \<Rightarrow> workflow_event option \<Rightarrow> ('db, unit) act" where
  "AWSExecutionStore_create ops e startEvent db =
     (case dy_putItem ops (execution_sort_key (ex_id e)) (execution_item e startEvent) (Some ''sk'') db of
        Some db' \<Rightarrow> (db', Inr ())
      | None \<Rightarrow>
          (db, Inl (case parseExecutionId (ex_id e) of
              Inl err \<Rightarrow> mk_Error err
            | Inr parsed \<Rightarrow> mk_ExecutionAlreadyExists (executionName parsed) (ex_workflowName e))))"

text \<open>\<open>request.result ? ... : undefined\<close>: a falsy result is not stored.\<close>

definition update_expression :: "complete_request \<Rightarrow> dynamo_update" where
  "update_expression request =
     (case request of
        FailExecutionRequest i endTime err message \<Rightarrow>
          \<lparr>du_set = [(''endTime'', True, AttrTime endTime), (''status'', False, AttrS (status_text FAILED)),
             (''error'', False, AttrS err), (''message'', False, AttrS message)],
           du_remove = [''insertEvent'']\<rparr>
      | SucceedExecutionRequest i endTime result \<Rightarrow>
          \<lparr>du_set = [(''endTime'', True, AttrTime endTime), (''status'', False, AttrS (status_text SUCCEEDED))] @
             (if truthy result then [(''result'', False, AttrS (json_text result))] else []),
           du_remove = [''insertEvent'']\<rparr>)"

definition AWSExecutionStore_update :: "'db dynamo_ops \<Rightarrow> complete_request \<Rightarrow> ('db, execution) act" where
  "AWSExecutionStore_update ops request db =
     (case dy_updateItem ops (execution_sort_key (request_executionId request)) (update_expression request) None db of
        Some (db', item) \<Rightarrow> (db', createExecutionFromResult item)
      | None \<Rightarrow> (db, Inl JUndef))"

definition AWSExecutionStore_get :: "'db dynamo_ops \<Rightarrow> string \<Rightarrow> ('db, execution option) act" where
  "AWSExecutionStore_get ops executionId db =
     (db, case dy_getItem ops (execution_sort_key executionId) db of
        None \<Rightarrow> Inr None
      | Some item \<Rightarrow> try_bind (createExecutionFromResult item) (\<lambda>e. Inr (Some e)))"

section \<open>Tasks\<close>

definition TaskExecutionRecord_key :: "string \<Rightarrow> nat \<Rightarrow> string" where
  "TaskExecutionRecord_key executionId seq = ''Task$'' @ ''$'' @ executionId @ ''$'' @ nat_str seq"

definition createTaskFromRecord :: "table_item option \<Rightarrow> js + task_execution" where
  "createTaskFromRecord taskRecord =
     (case taskRecord of
        None \<Rightarrow> Inl (mk_TypeError ''Cannot read properties of undefined (reading 'executionId')'')
      | Some item \<Rightarrow>
          (case (attr_S item ''executionId'', item ''seq'') of
             (Some i, Some (AttrN seq)) \<Rightarrow>
               Inr \<lparr>te_executionId = i, te_seq = seq,
                 te_cancelled = (case item ''cancelled'' of Some (AttrBool b) \<Rightarrow> b | _ \<Rightarrow> False),
                 te_heartbeatTime = attr_time item ''heartbeatTime''\<rparr>
           | _ \<Rightarrow> Inl undefined_S))"

definition claim_attribute :: "nat \<Rightarrow> string" where
  "claim_attribute retry = ''claims_'' @ nat_str retry"

definition task_fields :: "string \<Rightarrow> nat \<Rightarrow> (string \<times> bool \<times> attribute) list" where
  "task_fields executionId seq = [(''executionId'', False, AttrS executionId), (''seq'', False, AttrN seq)]"

definition AWSTaskStore_claim :: "'db dynamo_ops \<Rightarrow> string \<Rightarrow> nat \<Rightarrow> nat \<Rightarrow> string option \<Rightarrow> ('db, bool) act" where
  "AWSTaskStore_claim ops executionId seq retry claimer db =
     (case dy_updateItem ops (TaskExecutionRecord_key executionId seq)
        \<lparr>du_set = (claim_attribute retry, False, AttrS (the_default ''Unknown'' claimer)) # task_fields executionId seq,
         du_remove = []\<rparr> (Some (claim_attribute retry)) db of
        Some (db', _) \<Rightarrow> (db', Inr True)
      | None \<Rightarrow> (db, Inr False))"

definition AWSTaskStore_heartbeat :: "'db dynamo_ops \<Rightarrow> string \<Rightarrow> nat \<Rightarrow> int \<Rightarrow> ('db, task_execution) act" where
  "AWSTaskStore_heartbeat ops executionId seq heartbeatTime db =
     (case dy_updateItem ops (TaskExecutionRecord_key executionId seq)
        \<lparr>du_set = (''heartbeatTime'', False, AttrTime heartbeatTime) # task_fields executionId seq, du_remove = []\<rparr> None db of
        Some (db', item) \<Rightarrow> (db', createTaskFromRecord (Some item))
      | None \<Rightarrow> (db, Inl JUndef))"

definition AWSTaskStore_cancel :: "'db dynamo_ops \<Rightarrow> string \<Rightarrow> nat \<Rightarrow> ('db, unit) act" where
  "AWSTaskStore_cancel ops executionId seq db =
     (case dy_updateItem ops (TaskExecutionRecord_key executionId seq)
        \<lparr>du_set = (''cancelled'', False, AttrBool True) # task_fields executionId seq, du_remove = []\<rparr> None db of
        Some (db', item) \<Rightarrow> (db', Inr ())
      | None \<Rightarrow> (db, Inl JUndef))"

definition AWSTaskStore_get :: "'db dynamo_ops \<Rightarrow> string \<Rightarrow> nat \<Rightarrow> ('db, task_execution option) act" where
  "AWSTaskStore_get ops executionId seq db =
     (db, try_bind (createTaskFromRecord (dy_getItem ops (TaskExecutionRecord_key executionId seq) db)) (\<lambda>t. Inr (Some t)))"

section \<open>Executions on DynamoDB\<close>

definition aws_execution_store :: "'db dynamo_ops \<Rightarrow> 'db execution_store" where
  "aws_execution_store ops =
     \<lparr>st_create = AWSExecutionStore_create ops, st_update = AWSExecutionStore_update ops, st_get = AWSExecutionStore_get ops\<rparr>"

definition aws_lookup :: "('db \<Rightarrow> string \<Rightarrow> table_item option) \<Rightarrow> 'db \<Rightarrow> string \<Rightarrow> execution option" where
  "aws_lookup table db i = Option.bind (table db (execution_sort_key i))
     (\<lambda>item. case createExecutionFromResult item of Inr e \<Rightarrow> Some e | Inl err \<Rightarrow> None)"

definition aws_executions_inv :: "('db \<Rightarrow> string \<Rightarrow> table_item option) \<Rightarrow> 'db \<Rightarrow> bool" where
  "aws_executions_inv table db \<longleftrightarrow> (\<forall>i item. table db (execution_sort_key i) = Some item \<longrightarrow>
     item ''sk'' \<noteq> None \<and> (\<exists>e. createExecutionFromResult item = Inr e))"

lemma execution_sort_key_inject [simp]: "execution_sort_key i = execution_sort_key j \<longleftrightarrow> i = j"
  by (simp add: execution_sort_key_def)

lemma attr_simps [simp]:
  "item n = Some (AttrS s) \<Longrightarrow> attr_S item n = Some s" "item n = None \<Longrightarrow> attr_S item n = None"
  "item n = Some (AttrTime t) \<Longrightarrow> attr_time item n = Some t" "item n = None \<Longrightarrow> attr_time item n = None"
  by (simp_all add: attr_S_def attr_time_def)

lemma status_of_status_text [simp]: "status_of_text (status_text s) = s"
  by (cases s) (simp_all add: status_of_text_def)

lemma fresh_item:
  assumes "fresh_execution e"
  shows "createExecutionFromResult (execution_item e event) = Inr e"
  using assms
  by (cases event; cases "ex_inputHash e"; cases "ex_parent e")
    (auto simp: createExecutionFromResult_def execution_item_def parse_result_def fresh_execution_def attr_S_def attr_time_def
      status_of_text_def intro!: execution.equality)

lemma result_item:
  assumes "createExecutionFromResult item = Inr e"
  obtains i startTime status w where "attr_S item ''id'' = Some i" "attr_time item ''startTime'' = Some startTime"
    "attr_S item ''status'' = Some status" "attr_S item ''workflowName'' = Some w"
    "parse_result (attr_S item ''result'') = Inr (ex_result e)"
    "ex_inputHash e = attr_S item ''inputHash''"
    "ex_parent e = (case (attr_S item ''parentExecutionId'', item ''seq'') of (Some p, Some (AttrN seq)) \<Rightarrow> Some (p, seq) | _ \<Rightarrow> None)"
    "ex_endTime e = attr_time item ''endTime''" "ex_id e = i"
  using assms by (auto simp: createExecutionFromResult_def try_bind_Inr split: option.splits)

lemma apply_update_attrs:
  "n \<notin> {''endTime'', ''status'', ''result'', ''error'', ''message'', ''insertEvent''} \<Longrightarrow>
   apply_update (update_expression request) item n = item n"
  by (auto simp: apply_update_def update_expression_def split: complete_request.split)

lemma parse_result_text: "json_data v \<Longrightarrow> parse_result (Some (json_text v)) = Inr v"
  by (simp add: parse_result_def json_parse_stringify)

text \<open>What an update makes of an execution: a falsy result leaves the one that is there.\<close>

lemma updated_execution:
  assumes "createExecutionFromResult item = Inr e" and "valid_request request"
  shows "\<exists>e'. createExecutionFromResult (apply_update (update_expression request) item) = Inr e' \<and>
    ex_id e' = ex_id e \<and> ex_parent e' = ex_parent e \<and> ex_inputHash e' = ex_inputHash e \<and> ex_status e' = final_status request \<and>
    ex_result e' = (case request of SucceedExecutionRequest _ _ result \<Rightarrow> if truthy result then result else ex_result e
      | FailExecutionRequest _ _ _ _ \<Rightarrow> ex_result e)"
proof -
  from assms(1) obtain i startTime status w where old: "attr_S item ''id'' = Some i" "attr_time item ''startTime'' = Some startTime"
    "attr_S item ''status'' = Some status" "attr_S item ''workflowName'' = Some w"
    "parse_result (attr_S item ''result'') = Inr (ex_result e)" "ex_inputHash e = attr_S item ''inputHash''"
    "ex_parent e = (case (attr_S item ''parentExecutionId'', item ''seq'') of (Some p, Some (AttrN seq)) \<Rightarrow> Some (p, seq) | _ \<Rightarrow> None)"
    "ex_id e = i"
    by (rule result_item) blast
  let ?new = "apply_update (update_expression request) item"
  have "attr_S ?new n = attr_S item n" "attr_time ?new n = attr_time item n"
    if "n \<notin> {''endTime'', ''status'', ''result'', ''error'', ''message'', ''insertEvent''}" for n
    using apply_update_attrs [OF that] by (simp_all add: attr_S_def attr_time_def)
  then have kept: "attr_S ?new ''id'' = Some i" "attr_time ?new ''startTime'' = Some startTime" "attr_S ?new ''workflowName'' = Some w"
    "attr_S ?new ''inputHash'' = attr_S item ''inputHash''" "attr_S ?new ''parentExecutionId'' = attr_S item ''parentExecutionId''"
    "?new ''seq'' = item ''seq''"
    using old(1,2,4) by (simp_all add: apply_update_attrs)
  have status: "attr_S ?new ''status'' = Some (status_text (final_status request))"
    by (auto simp: attr_S_def apply_update_def update_expression_def final_status_def split: complete_request.split)
  have "parse_result (attr_S ?new ''result'') = Inr (case request of
      SucceedExecutionRequest _ _ result \<Rightarrow> if truthy result then result else ex_result e
    | FailExecutionRequest _ _ _ _ \<Rightarrow> ex_result e)"
  proof (cases request)
    case (SucceedExecutionRequest j endTime result)
    show ?thesis
    proof (cases "truthy result")
      case True
      then have "?new ''result'' = Some (AttrS (json_text result))"
        by (simp add: SucceedExecutionRequest apply_update_def update_expression_def)
      then show ?thesis using assms(2) True SucceedExecutionRequest parse_result_text [of result] by (simp add: valid_request_def)
    next
      case False
      then have "?new ''result'' = item ''result''"
        by (simp add: SucceedExecutionRequest apply_update_def update_expression_def)
      then show ?thesis using old(5) False SucceedExecutionRequest by (simp add: attr_S_def)
    qed
  next
    case (FailExecutionRequest j endTime err message)
    then have "?new ''result'' = item ''result''" by (simp add: apply_update_def update_expression_def)
    then show ?thesis using old(5) FailExecutionRequest by (simp add: attr_S_def)
  qed
  then show ?thesis using kept status old(6-8) by (simp add: createExecutionFromResult_def)
qed

lemma inv_item:
  assumes "aws_executions_inv table db" and "table db (execution_sort_key i) = Some item"
  shows "\<exists>e. createExecutionFromResult item = Inr e \<and> item ''sk'' \<noteq> None \<and> aws_lookup table db i = Some e"
proof -
  from assms obtain e where "createExecutionFromResult item = Inr e" "item ''sk'' \<noteq> None"
    unfolding aws_executions_inv_def by blast
  then show ?thesis using assms(2) by (simp add: aws_lookup_def)
qed

lemma lookup_none: "aws_executions_inv table db \<Longrightarrow> aws_lookup table db i = None \<Longrightarrow> table db (execution_sort_key i) = None"
  using inv_item by (cases "table db (execution_sort_key i)") fastforce+

context dynamo_table
begin

lemma aws_get:
  assumes "aws_executions_inv table db"
  shows "AWSExecutionStore_get ops i db = (db, Inr (aws_lookup table db i))"
proof (cases "table db (execution_sort_key i)")
  case None
  then show ?thesis by (simp add: AWSExecutionStore_get_def aws_lookup_def get)
next
  case (Some item)
  then show ?thesis using inv_item [of table, OF assms Some] by (auto simp: AWSExecutionStore_get_def get)
qed

lemma inv_upd:
  assumes "aws_executions_inv table db" and "table db' = (table db)(execution_sort_key i \<mapsto> item)"
    and "item ''sk'' \<noteq> None" and "createExecutionFromResult item = Inr e"
  shows "aws_executions_inv table db'" and "aws_lookup table db' = (aws_lookup table db)(i \<mapsto> e)"
proof -
  show "aws_executions_inv table db'"
    unfolding aws_executions_inv_def
  proof (intro allI impI)
    fix j item'
    assume "table db' (execution_sort_key j) = Some item'"
    then show "item' ''sk'' \<noteq> None \<and> (\<exists>e. createExecutionFromResult item' = Inr e)"
      using assms inv_item [of table, OF assms(1), of j] by (cases "i = j") auto
  qed
  show "aws_lookup table db' = (aws_lookup table db)(i \<mapsto> e)"
    using assms(2,4) by (intro ext) (simp add: aws_lookup_def)
qed

lemma aws_create_new:
  assumes inv: "aws_executions_inv table db" and new: "aws_lookup table db (ex_id e) = None" and e: "fresh_execution e"
  shows "\<exists>db'. AWSExecutionStore_create ops e event db = (db', Inr ()) \<and> aws_executions_inv table db' \<and>
    aws_lookup table db' = (aws_lookup table db)(ex_id e \<mapsto> e)"
proof -
  let ?k = "execution_sort_key (ex_id e)"
  have "table db ?k = None" using lookup_none [of table, OF inv new] .
  then have "dy_putItem ops ?k (execution_item e event) (Some ''sk'') db = dy_putItem ops ?k (execution_item e event) None db"
    by (simp add: put [of ?k _ "Some _"] refused_def)
  with put_item obtain db' where db': "dy_putItem ops ?k (execution_item e event) (Some ''sk'') db = Some db'"
    "table db' = (table db)(?k \<mapsto> execution_item e event)" by metis
  have "execution_item e event ''sk'' \<noteq> None" by (auto simp: execution_item_def map_add_def split: option.splits prod.splits)
  from inv_upd [OF inv db'(2) this fresh_item [OF e]] db'(1) show ?thesis by (simp add: AWSExecutionStore_create_def)
qed

lemma aws_create_existing:
  assumes inv: "aws_executions_inv table db" and found: "aws_lookup table db (ex_id e) = Some found"
    and i: "isExecutionId (ex_id e)"
  shows "\<exists>err. AWSExecutionStore_create ops e event db = (db, Inl err) \<and> is_already_exists err"
proof -
  let ?k = "execution_sort_key (ex_id e)"
  obtain item where "table db ?k = Some item" "item ''sk'' \<noteq> None"
    using inv found by (auto simp: aws_executions_inv_def aws_lookup_def bind_eq_Some_conv)
  then have "dy_putItem ops ?k (execution_item e event) (Some ''sk'') db = None"
    by (auto simp: put [of ?k _ "Some _"] refused_def)
  then show ?thesis using i
    by (simp add: AWSExecutionStore_create_def parseExecutionId_def Let_def is_already_exists_def mk_ExecutionAlreadyExists_def)
qed

lemma aws_update:
  assumes inv: "aws_executions_inv table db" and found: "aws_lookup table db (request_executionId request) = Some e"
    and valid: "valid_request request"
  shows "\<exists>db' e'. AWSExecutionStore_update ops request db = (db', Inr e') \<and> aws_executions_inv table db' \<and>
    aws_lookup table db' = (aws_lookup table db)(request_executionId request \<mapsto> e') \<and> ex_parent e' = ex_parent e \<and>
    ex_inputHash e' = ex_inputHash e \<and> ex_status e' = final_status request \<and>
    ex_result e' = (case request of SucceedExecutionRequest _ _ result \<Rightarrow> if truthy result then result else ex_result e
      | FailExecutionRequest _ _ _ _ \<Rightarrow> ex_result e)"
proof -
  let ?k = "execution_sort_key (request_executionId request)"
  obtain item where item: "table db ?k = Some item" using found by (auto simp: aws_lookup_def bind_eq_Some_conv)
  with inv_item [of table, OF inv this] found have item: "table db ?k = Some item" "item ''sk'' \<noteq> None"
    "createExecutionFromResult item = Inr e" by auto
  let ?new = "apply_update (update_expression request) item"
  from update_item [of ?k "update_expression request" db] item(1) obtain db' where db':
    "dy_updateItem ops ?k (update_expression request) None db = Some (db', ?new)" "table db' = (table db)(?k \<mapsto> ?new)"
    by (auto simp: updated_item_def)
  from updated_execution [OF item(3) valid] obtain e' where e': "createExecutionFromResult ?new = Inr e'"
    "ex_parent e' = ex_parent e" "ex_inputHash e' = ex_inputHash e" "ex_status e' = final_status request"
    "ex_result e' = (case request of SucceedExecutionRequest _ _ result \<Rightarrow> if truthy result then result else ex_result e
      | FailExecutionRequest _ _ _ _ \<Rightarrow> ex_result e)" by blast
  have "?new ''sk'' \<noteq> None" using item(2) by (simp add: apply_update_attrs)
  from inv_upd [OF inv db'(2) this e'(1)] db'(1) e' show ?thesis by (simp add: AWSExecutionStore_update_def)
qed

end

sublocale dynamo_table \<subseteq> aws: exclusive_executions "aws_execution_store ops" "aws_executions_inv table" "aws_lookup table"
proof
qed (auto simp: aws_execution_store_def aws_get dest: aws_create_new aws_create_existing aws_update)

context dynamo_table
begin

lemmas aws_start_new = aws.start_new

lemmas aws_start_again = aws.start_again

lemmas aws_ops_keep = aws.ops_keep_execution

end

section \<open>Claims of tasks\<close>

datatype task_op =
    ClaimTask string nat nat "string option"
  | HeartbeatTask string nat int
  | CancelTask string nat
  | GetTask string nat

text \<open>A step of a client of the store; the result is whether a claim succeeded.\<close>

fun task_op_step :: "'db dynamo_ops \<Rightarrow> task_op \<Rightarrow> 'db \<Rightarrow> 'db \<times> bool" where
  "task_op_step ops (ClaimTask i seq retry claimer) db =
     (case AWSTaskStore_claim ops i seq retry claimer db of (db', r) \<Rightarrow> (db', r = Inr True))"
| "task_op_step ops (HeartbeatTask i seq t) db = (fst (AWSTaskStore_heartbeat ops i seq t db), False)"
| "task_op_step ops (CancelTask i seq) db = (fst (AWSTaskStore_cancel ops i seq db), False)"
| "task_op_step ops (GetTask i seq) db = (fst (AWSTaskStore_get ops i seq db), False)"

fun granted_claims :: "'db dynamo_ops \<Rightarrow> task_op list \<Rightarrow> 'db \<Rightarrow> (string \<times> nat \<times> nat) list" where
  "granted_claims ops [] db = []"
| "granted_claims ops (op # rest) db =
     (case op of
        ClaimTask i seq retry claimer \<Rightarrow> if snd (task_op_step ops op db) then [(i, seq, retry)] else []
      | _ \<Rightarrow> []) @ granted_claims ops rest (fst (task_op_step ops op db))"

definition claimed :: "('db \<Rightarrow> string \<Rightarrow> table_item option) \<Rightarrow> string \<Rightarrow> nat \<Rightarrow> nat \<Rightarrow> 'db \<Rightarrow> bool" where
  "claimed table i seq retry db \<longleftrightarrow>
     (\<exists>item. table db (TaskExecutionRecord_key i seq) = Some item \<and> item (claim_attribute retry) \<noteq> None)"

lemma set_attribute_kept:
  "item n \<noteq> None \<Longrightarrow> du_remove u = [] \<Longrightarrow> apply_update u item n \<noteq> None"
  by (auto simp: apply_update_def split: option.split)

context dynamo_table
begin

lemma update_keeps_claims:
  assumes "claimed table i seq retry db" and "dy_updateItem ops k u condition db = Some (db', item)" and "du_remove u = []"
  shows "claimed table i seq retry db'"
proof -
  have "\<not> refused condition (table db k)" using assms(2) update [of k u condition db] by (auto split: if_splits)
  then have "table db' = (table db)(k \<mapsto> updated_item key_attribute k u (table db k))"
    using assms(2) update [of k u condition db] update_item [of k u db] by auto
  moreover obtain old where old: "table db (TaskExecutionRecord_key i seq) = Some old" "old (claim_attribute retry) \<noteq> None"
    using assms(1) unfolding claimed_def by blast
  ultimately show ?thesis using set_attribute_kept [of old "claim_attribute retry" u] old assms(3)
    by (cases "k = TaskExecutionRecord_key i seq") (simp_all add: claimed_def updated_item_def)
qed

lemma task_op_keeps_claims:
  assumes "claimed table i seq retry db"
  shows "claimed table i seq retry (fst (task_op_step ops op db))"
  using assms update_keeps_claims [OF assms]
  by (cases op) (auto simp: AWSTaskStore_claim_def AWSTaskStore_heartbeat_def AWSTaskStore_cancel_def AWSTaskStore_get_def
      split: option.split)

lemma claim_step:
  assumes "snd (task_op_step ops (ClaimTask i seq retry claimer) db)"
  shows "\<not> claimed table i seq retry db" and "claimed table i seq retry (fst (task_op_step ops (ClaimTask i seq retry claimer) db))"
proof -
  let ?k = "TaskExecutionRecord_key i seq"
  let ?u = "\<lparr>du_set = (claim_attribute retry, False, AttrS (the_default ''Unknown'' claimer)) # task_fields i seq, du_remove = []\<rparr>"
  obtain db' item where step: "dy_updateItem ops ?k ?u (Some (claim_attribute retry)) db = Some (db', item)"
    "fst (task_op_step ops (ClaimTask i seq retry claimer) db) = db'"
    using assms by (auto simp: AWSTaskStore_claim_def split: option.splits)
  then have accepted: "\<not> refused (Some (claim_attribute retry)) (table db ?k)"
    using update [of ?k ?u "Some (claim_attribute retry)" db] by (auto split: if_splits)
  then show "\<not> claimed table i seq retry db" by (auto simp: refused_def claimed_def)
  have "table db' ?k = Some (updated_item key_attribute ?k ?u (table db ?k))"
    using step(1) accepted update [of ?k ?u "Some (claim_attribute retry)" db] update_item [of ?k ?u db] by auto
  then show "claimed table i seq retry (fst (task_op_step ops (ClaimTask i seq retry claimer) db))"
    using step(2) by (simp add: claimed_def updated_item_def apply_update_def)
qed

lemma no_second_claim:
  "claimed table i seq retry db \<Longrightarrow> (i, seq, retry) \<notin> set (granted_claims ops tasks db)"
proof (induction tasks arbitrary: db)
  case (Cons op tasks)
  then show ?case using task_op_keeps_claims [OF Cons.prems, of op] claim_step(1)
    by (cases op) auto
qed simp

lemma claims_distinct: "distinct (granted_claims ops tasks db)"
proof (induction tasks arbitrary: db)
  case (Cons op tasks)
  then show ?case using claim_step(2) no_second_claim by (cases op) auto
qed simp

end

section \<open>A table in memory\<close>

text \<open>The documented behaviour, executed: what DynamoDB is assumed to do can be done.\<close>

definition memory_dynamo :: "string \<Rightarrow> (string \<Rightarrow> table_item option) dynamo_ops" where
  "memory_dynamo key_attribute =
     \<lparr>dy_getItem = (\<lambda>k db. db k),
      dy_putItem = (\<lambda>k item condition db. if refused condition (db k) then None else Some (db(k \<mapsto> item))),
      dy_updateItem = (\<lambda>k u condition db.
        if refused condition (db k) then None
        else (let item = updated_item key_attribute k u (db k) in Some (db(k \<mapsto> item), item)))\<rparr>"

interpretation memory: dynamo_table "memory_dynamo key_attribute" key_attribute "\<lambda>db. db" for key_attribute
  by unfold_locales (simp_all add: memory_dynamo_def refused_def Let_def)

section \<open>Properties\<close>

text \<open>
  On DynamoDB, however claims, heartbeats, cancellations and reads of many workers
  interleave, every attempt of a task is claimed at most once.
\<close>

theorem task_claimed_once:
  assumes "dynamo_table ops ''pk'' table"
  shows "distinct (granted_claims ops tasks db)"
  by (rule dynamo_table.claims_distinct [OF assms])

lemma task_claimed_once_witness:
  "distinct (granted_claims (memory_dynamo ''pk'')
     [ClaimTask ''w/a'' 0 0 None, HeartbeatTask ''w/a'' 0 5, ClaimTask ''w/a'' 0 0 None, ClaimTask ''w/a'' 0 1 None] Map.empty)"
  by (rule task_claimed_once [OF memory.dynamo_table_axioms])


definition first_start :: "string \<Rightarrow> table_item option" where
  "first_start = fst (startExecution sample_env (aws_execution_store (memory_dynamo ''sk'')) [] [] 5 sample_start Map.empty)"

definition later_ops :: "execution_op list" where
  "later_ops = [CompleteOp 6 (SucceedExecutionRequest ''w/a'' 6 (JBool False)),
     StartOp ''b'' [] 6 (sample_start\<lparr>sr_executionName := None\<rparr>)]"


text \<open>
  On DynamoDB the result of a workflow that succeeds with a falsy value (0, the empty
  string, false or null) is lost: the execution has succeeded with the result undefined.
\<close>

theorem aws_falsy_result_lost:
  assumes "dynamo_table ops ''sk'' table" and "aws_executions_inv table db"
    and "aws_lookup table db i = Some e" and "ex_result e = JUndef" and "\<not> truthy v"
  shows "\<exists>db' e'. AWSExecutionStore_update ops (SucceedExecutionRequest i endTime v) db = (db', Inr e') \<and>
    aws_lookup table db' i = Some e' \<and> ex_status e' = SUCCEEDED \<and> ex_result e' = JUndef"
  using dynamo_table.aws_update [OF assms(1,2), of "SucceedExecutionRequest i endTime v" e] assms(3-5)
  by (auto simp: valid_request_def final_status_def)

definition sample_table :: "string \<Rightarrow> table_item option" where
  "sample_table = [execution_sort_key ''w/a'' \<mapsto> execution_item (new_execution ''a'' sample_start 5) None]"

lemma aws_falsy_result_lost_witness:
  "\<exists>db' e'. AWSExecutionStore_update (memory_dynamo ''sk'') (SucceedExecutionRequest ''w/a'' 8 (JNum 0)) sample_table = (db', Inr e') \<and>
    ex_status e' = SUCCEEDED \<and> ex_result e' = JUndef"
proof -
  have item: "createExecutionFromResult (execution_item (new_execution ''a'' sample_start 5) None) = Inr (new_execution ''a'' sample_start 5)"
    by (rule fresh_item) (rule fresh_new_execution)
  have inv: "aws_executions_inv (\<lambda>db. db) sample_table"
    using item by (auto simp: aws_executions_inv_def sample_table_def execution_item_def map_add_def split: option.split)
  have "aws_lookup (\<lambda>db. db) sample_table ''w/a'' = Some (new_execution ''a'' sample_start 5)"
    using item by (simp add: aws_lookup_def sample_table_def)
  from aws_falsy_result_lost [OF memory.dynamo_table_axioms inv this, of "JNum 0" 8] show ?thesis
    by (auto simp: new_execution_def)
qed

end
