(* ===== verification/TaskWorkers.thy ===== *)
theory TaskWorkers
  imports AwsStores CallExecutors
begin

text \<open>
  Tasks at work: core-runtime/src/handlers/task-worker.ts, task-fallback-handler.ts and
  timer-handler.ts, with core-runtime/src/local/clients/timer-client.ts.

  The user's handlers, the queue of executions, the timer client and the log agent are parameters
  that may fail; metrics and the text of logs are left out. The flush of the log that \<open>finishTask\<close> starts
  before it submits is taken to fail, if it does, when it is awaited after the submit. Besides what a worker submits, its state
  notes which attempts of tasks have reached a handler (\<open>wk_handled\<close>), which the code does not.
\<close>

section \<open>The task worker\<close>

datatype handler_outcome = HandlerReturns js | HandlerAsync | HandlerThrows js

record 't worker_env =
  we_getTask :: "string \<Rightarrow> (js \<Rightarrow> handler_outcome) option"
  we_taskIds :: "string list"
  we_tasks :: "'t task_store_ops"
  we_startTimer :: "timer_request \<Rightarrow> js option"
  we_submit :: "string \<Rightarrow> workflow_event \<Rightarrow> js option"
  we_flush :: "js option"

record 't worker_state =
  wk_tasks :: 't
  wk_timers :: "timer_request list"
  wk_submitted :: "(string \<times> workflow_event) list"
  wk_handled :: "(string \<times> nat \<times> nat) list"

datatype task_fallback_request =
    TaskSendEventRequest string workflow_event
  | TaskSystemFailure string

definition startTimer :: "'t worker_env \<Rightarrow> timer_request \<Rightarrow> ('t worker_state, unit) act" where
  "startTimer env timer s =
     (case we_startTimer env timer of
        Some err \<Rightarrow> (s, Inl err)
      | None \<Rightarrow> (s\<lparr>wk_timers := wk_timers s @ [timer]\<rparr>, Inr ()))"

definition worker_submit :: "'t worker_env \<Rightarrow> string \<Rightarrow> workflow_event \<Rightarrow> ('t worker_state, unit) act" where
  "worker_submit env executionId event s =
     (case we_submit env executionId event of
        Some err \<Rightarrow> (s, Inl err)
      | None \<Rightarrow> (s\<lparr>wk_submitted := wk_submitted s @ [(executionId, event)]\<rparr>, Inr ()))"

definition flush_logs :: "'t worker_env \<Rightarrow> ('t worker_state, unit) act" where
  "flush_logs env s = (s, case we_flush env of Some err \<Rightarrow> Inl err | None \<Rightarrow> Inr ())"

definition worker_claim :: "'t worker_env \<Rightarrow> task_worker_request \<Rightarrow> ('t worker_state, bool) act" where
  "worker_claim env request s =
     (case tt_claim (we_tasks env) (tw_executionId request) (tw_seq request) (tw_retry request) None (wk_tasks s) of
        (t, r) \<Rightarrow> (s\<lparr>wk_tasks := t\<rparr>, r))"

definition heartbeat_monitor :: "task_worker_request \<Rightarrow> duration_schedule \<Rightarrow> timer_request" where
  "heartbeat_monitor request heartbeat =
     TaskHeartbeatMonitorRequest (tw_executionId request) (tw_seq request)
       (computeDurationSeconds (dur heartbeat) (unit heartbeat)) (Duration heartbeat)"

definition task_failed :: "task_worker_request \<Rightarrow> js \<Rightarrow> int \<Rightarrow> workflow_event" where
  "task_failed request err endTime =
     (case err of
        JErr c n m \<Rightarrow> createEvent (TaskFailed (tw_seq request) 0 n (Some m)) endTime ''''
      | _ \<Rightarrow> createEvent (TaskFailed (tw_seq request) 0 ''Error'' (stringify err)) endTime '''')"

text \<open>
  \<open>runTask\<close>: the event to report, none when the handler goes on asynchronously. The flush of an
  asynchronous task is returned without being awaited, so that its failure is not the handler's.
\<close>

definition runTask ::
  "'t worker_env \<Rightarrow> task_worker_request \<Rightarrow> int \<Rightarrow> ('t worker_state, workflow_event option) act" where
  "runTask env request endTime s =
     (case we_getTask env (tw_taskName request) of
        None \<Rightarrow> (s, Inr (Some (task_failed request (mk_TaskNotFoundError (tw_taskName request) (we_taskIds env)) endTime)))
      | Some h \<Rightarrow>
          (let s = s\<lparr>wk_handled := wk_handled s @ [(tw_executionId request, tw_seq request, tw_retry request)]\<rparr>
           in case h (tw_input request) of
                HandlerThrows err \<Rightarrow> (s, Inr (Some (task_failed request err endTime)))
              | HandlerAsync \<Rightarrow> act_bind (flush_logs env) (\<lambda>_. act_return None) s
              | HandlerReturns result \<Rightarrow>
                  (s, Inr (Some (createEvent (TaskSucceeded (tw_seq request) 0 result) endTime '''')))))"

definition finishTask :: "'t worker_env \<Rightarrow> task_worker_request \<Rightarrow> workflow_event \<Rightarrow> ('t worker_state, unit) act" where
  "finishTask env request event =
     act_bind (worker_submit env (tw_executionId request) event) (\<lambda>_. flush_logs env)"

definition work_on_task ::
  "'t worker_env \<Rightarrow> task_worker_request \<Rightarrow> int \<Rightarrow> ('t worker_state, task_fallback_request option) act" where
  "work_on_task env request endTime =
     act_bind (worker_claim env request) (\<lambda>claimed.
       if \<not> claimed then act_return None
       else act_bind (case tw_heartbeat request of
           None \<Rightarrow> act_return ()
         | Some heartbeat \<Rightarrow> startTimer env (heartbeat_monitor request heartbeat)) (\<lambda>_.
         act_bind (runTask env request endTime) (\<lambda>event.
           case event of
             None \<Rightarrow> act_return None
           | Some e \<Rightarrow> (\<lambda>s.
               case finishTask env request e s of
                 (s', Inr _) \<Rightarrow> (s', Inr None)
               | (s', Inl err) \<Rightarrow> (s', Inr (Some (TaskSendEventRequest (tw_executionId request) e)))))))"

definition taskWorker ::
  "'t worker_env \<Rightarrow> task_worker_request \<Rightarrow> int \<Rightarrow> 't worker_state \<Rightarrow> 't worker_state \<times> task_fallback_request option" where
  "taskWorker env request endTime s =
     (case work_on_task env request endTime s of
        (s', Inr r) \<Rightarrow> (s', r)
      | (s', Inl err) \<Rightarrow>
          (s', Some (TaskSendEventRequest (tw_executionId request)
             (TaskFailed (tw_seq request) endTime (ne_error (normalizeError err)) (ne_message (normalizeError err))))))"

text \<open>The handler of what a worker could not do itself.\<close>

definition taskFallbackHandler ::
  "'t worker_env \<Rightarrow> int \<Rightarrow> task_fallback_request \<Rightarrow> task_worker_request \<Rightarrow> ('t worker_state, unit) act" where
  "taskFallbackHandler env now request taskRequest =
     (case request of
        TaskSendEventRequest executionId event \<Rightarrow> worker_submit env executionId event
      | TaskSystemFailure errorMessage \<Rightarrow>
          worker_submit env (tw_executionId taskRequest) (TaskFailed (tw_seq taskRequest) now ''Error'' None))"

section \<open>The timer handler\<close>

definition isHeartbeatTimeElapsed :: "int \<Rightarrow> int \<Rightarrow> int \<Rightarrow> bool" where
  "isHeartbeatTimeElapsed lastHeartbeatTime heartbeatSeconds currentDate \<longleftrightarrow>
     heartbeatSeconds * 1000 < currentDate - lastHeartbeatTime"

definition timerHandler :: "'t worker_env \<Rightarrow> int \<Rightarrow> timer_request \<Rightarrow> ('t worker_state, unit) act" where
  "timerHandler env now request s =
     (case request of
        TimerScheduleEventRequest executionId event schedule \<Rightarrow> worker_submit env executionId event s
      | TaskHeartbeatMonitorRequest executionId taskSeq heartbeatSeconds schedule \<Rightarrow>
          (case tt_get (we_tasks env) executionId taskSeq (wk_tasks s) of
             (t, Inl err) \<Rightarrow> (s\<lparr>wk_tasks := t\<rparr>, Inl err)
           | (t, Inr task) \<Rightarrow>
               (let s = s\<lparr>wk_tasks := t\<rparr>
                in if (case Option.bind task te_heartbeatTime of
                         None \<Rightarrow> True
                       | Some lastTime \<Rightarrow> isHeartbeatTimeElapsed lastTime heartbeatSeconds now)
                   then worker_submit env executionId
                     (createEvent (TaskHeartbeatTimedOut taskSeq 0) now '''') s
                   else startTimer env (TaskHeartbeatMonitorRequest executionId taskSeq heartbeatSeconds
                     (Duration \<lparr>dur = heartbeatSeconds, unit = Seconds\<rparr>)) s)))"

text \<open>The local timer client: when a timer fires, and what then reaches the runtime.\<close>

datatype local_timer_event = TimerWorkflowTask string "workflow_event list" | TimerMonitor timer_request

definition startShortTimer :: "int \<Rightarrow> timer_request \<Rightarrow> int \<times> local_timer_event" where
  "startShortTimer now timerRequest =
     (case timerRequest of
        TimerScheduleEventRequest executionId event schedule \<Rightarrow>
          (computeScheduleDate schedule now, TimerWorkflowTask executionId [event])
      | TaskHeartbeatMonitorRequest executionId taskSeq heartbeatSeconds schedule \<Rightarrow>
          (computeScheduleDate schedule now, TimerMonitor timerRequest))"

section \<open>What a worker reports\<close>

text \<open>The event that a task ends with, none when it goes on asynchronously.\<close>

definition task_completion :: "'t worker_env \<Rightarrow> task_worker_request \<Rightarrow> int \<Rightarrow> workflow_event option" where
  "task_completion env request endTime =
     (case we_getTask env (tw_taskName request) of
        None \<Rightarrow> Some (task_failed request (mk_TaskNotFoundError (tw_taskName request) (we_taskIds env)) endTime)
      | Some h \<Rightarrow>
          (case h (tw_input request) of
             HandlerThrows err \<Rightarrow> Some (task_failed request err endTime)
           | HandlerAsync \<Rightarrow> None
           | HandlerReturns result \<Rightarrow> Some (TaskSucceeded (tw_seq request) endTime result)))"

definition fallback_events :: "task_fallback_request option \<Rightarrow> (string \<times> workflow_event) list" where
  "fallback_events r = (case r of Some (TaskSendEventRequest i e) \<Rightarrow> [(i, e)] | _ \<Rightarrow> [])"

lemma task_succeeded_event: "createEvent (TaskSucceeded seq 0 result) t i = TaskSucceeded seq t result"
  by (simp add: createEvent_def)

text \<open>What running the task does to the worker, whatever happens.\<close>

lemma runTask_state:
  assumes "runTask env request endTime s = (s', r)"
  shows "wk_tasks s' = wk_tasks s" and "wk_submitted s' = wk_submitted s" and "wk_timers s' = wk_timers s"
    and "wk_handled s' = wk_handled s \<or>
      wk_handled s' = wk_handled s @ [(tw_executionId request, tw_seq request, tw_retry request)]"
    and "we_flush env = None \<Longrightarrow> r = Inr (task_completion env request endTime)"
  using assms
  by (auto simp: runTask_def task_completion_def flush_logs_def Let_def act_bind_def task_succeeded_event
      split: option.splits handler_outcome.splits)

lemma worker_submit_state:
  assumes "worker_submit env i e s = (s', r)"
  shows "wk_tasks s' = wk_tasks s" and "wk_handled s' = wk_handled s"
    and "wk_submitted s' = wk_submitted s @ (if we_submit env i e = None then [(i, e)] else [])"
    and "(r = Inr ()) = (we_submit env i e = None)"
  using assms by (auto simp: worker_submit_def split: option.splits)

lemma startTimer_state:
  assumes "startTimer env timer s = (s', r)"
  shows "wk_tasks s' = wk_tasks s" and "wk_handled s' = wk_handled s" and "wk_submitted s' = wk_submitted s"
  using assms by (auto simp: startTimer_def split: option.splits)

lemma finishTask_state:
  assumes "finishTask env request e s = (s', r)"
  shows "wk_tasks s' = wk_tasks s" and "wk_handled s' = wk_handled s"
    and "we_flush env = None \<Longrightarrow> wk_submitted s' @ (case r of Inr _ \<Rightarrow> [] | Inl _ \<Rightarrow> [(tw_executionId request, e)]) =
      wk_submitted s @ [(tw_executionId request, e)]"
  using assms
  by (auto simp: finishTask_def act_bind_def flush_logs_def worker_submit_def split: option.splits)

text \<open>Starting the monitor of the heartbeats can fail, and so can flushing the log.\<close>

definition monitor_error :: "'t worker_env \<Rightarrow> task_worker_request \<Rightarrow> js option" where
  "monitor_error env request =
     Option.bind (tw_heartbeat request) (\<lambda>heartbeat. we_startTimer env (heartbeat_monitor request heartbeat))"

definition worker_failed :: "task_worker_request \<Rightarrow> int \<Rightarrow> js \<Rightarrow> workflow_event" where
  "worker_failed request endTime err =
     TaskFailed (tw_seq request) endTime (ne_error (normalizeError err)) (ne_message (normalizeError err))"

text \<open>The event with which a claimed task ends for its execution, none if it goes on.\<close>

definition task_end :: "'t worker_env \<Rightarrow> task_worker_request \<Rightarrow> int \<Rightarrow> workflow_event option" where
  "task_end env request endTime =
     (case monitor_error env request of
        Some err \<Rightarrow> Some (worker_failed request endTime err)
      | None \<Rightarrow>
          (case task_completion env request endTime of
             Some e \<Rightarrow> Some e
           | None \<Rightarrow> map_option (worker_failed request endTime) (we_flush env)))"

text \<open>The task has been handled, its event was submitted, and then the log could not be flushed.\<close>

definition flush_fails_after_submit :: "'t worker_env \<Rightarrow> task_worker_request \<Rightarrow> int \<Rightarrow> bool" where
  "flush_fails_after_submit env request endTime \<longleftrightarrow>
     monitor_error env request = None \<and> we_flush env \<noteq> None \<and>
     (case task_completion env request endTime of
        Some e \<Rightarrow> we_submit env (tw_executionId request) e = None
      | None \<Rightarrow> False)"

lemma runTask_result:
  assumes "runTask env request endTime s = (s', r)"
  shows "r = (case task_completion env request endTime of
      Some e \<Rightarrow> Inr (Some e)
    | None \<Rightarrow> (case we_flush env of Some err \<Rightarrow> Inl err | None \<Rightarrow> Inr None))"
  using assms
  by (auto simp: runTask_def task_completion_def flush_logs_def Let_def act_bind_def task_succeeded_event
      split: option.splits handler_outcome.splits)

lemma finishTask_result:
  assumes "finishTask env request e s = (s', r)"
  shows "wk_submitted s' = wk_submitted s @ (if we_submit env (tw_executionId request) e = None then [(tw_executionId request, e)] else [])"
    and "isl r \<longleftrightarrow> we_submit env (tw_executionId request) e \<noteq> None \<or> we_flush env \<noteq> None"
  using assms by (auto simp: finishTask_def act_bind_def flush_logs_def worker_submit_def split: option.splits)

lemma claimed_task_report:
  assumes claim: "snd (worker_claim env request s) = Inr True" and run: "taskWorker env request endTime s = (s', r)"
  shows "wk_submitted s' @ fallback_events r = wk_submitted s @
    (case task_end env request endTime of
       None \<Rightarrow> []
     | Some e \<Rightarrow> replicate (if flush_fails_after_submit env request endTime then 2 else 1) (tw_executionId request, e))"
proof -
  obtain s1 where s1: "worker_claim env request s = (s1, Inr True)" "wk_submitted s1 = wk_submitted s"
    using claim by (auto simp: worker_claim_def split: prod.splits)
  let ?monitor = "(case tw_heartbeat request of None \<Rightarrow> act_return ()
      | Some heartbeat \<Rightarrow> startTimer env (heartbeat_monitor request heartbeat)) s1"
  show ?thesis
  proof (cases "monitor_error env request")
    case (Some err)
    then have "?monitor = (s1, Inl err)"
      by (cases "tw_heartbeat request") (simp_all add: monitor_error_def startTimer_def)
    then have "s' = s1" "fallback_events r = [(tw_executionId request, worker_failed request endTime err)]"
      using run s1(1) by (auto simp: taskWorker_def work_on_task_def act_bind_def fallback_events_def worker_failed_def)
    then show ?thesis using Some s1(2) by (simp add: task_end_def flush_fails_after_submit_def)
  next
    case None
    obtain s2 where s2: "?monitor = (s2, Inr ())" "wk_submitted s2 = wk_submitted s1"
      using None by (cases "tw_heartbeat request") (simp_all add: monitor_error_def startTimer_def)
    obtain s3 r3 where s3: "runTask env request endTime s2 = (s3, r3)" by fastforce
    note s3_result = runTask_result [OF s3] and s3_state = runTask_state(2) [OF s3]
    show ?thesis
    proof (cases "task_completion env request endTime")
      case completion: None
      then have "s' = s3" "fallback_events r = (case we_flush env of None \<Rightarrow> []
          | Some err \<Rightarrow> [(tw_executionId request, worker_failed request endTime err)])"
        using run s1(1) s2(1) s3 s3_result
        by (auto simp: taskWorker_def work_on_task_def act_bind_def fallback_events_def worker_failed_def split: option.splits)
      then show ?thesis using completion None s1(2) s2(2) s3_state
        by (auto simp: task_end_def flush_fails_after_submit_def split: option.split)
    next
      case (Some e)
      obtain s4 r4 where s4: "finishTask env request e s3 = (s4, r4)" by fastforce
      have "(s', r) = (s4, if isl r4 then Some (TaskSendEventRequest (tw_executionId request) e) else None)"
        using run s1(1) s2(1) s3 s3_result s4 Some by (simp add: taskWorker_def work_on_task_def split: sum.splits)
      then show ?thesis using finishTask_result [OF s4] Some None s1(2) s2(2) s3_state
        by (auto simp: fallback_events_def task_end_def flush_fails_after_submit_def numeral_2_eq_2)
    qed
  qed
qed

text \<open>An attempt of a task reaches its handler only after its claim was granted.\<close>

lemma taskWorker_handled:
  assumes "taskWorker env request endTime s = (s', r)"
  shows "wk_tasks s' = wk_tasks (fst (worker_claim env request s)) \<and>
    (wk_handled s' = wk_handled s \<or>
     snd (worker_claim env request s) = Inr True \<and>
     wk_handled s' = wk_handled s @ [(tw_executionId request, tw_seq request, tw_retry request)])"
proof -
  obtain s1 r1 where s1: "worker_claim env request s = (s1, r1)" by fastforce
  have handled: "wk_handled s1 = wk_handled s" using s1 by (auto simp: worker_claim_def split: prod.splits)
  show ?thesis
  proof (cases "r1 = Inr True")
    case False
    then have "s' = s1" using assms s1
      by (cases r1) (auto simp: taskWorker_def work_on_task_def split: if_splits)
    then show ?thesis using s1 handled by simp
  next
    case True
    obtain s2 r2 where s2: "(case tw_heartbeat request of None \<Rightarrow> act_return ()
        | Some heartbeat \<Rightarrow> startTimer env (heartbeat_monitor request heartbeat)) s1 = (s2, r2)" by fastforce
    then have s2_state: "wk_tasks s2 = wk_tasks s1" "wk_handled s2 = wk_handled s1"
      using startTimer_state by (auto split: option.splits)
    show ?thesis
    proof (cases r2)
      case (Inl err)
      then have "s' = s2" using assms s1 s2 True by (auto simp: taskWorker_def work_on_task_def)
      then show ?thesis using s1 s2_state handled by simp
    next
      case (Inr u)
      obtain s3 r3 where s3: "runTask env request endTime s2 = (s3, r3)" by fastforce
      note s3_state = runTask_state [OF s3]
      have "wk_tasks s' = wk_tasks s3 \<and> wk_handled s' = wk_handled s3"
      proof (cases "\<exists>e. r3 = Inr (Some e)")
        case True
        then obtain e where e: "r3 = Inr (Some e)" by blast
        obtain s4 r4 where s4: "finishTask env request e s3 = (s4, r4)" by fastforce
        then have "s' = s4" using assms s1 s2 s3 e \<open>r1 = Inr True\<close> Inr
          by (auto simp: taskWorker_def work_on_task_def split: sum.splits)
        then show ?thesis using finishTask_state [OF s4] by simp
      next
        case False
        then have "s' = s3" using assms s1 s2 s3 \<open>r1 = Inr True\<close> Inr
          by (cases r3) (auto simp: taskWorker_def work_on_task_def split: option.splits)
        then show ?thesis by simp
      qed
      then show ?thesis using s1 s2_state s3_state handled True by auto
    qed
  qed
qed

text \<open>Workers that share a store of tasks, in the order in which they start.\<close>

fun run_workers :: "('t worker_env \<times> task_worker_request \<times> int) list \<Rightarrow> 't worker_state \<Rightarrow> 't worker_state" where
  "run_workers [] s = s"
| "run_workers ((env, request, endTime) # rest) s = run_workers rest (fst (taskWorker env request endTime s))"

definition aws_task_store :: "'db dynamo_ops \<Rightarrow> 'db task_store_ops" where
  "aws_task_store ops =
     \<lparr>tt_claim = AWSTaskStore_claim ops, tt_heartbeat = AWSTaskStore_heartbeat ops,
      tt_cancel = AWSTaskStore_cancel ops, tt_get = AWSTaskStore_get ops\<rparr>"

definition local_task_store :: "task_store task_store_ops" where
  "local_task_store =
     \<lparr>tt_claim = LocalTaskStore_claim, tt_heartbeat = LocalTaskStore_heartbeat,
      tt_cancel = LocalTaskStore_cancel, tt_get = LocalTaskStore_get\<rparr>"

lemma claim_is_step:
  assumes "we_tasks env = aws_task_store ops"
  shows "wk_tasks (fst (worker_claim env request s)) = fst (task_op_step ops (ClaimTask (tw_executionId request) (tw_seq request)
      (tw_retry request) None) (wk_tasks s))"
    and "(snd (worker_claim env request s) = Inr True) = snd (task_op_step ops (ClaimTask (tw_executionId request) (tw_seq request)
      (tw_retry request) None) (wk_tasks s))"
  using assms by (simp_all add: worker_claim_def aws_task_store_def split_beta)

context dynamo_table
begin

lemma handled_once:
  assumes "list_all (\<lambda>(env, request, endTime). we_tasks env = aws_task_store ops) ws"
    and "distinct (wk_handled s)" and "\<forall>(i, seq, retry) \<in> set (wk_handled s). claimed table i seq retry (wk_tasks s)"
  shows "distinct (wk_handled (run_workers ws s))"
  using assms
proof (induction ws arbitrary: s)
  case Nil
  then show ?case by simp
next
  case (Cons w ws)
  obtain env request endTime where w: "w = (env, request, endTime)" by (cases w) auto
  let ?i = "tw_executionId request" let ?seq = "tw_seq request" let ?retry = "tw_retry request"
  let ?op = "ClaimTask ?i ?seq ?retry None"
  obtain s' r where step: "taskWorker env request endTime s = (s', r)" by fastforce
  have env: "we_tasks env = aws_task_store ops" using Cons.prems(1) w by simp
  note claim = claim_is_step [OF env, of request s]
  have tasks: "wk_tasks s' = fst (task_op_step ops ?op (wk_tasks s))"
    using taskWorker_handled [OF step] claim(1) by simp
  have kept: "\<forall>(i, seq, retry) \<in> set (wk_handled s). claimed table i seq retry (wk_tasks s')"
    unfolding tasks using Cons.prems(3) task_op_keeps_claims by blast
  from taskWorker_handled [OF step] consider "wk_handled s' = wk_handled s"
    | "snd (worker_claim env request s) = Inr True" "wk_handled s' = wk_handled s @ [(?i, ?seq, ?retry)]" by blast
  then have "distinct (wk_handled s') \<and> (\<forall>(i, seq, retry) \<in> set (wk_handled s'). claimed table i seq retry (wk_tasks s'))"
  proof cases
    case 1
    then show ?thesis using Cons.prems(2) kept by simp
  next
    case 2
    then have granted: "snd (task_op_step ops ?op (wk_tasks s))" using claim(2) by simp
    then have "\<not> claimed table ?i ?seq ?retry (wk_tasks s)" by (rule claim_step(1))
    then have "(?i, ?seq, ?retry) \<notin> set (wk_handled s)" using Cons.prems(3) by blast
    moreover have "claimed table ?i ?seq ?retry (wk_tasks s')" unfolding tasks using granted by (rule claim_step(2))
    ultimately show ?thesis using Cons.prems(2) kept 2(2) by simp
  qed
  then show ?case using Cons.IH [of s'] Cons.prems(1) step w by simp
qed

end

section \<open>Monitoring heartbeats\<close>

text \<open>
  A monitor on the local runtime: every timer fires when it is due. \<open>hb t\<close> is the time of the
  task's last heartbeat as of \<open>t\<close>. The result is when the monitor reports that heartbeats stopped;
  \<open>n\<close> bounds the number of checks.
\<close>

definition monitor_env :: "int option \<Rightarrow> unit worker_env" where
  "monitor_env heartbeatTime =
     \<lparr>we_getTask = (\<lambda>_. None), we_taskIds = [],
      we_tasks = \<lparr>tt_claim = (\<lambda>_ _ _ _ t. (t, Inr True)), tt_heartbeat = (\<lambda>_ _ _ t. (t, Inl JUndef)), tt_cancel = (\<lambda>_ _ t. (t, Inr ())),
        tt_get = (\<lambda>i seq t. (t, Inr (Some \<lparr>te_executionId = i, te_seq = seq, te_cancelled = False,
          te_heartbeatTime = heartbeatTime\<rparr>)))\<rparr>,
      we_startTimer = (\<lambda>_. None), we_submit = (\<lambda>_ _. None), we_flush = None\<rparr>"

fun run_monitor :: "nat \<Rightarrow> (int \<Rightarrow> int option) \<Rightarrow> timer_request \<Rightarrow> int \<Rightarrow> int option" where
  "run_monitor 0 hb request now = None"
| "run_monitor (Suc n) hb request now =
     (let s = fst (timerHandler (monitor_env (hb now)) now request
            \<lparr>wk_tasks = (), wk_timers = [], wk_submitted = [], wk_handled = []\<rparr>)
      in if wk_submitted s \<noteq> [] then Some now
         else case wk_timers s of
           [] \<Rightarrow> None
         | timer # _ \<Rightarrow>
             (case startShortTimer now timer of
                (t, TimerMonitor request') \<Rightarrow> run_monitor n hb request' t
              | _ \<Rightarrow> None))"

lemma run_monitor_step:
  "run_monitor (Suc n) hb (TaskHeartbeatMonitorRequest i seq h schedule) now =
     (if (case hb now of None \<Rightarrow> True | Some t \<Rightarrow> h * 1000 < now - t) then Some now
      else run_monitor n hb (TaskHeartbeatMonitorRequest i seq h (Duration \<lparr>dur = h, unit = Seconds\<rparr>)) (now + h * 1000))"
  by (simp add: timerHandler_def monitor_env_def worker_submit_def startTimer_def startShortTimer_def computeScheduleDate_def
      isHeartbeatTimeElapsed_def split: option.split)

declare run_monitor.simps(2) [simp del]

lemma monitor_detects:
  assumes "0 < h" and "\<And>t. c \<le> t \<Longrightarrow> hb t = Some b" and "c \<le> b + 2000 * h"
  shows "\<exists>n t. run_monitor n hb (TaskHeartbeatMonitorRequest i seq h schedule) c = Some t \<and>
    b + 1000 * h < t \<and> t \<le> b + 2000 * h"
  using assms
proof (induction "nat (b + 1000 * h + 1 - c)" arbitrary: c schedule rule: less_induct)
  case less
  show ?case
  proof (cases "b + 1000 * h < c")
    case True
    then have "run_monitor 1 hb (TaskHeartbeatMonitorRequest i seq h schedule) c = Some c"
      using less.prems(2) [of c] by (simp add: run_monitor_step [of 0])
    then show ?thesis using True less.prems(3) by blast
  next
    case False
    then obtain n t where nt: "run_monitor n hb (TaskHeartbeatMonitorRequest i seq h (Duration \<lparr>dur = h, unit = Seconds\<rparr>)) (c + h * 1000) = Some t"
      "b + 1000 * h < t" "t \<le> b + 2000 * h"
      using less.hyps [of "c + h * 1000" "Duration \<lparr>dur = h, unit = Seconds\<rparr>"] less.prems by auto
    have "run_monitor (Suc n) hb (TaskHeartbeatMonitorRequest i seq h schedule) c = Some t"
      using nt(1) False less.prems(2) [of c] by (simp add: run_monitor_step)
    then show ?thesis using nt(2,3) by blast
  qed
qed

section \<open>Properties\<close>


definition sample_worker :: "(js \<Rightarrow> handler_outcome) \<Rightarrow> js option \<Rightarrow> task_store worker_env" where
  "sample_worker h failure =
     \<lparr>we_getTask = (\<lambda>name. if name = ''t'' then Some h else None), we_taskIds = [''t''], we_tasks = local_task_store,
      we_startTimer = (\<lambda>_. None), we_submit = (\<lambda>_ _. failure), we_flush = None\<rparr>"

definition sample_request :: task_worker_request where
  "sample_request = \<lparr>tw_scheduledTime = 0, tw_workflowName = ''w'', tw_executionId = ''w/a'', tw_taskName = ''t'', tw_seq = 4,
     tw_heartbeat = Some \<lparr>dur = 5, unit = Seconds\<rparr>, tw_input = JNum 1, tw_retry = 0\<rparr>"

definition idle_worker :: "'t \<Rightarrow> 't worker_state" where
  "idle_worker t = \<lparr>wk_tasks = t, wk_timers = [], wk_submitted = [], wk_handled = []\<rparr>"


text \<open>
  C29 (safety): on DynamoDB every attempt of a task reaches its handler at most once, however often
  its request is delivered and to whatever workers.
\<close>

theorem attempts_handled_once:
  assumes "dynamo_table ops ''pk'' table" and "list_all (\<lambda>(env, request, endTime). we_tasks env = aws_task_store ops) ws"
    and "wk_handled s = []"
  shows "distinct (wk_handled (run_workers ws s))"
  using dynamo_table.handled_once [OF assms(1,2)] assms(3) by simp

definition aws_worker :: "(string \<Rightarrow> table_item option) worker_env" where
  "aws_worker = \<lparr>we_getTask = (\<lambda>name. Some HandlerReturns), we_taskIds = [], we_tasks = aws_task_store (memory_dynamo ''pk''),
      we_startTimer = (\<lambda>_. None), we_submit = (\<lambda>_ _. None), we_flush = None\<rparr>"

lemma attempts_handled_once_witness:
  "distinct (wk_handled (run_workers [(aws_worker, sample_request, 3), (aws_worker, sample_request, 4),
      (aws_worker, sample_request\<lparr>tw_retry := 1\<rparr>, 5)] (idle_worker Map.empty)))"
  by (rule attempts_handled_once [OF memory.dynamo_table_axioms]) (simp_all add: aws_worker_def idle_worker_def)

text \<open>
  C30 (liveness): when a task stops sending heartbeats, its monitor reports the timeout, and no later
  than two heartbeat periods after the last heartbeat.
\<close>

theorem stopped_heartbeat_is_reported:
  assumes "0 < h" and "\<And>t. c \<le> t \<Longrightarrow> hb t = Some b" and "c \<le> b + 2000 * h"
  shows "\<exists>n t. run_monitor n hb (TaskHeartbeatMonitorRequest i seq h schedule) c = Some t \<and>
    b + 1000 * h < t \<and> t \<le> b + 2000 * h"
  by (rule monitor_detects [OF assms])

lemma stopped_heartbeat_is_reported_witness:
  "\<exists>n t. run_monitor n (\<lambda>t. Some 7000) (TaskHeartbeatMonitorRequest ''w/a'' 4 5 (Duration \<lparr>dur = 5, unit = Seconds\<rparr>)) 8000 = Some t \<and>
    12000 < t \<and> t \<le> 17000"
  using stopped_heartbeat_is_reported [of 5 8000 "\<lambda>t. Some 7000" 7000] by simp

text \<open>
  A task whose last heartbeat is never older than the period when it is checked is never
  timed out.
\<close>

theorem heartbeating_task_not_timed_out:
  assumes "\<And>k. \<exists>b. hb (c + int k * (h * 1000)) = Some b \<and> c + int k * (h * 1000) - b \<le> h * 1000"
  shows "run_monitor n hb (TaskHeartbeatMonitorRequest i seq h schedule) c = None"
  using assms
proof (induction n arbitrary: c schedule)
  case 0
  then show ?case by simp
next
  case (Suc n)
  from Suc.prems [of 0] obtain b where "hb c = Some b" "c - b \<le> h * 1000" by auto
  moreover have "run_monitor n hb (TaskHeartbeatMonitorRequest i seq h (Duration \<lparr>dur = h, unit = Seconds\<rparr>)) (c + h * 1000) = None"
  proof (rule Suc.IH)
    fix k
    show "\<exists>b. hb (c + h * 1000 + int k * (h * 1000)) = Some b \<and> c + h * 1000 + int k * (h * 1000) - b \<le> h * 1000"
      using Suc.prems [of "Suc k"] by (simp add: algebra_simps)
  qed
  ultimately show ?case by (simp add: run_monitor_step)
qed

lemma heartbeating_task_not_timed_out_witness:
  "run_monitor 100 (\<lambda>t. Some (t - 4000)) (TaskHeartbeatMonitorRequest ''w/a'' 4 5 (Duration \<lparr>dur = 5, unit = Seconds\<rparr>)) 8000 = None"
  by (rule heartbeating_task_not_timed_out) simp

text \<open>A task that never sends a heartbeat is timed out at the first check, one period after its start.\<close>

lemma silent_task_times_out: "hb c = None \<Longrightarrow> run_monitor (Suc n) hb (TaskHeartbeatMonitorRequest i seq h schedule) c = Some c"
  by (simp add: run_monitor_step)

text \<open>An asynchronous task whose log cannot be flushed is handed to the fallback as failed, while it goes on.\<close>

lemma async_task_fails_with_log:
  assumes "snd (worker_claim env request s) = Inr True" and "tw_heartbeat request = None"
    and "we_getTask env (tw_taskName request) = Some h" and "h (tw_input request) = HandlerAsync" and "we_flush env = Some (JErr c n m)"
  shows "snd (taskWorker env request endTime s) =
    Some (TaskSendEventRequest (tw_executionId request) (TaskFailed (tw_seq request) endTime n (Some m)))"
proof -
  obtain s1 where "worker_claim env request s = (s1, Inr True)" using assms(1) by (cases "worker_claim env request s") auto
  then show ?thesis using assms(2-5)
    by (simp add: taskWorker_def work_on_task_def runTask_def flush_logs_def act_bind_def)
qed

end
