(* ===== verification/LocalEnvironment.thy ===== *)
theory LocalEnvironment
  imports TimeControl RuntimeUtils TaskWorkers
begin

text \<open>
  core-runtime/src/local/local-environment.ts: the event loop of the local runtime. Events are put
  into a \<open>TimeController\<close>, a timer of Node is armed for the earliest, and when it fires the events
  that are due go to the workers of the container, until none is left.

  The environment is a state machine. What happens outside the loop are steps: the clock advances,
  somebody schedules an event, an orchestration or a worker ends or rejects. A callback of a timer
  is suspended where the code awaits, at the orchestrator and at the end of \<open>processEvents\<close>, and
  several callbacks can be suspended at a time. A promise that is rejected without a handler ends the
  process. The state notes, which the code does not, what was scheduled (\<open>le_added\<close>), handed out
  (\<open>le_done\<close>, with the time), called and polled.
\<close>

section \<open>The events and the workers they are for\<close>

datatype local_event =
    WorkflowTask string "workflow_event list"
  | TimerRequest timer_request
  | TaskWorkerRequest task_worker_request
  | EntityStreamEvent stream_item
  | EmittedEvents "js list"
  | QueuePollEvent string
  | BucketEvent bucket_event

datatype worker_call =
    CallTaskWorker task_worker_request
  | CallTimerHandler timer_request
  | CallEntityStreamWorker string string stream_item
  | CallBucketHandlerWorker string bucket_event
  | CallSubscriptionWorker "js list"
  | CallOrchestrator "(string \<times> workflow_event list) list"

record loop_env =
  en_entities :: entity_provider
  en_streams :: "string \<Rightarrow> stream_spec list"
  en_buckets :: "bucket_handler_spec list list"

fun timer_requests :: "local_event \<Rightarrow> timer_request list" where
  "timer_requests (TimerRequest r) = [r]"
| "timer_requests _ = []"

fun workflow_tasks :: "local_event \<Rightarrow> (string \<times> workflow_event list) list" where
  "workflow_tasks (WorkflowTask executionId events) = [(executionId, events)]"
| "workflow_tasks _ = []"

fun task_requests :: "local_event \<Rightarrow> task_worker_request list" where
  "task_requests (TaskWorkerRequest r) = [r]"
| "task_requests _ = []"

fun stream_items :: "local_event \<Rightarrow> stream_item list" where
  "stream_items (EntityStreamEvent i) = [i]"
| "stream_items _ = []"

fun bucket_events :: "local_event \<Rightarrow> bucket_event list" where
  "bucket_events (BucketEvent e) = [e]"
| "bucket_events _ = []"

fun emitted_events :: "local_event \<Rightarrow> js list list" where
  "emitted_events (EmittedEvents es) = [es]"
| "emitted_events _ = []"

fun polled_queues :: "local_event \<Rightarrow> string list" where
  "polled_queues (QueuePollEvent q) = [q]"
| "polled_queues _ = []"

definition start_worker :: "worker_call \<Rightarrow> (worker_call list, unit) act" where
  "start_worker c = act_modify (\<lambda>started. started @ [c])"

definition handle_stream_item :: "loop_env \<Rightarrow> stream_item \<Rightarrow> (worker_call list, unit) act" where
  "handle_stream_item env i =
     act_bind (act_lift (streams_of_item (en_entities env) (en_streams env) i))
       (act_forEach (\<lambda>stream. start_worker (CallEntityStreamWorker (si_entityName i) stream i)))"

definition handle_bucket_event :: "loop_env \<Rightarrow> bucket_event \<Rightarrow> (worker_call list, unit) act" where
  "handle_bucket_event env i =
     act_forEach (\<lambda>stream. start_worker (CallBucketHandlerWorker stream i)) (handlers_of_event (en_buckets env) i)"

text \<open>
  What \<open>processEvents\<close> does with the events of a round before it waits: it throws when matching a
  stream item does, after the workers of the earlier kinds have been started.
\<close>

definition dispatch :: "loop_env \<Rightarrow> local_event list \<Rightarrow> (worker_call list, unit) act" where
  "dispatch env events =
     act_bind (act_forEach (\<lambda>r. start_worker (CallTaskWorker r)) (concat (map task_requests events))) (\<lambda>_.
     act_bind (act_forEach (\<lambda>r. start_worker (CallTimerHandler r)) (concat (map timer_requests events))) (\<lambda>_.
     act_bind (act_forEach (handle_stream_item env) (concat (map stream_items events))) (\<lambda>_.
     act_bind (act_forEach (handle_bucket_event env) (concat (map bucket_events events))) (\<lambda>_.
     act_bind (act_forEach (\<lambda>es. start_worker (CallSubscriptionWorker es)) (concat (map emitted_events events))) (\<lambda>_.
     start_worker (CallOrchestrator (concat (map workflow_tasks events))))))))"

text \<open>\<open>new Set\<close> keeps the first occurrence of each name.\<close>

fun first_occurrences :: "'a list \<Rightarrow> 'a list" where
  "first_occurrences [] = []"
| "first_occurrences (x # xs) = x # filter (\<lambda>y. y \<noteq> x) (first_occurrences xs)"

definition queues_to_poll :: "local_event list \<Rightarrow> string list" where
  "queues_to_poll events = first_occurrences (concat (map polled_queues events))"

section \<open>The loop\<close>

datatype stage = AwaitOrchestrator "string list" | AwaitProcessed

record 'h local_env =
  le_time :: "'h time_controller"
  le_now :: int
  le_next :: "(int \<times> nat) option"
  le_timers :: "(nat \<times> int \<times> int) list"
  le_timerCount :: nat
  le_running :: bool
  le_callbacks :: "(int \<times> stage) list"
  le_crashed :: bool
  le_added :: "(int \<times> local_event) list"
  le_done :: "(int \<times> local_event) list"
  le_called :: "worker_call list"
  le_polled :: "string list"

text \<open>Node's \<open>setTimeout\<close>: a delay below 1 or above the largest 32-bit integer is a delay of 1.\<close>

definition timeout_delay :: "int \<Rightarrow> int" where
  "timeout_delay delay = (if delay < 1 \<or> 2147483647 < delay then 1 else delay)"

text \<open>A time of 0 is falsy.\<close>

definition tryStartProcessingEvents :: "('h, local_event) heap_ops \<Rightarrow> 'h local_env \<Rightarrow> 'h local_env" where
  "tryStartProcessingEvents ops s =
     (case nextEventTick ops (le_time s) of
        None \<Rightarrow> s
      | Some next \<Rightarrow>
          if next \<noteq> 0 \<and> (case le_next s of None \<Rightarrow> True | Some (armed, _) \<Rightarrow> next < armed)
          then s\<lparr>le_next := Some (next, le_timerCount s),
                 le_timers := (case le_next s of None \<Rightarrow> le_timers s
                   | Some (_, timer) \<Rightarrow> filter (\<lambda>t. fst t \<noteq> timer) (le_timers s)) @
                   [(le_timerCount s, next, le_now s + timeout_delay (next - le_now s))],
                 le_timerCount := Suc (le_timerCount s)\<rparr>
          else s)"

definition connector_scheduleEvent :: "('h, local_event) heap_ops \<Rightarrow> int \<Rightarrow> local_event \<Rightarrow> 'h local_env \<Rightarrow> 'h local_env" where
  "connector_scheduleEvent ops time task s =
     tryStartProcessingEvents ops
       (s\<lparr>le_time := addEvent ops time task (le_time s), le_added := le_added s @ [(time, task)]\<rparr>)"

definition connector_pushWorkflowTask :: "('h, local_event) heap_ops \<Rightarrow> local_event \<Rightarrow> 'h local_env \<Rightarrow> 'h local_env" where
  "connector_pushWorkflowTask ops task s = connector_scheduleEvent ops (le_now s) task s"

text \<open>
  One round of \<open>processEvents\<close>, for the callback of the timer armed for \<open>next\<close>, up to the next
  place where it waits.
\<close>

definition process_round :: "('h, local_event) heap_ops \<Rightarrow> loop_env \<Rightarrow> int \<Rightarrow> 'h local_env \<Rightarrow> 'h local_env option" where
  "process_round ops env next s =
     (case tickUntil ops (le_now s) (le_time s) of
        None \<Rightarrow> None
      | Some (time, events) \<Rightarrow>
          let s = s\<lparr>le_time := time, le_done := le_done s @ map (Pair (le_now s)) events\<rparr>
          in if events = [] then Some (s\<lparr>le_callbacks := le_callbacks s @ [(next, AwaitProcessed)]\<rparr>)
             else case dispatch env events (le_called s) of
                 (called, Inr _) \<Rightarrow> Some (s\<lparr>le_called := called,
                   le_callbacks := le_callbacks s @ [(next, AwaitOrchestrator (queues_to_poll events))]\<rparr>)
               | (called, Inl err) \<Rightarrow> Some (s\<lparr>le_called := called, le_crashed := True\<rparr>))"

text \<open>The callback of a timer, when the timer fires and when \<open>processEvents\<close> has returned.\<close>

definition timer_fires :: "('h, local_event) heap_ops \<Rightarrow> loop_env \<Rightarrow> int \<Rightarrow> 'h local_env \<Rightarrow> 'h local_env option" where
  "timer_fires ops env next s =
     (if map_option fst (le_next s) = Some next \<and> le_running s then process_round ops env next s else Some s)"

definition processed :: "('h, local_event) heap_ops \<Rightarrow> int \<Rightarrow> 'h local_env \<Rightarrow> 'h local_env" where
  "processed ops next s =
     (case le_next s of
        None \<Rightarrow> s\<lparr>le_crashed := True\<rparr>
      | Some (armed, _) \<Rightarrow>
          if armed = next \<and> le_running s then tryStartProcessingEvents ops (s\<lparr>le_next := None\<rparr>) else s)"

definition LocalEnvironment :: "('h, local_event) heap_ops \<Rightarrow> local_event serialized_time option \<Rightarrow> int \<Rightarrow> 'h local_env" where
  "LocalEnvironment ops data now =
     tryStartProcessingEvents ops
       \<lparr>le_time = (case data of Some d \<Rightarrow> time_fromSerializedData ops d
          | None \<Rightarrow> TimeController ops [] (Some now) (Some 1)),
        le_now = now, le_next = None, le_timers = [], le_timerCount = 0, le_running = True,
        le_callbacks = [], le_crashed = False,
        le_added = (case data of Some d \<Rightarrow> map (\<lambda>e. (tm_timestamp e, tm_event e)) (st_events d) | None \<Rightarrow> []),
        le_done = [], le_called = [], le_polled = []\<rparr>"

text \<open>
  The steps. \<open>Reject\<close> is the rejection of a worker or an orchestration, which nothing handles;
  \<open>TaskEnds\<close> is the end of a task worker, whose result can be an event to push.
\<close>

datatype env_act =
    Elapse nat
  | ScheduleAt int local_event
  | PushTask local_event
  | TaskEnds "task_fallback_request option"
  | Fire nat
  | Orchestrated int "string list"
  | Processed int
  | Reject
  | Stop

fun env_step :: "('h, local_event) heap_ops \<Rightarrow> loop_env \<Rightarrow> env_act \<Rightarrow> 'h local_env \<Rightarrow> 'h local_env option" where
  "env_step ops env (Elapse d) s = Some (s\<lparr>le_now := le_now s + int d\<rparr>)"
| "env_step ops env (ScheduleAt time task) s = Some (connector_scheduleEvent ops time task s)"
| "env_step ops env (PushTask task) s = Some (connector_pushWorkflowTask ops task s)"
| "env_step ops env (TaskEnds result) s =
     (case result of
        Some (TaskSendEventRequest executionId event) \<Rightarrow> Some (connector_pushWorkflowTask ops (WorkflowTask executionId [event]) s)
      | _ \<Rightarrow> Some s)"
| "env_step ops env (Fire timer) s =
     (case map_of (le_timers s) timer of
        Some (next, at) \<Rightarrow>
          if at \<le> le_now s then timer_fires ops env next (s\<lparr>le_timers := filter (\<lambda>t. fst t \<noteq> timer) (le_timers s)\<rparr>)
          else None
      | None \<Rightarrow> None)"
| "env_step ops env (Orchestrated next queues) s =
     (if (next, AwaitOrchestrator queues) \<in> set (le_callbacks s)
      then process_round ops env next (s\<lparr>le_callbacks := remove1 (next, AwaitOrchestrator queues) (le_callbacks s),
        le_polled := le_polled s @ queues\<rparr>)
      else None)"
| "env_step ops env (Processed next) s =
     (if (next, AwaitProcessed) \<in> set (le_callbacks s)
      then Some (processed ops next (s\<lparr>le_callbacks := remove1 (next, AwaitProcessed) (le_callbacks s)\<rparr>))
      else None)"
| "env_step ops env Reject s = (if le_called s = [] then None else Some (s\<lparr>le_crashed := True\<rparr>))"
| "env_step ops env Stop s = Some (s\<lparr>le_running := False\<rparr>)"

fun env_run :: "('h, local_event) heap_ops \<Rightarrow> loop_env \<Rightarrow> env_act list \<Rightarrow> 'h local_env \<Rightarrow> 'h local_env option" where
  "env_run ops env [] s = Some s"
| "env_run ops env (a # as) s =
     (if le_crashed s then None else Option.bind (env_step ops env a s) (env_run ops env as))"

inductive env_reachable :: "('h, local_event) heap_ops \<Rightarrow> loop_env \<Rightarrow> 'h local_env \<Rightarrow> 'h local_env \<Rightarrow> bool"
  for ops :: "('h, local_event) heap_ops" and env :: loop_env and start :: "'h local_env" where
  initially: "env_reachable ops env start start"
| step: "env_reachable ops env start s \<Longrightarrow> \<not> le_crashed s \<Longrightarrow> env_step ops env a s = Some s' \<Longrightarrow>
    env_reachable ops env start s'"

end
