(* ===== verification/LocalEnvironmentLoop.thy ===== *)
theory LocalEnvironmentLoop
  imports LocalEnvironment
begin

text \<open>
  The invariant of the event loop of the local environment: what was scheduled is pending or has been
  handed out, and as long as the environment runs, the next pending event has a timer that is armed in
  time or a callback that will look for it.
\<close>

section \<open>The loop is awake\<close>

abbreviation pending :: "('h \<Rightarrow> local_event timed multiset) \<Rightarrow> 'h local_env \<Rightarrow> local_event timed multiset" where
  "pending items s \<equiv> items (tc_timeHeap (le_time s))"

text \<open>What is registered as the next round is a timer that is armed in time or a callback at work.\<close>

definition registered :: "'h local_env \<Rightarrow> int \<Rightarrow> nat \<Rightarrow> bool" where
  "registered s next timer \<longleftrightarrow>
     (\<exists>at. (timer, next, at) \<in> set (le_timers s) \<and> at \<le> max next (le_now s + 1)) \<or>
     (\<exists>stage. (next, stage) \<in> set (le_callbacks s))"

definition awake :: "('h \<Rightarrow> local_event timed multiset) \<Rightarrow> 'h local_env \<Rightarrow> bool" where
  "awake items s \<longleftrightarrow>
     (case le_next s of
        None \<Rightarrow> pending items s = {#}
      | Some (next, timer) \<Rightarrow> (\<forall>x \<in># pending items s. next \<le> tm_timestamp x) \<and> registered s next timer)"

definition timers_ok :: "'h local_env \<Rightarrow> bool" where
  "timers_ok s \<longleftrightarrow> distinct (map fst (le_timers s)) \<and> (\<forall>t \<in> set (le_timers s). fst t < le_timerCount s) \<and>
     (\<forall>next timer. le_next s = Some (next, timer) \<longrightarrow> timer < le_timerCount s \<and>
       (\<forall>n at. (timer, n, at) \<in> set (le_timers s) \<longrightarrow> n = next))"

text \<open>The controller, and what is pending or has been handed out.\<close>

definition accounted :: "('h \<Rightarrow> local_event timed multiset) \<Rightarrow> 'h local_env \<Rightarrow> bool" where
  "accounted items s \<longleftrightarrow>
     tc_increment (le_time s) = 1 \<and> tc_current (le_time s) \<le> le_now s \<and>
     (\<exists>records. le_done s = map (\<lambda>(due, at, e). (at, e)) records \<and>
        (\<forall>(due, at, e) \<in> set records. due \<le> at \<and> at \<le> le_now s) \<and>
        mset (le_added s) = mset (map (\<lambda>(due, at, e). (due, e)) records) +
          image_mset (\<lambda>x. (tm_timestamp x, tm_event x)) (pending items s))"

lemma nextEventTick_least:
  assumes "heap_contract ops items"
  shows "nextEventTick ops c = None \<Longrightarrow> items (tc_timeHeap c) = {#}"
    and "nextEventTick ops c = Some t \<Longrightarrow> x \<in># items (tc_timeHeap c) \<Longrightarrow> t \<le> tm_timestamp x"
    and "nextEventTick ops c = Some t \<Longrightarrow> \<exists>x \<in># items (tc_timeHeap c). tm_timestamp x = t"
proof -
  have least: "tm_timestamp e \<le> tm_timestamp y" if "hp_peek ops h = Some e" "y \<in># items h" for e h y
  proof -
    have "time_order e y \<le> 0" using assms that unfolding heap_contract_def by blast
    then show ?thesis using earlier_timestamp by (simp add: earlier_def)
  qed
  show "nextEventTick ops c = None \<Longrightarrow> items (tc_timeHeap c) = {#}"
    using assms by (simp add: nextEventTick_def heap_contract_def)
  show "nextEventTick ops c = Some t \<Longrightarrow> x \<in># items (tc_timeHeap c) \<Longrightarrow> t \<le> tm_timestamp x"
    by (auto simp: nextEventTick_def dest!: least)
  show "nextEventTick ops c = Some t \<Longrightarrow> \<exists>x \<in># items (tc_timeHeap c). tm_timestamp x = t"
    using assms by (auto simp: nextEventTick_def heap_contract_def)
qed

lemma timeout_delay_bound: "now + timeout_delay (next - now) \<le> max next (now + 1)"
  by (simp add: timeout_delay_def)

lemma tryStart_keeps [simp]:
  "le_time (tryStartProcessingEvents ops s) = le_time s" "le_now (tryStartProcessingEvents ops s) = le_now s"
  "le_running (tryStartProcessingEvents ops s) = le_running s"
  "le_callbacks (tryStartProcessingEvents ops s) = le_callbacks s"
  "le_crashed (tryStartProcessingEvents ops s) = le_crashed s" "le_added (tryStartProcessingEvents ops s) = le_added s"
  "le_done (tryStartProcessingEvents ops s) = le_done s" "le_called (tryStartProcessingEvents ops s) = le_called s"
  "le_polled (tryStartProcessingEvents ops s) = le_polled s"
  by (simp_all add: tryStartProcessingEvents_def split: option.split prod.split)

lemma tryStart_accounted [simp]: "accounted items (tryStartProcessingEvents ops s) = accounted items s"
  by (simp add: accounted_def)

lemma tryStart_timers:
  assumes "timers_ok s"
  shows "timers_ok (tryStartProcessingEvents ops s)"
  using assms unfolding timers_ok_def tryStartProcessingEvents_def
  by (auto simp: distinct_map_filter split: option.split prod.split)

lemma tryStart_awake:
  assumes contract: "heap_contract ops items"
    and nonzero: "\<forall>x \<in># pending items s. tm_timestamp x \<noteq> 0"
    and reg: "\<And>next timer. le_next s = Some (next, timer) \<Longrightarrow> registered s next timer"
  shows "awake items (tryStartProcessingEvents ops s)"
proof (cases "nextEventTick ops (le_time s)")
  case None
  then have "pending items s = {#}" using nextEventTick_least(1) [OF contract] by blast
  then show ?thesis using None reg by (auto simp: awake_def tryStartProcessingEvents_def split: option.split)
next
  case (Some t)
  then have least: "\<forall>x \<in># pending items s. t \<le> tm_timestamp x" and "t \<noteq> 0"
    using nextEventTick_least(2,3) [OF contract] nonzero by blast+
  show ?thesis
  proof (cases "case le_next s of None \<Rightarrow> True | Some (armed, _) \<Rightarrow> t < armed")
    case True
    then have "tryStartProcessingEvents ops s = s\<lparr>le_next := Some (t, le_timerCount s),
        le_timers := (case le_next s of None \<Rightarrow> le_timers s
          | Some (_, timer) \<Rightarrow> filter (\<lambda>x. fst x \<noteq> timer) (le_timers s)) @
          [(le_timerCount s, t, le_now s + timeout_delay (t - le_now s))], le_timerCount := Suc (le_timerCount s)\<rparr>"
      using Some \<open>t \<noteq> 0\<close> by (simp add: tryStartProcessingEvents_def)
    then show ?thesis using least timeout_delay_bound [of "le_now s" t] by (auto simp: awake_def registered_def)
  next
    case False
    then obtain armed timer where "le_next s = Some (armed, timer)" "\<not> t < armed" by (auto split: option.splits)
    then show ?thesis using Some least reg by (force simp: awake_def tryStartProcessingEvents_def)
  qed
qed

section \<open>Scheduling\<close>

lemma registered_same:
  "le_timers s' = le_timers s \<Longrightarrow> le_callbacks s' = le_callbacks s \<Longrightarrow> le_now s \<le> le_now s' \<Longrightarrow>
   registered s next timer \<Longrightarrow> registered s' next timer"
  unfolding registered_def by (elim disjE exE; fastforce)

lemma awake_registered: "awake items s \<Longrightarrow> le_next s = Some (next, timer) \<Longrightarrow> registered s next timer"
  by (simp add: awake_def)

lemma schedule_accounted:
  assumes contract: "heap_contract ops items" and acc: "accounted items s"
  shows "accounted items (connector_scheduleEvent ops time task s)"
proof -
  from acc obtain records where r: "le_done s = map (\<lambda>(due, at, e). (at, e)) records"
    "\<forall>(due, at, e) \<in> set records. due \<le> at \<and> at \<le> le_now s"
    "mset (le_added s) = mset (map (\<lambda>(due, at, e). (due, e)) records) +
       image_mset (\<lambda>x. (tm_timestamp x, tm_event x)) (pending items s)"
    unfolding accounted_def by blast
  show ?thesis unfolding connector_scheduleEvent_def tryStart_accounted accounted_def
    using acc contract r
    by (auto simp: accounted_def addEvent_def heap_contract_def intro!: exI [of _ records])
qed

lemma schedule_timers: "timers_ok s \<Longrightarrow> timers_ok (connector_scheduleEvent ops time task s)"
  unfolding connector_scheduleEvent_def by (rule tryStart_timers) (simp add: timers_ok_def)

lemma schedule_awake:
  assumes contract: "heap_contract ops items" and awake: "awake items s"
    and nonzero: "time \<noteq> 0" "\<forall>x \<in># pending items s. tm_timestamp x \<noteq> 0"
  shows "awake items (connector_scheduleEvent ops time task s)"
  unfolding connector_scheduleEvent_def
proof (rule tryStart_awake [OF contract])
  show "\<forall>x \<in># pending items (s\<lparr>le_time := addEvent ops time task (le_time s), le_added := le_added s @ [(time, task)]\<rparr>).
      tm_timestamp x \<noteq> 0"
    using contract nonzero by (simp add: addEvent_def heap_contract_def)
next
  fix armed timer
  assume "le_next (s\<lparr>le_time := addEvent ops time task (le_time s), le_added := le_added s @ [(time, task)]\<rparr>) = Some (armed, timer)"
  then have "registered s armed timer" using awake_registered [OF awake] by simp
  then show "registered (s\<lparr>le_time := addEvent ops time task (le_time s), le_added := le_added s @ [(time, task)]\<rparr>) armed timer"
    by (rule registered_same [rotated 3]) simp_all
qed

section \<open>A round\<close>

lemma round_returns:
  assumes contract: "heap_contract ops items" and acc: "accounted items s"
  obtains time ds s' where
    "tickUntil ops (le_now s) (le_time s) = Some (time, map tm_event ds)"
    "process_round ops env armed s = Some s'"
    "le_time s' = time" "le_now s' = le_now s" "le_next s' = le_next s" "le_timers s' = le_timers s"
    "le_timerCount s' = le_timerCount s" "le_running s' = le_running s" "le_added s' = le_added s"
    "le_done s' = le_done s @ map (\<lambda>d. (le_now s, tm_event d)) ds" "le_polled s' = le_polled s"
    "drained items (tc_timeHeap (le_time s)) (le_now s) (tc_timeHeap time) ds" 
    "tc_increment time = 1" "tc_current time = le_now s"
    "\<not> le_crashed s' \<Longrightarrow> le_callbacks s' = le_callbacks s @ [(armed, if ds = [] then AwaitProcessed
        else AwaitOrchestrator (queues_to_poll (map tm_event ds)))]"
    "\<not> le_crashed s' \<Longrightarrow> if ds = [] then le_called s' = le_called s
        else dispatch env (map tm_event ds) (le_called s) = (le_called s', Inr ())"
    "le_crashed s' \<longleftrightarrow> le_crashed s \<or> ds \<noteq> [] \<and> isl (snd (dispatch env (map tm_event ds) (le_called s)))"
proof -
  have inc: "tc_increment (le_time s) = 1" and cur: "tc_current (le_time s) \<le> le_now s"
    using acc by (simp_all add: accounted_def)
  from tickUntil_returns [OF contract inc, of "le_now s"] cur obtain h' ds where
    t: "tickUntil ops (le_now s) (le_time s) = Some ((le_time s)\<lparr>tc_current := le_now s, tc_timeHeap := h'\<rparr>, map tm_event ds)"
      "drained items (tc_timeHeap (le_time s)) (le_now s) h' ds" by (auto simp: max_def)
  obtain called r where d: "dispatch env (map tm_event ds) (le_called s) = (called, r)" by fastforce
  define time where "time = (le_time s)\<lparr>tc_current := le_now s, tc_timeHeap := h'\<rparr>"
  have t': "tickUntil ops (le_now s) (le_time s) = Some (time, map tm_event ds)" using t(1) by (simp add: time_def)
  define s1 where "s1 = s\<lparr>le_time := time, le_done := le_done s @ map (\<lambda>d. (le_now s, tm_event d)) ds\<rparr>"
  have round: "process_round ops env armed s =
      Some (if ds = [] then s1\<lparr>le_callbacks := le_callbacks s @ [(armed, AwaitProcessed)]\<rparr>
        else if isl r then s1\<lparr>le_called := called, le_crashed := True\<rparr>
        else s1\<lparr>le_called := called, le_callbacks := le_callbacks s @ [(armed, AwaitOrchestrator (queues_to_poll (map tm_event ds)))]\<rparr>)"
    using t' d by (cases r) (simp_all add: process_round_def Let_def s1_def comp_def)
  show thesis
    by (rule that [OF t' round]; use t(2) d inc in \<open>cases r; simp add: s1_def time_def split: if_splits\<close>)
qed

section \<open>Steps keep the loop awake and the accounts\<close>

text \<open>The invariant: what is accounted, and, as long as the environment runs, that it is awake.\<close>

definition env_inv :: "('h \<Rightarrow> local_event timed multiset) \<Rightarrow> 'h local_env \<Rightarrow> bool" where
  "env_inv items s \<longleftrightarrow> accounted items s \<and> timers_ok s \<and>
     (\<not> le_crashed s \<and> le_running s \<and> (\<forall>x \<in> set (le_added s). fst x \<noteq> 0) \<longrightarrow> awake items s)"

lemma pending_added:
  assumes "accounted items s" and "x \<in># pending items s"
  shows "(tm_timestamp x, tm_event x) \<in> set (le_added s)"
proof -
  have "(tm_timestamp x, tm_event x) \<in># image_mset (\<lambda>x. (tm_timestamp x, tm_event x)) (pending items s)"
    using assms(2) by auto
  with assms(1) have "(tm_timestamp x, tm_event x) \<in># mset (le_added s)"
    unfolding accounted_def by (metis (no_types, lifting) union_iff)
  then show ?thesis by simp
qed

lemma pending_nonzero:
  "accounted items s \<Longrightarrow> \<forall>x \<in> set (le_added s). fst x \<noteq> 0 \<Longrightarrow> \<forall>x \<in># pending items s. tm_timestamp x \<noteq> 0"
  using pending_added by fastforce

lemma schedule_inv:
  assumes contract: "heap_contract ops items" and inv: "env_inv items s"
  shows "env_inv items (connector_scheduleEvent ops time task s)"
proof -
  have keeps: "le_added (connector_scheduleEvent ops time task s) = le_added s @ [(time, task)]"
    "le_crashed (connector_scheduleEvent ops time task s) = le_crashed s" "le_running (connector_scheduleEvent ops time task s) = le_running s"
    by (simp_all add: connector_scheduleEvent_def)
  show ?thesis
    using inv schedule_accounted [OF contract] schedule_timers schedule_awake [OF contract] pending_nonzero
    unfolding env_inv_def keeps by (metis UnCI fst_conv list.set_intros(1) set_append)
qed

lemma accounted_later:
  assumes "accounted items s" and same: "le_time s' = le_time s" "le_added s' = le_added s" "le_done s' = le_done s"
    and later: "le_now s \<le> le_now s'"
  shows "accounted items s'"
proof -
  from assms(1) obtain records where rec: "le_done s = map (\<lambda>(due, at, e). (at, e)) records"
    "\<forall>(due, at, e) \<in> set records. due \<le> at \<and> at \<le> le_now s"
    "mset (le_added s) = mset (map (\<lambda>(due, at, e). (due, e)) records) +
       image_mset (\<lambda>x. (tm_timestamp x, tm_event x)) (pending items s)"
    and tc: "tc_increment (le_time s) = 1" "tc_current (le_time s) \<le> le_now s" unfolding accounted_def by blast
  have "\<forall>(due, at, e) \<in> set records. due \<le> at \<and> at \<le> le_now s'" using rec(2) later by fastforce
  with rec(1,3) tc later show ?thesis unfolding accounted_def same by auto
qed

lemma awake_same:
  "awake items s \<Longrightarrow> le_time s' = le_time s \<Longrightarrow> le_next s' = le_next s \<Longrightarrow>
   (\<And>n timer. le_next s = Some (n, timer) \<Longrightarrow> registered s n timer \<Longrightarrow> registered s' n timer) \<Longrightarrow> awake items s'"
  by (auto simp: awake_def split: option.splits)

lemma round_accounted:
  assumes contract: "heap_contract ops items" and acc: "accounted items s" and r: "process_round ops env armed s = Some s'"
  shows "accounted items s'"
proof -
  from acc obtain records where rec: "le_done s = map (\<lambda>(due, at, e). (at, e)) records"
    "\<forall>(due, at, e) \<in> set records. due \<le> at \<and> at \<le> le_now s"
    "mset (le_added s) = mset (map (\<lambda>(due, at, e). (due, e)) records) +
       image_mset (\<lambda>x. (tm_timestamp x, tm_event x)) (pending items s)"
    unfolding accounted_def by blast
  from round_returns [OF contract acc, of env armed] r obtain ds where s':
    "le_now s' = le_now s" "le_added s' = le_added s"
    "le_done s' = le_done s @ map (\<lambda>d. (le_now s, tm_event d)) ds"
    "drained items (tc_timeHeap (le_time s)) (le_now s) (tc_timeHeap (le_time s')) ds"
    "tc_increment (le_time s') = 1" "tc_current (le_time s') = le_now s"
    by (metis option.inject)
  define records' where "records' = records @ map (\<lambda>d. (tm_timestamp d, le_now s, tm_event d)) ds"
  have split: "pending items s = mset ds + pending items s'"
    using s'(4) multiset_partition [of "pending items s" "\<lambda>e. tm_timestamp e \<le> le_now s"]
    by (simp add: drained_def not_le)
  have "le_done s' = map (\<lambda>(due, at, e). (at, e)) records'" by (simp add: s'(3) rec(1) records'_def)
  moreover have "\<forall>(due, at, e) \<in> set records'. due \<le> at \<and> at \<le> le_now s'"
    using rec(2) s'(1,4) by (auto simp: records'_def drained_def dest!: set_mset_filtered)
  moreover have "mset (le_added s') = mset (map (\<lambda>(due, at, e). (due, e)) records') +
       image_mset (\<lambda>x. (tm_timestamp x, tm_event x)) (pending items s')"
    by (simp add: s'(2) rec(3) records'_def split comp_def image_mset.compositionality)
  ultimately show ?thesis using s' unfolding accounted_def by auto
qed

lemma round_inv:
  assumes contract: "heap_contract ops items" and acc: "accounted items s" and timers: "timers_ok s"
    and awake: "\<not> le_crashed s \<Longrightarrow> le_running s \<Longrightarrow> \<forall>x \<in> set (le_added s). fst x \<noteq> 0 \<Longrightarrow>
      awake items (s\<lparr>le_callbacks := (armed, AwaitProcessed) # le_callbacks s\<rparr>)"
    and r: "process_round ops env armed s = Some s'"
  shows "env_inv items s'"
proof -
  from round_returns [OF contract acc, of env armed] r obtain ds where s':
    "le_now s' = le_now s" "le_next s' = le_next s" "le_timers s' = le_timers s"
    "le_timerCount s' = le_timerCount s" "le_running s' = le_running s" "le_added s' = le_added s"
    "drained items (tc_timeHeap (le_time s)) (le_now s) (tc_timeHeap (le_time s')) ds"
    "\<not> le_crashed s' \<Longrightarrow> \<exists>stage. le_callbacks s' = le_callbacks s @ [(armed, stage)]"
    "\<not> le_crashed s' \<Longrightarrow> \<not> le_crashed s"
    by (metis option.inject)
  have "awake items s'" if "\<not> le_crashed s'" "le_running s'" "\<forall>x \<in> set (le_added s'). fst x \<noteq> 0"
  proof -
    have a: "awake items (s\<lparr>le_callbacks := (armed, AwaitProcessed) # le_callbacks s\<rparr>)" using awake that s' by auto
    have sub: "set_mset (pending items s') \<subseteq> set_mset (pending items s)" using s'(7) by (auto simp: drained_def)
    show ?thesis
    proof (cases "le_next s")
      case None
      with a sub have "pending items s' = {#}" by (simp add: awake_def)
      then show ?thesis using None s'(2) by (simp add: awake_def)
    next
      case (Some nt)
      obtain n timer where nt: "nt = (n, timer)" by (cases nt)
      from a Some nt have "\<forall>x \<in># pending items s. n \<le> tm_timestamp x"
        "registered (s\<lparr>le_callbacks := (armed, AwaitProcessed) # le_callbacks s\<rparr>) n timer" by (simp_all add: awake_def)
      moreover from this(2) s'(8) [OF that(1)] have "registered s' n timer"
        by (auto simp: registered_def s')
      ultimately show ?thesis using sub Some nt s'(2) by (auto simp: awake_def)
    qed
  qed
  moreover have "timers_ok s'" using timers by (simp add: timers_ok_def s')
  ultimately show ?thesis using round_accounted [OF contract acc r] by (simp add: env_inv_def)
qed

lemma accounted_update [simp]:
  "accounted items (s\<lparr>le_callbacks := cs\<rparr>) = accounted items s"
  "accounted items (s\<lparr>le_polled := qs\<rparr>) = accounted items s"
  "accounted items (s\<lparr>le_timers := ts\<rparr>) = accounted items s"
  "accounted items (s\<lparr>le_next := n\<rparr>) = accounted items s"
  by (simp_all add: accounted_def)

lemma timers_ok_fewer:
  "timers_ok s \<Longrightarrow> le_next s' = le_next s \<Longrightarrow> le_timerCount s' = le_timerCount s \<Longrightarrow>
   le_timers s' = filter P (le_timers s) \<Longrightarrow> timers_ok s'"
  unfolding timers_ok_def by (simp add: distinct_map_filter) blast

lemma registered_remove1:
  assumes "registered s n timer" and "n \<noteq> armed"
  shows "registered (s\<lparr>le_callbacks := remove1 (armed, x) (le_callbacks s)\<rparr>) n timer"
proof -
  have "(n, y) \<in> set (remove1 (armed, x) (le_callbacks s)) \<longleftrightarrow> (n, y) \<in> set (le_callbacks s)" for y
    using assms(2) by simp
  then show ?thesis using assms(1) by (simp add: registered_def)
qed

lemma env_inv_other:
  assumes "env_inv items s" and "le_time s' = le_time s" "le_added s' = le_added s" "le_done s' = le_done s"
    "le_now s \<le> le_now s'" "le_next s' = le_next s" "le_timers s' = le_timers s" "le_timerCount s' = le_timerCount s"
    "le_callbacks s' = le_callbacks s" "le_crashed s \<longrightarrow> le_crashed s'" "le_running s' \<longrightarrow> le_running s"
  shows "env_inv items s'"
  unfolding env_inv_def
proof (intro conjI impI)
  have "accounted items s" using assms(1) by (simp add: env_inv_def)
  then show "accounted items s'" using assms(2-5) by (rule accounted_later)
  have "timers_ok s" using assms(1) by (simp add: env_inv_def)
  then show "timers_ok s'" unfolding timers_ok_def assms(6,7,8) .
  assume "\<not> le_crashed s' \<and> le_running s' \<and> (\<forall>x \<in> set (le_added s'). fst x \<noteq> 0)"
  then have "\<not> le_crashed s \<and> le_running s \<and> (\<forall>x \<in> set (le_added s). fst x \<noteq> 0)"
    unfolding assms(3) using assms(10,11) by blast
  then have "awake items s" using assms(1) unfolding env_inv_def by blast
  then show "awake items s'" using assms(2,6) registered_same [OF assms(7,9,5)] by (rule awake_same)
qed

text \<open>A timer that fires is no longer armed, and its callback is at work if the timer was the registered one.\<close>

lemma fire_inv:
  assumes contract: "heap_contract ops items" and inv: "env_inv items s"
    and armed: "map_of (le_timers s) timer = Some (armed, at)"
    and s': "timer_fires ops env armed (s\<lparr>le_timers := filter (\<lambda>t. fst t \<noteq> timer) (le_timers s)\<rparr>) = Some s'"
  shows "env_inv items s'"
proof -
  define s1 where "s1 = s\<lparr>le_timers := filter (\<lambda>t. fst t \<noteq> timer) (le_timers s)\<rparr>"
  have member: "(timer, armed, at) \<in> set (le_timers s)" using armed by (rule map_of_SomeD)
  have acc: "accounted items s1" using inv by (simp add: env_inv_def s1_def)
  have ok: "timers_ok s1" using inv timers_ok_fewer [of s s1] by (auto simp: env_inv_def s1_def)
  have timer: "id' = timer \<Longrightarrow> n = armed" if "le_next s = Some (n, id')" for n id'
    using inv member that by (auto simp: env_inv_def timers_ok_def)
  have reg: "registered s n id' \<Longrightarrow> id' \<noteq> timer \<Longrightarrow> registered s1 n id'" for n id'
    by (auto simp: registered_def s1_def)
  show ?thesis
  proof (cases "map_option fst (le_next s) = Some armed \<and> le_running s")
    case True
    then have r: "process_round ops env armed s1 = Some s'" using s' by (simp add: timer_fires_def s1_def)
    show ?thesis
    proof (rule round_inv [OF contract acc ok _ r])
      assume "\<not> le_crashed s1" "le_running s1" "\<forall>x \<in> set (le_added s1). fst x \<noteq> 0"
      then have "awake items s" using inv by (simp add: env_inv_def s1_def)
      then show "awake items (s1\<lparr>le_callbacks := (armed, AwaitProcessed) # le_callbacks s1\<rparr>)"
        using True by (auto simp: awake_def s1_def registered_def)
    qed
  next
    case False
    then have "s' = s1" using s' by (auto simp: timer_fires_def s1_def)
    moreover have "awake items s1" if "\<not> le_crashed s1" "le_running s1" "\<forall>x \<in> set (le_added s1). fst x \<noteq> 0"
    proof -
      have "awake items s" using inv that by (simp add: env_inv_def s1_def)
      then show ?thesis
        by (rule awake_same) (use False timer reg that in \<open>auto simp: s1_def\<close>)
    qed
    ultimately show ?thesis using acc ok by (simp add: env_inv_def)
  qed
qed

lemma orchestrated_inv:
  assumes contract: "heap_contract ops items" and inv: "env_inv items s"
    and member: "(armed, AwaitOrchestrator queues) \<in> set (le_callbacks s)"
    and r: "process_round ops env armed (s\<lparr>le_callbacks := remove1 (armed, AwaitOrchestrator queues) (le_callbacks s),
      le_polled := le_polled s @ queues\<rparr>) = Some s'"
  shows "env_inv items s'"
proof (rule round_inv [OF contract _ _ _ r])
  let ?s = "s\<lparr>le_callbacks := remove1 (armed, AwaitOrchestrator queues) (le_callbacks s), le_polled := le_polled s @ queues\<rparr>"
  show "accounted items ?s" using inv by (simp add: env_inv_def)
  show "timers_ok ?s" using inv by (simp add: env_inv_def timers_ok_def)
  assume "\<not> le_crashed ?s" "le_running ?s" "\<forall>x \<in> set (le_added ?s). fst x \<noteq> 0"
  then have "awake items s" using inv by (simp add: env_inv_def)
  then show "awake items (?s\<lparr>le_callbacks := (armed, AwaitProcessed) # le_callbacks ?s\<rparr>)"
  proof (rule awake_same)
    fix n timer
    assume r: "registered s n timer"
    show "registered (?s\<lparr>le_callbacks := (armed, AwaitProcessed) # le_callbacks ?s\<rparr>) n timer"
    proof (cases "n = armed")
      case True
      then show ?thesis by (auto simp: registered_def)
    next
      case False
      from registered_remove1 [OF r this, of "AwaitOrchestrator queues"] show ?thesis by (auto simp: registered_def)
    qed
  qed simp_all
qed

lemma processed_inv:
  assumes contract: "heap_contract ops items" and inv: "env_inv items s"
    and s': "s' = processed ops armed (s\<lparr>le_callbacks := remove1 (armed, AwaitProcessed) (le_callbacks s)\<rparr>)"
  shows "env_inv items s'"
proof -
  define s1 where "s1 = s\<lparr>le_callbacks := remove1 (armed, AwaitProcessed) (le_callbacks s)\<rparr>"
  have acc: "accounted items s1" using inv by (simp add: env_inv_def s1_def)
  have ok: "timers_ok s1" using inv by (simp add: env_inv_def timers_ok_def s1_def)
  show ?thesis
  proof (cases "le_next s")
    case None
    then show ?thesis using acc ok by (simp add: s' processed_def s1_def env_inv_def accounted_def timers_ok_def)
  next
    case (Some nt)
    then obtain n timer where nt: "le_next s = Some (n, timer)" by (cases nt) auto
    show ?thesis
    proof (cases "n = armed \<and> le_running s")
      case True
      have eq: "s' = tryStartProcessingEvents ops (s1\<lparr>le_next := None\<rparr>)"
        using True nt by (simp add: s' processed_def s1_def)
      have ok': "timers_ok (s1\<lparr>le_next := None\<rparr>)" and acc': "accounted items (s1\<lparr>le_next := None\<rparr>)"
        using ok acc by (simp_all add: timers_ok_def accounted_def)
      have "awake items s'" if "\<forall>x \<in> set (le_added s'). fst x \<noteq> 0" unfolding eq
        by (rule tryStart_awake [OF contract])
          (use pending_nonzero [OF acc'] that in \<open>simp_all add: eq\<close>)
      then show ?thesis using tryStart_timers [OF ok'] acc' by (simp add: env_inv_def eq)
    next
      case False
      then have eq: "s' = s1" using nt by (auto simp: s' processed_def s1_def)
      have "awake items s1" if "\<not> le_crashed s1" "le_running s1" "\<forall>x \<in> set (le_added s1). fst x \<noteq> 0"
      proof -
        have "awake items s" using inv that by (simp add: env_inv_def s1_def)
        then show ?thesis
          by (rule awake_same)
            (use False nt that registered_remove1 in \<open>auto simp: s1_def\<close>)
      qed
      then show ?thesis using acc ok eq by (simp add: env_inv_def)
    qed
  qed
qed

lemma step_inv:
  assumes contract: "heap_contract ops items" and inv: "env_inv items s" and step: "env_step ops env a s = Some s'"
  shows "env_inv items s'"
proof (cases a)
  case (Elapse d)
  then show ?thesis using step by (auto intro: env_inv_other [OF inv])
next
  case (ScheduleAt time task)
  then show ?thesis using step schedule_inv [OF contract inv] by auto
next
  case (PushTask task)
  then show ?thesis using step schedule_inv [OF contract inv] by (auto simp: connector_pushWorkflowTask_def)
next
  case (TaskEnds result)
  then show ?thesis using step schedule_inv [OF contract inv] inv
    by (auto simp: connector_pushWorkflowTask_def split: option.splits task_fallback_request.splits)
next
  case (Fire timer)
  then show ?thesis using step fire_inv [OF contract inv] by (auto split: option.splits prod.splits if_splits)
next
  case (Orchestrated armed queues)
  then show ?thesis using step orchestrated_inv [OF contract inv] by (auto split: if_splits)
next
  case (Processed armed)
  then show ?thesis using step processed_inv [OF contract inv] by (auto split: if_splits)
next
  case Reject
  then show ?thesis using step by (auto intro: env_inv_other [OF inv] split: if_splits)
next
  case Stop
  then show ?thesis using step by (auto intro: env_inv_other [OF inv])
qed

text \<open>The persisted clock, if there is one, is not ahead of the time and ticks by milliseconds.\<close>

definition clock_data_ok :: "local_event serialized_time option \<Rightarrow> int \<Rightarrow> bool" where
  "clock_data_ok data now \<longleftrightarrow> (case data of None \<Rightarrow> True | Some d \<Rightarrow> st_current d \<le> now \<and> st_increment d = 1)"

lemma initial_inv:
  assumes contract: "heap_contract ops items" and data: "clock_data_ok data now"
  shows "env_inv items (LocalEnvironment ops data now)"
proof -
  let ?s = "\<lparr>le_time = (case data of Some d \<Rightarrow> time_fromSerializedData ops d
          | None \<Rightarrow> TimeController ops [] (Some now) (Some 1)),
        le_now = now, le_next = None, le_timers = [], le_timerCount = 0, le_running = True,
        le_callbacks = [], le_crashed = False,
        le_added = (case data of Some d \<Rightarrow> map (\<lambda>e. (tm_timestamp e, tm_event e)) (st_events d) | None \<Rightarrow> []),
        le_done = [], le_called = [], le_polled = []\<rparr>"
  have mapped: "image_mset (\<lambda>e. (tm_timestamp e, tm_event e)) (mset (number_events n es)) = mset es" for n and es :: "(int \<times> local_event) list"
    using number_events_back [of n es] by (metis mset_map)
  have acc: "accounted items ?s"
    using contract data mapped
    by (auto simp: accounted_def clock_data_ok_def heap_contract_def TimeController_def time_fromSerializedData_def
        split: option.splits)
  moreover have "timers_ok ?s" by (simp add: timers_ok_def)
  moreover have "awake items (tryStartProcessingEvents ops ?s)" if "\<forall>x \<in> set (le_added ?s). fst x \<noteq> 0"
    by (rule tryStart_awake [OF contract]) (use pending_nonzero [OF acc that] in simp_all)
  ultimately show ?thesis using tryStart_timers [of ?s] unfolding LocalEnvironment_def env_inv_def by simp
qed

lemma reachable_inv:
  assumes "env_reachable ops env (LocalEnvironment ops data now) s" and "heap_contract ops items" and "clock_data_ok data now"
  shows "env_inv items s"
  using assms(1) by induction (use assms initial_inv step_inv in blast)+

end
