(* ===== verification/LocalEnvironmentProperties.thy ===== *)
theory LocalEnvironmentProperties
  imports LocalEnvironmentLoop
begin

text \<open>
  What the event loop of the local environment does for the events it is given: none waits in vain,
  each is handed out once and not early, and reaches its workers; and two ways of bringing it down.
\<close>

section \<open>What a round calls\<close>

text \<open>
  The calls of workers that an event is for; an orchestration of several tasks counts as one for
  each. The poll of a queue, which is the queue's handler called with the messages received, is
  counted by queue and round below (\<open>polls_of_rounds\<close>).
\<close>

fun calls_of :: "loop_env \<Rightarrow> local_event \<Rightarrow> worker_call list" where
  "calls_of env (WorkflowTask executionId events) = [CallOrchestrator [(executionId, events)]]"
| "calls_of env (TimerRequest r) = [CallTimerHandler r]"
| "calls_of env (TaskWorkerRequest r) = [CallTaskWorker r]"
| "calls_of env (EntityStreamEvent i) =
     (case streams_of_item (en_entities env) (en_streams env) i of
        Inl _ \<Rightarrow> [] | Inr streams \<Rightarrow> map (\<lambda>stream. CallEntityStreamWorker (si_entityName i) stream i) streams)"
| "calls_of env (EmittedEvents es) = [CallSubscriptionWorker es]"
| "calls_of env (QueuePollEvent q) = []"
| "calls_of env (BucketEvent e) = map (\<lambda>stream. CallBucketHandlerWorker stream e) (handlers_of_event (en_buckets env) e)"

fun single_calls :: "worker_call \<Rightarrow> worker_call list" where
  "single_calls (CallOrchestrator tasks) = map (\<lambda>task. CallOrchestrator [task]) tasks"
| "single_calls c = [c]"

lemma forEach_start: "act_forEach (\<lambda>r. start_worker (f r)) xs s = (s @ map f xs, Inr ())"
  by (induction xs arbitrary: s) (simp_all add: start_worker_def)

lemma handle_stream_item_calls:
  "handle_stream_item env i s = (s', Inr ()) \<Longrightarrow> s' = s @ calls_of env (EntityStreamEvent i)"
  by (cases "streams_of_item (en_entities env) (en_streams env) i")
    (simp_all add: handle_stream_item_def forEach_start)

lemma forEach_streams:
  "act_forEach (handle_stream_item env) is s = (s', Inr ()) \<Longrightarrow>
   s' = s @ concat (map (\<lambda>i. calls_of env (EntityStreamEvent i)) is)"
proof (induction "is" arbitrary: s)
  case (Cons i "is")
  then obtain s1 where s1: "handle_stream_item env i s = (s1, Inr ())" "act_forEach (handle_stream_item env) is s1 = (s', Inr ())"
    by (auto simp: act_bind_Inr)
  from Cons.IH [OF s1(2)] handle_stream_item_calls [OF s1(1)] show ?case by (simp only: list.map concat.simps append.assoc)
qed simp

lemma forEach_handlers:
  "act_forEach (handle_bucket_event env) is s = (s @ concat (map (\<lambda>e. calls_of env (BucketEvent e)) is), Inr ())"
  by (induction "is" arbitrary: s) (simp_all add: handle_bucket_event_def forEach_start)

lemma dispatch_calls:
  assumes "dispatch env events s = (s', Inr ())"
  shows "s' = s @ map CallTaskWorker (concat (map task_requests events)) @
    map CallTimerHandler (concat (map timer_requests events)) @
    concat (map (\<lambda>i. calls_of env (EntityStreamEvent i)) (concat (map stream_items events))) @
    concat (map (\<lambda>e. calls_of env (BucketEvent e)) (concat (map bucket_events events))) @
    map CallSubscriptionWorker (concat (map emitted_events events)) @
    [CallOrchestrator (concat (map workflow_tasks events))]"
proof -
  from assms obtain s1 where
    s1: "act_forEach (handle_stream_item env) (concat (map stream_items events)) (s @ map CallTaskWorker (concat (map task_requests events)) @
         map CallTimerHandler (concat (map timer_requests events))) = (s1, Inr ())"
    "s' = s1 @ concat (map (\<lambda>e. calls_of env (BucketEvent e)) (concat (map bucket_events events))) @
      map CallSubscriptionWorker (concat (map emitted_events events)) @ [CallOrchestrator (concat (map workflow_tasks events))]"
    unfolding dispatch_def
    by (auto simp: act_bind_Inr forEach_start forEach_handlers) (auto simp: start_worker_def)
  then show ?thesis using forEach_streams [OF s1(1)] by simp
qed

lemma streams_single: "concat (map single_calls (calls_of env (EntityStreamEvent i))) = calls_of env (EntityStreamEvent i)"
  by (auto simp: concat_map_singleton comp_def split: sum.split)

lemma buckets_single: "concat (map single_calls (calls_of env (BucketEvent e))) = calls_of env (BucketEvent e)"
  by (auto simp: concat_map_singleton comp_def)

definition calls_made :: "worker_call list \<Rightarrow> worker_call multiset" where
  "calls_made calls = mset (concat (map single_calls calls))"

lemma calls_made_simps [simp]:
  "calls_made [] = {#}" "calls_made (xs @ ys) = calls_made xs + calls_made ys"
  "calls_made (calls_of env (EntityStreamEvent i)) = mset (calls_of env (EntityStreamEvent i))"
  "calls_made (calls_of env (BucketEvent e)) = mset (calls_of env (BucketEvent e))"
  by (simp_all only: calls_made_def streams_single buckets_single) simp_all

lemma calls_made_Cons: "calls_made (c # cs) = mset (single_calls c) + calls_made cs"
  by (simp add: calls_made_def)

lemma dispatch_reaches_workers:
  assumes "dispatch env events s = (s', Inr ())"
  shows "calls_made s' = calls_made s + mset (concat (map (calls_of env) events))"
  unfolding dispatch_calls [OF assms]
proof (induction events)
  case Nil
  show ?case by (simp add: calls_made_Cons)
next
  case (Cons e events)
  then show ?case
    by (cases e) (simp_all add: calls_made_Cons del: calls_of.simps(4,7))
qed

text \<open>The queues that are polled once the orchestrations under way have ended.\<close>

definition polls_awaited :: "(int \<times> stage) list \<Rightarrow> string multiset" where
  "polls_awaited callbacks =
     (\<Sum>(armed, s) \<in># mset callbacks. case s of AwaitOrchestrator queues \<Rightarrow> mset queues | AwaitProcessed \<Rightarrow> {#})"

lemma polls_awaited_simps [simp]:
  "polls_awaited [] = {#}" "polls_awaited (cs @ cs') = polls_awaited cs + polls_awaited cs'"
  "polls_awaited [(n, AwaitOrchestrator queues)] = mset queues" "polls_awaited [(n, AwaitProcessed)] = {#}"
  by (simp_all add: polls_awaited_def)

lemma polls_awaited_remove1:
  "c \<in> set cs \<Longrightarrow> polls_awaited cs = polls_awaited [c] + polls_awaited (remove1 c cs)"
proof -
  assume "c \<in> set cs"
  then have "mset cs = add_mset c (mset (remove1 c cs))" by simp
  then show ?thesis by (simp add: polls_awaited_def del: mset_remove1)
qed

text \<open>
  What was handed out has been called, as long as nothing was thrown: the rounds are the groups of
  events handed out together, and each polls each queue that an event of it names once.
\<close>

definition polls_of_rounds :: "local_event list list \<Rightarrow> string multiset" where
  "polls_of_rounds rounds = mset (concat (map queues_to_poll rounds))"

definition served :: "loop_env \<Rightarrow> 'h local_env \<Rightarrow> bool" where
  "served env s \<longleftrightarrow> \<not> le_crashed s \<longrightarrow>
     calls_made (le_called s) = mset (concat (map (\<lambda>(at, e). calls_of env e) (le_done s))) \<and>
     (\<exists>rounds. map snd (le_done s) = concat rounds \<and>
        mset (le_polled s) + polls_awaited (le_callbacks s) = polls_of_rounds rounds)"

lemma served_same:
  "served env s \<Longrightarrow> le_called s' = le_called s \<Longrightarrow> le_done s' = le_done s \<Longrightarrow> le_polled s' = le_polled s \<Longrightarrow>
   le_callbacks s' = le_callbacks s \<Longrightarrow> (le_crashed s \<longrightarrow> le_crashed s') \<Longrightarrow> served env s'"
  by (auto simp: served_def)

lemma round_served:
  assumes contract: "heap_contract ops items" and acc: "accounted items s" and r: "process_round ops env armed s = Some s'"
    and before: "\<not> le_crashed s \<Longrightarrow> served env s"
  shows "served env s'"
  unfolding served_def
proof
  assume nc: "\<not> le_crashed s'"
  have "\<exists>ds :: local_event timed list. le_done s' = le_done s @ map (\<lambda>d. (le_now s, tm_event d)) ds \<and> le_polled s' = le_polled s \<and>
    le_callbacks s' = le_callbacks s @ [(armed, if ds = [] then AwaitProcessed
        else AwaitOrchestrator (queues_to_poll (map tm_event ds)))] \<and>
    (if ds = [] then le_called s' = le_called s
        else dispatch env (map tm_event ds) (le_called s) = (le_called s', Inr ())) \<and> \<not> le_crashed s"
    by (rule round_returns [OF contract acc, of env armed], rule_tac x = ds in exI) (use r nc in simp)
  then obtain ds :: "local_event timed list" where s': "le_done s' = le_done s @ map (\<lambda>d. (le_now s, tm_event d)) ds" "le_polled s' = le_polled s"
    "le_callbacks s' = le_callbacks s @ [(armed, if ds = [] then AwaitProcessed
        else AwaitOrchestrator (queues_to_poll (map tm_event ds)))]"
    "if ds = [] then le_called s' = le_called s
        else dispatch env (map tm_event ds) (le_called s) = (le_called s', Inr ())"
    and crashed: "\<not> le_crashed s" by blast
  from before [OF crashed] crashed obtain rounds where
    calls: "calls_made (le_called s) = mset (concat (map (\<lambda>(at, e). calls_of env e) (le_done s)))"
    and rounds: "map snd (le_done s) = concat rounds" "mset (le_polled s) + polls_awaited (le_callbacks s) = polls_of_rounds rounds"
    unfolding served_def by blast
  have "calls_made (le_called s') = calls_made (le_called s) + mset (concat (map (calls_of env) (map tm_event ds)))"
    using s'(4) dispatch_reaches_workers by (cases "ds = []") auto
  moreover have "map snd (le_done s') = concat (rounds @ [map tm_event ds])" using rounds(1) by (simp add: s'(1) comp_def)
  moreover have "mset (le_polled s') + polls_awaited (le_callbacks s') = polls_of_rounds (rounds @ [map tm_event ds])"
    by (simp add: s'(2,3) polls_of_rounds_def queues_to_poll_def flip: rounds(2) [unfolded polls_of_rounds_def])
  ultimately show "calls_made (le_called s') = mset (concat (map (\<lambda>(at, e). calls_of env e) (le_done s'))) \<and>
      (\<exists>rounds. map snd (le_done s') = concat rounds \<and>
         mset (le_polled s') + polls_awaited (le_callbacks s') = polls_of_rounds rounds)"
    using calls by (intro conjI exI [of _ "rounds @ [map tm_event ds]"]) (simp_all only: s'(1), simp_all add: comp_def)
qed

lemma schedule_served: "served env s \<Longrightarrow> served env (connector_scheduleEvent ops time task s)"
  by (simp add: served_def connector_scheduleEvent_def)

lemma step_served:
  assumes contract: "heap_contract ops items" and inv: "env_inv items s" and before: "served env s"
    and step: "env_step ops env a s = Some s'"
  shows "served env s'"
proof (cases a)
  case (Fire timer)
  with step obtain armed at where s': "timer_fires ops env armed (s\<lparr>le_timers := filter (\<lambda>t. fst t \<noteq> timer) (le_timers s)\<rparr>) = Some s'"
    by (auto split: option.splits prod.splits if_splits)
  define s1 where "s1 = s\<lparr>le_timers := filter (\<lambda>t. fst t \<noteq> timer) (le_timers s)\<rparr>"
  have served1: "served env s1" using before by (rule served_same) (simp_all add: s1_def)
  have acc: "accounted items s1" using inv by (simp add: env_inv_def s1_def)
  show ?thesis
  proof (cases "map_option fst (le_next s1) = Some armed \<and> le_running s1")
    case True
    then have r: "process_round ops env armed s1 = Some s'" using s' by (simp add: timer_fires_def s1_def)
    show ?thesis by (rule round_served [OF contract acc r]) (rule served1)
  next
    case False
    then show ?thesis using s' served1 by (auto simp: timer_fires_def s1_def)
  qed
next
  case (Orchestrated armed queues)
  with step have member: "(armed, AwaitOrchestrator queues) \<in> set (le_callbacks s)"
    and r: "process_round ops env armed (s\<lparr>le_callbacks := remove1 (armed, AwaitOrchestrator queues) (le_callbacks s),
      le_polled := le_polled s @ queues\<rparr>) = Some s'" by (auto split: if_splits)
  show ?thesis
  proof (rule round_served [OF contract _ r])
    show "accounted items (s\<lparr>le_callbacks := remove1 (armed, AwaitOrchestrator queues) (le_callbacks s),
      le_polled := le_polled s @ queues\<rparr>)" using inv by (simp add: env_inv_def)
    show "served env (s\<lparr>le_callbacks := remove1 (armed, AwaitOrchestrator queues) (le_callbacks s), le_polled := le_polled s @ queues\<rparr>)"
      using before polls_awaited_remove1 [OF member] by (simp add: served_def add.assoc)
  qed
next
  case (Processed armed)
  with step have s': "s' = processed ops armed (s\<lparr>le_callbacks := remove1 (armed, AwaitProcessed) (le_callbacks s)\<rparr>)"
    by (auto split: if_splits)
  have s1: "served env (s\<lparr>le_callbacks := remove1 (armed, AwaitProcessed) (le_callbacks s)\<rparr>)"
    using before step polls_awaited_remove1 [of "(armed, AwaitProcessed)" "le_callbacks s"]
    by (simp add: served_def Processed split: if_splits)
  show ?thesis unfolding s' processed_def
    by (rule served_same [OF s1]) (simp_all split: option.split prod.split)
next
  case (Elapse d)
  then show ?thesis using step by (auto intro: served_same [OF before])
next
  case (ScheduleAt time task)
  then show ?thesis using step schedule_served [OF before] by auto
next
  case (PushTask task)
  then show ?thesis using step schedule_served [OF before] by (auto simp: connector_pushWorkflowTask_def)
next
  case (TaskEnds result)
  then show ?thesis using step schedule_served [OF before] before
    by (auto simp: connector_pushWorkflowTask_def split: option.splits task_fallback_request.splits)
next
  case Reject
  then show ?thesis using step by (auto intro: served_same [OF before] split: if_splits)
next
  case Stop
  then show ?thesis using step by (auto intro: served_same [OF before])
qed

lemma reachable_served:
  assumes "env_reachable ops env (LocalEnvironment ops data now) s" and "heap_contract ops items" and "clock_data_ok data now"
  shows "served env s"
  using assms(1)
proof induction
  case initially
  show ?case by (auto simp: served_def LocalEnvironment_def polls_of_rounds_def intro!: exI [of _ "[]"])
next
  case (step s a s')
  then show ?case using assms reachable_inv step_served by blast
qed

section \<open>From a pending event to its round\<close>

text \<open>The steps that the environment takes by itself, as time goes by and orchestrations end.\<close>

fun own_step :: "env_act \<Rightarrow> bool" where
  "own_step (Elapse d) = True"
| "own_step (Fire timer) = True"
| "own_step (Orchestrated armed queues) = True"
| "own_step (Processed armed) = True"
| "own_step _ = False"

lemma round_hands_out:
  assumes contract: "heap_contract ops items" and acc: "accounted items s"
    and due: "x \<in># pending items s" "tm_timestamp x \<le> le_now s"
  shows "\<exists>s'. process_round ops env armed s = Some s' \<and> tm_event x \<in> snd ` set (le_done s')"
proof (rule round_returns [OF contract acc, of env armed])
  fix time s' and ds :: "local_event timed list"
  assume r: "process_round ops env armed s = Some s'"
    and d: "le_done s' = le_done s @ map (\<lambda>d. (le_now s, tm_event d)) ds"
      "drained items (tc_timeHeap (le_time s)) (le_now s) (tc_timeHeap time) ds"
  have "x \<in> set ds" using d(2) due by (auto simp: drained_def dest!: set_mset_filtered)
  then show ?thesis using r d(1) by force
qed

lemma accounted_elapse: "accounted items s \<Longrightarrow> accounted items (s\<lparr>le_now := le_now s + int d\<rparr>)"
  by (erule accounted_later) auto

lemma armed_timer_hands_out:
  assumes contract: "heap_contract ops items" and inv: "env_inv items s"
    and s: "\<not> le_crashed s" "le_running s" and x: "x \<in># pending items s"
    and armed: "le_next s = Some (n, timer)" "(timer, n, at) \<in> set (le_timers s)"
  shows "\<exists>acts s'. list_all own_step acts \<and> env_run ops env acts s = Some s' \<and> tm_event x \<in> snd ` set (le_done s')"
proof -
  define d where "d = nat (max (tm_timestamp x) (max at (le_now s)) - le_now s)"
  define s1 where "s1 = s\<lparr>le_now := le_now s + int d, le_timers := filter (\<lambda>t. fst t \<noteq> timer) (le_timers s)\<rparr>"
  have now: "le_now s + int d = max (tm_timestamp x) (max at (le_now s))" unfolding d_def by linarith
  have "map_of (le_timers s) timer = Some (n, at)"
    using inv armed(2) by (simp add: env_inv_def timers_ok_def)
  moreover have acc: "accounted items s1" using inv accounted_elapse [of items s d] by (simp add: env_inv_def s1_def accounted_def)
  have "x \<in># pending items s1" "tm_timestamp x \<le> le_now s1" using x now by (simp_all add: s1_def)
  from round_hands_out [OF contract acc this, of env n] obtain s' where
    s': "process_round ops env n s1 = Some s'" "tm_event x \<in> snd ` set (le_done s')" by blast
  ultimately have "env_run ops env [Elapse d, Fire timer] s = Some s'"
    using s armed(1) now by (simp add: timer_fires_def s1_def)
  then show ?thesis using s'(2) by (intro exI [of _ "[Elapse d, Fire timer]"] exI [of _ s']) simp
qed

lemma pending_handed_out:
  assumes contract: "heap_contract ops items" and inv: "env_inv items s"
    and s: "\<not> le_crashed s" "le_running s" and nonzero: "\<forall>e \<in> set (le_added s). fst e \<noteq> 0" and x: "x \<in># pending items s"
  shows "\<exists>acts s'. list_all own_step acts \<and> env_run ops env acts s = Some s' \<and> tm_event x \<in> snd ` set (le_done s')"
proof -
  have "awake items s" using inv s nonzero by (simp add: env_inv_def)
  then obtain n timer where n: "le_next s = Some (n, timer)" "registered s n timer"
    using x by (auto simp: awake_def split: option.splits)
  from n(2) consider at where "(timer, n, at) \<in> set (le_timers s)"
    | queues where "(n, AwaitOrchestrator queues) \<in> set (le_callbacks s)" | "(n, AwaitProcessed) \<in> set (le_callbacks s)"
    unfolding registered_def by (metis stage.exhaust)
  then show ?thesis
  proof cases
    case (1 at)
    then show ?thesis using armed_timer_hands_out [OF contract inv s x n(1)] by blast
  next
    case (2 queues)
    define d where "d = nat (max (tm_timestamp x) (le_now s) - le_now s)"
    define s1 where "s1 = s\<lparr>le_now := le_now s + int d,
      le_callbacks := remove1 (n, AwaitOrchestrator queues) (le_callbacks s), le_polled := le_polled s @ queues\<rparr>"
    have acc: "accounted items s1" using inv accounted_elapse [of items s d] by (simp add: env_inv_def s1_def accounted_def)
    have "x \<in># pending items s1" "tm_timestamp x \<le> le_now s1" using x by (simp_all add: s1_def d_def)
    from round_hands_out [OF contract acc this, of env n] obtain s' where
      s': "process_round ops env n s1 = Some s'" "tm_event x \<in> snd ` set (le_done s')" by blast
    then have "env_run ops env [Elapse d, Orchestrated n queues] s = Some s'" using s 2 by (simp add: s1_def)
    then show ?thesis using s'(2) by (intro exI [of _ "[Elapse d, Orchestrated n queues]"] exI [of _ s']) simp
  next
    case 3
    define s0 where "s0 = s\<lparr>le_callbacks := remove1 (n, AwaitProcessed) (le_callbacks s), le_next := None\<rparr>"
    define s1 where "s1 = tryStartProcessingEvents ops s0"
    have step: "env_step ops env (Processed n) s = Some s1"
      using 3 n(1) s by (simp add: processed_def s1_def s0_def)
    from step_inv [OF contract inv step] have inv1: "env_inv items s1" .
    have x1: "x \<in># pending items s1" and s1: "\<not> le_crashed s1" "le_running s1" using x s by (simp_all add: s1_def s0_def)
    have some: "nextEventTick ops (le_time s) \<noteq> None" using x nextEventTick_least(1) [OF contract] by fastforce
    then obtain t where t: "nextEventTick ops (le_time s) = Some t" by blast
    have "t \<noteq> 0" using nextEventTick_least(3) [OF contract t] pending_nonzero [OF _ nonzero] inv by (auto simp: env_inv_def)
    then have "le_next s1 = Some (t, le_timerCount s0)"
      "(le_timerCount s0, t, le_now s + timeout_delay (t - le_now s)) \<in> set (le_timers s1)"
      using t by (simp_all add: s1_def s0_def tryStartProcessingEvents_def)
    from armed_timer_hands_out [OF contract inv1 s1 x1 this] obtain acts s' where
      "list_all own_step acts" "env_run ops env acts s1 = Some s'" "tm_event x \<in> snd ` set (le_done s')" by blast
    moreover from this step s(1) have "env_run ops env (Processed n # acts) s = Some s'" by simp
    ultimately show ?thesis by (intro exI [of _ "Processed n # acts"] exI [of _ s']) simp
  qed
qed

section \<open>Properties\<close>

text \<open>
  C31 (liveness): no event waits in vain: while the environment runs, every pending event can be handed
  out by steps of the environment alone, time going by, a timer firing, an orchestration ending,
  provided that no event was scheduled for the time 0.
\<close>

theorem pending_event_is_handed_out:
  assumes "env_reachable ops env (LocalEnvironment ops data now) s" and "heap_contract ops items" and "clock_data_ok data now"
    and "\<not> le_crashed s" and "le_running s" and "\<forall>e \<in> set (le_added s). fst e \<noteq> 0"
    and "x \<in># items (tc_timeHeap (le_time s))"
  shows "\<exists>acts s'. list_all own_step acts \<and> env_run ops env acts s = Some s' \<and> tm_event x \<in> snd ` set (le_done s')"
  using pending_handed_out [OF assms(2) reachable_inv [OF assms(1-3)] assms(4-7)] .

text \<open>
  C32 (safety): every scheduled event is handed out at most once and not before its time; what has not
  been handed out is pending.
\<close>

theorem events_handed_out_once:
  assumes "env_reachable ops env (LocalEnvironment ops data now) s" and "heap_contract ops items" and "clock_data_ok data now"
  shows "\<exists>records. le_done s = map (\<lambda>(due, at, e). (at, e)) records \<and>
    (\<forall>(due, at, e) \<in> set records. due \<le> at \<and> at \<le> le_now s) \<and>
    mset (le_added s) = mset (map (\<lambda>(due, at, e). (due, e)) records) +
      image_mset (\<lambda>x. (tm_timestamp x, tm_event x)) (items (tc_timeHeap (le_time s)))"
  using reachable_inv [OF assms] by (simp add: env_inv_def accounted_def)

text \<open>
  C33 (functional): what is handed out reaches its workers. Unless something threw, the workers have
  been called exactly for the events handed out: the orchestrator for the tasks of workflows, the
  task worker, the timer handler and the subscription worker for theirs, the handler of each
  entity stream and bucket handler that matches the event. The events are handed out in rounds, and
  the queues polled so far, with those whose round still waits for its orchestrations, are for each
  round the queues that its events name, each once.
\<close>

theorem events_reach_their_workers:
  assumes "env_reachable ops env (LocalEnvironment ops data now) s" and "heap_contract ops items" and "clock_data_ok data now"
    and "\<not> le_crashed s"
  shows "calls_made (le_called s) = mset (concat (map (\<lambda>(at, e). calls_of env e) (le_done s))) \<and>
    (\<exists>rounds. map snd (le_done s) = concat rounds \<and>
       mset (le_polled s) + polls_awaited (le_callbacks s) = polls_of_rounds rounds)"
  using reachable_served [OF assms(1-3)] assms(4) by (simp add: served_def)

section \<open>A time of zero\<close>

definition stalled :: "('h \<Rightarrow> local_event timed multiset) \<Rightarrow> 'h local_env \<Rightarrow> bool" where
  "stalled items s \<longleftrightarrow> le_timers s = [] \<and> le_callbacks s = [] \<and> le_called s = [] \<and> le_next s = None \<and> 0 \<le> le_now s \<and>
     (\<exists>x \<in># pending items s. tm_timestamp x = 0) \<and> (\<forall>x \<in># pending items s. 0 \<le> tm_timestamp x)"

lemma stalled_now: "stalled items s \<Longrightarrow> 0 \<le> le_now s"
  by (simp add: stalled_def)

lemma stalled_start:
  assumes "heap_contract ops items" and "stalled items s"
  shows "tryStartProcessingEvents ops s = s"
proof (cases "nextEventTick ops (le_time s)")
  case None
  then show ?thesis by (simp add: tryStartProcessingEvents_def)
next
  case (Some t)
  with assms have "t = 0"
    using nextEventTick_least(2,3) [OF assms(1) Some] unfolding stalled_def by (metis order_antisym)
  with Some show ?thesis by (simp add: tryStartProcessingEvents_def)
qed

lemma stalled_schedule:
  assumes contract: "heap_contract ops items" and "stalled items s" and "0 \<le> time"
  shows "stalled items (connector_scheduleEvent ops time task s)"
proof -
  have "stalled items (s\<lparr>le_time := addEvent ops time task (le_time s), le_added := le_added s @ [(time, task)]\<rparr>)"
    using assms by (auto simp: stalled_def addEvent_def heap_contract_def)
  with stalled_start [OF contract this] show ?thesis by (simp add: connector_scheduleEvent_def)
qed

fun scheduled_time :: "env_act \<Rightarrow> int" where
  "scheduled_time (ScheduleAt time task) = time"
| "scheduled_time _ = 0"

lemma stalled_step:
  assumes contract: "heap_contract ops items" and s: "stalled items s" and a: "0 \<le> scheduled_time a"
    and step: "env_step ops env a s = Some s'"
  shows "stalled items s'"
proof (cases a)
  case (TaskEnds result)
  then show ?thesis using step s stalled_schedule [OF contract s]
    by (auto simp: connector_pushWorkflowTask_def dest: stalled_now split: option.splits task_fallback_request.splits)
qed (use step s a stalled_schedule [OF contract s] in
    \<open>auto simp: connector_pushWorkflowTask_def stalled_def [of items s], auto simp: stalled_def\<close>)

lemma stalled_run:
  "heap_contract ops items \<Longrightarrow> stalled items s \<Longrightarrow> list_all (\<lambda>a. 0 \<le> scheduled_time a) acts \<Longrightarrow>
   env_run ops env acts s = Some s' \<Longrightarrow> stalled items s'"
proof (induction acts arbitrary: s)
  case (Cons a acts)
  from Cons.prems(4) obtain s1 where "env_step ops env a s = Some s1" "env_run ops env acts s1 = Some s'"
    by (auto split: if_splits bind_splits)
  then show ?case using Cons stalled_step by (metis list.pred_inject(2))
qed simp

text \<open>
  One event for the time 0 stops the local runtime for good: the time of the next event is
  then falsy, so that no timer is armed again and whatever is scheduled later, for any time from 0 on,
  no worker is called.
\<close>

theorem epoch_event_stalls_environment:
  assumes "heap_contract ops items" and "0 \<le> now" and "list_all (\<lambda>a. 0 \<le> scheduled_time a) acts"
    and "env_run ops env (ScheduleAt 0 task # acts) (LocalEnvironment ops None now) = Some s"
  shows "le_called s = []"
proof -
  let ?s = "LocalEnvironment ops None now"
  have empty: "nextEventTick ops (TimeController ops [] (Some now) (Some 1)) = None"
    using assms(1) by (simp add: nextEventTick_def TimeController_def heap_contract_def)
  then have s: "?s = \<lparr>le_time = TimeController ops [] (Some now) (Some 1), le_now = now, le_next = None, le_timers = [],
      le_timerCount = 0, le_running = True, le_callbacks = [], le_crashed = False, le_added = [], le_done = [],
      le_called = [], le_polled = []\<rparr>"
    by (simp add: LocalEnvironment_def tryStartProcessingEvents_def)
  define s1 where "s1 = ?s\<lparr>le_time := addEvent ops 0 task (le_time ?s), le_added := [(0, task)]\<rparr>"
  have st: "stalled items s1"
    using assms(1,2) by (auto simp: s1_def s stalled_def addEvent_def heap_contract_def TimeController_def)
  have "connector_scheduleEvent ops 0 task ?s = s1"
    using stalled_start [OF assms(1) st] by (simp add: connector_scheduleEvent_def s1_def s)
  then have "env_run ops env acts s1 = Some s" using assms(4) by (simp add: s)
  from stalled_run [OF assms(1) st assms(3) this] show ?thesis by (simp add: stalled_def)
qed

section \<open>An event in the past\<close>

lemma drain_list_heap_Nil: "drainPastEvents list_heap (c\<lparr>tc_timeHeap := []\<rparr>) = Some (c\<lparr>tc_timeHeap := []\<rparr>, [])"
  by (subst drainPastEvents.simps) (simp add: hasCurrentOrPastEvents_def list_heap_def)

lemma tickUntil_one:
  assumes "tc_increment c = 1" and "tc_timeHeap c = [x]" and "tm_timestamp x \<le> goal" and "tc_current c \<le> goal"
  shows "tickUntil list_heap goal c = Some (c\<lparr>tc_current := goal, tc_timeHeap := []\<rparr>, [tm_event x])"
proof -
  have "drainPastEvents list_heap (c\<lparr>tc_current := goal\<rparr>) = Some (c\<lparr>tc_current := goal, tc_timeHeap := []\<rparr>, [tm_event x])"
    using assms drain_list_heap_Nil [of "c\<lparr>tc_current := goal\<rparr>"]
    by (subst drainPastEvents.simps) (simp add: hasCurrentOrPastEvents_def list_heap_def)
  then show ?thesis using assms(1,4) by (simp add: tickUntil_def tick_def)
qed

lemma tickUntil_none:
  assumes "tc_increment c = 1" and "tc_timeHeap c = []" and "tc_current c \<le> goal"
  shows "tickUntil list_heap goal c = Some (c\<lparr>tc_current := goal\<rparr>, [])"
proof -
  have "drainPastEvents list_heap (c\<lparr>tc_current := goal\<rparr>) = Some (c\<lparr>tc_current := goal\<rparr>, [])"
    using assms(2) by (subst drainPastEvents.simps) (simp add: hasCurrentOrPastEvents_def list_heap_def)
  then show ?thesis using assms by (simp add: tickUntil_def tick_def)
qed

lemma nextEventTick_list [simp]:
  "tc_timeHeap c = [] \<Longrightarrow> nextEventTick list_heap c = None"
  "tc_timeHeap c = [x] \<Longrightarrow> nextEventTick list_heap c = Some (tm_timestamp x)"
  by (simp_all add: nextEventTick_def list_heap_def)

lemma dispatch_workflow_task [simp]:
  "dispatch env [WorkflowTask i es] s = (s @ [CallOrchestrator [(i, es)]], Inr ())"
  by (simp add: dispatch_def start_worker_def)

text \<open>
  A workflow that starts a timer for a time in the past, while its orchestration is under
  way, takes the local runtime down: the timer gets a callback of its own, the first of the two to end
  clears \<open>nextEvents\<close>, and the other reads a property of undefined.
\<close>

theorem past_schedule_crashes_environment:
  assumes "0 < past" and "past < now"
  shows "map_option le_crashed (env_run list_heap env
    [PushTask (WorkflowTask i es), Elapse 1, Fire 0, ScheduleAt past (WorkflowTask i fs), Elapse 1, Fire 1,
     Orchestrated past [], Processed past, Orchestrated now [], Processed now] (LocalEnvironment list_heap None now)) = Some True"
proof -
  have parts: "queues_to_poll [WorkflowTask i es] = []" for i es by (simp add: queues_to_poll_def)
  have heap: "hp_init list_heap es = es" "hp_add list_heap x h = x # h" for es h x by (simp_all add: list_heap_def)
  show ?thesis using assms
    by (simp add: LocalEnvironment_def tryStartProcessingEvents_def connector_pushWorkflowTask_def
        connector_scheduleEvent_def TimeController_def addEvent_def heap timer_fires_def process_round_def processed_def
        tickUntil_one tickUntil_none timeout_delay_def parts)
qed

lemma past_schedule_crashes_environment_witness:
  "map_option le_crashed (env_run list_heap \<lparr>en_entities = (\<lambda>_. None), en_streams = (\<lambda>_. []), en_buckets = []\<rparr>
    [PushTask (WorkflowTask ''w'' []), Elapse 1, Fire 0, ScheduleAt 5 (WorkflowTask ''w'' []), Elapse 1, Fire 1,
     Orchestrated 5 [], Processed 5, Orchestrated 10 [], Processed 10] (LocalEnvironment list_heap None 10)) = Some True"
  by (rule past_schedule_crashes_environment) simp_all

section \<open>Instances\<close>

lemma run_reachable:
  "env_reachable ops env start s \<Longrightarrow> env_run ops env acts s = Some s' \<Longrightarrow> env_reachable ops env start s'"
proof (induction acts arbitrary: s)
  case (Cons a acts)
  then show ?case by (auto split: if_splits bind_splits intro: env_reachable.step)
qed simp

definition no_handlers :: loop_env where
  "no_handlers = \<lparr>en_entities = (\<lambda>_. None), en_streams = (\<lambda>_. []), en_buckets = []\<rparr>"

definition sample_clock :: "local_event serialized_time" where
  "sample_clock = \<lparr>st_current = 7, st_increment = 1,
     st_events = [\<lparr>tm_timestamp = 9, tm_event = WorkflowTask ''w'' [], tm_ord = 0\<rparr>]\<rparr>"

lemma sample_start:
  "LocalEnvironment list_heap (Some sample_clock) 10 =
     \<lparr>le_time = \<lparr>tc_current = 7, tc_ordCounter = 1, tc_increment = 1, tc_start = Some 7,
        tc_timeHeap = [\<lparr>tm_timestamp = 9, tm_event = WorkflowTask ''w'' [], tm_ord = 0\<rparr>]\<rparr>,
      le_now = 10, le_next = Some (9, 0), le_timers = [(0, 9, 11)], le_timerCount = 1, le_running = True,
      le_callbacks = [], le_crashed = False, le_added = [(9, WorkflowTask ''w'' [])], le_done = [], le_called = [], le_polled = []\<rparr>"
  by (simp add: LocalEnvironment_def tryStartProcessingEvents_def sample_clock_def time_fromSerializedData_def
      TimeController_def list_heap_def nextEventTick_def timeout_delay_def)

lemma pending_event_is_handed_out_witness:
  "\<exists>acts s'. list_all own_step acts \<and> env_run list_heap no_handlers acts (LocalEnvironment list_heap (Some sample_clock) 10) = Some s' \<and>
    WorkflowTask ''w'' [] \<in> snd ` set (le_done s')"
proof -
  let ?s = "LocalEnvironment list_heap (Some sample_clock) 10"
  have "env_reachable list_heap no_handlers ?s ?s" by (rule env_reachable.initially)
  moreover have "clock_data_ok (Some sample_clock) 10" by (simp add: clock_data_ok_def sample_clock_def)
  ultimately have "\<exists>acts s'. list_all own_step acts \<and> env_run list_heap no_handlers acts ?s = Some s' \<and>
      tm_event \<lparr>tm_timestamp = 9, tm_event = WorkflowTask ''w'' [], tm_ord = 0\<rparr> \<in> snd ` set (le_done s')"
    by (intro pending_event_is_handed_out [OF _ list_heap_contract]) (simp_all add: sample_start)
  then show ?thesis by simp
qed

definition sample_run :: "env_act list" where
  "sample_run = [PushTask (QueuePollEvent ''q''), ScheduleAt 30 (EmittedEvents []), Elapse 1, Fire 0]"

declare drainPastEvents.simps [code]

lemma sample_run_value:
  "map_option (\<lambda>s. (le_crashed s, le_done s, le_called s, le_added s, tc_timeHeap (le_time s)))
     (env_run list_heap no_handlers sample_run (LocalEnvironment list_heap (Some sample_clock) 10)) =
   Some (False, [(11, WorkflowTask ''w'' []), (11, QueuePollEvent ''q'')], [CallOrchestrator [(''w'', [])]],
     [(9, WorkflowTask ''w'' []), (10, QueuePollEvent ''q''), (30, EmittedEvents [])],
     [\<lparr>tm_timestamp = 30, tm_event = EmittedEvents [], tm_ord = 2\<rparr>])"
  by code_simp

lemma sample_run_ends:
  obtains s where "env_reachable list_heap no_handlers (LocalEnvironment list_heap (Some sample_clock) 10) s"
    "\<not> le_crashed s" "le_done s = [(11, WorkflowTask ''w'' []), (11, QueuePollEvent ''q'')]"
    "le_called s = [CallOrchestrator [(''w'', [])]]"
    "env_run list_heap no_handlers sample_run (LocalEnvironment list_heap (Some sample_clock) 10) = Some s"
  using sample_run_value run_reachable [OF env_reachable.initially [of list_heap no_handlers]] by fastforce

lemma sample_clock_ok: "clock_data_ok (Some sample_clock) 10"
  by (simp add: clock_data_ok_def sample_clock_def)

lemma events_handed_out_once_witness:
  "\<exists>s records. env_run list_heap no_handlers sample_run (LocalEnvironment list_heap (Some sample_clock) 10) = Some s \<and>
    le_done s = map (\<lambda>(due, at, e). (at, e)) records \<and> (\<forall>(due, at, e) \<in> set records. due \<le> at \<and> at \<le> le_now s) \<and>
    mset (le_added s) = mset (map (\<lambda>(due, at, e). (due, e)) records) +
      image_mset (\<lambda>x. (tm_timestamp x, tm_event x)) (mset (tc_timeHeap (le_time s)))"
proof -
  obtain s where s: "env_reachable list_heap no_handlers (LocalEnvironment list_heap (Some sample_clock) 10) s"
    "env_run list_heap no_handlers sample_run (LocalEnvironment list_heap (Some sample_clock) 10) = Some s"
    by (rule sample_run_ends)
  then show ?thesis using events_handed_out_once [OF s(1) list_heap_contract sample_clock_ok] by blast
qed

lemma events_reach_their_workers_witness:
  "\<exists>s rounds. env_run list_heap no_handlers (sample_run @ [Orchestrated 9 [''q'']]) (LocalEnvironment list_heap (Some sample_clock) 10) = Some s \<and>
    calls_made (le_called s) = {#CallOrchestrator [(''w'', [])]#} \<and> le_polled s = [''q''] \<and>
    concat rounds = [WorkflowTask ''w'' [], QueuePollEvent ''q''] \<and> polls_of_rounds rounds = {#''q''#}"
proof -
  let ?run = "env_run list_heap no_handlers (sample_run @ [Orchestrated 9 [''q'']]) (LocalEnvironment list_heap (Some sample_clock) 10)"
  have "map_option (\<lambda>s. (le_crashed s, le_done s, le_polled s, le_callbacks s)) ?run =
      Some (False, [(11, WorkflowTask ''w'' []), (11, QueuePollEvent ''q'')], [''q''], [(9, AwaitProcessed)])" by code_simp
  then obtain s where s: "?run = Some s" "\<not> le_crashed s" "le_done s = [(11, WorkflowTask ''w'' []), (11, QueuePollEvent ''q'')]"
    "le_polled s = [''q'']" "le_callbacks s = [(9, AwaitProcessed)]" by auto
  have "env_reachable list_heap no_handlers (LocalEnvironment list_heap (Some sample_clock) 10) s"
    by (rule run_reachable [OF env_reachable.initially s(1)])
  from events_reach_their_workers [OF this list_heap_contract sample_clock_ok s(2)] s obtain rounds where
    "calls_made (le_called s) = {#CallOrchestrator [(''w'', [])]#}"
    "concat rounds = [WorkflowTask ''w'' [], QueuePollEvent ''q'']" "polls_of_rounds rounds = {#''q''#}" by auto
  with s show ?thesis by blast
qed

lemma epoch_event_stalls_environment_witness:
  "\<exists>s. env_run list_heap no_handlers [ScheduleAt 0 (EmittedEvents []), PushTask (EmittedEvents []), Elapse 5]
      (LocalEnvironment list_heap None 10) = Some s \<and> le_called s = []"
proof -
  have "\<exists>s. env_run list_heap no_handlers [ScheduleAt 0 (EmittedEvents []), PushTask (EmittedEvents []), Elapse 5]
      (LocalEnvironment list_heap None 10) = Some s"
    by (simp add: LocalEnvironment_def connector_pushWorkflowTask_def connector_scheduleEvent_def)
  moreover have "le_called s = []" if "env_run list_heap no_handlers [ScheduleAt 0 (EmittedEvents []), PushTask (EmittedEvents []), Elapse 5]
      (LocalEnvironment list_heap None 10) = Some s" for s
    by (rule epoch_event_stalls_environment [OF list_heap_contract _ _ that]) simp_all
  ultimately show ?thesis by blast
qed

end
