(* ===== verification/AwsTimers.thy ===== *)
theory AwsTimers
  imports TaskWorkers
begin

text \<open>
  Timers on AWS: aws-runtime/src/clients/timer-client.ts and
  core-runtime/src/handlers/schedule-forwarder.ts. A timer up to the threshold goes to the timer
  queue of SQS with a delay; a longer one becomes a schedule of EventBridge that starts the schedule
  forwarder, which is to put it into the queue.

  EventBridge and SQS are a parameter, \<open>timer_services\<close>; the locale \<open>aws_timer_services\<close> holds what
  their documentation says of the requests the client sends. Logs and metrics are left out, and
  requests that fail for other reasons than those named.
\<close>

section \<open>The services\<close>

text \<open>What a schedule sends to the forwarder; its \<open>forwardTime\<close>, a placeholder that EventBridge fills in, is only logged.\<close>

record forwarder_request =
  fw_scheduleName :: string
  fw_clearSchedule :: bool
  fw_timerRequest :: timer_request
  fw_untilTime :: int

datatype service_error = ConflictException | ResourceNotFoundException | OtherError js

record 's timer_services =
  ts_createSchedule :: "string \<Rightarrow> int \<Rightarrow> forwarder_request \<Rightarrow> 's \<Rightarrow> 's \<times> service_error option"
  ts_deleteSchedule :: "string \<Rightarrow> 's \<Rightarrow> 's \<times> service_error option"
  ts_sendMessage :: "int \<Rightarrow> timer_request \<Rightarrow> 's \<Rightarrow> ('s \<times> js option)"

locale aws_timer_services =
  fixes ops :: "'s timer_services"
    and schedules :: "'s \<Rightarrow> string \<Rightarrow> (int \<times> forwarder_request) option"
    and queue :: "'s \<Rightarrow> (int \<times> timer_request) list"
  assumes create_conflict: "schedules s n \<noteq> None \<Longrightarrow> ts_createSchedule ops n at r s = (s, Some ConflictException)"
    and create: "schedules s n = None \<Longrightarrow> \<exists>s'. ts_createSchedule ops n at r s = (s', None) \<and>
      schedules s' = (schedules s)(n \<mapsto> (at, r)) \<and> queue s' = queue s"
    and delete_missing: "schedules s n = None \<Longrightarrow> ts_deleteSchedule ops n s = (s, Some ResourceNotFoundException)"
    and delete: "schedules s n \<noteq> None \<Longrightarrow> \<exists>s'. ts_deleteSchedule ops n s = (s', None) \<and>
      schedules s' = (schedules s)(n := None) \<and> queue s' = queue s"
    and send: "0 \<le> d \<Longrightarrow> d \<le> 900 \<Longrightarrow> \<exists>s'. ts_sendMessage ops d t s = (s', None) \<and>
      queue s' = queue s @ [(d, t)] \<and> schedules s' = schedules s"

section \<open>The client\<close>

fun timer_schedule :: "timer_request \<Rightarrow> schedule" where
  "timer_schedule (TimerScheduleEventRequest executionId event schedule) = schedule"
| "timer_schedule (TaskHeartbeatMonitorRequest executionId taskSeq heartbeatSeconds schedule) = schedule"

text \<open>The seconds up to an instant are rounded up.\<close>

definition computeTimerSeconds :: "schedule \<Rightarrow> int \<Rightarrow> int" where
  "computeTimerSeconds schedule baseTime =
     (case schedule of
        Time isoDate \<Rightarrow> max (- ((baseTime - isoDate) div 1000)) 0
      | Duration d \<Rightarrow> computeDurationSeconds (dur d) (unit d))"

definition short_timer_error :: js where
  "short_timer_error = mk_Error
     ''TimerClient.startShortTimer only supports 15 minute timers or less. Use TimerClient.startTimer''"

definition AWSTimerClient_startShortTimer :: "'s timer_services \<Rightarrow> int \<Rightarrow> timer_request \<Rightarrow> ('s, int) act" where
  "AWSTimerClient_startShortTimer ops now timerRequest s =
     (let delaySeconds = computeTimerSeconds (timer_schedule timerRequest) now
      in if 15 * 60 < delaySeconds then (s, Inl short_timer_error)
         else case ts_sendMessage ops delaySeconds timerRequest s of
             (s', Some err) \<Rightarrow> (s', Inl err)
           | (s', None) \<Rightarrow> (s', Inr delaySeconds))"

definition schedule_name_char :: "char \<Rightarrow> bool" where
  "schedule_name_char c \<longleftrightarrow>
     c \<in> set ''0123456789abcdefghijklmnopqrstuvwxyzABCDEFGHIJKLMNOPQRSTUVWXYZ-_.''"

definition safeScheduleName :: "string \<Rightarrow> string" where
  "safeScheduleName name = filter schedule_name_char name"

definition getScheduleName :: "string \<Rightarrow> timer_request \<Rightarrow> string" where
  "getScheduleName ulid timerRequest =
     (case timerRequest of
        TimerScheduleEventRequest executionId event schedule \<Rightarrow> safeScheduleName (executionId @ ''_'' @ getEventId event)
      | TaskHeartbeatMonitorRequest executionId taskSeq heartbeatSeconds schedule \<Rightarrow>
          safeScheduleName (''heartbeat_'' @ executionId @ ''_'' @ ulid))"

text \<open>The expression of a schedule has no milliseconds; the threshold, in seconds, is subtracted from milliseconds.\<close>

definition formattedSchedulerTime :: "int \<Rightarrow> int \<Rightarrow> int" where
  "formattedSchedulerTime untilTime timerQueueThresholdSeconds = (untilTime - timerQueueThresholdSeconds) div 1000 * 1000"

definition AWSTimerClient_startTimer ::
  "'s timer_services \<Rightarrow> int \<Rightarrow> string \<Rightarrow> int \<Rightarrow> timer_request \<Rightarrow> ('s, unit) act" where
  "AWSTimerClient_startTimer ops timerQueueThresholdSeconds ulid now timerRequest s =
     (let untilTime = computeScheduleDate (timer_schedule timerRequest) now;
          timerDuration = computeTimerSeconds (timer_schedule timerRequest) now;
          scheduleName = getScheduleName ulid timerRequest
      in if timerQueueThresholdSeconds < timerDuration
         then (case ts_createSchedule ops scheduleName (formattedSchedulerTime untilTime timerQueueThresholdSeconds)
             \<lparr>fw_scheduleName = scheduleName, fw_clearSchedule = True, fw_timerRequest = timerRequest, fw_untilTime = untilTime\<rparr> s of
             (s', None) \<Rightarrow> (s', Inr ())
           | (s', Some ConflictException) \<Rightarrow> (s', Inr ())
           | (s', Some ResourceNotFoundException) \<Rightarrow> (s', Inl (mk_Error ''ResourceNotFoundException''))
           | (s', Some (OtherError err)) \<Rightarrow> (s', Inl err))
         else act_bind (AWSTimerClient_startShortTimer ops now timerRequest) (\<lambda>_. act_return ()) s)"

definition AWSTimerClient_clearSchedule :: "'s timer_services \<Rightarrow> string \<Rightarrow> ('s, unit) act" where
  "AWSTimerClient_clearSchedule ops scheduleName s =
     (case ts_deleteSchedule ops scheduleName s of
        (s', None) \<Rightarrow> (s', Inr ())
      | (s', Some ResourceNotFoundException) \<Rightarrow> (s', Inr ())
      | (s', Some ConflictException) \<Rightarrow> (s', Inl (mk_Error ''ConflictException''))
      | (s', Some (OtherError err)) \<Rightarrow> (s', Inl err))"

definition scheduleForwarder :: "'s timer_services \<Rightarrow> int \<Rightarrow> forwarder_request \<Rightarrow> ('s, unit) act" where
  "scheduleForwarder ops now event =
     act_bind (AWSTimerClient_startShortTimer ops now (fw_timerRequest event)) (\<lambda>delaySeconds.
       if fw_clearSchedule event then AWSTimerClient_clearSchedule ops (fw_scheduleName event) else act_return ())"

section \<open>When timers reach the queue\<close>

lemma seconds_until: "t \<le> now + computeTimerSeconds (Time t) now * 1000 \<and>
    now + computeTimerSeconds (Time t) now * 1000 < max t now + 1000 \<and> 0 \<le> computeTimerSeconds (Time t) now"
proof -
  have "(now - t) mod 1000 < 1000" "0 \<le> (now - t) mod 1000" "1000 * ((now - t) div 1000) + (now - t) mod 1000 = now - t"
    by simp_all
  then show ?thesis unfolding computeTimerSeconds_def schedule.case by (simp add: max_def) linarith
qed

text \<open>
  The timer is in the queue once more, as a message that becomes visible after the instant and less
  than a second after it, or after the time it was sent at.
\<close>

definition queued_for :: "('s \<Rightarrow> (int \<times> timer_request) list) \<Rightarrow> timer_request \<Rightarrow> int \<Rightarrow> int \<Rightarrow> 's \<Rightarrow> 's \<Rightarrow> bool" where
  "queued_for queue r t now s s' \<longleftrightarrow>
     (\<exists>d. queue s' = queue s @ [(d, r)] \<and> t \<le> now + d * 1000 \<and> now + d * 1000 < max t now + 1000)"

context aws_timer_services
begin

lemma short_timer_sent:
  assumes "timer_schedule r = Time t" and "computeTimerSeconds (Time t) now \<le> 900"
  shows "\<exists>s'. AWSTimerClient_startShortTimer ops now r s = (s', Inr (computeTimerSeconds (Time t) now)) \<and>
    queued_for queue r t now s s' \<and> schedules s' = schedules s"
proof -
  from send [OF _ assms(2), of r s] seconds_until [of t now] obtain s' where
    "ts_sendMessage ops (computeTimerSeconds (Time t) now) r s = (s', None)"
    "queue s' = queue s @ [(computeTimerSeconds (Time t) now, r)]" "schedules s' = schedules s" by auto
  then show ?thesis using assms seconds_until [of t now]
    by (auto simp: AWSTimerClient_startShortTimer_def queued_for_def Let_def)
qed

lemma forwarded:
  assumes "timer_schedule (fw_timerRequest e) = Time t" and "t \<le> now + 900000" and "fw_clearSchedule e"
  shows "\<exists>s'. scheduleForwarder ops now e s = (s', Inr ()) \<and> queued_for queue (fw_timerRequest e) t now s s' \<and>
    schedules s' = (schedules s)(fw_scheduleName e := None)"
proof -
  have "computeTimerSeconds (Time t) now \<le> 900"
  proof -
    have "-900 \<le> (now - t) div 1000" using zdiv_mono1 [of "-900000" "now - t" 1000] assms(2) by simp
    then show ?thesis by (simp add: computeTimerSeconds_def)
  qed
  from short_timer_sent [OF assms(1) this, of s] obtain s1 where
    s1: "AWSTimerClient_startShortTimer ops now (fw_timerRequest e) s = (s1, Inr (computeTimerSeconds (Time t) now))"
      "queued_for queue (fw_timerRequest e) t now s s1" "schedules s1 = schedules s" by blast
  show ?thesis
  proof (cases "schedules s1 (fw_scheduleName e)")
    case None
    then show ?thesis using s1 delete_missing [OF None] assms(3)
      by (auto simp: scheduleForwarder_def AWSTimerClient_clearSchedule_def fun_upd_idem)
  next
    case (Some x)
    then obtain s2 where "ts_deleteSchedule ops (fw_scheduleName e) s1 = (s2, None)" "queue s2 = queue s1"
      "schedules s2 = (schedules s1)(fw_scheduleName e := None)" using delete by blast
    then show ?thesis using s1 assms(3) by (auto simp: scheduleForwarder_def AWSTimerClient_clearSchedule_def queued_for_def)
  qed
qed

lemma scheduled:
  assumes "threshold < computeTimerSeconds (timer_schedule r) now" and "schedules s (getScheduleName ulid r) = None"
  shows "\<exists>s'. AWSTimerClient_startTimer ops threshold ulid now r s = (s', Inr ()) \<and> queue s' = queue s \<and>
    schedules s' = (schedules s)(getScheduleName ulid r \<mapsto>
      (formattedSchedulerTime (computeScheduleDate (timer_schedule r) now) threshold,
       \<lparr>fw_scheduleName = getScheduleName ulid r, fw_clearSchedule = True, fw_timerRequest = r,
        fw_untilTime = computeScheduleDate (timer_schedule r) now\<rparr>))"
  using create [OF assms(2)] assms(1) unfolding AWSTimerClient_startTimer_def Let_def
  by (metis (no_types, lifting) option.simps(4) split_conv)

lemma not_forwarded:
  assumes "timer_schedule (fw_timerRequest e) = Duration d" and "900 < computeDurationSeconds (dur d) (unit d)"
  shows "scheduleForwarder ops now e s = (s, Inl short_timer_error)"
  using assms by (simp add: scheduleForwarder_def AWSTimerClient_startShortTimer_def computeTimerSeconds_def Let_def)

end

section \<open>Services in memory\<close>

type_synonym memory_services = "(string \<Rightarrow> (int \<times> forwarder_request) option) \<times> (int \<times> timer_request) list"

definition memory_timer_services :: "memory_services timer_services" where
  "memory_timer_services =
     \<lparr>ts_createSchedule = (\<lambda>n at r (m, q). if m n = None then ((m(n \<mapsto> (at, r)), q), None) else ((m, q), Some ConflictException)),
      ts_deleteSchedule = (\<lambda>n (m, q). if m n = None then ((m, q), Some ResourceNotFoundException) else ((m(n := None), q), None)),
      ts_sendMessage = (\<lambda>d r (m, q). if 0 \<le> d \<and> d \<le> 900 then ((m, q @ [(d, r)]), None)
        else ((m, q), Some (mk_Error ''InvalidParameterValue'')))\<rparr>"

interpretation memory_timers: aws_timer_services memory_timer_services fst snd
  by unfold_locales (auto simp: memory_timer_services_def)

section \<open>Properties\<close>


definition sample_timer :: "string \<Rightarrow> schedule \<Rightarrow> timer_request" where
  "sample_timer executionId schedule = TimerScheduleEventRequest executionId (TimerCompleted 3 7200000) schedule"


text \<open>
  C36 (error): a workflow that waits for a duration of more than 15 minutes waits for ever on AWS. Its
  timer becomes a schedule, but the forwarder computes the delay from the same duration again, whenever
  it runs, finds it too long for the queue and throws: nothing is ever queued.
\<close>

theorem long_wait_never_ends:
  assumes "aws_timer_services ops schedules queue" and "900 < computeDurationSeconds (dur d) (unit d)"
    and "AwaitTimerWorkflowExecutor now (Duration d) props = [StartTimer r]"
    and "schedules s (getScheduleName ulid r) = None"
  shows "\<exists>s' at e. AWSTimerClient_startTimer ops 900 ulid now r s = (s', Inr ()) \<and> queue s' = queue s \<and>
    schedules s' (getScheduleName ulid r) = Some (at, e) \<and>
    (\<forall>later. scheduleForwarder ops later e s' = (s', Inl short_timer_error))"
proof -
  have r: "timer_schedule r = Duration d" using assms(3) by (auto simp: AwaitTimerWorkflowExecutor_def scheduleEvent_def)
  then have "900 < computeTimerSeconds (timer_schedule r) now" using assms(2) by (simp add: computeTimerSeconds_def)
  from aws_timer_services.scheduled [OF assms(1) this assms(4)] r
    aws_timer_services.not_forwarded [OF assms(1) _ assms(2)] show ?thesis by fastforce
qed

lemma long_wait_never_ends_witness:
  "\<exists>s' at e. AWSTimerClient_startTimer memory_timer_services 900 ''u'' 5 (TimerScheduleEventRequest ''w/a''
      (TimerCompleted 3 3600005) (Duration \<lparr>dur = 1, unit = Hour\<rparr>)) (Map.empty, []) = (s', Inr ()) \<and> snd s' = [] \<and>
    fst s' (getScheduleName ''u'' (TimerScheduleEventRequest ''w/a'' (TimerCompleted 3 3600005) (Duration \<lparr>dur = 1, unit = Hour\<rparr>))) =
      Some (at, e) \<and> (\<forall>later. scheduleForwarder memory_timer_services later e s' = (s', Inl short_timer_error))"
  using long_wait_never_ends [OF memory_timers.aws_timer_services_axioms, of "\<lparr>dur = 1, unit = Hour\<rparr>" 5
      "\<lparr>cp_executionId = ''w/a'', cp_executionTime = 0, cp_seq = 3, cp_workflow = ''w''\<rparr>" _ "(Map.empty, [])" "''u''"]
  by (simp add: AwaitTimerWorkflowExecutor_def scheduleEvent_def computeScheduleDate_def)

text \<open>
  The name of a schedule is the execution and the event without the characters that
  EventBridge does not allow, the slash of an execution id among them. Executions of different
  workflows can so have timers of the same name, and the second one is taken to be there already: it is
  lost, although starting it succeeds.
\<close>

theorem schedule_name_collision_loses_timer:
  assumes "aws_timer_services ops schedules queue" and "900 < computeTimerSeconds (Time t) now"
    and "schedules s (getScheduleName u (TimerScheduleEventRequest (w @ ''/'' @ c # n) event (Time t))) \<noteq> None"
    and "schedule_name_char c"
  shows "AWSTimerClient_startTimer ops 900 u now (TimerScheduleEventRequest (w @ c # ''/'' @ n) event (Time t)) s = (s, Inr ())"
proof -
  have "getScheduleName u (TimerScheduleEventRequest (w @ c # ''/'' @ n) event (Time t)) =
      getScheduleName u (TimerScheduleEventRequest (w @ ''/'' @ c # n) event (Time t))"
    using assms(4) by (simp add: getScheduleName_def safeScheduleName_def schedule_name_char_def)
  then show ?thesis using aws_timer_services.create_conflict [OF assms(1,3)] assms(2)
    by (simp add: AWSTimerClient_startTimer_def Let_def)
qed

lemma schedule_name_collision_loses_timer_witness:
  "\<exists>s. AWSTimerClient_startTimer memory_timer_services 900 ''u'' 0 (sample_timer ''order/1x'' (Time 7200000)) (Map.empty, []) = (s, Inr ()) \<and>
    AWSTimerClient_startTimer memory_timer_services 900 ''u'' 0 (sample_timer ''order1/x'' (Time 7200000)) s = (s, Inr ())"
proof -
  have long: "900 < computeTimerSeconds (Time 7200000) 0" by (simp add: computeTimerSeconds_def)
  obtain s where s: "AWSTimerClient_startTimer memory_timer_services 900 ''u'' 0 (sample_timer ''order/1x'' (Time 7200000)) (Map.empty, []) = (s, Inr ())"
    "fst s (getScheduleName ''u'' (sample_timer ''order/1x'' (Time 7200000))) \<noteq> None"
    using memory_timers.scheduled [of 900 "sample_timer ''order/1x'' (Time 7200000)" 0 "(Map.empty, [])" "''u''"] long
    by (auto simp: sample_timer_def)
  have "AWSTimerClient_startTimer memory_timer_services 900 ''u'' 0 (sample_timer ''order1/x'' (Time 7200000)) s = (s, Inr ())"
    using schedule_name_collision_loses_timer [OF memory_timers.aws_timer_services_axioms long, of s "''u''" "''order''" "CHR ''1''" "''x''" "TimerCompleted 3 7200000"]
      s(2) by (simp add: sample_timer_def schedule_name_char_def)
  then show ?thesis using s(1) by blast
qed

end
