(* ===== verification/AwsEntityStore.thy ===== *)
theory AwsEntityStore
  imports LocalStoreStreams
begin

text \<open>
  The entity store on DynamoDB: aws-runtime/src/stores/entity-store.ts, the operations that the base
  class calls with entities and normalised keys.

  DynamoDB and the library that turns objects into items are a parameter, \<open>entity_dynamo\<close>. An item is
  an object's entries; an attribute is represented by the value it denotes, \<open>S\<close> by a text and \<open>N\<close> by a
  number. The expressions of a request are kept as structures: a clause names its attribute and value
  by placeholders, which the request's \<open>ExpressionAttributeNames\<close> and \<open>ExpressionAttributeValues\<close>
  resolve.
\<close>

section \<open>Requests\<close>

type_synonym dynamo_item = "(string \<times> js) list"

datatype set_clause =
    SetCounter string string string
  | SetValue string string

datatype condition_expression =
    AttributeNotExists string
  | AttributeEquals string string

record update_request =
  ur_table :: string
  ur_key :: dynamo_item
  ur_set :: "set_clause list"
  ur_remove :: "string list"
  ur_names :: "(string, string) omap"
  ur_values :: "(string, js) omap"
  ur_condition :: "condition_expression option"

record item_request =
  ir_table :: string
  ir_key :: dynamo_item
  ir_names :: "(string, string) omap"
  ir_values :: "(string, js) omap"
  ir_condition :: "condition_expression option"

datatype write_request =
    WriteUpdate update_request
  | WriteDelete item_request
  | WriteConditionCheck item_request

datatype dynamo_error =
    ConditionalCheckFailedException
  | TransactionCanceledException "string list"
  | TransactionConflictException
  | DynamoError js

record 'db entity_dynamo =
  ed_marshall :: "js \<Rightarrow> dynamo_item"
  ed_unmarshall :: "dynamo_item \<Rightarrow> js"
  ed_getItem :: "string \<Rightarrow> dynamo_item \<Rightarrow> 'db \<Rightarrow> js + dynamo_item option"
  ed_updateItem :: "update_request \<Rightarrow> 'db \<Rightarrow> 'db \<times> (dynamo_error + dynamo_item)"
  ed_deleteItem :: "item_request \<Rightarrow> 'db \<Rightarrow> 'db \<times> dynamo_error option"
  ed_transactWriteItems :: "write_request list \<Rightarrow> 'db \<Rightarrow> 'db \<times> dynamo_error option"

section \<open>Names\<close>

definition VERSION_FIELD :: string where
  "VERSION_FIELD = ''__version''"

definition formatAttributeMapKey :: "string \<Rightarrow> string \<Rightarrow> string" where
  "formatAttributeMapKey key prefix =
     prefix @ map (\<lambda>c. if c \<in> set ''|.- '' then CHR ''_'' else c) key"

definition formatAttributeNameMapKey :: "string \<Rightarrow> string" where
  "formatAttributeNameMapKey key = formatAttributeMapKey key ''#''"

definition formatAttributeValueMapKey :: "string \<Rightarrow> string" where
  "formatAttributeValueMapKey key = formatAttributeMapKey key '':''"

text \<open>
  \<open>serviceFunctionName\<close> of aws-runtime/src/utils.ts: at most 64 characters, of which only letters,
  digits, dashes and underscores are kept, other characters becoming dashes; leading dashes, dashes
  before a dash and a last dash are removed.
\<close>

definition function_name_char :: "char \<Rightarrow> bool" where
  "function_name_char c \<longleftrightarrow> c \<in> set ''abcdefghijklmnopqrstuvwxyzABCDEFGHIJKLMNOPQRSTUVWXYZ0123456789-_''"

fun drop_dashes :: "string \<Rightarrow> string" where
  "drop_dashes [] = []"
| "drop_dashes (c # cs) =
     (if c = CHR ''-'' \<and> (case cs of [] \<Rightarrow> True | d # _ \<Rightarrow> d = CHR ''-'') then drop_dashes cs else c # drop_dashes cs)"

definition sanitizeFunctionName :: "string \<Rightarrow> string" where
  "sanitizeFunctionName name =
     drop_dashes (dropWhile (\<lambda>c. c = CHR ''-'') (map (\<lambda>c. if function_name_char c then c else CHR ''-'') name))"

definition serviceFunctionName :: "string \<Rightarrow> string \<Rightarrow> string" where
  "serviceFunctionName serviceName suffix =
     sanitizeFunctionName (serviceName @ ''-'' @ take (64 - (length serviceName + 1)) suffix)"

definition entityServiceTableName :: "string \<Rightarrow> string \<Rightarrow> string" where
  "entityServiceTableName serviceName entityName = serviceFunctionName serviceName (''entity-'' @ entityName)"

section \<open>The store\<close>

text \<open>The attributes of the schema of an entity, \<open>entity.attributes.shape\<close>, are a parameter.\<close>

record 'db aws_store =
  as_dynamo :: "'db entity_dynamo"
  as_serviceName :: string
  as_shape :: "string \<Rightarrow> string list"

definition aws_tableName :: "'db aws_store \<Rightarrow> entity \<Rightarrow> string" where
  "aws_tableName store entity = entityServiceTableName (as_serviceName store) (en_name entity)"

definition key_object :: "norm_key \<Rightarrow> js" where
  "key_object key = from_entries
     ((kp_keyAttribute (np_part (nk_partition key)), np_keyValue (nk_partition key)) #
      (case nk_sort key of None \<Rightarrow> [] | Some s \<Rightarrow> [(kp_keyAttribute (np_part s), np_keyValue s)]))"

definition entityKey :: "'db aws_store \<Rightarrow> norm_key \<Rightarrow> dynamo_item" where
  "entityKey store key = ed_marshall (as_dynamo store) (key_object key)"

definition item_with_metadata :: "'db aws_store \<Rightarrow> entity \<Rightarrow> dynamo_item \<Rightarrow> js \<times> js" where
  "item_with_metadata store entity item =
     (let obj = ed_unmarshall (as_dynamo store) item
      in (removeGeneratedKeyAttributes entity (JObj (filter (\<lambda>(k, v). k \<noteq> VERSION_FIELD) (own_entries obj))) False,
          js_get obj VERSION_FIELD))"

definition aws_getWithMetadata ::
  "'db aws_store \<Rightarrow> entity \<Rightarrow> norm_key \<Rightarrow> ('db, (js \<times> js) option) act" where
  "aws_getWithMetadata store entity key db =
     (db, case ed_getItem (as_dynamo store) (aws_tableName store entity) (entityKey store key) db of
        Inl err \<Rightarrow> Inl err
      | Inr r \<Rightarrow> Inr (map_option (item_with_metadata store entity) r))"

definition fold_names :: "string list \<Rightarrow> (string, string) omap \<Rightarrow> (string, string) omap" where
  "fold_names ks = fold (\<lambda>k. om_set (formatAttributeNameMapKey k) k) ks"

definition fold_values :: "dynamo_item \<Rightarrow> (string, js) omap \<Rightarrow> (string, js) omap" where
  "fold_values kvs = fold (\<lambda>(k, v). om_set (formatAttributeValueMapKey k) v) kvs"

definition value_to_save :: "entity \<Rightarrow> js \<Rightarrow> js \<Rightarrow> js" where
  "value_to_save entity v indexGeneratedAttributes =
     removeKeyAttributes entity (from_entries (own_entries v @ own_entries indexGeneratedAttributes)) (\<lambda>_. True) True"

definition missing_attributes :: "'db aws_store \<Rightarrow> entity \<Rightarrow> js \<Rightarrow> string list" where
  "missing_attributes store entity v = filter (\<lambda>a. \<not> js_has v a) (as_shape store (en_name entity))"

definition createSetRequest :: "'db aws_store \<Rightarrow> entity \<Rightarrow> js \<Rightarrow> norm_key \<Rightarrow> put_options \<Rightarrow> js + update_request" where
  "createSetRequest store entity v key options =
     try_bind (computeGeneratedIndexKeyAttributes entity v) (\<lambda>indexGeneratedAttributes.
       (let missing = missing_attributes store entity v;
            valueRecord = ed_marshall (as_dynamo store) (value_to_save entity v indexGeneratedAttributes)
        in Inr
          \<lparr>ur_table = aws_tableName store entity,
           ur_key = entityKey store key,
           ur_set = SetCounter ''#__version'' '':__startingVersion'' '':__versionIncrement'' #
             map (\<lambda>(k, x). SetValue (formatAttributeNameMapKey k) (formatAttributeValueMapKey k)) valueRecord,
           ur_remove = map formatAttributeNameMapKey missing,
           ur_names = fold_names missing (fold_names (map fst valueRecord) [(''#__version'', VERSION_FIELD)]),
           ur_values = fold_values valueRecord
             ((case po_expectedVersion options of
                 Some v' \<Rightarrow> if v' \<noteq> 0 then [('':__expectedVersion'', JNum v')] else []
               | None \<Rightarrow> []) @
              [('':__startingVersion'', JNum 0),
               ('':__versionIncrement'', JNum (if po_incrementVersion options = Some False then 0 else 1))]),
           ur_condition = (case po_expectedVersion options of
               None \<Rightarrow> None
             | Some v' \<Rightarrow> Some (if v' = 0 then AttributeNotExists ''#__version''
                 else AttributeEquals ''#__version'' '':__expectedVersion''))\<rparr>))"

definition createDeleteRequest :: "'db aws_store \<Rightarrow> entity \<Rightarrow> norm_key \<Rightarrow> int option \<Rightarrow> item_request" where
  "createDeleteRequest store entity key expectedVersion =
     \<lparr>ir_table = aws_tableName store entity, ir_key = entityKey store key,
      ir_names = (case expectedVersion of None \<Rightarrow> [] | Some v \<Rightarrow> [(''#__version'', VERSION_FIELD)]),
      ir_values = (case expectedVersion of None \<Rightarrow> [] | Some v \<Rightarrow> [('':expectedVersion'', JNum v)]),
      ir_condition = map_option (\<lambda>v. AttributeEquals ''#__version'' '':expectedVersion'') expectedVersion\<rparr>"

definition createConditionCheck :: "'db aws_store \<Rightarrow> entity \<Rightarrow> norm_key \<Rightarrow> int option \<Rightarrow> item_request" where
  "createConditionCheck store entity key version =
     \<lparr>ir_table = aws_tableName store entity, ir_key = entityKey store key,
      ir_names = [(''#version'', VERSION_FIELD)],
      ir_values = (case version of Some v \<Rightarrow> if v \<noteq> 0 then [('':expectedVersion'', JNum v)] else [] | None \<Rightarrow> []),
      ir_condition = map_option (\<lambda>v. if v = 0 then AttributeNotExists ''#version''
        else AttributeEquals ''#version'' '':expectedVersion'') version\<rparr>"

text \<open>An error of the service is thrown as it is, if it is not handled.\<close>

fun thrown_error :: "dynamo_error \<Rightarrow> js" where
  "thrown_error (DynamoError err) = err"
| "thrown_error ConditionalCheckFailedException = JErr EError ''ConditionalCheckFailedException'' ''The conditional request failed''"
| "thrown_error (TransactionCanceledException reasons) = JErr EError ''TransactionCanceledException'' ''Transaction cancelled''"
| "thrown_error TransactionConflictException = JErr EError ''TransactionConflictException'' ''Transaction is ongoing for the item''"

definition undefined_N :: js where
  "undefined_N = mk_TypeError ''Cannot read properties of undefined (reading 'N')''"

definition aws_put :: "'db aws_store \<Rightarrow> entity \<Rightarrow> js \<Rightarrow> norm_key \<Rightarrow> put_options \<Rightarrow> ('db, int) act" where
  "aws_put store entity v key options =
     act_bind (act_lift (createSetRequest store entity v key options)) (\<lambda>request db.
       case ed_updateItem (as_dynamo store) request db of
         (db', Inr record) \<Rightarrow> (db', case map_of record VERSION_FIELD of Some (JNum n) \<Rightarrow> Inr n | _ \<Rightarrow> Inl undefined_N)
       | (db', Inl err) \<Rightarrow>
           (db', Inl (if err = ConditionalCheckFailedException then mk_UnexpectedVersion ''Unexpected Version''
             else thrown_error err)))"

text \<open>An error other than the failed condition is caught and forgotten.\<close>

definition aws_delete :: "'db aws_store \<Rightarrow> entity \<Rightarrow> norm_key \<Rightarrow> int option \<Rightarrow> ('db, unit) act" where
  "aws_delete store entity key expectedVersion db =
     (case ed_deleteItem (as_dynamo store) (createDeleteRequest store entity key expectedVersion) db of
        (db', None) \<Rightarrow> (db', Inr ())
      | (db', Some err) \<Rightarrow>
          (db', if err = ConditionalCheckFailedException then Inl (mk_UnexpectedVersion ''Unexpected Version'') else Inr ()))"

section \<open>Transactions\<close>

definition write_request_of :: "'db aws_store \<Rightarrow> norm_transact_item \<Rightarrow> js + write_request" where
  "write_request_of store item =
     (case item of
        NormPut e k v options \<Rightarrow> try_bind (createSetRequest store e v k options) (\<lambda>r. Inr (WriteUpdate r))
      | NormDelete e k expectedVersion \<Rightarrow> Inr (WriteDelete (createDeleteRequest store e k expectedVersion))
      | NormCondition e k version \<Rightarrow> Inr (WriteConditionCheck (createConditionCheck store e k version)))"

definition cancellation_reasons :: "string list \<Rightarrow> js option list" where
  "cancellation_reasons reasons =
     map (\<lambda>code. if code = ''NONE'' then None else Some (mk_UnexpectedVersion ''Unexpected Version'')) reasons"

definition aws_transactWrite :: "'db aws_store \<Rightarrow> norm_transact_item list \<Rightarrow> ('db, transact_outcome) act" where
  "aws_transactWrite store items =
     act_bind (act_lift (try_map (write_request_of store) items)) (\<lambda>requests db.
       case ed_transactWriteItems (as_dynamo store) requests db of
         (db', None) \<Rightarrow> (db', Inr Committed)
       | (db', Some (TransactionCanceledException reasons)) \<Rightarrow> (db', Inr (Cancelled (cancellation_reasons reasons)))
       | (db', Some TransactionConflictException) \<Rightarrow> (db', Inl mk_TransactionConflict)
       | (db', Some err) \<Rightarrow> (db', Inl (thrown_error err)))"

end
