(* ===== verification/AwsEntityLaws.thy ===== *)
theory AwsEntityLaws
  imports AwsEntityStore
begin

text \<open>
  What the store relies on: the locale \<open>dynamo_items\<close> states the documented behaviour of the requests
  it sends, and its lemmas say what the operations of the store do to the items.
\<close>

section \<open>What the documentation says of requests\<close>

text \<open>The items of a table, by key; an item is a map of attributes.\<close>

type_synonym attributes = "string \<Rightarrow> js option"

definition clause_name :: "set_clause \<Rightarrow> string" where
  "clause_name c = (case c of SetCounter n _ _ \<Rightarrow> n | SetValue n _ \<Rightarrow> n)"

definition update_paths :: "update_request \<Rightarrow> string option list" where
  "update_paths u = map (om_get (ur_names u)) (map clause_name (ur_set u) @ ur_remove u)"

text \<open>
  A request is valid if its placeholders are defined and used, no attribute is updated twice and the
  key is not updated.
\<close>

definition clause_defined :: "(string, js) omap \<Rightarrow> set_clause \<Rightarrow> bool" where
  "clause_defined values c =
     (case c of SetCounter n a b \<Rightarrow> om_has values a \<and> om_has values b | SetValue n v \<Rightarrow> om_has values v)"

definition clause_values :: "set_clause \<Rightarrow> string list" where
  "clause_values c = (case c of SetCounter n a b \<Rightarrow> [a, b] | SetValue n v \<Rightarrow> [v])"

definition condition_names :: "condition_expression option \<Rightarrow> string list" where
  "condition_names c = (case c of None \<Rightarrow> [] | Some (AttributeNotExists n) \<Rightarrow> [n] | Some (AttributeEquals n v) \<Rightarrow> [n])"

definition condition_values :: "condition_expression option \<Rightarrow> string list" where
  "condition_values c = (case c of Some (AttributeEquals n v) \<Rightarrow> [v] | _ \<Rightarrow> [])"

definition condition_defined :: "(string, string) omap \<Rightarrow> (string, js) omap \<Rightarrow> condition_expression option \<Rightarrow> bool" where
  "condition_defined names values c \<longleftrightarrow> list_all (om_has names) (condition_names c) \<and> list_all (om_has values) (condition_values c)"

definition update_valid :: "update_request \<Rightarrow> bool" where
  "update_valid u \<longleftrightarrow> None \<notin> set (update_paths u) \<and> distinct (update_paths u) \<and>
     list_all (clause_defined (ur_values u)) (ur_set u) \<and>
     set (update_paths u) \<inter> Some ` fst ` set (ur_key u) = {} \<and>
     condition_defined (ur_names u) (ur_values u) (ur_condition u) \<and>
     fst ` set (ur_names u) \<subseteq> set (map clause_name (ur_set u) @ ur_remove u @ condition_names (ur_condition u)) \<and>
     fst ` set (ur_values u) \<subseteq> set (concat (map clause_values (ur_set u)) @ condition_values (ur_condition u))"

definition item_request_valid :: "item_request \<Rightarrow> bool" where
  "item_request_valid r \<longleftrightarrow> condition_defined (ir_names r) (ir_values r) (ir_condition r) \<and>
     fst ` set (ir_names r) \<subseteq> set (condition_names (ir_condition r)) \<and>
     fst ` set (ir_values r) \<subseteq> set (condition_values (ir_condition r))"

definition condition_holds_for ::
  "(string, string) omap \<Rightarrow> (string, js) omap \<Rightarrow> condition_expression option \<Rightarrow> attributes option \<Rightarrow> bool" where
  "condition_holds_for names values c old =
     (case c of
        None \<Rightarrow> True
      | Some (AttributeNotExists n) \<Rightarrow> (case old of None \<Rightarrow> True | Some item \<Rightarrow> item (the (om_get names n)) = None)
      | Some (AttributeEquals n v) \<Rightarrow>
          (case old of None \<Rightarrow> False | Some item \<Rightarrow> item (the (om_get names n)) = om_get values v))"

fun clause_value :: "(string, js) omap \<Rightarrow> js option \<Rightarrow> set_clause \<Rightarrow> js option" where
  "clause_value values old (SetValue n v) = om_get values v"
| "clause_value values old (SetCounter n a b) =
     (case (case old of None \<Rightarrow> om_get values a | Some x \<Rightarrow> Some x, om_get values b) of
        (Some (JNum x), Some (JNum y)) \<Rightarrow> Some (JNum (x + y)) | _ \<Rightarrow> None)"

definition item_after :: "update_request \<Rightarrow> attributes option \<Rightarrow> attributes" where
  "item_after u old n =
     (let base = (case old of Some item \<Rightarrow> item | None \<Rightarrow> map_of (ur_key u))
      in case List.find (\<lambda>c. om_get (ur_names u) (clause_name c) = Some n) (ur_set u) of
           Some c \<Rightarrow> clause_value (ur_values u) (base n) c
         | None \<Rightarrow> if Some n \<in> set (map (om_get (ur_names u)) (ur_remove u)) then None else base n)"

fun request_place :: "write_request \<Rightarrow> string \<times> attributes" where
  "request_place (WriteUpdate u) = (ur_table u, map_of (ur_key u))"
| "request_place (WriteDelete r) = (ir_table r, map_of (ir_key r))"
| "request_place (WriteConditionCheck r) = (ir_table r, map_of (ir_key r))"

fun request_met :: "write_request \<Rightarrow> attributes option \<Rightarrow> bool" where
  "request_met (WriteUpdate u) old = condition_holds_for (ur_names u) (ur_values u) (ur_condition u) old"
| "request_met (WriteDelete r) old = condition_holds_for (ir_names r) (ir_values r) (ir_condition r) old"
| "request_met (WriteConditionCheck r) old = condition_holds_for (ir_names r) (ir_values r) (ir_condition r) old"

fun request_effect :: "write_request \<Rightarrow> attributes option \<Rightarrow> attributes option" where
  "request_effect (WriteUpdate u) old = Some (item_after u old)"
| "request_effect (WriteDelete r) old = None"
| "request_effect (WriteConditionCheck r) old = old"

text \<open>
  What a table accepts as a key and as an item depends on its key and on its indices, whose attributes
  have types.
\<close>

record table_schema =
  sc_key :: "attributes \<Rightarrow> bool"
  sc_item :: "attributes \<Rightarrow> bool"

fun request_valid :: "(string \<Rightarrow> table_schema) \<Rightarrow> write_request \<Rightarrow> attributes option \<Rightarrow> bool" where
  "request_valid schema (WriteUpdate u) old \<longleftrightarrow> update_valid u \<and>
     sc_key (schema (ur_table u)) (map_of (ur_key u)) \<and> sc_item (schema (ur_table u)) (item_after u old)"
| "request_valid schema (WriteDelete r) old \<longleftrightarrow> item_request_valid r \<and> sc_key (schema (ir_table r)) (map_of (ir_key r))"
| "request_valid schema (WriteConditionCheck r) old \<longleftrightarrow> ir_condition r \<noteq> None \<and> item_request_valid r \<and> sc_key (schema (ir_table r)) (map_of (ir_key r))"

type_synonym tables = "string \<times> attributes \<Rightarrow> attributes option"

definition write_effect :: "write_request \<Rightarrow> tables \<Rightarrow> tables" where
  "write_effect r m = m(request_place r := request_effect r (m (request_place r)))"

definition all_valid :: "(string \<Rightarrow> table_schema) \<Rightarrow> write_request list \<Rightarrow> tables \<Rightarrow> bool" where
  "all_valid schema rs m \<longleftrightarrow> rs \<noteq> [] \<and> length rs \<le> 100 \<and> distinct (map request_place rs) \<and>
     list_all (\<lambda>r. request_valid schema r (m (request_place r))) rs"

text \<open>
  Values that an item can hold: no undefined, nor an error, anywhere inside, and integers that
  JavaScript represents exactly.
\<close>

fun storable :: "js \<Rightarrow> bool" where
  "storable JUndef = False"
| "storable (JErr c n m) = False"
| "storable (JArr xs) = list_all storable xs"
| "storable (JObj fs) = list_all (\<lambda>(k, v). storable v) fs"
| "storable (JNum n) \<longleftrightarrow> \<bar>n\<bar> \<le> 9007199254740991"
| "storable _ = True"

text \<open>The entries of an object that are not undefined.\<close>

definition entries_of :: "js \<Rightarrow> attributes" where
  "entries_of v k = (case map_of (own_entries v) k of Some x \<Rightarrow> if x = JUndef then None else Some x | None \<Rightarrow> None)"

locale dynamo_items =
  fixes ops :: "'db entity_dynamo" and schema :: "string \<Rightarrow> table_schema" and items :: "'db \<Rightarrow> tables"
  assumes marshall: "(\<And>k x. entries_of v k = Some x \<Longrightarrow> storable x) \<Longrightarrow>
      map_of (ed_marshall ops v) = entries_of v \<and> distinct (map fst (ed_marshall ops v))"
    and unmarshall: "own_entries (ed_unmarshall ops item) = item"
    and get: "sc_key (schema t) (map_of k) \<Longrightarrow> \<exists>r. ed_getItem ops t k db = Inr r \<and> map_option map_of r = items db (t, map_of k)"
    and update: "request_valid schema (WriteUpdate u) (items db (request_place (WriteUpdate u))) \<Longrightarrow>
      if request_met (WriteUpdate u) (items db (request_place (WriteUpdate u)))
      then \<exists>db' es. ed_updateItem ops u db = (db', Inr es) \<and> items db' = write_effect (WriteUpdate u) (items db) \<and>
        map_of es = item_after u (items db (request_place (WriteUpdate u)))
      else ed_updateItem ops u db = (db, Inl ConditionalCheckFailedException)"
    and delete: "request_valid schema (WriteDelete r) (items db (request_place (WriteDelete r))) \<Longrightarrow>
      if request_met (WriteDelete r) (items db (request_place (WriteDelete r)))
      then \<exists>db'. ed_deleteItem ops r db = (db', None) \<and> items db' = write_effect (WriteDelete r) (items db)
      else ed_deleteItem ops r db = (db, Some ConditionalCheckFailedException)"
    and transact: "all_valid schema rs (items db) \<Longrightarrow>
      if list_all (\<lambda>r. request_met r (items db (request_place r))) rs
      then \<exists>db'. ed_transactWriteItems ops rs db = (db', None) \<and> items db' = fold write_effect rs (items db)
      else ed_transactWriteItems ops rs db = (db, Some (TransactionCanceledException
        (map (\<lambda>r. if request_met r (items db (request_place r)) then ''None'' else ''ConditionalCheckFailed'') rs)))"

section \<open>Entities and values\<close>

definition all_key_parts :: "entity \<Rightarrow> key_part list" where
  "all_key_parts e = concat (map key_def_parts (en_key e # map ix_key (en_indices e)))"

definition generated_attributes :: "entity \<Rightarrow> string list" where
  "generated_attributes e = map kp_keyAttribute (filter (\<lambda>k. 1 < length (kp_attributes k)) (all_key_parts e))"

definition own_key_attributes :: "entity \<Rightarrow> string list" where
  "own_key_attributes e = map kp_keyAttribute (key_def_parts (en_key e))"

definition reserved_names :: "string list" where
  "reserved_names = [''__version'', ''__startingVersion'', ''__versionIncrement'', ''__expectedVersion'']"

text \<open>
  The attributes of an entity can be told apart: from the names the store uses itself, from the
  attributes it generates, and in the placeholders. A key of one attribute is that attribute.
\<close>

definition plain_entity :: "string list \<Rightarrow> entity \<Rightarrow> bool" where
  "plain_entity shape e \<longleftrightarrow>
     (let names = shape @ generated_attributes e
      in set reserved_names \<inter> set names = {} \<and> set shape \<inter> set (generated_attributes e) = {} \<and> distinct shape \<and>
         inj_on (\<lambda>k. formatAttributeMapKey k []) (set (reserved_names @ names)) \<and>
         distinct (own_key_attributes e) \<and>
         list_all (\<lambda>k. kp_attributes k \<noteq> [] \<and> set (kp_attributes k) \<subseteq> set shape \<and>
           (length (kp_attributes k) = 1 \<longrightarrow> kp_keyAttribute k = hd (kp_attributes k))) (key_def_parts (en_key e)) \<and>
         list_all (\<lambda>k. 1 < length (kp_attributes k) \<longrightarrow> kp_type k = StringKey) (all_key_parts e))"

text \<open>A value of the entity: its attributes are those of the schema and can be stored, apart from undefined ones.\<close>

definition conforms :: "string list \<Rightarrow> js \<Rightarrow> bool" where
  "conforms shape v \<longleftrightarrow>
     (case v of JObj fs \<Rightarrow> distinct (map fst fs) \<and> set (map fst fs) \<subseteq> set shape \<and>
        list_all (\<lambda>(n, x). x = JUndef \<or> storable x) fs | _ \<Rightarrow> False)"

definition no_undefined :: "js \<Rightarrow> bool" where
  "no_undefined v \<longleftrightarrow> JUndef \<notin> snd ` set (own_entries v)"

lemma storable_defined: "storable x \<Longrightarrow> x \<noteq> JUndef"
  by auto

lemma conforms_entries:
  assumes "conforms shape v"
  shows "entries_of v n = Some x \<Longrightarrow> n \<in> set shape \<and> storable x" and "js_has v n \<Longrightarrow> n \<in> set shape"
    and "js_get v n = the_default JUndef (entries_of v n)" and "\<not> is_array v" and "distinct (map fst (own_entries v))"
    and "entries_of v n = Some x \<Longrightarrow> js_has v n"
proof -
  obtain fs where v: "v = JObj fs" "distinct (map fst fs)" "set (map fst fs) \<subseteq> set shape"
    "list_all (\<lambda>(n, x). x = JUndef \<or> storable x) fs"
    using assms by (auto simp: conforms_def split: js.splits)
  have st: "map_of fs n = Some x \<Longrightarrow> n \<in> set shape \<and> (x = JUndef \<or> storable x)" for n x
    using v by (force simp: list_all_iff dest: map_of_SomeD)
  then show "entries_of v n = Some x \<Longrightarrow> n \<in> set shape \<and> storable x"
    by (auto simp: entries_of_def v(1) split: option.splits if_splits)
  show "js_has v n \<Longrightarrow> n \<in> set shape" using st [of n] by (auto simp: js_has_def v(1) split: option.splits)
  show "js_get v n = the_default JUndef (entries_of v n)"
    by (simp add: js_get_def the_default_def entries_of_def split: option.split)
  show "\<not> is_array v" by (simp add: is_array_def v(1))
  show "distinct (map fst (own_entries v))" using v(1,2) by simp
  show "entries_of v n = Some x \<Longrightarrow> js_has v n"
    by (auto simp: js_has_def entries_of_def split: option.splits if_splits)
qed

lemma no_undefined_has: "no_undefined v \<Longrightarrow> js_has v n \<Longrightarrow> entries_of v n \<noteq> None"
  by (force simp: no_undefined_def js_has_def entries_of_def dest: map_of_SomeD split: option.splits)

lemma complete_value_storable:
  assumes v: "conforms shape v" and parts: "parts = retrieve_parts p (key_value m v)" and "kp_attributes p \<noteq> []"
    and complete: "isCompleteKeyPart (part_of_parts p parts)"
  shows "storable (np_keyValue (part_of_parts p parts))"
proof -
  obtain a x ps where ps: "parts = (a, x) # ps"
    using parts assms(3) by (metis length_retrieve_parts length_0_conv list.exhaust prod.exhaust)
  have "missing_index parts = None" using complete by (simp add: isCompleteKeyPart_def part_of_parts_def Let_def)
  then have "x \<noteq> JUndef" using find_index_None [of "\<lambda>(p, v). v = JUndef" parts] by (auto simp: missing_index_def ps)
  moreover have "x = js_get v a"
  proof -
    have "(a, x) = retrieve_parts p (key_value m v) ! 0" using parts ps by (metis nth_Cons_0)
    then show ?thesis using nth_retrieve_parts [of 0 p "key_value m v"] assms(3) conforms_entries(4) [OF v]
      by (simp add: key_value_def)
  qed
  ultimately have "storable x" using conforms_entries(1,3) [OF v, of a] by (cases "entries_of v a") auto
  then show ?thesis using \<open>missing_index parts = None\<close> by (simp add: part_of_parts_def Let_def ps first_value_def)
qed

lemma generated_part:
  assumes gen: "computeGeneratedIndexKeyAttributes e v = Inr g" and x: "map_of (own_entries g) n = Some x"
  shows "\<exists>p \<in> set (all_key_parts e). \<exists>m. kp_keyAttribute p = n \<and> 1 < length (kp_attributes p) \<and>
    isCompleteKeyPart (formatNormalizedPart p (key_value m v)) \<and> x = np_keyValue (formatNormalizedPart p (key_value m v))"
proof -
  from gen obtain pss where pss: "list_all2 (\<lambda>i ps. index_key_parts v i = Inr ps) (en_indices e) pss"
    and g: "g = from_entries (map (\<lambda>k. (kp_keyAttribute (np_part k), np_keyValue k))
      (filter isCompleteKeyPart (filter (\<lambda>k. 1 < length (kp_attributes (np_part k))) (concat pss))))"
    by (auto simp: computeGeneratedIndexKeyAttributes_def try_bind_Inr try_map_Inr)
  have "(n, x) \<in> (\<lambda>k. (kp_keyAttribute (np_part k), np_keyValue k)) ` set
      (filter isCompleteKeyPart (filter (\<lambda>k. 1 < length (kp_attributes (np_part k))) (concat pss)))"
    using x by (auto simp: g from_entries_def foldl_om_set_map_of dest!: map_of_SomeD)
  then obtain k where k: "k \<in> set (concat pss)" "isCompleteKeyPart k" "1 < length (kp_attributes (np_part k))"
    "n = kp_keyAttribute (np_part k)" "x = np_keyValue k"
    unfolding image_iff by auto
  then obtain ps where "ps \<in> set pss" "k \<in> set ps" by auto
  then obtain j where j: "j < length pss" "ps = pss ! j" by (auto simp: in_set_conv_nth)
  define i where "i = en_indices e ! j"
  have i: "i \<in> set (en_indices e)" "index_key_parts v i = Inr ps"
    using pss j by (simp_all add: i_def list_all2_conv_all_nth)
  from i(2) \<open>k \<in> set ps\<close> have "\<exists>p \<in> set (key_def_parts (ix_key i)). \<exists>m. k = part_of_parts p (retrieve_parts p (key_value m v))"
    by (cases "kd_sort (ix_key i)")
      (auto simp: index_key_parts_def try_bind_Inr normalizeCompositeKey_parts key_def_parts_def split: option.splits)
  then obtain p m where p: "p \<in> set (key_def_parts (ix_key i))" "k = part_of_parts p (retrieve_parts p (key_value m v))"
    by blast
  have part: "np_part k = p" by (simp add: p part_of_parts_def Let_def)
  have "p \<in> set (all_key_parts e)" using i(1) p(1) by (auto simp: all_key_parts_def)
  then show ?thesis using k part p(2) by (intro bexI [of _ p] exI [of _ m]) (simp_all add: formatNormalizedPart_def)
qed

lemma generated_entries:
  assumes v: "conforms shape v" and gen: "computeGeneratedIndexKeyAttributes e v = Inr g"
    and x: "map_of (own_entries g) n = Some x"
  shows "n \<in> set (generated_attributes e) \<and> storable x"
proof -
  from generated_part [OF gen x] obtain p m where p: "p \<in> set (all_key_parts e)" "kp_keyAttribute p = n"
    "1 < length (kp_attributes p)" "isCompleteKeyPart (formatNormalizedPart p (key_value m v))"
    "x = np_keyValue (formatNormalizedPart p (key_value m v))" by blast
  then have "kp_attributes p \<noteq> []" by auto
  from complete_value_storable [OF v refl this] p(4,5) have "storable x" by (simp add: formatNormalizedPart_def)
  then show ?thesis using p(1-3) by (auto simp: generated_attributes_def)
qed

lemma generated_texts:
  assumes "plain_entity shape e" and gen: "computeGeneratedIndexKeyAttributes e v = Inr g"
    and x: "map_of (own_entries g) n = Some x"
  shows "\<exists>s. x = JStr s \<and> s \<noteq> []"
proof -
  from generated_part [OF gen x] obtain p m where p: "p \<in> set (all_key_parts e)" "1 < length (kp_attributes p)"
    "isCompleteKeyPart (formatNormalizedPart p (key_value m v))"
    "x = np_keyValue (formatNormalizedPart p (key_value m v))" by blast
  have type: "kp_type p = StringKey" using assms(1) p(1,2) by (auto simp: plain_entity_def Let_def list_all_iff)
  have "1 < length (map snd (retrieve_parts p (key_value m v)))" using p(2) by simp
  then obtain a b cs where "map snd (retrieve_parts p (key_value m v)) = a # b # cs"
    by (metis One_nat_def length_0_conv length_Cons less_irrefl less_nat_zero_code neq_Nil_conv)
  then show ?thesis unfolding p(4) complete_string_part [OF type p(3)] by (simp add: join_hash_eq)
qed

definition generated_map :: "entity \<Rightarrow> js \<Rightarrow> attributes" where
  "generated_map e v = (case computeGeneratedIndexKeyAttributes e v of Inr g \<Rightarrow> map_of (own_entries g) | Inl err \<Rightarrow> Map.empty)"

lemma map_of_filter_fst: "map_of (filter (\<lambda>(k, x). P k) kvs) n = (if P n then map_of kvs n else None)"
  by (induction kvs) auto

lemma distinct_from_entries: "distinct (map fst (own_entries (from_entries kvs)))"
proof -
  have "distinct (map fst t) \<Longrightarrow> distinct (map fst (foldl (\<lambda>t (k, v). om_set k v t) t kvs))" for t
    by (induction kvs arbitrary: t) (auto simp: om_inv_set [unfolded om_inv_def])
  from this [of "[]"] show ?thesis by (simp add: from_entries_def)
qed

lemma entries_of_defined: "(\<And>x. map_of (own_entries v) n = Some x \<Longrightarrow> x \<noteq> JUndef) \<Longrightarrow> entries_of v n = map_of (own_entries v) n"
  by (auto simp: entries_of_def split: option.split)

lemma value_to_save_entries:
  assumes v: "conforms shape v" and gen: "computeGeneratedIndexKeyAttributes e v = Inr g"
  shows "entries_of (value_to_save e v g) n =
      (if n \<in> set (own_key_attributes e) then None else (entries_of v ++ generated_map e v) n)"
proof -
  obtain kvs where kvs: "g = from_entries kvs"
    using gen by (auto simp: computeGeneratedIndexKeyAttributes_def try_bind_Inr)
  have dg: "distinct (map fst (own_entries g))" unfolding kvs by (rule distinct_from_entries)
  have own: "map_of (own_entries (value_to_save e v g)) n = (if n \<in> set (own_key_attributes e) then None
      else (map_of (own_entries v) ++ map_of (own_entries g)) n)"
    by (simp add: value_to_save_def removeKeyAttributes_def Let_def own_key_attributes_def map_of_filter_fst
        from_entries_def foldl_om_set_map_of map_of_rev_distinct conforms_entries(5) [OF v] dg)
  show ?thesis
  proof (cases "map_of (own_entries g) n")
    case None
    then show ?thesis by (simp add: entries_of_def own generated_map_def gen map_add_def)
  next
    case (Some x)
    then have "x \<noteq> JUndef" using generated_entries [OF v gen Some] by auto
    then show ?thesis by (simp add: entries_of_def own generated_map_def gen map_add_def Some)
  qed
qed

end
