(* ===== verification/AwsEntityKeys.thy ===== *)
theory AwsEntityKeys
  imports AwsEntityLaws JsonText
begin

text \<open>
  The keys of items: a normalised key of an entity, as the attributes that DynamoDB is given.
\<close>

section \<open>Keys\<close>

definition key_entries :: "norm_key \<Rightarrow> dynamo_item" where
  "key_entries key = (kp_keyAttribute (np_part (nk_partition key)), np_keyValue (nk_partition key)) #
     (case nk_sort key of None \<Rightarrow> [] | Some s \<Rightarrow> [(kp_keyAttribute (np_part s), np_keyValue s)])"

text \<open>A complete key of the entity with values of the types of its parts; texts are not empty.\<close>

definition typed_key_value :: "key_part \<Rightarrow> js \<Rightarrow> bool" where
  "typed_key_value p x \<longleftrightarrow> typed_value (kp_type p) x \<and> storable x \<and> x \<noteq> JStr []"

definition typed_key :: "entity \<Rightarrow> norm_key \<Rightarrow> bool" where
  "typed_key e key \<longleftrightarrow>
     np_part (nk_partition key) = kd_partition (en_key e) \<and> map_option np_part (nk_sort key) = kd_sort (en_key e) \<and>
     typed_key_value (kd_partition (en_key e)) (np_keyValue (nk_partition key)) \<and>
     (case nk_sort key of None \<Rightarrow> True | Some s \<Rightarrow> typed_key_value (np_part s) (np_keyValue s))"

lemma typed_value_storable: "typed_key_value p v \<Longrightarrow> storable v \<and> v \<noteq> JNull \<and> v \<noteq> JUndef"
  by (auto simp: typed_key_value_def typed_value_def split: key_type.splits js.splits)

lemma typed_key_sort: "typed_key e key \<Longrightarrow> kd_sort (en_key e) = map_option np_part (nk_sort key)"
  by (simp add: typed_key_def)

lemma key_entries_fst: "typed_key e key \<Longrightarrow> map fst (key_entries key) = own_key_attributes e"
  by (cases "nk_sort key")
    (auto simp: typed_key_sort [of e key] key_entries_def own_key_attributes_def key_def_parts_def, auto simp: typed_key_def)

lemma key_entries_storable: "typed_key e key \<Longrightarrow> (n, x) \<in> set (key_entries key) \<Longrightarrow> storable x"
  by (auto simp: typed_key_def key_entries_def dest: typed_value_storable split: option.splits)

lemma plain_own_keys: "plain_entity shape e \<Longrightarrow> distinct (own_key_attributes e)"
  by (simp add: plain_entity_def Let_def)

lemma distinct_key_entries:
  "plain_entity shape e \<Longrightarrow> typed_key e key \<Longrightarrow> distinct (map fst (key_entries key))"
  using plain_own_keys key_entries_fst by simp

lemma entries_of_key:
  assumes "plain_entity shape e" and "typed_key e key"
  shows "entries_of (key_object key) = map_of (key_entries key)"
proof
  fix n
  have own: "own_entries (key_object key) = key_entries key"
    using from_entries_distinct [OF distinct_key_entries [OF assms]]
    by (simp add: key_object_def key_entries_def [symmetric] from_entries_def)
  have "x \<noteq> JUndef" if "map_of (key_entries key) n = Some x" for x
    using key_entries_storable [OF assms(2) map_of_SomeD [OF that]] by auto
  then show "entries_of (key_object key) n = map_of (key_entries key) n"
    by (auto simp: entries_of_def own split: option.split)
qed

lemma table_key_entries:
  assumes "plain_entity shape e" and "typed_key e k1" and "typed_key e k2"
  shows "map_of (key_entries k1) = map_of (key_entries k2) \<longleftrightarrow> table_key k1 = table_key k2"
proof -
  have snds: "map snd (key_entries k) = map (the \<circ> map_of (key_entries k)) (own_key_attributes e)" if "typed_key e k" for k
  proof -
    have "map (the \<circ> map_of (key_entries k)) (map fst (key_entries k)) = map snd (key_entries k)"
      using distinct_key_entries [OF assms(1) that] by (auto simp: map_of_is_SomeI)
    then show ?thesis using key_entries_fst [OF that] by simp
  qed
  have "map_of (key_entries k1) = map_of (key_entries k2) \<longleftrightarrow> map snd (key_entries k1) = map snd (key_entries k2)"
    using snds [OF assms(2)] snds [OF assms(3)] key_entries_fst [OF assms(2)] key_entries_fst [OF assms(3)]
    by (metis zip_map_fst_snd)
  also have "\<dots> \<longleftrightarrow> table_key k1 = table_key k2"
    using assms(2,3) typed_key_sort [OF assms(2)] typed_key_sort [OF assms(3)]
    by (cases "nk_sort k1"; cases "nk_sort k2")
      (auto simp: typed_key_def key_entries_def table_key_def partition_value_def skOrDefault_def sort_value_def or_else_def
        dest!: typed_value_storable)
  finally show ?thesis .
qed

text \<open>The key of a value, whose key attributes have the types the schema gives them.\<close>

definition keyed :: "entity \<Rightarrow> js \<Rightarrow> norm_key \<Rightarrow> bool" where
  "keyed e v key \<longleftrightarrow> normalizeCompositeKey (en_key e) v = Inr key \<and> isCompleteKey key \<and> typed_key e key \<and>
     list_all (\<lambda>p. length (kp_attributes p) = 1 \<longrightarrow> typed_value (kp_type p) (js_get v (kp_keyAttribute p)))
       (key_def_parts (en_key e))"

lemma keyed_typed: "keyed e v key \<Longrightarrow> typed_key e key"
  by (simp add: keyed_def)

text \<open>A key part of one attribute has the attribute's value.\<close>

lemma single_key_value:
  assumes plain: "plain_entity shape e" and v: "conforms shape v" and k: "keyed e v key"
    and p: "p \<in> set (key_def_parts (en_key e))" "length (kp_attributes p) = 1"
  shows "map_of (key_entries key) (kp_keyAttribute p) = entries_of v (kp_keyAttribute p) \<and> entries_of v (kp_keyAttribute p) \<noteq> None"
proof -
  obtain a where a: "kp_attributes p = [a]" using p(2) by (cases "kp_attributes p") auto
  have ka: "kp_keyAttribute p = a" using plain p a by (auto simp: plain_entity_def Let_def list_all_iff)
  have tv: "typed_value (kp_type p) (js_get v a)" using k p ka unfolding keyed_def list_all_iff by blast
  then have present: "js_get v a \<noteq> JUndef" by (auto simp: typed_value_def split: key_type.splits)
  have vals: "np_keyValue (part_of_parts p (retrieve_parts p (key_value m v))) = js_get v a" for m
  proof -
    have parts: "retrieve_parts p (key_value m v) = [(a, js_get v a)]"
      using nth_retrieve_parts [of 0 p "key_value m v"] length_retrieve_parts [of p "key_value m v"] a conforms_entries(4) [OF v]
      by (cases "retrieve_parts p (key_value m v)") (auto simp: key_value_def)
    show ?thesis using present tv
      by (auto simp: parts part_of_parts_def Let_def missing_index_def first_value_def join_hash_def typed_value_def
          split: key_type.splits js.splits)
  qed
  have key: "key = \<lparr>nk_partition = part_of_parts (kd_partition (en_key e)) (retrieve_parts (kd_partition (en_key e)) (key_value 0 v)),
      nk_sort = map_option (\<lambda>s. part_of_parts s (retrieve_parts s (key_value (partition_width (en_key e)) v))) (kd_sort (en_key e))\<rparr>"
    using k unfolding keyed_def normalizeCompositeKey_parts by (auto split: option.splits)
  have np: "np_part (part_of_parts q ps) = q" for q ps by (simp add: part_of_parts_def Let_def)
  have "p = kd_partition (en_key e) \<or> kd_sort (en_key e) = Some p"
    using p(1) by (auto simp: key_def_parts_def split: option.splits)
  then have "(a, js_get v a) \<in> set (key_entries key)"
    unfolding key_entries_def key using vals ka by (auto simp: np)
  then have "map_of (key_entries key) a = Some (js_get v a)"
    using distinct_key_entries [OF plain keyed_typed [OF k]] by (rule map_of_is_SomeI [rotated])
  moreover have "entries_of v a = Some (js_get v a)"
    using present conforms_entries(3) [OF v, of a] by (cases "entries_of v a") auto
  ultimately show ?thesis by (simp add: ka)
qed

lemma own_key_in:
  assumes plain: "plain_entity shape e" and n: "n \<in> set (own_key_attributes e)"
  shows "n \<in> set (generated_attributes e) \<and> n \<notin> set shape \<or>
    (\<exists>p \<in> set (key_def_parts (en_key e)). length (kp_attributes p) = 1 \<and> kp_keyAttribute p = n \<and> n \<in> set shape)"
proof -
  obtain p where p: "p \<in> set (key_def_parts (en_key e))" "n = kp_keyAttribute p"
    using n by (auto simp: own_key_attributes_def)
  show ?thesis
  proof (cases "1 < length (kp_attributes p)")
    case True
    then have "n \<in> set (generated_attributes e)" using p by (auto simp: generated_attributes_def all_key_parts_def)
    then show ?thesis using plain by (auto simp: plain_entity_def Let_def)
  next
    case False
    have ok: "kp_attributes p \<noteq> []" "set (kp_attributes p) \<subseteq> set shape"
      "length (kp_attributes p) = 1 \<longrightarrow> kp_keyAttribute p = hd (kp_attributes p)"
      using plain p(1) by (auto simp: plain_entity_def Let_def list_all_iff)
    then have one: "length (kp_attributes p) = 1" using False by (cases "kp_attributes p") auto
    then have "n \<in> set shape" using ok p(2) by (cases "kp_attributes p") auto
    then show ?thesis using p one by blast
  qed
qed

end
