(* ===== verification/AwsEntityRequests.thy ===== *)
theory AwsEntityRequests
  imports AwsEntityKeys
begin

text \<open>
  The requests of the store on DynamoDB are valid, and what a put makes of an item.
\<close>

section \<open>Placeholders\<close>

lemma format_name: "formatAttributeNameMapKey k = CHR ''#'' # formatAttributeMapKey k []"
  by (simp add: formatAttributeNameMapKey_def formatAttributeMapKey_def)

lemma format_value: "formatAttributeValueMapKey k = CHR '':'' # formatAttributeMapKey k []"
  by (simp add: formatAttributeValueMapKey_def formatAttributeMapKey_def)

lemma fold_names_append: "fold_names ks (fold_names js t) = fold_names (js @ ks) t"
  by (simp add: fold_names_def)

lemma fold_names_get:
  assumes "inj_on (\<lambda>k. formatAttributeMapKey k []) (set ks)" and "k \<in> set ks"
  shows "om_get (fold_names ks t) (formatAttributeNameMapKey k) = Some k"
  using assms
proof (induction ks arbitrary: t)
  case (Cons j ks)
  have other: "om_get (fold_names ks t) x = om_get t x" if "x \<notin> formatAttributeNameMapKey ` set ks" for x t
    using that by (induction ks arbitrary: t) (auto simp: fold_names_def om_get_set)
  show ?case
  proof (cases "k \<in> set ks")
    case True
    then show ?thesis using Cons by (auto simp: fold_names_def)
  next
    case False
    then have k: "k = j" using Cons.prems(2) by simp
    have "formatAttributeNameMapKey j \<notin> formatAttributeNameMapKey ` set ks"
      using Cons.prems(1) False k by (auto simp: format_name inj_on_def)
    from other [OF this, of "om_set (formatAttributeNameMapKey j) j t"] show ?thesis
      by (simp add: k fold_names_def om_get_set)
  qed
qed simp

lemma fst_set_om_set: "fst ` set (om_set x y t) = insert x (fst ` set t)"
  by (induction x y t rule: om_set.induct) auto

lemma fold_names_fst: "fst ` set (fold_names ks t) = formatAttributeNameMapKey ` set ks \<union> fst ` set t"
  by (induction ks arbitrary: t) (auto simp: fold_names_def fst_set_om_set)

lemma fold_values_fst: "fst ` set (fold_values kvs t) = formatAttributeValueMapKey ` fst ` set kvs \<union> fst ` set t"
  by (induction kvs arbitrary: t) (simp_all add: fold_values_def fst_set_om_set case_prod_beta)

lemma fold_values_other:
  "x \<notin> formatAttributeValueMapKey ` fst ` set kvs \<Longrightarrow> om_get (fold_values kvs t) x = om_get t x"
  by (induction kvs arbitrary: t) (auto simp: fold_values_def om_get_set)

lemma fold_values_get:
  assumes "inj_on (\<lambda>k. formatAttributeMapKey k []) (fst ` set kvs)" and "distinct (map fst kvs)" and "k \<in> fst ` set kvs"
  shows "om_get (fold_values kvs t) (formatAttributeValueMapKey k) = map_of kvs k"
  using assms
proof (induction kvs arbitrary: t)
  case (Cons kv kvs)
  obtain j x where kv: "kv = (j, x)" by (cases kv)
  show ?case
  proof (cases "k = j")
    case True
    have "formatAttributeValueMapKey j \<notin> formatAttributeValueMapKey ` fst ` set kvs"
      using Cons.prems(1,2) by (force simp: kv format_value inj_on_def)
    from fold_values_other [OF this, of "om_set (formatAttributeValueMapKey j) x t"] show ?thesis
      by (simp add: True kv fold_values_def om_get_set)
  next
    case False
    then show ?thesis using Cons by (auto simp: kv fold_values_def)
  qed
qed simp

lemma find_set_value:
  assumes "distinct (map fst kvs)" and "\<And>k. k \<in> fst ` set kvs \<Longrightarrow> nm (f k) = Some k"
  shows "List.find (\<lambda>c. nm (clause_name c) = Some n) (map (\<lambda>(k, x). SetValue (f k) (g k)) kvs) =
    (if n \<in> fst ` set kvs then Some (SetValue (f n) (g n)) else None)"
  using assms
proof (induction kvs)
  case (Cons kv kvs)
  obtain k x where "kv = (k, x)" by (cases kv)
  then show ?case using Cons by (auto simp: clause_name_def)
qed simp

section \<open>The request of a put\<close>

definition saved_record :: "'db aws_store \<Rightarrow> entity \<Rightarrow> js \<Rightarrow> dynamo_item" where
  "saved_record store e v = ed_marshall (as_dynamo store)
     (value_to_save e v (case computeGeneratedIndexKeyAttributes e v of Inr g \<Rightarrow> g | Inl err \<Rightarrow> JObj []))"

definition saved_map :: "entity \<Rightarrow> js \<Rightarrow> attributes" where
  "saved_map e v n = (if n \<in> set (own_key_attributes e) then None else (entries_of v ++ generated_map e v) n)"

definition aws_increment :: "put_options \<Rightarrow> int" where
  "aws_increment options = (if po_incrementVersion options = Some False then 0 else 1)"

lemma generated_map_dom: "conforms shape v \<Longrightarrow> generated_map e v n = Some x \<Longrightarrow> n \<in> set (generated_attributes e) \<and> storable x"
  using generated_entries by (fastforce simp: generated_map_def split: sum.splits)

lemma saved_map_dom:
  assumes "conforms shape v" and "saved_map e v n = Some x"
  shows "n \<in> set shape \<union> set (generated_attributes e)" and "storable x" and "n \<notin> set (own_key_attributes e)"
  using assms generated_map_dom [OF assms(1), of e n x] conforms_entries(1) [OF assms(1), of n x]
  by (auto simp: saved_map_def map_add_Some_iff split: if_splits)

context dynamo_items
begin

lemma saved_record:
  assumes "as_dynamo store = ops" and v: "conforms shape v" and gen: "computeGeneratedIndexKeyAttributes e v = Inr g"
  shows "map_of (saved_record store e v) = saved_map e v" and "distinct (map fst (saved_record store e v))"
proof -
  have entries: "entries_of (value_to_save e v g) = saved_map e v"
    using value_to_save_entries [OF v gen] by (simp add: fun_eq_iff saved_map_def)
  have "map_of (ed_marshall ops (value_to_save e v g)) = entries_of (value_to_save e v g) \<and>
      distinct (map fst (ed_marshall ops (value_to_save e v g)))"
    by (rule marshall) (use saved_map_dom(2) [OF v] in \<open>auto simp: entries\<close>)
  then show "map_of (saved_record store e v) = saved_map e v" "distinct (map fst (saved_record store e v))"
    by (simp_all add: saved_record_def assms(1) gen entries)
qed

lemma entity_key_map:
  assumes "as_dynamo store = ops" and "plain_entity shape e" and "typed_key e key"
  shows "map_of (entityKey store key) = map_of (key_entries key)"
proof -
  have "storable x" if "map_of (key_entries key) n = Some x" for n x
    using key_entries_storable [OF assms(3) map_of_SomeD [OF that]] .
  then show ?thesis
    using marshall [of "key_object key"] by (simp add: entityKey_def assms(1) entries_of_key [OF assms(2,3)])
qed

lemma set_request:
  assumes ops: "as_dynamo store = ops" and plain: "plain_entity (as_shape store (en_name e)) e"
    and v: "conforms (as_shape store (en_name e)) v" and k: "keyed e v key"
    and u: "createSetRequest store e v key options = Inr u"
  defines "sname \<equiv> as_shape store (en_name e)" and "stored \<equiv> saved_record store e v" and "missing \<equiv> missing_attributes store e v"
  shows "VERSION_FIELD \<notin> fst ` set stored \<union> set missing" and "fst ` set stored \<inter> set missing = {}" and "distinct missing"
    and "map_of stored = saved_map e v" and "distinct (map fst stored)"
    and "fst ` set stored \<union> set missing \<subseteq> set sname \<union> set (generated_attributes e)"
    and "(fst ` set stored \<union> set missing \<union> {VERSION_FIELD}) \<inter> set (own_key_attributes e) = {}"
    and "inj_on (\<lambda>k. formatAttributeMapKey k []) (set reserved_names \<union> fst ` set stored \<union> set missing)"
    and "u = \<lparr>ur_table = aws_tableName store e, ur_key = entityKey store key,
      ur_set = SetCounter (formatAttributeNameMapKey VERSION_FIELD) '':__startingVersion'' '':__versionIncrement'' #
        map (\<lambda>(k, x). SetValue (formatAttributeNameMapKey k) (formatAttributeValueMapKey k)) stored,
      ur_remove = map formatAttributeNameMapKey missing,
      ur_names = fold_names (VERSION_FIELD # map fst stored @ missing) [],
      ur_values = fold_values stored
        ((case po_expectedVersion options of
            Some v' \<Rightarrow> if v' \<noteq> 0 then [('':__expectedVersion'', JNum v')] else [] | None \<Rightarrow> []) @
          [('':__startingVersion'', JNum 0), ('':__versionIncrement'', JNum (aws_increment options))]),
      ur_condition = (case po_expectedVersion options of
          None \<Rightarrow> None
        | Some v' \<Rightarrow> Some (if v' = 0 then AttributeNotExists (formatAttributeNameMapKey VERSION_FIELD)
            else AttributeEquals (formatAttributeNameMapKey VERSION_FIELD) '':__expectedVersion''))\<rparr>"
proof -
  obtain g where gen: "computeGeneratedIndexKeyAttributes e v = Inr g"
    using u by (auto simp: createSetRequest_def try_bind_Inr)
  show m: "map_of stored = saved_map e v" "distinct (map fst stored)"
    using saved_record [OF ops v gen] by (simp_all add: stored_def)
  have dom: "fst ` set stored = dom (saved_map e v)" by (simp add: m(1) [symmetric] dom_map_of_conv_image_fst)
  have missing_set: "set missing = {a \<in> set sname. \<not> js_has v a}" by (simp add: missing_def missing_attributes_def sname_def)
  show "distinct missing" using plain by (simp add: missing_def missing_attributes_def plain_entity_def Let_def)
  show sub: "fst ` set stored \<union> set missing \<subseteq> set sname \<union> set (generated_attributes e)"
    using saved_map_dom [OF v] by (auto simp: dom sname_def missing_set)
  have plain': "set reserved_names \<inter> (set sname \<union> set (generated_attributes e)) = {}" "set sname \<inter> set (generated_attributes e) = {}"
    "inj_on (\<lambda>k. formatAttributeMapKey k []) (set reserved_names \<union> (set sname \<union> set (generated_attributes e)))"
    using plain by (simp_all add: plain_entity_def Let_def sname_def)
  have res: "VERSION_FIELD \<in> set reserved_names" by (simp add: VERSION_FIELD_def reserved_names_def)
  show "VERSION_FIELD \<notin> fst ` set stored \<union> set missing" using plain'(1) sub res by blast
  show "fst ` set stored \<inter> set missing = {}"
  proof -
    have "a \<notin> set missing" if "saved_map e v a = Some x" for a x
    proof
      assume "a \<in> set missing"
      then have a: "a \<in> set sname" "\<not> js_has v a" by (simp_all add: missing_set)
      then have "generated_map e v a = Some x"
        using that conforms_entries(6) [OF v, of a x] by (auto simp: saved_map_def map_add_Some_iff split: if_splits)
      then show False using generated_map_dom [OF v, of e a x] a(1) plain'(2) by blast
    qed
    then show ?thesis by (auto simp: dom)
  qed
  have own_missing: "a \<notin> set missing" if "a \<in> set (own_key_attributes e)" for a
    using own_key_in [OF plain that] plain'(2) single_key_value [OF plain v k] conforms_entries(6) [OF v]
    by (auto simp: missing_set sname_def)
  have own_names: "set (own_key_attributes e) \<subseteq> set sname \<union> set (generated_attributes e)"
    using own_key_in [OF plain] by (auto simp: sname_def)
  show "(fst ` set stored \<union> set missing \<union> {VERSION_FIELD}) \<inter> set (own_key_attributes e) = {}"
    using own_missing own_names plain'(1) res saved_map_dom(3) [OF v] by (auto simp: dom)
  show "inj_on (\<lambda>k. formatAttributeMapKey k []) (set reserved_names \<union> fst ` set stored \<union> set missing)"
    by (rule inj_on_subset [OF plain'(3)]) (use sub in blast)
  have ver: "formatAttributeNameMapKey VERSION_FIELD = ''#__version''"
    by (simp add: formatAttributeNameMapKey_def formatAttributeMapKey_def VERSION_FIELD_def)
  have names: "fold_names missing (fold_names (map fst stored) [(''#__version'', VERSION_FIELD)]) =
      fold_names (VERSION_FIELD # map fst stored @ missing) []"
    by (simp add: fold_names_append) (simp add: fold_names_def ver)
  show "u = \<lparr>ur_table = aws_tableName store e, ur_key = entityKey store key,
      ur_set = SetCounter (formatAttributeNameMapKey VERSION_FIELD) '':__startingVersion'' '':__versionIncrement'' #
        map (\<lambda>(k, x). SetValue (formatAttributeNameMapKey k) (formatAttributeValueMapKey k)) stored,
      ur_remove = map formatAttributeNameMapKey missing,
      ur_names = fold_names (VERSION_FIELD # map fst stored @ missing) [],
      ur_values = fold_values stored
        ((case po_expectedVersion options of
            Some v' \<Rightarrow> if v' \<noteq> 0 then [('':__expectedVersion'', JNum v')] else [] | None \<Rightarrow> []) @
          [('':__startingVersion'', JNum 0), ('':__versionIncrement'', JNum (aws_increment options))]),
      ur_condition = (case po_expectedVersion options of
          None \<Rightarrow> None
        | Some v' \<Rightarrow> Some (if v' = 0 then AttributeNotExists (formatAttributeNameMapKey VERSION_FIELD)
            else AttributeEquals (formatAttributeNameMapKey VERSION_FIELD) '':__expectedVersion''))\<rparr>"
    using u unfolding names [symmetric] ver
    by (simp add: createSetRequest_def gen stored_def saved_record_def missing_def Let_def aws_increment_def)
qed

lemma set_request_fields:
  assumes "as_dynamo store = ops" and "plain_entity (as_shape store (en_name e)) e"
    and "conforms (as_shape store (en_name e)) v" and "keyed e v key" and "createSetRequest store e v key options = Inr u"
  shows "ur_table u = aws_tableName store e" and "ur_key u = entityKey store key"
    and "ur_set u = SetCounter (formatAttributeNameMapKey VERSION_FIELD) '':__startingVersion'' '':__versionIncrement'' #
        map (\<lambda>(k, x). SetValue (formatAttributeNameMapKey k) (formatAttributeValueMapKey k)) (saved_record store e v)"
    and "ur_remove u = map formatAttributeNameMapKey (missing_attributes store e v)"
    and "ur_names u = fold_names (VERSION_FIELD # map fst (saved_record store e v) @ missing_attributes store e v) []"
    and "ur_values u = fold_values (saved_record store e v)
        ((case po_expectedVersion options of
            Some v' \<Rightarrow> if v' \<noteq> 0 then [('':__expectedVersion'', JNum v')] else [] | None \<Rightarrow> []) @
          [('':__startingVersion'', JNum 0), ('':__versionIncrement'', JNum (aws_increment options))])"
    and "ur_condition u = (case po_expectedVersion options of
          None \<Rightarrow> None
        | Some v' \<Rightarrow> Some (if v' = 0 then AttributeNotExists (formatAttributeNameMapKey VERSION_FIELD)
            else AttributeEquals (formatAttributeNameMapKey VERSION_FIELD) '':__expectedVersion''))"
  by (subst set_request(9) [OF assms], simp)+

lemma set_request_names:
  assumes "as_dynamo store = ops" and "plain_entity (as_shape store (en_name e)) e"
    and "conforms (as_shape store (en_name e)) v" and "keyed e v key" and "createSetRequest store e v key options = Inr u"
    and k: "k = VERSION_FIELD \<or> k \<in> fst ` set (saved_record store e v) \<or> k \<in> set (missing_attributes store e v)"
  shows "om_get (ur_names u) (formatAttributeNameMapKey k) = Some k"
proof -
  note r = set_request [OF assms(1-5)] and f = set_request_fields [OF assms(1-5)]
  have "inj_on (\<lambda>k. formatAttributeMapKey k []) (set (VERSION_FIELD # map fst (saved_record store e v) @ missing_attributes store e v))"
    by (rule inj_on_subset [OF r(8)]) (auto simp: reserved_names_def VERSION_FIELD_def)
  from fold_names_get [OF this, of k "[]"] k show ?thesis by (auto simp: f)
qed

lemma set_request_values:
  assumes "as_dynamo store = ops" and "plain_entity (as_shape store (en_name e)) e"
    and "conforms (as_shape store (en_name e)) v" and "keyed e v key" and "createSetRequest store e v key options = Inr u"
  shows "k \<in> fst ` set (saved_record store e v) \<Longrightarrow> om_get (ur_values u) (formatAttributeValueMapKey k) = saved_map e v k"
    and "om_get (ur_values u) '':__startingVersion'' = Some (JNum 0)"
    and "om_get (ur_values u) '':__versionIncrement'' = Some (JNum (aws_increment options))"
    and "om_get (ur_values u) '':__expectedVersion'' =
      (case po_expectedVersion options of Some v' \<Rightarrow> if v' \<noteq> 0 then Some (JNum v') else None | None \<Rightarrow> None)"
proof -
  note r = set_request [OF assms(1-5)] and f = set_request_fields [OF assms(1-5)]
  have inj: "inj_on (\<lambda>k. formatAttributeMapKey k []) (fst ` set (saved_record store e v))"
    by (rule inj_on_subset [OF r(8)]) auto
  show "k \<in> fst ` set (saved_record store e v) \<Longrightarrow> om_get (ur_values u) (formatAttributeValueMapKey k) = saved_map e v k"
    using fold_values_get [OF inj r(5), of k] r(4) by (simp add: f)
  have fresh: "formatAttributeValueMapKey k \<notin> formatAttributeValueMapKey ` fst ` set (saved_record store e v)"
    if k: "k \<in> set reserved_names" for k
  proof
    assume "formatAttributeValueMapKey k \<in> formatAttributeValueMapKey ` fst ` set (saved_record store e v)"
    then obtain j where j: "j \<in> fst ` set (saved_record store e v)" "formatAttributeValueMapKey k = formatAttributeValueMapKey j" by blast
    then have "k = j" using inj_onD [OF r(8), of k j] k by (simp add: format_value)
    then show False using j(1) k r(6) assms(2) by (auto simp: plain_entity_def Let_def)
  qed
  have other: "om_get (ur_values u) (formatAttributeValueMapKey k) = om_get
        ((case po_expectedVersion options of
            Some v' \<Rightarrow> if v' \<noteq> 0 then [('':__expectedVersion'', JNum v')] else [] | None \<Rightarrow> []) @
          [('':__startingVersion'', JNum 0), ('':__versionIncrement'', JNum (aws_increment options))]) (formatAttributeValueMapKey k)"
    if "k \<in> set reserved_names" for k
    by (simp add: f fold_values_other [OF fresh [OF that]])
  have n: "formatAttributeValueMapKey ''__startingVersion'' = '':__startingVersion''"
    "formatAttributeValueMapKey ''__versionIncrement'' = '':__versionIncrement''"
    "formatAttributeValueMapKey ''__expectedVersion'' = '':__expectedVersion''"
    by (simp_all add: formatAttributeValueMapKey_def formatAttributeMapKey_def)
  show "om_get (ur_values u) '':__startingVersion'' = Some (JNum 0)"
    using other [of "''__startingVersion''"] by (simp add: n reserved_names_def om_get_def split: option.splits)
  show "om_get (ur_values u) '':__versionIncrement'' = Some (JNum (aws_increment options))"
    using other [of "''__versionIncrement''"] by (simp add: n reserved_names_def om_get_def split: option.splits)
  show "om_get (ur_values u) '':__expectedVersion'' =
      (case po_expectedVersion options of Some v' \<Rightarrow> if v' \<noteq> 0 then Some (JNum v') else None | None \<Rightarrow> None)"
    using other [of "''__expectedVersion''"] by (simp add: n reserved_names_def om_get_def split: option.splits)
qed

lemma set_request_valid:
  assumes "as_dynamo store = ops" and "plain_entity (as_shape store (en_name e)) e"
    and "conforms (as_shape store (en_name e)) v" and "keyed e v key" and "createSetRequest store e v key options = Inr u"
  shows "update_valid u"
proof -
  note r = set_request [OF assms(1-5)] and f = set_request_fields [OF assms(1-5)]
  note n = set_request_names [OF assms(1-5)]
  note x = set_request_values [OF assms(1-5)]
  let ?stored = "saved_record store e v" and ?missing = "missing_attributes store e v"
  have paths: "update_paths u = map Some (VERSION_FIELD # map fst ?stored @ ?missing)"
  proof -
    have "om_get (ur_names u) (formatAttributeNameMapKey k) = Some k" if "(k, y) \<in> set ?stored" for k y
      using n [of k] that by force
    then show ?thesis using n by (auto simp: update_paths_def f(3,4) clause_name_def)
  qed
  show ?thesis unfolding update_valid_def
  proof (intro conjI)
    show "None \<notin> set (update_paths u)" by (auto simp: paths)
    show "distinct (update_paths u)"
      using r(1,2,3,5) by (auto simp: paths distinct_map inj_on_def)
    show "list_all (clause_defined (ur_values u)) (ur_set u)"
    proof -
      have "om_has (ur_values u) (formatAttributeValueMapKey k)" if "k \<in> fst ` set ?stored" for k
      proof -
        have "saved_map e v k \<noteq> None" using that by (simp add: r(4) [symmetric] map_of_eq_None_iff)
        then show ?thesis using x(1) [OF that] by (simp add: om_has_def)
      qed
      then show ?thesis using x(2,3)
        by (force simp: f(3) list_all_iff clause_defined_def om_has_def)
    qed
    have "fst ` set (ur_key u) = set (own_key_attributes e)"
    proof -
      have "dom (map_of (entityKey store key)) = set (own_key_attributes e)"
        using entity_key_map [OF assms(1,2) keyed_typed [OF assms(4)]] key_entries_fst [OF keyed_typed [OF assms(4)]]
        by (simp add: dom_map_of_conv_image_fst flip: set_map)
      then show ?thesis by (simp add: f(2) dom_map_of_conv_image_fst)
    qed
    then show "set (update_paths u) \<inter> Some ` fst ` set (ur_key u) = {}"
      using r(7) by (auto simp: paths)
    show "condition_defined (ur_names u) (ur_values u) (ur_condition u)"
      using n [of VERSION_FIELD] x(4)
      by (auto simp: f(7) condition_defined_def condition_names_def condition_values_def om_has_def split: option.splits)
    show "fst ` set (ur_names u) \<subseteq> set (map clause_name (ur_set u) @ ur_remove u @ condition_names (ur_condition u))"
    proof -
      have "formatAttributeNameMapKey ` fst ` set ?stored \<subseteq> set (map clause_name (ur_set u))"
        by (force simp: f(3) clause_name_def)
      then show ?thesis by (auto simp: f(4,5) fold_names_fst) (auto simp: f(3) clause_name_def)
    qed
    show "fst ` set (ur_values u) \<subseteq> set (concat (map clause_values (ur_set u)) @ condition_values (ur_condition u))"
    proof -
      have "formatAttributeValueMapKey ` fst ` set ?stored \<subseteq> set (concat (map clause_values (ur_set u)))"
        by (force simp: f(3) clause_values_def)
      moreover have "{'':__startingVersion'', '':__versionIncrement''} \<subseteq> set (concat (map clause_values (ur_set u)))"
        by (simp add: f(3) clause_values_def)
      moreover have "fst ` set (case po_expectedVersion options of
            Some v' \<Rightarrow> if v' \<noteq> 0 then [('':__expectedVersion'', JNum v')] else [] | None \<Rightarrow> []) \<subseteq>
          set (condition_values (ur_condition u))"
        by (auto simp: f(7) condition_values_def split: option.splits)
      moreover have "fst ` set [('':__startingVersion'', JNum 0), ('':__versionIncrement'', JNum (aws_increment options))] =
          {'':__startingVersion'', '':__versionIncrement''}" by simp
      ultimately show ?thesis unfolding f(6) fold_values_fst set_append image_Un
        by (metis (no_types, lifting) Un_least le_supI1 le_supI2)
    qed
  qed
qed

text \<open>What a put leaves in the item.\<close>

lemma set_request_item:
  assumes "as_dynamo store = ops" and "plain_entity (as_shape store (en_name e)) e"
    and "conforms (as_shape store (en_name e)) v" and "keyed e v key" and "createSetRequest store e v key options = Inr u"
  fixes old :: "attributes option"
  defines "base \<equiv> (case old of Some item \<Rightarrow> item | None \<Rightarrow> map_of (key_entries key))"
  shows "n \<noteq> VERSION_FIELD \<Longrightarrow> item_after u old n =
      (if n \<in> set (missing_attributes store e v) then None
       else case saved_map e v n of Some x \<Rightarrow> Some x | None \<Rightarrow> base n)"
    and "item_after u old VERSION_FIELD =
      (case base VERSION_FIELD of None \<Rightarrow> Some (JNum (aws_increment options))
       | Some (JNum x) \<Rightarrow> Some (JNum (x + aws_increment options)) | _ \<Rightarrow> None)"
proof -
  note r = set_request [OF assms(1-5)] and f = set_request_fields [OF assms(1-5)]
  note n = set_request_names [OF assms(1-5)]
  note x = set_request_values [OF assms(1-5)]
  let ?stored = "saved_record store e v" and ?missing = "missing_attributes store e v"
  have base: "(case old of Some item \<Rightarrow> item | None \<Rightarrow> map_of (ur_key u)) = base"
    using entity_key_map [OF assms(1,2) keyed_typed [OF assms(4)]] by (simp add: base_def f(2) split: option.split)
  have counter: "clause_name (SetCounter a b c) = a" for a b c by (simp add: clause_name_def)
  have find: "List.find (\<lambda>c. om_get (ur_names u) (clause_name c) = Some n) (ur_set u) =
      (if n = VERSION_FIELD then Some (SetCounter (formatAttributeNameMapKey VERSION_FIELD) '':__startingVersion'' '':__versionIncrement'')
       else if n \<in> fst ` set ?stored then Some (SetValue (formatAttributeNameMapKey n) (formatAttributeValueMapKey n)) else None)" for n
    unfolding f(3) using find_set_value [OF r(5), of "om_get (ur_names u)" formatAttributeNameMapKey n formatAttributeValueMapKey] n
    by (simp add: counter)
  have removed: "Some n \<in> set (map (om_get (ur_names u)) (ur_remove u)) \<longleftrightarrow> n \<in> set ?missing" for n
    using n by (auto simp: f(4))
  have stored: "n \<in> fst ` set ?stored \<longleftrightarrow> saved_map e v n \<noteq> None" for n
    by (simp add: r(4) [symmetric] map_of_eq_None_iff)
  show "n \<noteq> VERSION_FIELD \<Longrightarrow> item_after u old n =
      (if n \<in> set ?missing then None else case saved_map e v n of Some x \<Rightarrow> Some x | None \<Rightarrow> base n)"
    using r(2) x(1) [of n] stored [of n] unfolding item_after_def base Let_def find removed
    by (auto split: option.split)
  show "item_after u old VERSION_FIELD =
      (case base VERSION_FIELD of None \<Rightarrow> Some (JNum (aws_increment options))
       | Some (JNum x) \<Rightarrow> Some (JNum (x + aws_increment options)) | _ \<Rightarrow> None)"
    unfolding item_after_def base Let_def find by (simp add: x(2,3) split: option.split js.split)
qed

end

end
