(* ===== verification/AwsEntityItems.thy ===== *)
theory AwsEntityItems
  imports AwsEntityRequests
begin

text \<open>
  What the operations of the store do to the item of a key: a put leaves an item that holds the value
  under the next version, reading returns the value an item holds, a removal removes the item.
\<close>

section \<open>Items and values\<close>

text \<open>The item of a value of a version: apart from the attributes of the schema it has generated ones only, which are texts.\<close>

definition holds :: "string list \<Rightarrow> entity \<Rightarrow> norm_key \<Rightarrow> js \<Rightarrow> int \<Rightarrow> attributes \<Rightarrow> bool" where
  "holds shape e key v version item \<longleftrightarrow>
     item VERSION_FIELD = Some (JNum version) \<and>
     (\<forall>a \<in> set (own_key_attributes e). item a = map_of (key_entries key) a) \<and>
     (\<forall>a \<in> set shape. item a = entries_of v a) \<and> dom (entries_of v) \<subseteq> set shape \<and>
     (\<forall>a x. item a = Some x \<longrightarrow> a = VERSION_FIELD \<or> a \<in> set shape \<or>
        (a \<in> set (generated_attributes e) \<and> (\<exists>s. x = JStr s \<and> s \<noteq> [])))"

definition item_holds :: "string list \<Rightarrow> entity \<Rightarrow> norm_key \<Rightarrow> entity_item option \<Rightarrow> attributes option \<Rightarrow> bool" where
  "item_holds shape e key i item =
     (case (i, item) of
        (None, None) \<Rightarrow> True
      | (Some i, Some item) \<Rightarrow> 1 \<le> em_version i \<and> holds shape e key (em_value i) (em_version i) item
      | _ \<Rightarrow> False)"

lemma plain_names:
  assumes "plain_entity shape e"
  shows "VERSION_FIELD \<notin> set shape" and "VERSION_FIELD \<notin> set (generated_attributes e)"
    and "set shape \<inter> set (generated_attributes e) = {}" and "VERSION_FIELD \<notin> set (own_key_attributes e)"
proof -
  have "VERSION_FIELD \<in> set reserved_names" by (simp add: VERSION_FIELD_def reserved_names_def)
  then show "VERSION_FIELD \<notin> set shape" "VERSION_FIELD \<notin> set (generated_attributes e)"
    "set shape \<inter> set (generated_attributes e) = {}"
    using assms by (auto simp: plain_entity_def Let_def)
  then show "VERSION_FIELD \<notin> set (own_key_attributes e)" using own_key_in [OF assms] by blast
qed

lemma own_generated_text:
  assumes "plain_entity shape e" and k: "typed_key e key" and a: "a \<in> set (own_key_attributes e)" "a \<notin> set shape"
    and x: "map_of (key_entries key) a = Some x"
  shows "a \<in> set (generated_attributes e) \<and> (\<exists>s. x = JStr s \<and> s \<noteq> [])"
proof -
  have gen: "a \<in> set (generated_attributes e)" using own_key_in [OF assms(1) a(1)] a(2) by blast
  have "typed_key_value p x" if "p \<in> set (key_def_parts (en_key e))" "kp_keyAttribute p = a" for p
  proof -
    have d: "distinct (map fst (key_entries key))" by (rule distinct_key_entries [OF assms(1) k])
    have "\<exists>y. (a, y) \<in> set (key_entries key) \<and> typed_key_value p y"
      using k that typed_key_sort [OF k]
      by (cases "nk_sort key") (auto simp: typed_key_def key_entries_def key_def_parts_def)
    then show ?thesis using d x by (metis map_of_is_SomeI option.inject)
  qed
  moreover obtain p where p: "p \<in> set (key_def_parts (en_key e))" "kp_keyAttribute p = a"
    using a(1) by (auto simp: own_key_attributes_def)
  moreover have "kp_type p = StringKey"
  proof -
    have all: "p \<in> set (all_key_parts e)" using p(1) by (simp add: all_key_parts_def)
    have "1 < length (kp_attributes p)"
    proof (rule ccontr)
      assume "\<not> 1 < length (kp_attributes p)"
      moreover have "kp_attributes p \<noteq> []" "set (kp_attributes p) \<subseteq> set shape"
        "length (kp_attributes p) = 1 \<longrightarrow> kp_keyAttribute p = hd (kp_attributes p)"
        using assms(1) p(1) by (auto simp: plain_entity_def Let_def list_all_iff)
      ultimately show False using p(2) a(2) by (cases "kp_attributes p") auto
    qed
    then show ?thesis using assms(1) all by (auto simp: plain_entity_def Let_def list_all_iff)
  qed
  ultimately have "typed_key_value p x" "kp_type p = StringKey" by blast+
  then show ?thesis using gen by (auto simp: typed_key_value_def typed_value_def split: js.splits)
qed

lemma generated_map_text: "plain_entity shape e \<Longrightarrow> generated_map e v n = Some x \<Longrightarrow> \<exists>s. x = JStr s \<and> s \<noteq> []"
  using generated_texts by (fastforce simp: generated_map_def split: sum.splits)

lemma indexable_generates: "indexable e v \<Longrightarrow> \<exists>g. computeGeneratedIndexKeyAttributes e v = Inr g"
proof -
  assume e: "indexable e v"
  have "\<exists>pss. try_map (index_key_parts v) is = Inr pss" if "list_all (\<lambda>i. \<not> isl (normalizeCompositeKey (ix_key i) v)) is" for "is"
    using that
  proof (induction "is")
    case (Cons i "is")
    then show ?case
      by (cases "normalizeCompositeKey (ix_key i) v") (auto simp: index_key_parts_def)
  qed simp
  then show ?thesis using e by (fastforce simp: indexable_def computeGeneratedIndexKeyAttributes_def)
qed

abbreviation item_place :: "'db aws_store \<Rightarrow> entity \<Rightarrow> norm_key \<Rightarrow> string \<times> attributes" where
  "item_place store e key \<equiv> (aws_tableName store e, map_of (key_entries key))"

context dynamo_items
begin

lemma item_after_version:
  assumes a: "as_dynamo store = ops" "plain_entity (as_shape store (en_name e)) e"
    "conforms (as_shape store (en_name e)) v" "keyed e v key" "createSetRequest store e v key options = Inr u"
    and old: "item_holds (as_shape store (en_name e)) e key i old"
  shows "item_after u old VERSION_FIELD = Some (JNum (version_of i + aws_increment options))"
proof -
  have "dom (map_of (key_entries key)) = set (own_key_attributes e)"
    using key_entries_fst [OF keyed_typed [OF a(4)]] by (simp add: dom_map_of_conv_image_fst flip: set_map)
  then have "map_of (key_entries key) VERSION_FIELD = None" using plain_names(4) [OF a(2)] by blast
  then show ?thesis using set_request_item(2) [OF a, where old = old] old
    by (auto simp: item_holds_def holds_def version_of_def split: option.splits)
qed

lemma item_after_holds:
  assumes a: "as_dynamo store = ops" "plain_entity (as_shape store (en_name e)) e"
    "conforms (as_shape store (en_name e)) v" "keyed e v key" "createSetRequest store e v key options = Inr u"
    and def: "no_undefined v" and old: "item_holds (as_shape store (en_name e)) e key i old"
  shows "holds (as_shape store (en_name e)) e key v (version_of i + aws_increment options) (item_after u old)"
proof -
  let ?shape = "as_shape store (en_name e)"
  let ?base = "case old of Some item \<Rightarrow> item | None \<Rightarrow> map_of (key_entries key)"
  note p = plain_names [OF a(2)] and item = set_request_item [OF a, where old = old] and r = set_request [OF a]
  note kt = keyed_typed [OF a(4)]
  have keys: "dom (map_of (key_entries key)) = set (own_key_attributes e)"
    using key_entries_fst [OF kt] by (simp add: dom_map_of_conv_image_fst flip: set_map)
  have base_own: "?base n = map_of (key_entries key) n" if "n \<in> set (own_key_attributes e)" for n
    using old that by (auto simp: item_holds_def holds_def split: option.splits)
  have missing: "n \<in> set (missing_attributes store e v) \<longleftrightarrow> n \<in> set ?shape \<and> \<not> js_has v n" for n
    by (simp add: missing_attributes_def)
  have own_item: "item_after u old n = map_of (key_entries key) n" if n: "n \<in> set (own_key_attributes e)" for n
  proof -
    have "n \<noteq> VERSION_FIELD" using p(4) n by blast
    moreover have "n \<notin> set (missing_attributes store e v)" using r(7) n by blast
    moreover have "saved_map e v n = None" using n by (simp add: saved_map_def)
    ultimately show ?thesis using item(1) [of n] base_own [OF n] by simp
  qed
  have shape_item: "item_after u old n = entries_of v n" if n: "n \<in> set ?shape" for n
  proof (cases "n \<in> set (own_key_attributes e)")
    case True
    then obtain q where q: "q \<in> set (key_def_parts (en_key e))" "length (kp_attributes q) = 1" "kp_keyAttribute q = n"
      using own_key_in [OF a(2) True] n p(3) by auto
    show ?thesis using own_item [OF True] single_key_value [OF a(2,3,4) q(1,2)] q(3) by simp
  next
    case False
    have ver: "n \<noteq> VERSION_FIELD" using p(1) n by blast
    have "generated_map e v n = None" using generated_map_dom [OF a(3), of e n] n p(3) by (cases "generated_map e v n") auto
    then have saved: "saved_map e v n = entries_of v n" using False by (simp add: saved_map_def map_add_def)
    show ?thesis
    proof (cases "entries_of v n")
      case None
      then have "\<not> js_has v n" using no_undefined_has [OF def] by blast
      then show ?thesis using item(1) [OF ver] missing [of n] n None by simp
    next
      case (Some x)
      then have "js_has v n" using conforms_entries(6) [OF a(3)] by blast
      then show ?thesis using item(1) [OF ver] missing [of n] saved Some by simp
    qed
  qed
  note version = item_after_version [OF a old]
  have rest: "n \<in> set (generated_attributes e) \<and> (\<exists>s. x = JStr s \<and> s \<noteq> [])"
    if x: "item_after u old n = Some x" and n: "n \<noteq> VERSION_FIELD" "n \<notin> set ?shape" for n x
  proof (cases "n \<in> set (own_key_attributes e)")
    case True
    then have "map_of (key_entries key) n = Some x" using own_item x by simp
    from own_generated_text [OF a(2) kt True n(2) this] show ?thesis .
  next
    case False
    have ent: "entries_of v n = None" using conforms_entries(1) [OF a(3), of n] n(2) by (cases "entries_of v n") auto
    have out: "item_after u old n = (case saved_map e v n of Some x \<Rightarrow> Some x | None \<Rightarrow> ?base n)"
      using item(1) [OF n(1)] missing [of n] n(2) by simp
    show ?thesis
    proof (cases "generated_map e v n")
      case (Some y)
      then have "x = y" using out x False ent by (simp add: saved_map_def map_add_def)
      then show ?thesis using generated_map_dom [OF a(3) Some] generated_map_text [OF a(2) Some] by simp
    next
      case None
      then have "?base n = Some x" using out x False ent by (simp add: saved_map_def map_add_def)
      then show ?thesis using old False keys n
        by (auto simp: item_holds_def holds_def domIff split: option.splits)
    qed
  qed
  have "dom (entries_of v) \<subseteq> set ?shape" using conforms_entries(1) [OF a(3)] by blast
  then show ?thesis using version own_item shape_item rest by (auto simp: holds_def)
qed

lemma put_condition:
  assumes "as_dynamo store = ops" and "plain_entity (as_shape store (en_name e)) e"
    and "conforms (as_shape store (en_name e)) v" and "keyed e v key" and "createSetRequest store e v key options = Inr u"
    and old: "item_holds (as_shape store (en_name e)) e key i old"
  shows "request_met (WriteUpdate u) old \<longleftrightarrow> expected (po_expectedVersion options) i"
proof -
  have "om_get (ur_names u) (formatAttributeNameMapKey VERSION_FIELD) = Some VERSION_FIELD"
    using set_request_names [OF assms(1-5)] by simp
  then show ?thesis
    using old set_request_fields(7) [OF assms(1-5)] set_request_values(4) [OF assms(1-5)]
    by (auto simp: condition_holds_for_def expected_def version_of_def item_holds_def holds_def split: option.splits)
qed

lemma put_request_result:
  assumes a: "as_dynamo store = ops" "plain_entity (as_shape store (en_name e)) e"
    "conforms (as_shape store (en_name e)) v" "keyed e v key" and u: "createSetRequest store e v key options = Inr u"
    and key: "sc_key (schema (aws_tableName store e)) (map_of (key_entries key))"
    and accepted: "sc_item (schema (aws_tableName store e)) (item_after u (items db (item_place store e key)))"
    and old: "item_holds (as_shape store (en_name e)) e key i (items db (item_place store e key))"
  shows "if expected (po_expectedVersion options) i
    then \<exists>db'. aws_put store e v key options db = (db', Inr (version_of i + aws_increment options)) \<and>
      items db' = (items db)(item_place store e key \<mapsto> item_after u (items db (item_place store e key)))
    else aws_put store e v key options db = (db, Inl (mk_UnexpectedVersion ''Unexpected Version''))"
proof -
  note f = set_request_fields [OF a u]
  have at: "request_place (WriteUpdate u) = item_place store e key"
    using entity_key_map [OF a(1,2) keyed_typed [OF a(4)]] by (simp add: f(1,2))
  have valid: "request_valid schema (WriteUpdate u) (items db (request_place (WriteUpdate u)))"
    using set_request_valid [OF a u] key accepted at by simp
  have put: "aws_put store e v key options db =
      (case ed_updateItem ops u db of
         (db', Inr record) \<Rightarrow> (db', case map_of record VERSION_FIELD of Some (JNum n) \<Rightarrow> Inr n | _ \<Rightarrow> Inl undefined_N)
       | (db', Inl err) \<Rightarrow>
           (db', Inl (if err = ConditionalCheckFailedException then mk_UnexpectedVersion ''Unexpected Version''
             else thrown_error err)))"
    by (simp add: aws_put_def u a(1) act_lift_bind)
  note version = item_after_version [OF a u old]
  show ?thesis
  proof (cases "expected (po_expectedVersion options) i")
    case True
    then have "request_met (WriteUpdate u) (items db (request_place (WriteUpdate u)))"
      using put_condition [OF a u old] at by simp
    with update [OF valid] obtain db' es where db': "ed_updateItem ops u db = (db', Inr es)"
      "items db' = write_effect (WriteUpdate u) (items db)" "map_of es = item_after u (items db (item_place store e key))"
      unfolding at by auto
    then have "aws_put store e v key options db = (db', Inr (version_of i + aws_increment options))"
      using version by (simp add: put)
    moreover have "items db' = (items db)(item_place store e key \<mapsto> item_after u (items db (item_place store e key)))"
      unfolding db'(2) write_effect_def at by simp
    ultimately show ?thesis using True by auto
  next
    case False
    then have "\<not> request_met (WriteUpdate u) (items db (request_place (WriteUpdate u)))"
      using put_condition [OF a u old] at by simp
    with update [OF valid] have "ed_updateItem ops u db = (db, Inl ConditionalCheckFailedException)" by simp
    then show ?thesis using False by (simp add: put)
  qed
qed

lemma put_result:
  assumes a: "as_dynamo store = ops" "plain_entity (as_shape store (en_name e)) e"
    "conforms (as_shape store (en_name e)) v" "keyed e v key"
    and v: "no_undefined v" "indexable e v"
    and key: "sc_key (schema (aws_tableName store e)) (map_of (key_entries key))"
    and accepted: "\<forall>n item. holds (as_shape store (en_name e)) e key v n item \<longrightarrow> sc_item (schema (aws_tableName store e)) item"
    and old: "item_holds (as_shape store (en_name e)) e key i (items db (item_place store e key))"
  shows "if expected (po_expectedVersion options) i
    then \<exists>db' item. aws_put store e v key options db = (db', Inr (version_of i + aws_increment options)) \<and>
      items db' = (items db)(item_place store e key \<mapsto> item) \<and>
      holds (as_shape store (en_name e)) e key v (version_of i + aws_increment options) item
    else aws_put store e v key options db = (db, Inl (mk_UnexpectedVersion ''Unexpected Version''))"
proof -
  obtain u where u: "createSetRequest store e v key options = Inr u"
    using indexable_generates [OF v(2)] by (auto simp: createSetRequest_def Let_def)
  note after = item_after_holds [OF a u v(1) old]
  show ?thesis using put_request_result [OF a u key accepted [rule_format, OF after] old] after by (simp split: if_splits) blast
qed

lemma get_result:
  assumes "as_dynamo store = ops" and plain: "plain_entity (as_shape store (en_name e)) e" and "typed_key e key"
    and "sc_key (schema (aws_tableName store e)) (map_of (key_entries key))"
    and old: "item_holds (as_shape store (en_name e)) e key i (items db (item_place store e key))"
  shows "\<exists>r. aws_getWithMetadata store e key db = (db, Inr r) \<and>
    map_option (\<lambda>(v, n). (entries_of v, n)) r = map_option (\<lambda>i. (entries_of (em_value i), JNum (em_version i))) i"
proof -
  have at: "map_of (entityKey store key) = map_of (key_entries key)" by (rule entity_key_map [OF assms(1-3)])
  from get [of "aws_tableName store e" "entityKey store key" db] assms(4) obtain r where
    r: "ed_getItem ops (aws_tableName store e) (entityKey store key) db = Inr r" "map_option map_of r = items db (item_place store e key)"
    unfolding at by blast
  show ?thesis
  proof (cases i)
    case None
    then have "r = None" using old r(2) by (auto simp: item_holds_def split: option.splits)
    then show ?thesis using r(1) None by (simp add: aws_getWithMetadata_def assms(1))
  next
    case (Some j)
    then obtain item where item: "r = Some item" "holds (as_shape store (en_name e)) e key (em_value j) (em_version j) (map_of item)"
      using old r(2) by (auto simp: item_holds_def split: option.splits)
    note p = plain_names [OF plain]
    have own: "own_entries (ed_unmarshall ops item) = item" by (rule unmarshall)
    have rest: "map_of (filter (\<lambda>(a, x). a \<notin> set (generated_attributes e)) (filter (\<lambda>(k, v). k \<noteq> VERSION_FIELD) item)) n =
        entries_of (em_value j) n" for n
    proof (cases "n \<in> set (as_shape store (en_name e))")
      case True
      then show ?thesis using item(2) p(1,3) unfolding map_of_filter_fst by (auto simp: holds_def)
    next
      case False
      then have "entries_of (em_value j) n = None" using item(2) by (auto simp: holds_def)
      then show ?thesis using False item(2) unfolding map_of_filter_fst by (cases "map_of item n") (auto simp: holds_def)
    qed
    have "entries_of (fst (item_with_metadata store e item)) = entries_of (em_value j)"
    proof
      fix n
      have "own_entries (fst (item_with_metadata store e item)) =
          filter (\<lambda>(a, x). a \<notin> set (generated_attributes e)) (filter (\<lambda>(k, v). k \<noteq> VERSION_FIELD) item)"
        by (simp add: item_with_metadata_def Let_def removeGeneratedKeyAttributes_def removeKeyAttributes_def own assms(1)
            generated_attributes_def all_key_parts_def)
      then have own': "map_of (own_entries (fst (item_with_metadata store e item))) n = entries_of (em_value j) n" using rest by simp
      show "entries_of (fst (item_with_metadata store e item)) n = entries_of (em_value j) n"
        by (subst entries_of_def) (auto simp: own' entries_of_def split: option.splits)
    qed
    moreover have "snd (item_with_metadata store e item) = JNum (em_version j)"
      using item(2) by (simp add: item_with_metadata_def Let_def own assms(1) js_get_def holds_def)
    ultimately show ?thesis using r(1) Some item(1)
      by (cases "item_with_metadata store e item") (simp add: aws_getWithMetadata_def assms(1))
  qed
qed

text \<open>A removal without a condition.\<close>

lemma delete_result:
  assumes "as_dynamo store = ops" and "plain_entity (as_shape store (en_name e)) e" and "typed_key e key"
    and "sc_key (schema (aws_tableName store e)) (map_of (key_entries key))"
  shows "\<exists>db'. aws_delete store e key None db = (db', Inr ()) \<and> items db' = (items db)(item_place store e key := None)"
proof -
  define r where "r = createDeleteRequest store e key None"
  have at: "map_of (entityKey store key) = map_of (key_entries key)" by (rule entity_key_map [OF assms(1-3)])
  have "request_valid schema (WriteDelete r) (items db (request_place (WriteDelete r)))"
    "request_met (WriteDelete r) (items db (request_place (WriteDelete r)))"
    using assms(4) by (simp_all add: r_def createDeleteRequest_def item_request_valid_def condition_defined_def
        condition_names_def condition_values_def at condition_holds_for_def)
  with delete obtain db' where "ed_deleteItem ops r db = (db', None)" "items db' = write_effect (WriteDelete r) (items db)" by meson
  then show ?thesis using assms(1) at
    by (auto simp: aws_delete_def r_def write_effect_def createDeleteRequest_def)
qed

end

end
