(* ===== verification/AwsEntityAgreement.thy ===== *)
theory AwsEntityAgreement
  imports AwsEntityItems
begin

text \<open>
  The store on DynamoDB and the store of the local runtime, as a client sees them: a simulation.
\<close>

section \<open>What a client sees\<close>

datatype entity_action =
    GetItem norm_key
  | PutItem norm_key js put_options
  | DeleteItem norm_key

text \<open>A value is seen through its attributes, an error through its class.\<close>

datatype entity_answer =
    Got "(attributes \<times> js) option"
  | Wrote int
  | Removed
  | Threw "error_class option"

definition thrown_class :: "js \<Rightarrow> error_class option" where
  "thrown_class err = (case err of JErr c n m \<Rightarrow> Some c | _ \<Rightarrow> None)"

fun local_answer :: "entity \<Rightarrow> entity_action \<Rightarrow> local_store \<Rightarrow> local_store \<times> entity_answer" where
  "local_answer e (GetItem key) st =
     (case getWithMetadataSync e key st of
        (st', r) \<Rightarrow> (st', Got (map_option (\<lambda>i. (entries_of (em_value i), JNum (em_version i))) r)))"
| "local_answer e (PutItem key v options) st =
     (case putSync e v key options st of
        (st', Inr n) \<Rightarrow> (st', Wrote n) | (st', Inl err) \<Rightarrow> (st', Threw (thrown_class err)))"
| "local_answer e (DeleteItem key) st =
     (case deleteSync e key None st of
        (st', Inr _) \<Rightarrow> (st', Removed) | (st', Inl err) \<Rightarrow> (st', Threw (thrown_class err)))"

fun aws_answer :: "'db aws_store \<Rightarrow> entity \<Rightarrow> entity_action \<Rightarrow> 'db \<Rightarrow> 'db \<times> entity_answer" where
  "aws_answer store e (GetItem key) db =
     (case aws_getWithMetadata store e key db of
        (db', Inr r) \<Rightarrow> (db', Got (map_option (\<lambda>(v, n). (entries_of v, n)) r))
      | (db', Inl err) \<Rightarrow> (db', Threw (thrown_class err)))"
| "aws_answer store e (PutItem key v options) db =
     (case aws_put store e v key options db of
        (db', Inr n) \<Rightarrow> (db', Wrote n) | (db', Inl err) \<Rightarrow> (db', Threw (thrown_class err)))"
| "aws_answer store e (DeleteItem key) db =
     (case aws_delete store e key None db of
        (db', Inr _) \<Rightarrow> (db', Removed) | (db', Inl err) \<Rightarrow> (db', Threw (thrown_class err)))"

fun answers :: "('a \<Rightarrow> 's \<Rightarrow> 's \<times> 'r) \<Rightarrow> 'a list \<Rightarrow> 's \<Rightarrow> 'r list" where
  "answers step [] s = []"
| "answers step (a # as) s = (case step a s of (s', r) \<Rightarrow> r # answers step as s')"

definition action_ok :: "(js \<Rightarrow> bool) \<Rightarrow> string list \<Rightarrow> entity \<Rightarrow> entity_action \<Rightarrow> bool" where
  "action_ok admits shape e a =
     (case a of
        GetItem key \<Rightarrow> typed_key e key
      | DeleteItem key \<Rightarrow> typed_key e key
      | PutItem key v options \<Rightarrow> keyed e v key \<and> conforms shape v \<and> no_undefined v \<and> indexable e v \<and> admits v \<and>
          po_incrementVersion options \<noteq> Some False)"

definition mirrors :: "('db \<Rightarrow> tables) \<Rightarrow> 'db aws_store \<Rightarrow> entity \<Rightarrow> local_store \<Rightarrow> 'db \<Rightarrow> bool" where
  "mirrors items store e st db \<longleftrightarrow>
     (\<forall>key. typed_key e key \<longrightarrow>
        item_holds (as_shape store (en_name e)) e key (data st e (table_key key))
          (items db (aws_tableName store e, map_of (key_entries key))) \<and>
        (\<forall>i. data st e (table_key key) = Some i \<longrightarrow> indexable e (em_value i)))"

text \<open>The table has the key of the entity and takes the items of admitted values.\<close>

definition table_for :: "(string \<Rightarrow> table_schema) \<Rightarrow> (js \<Rightarrow> bool) \<Rightarrow> 'db aws_store \<Rightarrow> entity \<Rightarrow> bool" where
  "table_for schema admits store e \<longleftrightarrow>
     (\<forall>key. typed_key e key \<longrightarrow> sc_key (schema (aws_tableName store e)) (map_of (key_entries key))) \<and>
     (\<forall>key v n item. admits v \<longrightarrow> holds (as_shape store (en_name e)) e key v n item \<longrightarrow>
        sc_item (schema (aws_tableName store e)) item)"

lemma mirrors_changed:
  assumes m: "mirrors items store e st db" and plain: "plain_entity shape e" and key: "typed_key e key"
    and st': "data st' e = (data st e)(table_key key := i)"
    and db': "items db' = (items db)((aws_tableName store e, map_of (key_entries key)) := x)"
    and at: "item_holds (as_shape store (en_name e)) e key i x" and ix: "\<And>j. i = Some j \<Longrightarrow> indexable e (em_value j)"
  shows "mirrors items store e st' db'"
  unfolding mirrors_def
proof (intro allI impI conjI)
  fix k j assume k: "typed_key e k"
  note same = table_key_entries [OF plain k key]
  have "item_holds (as_shape store (en_name e)) e k i x" if "table_key k = table_key key"
    using at that same by (simp add: item_holds_def holds_def split: option.splits)
  then show "item_holds (as_shape store (en_name e)) e k (data st' e (table_key k))
      (items db' (aws_tableName store e, map_of (key_entries k)))"
    using m k same by (auto simp: st' db' mirrors_def)
  show "indexable e (em_value j)" if "data st' e (table_key k) = Some j"
    using m k that ix by (auto simp: st' mirrors_def split: if_splits)
qed

context dynamo_items
begin

lemma answers_agree:
  assumes ops: "as_dynamo store = ops" and plain: "plain_entity (as_shape store (en_name e)) e"
    and table: "table_for schema admits store e" and ok: "action_ok admits (as_shape store (en_name e)) e a"
    and m: "mirrors items store e st db"
  shows "\<exists>st' db' r. local_answer e a st = (st', r) \<and> aws_answer store e a db = (db', r) \<and> mirrors items store e st' db'"
proof (cases a)
  case (GetItem key)
  have key: "typed_key e key" using ok GetItem by (simp add: action_ok_def)
  then have h: "item_holds (as_shape store (en_name e)) e key (data st e (table_key key)) (items db (item_place store e key))"
    and sc: "sc_key (schema (aws_tableName store e)) (map_of (key_entries key))"
    using m table by (simp_all add: mirrors_def table_for_def)
  obtain st' i where st': "getWithMetadataSync e key st = (st', i)" by (cases "getWithMetadataSync e key st")
  from getWithMetadataSync_entries [OF st'] have "i = data st e (table_key key)" "data st' e = data st e"
    by (simp_all add: same_entries_def)
  then show ?thesis using get_result [OF ops plain key sc h] m st' by (auto simp: GetItem mirrors_def)
next
  case (DeleteItem key)
  have key: "typed_key e key" using ok DeleteItem by (simp add: action_ok_def)
  then have sc: "sc_key (schema (aws_tableName store e)) (map_of (key_entries key))" using table by (simp add: table_for_def)
  from delete_result [OF ops plain key sc] obtain db' where
    db': "aws_delete store e key None db = (db', Inr ())" "items db' = (items db)(item_place store e key := None)" by blast
  have "\<exists>st'. deleteSync e key None st = (st', Inr ()) \<and> data st' e = (data st e)(table_key key := None)"
  proof (cases "data st e (table_key key)")
    case None
    then show ?thesis using deleteSync_missing [OF None, of None] by (auto simp: same_entries_def fun_upd_idem)
  next
    case (Some i)
    obtain st' r where st': "deleteSync e key None st = (st', r)" by (cases "deleteSync e key None st")
    have "indexable e (em_value i)" using m key Some by (simp add: mirrors_def)
    then show ?thesis using deleteSync_expected [OF Some _ st'] st' by auto
  qed
  then obtain st' where st': "deleteSync e key None st = (st', Inr ())" "data st' e = (data st e)(table_key key := None)" by blast
  have "mirrors items store e st' db'"
    by (rule mirrors_changed [OF m plain key st'(2) db'(2)]) (simp_all add: item_holds_def)
  then show ?thesis using db'(1) st'(1) by (simp add: DeleteItem)
next
  case (PutItem key v options)
  have a: "keyed e v key" "conforms (as_shape store (en_name e)) v" "no_undefined v" "indexable e v" "admits v"
    "aws_increment options = 1" "po_incrementVersion options \<noteq> Some False"
    using ok by (simp_all add: PutItem action_ok_def aws_increment_def)
  let ?i = "data st e (table_key key)"
  note key = keyed_typed [OF a(1)]
  have h: "item_holds (as_shape store (en_name e)) e key ?i (items db (item_place store e key))"
    and sc: "sc_key (schema (aws_tableName store e)) (map_of (key_entries key))"
    and ix: "\<And>j. ?i = Some j \<Longrightarrow> indexable e (em_value j)"
    using m table key by (simp_all add: mirrors_def table_for_def)
  have acc: "\<forall>n item. holds (as_shape store (en_name e)) e key v n item \<longrightarrow> sc_item (schema (aws_tableName store e)) item"
    using table a(5) by (auto simp: table_for_def)
  note put = put_result [OF ops plain a(2,1,3,4) sc acc h, where options = options]
  have new: "new_version options ?i = version_of ?i + 1" using a(7) by (simp add: new_version_def)
  show ?thesis
  proof (cases "expected (po_expectedVersion options) ?i")
    case True
    with put obtain db' item where db': "aws_put store e v key options db = (db', Inr (version_of ?i + 1))"
      "items db' = (items db)(item_place store e key \<mapsto> item)"
      "holds (as_shape store (en_name e)) e key v (version_of ?i + 1) item" by (auto simp: a(6))
    obtain st' where st': "putSync e v key options st = (st', Inr (version_of ?i + 1))"
      using putSync_returns [OF True a(4) ix] new by auto
    have d: "data st' e = (data st e)(table_key key \<mapsto> \<lparr>em_value = v, em_version = version_of ?i + 1\<rparr>)"
      using putSync_expected(1) [OF True st'] new by simp
    have "0 \<le> version_of ?i" using h by (auto simp: item_holds_def version_of_def split: option.splits)
    then have "mirrors items store e st' db'"
      by (intro mirrors_changed [OF m plain key d db'(2)]) (use a(4) db'(3) in \<open>auto simp: item_holds_def\<close>)
    then show ?thesis using db'(1) st' by (simp add: PutItem)
  next
    case False
    then obtain st' msg where st': "putSync e v key options st = (st', Inl (mk_UnexpectedVersion msg))" "same_entries st st'"
      using putSync_unexpected [OF False] by blast
    have "aws_put store e v key options db = (db, Inl (mk_UnexpectedVersion ''Unexpected Version''))" using put False by simp
    moreover have "mirrors items store e st' db" using m st'(2) by (simp add: mirrors_def same_entries_def)
    ultimately show ?thesis using st'(1) by (simp add: PutItem thrown_class_def mk_UnexpectedVersion_def)
  qed
qed

lemma all_answers_agree:
  assumes "as_dynamo store = ops" and "plain_entity (as_shape store (en_name e)) e" and "table_for schema admits store e"
    and "list_all (action_ok admits (as_shape store (en_name e)) e) actions" and "mirrors items store e st db"
  shows "answers (aws_answer store e) actions db = answers (local_answer e) actions st"
  using assms(4,5)
proof (induction actions arbitrary: st db)
  case (Cons a actions)
  from Cons.prems have "action_ok admits (as_shape store (en_name e)) e a" by simp
  from answers_agree [OF assms(1-3) this Cons.prems(2)] obtain st' db' r where
    "local_answer e a st = (st', r)" "aws_answer store e a db = (db', r)" "mirrors items store e st' db'" by blast
  then show ?case using Cons by simp
qed simp

end

end
