(* ===== verification/AwsEntityMemory.thy ===== *)
theory AwsEntityMemory
  imports AwsEntityAgreement
begin

text \<open>
  DynamoDB in memory: a model of the locale \<open>dynamo_items\<close>.
\<close>

section \<open>A database in memory\<close>

type_synonym memory_db = "string \<times> attributes \<Rightarrow> dynamo_item option"

definition memory_items :: "memory_db \<Rightarrow> tables" where
  "memory_items db p = map_option map_of (db p)"

definition entries_list :: "string list \<Rightarrow> attributes \<Rightarrow> dynamo_item" where
  "entries_list names f = concat (map (\<lambda>n. case f n of None \<Rightarrow> [] | Some x \<Rightarrow> [(n, x)]) (remdups names))"

lemma map_of_entries_list: "map_of (entries_list names f) = f |` set names"
proof -
  have "map_of (concat (map (\<lambda>n. case f n of None \<Rightarrow> [] | Some x \<Rightarrow> [(n, x)]) ns)) = f |` set ns" if "distinct ns" for ns
    using that
  proof (induction ns)
    case (Cons n ns)
    then have "(f |` set ns) n = None" by simp
    then show ?case using Cons by (auto simp: fun_eq_iff restrict_map_def map_add_def split: option.splits)
  qed simp
  from this [OF distinct_remdups] show ?thesis by (simp add: entries_list_def)
qed

lemma distinct_entries_list: "distinct (map fst (entries_list names f))"
proof -
  have "distinct (map fst (concat (map (\<lambda>n. case f n of None \<Rightarrow> [] | Some x \<Rightarrow> [(n, x)]) ns)))" if "distinct ns" for ns
    using that by (induction ns) (auto split: option.splits)
  from this [OF distinct_remdups] show ?thesis by (simp add: entries_list_def)
qed

definition list_after :: "update_request \<Rightarrow> dynamo_item option \<Rightarrow> dynamo_item" where
  "list_after u old = entries_list
     (map fst (ur_key u) @ (case old of None \<Rightarrow> [] | Some item \<Rightarrow> map fst item) @ concat (map (\<lambda>p. case p of None \<Rightarrow> [] | Some n \<Rightarrow> [n]) (update_paths u)))
     (item_after u (map_option map_of old))"

lemma map_of_list_after: "map_of (list_after u old) = item_after u (map_option map_of old)"
proof -
  have "n \<in> set (map fst (ur_key u) @ (case old of None \<Rightarrow> [] | Some item \<Rightarrow> map fst item) @
      concat (map (\<lambda>p. case p of None \<Rightarrow> [] | Some n \<Rightarrow> [n]) (update_paths u)))"
    if x: "item_after u (map_option map_of old) n = Some x" for n x
  proof (cases "List.find (\<lambda>c. om_get (ur_names u) (clause_name c) = Some n) (ur_set u)")
    case None
    then have "(case old of None \<Rightarrow> map_of (ur_key u) | Some item \<Rightarrow> map_of item) n = Some x"
      using x by (auto simp: item_after_def Let_def split: if_splits option.splits)
    then show ?thesis by (force split: option.splits dest: map_of_SomeD)
  next
    case (Some c)
    then have "c \<in> set (ur_set u)" "om_get (ur_names u) (clause_name c) = Some n"
      by (auto simp: find_Some_iff)
    then have "Some n \<in> set (update_paths u)" by (force simp: update_paths_def)
    then show ?thesis by force
  qed
  then show ?thesis
    unfolding list_after_def map_of_entries_list restrict_map_def by (intro ext) (metis option.exhaust)
qed

fun memory_write :: "write_request \<Rightarrow> memory_db \<Rightarrow> memory_db" where
  "memory_write (WriteUpdate u) db = db(request_place (WriteUpdate u) \<mapsto> list_after u (db (request_place (WriteUpdate u))))"
| "memory_write (WriteDelete r) db = db(request_place (WriteDelete r) := None)"
| "memory_write (WriteConditionCheck r) db = db"

lemma memory_write_items: "memory_items (memory_write r db) = write_effect r (memory_items db)"
  by (rule ext, cases r) (auto simp: write_effect_def memory_items_def map_of_list_after)

definition memory_met :: "memory_db \<Rightarrow> write_request \<Rightarrow> bool" where
  "memory_met db r = request_met r (memory_items db (request_place r))"

definition memory_dynamo :: "memory_db entity_dynamo" where
  "memory_dynamo =
     \<lparr>ed_marshall = (\<lambda>v. entries_list (map fst (own_entries v)) (entries_of v)),
      ed_unmarshall = JObj,
      ed_getItem = (\<lambda>t k db. Inr (db (t, map_of k))),
      ed_updateItem = (\<lambda>u db. if memory_met db (WriteUpdate u)
        then (memory_write (WriteUpdate u) db, Inr (list_after u (db (request_place (WriteUpdate u)))))
        else (db, Inl ConditionalCheckFailedException)),
      ed_deleteItem = (\<lambda>r db. if memory_met db (WriteDelete r) then (memory_write (WriteDelete r) db, None)
        else (db, Some ConditionalCheckFailedException)),
      ed_transactWriteItems = (\<lambda>rs db. if list_all (memory_met db) rs then (fold memory_write rs db, None)
        else (db, Some (TransactionCanceledException
          (map (\<lambda>r. if memory_met db r then ''None'' else ''ConditionalCheckFailed'') rs))))\<rparr>"

definition any_schema :: "string \<Rightarrow> table_schema" where
  "any_schema t = \<lparr>sc_key = (\<lambda>k. True), sc_item = (\<lambda>i. True)\<rparr>"

lemma memory_writes_items: "memory_items (fold memory_write rs db) = fold write_effect rs (memory_items db)"
  by (induction rs arbitrary: db) (simp_all add: memory_write_items)

interpretation memory_dynamo: dynamo_items memory_dynamo any_schema memory_items
proof unfold_locales
  fix v
  show "map_of (ed_marshall memory_dynamo v) = entries_of v \<and> distinct (map fst (ed_marshall memory_dynamo v))"
  proof -
    have "entries_of v n = None" if "n \<notin> fst ` set (own_entries v)" for n
      using that by (simp add: entries_of_def map_of_eq_None_iff [THEN iffD2])
    then show ?thesis by (auto simp: memory_dynamo_def map_of_entries_list distinct_entries_list fun_eq_iff restrict_map_def)
  qed
next
  fix u and db :: memory_db
  show "if request_met (WriteUpdate u) (memory_items db (request_place (WriteUpdate u)))
    then \<exists>db' es. ed_updateItem memory_dynamo u db = (db', Inr es) \<and> memory_items db' = write_effect (WriteUpdate u) (memory_items db) \<and>
      map_of es = item_after u (memory_items db (request_place (WriteUpdate u)))
    else ed_updateItem memory_dynamo u db = (db, Inl ConditionalCheckFailedException)"
    using memory_write_items [of "WriteUpdate u" db]
    by (simp add: memory_dynamo_def memory_met_def map_of_list_after memory_items_def)
next
  fix r and db :: memory_db
  show "if request_met (WriteDelete r) (memory_items db (request_place (WriteDelete r)))
    then \<exists>db'. ed_deleteItem memory_dynamo r db = (db', None) \<and> memory_items db' = write_effect (WriteDelete r) (memory_items db)
    else ed_deleteItem memory_dynamo r db = (db, Some ConditionalCheckFailedException)"
    using memory_write_items [of "WriteDelete r" db] by (simp add: memory_dynamo_def memory_met_def)
next
  fix rs and db :: memory_db
  show "if list_all (\<lambda>r. request_met r (memory_items db (request_place r))) rs
    then \<exists>db'. ed_transactWriteItems memory_dynamo rs db = (db', None) \<and> memory_items db' = fold write_effect rs (memory_items db)
    else ed_transactWriteItems memory_dynamo rs db = (db, Some (TransactionCanceledException
      (map (\<lambda>r. if request_met r (memory_items db (request_place r)) then ''None'' else ''ConditionalCheckFailed'') rs)))"
    using memory_writes_items [of rs db] by (simp add: memory_dynamo_def memory_met_def [abs_def])
qed (auto simp: memory_dynamo_def memory_items_def)

end
