(* ===== verification/AwsEntityProperties.thy ===== *)
theory AwsEntityProperties
  imports AwsEntityAgreement AwsEntityMemory
begin

text \<open>
  What clients of the store on DynamoDB can rely on, and where it differs from the local store.
\<close>

section \<open>Properties\<close>


definition user_shape :: "string list" where
  "user_shape = [''id'', ''team'', ''level'', ''note'']"

definition user_entity :: entity where
  "user_entity = \<lparr>en_name = ''user'',
     en_key = \<lparr>kd_partition = \<lparr>kp_type = StringKey, kp_attributes = [''id''], kp_keyAttribute = ''id''\<rparr>, kd_sort = None\<rparr>,
     en_indices = [\<lparr>ix_name = ''byTeam'', ix_key = \<lparr>kd_partition = \<lparr>kp_type = StringKey,
       kp_attributes = [''team'', ''level''], kp_keyAttribute = ''team|level''\<rparr>, kd_sort = None\<rparr>\<rparr>]\<rparr>"

definition user_store :: "memory_db aws_store" where
  "user_store = \<lparr>as_dynamo = memory_dynamo, as_serviceName = ''app'', as_shape = (\<lambda>_. user_shape)\<rparr>"

definition user_key :: "string \<Rightarrow> norm_key" where
  "user_key i = \<lparr>nk_partition = \<lparr>np_part = kd_partition (en_key user_entity), np_parts = [(''id'', JStr i)],
     np_keyValue = JStr i, np_partialValue = False\<rparr>, nk_sort = None\<rparr>"

lemma plain_user: "plain_entity user_shape user_entity"
  by code_simp

lemma user_table: "table_for any_schema (\<lambda>_. True) user_store user_entity"
  by (simp add: table_for_def any_schema_def)

lemma user_mirrors: "mirrors memory_items user_store user_entity empty_local_store (\<lambda>_. None)"
  by (simp add: mirrors_def memory_items_def item_holds_def table_of_def local_entity_of_def empty_local_store_def
      empty_local_entity_def entry_def om_get_def the_default_def user_entity_def)

definition user_value :: "(string \<times> js) list \<Rightarrow> js" where
  "user_value fs = JObj ((''id'', JStr ''a'') # (''team'', JStr ''x'') # fs)"

definition user_actions :: "entity_action list" where
  "user_actions =
     [PutItem (user_key ''a'') (user_value [(''level'', JNum 2)]) no_options,
      PutItem (user_key ''a'') (user_value [(''note'', JStr ''n'')]) \<lparr>po_expectedVersion = Some 0, po_incrementVersion = None\<rparr>,
      PutItem (user_key ''a'') (user_value [(''note'', JStr ''n'')]) \<lparr>po_expectedVersion = Some 1, po_incrementVersion = None\<rparr>,
      GetItem (user_key ''a''), DeleteItem (user_key ''a''), GetItem (user_key ''a'')]"

lemma user_actions_ok: "list_all (action_ok (\<lambda>_. True) user_shape user_entity) user_actions"
  by code_simp


text \<open>Attributes that a put should change and does not.\<close>

definition left_behind :: "string list \<Rightarrow> entity \<Rightarrow> js \<Rightarrow> string \<Rightarrow> bool" where
  "left_behind shape e v a \<longleftrightarrow>
     a \<in> set shape \<and> js_has v a \<and> js_get v a = JUndef \<or>
     a \<in> set (generated_attributes e) \<and> a \<notin> set (own_key_attributes e) \<and> generated_map e v a = None"

lemma left_behind_not_saved:
  assumes plain: "plain_entity shape e" and v: "conforms shape v" and k: "keyed e v key" and a: "left_behind shape e v a"
  shows "saved_map e v a = None" and "a \<noteq> VERSION_FIELD" and "\<not> (a \<in> set shape \<and> \<not> js_has v a)"
proof -
  note p = plain_names [OF plain]
  show "a \<noteq> VERSION_FIELD" "\<not> (a \<in> set shape \<and> \<not> js_has v a)" using a p by (auto simp: left_behind_def)
  show "saved_map e v a = None"
  proof (cases "a \<in> set shape")
    case True
    then have "js_get v a = JUndef" using a p(3) by (auto simp: left_behind_def)
    then have "entries_of v a = None" by (auto simp: entries_of_def js_get_def split: option.splits)
    moreover have "generated_map e v a = None"
      using generated_map_dom [OF v, of e a] True p(3) by (cases "generated_map e v a") auto
    ultimately show ?thesis by (simp add: saved_map_def map_add_def)
  next
    case False
    then have "entries_of v a = None" using conforms_entries(1) [OF v, of a] by (cases "entries_of v a") auto
    then show ?thesis using a False by (auto simp: saved_map_def map_add_def left_behind_def)
  qed
qed

text \<open>
  C38 (error): on DynamoDB a put does not remove what it should from an item. An attribute that is
  given as undefined keeps its old value, and a generated index key that the new value does not have
  keeps the old one, so that the item stays in a partition of the index it no longer belongs to. The
  local store replaces the value.
\<close>

theorem aws_put_leaves_attributes:
  assumes "dynamo_items ops schema items" and "as_dynamo store = ops" and "plain_entity (as_shape store (en_name e)) e"
    and "conforms (as_shape store (en_name e)) v" and "keyed e v key" and "indexable e v"
    and "sc_key (schema (aws_tableName store e)) (map_of (key_entries key))"
    and "\<forall>item. sc_item (schema (aws_tableName store e)) item"
    and "items db (aws_tableName store e, map_of (key_entries key)) = Some item"
    and "1 \<le> n" and "holds (as_shape store (en_name e)) e key old n item"
    and "left_behind (as_shape store (en_name e)) e v a"
  shows "\<exists>db' item'. aws_put store e v key no_options db = (db', Inr (n + 1)) \<and>
    items db' (aws_tableName store e, map_of (key_entries key)) = Some item' \<and> item' a = item a"
proof -
  obtain u where u: "createSetRequest store e v key no_options = Inr u"
    using indexable_generates [OF assms(6)] by (auto simp: createSetRequest_def Let_def)
  have at: "item_holds (as_shape store (en_name e)) e key (Some \<lparr>em_value = old, em_version = n\<rparr>)
      (items db (aws_tableName store e, map_of (key_entries key)))"
    using assms(9-11) by (simp add: item_holds_def)
  note saved = left_behind_not_saved [OF assms(3-5,12)]
  have "item_after u (Some item) a = item a"
    using dynamo_items.set_request_item(1) [OF assms(1-5) u saved(2), of "Some item"] saved(1,3)
    by (simp add: missing_attributes_def)
  moreover from dynamo_items.put_request_result [OF assms(1-5) u assms(7) _ at] assms(8,9) obtain db' where
    "aws_put store e v key no_options db = (db', Inr (n + 1))"
    "items db' = (items db)((aws_tableName store e, map_of (key_entries key)) \<mapsto> item_after u (Some item))"
    by (auto simp: expected_def no_options_def version_of_def aws_increment_def)
  ultimately show ?thesis by auto
qed

lemma user_keyed:
  "keyed user_entity (user_value fs) (user_key ''a'')"
  by (simp add: keyed_def user_entity_def user_key_def user_value_def normalizeCompositeKey_parts retrieve_parts_def key_value_def
      js_get_def is_array_def typed_key_def typed_key_value_def typed_value_def key_def_parts_def part_of_parts_def
      missing_index_def join_hash_def isCompleteKey_def isCompleteKeyPart_def first_value_def Let_def)

lemma aws_put_leaves_attributes_witness:
  "\<exists>db1 db2 item. aws_put user_store user_entity (user_value [(''level'', JNum 2)]) (user_key ''a'') no_options (\<lambda>_. None) = (db1, Inr 1) \<and>
    aws_put user_store user_entity (user_value [(''level'', JUndef)]) (user_key ''a'') no_options db1 = (db2, Inr 2) \<and>
    memory_items db2 (aws_tableName user_store user_entity, map_of (key_entries (user_key ''a''))) = Some item \<and>
    item ''level'' = Some (JNum 2)"
proof -
  have shape: "as_shape user_store x = user_shape" "as_dynamo user_store = memory_dynamo" for x by (simp_all add: user_store_def)
  have first: "conforms user_shape (user_value [(''level'', JNum 2)])" "no_undefined (user_value [(''level'', JNum 2)])"
    "indexable user_entity (user_value [(''level'', JNum 2)])" by code_simp+
  have none: "item_holds user_shape user_entity (user_key ''a'') None
      (memory_items (\<lambda>_. None) (aws_tableName user_store user_entity, map_of (key_entries (user_key ''a''))))"
    by (simp add: item_holds_def memory_items_def)
  from memory_dynamo.put_result [of user_store user_entity "user_value [(''level'', JNum 2)]" "user_key ''a''" None "\<lambda>_. None" no_options]
    shape plain_user user_keyed first none obtain db1 item1 where
    db1: "aws_put user_store user_entity (user_value [(''level'', JNum 2)]) (user_key ''a'') no_options (\<lambda>_. None) = (db1, Inr 1)"
      "memory_items db1 (aws_tableName user_store user_entity, map_of (key_entries (user_key ''a''))) = Some item1"
      "holds user_shape user_entity (user_key ''a'') (user_value [(''level'', JNum 2)]) 1 item1"
    by (auto simp: any_schema_def expected_def no_options_def version_of_def aws_increment_def)
  have second: "conforms user_shape (user_value [(''level'', JUndef)])" "indexable user_entity (user_value [(''level'', JUndef)])"
    "left_behind user_shape user_entity (user_value [(''level'', JUndef)]) ''level''" by code_simp+
  have "item1 ''level'' = Some (JNum 2)" using db1(3) by (simp add: holds_def user_shape_def entries_of_def user_value_def)
  with aws_put_leaves_attributes [OF memory_dynamo.dynamo_items_axioms, of user_store user_entity
      "user_value [(''level'', JUndef)]" "user_key ''a''" db1 item1 1 "user_value [(''level'', JNum 2)]" "''level''"]
    shape plain_user user_keyed second db1 show ?thesis by (auto simp: any_schema_def)
qed

section \<open>Failures\<close>

text \<open>A removal that the service fails for another reason than its condition is reported as done.\<close>

lemma aws_delete_hides_failure:
  assumes "ed_deleteItem (as_dynamo store) (createDeleteRequest store e key version) db = (db', Some (DynamoError err))"
  shows "aws_delete store e key version db = (db', Inr ())"
  using assms by (simp add: aws_delete_def)

text \<open>
  The reasons of a cancelled transaction blame every item: they are compared with \<open>NONE\<close>, but the
  service writes \<open>None\<close>.
\<close>

lemma cancelled_blames_every_item:
  assumes "dynamo_items ops schema items" and "as_dynamo store = ops" and "try_map (write_request_of store) its = Inr rs"
    and "all_valid schema rs (items db)" and "\<not> list_all (\<lambda>r. request_met r (items db (request_place r))) rs"
  shows "aws_transactWrite store its db =
    (db, Inr (Cancelled (map (\<lambda>r. Some (mk_UnexpectedVersion ''Unexpected Version'')) rs)))"
  using dynamo_items.transact [OF assms(1,4)] assms(2,3,5)
  by (simp add: aws_transactWrite_def act_lift_bind cancellation_reasons_def)

end
