(* ===== verification/AwsPagination.thy ===== *)
theory AwsPagination
  imports AwsEntityStore
begin

text \<open>
  Reading a table page by page: \<open>queryPageWithToken\<close> and \<open>scanPageWithToken\<close> of
  aws-runtime/src/utils.ts, which are one function over the command they send.

  The command is a parameter, \<open>fetch\<close>: what DynamoDB answers to a query or scan with a limit and a key
  to start after. The locale \<open>dynamo_pages\<close> states what its documentation says of the answers. A token
  is represented by the key it contains; its encoding as JSON in base64 is left out.
\<close>

section \<open>Pages\<close>

record page_answer =
  pa_Items :: "dynamo_item list option"
  pa_LastEvaluatedKey :: "dynamo_item option"

type_synonym page_command = "nat \<Rightarrow> dynamo_item option \<Rightarrow> js + page_answer"

text \<open>The last item of a page of no items does not exist.\<close>

definition no_last_item :: js where
  "no_last_item = mk_TypeError ''Cannot convert undefined or null to object''"

definition page_key :: "string list \<Rightarrow> dynamo_item \<Rightarrow> dynamo_item" where
  "page_key keys item = filter (\<lambda>(key, x). key \<in> set keys) item"

text \<open>The loop; \<open>None\<close> would be a loop that never ends.\<close>

partial_function (option) scanOrQueryLoop ::
  "page_command \<Rightarrow> string list \<Rightarrow> nat \<Rightarrow> dynamo_item list \<Rightarrow> dynamo_item option \<Rightarrow> (js + dynamo_item list \<times> dynamo_item option) option" where
  "scanOrQueryLoop fetch keys pageSize results lastEvaluatedKey =
     (case fetch (pageSize * 2) lastEvaluatedKey of
        Inl err \<Rightarrow> Some (Inl err)
      | Inr answer \<Rightarrow>
          (case pa_Items answer of
             None \<Rightarrow> Some (Inr (results, None))
           | Some its \<Rightarrow>
               (let leftToTake = pageSize - length results;
                    results' = results @ take leftToTake its
                in if leftToTake \<le> length its
                   then Some (if leftToTake = 0 then Inl no_last_item
                     else Inr (results', Some (page_key keys (its ! (leftToTake - 1)))))
                   else case pa_LastEvaluatedKey answer of
                       None \<Rightarrow> Some (Inr (results', None))
                     | Some k \<Rightarrow> scanOrQueryLoop fetch keys pageSize results' (Some k))))"

definition scanOrQueryPage ::
  "page_command \<Rightarrow> string list option \<Rightarrow> nat \<Rightarrow> dynamo_item option \<Rightarrow> (js + dynamo_item list \<times> dynamo_item option) option" where
  "scanOrQueryPage fetch keys pageSize exclusiveStartKey =
     scanOrQueryLoop fetch (the_default [''pk'', ''sk''] keys) pageSize [] exclusiveStartKey"

text \<open>Reading page after page, until there is no token.\<close>

fun aws_pages :: "nat \<Rightarrow> page_command \<Rightarrow> string list \<Rightarrow> nat \<Rightarrow> dynamo_item option \<Rightarrow> (js + dynamo_item list list) option" where
  "aws_pages 0 fetch keys pageSize token = None"
| "aws_pages (Suc fuel) fetch keys pageSize token =
     (case scanOrQueryPage fetch (Some keys) pageSize token of
        None \<Rightarrow> None
      | Some (Inl err) \<Rightarrow> Some (Inl err)
      | Some (Inr (items, None)) \<Rightarrow> Some (Inr [items])
      | Some (Inr (items, Some token')) \<Rightarrow>
          map_option (\<lambda>r. try_bind r (\<lambda>ps. Inr (items # ps))) (aws_pages fuel fetch keys pageSize (Some token')))"

section \<open>What the documentation says\<close>

text \<open>
  The items of the table or index that the key of a query has, in order (of a scan, all); \<open>after k\<close> is
  the number of items up to the one with the key \<open>k\<close>, if \<open>k\<close> is a key of the table, or of the index
  and the table. An answer evaluates at most as many items as the limit says and can stop anywhere,
  but not before the first item that is left. It has the evaluated items that the filter of the
  command selects, which can be none, and the key of the last one evaluated; without a last key
  there is no item left. The last key can also be given when no item is left.
\<close>

definition answers_from ::
  "dynamo_item list \<Rightarrow> (dynamo_item \<Rightarrow> bool) \<Rightarrow> (dynamo_item \<Rightarrow> nat option) \<Rightarrow> nat \<Rightarrow> nat \<Rightarrow> page_answer \<Rightarrow> bool" where
  "answers_from its selected after limit i answer \<longleftrightarrow>
     (\<exists>m \<le> limit. pa_Items answer = Some (filter selected (take m (drop i its))) \<and> i + m \<le> length its \<and> (i < length its \<longrightarrow> 0 < m) \<and>
        (case pa_LastEvaluatedKey answer of None \<Rightarrow> i + m = length its | Some k \<Rightarrow> after k = Some (i + m) \<and> 0 < m))"

locale dynamo_pages =
  fixes fetch :: page_command and its :: "dynamo_item list" and selected :: "dynamo_item \<Rightarrow> bool"
    and after :: "dynamo_item \<Rightarrow> nat option"
  assumes first_answer: "0 < limit \<Longrightarrow> \<exists>answer. fetch limit None = Inr answer \<and> answers_from its selected after limit 0 answer"
    and next_answer: "0 < limit \<Longrightarrow> after k = Some i \<Longrightarrow>
      \<exists>answer. fetch limit (Some k) = Inr answer \<and> answers_from its selected after limit i answer"
    and invalid_key: "after k = None \<Longrightarrow> \<exists>err. fetch limit (Some k) = Inl err"
    and within: "after k = Some i \<Longrightarrow> i \<le> length its"

text \<open>An item of a filtered list, where it comes from.\<close>

lemma filter_nth_from:
  assumes "n < length (filter P xs)"
  shows "\<exists>p < length xs. filter P xs ! n = xs ! p \<and> P (xs ! p) \<and> take (Suc n) (filter P xs) = filter P (take (Suc p) xs)"
  using assms
proof (induction xs arbitrary: n)
  case (Cons x xs)
  show ?case
  proof (cases "P x \<and> n = 0")
    case True
    then show ?thesis by (intro exI [of _ 0]) simp
  next
    case False
    define m where "m = (if P x then n - 1 else n)"
    have "m < length (filter P xs)" using Cons.prems False by (auto simp: m_def)
    from Cons.IH [OF this] obtain p where
      "p < length xs" "filter P xs ! m = xs ! p" "P (xs ! p)" "take (Suc m) (filter P xs) = filter P (take (Suc p) xs)" by blast
    then show ?thesis using False
      by (intro exI [of _ "Suc p"]) (cases n; auto simp: m_def)
  qed
qed simp

context dynamo_pages
begin

definition starts_at :: "dynamo_item option \<Rightarrow> nat \<Rightarrow> bool" where
  "starts_at token i \<longleftrightarrow> (case token of None \<Rightarrow> i = 0 | Some k \<Rightarrow> after k = Some i)"

lemma answer: "0 < limit \<Longrightarrow> starts_at token i \<Longrightarrow>
    \<exists>answer. fetch limit token = Inr answer \<and> answers_from its selected after limit i answer"
  using first_answer next_answer by (auto simp: starts_at_def split: option.splits)

lemma starts_within: "starts_at token i \<Longrightarrow> i \<le> length its"
  using within by (auto simp: starts_at_def split: option.splits)

text \<open>The page goes on from item \<open>i\<close> to item \<open>j\<close>.\<close>

definition page_from :: "nat \<Rightarrow> nat \<Rightarrow> dynamo_item list \<Rightarrow> dynamo_item option \<Rightarrow> nat \<Rightarrow> bool" where
  "page_from i j page token space \<longleftrightarrow>
     i \<le> j \<and> j \<le> length its \<and> page = filter selected (take (j - i) (drop i its)) \<and> length page \<le> space \<and>
     (case token of None \<Rightarrow> j = length its | Some k \<Rightarrow> starts_at (Some k) j \<and> length page = space)"

lemma filter_ranges:
  "i \<le> j \<Longrightarrow> j \<le> l \<Longrightarrow> filter P (take (j - i) (drop i xs)) @ filter P (take (l - j) (drop j xs)) = filter P (take (l - i) (drop i xs))"
  using take_add [of "j - i" "l - j" "drop i xs"] by (simp flip: filter_append)

lemma page_from_full:
  assumes keys: "\<And>i. i < length its \<Longrightarrow> selected (its ! i) \<Longrightarrow> after (page_key keys (its ! i)) = Some (Suc i)"
    and "0 < left" and got: "left \<le> length (filter selected (take m (drop i its)))" and "i + m \<le> length its"
  shows "\<exists>j. page_from i j (take left (filter selected (take m (drop i its))))
    (Some (page_key keys (filter selected (take m (drop i its)) ! (left - 1)))) left"
proof -
  have "left - 1 < length (filter selected (take m (drop i its)))" using assms(2,3) by linarith
  from filter_nth_from [OF this] assms(2) obtain p where
    p: "p < length (take m (drop i its))" "filter selected (take m (drop i its)) ! (left - 1) = take m (drop i its) ! p"
      "selected (take m (drop i its) ! p)"
      "take left (filter selected (take m (drop i its))) = filter selected (take (Suc p) (take m (drop i its)))" by auto
  then have item: "take m (drop i its) ! p = its ! (i + p)" "i + p < length its" "p < m" using assms(4) by simp_all
  have length: "length (take left (filter selected (take m (drop i its)))) = left" using got by simp
  have "take left (filter selected (take m (drop i its))) = filter selected (take (Suc p) (drop i its))"
    using p(4) item(3) by (simp add: min_absorb1)
  moreover have "starts_at (Some (page_key keys (filter selected (take m (drop i its)) ! (left - 1)))) (i + Suc p)"
    using keys [of "i + p"] p(2,3) item by (simp add: starts_at_def)
  ultimately have "page_from i (i + Suc p) (take left (filter selected (take m (drop i its))))
      (Some (page_key keys (filter selected (take m (drop i its)) ! (left - 1)))) left"
    unfolding page_from_def option.case length using item(2) by simp
  then show ?thesis by blast
qed

lemma page_from_more:
  assumes "page_from (i + m) j page token (space - length (filter selected (take m (drop i its))))"
    and "length (filter selected (take m (drop i its))) \<le> space"
  shows "page_from i j (filter selected (take m (drop i its)) @ page) token space"
proof -
  define got where "got = filter selected (take m (drop i its))"
  have j: "i + m \<le> j" "j \<le> length its" "page = filter selected (take (j - (i + m)) (drop (i + m) its))"
    using assms(1) by (simp_all add: page_from_def)
  then have "got @ page = filter selected (take (j - i) (drop i its))"
    using filter_ranges [of i "i + m" j selected its] by (simp add: got_def)
  moreover have "length page \<le> space - length got"
    "case token of None \<Rightarrow> j = length its | Some k \<Rightarrow> starts_at (Some k) j \<and> length page = space - length got"
    using assms(1) unfolding page_from_def got_def by blast+
  moreover from this have "length (got @ page) \<le> space"
    "case token of None \<Rightarrow> j = length its | Some k \<Rightarrow> starts_at (Some k) j \<and> length (got @ page) = space"
    using assms(2) unfolding got_def [symmetric] by (simp_all split: option.splits)
  ultimately show ?thesis
    using j(1,2) unfolding page_from_def got_def [symmetric] by simp
qed

lemma loop_result:
  assumes "0 < pageSize"
    and keys: "\<And>i. i < length its \<Longrightarrow> selected (its ! i) \<Longrightarrow> after (page_key keys (its ! i)) = Some (Suc i)"
    and "starts_at token i" and "length results < pageSize"
  shows "\<exists>j page token'. scanOrQueryLoop fetch keys pageSize results token = Some (Inr (results @ page, token')) \<and>
    page_from i j page token' (pageSize - length results)"
  using assms(3,4)
proof (induction "length its - i" arbitrary: results token i rule: less_induct)
  case less
  define left where "left = pageSize - length results"
  have left: "0 < left" using less.prems(2) by (simp add: left_def)
  from answer [of "pageSize * 2", OF _ less.prems(1)] assms(1) obtain a where
    a: "fetch (pageSize * 2) token = Inr a" "answers_from its selected after (pageSize * 2) i a" by auto
  define got where "got m = filter selected (take m (drop i its))" for m
  from a(2) obtain m where m: "pa_Items a = Some (got m)" "i + m \<le> length its"
    "case pa_LastEvaluatedKey a of None \<Rightarrow> i + m = length its | Some k \<Rightarrow> after k = Some (i + m) \<and> 0 < m"
    by (auto simp: answers_from_def got_def)
  show ?case
  proof (cases "left \<le> length (got m)")
    case True
    from page_from_full [OF keys left True [unfolded got_def] m(2)] obtain j where
      "page_from i j (take left (got m)) (Some (page_key keys (got m ! (left - 1)))) left" unfolding got_def by blast
    moreover have "scanOrQueryLoop fetch keys pageSize results token =
        Some (Inr (results @ take left (got m), Some (page_key keys (got m ! (left - 1)))))"
      using True left by (subst scanOrQueryLoop.simps) (simp add: a(1) m(1) Let_def left_def [symmetric])
    ultimately show ?thesis unfolding left_def by blast
  next
    case False
    have loop: "scanOrQueryLoop fetch keys pageSize results token = (case pa_LastEvaluatedKey a of
        None \<Rightarrow> Some (Inr (results @ got m, None))
      | Some k \<Rightarrow> scanOrQueryLoop fetch keys pageSize (results @ got m) (Some k))"
    proof -
      have "take left (got m) = got m" using False by simp
      then show ?thesis using False
        by (subst scanOrQueryLoop.simps) (simp add: a(1) m(1) Let_def left_def [symmetric] split: option.split)
    qed
    show ?thesis
    proof (cases "pa_LastEvaluatedKey a")
      case None
      then have "page_from i (length its) (got m) None left" using m(2,3) False by (simp add: page_from_def got_def)
      then show ?thesis using loop None unfolding left_def by auto
    next
      case (Some k)
      then have k: "starts_at (Some k) (i + m)" "0 < m" using m(3) by (simp_all add: starts_at_def)
      have short: "length (results @ got m) < pageSize" using False by (simp add: left_def)
      have smaller: "length its - (i + m) < length its - i" using k(2) m(2) by simp
      have rest: "pageSize - length (results @ got m) = left - length (got m)" by (simp add: left_def)
      from less.hyps [OF smaller k(1) short] obtain j page token' where
        ih: "scanOrQueryLoop fetch keys pageSize (results @ got m) (Some k) = Some (Inr ((results @ got m) @ page, token'))"
          "page_from (i + m) j page token' (left - length (got m))"
        unfolding rest by blast
      from page_from_more [OF ih(2) [unfolded got_def]] False have "page_from i j (got m @ page) token' left"
        unfolding got_def by simp
      moreover have "scanOrQueryLoop fetch keys pageSize results token = Some (Inr (results @ got m @ page, token'))"
        using loop Some ih(1) by simp
      ultimately show ?thesis unfolding left_def by blast
    qed
  qed
qed

lemma scanOrQueryPage_some: "scanOrQueryPage fetch (Some keys) pageSize token = scanOrQueryLoop fetch keys pageSize [] token"
  by (simp add: scanOrQueryPage_def)

lemma pages_from:
  assumes "0 < pageSize"
    and "\<And>i. i < length its \<Longrightarrow> selected (its ! i) \<Longrightarrow> after (page_key keys (its ! i)) = Some (Suc i)"
    and "starts_at token i" and "length its - i < fuel"
  shows "\<exists>ps. aws_pages fuel fetch keys pageSize token = Some (Inr ps) \<and> concat ps = filter selected (drop i its) \<and>
    ps \<noteq> [] \<and> (\<forall>p \<in> set (butlast ps). length p = pageSize) \<and> length (last ps) \<le> pageSize"
  using assms(3,4)
proof (induction fuel arbitrary: token i)
  case (Suc fuel)
  have "length ([] :: dynamo_item list) < pageSize" using assms(1) by simp
  from loop_result [OF assms(1,2) Suc.prems(1) this] obtain j page token' where
    "scanOrQueryLoop fetch keys pageSize [] token = Some (Inr ([] @ page, token'))"
    "page_from i j page token' (pageSize - length ([] :: dynamo_item list))" by blast
  then have loop: "scanOrQueryPage fetch (Some keys) pageSize token = Some (Inr (page, token'))"
    and page: "page_from i j page token' pageSize"
    by (simp_all add: scanOrQueryPage_some)
  show ?case
  proof (cases token')
    case None
    then have "length page \<le> pageSize" "page = filter selected (take (j - i) (drop i its))" "j = length its"
      using page unfolding page_from_def None option.case by blast+
    then show ?thesis using loop None by simp
  next
    case (Some k)
    then have k: "starts_at (Some k) j" "length page = pageSize" "i \<le> j" "j \<le> length its"
      "page = filter selected (take (j - i) (drop i its))"
      using page by (auto simp: page_from_def)
    then have "i < j" using assms(1) by (cases "i = j") auto
    then have "length its - j < fuel" using Suc.prems(2) k(4) by linarith
    from Suc.IH [OF k(1) this] obtain ps where
      ps: "aws_pages fuel fetch keys pageSize (Some k) = Some (Inr ps)" "concat ps = filter selected (drop j its)"
      "ps \<noteq> []" "\<forall>p \<in> set (butlast ps). length p = pageSize" "length (last ps) \<le> pageSize" by blast
    moreover have "page @ filter selected (drop j its) = filter selected (drop i its)"
      using filter_ranges [of i j "length its" selected its] k by simp
    ultimately show ?thesis using loop Some k(2) by simp
  qed
qed simp

lemma full_page:
  assumes "0 < pageSize" and "\<And>answer. fetch (pageSize * 2) None = Inr answer \<Longrightarrow> pageSize \<le> length (the (pa_Items answer))"
  shows "scanOrQueryPage fetch (Some keys) pageSize None =
    Some (Inr (take pageSize (filter selected its), Some (page_key keys (filter selected its ! (pageSize - 1)))))"
proof -
  from first_answer [of "pageSize * 2"] assms(1) obtain a m where
    a: "fetch (pageSize * 2) None = Inr a" "pa_Items a = Some (filter selected (take m its))"
    by (auto simp: answers_from_def)
  then have m: "pageSize \<le> length (filter selected (take m its))" using assms(2) [OF a(1)] by simp
  have all: "filter selected its = filter selected (take m its) @ filter selected (drop m its)"
    by (simp flip: filter_append)
  have "pageSize - 1 < length (filter selected (take m its))" using m assms(1) by linarith
  then have "filter selected its ! (pageSize - 1) = filter selected (take m its) ! (pageSize - 1)"
    by (simp only: all nth_append if_True)
  moreover have "take pageSize (filter selected its) = take pageSize (filter selected (take m its))"
    using m by (simp only: all take_append) simp
  ultimately show ?thesis
    using assms(1) m
    by (simp add: scanOrQueryPage_def) (subst scanOrQueryLoop.simps, simp add: a(1,2) Let_def)
qed

lemma invalid_start:
  assumes "after k = None"
  shows "\<exists>err. scanOrQueryPage fetch (Some keys) pageSize (Some k) = Some (Inl err)"
proof -
  from invalid_key [OF assms, of "pageSize * 2"] obtain err where "fetch (pageSize * 2) (Some k) = Inl err" by blast
  then show ?thesis by (simp add: scanOrQueryPage_def) (subst scanOrQueryLoop.simps, simp)
qed

end

section \<open>A table in memory\<close>

definition memory_after :: "string list \<Rightarrow> dynamo_item list \<Rightarrow> dynamo_item \<Rightarrow> nat option" where
  "memory_after full its k = map_option Suc (find_index (\<lambda>item. page_key full item = k) its)"

definition memory_fetch :: "string list \<Rightarrow> (dynamo_item \<Rightarrow> bool) \<Rightarrow> dynamo_item list \<Rightarrow> page_command" where
  "memory_fetch full selected its limit token =
     (case (case token of None \<Rightarrow> Some 0 | Some k \<Rightarrow> memory_after full its k) of
        None \<Rightarrow> Inl (mk_Error ''The provided starting key is invalid'')
      | Some i \<Rightarrow> Inr \<lparr>pa_Items = Some (filter selected (take limit (drop i its))),
          pa_LastEvaluatedKey = (if i + limit < length its then Some (page_key full (its ! (i + limit - 1))) else None)\<rparr>)"

lemma memory_after_item:
  assumes "distinct (map (page_key full) its)" and "i < length its"
  shows "memory_after full its (page_key full (its ! i)) = Some (Suc i)"
proof -
  have "find_index (\<lambda>item. page_key full item = page_key full (its ! i)) its = Some i"
    using assms
  proof (induction its arbitrary: i)
    case (Cons x xs)
    show ?case
    proof (cases i)
      case (Suc j)
      then have "page_key full (xs ! j) \<in> page_key full ` set xs" using Cons.prems(2) by simp
      then show ?thesis using Cons Suc by auto
    qed simp
  qed simp
  then show ?thesis by (simp add: memory_after_def)
qed

lemma memory_after_within: "memory_after full its k = Some i \<Longrightarrow> i \<le> length its"
proof -
  have "find_index P xs = Some j \<Longrightarrow> j < length xs" for P and xs :: "dynamo_item list" and j
    by (induction xs arbitrary: j) (auto split: if_splits)
  then show "memory_after full its k = Some i \<Longrightarrow> i \<le> length its" by (fastforce simp: memory_after_def)
qed

lemma memory_dynamo_pages:
  assumes "distinct (map (page_key full) its)"
  shows "dynamo_pages (memory_fetch full selected its) its selected (memory_after full its)"
proof -
  have ans: "answers_from its selected (memory_after full its) limit i \<lparr>pa_Items = Some (filter selected (take limit (drop i its))),
      pa_LastEvaluatedKey = (if i + limit < length its then Some (page_key full (its ! (i + limit - 1))) else None)\<rparr>"
    if "0 < limit" "i \<le> length its" for limit i
  proof (cases "i + limit < length its")
    case True
    then show ?thesis using that memory_after_item [OF assms, of "i + limit - 1"]
      by (auto simp: answers_from_def intro!: exI [of _ limit])
  next
    case False
    then show ?thesis using that by (auto simp: answers_from_def intro!: exI [of _ "length its - i"])
  qed
  show ?thesis
  proof
    fix limit :: nat assume l: "0 < limit"
    show "\<exists>answer. memory_fetch full selected its limit None = Inr answer \<and>
        answers_from its selected (memory_after full its) limit 0 answer"
      using ans [OF l, of 0] by (simp add: memory_fetch_def)
    show "\<exists>answer. memory_fetch full selected its limit (Some k) = Inr answer \<and>
        answers_from its selected (memory_after full its) limit i answer"
      if "memory_after full its k = Some i" for k i
      using ans [OF l memory_after_within [OF that]] that by (simp add: memory_fetch_def)
  qed (simp_all add: memory_fetch_def memory_after_within)
qed

lemma memory_after_key:
  assumes "memory_after full its k \<noteq> None"
  shows "\<exists>item \<in> set its. k = page_key full item"
proof -
  have "find_index P xs \<noteq> None \<Longrightarrow> \<exists>x \<in> set xs. P x" for P and xs :: "dynamo_item list"
    by (induction xs) (auto split: if_splits)
  then show ?thesis using assms by (fastforce simp: memory_after_def)
qed

definition sample_items :: "dynamo_item list" where
  "sample_items = map (\<lambda>(i, t). [(''id'', JStr i), (''team'', JStr t)])
     [(''a'', ''x''), (''b'', ''y''), (''c'', ''y''), (''d'', ''y''), (''e'', ''y''), (''f'', ''x''), (''g'', ''x'')]"

definition in_team_x :: "dynamo_item \<Rightarrow> bool" where
  "in_team_x item \<longleftrightarrow> map_of item ''team'' = Some (JStr ''x'')"

lemma distinct_sample_items: "distinct (map (page_key [''id'']) sample_items)"
  by code_simp

interpretation memory_pages: dynamo_pages "memory_fetch [''id''] in_team_x sample_items" sample_items in_team_x
    "memory_after [''id''] sample_items"
  by (rule memory_dynamo_pages [OF distinct_sample_items])

section \<open>Properties\<close>

text \<open>
  C39 (termination): reading a table or index of DynamoDB page by page ends, with at most one page
  more than there are items, however DynamoDB cuts its answers (the answers to a filtered query that
  have no items but a key to go on from included). The pages are full but for the last one, which
  can be empty, and have every item that the query or scan selects once and in order. It is assumed
  that each selected item comes with the attributes of its whole key, of the table and of the index,
  and that these are the \<open>keys\<close> given; without them the second page fails
  (\<open>index_query_second_page_fails\<close>). The table does not change meanwhile.
\<close>

theorem aws_pages_cover_items:
  assumes "dynamo_pages fetch its selected after" and "0 < pageSize"
    and "\<forall>i < length its. selected (its ! i) \<longrightarrow> after (page_key keys (its ! i)) = Some (Suc i)"
  shows "\<exists>ps. aws_pages (Suc (length its)) fetch keys pageSize None = Some (Inr ps) \<and> concat ps = filter selected its \<and>
    ps \<noteq> [] \<and> (\<forall>p \<in> set (butlast ps). length p = pageSize) \<and> length (last ps) \<le> pageSize"
  using dynamo_pages.pages_from [OF assms(1,2), of keys None 0 "Suc (length its)"] assms(3)
    dynamo_pages.starts_at_def [OF assms(1)] by simp

text \<open>With pages of one item the second answer has none.\<close>

lemma aws_pages_cover_items_witness:
  "\<exists>ps. aws_pages 8 (memory_fetch [''id''] in_team_x sample_items) [''id''] 1 None = Some (Inr ps) \<and>
    concat ps = map (\<lambda>i. [(''id'', JStr i), (''team'', JStr ''x'')]) [''a'', ''f'', ''g'']"
proof -
  have "\<forall>i < length sample_items. memory_after [''id''] sample_items (page_key [''id''] (sample_items ! i)) = Some (Suc i)"
    using memory_after_item [of "[''id'']" sample_items] distinct_sample_items by blast
  moreover have "Suc (length sample_items) = 8" by (simp add: sample_items_def)
  moreover have "filter in_team_x sample_items = map (\<lambda>i. [(''id'', JStr i), (''team'', JStr ''x'')]) [''a'', ''f'', ''g'']"
    by (simp add: sample_items_def in_team_x_def)
  ultimately show ?thesis
    using aws_pages_cover_items [OF memory_pages.dynamo_pages_axioms, of 1 "[''id'']"] by auto
qed

end
