(* ===== verification/AwsEntityQueries.thy ===== *)
theory AwsEntityQueries
  imports AwsPagination AwsEntityProperties
begin

text \<open>
  Queries and scans of the entity store on DynamoDB: \<open>_query\<close> and \<open>_scan\<close> of
  aws-runtime/src/stores/entity-store.ts. The command that is sent is a parameter; its answers come
  page by page.
\<close>

section \<open>Conditions on the sort key\<close>

datatype attribute_value = AttrS string | AttrN string

definition keyPartAttributeValue :: "key_part \<Rightarrow> js \<Rightarrow> js + attribute_value" where
  "keyPartAttributeValue part v =
     try_bind (call_toString v) (\<lambda>s. Inr (if kp_type part = StringKey then AttrS s else AttrN s))"

text \<open>An expression names the attribute and its values by placeholders.\<close>

datatype sort_expression =
    SortBetween string string string
  | SortBeginsWith string string
  | SortLess string string
  | SortLessEqual string string
  | SortGreater string string
  | SortGreaterEqual string string
  | SortEqual string string

record sort_condition =
  sx_expression :: sort_expression
  sx_attribute :: string
  sx_attributeValueMap :: "(string, attribute_value) omap"

definition one_value :: "key_part \<Rightarrow> js \<Rightarrow> sort_expression \<Rightarrow> js + sort_condition option" where
  "one_value part v expression =
     try_bind (keyPartAttributeValue part v) (\<lambda>a.
       Inr (Some \<lparr>sx_expression = expression, sx_attribute = kp_keyAttribute part, sx_attributeValueMap = [('':sk'', a)]\<rparr>))"

definition getSortKeyExpressionAndAttribute :: "query_key_part option \<Rightarrow> js + sort_condition option" where
  "getSortKeyExpressionAndAttribute keyPart =
     (case keyPart of
        None \<Rightarrow> Inr None
      | Some (ConditionPart part parts condition) \<Rightarrow>
          (let name = formatAttributeNameMapKey (kp_keyAttribute part)
           in case condition of
                Between l r \<Rightarrow>
                  try_bind (keyPartAttributeValue part l) (\<lambda>a. try_bind (keyPartAttributeValue part r) (\<lambda>b.
                    Inr (Some \<lparr>sx_expression = SortBetween name '':skLeft'' '':skRight'', sx_attribute = kp_keyAttribute part,
                      sx_attributeValueMap = [('':skLeft'', a), ('':skRight'', b)]\<rparr>)))
              | BeginsWith v \<Rightarrow> one_value part v (SortBeginsWith name '':sk'')
              | LessThan v \<Rightarrow> one_value part v (SortLess name '':sk'')
              | LessThanEquals v \<Rightarrow> one_value part v (SortLessEqual name '':sk'')
              | GreaterThan v \<Rightarrow> one_value part v (SortGreater name '':sk'')
              | GreaterThanEquals v \<Rightarrow> one_value part v (SortGreaterEqual name '':sk''))
      | Some (KeyPart k) \<Rightarrow>
          (let name = formatAttributeNameMapKey (kp_keyAttribute (np_part k))
           in if np_keyValue k = JUndef then Inr None
              else one_value (np_part k) (np_keyValue k)
                (if np_partialValue k then SortBeginsWith name '':sk'' else SortEqual name '':sk'')))"

section \<open>Commands\<close>

record dynamo_query =
  dq_TableName :: string
  dq_IndexName :: "string option"
  dq_ConsistentRead :: "bool option"
  dq_ScanIndexForward :: bool
  dq_partition :: "string \<times> string"
  dq_sort :: "sort_expression option"
  dq_projection :: "string list option"
  dq_values :: "(string, attribute_value) omap"
  dq_names :: "(string, string) omap"

record dynamo_scan =
  ds_TableName :: string
  ds_IndexName :: "string option"
  ds_ConsistentRead :: "bool option"
  ds_projection :: "string list option"
  ds_names :: "(string, string) omap option"

definition entity_and_index :: "entity_provider \<Rightarrow> entity_or_index \<Rightarrow> js + entity \<times> entity_index option" where
  "entity_and_index provider eoi =
     (case eoi of
        TheEntity e \<Rightarrow> Inr (e, None)
      | TheIndex entityName i \<Rightarrow> try_bind (getEntity provider entityName) (\<lambda>e. Inr (e, Some i)))"

definition selected :: "query_options \<Rightarrow> string list option" where
  "selected options = map_option (\<lambda>names. VERSION_FIELD # names) (qo_select options)"

text \<open>A \<open>Set\<close> keeps the first occurrence of each attribute.\<close>

definition names_of :: "string list \<Rightarrow> (string, string) omap" where
  "names_of attributes = fold (\<lambda>k. om_set (formatAttributeNameMapKey k) k) attributes []"

definition query_names :: "query_key \<Rightarrow> sort_condition option \<Rightarrow> string list option \<Rightarrow> (string, string) omap" where
  "query_names queryKey sortKey select =
     names_of (kp_keyAttribute (np_part (qk_partition queryKey)) #
       (case sortKey of None \<Rightarrow> [] | Some s \<Rightarrow> if sx_attribute s = [] then [] else [sx_attribute s]) @ the_default [] select)"

definition createQuery ::
  "'db aws_store \<Rightarrow> entity \<Rightarrow> entity_index option \<Rightarrow> query_key \<Rightarrow> bool option \<Rightarrow> query_options \<Rightarrow> js + dynamo_query" where
  "createQuery store entity i queryKey consistentRead options =
     try_bind (getSortKeyExpressionAndAttribute (qk_sort queryKey)) (\<lambda>sortKey.
     try_bind (keyPartAttributeValue (np_part (qk_partition queryKey)) (np_keyValue (qk_partition queryKey))) (\<lambda>pk.
       Inr \<lparr>dq_TableName = aws_tableName store entity, dq_IndexName = map_option ix_name i,
         dq_ConsistentRead = consistentRead,
         dq_ScanIndexForward = (qo_direction options = None \<or> qo_direction options = Some ASC),
         dq_partition = (formatAttributeNameMapKey (kp_keyAttribute (np_part (qk_partition queryKey))), '':pk''),
         dq_sort = map_option sx_expression sortKey,
         dq_projection = map_option (map formatAttributeNameMapKey) (selected options),
         dq_values = fold (\<lambda>(k, a). om_set k a) (case sortKey of None \<Rightarrow> [] | Some s \<Rightarrow> sx_attributeValueMap s) [('':pk'', pk)],
         dq_names = query_names queryKey sortKey (selected options)\<rparr>))"

definition createScan :: "'db aws_store \<Rightarrow> entity \<Rightarrow> entity_index option \<Rightarrow> bool option \<Rightarrow> query_options \<Rightarrow> dynamo_scan" where
  "createScan store entity i consistentRead options =
     \<lparr>ds_TableName = aws_tableName store entity, ds_IndexName = map_option ix_name i, ds_ConsistentRead = consistentRead,
      ds_projection = map_option (map formatAttributeNameMapKey) (selected options),
      ds_names = map_option names_of (selected options)\<rparr>"

text \<open>The attributes a token is made of: those of the queried key, not those of the table.\<close>

definition query_token_keys :: "query_key \<Rightarrow> string list" where
  "query_token_keys queryKey = kp_keyAttribute (np_part (qk_partition queryKey)) #
     (case qk_sort queryKey of
        None \<Rightarrow> []
      | Some (KeyPart k) \<Rightarrow> [kp_keyAttribute (np_part k)]
      | Some (ConditionPart part parts condition) \<Rightarrow> [kp_keyAttribute part])"

definition scan_token_keys :: "entity_or_index \<Rightarrow> string list" where
  "scan_token_keys eoi = map kp_keyAttribute (key_def_parts (eoi_key eoi))"

definition record_entry :: "'db aws_store \<Rightarrow> entity \<Rightarrow> dynamo_item \<Rightarrow> js + js \<times> int" where
  "record_entry store entity r =
     (case map_of r VERSION_FIELD of
        Some (JNum n) \<Rightarrow> Inr (removeGeneratedKeyAttributes entity
          (ed_unmarshall (as_dynamo store) (filter (\<lambda>(k, x). k \<noteq> VERSION_FIELD) r)) False, n)
      | _ \<Rightarrow> Inl undefined_N)"

definition page_entries ::
  "'db aws_store \<Rightarrow> entity \<Rightarrow> (js + dynamo_item list \<times> dynamo_item option) \<Rightarrow> js + (js \<times> int) list \<times> dynamo_item option" where
  "page_entries store entity page =
     try_bind page (\<lambda>(records, nextToken). try_bind (try_map (record_entry store entity) records) (\<lambda>es. Inr (es, nextToken)))"

definition aws_query ::
  "'db aws_store \<Rightarrow> entity_provider \<Rightarrow> (dynamo_query \<Rightarrow> page_command) \<Rightarrow> entity_or_index \<Rightarrow> query_key \<Rightarrow> bool option \<Rightarrow>
   query_options \<Rightarrow> dynamo_item option \<Rightarrow> (js + (js \<times> int) list \<times> dynamo_item option) option" where
  "aws_query store provider send eoi queryKey consistentRead options nextToken =
     (case try_bind (entity_and_index provider eoi) (\<lambda>(entity, i).
         try_bind (createQuery store entity i queryKey consistentRead options) (\<lambda>q. Inr (entity, q))) of
        Inl err \<Rightarrow> Some (Inl err)
      | Inr (entity, q) \<Rightarrow> map_option (page_entries store entity)
          (scanOrQueryPage (send q) (Some (query_token_keys queryKey)) (the_default 1000 (qo_limit options)) nextToken))"

definition aws_scan ::
  "'db aws_store \<Rightarrow> entity_provider \<Rightarrow> (dynamo_scan \<Rightarrow> page_command) \<Rightarrow> entity_or_index \<Rightarrow> bool option \<Rightarrow>
   query_options \<Rightarrow> dynamo_item option \<Rightarrow> (js + (js \<times> int) list \<times> dynamo_item option) option" where
  "aws_scan store provider send eoi consistentRead options nextToken =
     (case entity_and_index provider eoi of
        Inl err \<Rightarrow> Some (Inl err)
      | Inr (entity, i) \<Rightarrow> map_option (page_entries store entity)
          (scanOrQueryPage (send (createScan store entity i consistentRead options)) (Some (scan_token_keys eoi))
            (the_default 1000 (qo_limit options)) nextToken))"

section \<open>What a condition selects\<close>

text \<open>The value an attribute value stands for.\<close>

definition attr_denotes :: "attribute_value option \<Rightarrow> js \<Rightarrow> bool" where
  "attr_denotes a v \<longleftrightarrow> (case v of JStr s \<Rightarrow> a = Some (AttrS s) | JNum n \<Rightarrow> a = Some (AttrN (int_str n)) | _ \<Rightarrow> False)"

text \<open>Comparisons are by number or by the bytes of the text; only texts begin with something.\<close>

definition expression_selects :: "sort_expression \<Rightarrow> (string, attribute_value) omap \<Rightarrow> js \<Rightarrow> bool" where
  "expression_selects expression values x =
     (case expression of
        SortBetween n l r \<Rightarrow> \<exists>a b. attr_denotes (om_get values l) a \<and> attr_denotes (om_get values r) b \<and> js_less_eq a x \<and> js_less_eq x b
      | SortBeginsWith n k \<Rightarrow> \<exists>p s. attr_denotes (om_get values k) (JStr p) \<and> x = JStr s \<and> starts_with s p
      | SortLess n k \<Rightarrow> \<exists>a. attr_denotes (om_get values k) a \<and> js_less x a
      | SortLessEqual n k \<Rightarrow> \<exists>a. attr_denotes (om_get values k) a \<and> js_less_eq x a
      | SortGreater n k \<Rightarrow> \<exists>a. attr_denotes (om_get values k) a \<and> js_less a x
      | SortGreaterEqual n k \<Rightarrow> \<exists>a. attr_denotes (om_get values k) a \<and> js_less_eq a x
      | SortEqual n k \<Rightarrow> attr_denotes (om_get values k) x)"

definition condition_values_of :: "query_condition \<Rightarrow> js list" where
  "condition_values_of c = (case c of Between a b \<Rightarrow> [a, b] | BeginsWith a \<Rightarrow> [a] | LessThan a \<Rightarrow> [a]
     | LessThanEquals a \<Rightarrow> [a] | GreaterThan a \<Rightarrow> [a] | GreaterThanEquals a \<Rightarrow> [a])"

text \<open>The values of a query on the sort key are of the type of the key.\<close>

definition typed_query_part :: "query_key_part \<Rightarrow> key_type \<Rightarrow> bool" where
  "typed_query_part q t =
     (case q of
        ConditionPart part parts c \<Rightarrow> kp_type part = t \<and> list_all (typed_value t) (condition_values_of c)
      | KeyPart k \<Rightarrow> kp_type (np_part k) = t \<and> (np_keyValue k = JUndef \<or> typed_value t (np_keyValue k)) \<and>
          (np_partialValue k \<longrightarrow> t = StringKey \<or> np_keyValue k = JUndef))"

lemma int_str_inject: "int_str m = int_str n \<longleftrightarrow> m = n"
proof
  have p: "parse_number (int_str i @ []) = Some (JNum i, [])" for i
    by (rule parse_int) (simp add: no_digit_first_def)
  assume e: "int_str m = int_str n"
  have "Some (JNum m, []) = parse_number (int_str m @ [])" by (rule p [symmetric])
  also have "\<dots> = Some (JNum n, [])" unfolding e by (rule p)
  finally show "m = n" by simp
qed simp

lemma denotes_typed:
  assumes "keyPartAttributeValue part v = Inr a" and "typed_value (kp_type part) v"
  shows "attr_denotes (Some a) x \<longleftrightarrow> x = v"
  using assms
  by (auto simp: keyPartAttributeValue_def call_toString_def typed_value_def attr_denotes_def int_str_inject
      split: key_type.splits js.splits)

lemma keyPartAttributeValue_Inr: "typed_value (kp_type part) v \<Longrightarrow> \<exists>a. keyPartAttributeValue part v = Inr a"
  by (auto simp: keyPartAttributeValue_def call_toString_def typed_value_def split: key_type.splits js.splits)

lemma one_value_selects:
  assumes "typed_value (kp_type part) v"
  shows "\<exists>a. (\<forall>expression. one_value part v expression =
      Inr (Some \<lparr>sx_expression = expression, sx_attribute = kp_keyAttribute part, sx_attributeValueMap = [('':sk'', a)]\<rparr>)) \<and>
    (\<forall>x. attr_denotes (Some a) x \<longleftrightarrow> x = v)"
  using keyPartAttributeValue_Inr [OF assms] denotes_typed [OF _ assms] by (auto simp: one_value_def)

lemma typed_text: "typed_value t (JStr s) \<longleftrightarrow> t = StringKey"
  by (cases t) (simp_all add: typed_value_def)

text \<open>
  The condition on the sort key that is sent to DynamoDB selects what the filter of
  the local store selects, for every kind of condition and for prefixes of keys.
\<close>

theorem sort_condition_selects_like_local:
  assumes "typed_query_part q t" and "typed_value t x"
  shows "\<exists>c. getSortKeyExpressionAndAttribute (Some q) = Inr c \<and>
    sort_key_matches q x =
      (case c of None \<Rightarrow> True | Some c \<Rightarrow> expression_selects (sx_expression c) (sx_attributeValueMap c) x)"
proof (cases q)
  case (KeyPart k)
  show ?thesis
  proof (cases "np_keyValue k = JUndef")
    case True
    then show ?thesis by (simp add: KeyPart getSortKeyExpressionAndAttribute_def sort_key_matches_def)
  next
    case False
    then have typed: "typed_value (kp_type (np_part k)) (np_keyValue k)" "np_partialValue k \<longrightarrow> kp_type (np_part k) = StringKey"
      "kp_type (np_part k) = t"
      using assms(1) by (auto simp: KeyPart typed_query_part_def)
    from one_value_selects [OF typed(1)] obtain a where
      a: "\<And>expression. one_value (np_part k) (np_keyValue k) expression = Inr (Some \<lparr>sx_expression = expression,
          sx_attribute = kp_keyAttribute (np_part k), sx_attributeValueMap = [('':sk'', a)]\<rparr>)"
        "\<And>y. attr_denotes (Some a) y \<longleftrightarrow> y = np_keyValue k"
      by blast
    show ?thesis
      using False typed assms(2)
      by (auto simp: KeyPart getSortKeyExpressionAndAttribute_def sort_key_matches_def a expression_selects_def om_get_def Let_def
          typed_value_def split: js.splits key_type.splits)
  qed
next
  case (ConditionPart part parts c)
  have type: "kp_type part = t" using assms(1) by (simp add: ConditionPart typed_query_part_def)
  have one: "\<exists>a. (\<forall>expression. one_value part v expression =
      Inr (Some \<lparr>sx_expression = expression, sx_attribute = kp_keyAttribute part, sx_attributeValueMap = [('':sk'', a)]\<rparr>)) \<and>
      (\<forall>x. attr_denotes (Some a) x \<longleftrightarrow> x = v)" if "v \<in> set (condition_values_of c)" for v
    using one_value_selects assms(1) that by (auto simp: ConditionPart typed_query_part_def list_all_iff)
  show ?thesis
  proof (cases c)
    case (Between l r)
    then have typed: "typed_value (kp_type part) l" "typed_value (kp_type part) r"
      using assms(1) by (auto simp: ConditionPart typed_query_part_def condition_values_of_def)
    obtain a b where ab: "keyPartAttributeValue part l = Inr a" "keyPartAttributeValue part r = Inr b"
      using keyPartAttributeValue_Inr typed by blast
    show ?thesis
      by (simp add: ConditionPart Between getSortKeyExpressionAndAttribute_def ab Let_def sort_key_matches_def condition_holds_def
          expression_selects_def om_get_def denotes_typed [OF ab(1) typed(1)] denotes_typed [OF ab(2) typed(2)])
  next
    case (BeginsWith v)
    from one [of v] obtain a where "\<And>expression. one_value part v expression =
        Inr (Some \<lparr>sx_expression = expression, sx_attribute = kp_keyAttribute part, sx_attributeValueMap = [('':sk'', a)]\<rparr>)"
        "\<And>y. attr_denotes (Some a) y \<longleftrightarrow> y = v" by (auto simp: BeginsWith condition_values_of_def)
    moreover have "typed_value t v" using assms(1) by (simp add: ConditionPart BeginsWith typed_query_part_def condition_values_of_def)
    ultimately show ?thesis using assms(2)
      by (auto simp: ConditionPart BeginsWith getSortKeyExpressionAndAttribute_def Let_def sort_key_matches_def condition_holds_def
          expression_selects_def om_get_def typed_value_def split: js.splits key_type.splits)
  next
    case (LessThan v)
    then show ?thesis using one [of v]
      by (auto simp: ConditionPart getSortKeyExpressionAndAttribute_def Let_def sort_key_matches_def condition_holds_def
          expression_selects_def om_get_def condition_values_of_def)
  next
    case (LessThanEquals v)
    then show ?thesis using one [of v]
      by (auto simp: ConditionPart getSortKeyExpressionAndAttribute_def Let_def sort_key_matches_def condition_holds_def
          expression_selects_def om_get_def condition_values_of_def)
  next
    case (GreaterThan v)
    then show ?thesis using one [of v]
      by (auto simp: ConditionPart getSortKeyExpressionAndAttribute_def Let_def sort_key_matches_def condition_holds_def
          expression_selects_def om_get_def condition_values_of_def)
  next
    case (GreaterThanEquals v)
    then show ?thesis using one [of v]
      by (auto simp: ConditionPart getSortKeyExpressionAndAttribute_def Let_def sort_key_matches_def condition_holds_def
          expression_selects_def om_get_def condition_values_of_def)
  qed
qed

lemma sort_condition_selects_like_local_witness:
  "\<exists>c. getSortKeyExpressionAndAttribute (Some (ConditionPart \<lparr>kp_type = NumberKey, kp_attributes = [''level''], kp_keyAttribute = ''level''\<rparr>
      [] (Between (JNum 2) (JNum 5)))) = Inr c \<and>
    (case c of None \<Rightarrow> True | Some c \<Rightarrow> expression_selects (sx_expression c) (sx_attributeValueMap c) (JNum 3))"
  using sort_condition_selects_like_local [of "ConditionPart \<lparr>kp_type = NumberKey, kp_attributes = [''level''], kp_keyAttribute = ''level''\<rparr>
      [] (Between (JNum 2) (JNum 5))" NumberKey "JNum 3"]
  by (simp add: typed_query_part_def condition_values_of_def typed_value_def sort_key_matches_def condition_holds_def js_less_eq_def)

text \<open>
  The second page of a query of an index fails. The token of the first page is made of the
  key of the index only, but DynamoDB takes no key to start after without the key of the table.
\<close>

theorem index_query_second_page_fails:
  assumes "entity_and_index provider (TheIndex name i) = Inr (e, Some i)"
    and "createQuery store e (Some i) queryKey consistent options = Inr q" and "qo_limit options = Some limit"
    and "dynamo_pages (send q) its passes after" and "0 < limit"
    and "\<forall>answer. send q (limit * 2) None = Inr answer \<longrightarrow> limit \<le> length (the (pa_Items answer))"
    and "\<forall>item \<in> set its. \<exists>n. map_of item VERSION_FIELD = Some (JNum n)"
    and "\<forall>k. after k \<noteq> None \<longrightarrow> set (own_key_attributes e) \<subseteq> fst ` set k"
    and "\<not> set (own_key_attributes e) \<subseteq> set (query_token_keys queryKey)"
  shows "\<exists>entries token err.
    aws_query store provider send (TheIndex name i) queryKey consistent options None = Some (Inr (entries, Some token)) \<and>
    aws_query store provider send (TheIndex name i) queryKey consistent options (Some token) = Some (Inl err)"
proof -
  let ?keys = "query_token_keys queryKey"
  define token where "token = page_key ?keys (filter passes its ! (limit - 1))"
  have first: "scanOrQueryPage (send q) (Some ?keys) limit None = Some (Inr (take limit (filter passes its), Some token))"
    unfolding token_def using dynamo_pages.full_page [OF assms(4,5)] assms(6) by blast
  have "fst ` set token \<subseteq> set ?keys" by (auto simp: token_def page_key_def)
  then have "after token = None" using assms(8,9) by (metis subset_trans)
  from dynamo_pages.invalid_start [OF assms(4) this, of ?keys limit] obtain err where
    second: "scanOrQueryPage (send q) (Some ?keys) limit (Some token) = Some (Inl err)" by blast
  have "\<exists>es. try_map (record_entry store e) xs = Inr es" if "set xs \<subseteq> set its" for xs
    using that
  proof (induction xs)
    case (Cons x xs)
    then obtain n where "map_of x VERSION_FIELD = Some (JNum n)" using assms(7) by auto
    then obtain y where "record_entry store e x = Inr y" by (simp add: record_entry_def)
    moreover obtain es where "try_map (record_entry store e) xs = Inr es" using Cons by auto
    ultimately show ?case by simp
  qed simp
  moreover have "set (take limit (filter passes its)) \<subseteq> set its" using set_take_subset [of limit "filter passes its"] by auto
  ultimately obtain es where "try_map (record_entry store e) (take limit (filter passes its)) = Inr es" by blast
  then have "aws_query store provider send (TheIndex name i) queryKey consistent options None = Some (Inr (es, Some token))"
    by (simp add: aws_query_def assms(1-3) first page_entries_def the_default_def)
  moreover have "aws_query store provider send (TheIndex name i) queryKey consistent options (Some token) = Some (Inl err)"
    by (simp add: aws_query_def assms(1-3) second page_entries_def the_default_def)
  ultimately show ?thesis by blast
qed

definition user_items :: "dynamo_item list" where
  "user_items = map (\<lambda>i. [(''__version'', JNum 1), (''id'', JStr i), (''team|level'', JStr ''x#2'')]) [''a'', ''b'', ''c'']"

definition user_query :: query_key where
  "user_query = \<lparr>qk_partition = \<lparr>np_part = kd_partition (ix_key (hd (en_indices user_entity))), np_parts = [],
     np_keyValue = JStr ''x#2'', np_partialValue = False\<rparr>, qk_sort = None\<rparr>"

lemma index_query_second_page_fails_witness:
  "\<exists>entries token err.
    aws_query user_store (\<lambda>_. Some user_entity) (\<lambda>q. memory_fetch [''id'', ''team|level''] (\<lambda>_. True) user_items)
      (TheIndex ''user'' (hd (en_indices user_entity))) user_query None (no_query_options\<lparr>qo_limit := Some 2\<rparr>) None =
      Some (Inr (entries, Some token)) \<and>
    aws_query user_store (\<lambda>_. Some user_entity) (\<lambda>q. memory_fetch [''id'', ''team|level''] (\<lambda>_. True) user_items)
      (TheIndex ''user'' (hd (en_indices user_entity))) user_query None (no_query_options\<lparr>qo_limit := Some 2\<rparr>) (Some token) =
      Some (Inl err)"
proof -
  have pages: "dynamo_pages (memory_fetch [''id'', ''team|level''] (\<lambda>_. True) user_items) user_items (\<lambda>_. True) (memory_after [''id'', ''team|level''] user_items)"
    by (rule memory_dynamo_pages) code_simp
  have entity: "entity_and_index (\<lambda>_. Some user_entity) (TheIndex ''user'' (hd (en_indices user_entity))) =
      Inr (user_entity, Some (hd (en_indices user_entity)))"
    by (simp add: entity_and_index_def getEntity_def)
  have "\<exists>q. createQuery user_store user_entity (Some (hd (en_indices user_entity))) user_query None
      (no_query_options\<lparr>qo_limit := Some 2\<rparr>) = Inr q"
    by (simp add: createQuery_def user_query_def getSortKeyExpressionAndAttribute_def keyPartAttributeValue_def call_toString_def)
  then obtain q where query: "createQuery user_store user_entity (Some (hd (en_indices user_entity))) user_query None
      (no_query_options\<lparr>qo_limit := Some 2\<rparr>) = Inr q" ..
  have full: "\<forall>answer. memory_fetch [''id'', ''team|level''] (\<lambda>_. True) user_items (2 * 2) None = Inr answer \<longrightarrow> 2 \<le> length (the (pa_Items answer))"
    by (simp add: memory_fetch_def user_items_def)
  have versions: "\<forall>item \<in> set user_items. \<exists>n. map_of item VERSION_FIELD = Some (JNum n)"
    by (simp add: user_items_def VERSION_FIELD_def)
  have keys: "\<forall>k. memory_after [''id'', ''team|level''] user_items k \<noteq> None \<longrightarrow> set (own_key_attributes user_entity) \<subseteq> fst ` set k"
    by (intro allI impI, drule memory_after_key)
      (auto simp: user_items_def page_key_def own_key_attributes_def key_def_parts_def user_entity_def)
  have index: "\<not> set (own_key_attributes user_entity) \<subseteq> set (query_token_keys user_query)" by code_simp
  show ?thesis
    by (rule index_query_second_page_fails [OF entity query _ pages _ full versions keys index]) simp_all
qed

end
