(* ===== verification/TestMocks.thy ===== *)
theory TestMocks
  imports Results JsRecord RuntimeUtils
begin

text \<open>
  What tests replace: mocked tasks and subscriptions, testing/src/providers/task-provider.ts and
  subscription-provider.ts over the providers they extend in core-runtime/src/providers.

  User functions are references of type \<open>'f\<close>; what a call of a mock does with them is its answer. Names
  are not those of properties that every object has.
\<close>

section \<open>Mocked tasks\<close>

datatype 'f task_resolution =
    AsyncResultResolution "'f option"
  | ResultResolution "js result"
  | InvokeRealResolution
  | InvokeResolution 'f

record 'f mock_task =
  mk_onceResolutions :: "'f task_resolution list"
  mk_resolution :: "'f task_resolution option"
  mk_task :: 'f

definition MockTask :: "'f \<Rightarrow> 'f mock_task" where
  "MockTask task = \<lparr>mk_onceResolutions = [], mk_resolution = None, mk_task = task\<rparr>"

text \<open>
  What a call comes to: a value, an error, a call of a function with the input and maybe the context,
  or a task that goes on asynchronously and gives its token to a callback.
\<close>

datatype ('f, 'c) mock_answer =
    MockReturns js
  | MockThrows js
  | MockCalls 'f js "'c option"
  | MockAsync "'f option"

text \<open>The real task is called without the context.\<close>

definition resolve_mock :: "'f mock_task \<Rightarrow> 'f task_resolution \<Rightarrow> js \<Rightarrow> 'c \<Rightarrow> ('f, 'c) mock_answer" where
  "resolve_mock m resolution inp ctx =
     (case resolution of
        InvokeRealResolution \<Rightarrow> MockCalls (mk_task m) inp None
      | ResultResolution (Resolved v) \<Rightarrow> MockReturns v
      | ResultResolution (Failed err) \<Rightarrow> MockThrows err
      | InvokeResolution f \<Rightarrow> MockCalls f inp (Some ctx)
      | AsyncResultResolution callback \<Rightarrow> MockAsync callback)"

definition mock_call :: "js \<Rightarrow> 'c \<Rightarrow> 'f mock_task \<Rightarrow> 'f mock_task \<times> ('f, 'c) mock_answer" where
  "mock_call inp ctx m =
     (case mk_onceResolutions m of
        before # rest \<Rightarrow> (m\<lparr>mk_onceResolutions := rest\<rparr>, resolve_mock m before inp ctx)
      | [] \<Rightarrow> (m, case mk_resolution m of Some r \<Rightarrow> resolve_mock m r inp ctx | None \<Rightarrow> MockReturns JUndef))"

definition setResolution :: "'f task_resolution \<Rightarrow> 'f mock_task \<Rightarrow> 'f mock_task" where
  "setResolution r m = m\<lparr>mk_resolution := Some r\<rparr>"

definition addOnceResolution :: "'f task_resolution \<Rightarrow> 'f mock_task \<Rightarrow> 'f mock_task" where
  "addOnceResolution r m = m\<lparr>mk_onceResolutions := mk_onceResolutions m @ [r]\<rparr>"

definition mock_succeed :: "js \<Rightarrow> 'f mock_task \<Rightarrow> 'f mock_task" where
  "mock_succeed output = setResolution (ResultResolution (Resolved output))"

definition mock_succeedOnce :: "js \<Rightarrow> 'f mock_task \<Rightarrow> 'f mock_task" where
  "mock_succeedOnce output = addOnceResolution (ResultResolution (Resolved output))"

text \<open>\<open>fail\<close> takes an error, or its name and message.\<close>

datatype fail_args = FailWith js | FailNamed string string

fun fail_error :: "fail_args \<Rightarrow> js" where
  "fail_error (FailWith err) = err"
| "fail_error (FailNamed name message) = mk_EventualError name (Some message)"

definition mock_fail :: "fail_args \<Rightarrow> 'f mock_task \<Rightarrow> 'f mock_task" where
  "mock_fail args = setResolution (ResultResolution (Failed (fail_error args)))"

definition mock_failOnce :: "fail_args \<Rightarrow> 'f mock_task \<Rightarrow> 'f mock_task" where
  "mock_failOnce args = addOnceResolution (ResultResolution (Failed (fail_error args)))"

definition mock_timeout :: "'f mock_task \<Rightarrow> 'f mock_task" where
  "mock_timeout = setResolution (ResultResolution (Failed (mk_Timeout None)))"

definition mock_timeoutOnce :: "'f mock_task \<Rightarrow> 'f mock_task" where
  "mock_timeoutOnce = addOnceResolution (ResultResolution (Failed (mk_Timeout None)))"

definition mock_heartbeatTimeout :: "'f mock_task \<Rightarrow> 'f mock_task" where
  "mock_heartbeatTimeout = setResolution (ResultResolution (Failed (mk_Timeout None)))"

definition mock_heartbeatTimeoutOnce :: "'f mock_task \<Rightarrow> 'f mock_task" where
  "mock_heartbeatTimeoutOnce = addOnceResolution (ResultResolution (Failed (mk_HeartbeatTimeout None)))"

definition mock_invoke :: "'f \<Rightarrow> 'f mock_task \<Rightarrow> 'f mock_task" where
  "mock_invoke f = setResolution (InvokeResolution f)"

definition mock_invokeOnce :: "'f \<Rightarrow> 'f mock_task \<Rightarrow> 'f mock_task" where
  "mock_invokeOnce f = addOnceResolution (InvokeResolution f)"

definition mock_invokeReal :: "'f mock_task \<Rightarrow> 'f mock_task" where
  "mock_invokeReal = setResolution InvokeRealResolution"

definition mock_invokeRealOnce :: "'f mock_task \<Rightarrow> 'f mock_task" where
  "mock_invokeRealOnce = addOnceResolution InvokeRealResolution"

definition mock_asyncResult :: "'f option \<Rightarrow> 'f mock_task \<Rightarrow> 'f mock_task" where
  "mock_asyncResult callback = setResolution (AsyncResultResolution callback)"

definition mock_asyncResultOnce :: "'f option \<Rightarrow> 'f mock_task \<Rightarrow> 'f mock_task" where
  "mock_asyncResultOnce callback = addOnceResolution (AsyncResultResolution callback)"

section \<open>The provider of tasks\<close>

text \<open>The tasks of the service, \<open>getEventualResource\<close>, are a parameter.\<close>

type_synonym 'f mocked_tasks = "(string, 'f mock_task) omap"

datatype 'f mock_argument = MockValue js | MockFunction 'f

datatype 'f task_argument = TaskNamed string | TaskObject string 'f

definition mocked_name :: "'f task_argument \<Rightarrow> string" where
  "mocked_name task = (case task of TaskNamed name \<Rightarrow> name | TaskObject name _ \<Rightarrow> name)"

datatype 'f provided_task = RealTask 'f | MockedTask string

definition mockTask ::
  "(string \<Rightarrow> 'f option) \<Rightarrow> 'f task_argument \<Rightarrow> 'f mock_argument option \<Rightarrow> ('f mocked_tasks, 'f mock_task) act" where
  "mockTask tasks task resolution mocks =
     (let name = mocked_name task
      in case (case task of TaskNamed _ \<Rightarrow> tasks name | TaskObject _ f \<Rightarrow> Some f) of
          None \<Rightarrow> (mocks, Inl (mk_Error (''Task being mocked does not exist. '' @ name)))
        | Some realTask \<Rightarrow>
            (let m = (case om_get mocks name of Some m \<Rightarrow> m | None \<Rightarrow> MockTask realTask);
                 m' = (case resolution of
                     Some (MockFunction f) \<Rightarrow> mock_invoke f m
                   | Some (MockValue v) \<Rightarrow> if truthy v then mock_succeed v m else m
                   | None \<Rightarrow> m)
             in (om_set name m' mocks, Inr m')))"

definition clearMock :: "'f task_argument \<Rightarrow> 'f mocked_tasks \<Rightarrow> 'f mocked_tasks" where
  "clearMock task mocks = om_del (mocked_name task) mocks"

definition clearMocks :: "'f mocked_tasks \<Rightarrow> 'f mocked_tasks" where
  "clearMocks mocks = []"

definition mockable_getTask :: "(string \<Rightarrow> 'f option) \<Rightarrow> 'f mocked_tasks \<Rightarrow> string \<Rightarrow> js + 'f provided_task" where
  "mockable_getTask tasks mocks taskId =
     (if om_has mocks taskId then Inr (MockedTask taskId)
      else case tasks taskId of
          Some task \<Rightarrow> Inr (RealTask task)
        | None \<Rightarrow> Inl (mk_Error (''Task not found: '' @ taskId)))"

text \<open>What a task worker gets from the handler of the task that is provided.\<close>

definition call_task ::
  "(string \<Rightarrow> 'f option) \<Rightarrow> string \<Rightarrow> js \<Rightarrow> 'c \<Rightarrow> ('f mocked_tasks, ('f, 'c) mock_answer) act" where
  "call_task tasks taskId inp ctx mocks =
     (case mockable_getTask tasks mocks taskId of
        Inl err \<Rightarrow> (mocks, Inl err)
      | Inr (RealTask f) \<Rightarrow> (mocks, Inr (MockCalls f inp (Some ctx)))
      | Inr (MockedTask name) \<Rightarrow>
          (case om_get mocks name of
             None \<Rightarrow> (mocks, Inl (mk_TypeError ''Cannot read properties of undefined (reading 'call')''))
           | Some m \<Rightarrow> (case mock_call inp ctx m of (m', answer) \<Rightarrow> (om_set name m' mocks, Inr answer))))"

section \<open>Subscriptions\<close>

record 'f test_subscriptions =
  sb_defaults :: "(string, 'f list) omap"
  sb_defaultHandlersDisabled :: bool
  sb_testHandlers :: "(string, 'f list) omap"

text \<open>The subscriptions of the service: the events each is for and its handler.\<close>

definition indexSubscriptions :: "(string list \<times> 'f) list \<Rightarrow> (string, 'f list) omap" where
  "indexSubscriptions subscriptions =
     foldl (\<lambda>index (name, h). om_set name (the_default [] (om_get index name) @ [h]) index) []
       (concat (map (\<lambda>(names, h). map (\<lambda>name. (name, h)) names) subscriptions))"

definition TestSubscriptionProvider :: "(string list \<times> 'f) list \<Rightarrow> 'f test_subscriptions" where
  "TestSubscriptionProvider subscriptions =
     \<lparr>sb_defaults = indexSubscriptions subscriptions, sb_defaultHandlersDisabled = False, sb_testHandlers = []\<rparr>"

definition disableDefaultSubscriptions :: "'f test_subscriptions \<Rightarrow> 'f test_subscriptions" where
  "disableDefaultSubscriptions s = s\<lparr>sb_defaultHandlersDisabled := True\<rparr>"

definition enableDefaultSubscriptions :: "'f test_subscriptions \<Rightarrow> 'f test_subscriptions" where
  "enableDefaultSubscriptions s = s\<lparr>sb_defaultHandlersDisabled := False\<rparr>"

definition clearTestHandlers :: "'f test_subscriptions \<Rightarrow> 'f test_subscriptions" where
  "clearTestHandlers s = s\<lparr>sb_testHandlers := []\<rparr>"

definition subscribeEvents :: "string list \<Rightarrow> 'f \<Rightarrow> 'f test_subscriptions \<Rightarrow> 'f test_subscriptions" where
  "subscribeEvents events h s =
     s\<lparr>sb_testHandlers := foldl (\<lambda>t name. om_set name (the_default [] (om_get t name) @ [h]) t) (sb_testHandlers s) events\<rparr>"

definition getSubscriptionsForEvent :: "'f test_subscriptions \<Rightarrow> string \<Rightarrow> 'f list" where
  "getSubscriptionsForEvent s eventId =
     (if sb_defaultHandlersDisabled s then [] else the_default [] (om_get (sb_defaults s) eventId)) @
     the_default [] (om_get (sb_testHandlers s) eventId)"

section \<open>The resolutions a mock uses\<close>

text \<open>What is promised: the resolutions given once, in order, then the last one given for good.\<close>

datatype 'f mock_step = Standing "'f task_resolution" | Once "'f task_resolution"

fun configure :: "'f mock_step \<Rightarrow> 'f mock_task \<Rightarrow> 'f mock_task" where
  "configure (Standing r) = setResolution r"
| "configure (Once r) = addOnceResolution r"

fun onces :: "'f mock_step list \<Rightarrow> 'f task_resolution list" where
  "onces [] = []"
| "onces (Once r # ss) = r # onces ss"
| "onces (Standing r # ss) = onces ss"

fun standing :: "'f task_resolution option \<Rightarrow> 'f mock_step list \<Rightarrow> 'f task_resolution option" where
  "standing r [] = r"
| "standing r (Standing r' # ss) = standing (Some r') ss"
| "standing r (Once r' # ss) = standing r ss"

fun mock_calls :: "(js \<times> 'c) list \<Rightarrow> 'f mock_task \<Rightarrow> ('f, 'c) mock_answer list" where
  "mock_calls [] m = []"
| "mock_calls ((inp, ctx) # cs) m = (case mock_call inp ctx m of (m', a) \<Rightarrow> a # mock_calls cs m')"

lemma configured: "fold configure ss m =
    m\<lparr>mk_onceResolutions := mk_onceResolutions m @ onces ss, mk_resolution := standing (mk_resolution m) ss\<rparr>"
proof (induction ss arbitrary: m)
  case (Cons s ss)
  then show ?case by (cases s) (simp_all add: setResolution_def addOnceResolution_def)
qed simp

lemma resolve_mock_task: "mk_task m' = mk_task m \<Longrightarrow> resolve_mock m' = resolve_mock m"
  by (simp add: fun_eq_iff resolve_mock_def split: task_resolution.split)

lemma resolve_mock_onces [simp]: "resolve_mock (m\<lparr>mk_onceResolutions := rs\<rparr>) = resolve_mock m"
  by (rule resolve_mock_task) simp

lemma mock_calls_nth:
  "i < length cs \<Longrightarrow> mock_calls cs m ! i =
    (let (inp, ctx) = cs ! i
     in if i < length (mk_onceResolutions m) then resolve_mock m (mk_onceResolutions m ! i) inp ctx
        else case mk_resolution m of Some r \<Rightarrow> resolve_mock m r inp ctx | None \<Rightarrow> MockReturns JUndef)"
proof (induction cs arbitrary: m i)
  case (Cons c cs)
  obtain inp ctx where c: "c = (inp, ctx)" by (cases c)
  show ?case
  proof (cases "mk_onceResolutions m")
    case Nil
    then show ?thesis using Cons by (cases i) (simp_all add: c mock_call_def)
  next
    case (Cons r rs)
    then show ?thesis using Cons.IH Cons.prems Cons by (cases i) (simp_all add: c mock_call_def split: prod.split option.split)
  qed
qed simp

section \<open>Properties\<close>

text \<open>
  The calls of a mocked task use the resolutions given for one call, in the order in
  which they were given, and after them the last one given for good, however the two kinds were
  mixed when the mock was set up.
\<close>

theorem mocked_calls_use_resolutions:
  assumes "i < length cs"
  shows "mock_calls cs (fold configure ss (MockTask real)) ! i =
    (let (inp, ctx) = cs ! i
     in if i < length (onces ss) then resolve_mock (MockTask real) (onces ss ! i) inp ctx
        else case standing None ss of Some r \<Rightarrow> resolve_mock (MockTask real) r inp ctx | None \<Rightarrow> MockReturns JUndef)"
proof -
  define m where "m = fold configure ss (MockTask real)"
  have m: "mk_onceResolutions m = onces ss" "mk_resolution m = standing None ss" "mk_task m = mk_task (MockTask real)"
    unfolding m_def configured by (simp_all add: MockTask_def)
  show ?thesis
    unfolding m_def [symmetric] mock_calls_nth [OF assms, of m] m(1,2) resolve_mock_task [OF m(3)] ..
qed

lemma mocked_calls_use_resolutions_witness:
  "mock_calls [(JNum 1, ''c''), (JNum 2, ''c''), (JNum 3, ''c'')]
     (fold configure [Once (ResultResolution (Failed (mk_Error ''e''))), Standing (ResultResolution (Resolved (JStr ''s''))),
       Once InvokeRealResolution] (MockTask ''real'')) ! 2 = MockReturns (JStr ''s'')"
  using mocked_calls_use_resolutions [of 2 "[(JNum 1, ''c''), (JNum 2, ''c''), (JNum 3, ''c'')]"
      "[Once (ResultResolution (Failed (mk_Error ''e''))), Standing (ResultResolution (Resolved (JStr ''s''))), Once InvokeRealResolution]"
      "''real''"]
  by (simp add: resolve_mock_def)

text \<open>A mocked heartbeat timeout is an ordinary timeout, unless it is for one call.\<close>

lemma mocked_heartbeat_timeout:
  "snd (mock_call inp ctx (mock_heartbeatTimeout (MockTask f))) = MockThrows (mk_Timeout None)"
  "snd (mock_call inp ctx (mock_heartbeatTimeoutOnce (MockTask f))) = MockThrows (mk_HeartbeatTimeout None)"
  by (simp_all add: mock_call_def mock_heartbeatTimeout_def mock_heartbeatTimeoutOnce_def setResolution_def
      addOnceResolution_def MockTask_def resolve_mock_def)

text \<open>A falsy value to succeed with is ignored: the mock returns undefined.\<close>

lemma falsy_mock_value_ignored:
  assumes "tasks name = Some real" and "om_get mocks name = None" and "\<not> truthy v"
  shows "snd (call_task tasks name inp ctx (fst (mockTask tasks (TaskNamed name) (Some (MockValue v)) mocks))) = Inr (MockReturns JUndef)"
  using assms
  by (simp add: mockTask_def mocked_name_def Let_def call_task_def mockable_getTask_def om_has_def om_get_set mock_call_def MockTask_def)

text \<open>A mock replaces the task until it is cleared.\<close>

lemma cleared_mock_is_real:
  assumes "tasks name = Some real"
  shows "snd (call_task tasks name inp ctx (clearMock (TaskNamed name) mocks)) = Inr (MockCalls real inp (Some ctx))"
  using assms by (simp add: call_task_def mockable_getTask_def clearMock_def mocked_name_def om_has_def om_get_del)

text \<open>The handlers of an event are those of the service, if they are not disabled, and those of the test.\<close>

lemma subscribed_handlers:
  "getSubscriptionsForEvent (subscribeEvents events h s) name =
    getSubscriptionsForEvent s name @ replicate (count_list events name) h"
proof -
  have "the_default [] (om_get (foldl (\<lambda>t name. om_set name (the_default [] (om_get t name) @ [h]) t) t events) name) =
      the_default [] (om_get t name) @ replicate (count_list events name) h" for t
    by (induction events arbitrary: t) (auto simp: om_get_set the_default_def replicate_append_same)
  then show ?thesis by (simp add: getSubscriptionsForEvent_def subscribeEvents_def)
qed

end
