(* ===== verification/TestEnvironment.thy ===== *)
theory TestEnvironment
  imports LocalEnvironment TestMocks Complex_Main
begin

text \<open>
  testing/src/environment.ts: the environment of tests, whose clock moves by seconds and only when a
  test asks for it. What is due at a tick goes to the workers of the local container, until nothing
  is due.

  What the workers do is a parameter: \<open>react\<close> gives, for a state in which they have just been called,
  what they ask of the environment, in the order in which they ask, until the calls are over or one
  is rejected. The state notes, which the code does not, what was scheduled, handed out, called and
  polled, so that \<open>react\<close> can depend on all that happened. Streams and buckets are handled in
  promises that nobody awaits: what their workers do can be part of a later reaction.
\<close>

section \<open>The environment\<close>

record ('h, 'f) test_env =
  te_time :: "'h time_controller"
  te_mocks :: "'f mocked_tasks"
  te_subscriptions :: "'f test_subscriptions"
  te_added :: "local_event list"
  te_handed :: "local_event list"
  te_called :: "worker_call list"
  te_polled :: "string list"

record test_services =
  ts_entities :: entity_provider
  ts_streams :: "stream_spec list list"
  ts_buckets :: "bucket_handler_spec list list"

text \<open>The start without its milliseconds, and ticks of a second.\<close>

definition TestEnvironment ::
  "('h, local_event) heap_ops \<Rightarrow> (string list \<times> 'f) list \<Rightarrow> int option \<Rightarrow> ('h, 'f) test_env" where
  "TestEnvironment ops subscriptions start =
     \<lparr>te_time = TimeController ops [] (Some (case start of Some t \<Rightarrow> t - t mod 1000 | None \<Rightarrow> 0)) (Some 1000),
      te_mocks = [], te_subscriptions = TestSubscriptionProvider subscriptions,
      te_added = [], te_handed = [], te_called = [], te_polled = []\<rparr>"

definition test_time :: "('h, 'f) test_env \<Rightarrow> int" where
  "test_time s = tc_current (te_time s)"

text \<open>The connector of the container.\<close>

datatype connector_op =
    PushNextTick local_event
  | PushNow local_event
  | ScheduleOp int local_event

definition test_add :: "('h, local_event) heap_ops \<Rightarrow> int \<Rightarrow> local_event \<Rightarrow> ('h, 'f) test_env \<Rightarrow> ('h, 'f) test_env" where
  "test_add ops time task s = s\<lparr>te_time := addEvent ops time task (te_time s), te_added := te_added s @ [task]\<rparr>"

fun test_connect :: "('h, local_event) heap_ops \<Rightarrow> connector_op \<Rightarrow> ('h, 'f) test_env \<Rightarrow> ('h, 'f) test_env" where
  "test_connect ops (PushNextTick task) s = test_add ops (nextTick (te_time s)) task s"
| "test_connect ops (PushNow task) s = test_add ops (tc_current (te_time s)) task s"
| "test_connect ops (ScheduleOp time task) s = test_add ops time task s"

section \<open>The events of a tick\<close>

text \<open>The streams are those of all entities; the name of the entity is part of what has to match.\<close>

definition test_stream_item :: "test_services \<Rightarrow> stream_item \<Rightarrow> (worker_call list, unit) act" where
  "test_stream_item sv i =
     (case ts_entities sv (si_entityName i) of
        None \<Rightarrow> act_return ()
      | Some e \<Rightarrow>
          act_bind (act_lift (try_filter (entityStreamMatchesItem e i) (concat (ts_streams sv))))
            (act_forEach (\<lambda>stream. start_worker (CallEntityStreamWorker (si_entityName i) (ss_name stream) i))))"

definition test_bucket_event :: "test_services \<Rightarrow> bucket_event \<Rightarrow> (worker_call list, unit) act" where
  "test_bucket_event sv i =
     act_forEach (\<lambda>stream. start_worker (CallBucketHandlerWorker stream i)) (handlers_of_event (ts_buckets sv) i)"

definition test_dispatch :: "test_services \<Rightarrow> local_event list \<Rightarrow> (worker_call list, unit) act" where
  "test_dispatch sv events =
     act_bind (act_forEach (\<lambda>r. start_worker (CallTaskWorker r)) (concat (map task_requests events))) (\<lambda>_.
     act_bind (act_forEach (test_stream_item sv) (concat (map stream_items events))) (\<lambda>_.
     act_bind (act_forEach (test_bucket_event sv) (concat (map bucket_events events))) (\<lambda>_.
     act_bind (act_forEach (\<lambda>r. start_worker (CallTimerHandler r)) (concat (map timer_requests events))) (\<lambda>_.
     act_bind (start_worker (CallOrchestrator (concat (map workflow_tasks events)))) (\<lambda>_.
     act_forEach (\<lambda>es. start_worker (CallSubscriptionWorker es)) (concat (map emitted_events events)))))))"

text \<open>What the workers do before the calls are over.\<close>

datatype worker_effect =
    Connected connector_op
  | TaskEnded "task_fallback_request option"
  | WorkerFailed js

fun run_effects :: "('h, local_event) heap_ops \<Rightarrow> worker_effect list \<Rightarrow> (('h, 'f) test_env, unit) act" where
  "run_effects ops [] s = (s, Inr ())"
| "run_effects ops (Connected c # es) s = run_effects ops es (test_connect ops c s)"
| "run_effects ops (TaskEnded (Some (TaskSendEventRequest executionId event)) # es) s =
     run_effects ops es (test_connect ops (PushNextTick (WorkflowTask executionId [event])) s)"
| "run_effects ops (TaskEnded _ # es) s = run_effects ops es s"
| "run_effects ops (WorkerFailed err # es) s = (s, Inl err)"

type_synonym ('h, 'f) reaction = "('h, 'f) test_env \<Rightarrow> worker_effect list"

definition processTickEvents ::
  "('h, local_event) heap_ops \<Rightarrow> test_services \<Rightarrow> ('h, 'f) reaction \<Rightarrow> local_event list \<Rightarrow> (('h, 'f) test_env, unit) act" where
  "processTickEvents ops sv react events s =
     (case test_dispatch sv events (te_called s) of
        (called, Inl err) \<Rightarrow> (s\<lparr>te_called := called, te_handed := te_handed s @ events\<rparr>, Inl err)
      | (called, Inr _) \<Rightarrow>
          (let s1 = s\<lparr>te_called := called, te_handed := te_handed s @ events, te_polled := te_polled s @ queues_to_poll events\<rparr>
           in run_effects ops (react s1) s1))"

section \<open>Ticks\<close>

text \<open>The loop of a tick of one second; \<open>None\<close> is a loop that does not end.\<close>

partial_function (option) tick_loop ::
  "('h, local_event) heap_ops \<Rightarrow> test_services \<Rightarrow> ('h, 'f) reaction \<Rightarrow> int \<Rightarrow> local_event list \<Rightarrow> ('h, 'f) test_env \<Rightarrow>
   (('h, 'f) test_env \<times> (js + unit)) option" where
  "tick_loop ops sv react goal events s =
     (case processTickEvents ops sv react events s of
        (s1, Inl err) \<Rightarrow> Some (s1, Inl err)
      | (s1, Inr _) \<Rightarrow> Option.bind (tickUntil ops goal (te_time s1)) (\<lambda>(c, es).
          if es = [] then Some (s1\<lparr>te_time := c\<rparr>, Inr ())
          else tick_loop ops sv react goal es (s1\<lparr>te_time := c\<rparr>)))"

definition tick_once ::
  "('h, local_event) heap_ops \<Rightarrow> test_services \<Rightarrow> ('h, 'f) reaction \<Rightarrow> ('h, 'f) test_env \<Rightarrow> (('h, 'f) test_env \<times> (js + unit)) option" where
  "tick_once ops sv react s =
     Option.bind (tickUntil ops (nextTick (te_time s)) (te_time s)) (\<lambda>(c, es).
       tick_loop ops sv react (nextTick (te_time s)) es (s\<lparr>te_time := c\<rparr>))"

text \<open>
  Several seconds: the loop over the generator \<open>tickIncremental\<close>, which goes on after each group of
  events has been processed and has ended when the group was that of the goal.
\<close>

partial_function (option) tick_generated ::
  "('h, local_event) heap_ops \<Rightarrow> test_services \<Rightarrow> ('h, 'f) reaction \<Rightarrow> int \<Rightarrow> ('h, 'f) test_env \<Rightarrow>
   (('h, 'f) test_env \<times> (js + unit)) option" where
  "tick_generated ops sv react goal s =
     (if \<not> tc_current (te_time s) < goal then Some (s, Inr ())
      else (case (case nextEventTick ops (te_time s) of Some t \<Rightarrow> if t < goal then t else goal | None \<Rightarrow> goal) of until \<Rightarrow>
        Option.bind (tickUntil ops until (te_time s)) (\<lambda>(c, es).
          (case processTickEvents ops sv react es (s\<lparr>te_time := c\<rparr>) of
             (s1, Inl err) \<Rightarrow> Some (s1, Inl err)
           | (s1, Inr _) \<Rightarrow> if until = goal then Some (s1, Inr ()) else tick_generated ops sv react goal s1))))"

definition test_tick ::
  "('h, local_event) heap_ops \<Rightarrow> test_services \<Rightarrow> ('h, 'f) reaction \<Rightarrow> rat option \<Rightarrow> ('h, 'f) test_env \<Rightarrow>
   (('h, 'f) test_env \<times> (js + unit)) option" where
  "test_tick ops sv react n s =
     (case n of
        None \<Rightarrow> tick_once ops sv react s
      | Some n \<Rightarrow>
          if n = 1 then tick_once ops sv react s
          else if n < 1 \<or> of_int \<lfloor>n\<rfloor> \<noteq> n
          then Some (s, Inl (mk_Error ''Must provide a positive integer number of seconds to tick''))
          else tick_generated ops sv react (tc_current (te_time s) + tc_increment (te_time s) * \<lfloor>n\<rfloor>) s)"

text \<open>To a point in time; \<open>None\<close> is a time that is not one.\<close>

definition test_tickUntil ::
  "('h, local_event) heap_ops \<Rightarrow> test_services \<Rightarrow> ('h, 'f) reaction \<Rightarrow> int option \<Rightarrow> ('h, 'f) test_env \<Rightarrow>
   (('h, 'f) test_env \<times> (js + unit)) option" where
  "test_tickUntil ops sv react time s =
     (case time of
        None \<Rightarrow> Some (s, Inr ())
      | Some t \<Rightarrow>
          (let ticks = (t - test_time s) div 1000
           in if 0 < ticks then test_tick ops sv react (Some (of_int ticks)) s else Some (s, Inr ())))"

section \<open>What tests call\<close>

definition resetTime :: "('h, local_event) heap_ops \<Rightarrow> int option \<Rightarrow> ('h, 'f) test_env \<Rightarrow> ('h, 'f) test_env" where
  "resetTime ops time s = s\<lparr>te_time := TimeControl.reset ops time (te_time s)\<rparr>"

definition resetMocks :: "('h, 'f) test_env \<Rightarrow> ('h, 'f) test_env" where
  "resetMocks s = s\<lparr>te_mocks := clearMocks (te_mocks s)\<rparr>"

definition resetTestSubscriptions :: "('h, 'f) test_env \<Rightarrow> ('h, 'f) test_env" where
  "resetTestSubscriptions s = s\<lparr>te_subscriptions := clearTestHandlers (te_subscriptions s)\<rparr>"

definition disableServiceSubscriptions :: "('h, 'f) test_env \<Rightarrow> ('h, 'f) test_env" where
  "disableServiceSubscriptions s = s\<lparr>te_subscriptions := disableDefaultSubscriptions (te_subscriptions s)\<rparr>"

definition enableServiceSubscriptions :: "('h, 'f) test_env \<Rightarrow> ('h, 'f) test_env" where
  "enableServiceSubscriptions s = s\<lparr>te_subscriptions := enableDefaultSubscriptions (te_subscriptions s)\<rparr>"

definition test_reset :: "('h, local_event) heap_ops \<Rightarrow> int option \<Rightarrow> ('h, 'f) test_env \<Rightarrow> ('h, 'f) test_env" where
  "test_reset ops time s =
     enableServiceSubscriptions (resetTestSubscriptions (resetMocks (resetTime ops time s)))"

definition test_mockTask ::
  "(string \<Rightarrow> 'f option) \<Rightarrow> 'f task_argument \<Rightarrow> 'f mock_argument option \<Rightarrow> (('h, 'f) test_env, 'f mock_task) act" where
  "test_mockTask tasks task resolution s =
     (case mockTask tasks task resolution (te_mocks s) of (mocks, r) \<Rightarrow> (s\<lparr>te_mocks := mocks\<rparr>, r))"

definition test_subscribeEvents :: "string list \<Rightarrow> 'f \<Rightarrow> ('h, 'f) test_env \<Rightarrow> ('h, 'f) test_env" where
  "test_subscribeEvents events h s = s\<lparr>te_subscriptions := subscribeEvents events h (te_subscriptions s)\<rparr>"

text \<open>
  \<open>startExecution\<close>, \<open>sendSignal\<close>, \<open>sendTaskSuccess\<close>, \<open>sendTaskFailure\<close> and \<open>sendTaskHeartbeat\<close>: the
  request of the runtime's client, a parameter, and a tick. Theirs is the result of the request or,
  the tick being awaited, its error.
\<close>

definition request_and_tick ::
  "('h, local_event) heap_ops \<Rightarrow> test_services \<Rightarrow> ('h, 'f) reaction \<Rightarrow> (('h, 'f) test_env, 'a) act \<Rightarrow> ('h, 'f) test_env \<Rightarrow>
   (('h, 'f) test_env \<times> (js + 'a)) option" where
  "request_and_tick ops sv react request s =
     (case request s of
        (s1, Inl err) \<Rightarrow> Some (s1, Inl err)
      | (s1, Inr resp) \<Rightarrow> map_option (\<lambda>(s2, r). (s2, case r of Inl err \<Rightarrow> Inl err | Inr _ \<Rightarrow> Inr resp)) (test_tick ops sv react None s1))"

text \<open>The client of events of the local runtime schedules an event of its own.\<close>

definition LocalEventClient_emitEvents :: "('h, local_event) heap_ops \<Rightarrow> js list \<Rightarrow> (('h, 'f) test_env, unit) act" where
  "LocalEventClient_emitEvents ops events s = (test_connect ops (PushNow (EmittedEvents events)) s, Inr ())"

definition test_emitEvents ::
  "('h, local_event) heap_ops \<Rightarrow> test_services \<Rightarrow> ('h, 'f) reaction \<Rightarrow> js list \<Rightarrow> ('h, 'f) test_env \<Rightarrow>
   (('h, 'f) test_env \<times> (js + unit)) option" where
  "test_emitEvents ops sv react events = request_and_tick ops sv react (LocalEventClient_emitEvents ops events)"

text \<open>It ticks once more.\<close>

definition test_emitEvent ::
  "('h, local_event) heap_ops \<Rightarrow> test_services \<Rightarrow> ('h, 'f) reaction \<Rightarrow> string \<Rightarrow> js list \<Rightarrow> ('h, 'f) test_env \<Rightarrow>
   (('h, 'f) test_env \<times> (js + unit)) option" where
  "test_emitEvent ops sv react name payloads s =
     Option.bind (test_emitEvents ops sv react (map (\<lambda>p. JObj [(''name'', JStr name), (''event'', p)]) payloads) s) (\<lambda>(s1, r).
       case r of Inl err \<Rightarrow> Some (s1, Inl err) | Inr _ \<Rightarrow> test_tick ops sv react None s1)"

end
