(* ===== verification/TestEnvironmentProperties.thy ===== *)
theory TestEnvironmentProperties
  imports TestEnvironment
begin

text \<open>
  What a tick of the test environment comes to: everything that is due is handed out, if the workers
  do not push forever, and the clock is at the next second; and how ticks of several seconds differ.
\<close>

section \<open>What is scheduled is pending or handed out\<close>

abbreviation test_pending :: "('h \<Rightarrow> local_event timed multiset) \<Rightarrow> ('h, 'f) test_env \<Rightarrow> local_event timed multiset" where
  "test_pending items s \<equiv> items (tc_timeHeap (te_time s))"

definition test_accounted :: "('h \<Rightarrow> local_event timed multiset) \<Rightarrow> ('h, 'f) test_env \<Rightarrow> bool" where
  "test_accounted items s \<longleftrightarrow> mset (te_added s) = mset (te_handed s) + image_mset tm_event (test_pending items s)"

text \<open>What was pending before the events \<open>es\<close> were taken off the heap.\<close>

definition taken_accounted :: "('h \<Rightarrow> local_event timed multiset) \<Rightarrow> local_event list \<Rightarrow> ('h, 'f) test_env \<Rightarrow> bool" where
  "taken_accounted items es s \<longleftrightarrow>
     mset (te_added s) = mset (te_handed s) + mset es + image_mset tm_event (test_pending items s)"

fun quiet :: "worker_effect \<Rightarrow> bool" where
  "quiet (WorkerFailed err) = False"
| "quiet _ = True"

text \<open>An effect that adds no event that is due already.\<close>

fun later_effect :: "int \<Rightarrow> worker_effect \<Rightarrow> bool" where
  "later_effect now (Connected (PushNow task)) = False"
| "later_effect now (Connected (ScheduleOp time task)) = (now < time)"
| "later_effect now _ = True"

definition none_due :: "('h \<Rightarrow> local_event timed multiset) \<Rightarrow> ('h, 'f) test_env \<Rightarrow> bool" where
  "none_due items s \<longleftrightarrow> (\<forall>x \<in># test_pending items s. test_time s < tm_timestamp x)"

lemma test_add_simps [simp]:
  "tc_current (te_time (test_add ops t e s)) = tc_current (te_time s)"
  "tc_increment (te_time (test_add ops t e s)) = tc_increment (te_time s)"
  "te_handed (test_add ops t e s) = te_handed s" "te_called (test_add ops t e s) = te_called s"
  "te_added (test_add ops t e s) = te_added s @ [e]"
  by (simp_all add: test_add_def addEvent_def)

lemma test_add_pending:
  "heap_contract ops items \<Longrightarrow> test_pending items (test_add ops t e s) =
   add_mset \<lparr>tm_timestamp = t, tm_event = e, tm_ord = tc_ordCounter (te_time s)\<rparr> (test_pending items s)"
  by (simp add: heap_contract_def test_add_def addEvent_def)

lemma test_add_accounted:
  "heap_contract ops items \<Longrightarrow> test_accounted items s \<Longrightarrow> test_accounted items (test_add ops t e s)"
  by (simp add: test_accounted_def test_add_pending)

lemma test_add_none_due:
  "heap_contract ops items \<Longrightarrow> none_due items s \<Longrightarrow> test_time s < t \<Longrightarrow> none_due items (test_add ops t e s)"
  by (simp add: none_due_def test_add_pending test_time_def)

text \<open>What the workers do, step by step; it ends early only when one of them rejects.\<close>

lemma effects_inv:
  assumes "\<And>c s. P s \<Longrightarrow> Connected c \<in> set es \<Longrightarrow> P (test_connect ops c s)"
    and "\<And>e s. P s \<Longrightarrow> P (test_connect ops (PushNextTick e) s)" and "P s"
  shows "\<exists>s' r. run_effects ops es s = (s', r) \<and> P s' \<and> (list_all quiet es \<longrightarrow> r = Inr ())"
  using assms(1,3)
proof (induction es arbitrary: s)
  case (Cons e es)
  have rest: "\<exists>s' r. run_effects ops es s0 = (s', r) \<and> P s' \<and> (list_all quiet es \<longrightarrow> r = Inr ())" if "P s0" for s0
    using Cons that by auto
  show ?case
  proof (cases e)
    case (Connected c)
    then show ?thesis using rest [OF Cons.prems(1) [OF Cons.prems(2), of c]] by simp
  next
    case (TaskEnded result)
    show ?thesis
    proof (cases result)
      case (Some r)
      then show ?thesis using TaskEnded rest Cons.prems(2) assms(2) by (cases r) simp_all
    qed (use TaskEnded rest Cons.prems(2) in simp)
  qed (use Cons.prems(2) in simp)
qed simp

section \<open>A round of a tick\<close>

text \<open>The streams of the service can be matched with every item.\<close>

definition streams_match :: "test_services \<Rightarrow> bool" where
  "streams_match sv \<longleftrightarrow> (\<forall>i e. ts_entities sv (si_entityName i) = Some e \<longrightarrow>
     (\<exists>ss. try_filter (entityStreamMatchesItem e i) (concat (ts_streams sv)) = Inr ss))"

text \<open>
  Dispatching only adds calls; it throws only when a stream cannot be matched, and it has called the
  orchestrator when it does not.
\<close>

definition growing :: "bool \<Rightarrow> bool \<Rightarrow> (worker_call list, unit) act \<Rightarrow> bool" where
  "growing ok calls m \<longleftrightarrow>
     (\<forall>s. \<exists>cs r. m s = (s @ cs, r) \<and> (ok \<longrightarrow> r = Inr ()) \<and> (calls \<and> r = Inr () \<longrightarrow> cs \<noteq> []))"

lemma growing_start: "growing ok True (start_worker c)"
  by (simp add: growing_def start_worker_def)

lemma growing_bind:
  assumes "growing ok c m" and "growing ok c' m'"
  shows "growing ok (c \<or> c') (act_bind m (\<lambda>_. m'))"
  unfolding growing_def
proof
  fix s
  from assms(1) obtain cs r where m: "m s = (s @ cs, r)" "ok \<longrightarrow> r = Inr ()" "c \<and> r = Inr () \<longrightarrow> cs \<noteq> []"
    unfolding growing_def by blast
  from assms(2) obtain cs' r' where m': "m' (s @ cs) = ((s @ cs) @ cs', r')" "ok \<longrightarrow> r' = Inr ()" "c' \<and> r' = Inr () \<longrightarrow> cs' \<noteq> []"
    unfolding growing_def by blast
  show "\<exists>cs r. act_bind m (\<lambda>_. m') s = (s @ cs, r) \<and> (ok \<longrightarrow> r = Inr ()) \<and> ((c \<or> c') \<and> r = Inr () \<longrightarrow> cs \<noteq> [])"
    using m m' by (cases r) (auto simp: act_bind_def)
qed

lemma growing_weak: "growing ok c m \<Longrightarrow> growing ok False m"
  unfolding growing_def by blast

lemma growing_forEach:
  assumes "\<And>x. growing ok False (f x)"
  shows "growing ok False (act_forEach f xs)"
proof (induction xs)
  case (Cons x xs)
  then show ?case using growing_bind [OF assms Cons.IH] by simp
qed (simp add: growing_def)

lemma stream_item_grows: "growing (streams_match sv) False (test_stream_item sv i)"
proof (cases "ts_entities sv (si_entityName i)")
  case None
  then show ?thesis by (simp add: test_stream_item_def growing_def)
next
  case (Some e)
  show ?thesis
  proof (cases "try_filter (entityStreamMatchesItem e i) (concat (ts_streams sv))")
    case (Inl err)
    then have "\<not> streams_match sv" using Some unfolding streams_match_def by fastforce
    then show ?thesis using Some Inl by (simp add: test_stream_item_def act_bind_def growing_def)
  next
    case (Inr ss)
    then have "test_stream_item sv i = act_forEach (\<lambda>stream. start_worker (CallEntityStreamWorker (si_entityName i) (ss_name stream) i)) ss"
      using Some by (simp add: test_stream_item_def act_bind_def fun_eq_iff)
    then show ?thesis using growing_forEach [OF growing_weak [OF growing_start]] by simp
  qed
qed

lemma dispatch_grows: "growing (streams_match sv) True (test_dispatch sv events)"
proof -
  have start: "growing (streams_match sv) False (act_forEach (\<lambda>x. start_worker (f x)) xs)" for f and xs :: "'a list"
    by (intro growing_forEach growing_weak [OF growing_start])
  have bucket: "growing (streams_match sv) False (test_bucket_event sv i)" for i
    unfolding test_bucket_event_def by (rule growing_forEach [OF growing_weak [OF growing_start]])
  have "growing (streams_match sv) (False \<or> False \<or> False \<or> False \<or> True \<or> False) (test_dispatch sv events)"
    unfolding test_dispatch_def
    by (intro growing_bind growing_forEach growing_start growing_weak [OF growing_start] stream_item_grows bucket)
  then show ?thesis by simp
qed

lemma round_done:
  assumes contract: "heap_contract ops items" and acc: "taken_accounted items es s"
  obtains s' r where "processTickEvents ops sv react es s = (s', r)" and "test_accounted items s'"
    and "tc_current (te_time s') = tc_current (te_time s)" and "tc_increment (te_time s') = tc_increment (te_time s)"
    and "r = Inr () \<longrightarrow> length (te_called s) < length (te_called s')"
    and "streams_match sv \<and> (\<forall>s. list_all quiet (react s)) \<longrightarrow> r = Inr ()"
    and "r = Inr () \<and> none_due items s \<and> 0 < tc_increment (te_time s) \<and>
      (\<forall>s1. length (te_called s) < length (te_called s1) \<and> test_time s1 = test_time s \<longrightarrow>
         list_all (later_effect (test_time s)) (react s1)) \<longrightarrow>
      none_due items s'"
proof -
  from dispatch_grows [of sv es] obtain cs r where
    cs: "test_dispatch sv es (te_called s) = (te_called s @ cs, r)" "streams_match sv \<longrightarrow> r = Inr ()" "r = Inr () \<longrightarrow> cs \<noteq> []"
    unfolding growing_def by blast
  show thesis
  proof (cases "r = Inr ()")
    case False
    then obtain err where err: "r = Inl err" by (cases r) simp_all
    define s' where "s' = s\<lparr>te_called := te_called s @ cs, te_handed := te_handed s @ es\<rparr>"
    show ?thesis
    proof (rule that [of s' "Inl err"])
      show "processTickEvents ops sv react es s = (s', Inl err)"
        using cs(1) err by (simp add: processTickEvents_def s'_def)
      show "test_accounted items s'" using acc by (simp add: s'_def test_accounted_def taken_accounted_def)
    qed (use cs(2) err in \<open>simp_all add: s'_def\<close>)
  next
    case True
    note cs = cs(1,3) [unfolded True]
    define s1 where "s1 = s\<lparr>te_called := te_called s @ cs, te_handed := te_handed s @ es, te_polled := te_polled s @ queues_to_poll es\<rparr>"
    have run: "processTickEvents ops sv react es s = run_effects ops (react s1) s1"
      using cs(1) by (simp add: processTickEvents_def s1_def Let_def)
    define P where "P s' \<longleftrightarrow> test_accounted items s' \<and> tc_current (te_time s') = tc_current (te_time s) \<and>
      tc_increment (te_time s') = tc_increment (te_time s) \<and> te_called s' = te_called s @ cs" for s' :: "('a, 'b) test_env"
    have add: "P s' \<Longrightarrow> P (test_add ops t e s')" for t e s'
      by (simp add: P_def test_add_accounted [OF contract])
    have P1: "P s1" using acc by (simp add: P_def s1_def test_accounted_def taken_accounted_def)
    have "\<exists>s' r. run_effects ops (react s1) s1 = (s', r) \<and> P s' \<and> (list_all quiet (react s1) \<longrightarrow> r = Inr ())"
    proof (rule effects_inv [where P = P])
      show "P s' \<Longrightarrow> P (test_connect ops c s')" for c s' using add by (cases c) simp_all
      then show "P s' \<Longrightarrow> P (test_connect ops (PushNextTick e) s')" for e s' .
    qed (rule P1)
    then obtain s' r' where s': "run_effects ops (react s1) s1 = (s', r')" "P s'" "list_all quiet (react s1) \<longrightarrow> r' = Inr ()"
      by blast
    have none: "none_due items s'" if none: "none_due items s" and inc: "0 < tc_increment (te_time s)"
      and later: "\<forall>s1. length (te_called s) < length (te_called s1) \<and> test_time s1 = test_time s \<longrightarrow>
        list_all (later_effect (test_time s)) (react s1)"
    proof -
      define Q where "Q s'' \<longleftrightarrow> P s'' \<and> none_due items s''" for s''
      have adds: "Q s'' \<Longrightarrow> tc_current (te_time s) < t \<Longrightarrow> Q (test_add ops t e s'')" for t e s''
        using add [of s'' t e] by (simp add: Q_def P_def test_time_def test_add_none_due [OF contract])
      have react: "list_all (later_effect (tc_current (te_time s))) (react s1)"
        using later [rule_format, of s1] cs(2) by (simp add: s1_def test_time_def)
      have "\<exists>s'' r. run_effects ops (react s1) s1 = (s'', r) \<and> Q s'' \<and> (list_all quiet (react s1) \<longrightarrow> r = Inr ())"
      proof (rule effects_inv [where P = Q])
        show "Q u \<Longrightarrow> Q (test_connect ops (PushNextTick e) u)" for e u
          using adds inc by (simp add: nextTick_def Q_def P_def)
        then show "Q (test_connect ops c s'')" if "Q s''" "Connected c \<in> set (react s1)" for c s''
          using that react adds by (cases c) (auto simp: list_all_iff)
        show "Q s1" using P1 none by (simp add: Q_def s1_def none_due_def test_time_def)
      qed
      then show ?thesis using s'(1) by (auto simp: Q_def)
    qed
    show ?thesis
      by (rule that [of s' r']) (use run s' none cs(2) in \<open>simp_all add: P_def\<close>)
  qed
qed

section \<open>One tick\<close>

text \<open>
  The workers fail none of their calls. After a number of calls in all, the workers that are called
  at the time \<open>now\<close> schedule nothing more that is due by then.
\<close>

definition quiet_workers :: "('h, 'f) reaction \<Rightarrow> bool" where
  "quiet_workers react \<longleftrightarrow> (\<forall>s. list_all quiet (react s))"

definition settles_by :: "int \<Rightarrow> nat \<Rightarrow> ('h, 'f) reaction \<Rightarrow> bool" where
  "settles_by now calls react \<longleftrightarrow>
     (\<forall>s. calls \<le> length (te_called s) \<and> test_time s = now \<longrightarrow> list_all (later_effect now) (react s))"

lemma none_due_drained:
  assumes "drained items (tc_timeHeap (te_time s)) (test_time s) h ds" and "none_due items s"
  shows "ds = []"
proof -
  have "set ds = {x. x \<in># test_pending items s \<and> tm_timestamp x \<le> test_time s}"
    using assms(1) by (intro set_mset_filtered) (simp add: drained_def)
  moreover have "test_time s < tm_timestamp x" if "x \<in># test_pending items s" for x
    using assms(2) that by (simp add: none_due_def)
  ultimately have "x \<notin> set ds" for x using not_less by blast
  then show ?thesis by (cases ds) auto
qed

lemma taken_drained:
  assumes "test_accounted items s" and "drained items (tc_timeHeap (te_time s)) t h ds"
  shows "taken_accounted items (map tm_event ds) (s\<lparr>te_time := (te_time s)\<lparr>tc_current := t, tc_timeHeap := h\<rparr>\<rparr>)"
    and "none_due items (s\<lparr>te_time := (te_time s)\<lparr>tc_current := t, tc_timeHeap := h\<rparr>\<rparr>)"
proof -
  have ds: "mset ds = filter_mset (\<lambda>e. tm_timestamp e \<le> t) (test_pending items s)"
    and h: "items h = filter_mset (\<lambda>e. \<not> tm_timestamp e \<le> t) (test_pending items s)"
    using assms(2) by (simp_all add: drained_def not_le)
  have "test_pending items s = mset ds + items h" unfolding ds h by (rule multiset_partition)
  then show "taken_accounted items (map tm_event ds) (s\<lparr>te_time := (te_time s)\<lparr>tc_current := t, tc_timeHeap := h\<rparr>\<rparr>)"
    using assms(1) by (simp add: taken_accounted_def test_accounted_def)
  show "none_due items (s\<lparr>te_time := (te_time s)\<lparr>tc_current := t, tc_timeHeap := h\<rparr>\<rparr>)"
    by (simp add: none_due_def h test_time_def)
qed

lemma tick_loop_returns:
  assumes contract: "heap_contract ops items" and settles: "settles_by (test_time s) calls react"
    and "taken_accounted items es s" and "none_due items s" and "0 < tc_increment (te_time s)"
  shows "\<exists>s' r. tick_loop ops sv react (test_time s) es s = Some (s', r) \<and> test_time s' = test_time s \<and>
    tc_increment (te_time s') = tc_increment (te_time s) \<and> test_accounted items s' \<and>
    (r = Inr () \<longrightarrow> none_due items s') \<and> (streams_match sv \<and> quiet_workers react \<longrightarrow> r = Inr ())"
  using assms(2-5)
proof (induction "calls - length (te_called s)" arbitrary: es s rule: less_induct)
  case less
  obtain s1 r1 where s1: "processTickEvents ops sv react es s = (s1, r1)" "test_accounted items s1"
      "tc_current (te_time s1) = tc_current (te_time s)" "tc_increment (te_time s1) = tc_increment (te_time s)"
      "r1 = Inr () \<longrightarrow> length (te_called s) < length (te_called s1)"
      "streams_match sv \<and> (\<forall>s. list_all quiet (react s)) \<longrightarrow> r1 = Inr ()"
    and none: "r1 = Inr () \<and> none_due items s \<and> 0 < tc_increment (te_time s) \<and>
      (\<forall>s1. length (te_called s) < length (te_called s1) \<and> test_time s1 = test_time s \<longrightarrow>
         list_all (later_effect (test_time s)) (react s1)) \<longrightarrow>
      none_due items s1"
    by (rule round_done [where react = react and sv = sv, OF contract less.prems(2)])
  show ?case
  proof (cases r1)
    case (Inl err)
    then have "tick_loop ops sv react (test_time s) es s = Some (s1, Inl err)"
      using s1(1) by (subst tick_loop.simps) simp
    then show ?thesis using s1(2-4,6) Inl by (auto simp: test_time_def quiet_workers_def)
  next
    case (Inr u)
    then have r1: "r1 = Inr ()" by simp
    from drain_returns [OF contract, of "te_time s1"] obtain h ds where
      run: "drainPastEvents ops (te_time s1) = Some ((te_time s1)\<lparr>tc_timeHeap := h\<rparr>, map tm_event ds)"
      and ds: "drained items (tc_timeHeap (te_time s1)) (test_time s1) h ds" by (auto simp: test_time_def)
    define s2 where "s2 = s1\<lparr>te_time := (te_time s1)\<lparr>tc_timeHeap := h\<rparr>\<rparr>"
    have same: "s2 = s1\<lparr>te_time := (te_time s1)\<lparr>tc_current := test_time s1, tc_timeHeap := h\<rparr>\<rparr>"
      by (simp add: s2_def test_time_def)
    have s2: "taken_accounted items (map tm_event ds) s2" "none_due items s2"
      unfolding same by (rule taken_drained [OF s1(2) ds])+
    have time: "test_time s2 = test_time s" "tc_increment (te_time s2) = tc_increment (te_time s)" "te_called s2 = te_called s1"
      using s1(3,4) by (simp_all add: s2_def test_time_def)
    have until: "tickUntil ops (test_time s) (te_time s1) = Some ((te_time s1)\<lparr>tc_timeHeap := h\<rparr>, map tm_event ds)"
      using run by (simp add: tickUntil_def tick_def test_time_def flip: s1(3))
    show ?thesis
    proof (cases "ds = []")
      case True
      then have "test_accounted items s2" using s2(1) by (simp add: taken_accounted_def test_accounted_def)
      moreover have "tick_loop ops sv react (test_time s) es s = Some (s2, Inr ())"
        using True until s1(1) r1 by (subst tick_loop.simps) (simp add: s2_def)
      ultimately show ?thesis using s2(2) time by blast
    next
      case False
      have "\<not> calls \<le> Suc (length (te_called s))"
      proof
        assume "calls \<le> Suc (length (te_called s))"
        then have "none_due items s1" using less.prems(1,3,4) none r1 by (simp add: settles_by_def)
        then show False using none_due_drained [OF ds] False by blast
      qed
      then have "calls - length (te_called s2) < calls - length (te_called s)" using s1(5) r1 time(3) by simp
      from less.hyps [OF this _ s2] time less.prems(1,4) have
        "\<exists>s' r. tick_loop ops sv react (test_time s) (map tm_event ds) s2 = Some (s', r) \<and> test_time s' = test_time s \<and>
          tc_increment (te_time s') = tc_increment (te_time s) \<and> test_accounted items s' \<and>
          (r = Inr () \<longrightarrow> none_due items s') \<and> (streams_match sv \<and> quiet_workers react \<longrightarrow> r = Inr ())"
        by simp
      moreover have "tick_loop ops sv react (test_time s) es s = tick_loop ops sv react (test_time s) (map tm_event ds) s2"
        using False until s1(1) r1 by (subst tick_loop.simps) (simp add: s2_def)
      ultimately show ?thesis by simp
    qed
  qed
qed

lemma tick_once_returns:
  assumes contract: "heap_contract ops items" and settles: "settles_by (nextTick (te_time s)) calls react"
    and acc: "test_accounted items s" and inc: "0 < tc_increment (te_time s)"
  shows "\<exists>s' r. tick_once ops sv react s = Some (s', r) \<and> test_time s' = nextTick (te_time s) \<and>
    tc_increment (te_time s') = tc_increment (te_time s) \<and> test_accounted items s' \<and>
    (r = Inr () \<longrightarrow> none_due items s') \<and> (streams_match sv \<and> quiet_workers react \<longrightarrow> r = Inr ())"
proof -
  from tick_returns [OF contract, of 1 "te_time s"] obtain h ds where
    run: "tick ops 1 (te_time s) = Some ((te_time s)\<lparr>tc_current := nextTick (te_time s), tc_timeHeap := h\<rparr>, map tm_event ds)"
    and ds: "drained items (tc_timeHeap (te_time s)) (nextTick (te_time s)) h ds" by (auto simp: nextTick_def)
  define s1 where "s1 = s\<lparr>te_time := (te_time s)\<lparr>tc_current := nextTick (te_time s), tc_timeHeap := h\<rparr>\<rparr>"
  have s1: "taken_accounted items (map tm_event ds) s1" "none_due items s1"
    unfolding s1_def by (rule taken_drained [OF acc ds])+
  have time: "test_time s1 = nextTick (te_time s)" "tc_increment (te_time s1) = tc_increment (te_time s)"
    by (simp_all add: s1_def test_time_def)
  have "tickUntil ops (nextTick (te_time s)) (te_time s) = tick ops 1 (te_time s)"
    using inc by (simp add: tickUntil_def nextTick_def)
  then have "tick_once ops sv react s = tick_loop ops sv react (test_time s1) (map tm_event ds) s1"
    using run time by (simp add: tick_once_def s1_def)
  then show ?thesis
    using tick_loop_returns [OF contract _ s1, of calls react sv] settles inc by (simp add: time)
qed

section \<open>Properties\<close>


text \<open>Two ticks for the events of a test, whose documentation tells of one.\<close>

lemma emitEvent_ticks_twice:
  assumes "heap_contract ops items" and "streams_match sv" and "quiet_workers react" and "\<And>now. settles_by now calls react"
    and "test_accounted items s" and "0 < tc_increment (te_time s)"
  shows "\<exists>s'. test_emitEvent ops sv react name payloads s = Some (s', Inr ()) \<and>
    test_time s' = test_time s + 2 * tc_increment (te_time s)"
proof -
  define pushed where "pushed = test_connect ops (PushNow (EmittedEvents (map (\<lambda>p. JObj [(''name'', JStr name), (''event'', p)]) payloads))) s"
  have "test_accounted items pushed" "0 < tc_increment (te_time pushed)"
    using assms(5,6) by (simp_all add: pushed_def test_add_accounted [OF assms(1)])
  from tick_once_returns [OF assms(1,4) this, of sv] assms(2,3) obtain s1 where
    s1: "tick_once ops sv react pushed = Some (s1, Inr ())" "test_time s1 = test_time s + tc_increment (te_time s)"
      "tc_increment (te_time s1) = tc_increment (te_time s)" "test_accounted items s1"
    by (auto simp: pushed_def test_time_def nextTick_def)
  moreover from tick_once_returns [OF assms(1,4) s1(4), of sv] s1(2,3) assms(2,3,6) obtain s2 where
    "tick_once ops sv react s1 = Some (s2, Inr ())" "test_time s2 = test_time s + 2 * tc_increment (te_time s)"
    by (auto simp: nextTick_def test_time_def)
  ultimately show ?thesis
    by (simp add: test_emitEvent_def test_emitEvents_def request_and_tick_def LocalEventClient_emitEvents_def test_tick_def
        pushed_def)
qed

text \<open>A number of seconds that is not a positive integer is refused.\<close>

lemma tick_refuses:
  "n < 1 \<or> of_int \<lfloor>n\<rfloor> \<noteq> n \<Longrightarrow>
   test_tick ops sv react (Some n) s = Some (s, Inl (mk_Error ''Must provide a positive integer number of seconds to tick''))"
  by (auto simp: test_tick_def)

lemma dispatch_nothing: "test_dispatch sv [] called = (called @ [CallOrchestrator []], Inr ())"
  by (simp add: test_dispatch_def act_bind_def start_worker_def)

lemma stuck_round:
  assumes "\<forall>k. react (s\<lparr>te_called := te_called s @ replicate k (CallOrchestrator [])\<rparr>) = []"
  shows "processTickEvents ops sv react [] (s\<lparr>te_called := te_called s @ replicate k (CallOrchestrator [])\<rparr>) =
    (s\<lparr>te_called := te_called s @ replicate (Suc k) (CallOrchestrator [])\<rparr>, Inr ())"
  using assms [rule_format, of "Suc k"]
  by (simp add: processTickEvents_def dispatch_nothing queues_to_poll_def replicate_append_same)

lemma generated_stuck:
  assumes peek: "hp_peek ops (tc_timeHeap (te_time s)) = Some e" and between: "test_time s < tm_timestamp e"
    "tm_timestamp e < test_time s + tc_increment (te_time s)" "tm_timestamp e < goal"
    and idle: "\<forall>k. react (s\<lparr>te_called := te_called s @ replicate k (CallOrchestrator [])\<rparr>) = []"
    and returns: "tick_generated ops sv react goal s' = Some r"
  shows "s' \<noteq> s\<lparr>te_called := te_called s @ replicate k (CallOrchestrator [])\<rparr>"
proof -
  define stuck where "stuck k = s\<lparr>te_called := te_called s @ replicate k (CallOrchestrator [])\<rparr>" for k
  define P where "P ops' sv' react' goal' s' y \<longleftrightarrow>
    ops' = ops \<and> sv' = sv \<and> react' = react \<and> goal' = goal \<longrightarrow> (\<forall>k. s' \<noteq> stuck k)"
    for ops' sv' react' goal' s' and y :: "('a, 'b) test_env \<times> (js + unit)"
  have "(tm_timestamp e - test_time s) div tc_increment (te_time s) = 0" using between by (simp add: div_pos_pos_trivial)
  then have until: "tickUntil ops (tm_timestamp e) (te_time s) = Some (te_time s, [])"
    using peek between(1)
    by (simp add: tickUntil_def tick_def drainPastEvents.simps [of ops "te_time s"] hasCurrentOrPastEvents_def test_time_def)
  have round: "processTickEvents ops sv react [] (stuck k) = (stuck (Suc k), Inr ())" for k
    unfolding stuck_def by (rule stuck_round [OF idle])
  have time: "te_time (stuck k) = te_time s" "stuck k\<lparr>te_time := te_time s\<rparr> = stuck k" for k
    by (simp_all add: stuck_def)
  have "P ops sv react goal s' r"
  proof (rule tick_generated.raw_induct [where P = P, OF _ returns])
    fix f ops' sv' react' goal' s'' and y :: "('a, 'b) test_env \<times> (js + unit)"
    assume IH: "\<And>ops' sv' react' goal' s'' y. f ops' sv' react' goal' s'' = Some y \<Longrightarrow> P ops' sv' react' goal' s'' y"
      and body: "(if \<not> tc_current (te_time s'') < goal' then Some (s'', Inr ())
        else (case (case nextEventTick ops' (te_time s'') of Some t \<Rightarrow> if t < goal' then t else goal' | None \<Rightarrow> goal') of until \<Rightarrow>
          Option.bind (tickUntil ops' until (te_time s'')) (\<lambda>(c, es).
            (case processTickEvents ops' sv' react' es (s''\<lparr>te_time := c\<rparr>) of
               (s1, Inl err) \<Rightarrow> Some (s1, Inl err)
             | (s1, Inr _) \<Rightarrow> if until = goal' then Some (s1, Inr ()) else f ops' sv' react' goal' s1)))) = Some y"
    show "P ops' sv' react' goal' s'' y" unfolding P_def
    proof (intro impI allI notI)
      fix k
      assume "ops' = ops \<and> sv' = sv \<and> react' = react \<and> goal' = goal" and "s'' = stuck k"
      then have "f ops sv react goal (stuck (Suc k)) = Some y"
        using body between(1,3) peek by (simp add: time until round nextEventTick_def test_time_def)
      then show False using IH unfolding P_def by blast
    qed
  qed
  then show ?thesis by (simp add: P_def stuck_def)
qed

text \<open>
  Ticks of several seconds never end when the next event is due between two
  seconds: the environment ticks by no second to the event, calls the workers with nothing, and
  starts over.
\<close>

theorem several_seconds_hang:
  assumes "hp_peek ops (tc_timeHeap (te_time s)) = Some e" and "test_time s < tm_timestamp e"
    and "tm_timestamp e < test_time s + tc_increment (te_time s)" and "2 \<le> seconds"
    and "\<forall>k. react (s\<lparr>te_called := te_called s @ replicate k (CallOrchestrator [])\<rparr>) = []"
  shows "test_tick ops sv react (Some (of_int seconds)) s = None"
proof -
  have "tc_increment (te_time s) * 1 \<le> tc_increment (te_time s) * seconds"
    using assms(2-4) by (intro mult_left_mono) simp_all
  then have "tm_timestamp e < test_time s + tc_increment (te_time s) * seconds" using assms(3) by simp
  from generated_stuck [where k = 0 and s' = s, OF assms(1-3) this assms(5)]
  have "tick_generated ops sv react (test_time s + tc_increment (te_time s) * seconds) s = None"
    by (cases "tick_generated ops sv react (test_time s + tc_increment (te_time s) * seconds) s") simp_all
  then show ?thesis using assms(4) by (simp add: test_tick_def test_time_def)
qed

text \<open>Workers that push an event for the current time when they are called first.\<close>

definition push_once :: "('h, 'f) reaction" where
  "push_once s = (if length (te_called s) = 1 then [TaskEnded None, Connected (PushNow (QueuePollEvent ''q''))] else [])"

definition no_services :: test_services where
  "no_services = \<lparr>ts_entities = (\<lambda>_. None), ts_streams = [], ts_buckets = []\<rparr>"

definition sample_test_env :: "(local_event timed list, string) test_env" where
  "sample_test_env = TestEnvironment list_heap [] (Some 1234)"


lemma several_seconds_hang_witness:
  "test_tick list_heap no_services (\<lambda>_. []) (Some (of_int 3))
     (test_connect list_heap (ScheduleOp 1500 (EmittedEvents [])) sample_test_env) = None"
proof (rule several_seconds_hang [where e = "\<lparr>tm_timestamp = 1500, tm_event = EmittedEvents [], tm_ord = 0\<rparr>"])
qed (simp_all add: sample_test_env_def TestEnvironment_def TimeController_def test_time_def test_add_def addEvent_def list_heap_def)

text \<open>
  Ticks of several seconds end with the group of events of the goal, whatever its workers push for
  that time: it is left to the next tick. One tick hands it out.
\<close>

lemma several_seconds_leave_events_due:
  "\<exists>s'. test_tick list_heap no_services push_once (Some 2) sample_test_env = Some (s', Inr ()) \<and>
    test_time s' = 3000 \<and> \<not> none_due mset s'"
proof -
  have env: "sample_test_env = \<lparr>te_time = \<lparr>tc_current = 1000, tc_ordCounter = 0, tc_increment = 1000, tc_start = Some 1000, tc_timeHeap = []\<rparr>,
      te_mocks = [], te_subscriptions = TestSubscriptionProvider [], te_added = [], te_handed = [], te_called = [], te_polled = []\<rparr>"
    by (simp add: sample_test_env_def TestEnvironment_def TimeController_def list_heap_def)
  show ?thesis
    by (simp add: test_tick_def env tick_generated.simps nextEventTick_def list_heap_def tickUntil_def tick_def
        drainPastEvents.simps hasCurrentOrPastEvents_def processTickEvents_def dispatch_nothing push_once_def Let_def
        queues_to_poll_def test_add_def addEvent_def none_due_def test_time_def)
qed

end
