(* ===== verification/LocalPersistence.thy ===== *)
theory LocalPersistence
  imports JsonText RuntimeUtils "HOL-Library.Multiset" "HOL-Library.Sublist"
begin

text \<open>
  core-runtime/src/local/local-persistance-store.ts: the files that the stores of the local runtime
  are saved to and loaded from.

  The file system is modelled as far as the store uses it: its files by their absolute paths, and its
  directories. Names of files are joined and normalised as \<open>path.join\<close> does on POSIX systems. Names that
  a system refuses for other reasons (too long, or with a NUL) are left out. The order in which
  \<open>readdirSync\<close> lists files is a parameter, \<open>listed\<close>.
\<close>

section \<open>Paths\<close>

fun path_from :: "string list \<Rightarrow> string list \<Rightarrow> string list" where
  "path_from p [] = p"
| "path_from p (s # ss) =
     (if s = [] \<or> s = ''.'' then path_from p ss
      else if s = ''..'' then path_from (butlast p) ss
      else path_from (p @ [s]) ss)"

definition path_join :: "string list \<Rightarrow> string \<Rightarrow> string list" where
  "path_join dir name = path_from dir (split_on CHR ''/'' name)"

section \<open>The file system\<close>

record disk =
  dk_files :: "(string list, string) omap"
  dk_dirs :: "string list list"

text \<open>Creating a directory and those it is in; it throws when one of them is a file.\<close>

definition mkdirSync :: "string list \<Rightarrow> disk \<Rightarrow> disk option" where
  "mkdirSync p d =
     (if list_ex (\<lambda>q. om_get (dk_files d) q \<noteq> None) (prefixes p) then None
      else Some (d\<lparr>dk_dirs := dk_dirs d @ filter (\<lambda>q. q \<notin> set (dk_dirs d)) (prefixes p)\<rparr>))"

definition writeFileSync :: "string list \<Rightarrow> string \<Rightarrow> disk \<Rightarrow> disk option" where
  "writeFileSync p bytes d =
     (if p \<in> set (dk_dirs d) \<or> butlast p \<notin> set (dk_dirs d) then None
      else Some (d\<lparr>dk_files := om_set p bytes (dk_files d)\<rparr>))"

section \<open>Saving\<close>

text \<open>The result is whether nothing was thrown. A name that ends with a slash is no name of a file.\<close>

definition write_entry :: "string list \<Rightarrow> string \<times> string \<Rightarrow> disk \<Rightarrow> disk \<times> bool" where
  "write_entry storePath entry d =
     (case entry of (fileName, bytes) \<Rightarrow>
        (let entryPath = path_join storePath fileName
         in case (if entryPath \<noteq> storePath then mkdirSync (butlast entryPath) d else Some d) of
              None \<Rightarrow> (d, False)
            | Some d1 \<Rightarrow>
                if ends_with fileName ''/'' then (d1, False)
                else (case writeFileSync entryPath bytes d1 of None \<Rightarrow> (d1, False) | Some d2 \<Rightarrow> (d2, True))))"

fun write_entries :: "string list \<Rightarrow> (string \<times> string) list \<Rightarrow> disk \<Rightarrow> disk \<times> bool" where
  "write_entries storePath [] d = (d, True)"
| "write_entries storePath (entry # entries) d =
     (case write_entry storePath entry d of
        (d1, False) \<Rightarrow> (d1, False)
      | (d1, True) \<Rightarrow> write_entries storePath entries d1)"

text \<open>One store: the files of the last time that are not written again are deleted.\<close>

definition save_store :: "string list \<Rightarrow> (string \<times> string) list \<Rightarrow> disk \<Rightarrow> disk \<times> bool" where
  "save_store storePath serialized d =
     (case mkdirSync storePath d of
        None \<Rightarrow> (d, False)
      | Some d0 \<Rightarrow>
          (let paths = filter (strict_prefix storePath) (map fst (dk_files d0))
           in case write_entries storePath serialized d0 of
                (d1, False) \<Rightarrow> (d1, False)
              | (d1, True) \<Rightarrow>
                  (let pathsToDelete = filter (\<lambda>p. p \<notin> set (map (\<lambda>(fileName, _). path_join storePath fileName) serialized)) paths
                   in (d1\<lparr>dk_files := filter (\<lambda>(p, _). p \<notin> set pathsToDelete) (dk_files d1)\<rparr>, True))))"

text \<open>
  All stores that were registered, in the states they have when they are saved: one that throws does not
  keep the others from being saved.
\<close>

definition save ::
  "('s \<Rightarrow> js + (string \<times> string) list) \<Rightarrow> string list \<Rightarrow> (string, 's) omap \<Rightarrow> disk \<Rightarrow> disk" where
  "save serialized_of loc stores d =
     foldl (\<lambda>d (name, serializable).
       (case serialized_of serializable of
          Inl err \<Rightarrow> d
        | Inr serialized \<Rightarrow> fst (save_store (path_join loc name) serialized d))) d stores"

section \<open>Loading\<close>

definition om_set_all :: "('k, 'v) omap \<Rightarrow> ('k \<times> 'v) list \<Rightarrow> ('k, 'v) omap" where
  "om_set_all t kvs = foldl (\<lambda>t (k, v). om_set k v t) t kvs"

text \<open>The files in a directory and the directories in it, by their paths from there.\<close>

definition stored_files :: "string list \<Rightarrow> disk \<Rightarrow> (string \<times> string) list" where
  "stored_files dirPath d =
     map (\<lambda>(p, bytes). (join_with ''/'' (drop (length dirPath) p), bytes))
       (filter (\<lambda>(p, bytes). strict_prefix dirPath p) (dk_files d))"

definition getData ::
  "((string \<times> string) list \<Rightarrow> (string \<times> string) list) \<Rightarrow> string list \<Rightarrow> disk \<Rightarrow> (string, string) omap option" where
  "getData listed dirPath d =
     (if dirPath \<in> set (dk_dirs d) then Some (om_set_all [] (listed (stored_files dirPath d))) else None)"

text \<open>A store is made of its data by its \<open>factory\<close>, which may throw, and is kept to be saved.\<close>

definition register ::
  "((string \<times> string) list \<Rightarrow> (string \<times> string) list) \<Rightarrow> string list \<Rightarrow> string \<Rightarrow>
   ((string, string) omap option \<Rightarrow> js + 's) \<Rightarrow> disk \<Rightarrow> (string, 's) omap \<Rightarrow> js + (string, 's) omap \<times> 's" where
  "register listed loc name factory d stores =
     try_bind (factory (getData listed (path_join loc name) d)) (\<lambda>store. Inr (om_set name store stores, store))"

section \<open>What is saved is read\<close>

lemma om_get_set_all: "distinct (map fst kvs) \<Longrightarrow> om_get (om_set_all t kvs) = om_get t ++ map_of kvs"
proof (induction kvs arbitrary: t)
  case (Cons kv kvs)
  obtain k v where kv: "kv = (k, v)" by (cases kv)
  have "map_of kvs k = None" using Cons.prems by (simp add: kv map_of_eq_None_iff)
  with Cons have "om_get (om_set_all (om_set k v t) kvs) = (om_get t)(k \<mapsto> v) ++ map_of kvs" by (simp add: kv om_get_set)
  also have "\<dots> = (om_get t ++ map_of kvs)(k \<mapsto> v)"
    using \<open>map_of kvs k = None\<close> by (intro map_add_upd_left) (simp add: domIff)
  finally show ?case by (simp add: om_set_all_def kv map_add_upd del: fun_upd_apply)
qed (simp add: om_set_all_def)

lemma om_inv_set_all: "om_inv t \<Longrightarrow> om_inv (om_set_all t kvs)"
  unfolding om_set_all_def by (induction kvs arbitrary: t) (auto simp: om_inv_set)

lemma om_set_all_distinct: "distinct (map fst kvs) \<Longrightarrow> om_set_all [] kvs = kvs"
  unfolding om_set_all_def by (rule from_entries_distinct)

text \<open>Names that \<open>path.join\<close> leaves as they are.\<close>

definition normal_segment :: "string \<Rightarrow> bool" where
  "normal_segment s \<longleftrightarrow> s \<noteq> [] \<and> s \<noteq> ''.'' \<and> s \<noteq> ''..''"

definition normal_name :: "string \<Rightarrow> bool" where
  "normal_name name \<longleftrightarrow> list_all normal_segment (split_on CHR ''/'' name)"

lemma path_from_normal: "list_all normal_segment ss \<Longrightarrow> path_from p ss = p @ ss"
  by (induction ss arbitrary: p) (auto simp: normal_segment_def)

lemma path_join_normal: "normal_name name \<Longrightarrow> path_join dir name = dir @ split_on CHR ''/'' name"
  by (simp add: path_join_def normal_name_def path_from_normal)

lemma split_on_end: "split_on c (s @ [c]) = split_on c s @ [[]]"
  by (induction s) (auto split: list.split)

lemma normal_name_end: "normal_name name \<Longrightarrow> \<not> ends_with name ''/''"
proof
  assume n: "normal_name name" and "ends_with name ''/''"
  then obtain s where "name = s @ ''/''" unfolding ends_with_def by (metis append_take_drop_id)
  then have "[] \<in> set (split_on CHR ''/'' name)" by (simp add: split_on_end)
  then show False using n by (auto simp: normal_name_def normal_segment_def list_all_iff)
qed

text \<open>
  No file is to be written where the disk or another name has a directory, and no directory is to be
  made where there is a file.
\<close>

definition fits :: "string list \<Rightarrow> (string \<times> string) list \<Rightarrow> disk \<Rightarrow> bool" where
  "fits storePath entries d \<longleftrightarrow>
     om_inv (dk_files d) \<and> list_all (\<lambda>q. om_get (dk_files d) q = None) (prefixes storePath) \<and>
     list_all (\<lambda>(n, x). path_join storePath n \<notin> set (dk_dirs d) \<and>
       list_all (\<lambda>(q, y). \<not> strict_prefix q (path_join storePath n)) (dk_files d) \<and>
       list_all (\<lambda>(n', y). \<not> strict_prefix (path_join storePath n') (path_join storePath n)) entries) entries"

definition room_for :: "string list set \<Rightarrow> disk \<Rightarrow> bool" where
  "room_for ps d \<longleftrightarrow> (\<forall>p \<in> ps. p \<notin> set (dk_dirs d) \<and> (\<forall>q. om_get (dk_files d) q \<noteq> None \<longrightarrow> \<not> strict_prefix q p))"

lemma write_entry_result:
  assumes room: "room_for ps d" and apart: "\<And>p q. p \<in> ps \<Longrightarrow> q \<in> ps \<Longrightarrow> \<not> strict_prefix p q"
    and name: "normal_name n" and p: "storePath @ split_on CHR ''/'' n \<in> ps" and "storePath \<in> set (dk_dirs d)"
  shows "\<exists>d'. write_entry storePath (n, x) d = (d', True) \<and> room_for ps d' \<and> storePath \<in> set (dk_dirs d') \<and>
    dk_files d' = om_set (storePath @ split_on CHR ''/'' n) x (dk_files d)"
proof -
  define p where "p = storePath @ split_on CHR ''/'' n"
  have join: "path_join storePath n = p" "p \<noteq> storePath" "p \<noteq> []" "p \<in> ps"
    using name assms(4) by (simp_all add: p_def path_join_normal)
  have "strict_prefix (butlast p) (butlast p @ [last p])" using strict_prefixI' [of "butlast p @ [last p]" "butlast p" "last p" "[]"] by simp
  then have "strict_prefix (butlast p) p" using join(3) by simp
  then have before: "q \<in> set (prefixes (butlast p)) \<Longrightarrow> strict_prefix q p" for q
    unfolding in_set_prefixes using prefix_order.le_less_trans by blast
  then have free: "\<not> list_ex (\<lambda>q. om_get (dk_files d) q \<noteq> None) (prefixes (butlast p))"
    using room join(4) unfolding list_ex_iff room_for_def by blast
  define d1 where "d1 = d\<lparr>dk_dirs := dk_dirs d @ filter (\<lambda>q. q \<notin> set (dk_dirs d)) (prefixes (butlast p))\<rparr>"
  have d1: "mkdirSync (butlast p) d = Some d1" using free by (simp add: mkdirSync_def d1_def)
  have dirs: "set (dk_dirs d1) = set (dk_dirs d) \<union> set (prefixes (butlast p))" by (auto simp: d1_def)
  have new: "q \<notin> set (dk_dirs d1)" if "q \<in> ps" for q
    using room that before apart [OF that join(4)] unfolding dirs room_for_def by blast
  define d2 where "d2 = d1\<lparr>dk_files := om_set p x (dk_files d1)\<rparr>"
  have "butlast p \<in> set (dk_dirs d1)" by (simp add: dirs)
  then have d2: "writeFileSync p x d1 = Some d2" using new [OF join(4)] by (simp add: writeFileSync_def d2_def)
  have "room_for ps d2"
    using room new apart [OF join(4)] by (auto simp: room_for_def d2_def d1_def om_get_set split: if_splits)
  moreover have "write_entry storePath (n, x) d = (d2, True)"
    using d1 d2 join normal_name_end [OF name] by (simp add: write_entry_def)
  ultimately show ?thesis using assms(5) by (simp add: d2_def d1_def p_def)
qed

lemma write_entries_result:
  assumes apart: "\<And>p q. p \<in> ps \<Longrightarrow> q \<in> ps \<Longrightarrow> \<not> strict_prefix p q"
  shows "room_for ps d \<Longrightarrow> storePath \<in> set (dk_dirs d) \<Longrightarrow>
    list_all (\<lambda>(n, x). normal_name n \<and> storePath @ split_on CHR ''/'' n \<in> ps) entries \<Longrightarrow>
    \<exists>d'. write_entries storePath entries d = (d', True) \<and> storePath \<in> set (dk_dirs d') \<and>
      dk_files d' = om_set_all (dk_files d) (map (\<lambda>(n, x). (storePath @ split_on CHR ''/'' n, x)) entries)"
proof (induction entries arbitrary: d)
  case (Cons e es)
  obtain n x where e: "e = (n, x)" by (cases e)
  from write_entry_result [OF Cons.prems(1) apart, of n storePath x] Cons.prems obtain d1 where
    1: "write_entry storePath (n, x) d = (d1, True)" "room_for ps d1" "storePath \<in> set (dk_dirs d1)"
      "dk_files d1 = om_set (storePath @ split_on CHR ''/'' n) x (dk_files d)" by (auto simp: e)
  from Cons.IH [OF 1(2,3)] Cons.prems(3) 1 show ?case by (auto simp: e om_set_all_def)
qed (simp add: om_set_all_def)

lemma saved_entries_are_read:
  assumes fits: "fits storePath entries d" and names: "list_all (\<lambda>(n, x). normal_name n) entries"
    and distinct: "distinct (map fst entries)"
  shows "\<exists>d'. save_store storePath entries d = (d', True) \<and> storePath \<in> set (dk_dirs d') \<and>
    mset (stored_files storePath d') = mset entries"
proof -
  define place where "place = (\<lambda>(n, x :: string). (storePath @ split_on CHR ''/'' n, x))"
  define ps where "ps = (\<lambda>(n, x :: string). storePath @ split_on CHR ''/'' n) ` set entries"
  have join: "path_join storePath n = storePath @ split_on CHR ''/'' n" if "(n, x) \<in> set entries" for n x
    using names that path_join_normal by (auto simp: list_all_iff)
  define d0 where "d0 = d\<lparr>dk_dirs := dk_dirs d @ filter (\<lambda>q. q \<notin> set (dk_dirs d)) (prefixes storePath)\<rparr>"
  have mk: "mkdirSync storePath d = Some d0"
    using fits unfolding fits_def mkdirSync_def d0_def by (auto simp: list_all_iff list_ex_iff)
  have apart: "\<not> strict_prefix p q" if "p \<in> ps" "q \<in> ps" for p q
  proof -
    from that obtain n x n' x' where "(n, x) \<in> set entries" "(n', x') \<in> set entries"
      "p = path_join storePath n" "q = path_join storePath n'" using join by (auto simp: ps_def)
    moreover from this(1,2) fits have "\<not> strict_prefix (path_join storePath n) (path_join storePath n')"
      unfolding fits_def list_all_iff by fast
    ultimately show ?thesis by simp
  qed
  have "room_for ps d0"
    unfolding room_for_def
  proof (intro ballI conjI allI impI)
    fix p assume "p \<in> ps"
    then obtain n x where nx: "(n, x) \<in> set entries" "p = path_join storePath n" using join by (auto simp: ps_def)
    with fits have 1: "p \<notin> set (dk_dirs d)" "\<forall>(q, y) \<in> set (dk_files d). \<not> strict_prefix q p"
      unfolding fits_def list_all_iff by auto
    have "p \<notin> set (prefixes storePath)" using nx join by (auto simp: in_set_prefixes)
    then show "p \<notin> set (dk_dirs d0)" using 1(1) by (auto simp: d0_def)
    show "\<not> strict_prefix q p" if "om_get (dk_files d0) q \<noteq> None" for q
      using that 1(2) by (auto simp: d0_def om_get_eq dest: map_of_SomeD)
  qed
  from write_entries_result [OF apart this, of storePath entries] names obtain d1 where
    d1: "write_entries storePath entries d0 = (d1, True)" "storePath \<in> set (dk_dirs d1)"
      "dk_files d1 = om_set_all (dk_files d0) (map place entries)"
    by (force simp: d0_def ps_def place_def list_all_iff)
  define old where "old = filter (strict_prefix storePath) (map fst (dk_files d0))"
  define new where "new = map (\<lambda>(n, _). path_join storePath n) entries"
  have new: "new = map fst (map place entries)" using join by (auto simp: new_def place_def)
  define d' where "d' = d1\<lparr>dk_files := filter (\<lambda>(p, _). p \<notin> set (filter (\<lambda>p. p \<notin> set new) old)) (dk_files d1)\<rparr>"
  have save: "save_store storePath entries d = (d', True)"
    by (simp only: save_store_def mk option.case Let_def d1(1) prod.case bool.case d'_def old_def new_def)
  have "inj_on (\<lambda>n. storePath @ split_on CHR ''/'' n) A" for A
    by (rule inj_onI) (metis append_same_eq same_append_eq join_split)
  then have "distinct (map (\<lambda>n. storePath @ split_on CHR ''/'' n) (map fst entries))"
    using distinct by (subst distinct_map) blast
  then have distinct': "distinct (map fst (map place entries))"
    by (simp add: place_def comp_def case_prod_beta')
  have inv: "om_inv (dk_files d1)" using fits unfolding d1(3) by (intro om_inv_set_all) (simp add: fits_def d0_def)
  define under where "under = filter (\<lambda>(p, _). strict_prefix storePath p) (dk_files d')"
  have get: "(p, x) \<in> set (dk_files d1) \<longleftrightarrow> (om_get (dk_files d0) ++ map_of (map place entries)) p = Some x" for p x
    using inv om_get_set_all [OF distinct', of "dk_files d0"] unfolding d1(3) [symmetric]
    by (simp add: om_inv_def om_get_eq flip: map_of_eq_Some_iff)
  have "set under = set (map place entries)"
  proof (rule set_eqI, clarify)
    fix p x
    have "(p, x) \<in> set under \<longleftrightarrow> (p, x) \<in> set (dk_files d1) \<and> strict_prefix storePath p \<and> (p \<in> set old \<longrightarrow> p \<in> set new)"
      by (auto simp: under_def d'_def)
    also have "\<dots> \<longleftrightarrow> map_of (map place entries) p = Some x"
    proof (cases "map_of (map place entries) p")
      case None
      then have "p \<notin> set new" unfolding new by (simp add: map_of_eq_None_iff image_image)
      moreover have "p \<in> set old" if "om_get (dk_files d0) p = Some x" "strict_prefix storePath p"
        using that map_of_SomeD [of "dk_files d0" p x] by (force simp: old_def om_get_eq)
      ultimately show ?thesis using None get [of p x] by (auto simp: map_add_def)
    next
      case (Some y)
      then have y: "(p, y) \<in> set (map place entries)" by (rule map_of_SomeD)
      from imageI [OF this, of fst] have "p \<in> set new" unfolding new by (simp only: set_map fst_conv)
      moreover from y have "strict_prefix storePath p" by (auto simp: place_def strict_prefix_def)
      ultimately show ?thesis using Some get [of p x] by (auto simp: map_add_def)
    qed
    also have "\<dots> \<longleftrightarrow> (p, x) \<in> set (map place entries)" using distinct' by (rule map_of_eq_Some_iff)
    finally show "(p, x) \<in> set under \<longleftrightarrow> (p, x) \<in> set (map place entries)" .
  qed
  moreover have "distinct (dk_files d1)" "distinct (map place entries)"
    using inv distinct' unfolding om_inv_def distinct_map [of fst] by blast+
  moreover from this(1) have "distinct under" by (simp add: under_def d'_def)
  ultimately have "mset under = mset (map place entries)" by (simp only: set_eq_iff_mset_eq_distinct)
  then have "mset (stored_files storePath d') =
      mset (map (\<lambda>(p, x). (join_with ''/'' (drop (length storePath) p), x)) (map place entries))"
    by (simp only: stored_files_def under_def [symmetric] mset_map)
  also have "map (\<lambda>(p, x). (join_with ''/'' (drop (length storePath) p), x)) (map place entries) = entries"
    by (simp add: place_def comp_def case_prod_beta' join_split)
  finally show ?thesis using save d1(2) by (auto simp: d'_def)
qed

end
