(* ===== verification/LocalBuckets.thy ===== *)
theory LocalBuckets
  imports LocalPersistence Pagination
begin

text \<open>
  core-runtime/src/local/stores/bucket-store.ts: the buckets of the local runtime, their objects, the
  events that are pushed when an object changes, listing, and the files they are saved to.

  Bodies are bytes; a text is its bytes. The properties of an object without its body, which the code
  spreads, are a list of them; one of them, \<open>expires\<close>, is a date. MD5 and \<open>localeCompare\<close> are
  parameters. Presigned URLs, which change nothing, are left out.
\<close>

section \<open>Dates\<close>

text \<open>\<open>Date.prototype.toISOString\<close>, for milliseconds since 1970: the day of the Gregorian calendar and the time.\<close>

definition padded :: "nat \<Rightarrow> int \<Rightarrow> string" where
  "padded width n = (let s = nat_str (nat n) in replicate (width - length s) CHR ''0'' @ s)"

text \<open>Year, month and day of a number of days, counted from March in eras of 400 years.\<close>

definition civil_date :: "int \<Rightarrow> int \<times> int \<times> int" where
  "civil_date days =
     (let z = days + 719468;
          era = z div 146097;
          doe = z mod 146097;
          yoe = (doe - doe div 1460 + doe div 36524 - doe div 146096) div 365;
          doy = doe - (365 * yoe + yoe div 4 - yoe div 100);
          mp = (5 * doy + 2) div 153;
          month = (if mp < 10 then mp + 3 else mp - 9)
      in (yoe + era * 400 + (if month \<le> 2 then 1 else 0), month, doy - (153 * mp + 2) div 5 + 1))"

definition year_text :: "int \<Rightarrow> string" where
  "year_text y = (if 0 \<le> y \<and> y \<le> 9999 then padded 4 y
     else if y < 0 then CHR ''-'' # padded 6 (- y) else CHR ''+'' # padded 6 y)"

definition toISOString :: "int \<Rightarrow> string" where
  "toISOString t =
     (case civil_date (t div 86400000) of
        (y, m, d) \<Rightarrow>
          (let ms = t mod 86400000
           in year_text y @ ''-'' @ padded 2 m @ ''-'' @ padded 2 d @ ''T'' @ padded 2 (ms div 3600000) @ '':'' @
              padded 2 (ms div 60000 mod 60) @ '':'' @ padded 2 (ms div 1000 mod 60) @ ''.'' @ padded 3 (ms mod 1000) @ ''Z''))"

section \<open>Objects\<close>

text \<open>A property: a value, or a date.\<close>

datatype property = PropJs js | PropDate int

text \<open>What JSON has for it: of a date its ISO text.\<close>

fun property_json :: "property \<Rightarrow> js" where
  "property_json (PropJs v) = v"
| "property_json (PropDate t) = JStr (toISOString t)"

record object_data =
  od_body :: string
  od_meta :: "(string, property) omap"

type_synonym buckets = "(string, (string, object_data) omap) omap"

text \<open>The event pushed for a change, with the size and the tag of what was put or copied.\<close>

record local_buckets =
  bs_buckets :: buckets
  bs_events :: "(bucket_event \<times> (js \<times> js) option) list"

definition prop_get :: "(string, property) omap \<Rightarrow> string \<Rightarrow> property" where
  "prop_get t name = the_default (PropJs JUndef) (om_get t name)"

text \<open>The length and the tag, which are no dates.\<close>

definition meta_get :: "object_data \<Rightarrow> string \<Rightarrow> js" where
  "meta_get obj name = (case prop_get (od_meta obj) name of PropJs v \<Rightarrow> v | PropDate t \<Rightarrow> JUndef)"

definition META_SUFFIX :: string where
  "META_SUFFIX = ''.eventual.meta.json''"

definition etag_chunk :: nat where
  "etag_chunk = 1024 * 1024 * 5"

text \<open>\<open>Buffer.from(text, "hex")\<close> of texts of even length.\<close>

fun bytes_of_hex :: "string \<Rightarrow> string" where
  "bytes_of_hex (a # b # cs) =
     (case (hex_value a, hex_value b) of
        (Some x, Some y) \<Rightarrow> char_of (16 * x + y) # bytes_of_hex cs
      | _ \<Rightarrow> [])"
| "bytes_of_hex _ = []"

definition getEtag :: "(string \<Rightarrow> string) \<Rightarrow> string \<Rightarrow> string" where
  "getEtag md5 data =
     (if length data \<le> etag_chunk then md5 data
      else (let chunksNumber = (length data + etag_chunk - 1) div etag_chunk;
                md5Chunks = map (\<lambda>i. md5 (take etag_chunk (drop (i * etag_chunk) data))) [0..<chunksNumber]
            in md5 (bytes_of_hex (concat md5Chunks)) @ ''-'' @ nat_str chunksNumber))"

definition getObjectFromMap :: "string \<Rightarrow> string \<Rightarrow> string option \<Rightarrow> local_buckets \<Rightarrow> object_data option" where
  "getObjectFromMap bucketName key etag s =
     (case om_get (bs_buckets s) bucketName of
        None \<Rightarrow> None
      | Some bucket \<Rightarrow>
          (case om_get bucket key of
             None \<Rightarrow> None
           | Some obj \<Rightarrow>
               if etag \<noteq> None \<and> etag \<noteq> Some [] \<and> JStr (the etag) \<noteq> meta_get obj ''etag'' then None else Some obj))"

definition bucket_get :: "string \<Rightarrow> string \<Rightarrow> string option \<Rightarrow> local_buckets \<Rightarrow> object_data option" where
  "bucket_get bucketName key etag s = getObjectFromMap bucketName key etag s"

definition bucket_head :: "string \<Rightarrow> string \<Rightarrow> string option \<Rightarrow> local_buckets \<Rightarrow> (string, property) omap option" where
  "bucket_head bucketName key etag s = map_option od_meta (getObjectFromMap bucketName key etag s)"

definition push_bucket_event ::
  "string \<Rightarrow> string \<Rightarrow> bucket_event_type \<Rightarrow> (js \<times> js) option \<Rightarrow> local_buckets \<Rightarrow> local_buckets" where
  "push_bucket_event bucketName key event sizeAndTag s =
     s\<lparr>bs_events := bs_events s @ [(\<lparr>be_bucketName = bucketName, be_event = event, be_key = key\<rparr>, sizeAndTag)]\<rparr>"

definition set_object :: "string \<Rightarrow> string \<Rightarrow> object_data \<Rightarrow> local_buckets \<Rightarrow> local_buckets" where
  "set_object bucketName key obj s =
     s\<lparr>bs_buckets := om_set bucketName (om_set key obj (the_default [] (om_get (bs_buckets s) bucketName))) (bs_buckets s)\<rparr>"

definition bucket_put ::
  "(string \<Rightarrow> string) \<Rightarrow> string \<Rightarrow> string \<Rightarrow> string \<Rightarrow> (string \<times> property) list \<Rightarrow> local_buckets \<Rightarrow> local_buckets \<times> string" where
  "bucket_put md5 bucketName key data options s =
     (let etag = getEtag md5 data;
          obj = \<lparr>od_body = data,
                 od_meta = om_set_all [(''contentLength'', PropJs (JNum (int (length data)))), (''etag'', PropJs (JStr etag))] options\<rparr>
      in (push_bucket_event bucketName key BucketPut (Some (JNum (int (length data)), JStr etag))
            (set_object bucketName key obj s), etag))"

definition bucket_delete :: "string \<Rightarrow> string \<Rightarrow> local_buckets \<Rightarrow> local_buckets" where
  "bucket_delete bucketName key s =
     (case om_get (bs_buckets s) bucketName of
        None \<Rightarrow> s
      | Some bucket \<Rightarrow>
          push_bucket_event bucketName key BucketDelete None
            (s\<lparr>bs_buckets := om_set bucketName (om_del key bucket) (bs_buckets s)\<rparr>))"

text \<open>\<open>options?.name ?? sourceObject.name\<close>, for each of the options.\<close>

definition copied_names :: "string list" where
  "copied_names = [''cacheControl'', ''contentEncoding'', ''contentType'', ''expires'', ''metadata'']"

fun property_or :: "property \<Rightarrow> property \<Rightarrow> property" where
  "property_or (PropJs v) q = (if v = JUndef \<or> v = JNull then q else PropJs v)"
| "property_or (PropDate t) q = PropDate t"

definition bucket_copyTo ::
  "string \<Rightarrow> string \<Rightarrow> string \<Rightarrow> string option \<Rightarrow> (string, property) omap \<Rightarrow> local_buckets \<Rightarrow> local_buckets \<times> js" where
  "bucket_copyTo bucketName key sourceKey sourceBucket options s =
     (case Option.bind (om_get (bs_buckets s) (the_default bucketName sourceBucket)) (\<lambda>b. om_get b sourceKey) of
        None \<Rightarrow> (s, JUndef)
      | Some source \<Rightarrow>
          (let sourceEtag = property_json (prop_get options ''sourceEtag'')
           in if truthy sourceEtag \<and> sourceEtag \<noteq> meta_get source ''etag'' then (s, JUndef)
              else (let obj = source\<lparr>od_meta := om_set_all (od_meta source)
                          (map (\<lambda>n. (n, property_or (prop_get options n) (prop_get (od_meta source) n))) copied_names)\<rparr>
                    in (push_bucket_event bucketName key BucketCopy
                          (Some (meta_get source ''contentLength'', meta_get source ''etag''))
                          (set_object bucketName key obj s), meta_get source ''etag''))))"

record list_request =
  lr_startAfter :: "string option"
  lr_prefix :: "string option"
  lr_maxKeys :: "nat option"
  lr_nextToken :: "string option"

definition list_selects :: "list_request \<Rightarrow> string \<Rightarrow> bool" where
  "list_selects request key \<longleftrightarrow>
     (case lr_startAfter request of None \<Rightarrow> True | Some s \<Rightarrow> s = [] \<or> str_less s key) \<and>
     (case lr_prefix request of None \<Rightarrow> True | Some p \<Rightarrow> p = [] \<or> starts_with key p)"

text \<open>The objects of a page, with their size and tag.\<close>

definition bucket_list ::
  "(string \<Rightarrow> string \<Rightarrow> int) \<Rightarrow> string \<Rightarrow> list_request \<Rightarrow> local_buckets \<Rightarrow> js + (string \<times> js \<times> js) page" where
  "bucket_list localeCompare bucketName request s =
     (case om_get (bs_buckets s) bucketName of
        None \<Rightarrow> Inr \<lparr>pg_items = [], pg_filteredCount = 0, pg_nextToken = None\<rparr>
      | Some bucket \<Rightarrow>
          try_bind (paginateItems bucket (Some (\<lambda>a b. localeCompare (fst a) (fst b)))
              (Some (\<lambda>(key, _). list_selects request key)) (Some ASC) (lr_maxKeys request) (lr_nextToken request))
            (\<lambda>p. Inr \<lparr>pg_items = map (\<lambda>(key, obj). (key, meta_get obj ''contentLength'', meta_get obj ''etag'')) (pg_items p),
               pg_filteredCount = pg_filteredCount p, pg_nextToken = pg_nextToken p\<rparr>))"

section \<open>Files\<close>

definition shortHash :: "string \<Rightarrow> string" where
  "shortHash inp = hex_nat (nat (abs (hash_loop 0 inp)))"

definition extension :: "string list \<Rightarrow> string" where
  "extension extensionParts = (if extensionParts = [] then [] else CHR ''.'' # join_with ''.'' extensionParts)"

definition object_entries :: "string \<Rightarrow> string \<times> object_data \<Rightarrow> (string \<times> string) list" where
  "object_entries bucketName entry =
     (case entry of (objectKey, obj) \<Rightarrow>
        (let prefix = hd (split_on CHR ''.'' objectKey);
             extensionParts = tl (split_on CHR ''.'' objectKey);
             randomizer = shortHash objectKey;
             key = bucketName @ ''/'' @ prefix @ ''-'' @ randomizer @ extension extensionParts;
             metaKey = bucketName @ ''/'' @ prefix @ ''-'' @ randomizer @ META_SUFFIX
         in [(key, od_body obj), (metaKey, json_text (JObj (map (\<lambda>(n, p). (n, property_json p)) (od_meta obj))))]))"

definition bucket_serialize :: "buckets \<Rightarrow> (string, string) omap" where
  "bucket_serialize buckets =
     om_set_all [] (concat (map (\<lambda>(bucketName, objects). concat (map (object_entries bucketName) objects)) buckets))"

text \<open>\<open>s.substring(0, s.lastIndexOf(c))\<close>.\<close>

definition before_last :: "char \<Rightarrow> string \<Rightarrow> string" where
  "before_last c s = (if c \<in> set s then rev (tl (dropWhile (\<lambda>d. d \<noteq> c) (rev s))) else [])"

text \<open>The bucket, the key of the object and the name of its metadata, of a file.\<close>

definition read_path :: "string \<Rightarrow> (string \<times> string \<times> string) option" where
  "read_path objKey =
     (case split_on CHR ''/'' objKey of
        bucketName # part # parts \<Rightarrow>
          (let pathParts = part # parts;
               prefix = hd (split_on CHR ''.'' (last pathParts));
               extensionParts = tl (split_on CHR ''.'' (last pathParts));
               mainKey = before_last CHR ''-'' prefix;
               keyWithoutExtension = join_with ''/'' (butlast pathParts @ [mainKey])
           in Some (bucketName, keyWithoutExtension @ extension extensionParts,
                join_with ''/'' (bucketName # butlast pathParts @ [prefix]) @ META_SUFFIX))
      | _ \<Rightarrow> None)"

definition no_meta :: "(string, js) omap" where
  "no_meta = [(''contentLength'', JNum 0), (''etag'', JStr '''')]"

text \<open>What is parsed has no dates: they are not made of their texts again.\<close>

definition load_object :: "(string, string) omap \<Rightarrow> string \<times> string \<Rightarrow> buckets \<Rightarrow> js + buckets" where
  "load_object data entry buckets =
     (case entry of (objKey, body) \<Rightarrow>
        (case read_path objKey of
           None \<Rightarrow> Inl (mk_TypeError ''Cannot read properties of undefined (reading 'split')'')
         | Some (bucketName, key, metakey) \<Rightarrow>
             try_bind (case om_get data metakey of
                 None \<Rightarrow> Inr no_meta
               | Some content \<Rightarrow>
                   (case json_parse content of
                      Some v \<Rightarrow> Inr (own_entries v)
                    | None \<Rightarrow> Inl (JErr EError ''SyntaxError'' ''Unexpected token in JSON'')))
               (\<lambda>meta. Inr (om_set bucketName (om_set key \<lparr>od_body = body, od_meta = map (\<lambda>(n, v). (n, PropJs v)) meta\<rparr>
                  (the_default [] (om_get buckets bucketName))) buckets))))"

fun load_objects :: "(string, string) omap \<Rightarrow> (string \<times> string) list \<Rightarrow> buckets \<Rightarrow> js + buckets" where
  "load_objects data [] buckets = Inr buckets"
| "load_objects data (entry # entries) buckets =
     try_bind (load_object data entry buckets) (load_objects data entries)"

definition bucket_fromSerializedData :: "(string, string) omap option \<Rightarrow> js + buckets" where
  "bucket_fromSerializedData data =
     (case data of
        None \<Rightarrow> Inr []
      | Some data \<Rightarrow> load_objects data (filter (\<lambda>(name, _). \<not> ends_with name META_SUFFIX) data) [])"

end
