(* ===== verification/LocalBucketFiles.thy ===== *)
theory LocalBucketFiles
  imports LocalBuckets
begin

text \<open>
  The files of the local buckets on disk: what is saved is loaded again, and which keys and dates get
  lost; reading after writing, and listing page by page.
\<close>

section \<open>Names of files\<close>

lemma set_hex_nat: "set (hex_nat n) \<subseteq> set ''0123456789abcdef''"
proof (induction n rule: hex_nat.induct)
  case (1 n)
  have "hex_digit i \<in> set ''0123456789abcdef''" if "i < 16" for i
    unfolding hex_digit_def by (rule nth_mem) (use that in simp)
  then show ?case using 1 by (subst hex_nat.simps) auto
qed

lemma shortHash_plain [simp]:
  "CHR ''-'' \<notin> set (shortHash k)" "CHR ''.'' \<notin> set (shortHash k)" "CHR ''/'' \<notin> set (shortHash k)"
  using set_hex_nat [of "nat (abs (hash_loop 0 k))"] unfolding shortHash_def by auto

lemma before_last_sep: "c \<notin> set b \<Longrightarrow> before_last c (a @ c # b) = a"
proof -
  assume "c \<notin> set b"
  then have "dropWhile (\<lambda>d. d \<noteq> c) (rev b @ c # rev a) = c # rev a" by (subst dropWhile_append2) auto
  then show ?thesis by (simp add: before_last_def)
qed

lemma split_on_append:
  assumes "c \<notin> set t"
  shows "split_on c (s @ t) = butlast (split_on c s) @ [last (split_on c s) @ t]"
proof (induction s)
  case Nil
  then show ?case using assms by (simp add: split_on_no_sep)
next
  case (Cons x s)
  obtain p ps where "split_on c s = p # ps" by (cases "split_on c s") auto
  with Cons show ?case by (cases ps) auto
qed

lemma join_with_butlast: "ps \<noteq> [] \<Longrightarrow> join_with sep (butlast ps @ [last ps]) = join_with sep ps"
  by simp

lemma join_with_append_last: "ps \<noteq> [] \<Longrightarrow> join_with sep (butlast ps @ [last ps @ t]) = join_with sep ps @ t"
proof (induction sep ps rule: join_with.induct)
  case (3 sep p q ps)
  then show ?case by (cases ps) auto
qed simp_all

lemma join_with_Cons: "ps \<noteq> [] \<Longrightarrow> join_with sep (p # ps) = p @ sep @ join_with sep ps"
  by (cases ps) simp_all

text \<open>The parts of a key before and after its first dot.\<close>

definition key_prefix :: "string \<Rightarrow> string" where
  "key_prefix k = hd (split_on CHR ''.'' k)"

definition key_extension :: "string \<Rightarrow> string" where
  "key_extension k = extension (tl (split_on CHR ''.'' k))"

definition file_key :: "string \<Rightarrow> string \<Rightarrow> string" where
  "file_key b k = b @ ''/'' @ key_prefix k @ ''-'' @ shortHash k @ key_extension k"

definition meta_key :: "string \<Rightarrow> string \<Rightarrow> string" where
  "meta_key b k = b @ ''/'' @ key_prefix k @ ''-'' @ shortHash k @ META_SUFFIX"

text \<open>The properties as they are saved.\<close>

definition meta_json :: "object_data \<Rightarrow> js" where
  "meta_json obj = JObj (map (\<lambda>(n, p). (n, property_json p)) (od_meta obj))"

lemma object_entries_eq:
  "object_entries b (k, obj) = [(file_key b k, od_body obj), (meta_key b k, json_text (meta_json obj))]"
  by (simp add: object_entries_def meta_json_def file_key_def meta_key_def key_prefix_def key_extension_def Let_def)

lemma key_parts: "key_prefix k @ key_extension k = k"
proof -
  obtain p ps where ps: "split_on CHR ''.'' k = p # ps" by (cases "split_on CHR ''.'' k") auto
  then show ?thesis using join_split [of "CHR ''.''" k]
    by (cases ps) (simp_all add: key_prefix_def key_extension_def extension_def)
qed

lemma key_prefix_no_dot [simp]: "CHR ''.'' \<notin> set (key_prefix k)"
  unfolding key_prefix_def using split_on_parts [of _ "CHR ''.''" k] list.set_sel(1) [OF split_on_nonempty] by metis

text \<open>A key whose directories have no dot and are not empty; a name of metadata is not a key.\<close>

definition storable_key :: "string \<Rightarrow> bool" where
  "storable_key k \<longleftrightarrow> CHR ''/'' \<notin> set (key_extension k) \<and> [] \<notin> set (butlast (split_on CHR ''/'' k)) \<and>
     \<not> ends_with k META_SUFFIX"

lemma split_extension:
  assumes "CHR ''.'' \<notin> set p"
  shows "split_on CHR ''.'' (p @ key_extension k) = p # tl (split_on CHR ''.'' k)"
proof -
  obtain q qs where qs: "split_on CHR ''.'' k = q # qs" by (cases "split_on CHR ''.'' k") auto
  show ?thesis
  proof (cases qs)
    case Nil
    then show ?thesis using assms qs by (simp add: key_extension_def extension_def split_on_no_sep)
  next
    case (Cons r rs)
    have k: "k = key_prefix k @ CHR ''.'' # join_with ''.'' qs"
      using key_parts [of k] Cons qs by (simp add: key_extension_def extension_def)
    have "split_on CHR ''.'' k = key_prefix k # split_on CHR ''.'' (join_with ''.'' qs)"
      by (subst k) (rule split_on_sep [OF key_prefix_no_dot])
    then have "split_on CHR ''.'' (join_with ''.'' qs) = qs" using qs by simp
    then show ?thesis using assms qs Cons split_on_sep [OF assms] by (simp add: key_extension_def extension_def)
  qed
qed

lemma read_file_key:
  assumes b: "CHR ''/'' \<notin> set b" and k: "CHR ''/'' \<notin> set (key_extension k)"
  shows "read_path (file_key b k) = Some (b, k, meta_key b k)"
proof -
  define ds where "ds = split_on CHR ''/'' (key_prefix k)"
  define tail where "tail = CHR ''-'' # shortHash k"
  have ds: "ds \<noteq> []" by (simp add: ds_def)
  have slash: "CHR ''/'' \<notin> set (tail @ key_extension k)" using k by (simp add: tail_def)
  have "file_key b k = b @ CHR ''/'' # (key_prefix k @ tail @ key_extension k)"
    by (simp add: file_key_def tail_def)
  then have split: "split_on CHR ''/'' (file_key b k) = b # butlast ds @ [last ds @ tail @ key_extension k]"
    using split_on_sep [OF b] split_on_append [OF slash, of "key_prefix k"] by (simp add: ds_def)
  obtain part parts where parts: "butlast ds @ [last ds @ tail @ key_extension k] = part # parts"
    by (cases "butlast ds @ [last ds @ tail @ key_extension k]") auto
  have "last ds \<in> set ds" using ds by simp
  then have "set (last ds) \<subseteq> set (join_with ''/'' ds)"
  proof (induction "''/''" ds rule: join_with.induct)
    case (3 p q ps)
    then show ?case by (auto split: if_splits)
  qed auto
  also have "join_with ''/'' ds = key_prefix k" unfolding ds_def by (rule join_split)
  finally have dot: "CHR ''.'' \<notin> set (last ds @ tail)" by (auto simp: tail_def dest: subsetD)
  have lastpart: "split_on CHR ''.'' (last (part # parts)) = (last ds @ tail) # tl (split_on CHR ''.'' k)"
    unfolding parts [symmetric] using split_extension [OF dot, of k] by simp
  have main: "before_last CHR ''-'' (last ds @ tail) = last ds" unfolding tail_def by (rule before_last_sep) simp
  have blast: "butlast (part # parts) = butlast ds" unfolding parts [symmetric] by simp
  have join: "join_with ''/'' (butlast ds @ [last ds]) = key_prefix k"
    using ds join_split [of "CHR ''/''" "key_prefix k"] by (simp add: ds_def)
  have meta: "join_with ''/'' (b # butlast ds @ [last ds @ tail]) @ META_SUFFIX = meta_key b k"
    using join_with_append_last [OF ds, of "''/''" tail] join_split [of "CHR ''/''" "key_prefix k"]
    by (simp add: join_with_Cons meta_key_def tail_def ds_def)
  have key: "key_prefix k @ extension (tl (split_on CHR ''.'' k)) = k"
    using key_parts [of k] by (simp add: key_extension_def)
  show ?thesis
    by (simp only: read_path_def split parts list.case Let_def lastpart list.sel main blast join meta key)
qed

text \<open>The names of the files of an object are its own.\<close>

lemma file_key_inject:
  assumes "CHR ''/'' \<notin> set b" "CHR ''/'' \<notin> set b'" "storable_key k" "storable_key k'" and "file_key b k = file_key b' k'"
  shows "b = b' \<and> k = k'"
proof -
  have "read_path (file_key b k) = Some (b, k, meta_key b k)" "read_path (file_key b' k') = Some (b', k', meta_key b' k')"
    by (rule read_file_key; use assms in \<open>simp add: storable_key_def\<close>)+
  then show ?thesis unfolding assms(5) by simp
qed

lemma meta_key_inject:
  assumes "CHR ''/'' \<notin> set b" "CHR ''/'' \<notin> set b'" and "meta_key b k = meta_key b' k'"
  shows "b = b' \<and> key_prefix k = key_prefix k' \<and> shortHash k = shortHash k'"
proof -
  have "b = b'" "key_prefix k @ CHR ''-'' # shortHash k = key_prefix k' @ CHR ''-'' # shortHash k'"
    using assms append_sep_inject [of "CHR ''/''" b b'] by (simp_all add: meta_key_def)
  moreover from this(2) have "rev (key_prefix k @ CHR ''-'' # shortHash k) = rev (key_prefix k' @ CHR ''-'' # shortHash k')"
    by simp
  then have "rev (shortHash k) @ CHR ''-'' # rev (key_prefix k) = rev (shortHash k') @ CHR ''-'' # rev (key_prefix k')" by simp
  ultimately show ?thesis using append_sep_inject [of "CHR ''-''" "rev (shortHash k)" "rev (shortHash k')"] by simp
qed

lemma meta_key_suffix [simp]: "ends_with (meta_key b k) META_SUFFIX"
  by (simp add: ends_with_def meta_key_def)

lemma file_key_suffix:
  assumes "storable_key k"
  shows "\<not> ends_with (file_key b k) META_SUFFIX"
proof
  assume "ends_with (file_key b k) META_SUFFIX"
  then have "take (length (file_key b k) - length META_SUFFIX) (file_key b k) @ META_SUFFIX = file_key b k"
    unfolding ends_with_def by (metis append_take_drop_id)
  then obtain x where x: "x @ META_SUFFIX = file_key b k" by blast
  obtain m where m: "META_SUFFIX = CHR ''.'' # m" by (simp add: META_SUFFIX_def)
  have "\<exists>y. key_extension k = y @ META_SUFFIX"
  proof -
    define h where "h = key_prefix k @ CHR ''-'' # shortHash k"
    have h: "CHR ''.'' \<notin> set h" by (simp add: h_def)
    have eq: "x @ META_SUFFIX = (b @ CHR ''/'' # h) @ key_extension k" using x by (simp add: file_key_def h_def)
    consider y where "y @ META_SUFFIX = key_extension k" | y where "x @ y = (b @ [CHR ''/'']) @ h" "META_SUFFIX = y @ key_extension k"
    proof -
      from eq have "x @ META_SUFFIX = ((b @ [CHR ''/'']) @ h) @ key_extension k" by simp
      then obtain y where "x = ((b @ [CHR ''/'']) @ h) @ y \<and> y @ META_SUFFIX = key_extension k \<or>
          x @ y = (b @ [CHR ''/'']) @ h \<and> META_SUFFIX = y @ key_extension k"
        unfolding append_eq_append_conv2 [of x META_SUFFIX] by blast
      then show thesis using that by blast
    qed
    then show ?thesis
    proof cases
      case (1 y)
      then show ?thesis by metis
    next
      case (2 y)
      have "y = []"
      proof (rule ccontr)
        assume "y \<noteq> []"
        then have dot: "CHR ''.'' \<in> set y" using 2(2) \<open>y \<noteq> []\<close> unfolding m by (cases y) auto
        have "set y \<subseteq> set META_SUFFIX" by (subst 2(2)) simp
        then have slash: "CHR ''/'' \<notin> set y" by (auto simp: META_SUFFIX_def)
        from 2(1) consider z where "z @ y = h" | z where "x @ z = b @ [CHR ''/'']" "y = z @ h"
        proof -
          from 2(1) obtain z where "x = (b @ [CHR ''/'']) @ z \<and> z @ y = h \<or> x @ z = b @ [CHR ''/''] \<and> y = z @ h"
            unfolding append_eq_append_conv2 [of x y] by blast
          then show thesis using that by blast
        qed
        then show False
        proof cases
          case (1 z)
          then show False using dot h by auto
        next
          case (2 z)
          then show False using dot slash h by (cases z rule: rev_cases) auto
        qed
      qed
      then show ?thesis using 2(2) by (metis append_Nil)
    qed
  qed
  then obtain y where "key_extension k = y @ META_SUFFIX" by blast
  then have "k = (key_prefix k @ y) @ META_SUFFIX" using key_parts [of k] by (metis append.assoc)
  then have "ends_with k META_SUFFIX" unfolding ends_with_def by (metis append_eq_conv_conj length_append le_add2 add_diff_cancel_right')
  then show False using assms by (simp add: storable_key_def)
qed

section \<open>What is saved is loaded\<close>

definition bucket_lookup :: "buckets \<Rightarrow> string \<Rightarrow> string \<Rightarrow> object_data option" where
  "bucket_lookup buckets b k = Option.bind (om_get buckets b) (\<lambda>objects. om_get objects k)"

text \<open>A property that is undefined is not saved, and a date comes back as its ISO text.\<close>

definition saved_object :: "object_data \<Rightarrow> object_data" where
  "saved_object obj =
     \<lparr>od_body = od_body obj,
      od_meta = map (\<lambda>(n, p). (n, PropJs (property_json p))) (filter (\<lambda>(n, p). p \<noteq> PropJs JUndef) (od_meta obj))\<rparr>"

text \<open>JSON keeps the other values.\<close>

definition savable_object :: "object_data \<Rightarrow> bool" where
  "savable_object obj \<longleftrightarrow>
     json_data (JObj (map (\<lambda>(n, p). (n, property_json p)) (filter (\<lambda>(n, p). p \<noteq> PropJs JUndef) (od_meta obj))))"

definition objects_of :: "buckets \<Rightarrow> (string \<times> string \<times> object_data) list" where
  "objects_of buckets = concat (map (\<lambda>(b, objects). map (\<lambda>(k, obj). (b, k, obj)) objects) buckets)"

text \<open>
  Names of buckets have no slash and are not those of the directory itself or the one it is in, keys
  are storable, and the keys of a bucket that only differ in their extension differ in their hash.
\<close>

definition savable :: "buckets \<Rightarrow> bool" where
  "savable buckets \<longleftrightarrow> om_inv buckets \<and>
     (\<forall>(b, objects) \<in> set buckets. om_inv objects \<and> CHR ''/'' \<notin> set b \<and> normal_segment b \<and>
        (\<forall>(k, obj) \<in> set objects. storable_key k \<and> savable_object obj \<and>
           (\<forall>(k', obj') \<in> set objects. key_prefix k = key_prefix k' \<and> shortHash k = shortHash k' \<longrightarrow> k = k')))"

definition place_object :: "string \<times> string \<times> object_data \<Rightarrow> buckets \<Rightarrow> buckets" where
  "place_object x buckets =
     (case x of (b, k, obj) \<Rightarrow> om_set b (om_set k (saved_object obj) (the_default [] (om_get buckets b))) buckets)"

lemma lookup_place:
  "bucket_lookup (place_object (b, k, obj) t) b' k' =
    (if b' = b \<and> k' = k then Some (saved_object obj) else bucket_lookup t b' k')"
proof -
  have "om_get [] k' = None" by (simp add: om_get_def)
  then show ?thesis by (auto simp: bucket_lookup_def place_object_def om_get_set the_default_def split: option.split)
qed

lemma lookup_placed:
  "distinct (map (\<lambda>(b, k, obj). (b, k)) xs) \<Longrightarrow>
   bucket_lookup (fold place_object xs t) b k =
     (case map_of (map (\<lambda>(b, k, obj). ((b, k), obj)) xs) (b, k) of
        Some obj \<Rightarrow> Some (saved_object obj) | None \<Rightarrow> bucket_lookup t b k)"
proof (induction xs arbitrary: t)
  case (Cons x xs)
  obtain b' k' obj where x: "x = (b', k', obj)" by (cases x)
  have "map_of (map (\<lambda>(b, k, obj). ((b, k), obj)) xs) (b', k') = None"
    using Cons.prems by (force simp: x map_of_eq_None_iff)
  then show ?case using Cons by (auto simp: x lookup_place split: option.split)
qed simp

lemma property_json_undef: "property_json p = JUndef \<longleftrightarrow> p = PropJs JUndef"
  by (cases p) simp_all

lemma json_text_defined:
  "json_text (JObj (map (\<lambda>(n, p). (n, property_json p)) (filter (\<lambda>(n, p). p \<noteq> PropJs JUndef) (od_meta obj)))) =
   json_text (meta_json obj)"
proof -
  have "json_text (JObj (filter (\<lambda>(n, x). x \<noteq> JUndef) fs)) = json_text (JObj fs)" for fs
    by (simp add: json_text_def)
  moreover have "map (\<lambda>(n, p). (n, property_json p)) (filter (\<lambda>(n, p). p \<noteq> PropJs JUndef) ms) =
      filter (\<lambda>(n, x). x \<noteq> JUndef) (map (\<lambda>(n, p). (n, property_json p)) ms)" for ms :: "(string \<times> property) list"
    by (simp add: filter_map comp_def case_prod_beta' property_json_undef)
  ultimately show ?thesis by (simp only: meta_json_def)
qed

lemma load_all:
  assumes "\<forall>(b, k, obj) \<in> set xs. CHR ''/'' \<notin> set b \<and> storable_key k \<and> savable_object obj \<and>
    om_get data (meta_key b k) = Some (json_text (meta_json obj))"
  shows "load_objects data (map (\<lambda>(b, k, obj). (file_key b k, od_body obj)) xs) t = Inr (fold place_object xs t)"
  using assms
proof (induction xs arbitrary: t)
  case (Cons x xs)
  obtain b k obj where x: "x = (b, k, obj)" by (cases x)
  have "read_path (file_key b k) = Some (b, k, meta_key b k)"
    using Cons.prems by (intro read_file_key) (auto simp: x storable_key_def)
  moreover have "json_parse (json_text (meta_json obj)) = Some (JObj (map (\<lambda>(n, p). (n, property_json p))
      (filter (\<lambda>(n, p). p \<noteq> PropJs JUndef) (od_meta obj))))"
    unfolding json_text_defined [symmetric] using Cons.prems
    by (intro json_parse_stringify) (simp add: x savable_object_def)
  ultimately have "load_object data (file_key b k, od_body obj) t = Inr (place_object (b, k, obj) t)"
    using Cons.prems by (simp add: x load_object_def place_object_def saved_object_def comp_def case_prod_beta')
  then show ?case using Cons by (simp add: x)
qed simp

lemma lookup_iff:
  assumes "savable buckets"
  shows "bucket_lookup buckets b k = Some obj \<longleftrightarrow> (b, k, obj) \<in> set (objects_of buckets)"
proof -
  have "om_get buckets b = Some os \<longleftrightarrow> (b, os) \<in> set buckets" for os
    using assms by (auto simp: savable_def om_inv_def om_get_eq intro: map_of_SomeD)
  moreover have "om_get os k = Some obj \<longleftrightarrow> (k, obj) \<in> set os" if "(b, os) \<in> set buckets" for os
    using assms that by (auto simp: savable_def om_inv_def om_get_eq intro: map_of_SomeD)
  ultimately show ?thesis by (fastforce simp: bucket_lookup_def objects_of_def bind_eq_Some_conv)
qed

lemma distinct_objects:
  assumes "savable buckets"
  shows "distinct (map (\<lambda>(b, k, obj). (b, k)) (objects_of buckets))"
proof -
  have "distinct (map fst buckets)" "\<forall>(b, objects) \<in> set buckets. distinct (map fst objects)"
    using assms by (auto simp: savable_def om_inv_def)
  then show ?thesis
  proof (induction buckets)
    case (Cons x bs)
    obtain b objects where x: "x = (b, objects)" by (cases x)
    have "map (\<lambda>(b, k, obj). (b, k)) (map (\<lambda>(k, obj). (b, k, obj)) objects) = map (Pair b) (map fst objects)"
      by (simp add: case_prod_beta' comp_def)
    moreover have "distinct (map (Pair b) (map fst objects))"
      using Cons.prems by (simp add: x distinct_map inj_on_def)
    moreover have "map (\<lambda>(b, k, obj). (b, k)) (objects_of (x # bs)) =
        map (\<lambda>(b, k, obj). (b, k)) (map (\<lambda>(k, obj). (b, k, obj)) objects) @ map (\<lambda>(b, k, obj). (b, k)) (objects_of bs)"
      by (simp add: x objects_of_def)
    moreover have "set (map (Pair b) (map fst objects)) \<inter> set (map (\<lambda>(b, k, obj). (b, k)) (objects_of bs)) = {}"
    proof -
      have "b' \<in> fst ` set bs" if "(b', k) \<in> set (map (\<lambda>(b, k, obj). (b, k)) (objects_of bs))" for b' k
      proof -
        from that obtain obj where "(b', k, obj) \<in> set (objects_of bs)" by auto
        then obtain os where "(b', os) \<in> set bs" by (auto simp: objects_of_def)
        then show ?thesis by (metis fst_conv image_eqI)
      qed
      moreover have "b \<notin> fst ` set bs" using Cons.prems by (simp add: x)
      moreover have "p = (b, snd p)" if "p \<in> set (map (Pair b) (map fst objects))" for p using that by auto
      ultimately show ?thesis by (metis disjoint_iff)
    qed
    moreover have "distinct (map (\<lambda>(b, k, obj). (b, k)) (objects_of bs))" using Cons by simp
    ultimately show ?case by (simp only: distinct_append simp_thms)
  qed (simp add: objects_of_def)
qed

definition all_entries :: "buckets \<Rightarrow> (string \<times> string) list" where
  "all_entries buckets = concat (map (\<lambda>(b, k, obj). object_entries b (k, obj)) (objects_of buckets))"

lemma serialize_entries: "bucket_serialize buckets = om_set_all [] (all_entries buckets)"
proof -
  have bucket: "map (object_entries b) objects = map (\<lambda>(b, k, obj). object_entries b (k, obj)) (map (\<lambda>(k, obj). (b, k, obj)) objects)" for b objects
    by simp
  have "concat (map (\<lambda>(b, objects). concat (map (object_entries b) objects)) buckets) = all_entries buckets"
  proof (induction buckets)
    case (Cons x bs)
    obtain b objects where x: "x = (b, objects)" by (cases x)
    have "all_entries (x # bs) = concat (map (object_entries b) objects) @ all_entries bs"
      unfolding bucket by (simp add: all_entries_def objects_of_def x del: map_map)
    then show ?case using Cons by (simp add: x)
  qed (simp add: all_entries_def objects_of_def)
  then show ?thesis by (simp add: bucket_serialize_def)
qed

lemma in_objects:
  assumes "savable buckets" and "(b, k, obj) \<in> set (objects_of buckets)"
  shows "CHR ''/'' \<notin> set b" and "storable_key k" and "savable_object obj"
    and "(b, k', obj') \<in> set (objects_of buckets) \<Longrightarrow> key_prefix k = key_prefix k' \<Longrightarrow> shortHash k = shortHash k' \<Longrightarrow> k = k'"
    and "normal_segment b"
proof -
  from assms(2) obtain os where os: "(b, os) \<in> set buckets" "(k, obj) \<in> set os" by (auto simp: objects_of_def)
  define good where "good k obj \<longleftrightarrow> storable_key k \<and> savable_object obj \<and>
     (\<forall>(k', obj') \<in> set os. key_prefix k = key_prefix k' \<and> shortHash k = shortHash k' \<longrightarrow> k = k')" for k obj
  from assms(1) have "\<forall>(b, objects) \<in> set buckets. om_inv objects \<and> CHR ''/'' \<notin> set b \<and> normal_segment b \<and>
      (\<forall>(k, obj) \<in> set objects. storable_key k \<and> savable_object obj \<and>
         (\<forall>(k', obj') \<in> set objects. key_prefix k = key_prefix k' \<and> shortHash k = shortHash k' \<longrightarrow> k = k'))"
    unfolding savable_def by (rule conjunct2)
  from bspec [OF this os(1)] have ok: "CHR ''/'' \<notin> set b" "normal_segment b" "\<forall>(k, obj) \<in> set os. good k obj"
    unfolding good_def prod.case by blast+
  show "CHR ''/'' \<notin> set b" "normal_segment b" by (rule ok(1,2))+
  from bspec [OF ok(3) os(2)] have k: "storable_key k \<and> savable_object obj \<and>
      (\<forall>(k', obj') \<in> set os. key_prefix k = key_prefix k' \<and> shortHash k = shortHash k' \<longrightarrow> k = k')"
    unfolding good_def prod.case .
  then show "storable_key k" "savable_object obj" by blast+
  assume "(b, k', obj') \<in> set (objects_of buckets)" and same: "key_prefix k = key_prefix k'" "shortHash k = shortHash k'"
  then obtain os' where os': "(b, os') \<in> set buckets" "(k', obj') \<in> set os'" by (auto simp: objects_of_def)
  have "distinct (map fst buckets)" using assms(1) by (simp add: savable_def om_inv_def)
  then have "os' = os" using os(1) os'(1) eq_key_imp_eq_value by metis
  then show "k = k'" using k same os'(2) by fast
qed

lemma distinct_entries:
  assumes "savable buckets"
  shows "distinct (map fst (all_entries buckets))"
proof -
  have "distinct (concat (map (\<lambda>(b, k, obj). [file_key b k, meta_key b k]) xs))"
    if "set xs \<subseteq> set (objects_of buckets)" "distinct (map (\<lambda>(b, k, obj). (b, k)) xs)" for xs
    using that
  proof (induction xs)
    case (Cons x xs)
    obtain b k obj where x: "x = (b, k, obj)" by (cases x)
    have mem: "(b, k, obj) \<in> set (objects_of buckets)" using Cons.prems(1) by (simp add: x)
    have "file_key b k \<noteq> file_key b' k' \<and> file_key b k \<noteq> meta_key b' k' \<and> meta_key b k \<noteq> file_key b' k' \<and> meta_key b k \<noteq> meta_key b' k'"
      if other: "(b', k', obj') \<in> set xs" for b' k' obj'
    proof -
      have mem': "(b', k', obj') \<in> set (objects_of buckets)" using Cons.prems(1) other by auto
      have ne: "\<not> (b' = b \<and> k' = k)" using Cons.prems(2) other by (force simp: x)
      note o = in_objects(1-4) [OF assms mem] in_objects(1-4) [OF assms mem']
      have "file_key b k \<noteq> file_key b' k'" using file_key_inject [OF o(1) o(5) o(2) o(6)] ne by blast
      moreover have "meta_key b k \<noteq> meta_key b' k'"
        using meta_key_inject [OF o(1) o(5), of k k'] ne o(4) [of k' obj'] mem' by blast
      moreover have "file_key b k \<noteq> meta_key b' k'" "meta_key b k \<noteq> file_key b' k'"
        using file_key_suffix [OF o(2), of b] file_key_suffix [OF o(6), of b'] meta_key_suffix by metis+
      ultimately show ?thesis by blast
    qed
    moreover have "file_key b k \<noteq> meta_key b k"
      using file_key_suffix [OF in_objects(2) [OF assms mem], of b] meta_key_suffix by metis
    ultimately show ?case using Cons by (auto simp: x)
  qed simp
  from this [OF order_refl distinct_objects [OF assms]] show ?thesis
    by (simp add: all_entries_def map_concat comp_def case_prod_beta' object_entries_eq)
qed

section \<open>Names on the disk\<close>

lemma split_on_subset: "p \<in> set (split_on c s) \<Longrightarrow> set p \<subseteq> set s"
  by (induction s arbitrary: p) (fastforce split: if_splits list.splits)+

lemma object_name_normal:
  assumes b: "normal_segment b" "CHR ''/'' \<notin> set b" and k: "storable_key k" and e: "CHR ''/'' \<notin> set e"
  shows "normal_name (b @ ''/'' @ key_prefix k @ ''-'' @ shortHash k @ e)"
proof -
  define ds where "ds = split_on CHR ''/'' (key_prefix k)"
  define tail where "tail = CHR ''-'' # shortHash k @ e"
  have "CHR ''/'' \<notin> set tail" using e by (simp add: tail_def)
  then have split: "split_on CHR ''/'' (b @ CHR ''/'' # key_prefix k @ tail) = b # butlast ds @ [last ds @ tail]"
    using split_on_sep [OF b(2)] split_on_append by (simp add: ds_def)
  have "split_on CHR ''/'' (key_prefix k @ key_extension k) = butlast ds @ [last ds @ key_extension k]"
    using k split_on_append by (simp add: storable_key_def ds_def)
  then have "[] \<notin> set (butlast ds)" using k by (simp add: storable_key_def key_parts)
  moreover have "CHR ''.'' \<notin> set p" if "p \<in> set (butlast ds)" for p
    using split_on_subset [of p "CHR ''/''" "key_prefix k"] in_set_butlastD [OF that] key_prefix_no_dot by (auto simp: ds_def)
  ultimately have "list_all normal_segment (butlast ds)"
    by (fastforce simp: list_all_iff normal_segment_def)
  moreover have "normal_segment (last ds @ tail)"
  proof -
    define name where "name = last ds @ tail"
    have "CHR ''-'' \<in> set name" by (simp add: name_def tail_def)
    then show ?thesis unfolding name_def [symmetric] by (auto simp: normal_segment_def)
  qed
  ultimately have "normal_name (b @ CHR ''/'' # key_prefix k @ tail)" using b(1) by (simp add: normal_name_def split)
  then show ?thesis by (simp add: tail_def)
qed

lemma entries_normal:
  assumes "savable buckets"
  shows "list_all (\<lambda>(n, x). normal_name n) (all_entries buckets)"
proof -
  have "normal_name (file_key b k)" "normal_name (meta_key b k)" if "(b, k, obj) \<in> set (objects_of buckets)" for b k obj
  proof -
    note o = in_objects(1,2,5) [OF assms that]
    show "normal_name (file_key b k)"
      unfolding file_key_def by (rule object_name_normal [OF o(3,1,2)]) (use o(2) in \<open>simp add: storable_key_def\<close>)
    show "normal_name (meta_key b k)"
      unfolding meta_key_def by (rule object_name_normal [OF o(3,1,2)]) (simp add: META_SUFFIX_def)
  qed
  then show ?thesis by (fastforce simp: all_entries_def list_all_iff object_entries_eq)
qed

lemma mset_map_back: "mset zs = mset (map f xs) \<Longrightarrow> \<exists>ys. mset ys = mset xs \<and> map f ys = zs"
proof (induction zs arbitrary: xs)
  case (Cons z zs)
  then have "z \<in> f ` set xs" using mset_eq_setD [OF Cons.prems] by auto
  then obtain x where x: "x \<in> set xs" "z = f x" by blast
  then have "mset xs = add_mset x (mset (remove1 x xs))" by simp
  then have "mset zs = mset (map f (remove1 x xs))" using Cons.prems x(2) by (simp del: mset_remove1)
  from Cons.IH [OF this] obtain ys where "mset ys = mset (remove1 x xs)" "map f ys = zs" by blast
  then have "mset (x # ys) = mset xs" "map f (x # ys) = z # zs" using x by simp_all
  then show ?case by (intro exI [of _ "x # ys"] conjI)
qed simp

text \<open>Whatever the order in which the files are listed, the objects are loaded from them.\<close>

lemma load_in_any_order:
  assumes savable: "savable buckets" and data: "mset data = mset (all_entries buckets)"
  shows "\<exists>loaded. bucket_fromSerializedData (Some data) = Inr loaded \<and>
    (\<forall>b k. bucket_lookup loaded b k = map_option saved_object (bucket_lookup buckets b k))"
proof -
  define xs where "xs = objects_of buckets"
  have "filter (\<lambda>(name, _). \<not> ends_with name META_SUFFIX) (concat (map (\<lambda>(b, k, obj). object_entries b (k, obj)) ys)) =
      map (\<lambda>(b, k, obj). (file_key b k, od_body obj)) ys" if "set ys \<subseteq> set xs" for ys
    using that
  proof (induction ys)
    case (Cons y ys)
    obtain b k obj where y: "y = (b, k, obj)" by (cases y)
    then have "storable_key k" using in_objects(2) [OF savable] Cons.prems by (auto simp: xs_def)
    then show ?case using Cons by (simp add: y object_entries_eq file_key_suffix)
  qed simp
  then have "filter (\<lambda>(name, _). \<not> ends_with name META_SUFFIX) (all_entries buckets) =
      map (\<lambda>(b, k, obj). (file_key b k, od_body obj)) xs" by (simp add: all_entries_def xs_def)
  moreover have "mset (filter (\<lambda>(name, _). \<not> ends_with name META_SUFFIX) data) =
      mset (filter (\<lambda>(name, _). \<not> ends_with name META_SUFFIX) (all_entries buckets))" by (simp only: mset_filter data)
  ultimately have "mset (filter (\<lambda>(name, _). \<not> ends_with name META_SUFFIX) data) =
      mset (map (\<lambda>(b, k, obj). (file_key b k, od_body obj)) xs)" by (simp only:)
  from mset_map_back [OF this] obtain ys where ys: "mset ys = mset xs"
    and files: "filter (\<lambda>(name, _). \<not> ends_with name META_SUFFIX) data = map (\<lambda>(b, k, obj). (file_key b k, od_body obj)) ys"
    by metis
  have set: "set ys = set xs" "set data = set (all_entries buckets)" using ys data by (auto dest: mset_eq_setD)
  have "distinct (map fst data)"
    using distinct_entries [OF savable] mset_eq_imp_distinct_iff [of "map fst data"] data by (metis mset_map)
  moreover have "(meta_key b k, json_text (meta_json obj)) \<in> set data" if "(b, k, obj) \<in> set ys" for b k obj
    using that unfolding set xs_def all_entries_def by (force simp: object_entries_eq)
  ultimately have meta: "om_get data (meta_key b k) = Some (json_text (meta_json obj))" if "(b, k, obj) \<in> set ys" for b k obj
    using that by (simp add: om_get_eq)
  have load: "load_objects data (map (\<lambda>(b, k, obj). (file_key b k, od_body obj)) ys) [] = Inr (fold place_object ys [])"
    using in_objects(1-3) [OF savable] meta set(1) by (intro load_all) (auto simp: xs_def)
  have "distinct (map (\<lambda>(b, k, obj). (b, k)) ys)"
    using distinct_objects [OF savable] mset_eq_imp_distinct_iff [of "map (\<lambda>(b, k, obj). (b, k)) ys"] ys
    unfolding xs_def by (metis mset_map)
  note lookup = lookup_placed [OF this, of "[]"]
  have "bucket_lookup (fold place_object ys []) b k = map_option saved_object (bucket_lookup buckets b k)" for b k
  proof -
    have "distinct (map fst (map (\<lambda>(b, k, obj). ((b, k), obj)) ys))"
      using \<open>distinct (map (\<lambda>(b, k, obj). (b, k)) ys)\<close> by (simp add: comp_def case_prod_beta')
    then have "map_of (map (\<lambda>(b, k, obj). ((b, k), obj)) ys) (b, k) = Some obj \<longleftrightarrow> (b, k, obj) \<in> set ys" for obj
      by (subst map_of_eq_Some_iff) force+
    then have "map_of (map (\<lambda>(b, k, obj). ((b, k), obj)) ys) (b, k) = bucket_lookup buckets b k"
      using lookup_iff [OF savable] unfolding set(1) xs_def by (metis not_None_eq)
    then show ?thesis using lookup [of b k]
      by (simp add: bucket_lookup_def om_get_def split: option.split)
  qed
  then show ?thesis using load by (simp add: bucket_fromSerializedData_def files)
qed


lemma int32_small: "- (2 ^ 31) \<le> x \<Longrightarrow> x < 2 ^ 31 \<Longrightarrow> to_int32 x = x"
  by (simp add: to_int32_def signed_take_bit_int_eq_self)

lemma sample_hashes:
  "shortHash ''d/a.b'' = ''597fdea''" "shortHash ''d/a'' = ''17d76''" "shortHash ''v.0/a'' = ''69478ca''"
  by (simp_all add: shortHash_def int32_small hex_nat.simps hex_digit_def)

definition sample_object :: object_data where
  "sample_object = \<lparr>od_body = ''hello'', od_meta = [(''contentLength'', PropJs (JNum 5)), (''etag'', PropJs (JStr ''5d41'')),
     (''contentType'', PropJs JUndef), (''expires'', PropDate 1700000000123)]\<rparr>"

definition sample_buckets :: buckets where
  "sample_buckets = [(''my-bucket'', [(''d/a.b'', sample_object), (''d/a'', sample_object)])]"

definition sample_loaded :: object_data where
  "sample_loaded = \<lparr>od_body = ''hello'', od_meta = [(''contentLength'', PropJs (JNum 5)), (''etag'', PropJs (JStr ''5d41'')),
     (''expires'', PropJs (JStr ''2023-11-14T22:13:20.123Z''))]\<rparr>"

lemma sample_expires: "toISOString 1700000000123 = ''2023-11-14T22:13:20.123Z''"
  by code_simp

lemma sample_saved: "saved_object sample_object = sample_loaded"
  by (simp add: saved_object_def sample_object_def sample_loaded_def sample_expires)

lemma sample_savable: "savable sample_buckets"
proof -
  have "key_prefix ''d/a.b'' = ''d/a''" "key_extension ''d/a.b'' = ''.b''"
    "key_prefix ''d/a'' = ''d/a''" "key_extension ''d/a'' = []" by code_simp+
  then show ?thesis
    by (simp add: sample_hashes savable_def sample_buckets_def om_inv_def storable_key_def ends_with_def META_SUFFIX_def
        savable_object_def sample_object_def normal_segment_def)
qed

definition sample_disk :: disk where
  "sample_disk =
     \<lparr>dk_files = [([''data'', ''buckets'', ''my-bucket'', ''old''], ''x''), ([''data'', ''entities''], ''y'')],
      dk_dirs = [[], [''data''], [''data'', ''buckets''], [''data'', ''buckets'', ''my-bucket'']]\<rparr>"

lemma sample_fits: "fits [''data'', ''buckets''] (bucket_serialize sample_buckets) sample_disk"
  by (simp add: fits_def bucket_serialize_def sample_buckets_def object_entries_def sample_hashes extension_def META_SUFFIX_def
      om_set_all_def sample_disk_def path_join_def om_inv_def om_get_def Let_def)


text \<open>Keys that are not storable: the first is loaded under another key, the second not at all.\<close>

lemma dotted_directory_is_lost:
  "bucket_fromSerializedData (Some (bucket_serialize [(''b'', [(''v.0/a'', sample_object)])])) =
    Inr [(''b'', [(''v-69478ca.0/'', \<lparr>od_body = ''hello'', od_meta = map (\<lambda>(n, v). (n, PropJs v)) no_meta\<rparr>)])]"
  by (simp add: bucket_serialize_def object_entries_def sample_hashes extension_def META_SUFFIX_def om_set_all_def
      bucket_fromSerializedData_def ends_with_def load_object_def read_path_def before_last_def om_get_def sample_object_def Let_def)

lemma metadata_name_is_lost:
  "bucket_fromSerializedData (Some (bucket_serialize [(''b'', [(''a.eventual.meta.json'', sample_object)])])) = Inr []"
proof -
  have "file_key ''b'' ''a.eventual.meta.json'' = meta_key ''b'' ''a.eventual.meta.json''"
    by (simp add: file_key_def meta_key_def key_extension_def extension_def META_SUFFIX_def)
  then show ?thesis
    by (simp add: bucket_serialize_def object_entries_eq om_set_all_def bucket_fromSerializedData_def)
qed

section \<open>Reading, writing and listing\<close>

lemma lookup_set_object:
  "bucket_lookup (bs_buckets (set_object b k obj s)) b' k' =
    (if b' = b \<and> k' = k then Some obj else bucket_lookup (bs_buckets s) b' k')"
proof -
  have "om_get [] k' = None" by (simp add: om_get_def)
  then show ?thesis by (auto simp: bucket_lookup_def set_object_def om_get_set the_default_def split: option.split)
qed

lemma get_lookup: "bucket_get b k None s = bucket_lookup (bs_buckets s) b k"
  by (simp add: bucket_get_def getObjectFromMap_def bucket_lookup_def split: option.split)

lemma get_after_put:
  "bucket_get b' k' None (fst (bucket_put md5 b k data options s)) =
    (if b' = b \<and> k' = k
     then Some \<lparr>od_body = data,
       od_meta = om_set_all [(''contentLength'', PropJs (JNum (int (length data)))), (''etag'', PropJs (JStr (getEtag md5 data)))] options\<rparr>
     else bucket_get b' k' None s)"
  by (simp add: get_lookup bucket_put_def Let_def push_bucket_event_def lookup_set_object)

lemma get_after_delete:
  "bucket_get b' k' None (bucket_delete b k s) = (if b' = b \<and> k' = k then None else bucket_get b' k' None s)"
  by (auto simp: get_lookup bucket_delete_def push_bucket_event_def bucket_lookup_def om_get_set om_get_del split: option.split)

text \<open>Pages that are made of others.\<close>

definition map_page :: "('a \<Rightarrow> 'b) \<Rightarrow> 'a page \<Rightarrow> 'b page" where
  "map_page f p = \<lparr>pg_items = map f (pg_items p), pg_filteredCount = pg_filteredCount p, pg_nextToken = pg_nextToken p\<rparr>"

lemma read_mapped_pages:
  "read_pages fuel ask token = Some (Inr ps) \<Longrightarrow>
   read_pages fuel (\<lambda>t. try_bind (ask t) (\<lambda>p. Inr (map_page f p))) token = Some (Inr (map (map_page f) ps))"
  by (induction fuel arbitrary: token ps) (auto simp: map_page_def split: sum.splits option.splits)

text \<open>
  Listing a bucket page by page gives every key with the prefix, after the given one, once and in the
  order of \<open>localeCompare\<close>.
\<close>

theorem listed_pages_cover_bucket:
  assumes "om_get (bs_buckets s) b = Some objects" and "lr_maxKeys request \<noteq> Some 0"
  shows "\<exists>ps. read_pages (Suc (length objects)) (\<lambda>token. bucket_list localeCompare b (request\<lparr>lr_nextToken := token\<rparr>) s) None =
      Some (Inr ps) \<and>
    map fst (concat (map pg_items ps)) =
      filter (list_selects request) (map fst (sort_by (\<lambda>x y. localeCompare (fst x) (fst y)) objects))"
proof -
  define ask where "ask = paginateItems objects (Some (\<lambda>a b. localeCompare (fst a) (fst b)))
    (Some (\<lambda>(key, _). list_selects request key)) (Some ASC) (lr_maxKeys request)"
  define f where "f = (\<lambda>(key :: string, obj). (key, meta_get obj ''contentLength'', meta_get obj ''etag''))"
  have same: "list_selects (request\<lparr>lr_nextToken := token\<rparr>) = list_selects request" for token
    by (simp add: list_selects_def fun_eq_iff)
  have list: "bucket_list localeCompare b (request\<lparr>lr_nextToken := token\<rparr>) s = try_bind (ask token) (\<lambda>p. Inr (map_page f p))" for token
    using assms(1) by (simp add: bucket_list_def ask_def same map_page_def f_def)
  from pages_cover_items [OF assms(2), of objects "Some (\<lambda>a b. localeCompare (fst a) (fst b))"
      "Some (\<lambda>(key, _). list_selects request key)" "Some ASC"] obtain ps where
    ps: "read_pages (Suc (length objects)) ask None = Some (Inr ps)"
      "concat (map pg_items ps) = filter (\<lambda>(key, _). list_selects request key) (sort_by (\<lambda>x y. localeCompare (fst x) (fst y)) objects)"
    by (auto simp: ask_def arranged_def)
  have "map fst (concat (map pg_items (map (map_page f) ps))) = map fst (concat (map pg_items ps))"
    by (induction ps) (auto simp: map_page_def f_def)
  also have "\<dots> = filter (list_selects request) (map fst (sort_by (\<lambda>x y. localeCompare (fst x) (fst y)) objects))"
    by (simp add: ps(2) filter_map comp_def case_prod_beta')
  finally show ?thesis using read_mapped_pages [OF ps(1), of f] unfolding list by blast
qed

lemma listed_pages_cover_bucket_witness:
  "\<exists>ps. read_pages 3 (\<lambda>token. bucket_list (\<lambda>x y. if x = y then 0 else if str_less x y then - 1 else 1) ''my-bucket''
      ((\<lparr>lr_startAfter = None, lr_prefix = Some ''d/'', lr_maxKeys = Some 1, lr_nextToken = None\<rparr>)\<lparr>lr_nextToken := token\<rparr>)
      \<lparr>bs_buckets = sample_buckets, bs_events = []\<rparr>) None = Some (Inr ps) \<and>
    map fst (concat (map pg_items ps)) = [''d/a'', ''d/a.b'']"
  using listed_pages_cover_bucket [of "\<lparr>bs_buckets = sample_buckets, bs_events = []\<rparr>" "''my-bucket''"
      "[(''d/a.b'', sample_object), (''d/a'', sample_object)]"
      "\<lparr>lr_startAfter = None, lr_prefix = Some ''d/'', lr_maxKeys = Some 1, lr_nextToken = None\<rparr>"
      "\<lambda>x y. if x = y then 0 else if str_less x y then - 1 else 1"]
  by (simp add: sample_buckets_def om_get_def list_selects_def starts_with_def eval_nat_numeral)

end
