(* ===== verification/LogAgents.thy ===== *)
theory LogAgents
  imports Grouping JsonText Pagination LocalEntityStore
begin

text \<open>
  core-runtime/src/log-agent.ts: what workflows and tasks log is kept until it is flushed to the logs
  of their executions; core-runtime/src/local/clients/logs-client.ts: the logs of the local runtime.
  The client of the agent, Node's \<open>format\<close> and the text of a date are parameters; data that is given as
  a function is the list it returns.
\<close>

datatype log_level = TRACE | DEBUG | INFO | WARN | ERROR

definition LOG_LEVELS :: "log_level list" where
  "LOG_LEVELS = [TRACE, DEBUG, INFO, WARN, ERROR]"

fun level_text :: "log_level \<Rightarrow> string" where
  "level_text TRACE = ''TRACE''"
| "level_text DEBUG = ''DEBUG''"
| "level_text INFO = ''INFO''"
| "level_text WARN = ''WARN''"
| "level_text ERROR = ''ERROR''"

datatype log_context = ExecutionLogContext string | TaskLogContext string nat string

fun context_execution :: "log_context \<Rightarrow> string" where
  "context_execution (ExecutionLogContext executionId) = executionId"
| "context_execution (TaskLogContext executionId seq taskName) = executionId"

record log_entry =
  lg_context :: log_context
  lg_level :: log_level
  lg_data :: "js list"
  lg_time :: int

record log_agent =
  la_logs :: "log_entry list"
  la_seen :: nat
  la_levelIndex :: nat

definition level_index :: "log_level \<Rightarrow> nat" where
  "level_index level = the_default 0 (find_index (\<lambda>l. l = level) LOG_LEVELS)"

definition LogAgent :: "log_level \<Rightarrow> log_agent" where
  "LogAgent level = \<lparr>la_logs = [], la_seen = 0, la_levelIndex = level_index level\<rparr>"

definition isLogLevelSatisfied :: "log_level \<Rightarrow> log_agent \<Rightarrow> bool" where
  "isLogLevelSatisfied level a \<longleftrightarrow> la_levelIndex a \<le> level_index level"

definition logWithContext :: "int \<Rightarrow> log_context \<Rightarrow> log_level \<Rightarrow> js list \<Rightarrow> log_agent \<Rightarrow> log_agent" where
  "logWithContext now ctx level data a =
     (if isLogLevelSatisfied level a
      then a\<lparr>la_seen := Suc (la_seen a),
             la_logs := la_logs a @ [\<lparr>lg_context = ctx, lg_level = level, lg_data = data, lg_time = now\<rparr>]\<rparr>
      else a)"

definition DefaultLogFormatter_format :: "(js list \<Rightarrow> string) \<Rightarrow> log_entry \<Rightarrow> string" where
  "DefaultLogFormatter_format format entry =
     (case lg_context entry of
        TaskLogContext executionId seq taskName \<Rightarrow>
          level_text (lg_level entry) @ [CHR 0x09] @ taskName @ '':'' @ nat_str seq @ [CHR 0x09] @ format (lg_data entry)
      | ExecutionLogContext executionId \<Rightarrow>
          level_text (lg_level entry) @ [CHR 0x09] @ format (lg_data entry))"

text \<open>
  What is sent, for each execution; the error if the client rejects one of the requests. The entries
  are taken off the list before they are sent.
\<close>

definition rejected_result :: "js \<Rightarrow> js" where
  "rejected_result err = JObj [(''status'', JStr ''rejected''), (''reason'', err)]"

definition flush_requests :: "(log_entry \<Rightarrow> string) \<Rightarrow> log_entry list \<Rightarrow> (string \<times> (int \<times> string) list) list" where
  "flush_requests format logsToSend =
     map (\<lambda>(execution, entries). (execution, map (\<lambda>e. (lg_time e, format e)) (sort_key lg_time entries)))
       (groupBy logsToSend (\<lambda>l. context_execution (lg_context l)))"

definition flush ::
  "(log_entry \<Rightarrow> string) \<Rightarrow> (string \<Rightarrow> (int \<times> string) list \<Rightarrow> js option) \<Rightarrow> log_agent \<Rightarrow>
   log_agent \<times> (string \<times> (int \<times> string) list) list \<times> (js + unit)" where
  "flush format putExecutionLogs a =
     (let requests = flush_requests format (la_logs a);
          rejected = concat (map (\<lambda>(execution, ms). case putExecutionLogs execution ms of None \<Rightarrow> [] | Some err \<Rightarrow> [err]) requests)
      in (a\<lparr>la_logs := []\<rparr>, requests,
          if rejected \<noteq> [] then Inl (mk_Error (''Logs failed to send: '' @ json_text (JArr (map rejected_result rejected))))
          else Inr ()))"

section \<open>What is flushed\<close>

text \<open>The calls of \<open>logWithContext\<close>: what they log, as an entry each.\<close>

definition log_call :: "log_entry \<Rightarrow> log_agent \<Rightarrow> log_agent" where
  "log_call e = logWithContext (lg_time e) (lg_context e) (lg_level e) (lg_data e)"

lemma logged:
  "la_levelIndex (fold log_call es a) = la_levelIndex a"
  "la_logs (fold log_call es a) = la_logs a @ filter (\<lambda>e. la_levelIndex a \<le> level_index (lg_level e)) es"
  "la_seen (fold log_call es a) = la_seen a + length (filter (\<lambda>e. la_levelIndex a \<le> level_index (lg_level e)) es)"
  by (induction es arbitrary: a) (auto simp: log_call_def logWithContext_def isLogLevelSatisfied_def)

text \<open>
  A flush sends what was logged at the level of the agent or above: one request for each execution that
  logged something, with its entries in the order of their times and, for the same time, of logging.
\<close>

theorem flush_sends_logs:
  assumes "flush format putExecutionLogs (fold log_call es (LogAgent level)) = (a, requests, r)"
  shows "distinct (map fst requests) \<and>
    ((execution, messages) \<in> set requests \<longleftrightarrow>
      (let entries = filter (\<lambda>e. level_index level \<le> level_index (lg_level e) \<and> context_execution (lg_context e) = execution) es
       in entries \<noteq> [] \<and> messages = map (\<lambda>e. (lg_time e, format e)) (sort_key lg_time entries)))"
proof -
  define logs where "logs = filter (\<lambda>e. level_index level \<le> level_index (lg_level e)) es"
  have requests: "requests = flush_requests format logs"
    using assms by (simp add: flush_def logged LogAgent_def logs_def Let_def)
  have "map fst requests = om_keys (groupBy logs (\<lambda>l. context_execution (lg_context l)))"
    by (simp add: requests flush_requests_def om_keys_def case_prod_beta' comp_def)
  then have "distinct (map fst requests)" using groupBy_inv by (metis om_inv_def om_keys_def)
  moreover have "(execution, messages) \<in> set requests \<longleftrightarrow>
      (\<exists>g. (execution, g) \<in> set (groupBy logs (\<lambda>l. context_execution (lg_context l))) \<and>
        messages = map (\<lambda>e. (lg_time e, format e)) (sort_key lg_time g))"
    by (force simp: requests flush_requests_def)
  moreover have "\<dots> \<longleftrightarrow> execution \<in> (\<lambda>l. context_execution (lg_context l)) ` set logs \<and>
      messages = map (\<lambda>e. (lg_time e, format e)) (sort_key lg_time (filter (\<lambda>e. context_execution (lg_context e) = execution) logs))"
    by (auto simp: groupBy_entry)
  moreover have "execution \<in> (\<lambda>l. context_execution (lg_context l)) ` set logs \<longleftrightarrow>
      filter (\<lambda>e. context_execution (lg_context e) = execution) logs \<noteq> []"
    by (auto simp: filter_empty_conv)
  moreover have "filter (\<lambda>e. context_execution (lg_context e) = execution) logs =
      filter (\<lambda>e. level_index level \<le> level_index (lg_level e) \<and> context_execution (lg_context e) = execution) es"
    by (simp add: logs_def filter_filter conj_commute)
  ultimately show ?thesis by (simp add: Let_def)
qed

definition sample_logs :: "log_entry list" where
  "sample_logs =
     [\<lparr>lg_context = ExecutionLogContext ''w/1'', lg_level = WARN, lg_data = [], lg_time = 7\<rparr>,
      \<lparr>lg_context = TaskLogContext ''w/1'' 0 ''t'', lg_level = ERROR, lg_data = [], lg_time = 5\<rparr>,
      \<lparr>lg_context = ExecutionLogContext ''w/1'', lg_level = DEBUG, lg_data = [], lg_time = 6\<rparr>]"

lemma flush_sends_logs_witness:
  "(''w/1'', [(5, ''ERROR''), (7, ''WARN'')]) \<in>
    set (fst (snd (flush (\<lambda>e. level_text (lg_level e)) (\<lambda>_ _. None) (fold log_call sample_logs (LogAgent INFO)))))"
proof -
  obtain a requests r where f: "flush (\<lambda>e. level_text (lg_level e)) (\<lambda>_ _. None) (fold log_call sample_logs (LogAgent INFO)) = (a, requests, r)"
    by (metis prod_cases3)
  from flush_sends_logs [OF f, of "''w/1''" "[(5, ''ERROR''), (7, ''WARN'')]"]
  have "(''w/1'', [(5, ''ERROR''), (7, ''WARN'')]) \<in> set requests"
    by (simp add: sample_logs_def level_index_def LOG_LEVELS_def)
  then show ?thesis unfolding f by simp
qed

text \<open>Logs that the client rejects are lost: the next flush sends nothing.\<close>

lemma rejected_logs_are_lost:
  "flush format send' (fst (flush format send a)) = (fst (flush format send a), [], Inr ())"
  by (simp add: flush_def Let_def flush_requests_def groupBy_def)

section \<open>The logs of the local runtime\<close>

record local_log =
  ll_time :: "int option"
  ll_message :: string

type_synonym local_logs = "(string, local_log list) omap"

definition putExecutionLogs :: "string \<Rightarrow> local_log list \<Rightarrow> local_logs \<Rightarrow> local_logs" where
  "putExecutionLogs executionId logEntries st =
     om_set executionId (the_default [] (om_get st executionId) @ logEntries) st"

record logs_request =
  gl_executionId :: "string option"
  gl_workflowName :: "string option"
  gl_maxResults :: "nat option"
  gl_nextToken :: "string option"

definition nonempty :: "string option \<Rightarrow> string option" where
  "nonempty s = (if s = Some [] then None else s)"

text \<open>The comparison that is given to the sort: the time of the first of the two.\<close>

definition log_order :: "local_log \<times> string \<Rightarrow> local_log \<times> string \<Rightarrow> int" where
  "log_order a b = the_default 0 (ll_time (fst a))"

definition requested_logs :: "logs_request \<Rightarrow> local_logs \<Rightarrow> (local_log \<times> string) list" where
  "requested_logs request st =
     (case nonempty (gl_executionId request) of
        Some executionId \<Rightarrow> map (\<lambda>e. (e, executionId)) (the_default [] (om_get st executionId))
      | None \<Rightarrow> concat (map (\<lambda>(name, entries). map (\<lambda>e. (e, name)) entries)
          (filter (\<lambda>(name, _). case nonempty (gl_workflowName request) of
             Some w \<Rightarrow> starts_with name (w @ ''/'') | None \<Rightarrow> True) st)))"

definition getExecutionLogs :: "logs_request \<Rightarrow> local_logs \<Rightarrow> js + (local_log \<times> string) page" where
  "getExecutionLogs request st =
     (if nonempty (gl_executionId request) \<noteq> None \<and> nonempty (gl_workflowName request) \<noteq> None
      then Inl (mk_Error ''One of executionId, workflowName, or neither are allowed.'')
      else paginateItems (requested_logs request st) (Some log_order) None (Some ASC)
        (gl_maxResults request) (gl_nextToken request))"

text \<open>The files of the logs; a time of 0 is none.\<close>

definition log_line :: "(int \<Rightarrow> string) \<Rightarrow> local_log \<Rightarrow> string" where
  "log_line isoDate d = (case ll_time d of Some t \<Rightarrow> if t = 0 then [] else isoDate t | None \<Rightarrow> []) @ '': '' @ ll_message d"

definition logs_serialize :: "(int \<Rightarrow> string) \<Rightarrow> local_logs \<Rightarrow> (string, string) omap" where
  "logs_serialize isoDate st = map (\<lambda>(name, data). (name, join_with [CHR 0x0A] (map (log_line isoDate) data))) st"

definition js_space :: "char \<Rightarrow> bool" where
  "js_space c \<longleftrightarrow> of_char c \<in> {9 :: nat, 10, 11, 12, 13, 32, 160}"

definition js_trim :: "string \<Rightarrow> string" where
  "js_trim s = rev (dropWhile js_space (rev (dropWhile js_space s)))"

text \<open>\<open>None\<close> as the time of what is read is a date that is none.\<close>

definition read_line :: "(string \<Rightarrow> int option) \<Rightarrow> string \<Rightarrow> local_log list" where
  "read_line date l =
     (case split_on CHR '':'' l of
        time # messageParts \<Rightarrow>
          if time = [] then []
          else [\<lparr>ll_time = date time, ll_message = js_trim (join_with '':'' messageParts)\<rparr>]
      | [] \<Rightarrow> [])"

definition logs_fromSerializedData :: "(string \<Rightarrow> int option) \<Rightarrow> (string, string) omap option \<Rightarrow> local_logs" where
  "logs_fromSerializedData date data =
     (case data of
        None \<Rightarrow> []
      | Some d \<Rightarrow> map (\<lambda>(name, file). (name, concat (map (read_line date) (split_on CHR 0x0A file)))) d)"

text \<open>The sort gets no order: of two entries each comes after the other.\<close>

lemma logs_are_not_ordered:
  assumes "ll_time (fst a) = Some t" and "0 < t" and "ll_time (fst b) = Some t'" and "0 < t'"
  shows "\<not> comparison_on {a, b} log_order"
  using assms by (auto simp: comparison_on_def log_order_def)

text \<open>
  Logs are not read back as they were written: the text of a date has colons of its own, and what
  follows the first becomes part of the message. A line break in a message starts another entry.
\<close>

lemma saved_log_is_garbled:
  assumes "isoDate t = hour @ CHR '':'' # rest" and "CHR '':'' \<notin> set hour" and "hour \<noteq> []" and "t \<noteq> 0"
    and "CHR 0x0A \<notin> set hour \<union> set rest \<union> set m"
  shows "logs_fromSerializedData date (Some (logs_serialize isoDate [(execution, [\<lparr>ll_time = Some t, ll_message = m\<rparr>])])) =
    [(execution, [\<lparr>ll_time = date hour, ll_message = js_trim (rest @ '': '' @ m)\<rparr>])]"
proof -
  have line: "log_line isoDate \<lparr>ll_time = Some t, ll_message = m\<rparr> = hour @ CHR '':'' # (rest @ '': '' @ m)"
    using assms(1,4) by (simp add: log_line_def)
  have "join_with '':'' (split_on CHR '':'' (rest @ '': '' @ m)) = rest @ '': '' @ m" by (rule join_split)
  then have "read_line date (hour @ CHR '':'' # (rest @ '': '' @ m)) = [\<lparr>ll_time = date hour, ll_message = js_trim (rest @ '': '' @ m)\<rparr>]"
    using assms(3) by (simp add: read_line_def split_on_sep [OF assms(2)])
  moreover have "split_on CHR 0x0A (hour @ CHR '':'' # (rest @ '': '' @ m)) = [hour @ CHR '':'' # (rest @ '': '' @ m)]"
    using assms(5) by (intro split_on_no_sep) auto
  ultimately show ?thesis by (simp add: logs_fromSerializedData_def logs_serialize_def line)
qed

lemma saved_log_is_garbled_example:
  "logs_fromSerializedData (\<lambda>_. None) (Some (logs_serialize (\<lambda>_. ''1970-01-01T00:00:01.000Z'')
     [(''w/1'', [\<lparr>ll_time = Some 1000, ll_message = ''hello''\<rparr>])])) =
   [(''w/1'', [\<lparr>ll_time = None, ll_message = ''00:01.000Z: hello''\<rparr>])]"
  by code_simp

end
