(* ===== verification/Spec2Isabelle.thy ===== *)
theory Spec2Isabelle
  imports Prelude JsValue JsRecord Results EventIterator ExecutionIds Schedules WorkflowEvents Calls Base64
    EventualFactories CallExecutors Eventuals WorkflowExecutor WorkflowSpec WorkflowFrame
    WorkflowSimulation WorkflowRefinement WorkflowProperties WorkflowRuns WorkflowInvariants
    Grouping ExecutorProviders Orchestrator OrchestratorRefinement Orchestrations ReplayMismatch OrchestratorProperties
    EntityKeys Pagination LocalEntityStore LocalStoreLaws LocalStoreStreams LocalStoreIndices LocalStoreQueries
    TransactionExecutor TransactionRefinement Transactions
    TimeControl LocalQueues RuntimeUtils JsonText ExecutionStores ExecutionClients AwsStores TaskWorkers
    LocalEnvironment LocalEnvironmentLoop LocalEnvironmentProperties AwsTimers
    AwsEntityStore AwsEntityLaws AwsEntityKeys AwsEntityRequests AwsEntityItems AwsEntityAgreement
    AwsEntityMemory AwsEntityProperties AwsPagination AwsEntityQueries
    TestMocks TestEnvironment TestEnvironmentProperties
    LocalPersistence LocalBuckets LocalBucketFiles LogAgents
begin

text \<open>
  Eventual: durable workflows on an event-sourced executor.

  \<^bold>\<open>The program.\<close> A workflow of Eventual is an async function whose calls (tasks, timers, signals,
  child workflows, requests to entities, buckets, queues, sockets, search and transactions) are
  intercepted. Each call gets a sequence number and an eventual, a promise that is resolved by a
  later history event. An execution is never kept alive: when new events arrive, the workflow
  is run again from the start on its history, the calls it repeats are matched to the call
  events recorded before, and only calls beyond the history are executed. The packages under
  src/packages/@eventual are core (definitions of calls and events), core-runtime (the
  executor, the orchestrator, call executors, stores, the local runtime) and bindings (AWS,
  CDK, compiler, CLI, client). The development models core-runtime and the parts of core it
  rests on.

  \<^bold>\<open>The theories.\<close>

  \<^item> Prelude: lemmas on lists, options and digits, and the shared collections of facts.
  \<^item> JsValue, JsRecord: JavaScript values and errors (core/src/error.ts), JSON, \<open>deepEqual\<close> and the
    class tests of core-runtime/src/utils.ts; objects with numeric keys.
  \<^item> Results: core-runtime/src/result.ts. EventIterator: core-runtime/src/iterator.ts.
    ExecutionIds: core-runtime/src/workflow/execution.ts. Schedules: core-runtime/src/schedule.ts
    and core/src/schedule.ts. Base64: what btoa and atob do to an execution id in a task token.
  \<^item> WorkflowEvents: core/src/internal/workflow-events.ts and core-runtime/src/workflow/events.ts;
    Calls: core/src/internal/calls.ts.
  \<^item> EventualFactories: eventual-definition.ts, call-eventual-factory.ts and the factories under
    core-runtime/src/workflow/call-executors-and-factories; CallExecutors: the executors there
    and under core-runtime/src/call-executors, task-queue-executor-adaptor.ts.
  \<^item> Eventuals, WorkflowExecutor: the class of core-runtime/src/workflow/workflow-executor.ts. Its
    fields are those of the records \<open>core\<close> and \<open>executor\<close>, its methods the definitions of the same
    name; the two queues of Node's event loop are fields too, and \<open>loop_step\<close> takes them in
    Node's order.
  \<^item> WorkflowSpec: what a workflow is promised, without histories, iterators, runs and ticks: calls
    are numbered and logged, and completion events are applied one after the other, each when
    the workflow has come to rest. WorkflowFrame, WorkflowSimulation and WorkflowRefinement show
    that the executor implements it; WorkflowProperties, WorkflowRuns and WorkflowInvariants
    hold what follows for its users.
  \<^item> Grouping: the batch functions of core-runtime/src/utils.ts. ExecutorProviders:
    core-runtime/src/providers/executor-provider.ts over the two state stores of histories: the one
    in S3 (aws-runtime/src/stores/execution-history-state-store.ts) reads back JSON copies, the local
    one shares its arrays with the executors that run.
    Orchestrator: core-runtime/src/handlers/orchestrator.ts, an orchestration being a run of the
    workflow with everything it stores, sends and reports. OrchestratorRefinement, Orchestrations
    and OrchestratorProperties show what the stored histories and reports are; ReplayMismatch is
    the replay of a history that lacks calls.
  \<^item> Actions: procedures that pass a state and may throw. EntityKeys: the keys of
    core-runtime/src/stores/entity-store.ts and core/src/internal/entity.ts. Pagination and
    LocalEntityStore: core-runtime/src/local/stores/pagination.ts and entity-store.ts there, with
    the base class of the store. LocalStoreLaws says what single operations do to the items of
    the store, seen as one map; LocalStoreStreams, LocalStoreIndices and LocalStoreQueries are
    about its stream events, indices and queries.
  \<^item> TransactionExecutor: core-runtime/src/transaction-executor.ts, over any entity store and with
    other clients that change it between the accesses of a transaction. TransactionRefinement
    proves transactions serial from the contract of a store; Transactions shows that the local
    store keeps it.
  \<^item> TimeControl: core-runtime/src/local/time-controller.ts, the clock of the local runtime, with
    the abstract clock \<open>clock_op\<close> that it implements. LocalQueues:
    core-runtime/src/local/clients/queue-client.ts and the polling of queues in
    local-environment.ts. RuntimeUtils: the rest of core-runtime/src/utils.ts, which events streams
    and bucket handlers get, the chain of middlewares and the hash of inputs.
  \<^item> JsonText: reading JSON text back. ExecutionStores: the local stores of executions, histories and
    tasks. ExecutionClients: core-runtime/src/clients/workflow-client.ts, task-client.ts and
    task-token.ts, with the locales \<open>executions\<close> and \<open>exclusive_executions\<close> that say what they rest
    on; the local store is the first, the store on DynamoDB also the second. What starts and
    completions do to a store, in any sequence, is \<open>execution_ops\<close>. AwsStores:
    aws-runtime/src/stores/execution-store.ts and task-store.ts. TaskWorkers:
    core-runtime/src/handlers/task-worker.ts, task-fallback-handler.ts and timer-handler.ts.
  \<^item> LocalEnvironment: core-runtime/src/local/local-environment.ts, the event loop of the local
    runtime, as a state machine whose steps are the passing of time, timers that fire, events that
    are scheduled and the ends of orchestrations. LocalEnvironmentLoop proves its invariant: events
    are pending or handed out, and while events are pending a timer or a callback is under way.
    LocalEnvironmentProperties draws the consequences.
  \<^item> AwsTimers: aws-runtime/src/clients/timer-client.ts and
    core-runtime/src/handlers/schedule-forwarder.ts, how a timer gets to the queue of timers.
  \<^item> AwsEntityStore: the requests of aws-runtime/src/stores/entity-store.ts and the names of tables in
    aws-runtime/src/utils.ts. AwsEntityLaws states in the locale \<open>dynamo_items\<close> what DynamoDB does with
    them; AwsEntityKeys, AwsEntityRequests and AwsEntityItems say what they make of an item,
    AwsEntityAgreement is the simulation with the local store, AwsEntityMemory a database in memory,
    AwsEntityProperties what follows. AwsPagination: the pages of utils.ts, over the locale
    \<open>dynamo_pages\<close>, whose answers have the items that pass a filter and can be empty before the
    end; AwsEntityQueries: the queries and scans of the store.
  \<^item> TestMocks: testing/src/providers/task-provider.ts and subscription-provider.ts, mocked tasks and
    the subscriptions of a test. TestEnvironment: testing/src/environment.ts, whose clock ticks by the
    second on demand; TestEnvironmentProperties: what one tick and several come to.
  \<^item> LocalPersistence: core-runtime/src/local/local-persistance-store.ts, the files of the local stores
    with their paths as \<open>path.join\<close> makes them. LocalBuckets:
    core-runtime/src/local/stores/bucket-store.ts; LocalBucketFiles: what is saved of it on disk is
    loaded again, and its listing. LogAgents: core-runtime/src/log-agent.ts and the logs of the
    local runtime, core-runtime/src/local/clients/logs-client.ts.

  \<^bold>\<open>What the lemmas show.\<close> A replay from a persisted history and an executor
  kept in memory end in the same state, with the same result, and emit the same calls; a run always
  ends; a workflow that does not repeat its calls is stopped with a DeterminismError; promises
  settle once; events are deduplicated; the event an executor submits resolves the eventual of its
  call, for calls of buckets, entities, queues, sockets and transactions (not of searches, a
  finding). The histories that orchestrations which succeed store in S3 replay to the state of the
  specification, for events and calls that survive JSON; those of the hybrid provider do not. The
  stream events and the indices of the entity store follow its items, apart from values that an
  index rejects and keys that collide; transactional writes are atomic, and transactions that commit
  are serial as long as versions only grow. The clock hands out what is due in order and keeps the
  rest. On DynamoDB executions are started and attempts of tasks handled at most once; a claimed
  task reports its end once, unless its log cannot be flushed after the report; heartbeats that stop
  are noticed within two periods. The local event loop hands every event out once, not before its
  time, and to the workers it is for, and never waits with an event pending and no timer armed,
  apart from events for the time 0. On AWS timers for a point in time are queued in time, unless the
  name of their schedule is taken; long durations are not. The entity store on DynamoDB answers as
  the local one does, apart from undefined attributes, puts that keep the version, removals with an
  expected version, and indices; its pages cover a table. A tick of the test environment that does
  not throw leaves nothing due. The buckets of the local runtime survive a restart, apart from the
  keys and the dates named as findings.

  \<^bold>\<open>Parameters.\<close> The user's workflow is a record of functions over an opaque state (\<open>workflow\<close>):
  everything it does between two turns of the event loop is a finite tree of calls,
  subscriptions and settlements (\<open>burst\<close>). Services and stores behind the call executors are the
  record \<open>clients\<close>. Current time is an argument. Entities are looked up in a function of their
  names; \<open>localeCompare\<close> is a function of two texts. The heap of heap-js is the record \<open>heap_ops\<close>
  with the contract \<open>heap_contract\<close>. DynamoDB is the record \<open>dynamo_ops\<close> with the contract of the
  locale \<open>dynamo_table\<close>, which a table in memory satisfies. EventBridge and SQS are the record
  \<open>timer_services\<close> with the contract of the locale \<open>aws_timer_services\<close>, again with an instance in
  memory. The entity store's DynamoDB is the record \<open>entity_dynamo\<close>. A worker's queue, timers, logs
  and the user's handlers are the record \<open>worker_env\<close>, in which everything may fail. What the workers
  called by a tick of the test environment ask of it is a function of the state.

  \<^bold>\<open>Termination and fuel.\<close> Everything is total except loops whose end depends on parameters, which
  are partial functions with \<open>None\<close> for a loop that does not end: \<open>event_loop\<close> and its abstraction
  \<open>spec_drain\<close>, for workflows whose microtasks never end; \<open>drainPastEvents\<close> and \<open>tick_groups\<close> of
  TimeControl and \<open>scanOrQueryLoop\<close> of AwsPagination, which return under the contracts of their
  heap and database; \<open>tick_loop\<close> and \<open>tick_generated\<close> of TestEnvironment, of which the first
  returns if its workers settle and the second may not. Theorems on runs state that the run returns; \<open>drain_fuel\<close> and \<open>run_fuel\<close> evaluate
  the specification on concrete workflows (the sample needs less than nine steps for each event)
  and agree with it whenever they return.

  \<^bold>\<open>Not modelled.\<close> The hooks of the executor for dates, metrics and the execution context; metrics
  and logs of the orchestrator; calls of a transaction that are not awaited before the next one;
  the order of integer-like keys in JavaScript objects; the
  texts that the local stores of executions and tasks are saved as; requests of the stores of
  executions and tasks to DynamoDB that fail for other reasons than their condition, and listing
  executions; the encoding of
  page tokens as text; presigned URLs of buckets and the buckets on S3; the entry points of the local
  environment for HTTP requests, which call a handler and return its response; the web sockets of
  tests; the other AWS bindings, CDK constructs, compiler, CLI and user interface.
\<close>

end
